(* ===== verification/Prelude.thy ===== *)
theory Prelude
  imports Main "HOL-Library.Word"
begin

text \<open>
  Shared vocabulary of the development: bytes, the exceptions of the package as values,
  sequencing of fallible steps, the part of Python's \<^verbatim>\<open>struct\<close> module the formats use,
  reading from a binary stream, and the generic list lemmas the components need.

  A \<^verbatim>\<open>bytes\<close> or \<^verbatim>\<open>bytearray\<close> value is a list of 8-bit words. A Python integer that the
  code keeps non-negative is a \<open>nat\<close>; an argument that a caller may pass as a negative
  number is an \<open>int\<close>. A function that may raise returns \<open>exn + 'a\<close>; the payload of an
  \<open>exn\<close> constructor is the constant text of the source's message (interpolated values are
  left out).
\<close>

unbundle bit_operations_syntax

named_theorems result_simps
  \<open>rewriting of fallible computations\<close>

named_theorems struct_simps
  \<open>packing and unpacking of fixed-width fields\<close>

section \<open>Bytes, exceptions, results\<close>

type_synonym byte = "8 word"
type_synonym bytes = "byte list"

text \<open>
  The exceptions of \<^verbatim>\<open>mosaic_archive/exceptions.py\<close>, those of the competitive contract and its reports,
  and the built-in ones the modelled code raises. \<open>OutOfFuel\<close> stands for a loop that does not return
  within the fuel it was given; every component that uses fuel proves that it never occurs.
\<close>

datatype exn =
    ArchiveFormatError string
  | UnsupportedVersionError string
  | AuthenticationError string
  | IntegrityError string
  | ValueError string
  | ContractValidationError string
  | ReportValidationError string
  | StructError string
  | OverflowError string
  | UnicodeError string
  | OSError string
  | FileExistsError string
  | FileNotFoundError string
  | RuntimeError string
  | KeyError string
  | IndexError string
  | StopIteration
  | OutOfFuel

type_synonym 'a result = "exn + 'a"

definition bindR :: "'a result \<Rightarrow> ('a \<Rightarrow> 'b result) \<Rightarrow> 'b result" where
  "bindR m f = (case m of Inl e \<Rightarrow> Inl e | Inr x \<Rightarrow> f x)"

lemma bindR_simps [simp]:
  "bindR (Inl e) f = Inl e"
  "bindR (Inr x) f = f x"
  by (simp_all add: bindR_def)

lemma bindR_eq_Inr [result_simps]:
  "bindR m f = Inr y \<longleftrightarrow> (\<exists>x. m = Inr x \<and> f x = Inr y)"
  by (cases m) auto

lemma bindR_eq_Inl [result_simps]:
  "bindR m f = Inl e \<longleftrightarrow> m = Inl e \<or> (\<exists>x. m = Inr x \<and> f x = Inl e)"
  by (cases m) auto

lemma bindR_assoc: "bindR (bindR m f) g = bindR m (\<lambda>x. bindR (f x) g)"
  by (cases m) auto

lemma bindR_cong [fundef_cong]:
  assumes "m = m'" and "\<And>x. m' = Inr x \<Longrightarrow> f x = f' x"
  shows "bindR m f = bindR m' f'"
  using assms by (cases m') auto

text \<open>\<open>except E as error: raise G from error\<close>: every error of the guarded block becomes \<open>e\<close>.\<close>

definition reraise :: "exn \<Rightarrow> 'a result \<Rightarrow> 'a result" where
  "reraise e m = (case m of Inl _ \<Rightarrow> Inl e | Inr x \<Rightarrow> Inr x)"

lemma reraise_simps [simp]:
  "reraise e (Inl e') = Inl e"
  "reraise e (Inr x) = Inr x"
  by (simp_all add: reraise_def)

lemma reraise_eq_Inr [result_simps]: "reraise e m = Inr x \<longleftrightarrow> m = Inr x"
  by (cases m) auto

text \<open>Mapping a fallible function over a list: the first error stops the loop.\<close>

fun mapR :: "('a \<Rightarrow> 'b result) \<Rightarrow> 'a list \<Rightarrow> 'b list result" where
  "mapR f [] = Inr []"
| "mapR f (x # xs) = bindR (f x) (\<lambda>y. bindR (mapR f xs) (\<lambda>ys. Inr (y # ys)))"

lemma mapR_Inr_iff: "mapR f xs = Inr ys \<longleftrightarrow> list_all2 (\<lambda>x y. f x = Inr y) xs ys"
  by (induction xs arbitrary: ys)
    (auto simp: result_simps list_all2_Cons1)

lemma mapR_total: "(\<And>x. x \<in> set xs \<Longrightarrow> f x = Inr (g x)) \<Longrightarrow> mapR f xs = Inr (map g xs)"
  by (induction xs) auto

lemma mapR_exists: "(\<And>x. x \<in> set xs \<Longrightarrow> \<exists>y. f x = Inr y) \<Longrightarrow> \<exists>ys. mapR f xs = Inr ys"
  by (induction xs) fastforce+

lemma mapR_image: "mapR f xs = Inr ys \<Longrightarrow> y \<in> set ys \<Longrightarrow> \<exists>x\<in>set xs. f x = Inr y"
  by (induction xs arbitrary: ys) (auto simp: result_simps)

lemma mapR_source: "mapR f xs = Inr ys \<Longrightarrow> x \<in> set xs \<Longrightarrow> \<exists>y\<in>set ys. f x = Inr y"
  by (induction xs arbitrary: ys) (auto simp: result_simps)

lemma mapR_length: "mapR f xs = Inr ys \<Longrightarrow> length ys = length xs"
  by (auto simp: mapR_Inr_iff list_all2_lengthD)

section \<open>Unsigned and signed fields\<close>

text \<open>Big-endian encoding of a natural number in \<open>n\<close> bytes; what does not fit is dropped.\<close>

fun be_encode :: "nat \<Rightarrow> nat \<Rightarrow> bytes" where
  "be_encode 0 v = []"
| "be_encode (Suc n) v = be_encode n (v div 256) @ [of_nat (v mod 256)]"

fun be_decode_acc :: "nat \<Rightarrow> bytes \<Rightarrow> nat" where
  "be_decode_acc a [] = a"
| "be_decode_acc a (b # bs) = be_decode_acc (a * 256 + unat b) bs"

definition be_decode :: "bytes \<Rightarrow> nat" where
  "be_decode bs = be_decode_acc 0 bs"

lemma length_be_encode [simp]: "length (be_encode n v) = n"
  by (induction n arbitrary: v) auto

lemma be_decode_acc_append:
  "be_decode_acc a (xs @ ys) = be_decode_acc (be_decode_acc a xs) ys"
  by (induction xs arbitrary: a) auto

lemma be_decode_snoc: "be_decode (xs @ [b]) = be_decode xs * 256 + unat b"
  by (simp add: be_decode_def be_decode_acc_append)

lemma unat_of_nat_byte [simp]: "v < 256 \<Longrightarrow> unat (of_nat v :: byte) = v"
  by (simp add: unat_of_nat take_bit_eq_mod)

lemma unat_byte_lt [simp]: "unat (b :: byte) < 256"
  using unsigned_less[of b] by simp

lemma unat_byte_le [simp]: "unat (b :: byte) \<le> 255"
  using unat_byte_lt[of b] by linarith

lemma be_decode_encode [simp]: "v < 256 ^ n \<Longrightarrow> be_decode (be_encode n v) = v"
proof (induction n arbitrary: v)
  case 0
  then show ?case by (simp add: be_decode_def)
next
  case (Suc n)
  then have "v div 256 < 256 ^ n"
    by (simp add: less_mult_imp_div_less mult.commute)
  with Suc.IH show ?case by (simp add: be_decode_snoc)
qed

lemma be_encode_decode [simp]: "be_encode (length bs) (be_decode bs) = bs"
proof (induction bs rule: rev_induct)
  case Nil
  then show ?case by (simp add: be_decode_def)
next
  case (snoc b bs)
  have "(be_decode bs * 256 + unat b) div 256 = be_decode bs"
    and "(be_decode bs * 256 + unat b) mod 256 = unat b"
    by simp_all
  with snoc show ?case by (simp add: be_decode_snoc)
qed

lemma be_decode_lt: "be_decode bs < 256 ^ length bs"
proof (induction bs rule: rev_induct)
  case Nil
  then show ?case by (simp add: be_decode_def)
next
  case (snoc b bs)
  have "be_decode bs * 256 + unat b < (be_decode bs + 1) * 256"
    by simp
  also have "\<dots> \<le> 256 ^ length bs * 256"
    using snoc by (intro mult_right_mono) auto
  finally show ?case by (simp add: be_decode_snoc mult.commute)
qed

lemma be_decode_lt': "length bs = n \<Longrightarrow> be_decode bs < 256 ^ n"
  using be_decode_lt by blast

text \<open>Two's complement reading of an \<open>n\<close>-byte field.\<close>

definition to_signed :: "nat \<Rightarrow> nat \<Rightarrow> int" where
  "to_signed n v = (if 2 * int v < 256 ^ n then int v else int v - 256 ^ n)"

definition of_signed :: "nat \<Rightarrow> int \<Rightarrow> nat" where
  "of_signed n i = nat (i mod 256 ^ n)"

lemma to_of_signed:
  assumes "- (256 ^ n) \<le> 2 * i" and "2 * i < 256 ^ n"
  shows "to_signed n (of_signed n i) = i"
proof (cases "0 \<le> i")
  case True
  with assms have "i mod 256 ^ n = i" by (intro mod_pos_pos_trivial) auto
  with True assms show ?thesis
    by (simp add: to_signed_def of_signed_def)
next
  case False
  with assms have "(i + 256 ^ n) mod 256 ^ n = i + 256 ^ n"
    by (intro mod_pos_pos_trivial) auto
  then have m: "i mod 256 ^ n = i + 256 ^ n" by simp
  have "(0::int) < 256 ^ n" by simp
  with assms have "\<not> 2 * (i + 256 ^ n) < 256 ^ n" and "0 \<le> i + 256 ^ n"
    by (simp_all add: distrib_left)
  then show ?thesis
    by (simp add: to_signed_def of_signed_def m)
qed

lemma of_signed_lt: "of_signed n i < 256 ^ n"
proof -
  have "i mod 256 ^ n < 256 ^ n" by simp
  then show ?thesis by (simp add: of_signed_def nat_less_iff)
qed

lemma of_to_signed: "v < 256 ^ n \<Longrightarrow> of_signed n (to_signed n v) = v"
proof -
  assume v: "v < 256 ^ n"
  then have "int v < 256 ^ n" using of_nat_less_iff[of v "256 ^ n", where 'a = int] by simp
  then have "int v mod 256 ^ n = int v" by simp
  moreover have "(int v - 256 ^ n) mod 256 ^ n = int v mod 256 ^ n" by simp
  ultimately show ?thesis by (simp add: of_signed_def to_signed_def)
qed

lemma to_signed_range:
  assumes "v < 256 ^ n"
  shows "- (256 ^ n) \<le> 2 * to_signed n v \<and> 2 * to_signed n v < 256 ^ n"
proof -
  have "int v < 256 ^ n"
    using assms of_nat_less_iff[of v "256 ^ n", where 'a = int] by simp
  then have "2 * int v < 3 * 256 ^ n" by linarith
  then show ?thesis by (auto simp: to_signed_def)
qed

section \<open>The \<^verbatim>\<open>struct\<close> module\<close>

text \<open>
  A format is a list of fields: \<open>FBytes n\<close> is \<^verbatim>\<open>ns\<close>, \<open>FUInt n\<close> an unsigned and \<open>FSInt n\<close> a
  signed big-endian integer of \<open>n\<close> bytes (\<^verbatim>\<open>B\<close>, \<^verbatim>\<open>H\<close>, \<^verbatim>\<open>I\<close>, \<^verbatim>\<open>Q\<close>, \<^verbatim>\<open>q\<close> after \<^verbatim>\<open>">"\<close>).
  Packing raises \<^verbatim>\<open>struct.error\<close> when an integer does not fit its field and pads or cuts a
  byte string to its field's width.
\<close>

datatype sfield = FBytes nat | FUInt nat | FSInt nat
datatype sval = VB bytes | VU nat | VS int

fun bval :: "sval \<Rightarrow> bytes" where
  "bval (VB b) = b"
| "bval _ = []"

fun uval :: "sval \<Rightarrow> nat" where
  "uval (VU n) = n"
| "uval _ = 0"

fun ival :: "sval \<Rightarrow> int" where
  "ival (VS i) = i"
| "ival (VU n) = int n"
| "ival _ = 0"

fun field_size :: "sfield \<Rightarrow> nat" where
  "field_size (FBytes n) = n"
| "field_size (FUInt n) = n"
| "field_size (FSInt n) = n"

definition struct_size :: "sfield list \<Rightarrow> nat" where
  "struct_size fs = sum_list (map field_size fs)"

fun field_fits :: "sfield \<Rightarrow> sval \<Rightarrow> bool" where
  "field_fits (FBytes n) (VB b) \<longleftrightarrow> True"
| "field_fits (FUInt n) (VU v) \<longleftrightarrow> v < 256 ^ n"
| "field_fits (FSInt n) (VS i) \<longleftrightarrow> - (256 ^ n) \<le> 2 * i \<and> 2 * i < 256 ^ n"
| "field_fits _ _ \<longleftrightarrow> False"

fun field_pack :: "sfield \<Rightarrow> sval \<Rightarrow> bytes" where
  "field_pack (FBytes n) v = take n (bval v @ replicate n 0)"
| "field_pack (FUInt n) v = be_encode n (uval v)"
| "field_pack (FSInt n) v = be_encode n (of_signed n (ival v))"

fun field_unpack :: "sfield \<Rightarrow> bytes \<Rightarrow> sval" where
  "field_unpack (FBytes n) b = VB b"
| "field_unpack (FUInt n) b = VU (be_decode b)"
| "field_unpack (FSInt n) b = VS (to_signed n (be_decode b))"

definition struct_pack :: "sfield list \<Rightarrow> sval list \<Rightarrow> bytes result" where
  "struct_pack fs vs =
     (if list_all2 field_fits fs vs then Inr (concat (map2 field_pack fs vs))
      else Inl (StructError ''argument out of range''))"

fun fields_unpack :: "sfield list \<Rightarrow> bytes \<Rightarrow> sval list" where
  "fields_unpack [] b = []"
| "fields_unpack (f # fs) b =
     field_unpack f (take (field_size f) b) # fields_unpack fs (drop (field_size f) b)"

definition struct_unpack :: "sfield list \<Rightarrow> bytes \<Rightarrow> sval list result" where
  "struct_unpack fs b =
     (if length b = struct_size fs then Inr (fields_unpack fs b)
      else Inl (StructError ''unpack requires a buffer of the exact size''))"

definition struct_unpack_from :: "sfield list \<Rightarrow> bytes \<Rightarrow> nat \<Rightarrow> sval list result" where
  "struct_unpack_from fs b pos =
     (if pos + struct_size fs \<le> length b
      then Inr (fields_unpack fs (take (struct_size fs) (drop pos b)))
      else Inl (StructError ''unpack_from requires a larger buffer''))"

text \<open>A byte-string field comes back unchanged when the value has exactly the field's width.\<close>

fun field_exact :: "sfield \<Rightarrow> sval \<Rightarrow> bool" where
  "field_exact (FBytes n) (VB b) \<longleftrightarrow> length b = n"
| "field_exact f v \<longleftrightarrow> field_fits f v"

lemma field_exact_fits: "field_exact f v \<Longrightarrow> field_fits f v"
  by (cases f; cases v) auto

lemma length_field_pack [simp]: "length (field_pack f v) = field_size f"
  by (cases f) auto

lemma field_unpack_pack: "field_exact f v \<Longrightarrow> field_unpack f (field_pack f v) = v"
  by (cases f; cases v) (auto simp: to_of_signed of_signed_lt)

lemma field_pack_unpack: "length b = field_size f \<Longrightarrow> field_pack f (field_unpack f b) = b"
  by (cases f) (auto simp: of_to_signed be_decode_lt')

lemma field_fits_unpack: "length b = field_size f \<Longrightarrow> field_fits f (field_unpack f b)"
proof (cases f)
  case (FSInt n)
  moreover assume "length b = field_size f"
  ultimately show ?thesis using to_signed_range[OF be_decode_lt'] by auto
qed (auto intro: be_decode_lt')

lemma length_concat_field_pack:
  "length fs = length vs \<Longrightarrow> length (concat (map2 field_pack fs vs)) = struct_size fs"
  by (induction fs vs rule: list_induct2) (auto simp: struct_size_def)

lemma struct_pack_length [struct_simps]:
  "struct_pack fs vs = Inr b \<Longrightarrow> length b = struct_size fs"
  by (auto simp: struct_pack_def length_concat_field_pack list_all2_lengthD split: if_splits)

lemma fields_unpack_pack:
  "list_all2 field_exact fs vs \<Longrightarrow> fields_unpack fs (concat (map2 field_pack fs vs) @ r) = vs"
  by (induction rule: list_all2_induct) (auto simp: field_unpack_pack)

lemma struct_pack_exact:
  assumes "list_all2 field_exact fs vs"
  shows "struct_pack fs vs = Inr (concat (map2 field_pack fs vs))"
  using assms by (auto simp: struct_pack_def elim!: list_all2_mono intro: field_exact_fits)

lemma struct_unpack_pack:
  assumes "list_all2 field_exact fs vs" and "struct_pack fs vs = Inr b"
  shows "struct_unpack fs b = Inr vs"
proof -
  have b: "b = concat (map2 field_pack fs vs)"
    using assms struct_pack_exact by auto
  moreover have "length b = struct_size fs" using assms(2) by (rule struct_pack_length)
  ultimately show ?thesis
    using fields_unpack_pack[OF assms(1), of "[]"] by (simp add: struct_unpack_def)
qed

lemma struct_unpack_from_pack:
  assumes "list_all2 field_exact fs vs" and "struct_pack fs vs = Inr b" and "length a = p"
  shows "struct_unpack_from fs (a @ b @ r) p = Inr vs"
proof -
  have b: "b = concat (map2 field_pack fs vs)"
    using assms struct_pack_exact by auto
  moreover have "length b = struct_size fs" using assms(2) by (rule struct_pack_length)
  ultimately show ?thesis
    using fields_unpack_pack[OF assms(1), of "[]"] assms(3) by (simp add: struct_unpack_from_def)
qed

lemma struct_pack_unpack:
  "length b = struct_size fs \<Longrightarrow>
   list_all2 field_fits fs (fields_unpack fs b) \<and>
   concat (map2 field_pack fs (fields_unpack fs b)) = b"
  by (induction fs arbitrary: b)
    (auto simp: struct_size_def field_pack_unpack field_fits_unpack)

text \<open>The inverse direction: bytes of the right size are what packing their values gives.\<close>

lemma struct_repack:
  assumes "struct_unpack fs b = Inr vs"
  shows "struct_pack fs vs = Inr b"
  using assms struct_pack_unpack[of b fs]
  by (auto simp: struct_unpack_def struct_pack_def split: if_splits)

lemma length_fields_unpack [simp]: "length (fields_unpack fs b) = length fs"
  by (induction fs arbitrary: b) auto

section \<open>Binary streams\<close>

text \<open>
  A stream open for reading is the list of the bytes not yet read: \<open>stream_read n s\<close> is
  \<^verbatim>\<open>stream.read(n)\<close>, the bytes read and the rest. \<open>read_exact\<close> is the \<^verbatim>\<open>_read_exact\<close> helper
  that every container module has, up to its message.
\<close>

definition stream_read :: "nat \<Rightarrow> bytes \<Rightarrow> bytes \<times> bytes" where
  "stream_read n s = (take n s, drop n s)"

definition read_exact :: "string \<Rightarrow> bytes \<Rightarrow> nat \<Rightarrow> (bytes \<times> bytes) result" where
  "read_exact msg s n =
     (let (d, s') = stream_read n s
      in if length d \<noteq> n then Inl (ArchiveFormatError msg) else Inr (d, s'))"

lemma read_exact_append [simp]: "length a = n \<Longrightarrow> read_exact m (a @ b) n = Inr (a, b)"
  by (simp add: read_exact_def stream_read_def)

lemma read_exact_Inr [result_simps]:
  "read_exact m s n = Inr r \<longleftrightarrow> n \<le> length s \<and> r = (take n s, drop n s)"
  by (auto simp: read_exact_def stream_read_def)

lemma read_exact_InrD:
  "read_exact m s n = Inr (d, s') \<Longrightarrow> s = d @ s' \<and> length d = n"
  by (auto simp: read_exact_Inr)

lemma read_exact_short: "length s < n \<Longrightarrow> read_exact m s n = Inl (ArchiveFormatError m)"
  by (simp add: read_exact_def stream_read_def)

text \<open>The blocks that \<^verbatim>\<open>while block := stream.read(n)\<close> sees.\<close>

function read_blocks :: "nat \<Rightarrow> bytes \<Rightarrow> bytes list" where
  "read_blocks n s = (if n = 0 \<or> s = [] then [] else take n s # read_blocks n (drop n s))"
  by pat_completeness auto
termination by (relation "measure (\<lambda>(n, s). length s)") auto

declare read_blocks.simps [simp del]

lemma concat_read_blocks: "0 < n \<Longrightarrow> concat (read_blocks n s) = s"
proof (induction n s rule: read_blocks.induct)
  case (1 n s)
  then show ?case by (subst read_blocks.simps) auto
qed

lemma read_blocks_size: "b \<in> set (read_blocks n s) \<Longrightarrow> b \<noteq> [] \<and> length b \<le> n"
proof (induction n s rule: read_blocks.induct)
  case (1 n s)
  then show ?case by (subst (asm) (2) read_blocks.simps) (auto split: if_splits)
qed

lemma read_blocks_total: "0 < n \<Longrightarrow> sum_list (map length (read_blocks n s)) = length s"
  by (metis concat_read_blocks length_concat)

lemma read_blocks_Nil [simp]: "read_blocks n [] = []"
  by (simp add: read_blocks.simps)

lemma ceiling_div_step:
  assumes "0 < n" and "0 < m"
  shows "(m + n - 1) div n = Suc ((m - n + n - 1) div n)"
proof (cases "n \<le> m")
  case True
  then have "m + n - 1 = (m - n + n - 1) + n" using assms by simp
  then show ?thesis using assms by (metis div_add_self2 not_gr_zero Suc_eq_plus1)
next
  case False
  then have "m - n = 0" "m - 1 < n" by simp_all
  then have "(m - n + n - 1) div n = 0" "(m - 1) div n = 0" using assms by simp_all
  moreover have "m + n - 1 = (m - 1) + n" using assms by simp
  ultimately show ?thesis using assms by (metis div_add_self2 not_gr_zero Suc_eq_plus1)
qed

lemma read_blocks_count: "0 < n \<Longrightarrow> length (read_blocks n s) = (length s + n - 1) div n"
proof (induction n s rule: read_blocks.induct)
  case (1 n s)
  show ?case
  proof (cases "s = []")
    case False
    then have "length (read_blocks n (drop n s)) = (length s - n + n - 1) div n" using 1 by simp
    moreover have "read_blocks n s = take n s # read_blocks n (drop n s)"
      using False 1(2) by (subst read_blocks.simps) simp
    moreover have "(length s + n - 1) div n = Suc ((length s - n + n - 1) div n)"
      using False 1(2) by (intro ceiling_div_step) auto
    ultimately show ?thesis by (simp only: list.size(4) add_Suc_right add_0_right)
  qed (use 1 in simp)
qed

section \<open>Lists\<close>

lemma take_Suc_nth: "n < length xs \<Longrightarrow> take (Suc n) xs = take n xs @ [xs ! n]"
  by (simp add: take_Suc_conv_app_nth)

lemma take_drop_length: "take n xs @ drop (length (take n xs)) xs = xs"
  by (cases "n \<le> length xs") auto

lemma append_take_drop_slice:
  "i \<le> j \<Longrightarrow> take i xs @ take (j - i) (drop i xs) = take j xs"
  using take_add[of i "j - i" xs] by simp

lemma nth_slice: "i < n \<Longrightarrow> p + i < length xs \<Longrightarrow> take n (drop p xs) ! i = xs ! (p + i)"
  by (simp add: add.commute)

text \<open>The first element with the smallest key, as \<^verbatim>\<open>min(candidates, key=...)\<close> returns it.\<close>

fun min_by :: "('a \<Rightarrow> nat) \<Rightarrow> 'a \<Rightarrow> 'a list \<Rightarrow> 'a" where
  "min_by k x [] = x"
| "min_by k x (y # ys) = (if k y < k x then min_by k y ys else min_by k x ys)"

lemma min_by_mem: "min_by k x ys \<in> insert x (set ys)"
  by (induction k x ys rule: min_by.induct) auto

lemma min_by_le: "z \<in> insert x (set ys) \<Longrightarrow> k (min_by k x ys) \<le> k z"
proof (induction k x ys arbitrary: z rule: min_by.induct)
  case (2 k x y ys)
  show ?case
  proof (cases "k y < k x")
    case True
    from True 2(1)[OF True] have "\<And>z. z \<in> insert y (set ys) \<Longrightarrow> k (min_by k y ys) \<le> k z" by blast
    with True 2(3) show ?thesis by (fastforce dest: less_imp_le intro: order_trans)
  next
    case False
    from 2(2)[OF False] have "\<And>z. z \<in> insert x (set ys) \<Longrightarrow> k (min_by k x ys) \<le> k z" by blast
    with False 2(3) show ?thesis by (fastforce intro: order_trans)
  qed
qed auto

end
