(* ===== verification/Text.thy ===== *)
theory Text
  imports Prelude
begin

text \<open>
  Python strings: a \<^verbatim>\<open>str\<close> is the list of its code points. The UTF-8 codec is modelled in full
  (strict error handling, as \<^verbatim>\<open>str.encode\<close> and \<^verbatim>\<open>bytes.decode\<close> have by default); the
  Unicode tables behind \<^verbatim>\<open>unicodedata.normalize("NFC", _)\<close>, \<^verbatim>\<open>str.upper\<close> and \<^verbatim>\<open>str.casefold\<close>
  are parameters, with their documented behaviour on ASCII strings as \<open>unicode_ascii\<close>.
\<close>

type_synonym pystr = "nat list"

definition lit :: "string \<Rightarrow> pystr" where
  "lit s = map of_char s"

section \<open>UTF-8\<close>

definition is_surrogate :: "nat \<Rightarrow> bool" where
  "is_surrogate c \<longleftrightarrow> 55296 \<le> c \<and> c \<le> 57343"

definition utf8_char :: "nat \<Rightarrow> bytes result" where
  "utf8_char c =
     (if c < 128 then Inr [of_nat c]
      else if c < 2048 then Inr [of_nat (192 + c div 64), of_nat (128 + c mod 64)]
      else if is_surrogate c then Inl (UnicodeError ''surrogates not allowed'')
      else if c < 65536 then
        Inr [of_nat (224 + c div 4096), of_nat (128 + c div 64 mod 64), of_nat (128 + c mod 64)]
      else if c < 1114112 then
        Inr [of_nat (240 + c div 262144), of_nat (128 + c div 4096 mod 64),
             of_nat (128 + c div 64 mod 64), of_nat (128 + c mod 64)]
      else Inl (UnicodeError ''code point out of range''))"

fun utf8_encode :: "pystr \<Rightarrow> bytes result" where
  "utf8_encode [] = Inr []"
| "utf8_encode (c # cs) =
     bindR (utf8_char c) (\<lambda>b. bindR (utf8_encode cs) (\<lambda>bs. Inr (b @ bs)))"

definition continuation :: "byte \<Rightarrow> bool" where
  "continuation b \<longleftrightarrow> 128 \<le> unat b \<and> unat b < 192"

text \<open>One character from the front of the bytes.\<close>

definition utf8_next :: "bytes \<Rightarrow> (nat \<times> bytes) result" where
  "utf8_next bs =
     (case bs of
        [] \<Rightarrow> Inl (UnicodeError ''unexpected end of data'')
      | b0 # r0 \<Rightarrow>
          if unat b0 < 128 then Inr (unat b0, r0)
          else if 194 \<le> unat b0 \<and> unat b0 < 224 then
            (case r0 of
               b1 # r1 \<Rightarrow>
                 if continuation b1 then Inr ((unat b0 - 192) * 64 + (unat b1 - 128), r1)
                 else Inl (UnicodeError ''invalid continuation byte'')
             | _ \<Rightarrow> Inl (UnicodeError ''unexpected end of data''))
          else if 224 \<le> unat b0 \<and> unat b0 < 240 then
            (case r0 of
               b1 # b2 # r2 \<Rightarrow>
                 let c = (unat b0 - 224) * 4096 + (unat b1 - 128) * 64 + (unat b2 - 128)
                 in if continuation b1 \<and> continuation b2 \<and> 2048 \<le> c \<and> \<not> is_surrogate c
                    then Inr (c, r2) else Inl (UnicodeError ''invalid continuation byte'')
             | _ \<Rightarrow> Inl (UnicodeError ''unexpected end of data''))
          else if 240 \<le> unat b0 \<and> unat b0 < 245 then
            (case r0 of
               b1 # b2 # b3 # r3 \<Rightarrow>
                 let c = (unat b0 - 240) * 262144 + (unat b1 - 128) * 4096
                         + (unat b2 - 128) * 64 + (unat b3 - 128)
                 in if continuation b1 \<and> continuation b2 \<and> continuation b3
                       \<and> 65536 \<le> c \<and> c < 1114112
                    then Inr (c, r3) else Inl (UnicodeError ''invalid continuation byte'')
             | _ \<Rightarrow> Inl (UnicodeError ''unexpected end of data''))
          else Inl (UnicodeError ''invalid start byte''))"

lemma utf8_next_shorter: "utf8_next bs = Inr (c, r) \<Longrightarrow> length r < length bs"
  by (auto simp: utf8_next_def Let_def split: list.splits if_splits)

function utf8_decode :: "bytes \<Rightarrow> pystr result" where
  "utf8_decode bs =
     (if bs = [] then Inr []
      else case utf8_next bs of
        Inl e \<Rightarrow> Inl e
      | Inr cr \<Rightarrow> (case utf8_decode (snd cr) of Inl e \<Rightarrow> Inl e | Inr cs \<Rightarrow> Inr (fst cr # cs)))"
  by pat_completeness auto
termination
  by (relation "measure length") (auto dest: utf8_next_shorter)

declare utf8_decode.simps [simp del]

lemma base64_digits3: "c div 4096 * 4096 + c div 64 mod 64 * 64 + c mod 64 = (c :: nat)"
proof -
  have "c div 4096 = c div 64 div 64" using div_mult2_eq[of c 64 64] by simp
  then show ?thesis
    using div_mult_mod_eq[of c 64] div_mult_mod_eq[of "c div 64" 64] by linarith
qed

lemma base64_digits4:
  "c div 262144 * 262144 + c div 4096 mod 64 * 4096 + c div 64 mod 64 * 64 + c mod 64 = (c :: nat)"
proof -
  have "c div 262144 = c div 4096 div 64" using div_mult2_eq[of c 4096 64] by simp
  then show ?thesis
    using base64_digits3[of c] div_mult_mod_eq[of "c div 4096" 64] by linarith
qed

lemma utf8_next_char:
  assumes "utf8_char c = Inr b"
  shows "utf8_next (b @ r) = Inr (c, r)"
proof -
  consider "c < 128" | "128 \<le> c" "c < 2048" | "2048 \<le> c" "c < 65536" | "65536 \<le> c" "c < 1114112"
    using assms by (force simp: utf8_char_def split: if_splits)
  then show ?thesis
  proof cases
    case 1
    with assms show ?thesis by (auto simp: utf8_char_def utf8_next_def)
  next
    case 2
    have "c div 64 < 32" "2 \<le> c div 64" "c mod 64 < 64" using 2 by auto
    then have "unat (of_nat (192 + c div 64) :: byte) = 192 + c div 64"
      "unat (of_nat (128 + c mod 64) :: byte) = 128 + c mod 64" by (simp_all del: of_nat_add)
    moreover have "(c div 64) * 64 + c mod 64 = c" by simp
    ultimately show ?thesis using 2 assms \<open>c div 64 < 32\<close> \<open>2 \<le> c div 64\<close> \<open>c mod 64 < 64\<close>
      by (auto simp: utf8_char_def utf8_next_def continuation_def simp del: of_nat_add split: if_splits)
  next
    case 3
    let ?a = "c div 4096" and ?b = "c div 64 mod 64" and ?d = "c mod 64"
    have lt: "?a < 16" "?b < 64" "?d < 64" using 3 by auto
    have "unat (of_nat (224 + ?a) :: byte) = 224 + ?a" "unat (of_nat (128 + ?b) :: byte) = 128 + ?b"
      "unat (of_nat (128 + ?d) :: byte) = 128 + ?d" using lt by (simp_all del: of_nat_add)
    moreover have "?a * 4096 + ?b * 64 + ?d = c"
      by (rule base64_digits3)
    ultimately show ?thesis using 3 assms lt
      by (auto simp: utf8_char_def utf8_next_def continuation_def Let_def simp del: of_nat_add
          split: if_splits)
  next
    case 4
    let ?a = "c div 262144" and ?b = "c div 4096 mod 64" and ?d = "c div 64 mod 64" and ?e = "c mod 64"
    have lt: "?a < 5" "?b < 64" "?d < 64" "?e < 64" using 4 by auto
    have "unat (of_nat (240 + ?a) :: byte) = 240 + ?a" "unat (of_nat (128 + ?b) :: byte) = 128 + ?b"
      "unat (of_nat (128 + ?d) :: byte) = 128 + ?d" "unat (of_nat (128 + ?e) :: byte) = 128 + ?e"
      using lt by (simp_all del: of_nat_add)
    moreover have "?a * 262144 + ?b * 4096 + ?d * 64 + ?e = c" by (rule base64_digits4)
    moreover have "\<not> is_surrogate c" using 4 by (simp add: is_surrogate_def)
    ultimately show ?thesis using 4 assms lt
      by (auto simp: utf8_char_def utf8_next_def continuation_def Let_def simp del: of_nat_add
          split: if_splits)
  qed
qed

lemma utf8_char_nonempty: "utf8_char c = Inr b \<Longrightarrow> b \<noteq> []"
  by (auto simp: utf8_char_def split: if_splits)

lemma utf8_decode_encode: "utf8_encode s = Inr b \<Longrightarrow> utf8_decode b = Inr s"
proof (induction s arbitrary: b)
  case Nil
  then show ?case by (simp add: utf8_decode.simps)
next
  case (Cons c cs)
  then obtain x y where xy: "utf8_char c = Inr x" "utf8_encode cs = Inr y" "b = x @ y"
    by (auto simp: result_simps)
  with Cons.IH have "utf8_decode y = Inr cs" by simp
  with xy utf8_next_char[OF xy(1), of y] utf8_char_nonempty[OF xy(1)] show ?case
    by (simp add: utf8_decode.simps[of "x @ y"])
qed

lemma utf8_encode_inj:
  assumes "utf8_encode s = Inr b" and "utf8_encode t = Inr b"
  shows "s = t"
  using utf8_decode_encode[OF assms(1)] utf8_decode_encode[OF assms(2)] by simp

section \<open>Unicode tables\<close>

record unicode =
  nfc :: "pystr \<Rightarrow> pystr"
  upper :: "pystr \<Rightarrow> pystr"
  casefold :: "pystr \<Rightarrow> pystr"

definition ascii :: "pystr \<Rightarrow> bool" where
  "ascii s \<longleftrightarrow> (\<forall>c \<in> set s. c < 128)"

definition ascii_upper :: "nat \<Rightarrow> nat" where
  "ascii_upper c = (if 97 \<le> c \<and> c \<le> 122 then c - 32 else c)"

definition ascii_lower :: "nat \<Rightarrow> nat" where
  "ascii_lower c = (if 65 \<le> c \<and> c \<le> 90 then c + 32 else c)"

text \<open>The documented behaviour on ASCII strings: already normalised, simple case mappings.\<close>

definition unicode_ascii :: "unicode \<Rightarrow> bool" where
  "unicode_ascii u \<longleftrightarrow>
     (\<forall>s. ascii s \<longrightarrow> nfc u s = s \<and> upper u s = map ascii_upper s \<and> casefold u s = map ascii_lower s)"

text \<open>An instance: tables that only know ASCII.\<close>

definition ascii_tables :: unicode where
  "ascii_tables = \<lparr>nfc = (\<lambda>s. s), upper = map ascii_upper, casefold = map ascii_lower\<rparr>"

lemma unicode_ascii_tables: "unicode_ascii ascii_tables"
  by (simp add: unicode_ascii_def ascii_tables_def)

end
