(* ===== verification/Padding.thy ===== *)
theory Padding
  imports Text
begin

text \<open>
  \<^verbatim>\<open>padding.py\<close>, \<^verbatim>\<open>resource_limits.py\<close> and \<^verbatim>\<open>crypto.py\<close>: length-bucket padding, the check of the
  caller's decode limits, and the thin layer over scrypt, ChaCha20-Poly1305 and SHA-256. The
  cryptographic library and \<^verbatim>\<open>os.urandom\<close> are parameters; \<open>aead_law\<close> and \<open>random_law\<close> state
  what the code relies on.
\<close>

section \<open>Padding\<close>

abbreviation LENGTH_FIELD where "LENGTH_FIELD \<equiv> [FUInt 8]"

text \<open>\<open>rnd n\<close> is the result of \<^verbatim>\<open>os.urandom(n)\<close>.\<close>

definition random_law :: "(nat \<Rightarrow> bytes) \<Rightarrow> bool" where
  "random_law rnd \<longleftrightarrow> (\<forall>n. length (rnd n) = n)"

definition padded_length :: "nat \<Rightarrow> nat \<Rightarrow> nat" where
  "padded_length envelope_size block_size =
     (envelope_size + block_size - 1) div block_size * block_size"

definition pad_payload :: "(nat \<Rightarrow> bytes) \<Rightarrow> bytes \<Rightarrow> nat \<Rightarrow> bytes result" where
  "pad_payload rnd payload block_size =
     (if block_size < 256 \<or> block_size > 16 * 1024 * 1024
      then Inl (ValueError ''padding size must be between 256 bytes and 16 MiB'')
      else let envelope_size = 8 + length payload;
               padded_size = padded_length envelope_size block_size
        in bindR (struct_pack LENGTH_FIELD [VU (length payload)]) (\<lambda>l.
             Inr (l @ payload @ rnd (padded_size - envelope_size))))"

definition unpad_payload :: "bytes \<Rightarrow> bytes result" where
  "unpad_payload padded =
     (if length padded < 8 then Inl (ArchiveFormatError ''encrypted payload is too short'')
      else bindR (struct_unpack_from LENGTH_FIELD padded 0) (\<lambda>vs.
        let payload_length = uval (vs ! 0)
        in if payload_length > length padded - 8
           then Inl (ArchiveFormatError ''encrypted payload length is invalid'')
           else Inr (take payload_length (drop 8 padded))))"

lemma padded_length_ge: "0 < p \<Longrightarrow> e \<le> padded_length e p"
proof -
  assume p: "0 < p"
  have "e + p - 1 < (e + p - 1) div p * p + p"
    using p by (metis add.commute add_less_cancel_right div_mult_mod_eq mod_less_divisor add_strict_left_mono)
  then show ?thesis using p by (simp add: padded_length_def)
qed

lemma padded_length_lt: "0 < p \<Longrightarrow> padded_length e p < e + p"
proof -
  assume p: "0 < p"
  have "(e + p - 1) div p * p \<le> e + p - 1" by (simp add: div_times_less_eq_dividend)
  with p show ?thesis unfolding padded_length_def by linarith
qed

lemma padded_length_mod [simp]: "padded_length e p mod p = 0"
  by (simp add: padded_length_def)

lemma padded_length_dvd: "p dvd padded_length e p"
  by (simp add: padded_length_def)

lemma pad_payload_Inr:
  assumes "256 \<le> p" and "p \<le> 16 * 1024 * 1024" and "length payload < 256 ^ 8"
  shows "\<exists>l. struct_pack LENGTH_FIELD [VU (length payload)] = Inr l \<and> length l = 8
    \<and> pad_payload rnd payload p =
        Inr (l @ payload @ rnd (padded_length (8 + length payload) p - (8 + length payload)))"
proof -
  from assms(3) obtain l where l: "struct_pack LENGTH_FIELD [VU (length payload)] = Inr l"
    by (simp add: struct_pack_def)
  then have "length l = 8" by (auto dest: struct_pack_length simp: struct_size_def)
  with l assms show ?thesis by (auto simp: pad_payload_def Let_def)
qed

lemma pad_payload_InrD:
  assumes "pad_payload rnd payload p = Inr padded"
  shows "256 \<le> p \<and> p \<le> 16 * 1024 * 1024 \<and> length payload < 256 ^ 8"
  using assms by (auto simp: pad_payload_def Let_def result_simps struct_pack_def split: if_splits)

lemma length_pad_payload:
  assumes "pad_payload rnd payload p = Inr padded" and "random_law rnd"
  shows "length padded = padded_length (8 + length payload) p"
proof -
  note d = pad_payload_InrD[OF assms(1)]
  with pad_payload_Inr[of p payload rnd] assms obtain l where
    "length l = 8" "padded = l @ payload @ rnd (padded_length (8 + length payload) p - (8 + length payload))"
    by auto
  moreover have "8 + length payload \<le> padded_length (8 + length payload) p"
    using d by (intro padded_length_ge) auto
  ultimately show ?thesis using assms(2) by (simp add: random_law_def)
qed

lemma unpad_pad:
  assumes "pad_payload rnd payload p = Inr padded"
  shows "unpad_payload padded = Inr payload"
proof -
  note d = pad_payload_InrD[OF assms]
  with pad_payload_Inr[of p payload rnd] assms obtain l r where
    l: "struct_pack LENGTH_FIELD [VU (length payload)] = Inr l" "length l = 8" and padded: "padded = l @ payload @ r"
    by auto
  have "list_all2 field_exact LENGTH_FIELD [VU (length payload)]" using d by simp
  from struct_unpack_from_pack[OF this l(1), of "[]" 0 "payload @ r"]
  have "struct_unpack_from LENGTH_FIELD padded 0 = Inr [VU (length payload)]" by (simp add: padded)
  with l(2) show ?thesis by (simp add: unpad_payload_def padded)
qed

lemma pad_unpad:
  assumes rnd: "random_law rnd" and len: "length payload < 2 ^ 64" and p: "256 \<le> p" "p \<le> 16777216"
  shows "\<exists>padded. pad_payload rnd payload p = Inr padded \<and> unpad_payload padded = Inr payload \<and> p dvd length padded
    \<and> 8 + length payload \<le> length padded \<and> length padded < 8 + length payload + p"
proof -
  have p': "p \<le> 16 * 1024 * 1024" "length payload < 256 ^ 8" "0 < p" using p len by simp_all
  obtain padded where padded: "pad_payload rnd payload p = Inr padded"
    using pad_payload_Inr[OF p(1) p'(1,2), of rnd] by blast
  have "padded_length (8 + length payload) p < 8 + length payload + p" by (rule padded_length_lt[OF p'(3)])
  then show ?thesis
    unfolding length_pad_payload[OF padded rnd, symmetric]
    using padded unpad_pad[OF padded] padded_length_dvd[of p "8 + length payload"] padded_length_ge[OF p'(3), of "8 + length payload"]
    by (intro exI[of _ padded] conjI) (simp_all only: length_pad_payload[OF padded rnd])
qed

lemma unpad_payload_length:
  "unpad_payload padded = Inr payload \<Longrightarrow> length payload + 8 \<le> length padded"
  by (auto simp: unpad_payload_def result_simps Let_def split: if_splits)

section \<open>Decode limits\<close>

definition DEFAULT_MAX_OUTPUT_SIZE :: int where
  "DEFAULT_MAX_OUTPUT_SIZE = 1024 * 1024 * 1024 * 1024"

definition DEFAULT_MAX_FRAME_COUNT :: int where
  "DEFAULT_MAX_FRAME_COUNT = 1000000"

definition DEFAULT_MAX_LEGACY_ARCHIVE_SIZE :: int where
  "DEFAULT_MAX_LEGACY_ARCHIVE_SIZE = 1024 * 1024 * 1024"

definition validate_decode_limits :: "int \<Rightarrow> int \<Rightarrow> int \<Rightarrow> unit result" where
  "validate_decode_limits max_output_size max_frame_count max_legacy_archive_size =
     (if max_output_size < 0 then Inl (ValueError ''maximum restored size must not be negative'')
      else if max_frame_count \<le> 0 then Inl (ValueError ''maximum frame count must be positive'')
      else if max_legacy_archive_size \<le> 0
      then Inl (ValueError ''maximum legacy archive size must be positive'')
      else Inr ())"

section \<open>Cryptography\<close>

abbreviation KEY_LENGTH where "KEY_LENGTH \<equiv> (32 :: nat)"
abbreviation SALT_LENGTH where "SALT_LENGTH \<equiv> (16 :: nat)"
abbreviation NONCE_LENGTH where "NONCE_LENGTH \<equiv> (12 :: nat)"
abbreviation AEAD_TAG_LENGTH where "AEAD_TAG_LENGTH \<equiv> (16 :: nat)"

text \<open>
  \<open>scrypt password salt n r p\<close> is \<^verbatim>\<open>Scrypt(salt, length=32, n, r, p).derive(password)\<close>;
  \<open>aead_open\<close> is \<open>None\<close> where the library raises \<^verbatim>\<open>InvalidTag\<close>.
\<close>

record crypto =
  scrypt :: "bytes \<Rightarrow> bytes \<Rightarrow> nat \<Rightarrow> nat \<Rightarrow> nat \<Rightarrow> bytes"
  aead_seal :: "bytes \<Rightarrow> bytes \<Rightarrow> bytes \<Rightarrow> bytes \<Rightarrow> bytes"
  aead_open :: "bytes \<Rightarrow> bytes \<Rightarrow> bytes \<Rightarrow> bytes \<Rightarrow> bytes option"
  sha256 :: "bytes \<Rightarrow> bytes"

text \<open>
  Opening what was sealed under the same key, nonce and associated data gives the plaintext;
  the tag adds 16 bytes; a SHA-256 digest has 32 bytes.
\<close>

definition aead_law :: "crypto \<Rightarrow> bool" where
  "aead_law c \<longleftrightarrow>
     (\<forall>key nonce plain ad. aead_open c key nonce (aead_seal c key nonce plain ad) ad = Some plain
        \<and> length (aead_seal c key nonce plain ad) = length plain + AEAD_TAG_LENGTH)"

definition digest_law :: "crypto \<Rightarrow> bool" where
  "digest_law c \<longleftrightarrow> (\<forall>b. length (sha256 c b) = 32)"

datatype password = PStr pystr | PBytes bytes

definition normalize_password :: "password \<Rightarrow> bytes result" where
  "normalize_password password =
     bindR (case password of PStr s \<Rightarrow> utf8_encode s | PBytes b \<Rightarrow> Inr b) (\<lambda>encoded.
       if encoded = [] then Inl (ValueError ''password must not be empty'') else Inr encoded)"

definition derive_key :: "crypto \<Rightarrow> password \<Rightarrow> bytes \<Rightarrow> nat \<Rightarrow> nat \<Rightarrow> nat \<Rightarrow> bytes result" where
  "derive_key c password salt log_n r p =
     (if length salt \<noteq> SALT_LENGTH then Inl (ValueError ''scrypt salt must be 16 bytes'')
      else bindR (normalize_password password) (\<lambda>pw. Inr (scrypt c pw salt (2 ^ log_n) r p)))"

definition encrypt :: "crypto \<Rightarrow> bytes \<Rightarrow> bytes \<Rightarrow> bytes \<Rightarrow> bytes \<Rightarrow> bytes" where
  "encrypt c key nonce plaintext associated_data = aead_seal c key nonce plaintext associated_data"

definition decrypt :: "crypto \<Rightarrow> bytes \<Rightarrow> bytes \<Rightarrow> bytes \<Rightarrow> bytes \<Rightarrow> bytes result" where
  "decrypt c key nonce ciphertext associated_data =
     (case aead_open c key nonce ciphertext associated_data of
        None \<Rightarrow> Inl (AuthenticationError ''wrong password or archive was modified'')
      | Some plaintext \<Rightarrow> Inr plaintext)"

lemma decrypt_encrypt [simp]:
  "aead_law c \<Longrightarrow> decrypt c key nonce (encrypt c key nonce plain ad) ad = Inr plain"
  by (simp add: aead_law_def decrypt_def encrypt_def)

lemma length_encrypt [simp]:
  "aead_law c \<Longrightarrow> length (encrypt c key nonce plain ad) = length plain + AEAD_TAG_LENGTH"
  by (simp add: aead_law_def encrypt_def)

text \<open>
  An instance of the laws for witnesses: the associated data and a zero tag surround the
  plaintext. It is not a cipher; it shows that the laws can hold together.
\<close>

definition example_crypto :: crypto where
  "example_crypto =
     \<lparr>scrypt = (\<lambda>pw salt n r p. salt @ salt),
      aead_seal = (\<lambda>key nonce plain ad. plain @ replicate 16 0),
      aead_open = (\<lambda>key nonce ct ad.
        if length ct < 16 then None else Some (take (length ct - 16) ct)),
      sha256 = (\<lambda>b. take 32 (b @ replicate 32 0))\<rparr>"

lemma example_crypto_laws: "aead_law example_crypto" "digest_law example_crypto"
  by (simp_all add: aead_law_def digest_law_def example_crypto_def min_def)

definition example_random :: "nat \<Rightarrow> bytes" where
  "example_random n = replicate n 0"

lemma example_random_law: "random_law example_random"
  by (simp add: random_law_def example_random_def)

section \<open>Properties\<close>

text \<open>C21: Padding always succeeds for the sizes that the formats allow: a payload padded with random bytes fills whole buckets of the padding size, wastes less than one bucket, and is recovered exactly by the reader, whatever the random bytes are; outside the allowed sizes it is refused.\<close>

lemma padding_roundtrip:
  "random_law rnd \<Longrightarrow> length payload < 2 ^ 64 \<Longrightarrow>
   (if 256 \<le> block_size \<and> block_size \<le> 16777216
    then \<exists>padded. pad_payload rnd payload block_size = Inr padded \<and> unpad_payload padded = Inr payload
       \<and> block_size dvd length padded
       \<and> 8 + length payload \<le> length padded \<and> length padded < 8 + length payload + block_size
    else \<exists>e. pad_payload rnd payload block_size = Inl e)"
  using pad_unpad[of rnd payload block_size] by (auto simp: pad_payload_def)

lemma padding_roundtrip_witness:
  "\<exists>padded. pad_payload example_random [1, 2, 3] 256 = Inr padded
     \<and> unpad_payload padded = Inr [1, 2, 3] \<and> length padded = 256"
proof -
  from padding_roundtrip[OF example_random_law, of "[1, 2, 3]" 256] obtain padded k where
    p: "pad_payload example_random [1, 2, 3] 256 = Inr padded"
    "unpad_payload padded = Inr [1, 2, 3]" "length padded = 256 * k" "11 \<le> length padded" "length padded < 267"
    by (auto simp: dvd_def)
  moreover from this have "k = 1" by (cases k rule: nat.exhaust) auto
  ultimately show ?thesis by auto
qed

end
