(* ===== verification/Formats.thy ===== *)
theory Formats
  imports Padding
begin

text \<open>
  The binary structures of the containers: \<^verbatim>\<open>container_format.py\<close> (MSC1), \<^verbatim>\<open>stream_format.py\<close>
  (MSC2 and the frame header) and \<^verbatim>\<open>dedup_format.py\<close> (MSC3 to MSC6). Each header is a record, its
  \<^verbatim>\<open>pack\<close> method and its parser with all checks. The locale \<open>wire\<close> is the contract of such a pair:
  a valid header is packed into a fixed number of bytes that parse to it, and whatever parses is
  the packing of the result, so a header has exactly one encoding.
\<close>

section \<open>The contract of a header\<close>

locale wire =
  fixes pack :: "'h \<Rightarrow> bytes result"
    and parse :: "bytes \<Rightarrow> 'h result"
    and size :: nat
    and valid :: "'h \<Rightarrow> bool"
  assumes pack_total: "valid h \<Longrightarrow> \<exists>b. pack h = Inr b"
    and parse_pack: "valid h \<Longrightarrow> pack h = Inr b \<Longrightarrow> parse b = Inr h"
    and pack_parse: "parse b = Inr h \<Longrightarrow> pack h = Inr b"
    and parse_valid: "parse b = Inr h \<Longrightarrow> valid h"
    and pack_length: "pack h = Inr b \<Longrightarrow> length b = size"
begin

text \<open>Reading a header from a stream consumes exactly its bytes.\<close>

lemma read_header:
  assumes "valid h" and "pack h = Inr b"
  shows "bindR (read_exact m (b @ rest) size) (\<lambda>(d, s). bindR (parse d) (\<lambda>h. Inr (h, s)))
       = Inr (h, rest)"
  using parse_pack[OF assms] pack_length[OF assms(2)] by simp

lemma canonical: "parse b = Inr h \<longleftrightarrow> valid h \<and> pack h = Inr b"
  using parse_pack[of h b] pack_parse[of b h] parse_valid[of b h] by blast

lemma parse_inj: "parse a = Inr h \<Longrightarrow> parse b = Inr h \<Longrightarrow> a = b"
  using pack_parse[of a h] pack_parse[of b h] by simp

lemma pack_inj: "valid h \<Longrightarrow> valid k \<Longrightarrow> pack h = Inr b \<Longrightarrow> pack k = Inr b \<Longrightarrow> h = k"
  using parse_pack[of h b] parse_pack[of k b] by simp

lemma parse_length: "parse b = Inr h \<Longrightarrow> length b = size"
  using pack_length[OF pack_parse] .

lemma valid_iff_packed: "valid h \<longleftrightarrow> (\<exists>b. pack h = Inr b \<and> parse b = Inr h)"
  using pack_total[of h] parse_pack[of h] parse_valid[of _ h] by blast

end

text \<open>
  How a header built on a \<^verbatim>\<open>struct\<close> format satisfies the contract: \<open>vals\<close> lists its fields and
  \<open>build\<close> checks the unpacked values and makes the header of them.
\<close>

lemma wireI:
  assumes pack: "\<And>h. pack h = struct_pack fs (vals h)"
    and parse: "\<And>b. parse b = (if length b \<noteq> struct_size fs then Inl e
                  else bindR (struct_unpack fs b) build)"
    and exact: "\<And>h. valid h \<Longrightarrow> list_all2 field_exact fs (vals h) \<and> build (vals h) = Inr h"
    and built: "\<And>b h. build (fields_unpack fs b) = Inr h \<Longrightarrow> length b = struct_size fs \<Longrightarrow>
                  vals h = fields_unpack fs b \<and> valid h"
  shows "wire pack parse (struct_size fs) valid"
proof unfold_locales
  fix h b
  show "\<exists>b. pack h = Inr b" if "valid h"
    using struct_pack_exact exact[OF that] by (auto simp: pack)
  show len: "length b = struct_size fs" if "pack h = Inr b"
    using that unfolding pack by (rule struct_pack_length)
  show "parse b = Inr h" if "valid h" and "pack h = Inr b"
    using struct_unpack_pack[of fs "vals h" b] exact[OF that(1)] that(2) len[OF that(2)]
    by (simp add: pack parse)
  assume parsed: "parse b = Inr h"
  then have lb: "length b = struct_size fs" and un: "struct_unpack fs b = Inr (fields_unpack fs b)"
    and b: "build (fields_unpack fs b) = Inr h"
    by (auto simp: parse result_simps struct_unpack_def split: if_splits)
  show "valid h" using built[OF b lb] by blast
  show "pack h = Inr b" using built[OF b lb] struct_repack[OF un] by (simp add: pack)
qed

section \<open>MSC1: \<^verbatim>\<open>container_format.py\<close>\<close>

abbreviation MSC1_MAGIC where "MSC1_MAGIC \<equiv> ([77, 83, 67, 49] :: bytes)"
abbreviation FLAG_PADDED where "FLAG_PADDED \<equiv> (1 :: nat)"
abbreviation KDF_SCRYPT where "KDF_SCRYPT \<equiv> (1 :: nat)"
abbreviation AEAD_CHACHA20_POLY1305 where "AEAD_CHACHA20_POLY1305 \<equiv> (1 :: nat)"
abbreviation MAX_CHUNK_SIZE where "MAX_CHUNK_SIZE \<equiv> (16777216 :: nat)"
abbreviation MAX_PADDING_SIZE where "MAX_PADDING_SIZE \<equiv> (16777216 :: nat)"
abbreviation MAX_BLOCK_COUNT where "MAX_BLOCK_COUNT \<equiv> (16777216 :: nat)"

abbreviation PUBLIC_HEADER where "PUBLIC_HEADER \<equiv>
  [FBytes 4, FUInt 1, FUInt 1, FUInt 1, FUInt 1, FUInt 4, FUInt 4, FBytes 16, FBytes 12,
   FUInt 1, FUInt 1, FUInt 1, FUInt 8]"

record PublicHeader =
  ph_version :: nat
  ph_flags :: nat
  ph_kdf_id :: nat
  ph_aead_id :: nat
  ph_chunk_size :: nat
  ph_padding_size :: nat
  ph_salt :: bytes
  ph_nonce :: bytes
  ph_kdf_log_n :: nat
  ph_kdf_r :: nat
  ph_kdf_p :: nat
  ph_ciphertext_length :: nat

definition public_header_values :: "PublicHeader \<Rightarrow> sval list" where
  "public_header_values h =
     [VB MSC1_MAGIC, VU (ph_version h), VU (ph_flags h), VU (ph_kdf_id h), VU (ph_aead_id h),
      VU (ph_chunk_size h), VU (ph_padding_size h), VB (ph_salt h), VB (ph_nonce h),
      VU (ph_kdf_log_n h), VU (ph_kdf_r h), VU (ph_kdf_p h), VU (ph_ciphertext_length h)]"

definition pack_public_header :: "PublicHeader \<Rightarrow> bytes result" where
  "pack_public_header h = struct_pack PUBLIC_HEADER (public_header_values h)"

definition validate_public_header :: "PublicHeader \<Rightarrow> unit result" where
  "validate_public_header h =
     (if ph_version h \<noteq> 1 then Inl (UnsupportedVersionError ''unsupported MSC version'')
      else if ph_flags h \<noteq> FLAG_PADDED
      then Inl (ArchiveFormatError ''archive uses unsupported header flags'')
      else if ph_kdf_id h \<noteq> KDF_SCRYPT \<or> ph_aead_id h \<noteq> AEAD_CHACHA20_POLY1305
      then Inl (ArchiveFormatError ''archive uses unsupported cryptographic algorithms'')
      else if \<not> (1 \<le> ph_chunk_size h \<and> ph_chunk_size h \<le> MAX_CHUNK_SIZE)
      then Inl (ArchiveFormatError ''archive chunk size is outside the supported range'')
      else if \<not> (256 \<le> ph_padding_size h \<and> ph_padding_size h \<le> MAX_PADDING_SIZE)
      then Inl (ArchiveFormatError ''archive padding size is outside the supported range'')
      else if length (ph_salt h) \<noteq> SALT_LENGTH \<or> length (ph_nonce h) \<noteq> NONCE_LENGTH
      then Inl (ArchiveFormatError ''archive salt or nonce has an invalid size'')
      else if \<not> (14 \<le> ph_kdf_log_n h \<and> ph_kdf_log_n h \<le> 18)
      then Inl (ArchiveFormatError ''archive scrypt cost is outside the supported range'')
      else if ph_kdf_r h \<noteq> 8 \<or> ph_kdf_p h \<noteq> 1
      then Inl (ArchiveFormatError ''archive scrypt parameters are outside the supported range'')
      else if ph_ciphertext_length h < AEAD_TAG_LENGTH
      then Inl (ArchiveFormatError ''archive ciphertext length is invalid'')
      else Inr ())"

definition public_header_of :: "sval list \<Rightarrow> PublicHeader result" where
  "public_header_of unpacked =
     (if bval (unpacked ! 0) \<noteq> MSC1_MAGIC
      then Inl (ArchiveFormatError ''not a Mosaic Archive (missing MSC1 magic)'')
      else let header =
          \<lparr>ph_version = uval (unpacked ! 1), ph_flags = uval (unpacked ! 2),
           ph_kdf_id = uval (unpacked ! 3), ph_aead_id = uval (unpacked ! 4),
           ph_chunk_size = uval (unpacked ! 5), ph_padding_size = uval (unpacked ! 6),
           ph_salt = bval (unpacked ! 7), ph_nonce = bval (unpacked ! 8),
           ph_kdf_log_n = uval (unpacked ! 9), ph_kdf_r = uval (unpacked ! 10),
           ph_kdf_p = uval (unpacked ! 11), ph_ciphertext_length = uval (unpacked ! 12)\<rparr>
        in bindR (validate_public_header header) (\<lambda>_. Inr header))"

definition parse_public_header :: "bytes \<Rightarrow> PublicHeader result" where
  "parse_public_header data =
     (if length data \<noteq> struct_size PUBLIC_HEADER
      then Inl (ArchiveFormatError ''archive public header is truncated'')
      else bindR (struct_unpack PUBLIC_HEADER data) public_header_of)"

definition valid_public_header :: "PublicHeader \<Rightarrow> bool" where
  "valid_public_header h \<longleftrightarrow>
     validate_public_header h = Inr () \<and> ph_ciphertext_length h < 2 ^ 64"

lemma validate_public_header_Inr:
  "validate_public_header h = Inr () \<longleftrightarrow>
     ph_version h = 1 \<and> ph_flags h = 1 \<and> ph_kdf_id h = 1 \<and> ph_aead_id h = 1 \<and>
     1 \<le> ph_chunk_size h \<and> ph_chunk_size h \<le> MAX_CHUNK_SIZE \<and>
     256 \<le> ph_padding_size h \<and> ph_padding_size h \<le> MAX_PADDING_SIZE \<and>
     length (ph_salt h) = 16 \<and> length (ph_nonce h) = 12 \<and>
     14 \<le> ph_kdf_log_n h \<and> ph_kdf_log_n h \<le> 18 \<and> ph_kdf_r h = 8 \<and> ph_kdf_p h = 1 \<and>
     16 \<le> ph_ciphertext_length h"
  unfolding validate_public_header_def by (auto simp: not_less not_le split: if_splits)

interpretation public_header:
  wire pack_public_header parse_public_header "struct_size PUBLIC_HEADER" valid_public_header
proof (rule wireI[where fs = PUBLIC_HEADER and vals = public_header_values])
  show "list_all2 field_exact PUBLIC_HEADER (public_header_values h) \<and>
      public_header_of (public_header_values h) = Inr h" if "valid_public_header h" for h
  proof
    show "list_all2 field_exact PUBLIC_HEADER (public_header_values h)"
      using that by (simp add: valid_public_header_def validate_public_header_Inr public_header_values_def)
    from that have "validate_public_header h = Inr ()" by (simp add: valid_public_header_def)
    then show "public_header_of (public_header_values h) = Inr h"
      by (cases h) (simp add: public_header_of_def public_header_values_def Let_def)
  qed
  show "public_header_values h = fields_unpack PUBLIC_HEADER b \<and> valid_public_header h"
    if "public_header_of (fields_unpack PUBLIC_HEADER b) = Inr h" and "length b = struct_size PUBLIC_HEADER"
    for b h
  proof -
    have "be_decode (take 8 (drop 47 b)) < 2 ^ 64"
      using that(2) be_decode_lt'[of "take 8 (drop 47 b)" 8] by (simp add: struct_size_def)
    with that show ?thesis
      by (auto simp: public_header_of_def public_header_values_def valid_public_header_def
          result_simps Let_def split: if_splits)
  qed
qed (simp_all add: pack_public_header_def parse_public_header_def)

section \<open>MSC2: \<^verbatim>\<open>stream_format.py\<close>\<close>

abbreviation MSC2_MAGIC where "MSC2_MAGIC \<equiv> ([77, 83, 67, 50] :: bytes)"
abbreviation MSC2_VERSION where "MSC2_VERSION \<equiv> (2 :: nat)"
abbreviation MSC2_FLAGS where "MSC2_FLAGS \<equiv> (3 :: nat)"
abbreviation NONCE_PREFIX_LENGTH where "NONCE_PREFIX_LENGTH \<equiv> (4 :: nat)"
abbreviation MAX_FRAME_COUNT where "MAX_FRAME_COUNT \<equiv> (16777216 :: nat)"
abbreviation MAX_MANIFEST_CIPHERTEXT where "MAX_MANIFEST_CIPHERTEXT \<equiv> (268435456 :: nat)"
abbreviation FRAME_MANIFEST where "FRAME_MANIFEST \<equiv> (1 :: nat)"
abbreviation FRAME_DATA where "FRAME_DATA \<equiv> (2 :: nat)"

abbreviation MSC2_HEADER where "MSC2_HEADER \<equiv>
  [FBytes 4, FUInt 1, FUInt 1, FUInt 1, FUInt 1, FUInt 4, FUInt 4, FBytes 16, FBytes 4,
   FUInt 1, FUInt 1, FUInt 1, FUInt 8]"
abbreviation FRAME_HEADER where "FRAME_HEADER \<equiv> [FUInt 8, FUInt 1, FUInt 4]"

record Msc2Header =
  m2_version :: nat
  m2_flags :: nat
  m2_kdf_id :: nat
  m2_aead_id :: nat
  m2_chunk_size :: nat
  m2_padding_size :: nat
  m2_salt :: bytes
  m2_nonce_prefix :: bytes
  m2_kdf_log_n :: nat
  m2_kdf_r :: nat
  m2_kdf_p :: nat
  m2_frame_count :: nat

definition msc2_values :: "Msc2Header \<Rightarrow> sval list" where
  "msc2_values h =
     [VB MSC2_MAGIC, VU (m2_version h), VU (m2_flags h), VU (m2_kdf_id h), VU (m2_aead_id h),
      VU (m2_chunk_size h), VU (m2_padding_size h), VB (m2_salt h), VB (m2_nonce_prefix h),
      VU (m2_kdf_log_n h), VU (m2_kdf_r h), VU (m2_kdf_p h), VU (m2_frame_count h)]"

definition pack_msc2_header :: "Msc2Header \<Rightarrow> bytes result" where
  "pack_msc2_header h = struct_pack MSC2_HEADER (msc2_values h)"

text \<open>The checks of \<^verbatim>\<open>parse_msc2_header\<close>, in its order.\<close>

definition check_msc2_header :: "Msc2Header \<Rightarrow> unit result" where
  "check_msc2_header header =
     (if m2_version header \<noteq> MSC2_VERSION
      then Inl (UnsupportedVersionError ''unsupported MSC2 version'')
      else if m2_flags header \<noteq> MSC2_FLAGS
      then Inl (ArchiveFormatError ''MSC2 archive uses unsupported header flags'')
      else if m2_kdf_id header \<noteq> KDF_SCRYPT \<or> m2_aead_id header \<noteq> AEAD_CHACHA20_POLY1305
      then Inl (ArchiveFormatError ''MSC2 archive uses unsupported cryptographic algorithms'')
      else if \<not> (1 \<le> m2_chunk_size header \<and> m2_chunk_size header \<le> MAX_CHUNK_SIZE)
      then Inl (ArchiveFormatError ''MSC2 chunk size is outside the supported range'')
      else if \<not> (256 \<le> m2_padding_size header \<and> m2_padding_size header \<le> MAX_PADDING_SIZE)
      then Inl (ArchiveFormatError ''MSC2 padding size is outside the supported range'')
      else if length (m2_salt header) \<noteq> SALT_LENGTH
      then Inl (ArchiveFormatError ''MSC2 salt has an invalid size'')
      else if length (m2_nonce_prefix header) \<noteq> NONCE_PREFIX_LENGTH
      then Inl (ArchiveFormatError ''MSC2 nonce prefix has an invalid size'')
      else if \<not> (14 \<le> m2_kdf_log_n header \<and> m2_kdf_log_n header \<le> 18)
      then Inl (ArchiveFormatError ''MSC2 scrypt cost is outside the supported range'')
      else if m2_kdf_r header \<noteq> 8 \<or> m2_kdf_p header \<noteq> 1
      then Inl (ArchiveFormatError ''MSC2 scrypt parameters are outside the supported range'')
      else if \<not> (1 \<le> m2_frame_count header \<and> m2_frame_count header \<le> MAX_FRAME_COUNT)
      then Inl (ArchiveFormatError ''MSC2 frame count is outside the supported range'')
      else Inr ())"

definition msc2_header_of :: "sval list \<Rightarrow> Msc2Header result" where
  "msc2_header_of unpacked =
     (if bval (unpacked ! 0) \<noteq> MSC2_MAGIC
      then Inl (ArchiveFormatError ''not a framed Mosaic Archive (missing MSC2 magic)'')
      else let header =
          \<lparr>m2_version = uval (unpacked ! 1), m2_flags = uval (unpacked ! 2),
           m2_kdf_id = uval (unpacked ! 3), m2_aead_id = uval (unpacked ! 4),
           m2_chunk_size = uval (unpacked ! 5), m2_padding_size = uval (unpacked ! 6),
           m2_salt = bval (unpacked ! 7), m2_nonce_prefix = bval (unpacked ! 8),
           m2_kdf_log_n = uval (unpacked ! 9), m2_kdf_r = uval (unpacked ! 10),
           m2_kdf_p = uval (unpacked ! 11), m2_frame_count = uval (unpacked ! 12)\<rparr>
        in bindR (check_msc2_header header) (\<lambda>_. Inr header))"

definition parse_msc2_header :: "bytes \<Rightarrow> Msc2Header result" where
  "parse_msc2_header data =
     (if length data \<noteq> struct_size MSC2_HEADER
      then Inl (ArchiveFormatError ''MSC2 public header is truncated'')
      else bindR (struct_unpack MSC2_HEADER data) msc2_header_of)"

definition valid_msc2_header :: "Msc2Header \<Rightarrow> bool" where
  "valid_msc2_header h \<longleftrightarrow>
     m2_version h = MSC2_VERSION \<and> m2_flags h = MSC2_FLAGS \<and> m2_kdf_id h = 1 \<and> m2_aead_id h = 1 \<and>
     1 \<le> m2_chunk_size h \<and> m2_chunk_size h \<le> MAX_CHUNK_SIZE \<and>
     256 \<le> m2_padding_size h \<and> m2_padding_size h \<le> MAX_PADDING_SIZE \<and>
     length (m2_salt h) = 16 \<and> length (m2_nonce_prefix h) = 4 \<and>
     14 \<le> m2_kdf_log_n h \<and> m2_kdf_log_n h \<le> 18 \<and> m2_kdf_r h = 8 \<and> m2_kdf_p h = 1 \<and>
     1 \<le> m2_frame_count h \<and> m2_frame_count h \<le> MAX_FRAME_COUNT"

lemma check_msc2_header_Inr: "check_msc2_header h = Inr () \<longleftrightarrow> valid_msc2_header h"
  unfolding check_msc2_header_def valid_msc2_header_def by (auto simp: not_le split: if_splits)

interpretation msc2_header:
  wire pack_msc2_header parse_msc2_header "struct_size MSC2_HEADER" valid_msc2_header
proof (rule wireI[where fs = MSC2_HEADER and vals = msc2_values])
  show "list_all2 field_exact MSC2_HEADER (msc2_values h) \<and> msc2_header_of (msc2_values h) = Inr h"
    if "valid_msc2_header h" for h
  proof
    show "list_all2 field_exact MSC2_HEADER (msc2_values h)"
      using that by (simp add: valid_msc2_header_def msc2_values_def)
    from that have "check_msc2_header h = Inr ()" by (simp add: check_msc2_header_Inr)
    then show "msc2_header_of (msc2_values h) = Inr h"
      by (cases h) (simp add: msc2_header_of_def msc2_values_def Let_def)
  qed
  show "msc2_values h = fields_unpack MSC2_HEADER b \<and> valid_msc2_header h"
    if "msc2_header_of (fields_unpack MSC2_HEADER b) = Inr h" and "length b = struct_size MSC2_HEADER"
    for b h
    using that
    by (auto simp: msc2_header_of_def msc2_values_def check_msc2_header_Inr Let_def result_simps
        split: if_splits)
qed (simp_all add: pack_msc2_header_def parse_msc2_header_def)

record FrameHeader =
  fh_index :: nat
  fh_frame_type :: nat
  fh_ciphertext_length :: nat

definition frame_values :: "FrameHeader \<Rightarrow> sval list" where
  "frame_values f = [VU (fh_index f), VU (fh_frame_type f), VU (fh_ciphertext_length f)]"

definition pack_frame_header :: "FrameHeader \<Rightarrow> bytes result" where
  "pack_frame_header f = struct_pack FRAME_HEADER (frame_values f)"

definition frame_header_of :: "sval list \<Rightarrow> FrameHeader result" where
  "frame_header_of vs =
     (let frame_type = uval (vs ! 1); ciphertext_length = uval (vs ! 2)
      in if frame_type \<notin> {FRAME_MANIFEST, FRAME_DATA}
         then Inl (ArchiveFormatError ''MSC2 frame type is unknown'')
         else if ciphertext_length < AEAD_TAG_LENGTH
         then Inl (ArchiveFormatError ''MSC2 frame ciphertext length is invalid'')
         else Inr \<lparr>fh_index = uval (vs ! 0), fh_frame_type = frame_type,
                   fh_ciphertext_length = ciphertext_length\<rparr>)"

definition parse_frame_header :: "bytes \<Rightarrow> FrameHeader result" where
  "parse_frame_header data =
     (if length data \<noteq> struct_size FRAME_HEADER
      then Inl (ArchiveFormatError ''MSC2 frame header is truncated'')
      else bindR (struct_unpack FRAME_HEADER data) frame_header_of)"

definition valid_frame_header :: "FrameHeader \<Rightarrow> bool" where
  "valid_frame_header f \<longleftrightarrow>
     fh_index f < 256 ^ 8 \<and> fh_frame_type f \<in> {FRAME_MANIFEST, FRAME_DATA} \<and>
     AEAD_TAG_LENGTH \<le> fh_ciphertext_length f \<and> fh_ciphertext_length f < 256 ^ 4"

interpretation frame_header:
  wire pack_frame_header parse_frame_header "struct_size FRAME_HEADER" valid_frame_header
proof (rule wireI[where fs = FRAME_HEADER and vals = frame_values])
  show "list_all2 field_exact FRAME_HEADER (frame_values f) \<and> frame_header_of (frame_values f) = Inr f"
    if "valid_frame_header f" for f
    using that by (auto simp: valid_frame_header_def frame_header_of_def frame_values_def Let_def)
  show "frame_values f = fields_unpack FRAME_HEADER b \<and> valid_frame_header f"
    if h: "frame_header_of (fields_unpack FRAME_HEADER b) = Inr f" and len: "length b = struct_size FRAME_HEADER"
    for b f
  proof -
    have "frame_values f = fields_unpack FRAME_HEADER b"
      using h by (auto simp: frame_header_of_def frame_values_def Let_def split: if_splits)
    moreover have "list_all2 field_fits FRAME_HEADER (fields_unpack FRAME_HEADER b)"
      using struct_pack_unpack[OF len] by blast
    ultimately have "list_all2 field_fits FRAME_HEADER (frame_values f)" by metis
    with h show ?thesis
      by (auto simp: frame_header_of_def frame_values_def valid_frame_header_def Let_def split: if_splits)
  qed
qed (simp_all add: pack_frame_header_def parse_frame_header_def)

text \<open>\<^verbatim>\<open>index.to_bytes(8, "big")\<close> raises when the index does not fit.\<close>

definition frame_nonce :: "bytes \<Rightarrow> nat \<Rightarrow> bytes result" where
  "frame_nonce prefix index =
     (if length prefix \<noteq> NONCE_PREFIX_LENGTH
      then Inl (ValueError ''MSC2 nonce prefix must be four bytes'')
      else if index \<ge> 256 ^ 8 then Inl (OverflowError ''int too big to convert'')
      else Inr (prefix @ be_encode 8 index))"

lemma frame_nonce_length: "frame_nonce prefix i = Inr n \<Longrightarrow> length n = NONCE_LENGTH"
  by (auto simp: frame_nonce_def split: if_splits)

lemma frame_nonce_inj:
  assumes "frame_nonce p i = Inr n" and "frame_nonce p j = Inr n"
  shows "i = j"
proof -
  have "be_encode 8 i = be_encode 8 j" and "i < 256 ^ 8" and "j < 256 ^ 8"
    using assms by (auto simp: frame_nonce_def split: if_splits)
  then show ?thesis by (metis be_decode_encode)
qed

section \<open>MSC3 to MSC6: \<^verbatim>\<open>dedup_format.py\<close>\<close>

abbreviation MSC3_MAGIC where "MSC3_MAGIC \<equiv> ([77, 83, 67, 51] :: bytes)"
abbreviation MSC4_MAGIC where "MSC4_MAGIC \<equiv> ([77, 83, 67, 52] :: bytes)"
abbreviation MSC5_MAGIC where "MSC5_MAGIC \<equiv> ([77, 83, 67, 53] :: bytes)"
abbreviation MSC6_MAGIC where "MSC6_MAGIC \<equiv> ([77, 83, 67, 54] :: bytes)"
abbreviation MSC6_VERSION where "MSC6_VERSION \<equiv> (6 :: nat)"
abbreviation MSC3_FLAGS where "MSC3_FLAGS \<equiv> (7 :: nat)"

abbreviation MSC3_HEADER where "MSC3_HEADER \<equiv>
  [FBytes 4, FUInt 1, FUInt 1, FUInt 1, FUInt 1, FUInt 4, FUInt 4, FUInt 4, FUInt 4, FBytes 16,
   FBytes 4, FUInt 1, FUInt 1, FUInt 1, FUInt 8]"

record Msc3Header =
  m3_version :: nat
  m3_flags :: nat
  m3_kdf_id :: nat
  m3_aead_id :: nat
  m3_min_chunk_size :: nat
  m3_avg_chunk_size :: nat
  m3_max_chunk_size :: nat
  m3_padding_size :: nat
  m3_salt :: bytes
  m3_nonce_prefix :: bytes
  m3_kdf_log_n :: nat
  m3_kdf_r :: nat
  m3_kdf_p :: nat
  m3_frame_count :: nat

definition msc3_magic :: "nat \<Rightarrow> bytes" where
  "msc3_magic version =
     (if version = 3 then MSC3_MAGIC else if version = 4 then MSC4_MAGIC
      else if version = 5 then MSC5_MAGIC else MSC6_MAGIC)"

definition msc3_values :: "Msc3Header \<Rightarrow> sval list" where
  "msc3_values h =
     [VB (msc3_magic (m3_version h)), VU (m3_version h), VU (m3_flags h), VU (m3_kdf_id h),
      VU (m3_aead_id h), VU (m3_min_chunk_size h), VU (m3_avg_chunk_size h),
      VU (m3_max_chunk_size h), VU (m3_padding_size h), VB (m3_salt h), VB (m3_nonce_prefix h),
      VU (m3_kdf_log_n h), VU (m3_kdf_r h), VU (m3_kdf_p h), VU (m3_frame_count h)]"

definition pack_msc3_header :: "Msc3Header \<Rightarrow> bytes result" where
  "pack_msc3_header h = struct_pack MSC3_HEADER (msc3_values h)"

text \<open>The checks of \<^verbatim>\<open>parse_msc3_header\<close> behind the magic, in its order.\<close>

definition check_msc3_header :: "nat \<Rightarrow> Msc3Header \<Rightarrow> unit result" where
  "check_msc3_header expected_version header =
     (if m3_version header \<noteq> expected_version
      then Inl (UnsupportedVersionError ''dedup archive magic/version mismatch'')
      else if m3_flags header \<noteq> MSC3_FLAGS
      then Inl (ArchiveFormatError ''MSC3 archive uses unsupported flags'')
      else if m3_kdf_id header \<noteq> KDF_SCRYPT \<or> m3_aead_id header \<noteq> AEAD_CHACHA20_POLY1305
      then Inl (ArchiveFormatError ''MSC3 archive uses unsupported cryptographic algorithms'')
      else if m3_min_chunk_size header < 64
        \<or> m3_avg_chunk_size header AND (m3_avg_chunk_size header - 1) \<noteq> 0
        \<or> \<not> (m3_min_chunk_size header \<le> m3_avg_chunk_size header
             \<and> m3_avg_chunk_size header \<le> m3_max_chunk_size header
             \<and> m3_max_chunk_size header \<le> 16 * 1024 * 1024)
      then Inl (ArchiveFormatError ''MSC3 chunking parameters are invalid'')
      else if \<not> (256 \<le> m3_padding_size header \<and> m3_padding_size header \<le> 16 * 1024 * 1024)
      then Inl (ArchiveFormatError ''MSC3 padding size is invalid'')
      else if length (m3_salt header) \<noteq> SALT_LENGTH
        \<or> length (m3_nonce_prefix header) \<noteq> NONCE_PREFIX_LENGTH
      then Inl (ArchiveFormatError ''MSC3 salt or nonce prefix is invalid'')
      else if \<not> (14 \<le> m3_kdf_log_n header \<and> m3_kdf_log_n header \<le> 18)
        \<or> m3_kdf_r header \<noteq> 8 \<or> m3_kdf_p header \<noteq> 1
      then Inl (ArchiveFormatError ''MSC3 scrypt parameters are outside supported limits'')
      else if \<not> (1 \<le> m3_frame_count header \<and> m3_frame_count header \<le> MAX_FRAME_COUNT)
      then Inl (ArchiveFormatError ''MSC3 frame count is outside supported limits'')
      else Inr ())"

definition msc3_expected_version :: "bytes \<Rightarrow> nat" where
  "msc3_expected_version magic =
     (if magic = MSC3_MAGIC then 3 else if magic = MSC4_MAGIC then 4
      else if magic = MSC5_MAGIC then 5 else 6)"

definition msc3_header_of :: "sval list \<Rightarrow> Msc3Header result" where
  "msc3_header_of values =
     (let magic = bval (values ! 0) in
      if magic \<notin> {MSC3_MAGIC, MSC4_MAGIC, MSC5_MAGIC, MSC6_MAGIC}
      then Inl (ArchiveFormatError ''not a deduplicating Mosaic Archive'')
      else let header =
          \<lparr>m3_version = uval (values ! 1), m3_flags = uval (values ! 2),
           m3_kdf_id = uval (values ! 3), m3_aead_id = uval (values ! 4),
           m3_min_chunk_size = uval (values ! 5), m3_avg_chunk_size = uval (values ! 6),
           m3_max_chunk_size = uval (values ! 7), m3_padding_size = uval (values ! 8),
           m3_salt = bval (values ! 9), m3_nonce_prefix = bval (values ! 10),
           m3_kdf_log_n = uval (values ! 11), m3_kdf_r = uval (values ! 12),
           m3_kdf_p = uval (values ! 13), m3_frame_count = uval (values ! 14)\<rparr>
        in bindR (check_msc3_header (msc3_expected_version magic) header) (\<lambda>_. Inr header))"

definition parse_msc3_header :: "bytes \<Rightarrow> Msc3Header result" where
  "parse_msc3_header data =
     (if length data \<noteq> struct_size MSC3_HEADER
      then Inl (ArchiveFormatError ''MSC3 public header is truncated'')
      else bindR (struct_unpack MSC3_HEADER data) msc3_header_of)"

definition valid_msc3_header :: "Msc3Header \<Rightarrow> bool" where
  "valid_msc3_header h \<longleftrightarrow>
     m3_version h \<in> {3, 4, 5, 6} \<and> m3_flags h = MSC3_FLAGS \<and> m3_kdf_id h = 1 \<and> m3_aead_id h = 1 \<and>
     64 \<le> m3_min_chunk_size h \<and> m3_avg_chunk_size h AND (m3_avg_chunk_size h - 1) = 0 \<and>
     m3_min_chunk_size h \<le> m3_avg_chunk_size h \<and> m3_avg_chunk_size h \<le> m3_max_chunk_size h \<and>
     m3_max_chunk_size h \<le> 16777216 \<and>
     256 \<le> m3_padding_size h \<and> m3_padding_size h \<le> 16777216 \<and>
     length (m3_salt h) = 16 \<and> length (m3_nonce_prefix h) = 4 \<and>
     14 \<le> m3_kdf_log_n h \<and> m3_kdf_log_n h \<le> 18 \<and> m3_kdf_r h = 8 \<and> m3_kdf_p h = 1 \<and>
     1 \<le> m3_frame_count h \<and> m3_frame_count h \<le> MAX_FRAME_COUNT"

lemma check_msc3_header_Inr:
  "v \<in> {3, 4, 5, 6} \<Longrightarrow>
   check_msc3_header v h = Inr () \<longleftrightarrow> valid_msc3_header h \<and> m3_version h = v"
  unfolding check_msc3_header_def valid_msc3_header_def
  by (auto simp: not_le not_less split: if_splits)

lemma msc3_magic_version:
  "m \<in> {MSC3_MAGIC, MSC4_MAGIC, MSC5_MAGIC, MSC6_MAGIC} \<Longrightarrow>
   msc3_expected_version m \<in> {3, 4, 5, 6} \<and> msc3_magic (msc3_expected_version m) = m"
  by (auto simp: msc3_expected_version_def msc3_magic_def)

lemma msc3_version_magic:
  "v \<in> {3, 4, 5, 6} \<Longrightarrow> msc3_expected_version (msc3_magic v) = v \<and>
   msc3_magic v \<in> {MSC3_MAGIC, MSC4_MAGIC, MSC5_MAGIC, MSC6_MAGIC} \<and> length (msc3_magic v) = 4"
  by (auto simp: msc3_expected_version_def msc3_magic_def)

lemma field_fits_val:
  "field_fits (FBytes n) x \<Longrightarrow> VB (bval x) = x"
  "field_fits (FUInt n) x \<Longrightarrow> VU (uval x) = x"
  by (cases x; simp)+

lemma msc3_header_ofD:
  assumes "msc3_header_of vs = Inr h" and "length vs = 15"
    and "list_all2 field_fits MSC3_HEADER vs"
  shows "valid_msc3_header h \<and> msc3_values h = vs"
proof -
  define m where "m = bval (vs ! 0)"
  from assms(1) have m: "m \<in> {MSC3_MAGIC, MSC4_MAGIC, MSC5_MAGIC, MSC6_MAGIC}"
    unfolding msc3_header_of_def Let_def m_def by (simp split: if_split_asm)
  from assms(1) m have c: "check_msc3_header (msc3_expected_version m) h = Inr ()"
    unfolding msc3_header_of_def Let_def m_def by (auto simp: result_simps simp del: insert_iff)
  with m have v: "valid_msc3_header h" and ver: "m3_version h = msc3_expected_version m"
    using msc3_magic_version check_msc3_header_Inr by blast+
  from ver m have mag: "msc3_magic (m3_version h) = bval (vs ! 0)"
    using msc3_magic_version m_def by simp
  from assms(1) m have "m3_version h = uval (vs ! 1)" and "m3_flags h = uval (vs ! 2)"
    and "m3_kdf_id h = uval (vs ! 3)" and "m3_aead_id h = uval (vs ! 4)"
    and "m3_min_chunk_size h = uval (vs ! 5)" and "m3_avg_chunk_size h = uval (vs ! 6)"
    and "m3_max_chunk_size h = uval (vs ! 7)" and "m3_padding_size h = uval (vs ! 8)"
    and "m3_salt h = bval (vs ! 9)" and "m3_nonce_prefix h = bval (vs ! 10)"
    and "m3_kdf_log_n h = uval (vs ! 11)" and "m3_kdf_r h = uval (vs ! 12)"
    and "m3_kdf_p h = uval (vs ! 13)" and "m3_frame_count h = uval (vs ! 14)"
    unfolding msc3_header_of_def Let_def m_def by (auto simp: result_simps simp del: insert_iff)
  with mag have "msc3_values h = [VB (bval (vs ! 0)), VU (uval (vs ! 1)), VU (uval (vs ! 2)),
      VU (uval (vs ! 3)), VU (uval (vs ! 4)), VU (uval (vs ! 5)), VU (uval (vs ! 6)),
      VU (uval (vs ! 7)), VU (uval (vs ! 8)), VB (bval (vs ! 9)), VB (bval (vs ! 10)),
      VU (uval (vs ! 11)), VU (uval (vs ! 12)), VU (uval (vs ! 13)), VU (uval (vs ! 14))]"
    unfolding msc3_values_def by simp
  also have "\<dots> = vs"
    using assms(3) by (auto simp: list_all2_Cons1 dest!: field_fits_val)
  finally show ?thesis using v by simp
qed

interpretation msc3_header:
  wire pack_msc3_header parse_msc3_header "struct_size MSC3_HEADER" valid_msc3_header
proof (rule wireI[where fs = MSC3_HEADER and vals = msc3_values])
  show "list_all2 field_exact MSC3_HEADER (msc3_values h) \<and> msc3_header_of (msc3_values h) = Inr h"
    if "valid_msc3_header h" for h
  proof
    from that have v: "m3_version h \<in> {3, 4, 5, 6}" by (simp add: valid_msc3_header_def)
    from that msc3_version_magic[OF v] show "list_all2 field_exact MSC3_HEADER (msc3_values h)"
      by (auto simp: valid_msc3_header_def msc3_values_def)
    from that v have "check_msc3_header (m3_version h) h = Inr ()" by (simp add: check_msc3_header_Inr)
    with msc3_version_magic[OF v] show "msc3_header_of (msc3_values h) = Inr h"
      by (cases h) (simp add: msc3_header_of_def msc3_values_def Let_def)
  qed
  show "msc3_values h = fields_unpack MSC3_HEADER b \<and> valid_msc3_header h"
    if "msc3_header_of (fields_unpack MSC3_HEADER b) = Inr h" and "length b = struct_size MSC3_HEADER"
    for b h
    using msc3_header_ofD[OF that(1)] struct_pack_unpack[OF that(2)] by simp
qed (simp_all add: pack_msc3_header_def parse_msc3_header_def)

section \<open>Properties\<close>

text \<open>C32: Every public header (MSC1, MSC2, MSC3 to MSC6) and the frame header has one encoding: a byte string parses to a header exactly when the header is valid (magic and version agree, limits hold) and packs to that string.\<close>

lemma headers_canonical:
  "(parse_public_header b = Inr h1 \<longleftrightarrow> valid_public_header h1 \<and> pack_public_header h1 = Inr b)
   \<and> (parse_msc2_header b = Inr h2 \<longleftrightarrow> valid_msc2_header h2 \<and> pack_msc2_header h2 = Inr b)
   \<and> (parse_msc3_header b = Inr h3 \<longleftrightarrow> valid_msc3_header h3 \<and> pack_msc3_header h3 = Inr b)
   \<and> (parse_frame_header b = Inr f \<longleftrightarrow> valid_frame_header f \<and> pack_frame_header f = Inr b)"
  using public_header.canonical msc2_header.canonical msc3_header.canonical frame_header.canonical by blast

text \<open>C33: Under one prefix, two frames with different indices never share a nonce, and every frame nonce has the 12 bytes ChaCha20-Poly1305 needs.\<close>

lemma frame_nonces_distinct:
  "frame_nonce prefix i = Inr n \<Longrightarrow> frame_nonce prefix j = Inr n' \<Longrightarrow> i \<noteq> j \<Longrightarrow>
   n \<noteq> n' \<and> length n = NONCE_LENGTH \<and> length n' = NONCE_LENGTH"
  using frame_nonce_inj[of prefix i n j] frame_nonce_length[of prefix i n] frame_nonce_length[of prefix j n']
  by blast

lemma frame_nonces_distinct_witness:
  "frame_nonce [1, 2, 3, 4] 0 \<noteq> frame_nonce [1, 2, 3, 4] 1"
proof -
  obtain n n' where "frame_nonce [1, 2, 3, 4] 0 = Inr n" "frame_nonce [1, 2, 3, 4] 1 = Inr n'"
    by (simp add: frame_nonce_def)
  with frame_nonces_distinct[of "[1, 2, 3, 4]" 0 n 1 n'] show ?thesis by simp
qed

end
