(* ===== verification/Codec.thy ===== *)
theory Codec
  imports Prelude
begin

text \<open>
  The interface of a compression mode, \<^verbatim>\<open>CompressionMode\<close> in
  \<^verbatim>\<open>modes/base.py\<close>: \<^verbatim>\<open>encode\<close> turns one independent block into a payload and \<^verbatim>\<open>decode\<close>
  turns a payload and the expected size into the block. The locale states what the archive
  layers rely on: decoding an encoded block gives the block back, and a successful decode has
  exactly the declared size. Every mode interprets it in its own theory; \<open>ok\<close> restricts the
  blocks a mode accepts (the 16 MiB chunk bound of the containers, or a law of a C library).
\<close>

text \<open>The identifiers of \<^verbatim>\<open>ModeId\<close>, in the order of the enumeration.\<close>

datatype ModeId = RAW | RLE | DELTA8 | LZ_SIMPLE | BYTE_RANS | DEFLATE | LZ_RANS

fun mode_code :: "ModeId \<Rightarrow> nat" where
  "mode_code RAW = 0"
| "mode_code RLE = 1"
| "mode_code DELTA8 = 2"
| "mode_code LZ_SIMPLE = 3"
| "mode_code BYTE_RANS = 4"
| "mode_code DEFLATE = 5"
| "mode_code LZ_RANS = 6"

lemma mode_code_lt [simp]: "mode_code m < 7"
  by (cases m) auto

locale codec =
  fixes enc :: "bytes \<Rightarrow> bytes result"
    and dec :: "bytes \<Rightarrow> nat \<Rightarrow> bytes result"
    and ok :: "bytes \<Rightarrow> bool"
  assumes enc_total: "ok b \<Longrightarrow> \<exists>p. enc b = Inr p"
    and dec_enc: "ok b \<Longrightarrow> enc b = Inr p \<Longrightarrow> dec p (length b) = Inr b"
    and dec_size: "dec p n = Inr b \<Longrightarrow> length b = n"
begin

lemma enc_dec_exists: "ok b \<Longrightarrow> \<exists>p. enc b = Inr p \<and> dec p (length b) = Inr b"
  using enc_total[of b] dec_enc[of b] by blast

text \<open>Two blocks of one size never share a payload.\<close>

lemma enc_inj:
  assumes "ok a" and "ok b" and "enc a = Inr p" and "enc b = Inr p" and "length a = length b"
  shows "a = b"
proof -
  have "dec p (length b) = Inr a"
    using dec_enc[OF assms(1,3)] unfolding assms(5) .
  with dec_enc[OF assms(2,4)] show ?thesis by simp
qed

text \<open>A payload is decoded to its block under no other size.\<close>

lemma dec_wrong_size:
  assumes "ok b" and "enc b = Inr p" and "dec p n = Inr b"
  shows "n = length b"
  using dec_size[OF assms(3)] by simp

end

end
