(* ===== verification/SimpleModes.thy ===== *)
theory SimpleModes
  imports Codec
begin

text \<open>
  The three elementary modes: \<^verbatim>\<open>modes/raw.py\<close>, \<^verbatim>\<open>modes/rle.py\<close> and \<^verbatim>\<open>modes/delta.py\<close>. For each,
  the encoder, the decoder with all its error branches, and the proof that it is a
  \<^const>\<open>codec\<close> on every block.
\<close>

section \<open>RAW\<close>

definition raw_encode :: "bytes \<Rightarrow> bytes result" where
  "raw_encode block = Inr block"

definition raw_decode :: "bytes \<Rightarrow> nat \<Rightarrow> bytes result" where
  "raw_decode payload expected_size =
     (if length payload \<noteq> expected_size
      then Inl (ArchiveFormatError ''RAW block size does not match its metadata'')
      else Inr payload)"

interpretation raw: codec raw_encode raw_decode "\<lambda>_. True"
  by unfold_locales (auto simp: raw_encode_def raw_decode_def split: if_splits)

section \<open>RLE\<close>

text \<open>The loop of \<^verbatim>\<open>RleMode.encode\<close> over \<^verbatim>\<open>block[1:]\<close>, with the current run as its state.\<close>

fun rle_runs :: "byte \<Rightarrow> nat \<Rightarrow> bytes \<Rightarrow> bytes \<Rightarrow> bytes" where
  "rle_runs run_byte run_length out [] = out @ [of_nat run_length, run_byte]"
| "rle_runs run_byte run_length out (b # bs) =
     (if b = run_byte \<and> run_length < 255 then rle_runs run_byte (run_length + 1) out bs
      else rle_runs b 1 (out @ [of_nat run_length, run_byte]) bs)"

definition rle_encode :: "bytes \<Rightarrow> bytes result" where
  "rle_encode block =
     (case block of [] \<Rightarrow> Inr [] | b # bs \<Rightarrow> Inr (rle_runs b 1 [] bs))"

text \<open>
  The loop of \<^verbatim>\<open>RleMode.decode\<close> over the pairs of the payload. The singleton case is not
  reached: the payload's length is checked to be even first.
\<close>

fun rle_expand :: "nat \<Rightarrow> bytes \<Rightarrow> bytes \<Rightarrow> bytes result" where
  "rle_expand expected_size out [] = Inr out"
| "rle_expand expected_size out [l] = Inl (IndexError ''index out of range'')"
| "rle_expand expected_size out (l # b # rest) =
     (if unat l = 0 then Inl (ArchiveFormatError ''RLE payload contains a zero-length run'')
      else if length out + unat l > expected_size
      then Inl (ArchiveFormatError ''RLE block expands beyond its declared size'')
      else rle_expand expected_size (out @ replicate (unat l) b) rest)"

definition rle_decode :: "bytes \<Rightarrow> nat \<Rightarrow> bytes result" where
  "rle_decode payload expected_size =
     (if odd (length payload) then Inl (ArchiveFormatError ''RLE payload has a truncated run'')
      else bindR (rle_expand expected_size [] payload) (\<lambda>out.
        if length out \<noteq> expected_size
        then Inl (ArchiveFormatError ''RLE block size does not match its metadata'')
        else Inr out))"

lemma rle_expand_append:
  "rle_expand n o1 p = Inr o2 \<Longrightarrow> rle_expand n o1 (p @ q) = rle_expand n o2 q"
  by (induction n o1 p rule: rle_expand.induct) (auto split: if_splits)

lemma even_rle_runs: "even (length out) \<Longrightarrow> even (length (rle_runs b l out bs))"
  by (induction b l out bs rule: rle_runs.induct) auto

text \<open>What has been written decodes to the block up to the current run.\<close>

lemma rle_expand_runs:
  assumes "rle_expand n [] out = Inr acc" and "1 \<le> l" and "l \<le> 255"
    and "length acc + l + length bs \<le> n"
  shows "rle_expand n [] (rle_runs b l out bs) = Inr (acc @ replicate l b @ bs)"
  using assms
proof (induction b l out bs arbitrary: acc rule: rle_runs.induct)
  case (1 b l out)
  then show ?case using rle_expand_append[OF 1(1), of "[of_nat l, b]"] by simp
next
  case (2 rb l out b bs)
  show ?case
  proof (cases "b = rb \<and> l < 255")
    case True
    have "rle_expand n [] (rle_runs rb (l + 1) out bs) = Inr (acc @ replicate (l + 1) rb @ bs)"
      using True 2(3,4,5,6) by (intro 2(1)) auto
    moreover have "replicate (l + 1) rb @ bs = replicate l rb @ b # bs"
      using True by (simp add: replicate_append_same [symmetric])
    ultimately show ?thesis using True by simp
  next
    case False
    have "rle_expand n [] (out @ [of_nat l, rb]) = Inr (acc @ replicate l rb)"
      using rle_expand_append[OF 2(3), of "[of_nat l, rb]"] 2(4,5,6) by simp
    then have "rle_expand n [] (rle_runs b 1 (out @ [of_nat l, rb]) bs)
        = Inr ((acc @ replicate l rb) @ replicate 1 b @ bs)"
      using False 2(4,5,6) by (intro 2(2)) auto
    with False show ?thesis by auto
  qed
qed

lemma rle_decode_encode: "rle_encode b = Inr p \<Longrightarrow> rle_decode p (length b) = Inr b"
proof (cases b)
  case (Cons x xs)
  assume "rle_encode b = Inr p"
  then have p: "p = rle_runs x 1 [] xs" using Cons by (simp add: rle_encode_def)
  have "rle_expand (length b) [] p = Inr b"
    using rle_expand_runs[of "length b" "[]" "[]" 1 xs x] Cons p by simp
  moreover have "even (length p)" using even_rle_runs[of "[]" x 1 xs] p by simp
  ultimately show ?thesis by (simp add: rle_decode_def)
qed (simp add: rle_encode_def rle_decode_def)

interpretation rle: codec rle_encode rle_decode "\<lambda>_. True"
proof unfold_locales
  show "\<exists>p. rle_encode b = Inr p" for b by (simp add: rle_encode_def split: list.splits)
  show "rle_encode b = Inr p \<Longrightarrow> rle_decode p (length b) = Inr b" for b p
    by (rule rle_decode_encode)
  show "rle_decode p n = Inr b \<Longrightarrow> length b = n" for p n b
    by (auto simp: rle_decode_def result_simps split: if_splits)
qed

text \<open>The encoder never more than doubles a block, and every run it writes is non-empty.\<close>

lemma length_rle_runs: "length (rle_runs b l out bs) \<le> length out + 2 + 2 * length bs"
  by (induction b l out bs rule: rle_runs.induct) (auto intro: order_trans)

lemma rle_encode_length: "rle_encode b = Inr p \<Longrightarrow> length p \<le> 2 * length b"
  using length_rle_runs[of _ 1 "[]"] by (cases b) (fastforce simp: rle_encode_def)+

section \<open>DELTA8\<close>

text \<open>
  \<^verbatim>\<open>(current - previous) % 256\<close> over \<^verbatim>\<open>pairwise(block)\<close> is subtraction of 8-bit words.
\<close>

fun pairwise_deltas :: "bytes \<Rightarrow> bytes" where
  "pairwise_deltas (a # b # bs) = (b - a) # pairwise_deltas (b # bs)"
| "pairwise_deltas _ = []"

definition delta8_encode :: "bytes \<Rightarrow> bytes result" where
  "delta8_encode block =
     (if block = [] then Inr []
      else bindR (rle_encode (pairwise_deltas block)) (\<lambda>e. Inr (take 1 block @ e)))"

text \<open>The out loop: each delta is added to the last byte of the out.\<close>

fun delta8_sum :: "bytes \<Rightarrow> bytes \<Rightarrow> bytes" where
  "delta8_sum out [] = out"
| "delta8_sum out (d # ds) = delta8_sum (out @ [last out + d]) ds"

definition delta8_decode :: "bytes \<Rightarrow> nat \<Rightarrow> bytes result" where
  "delta8_decode payload expected_size =
     (if expected_size = 0 then
        (if payload \<noteq> [] then Inl (ArchiveFormatError ''empty DELTA8 block has a payload'')
         else Inr [])
      else if payload = []
      then Inl (ArchiveFormatError ''DELTA8 block is missing its first byte'')
      else bindR (rle_decode (drop 1 payload) (expected_size - 1)) (\<lambda>deltas.
        let out = delta8_sum (take 1 payload) deltas
        in if length out \<noteq> expected_size
           then Inl (ArchiveFormatError ''DELTA8 block size does not match its metadata'')
           else Inr out))"

lemma length_pairwise_deltas [simp]: "length (pairwise_deltas b) = length b - 1"
  by (induction b rule: pairwise_deltas.induct) auto

lemma length_delta8_sum [simp]: "length (delta8_sum out ds) = length out + length ds"
  by (induction out ds rule: delta8_sum.induct) auto

lemma delta8_sum_deltas: "delta8_sum (out @ [x]) (pairwise_deltas (x # xs)) = out @ x # xs"
  by (induction xs arbitrary: out x) (simp_all, metis append_Cons append_assoc append_Nil)

lemma delta8_decode_encode:
  assumes "delta8_encode b = Inr p"
  shows "delta8_decode p (length b) = Inr b"
proof (cases b)
  case (Cons x xs)
  with assms obtain e where e: "rle_encode (pairwise_deltas (x # xs)) = Inr e" and p: "p = x # e"
    by (auto simp: delta8_encode_def result_simps)
  have "rle_decode e (length b - 1) = Inr (pairwise_deltas (x # xs))"
    using rle_decode_encode[OF e] Cons by simp
  with p Cons show ?thesis
    using delta8_sum_deltas[of "[]" x xs] by (simp add: delta8_decode_def)
qed (use assms in \<open>simp add: delta8_encode_def delta8_decode_def\<close>)

interpretation delta8: codec delta8_encode delta8_decode "\<lambda>_. True"
proof unfold_locales
  show "\<exists>p. delta8_encode b = Inr p" for b
    using rle.enc_total[of "pairwise_deltas b"] by (auto simp: delta8_encode_def)
  show "delta8_encode b = Inr p \<Longrightarrow> delta8_decode p (length b) = Inr b" for b p
    by (rule delta8_decode_encode)
  show "delta8_decode p n = Inr b \<Longrightarrow> length b = n" for p n b
    by (auto simp: delta8_decode_def result_simps Let_def split: if_splits)
qed

section \<open>Properties\<close>

text \<open>Run-length coding and the byte-delta mode (differences modulo 256, then run lengths) are lossless on every block, run-length coding never more than doubles it, and both decoders accept only output of the declared size.\<close>

lemma run_lengths_lossless:
  "(\<exists>p. rle_encode b = Inr p \<and> rle_decode p (length b) = Inr b \<and> length p \<le> 2 * length b)
   \<and> (\<exists>p. delta8_encode b = Inr p \<and> delta8_decode p (length b) = Inr b)
   \<and> (\<forall>q n. case rle_decode q n of Inl _ \<Rightarrow> True | Inr out \<Rightarrow> length out = n)
   \<and> (\<forall>q n. case delta8_decode q n of Inl _ \<Rightarrow> True | Inr out \<Rightarrow> length out = n)"
  using rle.enc_dec_exists[of b] rle_encode_length[of b] delta8.enc_dec_exists[of b] rle.dec_size delta8.dec_size
  by (auto split: sum.split)

end
