(* ===== verification/LzCommon.thy ===== *)
theory LzCommon
  imports Codec
begin

text \<open>
  What the two LZ modes (\<^verbatim>\<open>modes/lz_simple.py\<close> and \<^verbatim>\<open>modes/lz_rans.py\<close>) share: the table from
  three-byte keys to the positions where they occur, the search through the most recent
  candidates, and the copy loop of the decoders. The lemmas say that every entry of the table
  is an earlier occurrence of its key, that the search only returns a distance and a length
  at which the block repeats itself, and that the copy loop reproduces such a repetition.
\<close>

section \<open>The position table\<close>

text \<open>
  \<^verbatim>\<open>positions\<close> is a \<^verbatim>\<open>defaultdict(list)\<close>; a missing key reads as the empty list. \<open>limit\<close> is
  \<^verbatim>\<open>candidate_limit\<close>: a list longer than \<open>4 * limit\<close> is cut to its last \<open>2 * limit\<close> entries.
\<close>

type_synonym positions = "bytes \<Rightarrow> nat list"

definition lz_key :: "bytes \<Rightarrow> nat \<Rightarrow> bytes" where
  "lz_key block i = take 3 (drop i block)"

definition lz_index :: "nat \<Rightarrow> bytes \<Rightarrow> nat \<Rightarrow> positions \<Rightarrow> positions" where
  "lz_index limit block i positions =
     (if i + 3 \<le> length block then
        let entries = positions (lz_key block i) @ [i];
            entries' = (if length entries > limit * 4
                        then drop (length entries - limit * 2) entries else entries)
        in positions(lz_key block i := entries')
      else positions)"

fun lz_index_range :: "nat \<Rightarrow> bytes \<Rightarrow> nat \<Rightarrow> nat \<Rightarrow> positions \<Rightarrow> positions" where
  "lz_index_range limit block i 0 positions = positions"
| "lz_index_range limit block i (Suc k) positions =
     lz_index_range limit block (Suc i) k (lz_index limit block i positions)"

definition table_ok :: "bytes \<Rightarrow> nat \<Rightarrow> positions \<Rightarrow> bool" where
  "table_ok block n positions \<longleftrightarrow>
     (\<forall>key. \<forall>c \<in> set (positions key). c < n \<and> c + 3 \<le> length block \<and> lz_key block c = key)"

lemma table_ok_empty: "table_ok block n (\<lambda>_. [])"
  by (simp add: table_ok_def)

lemma table_okD:
  "table_ok block n positions \<Longrightarrow> c \<in> set (positions key) \<Longrightarrow>
   c < n \<and> c + 3 \<le> length block \<and> lz_key block c = key"
  by (simp add: table_ok_def)

lemma table_ok_index:
  assumes "table_ok block n positions"
  shows "table_ok block (Suc n) (lz_index limit block n positions)"
proof -
  let ?es = "positions (lz_key block n) @ [n]"
  let ?es' = "if length ?es > limit * 4 then drop (length ?es - limit * 2) ?es else ?es"
  have "set ?es' \<subseteq> set ?es" by (auto dest: in_set_dropD)
  with assms show ?thesis
    unfolding table_ok_def lz_index_def Let_def
    by (auto 0 3 simp: less_Suc_eq simp del: drop_append)
qed

lemma table_ok_index_range:
  "table_ok block n positions \<Longrightarrow> table_ok block (n + k) (lz_index_range limit block n k positions)"
proof (induction k arbitrary: n positions)
  case (Suc k)
  from Suc.IH[OF table_ok_index[OF Suc.prems]] show ?case by simp
qed simp

text \<open>No list of the table grows beyond four times the candidate limit.\<close>

definition table_bounded :: "nat \<Rightarrow> positions \<Rightarrow> bool" where
  "table_bounded limit positions \<longleftrightarrow> (\<forall>key. length (positions key) \<le> limit * 4)"

lemma table_bounded_index:
  "table_bounded limit positions \<Longrightarrow> table_bounded limit (lz_index limit block i positions)"
  by (auto simp: table_bounded_def lz_index_def Let_def)

lemma table_bounded_range:
  "table_bounded limit positions \<Longrightarrow> table_bounded limit (lz_index_range limit block i k positions)"
  by (induction k arbitrary: i positions) (auto intro: table_bounded_index)

section \<open>Repetitions\<close>

text \<open>At position \<open>p\<close> the next \<open>l\<close> bytes repeat the bytes at distance \<open>d\<close>.\<close>

definition repeats :: "bytes \<Rightarrow> nat \<Rightarrow> nat \<Rightarrow> nat \<Rightarrow> bool" where
  "repeats block p d l \<longleftrightarrow>
     0 < d \<and> d \<le> p \<and> p + l \<le> length block \<and> (\<forall>i < l. block ! (p + i) = block ! (p + i - d))"

lemma repeats_three:
  assumes "lz_key block c = lz_key block p" and "c < p" and "p + 3 \<le> length block"
  shows "repeats block p (p - c) 3"
proof -
  have "block ! (p + i) = block ! (c + i)" if "i < 3" for i
    using arg_cong[OF assms(1), of "\<lambda>ks. ks ! i"] assms(2,3) that
    by (simp add: lz_key_def add.commute)
  with assms(2,3) show ?thesis by (auto simp: repeats_def add.commute)
qed

lemma repeats_Suc:
  assumes "repeats block p d l" and "p + l < length block"
    and "block ! (p + l) = block ! (p + l - d)"
  shows "repeats block p d (Suc l)"
  using assms by (auto simp: repeats_def less_Suc_eq)

text \<open>Inside a repetition the block is periodic from the candidate on.\<close>

lemma repeats_periodic:
  assumes "repeats block p d l" and "k < l + d"
  shows "block ! (p - d + k) = block ! (p - d + k mod d)"
  using assms(2)
proof (induction k rule: less_induct)
  case (less k)
  show ?case
  proof (cases "k < d")
    case False
    then have kd: "k - d < l" "k - d < k" and eqs: "p - d + k = p + (k - d)"
        "p + (k - d) - d = p - d + (k - d)"
      using less.prems assms(1) by (auto simp: repeats_def)
    have "block ! (p - d + k) = block ! (p - d + (k - d))"
      using assms(1) kd(1) unfolding repeats_def eqs(1) by (metis eqs(2))
    also have "\<dots> = block ! (p - d + (k - d) mod d)" using less.IH kd less.prems by simp
    also have "(k - d) mod d = k mod d" using False by (simp add: le_mod_geq)
    finally show ?thesis .
  qed simp
qed

text \<open>The copy loop of the decoders: \<^verbatim>\<open>for _ in range(n): output.append(output[-distance])\<close>.\<close>

fun lz_copy :: "nat \<Rightarrow> nat \<Rightarrow> bytes \<Rightarrow> bytes" where
  "lz_copy 0 d out = out"
| "lz_copy (Suc n) d out = lz_copy n d (out @ [out ! (length out - d)])"

lemma length_lz_copy [simp]: "length (lz_copy n d out) = length out + n"
  by (induction n arbitrary: out) auto

lemma lz_copy_repeats:
  "repeats block p d l \<Longrightarrow> lz_copy l d (take p block) = take (p + l) block"
proof (induction l arbitrary: p)
  case (Suc l)
  have p: "p < length block" "d \<le> p" "0 < d" and b0: "block ! p = block ! (p - d)"
    using Suc.prems by (auto simp: repeats_def dest: spec[of _ 0])
  have "block ! (Suc p + i) = block ! (Suc p + i - d)" if "i < l" for i
  proof -
    have "block ! (p + Suc i) = block ! (p + Suc i - d)"
      using Suc.prems that unfolding repeats_def by blast
    then show ?thesis by simp
  qed
  then have "repeats block (Suc p) d l" using Suc.prems by (auto simp: repeats_def)
  then have "lz_copy l d (take (Suc p) block) = take (Suc p + l) block" by (rule Suc.IH)
  moreover have "take p block @ [take p block ! (length (take p block) - d)] = take (Suc p) block"
    using p b0 by (simp add: take_Suc_nth min_def)
  ultimately show ?case by simp
qed simp

section \<open>Searching the candidates\<close>

text \<open>
  The loop over \<^verbatim>\<open>reversed(candidates[-candidate_limit:])\<close>. \<open>ext c\<close> is the length of the match
  found at candidate \<open>c\<close>, \<open>limit\<close> the longest match allowed at the current position; a match of
  that length ends the loop.
\<close>

fun lz_search ::
  "(nat \<Rightarrow> nat) \<Rightarrow> nat \<Rightarrow> nat \<Rightarrow> nat \<Rightarrow> nat list \<Rightarrow> nat \<Rightarrow> nat \<Rightarrow> nat \<times> nat" where
  "lz_search ext maximum_distance position limit [] best_length best_distance =
     (best_length, best_distance)"
| "lz_search ext maximum_distance position limit (c # cs) best_length best_distance =
     (if position \<le> c \<or> position - c > maximum_distance
      then lz_search ext maximum_distance position limit cs best_length best_distance
      else if ext c > best_length
      then (if ext c = limit then (ext c, position - c)
            else lz_search ext maximum_distance position limit cs (ext c) (position - c))
      else lz_search ext maximum_distance position limit cs best_length best_distance)"

definition last_candidates :: "nat \<Rightarrow> nat list \<Rightarrow> nat list" where
  "last_candidates k cs = rev (drop (length cs - k) cs)"

lemma set_last_candidates: "set (last_candidates k cs) \<subseteq> set cs"
  by (auto simp: last_candidates_def dest: in_set_dropD)

text \<open>
  Whatever holds of every candidate's distance and length holds of the result, unless no
  match was found.
\<close>

lemma lz_search_sound:
  assumes "lz_search ext md p limit cs bl bd = (l, d)"
    and "\<And>c. c \<in> set cs \<Longrightarrow> c < p \<Longrightarrow> p - c \<le> md \<Longrightarrow> P (p - c) (ext c)"
    and "bl = 0 \<or> P bd bl"
  shows "l = 0 \<or> P d l"
  using assms
proof (induction ext md p limit cs bl bd rule: lz_search.induct)
  case (2 ext md p limit c cs bl bd)
  show ?case
  proof (cases "p \<le> c \<or> p - c > md")
    case True
    with 2 show ?thesis by auto
  next
    case False
    then have "P (p - c) (ext c)" using 2(5) by simp
    with False 2 show ?thesis by (auto split: if_splits)
  qed
qed auto

lemma lz_search_best:
  assumes "lz_search ext md p limit cs bl bd = (l, d)"
  shows "bl \<le> l"
  using assms
  by (induction ext md p limit cs bl bd rule: lz_search.induct) (auto split: if_splits)

end
