(* ===== verification/LzSimple.thy ===== *)
theory LzSimple
  imports LzCommon
begin

text \<open>
  \<^verbatim>\<open>modes/lz_simple.py\<close>: the encoder's token loop with its table of positions, its bounds on
  literal runs, lengths and distances, and the decoder with every check. The mode is a
  \<^const>\<open>codec\<close> on every block.
\<close>

section \<open>Encoder\<close>

text \<open>
  \<^verbatim>\<open>_emit_literals\<close> cuts a run into chunks of at most 65535 bytes, so that \<^verbatim>\<open>_U16.pack\<close> of a
  chunk's length never raises.
\<close>

function emit_literals_from :: "bytes \<Rightarrow> nat \<Rightarrow> bytes \<Rightarrow> bytes" where
  "emit_literals_from literals offset out =
     (if offset < length literals then
        let chunk = take 65535 (drop offset literals)
        in emit_literals_from literals (offset + length chunk)
             (out @ [0] @ be_encode 2 (length chunk) @ chunk)
      else out)"
  by pat_completeness auto
termination
  by (relation "measure (\<lambda>(literals, offset, out). length literals - offset)") auto

declare emit_literals_from.simps [simp del]

definition emit_literals :: "bytes \<Rightarrow> bytes \<Rightarrow> bytes" where
  "emit_literals out literals = emit_literals_from literals 0 out"

text \<open>The \<^verbatim>\<open>while\<close> loop that extends a match, starting from the three bytes of the key.\<close>

function lz_simple_extend :: "bytes \<Rightarrow> nat \<Rightarrow> nat \<Rightarrow> nat \<Rightarrow> nat \<Rightarrow> nat" where
  "lz_simple_extend block position candidate limit match_length =
     (if match_length < limit \<and>
         block ! (candidate + match_length mod (position - candidate)) =
         block ! (position + match_length)
      then lz_simple_extend block position candidate limit (match_length + 1)
      else match_length)"
  by pat_completeness auto
termination
  by (relation "measure (\<lambda>(b, p, c, limit, ml). limit - ml)") auto

declare lz_simple_extend.simps [simp del]

definition lz_simple_best :: "bytes \<Rightarrow> nat \<Rightarrow> positions \<Rightarrow> nat \<times> nat" where
  "lz_simple_best block position positions =
     (if position + 6 \<le> length block then
        let limit = min 65535 (length block - position)
        in lz_search (\<lambda>c. lz_simple_extend block position c limit 3) 65535 position limit
             (last_candidates 32 (positions (lz_key block position))) 0 0
      else (0, 0))"

function lz_simple_loop :: "bytes \<Rightarrow> nat \<Rightarrow> positions \<Rightarrow> bytes \<Rightarrow> bytes \<Rightarrow> bytes" where
  "lz_simple_loop block position positions literals out =
     (if position < length block then
        let best_length = fst (lz_simple_best block position positions);
            best_distance = snd (lz_simple_best block position positions)
        in if best_length \<ge> 6 then
             lz_simple_loop block (position + best_length)
               (lz_index_range 32 block position best_length positions) []
               (emit_literals out literals @ [1] @ be_encode 2 best_distance
                @ be_encode 2 best_length)
           else
             let literals' = literals @ [block ! position];
                 positions' = lz_index 32 block position positions
             in if length literals' = 65535
                then lz_simple_loop block (position + 1) positions' [] (emit_literals out literals')
                else lz_simple_loop block (position + 1) positions' literals' out
      else emit_literals out literals)"
  by pat_completeness auto
termination
  by (relation "measure (\<lambda>(block, position, _). length block - position)") auto

declare lz_simple_loop.simps [simp del]

definition lz_simple_encode :: "bytes \<Rightarrow> bytes result" where
  "lz_simple_encode block = Inr (lz_simple_loop block 0 (\<lambda>_. []) [] [])"

section \<open>Decoder\<close>

text \<open>The token loop; \<open>rest\<close> is \<^verbatim>\<open>payload[position:]\<close>.\<close>

function lz_simple_expand :: "nat \<Rightarrow> bytes \<Rightarrow> bytes \<Rightarrow> bytes result" where
  "lz_simple_expand expected_size out rest =
     (case rest of
        [] \<Rightarrow> Inr out
      | tag # r \<Rightarrow>
          if unat tag = 0 then
            (if length r < 2 then Inl (ArchiveFormatError ''LZ literal token is truncated'')
             else let literal_length = be_decode (take 2 r); r' = drop 2 r
               in if literal_length = 0 \<or> literal_length > length r'
                  then Inl (ArchiveFormatError ''LZ literal payload is invalid'')
                  else if length out + literal_length > expected_size
                  then Inl (ArchiveFormatError ''LZ literal exceeds the declared block size'')
                  else lz_simple_expand expected_size (out @ take literal_length r')
                         (drop literal_length r'))
          else if unat tag = 1 then
            (if length r < 4 then Inl (ArchiveFormatError ''LZ match token is truncated'')
             else let distance = be_decode (take 2 r); match_length = be_decode (take 2 (drop 2 r))
               in if distance = 0 \<or> distance > length out \<or> match_length < 6
                     \<or> length out + match_length > expected_size
                  then Inl (ArchiveFormatError ''LZ match token is invalid'')
                  else lz_simple_expand expected_size (lz_copy match_length distance out) (drop 4 r))
          else Inl (ArchiveFormatError ''unknown LZ token tag''))"
  by pat_completeness auto
termination
  by (relation "measure (\<lambda>(n, out, rest). length rest)") auto

declare lz_simple_expand.simps [simp del]

definition lz_simple_decode :: "bytes \<Rightarrow> nat \<Rightarrow> bytes result" where
  "lz_simple_decode payload expected_size =
     bindR (lz_simple_expand expected_size [] payload) (\<lambda>out.
       if length out \<noteq> expected_size
       then Inl (ArchiveFormatError ''LZ block size does not match its metadata'')
       else Inr out)"

section \<open>Round trip\<close>

lemma lz_simple_expand_Nil [simp]: "lz_simple_expand n out [] = Inr out"
  by (simp add: lz_simple_expand.simps)

lemma lz_simple_expand_literal:
  assumes "chunk \<noteq> []" and "length chunk \<le> 65535" and "length out + length chunk \<le> n"
  shows "lz_simple_expand n out ([0] @ be_encode 2 (length chunk) @ chunk @ rest)
       = lz_simple_expand n (out @ chunk) rest"
  using assms
  by (subst lz_simple_expand.simps) (simp add: Let_def del: be_encode.simps)

lemma lz_simple_expand_match:
  assumes "0 < d" and "d \<le> length out" and "d \<le> 65535" and "6 \<le> l" and "l \<le> 65535"
    and "length out + l \<le> n"
  shows "lz_simple_expand n out ([1] @ be_encode 2 d @ be_encode 2 l @ rest)
       = lz_simple_expand n (lz_copy l d out) rest"
  using assms
  by (subst lz_simple_expand.simps) (simp add: Let_def del: be_encode.simps)

lemma lz_simple_expand_tag0:
  assumes "unat tag = 0" and "2 \<le> length r" and "ll = be_decode (take 2 r)" and "ll \<noteq> 0"
    and "ll + 2 \<le> length r" and "length out + ll \<le> n"
  shows "lz_simple_expand n out (tag # r)
       = lz_simple_expand n (out @ take ll (drop 2 r)) (drop (ll + 2) r)"
  using assms by (subst lz_simple_expand.simps) (simp add: Let_def)

lemma lz_simple_expand_tag1:
  assumes "unat tag = 1" and "4 \<le> length r" and "d = be_decode (take 2 r)"
    and "l = be_decode (take 2 (drop 2 r))"
    and "0 < d" and "d \<le> length out" and "6 \<le> l" and "length out + l \<le> n"
  shows "lz_simple_expand n out (tag # r) = lz_simple_expand n (lz_copy l d out) (drop 4 r)"
  using assms by (subst lz_simple_expand.simps) (simp add: Let_def)

lemma lz_simple_expand_cases:
  assumes "lz_simple_expand n out (tag # r) = Inr out'"
  obtains (literal) ll where "unat tag = 0" "2 \<le> length r" "ll = be_decode (take 2 r)" "ll \<noteq> 0"
      "ll + 2 \<le> length r" "length out + ll \<le> n"
    | (match) d l where "unat tag = 1" "4 \<le> length r" "d = be_decode (take 2 r)"
      "l = be_decode (take 2 (drop 2 r))" "0 < d" "d \<le> length out" "6 \<le> l" "length out + l \<le> n"
proof -
  note step = assms[unfolded lz_simple_expand.simps[of n out "tag # r"] list.case Let_def]
  consider "unat tag = 0" | "unat tag = 1" | "unat tag \<noteq> 0" "unat tag \<noteq> 1" by blast
  then show thesis
  proof cases
    case 1
    with step show thesis by (intro literal[OF 1 _ refl]) (auto simp: not_less split: if_splits)
  next
    case 2
    with step show thesis by (intro match[OF 2 _ refl refl]) (auto simp: not_less split: if_splits)
  next
    case 3
    with step show thesis by simp
  qed
qed

lemma lz_simple_expand_append:
  "lz_simple_expand n out a = Inr out' \<Longrightarrow>
   lz_simple_expand n out (a @ b) = lz_simple_expand n out' b"
proof (induction "length a" arbitrary: out a rule: less_induct)
  case less
  show ?case
  proof (cases a)
    case Nil
    with less.prems show ?thesis by simp
  next
    case (Cons tag r)
    from less.prems have "lz_simple_expand n out (tag # r) = Inr out'" unfolding Cons .
    then show ?thesis
    proof (cases rule: lz_simple_expand_cases)
      case (literal ll)
      have "lz_simple_expand n (out @ take ll (drop 2 r)) (drop (ll + 2) r @ b)
          = lz_simple_expand n out' b"
        using less.prems literal Cons lz_simple_expand_tag0[OF literal] by (intro less.hyps) auto
      then show ?thesis
        using literal Cons lz_simple_expand_tag0[of tag "r @ b" ll out n] by simp
    next
      case (match d l)
      have "lz_simple_expand n (lz_copy l d out) (drop 4 r @ b) = lz_simple_expand n out' b"
        using less.prems match Cons lz_simple_expand_tag1[OF match] by (intro less.hyps) auto
      then show ?thesis
        using match Cons lz_simple_expand_tag1[of tag "r @ b" d l out n] by simp
    qed
  qed
qed

lemma lz_simple_expand_emit:
  assumes "lz_simple_expand n [] out = Inr done'" and "offset \<le> length lits"
    and "length done' + (length lits - offset) \<le> n"
  shows "lz_simple_expand n [] (emit_literals_from lits offset out)
       = Inr (done' @ drop offset lits)"
  using assms
proof (induction lits offset out arbitrary: done' rule: emit_literals_from.induct)
  case (1 lits offset out)
  show ?case
  proof (cases "offset < length lits")
    case True
    let ?chunk = "take 65535 (drop offset lits)"
    have "lz_simple_expand n [] (out @ [0] @ be_encode 2 (length ?chunk) @ ?chunk)
        = lz_simple_expand n done' ([0] @ be_encode 2 (length ?chunk) @ ?chunk @ [])"
      using lz_simple_expand_append[OF 1(2)] by simp
    also have "\<dots> = Inr (done' @ ?chunk)"
      using True 1(4) by (subst lz_simple_expand_literal) auto
    finally have "lz_simple_expand n []
        (emit_literals_from lits (offset + length ?chunk)
          (out @ [0] @ be_encode 2 (length ?chunk) @ ?chunk))
        = Inr ((done' @ ?chunk) @ drop (offset + length ?chunk) lits)"
      using True 1(4) by (intro 1(1)) auto
    moreover have "?chunk @ drop (offset + length ?chunk) lits = drop offset lits"
      using take_drop_length[of 65535 "drop offset lits"] by (simp add: add.commute)
    ultimately show ?thesis
      using True by (simp add: emit_literals_from.simps[of lits offset] Let_def)
  next
    case False
    with 1 have "offset = length lits" by simp
    with 1 show ?thesis by (simp add: emit_literals_from.simps[of lits "length lits"])
  qed
qed

lemma lz_simple_expand_emit_literals:
  assumes "lz_simple_expand n [] out = Inr done'" and "length done' + length lits \<le> n"
  shows "lz_simple_expand n [] (emit_literals out lits) = Inr (done' @ lits)"
  using lz_simple_expand_emit[OF assms(1), of 0 lits] assms(2) by (simp add: emit_literals_def)

lemma lz_simple_extend_repeats:
  assumes "repeats block p (p - c) ml" and "c < p" and "ml \<le> limit" and "p + limit \<le> length block"
  shows "repeats block p (p - c) (lz_simple_extend block p c limit ml)
       \<and> lz_simple_extend block p c limit ml \<le> limit"
  using assms
proof (induction block p c limit ml rule: lz_simple_extend.induct)
  case (1 block p c limit ml)
  let ?go = "ml < limit \<and> block ! (c + ml mod (p - c)) = block ! (p + ml)"
  show ?case
  proof (cases ?go)
    case True
    have "block ! (p + ml - (p - c)) = block ! (c + ml mod (p - c))"
      using repeats_periodic[OF 1(2), of ml] 1(3) by (simp add: add.commute)
    then have "repeats block p (p - c) (ml + 1)"
      using repeats_Suc[OF 1(2)] True 1(5) by simp
    with True 1 show ?thesis by (subst (1 2) lz_simple_extend.simps) simp
  next
    case False
    then have "lz_simple_extend block p c limit ml = ml"
      by (subst lz_simple_extend.simps) (rule if_not_P)
    with 1 show ?thesis by simp
  qed
qed

lemma lz_simple_best_repeats:
  assumes "table_ok block p positions" and "lz_simple_best block p positions = (l, d)" and "0 < l"
  shows "repeats block p d l \<and> d \<le> 65535 \<and> l \<le> 65535"
proof -
  let ?lim = "min 65535 (length block - p)"
  let ?cs = "last_candidates 32 (positions (lz_key block p))"
  have p6: "p + 6 \<le> length block"
    and s: "lz_search (\<lambda>c. lz_simple_extend block p c ?lim 3) 65535 p ?lim ?cs 0 0 = (l, d)"
    using assms(2,3) by (auto simp: lz_simple_best_def Let_def split: if_splits)
  have "l = 0 \<or> (repeats block p d l \<and> d \<le> 65535 \<and> l \<le> 65535)"
  proof (rule lz_search_sound[OF s])
    fix c assume "c \<in> set ?cs" and "c < p" and "p - c \<le> 65535"
    then have "lz_key block c = lz_key block p"
      using set_last_candidates table_okD[OF assms(1)] by blast
    then have "repeats block p (p - c) 3" using \<open>c < p\<close> p6 by (intro repeats_three) auto
    then have "repeats block p (p - c) (lz_simple_extend block p c ?lim 3)
        \<and> lz_simple_extend block p c ?lim 3 \<le> ?lim"
      using \<open>c < p\<close> p6 by (intro lz_simple_extend_repeats) auto
    with \<open>p - c \<le> 65535\<close> show "repeats block p (p - c) (lz_simple_extend block p c ?lim 3)
        \<and> p - c \<le> 65535 \<and> lz_simple_extend block p c ?lim 3 \<le> 65535" by simp
  qed simp
  with assms(3) show ?thesis by simp
qed

text \<open>
  The loop's invariant: what is written decodes to the block up to the pending literals, and
  the pending literals are the block from there to the current position.
\<close>

lemma lz_simple_loop_correct:
  assumes "lz_simple_expand (length block) [] out = Inr done'" and "done' @ literals = take p block"
    and "p \<le> length block" and "table_ok block p positions"
  shows "lz_simple_expand (length block) [] (lz_simple_loop block p positions literals out)
       = Inr block"
  using assms
proof (induction block p positions literals out arbitrary: done' rule: lz_simple_loop.induct)
  case (1 block p positions literals out)
  let ?n = "length block"
  obtain l d where ld: "lz_simple_best block p positions = (l, d)" by fastforce
  have len: "length done' + length literals = p"
    using arg_cong[OF 1(5), of length] 1(6) by simp
  have emitted: "lz_simple_expand ?n [] (emit_literals out literals) = Inr (take p block)"
    using lz_simple_expand_emit_literals[OF 1(4)] len 1(5,6) by simp
  consider (final) "\<not> p < ?n" | (hit) "p < ?n" "6 \<le> l"
    | (full) "p < ?n" "\<not> 6 \<le> l" "length literals + 1 = 65535"
    | (lit) "p < ?n" "\<not> 6 \<le> l" "length literals + 1 \<noteq> 65535" by blast
  then show ?case
  proof cases
    case final
    with emitted 1(6) show ?thesis by (subst lz_simple_loop.simps) simp
  next
    case hit
    have r: "repeats block p d l" "d \<le> 65535" "l \<le> 65535"
      using lz_simple_best_repeats[OF 1(7) ld] hit by auto
    let ?out = "emit_literals out literals @ [1] @ be_encode 2 d @ be_encode 2 l"
    have "lz_simple_expand ?n [] ?out
        = lz_simple_expand ?n (take p block) ([1] @ be_encode 2 d @ be_encode 2 l @ [])"
      using lz_simple_expand_append[OF emitted] by simp
    also have "\<dots> = lz_simple_expand ?n (lz_copy l d (take p block)) []"
      using r hit 1(6) by (intro lz_simple_expand_match) (auto simp: repeats_def)
    finally have "lz_simple_expand ?n [] ?out = Inr (take (p + l) block)"
      using lz_copy_repeats[OF r(1)] by simp
    then have "lz_simple_expand ?n []
        (lz_simple_loop block (p + l) (lz_index_range 32 block p l positions) [] ?out) = Inr block"
      using hit ld r(1) 1(7) by (intro 1(1)) (auto simp: repeats_def intro: table_ok_index_range)
    with hit ld show ?thesis by (subst lz_simple_loop.simps) (simp add: Let_def)
  next
    case full
    have next': "done' @ literals @ [block ! p] = take (p + 1) block"
      using 1(5) full by (simp add: take_Suc_nth flip: append_assoc)
    have "lz_simple_expand ?n [] (emit_literals out (literals @ [block ! p]))
        = Inr (take (p + 1) block)"
      using lz_simple_expand_emit_literals[OF 1(4), of "literals @ [block ! p]"] len full next'
      by simp
    then have "lz_simple_expand ?n [] (lz_simple_loop block (p + 1) (lz_index 32 block p positions)
        [] (emit_literals out (literals @ [block ! p]))) = Inr block"
      using full ld table_ok_index[OF 1(7)] by (intro 1(2)[where done' = "take (p + 1) block"]) auto
    with full ld show ?thesis by (subst lz_simple_loop.simps) (simp add: Let_def)
  next
    case lit
    have next': "done' @ literals @ [block ! p] = take (p + 1) block"
      using 1(5) lit by (simp add: take_Suc_nth flip: append_assoc)
    then have "lz_simple_expand ?n [] (lz_simple_loop block (p + 1) (lz_index 32 block p positions)
        (literals @ [block ! p]) out) = Inr block"
      using lit ld 1(4) table_ok_index[OF 1(7)] by (intro 1(3)[where done' = done']) auto
    with lit ld show ?thesis by (subst lz_simple_loop.simps) (simp add: Let_def)
  qed
qed

lemma lz_simple_decode_encode:
  "lz_simple_encode b = Inr p \<Longrightarrow> lz_simple_decode p (length b) = Inr b"
  using lz_simple_loop_correct[of b "[]" "[]" "[]" 0 "\<lambda>_. []"]
  by (auto simp: lz_simple_encode_def lz_simple_decode_def table_ok_empty)

interpretation lz_simple: codec lz_simple_encode lz_simple_decode "\<lambda>_. True"
proof unfold_locales
  show "\<exists>p. lz_simple_encode b = Inr p" for b by (simp add: lz_simple_encode_def)
  show "lz_simple_encode b = Inr p \<Longrightarrow> lz_simple_decode p (length b) = Inr b" for b p
    by (rule lz_simple_decode_encode)
  show "lz_simple_decode p n = Inr b \<Longrightarrow> length b = n" for p n b
    by (auto simp: lz_simple_decode_def result_simps split: if_splits)
qed

section \<open>Properties\<close>

text \<open>The LZ mode with its 256-candidate match search is lossless on every block, and its decoder accepts only output of the declared size.\<close>

lemma lz_simple_lossless:
  "(\<exists>p. lz_simple_encode b = Inr p \<and> lz_simple_decode p (length b) = Inr b)
   \<and> (\<forall>q n. case lz_simple_decode q n of Inl _ \<Rightarrow> True | Inr out \<Rightarrow> length out = n)"
  using lz_simple.enc_dec_exists[of b] lz_simple.dec_size by (auto split: sum.split)

end
