(* ===== verification/Rans.thy ===== *)
theory Rans
  imports Codec "HOL-Library.Product_Lexorder"
begin

text \<open>
  \<^verbatim>\<open>modes/rans.py\<close>: normalisation of the byte histogram to 4096, the cumulative table, the rANS
  encoder and the decoder with its checks. Shifts and masks by constants are written as
  multiplication, \<open>div\<close> and \<open>mod\<close>. A Python dict is an association list in insertion order.
  The results: the normalised frequencies are positive and sum to 4096 (so the repair loop
  returns and \<^verbatim>\<open>_cumulative\<close> does not raise), the coder state stays in
  \<open>[2^23, 2^31)\<close>, decoding undoes encoding, and a payload has at most
  \<open>774 + 2 n\<close> bytes.
\<close>

abbreviation SCALE where "SCALE \<equiv> (4096 :: nat)"
abbreviation RANS_L where "RANS_L \<equiv> (8388608 :: nat)"

section \<open>Frequencies\<close>

text \<open>The keys of \<^verbatim>\<open>Counter(data)\<close>, in order of first occurrence.\<close>

definition counter_keys :: "bytes \<Rightarrow> bytes" where
  "counter_keys data = rev (remdups (rev data))"

definition raise_frequency :: "bytes \<Rightarrow> (byte \<Rightarrow> nat) \<Rightarrow> nat \<Rightarrow> (byte \<Rightarrow> nat)" where
  "raise_frequency order f i =
     (let s = order ! (i mod length order) in f(s := f s + 1))"

text \<open>
  The loop that lowers frequencies until \<^verbatim>\<open>remaining\<close> is zero. It only ends if some frequency
  above one is left whenever something remains, hence the fuel.
\<close>

fun lower_frequencies ::
  "nat \<Rightarrow> bytes \<Rightarrow> nat \<Rightarrow> nat \<Rightarrow> (byte \<Rightarrow> nat) \<Rightarrow> (byte \<Rightarrow> nat) result" where
  "lower_frequencies fuel order i 0 f = Inr f"
| "lower_frequencies 0 order i (Suc remaining) f = Inl OutOfFuel"
| "lower_frequencies (Suc fuel) order i (Suc remaining) f =
     (let s = order ! (i mod length order)
      in if f s > 1 then lower_frequencies fuel order (i + 1) remaining (f(s := f s - 1))
         else lower_frequencies fuel order (i + 1) (Suc remaining) f)"

definition normalize_counts :: "bytes \<Rightarrow> (byte \<times> nat) list result" where
  "normalize_counts data =
     (let keys = counter_keys data;
          total = length data;
          frequencies = (\<lambda>s. max 1 (count_list data s * SCALE div total));
          difference = int SCALE - int (sum_list (map frequencies keys));
          remainders = (\<lambda>s. count_list data s * SCALE mod total);
          adjusted =
            (if difference > 0 then
               let order = sort_key (\<lambda>s. (- int (remainders s), s)) keys
               in Inr (foldl (raise_frequency order) frequencies [0..<nat difference])
             else if difference < 0 then
               let order = sort_key (\<lambda>s. (- int (frequencies s), s)) keys;
                   remaining = nat (- difference)
               in lower_frequencies (length order * remaining) order 0 remaining frequencies
             else Inr frequencies)
      in bindR adjusted (\<lambda>f. Inr (map (\<lambda>s. (s, f s)) keys)))"

fun cumulative_from :: "(byte \<times> nat) list \<Rightarrow> bytes \<Rightarrow> nat \<Rightarrow> (byte \<times> nat) list \<times> nat" where
  "cumulative_from frequencies [] start = ([], start)"
| "cumulative_from frequencies (s # ss) start =
     (let (rest, end') = cumulative_from frequencies ss (start + the (map_of frequencies s))
      in ((s, start) # rest, end'))"

definition cumulative :: "(byte \<times> nat) list \<Rightarrow> (byte \<times> nat) list result" where
  "cumulative frequencies =
     (let (result, start) = cumulative_from frequencies (sort (map fst frequencies)) 0
      in if start \<noteq> SCALE then Inl (RuntimeError ''internal rANS normalization error'')
         else Inr result)"

section \<open>Encoder\<close>

text \<open>
  The renormalisation loop. \<open>maximum_state\<close> is a positive multiple of the symbol's frequency,
  so the second conjunct of the guard always holds (\<open>normalize_counts_table\<close>); it is there
  because the loop of the source would not return for a frequency of zero.
\<close>

function rans_renormalize :: "nat \<Rightarrow> nat \<Rightarrow> bytes \<Rightarrow> nat \<times> bytes" where
  "rans_renormalize maximum_state state out =
     (if state \<ge> maximum_state \<and> 0 < maximum_state
      then rans_renormalize maximum_state (state div 256) (out @ [of_nat (state mod 256)])
      else (state, out))"
  by pat_completeness auto
termination
  by (relation "measure (\<lambda>(m, s, out). s)") auto

declare rans_renormalize.simps [simp del]

definition rans_put :: "nat \<Rightarrow> nat \<Rightarrow> nat \<Rightarrow> bytes \<Rightarrow> nat \<times> bytes" where
  "rans_put frequency start state out =
     (let (x, out') = rans_renormalize (RANS_L div SCALE * 256 * frequency) state out
      in (x div frequency * SCALE + x mod frequency + start, out'))"

fun rans_encode_loop ::
  "(byte \<times> nat) list \<Rightarrow> (byte \<times> nat) list \<Rightarrow> bytes \<Rightarrow> nat \<Rightarrow> bytes \<Rightarrow> (nat \<times> bytes) result" where
  "rans_encode_loop frequencies starts [] state out = Inr (state, out)"
| "rans_encode_loop frequencies starts (s # ss) state out =
     (case (map_of frequencies s, map_of starts s) of
        (Some f, Some c) \<Rightarrow>
          rans_encode_loop frequencies starts ss (fst (rans_put f c state out))
            (snd (rans_put f c state out))
      | _ \<Rightarrow> Inl (KeyError ''symbol''))"

text \<open>\<^verbatim>\<open>struct.Struct("<I")\<close>.\<close>

definition pack_u32_le :: "nat \<Rightarrow> bytes result" where
  "pack_u32_le v =
     (if v < 256 ^ 4 then Inr (rev (be_encode 4 v))
      else Inl (StructError ''argument out of range''))"

definition unpack_u32_le :: "bytes \<Rightarrow> nat" where
  "unpack_u32_le b = be_decode (rev b)"

abbreviation SYMBOL_COUNT where "SYMBOL_COUNT \<equiv> [FUInt 2]"
abbreviation FREQUENCY where "FREQUENCY \<equiv> [FUInt 1, FUInt 2]"

definition rans_encode :: "bytes \<Rightarrow> bytes result" where
  "rans_encode block =
     (if block = [] then Inr []
      else
        bindR (normalize_counts block) (\<lambda>frequencies.
        bindR (cumulative frequencies) (\<lambda>starts.
        bindR (rans_encode_loop frequencies starts (rev block) RANS_L []) (\<lambda>(state, renormalized).
        bindR (struct_pack SYMBOL_COUNT [VU (length frequencies)]) (\<lambda>count.
        bindR (mapR (\<lambda>s. struct_pack FREQUENCY [VU (unat s), VU (the (map_of frequencies s))])
                 (sort (map fst frequencies))) (\<lambda>table.
        bindR (pack_u32_le state) (\<lambda>packed_state.
        Inr (count @ concat table @ packed_state @ rev renormalized))))))))"

section \<open>Decoder\<close>

text \<open>The loop that reads the frequency table; the result is the table and the position after it.\<close>

fun rans_read_table ::
  "nat \<Rightarrow> bytes \<Rightarrow> nat \<Rightarrow> (byte \<times> nat) list \<Rightarrow> ((byte \<times> nat) list \<times> nat) result" where
  "rans_read_table 0 payload position frequencies = Inr (frequencies, position)"
| "rans_read_table (Suc n) payload position frequencies =
     bindR (struct_unpack_from FREQUENCY payload position) (\<lambda>vs.
       let s = of_nat (uval (vs ! 0)); frequency = uval (vs ! 1)
       in if s \<in> set (map fst frequencies) \<or> frequency = 0
          then Inl (ArchiveFormatError ''BYTE_RANS frequency table is invalid'')
          else rans_read_table n payload (position + struct_size FREQUENCY)
                 (frequencies @ [(s, frequency)]))"

text \<open>\<^verbatim>\<open>lookup[start : start + f] = [symbol] * f\<close> for every item of \<^verbatim>\<open>starts\<close>.\<close>

definition assign_slice :: "'a list \<Rightarrow> nat \<Rightarrow> nat \<Rightarrow> 'a list \<Rightarrow> 'a list" where
  "assign_slice xs i j ys = take i xs @ ys @ drop (max i j) xs"

definition rans_lookup :: "(byte \<times> nat) list \<Rightarrow> (byte \<times> nat) list \<Rightarrow> bytes" where
  "rans_lookup frequencies starts =
     foldl (\<lambda>lookup (s, start).
              let f = the (map_of frequencies s)
              in assign_slice lookup start (start + f) (replicate f s))
       (replicate SCALE 0) starts"

fun rans_refill :: "nat \<Rightarrow> bytes \<Rightarrow> (nat \<times> bytes) result" where
  "rans_refill state [] =
     (if state < RANS_L
      then Inl (ArchiveFormatError ''BYTE_RANS renormalization stream is truncated'')
      else Inr (state, []))"
| "rans_refill state (b # bs) =
     (if state < RANS_L then rans_refill (state * 256 + unat b) bs else Inr (state, b # bs))"

text \<open>The symbol loop; \<open>rest\<close> is \<^verbatim>\<open>payload[position:]\<close>.\<close>

fun rans_decode_loop ::
  "(byte \<times> nat) list \<Rightarrow> (byte \<times> nat) list \<Rightarrow> bytes \<Rightarrow> nat \<Rightarrow> nat \<Rightarrow> bytes \<Rightarrow> bytes
   \<Rightarrow> (nat \<times> bytes \<times> bytes) result" where
  "rans_decode_loop frequencies starts lookup 0 state rest out = Inr (state, rest, out)"
| "rans_decode_loop frequencies starts lookup (Suc n) state rest out =
     (let slot = state mod SCALE; s = lookup ! slot
      in case (map_of frequencies s, map_of starts s) of
           (Some f, Some c) \<Rightarrow>
             bindR (rans_refill (f * (state div SCALE) + slot - c) rest) (\<lambda>(state', rest').
               rans_decode_loop frequencies starts lookup n state' rest' (out @ [s]))
         | _ \<Rightarrow> Inl (KeyError ''symbol''))"

definition rans_decode :: "bytes \<Rightarrow> nat \<Rightarrow> bytes result" where
  "rans_decode payload expected_size =
     (if expected_size = 0 then
        (if payload \<noteq> [] then Inl (ArchiveFormatError ''empty BYTE_RANS block has a payload'')
         else Inr [])
      else if length payload < struct_size SYMBOL_COUNT
      then Inl (ArchiveFormatError ''BYTE_RANS frequency header is truncated'')
      else bindR (struct_unpack_from SYMBOL_COUNT payload 0) (\<lambda>vs.
        let symbol_count = uval (vs ! 0);
            table_end = struct_size SYMBOL_COUNT + symbol_count * struct_size FREQUENCY
        in if \<not> (1 \<le> symbol_count \<and> symbol_count \<le> 256)
           then Inl (ArchiveFormatError ''BYTE_RANS symbol count is invalid'')
           else if length payload < table_end + 4
           then Inl (ArchiveFormatError ''BYTE_RANS payload is truncated'')
           else bindR (rans_read_table symbol_count payload (struct_size SYMBOL_COUNT) [])
             (\<lambda>(frequencies, position).
             bindR (reraise (ArchiveFormatError ''BYTE_RANS frequencies do not sum to 4096'')
                      (cumulative frequencies)) (\<lambda>starts.
             let state = unpack_u32_le (take 4 (drop position payload))
             in if state < RANS_L
                then Inl (ArchiveFormatError ''BYTE_RANS initial state is invalid'')
                else bindR (rans_decode_loop frequencies starts (rans_lookup frequencies starts)
                       expected_size state (drop (position + 4) payload) []) (\<lambda>(state', rest, out).
                  if rest \<noteq> [] \<or> state' \<noteq> RANS_L
                  then Inl (ArchiveFormatError
                         ''BYTE_RANS payload has inconsistent trailing state'')
                  else Inr out)))))"

section \<open>The normalised table\<close>

text \<open>What the coder needs of a table: distinct symbols, those of the block, positive frequencies, sum 4096.\<close>

definition frequency_table :: "(byte \<times> nat) list \<Rightarrow> bool" where
  "frequency_table t \<longleftrightarrow>
     distinct (map fst t) \<and> (\<forall>f \<in> set (map snd t). 1 \<le> f) \<and> sum_list (map snd t) = SCALE"

lemma set_counter_keys [simp]: "set (counter_keys data) = set data"
  by (simp add: counter_keys_def)

lemma distinct_counter_keys [simp]: "distinct (counter_keys data)"
  by (simp add: counter_keys_def)

lemma sum_update:
  fixes f :: "'a \<Rightarrow> nat"
  assumes "finite A" and "x \<in> A"
  shows "sum (f(x := v)) A + f x = sum f A + v"
proof -
  have "sum (f(x := v)) (A - {x}) = sum f (A - {x})" by (rule sum.cong) auto
  with assms show ?thesis by (simp add: sum.remove[of A x])
qed

lemma foldl_raise:
  assumes "order \<noteq> []" and "\<forall>s \<in> set order. 1 \<le> f s"
  shows "(\<forall>s \<in> set order. 1 \<le> foldl (raise_frequency order) f is s)
       \<and> sum (foldl (raise_frequency order) f is) (set order) = sum f (set order) + length is"
  using assms(2)
proof (induction "is" arbitrary: f)
  case (Cons i "is")
  let ?x = "order ! (i mod length order)"
  have x: "?x \<in> set order" using assms(1) by simp
  then have "sum (raise_frequency order f i) (set order) = sum f (set order) + 1"
    using sum_update[of "set order" ?x f "f ?x + 1"] by (simp add: raise_frequency_def Let_def)
  moreover have "\<forall>s \<in> set order. 1 \<le> raise_frequency order f i s"
    using Cons.prems by (simp add: raise_frequency_def Let_def)
  ultimately show ?case using Cons.IH[of "raise_frequency order f i"] by simp
qed simp

lemma above_one_ahead:
  assumes "distinct order" and "length order < sum f (set order)"
  shows "\<exists>j < length order. 1 < f (order ! ((i + j) mod length order))"
proof -
  let ?n = "length order"
  have "\<exists>s \<in> set order. 1 < f s"
  proof (rule ccontr)
    assume "\<not> ?thesis"
    then have "sum f (set order) \<le> sum (\<lambda>_. 1) (set order)" by (intro sum_mono) auto
    with assms show False by (simp add: distinct_card)
  qed
  then obtain k where k: "k < ?n" "1 < f (order ! k)" by (auto simp: in_set_conv_nth)
  let ?j = "(k + (?n - i mod ?n)) mod ?n"
  have "0 < ?n" using k by linarith
  then have "i mod ?n < ?n" by (rule mod_less_divisor)
  then have "i mod ?n \<le> ?n" by simp
  have "(i + ?j) mod ?n = (i mod ?n + (k + (?n - i mod ?n))) mod ?n"
    by (simp add: mod_simps)
  also have "\<dots> = (k + ?n) mod ?n" using \<open>i mod ?n \<le> ?n\<close> by (simp add: algebra_simps)
  finally have "(i + ?j) mod ?n = k" using k by simp
  moreover have "?j < ?n" using \<open>0 < ?n\<close> by (rule mod_less_divisor)
  ultimately show ?thesis using k by metis
qed

lemma lower_frequencies_total:
  assumes "distinct order" and "\<forall>s \<in> set order. 1 \<le> f s"
    and "sum f (set order) = N + remaining" and "length order \<le> N"
    and "remaining = 0 \<or> (\<exists>j < length order. 1 < f (order ! ((i + j) mod length order))
           \<and> length order * (remaining - 1) + j + 1 \<le> fuel)"
  shows "\<exists>f'. lower_frequencies fuel order i remaining f = Inr f'
       \<and> (\<forall>s \<in> set order. 1 \<le> f' s) \<and> sum f' (set order) = N"
  using assms
proof (induction fuel order i remaining f rule: lower_frequencies.induct)
  case (3 fuel order i remaining f)
  let ?n = "length order" and ?x = "order ! (i mod length order)"
  from 3(7) obtain j where j: "j < ?n" "1 < f (order ! ((i + j) mod ?n))"
    "?n * remaining + j \<le> fuel" by auto
  then have "0 < ?n" by linarith
  then have x: "?x \<in> set order" by (intro nth_mem mod_less_divisor)
  note dist = \<open>distinct order\<close>
  show ?case
  proof (cases "1 < f ?x")
    case True
    let ?f = "f(?x := f ?x - 1)"
    have sum': "sum ?f (set order) = N + remaining"
      using sum_update[of "set order" ?x f "f ?x - 1"] x True 3(5) by simp
    have "remaining = 0 \<or> (\<exists>j < ?n. 1 < ?f (order ! ((i + 1 + j) mod ?n))
           \<and> ?n * (remaining - 1) + j + 1 \<le> fuel)"
    proof (cases remaining)
      case (Suc r)
      then obtain j' where j': "j' < ?n" "1 < ?f (order ! ((i + 1 + j') mod ?n))"
        using above_one_ahead[OF dist, of ?f "i + 1"] sum' 3(6) by auto
      with Suc j(3) have "?n * (remaining - 1) + j' + 1 \<le> fuel" by simp
      with j' show ?thesis by blast
    qed simp
    moreover have "\<forall>s \<in> set order. 1 \<le> ?f s" using True 3(4) by auto
    ultimately have "\<exists>f'. lower_frequencies fuel order (i + 1) remaining ?f = Inr f'
        \<and> (\<forall>s \<in> set order. 1 \<le> f' s) \<and> sum f' (set order) = N"
      using 3(1)[OF refl True dist _ sum' 3(6)] by blast
    with True show ?thesis by (simp add: Let_def)
  next
    case False
    with j have "j \<noteq> 0" by (auto intro: ccontr)
    then obtain j' where j': "j = Suc j'" by (cases j) auto
    have "\<exists>j < ?n. 1 < f (order ! ((i + 1 + j) mod ?n)) \<and> ?n * remaining + j + 1 \<le> fuel"
      using j unfolding j' by (intro exI[of _ j']) auto
    with False 3(2)[OF refl False] 3(3,4,5,6) show ?thesis by (simp add: Let_def)
  qed
qed auto


lemma fuel_step: "0 < r \<Longrightarrow> j < n \<Longrightarrow> n * (r - 1) + j + 1 \<le> n * (r :: nat)"
  by (cases r) auto

lemma sort_key_nonempty: "xs \<noteq> [] \<Longrightarrow> sort_key f xs \<noteq> []"
  by (metis length_0_conv length_sort)

text \<open>
  The table the encoder builds: positive frequencies over exactly the block's symbols, with
  sum 4096. In particular the repair loop returns.
\<close>

lemma normalize_counts_table:
  assumes "block \<noteq> []"
  shows "\<exists>t. normalize_counts block = Inr t \<and> frequency_table t \<and> set (map fst t) = set block"
proof -
  let ?keys = "counter_keys block" and ?n = "length block"
  let ?f = "\<lambda>s. max 1 (count_list block s * SCALE div ?n)"
  let ?d = "int SCALE - int (sum_list (map ?f ?keys))"
  have sums: "sum_list (map g ?keys) = sum g (set block)" for g :: "byte \<Rightarrow> nat"
    by (simp add: sum_list_distinct_conv_sum_set)
  have ne: "?keys \<noteq> []" using assms set_counter_keys[of block] by (metis set_empty)
  have ok: "\<exists>t. bindR (Inr g) (\<lambda>f. Inr (map (\<lambda>s. (s, f s)) ?keys)) = Inr t \<and> frequency_table t
      \<and> set (map fst t) = set block"
    if "\<forall>s \<in> set block. 1 \<le> g s" and "sum g (set block) = SCALE" for g :: "byte \<Rightarrow> nat"
  proof -
    have "map fst (map (\<lambda>s. (s, g s)) ?keys) = ?keys"
      and "map snd (map (\<lambda>s. (s, g s)) ?keys) = map g ?keys" by (simp_all add: comp_def)
    with that show ?thesis
      by (simp add: frequency_table_def sums image_image del: map_map)
  qed
  consider "?d > 0" | "?d < 0" | "?d = 0" by linarith
  then show ?thesis
  proof cases
    case 1
    let ?order = "sort_key (\<lambda>s. (- int (count_list block s * SCALE mod ?n), s)) ?keys"
    let ?g = "foldl (raise_frequency ?order) ?f [0..<nat ?d]"
    have "?order \<noteq> []" using ne by (rule sort_key_nonempty)
    then have "(\<forall>s \<in> set ?order. 1 \<le> ?g s)
        \<and> sum ?g (set ?order) = sum ?f (set ?order) + length [0..<nat ?d]"
      by (rule foldl_raise) simp
    moreover have "sum ?f (set block) + nat ?d = SCALE" using 1 unfolding sums by linarith
    ultimately have "\<forall>s \<in> set block. 1 \<le> ?g s" and "sum ?g (set block) = SCALE"
      unfolding set_sort set_counter_keys length_upt diff_zero by simp_all
    from ok[OF this] show ?thesis
      unfolding normalize_counts_def Let_def if_P[OF 1] .
  next
    case 2
    let ?order = "sort_key (\<lambda>s. (- int (?f s), s)) ?keys" and ?r = "nat (- ?d)"
    have "card (set block) \<le> card (UNIV :: byte set)" by (intro card_mono) auto
    then have few: "length ?order \<le> SCALE"
      using distinct_card[OF distinct_counter_keys[of block]] by (simp add: card_word)
    have sum: "sum ?f (set ?order) = SCALE + ?r"
      using 2 unfolding sums set_sort set_counter_keys by linarith
    have "?r = 0 \<or> (\<exists>j < length ?order. 1 < ?f (?order ! ((0 + j) mod length ?order))
        \<and> length ?order * (?r - 1) + j + 1 \<le> length ?order * ?r)"
    proof -
      have r: "0 < ?r" using 2 by linarith
      have "length ?order < sum ?f (set ?order)" using sum few 2 by simp
      then obtain j where "j < length ?order" "1 < ?f (?order ! ((0 + j) mod length ?order))"
        using above_one_ahead[of ?order ?f 0] by auto
      moreover from this have "length ?order * (?r - 1) + j + 1 \<le> length ?order * ?r"
        by (intro fuel_step[OF r])
      ultimately show ?thesis by blast
    qed
    from lower_frequencies_total[OF _ _ sum few this]
    obtain g where "lower_frequencies (length ?order * ?r) ?order 0 ?r ?f = Inr g"
      "\<forall>s \<in> set block. 1 \<le> g s" "sum g (set block) = SCALE" by auto
    note g = this
    from 2 have d: "\<not> ?d > 0" by linarith
    from ok[OF g(2,3)] show ?thesis
      unfolding normalize_counts_def Let_def if_not_P[OF d] if_P[OF 2] g(1) .
  next
    case 3
    then have "sum ?f (set block) = SCALE" using sums[of ?f] by simp
    from 3 have d: "\<not> ?d > 0" "\<not> ?d < 0" by linarith+
    have "\<forall>s \<in> set block. 1 \<le> ?f s" by simp
    from ok[OF this \<open>sum ?f (set block) = SCALE\<close>] show ?thesis
      unfolding normalize_counts_def Let_def if_not_P[OF d(1)] if_not_P[OF d(2)] .
  qed
qed

section \<open>The cumulative table and the lookup\<close>

lemma cumulative_from_eq:
  "cumulative_from t ss start = (rs, e) \<Longrightarrow>
   map fst rs = ss \<and> e = start + sum_list (map (\<lambda>s. the (map_of t s)) ss)"
  by (induction ss arbitrary: start rs e) (fastforce split: prod.splits)+

lemma cumulative_from_start:
  "cumulative_from t (xs @ s # ys) start = (rs, e) \<Longrightarrow> distinct (xs @ s # ys) \<Longrightarrow>
   map_of rs s = Some (start + sum_list (map (\<lambda>s. the (map_of t s)) xs))"
  by (induction xs arbitrary: start rs) (auto split: prod.splits)

lemma sum_list_sorted_keys:
  fixes t :: "(byte \<times> nat) list"
  assumes "distinct (map fst t)"
  shows "sum_list (map (\<lambda>s. the (map_of t s)) (sort (map fst t))) = sum_list (map snd t)"
proof -
  have "sum_list (map (\<lambda>s. the (map_of t s)) (sort (map fst t)))
      = sum_list (map (\<lambda>s. the (map_of t s)) (map fst t))"
    using assms sum_list_distinct_conv_sum_set[of "sort (map fst t)" "\<lambda>s. the (map_of t s)"]
      sum_list_distinct_conv_sum_set[of "map fst t" "\<lambda>s. the (map_of t s)"] by simp
  also have "\<dots> = sum_list (map snd t)"
    using assms by (auto intro!: arg_cong[where f = sum_list] simp: comp_def)
  finally show ?thesis .
qed

lemma cumulative_table:
  assumes "frequency_table t"
  shows "\<exists>starts. cumulative t = Inr starts \<and> cumulative_from t (sort (map fst t)) 0 = (starts, SCALE)"
proof -
  obtain rs e where c: "cumulative_from t (sort (map fst t)) 0 = (rs, e)" by fastforce
  with assms have "e = SCALE"
    using cumulative_from_eq[OF c] sum_list_sorted_keys[of t] by (simp add: frequency_table_def)
  with c show ?thesis by (simp add: cumulative_def)
qed

lemma rans_lookup_from:
  assumes "cumulative_from t ss (length pre) = (rs, e)" and "length pre + length post = SCALE"
    and "e \<le> SCALE"
  shows "foldl (\<lambda>lookup (s, start). assign_slice lookup start (start + the (map_of t s))
             (replicate (the (map_of t s)) s)) (pre @ post) rs
       = pre @ concat (map (\<lambda>s. replicate (the (map_of t s)) s) ss) @ drop (e - length pre) post"
  using assms
proof (induction ss arbitrary: pre post rs)
  case (Cons s ss)
  let ?f = "the (map_of t s)"
  obtain rs' where c: "cumulative_from t ss (length (pre @ replicate ?f s)) = (rs', e)"
    and rs: "rs = (s, length pre) # rs'"
    using Cons.prems(1) by (auto split: prod.splits)
  have e: "length pre + ?f \<le> e" using cumulative_from_eq[OF c] by simp
  have "assign_slice (pre @ post) (length pre) (length pre + ?f) (replicate ?f s)
      = (pre @ replicate ?f s) @ drop ?f post"
    by (simp add: assign_slice_def)
  then show ?case
    using Cons.IH[OF c, of "drop ?f post"] Cons.prems(2,3) e by (simp add: rs)
qed auto

text \<open>Every slot of a symbol's interval maps to the symbol.\<close>

lemma rans_lookup_slot:
  assumes "frequency_table t" and "cumulative t = Inr starts"
    and "map_of t s = Some f" and "i < f"
  shows "\<exists>c. map_of starts s = Some c \<and> c + f \<le> SCALE \<and> rans_lookup t starts ! (c + i) = s"
proof -
  let ?g = "\<lambda>s. the (map_of t s)" and ?keys = "sort (map fst t)"
  have c: "cumulative_from t ?keys 0 = (starts, SCALE)"
    using cumulative_table[OF assms(1)] assms(2) by auto
  have "s \<in> set ?keys" using assms(3) by (force dest: map_of_SomeD)
  then obtain xs ys where keys: "?keys = xs @ s # ys" using split_list by metis
  have "distinct ?keys" using assms(1) by (simp add: frequency_table_def)
  then have start: "map_of starts s = Some (sum_list (map ?g xs))"
    using cumulative_from_start[of t xs s ys 0] c keys by simp
  have total: "sum_list (map ?g ?keys) = SCALE" using cumulative_from_eq[OF c] by simp
  have "rans_lookup t starts = concat (map (\<lambda>s. replicate (?g s) s) ?keys)"
    using rans_lookup_from[of t ?keys "[]" starts SCALE "replicate SCALE 0"] c
    by (simp add: rans_lookup_def Let_def)
  moreover have "length (concat (map (\<lambda>s. replicate (?g s) s) xs)) = sum_list (map ?g xs)"
    by (simp add: length_concat comp_def)
  ultimately have "rans_lookup t starts ! (sum_list (map ?g xs) + i) = s"
    using assms(3,4) by (simp add: keys nth_append)
  moreover have "sum_list (map ?g xs) + f \<le> SCALE" using total assms(3) by (simp add: keys)
  ultimately show ?thesis using start by blast
qed

section \<open>One symbol\<close>

lemma rans_renormalize_refill:
  assumes "x < RANS_L * 256" and "0 < m"
  shows "\<exists>bs. snd (rans_renormalize m x out) = out @ bs
      \<and> (\<forall>rest. rans_refill (fst (rans_renormalize m x out)) (rev bs @ rest) = rans_refill x rest)
      \<and> fst (rans_renormalize m x out) < m
      \<and> (m div 256 \<le> x \<longrightarrow> m div 256 \<le> fst (rans_renormalize m x out))"
  using assms
proof (induction m x out rule: rans_renormalize.induct)
  case (1 m x out)
  show ?case
  proof (cases "m \<le> x")
    case True
    have u: "rans_renormalize m x out = rans_renormalize m (x div 256) (out @ [of_nat (x mod 256)])"
      using True 1(3) by (subst rans_renormalize.simps) simp
    have small: "x div 256 < RANS_L * 256" using 1(2) by (meson div_le_dividend le_less_trans)
    from 1(1)[OF conjI[OF True 1(3)] small 1(3)] obtain bs where bs:
      "snd (rans_renormalize m x out) = (out @ [of_nat (x mod 256)]) @ bs"
      "\<forall>rest. rans_refill (fst (rans_renormalize m x out)) (rev bs @ rest)
         = rans_refill (x div 256) rest"
      "fst (rans_renormalize m x out) < m"
      "m div 256 \<le> x div 256 \<longrightarrow> m div 256 \<le> fst (rans_renormalize m x out)"
      unfolding u by auto
    have "x div 256 < RANS_L" using 1(2) by (simp add: less_mult_imp_div_less)
    then have "rans_refill (x div 256) (of_nat (x mod 256) # rest) = rans_refill x rest" for rest
      by (simp add: div_mult_mod_eq)
    with bs(2) have "rans_refill (fst (rans_renormalize m x out)) (rev (of_nat (x mod 256) # bs) @ rest)
        = rans_refill x rest" for rest by simp
    with bs(1,3,4) True show ?thesis
      by (intro exI[of _ "of_nat (x mod 256) # bs"]) (simp add: div_le_mono)
  next
    case False
    then have "rans_renormalize m x out = (x, out)" by (subst rans_renormalize.simps) simp
    with False show ?thesis by auto
  qed
qed

lemma rans_renormalize_length:
  "x < 256 ^ k * m \<Longrightarrow> length (snd (rans_renormalize m x out)) \<le> length out + k"
proof (induction k arbitrary: x out)
  case 0
  then show ?case by (subst rans_renormalize.simps) simp
next
  case (Suc k)
  show ?case
  proof (cases "m \<le> x \<and> 0 < m")
    case True
    have "x div 256 < 256 ^ k * m"
      using Suc.prems by (simp add: less_mult_imp_div_less mult_ac)
    from Suc.IH[OF this, of "out @ [of_nat (x mod 256)]"] True show ?thesis
      by (subst rans_renormalize.simps) simp
  next
    case False
    then show ?thesis by (subst rans_renormalize.simps) auto
  qed
qed

text \<open>
  Encoding one symbol keeps the state in \<open>[RANS_L, 256 * RANS_L)\<close>, writes at most two bytes, lands
  in the symbol's interval of slots, and is undone by one step of the decoder.
\<close>

lemma rans_put_correct:
  assumes "RANS_L \<le> x" and "x < RANS_L * 256" and "1 \<le> f" and "c + f \<le> SCALE"
    and "rans_put f c x out = (y, out')"
  shows "RANS_L \<le> y \<and> y < RANS_L * 256 \<and>
    (\<exists>i < f. y mod SCALE = c + i) \<and>
    (\<exists>bs. out' = out @ bs \<and> length bs \<le> 2 \<and>
       (\<forall>rest. rans_refill (f * (y div SCALE) + y mod SCALE - c) (rev bs @ rest) = Inr (x, rest)))"
proof -
  let ?m = "RANS_L div SCALE * 256 * f"
  let ?z = "fst (rans_renormalize ?m x out)"
  have "0 < ?m" using assms(3) by simp
  from rans_renormalize_refill[OF assms(2) this, of out] obtain bs where
    bs: "snd (rans_renormalize ?m x out) = out @ bs"
      "\<forall>rest. rans_refill ?z (rev bs @ rest) = rans_refill x rest"
      "?z < ?m" "?m div 256 \<le> x \<longrightarrow> ?m div 256 \<le> ?z" by blast
  have y: "y = ?z div f * SCALE + ?z mod f + c" and out': "out' = out @ bs"
    using assms(5) bs(1) by (auto simp: rans_put_def split: prod.splits)
  have zf: "?z mod f < f" using assms(3) by simp
  then have slot: "y mod SCALE = c + ?z mod f" and quot: "y div SCALE = ?z div f"
    using assms(4) unfolding y by (simp_all add: div_mult_self3 add.assoc)
  have "f \<le> SCALE" using assms(4) by simp
  then have "2048 * f \<le> x" using assms(1) by linarith
  then have "2048 * f \<le> ?z" using bs(4) by simp
  then have "2048 \<le> ?z div f" using assms(3) by (simp add: less_eq_div_iff_mult_less_eq)
  moreover have "?z div f < 524288"
    using bs(3) by (simp add: less_mult_imp_div_less)
  ultimately have range: "RANS_L \<le> y \<and> y < RANS_L * 256"
    using zf assms(4) unfolding y by linarith
  have "f * (y div SCALE) + y mod SCALE - c = ?z" by (simp add: slot quot)
  moreover have "rans_refill x rest = Inr (x, rest)" for rest using assms(1) by (cases rest) auto
  ultimately have undo: "rans_refill (f * (y div SCALE) + y mod SCALE - c) (rev bs @ rest) = Inr (x, rest)"
    for rest using bs(2) by simp
  have "x < 256 ^ 2 * ?m" using assms(2,3) by simp
  from rans_renormalize_length[OF this, of out] bs(1) have "length bs \<le> 2" by simp
  with range slot zf out' undo show ?thesis by blast
qed

section \<open>The whole block\<close>

lemma rans_decode_loop_add:
  "rans_decode_loop t st lk (m + n) x rest out =
   bindR (rans_decode_loop t st lk m x rest out) (\<lambda>(x', rest', out').
     rans_decode_loop t st lk n x' rest' out')"
proof (induction m arbitrary: x rest out)
  case (Suc m)
  then show ?case
    by (auto simp: Let_def bindR_def split: option.splits sum.splits)
qed simp

lemma rans_loop_roundtrip:
  assumes "frequency_table t" and "cumulative t = Inr starts" and "set ss \<subseteq> set (map fst t)"
    and "RANS_L \<le> x" and "x < RANS_L * 256"
  shows "\<exists>y bs. rans_encode_loop t starts ss x out = Inr (y, out @ bs)
    \<and> RANS_L \<le> y \<and> y < RANS_L * 256 \<and> length bs \<le> 2 * length ss
    \<and> (\<forall>rest acc. rans_decode_loop t starts (rans_lookup t starts) (length ss) y (rev bs @ rest) acc
           = Inr (x, rest, acc @ rev ss))"
  using assms(3-5)
proof (induction ss arbitrary: x out)
  case (Cons s ss)
  from Cons.prems(1) obtain f where f: "map_of t s = Some f"
    by (metis list.set_intros(1) map_of_eq_None_iff not_None_eq set_map subset_iff)
  then have "f \<in> set (map snd t)" by (force dest: map_of_SomeD)
  with assms(1) have f1: "1 \<le> f" unfolding frequency_table_def by blast
  then have "0 < f" by simp
  from rans_lookup_slot[OF assms(1,2) f this] obtain c where c: "map_of starts s = Some c"
    "c + f \<le> SCALE" by blast
  have slots: "rans_lookup t starts ! (c + i) = s" if "i < f" for i
    using rans_lookup_slot[OF assms(1,2) f that] c(1) by auto
  obtain x1 out1 where put: "rans_put f c x out = (x1, out1)" by fastforce
  from rans_put_correct[OF Cons.prems(2,3) f1 c(2) put] obtain i b1 where
    i: "i < f" "x1 mod SCALE = c + i" and b1: "out1 = out @ b1" "length b1 \<le> 2"
    and undo: "\<And>rest. rans_refill (f * (x1 div SCALE) + x1 mod SCALE - c) (rev b1 @ rest) = Inr (x, rest)"
    and x1: "RANS_L \<le> x1" "x1 < RANS_L * 256" by blast
  from Cons.IH[OF _ x1, of out1] Cons.prems(1) obtain y b2 where
    y: "rans_encode_loop t starts ss x1 out1 = Inr (y, out1 @ b2)" "RANS_L \<le> y" "y < RANS_L * 256"
      "length b2 \<le> 2 * length ss"
    and dec: "\<And>rest acc. rans_decode_loop t starts (rans_lookup t starts) (length ss) y (rev b2 @ rest) acc
           = Inr (x1, rest, acc @ rev ss)" by auto
  have one: "rans_decode_loop t starts (rans_lookup t starts) 1 x1 (rev b1 @ rest) acc
      = Inr (x, rest, acc @ [s])" for rest acc
    using undo[of rest] i slots[OF i(1)] f c(1) by (simp add: Let_def)
  have "rans_decode_loop t starts (rans_lookup t starts) (length ss + 1) y (rev (b1 @ b2) @ rest) acc
      = Inr (x, rest, acc @ rev (s # ss))" for rest acc
    unfolding rans_decode_loop_add using dec[of "rev b1 @ rest" acc] one by simp
  with y b1 f c(1) put show ?case by (intro exI[of _ y] exI[of _ "b1 @ b2"]) simp
qed auto

section \<open>The table in the payload\<close>

lemma cumulative_from_cong:
  "map_of t = map_of t' \<Longrightarrow> cumulative_from t ss start = cumulative_from t' ss start"
  by (induction ss arbitrary: start) simp_all

lemma rans_decode_loop_cong:
  assumes "map_of t = map_of t'"
  shows "rans_decode_loop t starts lk n x rest out = rans_decode_loop t' starts lk n x rest out"
  by (induction n arbitrary: x rest out)
    (auto simp: assms Let_def bindR_def split: option.splits sum.splits)

lemma rans_read_table_packed:
  assumes "mapR (\<lambda>s. struct_pack FREQUENCY [VU (unat s), VU (g s)]) ks = Inr table"
    and "distinct ks" and "\<forall>s \<in> set ks. 0 < g s" and "set ks \<inter> set (map fst acc) = {}"
  shows "rans_read_table (length ks) (pre @ concat table @ suf) (length pre) acc
       = Inr (acc @ map (\<lambda>s. (s, g s)) ks, length pre + 3 * length ks)
       \<and> length (concat table) = 3 * length ks"
  using assms
proof (induction ks arbitrary: table pre acc)
  case (Cons s ks)
  from Cons.prems(1) obtain b table' where b: "struct_pack FREQUENCY [VU (unat s), VU (g s)] = Inr b"
    and table': "mapR (\<lambda>s. struct_pack FREQUENCY [VU (unat s), VU (g s)]) ks = Inr table'"
    and table: "table = b # table'" by (auto simp: result_simps)
  have lb: "length b = Suc (Suc (Suc 0))"
    using struct_pack_length[OF b] by (simp add: struct_size_def)
  have "list_all2 field_exact FREQUENCY [VU (unat s), VU (g s)]"
    using b by (auto simp: struct_pack_def split: if_splits)
  from struct_unpack_from_pack[OF this b refl, of pre "concat table' @ suf"]
  have head: "struct_unpack_from FREQUENCY (pre @ concat table @ suf) (length pre)
      = Inr [VU (unat s), VU (g s)]" by (simp add: table)
  have "rans_read_table (length ks) ((pre @ b) @ concat table' @ suf) (length (pre @ b)) (acc @ [(s, g s)])
       = Inr ((acc @ [(s, g s)]) @ map (\<lambda>s. (s, g s)) ks, length (pre @ b) + 3 * length ks)
       \<and> length (concat table') = 3 * length ks"
    using Cons.prems table' by (intro Cons.IH) auto
  with head Cons.prems lb show ?case by (auto simp: table struct_size_def)
qed simp

lemma mapR_pack_frequencies:
  assumes "\<forall>s \<in> set ks. g s \<le> SCALE"
  shows "\<exists>table. mapR (\<lambda>s. struct_pack FREQUENCY [VU (unat (s :: byte)), VU (g s)]) ks = Inr table"
  using assms by (induction ks) (fastforce simp: struct_pack_def)+

lemma map_of_sorted_table:
  assumes "distinct (map fst t)"
  shows "map_of (map (\<lambda>s. (s, the (map_of t s))) (sort (map fst t))) = map_of t"
proof
  fix s
  show "map_of (map (\<lambda>s. (s, the (map_of t s))) (sort (map fst t))) s = map_of t s"
  proof (cases "s \<in> fst ` set t")
    case True
    then obtain f where "map_of t s = Some f" by (metis map_of_eq_None_iff not_None_eq)
    with True show ?thesis by (simp add: map_of_map_restrict restrict_map_def)
  next
    case False
    then have "map_of t s = None" by (simp add: map_of_eq_None_iff)
    with False show ?thesis by (simp add: map_of_map_restrict restrict_map_def)
  qed
qed

lemma pack_u32_le_Inr:
  "v < 256 ^ 4 \<Longrightarrow> \<exists>b. pack_u32_le v = Inr b \<and> length b = 4 \<and> unpack_u32_le b = v"
  by (simp add: pack_u32_le_def unpack_u32_le_def del: be_encode.simps)

text \<open>The payload of a non-empty block, with the facts the decoder checks.\<close>

lemma rans_encode_payload:
  assumes "block \<noteq> []"
  shows "\<exists>t starts count table ps y ren.
    frequency_table t \<and> set (map fst t) = set block \<and> cumulative t = Inr starts
    \<and> rans_encode_loop t starts (rev block) RANS_L [] = Inr (y, ren)
    \<and> struct_pack SYMBOL_COUNT [VU (length t)] = Inr count
    \<and> mapR (\<lambda>s. struct_pack FREQUENCY [VU (unat s), VU (the (map_of t s))]) (sort (map fst t)) = Inr table
    \<and> pack_u32_le y = Inr ps \<and> length ps = 4 \<and> unpack_u32_le ps = y
    \<and> 1 \<le> length t \<and> length t \<le> 256 \<and> RANS_L \<le> y \<and> length ren \<le> 2 * length block
    \<and> (\<forall>rest acc. rans_decode_loop t starts (rans_lookup t starts) (length block) y (rev ren @ rest) acc
           = Inr (RANS_L, rest, acc @ block))
    \<and> rans_encode block = Inr (count @ concat table @ ps @ rev ren)"
proof -
  obtain t where t: "normalize_counts block = Inr t" "frequency_table t" "set (map fst t) = set block"
    using normalize_counts_table[OF assms] by blast
  obtain starts where st: "cumulative t = Inr starts" using cumulative_table[OF t(2)] by blast
  have "RANS_L \<le> RANS_L" and "RANS_L < RANS_L * 256" by simp_all
  from rans_loop_roundtrip[OF t(2) st _ this, of "rev block" "[]"] t(3) obtain y ren where
    loop: "rans_encode_loop t starts (rev block) RANS_L [] = Inr (y, ren)"
      "RANS_L \<le> y" "y < RANS_L * 256" "length ren \<le> 2 * length block"
    and dec: "\<forall>rest acc. rans_decode_loop t starts (rans_lookup t starts) (length block) y
        (rev ren @ rest) acc = Inr (RANS_L, rest, acc @ block)" by auto
  have dist: "distinct (map fst t)" using t(2) by (simp add: frequency_table_def)
  have len: "length t = card (set block)" using distinct_card[OF dist] t(3) by simp
  have "card (set block) \<le> card (UNIV :: byte set)" by (intro card_mono) auto
  moreover have "0 < card (set block)" using assms by (simp add: card_gt_0_iff)
  ultimately have lt: "1 \<le> length t" "length t \<le> 256" using len by (simp_all add: card_word)
  then obtain count where count: "struct_pack SYMBOL_COUNT [VU (length t)] = Inr count"
    by (simp add: struct_pack_def)
  have "the (map_of t s) \<le> SCALE" if "s \<in> set (map fst t)" for s
  proof -
    from that obtain f where "map_of t s = Some f" by (metis map_of_eq_None_iff not_None_eq set_map)
    moreover from this have "f \<in> set (map snd t)" by (force dest: map_of_SomeD)
    ultimately show ?thesis
      using t(2) member_le_sum_list[of f "map snd t"] by (simp add: frequency_table_def)
  qed
  then obtain table where table:
    "mapR (\<lambda>s. struct_pack FREQUENCY [VU (unat s), VU (the (map_of t s))]) (sort (map fst t)) = Inr table"
    using mapR_pack_frequencies[of "sort (map fst t)" "\<lambda>s. the (map_of t s)"] by auto
  have "y < 256 ^ 4" using loop(3) by simp
  from pack_u32_le_Inr[OF this] obtain ps where
    ps: "pack_u32_le y = Inr ps" "length ps = 4" "unpack_u32_le ps = y" by blast
  have "rans_encode block = Inr (count @ concat table @ ps @ rev ren)"
    using assms t(1) st loop(1) count table ps(1) by (simp add: rans_encode_def)
  with t st loop count table ps lt dec show ?thesis by blast
qed

lemma rans_decode_accept:
  assumes "n \<noteq> 0" and "struct_unpack_from SYMBOL_COUNT p 0 = Inr [VU k]" and "1 \<le> k" and "k \<le> 256"
    and "2 + 3 * k + 4 \<le> length p" and "rans_read_table k p 2 [] = Inr (t, pos)"
    and "cumulative t = Inr starts" and "unpack_u32_le (take 4 (drop pos p)) = y" and "RANS_L \<le> y"
    and "rans_decode_loop t starts (rans_lookup t starts) n y (drop (pos + 4) p) []
       = Inr (RANS_L, [], out)"
  shows "rans_decode p n = Inr out"
proof -
  have size: "struct_size SYMBOL_COUNT = 2" "struct_size FREQUENCY = 3"
    by (simp_all add: struct_size_def)
  have "\<not> length p < 2" "\<not> length p < 2 + k * 3 + 4" using assms(5) by linarith+
  with assms show ?thesis
    unfolding rans_decode_def size Let_def by (simp del: rans_read_table.simps)
qed

lemma rans_decode_encode:
  assumes "rans_encode block = Inr p"
  shows "rans_decode p (length block) = Inr block"
proof (cases "block = []")
  case False
  obtain t starts count table ps y ren where
    t: "frequency_table t" and st: "cumulative t = Inr starts"
    and count: "struct_pack SYMBOL_COUNT [VU (length t)] = Inr count"
    and table: "mapR (\<lambda>s. struct_pack FREQUENCY [VU (unat s), VU (the (map_of t s))])
        (sort (map fst t)) = Inr table"
    and ps: "length ps = 4" "unpack_u32_le ps = y" and lt: "1 \<le> length t" "length t \<le> 256"
    and y: "RANS_L \<le> y"
    and dec: "\<forall>rest acc. rans_decode_loop t starts (rans_lookup t starts) (length block) y
        (rev ren @ rest) acc = Inr (RANS_L, rest, acc @ block)"
    and p: "p = count @ concat table @ ps @ rev ren"
    using rans_encode_payload[OF False] assms by auto
  have lc: "length count = 2" using struct_pack_length[OF count] by (simp add: struct_size_def)
  have "list_all2 field_exact SYMBOL_COUNT [VU (length t)]" using lt by simp
  from struct_unpack_from_pack[OF this count, of "[]" 0 "concat table @ ps @ rev ren"]
  have head: "struct_unpack_from SYMBOL_COUNT p 0 = Inr [VU (length t)]" by (simp add: p)
  have dist: "distinct (map fst t)" using t by (simp add: frequency_table_def)
  let ?g = "\<lambda>s. the (map_of t s)" and ?t' = "map (\<lambda>s. (s, the (map_of t s))) (sort (map fst t))"
  have pos: "\<forall>s \<in> set (sort (map fst t)). 0 < ?g s"
  proof
    fix s assume "s \<in> set (sort (map fst t))"
    then obtain f where f: "map_of t s = Some f" by (auto simp: map_of_eq_None_iff dest!: weak_map_of_SomeI)
    then have "f \<in> set (map snd t)" by (force dest: map_of_SomeD)
    with t f show "0 < ?g s" unfolding frequency_table_def by fastforce
  qed
  have rd: "rans_read_table (length t) p 2 [] = Inr (?t', 2 + 3 * length t)"
    and lct: "length (concat table) = 3 * length t"
    using rans_read_table_packed[OF table _ pos, of "[]" count "ps @ rev ren"] dist lc
    by (simp_all add: p)
  have same: "map_of ?t' = map_of t" by (rule map_of_sorted_table[OF dist])
  have keys: "map fst ?t' = sort (map fst t)" by (simp add: comp_def)
  have "cumulative ?t' = cumulative t"
    unfolding cumulative_def keys sorted_sort_id[OF sorted_sort] cumulative_from_cong[OF same] ..
  moreover have "rans_lookup ?t' starts = rans_lookup t starts" unfolding rans_lookup_def same ..
  moreover note rans_decode_loop_cong[OF same]
  ultimately have loop: "rans_decode_loop ?t' starts (rans_lookup ?t' starts) (length block) y (rev ren) []
      = Inr (RANS_L, [], block)" and cum: "cumulative ?t' = Inr starts"
    using dec[rule_format, of "[]" "[]"] st by simp_all
  have state: "unpack_u32_le (take 4 (drop (2 + 3 * length t) p)) = y"
    and rest: "drop (2 + 3 * length t + 4) p = rev ren" and size: "2 + 3 * length t + 4 \<le> length p"
    using lc lct ps by (simp_all add: p)
  show ?thesis
    by (rule rans_decode_accept[OF _ head lt size rd cum state y]) (use False loop rest in auto)
qed (use assms in \<open>simp add: rans_encode_def rans_decode_def\<close>)

lemma rans_encode_total: "\<exists>p. rans_encode block = Inr p"
  using rans_encode_payload[of block] by (cases "block = []") (auto simp: rans_encode_def)

lemma rans_encode_length:
  assumes "rans_encode block = Inr p"
  shows "length p \<le> 774 + 2 * length block"
proof (cases "block = []")
  case False
  then obtain t count table ps ren where
    t: "frequency_table t" "length t \<le> 256" and count: "struct_pack SYMBOL_COUNT [VU (length t)] = Inr count"
    and table: "mapR (\<lambda>s. struct_pack FREQUENCY [VU (unat s), VU (the (map_of t s))])
        (sort (map fst t)) = Inr table"
    and ps: "length ps = 4" and ren: "length ren \<le> 2 * length block"
    and p: "p = count @ concat table @ ps @ rev ren"
    using rans_encode_payload[OF False] assms by auto
  have "length count = 2" using struct_pack_length[OF count] by (simp add: struct_size_def)
  moreover have "\<forall>b \<in> set table. length b = 3"
    using table struct_pack_length unfolding mapR_Inr_iff
    by (fastforce simp: struct_size_def list_all2_conv_all_nth in_set_conv_nth)
  then have "length (concat table) = 3 * length table"
    by (induction table) auto
  moreover have "length table = length t" using table by (auto simp: mapR_Inr_iff dest: list_all2_lengthD)
  ultimately show ?thesis using t ps ren by (simp add: p)
qed (use assms in \<open>simp add: rans_encode_def\<close>)

lemma rans_decode_loop_length:
  "rans_decode_loop t st lk n x rest out = Inr (x', rest', out') \<Longrightarrow> length out' = length out + n"
  by (induction n arbitrary: x rest out) (auto simp: result_simps Let_def split: option.splits)

interpretation rans: codec rans_encode rans_decode "\<lambda>_. True"
proof unfold_locales
  show "\<exists>p. rans_encode b = Inr p" for b by (rule rans_encode_total)
  show "rans_encode b = Inr p \<Longrightarrow> rans_decode p (length b) = Inr b" for b p
    by (rule rans_decode_encode)
  show "rans_decode p n = Inr b \<Longrightarrow> length b = n" for p n b
    by (auto simp: rans_decode_def result_simps Let_def split: if_splits prod.splits
        dest: rans_decode_loop_length)
qed

section \<open>Properties\<close>

text \<open>C30: The frequency normalisation returns for every non-empty block (its lowering loop runs out of neither symbols nor turns) a table of the block's symbols, each with a positive frequency, that sums to 4096.\<close>

lemma frequencies_normalised:
  "block \<noteq> [] \<Longrightarrow>
   \<exists>t. normalize_counts block = Inr t \<and> distinct (map fst t) \<and> set (map fst t) = set block
     \<and> (\<forall>f\<in>set (map snd t). 1 \<le> f) \<and> sum_list (map snd t) = SCALE"
  using normalize_counts_table[of block] by (auto simp: frequency_table_def)

lemma frequencies_normalised_witness:
  "\<exists>t. normalize_counts [7, 7, 9] = Inr t \<and> sum_list (map snd t) = SCALE"
  using frequencies_normalised[of "[7, 7, 9]"] by auto

text \<open>Range coding is lossless on every block, its payload exceeds twice the block by at most the frequency table and state, and its decoder accepts only output of the declared size.\<close>

lemma rans_lossless:
  "(\<exists>p. rans_encode b = Inr p \<and> rans_decode p (length b) = Inr b \<and> length p \<le> 774 + 2 * length b)
   \<and> (\<forall>q n. case rans_decode q n of Inl _ \<Rightarrow> True | Inr out \<Rightarrow> length out = n)"
  using rans.enc_dec_exists[of b] rans_encode_length[of b] rans.dec_size by (auto split: sum.split)

end
