(* ===== verification/Features.thy ===== *)
theory Features
  imports Rans Complex_Main
begin

text \<open>
  \<^verbatim>\<open>features.py\<close>: the block statistics the mode router reads. The ratios are quotients of two
  machine-size integers, kept exact as rationals (a float comparison of such a quotient with the
  router's thresholds has the same outcome: division rounds correctly and the quotients are
  far coarser than a double); \<^verbatim>\<open>math.log2\<close> is a function of the C library and a parameter.
\<close>

record BlockFeatures =
  entropy_bits_per_byte :: rat
  byte_repetition_ratio :: rat
  substring_repetition_ratio :: rat
  delta_smoothness_ratio :: rat
  ascii_ratio :: rat
  zero_ratio :: rat
  small_symbol_ratio :: rat
  random_looking :: bool

text \<open>\<^verbatim>\<open>block[index : index + 4] for index in range(0, possible, stride)\<close>\<close>

definition sampled_grams :: "bytes \<Rightarrow> nat \<Rightarrow> nat \<Rightarrow> bytes list" where
  "sampled_grams block possible stride =
     map (\<lambda>k. take 4 (drop (k * stride) block)) [0..<(possible + stride - 1) div stride]"

definition substring_repetition :: "bytes \<Rightarrow> rat" where
  "substring_repetition block =
     (if length block < 8 then 0
      else let possible = length block - 3;
               stride = max 1 (possible div 4096);
               grams = sampled_grams block possible stride
           in 1 - of_nat (length (remdups grams)) / of_nat (length grams))"

definition signed_delta :: "byte \<Rightarrow> byte \<Rightarrow> int" where
  "signed_delta previous current = (uint current - uint previous + 128) mod 256 - 128"

fun count_smooth :: "bytes \<Rightarrow> nat" where
  "count_smooth (a # b # r) =
     (if \<bar>signed_delta a b\<bar> \<le> 3 then 1 else 0) + count_smooth (b # r)"
| "count_smooth _ = 0"

definition block_entropy :: "(rat \<Rightarrow> rat) \<Rightarrow> bytes \<Rightarrow> rat" where
  "block_entropy log2 block =
     - sum_list (map (\<lambda>s. let q = of_nat (count_list block s) / of_nat (length block)
                          in q * log2 q) (counter_keys block))"

definition analyze_block :: "(rat \<Rightarrow> rat) \<Rightarrow> bytes \<Rightarrow> BlockFeatures" where
  "analyze_block log2 block =
     (if block = [] then
        \<lparr>entropy_bits_per_byte = 0, byte_repetition_ratio = 0, substring_repetition_ratio = 0,
         delta_smoothness_ratio = 0, ascii_ratio = 0, zero_ratio = 0, small_symbol_ratio = 0,
         random_looking = False\<rparr>
      else let n = length block;
               histogram = counter_keys block;
               entropy = block_entropy log2 block;
               ascii_count = length (filter (\<lambda>b. unat b \<in> {9, 10, 13} \<or> 32 \<le> unat b \<and> unat b \<le> 126) block);
               zero_count = count_list block 0;
               small_symbol_count =
                 sum_list (map (count_list block) (filter (\<lambda>b. unat b < 16) histogram));
               substring = substring_repetition block;
               delta_smoothness =
                 (if n < 2 then 0 else of_nat (count_smooth block) / of_nat (n - 1));
               byte_repetition = 1 - of_nat (length histogram) / of_nat n
        in \<lparr>entropy_bits_per_byte = entropy, byte_repetition_ratio = byte_repetition,
            substring_repetition_ratio = substring, delta_smoothness_ratio = delta_smoothness,
            ascii_ratio = of_nat ascii_count / of_nat n, zero_ratio = of_nat zero_count / of_nat n,
            small_symbol_ratio = of_nat small_symbol_count / of_nat n,
            random_looking = (1024 \<le> n \<and> 785 / 100 \<le> entropy \<and> substring \<le> 2 / 100
                              \<and> delta_smoothness \<le> 8 / 100)\<rparr>)"

lemma signed_delta_range: "- 128 \<le> signed_delta a b \<and> signed_delta a b < 128"
proof -
  have "0 \<le> (uint b - uint a + 128) mod 256" and "(uint b - uint a + 128) mod 256 < 256"
    by simp_all
  then show ?thesis by (simp add: signed_delta_def)
qed

lemma count_smooth_le: "count_smooth block \<le> length block - 1"
  by (induction block rule: count_smooth.induct) auto

lemma small_symbols_le:
  "sum_list (map (count_list block) (filter P (counter_keys block))) \<le> length block"
proof -
  have "sum_list (map (count_list block) (filter P (counter_keys block)))
      = (\<Sum>s\<in>set (filter P (counter_keys block)). count_list block s)"
    by (rule sum_list_distinct_conv_sum_set) simp
  also have "\<dots> \<le> (\<Sum>s\<in>set block. count_list block s)"
    by (rule sum_mono2) auto
  also have "\<dots> = length block" by (simp add: sum_count_set)
  finally show ?thesis .
qed

lemma ratio_bounds:
  "a \<le> b \<Longrightarrow> 0 < b \<Longrightarrow> (0::rat) \<le> of_nat a / of_nat b \<and> (of_nat a / of_nat b :: rat) \<le> 1"
  by (simp add: divide_le_eq)

lemma length_remdups_pos: "xs \<noteq> [] \<Longrightarrow> 0 < length (remdups xs)"
  by simp

lemma repetition_bounds:
  "xs \<noteq> [] \<Longrightarrow> (0::rat) \<le> 1 - of_nat (length (remdups xs)) / of_nat (length xs)
     \<and> (1 - of_nat (length (remdups xs)) / of_nat (length xs) :: rat) < 1"
  using ratio_bounds[of "length (remdups xs)" "length xs"] length_remdups_leq[of xs]
  by (simp add: field_simps)

lemma sampled_grams_nonempty: "0 < possible \<Longrightarrow> 0 < stride \<Longrightarrow> sampled_grams b possible stride \<noteq> []"
  by (simp add: sampled_grams_def div_greater_zero_iff)

lemma substring_repetition_bounds:
  "0 \<le> substring_repetition block \<and> substring_repetition block < 1"
  using repetition_bounds[OF sampled_grams_nonempty[of "length block - 3" "max 1 ((length block - 3) div 4096)" block]]
  by (auto simp: substring_repetition_def Let_def)

lemma length_counter_keys: "length (counter_keys b) = length (remdups (rev b))"
  by (simp add: counter_keys_def)

lemma entropy_nonneg:
  assumes "\<And>q. 0 < q \<Longrightarrow> q \<le> 1 \<Longrightarrow> log2 q \<le> 0"
  shows "0 \<le> block_entropy log2 block"
proof -
  have "q * log2 q \<le> 0" if "q = of_nat (count_list block s) / of_nat (length block)" for q s
  proof (cases "q = 0")
    case False
    have "count_list block s \<le> length block" by (rule count_le_length)
    with False that have "0 < q" "q \<le> 1" by (auto simp: divide_le_eq)
    with assms show ?thesis by (simp add: mult_nonneg_nonpos)
  qed simp
  then have "sum_list (map (\<lambda>s. let q = of_nat (count_list block s) / of_nat (length block)
                          in q * log2 q) ks) \<le> 0" for ks
    by (induction ks) (auto simp: Let_def add_nonpos_nonpos)
  then show ?thesis by (simp add: block_entropy_def)
qed

text \<open>Every ratio of a block lies between 0 and 1.\<close>

definition ratios :: "BlockFeatures \<Rightarrow> rat list" where
  "ratios f = [byte_repetition_ratio f, substring_repetition_ratio f, delta_smoothness_ratio f,
               ascii_ratio f, zero_ratio f, small_symbol_ratio f]"

lemma analyze_block_ratios: "\<forall>q\<in>set (ratios (analyze_block log2 block)). 0 \<le> q \<and> q \<le> 1"
proof (cases "block = []")
  case False
  then have n: "0 < length block" by simp
  have "0 \<le> (1 - of_nat (length (counter_keys block)) / of_nat (length block) :: rat)
      \<and> (1 - of_nat (length (counter_keys block)) / of_nat (length block) :: rat) \<le> 1"
    using repetition_bounds[of "rev block"] False by (simp add: length_counter_keys less_imp_le)
  moreover have "0 \<le> substring_repetition block \<and> substring_repetition block \<le> 1"
    using substring_repetition_bounds[of block] by (simp add: less_imp_le)
  moreover have "(0::rat) \<le> (if length block < 2 then 0 else of_nat (count_smooth block) / of_nat (length block - 1))
      \<and> (if length block < 2 then 0 else of_nat (count_smooth block) / of_nat (length block - 1)) \<le> (1::rat)"
    using ratio_bounds[OF count_smooth_le[of block]] by simp
  moreover note ratio_bounds[OF length_filter_le n] ratio_bounds[OF count_le_length n]
    ratio_bounds[OF small_symbols_le n]
  ultimately show ?thesis
    using False by (simp add: ratios_def analyze_block_def Let_def)
qed (simp add: ratios_def analyze_block_def)

end
