(* ===== verification/Deflate.thy ===== *)
theory Deflate
  imports Codec
begin

text \<open>
  \<^verbatim>\<open>modes/deflate.py\<close>: the checks the mode puts around the C library zlib. The library is a
  parameter: what \<^verbatim>\<open>zlib.compress(_, level=6)\<close> returns, and what a fresh
  \<^verbatim>\<open>decompressobj()\<close> has after one \<^verbatim>\<open>decompress(data, max_length)\<close> and after
  \<^verbatim>\<open>flush(length)\<close>; \<open>None\<close> is \<^verbatim>\<open>zlib.error\<close>.
\<close>

record zlib_object =
  z_output :: bytes
  z_eof :: bool
  z_unused_data :: bytes
  z_unconsumed_tail :: bytes

record zlib =
  zlib_compress :: "bytes \<Rightarrow> bytes"
  zlib_decompress :: "bytes \<Rightarrow> nat \<Rightarrow> zlib_object option"
  zlib_flush :: "zlib_object \<Rightarrow> nat \<Rightarrow> zlib_object option"

text \<open>
  What the mode relies on for a block: given room for one byte more than the block, the
  decompressor returns the whole block in one call, reports the end of the stream with nothing
  left over, and \<^verbatim>\<open>flush\<close> then has nothing to add.
\<close>

definition zlib_restores :: "zlib \<Rightarrow> bytes \<Rightarrow> bool" where
  "zlib_restores z b \<longleftrightarrow>
     (\<exists>d f. zlib_decompress z (zlib_compress z b) (length b + 1) = Some d \<and> z_output d = b
        \<and> z_unconsumed_tail d = [] \<and> zlib_flush z d 1 = Some f \<and> z_output f = []
        \<and> z_eof f \<and> z_unused_data f = [] \<and> z_unconsumed_tail f = [])"

definition deflate_encode :: "zlib \<Rightarrow> bytes \<Rightarrow> bytes result" where
  "deflate_encode z block = (if block \<noteq> [] then Inr (zlib_compress z block) else Inr [])"

definition deflate_decode :: "zlib \<Rightarrow> bytes \<Rightarrow> nat \<Rightarrow> bytes result" where
  "deflate_decode z payload expected_size =
     (if expected_size = 0 then
        (if payload \<noteq> [] then Inl (ArchiveFormatError ''empty DEFLATE block has a payload'')
         else Inr [])
      else case zlib_decompress z payload (expected_size + 1) of
        None \<Rightarrow> Inl (ArchiveFormatError ''DEFLATE payload is malformed'')
      | Some d \<Rightarrow>
          if length (z_output d) > expected_size \<or> z_unconsumed_tail d \<noteq> []
          then Inl (ArchiveFormatError ''DEFLATE block exceeds its declared size'')
          else case zlib_flush z d (expected_size + 1 - length (z_output d)) of
            None \<Rightarrow> Inl (ArchiveFormatError ''DEFLATE payload is malformed'')
          | Some f \<Rightarrow>
              let out = z_output d @ z_output f
              in if length out \<noteq> expected_size \<or> \<not> z_eof f \<or> z_unused_data f \<noteq> []
                    \<or> z_unconsumed_tail f \<noteq> []
                 then Inl (ArchiveFormatError
                        ''DEFLATE payload has inconsistent size or trailing data'')
                 else Inr out)"

interpretation deflate: codec "deflate_encode z" "deflate_decode z" "zlib_restores z" for z
proof unfold_locales
  show "\<exists>p. deflate_encode z b = Inr p" for b by (simp add: deflate_encode_def)
  show "deflate_decode z p (length b) = Inr b" if "zlib_restores z b" "deflate_encode z b = Inr p" for b p
    using that by (auto simp: zlib_restores_def deflate_encode_def deflate_decode_def Let_def split: if_splits)
  show "deflate_decode z p n = Inr b \<Longrightarrow> length b = n" for p n b
    by (auto simp: deflate_decode_def Let_def split: if_splits option.splits)
qed

end
