(* ===== verification/LzRans.thy ===== *)
theory LzRans
  imports LzCommon Rans
begin

text \<open>
  \<^verbatim>\<open>modes/lz_rans.py\<close>: LZ parsing into five streams (tokens, literals, literal lengths, match
  lengths, distances), each coded with rANS behind one header of sizes. The mode is a
  \<^const>\<open>codec\<close> on every block of at most 1 GiB (the containers allow 16 MiB); the proof needs
  that no stream is longer than the block, which the decoder checks.
\<close>

section \<open>Variable-length integers\<close>

text \<open>The bytes \<^verbatim>\<open>_encode_varint\<close> appends.\<close>

fun encode_varint :: "nat \<Rightarrow> bytes" where
  "encode_varint v =
     (if v \<ge> 128 then of_nat (v mod 128 + 128) # encode_varint (v div 128) else [of_nat v])"

declare encode_varint.simps [simp del]

text \<open>
  The inner loop of \<^verbatim>\<open>_decode_varints\<close>; the seven bits of a byte are added above the bits
  already read, which is what \<^verbatim>\<open>|=\<close> does.
\<close>

fun decode_varint :: "nat \<Rightarrow> nat \<Rightarrow> bytes \<Rightarrow> (nat \<times> bytes) result" where
  "decode_varint shift v [] = Inl (ArchiveFormatError ''LZ_RANS varint stream is malformed'')"
| "decode_varint shift v (b # bs) =
     (if shift > 28 then Inl (ArchiveFormatError ''LZ_RANS varint stream is malformed'')
      else let v' = v + unat b mod 128 * 2 ^ shift
        in if unat b < 128 then Inr (v', bs) else decode_varint (shift + 7) v' bs)"

fun decode_varint_count :: "nat \<Rightarrow> bytes \<Rightarrow> nat list \<Rightarrow> (nat list \<times> bytes) result" where
  "decode_varint_count 0 rest vs = Inr (vs, rest)"
| "decode_varint_count (Suc n) rest vs =
     bindR (decode_varint 0 0 rest) (\<lambda>(v, rest'). decode_varint_count n rest' (vs @ [v]))"

definition decode_varints :: "bytes \<Rightarrow> nat \<Rightarrow> nat list result" where
  "decode_varints data count =
     bindR (decode_varint_count count data []) (\<lambda>(vs, rest).
       if rest \<noteq> [] then Inl (ArchiveFormatError ''LZ_RANS varint stream has trailing values'')
       else Inr vs)"

section \<open>Tokenizer\<close>

record lz_streams =
  tokens :: bytes
  literals :: bytes
  literal_lengths :: bytes
  match_lengths :: bytes
  distances :: bytes

definition empty_streams :: lz_streams where
  "empty_streams = \<lparr>tokens = [], literals = [], literal_lengths = [], match_lengths = [],
     distances = []\<rparr>"

definition flush_literals :: "bytes \<Rightarrow> lz_streams \<Rightarrow> lz_streams" where
  "flush_literals pending st =
     (if pending = [] then st
      else st\<lparr>tokens := tokens st @ [0],
              literal_lengths := literal_lengths st @ encode_varint (length pending),
              literals := literals st @ pending\<rparr>)"

definition push_match :: "nat \<Rightarrow> nat \<Rightarrow> lz_streams \<Rightarrow> lz_streams" where
  "push_match best_length best_distance st =
     st\<lparr>tokens := tokens st @ [1],
        match_lengths := match_lengths st @ encode_varint best_length,
        distances := distances st @ encode_varint best_distance\<rparr>"

function lz_rans_extend :: "bytes \<Rightarrow> nat \<Rightarrow> nat \<Rightarrow> nat \<Rightarrow> nat \<Rightarrow> nat" where
  "lz_rans_extend block position distance limit l =
     (if l < limit \<and> block ! (position + l) = block ! (position + l - distance)
      then lz_rans_extend block position distance limit (l + 1) else l)"
  by pat_completeness auto
termination
  by (relation "measure (\<lambda>(b, p, d, limit, l). limit - l)") auto

declare lz_rans_extend.simps [simp del]

definition lz_rans_best :: "bytes \<Rightarrow> nat \<Rightarrow> positions \<Rightarrow> nat \<times> nat" where
  "lz_rans_best block position positions =
     (if position + 4 \<le> length block then
        let limit = min 65535 (length block - position)
        in lz_search (\<lambda>c. lz_rans_extend block position (position - c) limit 3) 65535 position limit
             (last_candidates 64 (positions (lz_key block position))) 0 0
      else (0, 0))"

function lz_tokenize_loop ::
  "bytes \<Rightarrow> nat \<Rightarrow> positions \<Rightarrow> bytes \<Rightarrow> lz_streams \<Rightarrow> lz_streams" where
  "lz_tokenize_loop block position positions pending st =
     (if position < length block then
        let best_length = fst (lz_rans_best block position positions);
            best_distance = snd (lz_rans_best block position positions)
        in if best_length \<ge> 4 then
             lz_tokenize_loop block (position + best_length)
               (lz_index_range 64 block position best_length positions) []
               (push_match best_length best_distance (flush_literals pending st))
           else
             lz_tokenize_loop block (position + 1) (lz_index 64 block position positions)
               (pending @ [block ! position]) st
      else flush_literals pending st)"
  by pat_completeness auto
termination
  by (relation "measure (\<lambda>(block, position, _). length block - position)") auto

declare lz_tokenize_loop.simps [simp del]

definition lz_tokenize :: "bytes \<Rightarrow> lz_streams" where
  "lz_tokenize block = lz_tokenize_loop block 0 (\<lambda>_. []) [] empty_streams"

definition stream_list :: "lz_streams \<Rightarrow> bytes list" where
  "stream_list st = [tokens st, literals st, literal_lengths st, match_lengths st, distances st]"

section \<open>Encoder and decoder\<close>

abbreviation LZR_HEADER where "LZR_HEADER \<equiv>
  [FBytes 4, FUInt 4, FUInt 4, FUInt 4, FUInt 4, FUInt 4, FUInt 4, FUInt 4, FUInt 4, FUInt 4, FUInt 4]"

text \<open>\<^verbatim>\<open>b"LZR1"\<close>\<close>

definition LZR_MAGIC :: bytes where
  "LZR_MAGIC = [76, 90, 82, 49]"

fun lz_descriptor :: "bytes list \<Rightarrow> bytes list \<Rightarrow> sval list" where
  "lz_descriptor (r # rs) (e # es) = VU (length r) # VU (length e) # lz_descriptor rs es"
| "lz_descriptor _ _ = []"

definition lz_rans_encode :: "bytes \<Rightarrow> bytes result" where
  "lz_rans_encode block =
     (if block = [] then Inr []
      else let raw_streams = stream_list (lz_tokenize block)
        in bindR (mapR rans_encode raw_streams) (\<lambda>encoded_streams.
           bindR (struct_pack LZR_HEADER (VB LZR_MAGIC # lz_descriptor raw_streams encoded_streams))
             (\<lambda>header. Inr (header @ concat encoded_streams))))"

text \<open>\<^verbatim>\<open>descriptors[0::2]\<close> and \<^verbatim>\<open>descriptors[1::2]\<close>.\<close>

fun every_other :: "'a list \<Rightarrow> 'a list" where
  "every_other (x # y # xs) = x # every_other xs"
| "every_other xs = xs"

fun lz_split_streams :: "(nat \<times> nat) list \<Rightarrow> bytes \<Rightarrow> bytes list result" where
  "lz_split_streams [] rest = Inr []"
| "lz_split_streams ((raw_length, encoded_length) # ds) rest =
     bindR (rans_decode (take encoded_length rest) raw_length) (\<lambda>s.
     bindR (lz_split_streams ds (drop encoded_length rest)) (\<lambda>ss. Inr (s # ss)))"

text \<open>
  The token loop. The arguments after the tokens are what is left of \<^verbatim>\<open>literal_lengths\<close>,
  \<^verbatim>\<open>match_lengths\<close>, \<^verbatim>\<open>distances\<close> and \<^verbatim>\<open>literals\<close>; the result is the literals left and the output.
\<close>

fun lz_replay ::
  "nat \<Rightarrow> bytes \<Rightarrow> nat list \<Rightarrow> nat list \<Rightarrow> nat list \<Rightarrow> bytes \<Rightarrow> bytes \<Rightarrow> (bytes \<times> bytes) result" where
  "lz_replay n [] lls mls ds lits out = Inr (lits, out)"
| "lz_replay n (t # ts) lls mls ds lits out =
     (if t = 0 then
        (case lls of
           [] \<Rightarrow> Inl (IndexError ''list index out of range'')
         | l # lls' \<Rightarrow>
             if l = 0 \<or> l > length lits
             then Inl (ArchiveFormatError ''LZ_RANS literal token is invalid'')
             else if length out + l > n
             then Inl (ArchiveFormatError ''LZ_RANS literal exceeds declared size'')
             else lz_replay n ts lls' mls ds (drop l lits) (out @ take l lits))
      else
        (case (mls, ds) of
           (l # mls', d # ds') \<Rightarrow>
             if l < 4 \<or> d = 0 \<or> d > length out \<or> length out + l > n
             then Inl (ArchiveFormatError ''LZ_RANS match token is invalid'')
             else lz_replay n ts lls mls' ds' lits (lz_copy l d out)
         | _ \<Rightarrow> Inl (IndexError ''list index out of range'')))"

definition lz_rans_decode :: "bytes \<Rightarrow> nat \<Rightarrow> bytes result" where
  "lz_rans_decode payload expected_size =
     (if expected_size = 0 then
        (if payload \<noteq> [] then Inl (ArchiveFormatError ''empty LZ_RANS block has a payload'')
         else Inr [])
      else if length payload < struct_size LZR_HEADER
      then Inl (ArchiveFormatError ''LZ_RANS header is truncated'')
      else bindR (struct_unpack_from LZR_HEADER payload 0) (\<lambda>vs.
        if bval (vs ! 0) \<noteq> LZR_MAGIC then Inl (ArchiveFormatError ''LZ_RANS magic is invalid'')
        else let descriptors = map uval (drop 1 vs);
            raw_lengths = every_other descriptors;
            encoded_lengths = every_other (drop 1 descriptors)
          in if \<exists>r \<in> set raw_lengths. r > expected_size
             then Inl (ArchiveFormatError ''LZ_RANS decoded stream exceeds declared block size'')
             else if sum_list encoded_lengths \<noteq> length payload - struct_size LZR_HEADER
             then Inl (ArchiveFormatError ''LZ_RANS stream sizes are inconsistent'')
             else bindR (lz_split_streams (zip raw_lengths encoded_lengths)
                    (drop (struct_size LZR_HEADER) payload)) (\<lambda>streams.
               let toks = streams ! 0; lits = streams ! 1;
                   literal_count = count_list toks 0; match_count = count_list toks 1
               in if literal_count + match_count \<noteq> length toks
                  then Inl (ArchiveFormatError ''LZ_RANS token stream contains an unknown token'')
                  else bindR (decode_varints (streams ! 2) literal_count) (\<lambda>lls.
                       bindR (decode_varints (streams ! 3) match_count) (\<lambda>mls.
                       bindR (decode_varints (streams ! 4) match_count) (\<lambda>ds.
                       bindR (lz_replay expected_size toks lls mls ds lits []) (\<lambda>(lits', out).
                         if lits' \<noteq> [] \<or> length out \<noteq> expected_size
                         then Inl (ArchiveFormatError ''LZ_RANS decoded size is inconsistent'')
                         else Inr out)))))))"

section \<open>Variable-length integers round trip\<close>

lemma decode_encode_varint:
  assumes "k \<le> 4" and "v < 128 ^ (5 - k)"
  shows "decode_varint (7 * k) a (encode_varint v @ rest) = Inr (a + v * 2 ^ (7 * k), rest)"
  using assms
proof (induction v arbitrary: k a rule: encode_varint.induct)
  case (1 v)
  show ?case
  proof (cases "v \<ge> 128")
    case True
    then have "k \<noteq> 4" using "1.prems" by auto
    then have k: "k + 1 \<le> 4" "5 - k = Suc (5 - (k + 1))" using "1.prems" by auto
    then have "v div 128 < 128 ^ (5 - (k + 1))"
      using "1.prems"(2) by (simp add: less_mult_imp_div_less mult.commute)
    then have "decode_varint (7 * (k + 1)) (a + v mod 128 * 2 ^ (7 * k))
        (encode_varint (v div 128) @ rest)
        = Inr (a + v mod 128 * 2 ^ (7 * k) + v div 128 * 2 ^ (7 * (k + 1)), rest)"
      using True k(1) by (intro "1.IH") auto
    moreover have "v mod 128 * 2 ^ (7 * k) + v div 128 * 2 ^ (7 * (k + 1)) = v * 2 ^ (7 * k)"
    proof -
      have "r * 2 ^ (7 * k) + q * 2 ^ (7 * (k + 1)) = (r + q * 128) * 2 ^ (7 * k)" for q r :: nat
        by (simp add: power_add algebra_simps)
      from this[of "v mod 128" "v div 128"]
      show ?thesis by (simp only: mod_div_mult_eq)
    qed
    moreover have "unat (of_nat (v mod 128 + 128) :: byte) = v mod 128 + 128"
    proof (rule unat_of_nat_byte)
      have "v mod 128 < 128" by simp
      then show "v mod 128 + 128 < 256" by linarith
    qed
    ultimately show ?thesis
      using True "1.prems"(1)
      by (subst encode_varint.simps) (simp add: Let_def algebra_simps del: of_nat_add)
  next
    case False
    then show ?thesis using "1.prems" by (subst encode_varint.simps) (simp add: Let_def)
  qed
qed

lemma decode_varint_count_encoded:
  "\<forall>v \<in> set vs. v < 128 ^ 5 \<Longrightarrow>
   decode_varint_count (length vs) (concat (map encode_varint vs) @ rest) acc = Inr (acc @ vs, rest)"
proof (induction vs arbitrary: acc)
  case (Cons v vs)
  then show ?case using decode_encode_varint[of 0 v 0 "concat (map encode_varint vs) @ rest"] by simp
qed simp

lemma decode_varints_encoded:
  "\<forall>v \<in> set vs. v < 128 ^ 5 \<Longrightarrow> decode_varints (concat (map encode_varint vs)) (length vs) = Inr vs"
  using decode_varint_count_encoded[of vs "[]" "[]"] by (simp add: decode_varints_def)

lemma length_encode_varint_le: "0 < v \<Longrightarrow> length (encode_varint v) \<le> v"
proof (induction v rule: encode_varint.induct)
  case (1 v)
  show ?case
  proof (cases "v \<ge> 128")
    case True
    then have "0 < v div 128" by (simp add: div_greater_zero_iff)
    with True "1.IH" have "length (encode_varint (v div 128)) \<le> v div 128" by simp
    moreover have "v div 128 < v" using True by simp
    ultimately show ?thesis using True by (subst encode_varint.simps) simp
  next
    case False
    with "1.prems" show ?thesis by (subst encode_varint.simps) simp
  qed
qed

lemma length_encode_varint_pow: "v < 128 ^ Suc k \<Longrightarrow> length (encode_varint v) \<le> Suc k"
proof (induction k arbitrary: v)
  case 0
  then show ?case by (subst encode_varint.simps) simp
next
  case (Suc k)
  then have "v div 128 < 128 ^ Suc k" by (simp add: less_mult_imp_div_less mult.commute)
  with Suc.IH show ?case by (subst encode_varint.simps) (auto intro: order_trans)
qed

section \<open>Replaying the tokens\<close>

text \<open>
  A description of the tokens written so far: the values behind the three varint streams and
  what replaying the tokens gives.
\<close>

definition tokens_consistent ::
  "bytes \<Rightarrow> nat list \<Rightarrow> nat list \<Rightarrow> nat list \<Rightarrow> bool" where
  "tokens_consistent ts lls mls ds \<longleftrightarrow>
     set ts \<subseteq> {0, 1} \<and> count_list ts 0 = length lls \<and> count_list ts 1 = length mls
     \<and> length ds = length mls"

lemma count_list_snoc: "count_list (xs @ [x]) y = count_list xs y + (if x = y then 1 else 0)"
  by (induction xs) auto

lemma tokens_consistent_literal:
  "tokens_consistent ts lls mls ds \<Longrightarrow> tokens_consistent (ts @ [0]) (lls @ [l]) mls ds"
  by (simp add: tokens_consistent_def count_list_snoc)

lemma tokens_consistent_match:
  "tokens_consistent ts lls mls ds \<Longrightarrow> tokens_consistent (ts @ [1]) lls (mls @ [l]) (ds @ [d])"
  by (simp add: tokens_consistent_def count_list_snoc)

lemma tokens_consistent_count:
  "tokens_consistent ts lls mls ds \<Longrightarrow> count_list ts 0 + count_list ts 1 = length ts"
proof -
  have "set ts \<subseteq> {0, 1} \<Longrightarrow> count_list ts 0 + count_list ts 1 = length ts"
    by (induction ts) auto
  then show "tokens_consistent ts lls mls ds \<Longrightarrow> ?thesis" by (simp add: tokens_consistent_def)
qed

lemma lz_replay_append:
  assumes "lz_replay n ts lls mls ds lits out = Inr ([], out')"
    and "count_list ts 0 = length lls" and "count_list ts 1 = length mls" and "length ds = length mls"
    and "set ts \<subseteq> {0, 1}"
  shows "lz_replay n (ts @ ts2) (lls @ lls2) (mls @ mls2) (ds @ ds2) (lits @ lits2) out
       = lz_replay n ts2 lls2 mls2 ds2 lits2 out'"
  using assms
proof (induction n ts lls mls ds lits out rule: lz_replay.induct)
  case (2 n t ts lls mls ds lits out)
  show ?case
  proof (cases "t = 0")
    case True
    with 2(4) obtain l lls' where lls: "lls = l # lls'" by (cases lls) auto
    with True 2(3) have ok: "l \<noteq> 0" "l \<le> length lits" "length out + l \<le> n"
      by (auto split: if_splits)
    have "lz_replay n (ts @ ts2) (lls' @ lls2) (mls @ mls2) (ds @ ds2) (drop l lits @ lits2)
        (out @ take l lits) = lz_replay n ts2 lls2 mls2 ds2 lits2 out'"
      using True lls ok 2(3-7) by (intro 2(1)[OF True lls]) auto
    with True lls ok show ?thesis by simp
  next
    case False
    with 2(7) have t1: "t = 1" by simp
    with 2(5,6) obtain l mls' d ds' where ml: "mls = l # mls'" "ds = d # ds'"
      by (cases mls; cases ds) auto
    with False 2(3) have ok: "\<not> (l < 4 \<or> d = 0 \<or> d > length out \<or> length out + l > n)"
      by (auto split: if_splits)
    have "lz_replay n (ts @ ts2) (lls @ lls2) (mls' @ mls2) (ds' @ ds2) (lits @ lits2)
        (lz_copy l d out) = lz_replay n ts2 lls2 mls2 ds2 lits2 out'"
      using False t1 ml ok 2(3-7) by (intro 2(2)[OF False]) auto
    with False ml ok show ?thesis by simp
  qed
qed auto

section \<open>The tokenizer's invariant\<close>

text \<open>
  The streams describe the first \<open>q\<close> bytes of the block: their varints decode, replaying them
  gives the prefix, and no stream is longer than it.
\<close>

definition streams_describe :: "bytes \<Rightarrow> nat \<Rightarrow> lz_streams \<Rightarrow> bool" where
  "streams_describe block q st \<longleftrightarrow>
     (\<exists>lls mls ds. literal_lengths st = concat (map encode_varint lls)
        \<and> match_lengths st = concat (map encode_varint mls)
        \<and> distances st = concat (map encode_varint ds)
        \<and> (\<forall>v \<in> set (lls @ mls @ ds). v < 128 ^ 5)
        \<and> tokens_consistent (tokens st) lls mls ds
        \<and> lz_replay (length block) (tokens st) lls mls ds (literals st) [] = Inr ([], take q block))
     \<and> q \<le> length block \<and> (\<forall>s \<in> set (stream_list st). length s \<le> q)"

lemma streams_describeI:
  assumes "literal_lengths st = concat (map encode_varint lls)"
    and "match_lengths st = concat (map encode_varint mls)"
    and "distances st = concat (map encode_varint ds)"
    and "\<forall>v \<in> set (lls @ mls @ ds). v < 128 ^ 5"
    and "tokens_consistent (tokens st) lls mls ds"
    and "lz_replay (length block) (tokens st) lls mls ds (literals st) [] = Inr ([], take q block)"
    and "q \<le> length block" and "\<forall>s \<in> set (stream_list st). length s \<le> q"
  shows "streams_describe block q st"
  using assms unfolding streams_describe_def by blast

lemma streams_describe_empty: "streams_describe block 0 empty_streams"
  by (rule streams_describeI[where lls = "[]" and mls = "[]" and ds = "[]"])
    (auto simp: empty_streams_def stream_list_def tokens_consistent_def)

lemma streams_describe_flush:
  assumes "streams_describe block q st" and "take q block @ pending = take p block"
    and "p \<le> length block" and "length block \<le> 2 ^ 30"
  shows "streams_describe block p (flush_literals pending st)"
proof (cases "pending = []")
  case True
  have "length (take q block) = q" using assms(1) by (simp add: streams_describe_def)
  with True assms(2,3) have "q = p" by (metis append_Nil2 length_take min.absorb2)
  with True assms(1) show ?thesis by (simp add: flush_literals_def)
next
  case False
  from assms(1) obtain lls mls ds where d: "literal_lengths st = concat (map encode_varint lls)"
      "match_lengths st = concat (map encode_varint mls)" "distances st = concat (map encode_varint ds)"
      "\<forall>v \<in> set (lls @ mls @ ds). v < 128 ^ 5" "tokens_consistent (tokens st) lls mls ds"
      "lz_replay (length block) (tokens st) lls mls ds (literals st) [] = Inr ([], take q block)"
    and q: "q \<le> length block" and bound: "\<forall>s \<in> set (stream_list st). length s \<le> q"
    unfolding streams_describe_def by auto
  let ?l = "length pending"
  have pq: "p = q + ?l" using arg_cong[OF assms(2), of length] assms(3) q by simp
  have l: "0 < ?l" "?l < 128 ^ 5" using False assms(3,4) pq by auto
  have "lz_replay (length block) (tokens st @ [0]) (lls @ [?l]) (mls @ []) (ds @ [])
      (literals st @ pending) [] = lz_replay (length block) [0] [?l] [] [] pending (take q block)"
    using d(5) by (intro lz_replay_append[OF d(6)]) (auto simp: tokens_consistent_def)
  also have "\<dots> = Inr ([], take p block)" using False assms(2,3) pq by simp
  finally have "lz_replay (length block) (tokens st @ [0]) (lls @ [?l]) mls ds
      (literals st @ pending) [] = Inr ([], take p block)" by simp
  moreover have "Suc (length (tokens st)) \<le> p"
    using l(1) bound unfolding pq stream_list_def by (simp del: length_greater_0_conv)
  moreover have "length (encode_varint ?l) \<le> ?l" by (rule length_encode_varint_le[OF l(1)])
  ultimately show ?thesis
    using False d(1-5) l assms(3) bound pq
    by (intro streams_describeI[where lls = "lls @ [?l]" and mls = mls and ds = ds])
      (auto simp: flush_literals_def stream_list_def intro: tokens_consistent_literal)
qed

lemma streams_describe_match:
  assumes "streams_describe block p st" and "repeats block p d l" and "4 \<le> l" and "l \<le> 65535"
    and "d \<le> 65535"
  shows "streams_describe block (p + l) (push_match l d st)"
proof -
  from assms(1) obtain lls mls ds where dd: "literal_lengths st = concat (map encode_varint lls)"
      "match_lengths st = concat (map encode_varint mls)" "distances st = concat (map encode_varint ds)"
      "\<forall>v \<in> set (lls @ mls @ ds). v < 128 ^ 5" "tokens_consistent (tokens st) lls mls ds"
      "lz_replay (length block) (tokens st) lls mls ds (literals st) [] = Inr ([], take p block)"
    and bound: "\<forall>s \<in> set (stream_list st). length s \<le> p"
    unfolding streams_describe_def by auto
  have r: "0 < d" "d \<le> p" "p + l \<le> length block" using assms(2) by (auto simp: repeats_def)
  have "lz_replay (length block) (tokens st @ [1]) (lls @ []) (mls @ [l]) (ds @ [d])
      (literals st @ []) [] = lz_replay (length block) [1] [] [l] [d] [] (take p block)"
    using dd(5) by (intro lz_replay_append[OF dd(6)]) (auto simp: tokens_consistent_def)
  also have "\<dots> = Inr ([], lz_copy l d (take p block))" using r assms(3) by simp
  finally have "lz_replay (length block) (tokens st @ [1]) lls (mls @ [l]) (ds @ [d])
      (literals st) [] = Inr ([], take (p + l) block)" using lz_copy_repeats[OF assms(2)] by simp
  moreover have "length (encode_varint l) \<le> l" using assms(3) by (intro length_encode_varint_le) simp
  moreover have "length (encode_varint d) \<le> l"
    using length_encode_varint_pow[of d 2] assms(3,5) by simp
  ultimately show ?thesis
    using dd(1-5) assms(3-5) bound r(3)
    by (intro streams_describeI[where lls = lls and mls = "mls @ [l]" and ds = "ds @ [d]"])
      (auto simp: push_match_def stream_list_def intro: tokens_consistent_match[unfolded One_nat_def])
qed

lemma lz_rans_extend_repeats:
  assumes "repeats block p d l" and "l \<le> limit" and "p + limit \<le> length block"
  shows "repeats block p d (lz_rans_extend block p d limit l) \<and> lz_rans_extend block p d limit l \<le> limit"
  using assms
proof (induction block p d limit l rule: lz_rans_extend.induct)
  case (1 block p d limit l)
  show ?case
  proof (cases "l < limit \<and> block ! (p + l) = block ! (p + l - d)")
    case True
    then have "repeats block p d (l + 1)" using repeats_Suc[OF 1(2)] 1(4) by simp
    with True 1 show ?thesis by (subst (1 2) lz_rans_extend.simps) simp
  next
    case False
    then have "lz_rans_extend block p d limit l = l"
      by (subst lz_rans_extend.simps) (rule if_not_P)
    with 1 show ?thesis by simp
  qed
qed

lemma lz_rans_best_repeats:
  assumes "table_ok block p positions" and "lz_rans_best block p positions = (l, d)" and "0 < l"
  shows "repeats block p d l \<and> d \<le> 65535 \<and> l \<le> 65535"
proof -
  let ?lim = "min 65535 (length block - p)"
  let ?cs = "last_candidates 64 (positions (lz_key block p))"
  have p4: "p + 4 \<le> length block"
    and s: "lz_search (\<lambda>c. lz_rans_extend block p (p - c) ?lim 3) 65535 p ?lim ?cs 0 0 = (l, d)"
    using assms(2,3) by (auto simp: lz_rans_best_def Let_def split: if_splits)
  have "l = 0 \<or> (repeats block p d l \<and> d \<le> 65535 \<and> l \<le> 65535)"
  proof (rule lz_search_sound[OF s])
    fix c assume "c \<in> set ?cs" and "c < p" and "p - c \<le> 65535"
    then have "lz_key block c = lz_key block p"
      using set_last_candidates table_okD[OF assms(1)] by blast
    then have "repeats block p (p - c) 3" using \<open>c < p\<close> p4 by (intro repeats_three) auto
    then have "repeats block p (p - c) (lz_rans_extend block p (p - c) ?lim 3)
        \<and> lz_rans_extend block p (p - c) ?lim 3 \<le> ?lim"
      using p4 by (intro lz_rans_extend_repeats) auto
    with \<open>p - c \<le> 65535\<close> show "repeats block p (p - c) (lz_rans_extend block p (p - c) ?lim 3)
        \<and> p - c \<le> 65535 \<and> lz_rans_extend block p (p - c) ?lim 3 \<le> 65535" by simp
  qed simp
  with assms(3) show ?thesis by simp
qed

lemma lz_tokenize_loop_describes:
  assumes "streams_describe block q st" and "take q block @ pending = take p block"
    and "p \<le> length block" and "table_ok block p positions" and "length block \<le> 2 ^ 30"
  shows "streams_describe block (length block) (lz_tokenize_loop block p positions pending st)"
  using assms
proof (induction block p positions pending st arbitrary: q rule: lz_tokenize_loop.induct)
  case (1 block p positions pending st)
  obtain l d where ld: "lz_rans_best block p positions = (l, d)" by fastforce
  have flushed: "streams_describe block p (flush_literals pending st)"
    using 1(3,4,5,7) by (rule streams_describe_flush)
  consider "\<not> p < length block" | "p < length block" "4 \<le> l" | "p < length block" "\<not> 4 \<le> l" by blast
  then show ?case
  proof cases
    case 1
    with flushed "1.prems"(3) show ?thesis by (subst lz_tokenize_loop.simps) simp
  next
    case 2
    have r: "repeats block p d l" "d \<le> 65535" "l \<le> 65535"
      using lz_rans_best_repeats[OF "1.prems"(4) ld] 2 by auto
    have "streams_describe block (p + l) (push_match l d (flush_literals pending st))"
      using flushed r 2 by (intro streams_describe_match) auto
    then have "streams_describe block (length block) (lz_tokenize_loop block (p + l)
        (lz_index_range 64 block p l positions) [] (push_match l d (flush_literals pending st)))"
      using 2 ld r(1) "1.prems"(4,5)
      by (intro "1.IH"(1)) (auto simp: repeats_def intro: table_ok_index_range)
    with 2 ld show ?thesis by (subst lz_tokenize_loop.simps) (simp add: Let_def)
  next
    case 3
    have "take q block @ pending @ [block ! p] = take (p + 1) block"
      using "1.prems"(2) 3 by (simp add: take_Suc_nth flip: append_assoc)
    then have "streams_describe block (length block) (lz_tokenize_loop block (p + 1)
        (lz_index 64 block p positions) (pending @ [block ! p]) st)"
      using 3 ld "1.prems"(1,5) table_ok_index[OF "1.prems"(4)]
      by (intro "1.IH"(2)[where q = q]) auto
    with 3 ld show ?thesis by (subst lz_tokenize_loop.simps) (simp add: Let_def)
  qed
qed

lemma lz_tokenize_describes:
  "length block \<le> 2 ^ 30 \<Longrightarrow> streams_describe block (length block) (lz_tokenize block)"
  unfolding lz_tokenize_def
  by (rule lz_tokenize_loop_describes[OF streams_describe_empty]) (auto simp: table_ok_empty)

section \<open>Round trip\<close>

lemma lz_split_streams_encoded:
  assumes "list_all2 (\<lambda>r e. rans_encode r = Inr e) rs es"
  shows "lz_split_streams (zip (map length rs) (map length es)) (concat es @ rest) = Inr rs"
  using assms by (induction rs es rule: list_all2_induct) (auto simp: rans_decode_encode)

lemma length5_list:
  assumes "list_all2 P [a, b, c, d, e] es"
  obtains ea eb ec ed ee where "es = [ea, eb, ec, ed, ee]"
    "P a ea" "P b eb" "P c ec" "P d ed" "P e ee"
  using assms by (auto simp: list_all2_Cons1)

lemma LZR_header_size: "struct_size LZR_HEADER = 44"
  by (simp add: struct_size_def)

lemma lz_rans_payload:
  assumes "block \<noteq> []" and "length block \<le> 2 ^ 30"
  shows "\<exists>es header. list_all2 (\<lambda>r e. rans_encode r = Inr e) (stream_list (lz_tokenize block)) es
    \<and> length es = 5
    \<and> struct_pack LZR_HEADER (VB LZR_MAGIC # lz_descriptor (stream_list (lz_tokenize block)) es)
        = Inr header
    \<and> list_all2 field_exact LZR_HEADER
        (VB LZR_MAGIC # lz_descriptor (stream_list (lz_tokenize block)) es)
    \<and> lz_rans_encode block = Inr (header @ concat es)"
proof -
  let ?rs = "stream_list (lz_tokenize block)"
  have bound: "\<forall>s \<in> set ?rs. length s \<le> length block"
    using lz_tokenize_describes[OF assms(2)] by (simp add: streams_describe_def)
  have "\<exists>es. mapR rans_encode ?rs = Inr es"
    by (rule mapR_exists) (rule rans_encode_total)
  then obtain es where es: "mapR rans_encode ?rs = Inr es" by blast
  then have all: "list_all2 (\<lambda>r e. rans_encode r = Inr e) ?rs es" by (simp add: mapR_Inr_iff)
  then have len: "length es = 5" by (auto simp: stream_list_def dest: list_all2_lengthD)
  have small: "length s < 256 ^ 4" if "s \<in> set ?rs" for s using bound that assms(2) by fastforce
  have "length e < 256 ^ 4" if "rans_encode s = Inr e" "s \<in> set ?rs" for s e
    using rans_encode_length[OF that(1)] bound that(2) assms(2) by fastforce
  then have "list_all2 field_exact LZR_HEADER (VB LZR_MAGIC # lz_descriptor ?rs es)"
    using all small unfolding stream_list_def
    by (elim length5_list) (simp add: LZR_MAGIC_def)
  moreover from this obtain header where
    "struct_pack LZR_HEADER (VB LZR_MAGIC # lz_descriptor ?rs es) = Inr header"
    using struct_pack_exact by blast
  ultimately show ?thesis
    using assms(1) es all len by (auto simp: lz_rans_encode_def Let_def)
qed

lemma lz_rans_decode_accept:
  assumes "n \<noteq> 0" and "44 \<le> length p" and "struct_unpack_from LZR_HEADER p 0 = Inr vs"
    and "bval (vs ! 0) = LZR_MAGIC" and "every_other (map uval (drop 1 vs)) = rls"
    and "every_other (drop 1 (map uval (drop 1 vs))) = els" and "\<forall>r \<in> set rls. r \<le> n"
    and "sum_list els = length p - 44" and "lz_split_streams (zip rls els) (drop 44 p) = Inr ss"
    and "ss = [toks, lits, s2, s3, s4]" and "tokens_consistent toks lls mls ds"
    and "decode_varints s2 (length lls) = Inr lls" and "decode_varints s3 (length mls) = Inr mls"
    and "decode_varints s4 (length ds) = Inr ds"
    and "lz_replay n toks lls mls ds lits [] = Inr ([], out)" and "length out = n"
  shows "lz_rans_decode p n = Inr out"
proof -
  have c: "count_list toks 0 = length lls" "count_list toks 1 = length mls" "length ds = length mls"
    using assms(11) by (auto simp: tokens_consistent_def)
  have "\<not> (\<exists>r \<in> set rls. r > n)" using assms(7) by auto
  with assms c tokens_consistent_count[OF assms(11)] show ?thesis
    unfolding lz_rans_decode_def Let_def LZR_header_size by simp
qed

lemma lz_rans_decode_encode:
  assumes "length block \<le> 2 ^ 30" and "lz_rans_encode block = Inr p"
  shows "lz_rans_decode p (length block) = Inr block"
proof (cases "block = []")
  case False
  let ?st = "lz_tokenize block" and ?rs = "stream_list (lz_tokenize block)" and ?n = "length block"
  from lz_rans_payload[OF False assms(1)] assms(2) obtain es header where
    es: "list_all2 (\<lambda>r e. rans_encode r = Inr e) ?rs es" "length es = 5"
    and h: "struct_pack LZR_HEADER (VB LZR_MAGIC # lz_descriptor ?rs es) = Inr header"
      "list_all2 field_exact LZR_HEADER (VB LZR_MAGIC # lz_descriptor ?rs es)"
    and p: "p = header @ concat es" by auto
  let ?vs = "VB LZR_MAGIC # lz_descriptor ?rs es"
  have lh: "length header = 44" using struct_pack_length[OF h(1)] by (simp add: LZR_header_size)
  obtain ea eb ec ed ee where e5: "es = [ea, eb, ec, ed, ee]"
    using es(1) unfolding stream_list_def by (elim length5_list)
  have head: "struct_unpack_from LZR_HEADER p 0 = Inr ?vs"
    using struct_unpack_from_pack[OF h(2,1), of "[]" 0 "concat es"] by (simp add: p)
  have raw: "every_other (map uval (drop 1 ?vs)) = map length ?rs"
    and enc: "every_other (drop 1 (map uval (drop 1 ?vs))) = map length es"
    by (simp_all add: stream_list_def e5)
  obtain lls mls ds where d: "literal_lengths ?st = concat (map encode_varint lls)"
      "match_lengths ?st = concat (map encode_varint mls)" "distances ?st = concat (map encode_varint ds)"
      "\<forall>v \<in> set (lls @ mls @ ds). v < 128 ^ 5" "tokens_consistent (tokens ?st) lls mls ds"
      "lz_replay ?n (tokens ?st) lls mls ds (literals ?st) [] = Inr ([], block)"
    and bound: "\<forall>s \<in> set ?rs. length s \<le> ?n"
    using lz_tokenize_describes[OF assms(1)] by (auto simp: streams_describe_def)
  have split: "lz_split_streams (zip (map length ?rs) (map length es)) (drop 44 p) = Inr ?rs"
    using lz_split_streams_encoded[OF es(1), of "[]"] lh by (simp add: p)
  have "length ds = length mls" using d(5) by (simp add: tokens_consistent_def)
  with d(1-4) have var: "decode_varints (literal_lengths ?st) (length lls) = Inr lls"
    "decode_varints (match_lengths ?st) (length mls) = Inr mls"
    "decode_varints (distances ?st) (length ds) = Inr ds"
    using decode_varints_encoded[of lls] decode_varints_encoded[of mls] decode_varints_encoded[of ds]
    by auto
  show ?thesis
  proof (rule lz_rans_decode_accept[OF _ _ head _ raw enc _ _ split _ d(5) var d(6) refl])
    show "?n \<noteq> 0" using False by simp
    show "44 \<le> length p" using lh by (simp add: p)
    show "bval (?vs ! 0) = LZR_MAGIC" by simp
    show "\<forall>r \<in> set (map length ?rs). r \<le> ?n" using bound by simp
    show "sum_list (map length es) = length p - 44" using lh by (simp add: p length_concat)
  qed (simp add: stream_list_def)
qed (use assms in \<open>simp add: lz_rans_encode_def lz_rans_decode_def\<close>)

interpretation lz_rans: codec lz_rans_encode lz_rans_decode "\<lambda>b. length b \<le> 2 ^ 30"
proof unfold_locales
  show "\<exists>p. lz_rans_encode b = Inr p" if "length b \<le> 2 ^ 30" for b
    using lz_rans_payload[OF _ that] by (cases "b = []") (auto simp: lz_rans_encode_def)
  show "lz_rans_decode p (length b) = Inr b" if "length b \<le> 2 ^ 30" "lz_rans_encode b = Inr p" for b p
    using that by (rule lz_rans_decode_encode)
  show "lz_rans_decode p n = Inr b \<Longrightarrow> length b = n" for p n b
    by (auto simp: lz_rans_decode_def result_simps Let_def split: if_splits prod.splits)
qed

section \<open>Properties\<close>

text \<open>The combined mode (LZ tokens in five range-coded streams) is lossless on every block up to 1 GiB.\<close>

lemma lz_rans_lossless:
  "length b \<le> 2 ^ 30 \<Longrightarrow> \<exists>p. lz_rans_encode b = Inr p \<and> lz_rans_decode p (length b) = Inr b"
  by (rule lz_rans.enc_dec_exists)

lemma lz_rans_lossless_witness:
  "\<exists>p. lz_rans_encode [1, 2, 3, 1, 2, 3, 1, 2, 3] = Inr p
     \<and> lz_rans_decode p 9 = Inr [1, 2, 3, 1, 2, 3, 1, 2, 3]"
proof -
  have n: "length ([1, 2, 3, 1, 2, 3, 1, 2, 3] :: bytes) = 9" by simp
  show ?thesis by (rule lz_rans_lossless[of "[1, 2, 3, 1, 2, 3, 1, 2, 3]", unfolded n]) simp
qed

end
