(* ===== verification/Modes.thy ===== *)
theory Modes
  imports SimpleModes LzSimple Features Deflate LzRans
begin

text \<open>
  \<^verbatim>\<open>modes/__init__.py\<close>: the mode table, lookup by identifier, and the two selectors that keep
  the smallest candidate payload. The codec of a mode is one function of its identifier, so
  the interface \<open>codec\<close> is interpreted once more for the whole table.
\<close>

definition ALL_MODES :: "ModeId list" where
  "ALL_MODES = [RAW, RLE, DELTA8, LZ_SIMPLE, BYTE_RANS, DEFLATE, LZ_RANS]"

fun mode_name :: "ModeId \<Rightarrow> string" where
  "mode_name RAW = ''RAW''"
| "mode_name RLE = ''RLE''"
| "mode_name DELTA8 = ''DELTA8''"
| "mode_name LZ_SIMPLE = ''LZ_SIMPLE''"
| "mode_name BYTE_RANS = ''BYTE_RANS''"
| "mode_name DEFLATE = ''DEFLATE''"
| "mode_name LZ_RANS = ''LZ_RANS''"

text \<open>The two things the selectors call that are not Python: zlib and \<^verbatim>\<open>math.log2\<close>.\<close>

record clib =
  cl_zlib :: zlib
  cl_log2 :: "rat \<Rightarrow> rat"

fun mode_encode :: "clib \<Rightarrow> ModeId \<Rightarrow> bytes \<Rightarrow> bytes result" where
  "mode_encode c RAW = raw_encode"
| "mode_encode c RLE = rle_encode"
| "mode_encode c DELTA8 = delta8_encode"
| "mode_encode c LZ_SIMPLE = lz_simple_encode"
| "mode_encode c BYTE_RANS = rans_encode"
| "mode_encode c DEFLATE = deflate_encode (cl_zlib c)"
| "mode_encode c LZ_RANS = lz_rans_encode"

fun mode_decode :: "clib \<Rightarrow> ModeId \<Rightarrow> bytes \<Rightarrow> nat \<Rightarrow> bytes result" where
  "mode_decode c RAW = raw_decode"
| "mode_decode c RLE = rle_decode"
| "mode_decode c DELTA8 = delta8_decode"
| "mode_decode c LZ_SIMPLE = lz_simple_decode"
| "mode_decode c BYTE_RANS = rans_decode"
| "mode_decode c DEFLATE = deflate_decode (cl_zlib c)"
| "mode_decode c LZ_RANS = lz_rans_decode"

definition block_ok :: "clib \<Rightarrow> bytes \<Rightarrow> bool" where
  "block_ok c b \<longleftrightarrow> length b \<le> 2 ^ 24 \<and> zlib_restores (cl_zlib c) b"

interpretation table: codec "mode_encode c m" "mode_decode c m" "block_ok c" for c m
proof unfold_locales
  show "\<exists>p. mode_encode c m b = Inr p" if "block_ok c b" for b
    using that raw.enc_total[of b] rle.enc_total[of b] delta8.enc_total[of b]
      lz_simple.enc_total[of b] rans.enc_total[of b] deflate.enc_total[of "cl_zlib c" b]
      lz_rans.enc_total[of b]
    by (cases m) (auto simp: block_ok_def)
  show "mode_decode c m p (length b) = Inr b" if "block_ok c b" "mode_encode c m b = Inr p" for b p
    using that raw.dec_enc[of b p] rle.dec_enc[of b p] delta8.dec_enc[of b p]
      lz_simple.dec_enc[of b p] rans.dec_enc[of b p] deflate.dec_enc[of "cl_zlib c" b p]
      lz_rans.dec_enc[of b p]
    by (cases m) (auto simp: block_ok_def)
  show "mode_decode c m p n = Inr b \<Longrightarrow> length b = n" for p n b
    using raw.dec_size[of p n b] rle.dec_size[of p n b] delta8.dec_size[of p n b]
      lz_simple.dec_size[of p n b] rans.dec_size[of p n b] deflate.dec_size[of "cl_zlib c" p n b]
      lz_rans.dec_size[of p n b]
    by (cases m) auto
qed

definition get_mode :: "nat \<Rightarrow> ModeId result" where
  "get_mode mode_id =
     (case filter (\<lambda>m. mode_code m = mode_id) ALL_MODES of
        [] \<Rightarrow> Inl (ArchiveFormatError ''unknown compression mode'')
      | m # _ \<Rightarrow> Inr m)"

record EncodedBlock =
  eb_mode :: ModeId
  eb_payload :: bytes

definition encode_candidate :: "clib \<Rightarrow> bytes \<Rightarrow> ModeId \<Rightarrow> EncodedBlock result" where
  "encode_candidate c block m =
     bindR (mode_encode c m block) (\<lambda>p. Inr \<lparr>eb_mode = m, eb_payload = p\<rparr>)"

text \<open>\<^verbatim>\<open>min(candidates, key=lambda candidate: len(candidate.payload))\<close>\<close>

definition smallest :: "EncodedBlock list \<Rightarrow> EncodedBlock result" where
  "smallest cs = (case cs of [] \<Rightarrow> Inl (ValueError ''min() arg is an empty sequence'')
     | x # xs \<Rightarrow> Inr (min_by (\<lambda>e. length (eb_payload e)) x xs))"

definition choose_among :: "clib \<Rightarrow> bytes \<Rightarrow> ModeId list \<Rightarrow> EncodedBlock result" where
  "choose_among c block modes = bindR (mapR (encode_candidate c block) modes) smallest"

definition choose_best_mode :: "clib \<Rightarrow> bytes \<Rightarrow> EncodedBlock result" where
  "choose_best_mode c block = choose_among c block ALL_MODES"

definition balanced_modes :: "clib \<Rightarrow> bytes \<Rightarrow> ModeId set" where
  "balanced_modes c block =
     (let features = analyze_block (cl_log2 c) block
      in {RAW, RLE, DEFLATE}
         \<union> (if delta_smoothness_ratio features \<ge> 55 / 100 then {DELTA8} else {})
         \<union> (if length block \<ge> 256 \<and> entropy_bits_per_byte features < 775 / 100
            then {BYTE_RANS} else {}))"

definition choose_routed_mode :: "clib \<Rightarrow> bytes \<Rightarrow> string \<Rightarrow> EncodedBlock result" where
  "choose_routed_mode c block profile =
     (if profile \<notin> {''fast'', ''balanced'', ''research''}
      then Inl (ValueError ''unknown compression profile'')
      else let candidate_ids =
             (if profile = ''fast'' then {RAW, DEFLATE}
              else if profile = ''research'' then set ALL_MODES
              else balanced_modes c block)
           in choose_among c block (filter (\<lambda>m. m \<in> candidate_ids) ALL_MODES))"

section \<open>The mode table\<close>

lemma get_mode_code [simp]: "get_mode (mode_code m) = Inr m"
  by (cases m) (auto simp: get_mode_def ALL_MODES_def)

lemma get_mode_Inr: "get_mode i = Inr m \<longleftrightarrow> i = mode_code m"
proof
  assume "get_mode i = Inr m"
  then obtain ms where "filter (\<lambda>m. mode_code m = i) ALL_MODES = m # ms"
    by (auto simp: get_mode_def split: list.splits)
  then have "m \<in> set (filter (\<lambda>m. mode_code m = i) ALL_MODES)" by (metis list.set_intros(1))
  then show "i = mode_code m" by simp
qed simp

lemma get_mode_unknown: "7 \<le> i \<Longrightarrow> get_mode i = Inl (ArchiveFormatError ''unknown compression mode'')"
proof -
  assume i: "7 \<le> i"
  have "mode_code m \<noteq> i" for m using mode_code_lt[of m] i by linarith
  then have "filter (\<lambda>m. mode_code m = i) ALL_MODES = []" by simp
  then show ?thesis by (simp add: get_mode_def)
qed

section \<open>Selection\<close>

lemma encode_candidate_Inr:
  "encode_candidate c block m = Inr e \<longleftrightarrow> eb_mode e = m \<and> mode_encode c m block = Inr (eb_payload e)"
  by (cases e) (auto simp: encode_candidate_def result_simps)

lemma choose_among_Inr:
  assumes "choose_among c block modes = Inr e"
  shows "eb_mode e \<in> set modes \<and> mode_encode c (eb_mode e) block = Inr (eb_payload e)
    \<and> (\<forall>m\<in>set modes. \<forall>p. mode_encode c m block = Inr p \<longrightarrow> length (eb_payload e) \<le> length p)"
proof -
  from assms obtain cs where cs: "mapR (encode_candidate c block) modes = Inr cs"
    and sm: "smallest cs = Inr e"
    by (auto simp: choose_among_def result_simps)
  from sm obtain x xs where x: "cs = x # xs" and e: "e = min_by (\<lambda>e. length (eb_payload e)) x xs"
    by (auto simp: smallest_def split: list.splits)
  have mem: "e \<in> set cs" using min_by_mem[of _ x xs] by (simp add: x e)
  have "m \<in> set modes \<Longrightarrow> \<exists>e'\<in>set cs. encode_candidate c block m = Inr e'" for m
    by (rule mapR_source[OF cs])
  moreover have le: "e' \<in> set cs \<Longrightarrow> length (eb_payload e) \<le> length (eb_payload e')" for e'
    using min_by_le[of e' x xs "\<lambda>e. length (eb_payload e)"] by (simp add: x e)
  moreover have "\<exists>m\<in>set modes. encode_candidate c block m = Inr e"
    by (rule mapR_image[OF cs mem])
  ultimately show ?thesis by (fastforce simp: encode_candidate_Inr)
qed

lemma choose_among_total:
  assumes "block_ok c block" and "modes \<noteq> []"
  shows "\<exists>e. choose_among c block modes = Inr e"
proof -
  have "\<exists>e. encode_candidate c block m = Inr e" for m
    using table.enc_total[OF assms(1), of m] by (auto simp: encode_candidate_def)
  then have "\<exists>cs. mapR (encode_candidate c block) modes = Inr cs" by (rule mapR_exists)
  then obtain cs where cs: "mapR (encode_candidate c block) modes = Inr cs" by blast
  with assms(2) have "cs \<noteq> []" by (auto simp: mapR_Inr_iff)
  with cs show ?thesis by (auto simp: choose_among_def smallest_def split: list.splits)
qed

lemma raw_candidate: "RAW \<in> set modes \<Longrightarrow> choose_among c block modes = Inr e \<Longrightarrow>
    length (eb_payload e) \<le> length block"
  using choose_among_Inr[of c block modes e] by (force simp: raw_encode_def)

lemma choose_among_decodes:
  assumes "choose_among c block modes = Inr e" and "block_ok c block"
  shows "mode_decode c (eb_mode e) (eb_payload e) (length block) = Inr block"
  using choose_among_Inr[OF assms(1)] table.dec_enc[OF assms(2)] by blast

text \<open>The modes a profile tries: a set that always contains the raw mode.\<close>

lemma routed_modes:
  assumes "profile \<in> {''fast'', ''balanced'', ''research''}"
  obtains modes where "choose_routed_mode c block profile = choose_among c block modes"
    and "RAW \<in> set modes" and "set modes \<subseteq> set ALL_MODES"
proof -
  let ?ids = "(if profile = ''fast'' then {RAW, DEFLATE}
              else if profile = ''research'' then set ALL_MODES else balanced_modes c block)"
  have "RAW \<in> ?ids" by (auto simp: ALL_MODES_def balanced_modes_def Let_def)
  then have "RAW \<in> set (filter (\<lambda>m. m \<in> ?ids) ALL_MODES)" by (simp add: ALL_MODES_def)
  moreover have "choose_routed_mode c block profile
      = choose_among c block (filter (\<lambda>m. m \<in> ?ids) ALL_MODES)"
    using assms unfolding choose_routed_mode_def Let_def by (simp only: not_True_eq_False if_False)
  ultimately show thesis using that by auto
qed

lemma choose_best_decodes:
  assumes "choose_best_mode c block = Inr e" and "block_ok c block"
  shows "mode_decode c (eb_mode e) (eb_payload e) (length block) = Inr block"
    and "length (eb_payload e) \<le> length block"
  using assms choose_among_decodes raw_candidate[of ALL_MODES c block e]
  by (auto simp: choose_best_mode_def ALL_MODES_def)

lemma choose_best_total: "block_ok c block \<Longrightarrow> \<exists>e. choose_best_mode c block = Inr e"
  unfolding choose_best_mode_def by (rule choose_among_total) (simp_all add: ALL_MODES_def)

lemma choose_routed_total:
  assumes "block_ok c block" and "profile \<in> {''fast'', ''balanced'', ''research''}"
  shows "\<exists>e. choose_routed_mode c block profile = Inr e"
  using routed_modes[OF assms(2), of c block] choose_among_total[OF assms(1)]
  by (metis empty_iff empty_set)

lemma choose_routed_Inr:
  assumes "choose_routed_mode c block profile = Inr e"
  shows "profile \<in> {''fast'', ''balanced'', ''research''}
    \<and> mode_encode c (eb_mode e) block = Inr (eb_payload e)
    \<and> length (eb_payload e) \<le> length block"
proof -
  from assms have p: "profile \<in> {''fast'', ''balanced'', ''research''}"
    by (simp add: choose_routed_mode_def split: if_splits)
  from routed_modes[OF p] obtain modes where m: "choose_among c block modes = Inr e" "RAW \<in> set modes"
    using assms by metis
  with p show ?thesis using choose_among_Inr[OF m(1)] raw_candidate[OF m(2,1)] by blast
qed

lemma choose_routed_decodes:
  assumes "choose_routed_mode c block profile = Inr e" and "block_ok c block"
  shows "mode_decode c (eb_mode e) (eb_payload e) (length block) = Inr block"
  using choose_routed_Inr[OF assms(1)] table.dec_enc[OF assms(2)] by blast

section \<open>An instance of the C library\<close>

text \<open>
  For witnesses: a \<open>zlib\<close> that stores blocks verbatim and a \<open>log2\<close> that is constantly -1. The
  law \<open>zlib_restores\<close> holds for it on every block.
\<close>

definition example_zlib :: zlib where
  "example_zlib =
     \<lparr>zlib_compress = (\<lambda>b. b),
      zlib_decompress = (\<lambda>p n. Some \<lparr>z_output = take n p, z_eof = (length p \<le> n),
         z_unused_data = [], z_unconsumed_tail = drop n p\<rparr>),
      zlib_flush = (\<lambda>d n. Some \<lparr>z_output = take n (z_unconsumed_tail d),
         z_eof = (length (z_unconsumed_tail d) \<le> n), z_unused_data = [],
         z_unconsumed_tail = drop n (z_unconsumed_tail d)\<rparr>)\<rparr>"

definition example_clib :: clib where
  "example_clib = \<lparr>cl_zlib = example_zlib, cl_log2 = (\<lambda>_. -1)\<rparr>"

lemma example_zlib_restores [simp]: "zlib_restores example_zlib b"
  by (simp add: zlib_restores_def example_zlib_def)

lemma example_block_ok [simp]: "block_ok example_clib b \<longleftrightarrow> length b \<le> 2 ^ 24"
  by (simp add: block_ok_def example_clib_def)

section \<open>Properties\<close>

text \<open>C27: Every mode of the table decodes what it encoded, for every block of at most 16 MiB that zlib restores; a mode is found again under the identifier that records carry.\<close>

lemma mode_table_lossless:
  "length b \<le> 2 ^ 24 \<Longrightarrow> zlib_restores (cl_zlib c) b \<Longrightarrow>
   \<exists>p. mode_encode c m b = Inr p \<and> mode_decode c m p (length b) = Inr b
     \<and> get_mode (mode_code m) = Inr m"
  using table.enc_dec_exists[of c b m] by (simp add: block_ok_def)

lemma mode_table_lossless_witness:
  "\<exists>p. mode_encode example_clib DEFLATE [1, 2, 3] = Inr p
     \<and> mode_decode example_clib DEFLATE p 3 = Inr [1, 2, 3]"
proof -
  have n: "length ([1, 2, 3] :: bytes) = 3" by simp
  have z: "zlib_restores (cl_zlib example_clib) [1, 2, 3]" by (simp add: example_clib_def)
  show ?thesis using mode_table_lossless[of "[1, 2, 3]" example_clib DEFLATE, unfolded n, OF _ z] by auto
qed

text \<open>No decoder of the table, on any payload, yields a block of another size than the record declares.\<close>

lemma mode_table_size:
  "mode_decode c m payload n = Inr block \<Longrightarrow> length block = n"
  by (rule table.dec_size)

lemma mode_table_size_witness: "length ([4, 5] :: bytes) = 2"
  using mode_table_size[of example_clib RAW "[4, 5]" 2 "[4, 5]"] by (simp add: raw_decode_def)

text \<open>C28: The exhaustive selector succeeds on every block, keeps a payload that decodes to the block, is at most as long as the block, and is the shortest of all modes.\<close>

lemma best_mode_optimal:
  "length block \<le> 2 ^ 24 \<Longrightarrow> zlib_restores (cl_zlib c) block \<Longrightarrow>
   \<exists>e. choose_best_mode c block = Inr e
     \<and> mode_decode c (eb_mode e) (eb_payload e) (length block) = Inr block
     \<and> length (eb_payload e) \<le> length block
     \<and> (\<forall>m p. mode_encode c m block = Inr p \<longrightarrow> length (eb_payload e) \<le> length p)"
proof -
  assume "length block \<le> 2 ^ 24" "zlib_restores (cl_zlib c) block"
  then have ok: "block_ok c block" by (simp add: block_ok_def)
  then obtain e where e: "choose_best_mode c block = Inr e" using choose_best_total by blast
  have "m \<in> set ALL_MODES" for m by (cases m) (simp_all add: ALL_MODES_def)
  with choose_best_decodes[OF e ok] choose_among_Inr[OF e[unfolded choose_best_mode_def]] e
  show ?thesis by blast
qed

lemma best_mode_optimal_witness:
  "\<exists>e. choose_best_mode example_clib [9, 9, 9] = Inr e \<and> length (eb_payload e) \<le> 2"
proof -
  have rle: "mode_encode example_clib RLE [9, 9, 9] = Inr [3, 9]" by (simp add: rle_encode_def)
  have z: "zlib_restores (cl_zlib example_clib) [9, 9, 9]" by (simp add: example_clib_def)
  obtain e where "choose_best_mode example_clib [9, 9, 9] = Inr e"
    and "\<And>m p. mode_encode example_clib m [9, 9, 9] = Inr p \<Longrightarrow> length (eb_payload e) \<le> length p"
    using best_mode_optimal[OF _ z] by auto
  from this(1) this(2)[OF rle] show ?thesis by simp
qed

text \<open>C29: The profile router succeeds on every block for the three profiles with a payload that decodes to the block and is at most as long, and rejects any other profile.\<close>

lemma routed_mode_sound:
  "block_ok c block \<Longrightarrow>
   (if profile \<in> {''fast'', ''balanced'', ''research''}
    then \<exists>e. choose_routed_mode c block profile = Inr e
      \<and> mode_decode c (eb_mode e) (eb_payload e) (length block) = Inr block
      \<and> length (eb_payload e) \<le> length block
    else choose_routed_mode c block profile = Inl (ValueError ''unknown compression profile''))"
proof (cases "profile \<in> {''fast'', ''balanced'', ''research''}")
  case True
  assume ok: "block_ok c block"
  from choose_routed_total[OF ok True] obtain e where e: "choose_routed_mode c block profile = Inr e" by blast
  with choose_routed_decodes[OF e ok] choose_routed_Inr[OF e] show ?thesis by (simp only: True if_True) blast
next
  case False
  then show ?thesis by (simp only: if_False choose_routed_mode_def not_False_eq_True if_True)
qed

lemma routed_mode_sound_witness:
  "\<exists>e. choose_routed_mode example_clib [5, 6] ''balanced'' = Inr e \<and> length (eb_payload e) \<le> 2"
proof -
  have ok: "block_ok example_clib [5, 6]" by simp
  show ?thesis using routed_mode_sound[OF ok, of "''balanced''"] by auto
qed

text \<open>Every ratio the feature analysis reports lies between 0 and 1.\<close>

lemma feature_ratios_bounded:
  "list_all (\<lambda>q. 0 \<le> q \<and> q \<le> 1) (ratios (analyze_block log2 block))"
  using analyze_block_ratios[of log2 block] by (simp add: list_all_iff)

end
