(* ===== verification/Paths.thy ===== *)
theory Paths
  imports Text
begin

text \<open>
  \<^verbatim>\<open>paths.py\<close>: the portable archive path check, over a model of the parts of \<^verbatim>\<open>PurePosixPath\<close>
  and \<^verbatim>\<open>str.split\<close>. The lemmas show what an accepted path guarantees (it stays below the
  directory it is joined to, and no component is special on any platform) and what it does not:
  the parts drop empty and \<^verbatim>\<open>"."\<close> components, so several accepted strings name one target.
\<close>

section \<open>Splitting\<close>

text \<open>\<^verbatim>\<open>value.split(separator)\<close> for a separator of one character.\<close>

fun split_on :: "nat \<Rightarrow> pystr \<Rightarrow> pystr list" where
  "split_on c [] = [[]]"
| "split_on c (x # xs) =
     (if x = c then [] # split_on c xs
      else (case split_on c xs of [] \<Rightarrow> [[x]] | p # ps \<Rightarrow> (x # p) # ps))"

fun join_with :: "nat \<Rightarrow> pystr list \<Rightarrow> pystr" where
  "join_with c [] = []"
| "join_with c [p] = p"
| "join_with c (p # ps) = p @ c # join_with c ps"

abbreviation SLASH where "SLASH \<equiv> (47 :: nat)"
abbreviation DOT where "DOT \<equiv> (46 :: nat)"
abbreviation BACKSLASH where "BACKSLASH \<equiv> (92 :: nat)"

text \<open>\<^verbatim>\<open>PurePosixPath(value)\<close>: its components behind the root, whether it has a root, its name.\<close>

definition posix_components :: "pystr \<Rightarrow> pystr list" where
  "posix_components value = filter (\<lambda>p. p \<noteq> [] \<and> p \<noteq> [DOT]) (split_on SLASH value)"

definition posix_is_absolute :: "pystr \<Rightarrow> bool" where
  "posix_is_absolute value \<longleftrightarrow> (case value of [] \<Rightarrow> False | c # _ \<Rightarrow> c = SLASH)"

definition posix_name :: "pystr \<Rightarrow> pystr" where
  "posix_name value =
     (let parts = posix_components value in if parts = [] then [] else last parts)"

lemma split_on_nonempty [simp]: "split_on c s \<noteq> []"
  by (induction s) (auto split: list.splits)

lemma join_split: "join_with c (split_on c s) = s"
proof (induction s)
  case (Cons x xs)
  obtain p ps where "split_on c xs = p # ps" by (cases "split_on c xs") auto
  with Cons show ?case by (cases ps) auto
qed simp

lemma split_on_no_sep: "p \<in> set (split_on c s) \<Longrightarrow> c \<notin> set p"
proof (induction s arbitrary: p)
  case (Cons x xs)
  obtain q qs where q: "split_on c xs = q # qs" by (cases "split_on c xs") auto
  with Cons.IH have "c \<notin> set q" "\<And>p. p \<in> set qs \<Longrightarrow> c \<notin> set p" by auto
  with Cons.prems q show ?case by (auto split: if_splits)
qed simp

lemma split_on_id: "c \<notin> set p \<Longrightarrow> split_on c p = [p]"
  by (induction p) auto

lemma split_join:
  "ps \<noteq> [] \<Longrightarrow> (\<And>p. p \<in> set ps \<Longrightarrow> c \<notin> set p) \<Longrightarrow> split_on c (join_with c ps) = ps"
proof (induction c ps rule: join_with.induct)
  case (3 c p q qs)
  then have "split_on c (join_with c (q # qs)) = q # qs" by simp
  moreover have "c \<notin> set p \<Longrightarrow> split_on c (p @ c # r) = p # split_on c r" for r
    by (induction p) auto
  ultimately show ?case using 3(3) by simp
qed (auto simp: split_on_id)

section \<open>The check\<close>

definition INVALID_WINDOWS_CHARS :: pystr where
  "INVALID_WINDOWS_CHARS = [60, 62, 58, 34, 92, 124, 63, 42]"

definition RESERVED_WINDOWS_NAMES :: "pystr list" where
  "RESERVED_WINDOWS_NAMES =
     [lit ''CON'', lit ''PRN'', lit ''AUX'', lit ''NUL'']
     @ map (\<lambda>number. lit ''COM'' @ [48 + number]) [1..<10]
     @ map (\<lambda>number. lit ''LPT'' @ [48 + number]) [1..<10]"

text \<open>The body of the loop over the parts, and \<^verbatim>\<open>part.split(".", 1)[0]\<close>.\<close>

definition part_stem :: "pystr \<Rightarrow> pystr" where
  "part_stem part = takeWhile (\<lambda>c. c \<noteq> DOT) part"

definition validate_part :: "unicode \<Rightarrow> pystr \<Rightarrow> unit result" where
  "validate_part u part =
     (if part \<in> {[], [DOT], [DOT, DOT]}
      then Inl (ValueError ''archive path contains traversal components'')
      else if last part \<in> {32, DOT}
      then Inl (ValueError ''archive path has a platform-unsafe trailing character'')
      else if \<exists>c\<in>set part. c \<in> set INVALID_WINDOWS_CHARS \<or> c < 32
      then Inl (ValueError ''archive path contains platform-unsafe characters'')
      else if upper u (part_stem part) \<in> set RESERVED_WINDOWS_NAMES
      then Inl (ValueError ''archive path uses a reserved platform name'')
      else Inr ())"

fun validate_parts :: "unicode \<Rightarrow> pystr list \<Rightarrow> unit result" where
  "validate_parts u [] = Inr ()"
| "validate_parts u (p # ps) = bindR (validate_part u p) (\<lambda>_. validate_parts u ps)"

definition validate_relative_path :: "unicode \<Rightarrow> pystr \<Rightarrow> pystr result" where
  "validate_relative_path u value =
     (let normalized = nfc u value
      in if normalized = [] \<or> normalized \<in> {[DOT], [DOT, DOT]}
         then Inl (ValueError ''archive path must not be empty or relative-dot only'')
         else if 0 \<in> set normalized \<or> BACKSLASH \<in> set normalized
         then Inl (ValueError ''archive paths must use safe POSIX separators'')
         else bindR (utf8_encode normalized) (\<lambda>encoded.
           if length encoded > 65535 then Inl (ValueError ''archive path is too long'')
           else if posix_is_absolute normalized \<or> posix_components normalized = []
           then Inl (ValueError ''archive path must be relative'')
           else bindR (validate_parts u (posix_components normalized)) (\<lambda>_. Inr normalized)))"

text \<open>
  \<^verbatim>\<open>path_matches_file_identity\<close>: \<open>current\<close> is what \<^verbatim>\<open>path.stat()\<close> found, \<open>None\<close> where it
  raised \<^verbatim>\<open>FileNotFoundError\<close> or \<^verbatim>\<open>NotADirectoryError\<close>; \<^verbatim>\<open>os.path.samestat\<close> compares device and
  inode.
\<close>

record stat_result =
  st_dev :: nat
  st_ino :: nat

definition samestat :: "stat_result \<Rightarrow> stat_result \<Rightarrow> bool" where
  "samestat a b \<longleftrightarrow> st_ino a = st_ino b \<and> st_dev a = st_dev b"

definition path_matches_file_identity :: "stat_result option \<Rightarrow> stat_result \<Rightarrow> bool" where
  "path_matches_file_identity current identity =
     (case current of None \<Rightarrow> False | Some c \<Rightarrow> samestat c identity)"

section \<open>What an accepted path guarantees\<close>

definition safe_part :: "unicode \<Rightarrow> pystr \<Rightarrow> bool" where
  "safe_part u p \<longleftrightarrow>
     p \<noteq> [] \<and> p \<noteq> [DOT] \<and> p \<noteq> [DOT, DOT] \<and> last p \<noteq> 32 \<and> last p \<noteq> DOT
     \<and> (\<forall>c\<in>set p. c \<ge> 32 \<and> c \<noteq> SLASH \<and> c \<notin> set INVALID_WINDOWS_CHARS)
     \<and> upper u (part_stem p) \<notin> set RESERVED_WINDOWS_NAMES"

lemma validate_part_Inr:
  "validate_part u p = Inr () \<longleftrightarrow>
     p \<noteq> [] \<and> p \<noteq> [DOT] \<and> p \<noteq> [DOT, DOT] \<and> last p \<noteq> 32 \<and> last p \<noteq> DOT
     \<and> (\<forall>c\<in>set p. c \<ge> 32 \<and> c \<notin> set INVALID_WINDOWS_CHARS)
     \<and> upper u (part_stem p) \<notin> set RESERVED_WINDOWS_NAMES"
  by (auto simp: validate_part_def not_less not_le split: if_splits dest: leD)

lemma validate_parts_Inr:
  "validate_parts u ps = Inr () \<longleftrightarrow> (\<forall>p\<in>set ps. validate_part u p = Inr ())"
  by (induction ps) (auto simp: result_simps)

lemma posix_components_no_slash: "p \<in> set (posix_components s) \<Longrightarrow> SLASH \<notin> set p"
  using split_on_no_sep by (auto simp: posix_components_def)

lemma validate_relative_path_Inr:
  assumes "validate_relative_path u value = Inr r"
  shows "r = nfc u value \<and> posix_components r \<noteq> [] \<and> \<not> posix_is_absolute r
    \<and> 0 \<notin> set r \<and> (\<forall>p\<in>set (posix_components r). safe_part u p)"
  using assms posix_components_no_slash[of _ "nfc u value"]
  by (auto simp: validate_relative_path_def Let_def result_simps validate_parts_Inr
      validate_part_Inr safe_part_def split: if_splits)

text \<open>Walking a list of components from a directory, \<^verbatim>\<open>".."\<close> going up.\<close>

fun walk :: "pystr list \<Rightarrow> pystr list \<Rightarrow> pystr list" where
  "walk d [] = d"
| "walk d (p # ps) =
     (if p = [DOT, DOT] then walk (butlast d) ps
      else if p = [] \<or> p = [DOT] then walk d ps else walk (d @ [p]) ps)"

lemma walk_safe: "\<forall>p\<in>set ps. safe_part u p \<Longrightarrow> walk d ps = d @ ps"
  by (induction ps arbitrary: d) (auto simp: safe_part_def)

lemma walk_filter: "walk d (filter (\<lambda>p. p \<noteq> [] \<and> p \<noteq> [DOT]) ps) = walk d ps"
  by (induction ps arbitrary: d) auto

text \<open>
  The raw component string, with empty and dot components and all, walks from any directory to
  the directory extended by the checked parts: it never leaves the directory.
\<close>

lemma accepted_stays_inside:
  assumes "validate_relative_path u value = Inr r"
  shows "walk d (split_on SLASH r) = d @ posix_components r \<and> posix_components r \<noteq> []"
proof -
  note v = validate_relative_path_Inr[OF assms]
  have "walk d (split_on SLASH r) = walk d (posix_components r)"
    unfolding posix_components_def by (simp add: walk_filter)
  also have "\<dots> = d @ posix_components r" using v by (intro walk_safe[of _ u]) auto
  finally show ?thesis using v by blast
qed

text \<open>A path made of safe parts is accepted as it stands.\<close>

lemma accepts_safe_parts:
  assumes parts: "ps \<noteq> []" "\<forall>p\<in>set ps. safe_part u p"
    and nfc: "nfc u (join_with SLASH ps) = join_with SLASH ps"
    and enc: "utf8_encode (join_with SLASH ps) = Inr b" "length b \<le> 65535"
  shows "validate_relative_path u (join_with SLASH ps) = Inr (join_with SLASH ps)"
proof -
  let ?s = "join_with SLASH ps"
  have ns: "\<And>p. p \<in> set ps \<Longrightarrow> SLASH \<notin> set p" using parts(2) by (auto simp: safe_part_def)
  have split: "split_on SLASH ?s = ps" using parts(1) ns by (rule split_join)
  have comps: "posix_components ?s = ps"
    using parts(2) by (auto simp: posix_components_def split filter_id_conv safe_part_def)
  have chars: "set ?s \<subseteq> \<Union> (set ` set ps) \<union> {SLASH}"
    by (induction SLASH ps rule: join_with.induct) auto
  then have "0 \<notin> set ?s" "BACKSLASH \<notin> set ?s"
    using parts(2) by (fastforce simp: safe_part_def INVALID_WINDOWS_CHARS_def)+
  moreover have ne: "[] \<notin> set ps" "[DOT] \<notin> set ps" "[DOT, DOT] \<notin> set ps"
    using parts(2) by (auto simp: safe_part_def)
  then have "?s \<noteq> []" "?s \<noteq> [DOT]" "?s \<noteq> [DOT, DOT]" using split by auto
  moreover have "\<not> posix_is_absolute ?s"
    using split ne by (auto simp: posix_is_absolute_def split: list.splits)
  moreover have "validate_parts u ps = Inr ()"
    using parts(2) by (auto simp: validate_parts_Inr validate_part_Inr safe_part_def)
  ultimately show ?thesis
    using parts(1) nfc enc by (simp add: validate_relative_path_def comps)
qed

section \<open>Properties\<close>

text \<open>C34: An accepted archive path is NFC-normalised, relative and free of NUL, its components are safe on every platform, and walking it from any directory, with all its raw components, ends strictly below that directory.\<close>

lemma accepted_path_confined:
  "validate_relative_path u value = Inr r \<Longrightarrow>
   r = nfc u value \<and> \<not> posix_is_absolute r \<and> 0 \<notin> set r \<and> posix_components r \<noteq> []
     \<and> list_all (safe_part u) (posix_components r)
     \<and> walk directory (split_on SLASH r) = directory @ posix_components r"
  using validate_relative_path_Inr[of u "value" r] accepted_stays_inside[of u "value" r directory]
  by (auto simp: list_all_iff)

lemma accepted_path_confined_witness:
  "walk [lit ''out''] (split_on SLASH (lit ''a/b'')) = [lit ''out'', lit ''a'', lit ''b'']"
proof -
  have "validate_relative_path ascii_tables (lit ''a/b'') = Inr (lit ''a/b'')"
    by (auto simp: validate_relative_path_def ascii_tables_def lit_def Let_def utf8_char_def
        posix_is_absolute_def posix_components_def validate_part_def INVALID_WINDOWS_CHARS_def
        part_stem_def ascii_upper_def RESERVED_WINDOWS_NAMES_def)
  from accepted_path_confined[OF this, of "[lit ''out'']"] show ?thesis
    by (simp add: posix_components_def lit_def)
qed

text \<open>The check does not make paths canonical: for every Unicode table that behaves as documented on ASCII, the strings a//b, a/./b and a/b are all accepted unchanged although they name the same components, so distinct accepted paths can denote one target.\<close>

lemma accepted_path_aliases:
  "unicode_ascii u \<Longrightarrow>
   validate_relative_path u (lit ''a/b'') = Inr (lit ''a/b'')
   \<and> validate_relative_path u (lit ''a//b'') = Inr (lit ''a//b'')
   \<and> validate_relative_path u (lit ''a/./b'') = Inr (lit ''a/./b'')
   \<and> posix_components (lit ''a//b'') = posix_components (lit ''a/b'')
   \<and> posix_components (lit ''a/./b'') = posix_components (lit ''a/b'')"
proof -
  assume u: "unicode_ascii u"
  then have "upper u [97] = [65]" "upper u [98] = [66]"
    by (simp_all add: unicode_ascii_def ascii_def ascii_upper_def)
  moreover have "nfc u (lit ''a/b'') = lit ''a/b''" "nfc u (lit ''a//b'') = lit ''a//b''"
    "nfc u (lit ''a/./b'') = lit ''a/./b''"
    using u by (simp_all add: unicode_ascii_def ascii_def lit_def)
  ultimately show ?thesis
    by (auto simp: validate_relative_path_def lit_def Let_def utf8_char_def posix_is_absolute_def
        posix_components_def validate_part_def INVALID_WINDOWS_CHARS_def part_stem_def
        RESERVED_WINDOWS_NAMES_def)
qed

lemma accepted_path_aliases_witness:
  "validate_relative_path ascii_tables (lit ''a//b'') = Inr (lit ''a//b'')"
  using accepted_path_aliases[OF unicode_ascii_tables] by simp

end
