(* ===== verification/Files.thy ===== *)
theory Files
  imports Padding Paths
begin

text \<open>
  The file system as the archive modules use it: regular files under path names, their
  identities, and the publication protocol shared by all writers (write a temporary file beside
  the destination, then \<^verbatim>\<open>os.replace\<close>, and unlink the temporary file on every error). The
  process is alone on its file system between two calls; what the source session observes of
  other processes is in the theory of that component. A restored folder is a whole tree under
  its destination; every other directory, such as one that a writer makes on the way to its
  destination, is known by its path name alone. Path names are those of normalised \<^verbatim>\<open>Path\<close>
  objects: no doubled and no trailing separator.
\<close>

text \<open>Permission bits and modification time, \<open>None\<close> before \<^verbatim>\<open>chmod\<close> and \<^verbatim>\<open>utime\<close> set them.\<close>

type_synonym metadata = "(nat \<times> int) option"

record regular_file =
  fl_id :: stat_result
  fl_bytes :: bytes
  fl_meta :: metadata

text \<open>
  A directory tree under a path: its nodes by their components below the root, \<open>[]\<close> the root.
\<close>

datatype node = TFile bytes metadata | TDir metadata

type_synonym tree = "pystr list \<rightharpoonup> node"

record filesystem =
  fs_files :: "pystr \<rightharpoonup> regular_file"
  fs_trees :: "pystr \<rightharpoonup> tree"
  fs_directories :: "pystr set"
  fs_resolve :: "pystr \<Rightarrow> pystr"

definition fs_stat :: "filesystem \<Rightarrow> pystr \<Rightarrow> stat_result option" where
  "fs_stat fs p = map_option fl_id (fs_files fs p)"

definition fs_read :: "filesystem \<Rightarrow> pystr \<Rightarrow> bytes result" where
  "fs_read fs p = (case fs_files fs p of
      None \<Rightarrow> Inl (FileNotFoundError ''No such file or directory'')
    | Some f \<Rightarrow> Inr (fl_bytes f))"

text \<open>
  What the operating system chooses when a process runs: the name and identity of the temporary
  file, and the bytes of each call of \<^verbatim>\<open>os.urandom\<close>, counted from zero.
\<close>

record os_choice =
  oc_temporary :: pystr
  oc_identity :: stat_result
  oc_random :: "nat \<Rightarrow> nat \<Rightarrow> bytes"

definition os_law :: "filesystem \<Rightarrow> os_choice \<Rightarrow> bool" where
  "os_law fs os \<longleftrightarrow> fs_files fs (oc_temporary os) = None \<and> fs_trees fs (oc_temporary os) = None \<and> (\<forall>k. random_law (oc_random os k))"

definition fs_create :: "filesystem \<Rightarrow> os_choice \<Rightarrow> filesystem" where
  "fs_create fs os = fs\<lparr>fs_files := (fs_files fs)(oc_temporary os \<mapsto>
     \<lparr>fl_id = oc_identity os, fl_bytes = [], fl_meta = None\<rparr>)\<rparr>"

definition fs_write :: "filesystem \<Rightarrow> pystr \<Rightarrow> bytes \<Rightarrow> filesystem" where
  "fs_write fs p b = fs\<lparr>fs_files := (fs_files fs)(p := map_option (fl_bytes_update (\<lambda>_. b)) (fs_files fs p))\<rparr>"

definition fs_unlink :: "filesystem \<Rightarrow> pystr \<Rightarrow> filesystem" where
  "fs_unlink fs p = fs\<lparr>fs_files := (fs_files fs)(p := None)\<rparr>"

definition os_replace :: "filesystem \<Rightarrow> pystr \<Rightarrow> pystr \<Rightarrow> filesystem" where
  "os_replace fs src dst = fs\<lparr>fs_files := (fs_files fs)(src := None, dst := fs_files fs src)\<rparr>"

section \<open>The directories that lead to a destination\<close>

definition is_folder :: "filesystem \<Rightarrow> pystr \<Rightarrow> bool" where
  "is_folder fs p \<longleftrightarrow> fs_trees fs p \<noteq> None \<or> p \<in> fs_directories fs"

definition path_exists :: "filesystem \<Rightarrow> pystr \<Rightarrow> bool" where
  "path_exists fs p \<longleftrightarrow> fs_files fs p \<noteq> None \<or> is_folder fs p"

text \<open>The proper ancestors of a path, outermost first: its prefixes before each separator but a leading one.\<close>

definition leading_directories :: "pystr \<Rightarrow> pystr list" where
  "leading_directories p = map (\<lambda>i. take i p) (filter (\<lambda>i. p ! i = SLASH) [1..<length p])"

definition with_parents :: "filesystem \<Rightarrow> pystr \<Rightarrow> filesystem" where
  "with_parents fs destination = fs\<lparr>fs_directories := fs_directories fs
     \<union> set (filter (\<lambda>d. fs_trees fs d = None) (leading_directories destination))\<rparr>"

text \<open>
  \<^verbatim>\<open>destination.parent.mkdir(parents=True, exist_ok=True)\<close>: makes the ancestors that do not exist.
  A regular file in the place of the parent, or of a directory above it, makes it fail; then
  whatever lies above that file exists, and nothing has been made.
\<close>

definition make_parents :: "filesystem \<Rightarrow> pystr \<Rightarrow> filesystem result" where
  "make_parents fs destination =
     (case filter (\<lambda>d. fs_files fs d \<noteq> None) (leading_directories destination) of
        [] \<Rightarrow> Inr (with_parents fs destination)
      | d # _ \<Rightarrow> if d = last (leading_directories destination) then Inl (FileExistsError ''File exists'')
          else Inl (OSError ''Not a directory''))"

definition parents_free :: "filesystem \<Rightarrow> pystr \<Rightarrow> bool" where
  "parents_free fs p \<longleftrightarrow> (\<forall>d\<in>set (leading_directories p). fs_files fs d = None)"

text \<open>A path a file can be published at, and one where nothing is yet.\<close>

definition writable_path :: "filesystem \<Rightarrow> pystr \<Rightarrow> bool" where
  "writable_path fs p \<longleftrightarrow> \<not> is_folder fs p \<and> parents_free fs p"

definition fresh_path :: "filesystem \<Rightarrow> pystr \<Rightarrow> bool" where
  "fresh_path fs p \<longleftrightarrow> \<not> path_exists fs p \<and> parents_free fs p"

lemma fresh_pathD:
  assumes "fresh_path fs p"
  shows "\<not> path_exists fs p" "parents_free fs p" "writable_path fs p" "fs_files fs p = None" "fs_trees fs p = None"
    "\<not> is_folder fs p"
  using assms by (simp_all add: fresh_path_def writable_path_def path_exists_def is_folder_def)

lemma make_parents_free: "parents_free fs p \<Longrightarrow> make_parents fs p = Inr (with_parents fs p)"
  by (simp add: make_parents_def parents_free_def filter_False)

lemma make_parents_Inr: "make_parents fs p = Inr fs0 \<longleftrightarrow> parents_free fs p \<and> fs0 = with_parents fs p"
  by (auto simp: make_parents_def parents_free_def filter_empty_conv split: list.splits)

lemma with_parents_frame [simp]:
  "fs_files (with_parents fs p) = fs_files fs" "fs_trees (with_parents fs p) = fs_trees fs"
  "fs_resolve (with_parents fs p) = fs_resolve fs" "fs_stat (with_parents fs p) = fs_stat fs"
  "fs_read (with_parents fs p) = fs_read fs" "os_law (with_parents fs p) os = os_law fs os"
  by (simp_all add: with_parents_def fs_stat_def fs_read_def os_law_def fun_eq_iff)

lemma leading_shorter: "d \<in> set (leading_directories p) \<Longrightarrow> length d < length p"
  by (auto simp: leading_directories_def)

lemma with_parents_folder [simp]:
  "is_folder (with_parents fs p) p = is_folder fs p" "path_exists (with_parents fs p) p = path_exists fs p"
  by (auto simp: is_folder_def path_exists_def with_parents_def dest: leading_shorter)

text \<open>What a failing writer may leave behind: the directories on the way to its destination.\<close>

definition parents_at_most :: "filesystem \<Rightarrow> pystr \<Rightarrow> filesystem \<Rightarrow> bool" where
  "parents_at_most fs p fs' \<longleftrightarrow> fs' = fs \<or> fs' = with_parents fs p"

lemma parents_at_most_refl [simp]: "parents_at_most fs p fs" "parents_at_most fs p (with_parents fs p)"
  by (simp_all add: parents_at_most_def)

lemma parents_at_mostD:
  assumes "parents_at_most fs p fs'"
  shows "fs_files fs' = fs_files fs" "fs_trees fs' = fs_trees fs" "fs_resolve fs' = fs_resolve fs"
    "fs_directories fs \<subseteq> fs_directories fs'"
    "fs_directories fs' \<subseteq> fs_directories fs \<union> set (leading_directories p)"
  using assms by (auto simp: parents_at_most_def with_parents_def)

section \<open>Publication of a file\<close>

text \<open>
  \<open>publish_file fs os dst body check\<close>: create the temporary file, let \<open>body\<close> fill it, run the checks
  made immediately before publication, replace the destination (which fails if it is a folder); on
  an error of any of them unlink the temporary file. \<open>body\<close> gives the bytes written so far with its outcome.
  \<open>publish\<close> makes the directories that lead to the destination first; they stay when it fails.
\<close>

definition publish_file ::
  "filesystem \<Rightarrow> os_choice \<Rightarrow> pystr \<Rightarrow> bytes \<times> 'a result \<Rightarrow> ('a \<Rightarrow> unit result) \<Rightarrow> 'a result \<times> filesystem" where
  "publish_file fs os dst body check =
     (let fs1 = fs_write (fs_create fs os) (oc_temporary os) (fst body)
      in case bindR (snd body) (\<lambda>x. bindR (check x) (\<lambda>_.
                if is_folder fs dst then Inl (OSError ''Is a directory'') else Inr x)) of
           Inl e \<Rightarrow> (Inl e, fs_unlink fs1 (oc_temporary os))
         | Inr x \<Rightarrow> (Inr x, os_replace fs1 (oc_temporary os) dst))"

definition publish ::
  "filesystem \<Rightarrow> os_choice \<Rightarrow> pystr \<Rightarrow> bytes \<times> 'a result \<Rightarrow> ('a \<Rightarrow> unit result) \<Rightarrow> 'a result \<times> filesystem" where
  "publish fs os dst body check =
     (case make_parents fs dst of
        Inl e \<Rightarrow> (Inl e, fs)
      | Inr fs0 \<Rightarrow> publish_file fs0 os dst body check)"

lemma publish_file_error:
  assumes "os_law fs os" and "publish_file fs os dst body check = (Inl e, fs')"
  shows "fs' = fs"
proof -
  have "fs' = fs_unlink (fs_write (fs_create fs os) (oc_temporary os) (fst body)) (oc_temporary os)"
    using assms(2) by (auto simp: publish_file_def Let_def split: sum.splits)
  with assms(1) show ?thesis
    by (simp add: fs_unlink_def fs_write_def fs_create_def os_law_def fun_upd_idem)
qed

lemma publish_error:
  assumes "os_law fs os" and "publish fs os dst body check = (Inl e, fs')"
  shows "parents_at_most fs dst fs'"
  using assms publish_file_error[of "with_parents fs dst" os dst body check e fs']
  by (auto simp: publish_def make_parents_Inr split: sum.splits)

lemma publish_file_success:
  assumes "publish_file fs os dst body check = (Inr x, fs')" and "dst \<noteq> oc_temporary os"
  shows "snd body = Inr x \<and> check x = Inr ()
    \<and> fs_files fs' dst = Some \<lparr>fl_id = oc_identity os, fl_bytes = fst body, fl_meta = None\<rparr>
    \<and> (os_law fs os \<longrightarrow> fs' = fs\<lparr>fs_files := (fs_files fs)(dst \<mapsto> \<lparr>fl_id = oc_identity os, fl_bytes = fst body, fl_meta = None\<rparr>)\<rparr>)"
proof -
  from assms have b: "snd body = Inr x" "check x = Inr ()"
    and fs': "fs' = os_replace (fs_write (fs_create fs os) (oc_temporary os) (fst body)) (oc_temporary os) dst"
    by (auto simp: publish_file_def Let_def result_simps split: sum.splits if_splits)
  from assms(2) b show ?thesis
    by (auto simp: fs' os_replace_def fs_write_def fs_create_def os_law_def fun_upd_idem fun_eq_iff
        intro!: arg_cong[where f = "\<lambda>x. fs\<lparr>fs_files := x\<rparr>"])
qed

lemma publish_success:
  assumes "publish fs os dst body check = (Inr x, fs')" and "dst \<noteq> oc_temporary os"
  shows "snd body = Inr x \<and> check x = Inr ()
    \<and> fs_files fs' dst = Some \<lparr>fl_id = oc_identity os, fl_bytes = fst body, fl_meta = None\<rparr>
    \<and> (os_law fs os \<longrightarrow> fs_files fs' = (fs_files fs)(dst \<mapsto> \<lparr>fl_id = oc_identity os, fl_bytes = fst body, fl_meta = None\<rparr>))"
proof -
  from assms(1) have "publish_file (with_parents fs dst) os dst body check = (Inr x, fs')"
    by (auto simp: publish_def make_parents_Inr split: sum.splits)
  from publish_file_success[OF this assms(2)] show ?thesis by auto
qed

lemma publish_run:
  "snd body = Inr x \<Longrightarrow> check x = Inr () \<Longrightarrow> writable_path fs dst \<Longrightarrow> fst (publish fs os dst body check) = Inr x"
  by (simp add: publish_def publish_file_def writable_path_def make_parents_free)

lemma publish_value:
  "publish fs os dst (b, Inr y) check = (Inr x, fs') \<Longrightarrow>
   x = y \<and> publish fs os dst (b, Inr x) check = (Inr x, fs')"
  by (auto simp: publish_def publish_file_def Let_def result_simps split: sum.splits if_splits)

text \<open>The whole file system after a publication.\<close>

abbreviation published :: "filesystem \<Rightarrow> pystr \<Rightarrow> regular_file \<Rightarrow> filesystem" where
  "published fs dst f \<equiv> (with_parents fs dst)\<lparr>fs_files := (fs_files fs)(dst \<mapsto> f)\<rparr>"

lemma publish_published:
  assumes "publish fs os dst body check = (Inr x, fs')" and "dst \<noteq> oc_temporary os" and "os_law fs os"
  shows "fs' = published fs dst \<lparr>fl_id = oc_identity os, fl_bytes = fst body, fl_meta = None\<rparr>"
proof -
  from assms(1) have "publish_file (with_parents fs dst) os dst body check = (Inr x, fs')"
    by (auto simp: publish_def make_parents_Inr split: sum.splits)
  from publish_file_success[OF this assms(2)] assms(3) show ?thesis by simp
qed

lemma publish_frame:
  "publish fs os dst body check = (r, fs') \<Longrightarrow> fs_resolve fs' = fs_resolve fs \<and> fs_trees fs' = fs_trees fs"
  by (auto simp: publish_def publish_file_def Let_def fs_unlink_def fs_write_def fs_create_def os_replace_def
      make_parents_Inr split: sum.splits)

section \<open>What an encoder sees of its source\<close>

text \<open>
  The observations of one \<^verbatim>\<open>SourceSession\<close>: its name, whether its root is a regular file, the
  discovered entries in the session's order, the bytes that a later \<^verbatim>\<open>open_file\<close> of an entry
  yields (the first argument counts the encoder's passes over the source), and the outcome of
  \<^verbatim>\<open>verify_bindings\<close>.
\<close>

text \<open>The \<^verbatim>\<open>stat\<close> module on a mode word: its file type and its permission bits.\<close>

definition S_IFMT :: "nat \<Rightarrow> nat" where
  "S_IFMT st_mode = (st_mode div 4096) mod 16 * 4096"

definition S_IMODE :: "nat \<Rightarrow> nat" where
  "S_IMODE st_mode = st_mode mod 4096"

definition S_ISDIR :: "nat \<Rightarrow> bool" where
  "S_ISDIR st_mode \<longleftrightarrow> S_IFMT st_mode = 16384"

definition S_ISREG :: "nat \<Rightarrow> bool" where
  "S_ISREG st_mode \<longleftrightarrow> S_IFMT st_mode = 32768"

definition S_ISLNK :: "nat \<Rightarrow> bool" where
  "S_ISLNK st_mode \<longleftrightarrow> S_IFMT st_mode = 40960"

record source_entry =
  se_relative_path :: pystr
  se_is_directory :: bool
  se_st_mode :: nat
  se_size :: nat
  se_mtime_ns :: int

record source_view =
  sv_name :: pystr
  sv_root_is_file :: bool
  sv_entries :: "source_entry list"
  sv_read :: "nat \<Rightarrow> pystr \<Rightarrow> bytes result"
  sv_verify :: "unit result"

text \<open>
  \<^verbatim>\<open>open_file\<close> and \<^verbatim>\<open>path_for\<close> look the entry up under the path it was discovered with and raise
  \<^verbatim>\<open>KeyError\<close> for any other string.
\<close>

definition session_paths :: "source_view \<Rightarrow> pystr set" where
  "session_paths view = insert [] (set (map se_relative_path (sv_entries view)))"

definition session_open :: "source_view \<Rightarrow> nat \<Rightarrow> pystr \<Rightarrow> bytes result" where
  "session_open view pass relative =
     (if relative \<notin> session_paths view then Inl (KeyError ''source entry was not discovered'')
      else sv_read view pass relative)"

lemma session_open_root [simp]: "session_open view pass [] = sv_read view pass []"
  by (simp add: session_open_def session_paths_def)

section \<open>An instance for witnesses\<close>

definition example_fs :: filesystem where
  "example_fs = \<lparr>fs_files = (\<lambda>_. None), fs_trees = (\<lambda>_. None), fs_directories = {}, fs_resolve = (\<lambda>p. p)\<rparr>"

definition example_os :: os_choice where
  "example_os = \<lparr>oc_temporary = lit ''.tmp'', oc_identity = \<lparr>st_dev = 1, st_ino = 1\<rparr>,
                 oc_random = (\<lambda>_. example_random)\<rparr>"

definition example_os' :: os_choice where
  "example_os' = \<lparr>oc_temporary = lit ''.tmp'', oc_identity = \<lparr>st_dev = 1, st_ino = 2\<rparr>,
                  oc_random = (\<lambda>_. example_random)\<rparr>"

definition example_view :: "pystr \<Rightarrow> bytes \<Rightarrow> source_view" where
  "example_view name data =
     \<lparr>sv_name = name, sv_root_is_file = True,
      sv_entries = [\<lparr>se_relative_path = [], se_is_directory = False, se_st_mode = 33188,
                     se_size = length data, se_mtime_ns = 0\<rparr>],
      sv_read = (\<lambda>_ _. Inr data), sv_verify = Inr ()\<rparr>"

lemma example_os_law: "os_law example_fs example_os"
  by (simp add: os_law_def example_fs_def example_os_def example_random_law)

lemma no_parents [simp]: "SLASH \<notin> set p \<Longrightarrow> leading_directories p = []"
  by (auto simp: leading_directories_def filter_empty_conv) (metis nth_mem)

lemma example_slashless [simp]:
  "SLASH \<notin> set (lit ''arc'')" "SLASH \<notin> set (lit ''out'')" "SLASH \<notin> set (lit ''in'')" "SLASH \<notin> set (lit ''src'')"
  by (simp_all add: lit_def)

lemma example_fs_simps:
  "SLASH \<notin> set p \<Longrightarrow> writable_path example_fs p" "SLASH \<notin> set p \<Longrightarrow> fresh_path example_fs p"
  "SLASH \<notin> set p \<Longrightarrow> SLASH \<notin> set q \<Longrightarrow> writable_path (published example_fs q f) p"
  "SLASH \<notin> set p \<Longrightarrow> SLASH \<notin> set q \<Longrightarrow> p \<noteq> q \<Longrightarrow> fresh_path (published example_fs q f) p"
  "fs_resolve (published example_fs q f) = (\<lambda>p. p)" "fs_resolve example_fs = (\<lambda>p. p)"
  by (simp_all add: writable_path_def fresh_path_def path_exists_def parents_free_def is_folder_def example_fs_def
      with_parents_def)

lemma published_example:
  "fresh_path (published example_fs (lit ''arc'') f) (lit ''out'')" "os_law (published example_fs (lit ''arc'') f) example_os'"
  by (simp_all add: example_fs_simps(4) lit_def os_law_def example_os'_def example_random_law)
    (simp add: example_fs_def)+

end
