(* ===== verification/Archive1.thy ===== *)
theory Archive1
  imports Formats Modes Files
begin

text \<open>
  \<^verbatim>\<open>archive.py\<close>: MSC1, one file in one sealed payload. \<open>build_inner_stream\<close> and \<open>parse_inner\<close> are
  the inner stream, \<open>encode_bytes\<close> and \<open>open_archive\<close> the padding and encryption around it, and
  \<open>encode_file\<close>, \<open>decode_file\<close>, \<open>inspect_archive\<close> the handlers with their checks and file
  effects. Elapsed times are left out of the statistics.
\<close>

section \<open>Data\<close>

abbreviation INNER_PREFIX where "INNER_PREFIX \<equiv> [FBytes 4, FUInt 8, FUInt 2]"
abbreviation INNER_MAGIC where "INNER_MAGIC \<equiv> ([77, 83, 67, 80] :: bytes)"
abbreviation BLOCK_COUNT where "BLOCK_COUNT \<equiv> [FUInt 4]"
abbreviation BLOCK_HEADER where "BLOCK_HEADER \<equiv> [FUInt 1, FUInt 4, FUInt 4]"

record EncodedRecord =
  er_mode_id :: nat
  er_original_size :: nat
  er_payload :: bytes

record DecodedArchive =
  da_file_name :: pystr
  da_original_size :: nat
  da_expected_hash :: bytes
  da_records :: "EncodedRecord list"
  da_compressed_size :: nat
  da_padded_plaintext_size :: nat
  da_header :: PublicHeader
  da_archive_size :: nat
  da_archive_identity :: stat_result

record EncodeStats =
  es_original_size :: nat
  es_compressed_size :: nat
  es_padded_plaintext_size :: nat
  es_archive_size :: nat
  es_block_count :: nat
  es_mode_distribution :: "(string \<times> nat) list"
  es_padding_overhead :: int
  es_duplicate_blocks :: nat
  es_average_features :: "(string \<times> rat) list"

record DecodeStats =
  ds_original_size :: nat
  ds_block_count :: nat
  ds_mode_distribution :: "(string \<times> nat) list"
  ds_hash_verified :: bool

record ArchiveInfo =
  ai_version :: nat
  ai_file_name :: pystr
  ai_original_size :: nat
  ai_compressed_size :: nat
  ai_padded_plaintext_size :: nat
  ai_archive_size :: nat
  ai_padding_overhead :: int
  ai_chunk_size :: nat
  ai_block_count :: nat
  ai_mode_distribution :: "(string \<times> nat) list"
  ai_metadata_encrypted :: bool
  ai_hash_verified :: bool

section \<open>Encoding\<close>

definition validate_encode_options :: "int \<Rightarrow> int \<Rightarrow> int \<Rightarrow> int \<Rightarrow> int \<Rightarrow> unit result" where
  "validate_encode_options chunk_size padding_size kdf_log_n kdf_r kdf_p =
     (if \<not> (1 \<le> chunk_size \<and> chunk_size \<le> 16 * 1024 * 1024)
      then Inl (ValueError ''chunk size must be between 1 byte and 16 MiB'')
      else if \<not> (256 \<le> padding_size \<and> padding_size \<le> 16 * 1024 * 1024)
      then Inl (ValueError ''padding size must be between 256 bytes and 16 MiB'')
      else if \<not> (14 \<le> kdf_log_n \<and> kdf_log_n \<le> 18)
      then Inl (ValueError ''scrypt log2(N) must be between 14 and 18'')
      else if kdf_r \<noteq> 8 \<or> kdf_p \<noteq> 1
      then Inl (ValueError ''MSC1 supports only scrypt r=8 and p=1'')
      else Inr ())"

text \<open>\<^verbatim>\<open>dict(sorted(distribution.items()))\<close> for a counter of mode names.\<close>

definition mode_distribution :: "ModeId list \<Rightarrow> (string \<times> nat) list" where
  "mode_distribution used =
     map (\<lambda>m. (mode_name m, count_list used m))
       (filter (\<lambda>m. m \<in> set used) [BYTE_RANS, DEFLATE, DELTA8, LZ_RANS, LZ_SIMPLE, RAW, RLE])"

definition feature_columns :: "(string \<times> (BlockFeatures \<Rightarrow> rat)) list" where
  "feature_columns =
     [(''entropy_bits_per_byte'', entropy_bits_per_byte),
      (''byte_repetition_ratio'', byte_repetition_ratio),
      (''substring_repetition_ratio'', substring_repetition_ratio),
      (''delta_smoothness_ratio'', delta_smoothness_ratio),
      (''ascii_ratio'', ascii_ratio), (''zero_ratio'', zero_ratio),
      (''small_symbol_ratio'', small_symbol_ratio)]"

definition average_features :: "BlockFeatures list \<Rightarrow> (string \<times> rat) list" where
  "average_features features =
     (if features = []
      then map (\<lambda>(n, _). (n, 0)) feature_columns @ [(''random_looking_ratio'', 0)]
      else map (\<lambda>(n, f). (n, sum_list (map f features) / of_nat (length features))) feature_columns
        @ [(''random_looking_ratio'',
            of_nat (length (filter random_looking features)) / of_nat (length features))])"

text \<open>Blocks whose hash occurred before: \<^verbatim>\<open>duplicate_blocks\<close> over the set \<^verbatim>\<open>seen_hashes\<close>.\<close>

fun count_duplicates :: "crypto \<Rightarrow> bytes list \<Rightarrow> bytes set \<Rightarrow> nat" where
  "count_duplicates c [] seen = 0"
| "count_duplicates c (b # bs) seen =
     (if sha256 c b \<in> seen then 1 else 0) + count_duplicates c bs (insert (sha256 c b) seen)"

definition encode_block :: "clib \<Rightarrow> bytes \<Rightarrow> EncodedRecord result" where
  "encode_block l block =
     bindR (choose_best_mode l block) (\<lambda>selected.
       Inr \<lparr>er_mode_id = mode_code (eb_mode selected), er_original_size = length block,
            er_payload = eb_payload selected\<rparr>)"

fun pack_records :: "EncodedRecord list \<Rightarrow> bytes result" where
  "pack_records [] = Inr []"
| "pack_records (r # rs) =
     bindR (struct_pack BLOCK_HEADER
              [VU (er_mode_id r), VU (er_original_size r), VU (length (er_payload r))]) (\<lambda>h.
     bindR (pack_records rs) (\<lambda>out. Inr (h @ er_payload r @ out)))"

text \<open>The inner stream of the bytes \<open>data\<close> read from the source, and the records it holds.\<close>

definition build_inner_stream ::
  "crypto \<Rightarrow> clib \<Rightarrow> pystr \<Rightarrow> bytes \<Rightarrow> nat \<Rightarrow> (bytes \<times> EncodedRecord list) result" where
  "build_inner_stream c l name data chunk_size =
     bindR (mapR (encode_block l) (read_blocks chunk_size data)) (\<lambda>records.
       if length records > MAX_BLOCK_COUNT
       then Inl (ValueError ''input produces too many blocks for MSC1'')
       else bindR (utf8_encode name) (\<lambda>name_bytes.
         if length name_bytes > 65535
         then Inl (ValueError ''input filename is too long for MSC1'')
         else bindR (struct_pack INNER_PREFIX [VB INNER_MAGIC, VU (length data), VU (length name_bytes)])
           (\<lambda>prefix. bindR (struct_pack BLOCK_COUNT [VU (length records)]) (\<lambda>count.
            bindR (pack_records records) (\<lambda>body.
              Inr (prefix @ name_bytes @ sha256 c data @ count @ body, records))))))"

text \<open>Padding, header and encryption: the bytes of the archive.\<close>

definition seal_inner ::
  "crypto \<Rightarrow> (nat \<Rightarrow> nat \<Rightarrow> bytes) \<Rightarrow> password \<Rightarrow> bytes \<Rightarrow> nat \<Rightarrow> nat \<Rightarrow> nat \<Rightarrow> nat \<Rightarrow> nat
     \<Rightarrow> (bytes \<times> nat) result" where
  "seal_inner c rnd password inner chunk_size padding_size kdf_log_n kdf_r kdf_p =
     bindR (pad_payload (rnd 0) inner padding_size) (\<lambda>padded.
       let salt = rnd 1 SALT_LENGTH;
           nonce = rnd 2 NONCE_LENGTH;
           header = \<lparr>ph_version = 1, ph_flags = FLAG_PADDED, ph_kdf_id = KDF_SCRYPT,
             ph_aead_id = AEAD_CHACHA20_POLY1305, ph_chunk_size = chunk_size,
             ph_padding_size = padding_size, ph_salt = salt, ph_nonce = nonce,
             ph_kdf_log_n = kdf_log_n, ph_kdf_r = kdf_r, ph_kdf_p = kdf_p,
             ph_ciphertext_length = length padded + AEAD_TAG_LENGTH\<rparr>
       in bindR (pack_public_header header) (\<lambda>associated_data.
          bindR (derive_key c password salt kdf_log_n kdf_r kdf_p) (\<lambda>key.
            Inr (associated_data @ encrypt c key nonce padded associated_data, length padded))))"

definition encode_stats ::
  "crypto \<Rightarrow> clib \<Rightarrow> nat \<Rightarrow> bytes \<Rightarrow> bytes \<Rightarrow> EncodedRecord list \<Rightarrow> bytes \<Rightarrow> nat \<Rightarrow> EncodeStats" where
  "encode_stats c l chunk_size data inner records archive padded_size =
     (let blocks = read_blocks chunk_size data in
      \<lparr>es_original_size = length data, es_compressed_size = length inner,
       es_padded_plaintext_size = padded_size, es_archive_size = length archive,
       es_block_count = length records,
       es_mode_distribution = mode_distribution
         (concat (map (\<lambda>r. filter (\<lambda>m. mode_code m = er_mode_id r) ALL_MODES) records)),
       es_padding_overhead = int padded_size - 8 - int (length inner),
       es_duplicate_blocks = count_duplicates c blocks {},
       es_average_features = average_features (map (analyze_block (cl_log2 l)) blocks)\<rparr>)"

text \<open>
  \<^verbatim>\<open>encode_file\<close> up to the finished archive bytes, and with the publication: \<open>is_file\<close> is
  \<^verbatim>\<open>source.is_file()\<close>, \<open>session\<close> the outcome of \<^verbatim>\<open>SourceSession(source)\<close>.
\<close>

definition prepare_archive ::
  "crypto \<Rightarrow> clib \<Rightarrow> os_choice \<Rightarrow> filesystem \<Rightarrow> pystr \<Rightarrow> bool \<Rightarrow> source_view result \<Rightarrow> pystr \<Rightarrow> password
     \<Rightarrow> int \<Rightarrow> int \<Rightarrow> int \<Rightarrow> int \<Rightarrow> int \<Rightarrow> (source_view \<times> bytes \<times> EncodeStats) result" where
  "prepare_archive c l os fs source is_file session destination password
      chunk_size padding_size kdf_log_n kdf_r kdf_p =
     (if \<not> is_file then Inl (FileNotFoundError ''input file does not exist'')
      else if fs_resolve fs source = fs_resolve fs destination
      then Inl (ValueError ''input and output paths must be different'')
      else bindR session (\<lambda>view.
        if \<not> sv_root_is_file view then Inl (FileNotFoundError ''input file does not exist'')
        else bindR (normalize_password password) (\<lambda>_.
          bindR (validate_encode_options chunk_size padding_size kdf_log_n kdf_r kdf_p) (\<lambda>_.
          bindR (session_open view 0 []) (\<lambda>data.
          bindR (build_inner_stream c l (sv_name view) data (nat chunk_size)) (\<lambda>(inner, records).
          bindR (seal_inner c (oc_random os) password inner (nat chunk_size) (nat padding_size)
                   (nat kdf_log_n) (nat kdf_r) (nat kdf_p)) (\<lambda>(archive, padded_size).
            Inr (view, archive,
                 encode_stats c l (nat chunk_size) data inner records archive padded_size))))))))"

definition encode_file ::
  "crypto \<Rightarrow> clib \<Rightarrow> os_choice \<Rightarrow> filesystem \<Rightarrow> pystr \<Rightarrow> bool \<Rightarrow> source_view result \<Rightarrow> pystr \<Rightarrow> password
     \<Rightarrow> int \<Rightarrow> int \<Rightarrow> int \<Rightarrow> int \<Rightarrow> int \<Rightarrow> EncodeStats result \<times> filesystem" where
  "encode_file c l os fs source is_file session destination password
      chunk_size padding_size kdf_log_n kdf_r kdf_p =
     (case prepare_archive c l os fs source is_file session destination password
             chunk_size padding_size kdf_log_n kdf_r kdf_p of
        Inl e \<Rightarrow> (Inl e, fs)
      | Inr (view, archive, stats) \<Rightarrow>
          publish fs os destination (archive, Inr stats) (\<lambda>_. sv_verify view))"

section \<open>Decoding\<close>

definition read_inner :: "bytes \<Rightarrow> nat \<Rightarrow> (bytes \<times> bytes) result" where
  "read_inner = read_exact ''encrypted metadata is truncated''"

fun parse_records :: "nat \<Rightarrow> nat \<Rightarrow> bytes \<Rightarrow> (EncodedRecord list \<times> bytes) result" where
  "parse_records chunk_size 0 stream = Inr ([], stream)"
| "parse_records chunk_size (Suc n) stream =
     bindR (read_inner stream (struct_size BLOCK_HEADER)) (\<lambda>(h, stream).
     bindR (struct_unpack BLOCK_HEADER h) (\<lambda>vs.
       let mode_id = uval (vs ! 0); block_size = uval (vs ! 1); payload_size = uval (vs ! 2)
       in bindR (get_mode mode_id) (\<lambda>_.
          if block_size = 0 \<or> block_size > chunk_size
          then Inl (ArchiveFormatError ''block has an invalid original size'')
          else bindR (read_inner stream payload_size) (\<lambda>(payload, stream).
            bindR (parse_records chunk_size n stream) (\<lambda>(records, stream).
              Inr (\<lparr>er_mode_id = mode_id, er_original_size = block_size, er_payload = payload\<rparr> # records,
                   stream))))))"

definition parse_inner ::
  "bytes \<Rightarrow> PublicHeader \<Rightarrow> nat \<Rightarrow> nat \<Rightarrow> int \<Rightarrow> int \<Rightarrow> stat_result \<Rightarrow> DecodedArchive result" where
  "parse_inner inner header archive_size padded_plaintext_size max_output_size max_frame_count identity =
     bindR (read_inner inner (struct_size INNER_PREFIX)) (\<lambda>(prefix, stream).
     bindR (struct_unpack INNER_PREFIX prefix) (\<lambda>vs.
       let original_size = uval (vs ! 1); name_length = uval (vs ! 2)
       in if bval (vs ! 0) \<noteq> INNER_MAGIC
          then Inl (ArchiveFormatError ''encrypted payload has invalid inner magic'')
          else if int original_size > max_output_size
          then Inl (ArchiveFormatError ''MSC1 restored size exceeds the decode limit'')
          else bindR (read_inner stream name_length) (\<lambda>(name_bytes, stream).
            bindR (reraise (ArchiveFormatError ''encrypted filename is not valid UTF-8'')
                     (utf8_decode name_bytes)) (\<lambda>file_name.
            if file_name = [] \<or> posix_name file_name \<noteq> file_name
            then Inl (ArchiveFormatError ''encrypted filename is unsafe'')
            else bindR (read_inner stream 32) (\<lambda>(expected_hash, stream).
              bindR (read_inner stream (struct_size BLOCK_COUNT)) (\<lambda>(c, stream).
              bindR (struct_unpack BLOCK_COUNT c) (\<lambda>cs.
                let block_count = uval (cs ! 0)
                in if block_count > MAX_BLOCK_COUNT \<or> int block_count > max_frame_count
                   then Inl (ArchiveFormatError ''archive declares too many blocks'')
                   else bindR (parse_records (ph_chunk_size header) block_count stream) (\<lambda>(records, stream).
                     if stream \<noteq> []
                     then Inl (ArchiveFormatError ''encrypted payload contains trailing manifest data'')
                     else if sum_list (map er_original_size records) \<noteq> original_size
                     then Inl (ArchiveFormatError ''block sizes do not add up to the original file size'')
                     else if original_size = 0 \<and> block_count \<noteq> 0
                     then Inl (ArchiveFormatError ''empty archive unexpectedly contains blocks'')
                     else Inr \<lparr>da_file_name = file_name, da_original_size = original_size,
                       da_expected_hash = expected_hash, da_records = records,
                       da_compressed_size = length inner,
                       da_padded_plaintext_size = padded_plaintext_size, da_header = header,
                       da_archive_size = archive_size, da_archive_identity = identity\<rparr>))))))))"

text \<open>Header, size check, decryption and padding check of the archive's bytes.\<close>

definition open_bytes ::
  "crypto \<Rightarrow> bytes \<Rightarrow> stat_result \<Rightarrow> password \<Rightarrow> int \<Rightarrow> int \<Rightarrow> int \<Rightarrow> DecodedArchive result" where
  "open_bytes c archive identity password max_output_size max_frame_count max_archive_size =
     (let archive_size = length archive
      in if int archive_size > max_archive_size
         then Inl (ArchiveFormatError ''MSC1 archive exceeds the legacy decode limit'')
         else let (associated_data, stream) = stream_read (struct_size PUBLIC_HEADER) archive
         in bindR (parse_public_header associated_data) (\<lambda>header.
           if archive_size \<noteq> struct_size PUBLIC_HEADER + ph_ciphertext_length header
           then Inl (ArchiveFormatError ''archive size does not match its public header'')
           else let ciphertext = fst (stream_read (ph_ciphertext_length header) stream)
           in bindR (derive_key c password (ph_salt header) (ph_kdf_log_n header) (ph_kdf_r header)
                       (ph_kdf_p header)) (\<lambda>key.
             bindR (decrypt c key (ph_nonce header) ciphertext associated_data) (\<lambda>padded.
               if length padded mod ph_padding_size header \<noteq> 0
               then Inl (ArchiveFormatError ''decrypted payload violates its padding policy'')
               else bindR (unpad_payload padded) (\<lambda>inner.
                 parse_inner inner header archive_size (length padded) max_output_size
                   max_frame_count identity)))))"

definition open_archive ::
  "crypto \<Rightarrow> filesystem \<Rightarrow> pystr \<Rightarrow> password \<Rightarrow> int \<Rightarrow> int \<Rightarrow> int \<Rightarrow> pystr option \<Rightarrow> DecodedArchive result" where
  "open_archive c fs archive_path password max_output_size max_frame_count max_archive_size destination =
     bindR (validate_decode_limits max_output_size max_frame_count max_archive_size) (\<lambda>_.
     bindR (normalize_password password) (\<lambda>_.
       case fs_files fs archive_path of
         None \<Rightarrow> Inl (FileNotFoundError ''No such file or directory'')
       | Some archive \<Rightarrow>
           if (case destination of None \<Rightarrow> False
               | Some d \<Rightarrow> path_matches_file_identity (fs_stat fs d) (fl_id archive))
           then Inl (ValueError ''archive and output paths must be different'')
           else open_bytes c (fl_bytes archive) (fl_id archive) password max_output_size
                  max_frame_count max_archive_size))"

text \<open>The bytes written to the sink until the loop ended or an error stopped it.\<close>

fun decode_records :: "clib \<Rightarrow> EncodedRecord list \<Rightarrow> bytes \<Rightarrow> ModeId list \<Rightarrow> bytes \<times> ModeId list result" where
  "decode_records l [] sink used = (sink, Inr used)"
| "decode_records l (r # rs) sink used =
     (case bindR (get_mode (er_mode_id r)) (\<lambda>mode.
             bindR (mode_decode l mode (er_payload r) (er_original_size r)) (\<lambda>block. Inr (mode, block))) of
        Inl e \<Rightarrow> (sink, Inl e)
      | Inr (mode, block) \<Rightarrow> decode_records l rs (sink @ block) (used @ [mode]))"

definition decode_file ::
  "crypto \<Rightarrow> clib \<Rightarrow> os_choice \<Rightarrow> filesystem \<Rightarrow> pystr \<Rightarrow> pystr \<Rightarrow> password \<Rightarrow> int \<Rightarrow> int \<Rightarrow> int
     \<Rightarrow> DecodeStats result \<times> filesystem" where
  "decode_file c l os fs archive destination password max_output_size max_frame_count max_archive_size =
     (if fs_resolve fs archive = fs_resolve fs destination
      then (Inl (ValueError ''archive and output paths must be different''), fs)
      else case open_archive c fs archive password max_output_size max_frame_count max_archive_size
                  (Some destination) of
        Inl e \<Rightarrow> (Inl e, fs)
      | Inr decoded \<Rightarrow>
          let (written, outcome) = decode_records l (da_records decoded) [] []
          in publish fs os destination
               (written, bindR outcome (\<lambda>used.
                  if sha256 c written \<noteq> da_expected_hash decoded
                  then Inl (IntegrityError ''restored file failed SHA-256 verification'')
                  else Inr \<lparr>ds_original_size = da_original_size decoded,
                         ds_block_count = length (da_records decoded),
                         ds_mode_distribution = mode_distribution used, ds_hash_verified = True\<rparr>))
               (\<lambda>_. if path_matches_file_identity (fs_stat fs destination) (da_archive_identity decoded)
                    then Inl (ValueError ''archive and output paths must be different'')
                    else Inr ()))"

definition inspect_archive ::
  "crypto \<Rightarrow> clib \<Rightarrow> filesystem \<Rightarrow> pystr \<Rightarrow> password \<Rightarrow> int \<Rightarrow> int \<Rightarrow> int \<Rightarrow> ArchiveInfo result" where
  "inspect_archive c l fs archive password max_output_size max_frame_count max_archive_size =
     bindR (open_archive c fs archive password max_output_size max_frame_count max_archive_size None)
       (\<lambda>decoded.
         let (written, outcome) = decode_records l (da_records decoded) [] []
         in bindR outcome (\<lambda>used.
           if sha256 c written \<noteq> da_expected_hash decoded
           then Inl (IntegrityError ''archive failed SHA-256 verification'')
           else Inr \<lparr>ai_version = ph_version (da_header decoded), ai_file_name = da_file_name decoded,
             ai_original_size = da_original_size decoded, ai_compressed_size = da_compressed_size decoded,
             ai_padded_plaintext_size = da_padded_plaintext_size decoded,
             ai_archive_size = da_archive_size decoded,
             ai_padding_overhead = int (da_padded_plaintext_size decoded) - 8 - int (da_compressed_size decoded),
             ai_chunk_size = ph_chunk_size (da_header decoded),
             ai_block_count = length (da_records decoded),
             ai_mode_distribution = mode_distribution used, ai_metadata_encrypted = True,
             ai_hash_verified = True\<rparr>))"

section \<open>The inner stream\<close>

definition valid_record :: "nat \<Rightarrow> EncodedRecord \<Rightarrow> bool" where
  "valid_record chunk_size r \<longleftrightarrow>
     er_mode_id r < 7 \<and> 0 < er_original_size r \<and> er_original_size r \<le> chunk_size
     \<and> chunk_size < 2 ^ 32 \<and> length (er_payload r) < 2 ^ 32"

lemma get_mode_lt: "i < 7 \<Longrightarrow> \<exists>m. get_mode i = Inr m"
proof -
  assume "i < 7"
  then have "i \<in> {0, 1, 2, 3, 4, 5, 6}" by auto
  then have "\<exists>m. i = mode_code m"
    using mode_code.simps by (metis (full_types) empty_iff insert_iff)
  then show ?thesis by (metis get_mode_code)
qed

lemma block_header_pack:
  assumes "valid_record n r"
  obtains h where "struct_pack BLOCK_HEADER [VU (er_mode_id r), VU (er_original_size r), VU (length (er_payload r))] = Inr h"
    and "length h = 9"
    and "struct_unpack BLOCK_HEADER h = Inr [VU (er_mode_id r), VU (er_original_size r), VU (length (er_payload r))]"
proof -
  have e: "list_all2 field_exact BLOCK_HEADER [VU (er_mode_id r), VU (er_original_size r), VU (length (er_payload r))]"
    using assms by (auto simp: valid_record_def)
  from struct_pack_exact[OF e] that struct_unpack_pack[OF e] struct_pack_length show thesis
    by (force simp: struct_size_def)
qed

lemma pack_records_parse:
  assumes "\<forall>r\<in>set rs. valid_record n r"
  shows "\<exists>b. pack_records rs = Inr b \<and>
    (\<forall>rest. parse_records n (length rs) (b @ rest) = Inr (rs, rest))"
  using assms
proof (induction rs)
  case (Cons r rs)
  then obtain b where b: "pack_records rs = Inr b"
    "\<And>rest. parse_records n (length rs) (b @ rest) = Inr (rs, rest)" by auto
  from Cons.prems have v: "valid_record n r" by simp
  obtain h where h: "struct_pack BLOCK_HEADER [VU (er_mode_id r), VU (er_original_size r), VU (length (er_payload r))] = Inr h"
    "length h = 9"
    "struct_unpack BLOCK_HEADER h = Inr [VU (er_mode_id r), VU (er_original_size r), VU (length (er_payload r))]"
    using block_header_pack[OF v] by blast
  obtain m where "get_mode (er_mode_id r) = Inr m" using get_mode_lt v by (auto simp: valid_record_def)
  then show ?case using h b v
    by (auto simp: read_inner_def struct_size_def Let_def valid_record_def)
qed simp

lemma encode_block_Inr:
  "encode_block l b = Inr r \<longleftrightarrow> (\<exists>e. choose_best_mode l b = Inr e \<and>
     r = \<lparr>er_mode_id = mode_code (eb_mode e), er_original_size = length b, er_payload = eb_payload e\<rparr>)"
  by (auto simp: encode_block_def result_simps)

lemma encode_block_valid:
  assumes "encode_block l b = Inr r" and "b \<noteq> []" and "length b \<le> n" and "n < 2 ^ 32"
  shows "valid_record n r \<and> er_original_size r = length b"
proof -
  from assms(1) obtain e where e: "choose_best_mode l b = Inr e"
    and r: "r = \<lparr>er_mode_id = mode_code (eb_mode e), er_original_size = length b, er_payload = eb_payload e\<rparr>"
    by (auto simp: encode_block_def result_simps)
  have "length (eb_payload e) \<le> length b"
    using raw_candidate[of ALL_MODES l b e] e by (simp add: choose_best_mode_def ALL_MODES_def)
  with assms show ?thesis by (auto simp: valid_record_def r)
qed

text \<open>Decoding the records of encoded blocks appends the blocks to the sink.\<close>

lemma decode_encode_blocks:
  assumes "mapR (encode_block l) blocks = Inr rs" and "\<forall>b\<in>set blocks. block_ok l b"
  shows "\<exists>ms. length ms = length rs \<and> decode_records l rs sink used = (sink @ concat blocks, Inr (used @ ms))"
  using assms
proof (induction blocks arbitrary: rs sink used)
  case (Cons b bs)
  from Cons.prems obtain e rs' where e: "choose_best_mode l b = Inr e"
    and rs: "rs = \<lparr>er_mode_id = mode_code (eb_mode e), er_original_size = length b, er_payload = eb_payload e\<rparr> # rs'"
    and rs': "mapR (encode_block l) bs = Inr rs'"
    by (auto simp: encode_block_Inr bindR_eq_Inr)
  have "mode_decode l (eb_mode e) (eb_payload e) (length b) = Inr b"
    using choose_best_decodes(1)[OF e] Cons.prems by simp
  with Cons.IH[OF rs', of "sink @ b" "used @ [eb_mode e]"] Cons.prems obtain ms where
    "length ms = length rs'" "decode_records l rs sink used = (sink @ concat (b # bs), Inr (used @ eb_mode e # ms))"
    by (auto simp: rs)
  then show ?case by (intro exI[of _ "eb_mode e # ms"]) (simp add: rs)
qed simp

lemma encoded_sizes:
  "mapR (encode_block l) blocks = Inr rs \<Longrightarrow> map er_original_size rs = map length blocks"
  by (induction blocks arbitrary: rs) (auto simp: encode_block_def result_simps)

text \<open>A name that the decoder accepts back.\<close>

definition safe_name :: "pystr \<Rightarrow> bool" where
  "safe_name name \<longleftrightarrow> name \<noteq> [] \<and> posix_name name = name"

lemma build_inner_parse:
  assumes built: "build_inner_stream c l name data n = Inr (inner, records)"
    and n: "0 < n" "n < 2 ^ 32" and name: "safe_name name" and d: "digest_law c"
    and h: "ph_chunk_size header = n" and max: "int (length data) \<le> max_out" "int (length records) \<le> max_frames"
  shows "\<exists>da. parse_inner inner header sz psz max_out max_frames ident = Inr da
    \<and> da_records da = records \<and> da_expected_hash da = sha256 c data
    \<and> da_original_size da = length data \<and> da_file_name da = name \<and> da_header da = header
    \<and> da_archive_identity da = ident"
proof -
  from built obtain nb pre cnt body where
    recs: "mapR (encode_block l) (read_blocks n data) = Inr records"
    and few: "length records \<le> MAX_BLOCK_COUNT" and nb: "utf8_encode name = Inr nb" "length nb \<le> 65535"
    and pre: "struct_pack INNER_PREFIX [VB INNER_MAGIC, VU (length data), VU (length nb)] = Inr pre"
    and cnt: "struct_pack BLOCK_COUNT [VU (length records)] = Inr cnt"
    and body: "pack_records records = Inr body"
    and inner: "inner = pre @ nb @ sha256 c data @ cnt @ body"
    by (auto simp: build_inner_stream_def result_simps split: if_splits)
  have "length data < 256 ^ 8" using pre by (auto simp: struct_pack_def split: if_splits)
  then have unpre: "struct_unpack INNER_PREFIX pre = Inr [VB INNER_MAGIC, VU (length data), VU (length nb)]"
    using struct_unpack_pack[OF _ pre] nb by simp
  have uncnt: "struct_unpack BLOCK_COUNT cnt = Inr [VU (length records)]"
    using struct_unpack_pack[OF _ cnt] few by simp
  have len: "length pre = 14" "length cnt = 4" "length (sha256 c data) = 32"
    using struct_pack_length[OF pre] struct_pack_length[OF cnt] d by (simp_all add: struct_size_def digest_law_def)
  have "\<forall>r\<in>set records. valid_record n r"
  proof
    fix r assume "r \<in> set records"
    then obtain b where "b \<in> set (read_blocks n data)" "encode_block l b = Inr r"
      using mapR_image[OF recs] by blast
    then show "valid_record n r" using encode_block_valid read_blocks_size n(2) by blast
  qed
  then have parse: "parse_records n (length records) body = Inr (records, [])"
    using pack_records_parse[of records n] body by (metis Inr_inject append_Nil2)
  have sizes: "sum_list (map er_original_size records) = length data"
    using encoded_sizes[OF recs] read_blocks_total[OF n(1)] by simp
  have empty: "data = [] \<Longrightarrow> records = []" using recs by simp
  have dec: "utf8_decode nb = Inr name" by (rule utf8_decode_encode[OF nb(1)])
  show ?thesis
    using name max few unpre uncnt len parse sizes empty dec h
    by (auto simp: parse_inner_def inner read_inner_def struct_size_def Let_def safe_name_def)
qed

section \<open>Sealing and opening\<close>

lemma derive_key_ok:
  "length salt = SALT_LENGTH \<Longrightarrow> normalize_password password = Inr pw \<Longrightarrow>
   derive_key c password salt n r p = Inr (scrypt c pw salt (2 ^ n) r p)"
  by (simp add: derive_key_def)

text \<open>The part of \<open>open_bytes\<close> before the inner stream, on what \<open>seal_inner\<close> made.\<close>

lemma open_sealed:
  assumes seal: "seal_inner c rnd password inner chunk padding log_n 8 1 = Inr (archive, psz)"
    and rnd: "\<forall>k. random_law (rnd k)" and aead: "aead_law c"
    and chunk: "1 \<le> chunk" "chunk \<le> MAX_CHUNK_SIZE" and log: "14 \<le> log_n" "log_n \<le> 18"
    and size: "int (length archive) \<le> max_size"
  shows "\<exists>header. ph_chunk_size header = chunk \<and> (\<forall>max_out max_frames ident.
    open_bytes c archive ident password max_out max_frames max_size
      = parse_inner inner header (length archive) psz max_out max_frames ident)"
proof -
  let ?header = "\<lambda>padded. \<lparr>ph_version = 1, ph_flags = FLAG_PADDED, ph_kdf_id = KDF_SCRYPT,
     ph_aead_id = AEAD_CHACHA20_POLY1305, ph_chunk_size = chunk, ph_padding_size = padding,
     ph_salt = rnd 1 SALT_LENGTH, ph_nonce = rnd 2 NONCE_LENGTH, ph_kdf_log_n = log_n, ph_kdf_r = 8,
     ph_kdf_p = 1, ph_ciphertext_length = length padded + AEAD_TAG_LENGTH\<rparr>"
  from seal obtain padded ad key where padded: "pad_payload (rnd 0) inner padding = Inr padded"
    and ad: "pack_public_header (?header padded) = Inr ad"
    and key: "derive_key c password (rnd 1 SALT_LENGTH) log_n 8 1 = Inr key"
    and arch: "archive = ad @ encrypt c key (rnd 2 NONCE_LENGTH) padded ad" "psz = length padded"
    unfolding seal_inner_def Let_def by (auto simp: result_simps)
  note pd = pad_payload_InrD[OF padded]
  have rl: "length (rnd k m) = m" for k m using rnd by (simp add: random_law_def)
  have lt: "length padded + 16 < 2 ^ 64"
    using ad by (auto simp: pack_public_header_def public_header_values_def struct_pack_def split: if_splits)
  have valid: "valid_public_header (?header padded)"
    using pd chunk log rl lt by (simp add: valid_public_header_def validate_public_header_Inr)
  have parse: "parse_public_header ad = Inr (?header padded)"
    by (rule public_header.parse_pack[OF valid ad])
  have len: "length ad = struct_size PUBLIC_HEADER" by (rule public_header.pack_length[OF ad])
  let ?ct = "encrypt c key (rnd 2 NONCE_LENGTH) padded ad"
  have ct: "length ?ct = length padded + AEAD_TAG_LENGTH" using aead by simp
  have "length padded mod padding = 0"
    using length_pad_payload[OF padded] rnd by simp
  moreover have "unpad_payload padded = Inr inner" by (rule unpad_pad[OF padded])
  moreover have "decrypt c key (rnd 2 NONCE_LENGTH) ?ct ad = Inr padded" using aead by simp
  ultimately have "open_bytes c archive ident password max_out max_frames max_size
      = parse_inner inner (?header padded) (length archive) psz max_out max_frames ident"
    for max_out max_frames ident
    using size parse len ct key unfolding open_bytes_def Let_def arch stream_read_def by simp
  then show ?thesis by (intro exI[of _ "?header padded"]) simp
qed

section \<open>The handlers\<close>

lemma validate_encode_options_Inr:
  "validate_encode_options chunk padding log_n r p = Inr () \<longleftrightarrow>
     1 \<le> chunk \<and> chunk \<le> 16777216 \<and> 256 \<le> padding \<and> padding \<le> 16777216
     \<and> 14 \<le> log_n \<and> log_n \<le> 18 \<and> r = 8 \<and> p = 1"
  by (auto simp: validate_encode_options_def not_le split: if_splits)

lemma prepare_archive_Inr:
  assumes "prepare_archive c l os fs source is_file session dst password chunk padding log_n r p
    = Inr (view, archive, stats)"
  obtains data inner records psz where "session = Inr view"
    and "sv_read view 0 [] = Inr data" and "validate_encode_options chunk padding log_n r p = Inr ()"
    and "build_inner_stream c l (sv_name view) data (nat chunk) = Inr (inner, records)"
    and "seal_inner c (oc_random os) password inner (nat chunk) (nat padding) (nat log_n) 8 1 = Inr (archive, psz)"
    and "\<exists>pw. normalize_password password = Inr pw"
    and "es_block_count stats = length records" and "es_archive_size stats = length archive"
  using assms unfolding prepare_archive_def
  by (auto simp: bindR_eq_Inr validate_encode_options_Inr encode_stats_def Let_def split: if_splits prod.splits)

lemma encode_file_Inr:
  assumes "encode_file c l os fs source is_file session dst password chunk padding log_n r p = (Inr stats, fs')"
  obtains view archive where
    "prepare_archive c l os fs source is_file session dst password chunk padding log_n r p
      = Inr (view, archive, stats)"
    and "publish fs os dst (archive, Inr stats) (\<lambda>_. sv_verify view) = (Inr stats, fs')"
proof -
  from assms obtain view archive y where
    "prepare_archive c l os fs source is_file session dst password chunk padding log_n r p = Inr (view, archive, y)"
    and p: "publish fs os dst (archive, Inr y) (\<lambda>_. sv_verify view) = (Inr stats, fs')"
    unfolding encode_file_def by (auto split: sum.splits prod.splits)
  with publish_value[OF p] that show thesis by simp
qed

lemma decode_file_cases:
  assumes "decode_file c l os fs archive dst password mo mf ma = (out, fs')"
  shows "(\<exists>e. out = Inl e \<and> fs' = fs) \<or>
    (\<exists>da. open_archive c fs archive password mo mf ma (Some dst) = Inr da
      \<and> (out, fs') = publish fs os dst (fst (decode_records l (da_records da) [] []),
          bindR (snd (decode_records l (da_records da) [] [])) (\<lambda>used.
            if sha256 c (fst (decode_records l (da_records da) [] [])) \<noteq> da_expected_hash da
            then Inl (IntegrityError ''restored file failed SHA-256 verification'')
            else Inr \<lparr>ds_original_size = da_original_size da, ds_block_count = length (da_records da),
                   ds_mode_distribution = mode_distribution used, ds_hash_verified = True\<rparr>))
          (\<lambda>_. if path_matches_file_identity (fs_stat fs dst) (da_archive_identity da)
               then Inl (ValueError ''archive and output paths must be different'') else Inr ()))"
proof (cases "open_archive c fs archive password mo mf ma (Some dst)")
  case (Inl e)
  with assms show ?thesis by (simp add: decode_file_def split: if_splits) metis+
next
  case (Inr da)
  with assms show ?thesis
    by (cases "fs_resolve fs archive = fs_resolve fs dst")
      (simp_all add: decode_file_def Let_def case_prod_beta, metis)
qed

lemma decode_records_size:
  assumes "decode_records l rs sink used = (out, Inr ms)"
  shows "length out = length sink + sum_list (map er_original_size rs)"
  using assms
proof (induction l rs sink used rule: decode_records.induct)
  case (2 l r rs sink used)
  from 2(2) obtain mode block where m: "get_mode (er_mode_id r) = Inr mode"
    and b: "mode_decode l mode (er_payload r) (er_original_size r) = Inr block"
    and rest: "decode_records l rs (sink @ block) (used @ [mode]) = (out, Inr ms)"
    by (auto simp: result_simps split: sum.splits)
  have "length block = er_original_size r" by (rule table.dec_size[OF b])
  moreover have "length out = length (sink @ block) + sum_list (map er_original_size rs)"
    by (rule 2(1)[OF _ refl rest]) (simp add: m b)
  ultimately show ?case by simp
qed simp

lemma parse_inner_Inr:
  assumes "parse_inner inner header sz psz max_out max_frames ident = Inr da"
  shows "sum_list (map er_original_size (da_records da)) = da_original_size da
    \<and> int (da_original_size da) \<le> max_out \<and> safe_name (da_file_name da)
    \<and> da_archive_identity da = ident"
  using assms
  by (auto simp: parse_inner_def result_simps safe_name_def Let_def split: if_splits)

lemma open_archive_Inr:
  assumes "open_archive c fs archive password mo mf ma dst = Inr da"
  shows "sum_list (map er_original_size (da_records da)) = da_original_size da
    \<and> int (da_original_size da) \<le> mo"
  using assms
  by (auto simp: open_archive_def open_bytes_def result_simps Let_def
      split: option.splits if_splits prod.splits dest!: parse_inner_Inr)

text \<open>
  Whatever the archive holds, a failing restore changes no file and makes no directory but those
  that lead to its destination, and a successful one has
  written a file whose size was declared, is within the caller's limit, and whose hash is the
  authenticated one.
\<close>

lemma decode_file_atomic:
  assumes "os_law fs os" and "decode_file c l os fs archive dst password mo mf ma = (Inl e, fs')"
  shows "parents_at_most fs dst fs'"
  using decode_file_cases[OF assms(2)] publish_error[OF assms(1)] parents_at_most_refl(1) by metis

lemma decode_file_verified:
  assumes "decode_file c l os fs archive dst password mo mf ma = (Inr stats, fs')"
    and "dst \<noteq> oc_temporary os"
  shows "\<exists>da content. open_archive c fs archive password mo mf ma (Some dst) = Inr da
    \<and> fs_read fs' dst = Inr content \<and> sha256 c content = da_expected_hash da
    \<and> length content = da_original_size da \<and> int (length content) \<le> mo
    \<and> \<not> path_matches_file_identity (fs_stat fs dst) (da_archive_identity da)"
proof -
  from decode_file_cases[OF assms(1)] obtain da where o: "open_archive c fs archive password mo mf ma (Some dst) = Inr da"
    and p: "publish fs os dst (fst (decode_records l (da_records da) [] []),
          bindR (snd (decode_records l (da_records da) [] [])) (\<lambda>used.
            if sha256 c (fst (decode_records l (da_records da) [] [])) \<noteq> da_expected_hash da
            then Inl (IntegrityError ''restored file failed SHA-256 verification'')
            else Inr \<lparr>ds_original_size = da_original_size da, ds_block_count = length (da_records da),
                   ds_mode_distribution = mode_distribution used, ds_hash_verified = True\<rparr>))
          (\<lambda>_. if path_matches_file_identity (fs_stat fs dst) (da_archive_identity da)
               then Inl (ValueError ''archive and output paths must be different'') else Inr ())
        = (Inr stats, fs')" by auto
  obtain out ms where dr: "decode_records l (da_records da) [] [] = (out, ms)" by fastforce
  note s = publish_success[OF p assms(2)]
  from s obtain used where used: "ms = Inr used" and hash: "sha256 c out = da_expected_hash da"
    by (auto simp: dr result_simps split: if_splits)
  have "length out = da_original_size da"
    using decode_records_size[OF dr[unfolded used]] open_archive_Inr[OF o] by simp
  moreover have "fs_read fs' dst = Inr out" using s by (simp add: fs_read_def dr)
  moreover have "\<not> path_matches_file_identity (fs_stat fs dst) (da_archive_identity da)"
    using s by (auto split: if_splits)
  ultimately show ?thesis using o hash open_archive_Inr[OF o] by auto
qed

text \<open>The round trip through two files.\<close>

lemma msc1_restores:
  assumes enc: "encode_file c l os fs source is_file (Inr view) archive password chunk padding log_n r p
      = (Inr stats, fs1)"
    and laws: "aead_law c" "digest_law c" "os_law fs os" "os_law fs1 os'"
    and data: "sv_read view 0 [] = Inr data" "\<forall>b\<in>set (read_blocks (nat chunk) data). block_ok l b"
    and name: "safe_name (sv_name view)"
    and paths: "archive \<noteq> oc_temporary os" "restored \<noteq> oc_temporary os'"
      "fs_resolve fs1 archive \<noteq> fs_resolve fs1 restored"
      "\<not> path_matches_file_identity (fs_stat fs1 restored) (oc_identity os)"
      "writable_path fs1 restored"
    and limits: "int (length data) \<le> mo" "0 < mf" "int (es_block_count stats) \<le> mf"
      "int (es_archive_size stats) \<le> ma" "0 < ma"
  shows "\<exists>ds fs2. decode_file c l os' fs1 archive restored password mo mf ma = (Inr ds, fs2)
    \<and> fs2 = published fs1 restored \<lparr>fl_id = oc_identity os', fl_bytes = data, fl_meta = None\<rparr>"
proof -
  obtain v arch where prep: "prepare_archive c l os fs source is_file (Inr view) archive password chunk padding log_n r p
      = Inr (v, arch, stats)"
    and pub: "publish fs os archive (arch, Inr stats) (\<lambda>_. sv_verify v) = (Inr stats, fs1)"
    by (rule encode_file_Inr[OF enc])
  obtain data' inner records psz where v: "Inr view = (Inr v :: source_view result)" "sv_read v 0 [] = Inr data'"
    and opts: "validate_encode_options chunk padding log_n r p = Inr ()"
    and built': "build_inner_stream c l (sv_name v) data' (nat chunk) = Inr (inner, records)"
    and seal: "seal_inner c (oc_random os) password inner (nat chunk) (nat padding) (nat log_n) 8 1 = Inr (arch, psz)"
    and pw: "\<exists>pw. normalize_password password = Inr pw"
    and st: "es_block_count stats = length records" "es_archive_size stats = length arch"
    by (rule prepare_archive_Inr[OF prep])
  have built: "build_inner_stream c l (sv_name view) data (nat chunk) = Inr (inner, records)"
    using v data(1) built' by simp
  note o = opts[unfolded validate_encode_options_Inr]
  have stored: "fs_files fs1 archive = Some \<lparr>fl_id = oc_identity os, fl_bytes = arch, fl_meta = None\<rparr>"
    using publish_success[OF pub paths(1)] by simp
  from open_sealed[OF seal _ laws(1), of ma] o laws(3) limits(4) st obtain header where
    header: "ph_chunk_size header = nat chunk" and op: "\<And>ident. open_bytes c arch ident password mo mf ma
      = parse_inner inner header (length arch) psz mo mf ident"
    by (auto simp: os_law_def nat_le_iff le_nat_iff)
  have "0 < nat chunk" "nat chunk < 2 ^ 32" using o by auto
  from build_inner_parse[OF built this name laws(2) header, of mo mf] limits st obtain da where
    da: "parse_inner inner header (length arch) psz mo mf (oc_identity os) = Inr da"
      "da_records da = records" "da_expected_hash da = sha256 c data" "da_archive_identity da = oc_identity os"
    by metis
  have "validate_decode_limits mo mf ma = Inr ()" using limits by (simp add: validate_decode_limits_def)
  with pw stored op da paths(4) have open': "open_archive c fs1 archive password mo mf ma (Some restored) = Inr da"
    by (auto simp: open_archive_def)
  have recs: "mapR (encode_block l) (read_blocks (nat chunk) data) = Inr records"
    using built by (auto simp: build_inner_stream_def result_simps split: if_splits)
  from decode_encode_blocks[OF recs data(2), of "[]" "[]"] \<open>0 < nat chunk\<close> obtain ms where
    dr: "decode_records l records [] [] = (data, Inr ms)" by (auto simp: concat_read_blocks)
  let ?body = "(data, Inr \<lparr>ds_original_size = da_original_size da, ds_block_count = length records,
    ds_mode_distribution = mode_distribution ms, ds_hash_verified = True\<rparr>)"
  let ?check = "\<lambda>_ :: DecodeStats. if path_matches_file_identity (fs_stat fs1 restored) (oc_identity os)
    then Inl (ValueError ''archive and output paths must be different'') else Inr ()"
  have run: "decode_file c l os' fs1 archive restored password mo mf ma = publish fs1 os' restored ?body ?check"
    using paths(3) open' da dr by (simp add: decode_file_def Let_def)
  obtain fs2 where fs2: "publish fs1 os' restored ?body ?check = (Inr (projr (snd ?body)), fs2)"
    using publish_run[of ?body _ ?check fs1 restored os'] paths(4,5) by (metis prod.collapse sum.sel(2) snd_conv)
  from publish_published[OF fs2 paths(2) laws(4)] show ?thesis using run fs2 by simp
qed

section \<open>Encoding succeeds\<close>

lemma encode_blocks_total:
  assumes "\<forall>b\<in>set blocks. block_ok l b"
  shows "\<exists>rs. mapR (encode_block l) blocks = Inr rs"
proof (rule mapR_exists)
  fix b assume "b \<in> set blocks"
  then show "\<exists>r. encode_block l b = Inr r"
    using choose_best_total[of l b] assms by (auto simp: encode_block_def)
qed

lemma pack_records_length:
  assumes "pack_records rs = Inr b" and "\<forall>r\<in>set rs. length (er_payload r) \<le> n"
  shows "length b \<le> length rs * (9 + n)"
  using assms
proof (induction rs arbitrary: b)
  case (Cons r rs)
  then show ?case
    by (fastforce simp: bindR_eq_Inr struct_size_def dest: struct_pack_length)
qed simp

lemma encode_block_payload:
  "encode_block l b = Inr r \<Longrightarrow> length (er_payload r) \<le> length b"
  using raw_candidate[of ALL_MODES l b] by (auto simp: encode_block_Inr choose_best_mode_def ALL_MODES_def)

lemma build_inner_total:
  assumes ok: "\<forall>b\<in>set (read_blocks n data). block_ok l b"
    and n: "0 < n" "n \<le> MAX_CHUNK_SIZE" and nb: "utf8_encode name = Inr nb" "length nb \<le> 65535"
    and few: "length (read_blocks n data) \<le> MAX_BLOCK_COUNT" and d: "digest_law c"
  shows "\<exists>inner records. build_inner_stream c l name data n = Inr (inner, records)
    \<and> length inner \<le> 2 ^ 49 \<and> length records = length (read_blocks n data)"
proof -
  obtain rs where rs: "mapR (encode_block l) (read_blocks n data) = Inr rs"
    using encode_blocks_total[OF ok] by blast
  have len: "length rs = length (read_blocks n data)" by (rule mapR_length[OF rs])
  have block: "\<exists>b\<in>set (read_blocks n data). encode_block l b = Inr r \<and> b \<noteq> [] \<and> length b \<le> n" if "r \<in> set rs" for r
    using mapR_image[OF rs that] read_blocks_size by blast
  have "\<forall>r\<in>set rs. valid_record n r" using block encode_block_valid n by force
  then obtain body where body: "pack_records rs = Inr body" using pack_records_parse by blast
  have "\<forall>r\<in>set rs. length (er_payload r) \<le> MAX_CHUNK_SIZE"
    using block encode_block_payload n(2) by (meson order_trans)
  from pack_records_length[OF body this] have bl: "length body \<le> length rs * (9 + MAX_CHUNK_SIZE)" .
  have rl: "length rs * (9 + MAX_CHUNK_SIZE) \<le> MAX_BLOCK_COUNT * (9 + MAX_CHUNK_SIZE)"
    using few len by simp
  have "length data = sum_list (map length (read_blocks n data))" using read_blocks_total[OF n(1)] by simp
  also have "\<dots> \<le> length (read_blocks n data) * n"
    using sum_list_mono[of "read_blocks n data" length "\<lambda>_. n"] read_blocks_size
    by (simp add: sum_list_triv)
  also have "\<dots> \<le> MAX_BLOCK_COUNT * MAX_CHUNK_SIZE" by (rule mult_le_mono[OF few n(2)])
  finally have dl: "length data \<le> 2 ^ 48" by simp
  obtain pre where pre: "struct_pack INNER_PREFIX [VB INNER_MAGIC, VU (length data), VU (length nb)] = Inr pre"
    using dl nb by (simp add: struct_pack_def)
  obtain cnt where cnt: "struct_pack BLOCK_COUNT [VU (length rs)] = Inr cnt"
    using few len by (simp add: struct_pack_def)
  have "length pre = 14" "length cnt = 4" "length (sha256 c data) = 32"
    using struct_pack_length[OF pre] struct_pack_length[OF cnt] d by (simp_all add: struct_size_def digest_law_def)
  with bl rl nb rs len few pre cnt body show ?thesis by (simp add: build_inner_stream_def)
qed

lemma seal_inner_total:
  assumes "length inner \<le> 2 ^ 49" and "256 \<le> padding" "padding \<le> MAX_PADDING_SIZE"
    and chunk: "1 \<le> chunk" "chunk \<le> MAX_CHUNK_SIZE" and log: "14 \<le> log_n" "log_n \<le> 18"
    and rnd: "\<forall>k. random_law (rnd k)" and pw: "normalize_password password = Inr pw"
  shows "\<exists>archive psz. seal_inner c rnd password inner chunk padding log_n 8 1 = Inr (archive, psz)"
proof -
  obtain padded where padded: "pad_payload (rnd 0) inner padding = Inr padded"
    using pad_payload_Inr[of padding inner "rnd 0"] assms(1-3) by auto
  have "length padded = padded_length (8 + length inner) padding"
    using length_pad_payload[OF padded] rnd by blast
  also have "\<dots> < 8 + length inner + padding" using assms(2) by (intro padded_length_lt) auto
  finally have pl: "length padded < 2 ^ 50" using assms(1,3) by simp
  let ?h = "\<lparr>ph_version = 1, ph_flags = FLAG_PADDED, ph_kdf_id = KDF_SCRYPT,
     ph_aead_id = AEAD_CHACHA20_POLY1305, ph_chunk_size = chunk, ph_padding_size = padding,
     ph_salt = rnd 1 SALT_LENGTH, ph_nonce = rnd 2 NONCE_LENGTH, ph_kdf_log_n = log_n, ph_kdf_r = 8,
     ph_kdf_p = 1, ph_ciphertext_length = length padded + AEAD_TAG_LENGTH\<rparr>"
  have "valid_public_header ?h"
    using assms(2,3) chunk log rnd pl
    by (simp add: valid_public_header_def validate_public_header_Inr random_law_def)
  then obtain ad where "pack_public_header ?h = Inr ad" using public_header.pack_total by blast
  moreover have "length (rnd 1 SALT_LENGTH) = SALT_LENGTH" using rnd by (simp add: random_law_def)
  ultimately show ?thesis
    using padded derive_key_ok[OF _ pw] unfolding seal_inner_def Let_def by simp
qed

lemma prepare_archive_total:
  assumes "fs_resolve fs source \<noteq> fs_resolve fs dst" and "sv_root_is_file view"
    and pw: "normalize_password password = Inr pw"
    and opts: "validate_encode_options chunk padding log_n r p = Inr ()"
    and data: "sv_read view 0 [] = Inr data"
    and ok: "\<forall>b\<in>set (read_blocks (nat chunk) data). block_ok l b"
    and few: "length (read_blocks (nat chunk) data) \<le> MAX_BLOCK_COUNT"
    and nb: "utf8_encode (sv_name view) = Inr nb" "length nb \<le> 65535"
    and laws: "digest_law c" "os_law fs os"
  obtains archive stats where
    "prepare_archive c l os fs source True (Inr view) dst password chunk padding log_n r p = Inr (view, archive, stats)"
    and "es_block_count stats = length (read_blocks (nat chunk) data)"
proof -
  note o = opts[unfolded validate_encode_options_Inr]
  from build_inner_total[OF ok _ _ nb few laws(1)] o obtain inner records where
    inner: "build_inner_stream c l (sv_name view) data (nat chunk) = Inr (inner, records)"
      "length inner \<le> 2 ^ 49" "length records = length (read_blocks (nat chunk) data)"
    by (auto simp: nat_le_iff)
  from seal_inner_total[OF inner(2), of "nat padding" "nat chunk" "nat log_n" "oc_random os" password pw c]
  obtain archive psz where "seal_inner c (oc_random os) password inner (nat chunk) (nat padding) (nat log_n) 8 1
      = Inr (archive, psz)"
    using o laws(2) pw by (auto simp: os_law_def nat_le_iff le_nat_iff)
  with assms o inner have "prepare_archive c l os fs source True (Inr view) dst password chunk padding log_n r p
      = Inr (view, archive, encode_stats c l (nat chunk) data inner records archive psz)"
    by (simp add: prepare_archive_def)
  moreover have "es_block_count (encode_stats c l (nat chunk) data inner records archive psz) = length (read_blocks (nat chunk) data)"
    using inner by (simp add: encode_stats_def Let_def)
  ultimately show thesis by (rule that)
qed

text \<open>
  With a destination that can be written the encoder succeeds exactly when the source still is what
  was scanned; otherwise it reports what the verification found, and the archive is gone.
\<close>

lemma encode_file_outcome:
  assumes "fs_resolve fs source \<noteq> fs_resolve fs dst" and "sv_root_is_file view" and "normalize_password password = Inr pw"
    and "validate_encode_options chunk padding log_n r p = Inr ()" and "sv_read view 0 [] = Inr data"
    and "\<forall>b\<in>set (read_blocks (nat chunk) data). block_ok l b" and "length (read_blocks (nat chunk) data) \<le> MAX_BLOCK_COUNT"
    and "utf8_encode (sv_name view) = Inr nb" "length nb \<le> 65535" and laws: "digest_law c" "os_law fs os"
    and new: "writable_path fs dst"
  shows "sv_verify view = Inr () \<Longrightarrow> \<exists>stats fs'. encode_file c l os fs source True (Inr view) dst password chunk padding log_n r p
      = (Inr stats, fs') \<and> es_block_count stats = length (read_blocks (nat chunk) data)"
    and "sv_verify view = Inl e \<Longrightarrow> encode_file c l os fs source True (Inr view) dst password chunk padding log_n r p
      = (Inl e, with_parents fs dst)"
proof -
  obtain archive stats where
    prep: "prepare_archive c l os fs source True (Inr view) dst password chunk padding log_n r p = Inr (view, archive, stats)"
    and count: "es_block_count stats = length (read_blocks (nat chunk) data)"
    by (rule prepare_archive_total[OF assms(1-11)])
  have run: "encode_file c l os fs source True (Inr view) dst password chunk padding log_n r p
    = publish_file (with_parents fs dst) os dst (archive, Inr stats) (\<lambda>_. sv_verify view)"
    using prep new by (simp add: encode_file_def publish_def make_parents_free writable_path_def)
  show "\<exists>stats fs'. encode_file c l os fs source True (Inr view) dst password chunk padding log_n r p
      = (Inr stats, fs') \<and> es_block_count stats = length (read_blocks (nat chunk) data)" if "sv_verify view = Inr ()"
    using that new count unfolding run by (simp add: publish_file_def writable_path_def Let_def)
  show "encode_file c l os fs source True (Inr view) dst password chunk padding log_n r p = (Inl e, with_parents fs dst)"
    if changed: "sv_verify view = Inl e"
  proof -
    obtain fs' where fail: "publish_file (with_parents fs dst) os dst (archive, Inr stats) (\<lambda>_. sv_verify view) = (Inl e, fs')"
      using changed by (simp add: publish_file_def Let_def)
    with publish_file_error[OF _ this] laws(2) show ?thesis unfolding run by simp
  qed
qed

lemmas encode_file_total = encode_file_outcome(1)

section \<open>A small run\<close>

text \<open>What an encode leaves behind: the archive under its name, the directories that lead to it, and nothing else changed.\<close>

lemma encode_file_files:
  assumes "encode_file c l os fs source is_file session dst password chunk padding log_n r p = (Inr stats, fs')"
    and "os_law fs os" and "dst \<noteq> oc_temporary os"
  shows "\<exists>archive. fs' = published fs dst \<lparr>fl_id = oc_identity os, fl_bytes = archive, fl_meta = None\<rparr>"
proof -
  obtain view archive where
    "prepare_archive c l os fs source is_file session dst password chunk padding log_n r p
      = Inr (view, archive, stats)"
    and p: "publish fs os dst (archive, Inr stats) (\<lambda>_. sv_verify view) = (Inr stats, fs')"
    by (rule encode_file_Inr[OF assms(1)])
  from publish_published[OF p assms(3,2)] show ?thesis by auto
qed

definition example_msc1_encoded :: "EncodeStats \<Rightarrow> filesystem \<Rightarrow> bool" where
  "example_msc1_encoded stats fs1 \<longleftrightarrow>
     encode_file example_crypto example_clib example_os example_fs (lit ''in'') True
       (Inr (example_view (lit ''in'') [1, 2, 3])) (lit ''arc'') (PBytes [112]) 2 256 14 8 1
       = (Inr stats, fs1)
     \<and> es_block_count stats = 2 \<and> fs_resolve fs1 = (\<lambda>p. p) \<and> writable_path fs1 (lit ''out'') \<and> os_law fs1 example_os'
     \<and> \<not> path_matches_file_identity (fs_stat fs1 (lit ''out'')) (oc_identity example_os)"

lemma example_blocks_ok: "\<forall>b\<in>set (read_blocks (nat 2) [1, 2, 3]). block_ok example_clib b"
  by (auto dest!: read_blocks_size)

lemma example_msc1_names:
  "safe_name (lit ''in'')" "lit ''arc'' \<noteq> oc_temporary example_os" "lit ''out'' \<noteq> oc_temporary example_os'"
  "lit ''arc'' \<noteq> lit ''out''" "sv_name (example_view n d) = n" "sv_read (example_view n d) i r = Inr d"
  by (simp_all add: example_os_def example_os'_def lit_def safe_name_def posix_name_def
      posix_components_def example_view_def)

lemma example_msc1_encodes: "\<exists>stats fs1. example_msc1_encoded stats fs1"
proof -
  let ?v = "example_view (lit ''in'') [1, 2, 3]"
  have blocks: "length (read_blocks (nat 2) [1, 2, 3 :: byte]) = 2"
    by (simp add: read_blocks.simps)
  have utf8: "utf8_encode (lit ''in'') = Inr [105, 110]" by (simp add: lit_def utf8_char_def)
  have pw: "normalize_password (PBytes [112]) = Inr [112]" by (simp add: normalize_password_def)
  have opts: "validate_encode_options 2 256 14 8 1 = Inr ()" by (simp add: validate_encode_options_def)
  have few: "length (read_blocks (nat 2) [1, 2, 3 :: byte]) \<le> MAX_BLOCK_COUNT" unfolding blocks by simp
  have "\<exists>stats fs1. encode_file example_crypto example_clib example_os example_fs (lit ''in'') True
      (Inr ?v) (lit ''arc'') (PBytes [112]) 2 256 14 8 1 = (Inr stats, fs1)
    \<and> es_block_count stats = length (read_blocks (nat 2) [1, 2, 3 :: byte])"
    by (rule encode_file_total[OF _ _ pw opts _ example_blocks_ok few, where nb = "[105, 110]"])
      (simp_all add: example_crypto_laws example_os_law utf8 example_view_def example_fs_simps, simp_all add: lit_def)
  then obtain stats fs1 where enc: "encode_file example_crypto example_clib example_os example_fs (lit ''in'') True
      (Inr ?v) (lit ''arc'') (PBytes [112]) 2 256 14 8 1 = (Inr stats, fs1)"
    and bc: "es_block_count stats = 2" unfolding blocks by blast
  from encode_file_files[OF enc example_os_law] obtain archive where
    files: "fs1 = published example_fs (lit ''arc'') \<lparr>fl_id = oc_identity example_os, fl_bytes = archive, fl_meta = None\<rparr>"
    by (auto simp: example_os_def lit_def)
  have "os_law fs1 example_os'"
    by (simp add: os_law_def files example_fs_def example_os'_def lit_def example_random_law)
  moreover have "\<not> path_matches_file_identity (fs_stat fs1 (lit ''out'')) (oc_identity example_os)"
    by (simp add: fs_stat_def files path_matches_file_identity_def example_fs_def lit_def)
  moreover have "writable_path fs1 (lit ''out'')" "fs_resolve fs1 = (\<lambda>p. p)"
    by (simp_all add: files example_fs_simps)
  ultimately show ?thesis
    using enc bc by (auto simp: example_msc1_encoded_def)
qed

lemma example_msc1_run:
  "\<exists>fs1 ma ds fs2. decode_file example_crypto example_clib example_os' fs1 (lit ''arc'') (lit ''out'')
      (PBytes [112]) 1000 1000 ma = (Inr ds, fs2)"
proof -
  obtain stats fs1 where run: "example_msc1_encoded stats fs1" using example_msc1_encodes by blast
  note e = run[unfolded example_msc1_encoded_def]
  have "\<exists>ds fs2. decode_file example_crypto example_clib example_os' fs1 (lit ''arc'') (lit ''out'')
      (PBytes [112]) 1000 1000 (int (es_archive_size stats) + 1) = (Inr ds, fs2)
    \<and> fs2 = published fs1 (lit ''out'') \<lparr>fl_id = oc_identity example_os', fl_bytes = [1, 2, 3], fl_meta = None\<rparr>"
    by (rule msc1_restores[OF conjunct1[OF e]])
      (use e example_blocks_ok in \<open>simp_all add: example_msc1_names example_crypto_laws example_os_law\<close>)
  then show ?thesis by blast
qed

text \<open>A source that changes while it is archived, and a destination whose folder does not exist.\<close>

definition changed_view :: source_view where
  "changed_view = (example_view (lit ''in'') [1, 2, 3])\<lparr>sv_verify := Inl (RuntimeError ''source changed'')\<rparr>"

lemma example_msc1_fails:
  "encode_file example_crypto example_clib example_os example_fs (lit ''in'') True (Inr changed_view) (lit ''new/arc'')
     (PBytes [112]) 2 256 14 8 1 = (Inl (RuntimeError ''source changed''), with_parents example_fs (lit ''new/arc''))"
proof -
  have blocks: "length (read_blocks (nat 2) [1, 2, 3 :: byte]) = 2"
    by (simp add: read_blocks.simps)
  have few: "length (read_blocks (nat 2) [1, 2, 3 :: byte]) \<le> MAX_BLOCK_COUNT" unfolding blocks by simp
  have view: "sv_root_is_file changed_view" "sv_read changed_view 0 [] = Inr [1, 2, 3]"
    "sv_verify changed_view = Inl (RuntimeError ''source changed'')" "sv_name changed_view = lit ''in''"
    by (simp_all add: changed_view_def example_view_def)
  have utf8: "utf8_encode (sv_name changed_view) = Inr [105, 110]" unfolding view by (simp add: lit_def utf8_char_def)
  have short: "length [105, 110 :: byte] \<le> 65535" by simp
  have "writable_path example_fs (lit ''new/arc'')"
    by (simp add: writable_path_def is_folder_def parents_free_def example_fs_def)
  moreover have "fs_resolve example_fs (lit ''in'') \<noteq> fs_resolve example_fs (lit ''new/arc'')" by (simp add: example_fs_def lit_def)
  ultimately show ?thesis
    by (intro encode_file_outcome(2)[OF _ view(1) _ _ view(2) example_blocks_ok few utf8 short example_crypto_laws(2) example_os_law _ view(3)])
      (simp_all add: normalize_password_def validate_encode_options_def)
qed

lemma example_new_directory: "fs_directories (with_parents example_fs (lit ''new/arc'')) = {lit ''new''}"
  by (simp add: with_parents_def leading_directories_def example_fs_def lit_def upt_rec)

section \<open>Properties\<close>

text \<open>C23: MSC1 restores what it stored: the archive that an encode published decodes under the same password and sufficient limits to a file with the source's bytes, no other file changes, and of directories only the missing ones on the way to it are made.\<close>

lemma msc1_roundtrip:
  assumes "encode_file c l os fs source is_file (Inr view) archive password chunk padding log_n r p
      = (Inr stats, fs1)"
    and "aead_law c" and "digest_law c" and "os_law fs os" and "os_law fs1 os'"
    and "sv_read view 0 [] = Inr data" and "\<forall>b\<in>set (read_blocks (nat chunk) data). block_ok l b"
    and "safe_name (sv_name view)"
    and "archive \<noteq> oc_temporary os" and "restored \<noteq> oc_temporary os'"
    and "fs_resolve fs1 archive \<noteq> fs_resolve fs1 restored"
    and "\<not> path_matches_file_identity (fs_stat fs1 restored) (oc_identity os)"
    and "writable_path fs1 restored" and "int (length data) \<le> mo" and "0 < mf" and "int (es_block_count stats) \<le> mf"
    and "int (es_archive_size stats) \<le> ma" and "0 < ma"
  shows "\<exists>ds fs2. decode_file c l os' fs1 archive restored password mo mf ma = (Inr ds, fs2)
    \<and> fs2 = published fs1 restored \<lparr>fl_id = oc_identity os', fl_bytes = data, fl_meta = None\<rparr>"
  using assms by (intro msc1_restores) simp_all

lemma msc1_roundtrip_witness:
  "\<exists>stats fs1 ma ds fs2.
     encode_file example_crypto example_clib example_os example_fs (lit ''in'') True
       (Inr (example_view (lit ''in'') [1, 2, 3])) (lit ''arc'') (PBytes [112]) 2 256 14 8 1
       = (Inr stats, fs1)
     \<and> decode_file example_crypto example_clib example_os' fs1 (lit ''arc'') (lit ''out'') (PBytes [112])
         1000 1000 ma = (Inr ds, fs2)
     \<and> fs_read fs2 (lit ''out'') = Inr [1, 2, 3]"
proof -
  obtain stats fs1 where run: "example_msc1_encoded stats fs1" using example_msc1_encodes by blast
  note e = run[unfolded example_msc1_encoded_def]
  have "\<exists>ds fs2. decode_file example_crypto example_clib example_os' fs1 (lit ''arc'') (lit ''out'')
      (PBytes [112]) 1000 1000 (int (es_archive_size stats) + 1) = (Inr ds, fs2)
    \<and> fs2 = published fs1 (lit ''out'') \<lparr>fl_id = oc_identity example_os', fl_bytes = [1, 2, 3], fl_meta = None\<rparr>"
    by (rule msc1_roundtrip[OF conjunct1[OF e]])
      (use e example_blocks_ok in \<open>simp_all add: example_msc1_names example_crypto_laws example_os_law\<close>)
  with e show ?thesis by (fastforce simp: fs_read_def)
qed

text \<open>C24: A successful MSC1 restore has published a file of exactly the declared size, within the caller's output limit, whose SHA-256 digest is the authenticated one, at a path that did not name the archive itself.\<close>

lemma msc1_success_verified:
  assumes "decode_file c l os fs archive destination password mo mf ma = (Inr stats, fs')"
    and "destination \<noteq> oc_temporary os"
  shows "\<exists>da content. open_archive c fs archive password mo mf ma (Some destination) = Inr da
    \<and> fs_read fs' destination = Inr content \<and> sha256 c content = da_expected_hash da
    \<and> length content = da_original_size da \<and> int (length content) \<le> mo
    \<and> \<not> path_matches_file_identity (fs_stat fs destination) (da_archive_identity da)"
  by (rule decode_file_verified[OF assms])

lemma msc1_success_verified_witness:
  "\<exists>fs archive os ma fs' content.
     fst (decode_file example_crypto example_clib os fs archive (lit ''out'') (PBytes [112]) 1000 1000 ma) \<noteq> Inl OutOfFuel
     \<and> snd (decode_file example_crypto example_clib os fs archive (lit ''out'') (PBytes [112]) 1000 1000 ma) = fs'
     \<and> fs_read fs' (lit ''out'') = Inr content \<and> int (length content) \<le> 1000"
proof -
  obtain fs1 ma ds fs2 where dec: "decode_file example_crypto example_clib example_os' fs1 (lit ''arc'') (lit ''out'')
      (PBytes [112]) 1000 1000 ma = (Inr ds, fs2)"
    using example_msc1_run by blast
  from msc1_success_verified[OF dec] obtain content where
    "fs_read fs2 (lit ''out'') = Inr content" "int (length content) \<le> 1000"
    by (auto simp: example_os'_def lit_def)
  with dec show ?thesis
    by (intro exI[of _ fs1] exI[of _ "lit ''arc''"] exI[of _ example_os'] exI[of _ ma] exI[of _ fs2]
        exI[of _ content]) simp
qed

end
