(* ===== verification/Frames.thy ===== *)
theory Frames
  imports Formats
begin

text \<open>
  The frame layer of MSC2 and MSC3 to MSC6: \<^verbatim>\<open>_write_frame\<close> and \<^verbatim>\<open>_read_frame\<close> of
  \<^verbatim>\<open>stream_archive.py\<close> and \<^verbatim>\<open>dedup_archive.py\<close>, which differ in their messages and in the size
  limit of a data frame. A frame is its header and the sealed, padded payload; its nonce is made
  of its index and its header is authenticated together with the public header. The locale
  \<open>frame_layer\<close> is what the archives rely on: a written frame is read back at its own index and
  rejected at any other.
\<close>

record frame_ctx =
  fc_format :: string
  fc_key :: bytes
  fc_global_header :: bytes
  fc_nonce_prefix :: bytes
  fc_padding_size :: nat
  fc_data_maximum :: nat

text \<open>The payload size, the padded size and the padding overhead are the frame's metrics.\<close>

definition write_frame ::
  "crypto \<Rightarrow> (nat \<Rightarrow> bytes) \<Rightarrow> frame_ctx \<Rightarrow> nat \<Rightarrow> nat \<Rightarrow> bytes \<Rightarrow> (bytes \<times> nat) result" where
  "write_frame c rnd ctx index frame_type payload =
     bindR (pad_payload rnd payload (fc_padding_size ctx)) (\<lambda>padded.
     bindR (pack_frame_header \<lparr>fh_index = index, fh_frame_type = frame_type,
              fh_ciphertext_length = length padded + AEAD_TAG_LENGTH\<rparr>) (\<lambda>frame_header.
     bindR (frame_nonce (fc_nonce_prefix ctx) index) (\<lambda>nonce.
       Inr (frame_header @ encrypt c (fc_key ctx) nonce padded (fc_global_header ctx @ frame_header),
            length padded))))"

text \<open>The largest ciphertext a frame of a type may have.\<close>

definition frame_maximum :: "frame_ctx \<Rightarrow> nat \<Rightarrow> nat" where
  "frame_maximum ctx frame_type =
     (if frame_type = FRAME_MANIFEST then MAX_MANIFEST_CIPHERTEXT else fc_data_maximum ctx)"

definition read_frame ::
  "crypto \<Rightarrow> frame_ctx \<Rightarrow> bytes \<Rightarrow> nat \<Rightarrow> nat \<Rightarrow> ((bytes \<times> nat) \<times> bytes) result" where
  "read_frame c ctx stream expected_index expected_type =
     bindR (read_exact (fc_format ctx @ '' is truncated at a frame header'') stream
              (struct_size FRAME_HEADER)) (\<lambda>(serialized, stream).
     bindR (parse_frame_header serialized) (\<lambda>frame.
       if fh_index frame \<noteq> expected_index \<or> fh_frame_type frame \<noteq> expected_type
       then Inl (ArchiveFormatError (fc_format ctx @ '' frame is out of order''))
       else if (fh_ciphertext_length frame - AEAD_TAG_LENGTH) mod fc_padding_size ctx \<noteq> 0
       then Inl (ArchiveFormatError (fc_format ctx @ '' frame violates its padding policy''))
       else if fh_ciphertext_length frame > frame_maximum ctx (fh_frame_type frame)
       then Inl (ArchiveFormatError (fc_format ctx @ '' frame exceeds its resource limit''))
       else bindR (read_exact (fc_format ctx @ '' is truncated at a frame ciphertext'') stream
                     (fh_ciphertext_length frame)) (\<lambda>(ciphertext, stream).
         bindR (frame_nonce (fc_nonce_prefix ctx) expected_index) (\<lambda>nonce.
         bindR (decrypt c (fc_key ctx) nonce ciphertext (fc_global_header ctx @ serialized)) (\<lambda>padded.
         bindR (unpad_payload padded) (\<lambda>payload.
           Inr ((payload, length padded), stream)))))))"

section \<open>Writing succeeds\<close>

text \<open>When a payload fits a frame of a type.\<close>

definition frame_fits :: "frame_ctx \<Rightarrow> nat \<Rightarrow> bytes \<Rightarrow> bool" where
  "frame_fits ctx frame_type payload \<longleftrightarrow>
     padded_length (8 + length payload) (fc_padding_size ctx) + AEAD_TAG_LENGTH
       \<le> frame_maximum ctx frame_type"

definition valid_ctx :: "frame_ctx \<Rightarrow> bool" where
  "valid_ctx ctx \<longleftrightarrow> 256 \<le> fc_padding_size ctx \<and> fc_padding_size ctx \<le> 16777216
     \<and> length (fc_nonce_prefix ctx) = NONCE_PREFIX_LENGTH \<and> fc_data_maximum ctx < 2 ^ 32"

lemma write_frame_Inr:
  assumes "write_frame c rnd ctx i ty payload = Inr (b, n)" and "random_law rnd"
  obtains padded h nonce where "pad_payload rnd payload (fc_padding_size ctx) = Inr padded"
    and "pack_frame_header \<lparr>fh_index = i, fh_frame_type = ty,
           fh_ciphertext_length = length padded + AEAD_TAG_LENGTH\<rparr> = Inr h"
    and "frame_nonce (fc_nonce_prefix ctx) i = Inr nonce"
    and "b = h @ encrypt c (fc_key ctx) nonce padded (fc_global_header ctx @ h)"
    and "n = length padded" and "n = padded_length (8 + length payload) (fc_padding_size ctx)"
    and "unpad_payload padded = Inr payload"
  using assms length_pad_payload unpad_pad unfolding write_frame_def by (fastforce simp: bindR_eq_Inr)

lemma frame_header_bounds:
  assumes "pack_frame_header f = Inr h"
  shows "fh_index f < 256 ^ 8 \<and> fh_ciphertext_length f < 256 ^ 4"
  using assms by (auto simp: pack_frame_header_def struct_pack_def frame_values_def split: if_splits)

lemma write_frame_exists:
  assumes ctx: "valid_ctx ctx" and rnd: "random_law rnd" and i: "i < 2 ^ 64"
    and len: "padded_length (8 + length payload) (fc_padding_size ctx) + AEAD_TAG_LENGTH < 2 ^ 32"
    and ty: "ty \<in> {FRAME_MANIFEST, FRAME_DATA}"
  shows "\<exists>b n. write_frame c rnd ctx i ty payload = Inr (b, n)"
proof -
  have "8 + length payload \<le> padded_length (8 + length payload) (fc_padding_size ctx)"
    using ctx by (intro padded_length_ge) (simp add: valid_ctx_def)
  with len have "length payload < 256 ^ 8" by simp
  then obtain padded where padded: "pad_payload rnd payload (fc_padding_size ctx) = Inr padded"
    using pad_payload_Inr[of "fc_padding_size ctx" payload rnd] ctx by (auto simp: valid_ctx_def)
  have "length padded + 16 < 2 ^ 32" using length_pad_payload[OF padded rnd] len by simp
  then have "valid_frame_header \<lparr>fh_index = i, fh_frame_type = ty,
      fh_ciphertext_length = length padded + AEAD_TAG_LENGTH\<rparr>"
    using i ty by (simp add: valid_frame_header_def)
  then obtain h where "pack_frame_header \<lparr>fh_index = i, fh_frame_type = ty,
      fh_ciphertext_length = length padded + AEAD_TAG_LENGTH\<rparr> = Inr h"
    using frame_header.pack_total by blast
  moreover have "frame_nonce (fc_nonce_prefix ctx) i = Inr (fc_nonce_prefix ctx @ be_encode 8 i)"
    using ctx i by (simp add: frame_nonce_def valid_ctx_def)
  ultimately show ?thesis using padded by (simp add: write_frame_def)
qed

lemma write_frame_total:
  assumes ctx: "valid_ctx ctx" and rnd: "random_law rnd" and i: "i < 2 ^ 64"
    and fits: "frame_fits ctx ty payload" and ty: "ty \<in> {FRAME_MANIFEST, FRAME_DATA}"
  shows "\<exists>b n. write_frame c rnd ctx i ty payload = Inr (b, n)"
proof -
  have "frame_maximum ctx ty < 2 ^ 32" using ctx by (simp add: frame_maximum_def valid_ctx_def)
  with fits show ?thesis by (intro write_frame_exists[OF ctx rnd i _ ty]) (simp add: frame_fits_def)
qed

section \<open>Reading back\<close>

lemma written_header_parses:
  assumes "pack_frame_header \<lparr>fh_index = i, fh_frame_type = ty,
      fh_ciphertext_length = m + AEAD_TAG_LENGTH\<rparr> = Inr h" and "ty \<in> {FRAME_MANIFEST, FRAME_DATA}"
  shows "parse_frame_header h = Inr \<lparr>fh_index = i, fh_frame_type = ty,
      fh_ciphertext_length = m + AEAD_TAG_LENGTH\<rparr> \<and> length h = struct_size FRAME_HEADER"
proof -
  have "valid_frame_header \<lparr>fh_index = i, fh_frame_type = ty, fh_ciphertext_length = m + AEAD_TAG_LENGTH\<rparr>"
    using frame_header_bounds[OF assms(1)] assms(2) by (simp add: valid_frame_header_def)
  from frame_header.parse_pack[OF this assms(1)] frame_header.pack_length[OF assms(1)]
  show ?thesis by simp
qed

lemma read_written_frame:
  assumes w: "write_frame c rnd ctx i ty payload = Inr (b, n)" and rnd: "random_law rnd"
    and aead: "aead_law c" and ty: "ty \<in> {FRAME_MANIFEST, FRAME_DATA}"
    and fits: "frame_fits ctx ty payload"
  shows "read_frame c ctx (b @ rest) i ty = Inr ((payload, n), rest)"
proof -
  from write_frame_Inr[OF w rnd] obtain padded h nonce where
    h: "pack_frame_header \<lparr>fh_index = i, fh_frame_type = ty,
           fh_ciphertext_length = length padded + AEAD_TAG_LENGTH\<rparr> = Inr h"
    and nonce: "frame_nonce (fc_nonce_prefix ctx) i = Inr nonce"
    and b: "b = h @ encrypt c (fc_key ctx) nonce padded (fc_global_header ctx @ h)"
    and n: "n = length padded" "n = padded_length (8 + length payload) (fc_padding_size ctx)"
    and un: "unpad_payload padded = Inr payload" by metis
  note p = written_header_parses[OF h ty]
  let ?ct = "encrypt c (fc_key ctx) nonce padded (fc_global_header ctx @ h)"
  have ct: "length ?ct = length padded + AEAD_TAG_LENGTH" using aead by simp
  have dec: "decrypt c (fc_key ctx) nonce ?ct (fc_global_header ctx @ h) = Inr padded" using aead by simp
  have "length padded mod fc_padding_size ctx = 0" using n by (metis padded_length_mod)
  moreover have "length padded + AEAD_TAG_LENGTH \<le> frame_maximum ctx ty"
    using fits n by (simp add: frame_fits_def)
  ultimately show ?thesis
    using p ct dec un nonce n by (simp add: read_frame_def b Let_def frame_maximum_def)
qed

text \<open>A frame in another place than its own is refused before anything is decrypted.\<close>

lemma read_misplaced_frame:
  assumes w: "write_frame c rnd ctx i ty payload = Inr (b, n)" and rnd: "random_law rnd"
    and ty: "ty \<in> {FRAME_MANIFEST, FRAME_DATA}" and other: "j \<noteq> i \<or> ty' \<noteq> ty"
  shows "read_frame c ctx (b @ rest) j ty'
    = Inl (ArchiveFormatError (fc_format ctx @ '' frame is out of order''))"
proof -
  from write_frame_Inr[OF w rnd] obtain padded h nonce where
    h: "pack_frame_header \<lparr>fh_index = i, fh_frame_type = ty,
           fh_ciphertext_length = length padded + AEAD_TAG_LENGTH\<rparr> = Inr h"
    and b: "b = h @ encrypt c (fc_key ctx) nonce padded (fc_global_header ctx @ h)" by metis
  show ?thesis using written_header_parses[OF h ty] other by (auto simp: read_frame_def b)
qed

text \<open>A frame beyond its limit is written all the same and refused by the reader.\<close>

lemma read_oversized_frame:
  assumes w: "write_frame c rnd ctx i ty payload = Inr (b, n)" and rnd: "random_law rnd"
    and ty: "ty \<in> {FRAME_MANIFEST, FRAME_DATA}" and big: "\<not> frame_fits ctx ty payload"
  shows "read_frame c ctx (b @ rest) i ty
    = Inl (ArchiveFormatError (fc_format ctx @ '' frame exceeds its resource limit''))"
proof -
  from write_frame_Inr[OF w rnd] obtain padded h nonce where
    h: "pack_frame_header \<lparr>fh_index = i, fh_frame_type = ty,
           fh_ciphertext_length = length padded + AEAD_TAG_LENGTH\<rparr> = Inr h"
    and b: "b = h @ encrypt c (fc_key ctx) nonce padded (fc_global_header ctx @ h)"
    and n: "n = length padded" "n = padded_length (8 + length payload) (fc_padding_size ctx)" by metis
  have "length padded mod fc_padding_size ctx = 0" using n by (metis padded_length_mod)
  moreover have "length padded + AEAD_TAG_LENGTH > frame_maximum ctx ty"
    using big n by (simp add: frame_fits_def not_le)
  ultimately show ?thesis using written_header_parses[OF h ty] by (simp add: read_frame_def b frame_maximum_def)
qed

text \<open>What a successful read has checked.\<close>

lemma read_frame_Inr:
  assumes "read_frame c ctx stream i ty = Inr ((payload, n), rest)"
  shows "\<exists>h ct nonce padded. stream = h @ ct @ rest \<and> length h = struct_size FRAME_HEADER
    \<and> frame_nonce (fc_nonce_prefix ctx) i = Inr nonce
    \<and> aead_open c (fc_key ctx) nonce ct (fc_global_header ctx @ h) = Some padded
    \<and> unpad_payload padded = Inr payload \<and> length ct \<le> frame_maximum ctx ty \<and> n = length padded"
proof -
  define h where "h = take (13) stream"
  define r where "r = drop (13) stream"
  have s: "13 \<le> length stream"
    using assms by (cases "length stream < 13") (simp_all add: read_frame_def struct_size_def read_exact_short not_le)
  have r1: "read_exact m stream (13) = Inr (h, r)" for m
    using s by (simp add: read_exact_def stream_read_def h_def r_def)
  obtain f where f: "parse_frame_header h = Inr f"
    using assms by (cases "parse_frame_header h") (auto simp: read_frame_def struct_size_def r1)
  have ok: "fh_index f = i" "fh_frame_type f = ty" "fh_ciphertext_length f \<le> frame_maximum ctx ty"
    using assms by (auto simp: read_frame_def struct_size_def r1 f split: if_split_asm)
  let ?n = "fh_ciphertext_length f"
  have len: "?n \<le> length r"
    using assms ok by (cases "length r < ?n") (simp_all add: read_frame_def struct_size_def r1 f read_exact_short not_le split: if_split_asm)
  have r2: "read_exact m r ?n = Inr (take ?n r, drop ?n r)" for m
    using len by (simp add: read_exact_def stream_read_def)
  obtain nonce where nonce: "frame_nonce (fc_nonce_prefix ctx) i = Inr nonce"
    using assms ok by (cases "frame_nonce (fc_nonce_prefix ctx) i")
      (auto simp: read_frame_def struct_size_def r1 f r2 split: if_split_asm)
  obtain padded where dec: "decrypt c (fc_key ctx) nonce (take ?n r) (fc_global_header ctx @ h) = Inr padded"
    using assms ok nonce
    by (cases "decrypt c (fc_key ctx) nonce (take ?n r) (fc_global_header ctx @ h)")
      (auto simp: read_frame_def struct_size_def r1 f r2 split: if_split_asm)
  have un: "unpad_payload padded = Inr payload \<and> n = length padded \<and> rest = drop ?n r"
    using assms ok nonce dec
    by (cases "unpad_payload padded") (auto simp: read_frame_def struct_size_def r1 f r2 split: if_split_asm)
  have ae: "aead_open c (fc_key ctx) nonce (take ?n r) (fc_global_header ctx @ h) = Some padded"
    using dec by (simp add: decrypt_def split: option.splits)
  have st: "stream = h @ take ?n r @ rest" unfolding conjunct2[OF conjunct2[OF un]] append_take_drop_id h_def r_def ..
  have lh: "length h = struct_size FRAME_HEADER" using s by (simp add: h_def struct_size_def)
  have lc: "length (take ?n r) \<le> frame_maximum ctx ty" using ok by simp
  from st lh nonce ae un lc show ?thesis by blast
qed

section \<open>The frame layer as an interface\<close>

locale frame_layer =
  fixes emit :: "nat \<Rightarrow> nat \<Rightarrow> bytes \<Rightarrow> (bytes \<times> nat) result"
    and accept :: "bytes \<Rightarrow> nat \<Rightarrow> nat \<Rightarrow> ((bytes \<times> nat) \<times> bytes) result"
    and fits :: "nat \<Rightarrow> nat \<Rightarrow> bytes \<Rightarrow> bool"
  assumes emit_total: "fits i ty p \<Longrightarrow> \<exists>b n. emit i ty p = Inr (b, n)"
    and accept_emit: "fits i ty p \<Longrightarrow> emit i ty p = Inr (b, n) \<Longrightarrow> accept (b @ rest) i ty = Inr ((p, n), rest)"
    and accept_misplaced: "fits i ty p \<Longrightarrow> emit i ty p = Inr (b, n) \<Longrightarrow> j \<noteq> i \<or> ty' \<noteq> ty \<Longrightarrow>
          \<exists>e. accept (b @ rest) j ty' = Inl e"
begin

lemma roundtrip:
  "fits i ty p \<Longrightarrow> \<exists>b n. emit i ty p = Inr (b, n) \<and> accept (b @ rest) i ty = Inr ((p, n), rest)"
  using emit_total accept_emit by blast

lemma emit_inj: "fits i ty p \<Longrightarrow> fits i ty q \<Longrightarrow> emit i ty p = Inr (b, n) \<Longrightarrow> emit i ty q = Inr (b, n') \<Longrightarrow> p = q"
  using accept_emit[of i ty p b n "[]"] accept_emit[of i ty q b n' "[]"] by simp

text \<open>Two frames of one stream exchanged: reading stops at the first place.\<close>

lemma swapped:
  assumes "fits i ty p" and "fits j ty q" and "i \<noteq> j"
    and "emit i ty p = Inr (a, m)" and "emit j ty q = Inr (b, n)"
  shows "\<exists>e. accept (b @ a @ rest) i ty = Inl e"
  using accept_misplaced[OF assms(2,5), of i ty "a @ rest"] assms(3) by blast

end

definition emit_frame ::
  "crypto \<Rightarrow> (nat \<Rightarrow> nat \<Rightarrow> bytes) \<Rightarrow> frame_ctx \<Rightarrow> nat \<Rightarrow> nat \<Rightarrow> bytes \<Rightarrow> (bytes \<times> nat) result" where
  "emit_frame c rnd ctx i ty p = write_frame c (rnd (2 + i)) ctx i ty p"

definition layer_fits ::
  "crypto \<Rightarrow> (nat \<Rightarrow> nat \<Rightarrow> bytes) \<Rightarrow> frame_ctx \<Rightarrow> nat \<Rightarrow> nat \<Rightarrow> bytes \<Rightarrow> bool" where
  "layer_fits c rnd ctx i ty p \<longleftrightarrow>
     aead_law c \<and> (\<forall>k. random_law (rnd k)) \<and> valid_ctx ctx \<and> i < 2 ^ 64
     \<and> ty \<in> {FRAME_MANIFEST, FRAME_DATA} \<and> frame_fits ctx ty p"

interpretation sealed: frame_layer "emit_frame c rnd ctx" "read_frame c ctx" "layer_fits c rnd ctx"
  for c rnd ctx
proof unfold_locales
  show "\<exists>b n. emit_frame c rnd ctx i ty p = Inr (b, n)" if "layer_fits c rnd ctx i ty p" for i ty p
    using that write_frame_total[of ctx "rnd (2 + i)" i ty p c] by (auto simp: emit_frame_def layer_fits_def)
  show "read_frame c ctx (b @ rest) i ty = Inr ((p, n), rest)"
    if "layer_fits c rnd ctx i ty p" "emit_frame c rnd ctx i ty p = Inr (b, n)" for i ty p b n rest
    using that read_written_frame[of c "rnd (2 + i)" ctx i ty p b n rest]
    by (auto simp: emit_frame_def layer_fits_def)
  show "\<exists>e. read_frame c ctx (b @ rest) j ty' = Inl e"
    if "layer_fits c rnd ctx i ty p" "emit_frame c rnd ctx i ty p = Inr (b, n)" "j \<noteq> i \<or> ty' \<noteq> ty"
    for i ty p b n j ty' rest
    using that read_misplaced_frame[of c "rnd (2 + i)" ctx i ty p b n j ty' rest]
    by (auto simp: emit_frame_def layer_fits_def)
qed

section \<open>Properties\<close>

text \<open>C20: Frames of one archive are read back in the order they were written and in no other: after sealing under distinct indices, reading the first one where it belongs yields its payload, and with the two exchanged the reader reports an error before anything is decrypted.\<close>

lemma frames_not_reordered:
  "layer_fits c rnd ctx i ty p \<Longrightarrow> layer_fits c rnd ctx j ty q \<Longrightarrow> i \<noteq> j \<Longrightarrow>
   emit_frame c rnd ctx i ty p = Inr (a, m) \<Longrightarrow> emit_frame c rnd ctx j ty q = Inr (b, n) \<Longrightarrow>
   read_frame c ctx (a @ b @ rest) i ty = Inr ((p, m), b @ rest)
   \<and> (case read_frame c ctx (b @ a @ rest) i ty of Inl _ \<Rightarrow> True | Inr _ \<Rightarrow> False)"
  using sealed.accept_emit[of c rnd ctx i ty p a m "b @ rest"] sealed.swapped[of c rnd ctx i ty p j q a m b n rest]
  by auto

lemma frames_not_reordered_witness:
  "\<exists>a b m n ctx. emit_frame example_crypto (\<lambda>_. example_random) ctx 1 FRAME_DATA [7] = Inr (a, m)
    \<and> emit_frame example_crypto (\<lambda>_. example_random) ctx 2 FRAME_DATA [8] = Inr (b, n)
    \<and> read_frame example_crypto ctx (a @ b) 1 FRAME_DATA = Inr (([7], m), b)
    \<and> (case read_frame example_crypto ctx (b @ a) 1 FRAME_DATA of Inl _ \<Rightarrow> True | Inr _ \<Rightarrow> False)"
proof -
  let ?ctx = "\<lparr>fc_format = ''MSC2'', fc_key = [], fc_global_header = [], fc_nonce_prefix = [0, 0, 0, 0],
    fc_padding_size = 256, fc_data_maximum = 1000\<rparr>"
  have fits: "layer_fits example_crypto (\<lambda>_. example_random) ?ctx i FRAME_DATA [x]" if "i < 2 ^ 64" for i x
    using that by (simp add: layer_fits_def example_crypto_laws example_random_law valid_ctx_def frame_fits_def
        frame_maximum_def padded_length_def)
  obtain a m where a: "emit_frame example_crypto (\<lambda>_. example_random) ?ctx 1 FRAME_DATA [7] = Inr (a, m)"
    using sealed.emit_total[OF fits] by fastforce
  obtain b n where b: "emit_frame example_crypto (\<lambda>_. example_random) ?ctx 2 FRAME_DATA [8] = Inr (b, n)"
    using sealed.emit_total[OF fits] by fastforce
  have "(1::nat) \<noteq> 2" by simp
  from frames_not_reordered[OF fits fits this a b, of "[]"] a b show ?thesis
    by (intro exI[of _ a] exI[of _ b] exI[of _ m] exI[of _ n] exI[of _ ?ctx]) simp
qed

text \<open>The size check that the folder encoders make before they write the manifest forgets the eight bytes of the length field: with a padding size of 16387 bytes a manifest of 268419053 bytes passes it, its frame is written, and the reader refuses that frame.\<close>

lemma oversized_manifest_unreadable:
  "valid_ctx ctx \<Longrightarrow> fc_padding_size ctx = 16387 \<Longrightarrow> random_law rnd \<Longrightarrow> length payload = 268419053 \<Longrightarrow>
   \<not> int (length payload) > int MAX_MANIFEST_CIPHERTEXT - int (fc_padding_size ctx) - int AEAD_TAG_LENGTH
   \<and> (case write_frame c rnd ctx 0 FRAME_MANIFEST payload of Inl _ \<Rightarrow> False
      | Inr (b, _) \<Rightarrow> read_frame c ctx (b @ rest) 0 FRAME_MANIFEST
          = Inl (ArchiveFormatError (fc_format ctx @ '' frame exceeds its resource limit'')))"
proof -
  assume ctx: "valid_ctx ctx" "fc_padding_size ctx = 16387" and rnd: "random_law rnd" and len: "length payload = 268419053"
  have pl: "padded_length (8 + length payload) (fc_padding_size ctx) = 268435447"
    by (simp add: padded_length_def ctx(2) len)
  obtain b n where w: "write_frame c rnd ctx 0 FRAME_MANIFEST payload = Inr (b, n)"
    using write_frame_exists[OF ctx(1) rnd, of 0 payload FRAME_MANIFEST c] by (auto simp: pl)
  have "\<not> frame_fits ctx FRAME_MANIFEST payload" by (simp add: frame_fits_def frame_maximum_def pl)
  from read_oversized_frame[OF w rnd _ this, of rest] show ?thesis unfolding w by (simp add: ctx(2) len)
qed

lemma oversized_manifest_unreadable_witness:
  "\<exists>payload :: bytes. int (length payload) \<le> int MAX_MANIFEST_CIPHERTEXT - 16387 - 16
    \<and> (case write_frame example_crypto example_random \<lparr>fc_format = ''MSC2'', fc_key = [], fc_global_header = [],
          fc_nonce_prefix = [0, 0, 0, 0], fc_padding_size = 16387, fc_data_maximum = 1000\<rparr> 0 FRAME_MANIFEST payload of
         Inl _ \<Rightarrow> False | Inr _ \<Rightarrow> True)"
proof -
  let ?ctx = "\<lparr>fc_format = ''MSC2'', fc_key = [], fc_global_header = [], fc_nonce_prefix = [0, 0, 0, 0],
    fc_padding_size = 16387, fc_data_maximum = 1000\<rparr>"
  have "valid_ctx ?ctx" by (simp add: valid_ctx_def)
  from oversized_manifest_unreadable[OF this _ example_random_law, of "replicate 268419053 0" example_crypto "[]"]
  show ?thesis by (intro exI[of _ "replicate 268419053 0"]) (auto split: sum.splits)
qed

end
