(* ===== verification/Restore.thy ===== *)
theory Restore
  imports Files
begin

text \<open>
  Restoring a file or a folder, as the MSC2 and MSC3 decoders do it: manifest entries, the
  directory operations on the temporary output, the metadata pass over the directories (deepest
  first) and the publication of a file or of a whole folder. The output of a restore is a tree
  whose root is the temporary file or folder; permission bits are recorded and not enforced, the
  process owns all it creates. The main lemma is that for entries with distinct targets whose
  parents come first the tree holds exactly the entries.
\<close>

section \<open>Entries\<close>

abbreviation KIND_FILE where "KIND_FILE \<equiv> (1 :: nat)"
abbreviation KIND_FOLDER where "KIND_FOLDER \<equiv> (2 :: nat)"
abbreviation ENTRY_FILE where "ENTRY_FILE \<equiv> (1 :: nat)"
abbreviation ENTRY_DIRECTORY where "ENTRY_DIRECTORY \<equiv> (2 :: nat)"
abbreviation ZERO_HASH where "ZERO_HASH \<equiv> (replicate 32 0 :: bytes)"

text \<open>\<^verbatim>\<open>ManifestEntry\<close> (\<^verbatim>\<open>first_frame\<close>, \<^verbatim>\<open>frame_count\<close>) and \<^verbatim>\<open>DedupEntry\<close> (\<^verbatim>\<open>first_chunk\<close>, \<^verbatim>\<open>chunk_count\<close>).\<close>

record ManifestEntry =
  entry_type :: nat
  relative_path :: pystr
  entry_mode :: nat
  mtime_ns :: int
  entry_size :: nat
  first_index :: nat
  index_count :: nat
  digest :: bytes

definition is_file_entry :: "ManifestEntry \<Rightarrow> bool" where
  "is_file_entry e \<longleftrightarrow> entry_type e = ENTRY_FILE"

definition is_directory_entry :: "ManifestEntry \<Rightarrow> bool" where
  "is_directory_entry e \<longleftrightarrow> entry_type e = ENTRY_DIRECTORY"

definition entry_metadata :: "ManifestEntry \<Rightarrow> metadata" where
  "entry_metadata e = Some (entry_mode e, mtime_ns e)"

section \<open>Directories and files of the output\<close>

text \<open>
  \<^verbatim>\<open>mkdir(parents=True, exist_ok=True)\<close> for the directories on the way from \<open>base\<close> along the
  components.
\<close>

fun make_directories :: "tree \<Rightarrow> pystr list \<Rightarrow> pystr list \<Rightarrow> tree result" where
  "make_directories t base [] = Inr t"
| "make_directories t base (c # cs) =
     (case t (base @ [c]) of
        None \<Rightarrow> make_directories (t(base @ [c] \<mapsto> TDir None)) (base @ [c]) cs
      | Some (TDir _) \<Rightarrow> make_directories t (base @ [c]) cs
      | Some (TFile _ _) \<Rightarrow>
          Inl (if cs = [] then FileExistsError ''File exists'' else OSError ''Not a directory''))"

text \<open>\<^verbatim>\<open>target.mkdir(parents=True, exist_ok=False)\<close>: the first attempt already fails below a file.\<close>

definition is_file_node :: "node option \<Rightarrow> bool" where
  "is_file_node n \<longleftrightarrow> (case n of Some (TFile _ _) \<Rightarrow> True | _ \<Rightarrow> False)"

definition make_new_directory :: "tree \<Rightarrow> pystr list \<Rightarrow> tree result" where
  "make_new_directory t p =
     (if t p \<noteq> None then Inl (FileExistsError ''File exists'')
      else if p \<noteq> [] \<and> is_file_node (t (butlast p)) then Inl (OSError ''Not a directory'')
      else bindR (make_directories t [] (butlast p)) (\<lambda>t. Inr (t(p \<mapsto> TDir None))))"

text \<open>\<^verbatim>\<open>target.open("wb")\<close>, what is written to it until it is closed, and its metadata.\<close>

definition open_target :: "tree \<Rightarrow> pystr list \<Rightarrow> tree result" where
  "open_target t p =
     (case t p of
        Some (TDir _) \<Rightarrow> Inl (OSError ''Is a directory'')
      | _ \<Rightarrow> Inr (t(p \<mapsto> TFile [] None)))"

definition write_target :: "tree \<Rightarrow> pystr list \<Rightarrow> bytes \<Rightarrow> tree" where
  "write_target t p b = t(p \<mapsto> TFile b None)"

fun node_with :: "metadata \<Rightarrow> node \<Rightarrow> node" where
  "node_with m (TFile b _) = TFile b m"
| "node_with m (TDir _) = TDir m"

definition apply_metadata :: "tree \<Rightarrow> pystr list \<Rightarrow> ManifestEntry \<Rightarrow> tree result" where
  "apply_metadata t p e =
     (case t p of
        None \<Rightarrow> Inl (FileNotFoundError ''No such file or directory'')
      | Some n \<Rightarrow> Inr (t(p \<mapsto> node_with (entry_metadata e) n)))"

text \<open>\<^verbatim>\<open>joinpath(*relative_path.split("/"))\<close> drops empty and dot components.\<close>

definition target_for_entry :: "nat \<Rightarrow> ManifestEntry \<Rightarrow> pystr list" where
  "target_for_entry kind e = (if kind = KIND_FILE then [] else posix_components (relative_path e))"

text \<open>
  What the loop over the entries does to the output before and after the contents of an entry;
  \<open>None\<close> is the output of an inspection.
\<close>

definition start_directory :: "nat \<Rightarrow> ManifestEntry \<Rightarrow> tree option \<Rightarrow> tree option result" where
  "start_directory kind e out =
     (case out of None \<Rightarrow> Inr None
      | Some t \<Rightarrow> bindR (make_new_directory t (target_for_entry kind e)) (\<lambda>t. Inr (Some t)))"

definition start_file :: "nat \<Rightarrow> ManifestEntry \<Rightarrow> tree option \<Rightarrow> tree option result" where
  "start_file kind e out =
     (case out of None \<Rightarrow> Inr None
      | Some t \<Rightarrow> let p = target_for_entry kind e in
          bindR (if kind = KIND_FOLDER then make_directories t [] (butlast p) else Inr t) (\<lambda>t.
          bindR (open_target t p) (\<lambda>t. Inr (Some t))))"

definition finish_file :: "nat \<Rightarrow> ManifestEntry \<Rightarrow> bytes \<Rightarrow> tree option \<Rightarrow> tree option result" where
  "finish_file kind e content out =
     (case out of None \<Rightarrow> Inr None
      | Some t \<Rightarrow> let p = target_for_entry kind e in
          bindR (apply_metadata (write_target t p content) p e) (\<lambda>t. Inr (Some t)))"

text \<open>The directories get their metadata deepest first: a stable sort by the number of slashes.\<close>

definition slash_count :: "ManifestEntry \<Rightarrow> nat" where
  "slash_count e = count_list (relative_path e) SLASH"

definition directories_deepest_first :: "ManifestEntry list \<Rightarrow> ManifestEntry list" where
  "directories_deepest_first es = rev (sort_key slash_count (rev (filter is_directory_entry es)))"

fun apply_directories :: "nat \<Rightarrow> ManifestEntry list \<Rightarrow> tree \<Rightarrow> tree result" where
  "apply_directories kind [] t = Inr t"
| "apply_directories kind (e # es) t =
     bindR (apply_metadata t (target_for_entry kind e) e) (\<lambda>t. apply_directories kind es t)"

definition finish_output :: "nat \<Rightarrow> ManifestEntry list \<Rightarrow> tree option \<Rightarrow> tree option result" where
  "finish_output kind es out =
     (case out of
        Some t \<Rightarrow> if kind = KIND_FOLDER
          then bindR (apply_directories kind (directories_deepest_first es) t) (\<lambda>t. Inr (Some t))
          else Inr (Some t)
      | None \<Rightarrow> Inr None)"

section \<open>Publication\<close>

text \<open>The output before the first entry: an empty folder or an empty file.\<close>

definition empty_output :: "nat \<Rightarrow> tree" where
  "empty_output kind = [[] \<mapsto> (if kind = KIND_FOLDER then TDir None else TFile [] None)]"

text \<open>
  \<^verbatim>\<open>_prepare_output\<close>, up to the creation of the temporary output. The decoders of the other
  formats ask for the folder before they make its parents; the parents of a folder that exists
  exist, and \<^verbatim>\<open>mkdir\<close> then makes nothing.
\<close>

definition prepare_output :: "filesystem \<Rightarrow> pystr \<Rightarrow> nat \<Rightarrow> unit result \<times> filesystem" where
  "prepare_output fs destination kind =
     (case make_parents fs destination of
        Inl e \<Rightarrow> (Inl e, fs)
      | Inr fs0 \<Rightarrow>
          (if kind = KIND_FOLDER \<and> path_exists fs0 destination
           then Inl (FileExistsError ''folder destination already exists'') else Inr (), fs0))"

fun node_bytes :: "node option \<Rightarrow> bytes" where
  "node_bytes (Some (TFile b _)) = b"
| "node_bytes _ = []"

fun node_metadata :: "node option \<Rightarrow> metadata" where
  "node_metadata (Some (TFile _ m)) = m"
| "node_metadata (Some (TDir m)) = m"
| "node_metadata None = None"

definition create_output :: "filesystem \<Rightarrow> os_choice \<Rightarrow> nat \<Rightarrow> filesystem" where
  "create_output fs os kind =
     (if kind = KIND_FOLDER
      then fs\<lparr>fs_trees := (fs_trees fs)(oc_temporary os \<mapsto> empty_output kind)\<rparr>
      else fs_create fs os)"

definition cleanup_output :: "filesystem \<Rightarrow> pystr \<Rightarrow> nat \<Rightarrow> filesystem" where
  "cleanup_output fs p kind =
     (if kind = KIND_FOLDER then fs\<lparr>fs_trees := (fs_trees fs)(p := None)\<rparr> else fs_unlink fs p)"

text \<open>
  The temporary output filled with the restored tree and renamed to the destination. A file
  replaces a file and cannot replace a folder; a folder only takes a name that does not exist,
  which \<open>prepare_output\<close> has checked.
\<close>

definition replace_output ::
  "filesystem \<Rightarrow> os_choice \<Rightarrow> pystr \<Rightarrow> nat \<Rightarrow> tree \<Rightarrow> filesystem result" where
  "replace_output fs os destination kind t =
     (if kind = KIND_FOLDER
      then Inr (fs\<lparr>fs_trees := (fs_trees fs)(oc_temporary os := None, destination \<mapsto> t)\<rparr>)
      else if is_folder fs destination then Inl (OSError ''Is a directory'')
      else Inr (fs\<lparr>fs_files := (fs_files fs)(oc_temporary os := None, destination \<mapsto>
        \<lparr>fl_id = oc_identity os, fl_bytes = node_bytes (t []), fl_meta = node_metadata (t [])\<rparr>)\<rparr>))"

text \<open>
  The whole protocol around the entry loop \<open>body\<close>: make the parents of the destination, create the
  output, run the loop, check the destination once more, rename; on any error remove the output,
  and leave the parents.
\<close>

definition publish_output ::
  "filesystem \<Rightarrow> os_choice \<Rightarrow> pystr \<Rightarrow> nat \<Rightarrow> (tree \<Rightarrow> (tree \<times> 'a) result) \<Rightarrow> (filesystem \<Rightarrow> unit result)
     \<Rightarrow> 'a result \<times> filesystem" where
  "publish_output fs os destination kind body check =
     (case prepare_output fs destination kind of
        (Inl e, fs0) \<Rightarrow> (Inl e, fs0)
      | (Inr _, fs0) \<Rightarrow>
          let fs1 = create_output fs0 os kind
          in case bindR (body (empty_output kind)) (\<lambda>(t, x). bindR (check fs1) (\<lambda>_.
                  bindR (replace_output fs1 os destination kind t) (\<lambda>fs2. Inr (x, fs2)))) of
               Inl e \<Rightarrow> (Inl e, cleanup_output fs1 (oc_temporary os) kind)
             | Inr (x, fs2) \<Rightarrow> (Inr x, fs2))"

lemma prepare_output_cases:
  obtains e fs0 where "prepare_output fs dst kind = (Inl e, fs0)" "parents_at_most fs dst fs0"
  | "prepare_output fs dst kind = (Inr (), with_parents fs dst)" "parents_free fs dst"
proof (cases "make_parents fs dst")
  case (Inl e)
  then show ?thesis by (intro that(1)[of e fs]) (simp_all add: prepare_output_def)
next
  case (Inr fs0)
  then show ?thesis
    using that(1)[of "FileExistsError ''folder destination already exists''" fs0] that(2)
    by (cases "kind = KIND_FOLDER \<and> path_exists fs dst") (auto simp: prepare_output_def make_parents_Inr make_parents_free)
qed

lemma publish_output_error:
  assumes "os_law fs os" and "publish_output fs os dst kind body check = (Inl e, fs')"
  shows "parents_at_most fs dst fs'"
proof (rule prepare_output_cases[of fs dst kind])
  fix e fs0 assume "prepare_output fs dst kind = (Inl e, fs0)" "parents_at_most fs dst fs0"
  with assms(2) show ?thesis by (simp add: publish_output_def)
next
  assume prep: "prepare_output fs dst kind = (Inr (), with_parents fs dst)"
  have undo: "cleanup_output (create_output (with_parents fs dst) os kind) (oc_temporary os) kind = with_parents fs dst"
    using assms(1)
    by (simp add: cleanup_output_def create_output_def fs_create_def fs_unlink_def os_law_def fun_upd_idem)
  from assms(2) prep have "fs' = cleanup_output (create_output (with_parents fs dst) os kind) (oc_temporary os) kind"
    by (auto simp: publish_output_def Let_def split: sum.splits)
  with undo show ?thesis by simp
qed

lemma publish_output_success:
  assumes "publish_output fs os dst kind body check = (Inr x, fs')"
  shows "\<exists>t. body (empty_output kind) = Inr (t, x) \<and> check (create_output (with_parents fs dst) os kind) = Inr ()
    \<and> parents_free fs dst \<and> replace_output (create_output (with_parents fs dst) os kind) os dst kind t = Inr fs'"
proof (rule prepare_output_cases[of fs dst kind])
  fix e fs0 assume "prepare_output fs dst kind = (Inl e, fs0)"
  with assms show ?thesis by (simp add: publish_output_def)
next
  assume "prepare_output fs dst kind = (Inr (), with_parents fs dst)" "parents_free fs dst"
  with assms show ?thesis
    by (auto simp: publish_output_def Let_def result_simps split: sum.splits)
qed

lemma publish_output_run:
  assumes "fresh_path fs dst" and "body (empty_output kind) = Inr (t, x)"
    and "check (create_output (with_parents fs dst) os kind) = Inr ()"
    and "replace_output (create_output (with_parents fs dst) os kind) os dst kind t = Inr fs'"
  shows "publish_output fs os dst kind body check = (Inr x, fs')"
  using assms fresh_pathD[OF assms(1)]
  by (simp add: publish_output_def prepare_output_def make_parents_free Let_def)

text \<open>What publication leaves behind, in terms of the files and folders before.\<close>

abbreviation folder_published :: "filesystem \<Rightarrow> pystr \<Rightarrow> tree \<Rightarrow> filesystem" where
  "folder_published fs dst t \<equiv> (with_parents fs dst)\<lparr>fs_trees := (fs_trees fs)(dst \<mapsto> t)\<rparr>"

lemma replace_folder:
  assumes "os_law fs os" and "dst \<noteq> oc_temporary os"
  shows "replace_output (create_output (with_parents fs dst) os KIND_FOLDER) os dst KIND_FOLDER t
    = Inr (folder_published fs dst t)"
  using assms by (auto simp: replace_output_def create_output_def os_law_def fun_eq_iff
      intro!: arg_cong[where f = "\<lambda>x. with_parents fs dst\<lparr>fs_trees := x\<rparr>"])

lemma replace_file:
  assumes "os_law fs os" and "dst \<noteq> oc_temporary os" and "kind \<noteq> KIND_FOLDER" and "writable_path fs dst"
  shows "replace_output (create_output (with_parents fs dst) os kind) os dst kind t
    = Inr (published fs dst \<lparr>fl_id = oc_identity os, fl_bytes = node_bytes (t []), fl_meta = node_metadata (t [])\<rparr>)"
proof -
  have "\<not> is_folder (fs_create (with_parents fs dst) os) dst"
    using assms(4) with_parents_folder(1)[of fs dst]
    by (simp add: writable_path_def is_folder_def fs_create_def)
  with assms show ?thesis by (auto simp: replace_output_def create_output_def fs_create_def os_law_def fun_eq_iff
      intro!: arg_cong[where f = "\<lambda>x. with_parents fs dst\<lparr>fs_files := x\<rparr>"])
qed

section \<open>The restored tree\<close>

text \<open>
  The effect of the entry loop on the output, given the contents: what the decoders do between
  the frames they read.
\<close>

fun restore_items :: "nat \<Rightarrow> (ManifestEntry \<times> bytes) list \<Rightarrow> tree option \<Rightarrow> tree option result" where
  "restore_items kind [] out = Inr out"
| "restore_items kind ((e, b) # items) out =
     (if is_directory_entry e
      then bindR (start_directory kind e out) (restore_items kind items)
      else bindR (start_file kind e out) (\<lambda>out.
        bindR (finish_file kind e b out) (restore_items kind items)))"

lemma restore_items_None: "restore_items kind items None = Inr None"
  by (induction kind items "None :: tree option" rule: restore_items.induct)
    (auto simp: start_directory_def start_file_def finish_file_def)

abbreviation entry_parts where "entry_parts e \<equiv> posix_components (relative_path e)"

text \<open>Every entry lies in a directory that came before it, the root included.\<close>

fun nested_from :: "pystr list set \<Rightarrow> ManifestEntry list \<Rightarrow> bool" where
  "nested_from ds [] \<longleftrightarrow> True"
| "nested_from ds (e # es) \<longleftrightarrow>
     entry_parts e \<noteq> [] \<and> butlast (entry_parts e) \<in> ds
     \<and> nested_from (if is_directory_entry e then insert (entry_parts e) ds else ds) es"

text \<open>The node of an entry, a directory with or without its metadata, and the tree of all entries.\<close>

definition item_node :: "bool \<Rightarrow> ManifestEntry \<times> bytes \<Rightarrow> node" where
  "item_node complete = (\<lambda>(e, b).
     if is_directory_entry e then TDir (if complete then entry_metadata e else None)
     else TFile b (entry_metadata e))"

definition folder_tree :: "bool \<Rightarrow> (ManifestEntry \<times> bytes) list \<Rightarrow> tree" where
  "folder_tree complete items =
     (map_of (map (\<lambda>x. (entry_parts (fst x), item_node complete x)) items))([] \<mapsto> TDir None)"

definition dir_at :: "tree \<Rightarrow> pystr list \<Rightarrow> bool" where
  "dir_at t p \<longleftrightarrow> (\<exists>m. t p = Some (TDir m))"

text \<open>Along existing directories \<open>mkdir\<close> with its parents changes nothing.\<close>

lemma make_directories_id:
  "(\<And>k. k < length cs \<Longrightarrow> dir_at t (base @ take (Suc k) cs)) \<Longrightarrow> make_directories t base cs = Inr t"
proof (induction cs arbitrary: base)
  case (Cons c cs)
  have "dir_at t (base @ [c])" using Cons.prems[of 0] by simp
  moreover have "make_directories t (base @ [c]) cs = Inr t"
    using Cons.prems[of "Suc k" for k] by (intro Cons.IH) simp
  ultimately show ?case by (auto simp: dir_at_def)
qed simp

definition dirs_closed :: "tree \<Rightarrow> bool" where
  "dirs_closed t \<longleftrightarrow> dir_at t [] \<and> (\<forall>p. dir_at t p \<longrightarrow> dir_at t (butlast p))"

lemma dirs_closed_take:
  assumes "dirs_closed t"
  shows "dir_at t p \<Longrightarrow> dir_at t (take k p)"
proof (induction p rule: rev_induct)
  case (snoc x p)
  then have "dir_at t p" using assms by (force simp: dirs_closed_def)
  with snoc show ?case by (cases "k \<le> length p") auto
qed (use assms in \<open>simp add: dirs_closed_def\<close>)

lemma make_directories_closed: "dirs_closed t \<Longrightarrow> dir_at t p \<Longrightarrow> make_directories t [] p = Inr t"
  by (rule make_directories_id) (auto intro: dirs_closed_take)

lemma dirs_closed_insert:
  assumes "dirs_closed t" and "p \<noteq> []" and "dir_at t (butlast p)" and "t p = None"
  shows "dirs_closed (t(p \<mapsto> n))"
  using assms by (auto simp: dirs_closed_def dir_at_def)

lemma upd_add_map_of:
  "k \<notin> fst ` set xs \<Longrightarrow> t(k \<mapsto> v) ++ map_of xs = t ++ map_of ((k, v) # xs)"
proof -
  assume "k \<notin> fst ` set xs"
  then have "map_of xs k = None" by (simp add: map_of_eq_None_iff)
  then show ?thesis by (auto simp: map_add_def fun_eq_iff split: option.splits)
qed

lemma map_of_key:
  "distinct (map k xs) \<Longrightarrow> x \<in> set xs \<Longrightarrow> map_of (map (\<lambda>x. (k x, v x)) xs) (k x) = Some (v x)"
  by (induction xs) (auto simp: image_def)

lemma map_of_no_key:
  "(\<And>x. x \<in> set xs \<Longrightarrow> k x \<noteq> p) \<Longrightarrow> map_of (map (\<lambda>x. (k x, v x)) xs) p = None"
  by (induction xs) auto

lemma restore_folder_items:
  assumes "nested_from ds (map fst items)" and "distinct (map (\<lambda>x. entry_parts (fst x)) items)"
    and "\<forall>x\<in>set items. t (entry_parts (fst x)) = None" and "dirs_closed t" and "\<forall>p\<in>ds. dir_at t p"
  shows "restore_items KIND_FOLDER items (Some t)
    = Inr (Some (t ++ map_of (map (\<lambda>x. (entry_parts (fst x), item_node False x)) items)))"
  using assms
proof (induction items arbitrary: t ds)
  case (Cons x items)
  obtain e b where x: "x = (e, b)" by (cases x)
  let ?p = "entry_parts e"
  let ?t = "t(?p \<mapsto> item_node False x)"
  have p: "?p \<noteq> []" "dir_at t (butlast ?p)" "t ?p = None" using Cons.prems by (auto simp: x)
  have mk: "make_directories t [] (butlast ?p) = Inr t"
    using p Cons.prems(4) by (simp add: make_directories_closed)
  have no_file: "\<not> is_file_node (t (butlast ?p))" using p by (auto simp: dir_at_def is_file_node_def)
  have closed: "dirs_closed ?t" using p Cons.prems(4) by (intro dirs_closed_insert) auto
  have new: "\<forall>y\<in>set items. ?t (entry_parts (fst y)) = None" using Cons.prems(2,3) by (force simp: x)
  have dirs: "dir_at ?t q" if "dir_at t q" for q using that p by (auto simp: dir_at_def)
  have rest: "restore_items KIND_FOLDER items (Some ?t)
      = Inr (Some (?t ++ map_of (map (\<lambda>x. (entry_parts (fst x), item_node False x)) items)))"
  proof (rule Cons.IH[OF _ _ new closed])
    show "nested_from (if is_directory_entry e then insert ?p ds else ds) (map fst items)"
      using Cons.prems(1) by (simp add: x)
    show "\<forall>q\<in>if is_directory_entry e then insert ?p ds else ds. dir_at ?t q"
      using Cons.prems(5) dirs by (auto simp: dir_at_def item_node_def x)
  qed (use Cons.prems in simp)
  have step: "restore_items KIND_FOLDER (x # items) (Some t) = restore_items KIND_FOLDER items (Some ?t)"
    using p mk no_file by (simp add: x start_directory_def start_file_def finish_file_def target_for_entry_def
        make_new_directory_def open_target_def write_target_def apply_metadata_def item_node_def Let_def)
  have eq: "?t ++ map_of (map (\<lambda>x. (entry_parts (fst x), item_node False x)) items)
      = t ++ map_of ((?p, item_node False x) # map (\<lambda>x. (entry_parts (fst x), item_node False x)) items)"
    using Cons.prems(2) by (intro upd_add_map_of) (simp add: x image_image)
  show ?case unfolding step rest eq by (simp only: list.map(2) x fst_conv)
qed simp

text \<open>The metadata pass, in any order of the directories.\<close>

lemma apply_directories_run:
  assumes "distinct (map entry_parts es)" and "\<forall>e\<in>set es. dir_at t (entry_parts e)"
  shows "apply_directories KIND_FOLDER es t
    = Inr (t ++ map_of (map (\<lambda>e. (entry_parts e, TDir (entry_metadata e))) es))"
  using assms
proof (induction es arbitrary: t)
  case (Cons e es)
  from Cons.prems obtain m where m: "t (entry_parts e) = Some (TDir m)" by (auto simp: dir_at_def)
  let ?t = "t(entry_parts e \<mapsto> TDir (entry_metadata e))"
  have "apply_directories KIND_FOLDER es ?t
      = Inr (?t ++ map_of (map (\<lambda>e. (entry_parts e, TDir (entry_metadata e))) es))"
    using Cons.prems by (intro Cons.IH) (auto simp: dir_at_def)
  moreover have "?t ++ map_of (map (\<lambda>e. (entry_parts e, TDir (entry_metadata e))) es)
      = t ++ map_of ((entry_parts e, TDir (entry_metadata e)) # map (\<lambda>e. (entry_parts e, TDir (entry_metadata e))) es)"
    using Cons.prems(1) by (intro upd_add_map_of) auto
  moreover have "apply_directories KIND_FOLDER (e # es) t = apply_directories KIND_FOLDER es ?t"
    by (simp add: apply_metadata_def target_for_entry_def m)
  ultimately show ?case by (simp only: list.map(2))
qed simp

text \<open>The whole output of a folder: exactly the entries, each with its contents and metadata.\<close>

lemma nested_from_nonempty: "nested_from ds es \<Longrightarrow> e \<in> set es \<Longrightarrow> entry_parts e \<noteq> []"
  by (induction es arbitrary: ds) auto

lemma set_directories [simp]:
  "set (directories_deepest_first es) = {e \<in> set es. is_directory_entry e}"
  by (auto simp: directories_deepest_first_def)

lemma distinct_directories:
  assumes "distinct (map f es)"
  shows "distinct (map f (directories_deepest_first es))"
proof -
  have "distinct es" "inj_on f (set es)" using assms by (simp_all add: distinct_map)
  then show ?thesis
    unfolding directories_deepest_first_def by (auto simp: distinct_map intro: inj_on_subset)
qed

text \<open>Completing the directories of the intermediate tree gives the final one.\<close>

lemma complete_tree:
  assumes dist: "distinct (map (\<lambda>x. entry_parts (fst x)) items)"
    and ne: "\<And>x. x \<in> set items \<Longrightarrow> entry_parts (fst x) \<noteq> []"
  shows "folder_tree False items ++ map_of (map (\<lambda>e. (entry_parts e, TDir (entry_metadata e)))
           (directories_deepest_first (map fst items))) = folder_tree True items"
proof
  fix p
  let ?ds = "directories_deepest_first (map fst items)"
  let ?D = "map_of (map (\<lambda>e. (entry_parts e, TDir (entry_metadata e))) ?ds)"
  have dd: "distinct (map entry_parts ?ds)"
    using dist by (intro distinct_directories) (simp add: o_def)
  have same: "x = y" if "x \<in> set items" "y \<in> set items" "entry_parts (fst x) = entry_parts (fst y)" for x y
    using that dist by (auto simp: distinct_map inj_on_def)
  show "(folder_tree False items ++ ?D) p = folder_tree True items p"
  proof (cases "\<exists>x\<in>set items. entry_parts (fst x) = p")
    case True
    then obtain x where x: "x \<in> set items" "entry_parts (fst x) = p" by blast
    have ft: "folder_tree c items p = Some (item_node c x)" for c
      using map_of_key[OF dist x(1), of "item_node c"] ne[OF x(1)] x(2) by (simp add: folder_tree_def)
    show ?thesis
    proof (cases "is_directory_entry (fst x)")
      case True
      then have "fst x \<in> set ?ds" using x(1) by simp
      from map_of_key[OF dd this, of "\<lambda>e. TDir (entry_metadata e)"] ft True x(2) show ?thesis
        by (simp add: map_add_def item_node_def split_beta)
    next
      case False
      have "?D p = None"
      proof (rule map_of_no_key)
        fix e assume "e \<in> set ?ds"
        then obtain y where "y \<in> set items" "fst y = e" "is_directory_entry e" by auto
        with False same[OF x(1)] x(2) show "entry_parts e \<noteq> p" by blast
      qed
      with ft False show ?thesis by (simp add: map_add_def item_node_def split_beta)
    qed
  next
    case False
    then have "map_of (map (\<lambda>x. (entry_parts (fst x), item_node c x)) items) p = None" for c
      by (intro map_of_no_key) blast
    moreover have "?D p = None" using False by (intro map_of_no_key) auto
    ultimately show ?thesis by (simp add: map_add_def folder_tree_def)
  qed
qed

text \<open>The whole output of a folder: exactly the entries, each with its contents and metadata.\<close>

lemma restore_folder:
  assumes nested: "nested_from {[]} (map fst items)" and dist: "distinct (map (\<lambda>x. entry_parts (fst x)) items)"
  shows "bindR (restore_items KIND_FOLDER items (Some (empty_output KIND_FOLDER)))
           (finish_output KIND_FOLDER (map fst items)) = Inr (Some (folder_tree True items))"
proof -
  have ne: "entry_parts (fst x) \<noteq> []" if "x \<in> set items" for x
    using nested_from_nonempty[OF nested] that by simp
  let ?M = "map_of (map (\<lambda>x. (entry_parts (fst x), item_node False x)) items)"
  have "?M [] = None" using ne by (intro map_of_no_key) blast
  then have t1: "empty_output KIND_FOLDER ++ ?M = folder_tree False items"
    by (auto simp: folder_tree_def empty_output_def map_add_def fun_eq_iff split: option.splits)
  have r: "restore_items KIND_FOLDER items (Some (empty_output KIND_FOLDER)) = Inr (Some (folder_tree False items))"
    unfolding t1[symmetric]
    by (rule restore_folder_items[OF nested dist])
      (use ne in \<open>auto simp: empty_output_def dirs_closed_def dir_at_def\<close>)
  have "dir_at (folder_tree False items) (entry_parts e)"
    if "e \<in> set (directories_deepest_first (map fst items))" for e
  proof -
    from that obtain x where "x \<in> set items" "fst x = e" "is_directory_entry e" by auto
    with map_of_key[OF dist, of x "item_node False"] ne[of x] show ?thesis
      by (auto simp: dir_at_def folder_tree_def item_node_def split_beta)
  qed
  then have "apply_directories KIND_FOLDER (directories_deepest_first (map fst items)) (folder_tree False items)
      = Inr (folder_tree False items ++ map_of (map (\<lambda>e. (entry_parts e, TDir (entry_metadata e)))
           (directories_deepest_first (map fst items))))"
    using dist by (intro apply_directories_run distinct_directories) (auto simp: o_def)
  moreover have "folder_tree False items ++ map_of (map (\<lambda>e. (entry_parts e, TDir (entry_metadata e)))
           (directories_deepest_first (map fst items))) = folder_tree True items"
    by (rule complete_tree[OF dist]) (use ne in blast)
  ultimately show ?thesis using r by (simp add: finish_output_def)
qed

lemma restore_single:
  assumes "\<not> is_directory_entry e"
  shows "bindR (restore_items KIND_FILE [(e, b)] (Some (empty_output KIND_FILE)))
           (finish_output KIND_FILE es) = Inr (Some [[] \<mapsto> TFile b (entry_metadata e)])"
  using assms by (simp add: start_file_def finish_file_def target_for_entry_def open_target_def
      write_target_def apply_metadata_def empty_output_def finish_output_def)

end
