(* ===== verification/Manifest.thy ===== *)
theory Manifest
  imports Frames Restore
begin

text \<open>
  The folder manifest of MSC2 (\<^verbatim>\<open>stream_archive.py\<close>, first half): scanning the source into entries
  (which MSC3 to MSC6 share), serialising the manifest and parsing it with all its checks. The
  main lemmas: what a scan yields is a valid manifest, and a valid manifest is parsed back.
\<close>

section \<open>Data\<close>

abbreviation MANIFEST_MAGIC where "MANIFEST_MAGIC \<equiv> ([77, 50, 77, 70] :: bytes)"
abbreviation MANIFEST_PREFIX where "MANIFEST_PREFIX \<equiv> [FBytes 4, FUInt 1, FUInt 2, FUInt 4]"
abbreviation ENTRY_FIXED where "ENTRY_FIXED \<equiv>
  [FUInt 1, FUInt 2, FUInt 4, FSInt 8, FUInt 8, FUInt 8, FUInt 4, FBytes 32]"
abbreviation DATA_PREFIX where "DATA_PREFIX \<equiv> [FUInt 4, FUInt 4, FUInt 1]"
abbreviation MAX_ENTRY_COUNT where "MAX_ENTRY_COUNT \<equiv> (1000000 :: nat)"

record Manifest =
  mf_kind :: nat
  mf_root_name :: pystr
  mf_entries :: "ManifestEntry list"

section \<open>Scanning\<close>

text \<open>\<^verbatim>\<open>path_for\<close> and \<^verbatim>\<open>identity_for(...).st_size\<close> of a session.\<close>

definition session_path :: "source_view \<Rightarrow> pystr \<Rightarrow> unit result" where
  "session_path view relative =
     (if relative \<notin> session_paths view then Inl (KeyError ''source entry was not discovered'') else Inr ())"

definition session_size :: "source_view \<Rightarrow> pystr \<Rightarrow> nat result" where
  "session_size view relative =
     (case find (\<lambda>e. se_relative_path e = relative) (sv_entries view) of
        None \<Rightarrow> Inl (KeyError ''source entry was not discovered'')
      | Some e \<Rightarrow> Inr (se_size e))"

definition hash_file :: "crypto \<Rightarrow> source_view \<Rightarrow> pystr \<Rightarrow> (nat \<times> bytes) result" where
  "hash_file c view relative =
     bindR (session_open view 0 relative) (\<lambda>data.
     bindR (session_size view relative) (\<lambda>size.
       if length data \<noteq> size then Inl (OSError ''input changed while it was being scanned'')
       else Inr (length data, sha256 c data)))"

definition entry_metadata_of ::
  "crypto \<Rightarrow> unicode \<Rightarrow> source_view \<Rightarrow> source_entry \<Rightarrow> nat \<Rightarrow> pystr \<Rightarrow> nat \<Rightarrow> nat \<Rightarrow> bool
     \<Rightarrow> ManifestEntry result" where
  "entry_metadata_of c u view source_entry type relative chunk_size first_frame with_hash =
     bindR (session_path view (se_relative_path source_entry)) (\<lambda>_.
     let mode = S_IMODE (se_st_mode source_entry) mod 512
     in if type = ENTRY_DIRECTORY
        then if \<not> S_ISDIR (se_st_mode source_entry)
             then Inl (ValueError ''expected a directory but found another file type'')
             else bindR (validate_relative_path u relative) (\<lambda>path.
               Inr \<lparr>entry_type = type, relative_path = path, entry_mode = mode,
                    mtime_ns = se_mtime_ns source_entry, entry_size = 0, first_index = 0,
                    index_count = 0, digest = ZERO_HASH\<rparr>)
        else if \<not> S_ISREG (se_st_mode source_entry)
        then Inl (ValueError ''special files are not supported'')
        else bindR (if with_hash then hash_file c view (se_relative_path source_entry)
                    else Inr (se_size source_entry, ZERO_HASH)) (\<lambda>(size, hash).
          bindR (validate_relative_path u relative) (\<lambda>path.
            Inr \<lparr>entry_type = type, relative_path = path, entry_mode = mode,
                 mtime_ns = se_mtime_ns source_entry, entry_size = size, first_index = first_frame,
                 index_count = (size + chunk_size - 1) div chunk_size, digest = hash\<rparr>)))"

fun scan_entries ::
  "crypto \<Rightarrow> unicode \<Rightarrow> source_view \<Rightarrow> nat \<Rightarrow> bool \<Rightarrow> nat \<Rightarrow> pystr set \<Rightarrow> source_entry list
     \<Rightarrow> ManifestEntry list result" where
  "scan_entries c u view chunk_size with_hash next_frame casefolded [] = Inr []"
| "scan_entries c u view chunk_size with_hash next_frame casefolded (source_entry # rest) =
     (let type = (if se_is_directory source_entry then ENTRY_DIRECTORY else ENTRY_FILE)
      in bindR (validate_relative_path u (se_relative_path source_entry)) (\<lambda>normalized.
         let collision_key = casefold u normalized
         in if collision_key \<in> casefolded
            then Inl (ValueError ''portable path collision in input tree'')
            else bindR (entry_metadata_of c u view source_entry type normalized chunk_size next_frame
                          with_hash) (\<lambda>entry.
              bindR (scan_entries c u view chunk_size with_hash
                       (if is_file_entry entry then next_frame + index_count entry else next_frame)
                       (insert collision_key casefolded) rest) (\<lambda>entries.
                Inr (entry # entries)))))"

definition scan_session :: "crypto \<Rightarrow> unicode \<Rightarrow> source_view \<Rightarrow> nat \<Rightarrow> bool \<Rightarrow> Manifest result" where
  "scan_session c u view chunk_size with_hash =
     bindR (validate_relative_path u (sv_name view)) (\<lambda>root_name.
       if sv_root_is_file view
       then case sv_entries view of
              [] \<Rightarrow> Inl (IndexError ''tuple index out of range'')
            | source_entry # _ \<Rightarrow>
                bindR (entry_metadata_of c u view source_entry ENTRY_FILE root_name chunk_size 1 with_hash)
                  (\<lambda>entry. Inr \<lparr>mf_kind = KIND_FILE, mf_root_name = root_name, mf_entries = [entry]\<rparr>)
       else bindR (scan_entries c u view chunk_size with_hash 1 {} (sv_entries view)) (\<lambda>entries.
         if length entries > MAX_ENTRY_COUNT then Inl (ValueError ''input tree has too many entries for MSC2'')
         else Inr \<lparr>mf_kind = KIND_FOLDER, mf_root_name = root_name, mf_entries = entries\<rparr>))"

definition scan_input :: "crypto \<Rightarrow> unicode \<Rightarrow> source_view result \<Rightarrow> nat \<Rightarrow> Manifest result" where
  "scan_input c u session chunk_size = bindR session (\<lambda>view. scan_session c u view chunk_size True)"

section \<open>Serialising\<close>

definition entry_values :: "ManifestEntry \<Rightarrow> bytes \<Rightarrow> sval list" where
  "entry_values e path_bytes =
     [VU (entry_type e), VU (length path_bytes), VU (entry_mode e), VS (mtime_ns e), VU (entry_size e),
      VU (first_index e), VU (index_count e), VB (digest e)]"

fun pack_entries :: "ManifestEntry list \<Rightarrow> bytes result" where
  "pack_entries [] = Inr []"
| "pack_entries (e # es) =
     bindR (utf8_encode (relative_path e)) (\<lambda>path_bytes.
     bindR (struct_pack ENTRY_FIXED (entry_values e path_bytes)) (\<lambda>fixed.
     bindR (pack_entries es) (\<lambda>out. Inr (fixed @ path_bytes @ out))))"

definition serialize_manifest :: "Manifest \<Rightarrow> bytes result" where
  "serialize_manifest manifest =
     bindR (utf8_encode (mf_root_name manifest)) (\<lambda>root_name.
     bindR (struct_pack MANIFEST_PREFIX
              [VB MANIFEST_MAGIC, VU (mf_kind manifest), VU (length root_name),
               VU (length (mf_entries manifest))]) (\<lambda>prefix.
     bindR (pack_entries (mf_entries manifest)) (\<lambda>body. Inr (prefix @ root_name @ body))))"

section \<open>Parsing\<close>

definition msc2_read :: "bytes \<Rightarrow> nat \<Rightarrow> (bytes \<times> bytes) result" where
  "msc2_read = read_exact ''MSC2 metadata is truncated''"

text \<open>\<open>raw.decode("utf-8")\<close> and the path check, whose errors become one format error.\<close>

definition decode_manifest_path :: "unicode \<Rightarrow> string \<Rightarrow> bytes \<Rightarrow> (pystr \<times> pystr) result" where
  "decode_manifest_path u message raw =
     reraise (ArchiveFormatError message)
       (bindR (utf8_decode raw) (\<lambda>path.
        bindR (validate_relative_path u path) (\<lambda>checked. Inr (path, checked))))"

definition entry_of_values :: "sval list \<Rightarrow> pystr \<Rightarrow> ManifestEntry" where
  "entry_of_values vs path =
     \<lparr>entry_type = uval (vs ! 0), relative_path = path, entry_mode = uval (vs ! 2),
      mtime_ns = ival (vs ! 3), entry_size = uval (vs ! 4), first_index = uval (vs ! 5),
      index_count = uval (vs ! 6), digest = bval (vs ! 7)\<rparr>"

definition check_frame_range :: "nat \<Rightarrow> nat \<Rightarrow> ManifestEntry \<Rightarrow> nat result" where
  "check_frame_range chunk_size expected_next_frame e =
     (if is_directory_entry e
      then if entry_size e \<noteq> 0 \<or> first_index e \<noteq> 0 \<or> index_count e \<noteq> 0 \<or> digest e \<noteq> ZERO_HASH
           then Inl (ArchiveFormatError ''MSC2 directory entry is malformed'')
           else Inr expected_next_frame
      else if index_count e \<noteq> (entry_size e + chunk_size - 1) div chunk_size
              \<or> first_index e \<noteq> expected_next_frame
           then Inl (ArchiveFormatError ''MSC2 file entry frame range is invalid'')
           else Inr (expected_next_frame + index_count e))"

fun parse_entries ::
  "unicode \<Rightarrow> nat \<Rightarrow> nat \<Rightarrow> pystr set \<Rightarrow> nat \<Rightarrow> bytes \<Rightarrow> (ManifestEntry list \<times> nat \<times> bytes) result" where
  "parse_entries u chunk_size 0 collision_keys expected stream = Inr ([], expected, stream)"
| "parse_entries u chunk_size (Suc n) collision_keys expected stream =
     bindR (msc2_read stream (struct_size ENTRY_FIXED)) (\<lambda>(fixed, stream).
     bindR (struct_unpack ENTRY_FIXED fixed) (\<lambda>vs.
       if uval (vs ! 0) \<noteq> ENTRY_FILE \<and> uval (vs ! 0) \<noteq> ENTRY_DIRECTORY
       then Inl (ArchiveFormatError ''MSC2 entry has an unknown type'')
       else bindR (msc2_read stream (uval (vs ! 1))) (\<lambda>(raw, stream).
         bindR (decode_manifest_path u ''MSC2 entry has an unsafe path'' raw) (\<lambda>(raw_path, path).
           if path \<noteq> raw_path then Inl (ArchiveFormatError ''MSC2 entry path is not canonical'')
           else if casefold u path \<in> collision_keys
           then Inl (ArchiveFormatError ''MSC2 manifest contains a portable path collision'')
           else let e = entry_of_values vs path
           in if entry_mode e > 511 then Inl (ArchiveFormatError ''MSC2 entry mode is invalid'')
              else bindR (check_frame_range chunk_size expected e) (\<lambda>expected.
                bindR (parse_entries u chunk_size n (insert (casefold u path) collision_keys) expected stream)
                  (\<lambda>(es, expected, stream). Inr (e # es, expected, stream)))))))"

text \<open>\<^verbatim>\<open>Path(relative_path).parent.as_posix()\<close> of a relative path.\<close>

definition posix_parent :: "pystr \<Rightarrow> pystr" where
  "posix_parent path =
     (let parts = butlast (posix_components path)
      in if parts = [] then [DOT] else join_with SLASH parts)"

definition parents_present :: "ManifestEntry list \<Rightarrow> bool" where
  "parents_present es \<longleftrightarrow>
     (let directory_paths = set (map relative_path (filter is_directory_entry es))
      in list_all (\<lambda>e. posix_parent (relative_path e) = [DOT]
           \<or> posix_parent (relative_path e) \<in> directory_paths) es)"

definition single_file_manifest :: "pystr \<Rightarrow> ManifestEntry list \<Rightarrow> bool" where
  "single_file_manifest root_name es \<longleftrightarrow>
     length es = 1 \<and> is_file_entry (es ! 0) \<and> relative_path (es ! 0) = root_name"

definition parse_manifest :: "unicode \<Rightarrow> bytes \<Rightarrow> Msc2Header \<Rightarrow> Manifest result" where
  "parse_manifest u data header =
     bindR (msc2_read data (struct_size MANIFEST_PREFIX)) (\<lambda>(prefix, stream).
     bindR (struct_unpack MANIFEST_PREFIX prefix) (\<lambda>vs.
       let kind = uval (vs ! 1); root_length = uval (vs ! 2); entry_count = uval (vs ! 3)
       in if bval (vs ! 0) \<noteq> MANIFEST_MAGIC \<or> kind \<noteq> KIND_FILE \<and> kind \<noteq> KIND_FOLDER
          then Inl (ArchiveFormatError ''MSC2 manifest prefix is invalid'')
          else if entry_count > MAX_ENTRY_COUNT
          then Inl (ArchiveFormatError ''MSC2 manifest has too many entries'')
          else bindR (msc2_read stream root_length) (\<lambda>(raw, stream).
            bindR (decode_manifest_path u ''MSC2 root name is invalid'' raw) (\<lambda>(raw_root, root_name).
              if SLASH \<in> set root_name \<or> root_name \<noteq> raw_root
              then Inl (ArchiveFormatError ''MSC2 root name is not a canonical basename'')
              else bindR (parse_entries u (m2_chunk_size header) entry_count {} 1 stream)
                (\<lambda>(entries, expected, stream).
                if stream \<noteq> [] then Inl (ArchiveFormatError ''MSC2 manifest contains trailing bytes'')
                else if expected \<noteq> m2_frame_count header
                then Inl (ArchiveFormatError ''MSC2 manifest frame ranges do not match the public header'')
                else if kind = KIND_FILE \<and> \<not> single_file_manifest root_name entries
                then Inl (ArchiveFormatError ''MSC2 single-file manifest is malformed'')
                else if kind = KIND_FOLDER \<and> \<not> parents_present entries
                then Inl (ArchiveFormatError ''MSC2 manifest omits a required parent directory'')
                else Inr \<lparr>mf_kind = kind, mf_root_name = root_name, mf_entries = entries\<rparr>)))))"

section \<open>Round trip\<close>

text \<open>A path or name that the check accepts unchanged.\<close>

definition portable :: "unicode \<Rightarrow> pystr \<Rightarrow> bool" where
  "portable u path \<longleftrightarrow> validate_relative_path u path = Inr path"

fun valid_entries :: "unicode \<Rightarrow> nat \<Rightarrow> pystr set \<Rightarrow> nat \<Rightarrow> ManifestEntry list \<Rightarrow> nat \<Rightarrow> bool" where
  "valid_entries u chunk_size collision_keys expected [] final \<longleftrightarrow> final = expected"
| "valid_entries u chunk_size collision_keys expected (e # es) final \<longleftrightarrow>
     (is_file_entry e \<or> is_directory_entry e) \<and> portable u (relative_path e)
     \<and> casefold u (relative_path e) \<notin> collision_keys \<and> entry_mode e \<le> 511 \<and> length (digest e) = 32
     \<and> (\<exists>expected'. check_frame_range chunk_size expected e = Inr expected'
          \<and> valid_entries u chunk_size (insert (casefold u (relative_path e)) collision_keys) expected' es final)"

lemma decode_manifest_path_encode:
  "utf8_encode path = Inr b \<Longrightarrow> portable u path \<Longrightarrow> decode_manifest_path u m b = Inr (path, path)"
  using utf8_decode_encode by (simp add: decode_manifest_path_def portable_def)

lemma entry_fixed_roundtrip:
  assumes "struct_pack ENTRY_FIXED (entry_values e pb) = Inr fixed" and "length (digest e) = 32"
  shows "length fixed = struct_size ENTRY_FIXED \<and> struct_unpack ENTRY_FIXED fixed = Inr (entry_values e pb)"
proof -
  have "list_all2 field_exact ENTRY_FIXED (entry_values e pb)"
    using assms by (auto simp: struct_pack_def entry_values_def split: if_splits)
  from struct_unpack_pack[OF this assms(1)] struct_pack_length[OF assms(1)] show ?thesis by simp
qed

lemma entry_of_values_id: "entry_of_values (entry_values e pb) (relative_path e) = e"
  by (simp add: entry_of_values_def entry_values_def)

lemma pack_entries_parse:
  assumes "pack_entries es = Inr body" and "valid_entries u chunk_size keys expected es final"
  shows "parse_entries u chunk_size (length es) keys expected (body @ rest) = Inr (es, final, rest)"
  using assms
proof (induction es arbitrary: body keys expected)
  case (Cons e es)
  from Cons.prems(1) obtain pb fixed out where pb: "utf8_encode (relative_path e) = Inr pb"
    and fixed: "struct_pack ENTRY_FIXED (entry_values e pb) = Inr fixed"
    and out: "pack_entries es = Inr out" and body: "body = fixed @ pb @ out"
    by (auto simp: result_simps)
  from Cons.prems(2) obtain expected' where e: "is_file_entry e \<or> is_directory_entry e"
    "portable u (relative_path e)" "casefold u (relative_path e) \<notin> keys" "entry_mode e \<le> 511"
    "length (digest e) = 32" and range: "check_frame_range chunk_size expected e = Inr expected'"
    and valid: "valid_entries u chunk_size (insert (casefold u (relative_path e)) keys) expected' es final"
    by auto
  note f = entry_fixed_roundtrip[OF fixed e(5)]
  have vals: "uval (entry_values e pb ! 0) = entry_type e" "uval (entry_values e pb ! 1) = length pb"
    by (simp_all add: entry_values_def)
  have r1: "msc2_read (body @ rest) (struct_size ENTRY_FIXED) = Inr (fixed, pb @ out @ rest)"
    using f by (simp add: body msc2_read_def)
  have r2: "msc2_read (pb @ out @ rest) (length pb) = Inr (pb, out @ rest)" by (simp add: msc2_read_def)
  have ty: "\<not> (entry_type e \<noteq> ENTRY_FILE \<and> entry_type e \<noteq> ENTRY_DIRECTORY)"
    using e(1) by (auto simp: is_file_entry_def is_directory_entry_def)
  from Cons.IH[OF out valid] r1 r2 f ty e range decode_manifest_path_encode[OF pb e(2)] show ?case
    by (simp add: vals entry_of_values_id Let_def del: One_nat_def)
qed simp

definition valid_manifest :: "unicode \<Rightarrow> nat \<Rightarrow> nat \<Rightarrow> Manifest \<Rightarrow> bool" where
  "valid_manifest u chunk_size frame_count m \<longleftrightarrow>
     portable u (mf_root_name m) \<and> SLASH \<notin> set (mf_root_name m)
     \<and> length (mf_entries m) \<le> MAX_ENTRY_COUNT
     \<and> valid_entries u chunk_size {} 1 (mf_entries m) frame_count
     \<and> (mf_kind m = KIND_FILE \<and> single_file_manifest (mf_root_name m) (mf_entries m)
        \<or> mf_kind m = KIND_FOLDER \<and> parents_present (mf_entries m))"

lemma manifest_roundtrip:
  assumes ser: "serialize_manifest m = Inr data"
    and valid: "valid_manifest u (m2_chunk_size h) (m2_frame_count h) m"
  shows "parse_manifest u data h = Inr m"
proof -
  from ser obtain nb prefix body where nb: "utf8_encode (mf_root_name m) = Inr nb"
    and prefix: "struct_pack MANIFEST_PREFIX [VB MANIFEST_MAGIC, VU (mf_kind m), VU (length nb),
        VU (length (mf_entries m))] = Inr prefix"
    and body: "pack_entries (mf_entries m) = Inr body" and data: "data = prefix @ nb @ body"
    by (auto simp: serialize_manifest_def result_simps)
  let ?vs = "[VB MANIFEST_MAGIC, VU (mf_kind m), VU (length nb), VU (length (mf_entries m))]"
  have "list_all2 field_exact MANIFEST_PREFIX ?vs"
    using prefix by (auto simp: struct_pack_def split: if_splits)
  from struct_unpack_pack[OF this prefix] have un: "struct_unpack MANIFEST_PREFIX prefix = Inr ?vs" .
  have r1: "msc2_read data (struct_size MANIFEST_PREFIX) = Inr (prefix, nb @ body)"
    using struct_pack_length[OF prefix] by (simp add: data msc2_read_def)
  have r2: "msc2_read (nb @ body) (length nb) = Inr (nb, body)" by (simp add: msc2_read_def)
  note v = valid[unfolded valid_manifest_def]
  have path: "decode_manifest_path u ''MSC2 root name is invalid'' nb = Inr (mf_root_name m, mf_root_name m)"
    using decode_manifest_path_encode[OF nb] v by blast
  have es: "parse_entries u (m2_chunk_size h) (length (mf_entries m)) {} 1 body
      = Inr (mf_entries m, m2_frame_count h, [])"
    using pack_entries_parse[OF body, of u "m2_chunk_size h" "{}" 1 "m2_frame_count h" "[]"] v by simp
  show ?thesis
    using v un r1 r2 path es by (cases m) (auto simp: parse_manifest_def Let_def)
qed

section \<open>What a scan yields\<close>

text \<open>
  What discovery gives for a folder whose names are in normal form: every relative path is its
  components joined by slashes, its directory was listed before it, and normalisation leaves it
  alone.
\<close>

fun discovered_from :: "pystr list set \<Rightarrow> source_entry list \<Rightarrow> bool" where
  "discovered_from ds [] \<longleftrightarrow> True"
| "discovered_from ds (se # rest) \<longleftrightarrow>
     (let parts = posix_components (se_relative_path se)
      in se_relative_path se = join_with SLASH parts \<and> parts \<noteq> [] \<and> butlast parts \<in> ds
         \<and> discovered_from (if se_is_directory se then insert parts ds else ds) rest)"

definition portable_view :: "unicode \<Rightarrow> source_view \<Rightarrow> bool" where
  "portable_view u view \<longleftrightarrow>
     nfc u (sv_name view) = sv_name view \<and> SLASH \<notin> set (sv_name view)
     \<and> (if sv_root_is_file view
        then \<exists>se. sv_entries view = [se] \<and> se_relative_path se = []
        else discovered_from {[]} (sv_entries view)
          \<and> (\<forall>se\<in>set (sv_entries view). nfc u (se_relative_path se) = se_relative_path se))"

lemma validate_normal: "nfc u s = s \<Longrightarrow> validate_relative_path u s = Inr r \<Longrightarrow> r = s \<and> portable u s"
  using validate_relative_path_Inr[of u s r] by (simp add: portable_def)

text \<open>An entry made from a source entry.\<close>

definition entry_from :: "source_entry \<Rightarrow> ManifestEntry \<Rightarrow> bool" where
  "entry_from se e \<longleftrightarrow> relative_path e = se_relative_path se
     \<and> is_directory_entry e = se_is_directory se \<and> is_file_entry e = (\<not> se_is_directory se)
     \<and> entry_metadata e = Some (S_IMODE (se_st_mode se) mod 512, se_mtime_ns se)"

lemma entry_metadata_of_Inr:
  assumes "entry_metadata_of c u view se ty path chunk first wh = Inr e"
    and "nfc u path = path" and "digest_law c" and "ty \<in> {ENTRY_FILE, ENTRY_DIRECTORY}"
  shows "portable u path \<and> relative_path e = path \<and> entry_type e = ty \<and> entry_mode e \<le> 511
    \<and> length (digest e) = 32 \<and> entry_metadata e = Some (S_IMODE (se_st_mode se) mod 512, se_mtime_ns se)
    \<and> check_frame_range chunk first e = Inr (if is_file_entry e then first + index_count e else first)
    \<and> (if ty = ENTRY_DIRECTORY then e = \<lparr>entry_type = ty, relative_path = path, entry_mode = entry_mode e,
          mtime_ns = se_mtime_ns se, entry_size = 0, first_index = 0, index_count = 0, digest = ZERO_HASH\<rparr>
       else if wh then \<exists>data. session_open view 0 (se_relative_path se) = Inr data
          \<and> entry_size e = length data \<and> digest e = sha256 c data
       else entry_size e = se_size se \<and> digest e = ZERO_HASH)"
proof -
  have m: "S_IMODE (se_st_mode se) mod 512 \<le> 511" using mod_less_divisor[of 512] by (simp add: less_Suc_eq_le[symmetric])
  have p: "r = path \<and> portable u path" if "validate_relative_path u path = Inr r" for r
    using validate_normal[OF assms(2) that] .
  show ?thesis
  proof (cases "ty = ENTRY_DIRECTORY")
    case True
    with assms(1) show ?thesis
      by (auto simp: entry_metadata_of_def Let_def bindR_eq_Inr check_frame_range_def is_directory_entry_def
          is_file_entry_def entry_metadata_def m dest!: p split: if_splits)
  next
    case False
    with assms(1) obtain size hash where e: "e = \<lparr>entry_type = ty, relative_path = path,
        entry_mode = S_IMODE (se_st_mode se) mod 512, mtime_ns = se_mtime_ns se, entry_size = size,
        first_index = first, index_count = (size + chunk - 1) div chunk, digest = hash\<rparr>"
      and hash: "(if wh then hash_file c view (se_relative_path se) else Inr (se_size se, ZERO_HASH)) = Inr (size, hash)"
      and port: "portable u path"
      by (auto simp: entry_metadata_of_def Let_def bindR_eq_Inr split: if_splits dest: p)
    have "if wh then \<exists>data. session_open view 0 (se_relative_path se) = Inr data
        \<and> size = length data \<and> hash = sha256 c data else size = se_size se \<and> hash = ZERO_HASH"
      using hash by (auto simp: hash_file_def bindR_eq_Inr split: if_splits)
    moreover from this have "length hash = 32" using assms(3) by (auto simp: digest_law_def split: if_splits)
    ultimately show ?thesis using False assms(4) m port
      by (auto simp: e check_frame_range_def is_directory_entry_def is_file_entry_def entry_metadata_def)
  qed
qed

definition file_frames :: "ManifestEntry list \<Rightarrow> nat" where
  "file_frames es = sum_list (map index_count (filter is_file_entry es))"

lemma scan_entries_ConsE:
  assumes scan: "scan_entries c u view chunk wh first keys (se # ses) = Inr es"
    and nfc: "nfc u (se_relative_path se) = se_relative_path se"
  obtains e es' where "es = e # es'" and "casefold u (se_relative_path se) \<notin> keys"
    and "entry_metadata_of c u view se (if se_is_directory se then ENTRY_DIRECTORY else ENTRY_FILE)
      (se_relative_path se) chunk first wh = Inr e"
    and "scan_entries c u view chunk wh (if is_file_entry e then first + index_count e else first)
      (insert (casefold u (se_relative_path se)) keys) ses = Inr es'"
proof -
  define ty where "ty = (if se_is_directory se then ENTRY_DIRECTORY else ENTRY_FILE)"
  let ?p = "se_relative_path se"
  obtain r where r: "validate_relative_path u ?p = Inr r"
    using scan by (cases "validate_relative_path u ?p") (auto simp: Let_def)
  with validate_normal[OF nfc] have p: "validate_relative_path u ?p = Inr ?p" by simp
  have key: "casefold u ?p \<notin> keys" using scan p by (auto simp: Let_def split: if_splits)
  from scan p key obtain e es' where
    "entry_metadata_of c u view se ty ?p chunk first wh = Inr e"
    "scan_entries c u view chunk wh (if is_file_entry e then first + index_count e else first)
        (insert (casefold u ?p) keys) ses = Inr es'" "es = e # es'"
    by (auto simp: Let_def bindR_eq_Inr ty_def simp del: One_nat_def)
  with key that show thesis by (simp add: ty_def)
qed

lemma scan_entries_Inr:
  assumes "scan_entries c u view chunk wh first keys ses = Inr es" and "digest_law c"
    and "\<forall>se\<in>set ses. nfc u (se_relative_path se) = se_relative_path se"
  shows "list_all2 entry_from ses es \<and> valid_entries u chunk keys first es (first + file_frames es)"
  using assms
proof (induction ses arbitrary: first keys es)
  case Nil
  then show ?case by (simp add: file_frames_def)
next
  case (Cons se ses)
  define ty where "ty = (if se_is_directory se then ENTRY_DIRECTORY else ENTRY_FILE)"
  let ?p = "se_relative_path se"
  from Cons.prems(3) have nfc: "nfc u ?p = ?p" by simp
  from scan_entries_ConsE[OF Cons.prems(1) nfc] obtain e es' where es: "es = e # es'"
    and key: "casefold u ?p \<notin> keys" and e: "entry_metadata_of c u view se ty ?p chunk first wh = Inr e"
    and es': "scan_entries c u view chunk wh (if is_file_entry e then first + index_count e else first)
        (insert (casefold u ?p) keys) ses = Inr es'" unfolding ty_def by blast
  have "ty \<in> {ENTRY_FILE, ENTRY_DIRECTORY}" by (simp add: ty_def)
  note m = entry_metadata_of_Inr[OF e nfc Cons.prems(2) this]
  have from_se: "entry_from se e"
    using m by (auto simp: entry_from_def ty_def is_directory_entry_def is_file_entry_def split: if_splits)
  from Cons.IH[OF es' Cons.prems(2)] Cons.prems(3) have
    ih: "list_all2 entry_from ses es'" "valid_entries u chunk (insert (casefold u ?p) keys)
      (if is_file_entry e then first + index_count e else first) es'
      ((if is_file_entry e then first + index_count e else first) + file_frames es')" by simp_all
  have total: "first + file_frames es = (if is_file_entry e then first + index_count e else first) + file_frames es'"
    by (simp add: es file_frames_def)
  have kind: "is_file_entry e \<or> is_directory_entry e" using from_se by (auto simp: entry_from_def)
  show ?case using m ih from_se key kind unfolding es total[unfolded es] by simp
qed

lemma valid_entries_distinct:
  "valid_entries u chunk keys first es final \<Longrightarrow>
   distinct (map relative_path es) \<and> (\<forall>e\<in>set es. casefold u (relative_path e) \<notin> keys)"
  by (induction es arbitrary: keys first) fastforce+

lemma discovered_nested:
  assumes "list_all2 entry_from ses es" and "discovered_from ds ses"
  shows "nested_from ds es \<and> (\<forall>e\<in>set es. relative_path e = join_with SLASH (entry_parts e))"
  using assms
proof (induction arbitrary: ds rule: list_all2_induct)
  case (Cons se ses e es)
  then show ?case by (auto simp: entry_from_def Let_def)
qed simp

lemma nested_parents:
  assumes "nested_from ds es" and "e \<in> set es"
  shows "butlast (entry_parts e) \<in> ds \<union> entry_parts ` {d \<in> set es. is_directory_entry d}"
  using assms
proof (induction es arbitrary: ds)
  case (Cons d es)
  show ?case
  proof (cases "e = d")
    case False
    with Cons have "butlast (entry_parts e) \<in> (if is_directory_entry d then insert (entry_parts d) ds else ds)
        \<union> entry_parts ` {d \<in> set es. is_directory_entry d}" by auto
    then show ?thesis by (auto split: if_splits)
  qed (use Cons in simp)
qed simp

lemma discovered_parents_present:
  assumes "nested_from {[]} es" and "\<forall>e\<in>set es. relative_path e = join_with SLASH (entry_parts e)"
  shows "parents_present es"
proof -
  have "posix_parent (relative_path e) = [DOT]
      \<or> posix_parent (relative_path e) \<in> set (map relative_path (filter is_directory_entry es))"
    if e: "e \<in> set es" for e
  proof (cases "butlast (entry_parts e) = []")
    case True
    then show ?thesis by (simp add: posix_parent_def)
  next
    case False
    with nested_parents[OF assms(1) e] obtain d where
      d: "d \<in> set es" "is_directory_entry d" "butlast (entry_parts e) = entry_parts d" by auto
    with assms(2) False have "posix_parent (relative_path e) = relative_path d"
      by (simp add: posix_parent_def)
    with d show ?thesis by auto
  qed
  then show ?thesis by (simp add: parents_present_def list_all_iff)
qed

lemma distinct_parts:
  assumes "distinct (map relative_path es)" and "\<forall>e\<in>set es. relative_path e = join_with SLASH (entry_parts e)"
  shows "distinct (map entry_parts es)"
  using assms by (auto simp: distinct_map inj_on_def) metis+

text \<open>What a scan of a portable view gives: a manifest that the parser accepts.\<close>

lemma scan_session_Inr:
  assumes scan: "scan_session c u view chunk wh = Inr m" and d: "digest_law c" and view: "portable_view u view"
  shows "valid_manifest u chunk (1 + file_frames (mf_entries m)) m
    \<and> mf_kind m = (if sv_root_is_file view then KIND_FILE else KIND_FOLDER)
    \<and> mf_root_name m = sv_name view
    \<and> (if sv_root_is_file view
       then \<exists>se e. sv_entries view = [se] \<and> se_relative_path se = [] \<and> mf_entries m = [e]
         \<and> is_file_entry e \<and> entry_metadata e = Some (S_IMODE (se_st_mode se) mod 512, se_mtime_ns se)
       else list_all2 entry_from (sv_entries view) (mf_entries m)
         \<and> nested_from {[]} (mf_entries m) \<and> distinct (map entry_parts (mf_entries m)))"
proof -
  note v = view[unfolded portable_view_def]
  obtain r where "validate_relative_path u (sv_name view) = Inr r"
    using scan by (auto simp: scan_session_def bindR_eq_Inr)
  with validate_normal[of u "sv_name view"] v have name: "validate_relative_path u (sv_name view) = Inr (sv_name view)"
    "portable u (sv_name view)" by auto
  show ?thesis
  proof (cases "sv_root_is_file view")
    case True
    with v obtain se where se: "sv_entries view = [se]" "se_relative_path se = []" by auto
    from scan name True se obtain e where
      e: "entry_metadata_of c u view se ENTRY_FILE (sv_name view) chunk 1 wh = Inr e"
      and m: "m = \<lparr>mf_kind = KIND_FILE, mf_root_name = sv_name view, mf_entries = [e]\<rparr>"
      by (auto simp: scan_session_def bindR_eq_Inr)
    have nfc: "nfc u (sv_name view) = sv_name view" using v by blast
    from entry_metadata_of_Inr[OF e nfc d] have em: "portable u (sv_name view)" "relative_path e = sv_name view"
      "is_file_entry e" "\<not> is_directory_entry e" "entry_mode e \<le> 511" "length (digest e) = 32"
      "entry_metadata e = Some (S_IMODE (se_st_mode se) mod 512, se_mtime_ns se)"
      "check_frame_range chunk 1 e = Inr (1 + index_count e)"
      by (auto simp: is_file_entry_def is_directory_entry_def)
    then show ?thesis using v True se name
      by (auto simp: m valid_manifest_def single_file_manifest_def file_frames_def)
  next
    case False
    from scan name False obtain es where es: "scan_entries c u view chunk wh 1 {} (sv_entries view) = Inr es"
      and n: "length es \<le> MAX_ENTRY_COUNT"
      and m: "m = \<lparr>mf_kind = KIND_FOLDER, mf_root_name = sv_name view, mf_entries = es\<rparr>"
      by (auto simp: scan_session_def bindR_eq_Inr split: if_splits)
    from v False have disc: "discovered_from {[]} (sv_entries view)"
      and nfc: "\<forall>se\<in>set (sv_entries view). nfc u (se_relative_path se) = se_relative_path se" by auto
    note s = scan_entries_Inr[OF es d nfc]
    from s disc have nested: "nested_from {[]} es"
      and canon: "\<forall>e\<in>set es. relative_path e = join_with SLASH (entry_parts e)"
      using discovered_nested by blast+
    have dist: "distinct (map entry_parts es)"
      using valid_entries_distinct[of u chunk "{}" 1 es] s canon by (intro distinct_parts) auto
    show ?thesis
      using s n v name nested dist discovered_parents_present[OF nested canon] False
      by (simp add: m valid_manifest_def)
  qed
qed

section \<open>What can be scanned and serialised\<close>

text \<open>
  A source that the scan accepts, in terms of what discovery found: names and paths that are
  portable and apart under case folding, a file type that agrees with the kind, times and sizes
  within their fields, and files that can be read at the size that was recorded.
\<close>

definition storable_entry :: "source_view \<Rightarrow> source_entry \<Rightarrow> bool" where
  "storable_entry view se \<longleftrightarrow>
     - (2 ^ 63) \<le> se_mtime_ns se \<and> se_mtime_ns se < 2 ^ 63
     \<and> (if se_is_directory se then S_ISDIR (se_st_mode se)
        else S_ISREG (se_st_mode se) \<and> se_size se < 2 ^ 64
          \<and> (\<exists>data. sv_read view 0 (se_relative_path se) = Inr data \<and> length data = se_size se))"

definition storable_view :: "unicode \<Rightarrow> source_view \<Rightarrow> bool" where
  "storable_view u view \<longleftrightarrow>
     portable u (sv_name view) \<and> (\<forall>se\<in>set (sv_entries view). storable_entry view se)
     \<and> (if sv_root_is_file view then \<forall>se\<in>set (sv_entries view). \<not> se_is_directory se
        else (\<forall>se\<in>set (sv_entries view). portable u (se_relative_path se))
          \<and> distinct (map (\<lambda>se. casefold u (se_relative_path se)) (sv_entries view))
          \<and> length (sv_entries view) \<le> MAX_ENTRY_COUNT)"

text \<open>The sizes that follow: bytes of the files, data frames, bytes of the manifest.\<close>

definition files_of :: "source_view \<Rightarrow> source_entry list" where
  "files_of view = filter (\<lambda>se. \<not> se_is_directory se) (sv_entries view)"

definition frames_for :: "nat \<Rightarrow> source_entry list \<Rightarrow> nat" where
  "frames_for chunk_size ses =
     sum_list (map (\<lambda>se. (se_size se + chunk_size - 1) div chunk_size) (filter (\<lambda>se. \<not> se_is_directory se) ses))"

definition path_length :: "pystr \<Rightarrow> nat" where
  "path_length path = (case utf8_encode path of Inl _ \<Rightarrow> 0 | Inr b \<Rightarrow> length b)"

definition manifest_length :: "source_view \<Rightarrow> nat" where
  "manifest_length view =
     struct_size MANIFEST_PREFIX + path_length (sv_name view)
     + sum_list (map (\<lambda>se. struct_size ENTRY_FIXED
         + path_length (if sv_root_is_file view then sv_name view else se_relative_path se)) (sv_entries view))"

text \<open>What an entry has from its source entry.\<close>

definition entry_matches :: "nat \<Rightarrow> pystr \<Rightarrow> source_entry \<Rightarrow> ManifestEntry \<Rightarrow> bool" where
  "entry_matches chunk_size path se e \<longleftrightarrow>
     relative_path e = path \<and> is_file_entry e = (\<not> se_is_directory se) \<and> entry_type e \<in> {ENTRY_FILE, ENTRY_DIRECTORY}
     \<and> entry_mode e \<le> 511 \<and> mtime_ns e = se_mtime_ns se
     \<and> entry_size e = (if se_is_directory se then 0 else se_size se)
     \<and> index_count e = (if se_is_directory se then 0 else (se_size se + chunk_size - 1) div chunk_size)"

lemma portable_utf8:
  assumes "portable u path"
  shows "\<exists>b. utf8_encode path = Inr b \<and> length b = path_length path \<and> length b \<le> 65535"
  using assms unfolding portable_def validate_relative_path_def Let_def path_length_def
  by (auto simp: bindR_eq_Inr split: if_split_asm)

lemma entry_metadata_of_total:
  assumes st: "storable_entry view se" and se: "se \<in> set (sv_entries view)"
    and found: "find (\<lambda>e. se_relative_path e = se_relative_path se) (sv_entries view) = Some se"
    and path: "portable u path" and ty: "ty = (if se_is_directory se then ENTRY_DIRECTORY else ENTRY_FILE)"
  shows "\<exists>e. entry_metadata_of c u view se ty path chunk first True = Inr e \<and> entry_matches chunk path se e
    \<and> first_index e \<le> first"
proof -
  have m: "S_IMODE (se_st_mode se) mod 512 \<le> 511" using mod_less_divisor[of 512] by (simp add: less_Suc_eq_le[symmetric])
  have "se_relative_path se \<in> session_paths view" using se by (simp add: session_paths_def)
  with st found path m show ?thesis
    by (auto simp: entry_metadata_of_def session_path_def storable_entry_def ty portable_def Let_def hash_file_def
        session_open_def session_size_def entry_matches_def is_file_entry_def)
qed

lemma find_distinct:
  "distinct (map f xs) \<Longrightarrow> x \<in> set xs \<Longrightarrow> find (\<lambda>y. f y = f x) xs = Some x"
  by (induction xs) auto

lemma scan_entries_total:
  assumes "\<forall>se\<in>set ses. storable_entry view se \<and> portable u (se_relative_path se) \<and> se \<in> set (sv_entries view)"
    and "distinct (map se_relative_path (sv_entries view))"
    and "distinct (map (\<lambda>se. casefold u (se_relative_path se)) ses)"
    and "keys \<inter> (\<lambda>se. casefold u (se_relative_path se)) ` set ses = {}"
  shows "\<exists>es. scan_entries c u view chunk True first keys ses = Inr es
    \<and> list_all2 (\<lambda>se e. entry_matches chunk (se_relative_path se) se e) ses es
    \<and> (\<forall>e\<in>set es. first_index e \<le> first + frames_for chunk ses)"
  using assms
proof (induction ses arbitrary: first keys)
  case (Cons se ses)
  define ty where "ty = (if se_is_directory se then ENTRY_DIRECTORY else ENTRY_FILE)"
  let ?p = "se_relative_path se"
  have ok: "storable_entry view se" "portable u ?p" "se \<in> set (sv_entries view)" using Cons.prems(1) by simp_all
  from entry_metadata_of_total[OF ok(1,3) find_distinct[OF Cons.prems(2) ok(3)] ok(2) ty_def] obtain e where
    e: "entry_metadata_of c u view se ty ?p chunk first True = Inr e" and m: "entry_matches chunk ?p se e"
    and fi: "first_index e \<le> first" by blast
  let ?next = "if is_file_entry e then first + index_count e else first"
  have fr: "first + frames_for chunk (se # ses) = ?next + frames_for chunk ses"
    using m by (simp add: frames_for_def entry_matches_def)
  have "\<exists>es. scan_entries c u view chunk True ?next (insert (casefold u ?p) keys) ses = Inr es
    \<and> list_all2 (\<lambda>se e. entry_matches chunk (se_relative_path se) se e) ses es
    \<and> (\<forall>e\<in>set es. first_index e \<le> ?next + frames_for chunk ses)"
    using Cons.prems by (intro Cons.IH) auto
  then obtain es where es: "scan_entries c u view chunk True ?next (insert (casefold u ?p) keys) ses = Inr es"
    "list_all2 (\<lambda>se e. entry_matches chunk (se_relative_path se) se e) ses es"
    "\<forall>e\<in>set es. first_index e \<le> first + frames_for chunk (se # ses)" unfolding fr by blast
  have "casefold u ?p \<notin> keys" using Cons.prems(4) by auto
  with ok(2) e es(1) have "scan_entries c u view chunk True first keys (se # ses) = Inr (e # es)"
    by (simp add: portable_def Let_def flip: ty_def)
  with es m fi show ?case by (intro exI[of _ "e # es"]) (auto intro: le_trans)
qed simp

lemma pack_entries_total:
  assumes "\<forall>e\<in>set es. \<exists>pb. utf8_encode (relative_path e) = Inr pb \<and> length pb = path_length (relative_path e)
    \<and> list_all2 field_fits ENTRY_FIXED (entry_values e pb)"
  shows "\<exists>body. pack_entries es = Inr body
    \<and> length body = sum_list (map (\<lambda>e. struct_size ENTRY_FIXED + path_length (relative_path e)) es)"
  using assms
proof (induction es)
  case (Cons e es)
  then obtain pb where pb: "utf8_encode (relative_path e) = Inr pb" "length pb = path_length (relative_path e)"
    "list_all2 field_fits ENTRY_FIXED (entry_values e pb)" by auto
  then obtain fixed where fixed: "struct_pack ENTRY_FIXED (entry_values e pb) = Inr fixed" by (simp add: struct_pack_def)
  from Cons obtain body where "pack_entries es = Inr body"
    "length body = sum_list (map (\<lambda>e. struct_size ENTRY_FIXED + path_length (relative_path e)) es)" by auto
  with pb fixed struct_pack_length[OF fixed] show ?case by simp
qed simp

lemma entry_fits:
  assumes m: "entry_matches chunk path se e" and st: "storable_entry view se" and path: "portable u path"
    and fi: "first_index e < 2 ^ 64" and ic: "index_count e < 2 ^ 32"
  shows "\<exists>pb. utf8_encode (relative_path e) = Inr pb \<and> length pb = path_length (relative_path e)
    \<and> list_all2 field_fits ENTRY_FIXED (entry_values e pb)"
proof -
  obtain pb where pb: "utf8_encode path = Inr pb" "length pb = path_length path" "length pb \<le> 65535"
    using portable_utf8[OF path] by blast
  have "entry_type e < 256" using m by (auto simp: entry_matches_def)
  with m st pb fi ic show ?thesis
    by (auto simp: entry_values_def entry_matches_def storable_entry_def split: if_split_asm)
qed

lemma entry_matches_sums:
  assumes "list_all2 (\<lambda>se e. entry_matches chunk (f se) se e) ses es"
  shows "file_frames es = frames_for chunk ses"
    and "sum_list (map entry_size es) = sum_list (map se_size (filter (\<lambda>se. \<not> se_is_directory se) ses))"
    and "length (filter is_file_entry es) = length (filter (\<lambda>se. \<not> se_is_directory se) ses)"
    and "map (path_length \<circ> relative_path) es = map (path_length \<circ> f) ses"
  using assms
  by (induction rule: list_all2_induct) (auto simp: entry_matches_def file_frames_def frames_for_def)

lemma list_all2_right: "list_all2 P xs ys \<Longrightarrow> y \<in> set ys \<Longrightarrow> \<exists>x\<in>set xs. P x y"
  by (induction rule: list_all2_induct) auto

lemma entry_count_bound:
  assumes "list_all2 (\<lambda>se e. entry_matches chunk (f se) se e) ses es" and "e \<in> set es"
  shows "index_count e \<le> frames_for chunk ses"
  using assms
proof (induction rule: list_all2_induct)
  case (Cons se ses e' es)
  then show ?case by (auto simp: entry_matches_def frames_for_def)
qed simp

definition source_path :: "source_view \<Rightarrow> source_entry \<Rightarrow> pystr" where
  "source_path view se = (if sv_root_is_file view then sv_name view else se_relative_path se)"

lemma scan_session_total:
  assumes st: "storable_view u view" and view: "portable_view u view"
  shows "\<exists>m. scan_session c u view chunk True = Inr m
    \<and> list_all2 (\<lambda>se e. entry_matches chunk (source_path view se) se e) (sv_entries view) (mf_entries m)
    \<and> (\<forall>e\<in>set (mf_entries m). first_index e \<le> 1 + frames_for chunk (sv_entries view))"
proof -
  have name: "validate_relative_path u (sv_name view) = Inr (sv_name view)" "portable u (sv_name view)"
    using st by (simp_all add: storable_view_def portable_def)
  show ?thesis
  proof (cases "sv_root_is_file view")
    case True
    with view obtain se where se: "sv_entries view = [se]" "se_relative_path se = []" by (auto simp: portable_view_def)
    with st True have ok: "storable_entry view se" "ENTRY_FILE = (if se_is_directory se then ENTRY_DIRECTORY else ENTRY_FILE)"
      by (simp_all add: storable_view_def)
    have in': "se \<in> set (sv_entries view)" by (simp add: se)
    have "find (\<lambda>e. se_relative_path e = se_relative_path se) (sv_entries view) = Some se" by (simp add: se)
    from entry_metadata_of_total[OF ok(1) in' this name(2) ok(2), of c chunk 1] obtain e where
      "entry_metadata_of c u view se ENTRY_FILE (sv_name view) chunk 1 True = Inr e"
      "entry_matches chunk (sv_name view) se e" "first_index e \<le> 1" by blast
    with name True se show ?thesis by (simp add: scan_session_def source_path_def)
  next
    case False
    with st have dist: "distinct (map (\<lambda>se. casefold u (se_relative_path se)) (sv_entries view))"
      and ok: "\<forall>se\<in>set (sv_entries view). storable_entry view se \<and> portable u (se_relative_path se) \<and> se \<in> set (sv_entries view)"
      and few: "length (sv_entries view) \<le> MAX_ENTRY_COUNT" by (simp_all add: storable_view_def)
    have "distinct (map se_relative_path (sv_entries view))"
      using dist by (auto simp: distinct_map inj_on_def)
    from scan_entries_total[OF ok this dist, of "{}" c chunk 1] obtain es where
      es: "scan_entries c u view chunk True 1 {} (sv_entries view) = Inr es"
      "list_all2 (\<lambda>se e. entry_matches chunk (se_relative_path se) se e) (sv_entries view) es"
      "\<forall>e\<in>set es. first_index e \<le> 1 + frames_for chunk (sv_entries view)" by auto
    with few list_all2_lengthD[OF es(2)] have "\<not> length es > MAX_ENTRY_COUNT" by simp
    with es name False show ?thesis by (simp add: scan_session_def source_path_def)
  qed
qed

lemma serialize_manifest_total:
  assumes st: "storable_view u view" and view: "portable_view u view" and d: "digest_law c"
    and scan: "scan_session c u view chunk True = Inr m"
    and few: "1 + frames_for chunk (sv_entries view) \<le> MAX_FRAME_COUNT"
  shows "\<exists>payload. serialize_manifest m = Inr payload \<and> length payload = manifest_length view"
proof -
  obtain m' where "scan_session c u view chunk True = Inr m'"
    and match: "list_all2 (\<lambda>se e. entry_matches chunk (source_path view se) se e) (sv_entries view) (mf_entries m')"
    and first: "\<forall>e\<in>set (mf_entries m'). first_index e \<le> 1 + frames_for chunk (sv_entries view)"
    using scan_session_total[OF st view, of c chunk] by blast
  then have m': "m' = m" using scan by simp
  have m: "mf_kind m < 256" "mf_root_name m = sv_name view" "length (mf_entries m) \<le> MAX_ENTRY_COUNT"
    using scan_session_Inr[OF scan d view] by (simp_all add: valid_manifest_def)
  have name: "portable u (sv_name view)" using st by (simp add: storable_view_def)
  obtain nb where nb: "utf8_encode (sv_name view) = Inr nb" "length nb = path_length (sv_name view)" "length nb \<le> 65535"
    using portable_utf8[OF name] by blast
  have "\<exists>pb. utf8_encode (relative_path e) = Inr pb \<and> length pb = path_length (relative_path e)
      \<and> list_all2 field_fits ENTRY_FIXED (entry_values e pb)" if e: "e \<in> set (mf_entries m)" for e
  proof -
    from list_all2_right[OF match[unfolded m'] e] obtain se where se: "se \<in> set (sv_entries view)"
      and em: "entry_matches chunk (source_path view se) se e" by blast
    have "storable_entry view se" "portable u (source_path view se)"
      using st se name by (simp_all add: storable_view_def source_path_def)
    moreover have "first_index e < 2 ^ 64" "index_count e < 2 ^ 32"
      using first e few entry_count_bound[OF match, of e] unfolding m' by fastforce+
    ultimately show ?thesis by (intro entry_fits[OF em])
  qed
  then obtain body where body: "pack_entries (mf_entries m) = Inr body"
    "length body = sum_list (map (\<lambda>e. struct_size ENTRY_FIXED + path_length (relative_path e)) (mf_entries m))"
    using pack_entries_total by blast
  have "map (\<lambda>e. struct_size ENTRY_FIXED + path_length (relative_path e)) (mf_entries m)
      = map (\<lambda>n. struct_size ENTRY_FIXED + n) (map (path_length \<circ> relative_path) (mf_entries m))" by simp
  also have "\<dots> = map (\<lambda>se. struct_size ENTRY_FIXED + path_length (source_path view se)) (sv_entries view)"
    unfolding entry_matches_sums(4)[OF match[unfolded m']] by simp
  finally have len: "length body = sum_list (map (\<lambda>se. struct_size ENTRY_FIXED + path_length (source_path view se)) (sv_entries view))"
    using body(2) by simp
  obtain prefix where prefix: "struct_pack MANIFEST_PREFIX [VB MANIFEST_MAGIC, VU (mf_kind m), VU (length nb),
      VU (length (mf_entries m))] = Inr prefix"
    using m nb by (simp add: struct_pack_def)
  show ?thesis
    using m nb prefix body(1) len struct_pack_length[OF prefix]
    by (simp add: serialize_manifest_def manifest_length_def source_path_def)
qed

end
