(* ===== verification/Archive2.thy ===== *)
theory Archive2
  imports Manifest Archive1
begin

text \<open>
  MSC2 (\<^verbatim>\<open>stream_archive.py\<close>, second half): \<open>encode_stream_archive\<close> writes the public header, the
  sealed manifest and one sealed frame per block of every file; \<open>decode_or_inspect\<close> reads them
  back into a temporary output or into nothing. Progress callbacks and elapsed times are left
  out.
\<close>

section \<open>Statistics\<close>

record StreamEncodeStats =
  sse_format_version :: nat
  sse_archive_kind :: string
  sse_original_size :: nat
  sse_compressed_size :: nat
  sse_padded_plaintext_size :: nat
  sse_archive_size :: nat
  sse_padding_overhead :: int
  sse_block_count :: nat
  sse_file_count :: nat
  sse_directory_count :: nat
  sse_mode_distribution :: "(string \<times> nat) list"
  sse_duplicate_blocks :: nat
  sse_average_features :: "(string \<times> rat) list"

record StreamDecodeStats =
  ssd_format_version :: nat
  ssd_archive_kind :: string
  ssd_original_size :: nat
  ssd_block_count :: nat
  ssd_file_count :: nat
  ssd_directory_count :: nat
  ssd_mode_distribution :: "(string \<times> nat) list"
  ssd_hash_verified :: bool

record StreamArchiveInfo =
  ssi_format_version :: nat
  ssi_archive_kind :: string
  ssi_root_name :: pystr
  ssi_original_size :: nat
  ssi_compressed_size :: nat
  ssi_padded_plaintext_size :: nat
  ssi_archive_size :: nat
  ssi_padding_overhead :: int
  ssi_chunk_size :: nat
  ssi_block_count :: nat
  ssi_file_count :: nat
  ssi_directory_count :: nat
  ssi_mode_distribution :: "(string \<times> nat) list"
  ssi_metadata_encrypted :: bool
  ssi_hash_verified :: bool

definition kind_name :: "nat \<Rightarrow> string" where
  "kind_name kind = (if kind = KIND_FILE then ''file'' else ''folder'')"

definition total_size :: "ManifestEntry list \<Rightarrow> nat" where
  "total_size es = sum_list (map entry_size es)"

text \<open>A data frame's block, mode, payload size and padded size.\<close>

record frame_metrics =
  fm_block :: bytes
  fm_mode :: ModeId
  fm_payload :: nat
  fm_padded :: nat

section \<open>Encoding\<close>

definition validate_stream_options :: "int \<Rightarrow> int \<Rightarrow> int \<Rightarrow> int \<Rightarrow> int \<Rightarrow> unit result" where
  "validate_stream_options chunk_size padding_size kdf_log_n kdf_r kdf_p =
     (if \<not> (1 \<le> chunk_size \<and> chunk_size \<le> 16 * 1024 * 1024)
      then Inl (ValueError ''chunk size must be between 1 byte and 16 MiB'')
      else if \<not> (256 \<le> padding_size \<and> padding_size \<le> 16 * 1024 * 1024)
      then Inl (ValueError ''padding size must be between 256 bytes and 16 MiB'')
      else if \<not> (14 \<le> kdf_log_n \<and> kdf_log_n \<le> 18)
      then Inl (ValueError ''scrypt log2(N) must be between 14 and 18'')
      else if kdf_r \<noteq> 8 \<or> kdf_p \<noteq> 1
      then Inl (ValueError ''MSC2 supports only scrypt r=8 and p=1'')
      else Inr ())"

text \<open>\<^verbatim>\<open>a.is_relative_to(b)\<close> for absolute paths.\<close>

fun is_prefix :: "'a list \<Rightarrow> 'a list \<Rightarrow> bool" where
  "is_prefix [] ys \<longleftrightarrow> True"
| "is_prefix (x # xs) [] \<longleftrightarrow> False"
| "is_prefix (x # xs) (y # ys) \<longleftrightarrow> x = y \<and> is_prefix xs ys"

definition is_relative_to :: "pystr \<Rightarrow> pystr \<Rightarrow> bool" where
  "is_relative_to a b \<longleftrightarrow> is_prefix (posix_components b) (posix_components a)"

text \<open>
  The path checks of both folder encoders, before and after the source session is made: \<open>is_dir\<close>
  is \<^verbatim>\<open>source.is_dir()\<close> and \<open>view\<close> what \<^verbatim>\<open>SourceSession(source)\<close> found.
\<close>

definition check_output_path :: "filesystem \<Rightarrow> pystr \<Rightarrow> bool \<Rightarrow> pystr \<Rightarrow> unit result" where
  "check_output_path fs source is_dir destination =
     (if fs_resolve fs source = fs_resolve fs destination
      then Inl (ValueError ''input and output paths must be different'')
      else if is_dir \<and> is_relative_to (fs_resolve fs destination) (fs_resolve fs source)
      then Inl (ValueError ''folder archives must be written outside the input tree'')
      else Inr ())"

definition check_session_output ::
  "filesystem \<Rightarrow> pystr \<Rightarrow> bool \<Rightarrow> pystr \<Rightarrow> source_view \<Rightarrow> unit result" where
  "check_session_output fs source is_dir destination view =
     (if \<not> is_dir \<and> \<not> sv_root_is_file view
         \<and> is_relative_to (fs_resolve fs destination) (fs_resolve fs source)
      then Inl (ValueError ''folder archives must be written outside the input tree'')
      else Inr ())"

definition stream_ctx :: "bytes \<Rightarrow> bytes \<Rightarrow> Msc2Header \<Rightarrow> frame_ctx" where
  "stream_ctx key global_header header =
     \<lparr>fc_format = ''MSC2'', fc_key = key, fc_global_header = global_header,
      fc_nonce_prefix = m2_nonce_prefix header, fc_padding_size = m2_padding_size header,
      fc_data_maximum = m2_chunk_size header + m2_padding_size header + struct_size DATA_PREFIX + 32\<rparr>"

text \<open>The frames of one file's blocks.\<close>

fun stream_blocks ::
  "crypto \<Rightarrow> clib \<Rightarrow> (nat \<Rightarrow> nat \<Rightarrow> bytes) \<Rightarrow> frame_ctx \<Rightarrow> nat \<Rightarrow> nat \<Rightarrow> bytes list
     \<Rightarrow> (bytes \<times> frame_metrics list) result" where
  "stream_blocks c l rnd ctx entry_index frame_index [] = Inr ([], [])"
| "stream_blocks c l rnd ctx entry_index frame_index (block # blocks) =
     bindR (choose_best_mode l block) (\<lambda>selected.
     bindR (struct_pack DATA_PREFIX
              [VU entry_index, VU (length block), VU (mode_code (eb_mode selected))]) (\<lambda>prefix.
     let payload = prefix @ eb_payload selected
     in bindR (emit_frame c rnd ctx frame_index FRAME_DATA payload) (\<lambda>(frame, padded).
        bindR (stream_blocks c l rnd ctx entry_index (Suc frame_index) blocks) (\<lambda>(out, metrics).
          Inr (frame @ out,
               \<lparr>fm_block = block, fm_mode = eb_mode selected, fm_payload = length payload,
                fm_padded = padded\<rparr> # metrics)))))"

text \<open>The path an entry is read under: the session's root for a single file.\<close>

definition source_key :: "nat \<Rightarrow> ManifestEntry \<Rightarrow> pystr" where
  "source_key kind e = (if kind = KIND_FILE then [] else relative_path e)"

fun stream_entries ::
  "crypto \<Rightarrow> clib \<Rightarrow> (nat \<Rightarrow> nat \<Rightarrow> bytes) \<Rightarrow> frame_ctx \<Rightarrow> source_view \<Rightarrow> nat \<Rightarrow> nat \<Rightarrow> nat \<Rightarrow> nat
     \<Rightarrow> ManifestEntry list \<Rightarrow> (bytes \<times> frame_metrics list) result" where
  "stream_entries c l rnd ctx view kind chunk_size entry_index frame_index [] = Inr ([], [])"
| "stream_entries c l rnd ctx view kind chunk_size entry_index frame_index (e # es) =
     (if \<not> is_file_entry e
      then stream_entries c l rnd ctx view kind chunk_size (Suc entry_index) frame_index es
      else bindR (session_open view 1 (source_key kind e)) (\<lambda>data.
        bindR (stream_blocks c l rnd ctx entry_index frame_index (read_blocks chunk_size data)) (\<lambda>(out, metrics).
          if length data \<noteq> entry_size e \<or> sha256 c data \<noteq> digest e
          then Inl (OSError ''input changed while it was being encoded'')
          else bindR (stream_entries c l rnd ctx view kind chunk_size (Suc entry_index)
                        (frame_index + length metrics) es) (\<lambda>(out', metrics').
            Inr (out @ out', metrics @ metrics')))))"

record stream_job =
  sj_view :: source_view
  sj_manifest :: Manifest
  sj_header :: Msc2Header
  sj_global_header :: bytes
  sj_key :: bytes
  sj_payload :: bytes

text \<open>Everything before the temporary file is created.\<close>

definition prepare_stream ::
  "crypto \<Rightarrow> unicode \<Rightarrow> os_choice \<Rightarrow> filesystem \<Rightarrow> pystr \<Rightarrow> bool \<Rightarrow> source_view result \<Rightarrow> pystr \<Rightarrow> password
     \<Rightarrow> int \<Rightarrow> int \<Rightarrow> int \<Rightarrow> int \<Rightarrow> int \<Rightarrow> stream_job result" where
  "prepare_stream c u os fs source is_dir session destination password
      chunk_size padding_size kdf_log_n kdf_r kdf_p =
     bindR (normalize_password password) (\<lambda>_.
     bindR (validate_stream_options chunk_size padding_size kdf_log_n kdf_r kdf_p) (\<lambda>_.
     bindR (check_output_path fs source is_dir destination) (\<lambda>_.
     bindR session (\<lambda>view.
     bindR (check_session_output fs source is_dir destination view) (\<lambda>_.
     bindR (scan_session c u view (nat chunk_size) True) (\<lambda>manifest.
       let data_frame_count = file_frames (mf_entries manifest)
       in if 1 + data_frame_count > MAX_FRAME_COUNT
          then Inl (ValueError ''input produces too many frames for MSC2'')
          else let salt = oc_random os 0 SALT_LENGTH;
                   nonce_prefix = oc_random os 1 4;
                   header = \<lparr>m2_version = MSC2_VERSION, m2_flags = MSC2_FLAGS, m2_kdf_id = KDF_SCRYPT,
                     m2_aead_id = AEAD_CHACHA20_POLY1305, m2_chunk_size = nat chunk_size,
                     m2_padding_size = nat padding_size, m2_salt = salt, m2_nonce_prefix = nonce_prefix,
                     m2_kdf_log_n = nat kdf_log_n, m2_kdf_r = nat kdf_r, m2_kdf_p = nat kdf_p,
                     m2_frame_count = 1 + data_frame_count\<rparr>
          in bindR (pack_msc2_header header) (\<lambda>global_header.
             bindR (derive_key c password salt (nat kdf_log_n) (nat kdf_r) (nat kdf_p)) (\<lambda>key.
             bindR (serialize_manifest manifest) (\<lambda>payload.
               if int (length payload) > int MAX_MANIFEST_CIPHERTEXT - padding_size - int AEAD_TAG_LENGTH
               then Inl (ValueError ''folder manifest is too large for MSC2 resource limits'')
               else Inr \<lparr>sj_view = view, sj_manifest = manifest, sj_header = header,
                 sj_global_header = global_header, sj_key = key, sj_payload = payload\<rparr>)))))))))"

text \<open>The bytes of the temporary file, and the frames' metrics: the manifest's padded size first.\<close>

definition stream_body ::
  "crypto \<Rightarrow> clib \<Rightarrow> os_choice \<Rightarrow> stream_job \<Rightarrow> (bytes \<times> nat \<times> frame_metrics list) result" where
  "stream_body c l os job =
     (let ctx = stream_ctx (sj_key job) (sj_global_header job) (sj_header job);
          manifest = sj_manifest job
      in bindR (emit_frame c (oc_random os) ctx 0 FRAME_MANIFEST (sj_payload job)) (\<lambda>(frame, padded).
         bindR (stream_entries c l (oc_random os) ctx (sj_view job) (mf_kind manifest)
                  (m2_chunk_size (sj_header job)) 0 1 (mf_entries manifest)) (\<lambda>(out, metrics).
           if 1 + length metrics \<noteq> m2_frame_count (sj_header job)
           then Inl (RuntimeError ''internal MSC2 frame-count mismatch'')
           else Inr (sj_global_header job @ frame @ out, padded, metrics))))"

definition stream_encode_stats ::
  "crypto \<Rightarrow> clib \<Rightarrow> stream_job \<Rightarrow> bytes \<Rightarrow> nat \<Rightarrow> frame_metrics list \<Rightarrow> StreamEncodeStats" where
  "stream_encode_stats c l job archive padded metrics =
     (let entries = mf_entries (sj_manifest job);
          payloads = length (sj_payload job) # map fm_payload metrics;
          paddeds = padded # map fm_padded metrics;
          blocks = map fm_block metrics
      in \<lparr>sse_format_version = MSC2_VERSION, sse_archive_kind = kind_name (mf_kind (sj_manifest job)),
          sse_original_size = total_size entries, sse_compressed_size = sum_list payloads,
          sse_padded_plaintext_size = sum_list paddeds, sse_archive_size = length archive,
          sse_padding_overhead = sum_list (map2 (\<lambda>n m. int n - 8 - int m) paddeds payloads),
          sse_block_count = file_frames entries,
          sse_file_count = length (filter is_file_entry entries),
          sse_directory_count = length (filter is_directory_entry entries),
          sse_mode_distribution = mode_distribution (map fm_mode metrics),
          sse_duplicate_blocks = count_duplicates c blocks {},
          sse_average_features = average_features (map (analyze_block (cl_log2 l)) blocks)\<rparr>)"

text \<open>What is written to a temporary file that an error removes again is not kept.\<close>

definition encode_stream_archive ::
  "crypto \<Rightarrow> clib \<Rightarrow> unicode \<Rightarrow> os_choice \<Rightarrow> filesystem \<Rightarrow> pystr \<Rightarrow> bool \<Rightarrow> source_view result \<Rightarrow> pystr
     \<Rightarrow> password \<Rightarrow> int \<Rightarrow> int \<Rightarrow> int \<Rightarrow> int \<Rightarrow> int \<Rightarrow> StreamEncodeStats result \<times> filesystem" where
  "encode_stream_archive c l u os fs source is_dir session destination password
      chunk_size padding_size kdf_log_n kdf_r kdf_p =
     (case prepare_stream c u os fs source is_dir session destination password
             chunk_size padding_size kdf_log_n kdf_r kdf_p of
        Inl e \<Rightarrow> (Inl e, fs)
      | Inr job \<Rightarrow>
          publish fs os destination
            (case stream_body c l os job of
               Inl e \<Rightarrow> ([], Inl e)
             | Inr (archive, padded, metrics) \<Rightarrow>
                 (archive, Inr (stream_encode_stats c l job archive padded metrics)))
            (\<lambda>_. sv_verify (sj_view job)))"

section \<open>Decoding\<close>

text \<open>The blocks of one file from its frames: contents, metrics and the unread stream.\<close>

fun read_file_frames ::
  "crypto \<Rightarrow> clib \<Rightarrow> frame_ctx \<Rightarrow> nat \<Rightarrow> nat \<Rightarrow> nat \<Rightarrow> nat \<Rightarrow> nat \<Rightarrow> nat \<Rightarrow> bytes
     \<Rightarrow> (bytes \<times> frame_metrics list \<times> bytes) result" where
  "read_file_frames c l ctx chunk_size entry_index file_size local_frame 0 frame_index stream = Inr ([], [], stream)"
| "read_file_frames c l ctx chunk_size entry_index file_size local_frame (Suc n) frame_index stream =
     bindR (read_frame c ctx stream frame_index FRAME_DATA) (\<lambda>((payload, padded), stream).
       if length payload < struct_size DATA_PREFIX
       then Inl (ArchiveFormatError ''MSC2 data frame is truncated'')
       else bindR (struct_unpack_from DATA_PREFIX payload 0) (\<lambda>vs.
         let expected_size = min chunk_size (file_size - local_frame * chunk_size)
         in if uval (vs ! 0) \<noteq> entry_index \<or> uval (vs ! 1) \<noteq> expected_size
            then Inl (ArchiveFormatError ''MSC2 data frame metadata is inconsistent'')
            else bindR (get_mode (uval (vs ! 2))) (\<lambda>mode.
              bindR (mode_decode l mode (drop (struct_size DATA_PREFIX) payload) (uval (vs ! 1))) (\<lambda>block.
              bindR (read_file_frames c l ctx chunk_size entry_index file_size (Suc local_frame) n
                       (Suc frame_index) stream) (\<lambda>(content, metrics, stream).
                Inr (block @ content,
                     \<lparr>fm_block = block, fm_mode = mode, fm_payload = length payload, fm_padded = padded\<rparr>
                       # metrics, stream))))))"

fun restore_entries ::
  "crypto \<Rightarrow> clib \<Rightarrow> frame_ctx \<Rightarrow> nat \<Rightarrow> nat \<Rightarrow> nat \<Rightarrow> nat \<Rightarrow> ManifestEntry list \<Rightarrow> tree option \<Rightarrow> bytes
     \<Rightarrow> (tree option \<times> frame_metrics list \<times> bytes) result" where
  "restore_entries c l ctx kind chunk_size entry_index frame_index [] out stream = Inr (out, [], stream)"
| "restore_entries c l ctx kind chunk_size entry_index frame_index (e # es) out stream =
     (if is_directory_entry e
      then bindR (start_directory kind e out) (\<lambda>out.
        restore_entries c l ctx kind chunk_size (Suc entry_index) frame_index es out stream)
      else bindR (start_file kind e out) (\<lambda>out.
        bindR (read_file_frames c l ctx chunk_size entry_index (entry_size e) 0 (index_count e)
                 frame_index stream) (\<lambda>(content, metrics, stream).
          if length content \<noteq> entry_size e \<or> sha256 c content \<noteq> digest e
          then Inl (IntegrityError ''restored file failed SHA-256 verification'')
          else bindR (finish_file kind e content out) (\<lambda>out.
            bindR (restore_entries c l ctx kind chunk_size (Suc entry_index)
                     (frame_index + index_count e) es out stream) (\<lambda>(out, metrics', stream).
              Inr (out, metrics @ metrics', stream))))))"

record stream_archive =
  sa_header :: Msc2Header
  sa_ctx :: frame_ctx
  sa_manifest :: Manifest
  sa_manifest_payload :: nat
  sa_manifest_padded :: nat
  sa_stream :: bytes
  sa_size :: nat
  sa_identity :: stat_result

text \<open>The header, the key and the manifest, up to the size limit.\<close>

definition open_stream_bytes ::
  "crypto \<Rightarrow> unicode \<Rightarrow> regular_file \<Rightarrow> password \<Rightarrow> int \<Rightarrow> int \<Rightarrow> stream_archive result" where
  "open_stream_bytes c u archive password max_output_size max_frame_count =
     bindR (msc2_read (fl_bytes archive) (struct_size MSC2_HEADER)) (\<lambda>(global_header, stream).
     bindR (parse_msc2_header global_header) (\<lambda>header.
       if int (m2_frame_count header) - 1 > max_frame_count
       then Inl (ArchiveFormatError ''MSC2 frame count exceeds the decode limit'')
       else bindR (derive_key c password (m2_salt header) (m2_kdf_log_n header) (m2_kdf_r header)
                     (m2_kdf_p header)) (\<lambda>key.
         let ctx = stream_ctx key global_header header
         in bindR (read_frame c ctx stream 0 FRAME_MANIFEST) (\<lambda>((payload, padded), stream).
            bindR (parse_manifest u payload header) (\<lambda>manifest.
              if int (total_size (mf_entries manifest)) > max_output_size
              then Inl (ArchiveFormatError ''MSC2 restored size exceeds the decode limit'')
              else Inr \<lparr>sa_header = header, sa_ctx = ctx, sa_manifest = manifest,
                sa_manifest_payload = length payload, sa_manifest_padded = padded, sa_stream = stream,
                sa_size = length (fl_bytes archive), sa_identity = fl_id archive\<rparr>)))))"

definition open_stream ::
  "crypto \<Rightarrow> unicode \<Rightarrow> filesystem \<Rightarrow> pystr \<Rightarrow> password \<Rightarrow> pystr option \<Rightarrow> int \<Rightarrow> int \<Rightarrow> stream_archive result" where
  "open_stream c u fs archive_path password destination max_output_size max_frame_count =
     bindR (validate_decode_limits max_output_size max_frame_count DEFAULT_MAX_LEGACY_ARCHIVE_SIZE) (\<lambda>_.
     bindR (normalize_password password) (\<lambda>_.
       case fs_files fs archive_path of
         None \<Rightarrow> Inl (FileNotFoundError ''No such file or directory'')
       | Some archive \<Rightarrow>
           if (case destination of None \<Rightarrow> False
               | Some d \<Rightarrow> path_matches_file_identity (fs_stat fs d) (fl_id archive))
           then Inl (ValueError ''archive and output paths must be different'')
           else open_stream_bytes c u archive password max_output_size max_frame_count))"

definition stream_decode_stats :: "stream_archive \<Rightarrow> frame_metrics list \<Rightarrow> StreamDecodeStats" where
  "stream_decode_stats a metrics =
     (let entries = mf_entries (sa_manifest a)
      in \<lparr>ssd_format_version = MSC2_VERSION, ssd_archive_kind = kind_name (mf_kind (sa_manifest a)),
          ssd_original_size = total_size entries, ssd_block_count = m2_frame_count (sa_header a) - 1,
          ssd_file_count = length (filter is_file_entry entries),
          ssd_directory_count = length (filter is_directory_entry entries),
          ssd_mode_distribution = mode_distribution (map fm_mode metrics), ssd_hash_verified = True\<rparr>)"

definition stream_archive_info :: "stream_archive \<Rightarrow> frame_metrics list \<Rightarrow> StreamArchiveInfo" where
  "stream_archive_info a metrics =
     (let entries = mf_entries (sa_manifest a);
          compressed = sa_manifest_payload a + sum_list (map fm_payload metrics);
          padded = sa_manifest_padded a + sum_list (map fm_padded metrics)
      in \<lparr>ssi_format_version = MSC2_VERSION, ssi_archive_kind = kind_name (mf_kind (sa_manifest a)),
          ssi_root_name = mf_root_name (sa_manifest a), ssi_original_size = total_size entries,
          ssi_compressed_size = compressed, ssi_padded_plaintext_size = padded,
          ssi_archive_size = sa_size a,
          ssi_padding_overhead = int padded - 8 * int (m2_frame_count (sa_header a)) - int compressed,
          ssi_chunk_size = m2_chunk_size (sa_header a),
          ssi_block_count = m2_frame_count (sa_header a) - 1,
          ssi_file_count = length (filter is_file_entry entries),
          ssi_directory_count = length (filter is_directory_entry entries),
          ssi_mode_distribution = mode_distribution (map fm_mode metrics),
          ssi_metadata_encrypted = True, ssi_hash_verified = True\<rparr>)"

text \<open>The entry loop with its final checks and the metadata of the directories.\<close>

definition restore_stream ::
  "crypto \<Rightarrow> clib \<Rightarrow> stream_archive \<Rightarrow> tree option
     \<Rightarrow> (tree option \<times> StreamDecodeStats \<times> StreamArchiveInfo) result" where
  "restore_stream c l a out =
     (let manifest = sa_manifest a
      in bindR (restore_entries c l (sa_ctx a) (mf_kind manifest) (m2_chunk_size (sa_header a)) 0 1
                  (mf_entries manifest) out (sa_stream a)) (\<lambda>(out, metrics, stream).
         if 1 + length metrics \<noteq> m2_frame_count (sa_header a)
         then Inl (ArchiveFormatError ''MSC2 data frames do not match the manifest'')
         else if stream \<noteq> [] then Inl (ArchiveFormatError ''MSC2 archive contains trailing bytes'')
         else bindR (finish_output (mf_kind manifest) (mf_entries manifest) out) (\<lambda>out.
           Inr (out, stream_decode_stats a metrics, stream_archive_info a metrics))))"

definition decode_or_inspect ::
  "crypto \<Rightarrow> clib \<Rightarrow> unicode \<Rightarrow> os_choice \<Rightarrow> filesystem \<Rightarrow> pystr \<Rightarrow> password \<Rightarrow> pystr option \<Rightarrow> int \<Rightarrow> int
     \<Rightarrow> (StreamDecodeStats \<times> StreamArchiveInfo) result \<times> filesystem" where
  "decode_or_inspect c l u os fs archive_path password destination max_output_size max_frame_count =
     (case open_stream c u fs archive_path password destination max_output_size max_frame_count of
        Inl e \<Rightarrow> (Inl e, fs)
      | Inr a \<Rightarrow>
          (case destination of
             None \<Rightarrow> (bindR (restore_stream c l a None) (\<lambda>(_, stats). Inr stats), fs)
           | Some d \<Rightarrow>
               publish_output fs os d (mf_kind (sa_manifest a))
                 (\<lambda>t. bindR (restore_stream c l a (Some t)) (\<lambda>(out, stats).
                    Inr (case out of None \<Rightarrow> t | Some t \<Rightarrow> t, stats)))
                 (\<lambda>fs. if path_matches_file_identity (fs_stat fs d) (sa_identity a)
                       then Inl (ValueError ''archive and output paths must be different'') else Inr ())))"

definition decode_stream_archive ::
  "crypto \<Rightarrow> clib \<Rightarrow> unicode \<Rightarrow> os_choice \<Rightarrow> filesystem \<Rightarrow> pystr \<Rightarrow> pystr \<Rightarrow> password \<Rightarrow> int \<Rightarrow> int
     \<Rightarrow> StreamDecodeStats result \<times> filesystem" where
  "decode_stream_archive c l u os fs archive_path output_path password max_output_size max_frame_count =
     (let (outcome, fs') = decode_or_inspect c l u os fs archive_path password (Some output_path)
                             max_output_size max_frame_count
      in (bindR outcome (\<lambda>(stats, _). Inr stats), fs'))"

definition inspect_stream_archive ::
  "crypto \<Rightarrow> clib \<Rightarrow> unicode \<Rightarrow> os_choice \<Rightarrow> filesystem \<Rightarrow> pystr \<Rightarrow> password \<Rightarrow> int \<Rightarrow> int
     \<Rightarrow> StreamArchiveInfo result" where
  "inspect_stream_archive c l u os fs archive_path password max_output_size max_frame_count =
     bindR (fst (decode_or_inspect c l u os fs archive_path password None max_output_size max_frame_count))
       (\<lambda>(_, info). Inr info)"

definition is_msc2 :: "filesystem \<Rightarrow> pystr \<Rightarrow> bool result" where
  "is_msc2 fs path = bindR (fs_read fs path) (\<lambda>stream. Inr (fst (stream_read 4 stream) = MSC2_MAGIC))"

section \<open>Frames of one file\<close>

fun sized_from :: "nat \<Rightarrow> nat \<Rightarrow> nat \<Rightarrow> bytes list \<Rightarrow> bool" where
  "sized_from n whole k [] \<longleftrightarrow> True"
| "sized_from n whole k (b # bs) \<longleftrightarrow> length b = min n (whole - k * n) \<and> sized_from n whole (Suc k) bs"

lemma read_blocks_sized:
  "0 < n \<Longrightarrow> length s = whole - k * n \<Longrightarrow> sized_from n whole k (read_blocks n s)"
proof (induction n s arbitrary: k rule: read_blocks.induct)
  case (1 n s)
  show ?case
  proof (cases "s = []")
    case False
    with 1 have "sized_from n whole (Suc k) (read_blocks n (drop n s))" by (intro 1(1)) auto
    moreover have "length (take n s) = min n (whole - k * n)" using 1(3) by simp
    moreover have "read_blocks n s = take n s # read_blocks n (drop n s)"
      using False 1(2) by (subst read_blocks.simps) simp
    ultimately show ?thesis by simp
  qed simp
qed

text \<open>What the frames need from their context.\<close>

definition stream_layer :: "crypto \<Rightarrow> (nat \<Rightarrow> nat \<Rightarrow> bytes) \<Rightarrow> frame_ctx \<Rightarrow> nat \<Rightarrow> bool" where
  "stream_layer c rnd ctx chunk_size \<longleftrightarrow>
     aead_law c \<and> (\<forall>k. random_law (rnd k)) \<and> valid_ctx ctx
     \<and> fc_data_maximum ctx = chunk_size + fc_padding_size ctx + 9 + 32"

lemma data_frame_fits:
  assumes "stream_layer c rnd ctx chunk_size" and "i < 2 ^ 64" and "length payload \<le> 9 + chunk_size"
  shows "layer_fits c rnd ctx i FRAME_DATA payload"
proof -
  have "padded_length (8 + length payload) (fc_padding_size ctx) < 8 + length payload + fc_padding_size ctx"
    using assms(1) by (intro padded_length_lt) (auto simp: stream_layer_def valid_ctx_def)
  then show ?thesis
    using assms by (simp add: layer_fits_def stream_layer_def frame_fits_def frame_maximum_def)
qed

lemma data_prefix_read:
  assumes "struct_pack DATA_PREFIX [VU a, VU b, VU m] = Inr p"
  shows "struct_unpack_from DATA_PREFIX (p @ r) 0 = Inr [VU a, VU b, VU m] \<and> length p = 9"
proof -
  have "list_all2 field_exact DATA_PREFIX [VU a, VU b, VU m]"
    using assms by (auto simp: struct_pack_def split: if_splits)
  from struct_unpack_from_pack[OF this assms, of "[]" 0 r] struct_pack_length[OF assms] show ?thesis
    by (simp add: struct_size_def)
qed

lemma read_stream_blocks:
  assumes "stream_blocks c l rnd ctx ei i bs = Inr (out, ms)"
    and layer: "stream_layer c rnd ctx n" and ok: "\<forall>b\<in>set bs. block_ok l b"
    and "sized_from n whole k bs" and "i + length bs \<le> 2 ^ 64"
  shows "read_file_frames c l ctx n ei whole k (length bs) i (out @ rest) = Inr (concat bs, ms, rest)
    \<and> length ms = length bs"
  using assms(1) ok assms(4,5)
proof (induction bs arbitrary: i k out ms)
  case (Cons b bs)
  from Cons.prems(1) obtain sel p frame padded out' ms' where
    sel: "choose_best_mode l b = Inr sel"
    and p: "struct_pack DATA_PREFIX [VU ei, VU (length b), VU (mode_code (eb_mode sel))] = Inr p"
    and frame: "emit_frame c rnd ctx i FRAME_DATA (p @ eb_payload sel) = Inr (frame, padded)"
    and rest': "stream_blocks c l rnd ctx ei (Suc i) bs = Inr (out', ms')"
    and out: "out = frame @ out'"
    and ms: "ms = \<lparr>fm_block = b, fm_mode = eb_mode sel, fm_payload = length (p @ eb_payload sel),
        fm_padded = padded\<rparr> # ms'"
    by (auto simp: bindR_eq_Inr Let_def)
  note pr = data_prefix_read[OF p]
  have b: "block_ok l b" "length b = min n (whole - k * n)" using Cons.prems by simp_all
  note sd = choose_best_decodes[OF sel b(1)]
  have "layer_fits c rnd ctx i FRAME_DATA (p @ eb_payload sel)"
    using pr sd(2) b(2) Cons.prems(4) by (intro data_frame_fits[OF layer]) auto
  from sealed.accept_emit[OF this frame, of "out' @ rest"]
  have read: "read_frame c ctx (frame @ out' @ rest) i FRAME_DATA
      = Inr ((p @ eb_payload sel, padded), out' @ rest)" .
  have ih: "read_file_frames c l ctx n ei whole (Suc k) (length bs) (Suc i) (out' @ rest) = Inr (concat bs, ms', rest)
      \<and> length ms' = length bs"
    using Cons.prems by (intro Cons.IH[OF rest']) auto

  show ?case
    using read pr sd(1) ih b(2) by (simp add: out ms struct_size_def Let_def)
qed simp

section \<open>The entry loops\<close>

text \<open>An entry with the contents that the second pass over the source reads for it.\<close>

definition source_item :: "source_view \<Rightarrow> nat \<Rightarrow> ManifestEntry \<Rightarrow> ManifestEntry \<times> bytes" where
  "source_item view kind e =
     (e, if is_file_entry e
         then (case session_open view 1 (source_key kind e) of Inl _ \<Rightarrow> [] | Inr data \<Rightarrow> data) else [])"

definition frames_match :: "nat \<Rightarrow> ManifestEntry list \<Rightarrow> bool" where
  "frames_match n es \<longleftrightarrow> (\<forall>e\<in>set es. is_directory_entry e = (\<not> is_file_entry e)
     \<and> (is_file_entry e \<longrightarrow> index_count e = (entry_size e + n - 1) div n))"

definition blocks_ok :: "clib \<Rightarrow> source_view \<Rightarrow> nat \<Rightarrow> nat \<Rightarrow> ManifestEntry list \<Rightarrow> bool" where
  "blocks_ok l view kind n es \<longleftrightarrow>
     (\<forall>e\<in>set es. \<forall>b\<in>set (read_blocks n (snd (source_item view kind e))). block_ok l b)"

lemma restore_stream_entries:
  assumes "stream_entries c l rnd ctx view kind n ei i es = Inr (out, ms)"
    and layer: "stream_layer c rnd ctx n" and n: "0 < n"
    and "frames_match n es" and "blocks_ok l view kind n es" and "i + file_frames es \<le> 2 ^ 64"
  shows "length ms = file_frames es
    \<and> (\<forall>t t'. restore_items kind (map (source_item view kind) es) t = Inr t' \<longrightarrow>
         restore_entries c l ctx kind n ei i es t (out @ rest) = Inr (t', ms, rest))"
  using assms(1,4,5,6)
proof (induction es arbitrary: ei i out ms)
  case Nil
  then show ?case by (simp add: file_frames_def)
next
  case (Cons e es)
  have fm: "frames_match n es" "blocks_ok l view kind n es"
    using Cons.prems(2,3) by (simp_all add: frames_match_def blocks_ok_def)
  show ?case
  proof (cases "is_file_entry e")
    case False
    then have d: "is_directory_entry e" using Cons.prems(2) by (simp add: frames_match_def)
    have st: "stream_entries c l rnd ctx view kind n (Suc ei) i es = Inr (out, ms)"
      using Cons.prems(1) False by simp
    have ff: "file_frames (e # es) = file_frames es" using False by (simp add: file_frames_def)
    from Cons.IH[OF st fm] Cons.prems(4) ff have ih: "length ms = file_frames es"
      "\<And>t t'. restore_items kind (map (source_item view kind) es) t = Inr t' \<Longrightarrow>
         restore_entries c l ctx kind n (Suc ei) i es t (out @ rest) = Inr (t', ms, rest)" by auto
    have it: "source_item view kind e = (e, [])" using False by (simp add: source_item_def)
    show ?thesis using ih ff d False by (auto simp: it bindR_eq_Inr)
  next
    case True
    then have nd: "\<not> is_directory_entry e" and cnt: "index_count e = (entry_size e + n - 1) div n"
      using Cons.prems(2) by (simp_all add: frames_match_def)
    obtain data where data: "session_open view 1 (source_key kind e) = Inr data"
      using Cons.prems(1) True by (cases "session_open view 1 (source_key kind e)") auto
    obtain out1 ms1 where b: "stream_blocks c l rnd ctx ei i (read_blocks n data) = Inr (out1, ms1)"
      using Cons.prems(1) True data by (cases "stream_blocks c l rnd ctx ei i (read_blocks n data)") auto
    have same: "length data = entry_size e" "sha256 c data = digest e"
      using Cons.prems(1) True data b by (auto split: if_splits)
    obtain out2 ms2 where r: "stream_entries c l rnd ctx view kind n (Suc ei) (i + length ms1) es = Inr (out2, ms2)"
      and out: "out = out1 @ out2" "ms = ms1 @ ms2"
      using Cons.prems(1) True data b same by (auto simp: bindR_eq_Inr)
    have it: "source_item view kind e = (e, data)" using True data by (simp add: source_item_def)
    have ok: "\<forall>x\<in>set (read_blocks n data). block_ok l x" using Cons.prems(3) it by (simp add: blocks_ok_def)
    have len: "length (read_blocks n data) = index_count e" using read_blocks_count[OF n] same cnt by simp
    have ff: "file_frames (e # es) = index_count e + file_frames es" using True by (simp add: file_frames_def)
    have "sized_from n (entry_size e) 0 (read_blocks n data)" using same n by (intro read_blocks_sized) auto
    from read_stream_blocks[OF b layer ok this, of "out2 @ rest"] len Cons.prems(4) ff concat_read_blocks[OF n, of data]
    have rd: "read_file_frames c l ctx n ei (entry_size e) 0 (index_count e) i (out1 @ out2 @ rest) = Inr (data, ms1, out2 @ rest)"
      and l1: "length ms1 = index_count e" by auto
    from Cons.IH[OF r fm] Cons.prems(4) ff l1 have ih: "length ms2 = file_frames es"
      "\<And>t t'. restore_items kind (map (source_item view kind) es) t = Inr t' \<Longrightarrow>
         restore_entries c l ctx kind n (Suc ei) (i + index_count e) es t (out2 @ rest) = Inr (t', ms2, rest)" by auto
    show ?thesis using ih ff nd rd l1 same by (auto simp: it out bindR_eq_Inr)
  qed
qed

section \<open>Opening what an encode wrote\<close>

lemma validate_stream_options_Inr:
  "validate_stream_options chunk padding log_n r p = Inr () \<longleftrightarrow>
     1 \<le> chunk \<and> chunk \<le> 16777216 \<and> 256 \<le> padding \<and> padding \<le> 16777216
     \<and> 14 \<le> log_n \<and> log_n \<le> 18 \<and> r = 8 \<and> p = 1"
  by (auto simp: validate_stream_options_def)

text \<open>The facts about a job that the later steps need.\<close>

definition job_ok :: "crypto \<Rightarrow> unicode \<Rightarrow> os_choice \<Rightarrow> password \<Rightarrow> source_view \<Rightarrow> stream_job \<Rightarrow> bool" where
  "job_ok c u os password view job \<longleftrightarrow>
     sj_view job = view
     \<and> scan_session c u view (m2_chunk_size (sj_header job)) True = Inr (sj_manifest job)
     \<and> valid_msc2_header (sj_header job) \<and> pack_msc2_header (sj_header job) = Inr (sj_global_header job)
     \<and> m2_frame_count (sj_header job) = 1 + file_frames (mf_entries (sj_manifest job))
     \<and> derive_key c password (m2_salt (sj_header job)) (m2_kdf_log_n (sj_header job))
         (m2_kdf_r (sj_header job)) (m2_kdf_p (sj_header job)) = Inr (sj_key job)
     \<and> serialize_manifest (sj_manifest job) = Inr (sj_payload job)
     \<and> length (sj_payload job) + m2_padding_size (sj_header job) + 16 \<le> MAX_MANIFEST_CIPHERTEXT"

lemma prepare_stream_Inr:
  assumes prep: "prepare_stream c u os fs source is_dir (Inr view) dst password chunk padding log_n r p = Inr job"
    and rnd: "\<forall>k. random_law (oc_random os k)"
  shows "job_ok c u os password view job \<and> m2_chunk_size (sj_header job) = nat chunk
    \<and> (\<exists>pw. normalize_password password = Inr pw)"
proof -
  obtain pw where pw: "normalize_password password = Inr pw"
    using prep by (cases "normalize_password password") (auto simp: prepare_stream_def)
  have opts: "validate_stream_options chunk padding log_n r p = Inr ()"
    using prep pw by (cases "validate_stream_options chunk padding log_n r p") (auto simp: prepare_stream_def)
  note o = opts[unfolded validate_stream_options_Inr]
  obtain m where m: "scan_session c u view (nat chunk) True = Inr m"
    using prep pw opts by (auto simp: prepare_stream_def bindR_eq_Inr)
  let ?h = "\<lparr>m2_version = MSC2_VERSION, m2_flags = MSC2_FLAGS, m2_kdf_id = KDF_SCRYPT,
     m2_aead_id = AEAD_CHACHA20_POLY1305, m2_chunk_size = nat chunk, m2_padding_size = nat padding,
     m2_salt = oc_random os 0 SALT_LENGTH, m2_nonce_prefix = oc_random os 1 4, m2_kdf_log_n = nat log_n,
     m2_kdf_r = nat r, m2_kdf_p = nat p, m2_frame_count = 1 + file_frames (mf_entries m)\<rparr>"
  have few: "1 + file_frames (mf_entries m) \<le> MAX_FRAME_COUNT"
    using prep pw opts m by (auto simp: prepare_stream_def bindR_eq_Inr Let_def split: if_splits)
  obtain gh key payload where gh: "pack_msc2_header ?h = Inr gh"
    and key: "derive_key c password (oc_random os 0 SALT_LENGTH) (nat log_n) (nat r) (nat p) = Inr key"
    and payload: "serialize_manifest m = Inr payload"
    and small: "int (length payload) \<le> int MAX_MANIFEST_CIPHERTEXT - padding - int AEAD_TAG_LENGTH"
    and job: "job = \<lparr>sj_view = view, sj_manifest = m, sj_header = ?h, sj_global_header = gh, sj_key = key,
        sj_payload = payload\<rparr>"
    using prep pw opts m few by (auto simp: prepare_stream_def bindR_eq_Inr Let_def split: if_splits)
  have rl: "length (oc_random os k q) = q" for k q using rnd by (simp add: random_law_def)
  have valid: "valid_msc2_header ?h" using o few rl by (simp add: valid_msc2_header_def nat_le_iff le_nat_iff)
  show ?thesis using m valid gh key payload small o pw by (auto simp: job_ok_def job)
qed

text \<open>
  A manifest that passed the encoder's size check fits its frame when the padding size is a
  multiple of 16; the check itself forgets the length field.
\<close>

lemma manifest_fits:
  assumes "m + p + 16 \<le> MAX_MANIFEST_CIPHERTEXT" and "256 \<le> p" and "p mod 16 = 0"
  shows "padded_length (8 + m) p + 16 \<le> MAX_MANIFEST_CIPHERTEXT"
proof -
  let ?n = "padded_length (8 + m) p"
  have "16 dvd ?n" using assms(3) padded_length_dvd[of p "8 + m"] by (meson dvd_trans mod_0_imp_dvd)
  moreover have "?n < 8 + m + p" using assms(2) by (intro padded_length_lt) simp
  then have "?n + 9 \<le> MAX_MANIFEST_CIPHERTEXT" using assms(1) by simp
  ultimately show ?thesis by presburger
qed

text \<open>
  It also fits when it was written into an archive that is itself no larger than the limit,
  whatever the padding size.
\<close>

definition padding_fits :: "nat \<Rightarrow> nat \<Rightarrow> bool" where
  "padding_fits padding archive_size \<longleftrightarrow> padding mod 16 = 0 \<or> archive_size \<le> MAX_MANIFEST_CIPHERTEXT"

lemma padding_fits_multiple [simp]: "padding mod 16 = 0 \<Longrightarrow> padding_fits padding n"
  by (simp add: padding_fits_def)

lemma written_manifest_fits:
  assumes frame: "emit_frame c rnd ctx 0 FRAME_MANIFEST payload = Inr (frame, n)" and rnd: "\<forall>k. random_law (rnd k)"
    and aead: "aead_law c" and checked: "length payload + fc_padding_size ctx + 16 \<le> MAX_MANIFEST_CIPHERTEXT"
    and pad: "256 \<le> fc_padding_size ctx" and fits: "padding_fits (fc_padding_size ctx) (length (gh @ frame @ out))"
  shows "frame_fits ctx FRAME_MANIFEST payload"
proof -
  have "padded_length (8 + length payload) (fc_padding_size ctx) + 16 \<le> length frame"
  proof -
    have r: "random_law (rnd (2 + 0))" using rnd by blast
    from frame have "write_frame c (rnd (2 + 0)) ctx 0 FRAME_MANIFEST payload = Inr (frame, n)" by (simp add: emit_frame_def)
    from write_frame_Inr[OF this r] obtain padded h nonce where
      "frame = h @ encrypt c (fc_key ctx) nonce padded (fc_global_header ctx @ h)" "n = length padded"
      "n = padded_length (8 + length payload) (fc_padding_size ctx)" by metis
    then show ?thesis using aead by simp
  qed
  with fits manifest_fits[OF checked pad] show ?thesis
    by (auto simp: frame_fits_def frame_maximum_def padding_fits_def)
qed

lemma stream_ctx_valid:
  assumes "valid_msc2_header h"
  shows "valid_ctx (stream_ctx key gh h)"
  using assms by (simp add: valid_ctx_def stream_ctx_def valid_msc2_header_def struct_size_def)

lemma open_encoded:
  assumes job: "job_ok c u os password view job" and body: "stream_body c l os job = Inr (archive, padded, ms)"
    and rnd: "\<forall>k. random_law (oc_random os k)" and aead: "aead_law c" and dig: "digest_law c"
    and view: "portable_view u view" and p16: "padding_fits (m2_padding_size (sj_header job)) (length archive)"
    and limits: "int (total_size (mf_entries (sj_manifest job))) \<le> mo" "int (length ms) \<le> mf"
    and f: "fl_bytes f = archive"
  shows "\<exists>out. stream_entries c l (oc_random os) (stream_ctx (sj_key job) (sj_global_header job) (sj_header job))
        view (mf_kind (sj_manifest job)) (m2_chunk_size (sj_header job)) 0 1 (mf_entries (sj_manifest job)) = Inr (out, ms)
    \<and> 1 + length ms = m2_frame_count (sj_header job)
    \<and> open_stream_bytes c u f password mo mf = Inr \<lparr>sa_header = sj_header job,
        sa_ctx = stream_ctx (sj_key job) (sj_global_header job) (sj_header job), sa_manifest = sj_manifest job,
        sa_manifest_payload = length (sj_payload job), sa_manifest_padded = padded, sa_stream = out,
        sa_size = length archive, sa_identity = fl_id f\<rparr>"
proof -
  note j = job[unfolded job_ok_def]
  let ?h = "sj_header job" and ?m = "sj_manifest job"
  let ?ctx = "stream_ctx (sj_key job) (sj_global_header job) ?h"
  from body j obtain frame out where
    frame: "emit_frame c (oc_random os) ?ctx 0 FRAME_MANIFEST (sj_payload job) = Inr (frame, padded)"
    and out: "stream_entries c l (oc_random os) ?ctx view (mf_kind ?m) (m2_chunk_size ?h) 0 1 (mf_entries ?m) = Inr (out, ms)"
    and n: "1 + length ms = m2_frame_count ?h" and arch: "archive = sj_global_header job @ frame @ out"
    by (auto simp: stream_body_def Let_def bindR_eq_Inr split: if_splits)
  have vh: "valid_msc2_header ?h" and gh: "pack_msc2_header ?h = Inr (sj_global_header job)" using j by auto
  have pad: "256 \<le> m2_padding_size ?h" using vh by (simp add: valid_msc2_header_def)
  have "frame_fits ?ctx FRAME_MANIFEST (sj_payload job)"
    using written_manifest_fits[OF frame rnd aead] j pad p16 by (simp add: stream_ctx_def arch)
  then have "layer_fits c (oc_random os) ?ctx 0 FRAME_MANIFEST (sj_payload job)"
    using aead rnd stream_ctx_valid[OF vh] by (simp add: layer_fits_def)
  from sealed.accept_emit[OF this frame, of out]
  have read: "read_frame c ?ctx (frame @ out) 0 FRAME_MANIFEST = Inr ((sj_payload job, padded), out)" .
  have hdr: "msc2_read archive (struct_size MSC2_HEADER) = Inr (sj_global_header job, frame @ out)"
    using msc2_header.pack_length[OF gh] by (simp add: arch msc2_read_def)
  have parse: "parse_msc2_header (sj_global_header job) = Inr ?h" by (rule msc2_header.parse_pack[OF vh gh])
  have key: "derive_key c password (m2_salt ?h) (m2_kdf_log_n ?h) (m2_kdf_r ?h) (m2_kdf_p ?h) = Inr (sj_key job)"
    and scan: "scan_session c u view (m2_chunk_size ?h) True = Inr ?m"
    and fc: "m2_frame_count ?h = 1 + file_frames (mf_entries ?m)"
    and ser: "serialize_manifest ?m = Inr (sj_payload job)" using j by auto
  have "valid_manifest u (m2_chunk_size ?h) (m2_frame_count ?h) ?m"
    using scan_session_Inr[OF scan dig view] fc by simp
  from manifest_roundtrip[OF ser this] have man: "parse_manifest u (sj_payload job) ?h = Inr ?m" .
  have "open_stream_bytes c u f password mo mf = Inr \<lparr>sa_header = ?h, sa_ctx = ?ctx, sa_manifest = ?m,
      sa_manifest_payload = length (sj_payload job), sa_manifest_padded = padded, sa_stream = out,
      sa_size = length archive, sa_identity = fl_id f\<rparr>"
    using hdr parse key read man limits n[symmetric] by (simp add: open_stream_bytes_def f Let_def)
  with out n show ?thesis by blast
qed

lemma valid_entries_frames: "valid_entries u n keys first es final \<Longrightarrow> frames_match n es"
proof (induction es arbitrary: keys first)
  case (Cons e es)
  then show ?case
    by (auto simp: frames_match_def check_frame_range_def is_file_entry_def is_directory_entry_def split: if_splits)
qed (simp add: frames_match_def)

section \<open>The whole round trip\<close>

text \<open>
  The tree a folder archive should restore to, in terms of the source: every discovered entry
  under its components, with its permission bits and time, and what the second pass read.
\<close>

definition source_node :: "source_view \<Rightarrow> source_entry \<Rightarrow> node" where
  "source_node view se =
     (let meta = Some (S_IMODE (se_st_mode se) mod 512, se_mtime_ns se)
      in if se_is_directory se then TDir meta
         else TFile (case sv_read view 1 (se_relative_path se) of Inl _ \<Rightarrow> [] | Inr data \<Rightarrow> data) meta)"

definition source_tree :: "source_view \<Rightarrow> tree" where
  "source_tree view =
     (map_of (map (\<lambda>se. (posix_components (se_relative_path se), source_node view se)) (sv_entries view)))
       ([] \<mapsto> TDir None)"

lemma source_tree_items:
  assumes "list_all2 entry_from (sv_entries view) es"
  shows "folder_tree True (map (source_item view KIND_FOLDER) es) = source_tree view"
proof -
  have "map (\<lambda>se. (posix_components (se_relative_path se), source_node view se)) ses
      = map (\<lambda>x. (entry_parts (fst x), item_node True x)) (map (source_item view KIND_FOLDER) es)"
    if "list_all2 entry_from ses es" and sub: "set ses \<subseteq> set (sv_entries view)" for ses
    using that
  proof (induction rule: list_all2_induct)
    case (Cons se ses e es)
    then have "se_relative_path se \<in> session_paths view" by (auto simp: session_paths_def)
    with Cons show ?case
      by (auto simp: entry_from_def source_item_def source_node_def item_node_def source_key_def
          session_open_def Let_def)
  qed simp
  from this[OF assms] show ?thesis by (simp add: folder_tree_def source_tree_def)
qed

text \<open>The entries that a scan makes of a portable view, and what restoring them leaves behind.\<close>

definition scanned_entries :: "source_view \<Rightarrow> nat \<Rightarrow> ManifestEntry list \<Rightarrow> bool" where
  "scanned_entries view kind es \<longleftrightarrow>
     kind = (if sv_root_is_file view then KIND_FILE else KIND_FOLDER)
     \<and> (if sv_root_is_file view
        then \<exists>se e. sv_entries view = [se] \<and> se_relative_path se = [] \<and> es = [e]
          \<and> is_file_entry e \<and> entry_metadata e = Some (S_IMODE (se_st_mode se) mod 512, se_mtime_ns se)
        else list_all2 entry_from (sv_entries view) es \<and> nested_from {[]} es \<and> distinct (map entry_parts es))"

definition source_restored :: "source_view \<Rightarrow> os_choice \<Rightarrow> pystr \<Rightarrow> filesystem \<Rightarrow> filesystem \<Rightarrow> bool" where
  "source_restored view os dst fs fs' \<longleftrightarrow>
     (if sv_root_is_file view
      then \<exists>se data. sv_entries view = [se] \<and> sv_read view 1 [] = Inr data
        \<and> fs' = published fs dst \<lparr>fl_id = oc_identity os, fl_bytes = data,
            fl_meta = Some (S_IMODE (se_st_mode se) mod 512, se_mtime_ns se)\<rparr>
      else fs' = folder_published fs dst (source_tree view))"

lemma publish_restored:
  assumes view: "scanned_entries view kind es" and law: "os_law fs os" and dst: "dst \<noteq> oc_temporary os"
    and new: "fresh_path fs dst" and read: "sv_root_is_file view \<Longrightarrow> \<exists>data. sv_read view 1 [] = Inr data"
    and body: "\<And>t t'. bindR (restore_items kind (map (source_item view kind) es) (Some t)) (finish_output kind es)
        = Inr (Some t') \<Longrightarrow> body t = Inr (t', x)"
    and check: "check (create_output (with_parents fs dst) os kind) = Inr ()"
  shows "\<exists>fs'. publish_output fs os dst kind body check = (Inr x, fs') \<and> source_restored view os dst fs fs'"
proof -
  let ?items = "map (source_item view kind) es"
  have run: "publish_output fs os dst kind body check = (Inr x, fs')"
    if "bindR (restore_items kind ?items (Some (empty_output kind))) (finish_output kind es) = Inr (Some t)"
      and "replace_output (create_output (with_parents fs dst) os kind) os dst kind t = Inr fs'" for t fs'
    by (rule publish_output_run[where check = check and body = body, OF new body[OF that(1)] check that(2)])
  show ?thesis
  proof (cases "sv_root_is_file view")
    case True
    then obtain se e where e: "sv_entries view = [se]" "es = [e]" "is_file_entry e" "kind = KIND_FILE"
      "entry_metadata e = Some (S_IMODE (se_st_mode se) mod 512, se_mtime_ns se)"
      using view by (auto simp: scanned_entries_def)
    have "\<not> is_directory_entry e" using e(3) by (simp add: is_file_entry_def is_directory_entry_def)
    note single = restore_single[OF this]
    obtain data where data: "sv_read view 1 [] = Inr data" using read True by blast
    then have item: "source_item view KIND_FILE e = (e, data)" using e(3) by (simp add: source_item_def source_key_def)
    have rs: "bindR (restore_items kind ?items (Some (empty_output kind))) (finish_output kind es)
        = Inr (Some [[] \<mapsto> TFile data (entry_metadata e)])"
      unfolding e(2,4) list.map item by (rule single)
    from replace_file[OF law dst _ fresh_pathD(3)[OF new], of KIND_FILE]
    have "replace_output (create_output (with_parents fs dst) os kind) os dst kind [[] \<mapsto> TFile data (entry_metadata e)]
       = Inr (published fs dst \<lparr>fl_id = oc_identity os, fl_bytes = data, fl_meta = entry_metadata e\<rparr>)"
      by (simp add: e(4))
    from run[OF rs this] True e data show ?thesis by (simp add: source_restored_def)
  next
    case False
    then have e: "list_all2 entry_from (sv_entries view) es" "nested_from {[]} es" "distinct (map entry_parts es)"
      "kind = KIND_FOLDER" using view by (simp_all add: scanned_entries_def)
    have fst: "map fst (map (source_item view k) es) = es"
      "map (\<lambda>x. entry_parts (fst x)) (map (source_item view k) es) = map entry_parts es" for k
      by (simp_all add: source_item_def o_def)
    let ?fitems = "map (source_item view KIND_FOLDER) es"
    have "bindR (restore_items KIND_FOLDER ?fitems (Some (empty_output KIND_FOLDER))) (finish_output KIND_FOLDER (map fst ?fitems))
        = Inr (Some (folder_tree True ?fitems))"
      by (rule restore_folder) (use e in \<open>simp_all only: fst\<close>)
    then have "bindR (restore_items kind ?items (Some (empty_output kind))) (finish_output kind es)
        = Inr (Some (source_tree view))" unfolding e(4) fst(1) source_tree_items[OF e(1)] .
    moreover have "replace_output (create_output (with_parents fs dst) os kind) os dst kind (source_tree view)
        = Inr (folder_published fs dst (source_tree view))"
      using replace_folder[OF law dst] by (simp add: e(4))
    ultimately have "publish_output fs os dst kind body check
        = (Inr x, folder_published fs dst (source_tree view))" by (rule run)
    with False show ?thesis by (simp add: source_restored_def)
  qed
qed

text \<open>The identity check before publication passes on a destination that does not exist.\<close>

lemma new_destination_differs:
  "fresh_path fs dst \<Longrightarrow> dst \<noteq> oc_temporary os \<Longrightarrow>
   \<not> path_matches_file_identity (fs_stat (create_output (with_parents fs dst) os kind) dst) i
   \<and> \<not> path_matches_file_identity (fs_stat fs dst) i"
  by (simp add: create_output_def fs_create_def fs_stat_def path_matches_file_identity_def fresh_pathD)

lemma encode_stream_Inr:
  assumes "encode_stream_archive c l u os fs source is_dir (Inr view) dst password chunk padding log_n r p = (Inr stats, fs')"
    and "os_law fs os" and "dst \<noteq> oc_temporary os"
  obtains job archive padded ms where "job_ok c u os password view job"
    and "m2_chunk_size (sj_header job) = nat chunk" and "m2_padding_size (sj_header job) = nat padding"
    and "\<exists>pw. normalize_password password = Inr pw"
    and "stream_body c l os job = Inr (archive, padded, ms)"
    and "stats = stream_encode_stats c l job archive padded ms" and "sv_verify view = Inr ()"
    and "fs' = published fs dst \<lparr>fl_id = oc_identity os, fl_bytes = archive, fl_meta = None\<rparr>"
proof -
  obtain job where prep: "prepare_stream c u os fs source is_dir (Inr view) dst password chunk padding log_n r p = Inr job"
    using assms(1) by (cases "prepare_stream c u os fs source is_dir (Inr view) dst password chunk padding log_n r p")
      (auto simp: encode_stream_archive_def)
  let ?body = "case stream_body c l os job of Inl e \<Rightarrow> ([], Inl e)
     | Inr (archive, padded, metrics) \<Rightarrow> (archive, Inr (stream_encode_stats c l job archive padded metrics))"
  have pub: "publish fs os dst ?body (\<lambda>_. sv_verify (sj_view job)) = (Inr stats, fs')"
    using assms(1) prep by (simp add: encode_stream_archive_def)
  note ps = publish_success[OF pub assms(3)] and pf = publish_published[OF pub assms(3,2)]
  obtain archive padded ms where body: "stream_body c l os job = Inr (archive, padded, ms)"
    using ps by (cases "stream_body c l os job") auto
  have jo: "job_ok c u os password view job" "m2_chunk_size (sj_header job) = nat chunk"
    "\<exists>pw. normalize_password password = Inr pw"
    using prepare_stream_Inr[OF prep] assms(2) by (auto simp: os_law_def)
  have "m2_padding_size (sj_header job) = nat padding"
    using prep by (auto simp: prepare_stream_def bindR_eq_Inr Let_def split: if_splits)
  moreover have "fs' = published fs dst \<lparr>fl_id = oc_identity os, fl_bytes = archive, fl_meta = None\<rparr>"
    using pf body by simp
  moreover have "sv_verify view = Inr ()" "stats = stream_encode_stats c l job archive padded ms"
    using ps jo body by (auto simp: job_ok_def)
  ultimately show thesis using that jo body by blast
qed

lemma stream_restores:
  assumes enc: "encode_stream_archive c l u os fs source is_dir (Inr view) archive password chunk padding log_n r p = (Inr stats, fs1)"
    and laws: "aead_law c" "digest_law c" "os_law fs os" "os_law fs1 os'" and view: "portable_view u view"
    and p16: "padding_fits (nat padding) (sse_archive_size stats)"
    and ok: "\<forall>rel data. sv_read view 1 rel = Inr data \<longrightarrow> (\<forall>b\<in>set (read_blocks (nat chunk) data). block_ok l b)"
    and names: "archive \<noteq> oc_temporary os" "restored \<noteq> oc_temporary os'" and new: "fresh_path fs1 restored"
    and limits: "int (sse_original_size stats) \<le> mo" "0 < mo" "int (sse_block_count stats) \<le> mf" "0 < mf"
  shows "\<exists>ds fs2. decode_stream_archive c l u os' fs1 archive restored password mo mf = (Inr ds, fs2)
    \<and> ssd_original_size ds = sse_original_size stats
    \<and> (if sv_root_is_file view
       then \<exists>se data. sv_entries view = [se] \<and> sv_read view 1 [] = Inr data
         \<and> fs2 = published fs1 restored \<lparr>fl_id = oc_identity os', fl_bytes = data,
             fl_meta = Some (S_IMODE (se_st_mode se) mod 512, se_mtime_ns se)\<rparr>
       else fs2 = folder_published fs1 restored (source_tree view))"
proof -
  from encode_stream_Inr[OF enc laws(3) names(1)] obtain job bytes padded ms pw where
    job: "job_ok c u os password view job" and chunk: "m2_chunk_size (sj_header job) = nat chunk"
    and padding: "m2_padding_size (sj_header job) = nat padding" and pw: "normalize_password password = Inr pw"
    and body: "stream_body c l os job = Inr (bytes, padded, ms)"
    and stats: "stats = stream_encode_stats c l job bytes padded ms"
    and fs1: "fs1 = published fs archive \<lparr>fl_id = oc_identity os, fl_bytes = bytes, fl_meta = None\<rparr>"
    by metis
  note j = job[unfolded job_ok_def]
  let ?h = "sj_header job" and ?m = "sj_manifest job"
  let ?es = "mf_entries ?m" and ?kind = "mf_kind ?m"
  let ?ctx = "stream_ctx (sj_key job) (sj_global_header job) ?h"
  have rnd: "\<forall>k. random_law (oc_random os k)" using laws(3) by (simp add: os_law_def)
  have vh: "valid_msc2_header ?h" using j by blast
  have "1 \<le> m2_chunk_size ?h" using vh by (simp add: valid_msc2_header_def)
  then have n: "0 < nat chunk" unfolding chunk by linarith
  have p16': "padding_fits (m2_padding_size ?h) (length bytes)"
    using p16 padding by (simp add: stats stream_encode_stats_def Let_def)
  have sc: "scan_session c u view (nat chunk) True = Inr ?m" using j chunk by simp
  note scan = scan_session_Inr[OF sc laws(2) view]
  let ?f = "\<lparr>fl_id = oc_identity os, fl_bytes = bytes, fl_meta = None\<rparr>"
  have fc: "1 + file_frames ?es = m2_frame_count ?h" using j by simp
  have nms: "1 + length ms = m2_frame_count ?h" using body by (auto simp: stream_body_def Let_def bindR_eq_Inr split: if_splits)
  have mo: "int (total_size ?es) \<le> mo" and mf: "int (length ms) \<le> mf"
    using limits fc nms by (simp_all add: stats stream_encode_stats_def Let_def)
  from open_encoded[OF job body rnd laws(1,2) view p16' mo mf, of ?f] obtain out where
    out: "stream_entries c l (oc_random os) ?ctx view ?kind (nat chunk) 0 1 ?es = Inr (out, ms)"
    and op: "open_stream_bytes c u ?f password mo mf = Inr \<lparr>sa_header = ?h, sa_ctx = ?ctx, sa_manifest = ?m,
        sa_manifest_payload = length (sj_payload job), sa_manifest_padded = padded, sa_stream = out,
        sa_size = length bytes, sa_identity = oc_identity os\<rparr>"
    unfolding chunk by auto
  let ?a = "\<lparr>sa_header = ?h, sa_ctx = ?ctx, sa_manifest = ?m,
        sa_manifest_payload = length (sj_payload job), sa_manifest_padded = padded, sa_stream = out,
        sa_size = length bytes, sa_identity = oc_identity os\<rparr>"
  have no_stat: "fs_stat fs1 restored = None" using new by (simp add: fresh_pathD fs_stat_def)
  have opened: "open_stream c u fs1 archive password (Some restored) mo mf = Inr ?a"
    using op pw limits(2,4) no_stat
    by (simp add: open_stream_def fs1 validate_decode_limits_def DEFAULT_MAX_LEGACY_ARCHIVE_SIZE_def path_matches_file_identity_def)
  let ?items = "map (source_item view ?kind) ?es"
  have layer: "stream_layer c (oc_random os) ?ctx (nat chunk)"
    using laws(1) rnd stream_ctx_valid[OF vh] chunk by (simp add: stream_layer_def stream_ctx_def struct_size_def)
  have "frames_match (nat chunk) ?es" using scan valid_entries_frames unfolding valid_manifest_def by blast
  moreover have "blocks_ok l view ?kind (nat chunk) ?es"
    using ok by (auto simp: blocks_ok_def source_item_def session_open_def split: sum.splits if_splits)
  moreover have "1 + file_frames ?es \<le> 2 ^ 64" using fc vh by (simp add: valid_msc2_header_def)
  ultimately have loop: "restore_items ?kind ?items t = Inr t' \<Longrightarrow>
      restore_entries c l ?ctx ?kind (nat chunk) 0 1 ?es t out = Inr (t', ms, [])" for t t'
    using restore_stream_entries[OF out layer n, of "[]"] by auto
  let ?ds = "stream_decode_stats ?a ms"
  have restore: "restore_stream c l ?a (Some t) = Inr (Some t'', ?ds, stream_archive_info ?a ms)"
    if "bindR (restore_items ?kind ?items (Some t)) (finish_output ?kind ?es) = Inr (Some t'')" for t t''
    using that loop nms by (auto simp: restore_stream_def Let_def chunk bindR_eq_Inr)
  let ?check = "\<lambda>fs. if path_matches_file_identity (fs_stat fs restored) (oc_identity os)
      then Inl (ValueError ''archive and output paths must be different'') else Inr ()"
  let ?body = "\<lambda>t. bindR (restore_stream c l ?a (Some t)) (\<lambda>(out, stats). Inr (case out of None \<Rightarrow> t | Some t \<Rightarrow> t, stats))"
  have "\<exists>fs2. publish_output fs1 os' restored ?kind ?body ?check = (Inr (?ds, stream_archive_info ?a ms), fs2)
      \<and> source_restored view os' restored fs1 fs2"
  proof (rule publish_restored[OF _ laws(4) names(2) new])
    show "scanned_entries view ?kind ?es" using scan unfolding scanned_entries_def by blast
    show "\<exists>data. sv_read view 1 [] = Inr data" if "sv_root_is_file view"
    proof -
      from that scan obtain e where "?es = [e]" "is_file_entry e" "?kind = KIND_FILE" by auto
      then show ?thesis using out by (cases "sv_read view 1 []") (auto simp: source_key_def)
    qed
    show "?body t = Inr (t', ?ds, stream_archive_info ?a ms)"
      if "bindR (restore_items ?kind ?items (Some t)) (finish_output ?kind ?es) = Inr (Some t')" for t t'
      by (simp add: restore[OF that])
    show "?check (create_output (with_parents fs1 restored) os' ?kind) = Inr ()" using new_destination_differs[OF new names(2)] by simp
  qed
  then obtain fs2 where pub: "publish_output fs1 os' restored ?kind ?body ?check = (Inr (?ds, stream_archive_info ?a ms), fs2)"
    and res: "source_restored view os' restored fs1 fs2" by blast
  have "decode_stream_archive c l u os' fs1 archive restored password mo mf = (Inr ?ds, fs2)"
    using opened pub by (simp add: decode_stream_archive_def decode_or_inspect_def)
  moreover have "ssd_original_size ?ds = sse_original_size stats"
    by (simp add: stats stream_decode_stats_def stream_encode_stats_def Let_def)
  ultimately show ?thesis using res unfolding source_restored_def by blast
qed

section \<open>Encoding succeeds\<close>

lemma stream_blocks_total:
  assumes layer: "stream_layer c rnd ctx n" and n: "n \<le> MAX_CHUNK_SIZE"
    and "\<forall>b\<in>set bs. block_ok l b \<and> length b \<le> n" and "ei < 2 ^ 32" and "i + length bs \<le> 2 ^ 64"
  shows "\<exists>out ms. stream_blocks c l rnd ctx ei i bs = Inr (out, ms) \<and> length ms = length bs"
  using assms(3,5)
proof (induction bs arbitrary: i)
  case (Cons b bs)
  then have b: "block_ok l b" "length b \<le> n" by simp_all
  from choose_best_total[OF b(1)] obtain sel where sel: "choose_best_mode l b = Inr sel" by blast
  have code: "mode_code (eb_mode sel) < 256" using mode_code_lt[of "eb_mode sel"] by linarith
  then obtain p where p: "struct_pack DATA_PREFIX [VU ei, VU (length b), VU (mode_code (eb_mode sel))] = Inr p"
    using assms(4) b(2) n by (simp add: struct_pack_def)
  have "layer_fits c rnd ctx i FRAME_DATA (p @ eb_payload sel)"
    using data_prefix_read[OF p] choose_best_decodes(2)[OF sel b(1)] b(2) Cons.prems(2)
    by (intro data_frame_fits[OF layer]) auto
  from sealed.emit_total[OF this] obtain frame m where "emit_frame c rnd ctx i FRAME_DATA (p @ eb_payload sel) = Inr (frame, m)"
    by blast
  moreover obtain out ms where "stream_blocks c l rnd ctx ei (Suc i) bs = Inr (out, ms)" "length ms = length bs"
    using Cons.IH[of "Suc i"] Cons.prems by auto
  ultimately show ?case using sel p by simp
qed simp

text \<open>Sources whose second pass reads what the scan recorded.\<close>

definition stable_entries :: "crypto \<Rightarrow> source_view \<Rightarrow> nat \<Rightarrow> ManifestEntry list \<Rightarrow> bool" where
  "stable_entries c view kind es \<longleftrightarrow> (\<forall>e\<in>set es. is_file_entry e \<longrightarrow>
     (\<exists>data. session_open view 1 (source_key kind e) = Inr data \<and> length data = entry_size e \<and> sha256 c data = digest e))"

lemma stream_entries_total:
  assumes layer: "stream_layer c rnd ctx n" and n: "0 < n" "n \<le> MAX_CHUNK_SIZE"
    and "stable_entries c view kind es" and "frames_match n es" and "blocks_ok l view kind n es"
    and "ei + length es \<le> 2 ^ 32" and "i + file_frames es \<le> 2 ^ 64"
  shows "\<exists>out ms. stream_entries c l rnd ctx view kind n ei i es = Inr (out, ms) \<and> length ms = file_frames es"
  using assms(4-)
proof (induction es arbitrary: ei i)
  case Nil
  then show ?case by (simp add: file_frames_def)
next
  case (Cons e es)
  have es: "stable_entries c view kind es" "frames_match n es" "blocks_ok l view kind n es"
    using Cons.prems by (simp_all add: stable_entries_def frames_match_def blocks_ok_def)
  show ?case
  proof (cases "is_file_entry e")
    case False
    then show ?thesis using Cons.IH[OF es, of "Suc ei" i] Cons.prems(4,5) by (simp add: file_frames_def)
  next
    case True
    then obtain data where data: "session_open view 1 (source_key kind e) = Inr data" "length data = entry_size e"
      "sha256 c data = digest e" using Cons.prems(1) by (auto simp: stable_entries_def)
    have it: "source_item view kind e = (e, data)" using True data by (simp add: source_item_def)
    have len: "length (read_blocks n data) = index_count e"
      using read_blocks_count[OF n(1)] data Cons.prems(2) True by (simp add: frames_match_def)
    have ff: "file_frames (e # es) = index_count e + file_frames es" using True by (simp add: file_frames_def)
    have "\<forall>b\<in>set (read_blocks n data). block_ok l b \<and> length b \<le> n"
      using Cons.prems(3) it read_blocks_size by (auto simp: blocks_ok_def)
    from stream_blocks_total[OF layer n(2) this, of ei i] len ff Cons.prems(4,5) obtain out ms where
      "stream_blocks c l rnd ctx ei i (read_blocks n data) = Inr (out, ms)" "length ms = index_count e" by auto
    moreover from Cons.IH[OF es, of "Suc ei" "i + index_count e"] ff Cons.prems(4,5) obtain out' ms' where
      "stream_entries c l rnd ctx view kind n (Suc ei) (i + index_count e) es = Inr (out', ms')" "length ms' = file_frames es"
      by auto
    ultimately show ?thesis using True data ff by simp
  qed
qed

lemma scan_entries_contents:
  assumes "scan_entries c u view chunk True first keys ses = Inr es" and "digest_law c"
    and "\<forall>se\<in>set ses. nfc u (se_relative_path se) = se_relative_path se"
    and "\<forall>rel. sv_read view 1 rel = sv_read view 0 rel"
  shows "stable_entries c view KIND_FOLDER es"
  using assms
proof (induction ses arbitrary: first keys es)
  case Nil
  then show ?case by (simp add: stable_entries_def)
next
  case (Cons se ses)
  let ?p = "se_relative_path se"
  from Cons.prems(3) have nfc: "nfc u ?p = ?p" by simp
  from scan_entries_ConsE[OF Cons.prems(1) nfc] obtain e es' where es: "es = e # es'"
    and e: "entry_metadata_of c u view se (if se_is_directory se then ENTRY_DIRECTORY else ENTRY_FILE) ?p chunk first True = Inr e"
    and es': "scan_entries c u view chunk True (if is_file_entry e then first + index_count e else first)
        (insert (casefold u ?p) keys) ses = Inr es'" by metis
  have ty: "(if se_is_directory se then ENTRY_DIRECTORY else ENTRY_FILE) \<in> {ENTRY_FILE, ENTRY_DIRECTORY}" by simp
  note m = entry_metadata_of_Inr[OF e nfc Cons.prems(2) ty]
  have st: "stable_entries c view KIND_FOLDER es'" using Cons.IH[OF es' Cons.prems(2) _ Cons.prems(4)] Cons.prems(3) by simp
  have rp: "relative_path e = ?p" using m by simp
  have "\<exists>data. session_open view 1 ?p = Inr data \<and> length data = entry_size e \<and> sha256 c data = digest e"
    if "is_file_entry e"
  proof -
    have nd: "(if se_is_directory se then ENTRY_DIRECTORY else ENTRY_FILE) \<noteq> ENTRY_DIRECTORY"
      using that m by (simp add: is_file_entry_def split: if_splits)
    have "\<exists>data. session_open view 0 ?p = Inr data \<and> entry_size e = length data \<and> digest e = sha256 c data"
      using m nd by (simp only: if_False if_True simp_thms)
    then obtain data where "session_open view 0 ?p = Inr data" "entry_size e = length data" "digest e = sha256 c data"
      by blast
    then show ?thesis using Cons.prems(4) by (auto simp: session_open_def split: if_splits)
  qed
  with st rp show ?case by (simp add: stable_entries_def es source_key_def)
qed

lemma scan_contents:
  assumes scan: "scan_session c u view chunk True = Inr m" and d: "digest_law c" and view: "portable_view u view"
    and same: "\<forall>rel. sv_read view 1 rel = sv_read view 0 rel"
  shows "stable_entries c view (mf_kind m) (mf_entries m)"
proof (cases "sv_root_is_file view")
  case False
  with scan obtain es where "scan_entries c u view chunk True 1 {} (sv_entries view) = Inr es"
    "mf_kind m = KIND_FOLDER" "mf_entries m = es"
    by (auto simp: scan_session_def bindR_eq_Inr split: if_splits)
  with scan_entries_contents[OF _ d _ same] view False show ?thesis by (auto simp: portable_view_def)
next
  case True
  with view obtain se where se: "sv_entries view = [se]" "se_relative_path se = []" by (auto simp: portable_view_def)
  obtain name e where e: "entry_metadata_of c u view se ENTRY_FILE name chunk 1 True = Inr e"
    and m: "mf_kind m = KIND_FILE" "mf_entries m = [e]" and nm: "validate_relative_path u (sv_name view) = Inr name"
    using scan True se by (auto simp: scan_session_def bindR_eq_Inr)
  have nfc: "nfc u (sv_name view) = sv_name view" using view by (simp add: portable_view_def)
  then have "name = sv_name view" using validate_normal[OF nfc nm] by blast
  with entry_metadata_of_Inr[OF e _ d] nfc se same show ?thesis
    by (auto simp: stable_entries_def m source_key_def)
qed

lemma encode_stream_total:
  assumes pw: "normalize_password password = Inr pw" and opts: "validate_stream_options chunk padding log_n r p = Inr ()"
    and paths: "check_output_path fs source is_dir dst = Inr ()" "check_session_output fs source is_dir dst view = Inr ()"
    and scan: "scan_session c u view (nat chunk) True = Inr m" and few: "1 + file_frames (mf_entries m) \<le> MAX_FRAME_COUNT"
    and ser: "serialize_manifest m = Inr payload"
    and small: "int (length payload) \<le> int MAX_MANIFEST_CIPHERTEXT - padding - int AEAD_TAG_LENGTH"
    and laws: "aead_law c" "digest_law c" "os_law fs os" and view: "portable_view u view"
    and ok: "\<forall>rel data. sv_read view 1 rel = Inr data \<longrightarrow> (\<forall>b\<in>set (read_blocks (nat chunk) data). block_ok l b)"
    and same: "\<forall>rel. sv_read view 1 rel = sv_read view 0 rel" and ver: "sv_verify view = Inr ()"
    and new: "writable_path fs dst"
  shows "\<exists>stats fs'. encode_stream_archive c l u os fs source is_dir (Inr view) dst password chunk padding log_n r p
      = (Inr stats, fs') \<and> sse_original_size stats = total_size (mf_entries m)
    \<and> sse_block_count stats = file_frames (mf_entries m)"
proof -
  note o = opts[unfolded validate_stream_options_Inr]
  have rnd: "\<forall>k. random_law (oc_random os k)" using laws(3) by (simp add: os_law_def)
  then have rl: "length (oc_random os k q) = q" for k q by (simp add: random_law_def)
  let ?h = "\<lparr>m2_version = MSC2_VERSION, m2_flags = MSC2_FLAGS, m2_kdf_id = KDF_SCRYPT,
     m2_aead_id = AEAD_CHACHA20_POLY1305, m2_chunk_size = nat chunk, m2_padding_size = nat padding,
     m2_salt = oc_random os 0 SALT_LENGTH, m2_nonce_prefix = oc_random os 1 4, m2_kdf_log_n = nat log_n,
     m2_kdf_r = nat r, m2_kdf_p = nat p, m2_frame_count = 1 + file_frames (mf_entries m)\<rparr>"
  have vh: "valid_msc2_header ?h" using o few rl by (simp add: valid_msc2_header_def nat_le_iff le_nat_iff)
  then obtain gh where gh: "pack_msc2_header ?h = Inr gh" using msc2_header.pack_total by blast
  obtain key where key: "derive_key c password (oc_random os 0 SALT_LENGTH) (nat log_n) (nat r) (nat p) = Inr key"
    using derive_key_ok[OF rl pw] by blast
  let ?job = "\<lparr>sj_view = view, sj_manifest = m, sj_header = ?h, sj_global_header = gh, sj_key = key, sj_payload = payload\<rparr>"
  have prep: "prepare_stream c u os fs source is_dir (Inr view) dst password chunk padding log_n r p = Inr ?job"
    using pw opts paths scan few gh key ser small by (simp add: prepare_stream_def Let_def)
  let ?ctx = "stream_ctx key gh ?h"
  have vc: "valid_ctx ?ctx" by (rule stream_ctx_valid[OF vh])
  have "nat padding \<le> 16777216" "0 < nat padding" using o by (simp_all add: nat_le_iff)
  moreover have "length payload \<le> MAX_MANIFEST_CIPHERTEXT" using small o by linarith
  ultimately have "0 < nat padding" "8 + length payload + nat padding + 16 < 2 ^ 32" by simp_all
  with padded_length_lt[of "nat padding" "8 + length payload"]
  have "padded_length (8 + length payload) (nat padding) + 16 < 2 ^ 32" by simp
  with write_frame_exists[OF vc, of "oc_random os (2 + 0)" 0 payload FRAME_MANIFEST c] rnd obtain frame padded where
    frame: "emit_frame c (oc_random os) ?ctx 0 FRAME_MANIFEST payload = Inr (frame, padded)"
    unfolding emit_frame_def by (auto simp: stream_ctx_def)
  note s = scan_session_Inr[OF scan laws(2) view]
  have layer: "stream_layer c (oc_random os) ?ctx (nat chunk)"
    using laws(1) rnd vc by (simp add: stream_layer_def stream_ctx_def struct_size_def)
  have "frames_match (nat chunk) (mf_entries m)" using s valid_entries_frames unfolding valid_manifest_def by blast
  moreover have "blocks_ok l view (mf_kind m) (nat chunk) (mf_entries m)"
    using ok by (auto simp: blocks_ok_def source_item_def session_open_def split: sum.splits if_splits)
  moreover have "0 + length (mf_entries m) \<le> 2 ^ 32" using s by (simp add: valid_manifest_def)
  moreover have "1 + file_frames (mf_entries m) \<le> 2 ^ 64" using few by simp
  moreover have "0 < nat chunk" "nat chunk \<le> MAX_CHUNK_SIZE" using o by (simp_all add: nat_le_iff)
  ultimately obtain out ms where entries: "stream_entries c l (oc_random os) ?ctx view (mf_kind m) (nat chunk) 0 1 (mf_entries m) = Inr (out, ms)"
    and len: "length ms = file_frames (mf_entries m)"
    using stream_entries_total[OF layer _ _ scan_contents[OF scan laws(2) view same]] by metis
  let ?stats = "stream_encode_stats c l ?job (gh @ frame @ out) padded ms"
  have body: "stream_body c l os ?job = Inr (gh @ frame @ out, padded, ms)"
    using frame entries len by (simp add: stream_body_def)
  have "fst (publish fs os dst (gh @ frame @ out, Inr ?stats) (\<lambda>_. sv_verify view)) = Inr ?stats"
    by (rule publish_run) (simp_all add: ver new)
  then obtain fs' where "publish fs os dst (gh @ frame @ out, Inr ?stats) (\<lambda>_. sv_verify view) = (Inr ?stats, fs')"
    by (metis prod.collapse)
  then have "encode_stream_archive c l u os fs source is_dir (Inr view) dst password chunk padding log_n r p = (Inr ?stats, fs')"
    using prep body by (simp add: encode_stream_archive_def)
  then show ?thesis by (auto simp: stream_encode_stats_def Let_def)
qed

lemma encode_storable:
  assumes pw: "normalize_password password = Inr pw" and opts: "validate_stream_options chunk padding log_n r p = Inr ()"
    and paths: "check_output_path fs source is_dir dst = Inr ()" "check_session_output fs source is_dir dst view = Inr ()"
    and view: "portable_view u view" and st: "storable_view u view"
    and few: "1 + frames_for (nat chunk) (sv_entries view) \<le> MAX_FRAME_COUNT"
    and small: "int (manifest_length view) + padding + 16 \<le> int MAX_MANIFEST_CIPHERTEXT"
    and laws: "aead_law c" "digest_law c" "os_law fs os"
    and ok: "\<forall>rel data. sv_read view 1 rel = Inr data \<longrightarrow> (\<forall>b\<in>set (read_blocks (nat chunk) data). block_ok l b)"
    and same: "\<forall>rel. sv_read view 1 rel = sv_read view 0 rel" and ver: "sv_verify view = Inr ()"
    and new: "writable_path fs dst"
  shows "\<exists>stats fs'. encode_stream_archive c l u os fs source is_dir (Inr view) dst password chunk padding log_n r p
      = (Inr stats, fs') \<and> sse_original_size stats = sum_list (map se_size (files_of view))
    \<and> sse_block_count stats = frames_for (nat chunk) (sv_entries view)"
proof -
  obtain m where scan: "scan_session c u view (nat chunk) True = Inr m"
    and match: "list_all2 (\<lambda>se e. entry_matches (nat chunk) (source_path view se) se e) (sv_entries view) (mf_entries m)"
    using scan_session_total[OF st view, of c "nat chunk"] by blast
  note sums = entry_matches_sums[OF match]
  obtain payload where ser: "serialize_manifest m = Inr payload" "length payload = manifest_length view"
    using serialize_manifest_total[OF st view laws(2) scan few] by blast
  have "1 + file_frames (mf_entries m) \<le> MAX_FRAME_COUNT" using few sums(1) by simp
  moreover have "int (length payload) \<le> int MAX_MANIFEST_CIPHERTEXT - padding - int AEAD_TAG_LENGTH" using ser(2) small by simp
  moreover have "total_size (mf_entries m) = sum_list (map se_size (files_of view))"
    using sums(2) by (simp add: total_size_def files_of_def)
  ultimately show ?thesis
    using encode_stream_total[OF pw opts paths scan _ ser(1) _ laws view ok same ver new] sums(1) by simp
qed

section \<open>Errors and inspection\<close>

lemma decode_stream_atomic:
  assumes "os_law fs os" and "decode_stream_archive c l u os fs archive dst password mo mf = (Inl e, fs')"
  shows "parents_at_most fs dst fs'"
proof (cases "open_stream c u fs archive password (Some dst) mo mf")
  case (Inl e')
  with assms(2) show ?thesis by (simp add: decode_stream_archive_def decode_or_inspect_def)
next
  case (Inr a)
  define body where "body = (\<lambda>t. bindR (restore_stream c l a (Some t)) (\<lambda>(out, stats).
    Inr (case out of None \<Rightarrow> t | Some t \<Rightarrow> t, stats)))"
  define check where "check = (\<lambda>fs. if path_matches_file_identity (fs_stat fs dst) (sa_identity a)
    then Inl (ValueError ''archive and output paths must be different'') else Inr ())"
  obtain outcome where p: "publish_output fs os dst (mf_kind (sa_manifest a)) body check = (outcome, fs')"
    and o: "bindR outcome (\<lambda>(stats, _). Inr stats) = Inl e"
    using assms(2) Inr
    by (auto simp: decode_stream_archive_def decode_or_inspect_def body_def check_def split: prod.splits)
  from o obtain e' where "outcome = Inl e'" by (cases outcome) auto
  with p publish_output_error[OF assms(1)] show ?thesis by blast
qed

text \<open>A restore and an inspection read the same frames.\<close>

lemma restore_entries_inspect:
  assumes "restore_entries c l ctx kind n ei i es (Some t) s = Inr (out, ms, rest)"
  shows "restore_entries c l ctx kind n ei i es None s = Inr (None, ms, rest)"
  using assms
proof (induction es arbitrary: ei i t s ms)
  case (Cons e es)
  show ?case
  proof (cases "is_directory_entry e")
    case True
    with Cons show ?thesis by (auto simp: start_directory_def bindR_eq_Inr)
  next
    case False
    with Cons.prems obtain t1 where t1: "start_file kind e (Some t) = Inr (Some t1)"
      by (auto simp: start_file_def bindR_eq_Inr Let_def)
    obtain content ms1 s1 where rd: "read_file_frames c l ctx n ei (entry_size e) 0 (index_count e) i s = Inr (content, ms1, s1)"
      using Cons.prems False t1 by (auto simp: bindR_eq_Inr)
    have ok: "length content = entry_size e" "sha256 c content = digest e"
      using Cons.prems False t1 rd by (auto split: if_splits)
    obtain t2 where t2: "finish_file kind e content (Some t1) = Inr (Some t2)"
      using Cons.prems False t1 rd ok by (auto simp: finish_file_def bindR_eq_Inr Let_def)
    obtain ms2 where "restore_entries c l ctx kind n (Suc ei) (i + index_count e) es (Some t2) s1 = Inr (out, ms2, rest)"
      "ms = ms1 @ ms2"
      using Cons.prems False t1 rd ok t2 by (auto simp: bindR_eq_Inr)
    with Cons.IH rd ok False show ?thesis by (simp add: start_file_def finish_file_def)
  qed
qed simp

lemma open_stream_inspect:
  "open_stream c u fs archive password (Some d) mo mf = Inr a \<Longrightarrow> open_stream c u fs archive password None mo mf = Inr a"
  by (auto simp: open_stream_def bindR_eq_Inr split: option.splits if_splits)

lemma inspect_after_decode:
  assumes "decode_stream_archive c l u os fs archive dst password mo mf = (Inr stats, fs')"
  shows "\<exists>info. inspect_stream_archive c l u os' fs archive password mo mf = Inr info
    \<and> ssi_original_size info = ssd_original_size stats \<and> ssi_block_count info = ssd_block_count stats
    \<and> ssi_file_count info = ssd_file_count stats \<and> ssi_directory_count info = ssd_directory_count stats
    \<and> ssi_mode_distribution info = ssd_mode_distribution stats"
proof -
  obtain a where a: "open_stream c u fs archive password (Some dst) mo mf = Inr a"
    using assms by (cases "open_stream c u fs archive password (Some dst) mo mf")
      (auto simp: decode_stream_archive_def decode_or_inspect_def)
  define body where "body = (\<lambda>t. bindR (restore_stream c l a (Some t)) (\<lambda>(out, stats).
    Inr (case out of None \<Rightarrow> t | Some t \<Rightarrow> t, stats)))"
  define check where "check = (\<lambda>fs. if path_matches_file_identity (fs_stat fs dst) (sa_identity a)
    then Inl (ValueError ''archive and output paths must be different'') else Inr ())"
  obtain outcome where p: "publish_output fs os dst (mf_kind (sa_manifest a)) body check = (outcome, fs')"
    and o: "bindR outcome (\<lambda>(stats, _). Inr stats) = Inr stats"
    using assms a
    by (auto simp: decode_stream_archive_def decode_or_inspect_def body_def check_def split: prod.splits)
  from o obtain info where oc: "outcome = Inr (stats, info)" by (auto simp: bindR_eq_Inr)
  from publish_output_success[OF p[unfolded oc]] obtain t where
    b: "body (empty_output (mf_kind (sa_manifest a))) = Inr (t, stats, info)" by blast
  define t0 where "t0 = empty_output (mf_kind (sa_manifest a))"
  from b obtain out where r: "restore_stream c l a (Some t0) = Inr (out, stats, info)"
    unfolding body_def t0_def[symmetric] by (auto simp: bindR_eq_Inr)
  then obtain out' ms where e: "restore_entries c l (sa_ctx a) (mf_kind (sa_manifest a)) (m2_chunk_size (sa_header a))
      0 1 (mf_entries (sa_manifest a)) (Some t0) (sa_stream a) = Inr (out', ms, [])"
    and n: "1 + length ms = m2_frame_count (sa_header a)"
    and st: "stats = stream_decode_stats a ms" "info = stream_archive_info a ms"
    by (auto simp: restore_stream_def Let_def bindR_eq_Inr split: if_splits)
  from restore_entries_inspect[OF e] n have "restore_stream c l a None = Inr (None, stats, info)"
    by (simp add: restore_stream_def finish_output_def st)
  with open_stream_inspect[OF a] have "inspect_stream_archive c l u os' fs archive password mo mf = Inr info"
    by (simp add: inspect_stream_archive_def decode_or_inspect_def)
  then show ?thesis by (simp add: st stream_decode_stats_def stream_archive_info_def Let_def)
qed

section \<open>An example folder\<close>

definition example_folder :: source_view where
  "example_folder =
     \<lparr>sv_name = lit ''src'', sv_root_is_file = False,
      sv_entries =
        [\<lparr>se_relative_path = lit ''d'', se_is_directory = True, se_st_mode = 16877, se_size = 0, se_mtime_ns = 5\<rparr>,
         \<lparr>se_relative_path = lit ''d/f'', se_is_directory = False, se_st_mode = 33188, se_size = 3, se_mtime_ns = 7\<rparr>],
      sv_read = (\<lambda>_ _. Inr [1, 2, 3]), sv_verify = Inr ()\<rparr>"

definition example_manifest :: Manifest where
  "example_manifest =
     \<lparr>mf_kind = KIND_FOLDER, mf_root_name = lit ''src'',
      mf_entries =
        [\<lparr>entry_type = ENTRY_DIRECTORY, relative_path = lit ''d'', entry_mode = 493, mtime_ns = 5,
          entry_size = 0, first_index = 0, index_count = 0, digest = ZERO_HASH\<rparr>,
         \<lparr>entry_type = ENTRY_FILE, relative_path = lit ''d/f'', entry_mode = 420, mtime_ns = 7,
          entry_size = 3, first_index = 1, index_count = 2, digest = sha256 example_crypto [1, 2, 3]\<rparr>]\<rparr>"

lemma example_paths:
  "validate_relative_path ascii_tables (lit ''src'') = Inr (lit ''src'')"
  "validate_relative_path ascii_tables (lit ''d'') = Inr (lit ''d'')"
  "validate_relative_path ascii_tables (lit ''d/f'') = Inr (lit ''d/f'')"
  by (auto simp: validate_relative_path_def ascii_tables_def lit_def Let_def utf8_char_def
      posix_is_absolute_def posix_components_def validate_part_def INVALID_WINDOWS_CHARS_def
      part_stem_def ascii_upper_def RESERVED_WINDOWS_NAMES_def)

lemma example_parts:
  "posix_components (lit ''d'') = [lit ''d'']" "posix_components (lit ''d/f'') = [lit ''d'', lit ''f'']"
  "nfc ascii_tables s = s"
  by (simp_all add: posix_components_def lit_def ascii_tables_def)

lemma example_folder_portable: "portable_view ascii_tables example_folder"
  by (simp add: portable_view_def example_folder_def example_parts Let_def) (simp add: lit_def)

lemma example_scan: "scan_session example_crypto ascii_tables example_folder 2 True = Inr example_manifest"
proof -
  have keys: "casefold ascii_tables (lit ''d/f'') \<noteq> casefold ascii_tables (lit ''d'')"
    by (simp add: ascii_tables_def lit_def ascii_lower_def)
  have paths: "lit ''d'' \<in> session_paths example_folder" "lit ''d/f'' \<in> session_paths example_folder"
    "lit ''d'' \<noteq> lit ''d/f''"
    by (simp_all add: session_paths_def example_folder_def lit_def)
  have hash: "hash_file example_crypto example_folder (lit ''d/f'') = Inr (3, sha256 example_crypto [1, 2, 3])"
    using paths by (simp add: hash_file_def session_open_def session_size_def) (simp add: example_folder_def)
  have v: "sv_name example_folder = lit ''src''" "\<not> sv_root_is_file example_folder"
    "sv_entries example_folder = [\<lparr>se_relative_path = lit ''d'', se_is_directory = True, se_st_mode = 16877, se_size = 0, se_mtime_ns = 5\<rparr>,
         \<lparr>se_relative_path = lit ''d/f'', se_is_directory = False, se_st_mode = 33188, se_size = 3, se_mtime_ns = 7\<rparr>]"
    by (simp_all add: example_folder_def)
  show ?thesis
    using paths keys hash
    by (simp add: scan_session_def v example_paths Let_def entry_metadata_of_def session_path_def S_ISDIR_def
        S_ISREG_def S_IFMT_def S_IMODE_def is_file_entry_def example_manifest_def)
qed

lemma example_serialize: "\<exists>payload. serialize_manifest example_manifest = Inr payload \<and> length payload < 1000"
proof -
  have utf8: "utf8_encode (lit ''src'') = Inr [115, 114, 99]" "utf8_encode (lit ''d'') = Inr [100]"
    "utf8_encode (lit ''d/f'') = Inr [100, 47, 102]"
    by (simp_all add: lit_def utf8_char_def)
  obtain a where a: "struct_pack MANIFEST_PREFIX [VB MANIFEST_MAGIC, VU 2, VU (Suc (Suc (Suc 0))), VU (Suc (Suc 0))] = Inr a"
    by (simp add: struct_pack_def)
  let ?es = "mf_entries example_manifest"
  obtain b where b: "struct_pack ENTRY_FIXED (entry_values (?es ! 0) [100]) = Inr b"
    by (simp add: struct_pack_def entry_values_def example_manifest_def)
  obtain d where d: "struct_pack ENTRY_FIXED (entry_values (?es ! 1) [100, 47, 102]) = Inr d"
    by (simp add: struct_pack_def entry_values_def example_manifest_def)
  have "length a = 11" "length b = 67" "length d = 67"
    using struct_pack_length[OF a] struct_pack_length[OF b] struct_pack_length[OF d] by (simp_all add: struct_size_def)
  then show ?thesis using a b d by (simp add: serialize_manifest_def example_manifest_def utf8)
qed

lemma example_manifest_sizes:
  "total_size (mf_entries example_manifest) = 3" "file_frames (mf_entries example_manifest) = 2"
  by (simp_all add: example_manifest_def total_size_def file_frames_def is_file_entry_def)

lemma example_folder_ok:
  "sv_read example_folder i rel = Inr [1, 2, 3]" "sv_verify example_folder = Inr ()"
  "\<not> sv_root_is_file example_folder"
  "\<forall>b\<in>set (read_blocks 2 [1, 2, 3]). length b \<le> 16777216"
  using example_blocks_ok by (simp_all add: example_folder_def)

lemma example_encode_setup:
  "normalize_password (PBytes [112]) = Inr [112]" "validate_stream_options 2 256 14 8 1 = Inr ()"
  "check_output_path example_fs (lit ''src'') True (lit ''arc'') = Inr ()"
  "check_session_output example_fs (lit ''src'') True (lit ''arc'') example_folder = Inr ()"
  "file_frames (mf_entries example_manifest) \<le> 16777215" "writable_path example_fs (lit ''arc'')"
  by (simp_all add: normalize_password_def validate_stream_options_def check_output_path_def check_session_output_def
      example_fs_simps is_relative_to_def posix_components_def example_manifest_sizes) (simp add: lit_def)+

lemma example_folder_storable:
  "storable_view ascii_tables example_folder" "manifest_length example_folder = 152"
  "frames_for 2 (sv_entries example_folder) = 2" "sum_list (map se_size (files_of example_folder)) = 3"
  "lit ''src'' \<noteq> lit ''arc''"
  "\<not> is_relative_to (lit ''arc'') (lit ''src'')"
proof -
  have "casefold ascii_tables (lit ''d/f'') \<noteq> casefold ascii_tables (lit ''d'')"
    by (simp add: ascii_tables_def lit_def ascii_lower_def)
  then show "storable_view ascii_tables example_folder"
    by (simp add: storable_view_def storable_entry_def portable_def example_folder_def example_paths S_ISDIR_def
        S_ISREG_def S_IFMT_def)
  have "path_length (lit ''src'') = 3" "path_length (lit ''d'') = 1" "path_length (lit ''d/f'') = 3"
    by (simp_all add: path_length_def lit_def utf8_char_def)
  then show "manifest_length example_folder = 152"
    by (simp add: manifest_length_def example_folder_def struct_size_def)
  show "frames_for 2 (sv_entries example_folder) = 2" "sum_list (map se_size (files_of example_folder)) = 3"
    by (simp_all add: frames_for_def files_of_def example_folder_def)
  show "lit ''src'' \<noteq> lit ''arc''"
    "\<not> is_relative_to (lit ''arc'') (lit ''src'')"
    by (simp_all add: is_relative_to_def posix_components_def lit_def)
qed

lemma example_msc2_encodes:
  "\<exists>stats fs1. encode_stream_archive example_crypto example_clib ascii_tables example_os example_fs (lit ''src'') True
      (Inr example_folder) (lit ''arc'') (PBytes [112]) 2 256 14 8 1 = (Inr stats, fs1)
    \<and> sse_original_size stats = 3 \<and> sse_block_count stats = 2"
proof -
  obtain payload where payload: "serialize_manifest example_manifest = Inr payload" "length payload < 1000"
    using example_serialize by blast
  have scan: "scan_session example_crypto ascii_tables example_folder (nat 2) True = Inr example_manifest"
    using example_scan by simp
  have "\<exists>stats fs'. encode_stream_archive example_crypto example_clib ascii_tables example_os example_fs (lit ''src'') True
      (Inr example_folder) (lit ''arc'') (PBytes [112]) 2 256 14 8 1 = (Inr stats, fs')
    \<and> sse_original_size stats = total_size (mf_entries example_manifest)
    \<and> sse_block_count stats = file_frames (mf_entries example_manifest)"
    by (rule encode_stream_total[OF _ _ _ _ scan _ payload(1), of _ "[112]"])
      (use payload(2) in \<open>simp_all add: example_encode_setup example_crypto_laws example_os_law example_folder_portable
        example_folder_ok\<close>)
  then show ?thesis by (simp add: example_manifest_sizes)
qed

lemma example_msc2_files:
  assumes "encode_stream_archive example_crypto example_clib ascii_tables example_os example_fs (lit ''src'') True
      (Inr example_folder) (lit ''arc'') (PBytes [112]) 2 256 14 8 1 = (Inr stats, fs1)"
  shows "os_law fs1 example_os'" and "fresh_path fs1 (lit ''out'')"
proof -
  obtain bytes where "fs1 = published example_fs (lit ''arc'')
      \<lparr>fl_id = oc_identity example_os, fl_bytes = bytes, fl_meta = None\<rparr>"
    by (rule encode_stream_Inr[OF assms example_os_law example_msc1_names(2)])
  then show "os_law fs1 example_os'" and "fresh_path fs1 (lit ''out'')"
    by (simp_all add: published_example)
qed

lemma example_source_tree:
  "source_tree example_folder [lit ''d'', lit ''f''] = Some (TFile [1, 2, 3] (Some (420, 7)))"
  by (simp add: source_tree_def example_folder_def example_parts source_node_def Let_def S_IMODE_def)

lemma example_msc2_decodes:
  "\<exists>fs1 ds fs2. decode_stream_archive example_crypto example_clib ascii_tables example_os' fs1 (lit ''arc'') (lit ''out'')
      (PBytes [112]) 1000 1000 = (Inr ds, fs2) \<and> ssd_original_size ds = 3"
proof -
  obtain stats fs1 where enc: "encode_stream_archive example_crypto example_clib ascii_tables example_os example_fs
      (lit ''src'') True (Inr example_folder) (lit ''arc'') (PBytes [112]) 2 256 14 8 1 = (Inr stats, fs1)"
    and sizes: "sse_original_size stats = 3" "sse_block_count stats = 2" using example_msc2_encodes by blast
  have "\<exists>ds fs2. decode_stream_archive example_crypto example_clib ascii_tables example_os' fs1 (lit ''arc'')
      (lit ''out'') (PBytes [112]) 1000 1000 = (Inr ds, fs2)
    \<and> ssd_original_size ds = sse_original_size stats
    \<and> (if sv_root_is_file example_folder
       then \<exists>se data. sv_entries example_folder = [se] \<and> sv_read example_folder 1 [] = Inr data
         \<and> fs2 = published fs1 (lit ''out'') \<lparr>fl_id = oc_identity example_os', fl_bytes = data,
             fl_meta = Some (S_IMODE (se_st_mode se) mod 512, se_mtime_ns se)\<rparr>
       else fs2 = folder_published fs1 (lit ''out'') (source_tree example_folder))"
    by (rule stream_restores[OF enc])
      (simp_all add: example_crypto_laws example_os_law example_msc2_files[OF enc] sizes example_folder_portable
        example_folder_ok example_msc1_names)
  then show ?thesis using sizes by auto
qed

section \<open>What goes wrong\<close>

text \<open>Names that normalisation changes.\<close>

lemma scan_entries_member:
  assumes "scan_entries c u view chunk wh first keys ses = Inr es" and "se \<in> set ses" and "\<not> se_is_directory se"
  shows "\<exists>e\<in>set es. is_file_entry e \<and> relative_path e = nfc u (nfc u (se_relative_path se))"
  using assms
proof (induction ses arbitrary: first keys es)
  case (Cons s ses)
  let ?ty = "if se_is_directory s then ENTRY_DIRECTORY else ENTRY_FILE"
  obtain r where r: "validate_relative_path u (se_relative_path s) = Inr r"
    using Cons.prems(1) by (cases "validate_relative_path u (se_relative_path s)") (auto simp: Let_def)
  then have nr: "r = nfc u (se_relative_path s)" using validate_relative_path_Inr by blast
  obtain e where e: "entry_metadata_of c u view s ?ty r chunk first wh = Inr e"
    using Cons.prems(1) r
    by (cases "entry_metadata_of c u view s ?ty r chunk first wh") (auto simp: Let_def split: if_split_asm)
  obtain es' where es': "scan_entries c u view chunk wh (if is_file_entry e then first + index_count e else first)
      (insert (casefold u r) keys) ses = Inr es'" and es: "es = e # es'"
    using Cons.prems(1) r e by (auto simp: Let_def bindR_eq_Inr simp del: One_nat_def split: if_split_asm)
  show ?case
  proof (cases "se = s")
    case True
    with Cons.prems(3) e obtain path where "validate_relative_path u r = Inr path"
      "relative_path e = path" "entry_type e = ENTRY_FILE"
      by (auto simp: entry_metadata_of_def Let_def bindR_eq_Inr split: if_split_asm)
    with nr True have "is_file_entry e" "relative_path e = nfc u (nfc u (se_relative_path se))"
      using validate_relative_path_Inr by (auto simp: is_file_entry_def)
    then show ?thesis by (auto simp: es)
  next
    case False
    with Cons.IH[OF es'] Cons.prems show ?thesis by (auto simp: es)
  qed
qed simp

lemma stream_entries_opened:
  "stream_entries c l rnd ctx view kind n ei i es = Inr r \<Longrightarrow> e \<in> set es \<Longrightarrow> is_file_entry e \<Longrightarrow>
   \<exists>data. session_open view 1 (source_key kind e) = Inr data"
  by (induction es arbitrary: ei i r) (auto simp: bindR_eq_Inr split: if_split_asm)

lemma encode_unnormalised:
  assumes folder: "\<not> sv_root_is_file view" and se: "se \<in> set (sv_entries view)" "\<not> se_is_directory se"
    and idem: "nfc u (nfc u (se_relative_path se)) = nfc u (se_relative_path se)"
    and missing: "nfc u (se_relative_path se) \<notin> session_paths view"
  shows "case fst (encode_stream_archive c l u os fs source is_dir (Inr view) dst password chunk padding log_n r p) of
      Inl _ \<Rightarrow> True | Inr _ \<Rightarrow> False"
proof (cases "prepare_stream c u os fs source is_dir (Inr view) dst password chunk padding log_n r p")
  case (Inl e)
  then show ?thesis by (simp add: encode_stream_archive_def)
next
  case (Inr job)
  then obtain m where scan: "scan_session c u view (nat chunk) True = Inr m" and job: "sj_manifest job = m" "sj_view job = view"
    by (auto simp: prepare_stream_def bindR_eq_Inr Let_def split: if_splits)
  from scan folder obtain es where es: "scan_entries c u view (nat chunk) True 1 {} (sv_entries view) = Inr es"
    and m: "mf_entries m = es" "mf_kind m = KIND_FOLDER"
    by (auto simp: scan_session_def bindR_eq_Inr split: if_splits)
  from scan_entries_member[OF es se] idem obtain e where e: "e \<in> set es" "is_file_entry e"
    "relative_path e = nfc u (se_relative_path se)" by auto
  have "\<exists>x. stream_body c l os job = Inl x"
  proof (cases "stream_body c l os job")
    case (Inr b)
    then obtain r where "stream_entries c l (oc_random os) (stream_ctx (sj_key job) (sj_global_header job) (sj_header job))
        view (mf_kind m) (m2_chunk_size (sj_header job)) 0 1 es = Inr r"
      by (auto simp: stream_body_def Let_def bindR_eq_Inr job m)
    from stream_entries_opened[OF this e(1,2)] missing e(3) m(2) have False
      by (simp add: source_key_def session_open_def)
    then show ?thesis ..
  qed simp
  with Inr show ?thesis
    by (auto simp: encode_stream_archive_def publish_def publish_file_def Let_def split: sum.splits)
qed

text \<open>Two names of one target.\<close>

definition alias_manifest :: "bytes \<Rightarrow> bytes \<Rightarrow> Manifest" where
  "alias_manifest h1 h2 =
     \<lparr>mf_kind = KIND_FOLDER, mf_root_name = lit ''r'',
      mf_entries =
        [\<lparr>entry_type = ENTRY_DIRECTORY, relative_path = lit ''a'', entry_mode = 493, mtime_ns = 0,
          entry_size = 0, first_index = 0, index_count = 0, digest = ZERO_HASH\<rparr>,
         \<lparr>entry_type = ENTRY_FILE, relative_path = lit ''a/b'', entry_mode = 420, mtime_ns = 0,
          entry_size = 1, first_index = 1, index_count = 1, digest = h1\<rparr>,
         \<lparr>entry_type = ENTRY_FILE, relative_path = lit ''a//b'', entry_mode = 420, mtime_ns = 0,
          entry_size = 1, first_index = 2, index_count = 1, digest = h2\<rparr>]\<rparr>"

lemma alias_paths:
  assumes u: "unicode_ascii u"
  shows "portable u (lit ''r'')" "portable u (lit ''a'')" "portable u (lit ''a/b'')" "portable u (lit ''a//b'')"
    "casefold u (lit ''a'') = lit ''a''" "casefold u (lit ''a/b'') = lit ''a/b''" "casefold u (lit ''a//b'') = lit ''a//b''"
proof -
  have n: "nfc u (lit s) = lit s" "casefold u (lit s) = map ascii_lower (lit s)"
    if "s \<in> {''r'', ''a'', ''a/b'', ''a//b''}" for s
    using u that by (auto simp: unicode_ascii_def ascii_def lit_def)
  have up: "upper u [97] = [65]" "upper u [98] = [66]" "upper u [114] = [82]"
    using u by (simp_all add: unicode_ascii_def ascii_def ascii_upper_def)
  show "portable u (lit ''r'')" "portable u (lit ''a'')" "portable u (lit ''a/b'')" "portable u (lit ''a//b'')"
    using up n(1)[of "''r''"] n(1)[of "''a''"] n(1)[of "''a/b''"] n(1)[of "''a//b''"]
    by (auto simp: portable_def validate_relative_path_def lit_def Let_def utf8_char_def posix_is_absolute_def
        posix_components_def validate_part_def INVALID_WINDOWS_CHARS_def part_stem_def RESERVED_WINDOWS_NAMES_def)
  show "casefold u (lit ''a'') = lit ''a''" "casefold u (lit ''a/b'') = lit ''a/b''" "casefold u (lit ''a//b'') = lit ''a//b''"
    using n(2)[of "''a''"] n(2)[of "''a/b''"] n(2)[of "''a//b''"] by (simp_all add: lit_def ascii_lower_def)
qed

lemma alias_parts:
  "posix_components (lit ''a'') = [lit ''a'']" "posix_components (lit ''a/b'') = [lit ''a'', lit ''b'']"
  "posix_components (lit ''a//b'') = [lit ''a'', lit ''b'']"
  by (simp_all add: posix_components_def lit_def)

lemma alias_accepted:
  assumes u: "unicode_ascii u" and h: "length h1 = 32" "length h2 = 32" "m2_chunk_size h = 1024" "m2_frame_count h = 3"
  shows "case serialize_manifest (alias_manifest h1 h2) of Inl _ \<Rightarrow> False
    | Inr data \<Rightarrow> parse_manifest u data h = Inr (alias_manifest h1 h2)"
proof -
  have utf8: "utf8_encode (lit ''r'') = Inr [114]" "utf8_encode (lit ''a'') = Inr [97]"
    "utf8_encode (lit ''a/b'') = Inr [97, 47, 98]" "utf8_encode (lit ''a//b'') = Inr [97, 47, 47, 98]"
    by (simp_all add: lit_def utf8_char_def)
  have "\<exists>data. serialize_manifest (alias_manifest h1 h2) = Inr data"
    by (simp add: serialize_manifest_def alias_manifest_def utf8 struct_pack_def entry_values_def)
  then obtain data where data: "serialize_manifest (alias_manifest h1 h2) = Inr data" ..
  have ne: "lit ''a'' \<noteq> lit ''a/b''" "lit ''a'' \<noteq> lit ''a//b''" "lit ''a/b'' \<noteq> lit ''a//b''" by (simp_all add: lit_def)
  have "valid_manifest u (m2_chunk_size h) (m2_frame_count h) (alias_manifest h1 h2)"
    using alias_paths[OF u] h ne
    by (auto simp: valid_manifest_def alias_manifest_def is_file_entry_def is_directory_entry_def check_frame_range_def
        parents_present_def posix_parent_def alias_parts) (simp add: lit_def)
  from manifest_roundtrip[OF data this] data show ?thesis by simp
qed

lemma alias_restores:
  "bindR (restore_items KIND_FOLDER (zip (mf_entries (alias_manifest h1 h2)) [[], [1], [2]])
      (Some (empty_output KIND_FOLDER))) (finish_output KIND_FOLDER (mf_entries (alias_manifest h1 h2)))
   = Inr (Some [[] \<mapsto> TDir None, [lit ''a''] \<mapsto> TDir (Some (493, 0)),
                [lit ''a'', lit ''b''] \<mapsto> TFile [2] (Some (420, 0))])"
  by (simp add: alias_manifest_def is_directory_entry_def start_directory_def start_file_def finish_file_def
      target_for_entry_def alias_parts make_new_directory_def is_file_node_def open_target_def write_target_def apply_metadata_def
      empty_output_def entry_metadata_def finish_output_def directories_deepest_first_def fun_upd_twist Let_def)

section \<open>Properties\<close>

text \<open>C3: MSC2 restores what it stored: for every source (a file or a whole folder tree) that is seen as a session shows a quiet tree and whose names are in Unicode normal form C (\<open>portable_view\<close>) and whose blocks zlib restores, the archive that an encode published decodes, under the same password and sufficient limits, at a free destination, to exactly the source: a file with its bytes, permission bits and time, or a folder with every entry; nothing else changes, but that the missing directories on the way to the destination are made. The encoder forgets the length field when it checks the manifest, so the padding size must be a multiple of 16 or the archive at most 256 MiB long.\<close>

lemma msc2_roundtrip:
  assumes "encode_stream_archive c l u os fs source is_dir (Inr view) archive password chunk padding log_n r p = (Inr stats, fs1)"
    and "aead_law c" "digest_law c" "os_law fs os" "os_law fs1 os'" and "portable_view u view"
    and "padding_fits (nat padding) (sse_archive_size stats)"
    and "\<forall>rel data. sv_read view 1 rel = Inr data \<longrightarrow> (\<forall>b\<in>set (read_blocks (nat chunk) data). block_ok l b)"
    and "archive \<noteq> oc_temporary os" "restored \<noteq> oc_temporary os'" and "fresh_path fs1 restored"
    and "int (sse_original_size stats) \<le> mo" "0 < mo" "int (sse_block_count stats) \<le> mf" "0 < mf"
  shows "\<exists>ds fs2. decode_stream_archive c l u os' fs1 archive restored password mo mf = (Inr ds, fs2)
    \<and> ssd_original_size ds = sse_original_size stats
    \<and> (if sv_root_is_file view
       then \<exists>se data. sv_entries view = [se] \<and> sv_read view 1 [] = Inr data
         \<and> fs2 = published fs1 restored \<lparr>fl_id = oc_identity os', fl_bytes = data,
             fl_meta = Some (S_IMODE (se_st_mode se) mod 512, se_mtime_ns se)\<rparr>
       else fs2 = folder_published fs1 restored (source_tree view))"
  by (rule stream_restores[OF assms])

lemma msc2_roundtrip_witness:
  "\<exists>stats fs1 ds fs2 t.
     encode_stream_archive example_crypto example_clib ascii_tables example_os example_fs (lit ''src'') True
       (Inr example_folder) (lit ''arc'') (PBytes [112]) 2 256 14 8 1 = (Inr stats, fs1)
     \<and> decode_stream_archive example_crypto example_clib ascii_tables example_os' fs1 (lit ''arc'') (lit ''out'')
         (PBytes [112]) 1000 1000 = (Inr ds, fs2)
     \<and> fs_trees fs2 (lit ''out'') = Some t
     \<and> t [lit ''d'', lit ''f''] = Some (TFile [1, 2, 3] (Some (420, 7)))"
proof -
  obtain stats fs1 where enc: "encode_stream_archive example_crypto example_clib ascii_tables example_os example_fs
      (lit ''src'') True (Inr example_folder) (lit ''arc'') (PBytes [112]) 2 256 14 8 1 = (Inr stats, fs1)"
    and sizes: "sse_original_size stats = 3" "sse_block_count stats = 2" using example_msc2_encodes by blast
  note fs1 = example_msc2_files[OF enc]
  have "\<exists>ds fs2. decode_stream_archive example_crypto example_clib ascii_tables example_os' fs1 (lit ''arc'')
      (lit ''out'') (PBytes [112]) 1000 1000 = (Inr ds, fs2)
    \<and> ssd_original_size ds = sse_original_size stats
    \<and> (if sv_root_is_file example_folder
       then \<exists>se data. sv_entries example_folder = [se] \<and> sv_read example_folder 1 [] = Inr data
         \<and> fs2 = published fs1 (lit ''out'') \<lparr>fl_id = oc_identity example_os', fl_bytes = data,
             fl_meta = Some (S_IMODE (se_st_mode se) mod 512, se_mtime_ns se)\<rparr>
       else fs2 = folder_published fs1 (lit ''out'') (source_tree example_folder))"
    by (rule msc2_roundtrip[OF enc])
      (simp_all add: example_crypto_laws example_os_law fs1 sizes example_folder_portable example_folder_ok
        example_msc1_names)
  then obtain ds fs2 where dec: "decode_stream_archive example_crypto example_clib ascii_tables example_os' fs1 (lit ''arc'')
      (lit ''out'') (PBytes [112]) 1000 1000 = (Inr ds, fs2)"
    and fs2: "fs2 = folder_published fs1 (lit ''out'') (source_tree example_folder)"
    by (auto simp: example_folder_def)
  show ?thesis
    by (intro exI[of _ stats] exI[of _ fs1] exI[of _ ds] exI[of _ fs2] exI[of _ "source_tree example_folder"])
      (simp add: enc dec fs2 example_source_tree)
qed

text \<open>C12: The MSC2 encoder succeeds, scan, serialisation and all, on every source with portable names that differ under case folding, entries of the recorded file types, times and sizes within their 64-bit fields, at most 1000000 entries, and files that read as their recorded sizes in both passes, when the options are in their ranges, the destination can be written outside the source, the frames and the manifest's bytes stay below their limits and zlib restores the blocks. Its statistics count the bytes and the frames of the files.\<close>

lemma msc2_encoder_succeeds:
  assumes "normalize_password password = Inr pw"
    and "1 \<le> chunk" "chunk \<le> 16777216" "256 \<le> padding" "padding \<le> 16777216" "14 \<le> log_n" "log_n \<le> 18"
    and "fs_resolve fs source \<noteq> fs_resolve fs dst" and "writable_path fs dst"
    and "\<not> is_relative_to (fs_resolve fs dst) (fs_resolve fs source)"
    and "portable_view u view" and "storable_view u view"
    and "1 + frames_for (nat chunk) (sv_entries view) \<le> MAX_FRAME_COUNT"
    and "int (manifest_length view) + padding + 16 \<le> int MAX_MANIFEST_CIPHERTEXT"
    and "aead_law c" "digest_law c" "os_law fs os"
    and "\<forall>rel data. sv_read view 1 rel = Inr data \<longrightarrow> (\<forall>b\<in>set (read_blocks (nat chunk) data). block_ok l b)"
    and "\<forall>rel. sv_read view 1 rel = sv_read view 0 rel" and "sv_verify view = Inr ()"
  shows "\<exists>stats fs'. encode_stream_archive c l u os fs source is_dir (Inr view) dst password chunk padding log_n 8 1
      = (Inr stats, fs') \<and> sse_original_size stats = sum_list (map se_size (files_of view))
    \<and> sse_block_count stats = frames_for (nat chunk) (sv_entries view)"
  by (rule encode_storable)
    (use assms in \<open>simp_all add: validate_stream_options_Inr check_output_path_def check_session_output_def\<close>)

lemma msc2_encoder_succeeds_witness:
  "\<exists>stats fs'. encode_stream_archive example_crypto example_clib ascii_tables example_os example_fs (lit ''src'') True
      (Inr example_folder) (lit ''arc'') (PBytes [112]) 2 256 14 8 1 = (Inr stats, fs')
    \<and> sse_original_size stats = 3 \<and> sse_block_count stats = 2"
proof -
  note ex = example_encode_setup example_crypto_laws example_os_law example_folder_portable example_folder_storable
    example_folder_ok example_fs_simps
  have "\<exists>stats fs'. encode_stream_archive example_crypto example_clib ascii_tables example_os example_fs (lit ''src'') True
      (Inr example_folder) (lit ''arc'') (PBytes [112]) 2 256 14 8 1 = (Inr stats, fs')
    \<and> sse_original_size stats = sum_list (map se_size (files_of example_folder))
    \<and> sse_block_count stats = frames_for (nat 2) (sv_entries example_folder)"
    by (rule msc2_encoder_succeeds[where pw = "[112]" and u = ascii_tables]) (simp_all add: ex)
  then show ?thesis by (simp add: ex)
qed

text \<open>C22: A folder with a file whose name is not in Unicode normal form C, and whose normal form is not another discovered name, cannot be archived: the encoder scans it under the normalised name and then looks that name up among the discovered ones.\<close>

lemma unnormalised_names_fail:
  "\<not> sv_root_is_file view \<Longrightarrow> se \<in> set (sv_entries view) \<Longrightarrow> \<not> se_is_directory se \<Longrightarrow>
   nfc u (nfc u (se_relative_path se)) = nfc u (se_relative_path se) \<Longrightarrow>
   nfc u (se_relative_path se) \<notin> session_paths view \<Longrightarrow>
   (case fst (encode_stream_archive c l u os fs source is_dir (Inr view) dst password chunk padding log_n r p) of
      Inl _ \<Rightarrow> True | Inr _ \<Rightarrow> False)"
  by (rule encode_unnormalised)

lemma unnormalised_names_fail_witness:
  "case fst (encode_stream_archive example_crypto example_clib
       (ascii_tables\<lparr>nfc := (\<lambda>s. if s = [101, 769] then [233] else s)\<rparr>) example_os example_fs (lit ''src'') True
       (Inr (example_folder\<lparr>sv_entries := [\<lparr>se_relative_path = [101, 769], se_is_directory = False,
          se_st_mode = 33188, se_size = 3, se_mtime_ns = 0\<rparr>]\<rparr>)) (lit ''arc'') (PBytes [112]) 2 256 14 8 1) of
     Inl _ \<Rightarrow> True | Inr _ \<Rightarrow> False"
  by (rule unnormalised_names_fail[where se = "\<lparr>se_relative_path = [101, 769], se_is_directory = False,
          se_st_mode = 33188, se_size = 3, se_mtime_ns = 0\<rparr>"])
    (simp_all add: example_folder_def session_paths_def)

end
