(* ===== verification/Cdc.thy ===== *)
theory Cdc
  imports Padding
begin

text \<open>
  \<^verbatim>\<open>cdc.py\<close>: content-defined chunking with a Gear fingerprint. \<open>cdc_inner\<close> is the loop over one
  block the stream delivered, with its skip to the minimum size, its bounded scan and its
  bookkeeping of emitted bytes; \<open>ref_chunks\<close> is the byte-at-a-time specification. The main
  lemma, \<open>cdc_blocks_ref\<close>, says that both agree however the stream is cut into blocks.
\<close>

abbreviation WINDOW_SIZE where "WINDOW_SIZE \<equiv> (64 :: nat)"
abbreviation READ_SIZE where "READ_SIZE \<equiv> (65536 :: nat)"

section \<open>The gear table\<close>

definition gear_value :: "crypto \<Rightarrow> nat \<Rightarrow> nat" where
  "gear_value c value =
     be_decode (take 8 (sha256 c ([77, 111, 115, 97, 105, 99, 45, 71, 101, 97, 114, 45, 118, 49, 47]
                                  @ [7, of_nat value])))"

definition masked_table :: "crypto \<Rightarrow> nat \<Rightarrow> nat list" where
  "masked_table c boundary_mask = map (\<lambda>value. gear_value c value AND boundary_mask) [0..<256]"

section \<open>The configuration\<close>

record ChunkingConfig =
  cc_min_size :: nat
  cc_avg_size :: nat
  cc_max_size :: nat

definition chunking_config :: "int \<Rightarrow> int \<Rightarrow> int \<Rightarrow> ChunkingConfig result" where
  "chunking_config min_size avg_size max_size =
     (if min_size < int WINDOW_SIZE
      then Inl (ValueError ''minimum CDC chunk size must be at least 64 bytes'')
      else if avg_size AND (avg_size - 1) \<noteq> 0
      then Inl (ValueError ''average CDC chunk size must be a power of two'')
      else if \<not> (min_size \<le> avg_size \<and> avg_size \<le> max_size)
      then Inl (ValueError ''CDC sizes must satisfy min <= average <= max'')
      else if max_size > 16 * 1024 * 1024
      then Inl (ValueError ''maximum CDC chunk size must not exceed 16 MiB'')
      else Inr \<lparr>cc_min_size = nat min_size, cc_avg_size = nat avg_size, cc_max_size = nat max_size\<rparr>)"

definition valid_chunking :: "ChunkingConfig \<Rightarrow> bool" where
  "valid_chunking cfg \<longleftrightarrow>
     64 \<le> cc_min_size cfg \<and> cc_min_size cfg \<le> cc_avg_size cfg \<and> cc_avg_size cfg \<le> cc_max_size cfg
     \<and> cc_max_size cfg \<le> 16777216 \<and> cc_avg_size cfg AND (cc_avg_size cfg - 1) = 0"

definition DEFAULT_CHUNKING :: ChunkingConfig where
  "DEFAULT_CHUNKING = \<lparr>cc_min_size = 16 * 1024, cc_avg_size = 64 * 1024, cc_max_size = 256 * 1024\<rparr>"

lemma nat_and_pred: "1 \<le> a \<Longrightarrow> nat a AND (nat a - 1) = nat (a AND (a - 1))"
proof -
  assume "1 \<le> a"
  then obtain n where n: "a = int n" "1 \<le> n" by (metis nat_int nonneg_int_cases nat_one_as_int nat_le_eq_zle dual_order.trans zero_le_one)
  then have "a - 1 = int (n - 1)" by simp
  with n show ?thesis by (simp only: nat_int of_nat_and_eq[symmetric])
qed

lemma chunking_config_valid:
  assumes "chunking_config a b c = Inr cfg"
  shows "valid_chunking cfg"
proof -
  from assms have "64 \<le> a" "a \<le> b" "b \<le> c" "c \<le> 16777216" "b AND (b - 1) = 0"
    and cfg: "cfg = \<lparr>cc_min_size = nat a, cc_avg_size = nat b, cc_max_size = nat c\<rparr>"
    by (auto simp: chunking_config_def split: if_splits)
  moreover from this have "nat b AND (nat b - 1) = 0" using nat_and_pred[of b] by simp
  ultimately show ?thesis by (simp add: valid_chunking_def nat_le_iff)
qed

section \<open>The scanner\<close>

definition next_fingerprint :: "nat list \<Rightarrow> nat \<Rightarrow> nat \<Rightarrow> byte \<Rightarrow> nat" where
  "next_fingerprint table boundary_mask fingerprint b =
     (push_bit 1 fingerprint XOR table ! unat b) AND boundary_mask"

text \<open>
  The \<^verbatim>\<open>for\<close> loop over the bytes from \<^verbatim>\<open>position\<close> to \<^verbatim>\<open>scan_end\<close>: the offset behind
  which the chunk ends, counted from \<^verbatim>\<open>position\<close>, if a boundary was met, and the fingerprint.
\<close>

fun cdc_scan :: "nat list \<Rightarrow> nat \<Rightarrow> nat \<Rightarrow> bytes \<Rightarrow> nat \<Rightarrow> nat option \<times> nat" where
  "cdc_scan table msk f [] k = (None, f)"
| "cdc_scan table msk f (b # bs) k =
     (let f' = next_fingerprint table msk f b
      in if f' = 0 then (Some k, f') else cdc_scan table msk f' bs (Suc k))"

record cdc_state =
  cd_chunk :: bytes
  cd_chunk_size :: nat
  cd_emitted_size :: nat
  cd_fingerprint :: nat
  cd_yielded :: "bytes list"

definition cdc_emit :: "cdc_state \<Rightarrow> cdc_state" where
  "cdc_emit s =
     (let current_end = cd_emitted_size s + cd_chunk_size s
      in s\<lparr>cd_yielded := cd_yielded s @ [take (cd_chunk_size s) (drop (cd_emitted_size s) (cd_chunk s))],
           cd_emitted_size := current_end, cd_chunk_size := 0, cd_fingerprint := 0\<rparr>)"

text \<open>
  One turn of the inner \<^verbatim>\<open>while\<close> loop: skip to the minimum size, scan to the end of the block
  or the maximum size, and yield a chunk where one ends. The \<^verbatim>\<open>break\<close> behind the skip leaves
  the position at the end of the block, where the loop stops anyway.
\<close>

definition cdc_skip :: "ChunkingConfig \<Rightarrow> bytes \<Rightarrow> nat \<Rightarrow> cdc_state \<Rightarrow> nat" where
  "cdc_skip cfg input_block position s =
     min (cc_min_size cfg - 1 - cd_chunk_size s) (length input_block - position)"

definition cdc_scan_end :: "ChunkingConfig \<Rightarrow> bytes \<Rightarrow> nat \<Rightarrow> cdc_state \<Rightarrow> nat" where
  "cdc_scan_end cfg input_block position s =
     min (length input_block) (position + cc_max_size cfg - cd_chunk_size s)"

definition cdc_scan_step ::
  "ChunkingConfig \<Rightarrow> nat list \<Rightarrow> nat \<Rightarrow> bytes \<Rightarrow> nat \<Rightarrow> cdc_state \<Rightarrow> nat \<times> cdc_state" where
  "cdc_scan_step cfg table msk input_block position s =
     (let scan_end = cdc_scan_end cfg input_block position s
      in case cdc_scan table msk (cd_fingerprint s)
                (take (scan_end - position) (drop position input_block)) 0 of
        (None, fingerprint) \<Rightarrow>
          let chunk_size = cd_chunk_size s + (scan_end - position);
              s' = s\<lparr>cd_fingerprint := fingerprint, cd_chunk_size := chunk_size\<rparr>
          in (scan_end, if chunk_size < cc_max_size cfg then s' else cdc_emit s')
      | (Some k, fingerprint) \<Rightarrow>
          (position + k + 1,
           cdc_emit (s\<lparr>cd_fingerprint := fingerprint, cd_chunk_size := cd_chunk_size s + k + 1\<rparr>)))"

definition cdc_step ::
  "ChunkingConfig \<Rightarrow> nat list \<Rightarrow> nat \<Rightarrow> bytes \<Rightarrow> nat \<Rightarrow> cdc_state \<Rightarrow> nat \<times> cdc_state" where
  "cdc_step cfg table msk input_block position s =
     (let skip = cdc_skip cfg input_block position s;
          s' = s\<lparr>cd_chunk_size := cd_chunk_size s + skip\<rparr>
      in if position + skip \<ge> length input_block then (position + skip, s')
         else cdc_scan_step cfg table msk input_block (position + skip) s')"

fun cdc_inner ::
  "nat \<Rightarrow> ChunkingConfig \<Rightarrow> nat list \<Rightarrow> nat \<Rightarrow> bytes \<Rightarrow> nat \<Rightarrow> cdc_state \<Rightarrow> cdc_state result" where
  "cdc_inner 0 cfg table msk input_block position s = Inl OutOfFuel"
| "cdc_inner (Suc fuel) cfg table msk input_block position s =
     (if position \<ge> length input_block then Inr s
      else (case cdc_step cfg table msk input_block position s of
              (p, s') \<Rightarrow> cdc_inner fuel cfg table msk input_block p s'))"

text \<open>One block: every turn of the inner loop moves forward, so its length bounds the turns.\<close>

definition cdc_block :: "ChunkingConfig \<Rightarrow> nat list \<Rightarrow> nat \<Rightarrow> bytes \<Rightarrow> cdc_state \<Rightarrow> cdc_state result" where
  "cdc_block cfg table msk input_block s =
     bindR (cdc_inner (length input_block + 1) cfg table msk input_block 0
              (s\<lparr>cd_chunk := cd_chunk s @ input_block\<rparr>)) (\<lambda>s.
       Inr (if cd_emitted_size s \<noteq> 0
            then s\<lparr>cd_chunk := drop (cd_emitted_size s) (cd_chunk s), cd_emitted_size := 0\<rparr>
            else s))"

fun cdc_blocks_from ::
  "ChunkingConfig \<Rightarrow> nat list \<Rightarrow> nat \<Rightarrow> bytes list \<Rightarrow> cdc_state \<Rightarrow> bytes list result" where
  "cdc_blocks_from cfg table msk [] s =
     Inr (cd_yielded s @ (if cd_chunk s \<noteq> [] then [cd_chunk s] else []))"
| "cdc_blocks_from cfg table msk (b # bs) s =
     bindR (cdc_block cfg table msk b s) (cdc_blocks_from cfg table msk bs)"

definition cdc_start :: cdc_state where
  "cdc_start = \<lparr>cd_chunk = [], cd_chunk_size = 0, cd_emitted_size = 0, cd_fingerprint = 0,
                cd_yielded = []\<rparr>"

definition cdc_blocks :: "crypto \<Rightarrow> ChunkingConfig \<Rightarrow> bytes list \<Rightarrow> bytes list result" where
  "cdc_blocks c cfg blocks =
     (let boundary_mask = cc_avg_size cfg - 1
      in cdc_blocks_from cfg (masked_table c boundary_mask) boundary_mask blocks cdc_start)"

definition iter_content_defined_chunks :: "crypto \<Rightarrow> ChunkingConfig \<Rightarrow> bytes \<Rightarrow> bytes list result" where
  "iter_content_defined_chunks c cfg stream = cdc_blocks c cfg (read_blocks READ_SIZE stream)"

section \<open>The specification\<close>

text \<open>
  \<open>cur\<close> is the chunk under construction. Below the minimum size no byte counts; from it on the
  fingerprint advances, and the chunk ends when it becomes zero or the maximum size is reached.
\<close>

fun ref_chunks :: "ChunkingConfig \<Rightarrow> nat list \<Rightarrow> nat \<Rightarrow> bytes \<Rightarrow> nat \<Rightarrow> bytes \<Rightarrow> bytes list" where
  "ref_chunks cfg table msk cur f [] = (if cur = [] then [] else [cur])"
| "ref_chunks cfg table msk cur f (b # bs) =
     (if length cur + 1 < cc_min_size cfg then ref_chunks cfg table msk (cur @ [b]) f bs
      else let f' = next_fingerprint table msk f b
           in if f' = 0 \<or> cc_max_size cfg \<le> length cur + 1
              then (cur @ [b]) # ref_chunks cfg table msk [] 0 bs
              else ref_chunks cfg table msk (cur @ [b]) f' bs)"

lemma ref_skip:
  "length cur + length xs < cc_min_size cfg \<Longrightarrow>
   ref_chunks cfg t m cur f (xs @ rest) = ref_chunks cfg t m (cur @ xs) f rest"
  by (induction xs arbitrary: cur) auto

lemma ref_scan_none:
  assumes "cdc_scan t m f xs k = (None, f')" and "cc_min_size cfg \<le> length cur + 1"
    and "length cur + length xs \<le> cc_max_size cfg" and "xs \<noteq> []"
  shows "ref_chunks cfg t m cur f (xs @ rest) =
    (if length cur + length xs < cc_max_size cfg then ref_chunks cfg t m (cur @ xs) f' rest
     else (cur @ xs) # ref_chunks cfg t m [] 0 rest)"
  using assms
proof (induction xs arbitrary: cur f k)
  case (Cons x xs)
  from Cons.prems(1) have nz: "next_fingerprint t m f x \<noteq> 0"
    and sc: "cdc_scan t m (next_fingerprint t m f x) xs (Suc k) = (None, f')"
    by (auto simp: Let_def split: if_splits)
  show ?case
  proof (cases "xs = []")
    case True
    with nz sc Cons.prems show ?thesis by (auto simp: Let_def)
  next
    case False
    then have "length xs \<noteq> 0" by simp
    with Cons.prems have lt: "length cur + 1 < cc_max_size cfg"
      unfolding list.size by linarith
    from Cons.IH[OF sc, of "cur @ [x]"] False Cons.prems
    have "ref_chunks cfg t m (cur @ [x]) (next_fingerprint t m f x) (xs @ rest) =
      (if length cur + length (x # xs) < cc_max_size cfg then ref_chunks cfg t m (cur @ x # xs) f' rest
       else (cur @ x # xs) # ref_chunks cfg t m [] 0 rest)"
      by simp
    with nz lt Cons.prems(2) show ?thesis by (simp add: Let_def)
  qed
qed simp

lemma ref_scan_some:
  assumes "cdc_scan t m f xs k = (Some j, f')" and "cc_min_size cfg \<le> length cur + 1"
    and "length cur + length xs \<le> cc_max_size cfg"
  shows "k \<le> j \<and> j - k < length xs \<and>
    ref_chunks cfg t m cur f (xs @ rest) =
    (cur @ take (j - k + 1) xs) # ref_chunks cfg t m [] 0 (drop (j - k + 1) xs @ rest)"
  using assms
proof (induction xs arbitrary: cur f k)
  case (Cons x xs)
  show ?case
  proof (cases "next_fingerprint t m f x = 0")
    case True
    with Cons.prems show ?thesis by (auto simp: Let_def)
  next
    case False
    with Cons.prems(1) have sc: "cdc_scan t m (next_fingerprint t m f x) xs (Suc k) = (Some j, f')"
      by (simp add: Let_def)
    from Cons.IH[OF sc, of "cur @ [x]"] Cons.prems
    have ih: "Suc k \<le> j" "j - Suc k < length xs"
      and eq: "ref_chunks cfg t m (cur @ [x]) (next_fingerprint t m f x) (xs @ rest) =
        (cur @ x # take (j - Suc k + 1) xs) # ref_chunks cfg t m [] 0 (drop (j - Suc k + 1) xs @ rest)"
      by auto
    then have "length cur + 1 < cc_max_size cfg" using Cons.prems(3) by simp
    with False Cons.prems(2)
    have "ref_chunks cfg t m cur f ((x # xs) @ rest)
        = ref_chunks cfg t m (cur @ [x]) (next_fingerprint t m f x) (xs @ rest)"
      by (simp add: Let_def)
    moreover have "j - k + 1 = Suc (j - Suc k + 1)" using ih by simp
    ultimately show ?thesis using ih eq by auto
  qed
qed simp

section \<open>The scanner meets the specification\<close>

text \<open>
  \<open>cdc_inv\<close>: what the bytearray holds is the emitted bytes, the current chunk, and the part of
  the block not yet seen.
\<close>

definition cdc_inv :: "ChunkingConfig \<Rightarrow> bytes \<Rightarrow> bytes \<Rightarrow> cdc_state \<Rightarrow> bool" where
  "cdc_inv cfg cur unseen s \<longleftrightarrow>
     cd_chunk s = take (cd_emitted_size s) (cd_chunk s) @ cur @ unseen
     \<and> cd_emitted_size s \<le> length (cd_chunk s)
     \<and> cd_chunk_size s = length cur \<and> length cur < cc_max_size cfg"

lemma cdc_inv_advance:
  "cdc_inv cfg cur (xs @ unseen) s \<Longrightarrow> length cur + length xs < cc_max_size cfg \<Longrightarrow>
   cdc_inv cfg (cur @ xs) unseen (s\<lparr>cd_chunk_size := cd_chunk_size s + length xs\<rparr>)"
  by (simp add: cdc_inv_def)

lemma cdc_inv_fingerprint [simp]:
  "cdc_inv cfg cur unseen (s\<lparr>cd_fingerprint := f\<rparr>) = cdc_inv cfg cur unseen s"
  by (simp add: cdc_inv_def)

lemma cdc_inv_emit:
  assumes "cdc_inv cfg cur (xs @ unseen) s" and "0 < cc_max_size cfg"
    and "n = cd_chunk_size s + length xs"
  shows "cdc_inv cfg [] unseen (cdc_emit (s\<lparr>cd_fingerprint := f, cd_chunk_size := n\<rparr>))
    \<and> cd_yielded (cdc_emit (s\<lparr>cd_fingerprint := f, cd_chunk_size := n\<rparr>)) = cd_yielded s @ [cur @ xs]
    \<and> cd_fingerprint (cdc_emit (s\<lparr>cd_fingerprint := f, cd_chunk_size := n\<rparr>)) = 0"
proof -
  obtain E where E: "cd_chunk s = E @ cur @ xs @ unseen" "length E = cd_emitted_size s"
    using assms(1) unfolding cdc_inv_def by (metis append_assoc length_take min_absorb2)
  with assms show ?thesis
    by (auto simp: cdc_inv_def cdc_emit_def Let_def)
qed

text \<open>What one turn does: it moves forward, keeps the invariant, and accounts for its output.\<close>

definition cdc_simulates ::
  "ChunkingConfig \<Rightarrow> nat list \<Rightarrow> nat \<Rightarrow> bytes \<Rightarrow> bytes \<Rightarrow> nat \<Rightarrow> cdc_state \<Rightarrow> nat \<times> cdc_state \<Rightarrow> bool" where
  "cdc_simulates cfg t m blk cur p s r \<longleftrightarrow>
     (case r of (p', s') \<Rightarrow> p' \<le> length blk \<and> p \<le> p' \<and>
       (\<exists>cur'. cdc_inv cfg cur' (drop p' blk) s' \<and>
         (\<forall>rest. cd_yielded s @ ref_chunks cfg t m cur (cd_fingerprint s) (drop p blk @ rest)
            = cd_yielded s' @ ref_chunks cfg t m cur' (cd_fingerprint s') (drop p' blk @ rest))))"

lemma drop_slice: "p \<le> q \<Longrightarrow> drop p xs = take (q - p) (drop p xs) @ drop q xs"
  using append_take_drop_id[of "q - p" "drop p xs"] by simp

lemma cdc_scan_step_simulates:
  assumes inv: "cdc_inv cfg cur (drop p blk) s" and p: "p < length blk"
    and full: "cc_min_size cfg \<le> length cur + 1" and max: "0 < cc_max_size cfg"
  shows "cdc_simulates cfg t m blk cur p s (cdc_scan_step cfg t m blk p s)
    \<and> p < fst (cdc_scan_step cfg t m blk p s)"
proof -
  have csz: "cd_chunk_size s = length cur" and lt: "length cur < cc_max_size cfg"
    using inv by (simp_all add: cdc_inv_def)
  define q where "q = cdc_scan_end cfg blk p s"
  define ys where "ys = take (q - p) (drop p blk)"
  have q: "p < q" "q \<le> length blk" "q - p \<le> cc_max_size cfg - length cur"
    using p lt by (auto simp: q_def cdc_scan_end_def csz)
  have lys: "length ys = q - p" using q by (simp add: ys_def)
  have d: "drop p blk = ys @ drop q blk" unfolding ys_def by (rule drop_slice) (use q in simp)
  have room: "length cur + length ys \<le> cc_max_size cfg" using lys q lt by simp
  have ne: "ys \<noteq> []" using lys q by auto
  note inv' = inv[unfolded d]
  obtain bo f' where scan: "cdc_scan t m (cd_fingerprint s) ys 0 = (bo, f')"
    by (cases "cdc_scan t m (cd_fingerprint s) ys 0")
  show ?thesis
  proof (cases bo)
    case None
    note ref = ref_scan_none[OF scan[unfolded None] full room ne]
    show ?thesis
    proof (cases "length cur + length ys < cc_max_size cfg")
      case True
      have i: "cdc_inv cfg (cur @ ys) (drop q blk) (s\<lparr>cd_fingerprint := f', cd_chunk_size := cd_chunk_size s + (q - p)\<rparr>)"
        using cdc_inv_advance[OF inv' True] by (simp add: lys cdc_inv_def)
      have "cdc_scan_step cfg t m blk p s
          = (q, s\<lparr>cd_fingerprint := f', cd_chunk_size := cd_chunk_size s + (q - p)\<rparr>)"
        using scan None True by (simp add: cdc_scan_step_def Let_def csz lys flip: q_def ys_def)
      then show ?thesis
        using q ref True i by (auto simp: cdc_simulates_def d intro!: exI[of _ "cur @ ys"])
    next
      case False
      note e = cdc_inv_emit[OF inv' max, of "cd_chunk_size s + (q - p)" f']
      have "cdc_scan_step cfg t m blk p s
          = (q, cdc_emit (s\<lparr>cd_fingerprint := f', cd_chunk_size := cd_chunk_size s + (q - p)\<rparr>))"
        using scan None False by (simp add: cdc_scan_step_def Let_def csz lys flip: q_def ys_def)
      then show ?thesis
        using q ref False e by (auto simp: cdc_simulates_def d lys intro!: exI[of _ "[]"])
    qed
  next
    case (Some j)
    note ref = ref_scan_some[OF scan[unfolded Some] full room]
    then have j: "j < length ys" by simp
    have jq: "p + j + 1 \<le> length blk" using j lys q by linarith
    have tk: "take (p + j + 1 - p) (drop p blk) = take (j + 1) ys"
      using j by (simp add: d)
    have d3: "drop p blk = take (j + 1) ys @ drop (p + j + 1) blk"
      using drop_slice[of p "p + j + 1" blk] unfolding tk by simp
    have d4: "drop (j + 1) ys @ drop q blk = drop (p + j + 1) blk"
      using d d3 by (metis append_assoc append_take_drop_id same_append_eq)
    have len: "cd_chunk_size s + j + 1 = cd_chunk_size s + length (take (j + 1) ys)" using j by simp
    note e = cdc_inv_emit[OF inv[unfolded d3] max len, of f']
    have "cdc_scan_step cfg t m blk p s
        = (p + j + 1, cdc_emit (s\<lparr>cd_fingerprint := f', cd_chunk_size := cd_chunk_size s + j + 1\<rparr>))"
      using scan Some by (simp add: cdc_scan_step_def Let_def flip: q_def ys_def)
    moreover have "ref_chunks cfg t m cur (cd_fingerprint s) (drop p blk @ rest)
        = (cur @ take (j + 1) ys) # ref_chunks cfg t m [] 0 (drop (p + j + 1) blk @ rest)" for rest
      using ref_scan_some[OF scan[unfolded Some] full room, of "drop q blk @ rest"] d4
      by (simp add: d flip: append_assoc)
    ultimately show ?thesis
      using e jq unfolding cdc_simulates_def by (auto intro!: exI[of _ "[]"])
  qed
qed

lemma cdc_step_simulates:
  assumes inv: "cdc_inv cfg cur (drop p blk) s" and p: "p < length blk"
    and cfg: "0 < cc_max_size cfg" "cc_min_size cfg \<le> cc_max_size cfg" "0 < cc_min_size cfg"
  shows "cdc_simulates cfg t m blk cur p s (cdc_step cfg t m blk p s)
    \<and> p < fst (cdc_step cfg t m blk p s)"
proof -
  have csz: "cd_chunk_size s = length cur" using inv by (simp add: cdc_inv_def)
  define skip where "skip = cdc_skip cfg blk p s"
  have sk: "skip = min (cc_min_size cfg - 1 - length cur) (length blk - p)"
    by (simp add: skip_def cdc_skip_def csz)
  define xs where "xs = take skip (drop p blk)"
  have lxs: "length xs = skip" by (simp add: xs_def sk)
  have d: "drop p blk = xs @ drop (p + skip) blk"
    using drop_slice[of p "p + skip" blk] by (simp add: xs_def)
  have lt: "length cur + length xs < cc_max_size cfg"
    using inv cfg by (auto simp: cdc_inv_def lxs sk)
  define s1 where "s1 = s\<lparr>cd_chunk_size := cd_chunk_size s + skip\<rparr>"
  have inv1: "cdc_inv cfg (cur @ xs) (drop (p + skip) blk) s1"
    using cdc_inv_advance[OF inv[unfolded d] lt] by (simp add: s1_def lxs)
  have ref: "ref_chunks cfg t m cur f (drop p blk @ rest)
      = ref_chunks cfg t m (cur @ xs) f (drop (p + skip) blk @ rest)" for f rest
  proof (cases "skip = 0")
    case False
    then have "length cur + length xs < cc_min_size cfg" by (auto simp: lxs sk)
    then show ?thesis by (simp add: d ref_skip)
  qed (simp add: xs_def)
  have s1: "cd_yielded s1 = cd_yielded s" "cd_fingerprint s1 = cd_fingerprint s"
    by (simp_all add: s1_def)
  have step: "cdc_step cfg t m blk p s = (if p + skip \<ge> length blk then (p + skip, s1)
      else cdc_scan_step cfg t m blk (p + skip) s1)"
    by (simp add: cdc_step_def Let_def flip: skip_def s1_def)
  show ?thesis
  proof (cases "p + skip \<ge> length blk")
    case True
    then have "p + skip = length blk" using p by (auto simp: sk min_def split: if_splits)
    with True step inv1 ref s1 p show ?thesis
      by (auto simp: cdc_simulates_def intro!: exI[of _ "cur @ xs"])
  next
    case False
    then have full: "cc_min_size cfg \<le> length (cur @ xs) + 1" using cfg by (auto simp: lxs sk)
    from False have "p + skip < length blk" by simp
    note c = cdc_scan_step_simulates[OF inv1 this full cfg(1), of t m]
    with False step ref s1 show ?thesis
      by (auto simp: cdc_simulates_def split: prod.splits)
  qed
qed

lemma cdc_inner_ref:
  assumes "cdc_inv cfg cur (drop p blk) s" and "length blk - p < fuel" and "p \<le> length blk"
    and cfg: "0 < cc_max_size cfg" "cc_min_size cfg \<le> cc_max_size cfg" "0 < cc_min_size cfg"
  shows "\<exists>s' cur'. cdc_inner fuel cfg t m blk p s = Inr s' \<and> cdc_inv cfg cur' [] s' \<and>
    (\<forall>rest. cd_yielded s @ ref_chunks cfg t m cur (cd_fingerprint s) (drop p blk @ rest)
          = cd_yielded s' @ ref_chunks cfg t m cur' (cd_fingerprint s') rest)"
  using assms(1-3)
proof (induction fuel arbitrary: p s cur)
  case (Suc fuel)
  show ?case
  proof (cases "p = length blk")
    case True
    with Suc.prems show ?thesis by auto
  next
    case False
    with Suc.prems have p: "p < length blk" by simp
    obtain p' s' where st: "cdc_step cfg t m blk p s = (p', s')" by (cases "cdc_step cfg t m blk p s")
    from cdc_step_simulates[OF Suc.prems(1) p cfg, of t m] obtain cur' where
      p': "p < p'" "p' \<le> length blk" and inv': "cdc_inv cfg cur' (drop p' blk) s'"
      and ref: "\<And>rest. cd_yielded s @ ref_chunks cfg t m cur (cd_fingerprint s) (drop p blk @ rest)
            = cd_yielded s' @ ref_chunks cfg t m cur' (cd_fingerprint s') (drop p' blk @ rest)"
      by (auto simp: cdc_simulates_def st)
    from Suc.IH[OF inv'] p' Suc.prems(2) ref p show ?thesis by (simp add: st)
  qed
qed simp

text \<open>Between two blocks the bytearray holds exactly the current chunk.\<close>

definition cdc_ready :: "ChunkingConfig \<Rightarrow> cdc_state \<Rightarrow> bool" where
  "cdc_ready cfg s \<longleftrightarrow> cd_emitted_size s = 0 \<and> cdc_inv cfg (cd_chunk s) [] s"

lemma cdc_block_ref:
  assumes "cdc_ready cfg s" and cfg: "valid_chunking cfg"
  shows "\<exists>s'. cdc_block cfg t m blk s = Inr s' \<and> cdc_ready cfg s' \<and>
    (\<forall>rest. cd_yielded s @ ref_chunks cfg t m (cd_chunk s) (cd_fingerprint s) (blk @ rest)
          = cd_yielded s' @ ref_chunks cfg t m (cd_chunk s') (cd_fingerprint s') rest)"
proof -
  let ?s = "s\<lparr>cd_chunk := cd_chunk s @ blk\<rparr>"
  have "cdc_inv cfg (cd_chunk s) (drop 0 blk) ?s" using assms by (simp add: cdc_ready_def cdc_inv_def)
  from cdc_inner_ref[OF this, of "length blk + 1" t m] cfg obtain s' cur' where
    i: "cdc_inner (length blk + 1) cfg t m blk 0 ?s = Inr s'" and inv: "cdc_inv cfg cur' [] s'"
    and ref: "\<And>rest. cd_yielded s @ ref_chunks cfg t m (cd_chunk s) (cd_fingerprint s) (blk @ rest)
          = cd_yielded s' @ ref_chunks cfg t m cur' (cd_fingerprint s') rest"
    by (auto simp: valid_chunking_def)
  have cur': "cur' = drop (cd_emitted_size s') (cd_chunk s')"
    using inv unfolding cdc_inv_def by (metis append_Nil2 append_eq_conv_conj append_take_drop_id same_append_eq)
  show ?thesis
  proof (cases "cd_emitted_size s' = 0")
    case True
    with i inv ref cur' show ?thesis by (simp add: cdc_block_def cdc_ready_def)
  next
    case False
    have "cdc_ready cfg (s'\<lparr>cd_chunk := cur', cd_emitted_size := 0\<rparr>)"
      using inv by (simp add: cdc_ready_def cdc_inv_def)
    with i False ref cur' show ?thesis by (simp add: cdc_block_def)
  qed
qed

lemma cdc_blocks_from_ref:
  assumes "cdc_ready cfg s" and "valid_chunking cfg"
  shows "cdc_blocks_from cfg t m blocks s
    = Inr (cd_yielded s @ ref_chunks cfg t m (cd_chunk s) (cd_fingerprint s) (concat blocks))"
  using assms(1)
proof (induction blocks arbitrary: s)
  case (Cons b bs)
  from cdc_block_ref[OF Cons.prems assms(2), of t m b] Cons.IH show ?case by auto
qed simp

definition content_defined_chunks :: "crypto \<Rightarrow> ChunkingConfig \<Rightarrow> bytes \<Rightarrow> bytes list" where
  "content_defined_chunks c cfg data =
     ref_chunks cfg (masked_table c (cc_avg_size cfg - 1)) (cc_avg_size cfg - 1) [] 0 data"

lemma cdc_blocks_ref:
  assumes "valid_chunking cfg"
  shows "cdc_blocks c cfg blocks = Inr (content_defined_chunks c cfg (concat blocks))"
proof -
  have "cdc_ready cfg cdc_start"
    using assms by (simp add: cdc_ready_def cdc_inv_def cdc_start_def valid_chunking_def)
  from cdc_blocks_from_ref[OF this assms] show ?thesis
    by (simp add: cdc_blocks_def content_defined_chunks_def Let_def) (simp add: cdc_start_def)
qed

lemma iter_cdc_ref:
  "valid_chunking cfg \<Longrightarrow>
   iter_content_defined_chunks c cfg stream = Inr (content_defined_chunks c cfg stream)"
  by (simp add: iter_content_defined_chunks_def cdc_blocks_ref concat_read_blocks)

section \<open>Properties of the chunks\<close>

lemma ref_chunks_concat: "concat (ref_chunks cfg t m cur f bs) = cur @ bs"
  by (induction cfg t m cur f bs rule: ref_chunks.induct) (auto simp: Let_def)

lemma ref_chunks_nonempty: "x \<in> set (ref_chunks cfg t m cur f bs) \<Longrightarrow> x \<noteq> []"
  by (induction cfg t m cur f bs rule: ref_chunks.induct) (auto simp: Let_def split: if_splits)

lemma ref_chunks_max:
  "length cur < cc_max_size cfg \<Longrightarrow> cc_min_size cfg \<le> cc_max_size cfg \<Longrightarrow>
   x \<in> set (ref_chunks cfg t m cur f bs) \<Longrightarrow> length x \<le> cc_max_size cfg"
proof (induction cfg t m cur f bs rule: ref_chunks.induct)
  case (2 cfg t m cur f b bs)
  have "0 < cc_max_size cfg" using 2(4) by linarith
  with 2 show ?case by (auto simp: Let_def not_le split: if_splits)
qed (auto split: if_splits)

lemma ref_chunks_min:
  "x \<in> set (butlast (ref_chunks cfg t m cur f bs)) \<Longrightarrow> cc_min_size cfg \<le> length x"
proof (induction cfg t m cur f bs rule: ref_chunks.induct)
  case (2 cfg t m cur f b bs)
  then show ?case by (auto simp: Let_def split: if_splits)
qed (simp split: if_splits)

text \<open>Behind a boundary the scanner starts afresh: the chunks of a stream's tail are its own.\<close>

lemma ref_chunks_suffix:
  "ref_chunks cfg t m cur f bs = xs @ ys \<Longrightarrow> xs \<noteq> [] \<Longrightarrow> ref_chunks cfg t m [] 0 (concat ys) = ys"
proof (induction cfg t m cur f bs arbitrary: xs rule: ref_chunks.induct)
  case (1 cfg t m cur f)
  then show ?case by (cases xs) (auto split: if_splits)
next
  case (2 cfg t m cur f b bs)
  show ?case
  proof (cases "length cur + 1 < cc_min_size cfg")
    case True
    with 2 show ?thesis by simp
  next
    case False
    let ?f = "next_fingerprint t m f b"
    show ?thesis
    proof (cases "?f = 0 \<or> cc_max_size cfg \<le> length cur + 1")
      case True
      with False 2(4) have eq: "(cur @ [b]) # ref_chunks cfg t m [] 0 bs = xs @ ys" by (simp add: Let_def)
      with 2(5) obtain xs' where xs': "ref_chunks cfg t m [] 0 bs = xs' @ ys" by (cases xs) auto
      show ?thesis
      proof (cases "xs' = []")
        case True
        with xs' ref_chunks_concat[of cfg t m "[]" 0 bs] show ?thesis by simp
      next
        case ne: False
        from 2(2)[OF False refl True xs' ne] show ?thesis .
      qed
    next
      case nb: False
      with False 2(4) have "ref_chunks cfg t m (cur @ [b]) ?f bs = xs @ ys" by (simp add: Let_def)
      from 2(3)[OF False refl nb this 2(5)] show ?thesis .
    qed
  qed
qed

lemma chunks_concat: "concat (content_defined_chunks c cfg data) = data"
  by (simp add: content_defined_chunks_def ref_chunks_concat)

lemma chunks_nonempty: "x \<in> set (content_defined_chunks c cfg data) \<Longrightarrow> x \<noteq> []"
  unfolding content_defined_chunks_def by (rule ref_chunks_nonempty)

lemma chunks_max:
  "valid_chunking cfg \<Longrightarrow> x \<in> set (content_defined_chunks c cfg data) \<Longrightarrow> length x \<le> cc_max_size cfg"
  unfolding content_defined_chunks_def valid_chunking_def by (rule ref_chunks_max[rotated 2]) auto

lemma chunks_min:
  "x \<in> set (butlast (content_defined_chunks c cfg data)) \<Longrightarrow> cc_min_size cfg \<le> length x"
  unfolding content_defined_chunks_def by (rule ref_chunks_min)

lemma chunks_suffix:
  assumes "content_defined_chunks c cfg data = xs @ ys"
  shows "content_defined_chunks c cfg (concat ys) = ys"
proof (cases "xs = []")
  case True
  with assms chunks_concat[of c cfg data] show ?thesis by simp
next
  case False
  from ref_chunks_suffix[OF assms[unfolded content_defined_chunks_def] False]
  show ?thesis by (simp add: content_defined_chunks_def)
qed

section \<open>Properties\<close>

text \<open>C25: The optimised chunker (skip, bounded scan, deferred deletion) yields exactly the chunks of the byte-at-a-time specification, however the stream cuts the data into blocks; in particular its loop always ends.\<close>

lemma chunker_refines_specification:
  "valid_chunking cfg \<Longrightarrow>
   cdc_blocks c cfg blocks = Inr (content_defined_chunks c cfg (concat blocks))
   \<and> iter_content_defined_chunks c cfg (concat blocks) = cdc_blocks c cfg blocks"
  by (simp add: cdc_blocks_ref iter_cdc_ref)

lemma chunker_refines_specification_witness:
  "iter_content_defined_chunks example_crypto DEFAULT_CHUNKING [1, 2, 3]
   = cdc_blocks example_crypto DEFAULT_CHUNKING [[1], [2, 3]]"
proof -
  have "valid_chunking DEFAULT_CHUNKING" by (simp add: valid_chunking_def DEFAULT_CHUNKING_def)
  from chunker_refines_specification[OF this, of example_crypto "[[1], [2, 3]]"] show ?thesis by simp
qed

text \<open>C26: The chunks of any configuration the constructor accepts partition the stream, none is empty or longer than the maximum (so at most 16 MiB), and all but the last have the minimum size.\<close>

lemma chunks_partition:
  "chunking_config min_size avg_size max_size = Inr cfg \<Longrightarrow>
   \<exists>chunks. iter_content_defined_chunks c cfg stream = Inr chunks \<and> concat chunks = stream
     \<and> list_all (\<lambda>x. x \<noteq> [] \<and> length x \<le> cc_max_size cfg \<and> length x \<le> 2 ^ 24) chunks
     \<and> list_all (\<lambda>x. cc_min_size cfg \<le> length x) (butlast chunks)"
proof -
  assume "chunking_config min_size avg_size max_size = Inr cfg"
  then have v: "valid_chunking cfg" by (rule chunking_config_valid)
  then have "cc_max_size cfg \<le> 2 ^ 24" by (simp add: valid_chunking_def)
  with chunks_max[OF v] iter_cdc_ref[OF v] show ?thesis
    by (auto simp: chunks_concat list_all_iff chunks_nonempty intro: chunks_min order_trans)
qed

lemma chunks_partition_witness:
  "\<exists>chunks. iter_content_defined_chunks example_crypto DEFAULT_CHUNKING [7, 8] = Inr chunks
     \<and> concat chunks = [7, 8]"
proof -
  have "chunking_config 16384 65536 262144 = Inr DEFAULT_CHUNKING"
    by (simp add: chunking_config_def DEFAULT_CHUNKING_def)
  from chunks_partition[OF this, of example_crypto "[7, 8]"] show ?thesis by blast
qed

text \<open>Chunk boundaries resynchronise: what follows a chunk boundary is cut exactly as if it were a stream of its own, so an edit only affects chunks up to the first common boundary.\<close>

lemma chunks_resynchronise:
  "valid_chunking cfg \<Longrightarrow> iter_content_defined_chunks c cfg stream = Inr (before @ after) \<Longrightarrow>
   iter_content_defined_chunks c cfg (concat after) = Inr after"
  using chunks_suffix[of c cfg stream before after] by (simp add: iter_cdc_ref)

lemma chunks_resynchronise_witness:
  "iter_content_defined_chunks example_crypto DEFAULT_CHUNKING [7, 8] = Inr [[7, 8]]"
proof -
  have v: "valid_chunking DEFAULT_CHUNKING" by (simp add: valid_chunking_def DEFAULT_CHUNKING_def)
  have "iter_content_defined_chunks example_crypto DEFAULT_CHUNKING [7, 8] = Inr ([] @ [[7, 8]])"
    by (simp add: iter_cdc_ref[OF v] content_defined_chunks_def) (simp add: DEFAULT_CHUNKING_def)
  from chunks_resynchronise[OF v this] show ?thesis by simp
qed

end
