(* ===== verification/DedupManifest.thy ===== *)
theory DedupManifest
  imports Manifest Cdc
begin

text \<open>
  The manifest of MSC3 to MSC6 (\<^verbatim>\<open>dedup_archive.py\<close>, first half): entries that point into a table
  of content-defined chunks, where a chunk that occurred before refers back to its first
  occurrence. The scan builds the table, \<open>parse_dedup_manifest\<close> checks it. The main lemmas: a
  scan yields a table whose references point backward to canonical records of the same digest
  and size, and every valid manifest is parsed back.
\<close>

section \<open>Data\<close>

abbreviation DEDUP_MANIFEST_MAGIC where "DEDUP_MANIFEST_MAGIC \<equiv> ([77, 51, 77, 70] :: bytes)"
abbreviation DEDUP_MANIFEST_PREFIX where "DEDUP_MANIFEST_PREFIX \<equiv> [FBytes 4, FUInt 1, FUInt 2, FUInt 4, FUInt 8]"
abbreviation CHUNK_RECORD where "CHUNK_RECORD \<equiv> [FBytes 32, FUInt 4, FUInt 8]"
abbreviation DEDUP_DATA_PREFIX where "DEDUP_DATA_PREFIX \<equiv> [FUInt 8, FUInt 4, FUInt 1]"
abbreviation MAX_CHUNK_RECORDS where "MAX_CHUNK_RECORDS \<equiv> (16777215 :: nat)"

record ChunkRecord =
  cr_digest :: bytes
  cr_size :: nat
  cr_source :: nat

record DedupManifest =
  dm_kind :: nat
  dm_root_name :: pystr
  dm_entries :: "ManifestEntry list"
  dm_chunks :: "ChunkRecord list"

section \<open>Scanning\<close>

text \<open>
  The dictionary \<^verbatim>\<open>canonical\<close>, the table, the owner of each record and the chunks passed to
  \<^verbatim>\<open>on_unique_chunk\<close>, in order.
\<close>

record chunk_scan =
  cs_canonical :: "bytes \<times> nat \<rightharpoonup> nat"
  cs_chunks :: "ChunkRecord list"
  cs_owners :: "nat list"
  cs_unique :: "bytes list"

definition empty_scan :: chunk_scan where
  "empty_scan = \<lparr>cs_canonical = (\<lambda>_. None), cs_chunks = [], cs_owners = [], cs_unique = []\<rparr>"

definition scan_chunk :: "crypto \<Rightarrow> nat \<Rightarrow> bytes \<Rightarrow> chunk_scan \<Rightarrow> chunk_scan" where
  "scan_chunk c file_index chunk s =
     (let hash = sha256 c chunk; key = (hash, length chunk); index = length (cs_chunks s);
          source_index = (case cs_canonical s key of Some i \<Rightarrow> i | None \<Rightarrow> index)
      in \<lparr>cs_canonical = (cs_canonical s)(key \<mapsto> source_index),
          cs_chunks = cs_chunks s @ [\<lparr>cr_digest = hash, cr_size = length chunk, cr_source = source_index\<rparr>],
          cs_owners = cs_owners s @ [file_index],
          cs_unique = (if source_index = index then cs_unique s @ [chunk] else cs_unique s)\<rparr>)"

fun scan_chunks :: "crypto \<Rightarrow> nat \<Rightarrow> bytes list \<Rightarrow> chunk_scan \<Rightarrow> chunk_scan" where
  "scan_chunks c file_index [] s = s"
| "scan_chunks c file_index (chunk # chunks) s = scan_chunks c file_index chunks (scan_chunk c file_index chunk s)"

definition directory_record :: "ManifestEntry \<Rightarrow> ManifestEntry" where
  "directory_record e = e\<lparr>entry_size := 0, first_index := 0, index_count := 0, digest := ZERO_HASH\<rparr>"

fun scan_files ::
  "crypto \<Rightarrow> ChunkingConfig \<Rightarrow> source_view \<Rightarrow> nat \<Rightarrow> ManifestEntry list \<Rightarrow> chunk_scan
     \<Rightarrow> (ManifestEntry list \<times> chunk_scan) result" where
  "scan_files c config view file_index [] s = Inr ([], s)"
| "scan_files c config view file_index (e # es) s =
     (if is_directory_entry e
      then bindR (scan_files c config view (Suc file_index) es s) (\<lambda>(entries, s).
        Inr (directory_record e # entries, s))
      else let relative = (if sv_root_is_file view then [] else relative_path e)
        in bindR (session_path view relative) (\<lambda>_.
           bindR (session_open view 0 relative) (\<lambda>data.
           bindR (iter_content_defined_chunks c config data) (\<lambda>chunks.
             if length data \<noteq> entry_size e
             then Inl (OSError ''input changed while content-defined chunks were scanned'')
             else let s' = scan_chunks c file_index chunks s;
                      first = length (cs_chunks s)
             in bindR (scan_files c config view (Suc file_index) es s') (\<lambda>(entries, s).
                  Inr (e\<lparr>first_index := first, index_count := length (cs_chunks s') - first,
                         digest := sha256 c data\<rparr> # entries, s))))))"

definition scan_manifest ::
  "crypto \<Rightarrow> unicode \<Rightarrow> source_view \<Rightarrow> ChunkingConfig \<Rightarrow> (DedupManifest \<times> chunk_scan) result" where
  "scan_manifest c u view config =
     bindR (scan_session c u view (cc_max_size config) False) (\<lambda>base.
     bindR (scan_files c config view 0 (mf_entries base) empty_scan) (\<lambda>(entries, s).
       Inr (\<lparr>dm_kind = mf_kind base, dm_root_name = mf_root_name base, dm_entries = entries,
             dm_chunks = cs_chunks s\<rparr>, s)))"

text \<open>The records that stand for themselves: their number is the number of data frames.\<close>

definition canonical_indexes :: "ChunkRecord list \<Rightarrow> nat list" where
  "canonical_indexes chunks = filter (\<lambda>i. cr_source (chunks ! i) = i) [0..<length chunks]"

section \<open>Serialising\<close>

fun pack_chunks :: "ChunkRecord list \<Rightarrow> bytes result" where
  "pack_chunks [] = Inr []"
| "pack_chunks (r # rs) =
     bindR (struct_pack CHUNK_RECORD [VB (cr_digest r), VU (cr_size r), VU (cr_source r)]) (\<lambda>b.
     bindR (pack_chunks rs) (\<lambda>out. Inr (b @ out)))"

definition serialize_dedup_manifest :: "DedupManifest \<Rightarrow> bytes result" where
  "serialize_dedup_manifest manifest =
     bindR (utf8_encode (dm_root_name manifest)) (\<lambda>root.
     bindR (struct_pack DEDUP_MANIFEST_PREFIX
              [VB DEDUP_MANIFEST_MAGIC, VU (dm_kind manifest), VU (length root),
               VU (length (dm_entries manifest)), VU (length (dm_chunks manifest))]) (\<lambda>prefix.
     bindR (pack_entries (dm_entries manifest)) (\<lambda>entries.
     bindR (pack_chunks (dm_chunks manifest)) (\<lambda>chunks.
       Inr (prefix @ root @ entries @ chunks)))))"

section \<open>Parsing\<close>

definition msc3_read :: "bytes \<Rightarrow> nat \<Rightarrow> (bytes \<times> bytes) result" where
  "msc3_read = read_exact ''MSC3 is truncated''"

definition check_chunk_range :: "nat \<Rightarrow> ManifestEntry \<Rightarrow> nat result" where
  "check_chunk_range next_chunk e =
     (if is_directory_entry e
      then if entry_size e \<noteq> 0 \<or> first_index e \<noteq> 0 \<or> index_count e \<noteq> 0 \<or> digest e \<noteq> ZERO_HASH
           then Inl (ArchiveFormatError ''MSC3 directory entry is malformed'')
           else Inr next_chunk
      else if first_index e \<noteq> next_chunk \<or> (entry_size e = 0) \<noteq> (index_count e = 0)
           then Inl (ArchiveFormatError ''MSC3 file entry chunk range is invalid'')
           else Inr (next_chunk + index_count e))"

fun parse_dedup_entries ::
  "unicode \<Rightarrow> nat \<Rightarrow> pystr set \<Rightarrow> nat \<Rightarrow> bytes \<Rightarrow> (ManifestEntry list \<times> nat \<times> bytes) result" where
  "parse_dedup_entries u 0 collisions next_chunk stream = Inr ([], next_chunk, stream)"
| "parse_dedup_entries u (Suc n) collisions next_chunk stream =
     bindR (msc3_read stream (struct_size ENTRY_FIXED)) (\<lambda>(fixed, stream).
     bindR (struct_unpack ENTRY_FIXED fixed) (\<lambda>vs.
       if uval (vs ! 0) \<noteq> ENTRY_FILE \<and> uval (vs ! 0) \<noteq> ENTRY_DIRECTORY \<or> uval (vs ! 2) > 511
       then Inl (ArchiveFormatError ''MSC3 entry metadata is invalid'')
       else bindR (msc3_read stream (uval (vs ! 1))) (\<lambda>(raw, stream).
         bindR (decode_manifest_path u ''MSC3 entry path is unsafe'' raw) (\<lambda>(raw_path, relative).
           if raw_path \<noteq> relative \<or> casefold u relative \<in> collisions
           then Inl (ArchiveFormatError ''MSC3 manifest has a noncanonical path collision'')
           else let e = entry_of_values vs relative
           in bindR (check_chunk_range next_chunk e) (\<lambda>next_chunk.
              bindR (parse_dedup_entries u n (insert (casefold u relative) collisions) next_chunk stream)
                (\<lambda>(es, next_chunk, stream). Inr (e # es, next_chunk, stream)))))))"

definition check_chunk :: "nat \<Rightarrow> ChunkRecord list \<Rightarrow> ChunkRecord \<Rightarrow> unit result" where
  "check_chunk max_chunk_size chunks r =
     (let index = length chunks; source = cr_source r
      in if \<not> (1 \<le> cr_size r \<and> cr_size r \<le> max_chunk_size)
         then Inl (ArchiveFormatError ''MSC3 chunk has an invalid size'')
         else if source = index then Inr ()
         else if source \<ge> index
         then Inl (ArchiveFormatError ''MSC3 dedup references must point backward'')
         else let canonical = chunks ! source
         in if cr_source canonical \<noteq> source
            then Inl (ArchiveFormatError ''MSC3 dedup reference chains are forbidden'')
            else if cr_digest canonical \<noteq> cr_digest r \<or> cr_size canonical \<noteq> cr_size r
            then Inl (ArchiveFormatError ''MSC3 dedup reference metadata is inconsistent'')
            else Inr ())"

fun parse_chunks ::
  "nat \<Rightarrow> ChunkRecord list \<Rightarrow> nat \<Rightarrow> bytes \<Rightarrow> (ChunkRecord list \<times> bytes) result" where
  "parse_chunks max_chunk_size chunks 0 stream = Inr (chunks, stream)"
| "parse_chunks max_chunk_size chunks (Suc n) stream =
     bindR (msc3_read stream (struct_size CHUNK_RECORD)) (\<lambda>(b, stream).
     bindR (struct_unpack CHUNK_RECORD b) (\<lambda>vs.
       let r = \<lparr>cr_digest = bval (vs ! 0), cr_size = uval (vs ! 1), cr_source = uval (vs ! 2)\<rparr>
       in bindR (check_chunk max_chunk_size chunks r) (\<lambda>_.
            parse_chunks max_chunk_size (chunks @ [r]) n stream)))"

definition chunk_slice :: "ManifestEntry \<Rightarrow> 'a list \<Rightarrow> 'a list" where
  "chunk_slice e xs = take (index_count e) (drop (first_index e) xs)"

definition file_sizes_match :: "ManifestEntry list \<Rightarrow> ChunkRecord list \<Rightarrow> bool" where
  "file_sizes_match es chunks \<longleftrightarrow>
     list_all (\<lambda>e. is_file_entry e \<longrightarrow> sum_list (map cr_size (chunk_slice e chunks)) = entry_size e) es"

definition parse_dedup_manifest :: "unicode \<Rightarrow> bytes \<Rightarrow> Msc3Header \<Rightarrow> DedupManifest result" where
  "parse_dedup_manifest u data header =
     bindR (msc3_read data (struct_size DEDUP_MANIFEST_PREFIX)) (\<lambda>(prefix, stream).
     bindR (struct_unpack DEDUP_MANIFEST_PREFIX prefix) (\<lambda>vs.
       let kind = uval (vs ! 1); root_length = uval (vs ! 2); entry_count = uval (vs ! 3);
           chunk_count = uval (vs ! 4)
       in if bval (vs ! 0) \<noteq> DEDUP_MANIFEST_MAGIC \<or> kind \<noteq> KIND_FILE \<and> kind \<noteq> KIND_FOLDER
          then Inl (ArchiveFormatError ''MSC3 manifest prefix is invalid'')
          else if entry_count > 1000000 \<or> chunk_count > MAX_CHUNK_RECORDS
          then Inl (ArchiveFormatError ''MSC3 manifest exceeds entry or chunk limits'')
          else bindR (msc3_read stream root_length) (\<lambda>(raw, stream).
            bindR (decode_manifest_path u ''MSC3 root name is invalid'' raw) (\<lambda>(raw_root, root_name).
              if raw_root \<noteq> root_name \<or> SLASH \<in> set root_name
              then Inl (ArchiveFormatError ''MSC3 root name is not canonical'')
              else bindR (parse_dedup_entries u entry_count {} 0 stream) (\<lambda>(entries, next_chunk, stream).
                if next_chunk \<noteq> chunk_count
                then Inl (ArchiveFormatError ''MSC3 file chunk ranges do not cover the chunk table'')
                else bindR (parse_chunks (m3_max_chunk_size header) [] chunk_count stream) (\<lambda>(chunks, stream).
                  if stream \<noteq> [] then Inl (ArchiveFormatError ''MSC3 manifest contains trailing bytes'')
                  else if length (canonical_indexes chunks) + 1 \<noteq> m3_frame_count header
                  then Inl (ArchiveFormatError ''MSC3 unique chunks do not match the public frame count'')
                  else if \<not> file_sizes_match entries chunks
                  then Inl (ArchiveFormatError ''MSC3 chunk sizes do not match their file size'')
                  else if kind = KIND_FILE \<and> \<not> single_file_manifest root_name entries
                  then Inl (ArchiveFormatError ''MSC3 single-file manifest is malformed'')
                  else if kind = KIND_FOLDER \<and> \<not> parents_present entries
                  then Inl (ArchiveFormatError ''MSC3 manifest omits a required parent directory'')
                  else Inr \<lparr>dm_kind = kind, dm_root_name = root_name, dm_entries = entries,
                            dm_chunks = chunks\<rparr>))))))"

section \<open>The chunk table\<close>

text \<open>What the decoder may rely on: references point backward, to a canonical record that agrees.\<close>

definition valid_chunk :: "nat \<Rightarrow> ChunkRecord list \<Rightarrow> nat \<Rightarrow> bool" where
  "valid_chunk max_size chunks i \<longleftrightarrow>
     (let r = chunks ! i; s = cr_source r
      in 1 \<le> cr_size r \<and> cr_size r \<le> max_size \<and> s \<le> i \<and> cr_source (chunks ! s) = s
         \<and> cr_digest (chunks ! s) = cr_digest r \<and> cr_size (chunks ! s) = cr_size r)"

definition valid_chunks :: "nat \<Rightarrow> ChunkRecord list \<Rightarrow> bool" where
  "valid_chunks max_size chunks \<longleftrightarrow> (\<forall>i<length chunks. valid_chunk max_size chunks i)"

lemma valid_chunk_prefix:
  "i < length xs \<Longrightarrow> valid_chunk m (xs @ ys) i \<longleftrightarrow>
     (let r = xs ! i; s = cr_source r
      in 1 \<le> cr_size r \<and> cr_size r \<le> m \<and> s \<le> i \<and> cr_source (xs ! s) = s
         \<and> cr_digest (xs ! s) = cr_digest r \<and> cr_size (xs ! s) = cr_size r)"
  unfolding valid_chunk_def Let_def nth_append by auto

lemma valid_chunks_snoc:
  "valid_chunks m (xs @ [r]) \<longleftrightarrow> valid_chunks m xs \<and> check_chunk m xs r = Inr ()"
proof -
  have "valid_chunks m (xs @ [r]) \<longleftrightarrow> (\<forall>i<length xs. valid_chunk m (xs @ [r]) i) \<and> valid_chunk m (xs @ [r]) (length xs)"
    unfolding valid_chunks_def length_append by (auto simp: less_Suc_eq)
  also have "(\<forall>i<length xs. valid_chunk m (xs @ [r]) i) \<longleftrightarrow> valid_chunks m xs"
    unfolding valid_chunks_def valid_chunk_def[of m xs]
    using valid_chunk_prefix[of _ xs m "[r]"] by simp
  also have "valid_chunk m (xs @ [r]) (length xs) \<longleftrightarrow> check_chunk m xs r = Inr ()"
    by (auto simp: valid_chunk_def check_chunk_def nth_append Let_def split: if_splits)
  finally show ?thesis .
qed

lemma parse_chunks_Inr:
  "parse_chunks m chunks n stream = Inr (out, rest) \<Longrightarrow> valid_chunks m chunks \<Longrightarrow> valid_chunks m out"
proof (induction n arbitrary: chunks stream)
  case (Suc n)
  then show ?case by (auto simp: bindR_eq_Inr Let_def valid_chunks_snoc)
qed simp

lemma chunk_record_id [simp]: "\<lparr>cr_digest = cr_digest r, cr_size = cr_size r, cr_source = cr_source r\<rparr> = r"
  by (cases r) simp

lemma pack_chunks_parse:
  assumes "pack_chunks rs = Inr b" and "valid_chunks m (before @ rs)" and "\<forall>r\<in>set rs. length (cr_digest r) = 32"
  shows "parse_chunks m before (length rs) (b @ rest) = Inr (before @ rs, rest)"
  using assms
proof (induction rs arbitrary: b before)
  case (Cons r rs)
  from Cons.prems(1) obtain x out where
    x: "struct_pack CHUNK_RECORD [VB (cr_digest r), VU (cr_size r), VU (cr_source r)] = Inr x"
    and out: "pack_chunks rs = Inr out" and b: "b = x @ out" by (auto simp: bindR_eq_Inr)
  have "list_all2 field_exact CHUNK_RECORD [VB (cr_digest r), VU (cr_size r), VU (cr_source r)]"
    using x Cons.prems(3) by (auto simp: struct_pack_def split: if_splits)
  from struct_unpack_pack[OF this x] struct_pack_length[OF x]
  have u: "struct_unpack CHUNK_RECORD x = Inr [VB (cr_digest r), VU (cr_size r), VU (cr_source r)]"
    and l: "length x = struct_size CHUNK_RECORD" by auto
  have pre: "valid_chunks m (before @ [r])"
  proof -
    have "valid_chunk m (before @ r # rs) i = valid_chunk m (before @ [r]) i" if "i < length (before @ [r])" for i
      using that valid_chunk_prefix[of i "before @ [r]" m rs] valid_chunk_prefix[of i "before @ [r]" m "[]"] by simp
    then show ?thesis using Cons.prems(2) by (simp add: valid_chunks_def)
  qed
  then have ck: "check_chunk m before r = Inr ()" by (simp add: valid_chunks_snoc)
  have "parse_chunks m (before @ [r]) (length rs) (out @ rest) = Inr ((before @ [r]) @ rs, rest)"
    using Cons.prems by (intro Cons.IH[OF out]) auto
  then show ?case using u l ck by (simp add: b msc3_read_def Let_def)
qed simp

lemma pack_chunks_length: "pack_chunks rs = Inr b \<Longrightarrow> length b = 44 * length rs"
proof (induction rs arbitrary: b)
  case (Cons r rs)
  then obtain x out where x: "struct_pack CHUNK_RECORD [VB (cr_digest r), VU (cr_size r), VU (cr_source r)] = Inr x"
    and "pack_chunks rs = Inr out" "b = x @ out" by (auto simp: bindR_eq_Inr)
  with Cons.IH struct_pack_length[OF x] show ?case by (simp add: struct_size_def)
qed simp

section \<open>The round trip of the manifest\<close>

fun valid_dedup_entries :: "unicode \<Rightarrow> pystr set \<Rightarrow> nat \<Rightarrow> ManifestEntry list \<Rightarrow> nat \<Rightarrow> bool" where
  "valid_dedup_entries u collisions next_chunk [] final \<longleftrightarrow> final = next_chunk"
| "valid_dedup_entries u collisions next_chunk (e # es) final \<longleftrightarrow>
     (is_file_entry e \<or> is_directory_entry e) \<and> portable u (relative_path e)
     \<and> casefold u (relative_path e) \<notin> collisions \<and> entry_mode e \<le> 511 \<and> length (digest e) = 32
     \<and> (\<exists>next'. check_chunk_range next_chunk e = Inr next'
          \<and> valid_dedup_entries u (insert (casefold u (relative_path e)) collisions) next' es final)"

lemma pack_dedup_entries_parse:
  assumes "pack_entries es = Inr body" and "valid_dedup_entries u keys next_chunk es final"
  shows "parse_dedup_entries u (length es) keys next_chunk (body @ rest) = Inr (es, final, rest)"
  using assms
proof (induction es arbitrary: body keys next_chunk)
  case (Cons e es)
  from Cons.prems(1) obtain pb fixed out where pb: "utf8_encode (relative_path e) = Inr pb"
    and fixed: "struct_pack ENTRY_FIXED (entry_values e pb) = Inr fixed"
    and out: "pack_entries es = Inr out" and body: "body = fixed @ pb @ out"
    by (auto simp: result_simps)
  from Cons.prems(2) obtain next' where e: "is_file_entry e \<or> is_directory_entry e"
    "portable u (relative_path e)" "casefold u (relative_path e) \<notin> keys" "entry_mode e \<le> 511"
    "length (digest e) = 32" and range: "check_chunk_range next_chunk e = Inr next'"
    and valid: "valid_dedup_entries u (insert (casefold u (relative_path e)) keys) next' es final"
    by auto
  note f = entry_fixed_roundtrip[OF fixed e(5)]
  have vals: "uval (entry_values e pb ! 0) = entry_type e" "uval (entry_values e pb ! 1) = length pb"
    "uval (entry_values e pb ! 2) = entry_mode e"
    by (simp_all add: entry_values_def)
  have r1: "msc3_read (body @ rest) (struct_size ENTRY_FIXED) = Inr (fixed, pb @ out @ rest)"
    using f by (simp add: body msc3_read_def)
  have r2: "msc3_read (pb @ out @ rest) (length pb) = Inr (pb, out @ rest)" by (simp add: msc3_read_def)
  have ty: "\<not> (entry_type e \<noteq> ENTRY_FILE \<and> entry_type e \<noteq> ENTRY_DIRECTORY \<or> entry_mode e > 511)"
    using e by (auto simp: is_file_entry_def is_directory_entry_def)
  from Cons.IH[OF out valid] r1 r2 f ty e range decode_manifest_path_encode[OF pb e(2)] show ?case
    by (simp add: vals entry_of_values_id Let_def del: One_nat_def)
qed simp

definition valid_dedup_manifest :: "unicode \<Rightarrow> nat \<Rightarrow> nat \<Rightarrow> DedupManifest \<Rightarrow> bool" where
  "valid_dedup_manifest u max_size frame_count m \<longleftrightarrow>
     portable u (dm_root_name m) \<and> SLASH \<notin> set (dm_root_name m)
     \<and> length (dm_entries m) \<le> 1000000
     \<and> valid_dedup_entries u {} 0 (dm_entries m) (length (dm_chunks m))
     \<and> valid_chunks max_size (dm_chunks m) \<and> (\<forall>r\<in>set (dm_chunks m). length (cr_digest r) = 32)
     \<and> length (canonical_indexes (dm_chunks m)) + 1 = frame_count
     \<and> file_sizes_match (dm_entries m) (dm_chunks m)
     \<and> (dm_kind m = KIND_FILE \<and> single_file_manifest (dm_root_name m) (dm_entries m)
        \<or> dm_kind m = KIND_FOLDER \<and> parents_present (dm_entries m))"

lemma dedup_manifest_roundtrip:
  assumes ser: "serialize_dedup_manifest m = Inr data"
    and valid: "valid_dedup_manifest u (m3_max_chunk_size h) (m3_frame_count h) m"
    and few: "length (dm_chunks m) \<le> MAX_CHUNK_RECORDS"
  shows "parse_dedup_manifest u data h = Inr m"
proof -
  let ?vs = "\<lambda>nb. [VB DEDUP_MANIFEST_MAGIC, VU (dm_kind m), VU (length nb), VU (length (dm_entries m)),
      VU (length (dm_chunks m))]"
  from ser obtain nb prefix body cb where nb: "utf8_encode (dm_root_name m) = Inr nb"
    and prefix: "struct_pack DEDUP_MANIFEST_PREFIX (?vs nb) = Inr prefix"
    and body: "pack_entries (dm_entries m) = Inr body" and cb: "pack_chunks (dm_chunks m) = Inr cb"
    and data: "data = prefix @ nb @ body @ cb"
    by (auto simp: serialize_dedup_manifest_def result_simps)
  have "list_all2 field_exact DEDUP_MANIFEST_PREFIX (?vs nb)"
    using prefix by (auto simp: struct_pack_def split: if_splits)
  from struct_unpack_pack[OF this prefix] have un: "struct_unpack DEDUP_MANIFEST_PREFIX prefix = Inr (?vs nb)" .
  have r1: "msc3_read data (struct_size DEDUP_MANIFEST_PREFIX) = Inr (prefix, nb @ body @ cb)"
    using struct_pack_length[OF prefix] by (simp add: data msc3_read_def)
  have r2: "msc3_read (nb @ body @ cb) (length nb) = Inr (nb, body @ cb)" by (simp add: msc3_read_def)
  note v = valid[unfolded valid_dedup_manifest_def]
  have path: "decode_manifest_path u ''MSC3 root name is invalid'' nb = Inr (dm_root_name m, dm_root_name m)"
    using decode_manifest_path_encode[OF nb] v by blast
  have es: "parse_dedup_entries u (length (dm_entries m)) {} 0 (body @ cb) = Inr (dm_entries m, length (dm_chunks m), cb)"
    using pack_dedup_entries_parse[OF body, of u "{}" 0 "length (dm_chunks m)" cb] v by simp
  have cs: "parse_chunks (m3_max_chunk_size h) [] (length (dm_chunks m)) cb = Inr (dm_chunks m, [])"
    using pack_chunks_parse[OF cb, of "m3_max_chunk_size h" "[]" "[]"] v by simp
  show ?thesis
    using v few un r1 r2 path es cs by (cases m) (auto simp: parse_dedup_manifest_def Let_def)
qed

section \<open>What a scan yields\<close>

text \<open>The state of the scan behind the chunks \<open>xs\<close>.\<close>

definition scan_inv :: "crypto \<Rightarrow> nat \<Rightarrow> bytes list \<Rightarrow> chunk_scan \<Rightarrow> bool" where
  "scan_inv c max_size xs s \<longleftrightarrow>
     map (\<lambda>r. (cr_digest r, cr_size r)) (cs_chunks s) = map (\<lambda>x. (sha256 c x, length x)) xs
     \<and> valid_chunks max_size (cs_chunks s)
     \<and> (\<forall>key i. cs_canonical s key = Some i \<longrightarrow> i < length (cs_chunks s)
          \<and> cs_chunks s ! i = \<lparr>cr_digest = fst key, cr_size = snd key, cr_source = i\<rparr>)
     \<and> cs_unique s = map (\<lambda>i. xs ! i) (canonical_indexes (cs_chunks s))
     \<and> dom (cs_canonical s) = set (map (\<lambda>x. (sha256 c x, length x)) xs)
     \<and> distinct (map (\<lambda>x. (sha256 c x, length x)) (cs_unique s))
     \<and> set (map (\<lambda>x. (sha256 c x, length x)) (cs_unique s)) = set (map (\<lambda>x. (sha256 c x, length x)) xs)"

lemma scan_inv_empty: "scan_inv c m [] empty_scan"
  by (simp add: scan_inv_def empty_scan_def valid_chunks_def canonical_indexes_def)

lemma canonical_indexes_snoc:
  "canonical_indexes (xs @ [r]) = canonical_indexes xs @ (if cr_source r = length xs then [length xs] else [])"
proof -
  have "filter (\<lambda>i. cr_source ((xs @ [r]) ! i) = i) [0..<length xs] = canonical_indexes xs"
    unfolding canonical_indexes_def by (rule filter_cong) (auto simp: nth_append)
  then show ?thesis by (simp add: canonical_indexes_def)
qed

lemma canonical_indexes_less: "i \<in> set (canonical_indexes xs) \<Longrightarrow> i < length xs"
  by (auto simp: canonical_indexes_def)

lemma scan_inv_length:
  assumes "scan_inv c m xs s"
  shows "length (cs_chunks s) = length xs"
proof -
  have "map (\<lambda>r. (cr_digest r, cr_size r)) (cs_chunks s) = map (\<lambda>x. (sha256 c x, length x)) xs"
    using assms by (simp add: scan_inv_def)
  from arg_cong[OF this, where f = length] show ?thesis by simp
qed

lemma scan_chunk_inv:
  assumes inv: "scan_inv c m xs s" and b: "1 \<le> length b" "length b \<le> m"
  shows "scan_inv c m (xs @ [b]) (scan_chunk c fi b s)"
proof -
  let ?n = "length (cs_chunks s)" and ?key = "(sha256 c b, length b)" and ?k = "\<lambda>x. (sha256 c x, length x)"
  have n: "?n = length xs" by (rule scan_inv_length[OF inv])
  have canon: "cs_canonical s key = Some i \<Longrightarrow> i < ?n \<and> cs_chunks s ! i = \<lparr>cr_digest = fst key, cr_size = snd key, cr_source = i\<rparr>" for key i
    using inv unfolding scan_inv_def by blast
  have uniq: "cs_unique s = map (\<lambda>i. xs ! i) (canonical_indexes (cs_chunks s))"
    and pairs: "map (\<lambda>r. (cr_digest r, cr_size r)) (cs_chunks s) = map (\<lambda>x. (sha256 c x, length x)) xs"
    and vc: "valid_chunks m (cs_chunks s)"
    and dom: "dom (cs_canonical s) = set (map ?k xs)" and dist: "distinct (map ?k (cs_unique s))"
    and keys: "set (map ?k (cs_unique s)) = set (map ?k xs)" using inv unfolding scan_inv_def by blast+
  have old: "map (\<lambda>i. (xs @ [b]) ! i) (canonical_indexes (cs_chunks s)) = cs_unique s"
    unfolding uniq by (rule map_cong[OF refl]) (use canonical_indexes_less[of _ "cs_chunks s"] n in \<open>auto simp: nth_append\<close>)
  define src where "src = (case cs_canonical s ?key of Some i \<Rightarrow> i | None \<Rightarrow> ?n)"
  let ?r = "\<lparr>cr_digest = sha256 c b, cr_size = length b, cr_source = src\<rparr>" and ?s = "scan_chunk c fi b s"
  have s': "cs_chunks ?s = cs_chunks s @ [?r]" "cs_canonical ?s = (cs_canonical s)(?key \<mapsto> src)"
    "cs_unique ?s = (if src = ?n then cs_unique s @ [b] else cs_unique s)"
    by (simp_all add: scan_chunk_def Let_def src_def)
  have src: "src = ?n \<or> src < ?n \<and> cs_chunks s ! src = \<lparr>cr_digest = sha256 c b, cr_size = length b, cr_source = src\<rparr>"
    using canon[of ?key] by (cases "cs_canonical s ?key") (auto simp: src_def)
  then have "check_chunk m (cs_chunks s) ?r = Inr ()" using b by (auto simp: check_chunk_def Let_def)
  with vc have "valid_chunks m (cs_chunks ?s)" by (simp add: s' valid_chunks_snoc)
  moreover have "map (\<lambda>r. (cr_digest r, cr_size r)) (cs_chunks ?s) = map (\<lambda>x. (sha256 c x, length x)) (xs @ [b])"
    using pairs by (simp add: s')
  moreover have "cs_unique ?s = map (\<lambda>i. (xs @ [b]) ! i) (canonical_indexes (cs_chunks ?s))"
    using old n by (simp add: s' canonical_indexes_snoc)
  moreover have "i < length (cs_chunks ?s) \<and> cs_chunks ?s ! i = \<lparr>cr_digest = fst key, cr_size = snd key, cr_source = i\<rparr>"
    if k: "cs_canonical ?s key = Some i" for key i
  proof (cases "key = ?key")
    case True
    with k have i: "i = src" by (simp add: s')
    from src show ?thesis by (auto simp: i s' True nth_append)
  next
    case False
    with k have "cs_canonical s key = Some i" by (simp add: s')
    from canon[OF this] show ?thesis by (simp add: s' nth_append)
  qed
  moreover have "dom (cs_canonical ?s) = set (map ?k (xs @ [b]))" using dom by (simp add: s')
  moreover have "distinct (map ?k (cs_unique ?s))" "set (map ?k (cs_unique ?s)) = set (map ?k (xs @ [b]))"
  proof -
    have new: "src = ?n \<longleftrightarrow> ?k b \<notin> dom (cs_canonical s)"
      using canon[of "?k b"] by (cases "cs_canonical s (?k b)") (auto simp: src_def)
    show "distinct (map ?k (cs_unique ?s))"
      using dist keys new dom by (cases "src = ?n") (simp_all add: s')
    show "set (map ?k (cs_unique ?s)) = set (map ?k (xs @ [b]))"
      using keys new dom by (cases "src = ?n") (simp_all add: s' insert_absorb)
  qed
  ultimately show ?thesis unfolding scan_inv_def by blast
qed

lemma scan_chunks_inv:
  "scan_inv c m xs s \<Longrightarrow> \<forall>b\<in>set bs. 1 \<le> length b \<and> length b \<le> m \<Longrightarrow> scan_inv c m (xs @ bs) (scan_chunks c fi bs s)"
proof (induction bs arbitrary: xs s)
  case (Cons b bs)
  from Cons.IH[OF scan_chunk_inv[OF Cons.prems(1)]] Cons.prems(2) show ?case by simp
qed simp

text \<open>There is one canonical record for each distinct pair of digest and size.\<close>

lemma canonical_count:
  assumes "scan_inv c m xs s"
  shows "length (canonical_indexes (cs_chunks s)) = card (set (map (\<lambda>x. (sha256 c x, length x)) xs))"
proof -
  have u: "cs_unique s = map (\<lambda>i. xs ! i) (canonical_indexes (cs_chunks s))"
    and d: "distinct (map (\<lambda>x. (sha256 c x, length x)) (cs_unique s))"
    and k: "set (map (\<lambda>x. (sha256 c x, length x)) (cs_unique s)) = set (map (\<lambda>x. (sha256 c x, length x)) xs)"
    using assms unfolding scan_inv_def by blast+
  from distinct_card[OF d, unfolded k] arg_cong[OF u, where f = length] show ?thesis by simp
qed

text \<open>The chunks of an entry, as one pass over the source finds them.\<close>

definition session_key :: "source_view \<Rightarrow> ManifestEntry \<Rightarrow> pystr" where
  "session_key view e = (if sv_root_is_file view then [] else relative_path e)"

definition entry_data :: "source_view \<Rightarrow> nat \<Rightarrow> ManifestEntry \<Rightarrow> bytes" where
  "entry_data view pass e =
     (if is_file_entry e
      then (case session_open view pass (session_key view e) of Inl _ \<Rightarrow> [] | Inr data \<Rightarrow> data) else [])"

definition entry_chunks :: "crypto \<Rightarrow> ChunkingConfig \<Rightarrow> source_view \<Rightarrow> nat \<Rightarrow> ManifestEntry \<Rightarrow> bytes list" where
  "entry_chunks c config view pass e = content_defined_chunks c config (entry_data view pass e)"

lemma chunks_Nil_iff: "content_defined_chunks c config data = [] \<longleftrightarrow> data = []"
proof
  assume "content_defined_chunks c config data = []"
  with chunks_concat[of c config data] show "data = []" by simp
next
  assume "data = []"
  then show "content_defined_chunks c config data = []" by (simp add: content_defined_chunks_def)
qed

lemma entry_chunks_concat [simp]: "concat (entry_chunks c config view pass e) = entry_data view pass e"
  by (simp add: entry_chunks_def chunks_concat)

lemma entry_chunks_no_file: "\<not> is_file_entry e \<Longrightarrow> entry_chunks c config view pass e = []"
  by (simp add: entry_chunks_def entry_data_def chunks_Nil_iff)

text \<open>Entries that lie one behind the other in the chunk table, and record what pass 0 read.\<close>

fun placed_from ::
  "crypto \<Rightarrow> ChunkingConfig \<Rightarrow> source_view \<Rightarrow> nat \<Rightarrow> ManifestEntry list \<Rightarrow> nat \<Rightarrow> bool" where
  "placed_from c config view k [] final \<longleftrightarrow> final = k"
| "placed_from c config view k (e # es) final \<longleftrightarrow>
     (if is_directory_entry e then e = directory_record e
      else is_file_entry e \<and> (\<exists>data. session_open view 0 (session_key view e) = Inr data)
        \<and> entry_size e = length (entry_data view 0 e)
        \<and> digest e = sha256 c (entry_data view 0 e) \<and> first_index e = k
        \<and> index_count e = length (entry_chunks c config view 0 e))
     \<and> placed_from c config view (k + length (entry_chunks c config view 0 e)) es final"

definition same_entry :: "ManifestEntry \<Rightarrow> ManifestEntry \<Rightarrow> bool" where
  "same_entry e e' \<longleftrightarrow> entry_type e' = entry_type e \<and> relative_path e' = relative_path e
     \<and> entry_mode e' = entry_mode e \<and> mtime_ns e' = mtime_ns e"

lemma same_entry_simps:
  assumes "same_entry e e'"
  shows "is_file_entry e' = is_file_entry e" "is_directory_entry e' = is_directory_entry e"
    "relative_path e' = relative_path e" "entry_mode e' = entry_mode e" "mtime_ns e' = mtime_ns e"
    "entry_metadata e' = entry_metadata e" "entry_data view pass e' = entry_data view pass e"
    "entry_chunks c config view pass e' = entry_chunks c config view pass e"
  using assms by (simp_all add: same_entry_def is_file_entry_def is_directory_entry_def entry_metadata_def
      entry_data_def entry_chunks_def session_key_def)

lemma entry_kind_exclusive: "is_file_entry e \<Longrightarrow> \<not> is_directory_entry e"
  by (simp add: is_file_entry_def is_directory_entry_def)

text \<open>The scan of one file.\<close>

lemma scan_files_FileE:
  assumes scan: "scan_files c config view i (e # es) s = Inr (out, s')" and f: "\<not> is_directory_entry e" "is_file_entry e"
    and cfg: "valid_chunking config"
  obtains out' where "out = e\<lparr>first_index := length (cs_chunks s),
        index_count := length (cs_chunks (scan_chunks c i (entry_chunks c config view 0 e) s)) - length (cs_chunks s),
        digest := sha256 c (entry_data view 0 e)\<rparr> # out'"
    and "scan_files c config view (Suc i) es (scan_chunks c i (entry_chunks c config view 0 e) s) = Inr (out', s')"
    and "entry_size e = length (entry_data view 0 e)" and "\<exists>data. session_open view 0 (session_key view e) = Inr data"
proof -
  obtain data where data: "session_open view 0 (session_key view e) = Inr data"
    using scan f by (auto simp: session_key_def Let_def bindR_eq_Inr)
  then have d: "entry_data view 0 e = data" "entry_chunks c config view 0 e = content_defined_chunks c config data"
    using f by (simp_all add: entry_data_def entry_chunks_def)
  have it: "iter_content_defined_chunks c config data = Inr (content_defined_chunks c config data)"
    by (rule iter_cdc_ref[OF cfg])
  from scan f data it that show thesis
    by (auto simp: session_key_def Let_def bindR_eq_Inr d split: if_split_asm)
qed

lemma scan_files_Inr:
  assumes "scan_files c config view i es s = Inr (out, s')" and cfg: "valid_chunking config"
    and "\<forall>e\<in>set es. is_directory_entry e = (\<not> is_file_entry e)" and "scan_inv c (cc_max_size config) xs s"
  shows "list_all2 same_entry es out \<and> placed_from c config view (length xs) out (length (cs_chunks s'))
    \<and> scan_inv c (cc_max_size config) (xs @ concat (map (entry_chunks c config view 0) out)) s'"
  using assms(1,3,4)
proof (induction es arbitrary: i s xs out)
  case Nil
  then show ?case using scan_inv_length by auto
next
  case (Cons e es)
  show ?case
  proof (cases "is_directory_entry e")
    case True
    with Cons.prems obtain out' where out: "out = directory_record e # out'"
      and r: "scan_files c config view (Suc i) es s = Inr (out', s')" by (auto simp: bindR_eq_Inr)
    have same: "same_entry e (directory_record e)" "directory_record (directory_record e) = directory_record e"
      by (simp_all add: same_entry_def directory_record_def)
    note ss = same_entry_simps[OF same(1)]
    have "entry_chunks c config view 0 e = []" using True Cons.prems(2) by (intro entry_chunks_no_file) simp
    with Cons.IH[OF r _ Cons.prems(3)] Cons.prems(2) True same ss show ?thesis by (simp add: out)
  next
    case False
    then have f: "is_file_entry e" using Cons.prems(2) by simp
    let ?cs = "entry_chunks c config view 0 e"
    let ?s = "scan_chunks c i ?cs s"
    let ?e = "e\<lparr>first_index := length (cs_chunks s), index_count := length (cs_chunks ?s) - length (cs_chunks s),
        digest := sha256 c (entry_data view 0 e)\<rparr>"
    from scan_files_FileE[OF Cons.prems(1) False f cfg] obtain out' where out: "out = ?e # out'"
      and r: "scan_files c config view (Suc i) es ?s = Inr (out', s')"
      and size: "entry_size e = length (entry_data view 0 e)"
      and opened: "\<exists>data. session_open view 0 (session_key view e) = Inr data" by blast
    have key: "session_key view (e\<lparr>first_index := a, index_count := b, digest := h\<rparr>) = session_key view e" for a b h
      by (simp add: session_key_def)
    have bounds: "\<forall>b\<in>set ?cs. 1 \<le> length b \<and> length b \<le> cc_max_size config"
      using chunks_nonempty chunks_max[OF cfg] by (fastforce simp: entry_chunks_def Suc_le_eq)
    note inv = scan_chunks_inv[OF Cons.prems(3) bounds, of i]
    have len: "length (cs_chunks s) = length xs" "length (cs_chunks ?s) = length xs + length ?cs"
      using scan_inv_length[OF Cons.prems(3)] scan_inv_length[OF inv] by simp_all
    have same: "same_entry e ?e" by (simp add: same_entry_def)
    note ss = same_entry_simps[OF same]
    from Cons.IH[OF r _ inv] Cons.prems(2) len same ss False f size opened show ?thesis by (simp add: out key)
  qed
qed

lemma placed_file:
  "placed_from c config view k es final \<Longrightarrow> e \<in> set es \<Longrightarrow> is_file_entry e \<Longrightarrow>
   entry_size e = length (entry_data view 0 e) \<and> digest e = sha256 c (entry_data view 0 e)
   \<and> (\<exists>data. session_open view 0 (session_key view e) = Inr data)
   \<and> index_count e = length (entry_chunks c config view 0 e)"
  by (induction es arbitrary: k) (auto simp: entry_kind_exclusive)

lemma placed_final: "placed_from c config view k es final \<Longrightarrow> k \<le> final"
  by (induction es arbitrary: k) force+

text \<open>The records of an entry are those of its chunks.\<close>

lemma placed_slice:
  assumes "placed_from c config view k es final" and "e \<in> set es" and "is_file_entry e" and "length before = k"
  shows "chunk_slice e (before @ concat (map (entry_chunks c config view 0) es)) = entry_chunks c config view 0 e"
  using assms(1,2,4)
proof (induction es arbitrary: k before)
  case (Cons d es)
  let ?ch = "entry_chunks c config view 0"
  show ?case
  proof (cases "e = d")
    case True
    with Cons.prems assms(3) entry_kind_exclusive have "first_index e = length before" "index_count e = length (?ch e)" by auto
    then show ?thesis by (simp add: chunk_slice_def True)
  next
    case False
    with Cons.prems have "chunk_slice e ((before @ ?ch d) @ concat (map ?ch es)) = ?ch e"
      by (intro Cons.IH[of "k + length (?ch d)"]) auto
    then show ?thesis by simp
  qed
qed simp

lemma chunk_slice_map: "chunk_slice e (map f xs) = map f (chunk_slice e xs)"
  by (simp add: chunk_slice_def take_map drop_map)

lemma placed_sizes:
  assumes "placed_from c config view 0 es final"
    and inv: "scan_inv c m (concat (map (entry_chunks c config view 0) es)) s"
  shows "file_sizes_match es (cs_chunks s)"
proof -
  let ?all = "concat (map (entry_chunks c config view 0) es)"
  have "map (\<lambda>r. (cr_digest r, cr_size r)) (cs_chunks s) = map (\<lambda>x. (sha256 c x, length x)) ?all"
    using inv by (simp add: scan_inv_def)
  from arg_cong[OF this, where f = "map snd"] have sizes: "map cr_size (cs_chunks s) = map length ?all" by (simp add: o_def)
  have "sum_list (map cr_size (chunk_slice e (cs_chunks s))) = entry_size e" if e: "e \<in> set es" "is_file_entry e" for e
  proof -
    note placed_file[OF assms(1) e]
    moreover have "map cr_size (chunk_slice e (cs_chunks s)) = map length (entry_chunks c config view 0 e)"
      using placed_slice[OF assms(1) e, of "[]"] chunk_slice_map[of e length ?all] chunk_slice_map[of e cr_size "cs_chunks s"]
      by (simp add: sizes)
    moreover have "sum_list (map length (entry_chunks c config view 0 e)) = length (entry_data view 0 e)"
      using length_concat[of "entry_chunks c config view 0 e"] by simp
    ultimately show ?thesis by simp
  qed
  then show ?thesis by (auto simp: file_sizes_match_def list_all_iff)
qed

text \<open>Placed entries pass the parser's range checks.\<close>

lemma placed_range:
  assumes "placed_from c config view k (e # es) final" and "is_file_entry e \<or> is_directory_entry e"
  shows "check_chunk_range k e = Inr (k + length (entry_chunks c config view 0 e))"
proof (cases "is_directory_entry e")
  case True
  then have e: "e = directory_record e" and nf: "\<not> is_file_entry e" using assms(1) entry_kind_exclusive by auto
  have "entry_size e = 0 \<and> first_index e = 0 \<and> index_count e = 0 \<and> digest e = ZERO_HASH"
    by (subst (1 2 3 4) e) (simp add: directory_record_def)
  with True entry_chunks_no_file[OF nf] show ?thesis by (simp add: check_chunk_range_def)
next
  case False
  with assms(1) show ?thesis
    by (auto simp: check_chunk_range_def entry_chunks_def chunks_Nil_iff)
qed

lemma placed_valid:
  assumes "valid_entries u n keys first es fin" and "list_all2 same_entry es out"
    and "placed_from c config view k out final" and "digest_law c"
  shows "valid_dedup_entries u keys k out final"
  using assms(1-3)
proof (induction es arbitrary: out keys first k)
  case (Cons e es)
  from Cons.prems(2) obtain e' out' where out: "out = e' # out'" and same: "same_entry e e'"
    and rest: "list_all2 same_entry es out'" by (auto simp: list_all2_Cons1)
  note ss = same_entry_simps[OF same]
  from Cons.prems(1) obtain first' where
    valid: "valid_entries u n (insert (casefold u (relative_path e)) keys) first' es fin" by auto
  have kinds: "is_file_entry e' \<or> is_directory_entry e'" using Cons.prems(1) ss by auto
  have placed: "placed_from c config view (k + length (entry_chunks c config view 0 e')) out' final"
    using Cons.prems(3) by (simp add: out)
  have "length (digest e') = 32"
  proof (cases "is_directory_entry e'")
    case True
    then have "e' = directory_record e'" using Cons.prems(3) by (simp add: out)
    then have "digest e' = ZERO_HASH" by (metis ManifestEntry.select_convs(8) directory_record_def ManifestEntry.surjective
      ManifestEntry.update_convs(8))
    then show ?thesis by simp
  next
    case False
    then show ?thesis using Cons.prems(3) assms(4) by (simp add: out digest_law_def)
  qed
  with Cons.IH[OF valid rest placed] placed_range[OF Cons.prems(3)[unfolded out] kinds] kinds Cons.prems(1) ss
  show ?case by (auto simp: out)
qed simp

lemma same_entries_paths:
  assumes "list_all2 same_entry es out"
  shows "map relative_path out = map relative_path es"
    and "map relative_path (filter is_directory_entry out) = map relative_path (filter is_directory_entry es)"
    and "length out = length es"
  using assms by (induction rule: list_all2_induct) (auto simp: same_entry_def is_directory_entry_def)

lemma same_entries_parents:
  assumes "list_all2 same_entry es out"
  shows "parents_present out = parents_present es"
proof -
  have *: "parents_present xs \<longleftrightarrow> (\<forall>p\<in>set (map relative_path xs). posix_parent p = [DOT]
      \<or> posix_parent p \<in> set (map relative_path (filter is_directory_entry xs)))" for xs
    by (simp add: parents_present_def list_all_iff)
  show ?thesis unfolding * same_entries_paths(1,2)[OF assms] ..
qed

lemma same_entries_nested: "list_all2 same_entry es out \<Longrightarrow> nested_from ds out = nested_from ds es"
  by (induction arbitrary: ds rule: list_all2_induct) (simp_all add: same_entry_def is_directory_entry_def)

lemma same_entries_from: "list_all2 entry_from ses es \<Longrightarrow> list_all2 same_entry es out \<Longrightarrow> list_all2 entry_from ses out"
proof (induction arbitrary: out rule: list_all2_induct)
  case (Cons se ses e es)
  then show ?case
    by (auto simp: list_all2_Cons1 entry_from_def same_entry_def is_file_entry_def is_directory_entry_def entry_metadata_def)
qed simp

lemma valid_entries_kinds:
  "valid_entries u n keys first es fin \<Longrightarrow> e \<in> set es \<Longrightarrow> is_directory_entry e = (\<not> is_file_entry e)"
  by (induction es arbitrary: keys first) (auto simp: is_file_entry_def is_directory_entry_def)

lemma valid_dedup_entries_kinds:
  "valid_dedup_entries u keys k es fin \<Longrightarrow> e \<in> set es \<Longrightarrow> is_directory_entry e = (\<not> is_file_entry e)"
  by (induction es arbitrary: keys k) (auto simp: is_file_entry_def is_directory_entry_def)

text \<open>
  The scan of a portable view: a manifest that the parser accepts, whose table is that of the
  chunks of all files in order.
\<close>

definition all_chunks :: "crypto \<Rightarrow> ChunkingConfig \<Rightarrow> source_view \<Rightarrow> nat \<Rightarrow> ManifestEntry list \<Rightarrow> bytes list" where
  "all_chunks c config view pass es = concat (map (entry_chunks c config view pass) es)"

lemma scan_manifest_Inr:
  assumes scan: "scan_manifest c u view config = Inr (m, s)" and d: "digest_law c" and view: "portable_view u view"
    and cfg: "valid_chunking config"
  shows "valid_dedup_manifest u (cc_max_size config) (1 + length (canonical_indexes (dm_chunks m))) m
    \<and> dm_chunks m = cs_chunks s \<and> placed_from c config view 0 (dm_entries m) (length (dm_chunks m))
    \<and> scan_inv c (cc_max_size config) (all_chunks c config view 0 (dm_entries m)) s
    \<and> dm_kind m = (if sv_root_is_file view then KIND_FILE else KIND_FOLDER)
    \<and> (if sv_root_is_file view
       then \<exists>se e. sv_entries view = [se] \<and> se_relative_path se = [] \<and> dm_entries m = [e]
         \<and> is_file_entry e \<and> entry_metadata e = Some (S_IMODE (se_st_mode se) mod 512, se_mtime_ns se)
       else list_all2 entry_from (sv_entries view) (dm_entries m)
         \<and> nested_from {[]} (dm_entries m) \<and> distinct (map entry_parts (dm_entries m)))"
proof -
  from scan obtain base es where base: "scan_session c u view (cc_max_size config) False = Inr base"
    and es: "scan_files c config view 0 (mf_entries base) empty_scan = Inr (es, s)"
    and m: "m = \<lparr>dm_kind = mf_kind base, dm_root_name = mf_root_name base, dm_entries = es, dm_chunks = cs_chunks s\<rparr>"
    by (auto simp: scan_manifest_def bindR_eq_Inr)
  note b = scan_session_Inr[OF base d view]
  have vb: "valid_entries u (cc_max_size config) {} 1 (mf_entries base) (1 + file_frames (mf_entries base))"
    using b by (simp add: valid_manifest_def)
  have kinds: "\<forall>e\<in>set (mf_entries base). is_directory_entry e = (\<not> is_file_entry e)"
    using valid_entries_kinds[OF vb] by blast
  from scan_files_Inr[OF es cfg kinds scan_inv_empty] have same: "list_all2 same_entry (mf_entries base) es"
    and placed: "placed_from c config view 0 es (length (cs_chunks s))"
    and inv: "scan_inv c (cc_max_size config) (all_chunks c config view 0 es) s"
    by (simp_all add: all_chunks_def)
  have chunks: "valid_chunks (cc_max_size config) (cs_chunks s)" using inv by (simp add: scan_inv_def)
  have "map cr_digest (cs_chunks s) = map (sha256 c) (all_chunks c config view 0 es)"
  proof -
    have "map (\<lambda>r. (cr_digest r, cr_size r)) (cs_chunks s) = map (\<lambda>x. (sha256 c x, length x)) (all_chunks c config view 0 es)"
      using inv by (simp add: scan_inv_def)
    from arg_cong[OF this, where f = "map fst"] show ?thesis by (simp add: o_def)
  qed
  from arg_cong[OF this, where f = set] have "cr_digest ` set (cs_chunks s) \<subseteq> range (sha256 c)" by auto
  moreover have "length x = 32" if "x \<in> range (sha256 c)" for x using that d unfolding digest_law_def by blast
  ultimately have digests: "\<forall>r\<in>set (cs_chunks s). length (cr_digest r) = 32" by blast
  have ve: "valid_dedup_entries u {} 0 es (length (cs_chunks s))" by (rule placed_valid[OF vb same placed d])
  have sizes: "file_sizes_match es (cs_chunks s)"
    using placed_sizes[OF placed, of "cc_max_size config" s] inv by (simp add: all_chunks_def)
  have single: "single_file_manifest r es = single_file_manifest r (mf_entries base)" for r
    using same same_entries_paths(3)[OF same]
    by (auto simp: single_file_manifest_def list_all2_conv_all_nth same_entry_def is_file_entry_def)
  have "valid_dedup_manifest u (cc_max_size config) (1 + length (canonical_indexes (cs_chunks s))) m"
    using conjunct1[OF b, unfolded valid_manifest_def] ve chunks digests sizes
      single same_entries_parents[OF same] same_entries_paths(3)[OF same]
    by (simp add: valid_dedup_manifest_def m)
  moreover have "if sv_root_is_file view
       then \<exists>se e. sv_entries view = [se] \<and> se_relative_path se = [] \<and> dm_entries m = [e]
         \<and> is_file_entry e \<and> entry_metadata e = Some (S_IMODE (se_st_mode se) mod 512, se_mtime_ns se)
       else list_all2 entry_from (sv_entries view) (dm_entries m)
         \<and> nested_from {[]} (dm_entries m) \<and> distinct (map entry_parts (dm_entries m))"
  proof (cases "sv_root_is_file view")
    case True
    with b obtain se e where se: "sv_entries view = [se]" "se_relative_path se = []" "mf_entries base = [e]"
      "is_file_entry e" "entry_metadata e = Some (S_IMODE (se_st_mode se) mod 512, se_mtime_ns se)" by auto
    from same se(3) obtain e' where e': "es = [e']" "same_entry e e'" by (auto simp: list_all2_Cons1)
    then show ?thesis using True se same_entry_simps[OF e'(2)] by (simp add: m)
  next
    case False
    have "map entry_parts es = map entry_parts (mf_entries base)"
      using arg_cong[OF same_entries_paths(1)[OF same], where f = "map posix_components"] by (simp add: o_def)
    with False b same_entries_from[OF _ same] same_entries_nested[OF same] show ?thesis by (simp add: m)
  qed
  moreover have "mf_kind base = (if sv_root_is_file view then KIND_FILE else KIND_FOLDER)" using b by blast
  ultimately show ?thesis using placed inv by (simp add: m)
qed

end
