(* ===== verification/ArchiveDedup.thy ===== *)
theory ArchiveDedup
  imports Archive2 DedupManifest
begin

text \<open>
  MSC6, the deduplicating archive (\<^verbatim>\<open>dedup_archive.py\<close>, second half): the encoder writes one sealed
  frame for every chunk that did not occur before, the decoder reads each frame where its chunk
  first occurs and keeps the chunks that later records refer to in a cache. MSC3 to MSC5 differ in
  their version only, which the decoder accepts. Progress callbacks and elapsed times are left out.
\<close>

section \<open>Statistics\<close>

record DedupEncodeStats =
  dse_format_version :: nat
  dse_archive_kind :: string
  dse_original_size :: nat
  dse_compressed_size :: nat
  dse_padded_plaintext_size :: nat
  dse_archive_size :: nat
  dse_padding_overhead :: int
  dse_block_count :: nat
  dse_file_count :: nat
  dse_directory_count :: nat
  dse_mode_distribution :: "(string \<times> nat) list"
  dse_duplicate_blocks :: nat
  dse_average_features :: "(string \<times> rat) list"
  dse_logical_chunk_count :: nat
  dse_unique_chunk_count :: nat
  dse_duplicate_chunk_count :: nat
  dse_cross_file_duplicate_chunks :: nat
  dse_dedup_saved_bytes :: nat
  dse_cross_file_dedup_saved_bytes :: nat

record DedupDecodeStats =
  dsd_format_version :: nat
  dsd_archive_kind :: string
  dsd_original_size :: nat
  dsd_block_count :: nat
  dsd_file_count :: nat
  dsd_directory_count :: nat
  dsd_mode_distribution :: "(string \<times> nat) list"
  dsd_logical_chunk_count :: nat
  dsd_unique_chunk_count :: nat
  dsd_duplicate_chunk_count :: int
  dsd_dedup_saved_bytes :: nat
  dsd_cross_file_duplicate_chunks :: nat
  dsd_cross_file_dedup_saved_bytes :: nat
  dsd_hash_verified :: bool

record DedupArchiveInfo =
  dsi_format_version :: nat
  dsi_archive_kind :: string
  dsi_root_name :: pystr
  dsi_original_size :: nat
  dsi_compressed_size :: nat
  dsi_padded_plaintext_size :: nat
  dsi_archive_size :: nat
  dsi_padding_overhead :: int
  dsi_chunk_size :: nat
  dsi_min_chunk_size :: nat
  dsi_max_chunk_size :: nat
  dsi_block_count :: nat
  dsi_file_count :: nat
  dsi_directory_count :: nat
  dsi_mode_distribution :: "(string \<times> nat) list"
  dsi_logical_chunk_count :: nat
  dsi_unique_chunk_count :: nat
  dsi_duplicate_chunk_count :: int
  dsi_dedup_saved_bytes :: nat
  dsi_cross_file_duplicate_chunks :: nat
  dsi_cross_file_dedup_saved_bytes :: nat
  dsi_metadata_encrypted :: bool
  dsi_hash_verified :: bool

text \<open>The records that refer back, and those of them whose first occurrence is in another file.\<close>

definition duplicate_indexes :: "ChunkRecord list \<Rightarrow> nat list" where
  "duplicate_indexes chunks = filter (\<lambda>i. cr_source (chunks ! i) \<noteq> i) [0..<length chunks]"

definition cross_indexes :: "nat list \<Rightarrow> ChunkRecord list \<Rightarrow> nat list" where
  "cross_indexes owners chunks =
     filter (\<lambda>i. owners ! i \<noteq> owners ! cr_source (chunks ! i)) (duplicate_indexes chunks)"

definition indexed_bytes :: "ChunkRecord list \<Rightarrow> nat list \<Rightarrow> nat" where
  "indexed_bytes chunks indexes = sum_list (map (\<lambda>i. cr_size (chunks ! i)) indexes)"

text \<open>The owner of every record, as the decoder computes it from the manifest.\<close>

fun set_owner :: "nat list \<Rightarrow> nat \<Rightarrow> nat list \<Rightarrow> nat list" where
  "set_owner [] owner owners = owners"
| "set_owner (i # indexes) owner owners = set_owner indexes owner (owners[i := owner])"

fun entry_owners :: "nat \<Rightarrow> ManifestEntry list \<Rightarrow> nat list \<Rightarrow> nat list" where
  "entry_owners entry_index [] owners = owners"
| "entry_owners entry_index (e # es) owners =
     entry_owners (Suc entry_index) es
       (if is_file_entry e then set_owner [first_index e..<first_index e + index_count e] entry_index owners
        else owners)"

definition manifest_owners :: "DedupManifest \<Rightarrow> nat list" where
  "manifest_owners m = entry_owners 0 (dm_entries m) (replicate (length (dm_chunks m)) 0)"

section \<open>Encoding\<close>

definition dedup_ctx :: "bytes \<Rightarrow> bytes \<Rightarrow> Msc3Header \<Rightarrow> frame_ctx" where
  "dedup_ctx key global_header header =
     \<lparr>fc_format = ''MSC3'', fc_key = key, fc_global_header = global_header,
      fc_nonce_prefix = m3_nonce_prefix header, fc_padding_size = m3_padding_size header,
      fc_data_maximum = m3_max_chunk_size header + m3_padding_size header + struct_size DEDUP_DATA_PREFIX + 32\<rparr>"

text \<open>
  The chunks of one file from the position \<open>occurrence\<close> in the table on: each is compared with its
  record, and gets a frame where the record stands for itself.
\<close>

fun dedup_blocks ::
  "crypto \<Rightarrow> clib \<Rightarrow> (nat \<Rightarrow> nat \<Rightarrow> bytes) \<Rightarrow> frame_ctx \<Rightarrow> string \<Rightarrow> ChunkRecord list \<Rightarrow> nat \<Rightarrow> nat \<Rightarrow> bytes list
     \<Rightarrow> (bytes \<times> frame_metrics list) result" where
  "dedup_blocks c l rnd ctx profile records occurrence frame_index [] = Inr ([], [])"
| "dedup_blocks c l rnd ctx profile records occurrence frame_index (chunk # chunks) =
     (if length records \<le> occurrence then Inl (IndexError ''tuple index out of range'')
      else let record = records ! occurrence
      in if length chunk \<noteq> cr_size record \<or> sha256 c chunk \<noteq> cr_digest record
         then Inl (OSError ''input changed while it was encoded'')
         else if cr_source record \<noteq> occurrence
         then dedup_blocks c l rnd ctx profile records (Suc occurrence) frame_index chunks
         else bindR (choose_routed_mode l chunk profile) (\<lambda>selected.
              bindR (struct_pack DEDUP_DATA_PREFIX
                       [VU occurrence, VU (length chunk), VU (mode_code (eb_mode selected))]) (\<lambda>prefix.
              let payload = prefix @ eb_payload selected
              in bindR (emit_frame c rnd ctx frame_index FRAME_DATA payload) (\<lambda>(frame, padded).
                 bindR (dedup_blocks c l rnd ctx profile records (Suc occurrence) (Suc frame_index) chunks)
                   (\<lambda>(out, metrics).
                     Inr (frame @ out,
                          \<lparr>fm_block = chunk, fm_mode = eb_mode selected, fm_payload = length payload,
                           fm_padded = padded\<rparr> # metrics))))))"

text \<open>The second pass over the source; the last component is the final position in the table.\<close>

fun dedup_entries ::
  "crypto \<Rightarrow> clib \<Rightarrow> (nat \<Rightarrow> nat \<Rightarrow> bytes) \<Rightarrow> frame_ctx \<Rightarrow> string \<Rightarrow> ChunkingConfig \<Rightarrow> source_view \<Rightarrow> ChunkRecord list
     \<Rightarrow> nat \<Rightarrow> nat \<Rightarrow> ManifestEntry list \<Rightarrow> (bytes \<times> frame_metrics list \<times> nat) result" where
  "dedup_entries c l rnd ctx profile config view records occurrence frame_index [] = Inr ([], [], occurrence)"
| "dedup_entries c l rnd ctx profile config view records occurrence frame_index (e # es) =
     (if \<not> is_file_entry e
      then dedup_entries c l rnd ctx profile config view records occurrence frame_index es
      else bindR (session_path view (session_key view e)) (\<lambda>_.
           bindR (session_open view 1 (session_key view e)) (\<lambda>data.
           bindR (iter_content_defined_chunks c config data) (\<lambda>chunks.
           bindR (dedup_blocks c l rnd ctx profile records occurrence frame_index chunks) (\<lambda>(out, metrics).
             if sha256 c data \<noteq> digest e
             then Inl (OSError ''input changed while it was encoded'')
             else bindR (dedup_entries c l rnd ctx profile config view records
                           (occurrence + length chunks) (frame_index + length metrics) es)
               (\<lambda>(out', metrics', final). Inr (out @ out', metrics @ metrics', final)))))))"

record dedup_job =
  dj_view :: source_view
  dj_manifest :: DedupManifest
  dj_owners :: "nat list"
  dj_header :: Msc3Header
  dj_global_header :: bytes
  dj_key :: bytes
  dj_payload :: bytes

text \<open>Everything before the temporary file is created.\<close>

definition prepare_dedup ::
  "crypto \<Rightarrow> unicode \<Rightarrow> os_choice \<Rightarrow> filesystem \<Rightarrow> pystr \<Rightarrow> bool \<Rightarrow> source_view result \<Rightarrow> pystr \<Rightarrow> password
     \<Rightarrow> ChunkingConfig \<Rightarrow> int \<Rightarrow> int \<Rightarrow> string \<Rightarrow> dedup_job result" where
  "prepare_dedup c u os fs source is_dir session destination password config padding_size kdf_log_n profile =
     bindR (check_output_path fs source is_dir destination) (\<lambda>_.
       if \<not> (256 \<le> padding_size \<and> padding_size \<le> 16 * 1024 * 1024) \<or> \<not> (14 \<le> kdf_log_n \<and> kdf_log_n \<le> 18)
       then Inl (ValueError ''padding or scrypt cost is outside supported limits'')
       else if profile \<notin> {''fast'', ''balanced'', ''research''}
       then Inl (ValueError ''unknown compression profile'')
       else bindR session (\<lambda>view.
       bindR (check_session_output fs source is_dir destination view) (\<lambda>_.
       bindR (scan_manifest c u view config) (\<lambda>(manifest, scan).
         let unique = length (canonical_indexes (dm_chunks manifest))
         in if unique + 1 > 16777216
            then Inl (ValueError ''input produces too many unique MSC3 chunks'')
            else let salt = oc_random os 0 SALT_LENGTH;
                     nonce_prefix = oc_random os 1 4;
                     header = \<lparr>m3_version = MSC6_VERSION, m3_flags = MSC3_FLAGS, m3_kdf_id = KDF_SCRYPT,
                       m3_aead_id = AEAD_CHACHA20_POLY1305, m3_min_chunk_size = cc_min_size config,
                       m3_avg_chunk_size = cc_avg_size config, m3_max_chunk_size = cc_max_size config,
                       m3_padding_size = nat padding_size, m3_salt = salt, m3_nonce_prefix = nonce_prefix,
                       m3_kdf_log_n = nat kdf_log_n, m3_kdf_r = 8, m3_kdf_p = 1, m3_frame_count = unique + 1\<rparr>
            in bindR (pack_msc3_header header) (\<lambda>global_header.
               bindR (derive_key c password salt (nat kdf_log_n) 8 1) (\<lambda>key.
               bindR (serialize_dedup_manifest manifest) (\<lambda>payload.
                 if int (length payload) > int MAX_MANIFEST_CIPHERTEXT - padding_size - int AEAD_TAG_LENGTH
                 then Inl (ValueError ''MSC3 manifest exceeds its resource limit'')
                 else Inr \<lparr>dj_view = view, dj_manifest = manifest, dj_owners = cs_owners scan,
                   dj_header = header, dj_global_header = global_header, dj_key = key,
                   dj_payload = payload\<rparr>)))))))"

definition dedup_body ::
  "crypto \<Rightarrow> clib \<Rightarrow> os_choice \<Rightarrow> ChunkingConfig \<Rightarrow> string \<Rightarrow> dedup_job \<Rightarrow> (bytes \<times> nat \<times> frame_metrics list) result" where
  "dedup_body c l os config profile job =
     (let ctx = dedup_ctx (dj_key job) (dj_global_header job) (dj_header job);
          manifest = dj_manifest job
      in bindR (emit_frame c (oc_random os) ctx 0 FRAME_MANIFEST (dj_payload job)) (\<lambda>(frame, padded).
         bindR (dedup_entries c l (oc_random os) ctx profile config (dj_view job) (dm_chunks manifest)
                  0 1 (dm_entries manifest)) (\<lambda>(out, metrics, occurrence).
           if occurrence \<noteq> length (dm_chunks manifest) \<or> 1 + length metrics \<noteq> m3_frame_count (dj_header job)
           then Inl (RuntimeError ''internal MSC3 occurrence/frame mismatch'')
           else Inr (dj_global_header job @ frame @ out, padded, metrics))))"

definition dedup_encode_stats ::
  "clib \<Rightarrow> dedup_job \<Rightarrow> bytes \<Rightarrow> nat \<Rightarrow> frame_metrics list \<Rightarrow> DedupEncodeStats" where
  "dedup_encode_stats l job archive padded metrics =
     (let manifest = dj_manifest job;
          entries = dm_entries manifest;
          chunks = dm_chunks manifest;
          unique = length (canonical_indexes chunks);
          duplicates = duplicate_indexes chunks;
          cross = cross_indexes (dj_owners job) chunks;
          payloads = length (dj_payload job) # map fm_payload metrics;
          paddeds = padded # map fm_padded metrics
      in \<lparr>dse_format_version = MSC6_VERSION, dse_archive_kind = kind_name (dm_kind manifest),
          dse_original_size = total_size entries, dse_compressed_size = sum_list payloads,
          dse_padded_plaintext_size = sum_list paddeds, dse_archive_size = length archive,
          dse_padding_overhead = sum_list (map2 (\<lambda>n m. int n - 8 - int m) paddeds payloads),
          dse_block_count = unique, dse_file_count = length (filter is_file_entry entries),
          dse_directory_count = length (filter is_directory_entry entries),
          dse_mode_distribution = mode_distribution (map fm_mode metrics),
          dse_duplicate_blocks = length duplicates,
          dse_average_features = average_features (map (\<lambda>m. analyze_block (cl_log2 l) (fm_block m)) metrics),
          dse_logical_chunk_count = length chunks, dse_unique_chunk_count = unique,
          dse_duplicate_chunk_count = length duplicates, dse_cross_file_duplicate_chunks = length cross,
          dse_dedup_saved_bytes = indexed_bytes chunks duplicates,
          dse_cross_file_dedup_saved_bytes = indexed_bytes chunks cross\<rparr>)"

text \<open>What is written to a temporary file that an error removes again is not kept.\<close>

definition encode_dedup_archive ::
  "crypto \<Rightarrow> clib \<Rightarrow> unicode \<Rightarrow> os_choice \<Rightarrow> filesystem \<Rightarrow> pystr \<Rightarrow> bool \<Rightarrow> source_view result \<Rightarrow> pystr
     \<Rightarrow> password \<Rightarrow> ChunkingConfig \<Rightarrow> int \<Rightarrow> int \<Rightarrow> string \<Rightarrow> DedupEncodeStats result \<times> filesystem" where
  "encode_dedup_archive c l u os fs source is_dir session destination password config padding_size kdf_log_n profile =
     (case prepare_dedup c u os fs source is_dir session destination password config padding_size kdf_log_n profile of
        Inl e \<Rightarrow> (Inl e, fs)
      | Inr job \<Rightarrow>
          publish fs os destination
            (case dedup_body c l os config profile job of
               Inl e \<Rightarrow> ([], Inl e)
             | Inr (archive, padded, metrics) \<Rightarrow>
                 (archive, Inr (dedup_encode_stats l job archive padded metrics)))
            (\<lambda>_. sv_verify (dj_view job)))"

section \<open>Decoding\<close>

text \<open>The records that a later one refers to, whose chunks the decoder has to keep.\<close>

definition referenced :: "ChunkRecord list \<Rightarrow> nat set" where
  "referenced chunks = set (map (\<lambda>i. cr_source (chunks ! i)) (duplicate_indexes chunks))"

text \<open>The cache directory: one file per kept chunk.\<close>

type_synonym chunk_cache = "nat \<rightharpoonup> bytes"

definition read_data_frame ::
  "crypto \<Rightarrow> clib \<Rightarrow> frame_ctx \<Rightarrow> ChunkRecord \<Rightarrow> nat \<Rightarrow> nat \<Rightarrow> bytes \<Rightarrow> (frame_metrics \<times> bytes) result" where
  "read_data_frame c l ctx record occurrence frame_index stream =
     bindR (read_frame c ctx stream frame_index FRAME_DATA) (\<lambda>((payload, padded), stream).
       if length payload < struct_size DEDUP_DATA_PREFIX
       then Inl (ArchiveFormatError ''MSC3 data frame is truncated'')
       else bindR (struct_unpack_from DEDUP_DATA_PREFIX payload 0) (\<lambda>vs.
         if uval (vs ! 0) \<noteq> occurrence \<or> uval (vs ! 1) \<noteq> cr_size record
         then Inl (ArchiveFormatError ''MSC3 data frame metadata is inconsistent'')
         else bindR (get_mode (uval (vs ! 2))) (\<lambda>mode.
           bindR (mode_decode l mode (drop (struct_size DEDUP_DATA_PREFIX) payload) (uval (vs ! 1))) (\<lambda>chunk.
             if sha256 c chunk \<noteq> cr_digest record
             then Inl (IntegrityError ''MSC3 unique chunk digest failed'')
             else Inr (\<lparr>fm_block = chunk, fm_mode = mode, fm_payload = length payload, fm_padded = padded\<rparr>,
                       stream)))))"

text \<open>The chunks of one file: its contents, the metrics of its frames, the cache and the unread stream.\<close>

fun read_file_chunks ::
  "crypto \<Rightarrow> clib \<Rightarrow> frame_ctx \<Rightarrow> ChunkRecord list \<Rightarrow> nat \<Rightarrow> nat \<Rightarrow> nat \<Rightarrow> chunk_cache \<Rightarrow> bytes
     \<Rightarrow> (bytes \<times> frame_metrics list \<times> chunk_cache \<times> bytes) result" where
  "read_file_chunks c l ctx records occurrence 0 frame_index cache stream = Inr ([], [], cache, stream)"
| "read_file_chunks c l ctx records occurrence (Suc n) frame_index cache stream =
     (if length records \<le> occurrence then Inl (IndexError ''tuple index out of range'')
      else let record = records ! occurrence
      in if cr_source record = occurrence
         then bindR (read_data_frame c l ctx record occurrence frame_index stream) (\<lambda>(m, stream).
              let cache = (if occurrence \<in> referenced records then cache(occurrence \<mapsto> fm_block m) else cache)
              in bindR (read_file_chunks c l ctx records (Suc occurrence) n (Suc frame_index) cache stream)
                (\<lambda>(content, metrics, cache, stream). Inr (fm_block m @ content, m # metrics, cache, stream)))
         else case cache (cr_source record) of
                None \<Rightarrow> Inl (FileNotFoundError ''No such file or directory'')
              | Some chunk \<Rightarrow>
                  bindR (read_file_chunks c l ctx records (Suc occurrence) n frame_index cache stream)
                    (\<lambda>(content, metrics, cache, stream). Inr (chunk @ content, metrics, cache, stream)))"

fun restore_dedup_entries ::
  "crypto \<Rightarrow> clib \<Rightarrow> frame_ctx \<Rightarrow> nat \<Rightarrow> ChunkRecord list \<Rightarrow> nat \<Rightarrow> chunk_cache \<Rightarrow> ManifestEntry list
     \<Rightarrow> tree option \<Rightarrow> bytes \<Rightarrow> (tree option \<times> frame_metrics list \<times> bytes) result" where
  "restore_dedup_entries c l ctx kind records frame_index cache [] out stream = Inr (out, [], stream)"
| "restore_dedup_entries c l ctx kind records frame_index cache (e # es) out stream =
     (if is_directory_entry e
      then bindR (start_directory kind e out) (\<lambda>out.
        restore_dedup_entries c l ctx kind records frame_index cache es out stream)
      else bindR (start_file kind e out) (\<lambda>out.
        bindR (read_file_chunks c l ctx records (first_index e) (index_count e) frame_index cache stream)
          (\<lambda>(content, metrics, cache, stream).
            if sha256 c content \<noteq> digest e then Inl (IntegrityError ''MSC3 file digest failed'')
            else bindR (finish_file kind e content out) (\<lambda>out.
              bindR (restore_dedup_entries c l ctx kind records (frame_index + length metrics) cache es out stream)
                (\<lambda>(out, metrics', stream). Inr (out, metrics @ metrics', stream))))))"

record dedup_archive =
  da_header :: Msc3Header
  da_ctx :: frame_ctx
  da_manifest :: DedupManifest
  da_manifest_payload :: nat
  da_manifest_padded :: nat
  da_stream :: bytes
  da_size :: nat
  da_identity :: stat_result

definition open_dedup_bytes ::
  "crypto \<Rightarrow> unicode \<Rightarrow> regular_file \<Rightarrow> password \<Rightarrow> int \<Rightarrow> int \<Rightarrow> dedup_archive result" where
  "open_dedup_bytes c u archive password max_output_size max_frame_count =
     bindR (msc3_read (fl_bytes archive) (struct_size MSC3_HEADER)) (\<lambda>(global_header, stream).
     bindR (parse_msc3_header global_header) (\<lambda>header.
       if int (m3_frame_count header) - 1 > max_frame_count
       then Inl (ArchiveFormatError ''MSC3 frame count exceeds the decode limit'')
       else bindR (derive_key c password (m3_salt header) (m3_kdf_log_n header) 8 1) (\<lambda>key.
         let ctx = dedup_ctx key global_header header
         in bindR (read_frame c ctx stream 0 FRAME_MANIFEST) (\<lambda>((payload, padded), stream).
            bindR (parse_dedup_manifest u payload header) (\<lambda>manifest.
              if int (total_size (dm_entries manifest)) > max_output_size
              then Inl (ArchiveFormatError ''MSC3 restored size exceeds the decode limit'')
              else Inr \<lparr>da_header = header, da_ctx = ctx, da_manifest = manifest,
                da_manifest_payload = length payload, da_manifest_padded = padded, da_stream = stream,
                da_size = length (fl_bytes archive), da_identity = fl_id archive\<rparr>)))))"

definition open_dedup ::
  "crypto \<Rightarrow> unicode \<Rightarrow> filesystem \<Rightarrow> pystr \<Rightarrow> password \<Rightarrow> pystr option \<Rightarrow> int \<Rightarrow> int \<Rightarrow> dedup_archive result" where
  "open_dedup c u fs archive_path password destination max_output_size max_frame_count =
     bindR (validate_decode_limits max_output_size max_frame_count DEFAULT_MAX_LEGACY_ARCHIVE_SIZE) (\<lambda>_.
       case fs_files fs archive_path of
         None \<Rightarrow> Inl (FileNotFoundError ''No such file or directory'')
       | Some archive \<Rightarrow>
           if (case destination of None \<Rightarrow> False
               | Some d \<Rightarrow> path_matches_file_identity (fs_stat fs d) (fl_id archive))
           then Inl (ValueError ''archive and output paths must be different'')
           else open_dedup_bytes c u archive password max_output_size max_frame_count)"

definition dedup_decode_stats :: "dedup_archive \<Rightarrow> frame_metrics list \<Rightarrow> DedupDecodeStats" where
  "dedup_decode_stats a metrics =
     (let manifest = da_manifest a;
          entries = dm_entries manifest;
          chunks = dm_chunks manifest;
          unique = m3_frame_count (da_header a) - 1;
          cross = cross_indexes (manifest_owners manifest) chunks
      in \<lparr>dsd_format_version = m3_version (da_header a), dsd_archive_kind = kind_name (dm_kind manifest),
          dsd_original_size = total_size entries, dsd_block_count = unique,
          dsd_file_count = length (filter is_file_entry entries),
          dsd_directory_count = length (filter is_directory_entry entries),
          dsd_mode_distribution = mode_distribution (map fm_mode metrics),
          dsd_logical_chunk_count = length chunks, dsd_unique_chunk_count = unique,
          dsd_duplicate_chunk_count = int (length chunks) - int unique,
          dsd_dedup_saved_bytes = indexed_bytes chunks (duplicate_indexes chunks),
          dsd_cross_file_duplicate_chunks = length cross,
          dsd_cross_file_dedup_saved_bytes = indexed_bytes chunks cross, dsd_hash_verified = True\<rparr>)"

definition dedup_archive_info :: "dedup_archive \<Rightarrow> frame_metrics list \<Rightarrow> DedupArchiveInfo" where
  "dedup_archive_info a metrics =
     (let header = da_header a;
          manifest = da_manifest a;
          entries = dm_entries manifest;
          chunks = dm_chunks manifest;
          unique = m3_frame_count header - 1;
          cross = cross_indexes (manifest_owners manifest) chunks;
          compressed = da_manifest_payload a + sum_list (map fm_payload metrics);
          padded = da_manifest_padded a + sum_list (map fm_padded metrics)
      in \<lparr>dsi_format_version = m3_version header, dsi_archive_kind = kind_name (dm_kind manifest),
          dsi_root_name = dm_root_name manifest, dsi_original_size = total_size entries,
          dsi_compressed_size = compressed, dsi_padded_plaintext_size = padded, dsi_archive_size = da_size a,
          dsi_padding_overhead = int padded - 8 * int (m3_frame_count header) - int compressed,
          dsi_chunk_size = m3_avg_chunk_size header, dsi_min_chunk_size = m3_min_chunk_size header,
          dsi_max_chunk_size = m3_max_chunk_size header, dsi_block_count = unique,
          dsi_file_count = length (filter is_file_entry entries),
          dsi_directory_count = length (filter is_directory_entry entries),
          dsi_mode_distribution = mode_distribution (map fm_mode metrics),
          dsi_logical_chunk_count = length chunks, dsi_unique_chunk_count = unique,
          dsi_duplicate_chunk_count = int (length chunks) - int unique,
          dsi_dedup_saved_bytes = indexed_bytes chunks (duplicate_indexes chunks),
          dsi_cross_file_duplicate_chunks = length cross,
          dsi_cross_file_dedup_saved_bytes = indexed_bytes chunks cross,
          dsi_metadata_encrypted = True, dsi_hash_verified = True\<rparr>)"

definition restore_dedup ::
  "crypto \<Rightarrow> clib \<Rightarrow> dedup_archive \<Rightarrow> tree option
     \<Rightarrow> (tree option \<times> DedupDecodeStats \<times> DedupArchiveInfo) result" where
  "restore_dedup c l a out =
     (let manifest = da_manifest a
      in bindR (restore_dedup_entries c l (da_ctx a) (dm_kind manifest) (dm_chunks manifest) 1 (\<lambda>_. None)
                  (dm_entries manifest) out (da_stream a)) (\<lambda>(out, metrics, stream).
         if 1 + length metrics \<noteq> m3_frame_count (da_header a) \<or> stream \<noteq> []
         then Inl (ArchiveFormatError ''MSC3 frame count or archive termination is invalid'')
         else bindR (finish_output (dm_kind manifest) (dm_entries manifest) out) (\<lambda>out.
           Inr (out, dedup_decode_stats a metrics, dedup_archive_info a metrics))))"

definition decode_dedup ::
  "crypto \<Rightarrow> clib \<Rightarrow> unicode \<Rightarrow> os_choice \<Rightarrow> filesystem \<Rightarrow> pystr \<Rightarrow> password \<Rightarrow> pystr option \<Rightarrow> int \<Rightarrow> int
     \<Rightarrow> (DedupDecodeStats \<times> DedupArchiveInfo) result \<times> filesystem" where
  "decode_dedup c l u os fs archive_path password destination max_output_size max_frame_count =
     (case open_dedup c u fs archive_path password destination max_output_size max_frame_count of
        Inl e \<Rightarrow> (Inl e, fs)
      | Inr a \<Rightarrow>
          (case destination of
             None \<Rightarrow> (bindR (restore_dedup c l a None) (\<lambda>(_, stats). Inr stats), fs)
           | Some d \<Rightarrow>
               publish_output fs os d (dm_kind (da_manifest a))
                 (\<lambda>t. bindR (restore_dedup c l a (Some t)) (\<lambda>(out, stats).
                    Inr (case out of None \<Rightarrow> t | Some t \<Rightarrow> t, stats)))
                 (\<lambda>fs. if path_matches_file_identity (fs_stat fs d) (da_identity a)
                       then Inl (ValueError ''archive and output paths must be different'') else Inr ())))"

definition decode_dedup_archive ::
  "crypto \<Rightarrow> clib \<Rightarrow> unicode \<Rightarrow> os_choice \<Rightarrow> filesystem \<Rightarrow> pystr \<Rightarrow> pystr \<Rightarrow> password \<Rightarrow> int \<Rightarrow> int
     \<Rightarrow> DedupDecodeStats result \<times> filesystem" where
  "decode_dedup_archive c l u os fs archive_path output_path password max_output_size max_frame_count =
     (let (outcome, fs') = decode_dedup c l u os fs archive_path password (Some output_path)
                             max_output_size max_frame_count
      in (bindR outcome (\<lambda>(stats, _). Inr stats), fs'))"

definition inspect_dedup_archive ::
  "crypto \<Rightarrow> clib \<Rightarrow> unicode \<Rightarrow> os_choice \<Rightarrow> filesystem \<Rightarrow> pystr \<Rightarrow> password \<Rightarrow> int \<Rightarrow> int
     \<Rightarrow> DedupArchiveInfo result" where
  "inspect_dedup_archive c l u os fs archive_path password max_output_size max_frame_count =
     bindR (fst (decode_dedup c l u os fs archive_path password None max_output_size max_frame_count))
       (\<lambda>(_, info). Inr info)"

section \<open>One data frame\<close>

definition dedup_layer :: "crypto \<Rightarrow> (nat \<Rightarrow> nat \<Rightarrow> bytes) \<Rightarrow> frame_ctx \<Rightarrow> nat \<Rightarrow> bool" where
  "dedup_layer c rnd ctx max_size \<longleftrightarrow>
     aead_law c \<and> (\<forall>k. random_law (rnd k)) \<and> valid_ctx ctx
     \<and> fc_data_maximum ctx = max_size + fc_padding_size ctx + 13 + 32"

lemma dedup_frame_fits:
  assumes "dedup_layer c rnd ctx max_size" and "i < 2 ^ 64" and "length payload \<le> 13 + max_size"
  shows "layer_fits c rnd ctx i FRAME_DATA payload"
proof -
  have "padded_length (8 + length payload) (fc_padding_size ctx) < 8 + length payload + fc_padding_size ctx"
    using assms(1) by (intro padded_length_lt) (auto simp: dedup_layer_def valid_ctx_def)
  then show ?thesis
    using assms by (simp add: layer_fits_def dedup_layer_def frame_fits_def frame_maximum_def)
qed

lemma dedup_prefix_read:
  assumes "struct_pack DEDUP_DATA_PREFIX [VU a, VU b, VU m] = Inr p"
  shows "struct_unpack_from DEDUP_DATA_PREFIX (p @ r) 0 = Inr [VU a, VU b, VU m] \<and> length p = 13"
proof -
  have "list_all2 field_exact DEDUP_DATA_PREFIX [VU a, VU b, VU m]"
    using assms by (auto simp: struct_pack_def split: if_splits)
  from struct_unpack_from_pack[OF this assms, of "[]" 0 r] struct_pack_length[OF assms] show ?thesis
    by (simp add: struct_size_def)
qed

lemma read_written_chunk:
  assumes sel: "choose_routed_mode l chunk profile = Inr sel" and ok: "block_ok l chunk"
    and p: "struct_pack DEDUP_DATA_PREFIX [VU occurrence, VU (length chunk), VU (mode_code (eb_mode sel))] = Inr p"
    and frame: "emit_frame c rnd ctx i FRAME_DATA (p @ eb_payload sel) = Inr (frame, padded)"
    and layer: "dedup_layer c rnd ctx max_size" and i: "i < 2 ^ 64" and short: "length chunk \<le> max_size"
    and r: "cr_size r = length chunk" "cr_digest r = sha256 c chunk"
  shows "read_data_frame c l ctx r occurrence i (frame @ rest)
    = Inr (\<lparr>fm_block = chunk, fm_mode = eb_mode sel, fm_payload = length (p @ eb_payload sel), fm_padded = padded\<rparr>, rest)"
proof -
  note pr = dedup_prefix_read[OF p]
  have small: "length (eb_payload sel) \<le> length chunk" using choose_routed_Inr[OF sel] by blast
  have dec: "mode_decode l (eb_mode sel) (eb_payload sel) (length chunk) = Inr chunk"
    by (rule choose_routed_decodes[OF sel ok])
  have "layer_fits c rnd ctx i FRAME_DATA (p @ eb_payload sel)"
    using pr small short by (intro dedup_frame_fits[OF layer i]) simp
  from sealed.accept_emit[OF this frame, of rest]
  have "read_frame c ctx (frame @ rest) i FRAME_DATA = Inr ((p @ eb_payload sel, padded), rest)" .
  then show ?thesis using pr dec r by (simp add: read_data_frame_def struct_size_def Let_def)
qed

section \<open>The chunks of one file\<close>

text \<open>
  What the decoder's cache holds behind the chunks \<open>before\<close>: they agree with their records, and those
  that are referred to are kept.
\<close>

definition replayed :: "crypto \<Rightarrow> ChunkRecord list \<Rightarrow> bytes list \<Rightarrow> chunk_cache \<Rightarrow> bool" where
  "replayed c records before cache \<longleftrightarrow>
     length before \<le> length records
     \<and> (\<forall>j<length before. cr_size (records ! j) = length (before ! j) \<and> cr_digest (records ! j) = sha256 c (before ! j)
          \<and> (j \<in> referenced records \<and> cr_source (records ! j) = j \<longrightarrow> cache j = Some (before ! j)))"

lemma replayed_start: "replayed c records [] (\<lambda>_. None)"
  by (simp add: replayed_def)

lemma replayed_length: "replayed c records before cache \<Longrightarrow> length before \<le> length records"
  by (simp add: replayed_def)

lemma replayed_snoc:
  assumes "replayed c records before cache" and "length before < length records"
    and "cr_size (records ! length before) = length b" "cr_digest (records ! length before) = sha256 c b"
    and "\<And>j. j < length before \<Longrightarrow> cache' j = cache j"
    and "length before \<in> referenced records \<and> cr_source (records ! length before) = length before \<Longrightarrow>
      cache' (length before) = Some b"
  shows "replayed c records (before @ [b]) cache'"
  using assms unfolding replayed_def by (auto simp: nth_append less_Suc_eq)

lemma duplicate_source:
  assumes valid: "valid_chunks m records" and j: "j < length records" and dup: "cr_source (records ! j) \<noteq> j"
  shows "cr_source (records ! j) < j \<and> cr_source (records ! j) \<in> referenced records
    \<and> cr_source (records ! cr_source (records ! j)) = cr_source (records ! j)
    \<and> cr_digest (records ! cr_source (records ! j)) = cr_digest (records ! j)
    \<and> cr_size (records ! cr_source (records ! j)) = cr_size (records ! j)"
proof -
  have "valid_chunk m records j" using valid j by (simp add: valid_chunks_def)
  moreover have "cr_source (records ! j) \<in> referenced records"
    using j dup by (auto simp: referenced_def duplicate_indexes_def)
  ultimately show ?thesis using dup by (auto simp: valid_chunk_def Let_def)
qed

text \<open>A chunk that refers back is found in the cache, unless two chunks share a digest.\<close>

lemma cached_chunk:
  assumes "replayed c records before cache" and "valid_chunks m records" and "length before < length records"
    and dup: "cr_source (records ! length before) \<noteq> length before"
    and b: "cr_digest (records ! length before) = sha256 c b"
    and inj: "inj_on (sha256 c) X" "set before \<subseteq> X" "b \<in> X"
  shows "cache (cr_source (records ! length before)) = Some b"
proof -
  let ?s = "cr_source (records ! length before)"
  note d = duplicate_source[OF assms(2,3) dup]
  with assms(1) have "cache ?s = Some (before ! ?s)" and "cr_digest (records ! ?s) = sha256 c (before ! ?s)"
    by (auto simp: replayed_def)
  moreover have "before ! ?s \<in> X" using d inj(2) by auto
  ultimately show ?thesis using d b inj by (auto dest: inj_onD)
qed

lemma dedup_blocks_ConsE:
  assumes "dedup_blocks c l rnd ctx profile records k i (b # bs) = Inr (out, ms)"
  obtains (duplicate) "k < length records" "length b = cr_size (records ! k)" "sha256 c b = cr_digest (records ! k)"
      "cr_source (records ! k) \<noteq> k" "dedup_blocks c l rnd ctx profile records (Suc k) i bs = Inr (out, ms)"
  | (unique) sel p frame padded out' ms' where "k < length records" "length b = cr_size (records ! k)"
      "sha256 c b = cr_digest (records ! k)" "cr_source (records ! k) = k" "choose_routed_mode l b profile = Inr sel"
      "struct_pack DEDUP_DATA_PREFIX [VU k, VU (length b), VU (mode_code (eb_mode sel))] = Inr p"
      "emit_frame c rnd ctx i FRAME_DATA (p @ eb_payload sel) = Inr (frame, padded)"
      "dedup_blocks c l rnd ctx profile records (Suc k) (Suc i) bs = Inr (out', ms')" "out = frame @ out'"
      "ms = \<lparr>fm_block = b, fm_mode = eb_mode sel, fm_payload = length (p @ eb_payload sel), fm_padded = padded\<rparr> # ms'"
proof -
  have k: "k < length records" "length b = cr_size (records ! k)" "sha256 c b = cr_digest (records ! k)"
    using assms by (auto simp: Let_def split: if_split_asm)
  show thesis
  proof (cases "cr_source (records ! k) = k")
    case False
    with assms k show thesis by (intro duplicate) (auto simp: Let_def split: if_split_asm)
  next
    case True
    with assms k obtain sel p frame padded out' ms' where "choose_routed_mode l b profile = Inr sel"
      "struct_pack DEDUP_DATA_PREFIX [VU k, VU (length b), VU (mode_code (eb_mode sel))] = Inr p"
      "emit_frame c rnd ctx i FRAME_DATA (p @ eb_payload sel) = Inr (frame, padded)"
      "dedup_blocks c l rnd ctx profile records (Suc k) (Suc i) bs = Inr (out', ms')" "out = frame @ out'"
      "ms = \<lparr>fm_block = b, fm_mode = eb_mode sel, fm_payload = length (p @ eb_payload sel), fm_padded = padded\<rparr> # ms'"
      by (auto simp: Let_def bindR_eq_Inr split: if_split_asm)
    with k True show thesis by (rule unique)
  qed
qed

lemma read_dedup_blocks:
  assumes "dedup_blocks c l rnd ctx profile records (length before) i bs = Inr (out, ms)"
    and layer: "dedup_layer c rnd ctx m" and valid: "valid_chunks m records"
    and inj: "inj_on (sha256 c) X" and "set before \<subseteq> X" "set bs \<subseteq> X" and "\<forall>b\<in>set bs. block_ok l b"
    and "replayed c records before cache" and "i + length ms \<le> 2 ^ 64"
  shows "\<exists>cache'. read_file_chunks c l ctx records (length before) (length bs) i cache (out @ rest)
      = Inr (concat bs, ms, cache', rest) \<and> replayed c records (before @ bs) cache'"
  using assms(1,5-9)
proof (induction bs arbitrary: before i out ms cache)
  case (Cons b bs)
  let ?k = "length before"
  have X: "set (before @ [b]) \<subseteq> X" "set bs \<subseteq> X" "\<forall>b\<in>set bs. block_ok l b" "block_ok l b" using Cons.prems by auto
  from Cons.prems(1) show ?case
  proof (cases rule: dedup_blocks_ConsE)
    case duplicate
    have cb: "cache (cr_source (records ! ?k)) = Some b"
      using Cons.prems(2,3) duplicate by (intro cached_chunk[OF Cons.prems(5) valid _ _ _ inj]) auto
    have "replayed c records (before @ [b]) cache"
      using duplicate by (intro replayed_snoc[OF Cons.prems(5)]) auto
    from Cons.IH[OF _ X(1-3) this Cons.prems(6)] duplicate(5) obtain cache' where
      "read_file_chunks c l ctx records (Suc ?k) (length bs) i cache (out @ rest) = Inr (concat bs, ms, cache', rest)"
      "replayed c records ((before @ [b]) @ bs) cache'" by auto
    then show ?thesis using duplicate cb by auto
  next
    case (unique sel p frame padded out' ms')
    let ?cache = "if ?k \<in> referenced records then cache(?k \<mapsto> b) else cache"
    have i: "i < 2 ^ 64" using Cons.prems(6) unique by simp
    have "cr_size (records ! ?k) \<le> m" using valid unique(1) by (simp add: valid_chunks_def valid_chunk_def Let_def)
    with unique have "length b \<le> m" by simp
    from read_written_chunk[OF unique(5) X(4) unique(6,7) layer i this unique(2,3)[symmetric], of "out' @ rest"]
    have read: "read_data_frame c l ctx (records ! ?k) ?k i (frame @ out' @ rest)
        = Inr (\<lparr>fm_block = b, fm_mode = eb_mode sel, fm_payload = length (p @ eb_payload sel), fm_padded = padded\<rparr>, out' @ rest)" .
    have "replayed c records (before @ [b]) ?cache"
      using unique by (intro replayed_snoc[OF Cons.prems(5)]) auto
    from Cons.IH[OF _ X(1-3) this, of "Suc i" out' ms'] unique(8) Cons.prems(6) unique(10) obtain cache' where
      "read_file_chunks c l ctx records (Suc ?k) (length bs) (Suc i) ?cache (out' @ rest) = Inr (concat bs, ms', cache', rest)"
      "replayed c records ((before @ [b]) @ bs) cache'" by auto
    then show ?thesis using unique(1,4,9,10) read by (auto simp del: fun_upd_apply)
  qed
qed auto

section \<open>The entry loops\<close>

text \<open>
  Everything that is hashed on the way: the contents of the files in both passes, and the chunks of
  the second. The round trip needs the digest to tell these apart.
\<close>

definition source_strings :: "crypto \<Rightarrow> ChunkingConfig \<Rightarrow> source_view \<Rightarrow> bytes set" where
  "source_strings c config view =
     {data. \<exists>rel. sv_read view 0 rel = Inr data \<or> sv_read view 1 rel = Inr data}
     \<union> {chunk. \<exists>rel data. sv_read view 1 rel = Inr data \<and> chunk \<in> set (content_defined_chunks c config data)}"

lemma session_open_read: "session_open view pass rel = Inr data \<Longrightarrow> sv_read view pass rel = Inr data"
  by (simp add: session_open_def split: if_splits)

lemma dedup_entries_FileE:
  assumes enc: "dedup_entries c l rnd ctx profile config view records k i (e # es) = Inr (out, ms, final)"
    and f: "is_file_entry e" and cfg: "valid_chunking config"
  obtains data out1 ms1 out2 ms2 where "session_open view 1 (session_key view e) = Inr data"
    and "entry_data view 1 e = data" and "entry_chunks c config view 1 e = content_defined_chunks c config data"
    and "dedup_blocks c l rnd ctx profile records k i (content_defined_chunks c config data) = Inr (out1, ms1)"
    and "sha256 c data = digest e" and "out = out1 @ out2" and "ms = ms1 @ ms2"
    and "dedup_entries c l rnd ctx profile config view records (k + length (content_defined_chunks c config data))
      (i + length ms1) es = Inr (out2, ms2, final)"
proof -
  obtain data where data: "session_open view 1 (session_key view e) = Inr data"
    using enc f by (auto simp: bindR_eq_Inr)
  have it: "iter_content_defined_chunks c config data = Inr (content_defined_chunks c config data)"
    by (rule iter_cdc_ref[OF cfg])
  have d: "entry_data view 1 e = data" "entry_chunks c config view 1 e = content_defined_chunks c config data"
    using f data by (simp_all add: entry_data_def entry_chunks_def)
  from enc f data it obtain out1 ms1 out2 ms2 where
    "dedup_blocks c l rnd ctx profile records k i (content_defined_chunks c config data) = Inr (out1, ms1)"
    "sha256 c data = digest e" "out = out1 @ out2" "ms = ms1 @ ms2"
    "dedup_entries c l rnd ctx profile config view records (k + length (content_defined_chunks c config data))
      (i + length ms1) es = Inr (out2, ms2, final)"
    by (auto simp: bindR_eq_Inr split: if_split_asm)
  with data d show thesis by (rule that)
qed

text \<open>Because the digests agree, the second pass found the files and chunks of the first.\<close>

lemma same_contents:
  assumes placed: "placed_from c config view k (e # es) fin" and f: "is_file_entry e"
    and data: "session_open view 1 (session_key view e) = Inr data" "sha256 c data = digest e"
    and inj: "inj_on (sha256 c) (source_strings c config view)"
  shows "entry_data view 0 e = data \<and> index_count e = length (content_defined_chunks c config data) \<and> first_index e = k
    \<and> length (entry_chunks c config view 0 e) = length (content_defined_chunks c config data)"
proof -
  from placed f obtain data0 where d0: "session_open view 0 (session_key view e) = Inr data0"
    and p: "digest e = sha256 c (entry_data view 0 e)" "first_index e = k"
      "index_count e = length (entry_chunks c config view 0 e)"
    by (auto simp: entry_kind_exclusive)
  have e0: "entry_data view 0 e = data0" using d0 f by (simp add: entry_data_def)
  have "data0 \<in> source_strings c config view" "data \<in> source_strings c config view"
    using session_open_read[OF d0] session_open_read[OF data(1)] by (auto simp: source_strings_def)
  with inj data(2) p(1) e0 have "data0 = data" by (auto dest: inj_onD)
  then show ?thesis using p e0 by (simp add: entry_chunks_def)
qed

lemma restore_dedup_run:
  assumes "dedup_entries c l rnd ctx profile config view records (length before) i es = Inr (out, ms, final)"
    and "placed_from c config view (length before) es fin" and "set before \<subseteq> source_strings c config view"
    and "replayed c records before cache" and "i + length ms \<le> 2 ^ 64"
    and "\<forall>e\<in>set es. is_directory_entry e = (\<not> is_file_entry e)"
    and "\<forall>e\<in>set es. \<forall>b\<in>set (entry_chunks c config view 1 e). block_ok l b"
    and layer: "dedup_layer c rnd ctx m" and valid: "valid_chunks m records" and cfg: "valid_chunking config"
    and inj: "inj_on (sha256 c) (source_strings c config view)"
  shows "restore_items kind (map (\<lambda>e. (e, entry_data view 1 e)) es) t = Inr t' \<Longrightarrow>
    restore_dedup_entries c l ctx kind records i cache es t (out @ rest) = Inr (t', ms, rest)"
  using assms(1-7)
proof (induction es arbitrary: before i out ms cache t)
  case (Cons e es)
  show ?case
  proof (cases "is_file_entry e")
    case False
    then have d: "is_directory_entry e" using Cons.prems(7) by simp
    have "entry_chunks c config view 0 e = []" using False by (rule entry_chunks_no_file)
    then have placed: "placed_from c config view (length before) es fin" using Cons.prems(3) by simp
    have enc: "dedup_entries c l rnd ctx profile config view records (length before) i es = Inr (out, ms, final)"
      using Cons.prems(2) False by simp
    obtain t1 where "start_directory kind e t = Inr t1"
      "restore_items kind (map (\<lambda>e. (e, entry_data view 1 e)) es) t1 = Inr t'"
      using Cons.prems(1) d by (auto simp: bindR_eq_Inr)
    with Cons.IH[OF _ enc placed Cons.prems(4-6), of t1] Cons.prems(7,8) d show ?thesis by simp
  next
    case True
    then have nd: "\<not> is_directory_entry e" using Cons.prems(7) by simp
    from dedup_entries_FileE[OF Cons.prems(2) True cfg] obtain data out1 ms1 out2 ms2 where
      data: "session_open view 1 (session_key view e) = Inr data" "entry_data view 1 e = data"
        "entry_chunks c config view 1 e = content_defined_chunks c config data"
      and bl: "dedup_blocks c l rnd ctx profile records (length before) i (content_defined_chunks c config data) = Inr (out1, ms1)"
      and hash: "sha256 c data = digest e" and out: "out = out1 @ out2" "ms = ms1 @ ms2"
      and enc: "dedup_entries c l rnd ctx profile config view records (length before + length (content_defined_chunks c config data))
        (i + length ms1) es = Inr (out2, ms2, final)" by metis
    let ?cs = "content_defined_chunks c config data"
    note same = same_contents[OF Cons.prems(3) True data(1) hash inj]
    have sub: "set ?cs \<subseteq> source_strings c config view"
      using session_open_read[OF data(1)] by (auto simp: source_strings_def)
    have ok: "\<forall>b\<in>set ?cs. block_ok l b" using Cons.prems(8) data(3) by simp
    from read_dedup_blocks[OF bl layer valid inj Cons.prems(4) sub ok Cons.prems(5), of "out2 @ rest"] Cons.prems(6) out(2)
    obtain cache' where rd: "read_file_chunks c l ctx records (length before) (length ?cs) i cache (out1 @ out2 @ rest)
        = Inr (data, ms1, cache', out2 @ rest)" and rep: "replayed c records (before @ ?cs) cache'"
      by (auto simp: chunks_concat)
    obtain t1 t2 where t: "start_file kind e t = Inr t1" "finish_file kind e data t1 = Inr t2"
      "restore_items kind (map (\<lambda>e. (e, entry_data view 1 e)) es) t2 = Inr t'"
      using Cons.prems(1) nd data(2) by (auto simp: bindR_eq_Inr)
    have placed: "placed_from c config view (length (before @ ?cs)) es fin" using Cons.prems(3) same by simp
    have X: "set (before @ ?cs) \<subseteq> source_strings c config view" using sub Cons.prems(4) by simp
    from Cons.IH[OF t(3) _ placed X rep, of "i + length ms1" out2 ms2] enc Cons.prems(6-8) out(2)
    have "restore_dedup_entries c l ctx kind records (i + length ms1) cache' es t2 (out2 @ rest) = Inr (t', ms2, rest)"
      by simp
    with t rd nd same hash show ?thesis by (simp add: out)
  qed
qed simp

section \<open>Opening what an encode wrote\<close>

definition dedup_job_ok ::
  "crypto \<Rightarrow> unicode \<Rightarrow> password \<Rightarrow> source_view \<Rightarrow> ChunkingConfig \<Rightarrow> dedup_job \<Rightarrow> bool" where
  "dedup_job_ok c u password view config job \<longleftrightarrow>
     dj_view job = view
     \<and> (\<exists>s. scan_manifest c u view config = Inr (dj_manifest job, s) \<and> dj_owners job = cs_owners s)
     \<and> valid_msc3_header (dj_header job) \<and> pack_msc3_header (dj_header job) = Inr (dj_global_header job)
     \<and> m3_frame_count (dj_header job) = 1 + length (canonical_indexes (dm_chunks (dj_manifest job)))
     \<and> m3_max_chunk_size (dj_header job) = cc_max_size config \<and> m3_version (dj_header job) = MSC6_VERSION
     \<and> derive_key c password (m3_salt (dj_header job)) (m3_kdf_log_n (dj_header job)) 8 1 = Inr (dj_key job)
     \<and> serialize_dedup_manifest (dj_manifest job) = Inr (dj_payload job)
     \<and> length (dj_payload job) + m3_padding_size (dj_header job) + 16 \<le> MAX_MANIFEST_CIPHERTEXT"

definition dedup_header :: "os_choice \<Rightarrow> ChunkingConfig \<Rightarrow> int \<Rightarrow> int \<Rightarrow> nat \<Rightarrow> Msc3Header" where
  "dedup_header os config padding log_n unique =
     \<lparr>m3_version = MSC6_VERSION, m3_flags = MSC3_FLAGS, m3_kdf_id = KDF_SCRYPT,
      m3_aead_id = AEAD_CHACHA20_POLY1305, m3_min_chunk_size = cc_min_size config,
      m3_avg_chunk_size = cc_avg_size config, m3_max_chunk_size = cc_max_size config,
      m3_padding_size = nat padding, m3_salt = oc_random os 0 SALT_LENGTH, m3_nonce_prefix = oc_random os 1 4,
      m3_kdf_log_n = nat log_n, m3_kdf_r = 8, m3_kdf_p = 1, m3_frame_count = unique + 1\<rparr>"

lemma dedup_header_valid:
  assumes "valid_chunking config" and "256 \<le> padding" "padding \<le> 16777216" "14 \<le> log_n" "log_n \<le> 18"
    and "unique + 1 \<le> 16777216" and "\<forall>k. random_law (oc_random os k)"
  shows "valid_msc3_header (dedup_header os config padding log_n unique)"
proof -
  have "length (oc_random os k q) = q" for k q using assms(7) by (simp add: random_law_def)
  with assms show ?thesis
    by (simp add: valid_msc3_header_def dedup_header_def valid_chunking_def nat_le_iff le_nat_iff)
qed

lemma prepare_dedup_Inr:
  assumes prep: "prepare_dedup c u os fs source is_dir (Inr view) dst password config padding log_n profile = Inr job"
    and rnd: "\<forall>k. random_law (oc_random os k)" and cfg: "valid_chunking config"
  shows "dedup_job_ok c u password view config job \<and> m3_padding_size (dj_header job) = nat padding
    \<and> 256 \<le> padding"
proof -
  have o: "256 \<le> padding" "padding \<le> 16777216" "14 \<le> log_n" "log_n \<le> 18" "profile \<in> {''fast'', ''balanced'', ''research''}"
    using prep by (auto simp: prepare_dedup_def bindR_eq_Inr split: if_split_asm)
  obtain m s where m: "scan_manifest c u view config = Inr (m, s)"
    using prep by (auto simp: prepare_dedup_def bindR_eq_Inr split: if_split_asm)
  let ?n = "length (canonical_indexes (dm_chunks m))"
  have few: "?n + 1 \<le> 16777216"
    using prep m by (auto simp: prepare_dedup_def bindR_eq_Inr Let_def split: if_split_asm)
  define h where "h = dedup_header os config padding log_n ?n"
  obtain gh key payload where gh: "pack_msc3_header h = Inr gh"
    and key: "derive_key c password (oc_random os 0 SALT_LENGTH) (nat log_n) 8 1 = Inr key"
    and payload: "serialize_dedup_manifest m = Inr payload"
    and small: "int (length payload) \<le> int MAX_MANIFEST_CIPHERTEXT - padding - int AEAD_TAG_LENGTH"
    and job: "job = \<lparr>dj_view = view, dj_manifest = m, dj_owners = cs_owners s, dj_header = h, dj_global_header = gh,
        dj_key = key, dj_payload = payload\<rparr>"
    using prep m few unfolding h_def dedup_header_def
    by (auto simp: prepare_dedup_def bindR_eq_Inr Let_def split: if_split_asm)
  have valid: "valid_msc3_header h" unfolding h_def using o few rnd cfg by (intro dedup_header_valid) auto
  have fields: "m3_frame_count h = 1 + ?n" "m3_max_chunk_size h = cc_max_size config" "m3_salt h = oc_random os 0 SALT_LENGTH"
    "m3_kdf_log_n h = nat log_n" "m3_padding_size h = nat padding" "m3_version h = MSC6_VERSION" by (simp_all add: h_def dedup_header_def)
  show ?thesis using m valid gh key payload small o(1) fields by (auto simp: dedup_job_ok_def job)
qed

lemma dedup_ctx_valid: "valid_msc3_header h \<Longrightarrow> valid_ctx (dedup_ctx key gh h)"
  by (simp add: valid_ctx_def dedup_ctx_def valid_msc3_header_def struct_size_def)

lemma serialized_chunks: "serialize_dedup_manifest m = Inr b \<Longrightarrow> 44 * length (dm_chunks m) \<le> length b"
  using pack_chunks_length by (auto simp: serialize_dedup_manifest_def bindR_eq_Inr)

lemma open_encoded_dedup:
  assumes job: "dedup_job_ok c u password view config job" and body: "dedup_body c l os config profile job = Inr (archive, padded, ms)"
    and rnd: "\<forall>k. random_law (oc_random os k)" and aead: "aead_law c" and dig: "digest_law c"
    and view: "portable_view u view" and cfg: "valid_chunking config" and p16: "padding_fits (m3_padding_size (dj_header job)) (length archive)"
    and limits: "int (total_size (dm_entries (dj_manifest job))) \<le> mo" "int (length ms) \<le> mf"
    and f: "fl_bytes f = archive"
  shows "\<exists>out. dedup_entries c l (oc_random os) (dedup_ctx (dj_key job) (dj_global_header job) (dj_header job)) profile
        config view (dm_chunks (dj_manifest job)) 0 1 (dm_entries (dj_manifest job))
        = Inr (out, ms, length (dm_chunks (dj_manifest job)))
    \<and> 1 + length ms = m3_frame_count (dj_header job)
    \<and> open_dedup_bytes c u f password mo mf = Inr \<lparr>da_header = dj_header job,
        da_ctx = dedup_ctx (dj_key job) (dj_global_header job) (dj_header job), da_manifest = dj_manifest job,
        da_manifest_payload = length (dj_payload job), da_manifest_padded = padded, da_stream = out,
        da_size = length archive, da_identity = fl_id f\<rparr>"
proof -
  note j = job[unfolded dedup_job_ok_def]
  let ?h = "dj_header job" and ?m = "dj_manifest job"
  let ?ctx = "dedup_ctx (dj_key job) (dj_global_header job) ?h"
  have jv: "dj_view job = view" using j by blast
  from body jv obtain frame out where
    frame: "emit_frame c (oc_random os) ?ctx 0 FRAME_MANIFEST (dj_payload job) = Inr (frame, padded)"
    and out: "dedup_entries c l (oc_random os) ?ctx profile config view (dm_chunks ?m) 0 1 (dm_entries ?m)
      = Inr (out, ms, length (dm_chunks ?m))"
    and n: "1 + length ms = m3_frame_count ?h" and arch: "archive = dj_global_header job @ frame @ out"
    by (auto simp: dedup_body_def Let_def bindR_eq_Inr split: if_split_asm)
  have vh: "valid_msc3_header ?h" and gh: "pack_msc3_header ?h = Inr (dj_global_header job)" using j by blast+
  have pad: "256 \<le> m3_padding_size ?h" using vh by (simp add: valid_msc3_header_def)
  have small: "length (dj_payload job) + m3_padding_size ?h + 16 \<le> MAX_MANIFEST_CIPHERTEXT" using j by blast
  have "frame_fits ?ctx FRAME_MANIFEST (dj_payload job)"
    using written_manifest_fits[OF frame rnd aead] small pad p16 by (simp add: dedup_ctx_def arch)
  then have "layer_fits c (oc_random os) ?ctx 0 FRAME_MANIFEST (dj_payload job)"
    using aead rnd dedup_ctx_valid[OF vh] by (simp add: layer_fits_def)
  from sealed.accept_emit[OF this frame, of out]
  have read: "read_frame c ?ctx (frame @ out) 0 FRAME_MANIFEST = Inr ((dj_payload job, padded), out)" .
  have hdr: "msc3_read archive (struct_size MSC3_HEADER) = Inr (dj_global_header job, frame @ out)"
    using msc3_header.pack_length[OF gh] by (simp add: arch msc3_read_def)
  have parse: "parse_msc3_header (dj_global_header job) = Inr ?h" by (rule msc3_header.parse_pack[OF vh gh])
  from j obtain s where scan: "scan_manifest c u view config = Inr (?m, s)" by blast
  have key: "derive_key c password (m3_salt ?h) (m3_kdf_log_n ?h) 8 1 = Inr (dj_key job)"
    and fc: "m3_frame_count ?h = 1 + length (canonical_indexes (dm_chunks ?m))"
    and mx: "m3_max_chunk_size ?h = cc_max_size config"
    and ser: "serialize_dedup_manifest ?m = Inr (dj_payload job)" using j by blast+
  have valid: "valid_dedup_manifest u (m3_max_chunk_size ?h) (m3_frame_count ?h) ?m"
    using conjunct1[OF scan_manifest_Inr[OF scan dig view cfg]] fc mx by simp
  have "length (dm_chunks ?m) \<le> MAX_CHUNK_RECORDS" using serialized_chunks[OF ser] small by linarith
  from dedup_manifest_roundtrip[OF ser valid this] have man: "parse_dedup_manifest u (dj_payload job) ?h = Inr ?m" .
  have "open_dedup_bytes c u f password mo mf = Inr \<lparr>da_header = ?h, da_ctx = ?ctx, da_manifest = ?m,
      da_manifest_payload = length (dj_payload job), da_manifest_padded = padded, da_stream = out,
      da_size = length archive, da_identity = fl_id f\<rparr>"
    using hdr parse key read man limits n[symmetric] by (simp add: open_dedup_bytes_def f Let_def)
  with out n show ?thesis by blast
qed

lemma encode_dedup_Inr:
  assumes "encode_dedup_archive c l u os fs source is_dir (Inr view) dst password config padding log_n profile = (Inr stats, fs')"
    and "os_law fs os" and "dst \<noteq> oc_temporary os" and cfg: "valid_chunking config"
  obtains job archive padded ms where "dedup_job_ok c u password view config job"
    and "m3_padding_size (dj_header job) = nat padding" and "256 \<le> padding"
    and "dedup_body c l os config profile job = Inr (archive, padded, ms)"
    and "stats = dedup_encode_stats l job archive padded ms" and "sv_verify view = Inr ()"
    and "fs' = published fs dst \<lparr>fl_id = oc_identity os, fl_bytes = archive, fl_meta = None\<rparr>"
proof -
  obtain job where prep: "prepare_dedup c u os fs source is_dir (Inr view) dst password config padding log_n profile = Inr job"
    using assms(1) by (cases "prepare_dedup c u os fs source is_dir (Inr view) dst password config padding log_n profile")
      (auto simp: encode_dedup_archive_def)
  let ?body = "case dedup_body c l os config profile job of Inl e \<Rightarrow> ([], Inl e)
     | Inr (archive, padded, metrics) \<Rightarrow> (archive, Inr (dedup_encode_stats l job archive padded metrics))"
  have pub: "publish fs os dst ?body (\<lambda>_. sv_verify (dj_view job)) = (Inr stats, fs')"
    using assms(1) prep by (simp add: encode_dedup_archive_def)
  note ps = publish_success[OF pub assms(3)] and pf = publish_published[OF pub assms(3,2)]
  obtain archive padded ms where body: "dedup_body c l os config profile job = Inr (archive, padded, ms)"
    using ps by (cases "dedup_body c l os config profile job") auto
  have "\<forall>k. random_law (oc_random os k)" using assms(2) by (simp add: os_law_def)
  note jo = prepare_dedup_Inr[OF prep this cfg]
  have fs': "fs' = published fs dst \<lparr>fl_id = oc_identity os, fl_bytes = archive, fl_meta = None\<rparr>"
    using pf body by simp
  have "dj_view job = view" using jo by (simp add: dedup_job_ok_def)
  then have "sv_verify view = Inr ()" "stats = dedup_encode_stats l job archive padded ms"
    using ps body by simp_all
  with that jo body fs' show thesis by blast
qed

section \<open>Both sides count alike\<close>

lemma scan_chunks_owners:
  "cs_owners (scan_chunks c i bs s) = cs_owners s @ replicate (length bs) i
   \<and> length (cs_chunks (scan_chunks c i bs s)) = length (cs_chunks s) + length bs"
  by (induction bs arbitrary: s) (simp_all add: scan_chunk_def Let_def)

lemma set_owner_range:
  "length before = k \<Longrightarrow>
   set_owner [k..<k + n] owner (before @ replicate (n + m) x) = before @ replicate n owner @ replicate m x"
proof (induction n arbitrary: before k)
  case (Suc n)
  have r: "[k..<k + Suc n] = k # [Suc k..<Suc k + n]" by (simp add: upt_conv_Cons)
  have "(before @ replicate (Suc n + m) x)[k := owner] = (before @ [owner]) @ replicate (n + m) x"
    using Suc.prems by (simp add: list_update_append)
  then show ?case unfolding r set_owner.simps using Suc.IH[of "before @ [owner]" "Suc k"] Suc.prems by simp
qed simp

lemma scanned_owners:
  assumes "scan_files c config view i es s = Inr (out, s')" and cfg: "valid_chunking config"
    and "\<forall>e\<in>set es. is_directory_entry e = (\<not> is_file_entry e)" and "length (cs_owners s) = length (cs_chunks s)"
  shows "length (cs_chunks s) \<le> length (cs_chunks s') \<and> length (cs_owners s') = length (cs_chunks s')
    \<and> entry_owners i out (cs_owners s @ replicate (length (cs_chunks s') - length (cs_chunks s)) 0) = cs_owners s'"
  using assms(1,3,4)
proof (induction es arbitrary: i s out)
  case (Cons e es)
  show ?case
  proof (cases "is_directory_entry e")
    case True
    with Cons.prems obtain out' where out: "out = directory_record e # out'"
      and r: "scan_files c config view (Suc i) es s = Inr (out', s')" by (auto simp: bindR_eq_Inr)
    have "\<not> is_file_entry (directory_record e)" using True by (simp add: directory_record_def is_file_entry_def is_directory_entry_def)
    with Cons.IH[OF r] Cons.prems show ?thesis by (simp add: out)
  next
    case False
    then have f: "is_file_entry e" using Cons.prems(2) by simp
    let ?cs = "entry_chunks c config view 0 e"
    let ?s = "scan_chunks c i ?cs s"
    let ?e = "e\<lparr>first_index := length (cs_chunks s), index_count := length (cs_chunks ?s) - length (cs_chunks s),
        digest := sha256 c (entry_data view 0 e)\<rparr>"
    from scan_files_FileE[OF Cons.prems(1) False f cfg] obtain out' where out: "out = ?e # out'"
      and r: "scan_files c config view (Suc i) es ?s = Inr (out', s')" by blast
    note sc = scan_chunks_owners[of c i ?cs s]
    have len: "length (cs_owners ?s) = length (cs_chunks ?s)" using sc Cons.prems(3) by simp
    from Cons.IH[OF r _ len] Cons.prems(2) have ih: "length (cs_chunks ?s) \<le> length (cs_chunks s')"
      "length (cs_owners s') = length (cs_chunks s')"
      "entry_owners (Suc i) out' (cs_owners ?s @ replicate (length (cs_chunks s') - length (cs_chunks ?s)) 0) = cs_owners s'"
      by simp_all
    have fe: "is_file_entry ?e" using f by (simp add: is_file_entry_def)
    have n: "length (cs_chunks s') - length (cs_chunks s) = length ?cs + (length (cs_chunks s') - length (cs_chunks ?s))"
      using ih(1) sc by simp
    have "set_owner [length (cs_chunks s)..<length (cs_chunks s) + length ?cs] i
        (cs_owners s @ replicate (length (cs_chunks s') - length (cs_chunks s)) 0)
      = cs_owners ?s @ replicate (length (cs_chunks s') - length (cs_chunks ?s)) 0"
      unfolding n using set_owner_range[OF Cons.prems(3)] sc by simp
    with ih fe sc show ?thesis by (simp add: out)
  qed
qed simp

lemma scan_manifest_owners:
  assumes scan: "scan_manifest c u view config = Inr (m, s)" and d: "digest_law c" and view: "portable_view u view"
    and cfg: "valid_chunking config"
  shows "manifest_owners m = cs_owners s"
proof -
  from scan obtain base es where base: "scan_session c u view (cc_max_size config) False = Inr base"
    and es: "scan_files c config view 0 (mf_entries base) empty_scan = Inr (es, s)"
    and m: "m = \<lparr>dm_kind = mf_kind base, dm_root_name = mf_root_name base, dm_entries = es, dm_chunks = cs_chunks s\<rparr>"
    by (auto simp: scan_manifest_def bindR_eq_Inr)
  have "valid_entries u (cc_max_size config) {} 1 (mf_entries base) (1 + file_frames (mf_entries base))"
    using scan_session_Inr[OF base d view] by (simp add: valid_manifest_def)
  then have "\<forall>e\<in>set (mf_entries base). is_directory_entry e = (\<not> is_file_entry e)" using valid_entries_kinds by blast
  from scanned_owners[OF es cfg this] show ?thesis by (simp add: manifest_owners_def m empty_scan_def)
qed

lemma duplicate_count: "length (duplicate_indexes chunks) + length (canonical_indexes chunks) = length chunks"
  using sum_length_filter_compl[of "\<lambda>i. cr_source (chunks ! i) = i" "[0..<length chunks]"]
  by (simp add: duplicate_indexes_def canonical_indexes_def)

section \<open>The whole round trip\<close>

definition dedup_stats_agree :: "DedupEncodeStats \<Rightarrow> DedupDecodeStats \<Rightarrow> bool" where
  "dedup_stats_agree es ds \<longleftrightarrow>
     dsd_format_version ds = dse_format_version es \<and> dsd_archive_kind ds = dse_archive_kind es
     \<and> dsd_original_size ds = dse_original_size es \<and> dsd_block_count ds = dse_block_count es
     \<and> dsd_file_count ds = dse_file_count es \<and> dsd_directory_count ds = dse_directory_count es
     \<and> dsd_mode_distribution ds = dse_mode_distribution es
     \<and> dsd_logical_chunk_count ds = dse_logical_chunk_count es
     \<and> dsd_unique_chunk_count ds = dse_unique_chunk_count es
     \<and> dsd_duplicate_chunk_count ds = int (dse_duplicate_chunk_count es)
     \<and> dsd_dedup_saved_bytes ds = dse_dedup_saved_bytes es
     \<and> dsd_cross_file_duplicate_chunks ds = dse_cross_file_duplicate_chunks es
     \<and> dsd_cross_file_dedup_saved_bytes ds = dse_cross_file_dedup_saved_bytes es"

lemma dedup_restores:
  assumes enc: "encode_dedup_archive c l u os fs source is_dir (Inr view) archive password config padding log_n profile = (Inr stats, fs1)"
    and laws: "aead_law c" "digest_law c" "os_law fs os" "os_law fs1 os'" and view: "portable_view u view"
    and cfg: "valid_chunking config" and p16: "padding_fits (nat padding) (dse_archive_size stats)"
    and ok: "\<forall>rel data. sv_read view 1 rel = Inr data \<longrightarrow> (\<forall>b\<in>set (content_defined_chunks c config data). block_ok l b)"
    and inj: "inj_on (sha256 c) (source_strings c config view)"
    and names: "archive \<noteq> oc_temporary os" "restored \<noteq> oc_temporary os'" and new: "fresh_path fs1 restored"
    and limits: "int (dse_original_size stats) \<le> mo" "0 < mo" "int (dse_block_count stats) \<le> mf" "0 < mf"
  shows "\<exists>ds fs2. decode_dedup_archive c l u os' fs1 archive restored password mo mf = (Inr ds, fs2)
    \<and> dedup_stats_agree stats ds \<and> source_restored view os' restored fs1 fs2"
proof -
  from encode_dedup_Inr[OF enc laws(3) names(1) cfg] obtain job bytes padded ms where
    job: "dedup_job_ok c u password view config job" and padding: "m3_padding_size (dj_header job) = nat padding"
    and body: "dedup_body c l os config profile job = Inr (bytes, padded, ms)"
    and stats: "stats = dedup_encode_stats l job bytes padded ms" and pad: "256 \<le> padding"
    and fs1: "fs1 = published fs archive \<lparr>fl_id = oc_identity os, fl_bytes = bytes, fl_meta = None\<rparr>"
    by metis
  note j = job[unfolded dedup_job_ok_def]
  let ?h = "dj_header job" and ?m = "dj_manifest job"
  let ?es = "dm_entries ?m" and ?kind = "dm_kind ?m"
  let ?ctx = "dedup_ctx (dj_key job) (dj_global_header job) ?h"
  have rnd: "\<forall>k. random_law (oc_random os k)" using laws(3) by (simp add: os_law_def)
  have vh: "valid_msc3_header ?h" using j by blast
  have p16': "padding_fits (m3_padding_size ?h) (length bytes)"
    using p16 padding by (simp add: stats dedup_encode_stats_def Let_def)
  from j obtain s where sc: "scan_manifest c u view config = Inr (?m, s)" and own: "dj_owners job = cs_owners s" by blast
  note scan = scan_manifest_Inr[OF sc laws(2) view cfg]
  have fc: "1 + length (canonical_indexes (dm_chunks ?m)) = m3_frame_count ?h" and ver: "m3_version ?h = MSC6_VERSION"
    using j by simp_all
  have nms: "1 + length ms = m3_frame_count ?h"
    using body by (auto simp: dedup_body_def Let_def bindR_eq_Inr split: if_split_asm)
  let ?f = "\<lparr>fl_id = oc_identity os, fl_bytes = bytes, fl_meta = None\<rparr>"
  have mo: "int (total_size ?es) \<le> mo" and mf: "int (length ms) \<le> mf"
    using limits fc nms by (simp_all add: stats dedup_encode_stats_def Let_def)
  from open_encoded_dedup[OF job body rnd laws(1,2) view cfg p16' mo mf, of ?f] obtain out where
    out: "dedup_entries c l (oc_random os) ?ctx profile config view (dm_chunks ?m) 0 1 ?es
      = Inr (out, ms, length (dm_chunks ?m))"
    and op: "open_dedup_bytes c u ?f password mo mf = Inr \<lparr>da_header = ?h, da_ctx = ?ctx, da_manifest = ?m,
        da_manifest_payload = length (dj_payload job), da_manifest_padded = padded, da_stream = out,
        da_size = length bytes, da_identity = oc_identity os\<rparr>" by auto
  let ?a = "\<lparr>da_header = ?h, da_ctx = ?ctx, da_manifest = ?m,
        da_manifest_payload = length (dj_payload job), da_manifest_padded = padded, da_stream = out,
        da_size = length bytes, da_identity = oc_identity os\<rparr>"
  note fresh = new_destination_differs[OF new names(2)]
  have opened: "open_dedup c u fs1 archive password (Some restored) mo mf = Inr ?a"
    using op limits(2,4) fresh
    by (simp add: open_dedup_def fs1 validate_decode_limits_def DEFAULT_MAX_LEGACY_ARCHIVE_SIZE_def)
  have layer: "dedup_layer c (oc_random os) ?ctx (cc_max_size config)"
    using laws(1) rnd dedup_ctx_valid[OF vh] j by (simp add: dedup_layer_def dedup_ctx_def struct_size_def)
  have valid: "valid_chunks (cc_max_size config) (dm_chunks ?m)"
    and ve: "valid_dedup_entries u {} 0 ?es (length (dm_chunks ?m))"
    using scan unfolding valid_dedup_manifest_def by blast+
  have kinds: "\<forall>e\<in>set ?es. is_directory_entry e = (\<not> is_file_entry e)"
    using valid_dedup_entries_kinds[OF ve] by blast
  have blocks: "\<forall>e\<in>set ?es. \<forall>b\<in>set (entry_chunks c config view 1 e). block_ok l b"
    using ok by (auto simp: entry_chunks_def entry_data_def chunks_Nil_iff[THEN iffD2] dest: session_open_read split: sum.splits)
  have placed: "placed_from c config view (length ([] :: bytes list)) ?es (length (dm_chunks ?m))"
    unfolding list.size(3) using scan by blast
  have few: "1 + length ms \<le> 2 ^ 64" using nms vh by (simp add: valid_msc3_header_def)
  have "?kind = (if sv_root_is_file view then KIND_FILE else KIND_FOLDER)" using scan by blast
  then have items: "map (source_item view ?kind) ?es = map (\<lambda>e. (e, entry_data view 1 e)) ?es"
    by (simp add: source_item_def entry_data_def source_key_def session_key_def)
  have sub: "set ([] :: bytes list) \<subseteq> source_strings c config view" by simp
  have run: "dedup_entries c l (oc_random os) ?ctx profile config view (dm_chunks ?m) (length ([] :: bytes list)) 1 ?es
      = Inr (out, ms, length (dm_chunks ?m))" using out by simp
  have loop: "restore_dedup_entries c l ?ctx ?kind (dm_chunks ?m) 1 (\<lambda>_. None) ?es t out = Inr (t', ms, [])"
    if "restore_items ?kind (map (source_item view ?kind) ?es) t = Inr t'" for t t'
    using restore_dedup_run[OF run placed sub replayed_start few kinds blocks layer valid cfg inj that[unfolded items],
        of "[]"] by simp
  let ?ds = "dedup_decode_stats ?a ms"
  have restore: "restore_dedup c l ?a (Some t) = Inr (Some t', ?ds, dedup_archive_info ?a ms)"
    if "bindR (restore_items ?kind (map (source_item view ?kind) ?es) (Some t)) (finish_output ?kind ?es) = Inr (Some t')" for t t'
    using that loop nms by (auto simp: restore_dedup_def Let_def bindR_eq_Inr)
  let ?check = "\<lambda>fs. if path_matches_file_identity (fs_stat fs restored) (oc_identity os)
      then Inl (ValueError ''archive and output paths must be different'') else Inr ()"
  let ?body = "\<lambda>t. bindR (restore_dedup c l ?a (Some t)) (\<lambda>(out, stats). Inr (case out of None \<Rightarrow> t | Some t \<Rightarrow> t, stats))"
  have "\<exists>fs2. publish_output fs1 os' restored ?kind ?body ?check = (Inr (?ds, dedup_archive_info ?a ms), fs2)
      \<and> source_restored view os' restored fs1 fs2"
  proof (rule publish_restored[OF _ laws(4) names(2) new])
    show "scanned_entries view ?kind ?es" using scan unfolding scanned_entries_def by blast
    show "\<exists>data. sv_read view 1 [] = Inr data" if "sv_root_is_file view"
    proof -
      from that scan obtain e where "?es = [e]" "is_file_entry e" by auto
      then show ?thesis using out that by (cases "sv_read view 1 []") (auto simp: session_key_def bindR_eq_Inr)
    qed
    show "?body t = Inr (t', ?ds, dedup_archive_info ?a ms)"
      if "bindR (restore_items ?kind (map (source_item view ?kind) ?es) (Some t)) (finish_output ?kind ?es) = Inr (Some t')"
      for t t' by (simp add: restore[OF that])
    show "?check (create_output (with_parents fs1 restored) os' ?kind) = Inr ()" using fresh by simp
  qed
  then obtain fs2 where pub: "publish_output fs1 os' restored ?kind ?body ?check = (Inr (?ds, dedup_archive_info ?a ms), fs2)"
    and res: "source_restored view os' restored fs1 fs2" by blast
  have "decode_dedup_archive c l u os' fs1 archive restored password mo mf = (Inr ?ds, fs2)"
    using opened pub by (simp add: decode_dedup_archive_def decode_dedup_def)
  moreover have "dedup_stats_agree stats ?ds"
    using fc ver own scan_manifest_owners[OF sc laws(2) view cfg] duplicate_count[of "dm_chunks ?m"]
    by (simp add: dedup_stats_agree_def stats dedup_decode_stats_def dedup_encode_stats_def Let_def)
  ultimately show ?thesis using res by blast
qed

section \<open>Encoding succeeds\<close>

definition records_match :: "crypto \<Rightarrow> ChunkRecord list \<Rightarrow> bytes list \<Rightarrow> bool" where
  "records_match c records xs \<longleftrightarrow> list_all2 (\<lambda>r x. cr_size r = length x \<and> cr_digest r = sha256 c x) records xs"

lemma scanned_records_match:
  assumes "scan_inv c m xs s"
  shows "records_match c (cs_chunks s) xs"
proof -
  let ?f = "\<lambda>r. (cr_digest r, cr_size r)" and ?g = "\<lambda>x. (sha256 c x, length x)"
  have eq: "map ?f (cs_chunks s) = map ?g xs" using assms by (simp add: scan_inv_def)
  have "list_all2 (=) (map ?f (cs_chunks s)) (map ?g xs)" unfolding eq by (simp add: list.rel_eq)
  then show ?thesis by (simp add: list.rel_map records_match_def conj_commute)
qed

lemma records_match_nth:
  "records_match c records (before @ b # after) \<Longrightarrow>
   length before < length records \<and> cr_size (records ! length before) = length b
   \<and> cr_digest (records ! length before) = sha256 c b"
  by (auto simp: records_match_def list_all2_conv_all_nth)

lemma dedup_blocks_total:
  assumes layer: "dedup_layer c rnd ctx m" and m: "m \<le> MAX_CHUNK_SIZE" and prof: "profile \<in> {''fast'', ''balanced'', ''research''}"
    and "records_match c records (before @ bs @ after)" and "\<forall>b\<in>set bs. block_ok l b \<and> length b \<le> m"
    and "length before + length bs \<le> 2 ^ 64" and "i + length bs \<le> 2 ^ 64"
  shows "\<exists>out ms. dedup_blocks c l rnd ctx profile records (length before) i bs = Inr (out, ms)
    \<and> length ms = length (filter (\<lambda>j. cr_source (records ! j) = j) [length before..<length before + length bs])"
  using assms(4-)
proof (induction bs arbitrary: before i)
  case (Cons b bs)
  let ?k = "length before"
  note r = records_match_nth[of c records before b "bs @ after"]
  have rec: "?k < length records" "cr_size (records ! ?k) = length b" "cr_digest (records ! ?k) = sha256 c b"
    using r Cons.prems(1) by simp_all
  have range: "[?k..<?k + length (b # bs)] = ?k # [Suc ?k..<Suc ?k + length bs]"
    by (simp add: upt_conv_Cons del: upt_Suc)
  have ih: "\<exists>out ms. dedup_blocks c l rnd ctx profile records (Suc ?k) i' bs = Inr (out, ms)
      \<and> length ms = length (filter (\<lambda>j. cr_source (records ! j) = j) [Suc ?k..<Suc ?k + length bs])"
    if "i' + length bs \<le> 2 ^ 64" for i'
    using Cons.IH[of "before @ [b]" i'] Cons.prems that by simp
  show ?case
  proof (cases "cr_source (records ! ?k) = ?k")
    case False
    from ih[of i] Cons.prems(4) False rec show ?thesis unfolding range by simp
  next
    case True
    have b: "block_ok l b" "length b \<le> m" using Cons.prems(2) by simp_all
    from choose_routed_total[OF b(1) prof] obtain sel where sel: "choose_routed_mode l b profile = Inr sel" by blast
    have code: "mode_code (eb_mode sel) < 256" using mode_code_lt[of "eb_mode sel"] by linarith
    have "?k < 2 ^ 64" using Cons.prems(3) by simp
    then obtain p where p: "struct_pack DEDUP_DATA_PREFIX [VU ?k, VU (length b), VU (mode_code (eb_mode sel))] = Inr p"
      using code b(2) m by (simp add: struct_pack_def)
    have "length (eb_payload sel) \<le> length b" using choose_routed_Inr[OF sel] by blast
    then have "layer_fits c rnd ctx i FRAME_DATA (p @ eb_payload sel)"
      using dedup_prefix_read[OF p] b(2) Cons.prems(4) by (intro dedup_frame_fits[OF layer]) auto
    from sealed.emit_total[OF this] obtain frame n where "emit_frame c rnd ctx i FRAME_DATA (p @ eb_payload sel) = Inr (frame, n)"
      by blast
    with ih[of "Suc i"] Cons.prems(4) True rec sel p show ?thesis unfolding range by fastforce
  qed
qed simp

lemma dedup_entries_total:
  assumes layer: "dedup_layer c rnd ctx m" and m: "m \<le> MAX_CHUNK_SIZE" "cc_max_size config \<le> m"
    and prof: "profile \<in> {''fast'', ''balanced'', ''research''}" and cfg: "valid_chunking config"
    and same: "\<forall>rel. sv_read view 1 rel = sv_read view 0 rel"
    and "placed_from c config view (length before) es fin"
    and "records_match c records (before @ all_chunks c config view 0 es)"
    and "\<forall>e\<in>set es. is_directory_entry e = (\<not> is_file_entry e)"
    and "\<forall>e\<in>set es. \<forall>b\<in>set (entry_chunks c config view 0 e). block_ok l b"
    and "length records \<le> 2 ^ 63" and "i + (length records - length before) \<le> 2 ^ 64"
  shows "\<exists>out ms. dedup_entries c l rnd ctx profile config view records (length before) i es = Inr (out, ms, fin)
    \<and> length ms = length (filter (\<lambda>j. cr_source (records ! j) = j) [length before..<fin])"
  using assms(7-)
proof (induction es arbitrary: before i)
  case Nil
  then show ?case by simp
next
  case (Cons e es)
  show ?case
  proof (cases "is_file_entry e")
    case False
    then have "entry_chunks c config view 0 e = []" by (rule entry_chunks_no_file)
    with Cons.IH[of before i] Cons.prems False show ?thesis by (simp add: all_chunks_def)
  next
    case True
    let ?k = "length before" and ?cs = "entry_chunks c config view 0 e"
    from Cons.prems(1) True obtain data where d0: "session_open view 0 (session_key view e) = Inr data"
      and dg: "digest e = sha256 c (entry_data view 0 e)"
      and placed: "placed_from c config view (?k + length ?cs) es fin"
      by (auto simp: entry_kind_exclusive)
    have ed: "entry_data view 0 e = data" "?cs = content_defined_chunks c config data"
      using True d0 by (simp_all add: entry_data_def entry_chunks_def)
    have d1: "session_open view 1 (session_key view e) = Inr data" "session_path view (session_key view e) = Inr ()"
      using d0 same by (auto simp: session_open_def session_path_def split: if_splits)
    have it: "iter_content_defined_chunks c config data = Inr ?cs" unfolding ed(2) by (rule iter_cdc_ref[OF cfg])
    have match: "records_match c records (before @ ?cs @ all_chunks c config view 0 es)"
      using Cons.prems(2) by (simp add: all_chunks_def)
    then have len: "length records = ?k + length ?cs + length (all_chunks c config view 0 es)"
      by (auto simp: records_match_def dest!: list_all2_lengthD)
    have ok: "\<forall>b\<in>set ?cs. block_ok l b \<and> length b \<le> m"
      using Cons.prems(4) chunks_max[OF cfg] m(2) by (fastforce simp: ed(2))
    have "?k + length ?cs \<le> 2 ^ 64" "i + length ?cs \<le> 2 ^ 64" using len Cons.prems(5,6) by simp_all
    from dedup_blocks_total[OF layer m(1) prof match ok this] obtain out1 ms1 where
      b: "dedup_blocks c l rnd ctx profile records ?k i ?cs = Inr (out1, ms1)"
      and n1: "length ms1 = length (filter (\<lambda>j. cr_source (records ! j) = j) [?k..<?k + length ?cs])" by blast
    have short: "length ms1 \<le> length ?cs" unfolding n1 using length_filter_le[of _ "[?k..<?k + length ?cs]"] by simp
    have next_i: "i + length ms1 + (length records - length (before @ ?cs)) \<le> 2 ^ 64" using Cons.prems(6) len short by simp
    have p': "placed_from c config view (length (before @ ?cs)) es fin" using placed by simp
    have m': "records_match c records ((before @ ?cs) @ all_chunks c config view 0 es)" using match by simp
    from Cons.IH[OF p' m' _ _ Cons.prems(5) next_i] Cons.prems(3,4) obtain out2 ms2 where
      r: "dedup_entries c l rnd ctx profile config view records (?k + length ?cs) (i + length ms1) es = Inr (out2, ms2, fin)"
      and n2: "length ms2 = length (filter (\<lambda>j. cr_source (records ! j) = j) [?k + length ?cs..<fin])" by auto
    have fin: "?k + length ?cs \<le> fin" using placed_final[OF placed] by simp
    have "[?k..<fin] = [?k..<?k + length ?cs] @ [?k + length ?cs..<fin]"
      using fin upt_add_eq_append[of ?k "?k + length ?cs" "fin - (?k + length ?cs)"] by simp
    with b r d1 it True dg ed(1) n1 n2 show ?thesis by simp
  qed
qed

lemma encode_dedup_total:
  assumes pw: "normalize_password password = Inr pw"
    and opts: "256 \<le> padding" "padding \<le> 16777216" "14 \<le> log_n" "log_n \<le> 18" "profile \<in> {''fast'', ''balanced'', ''research''}"
    and paths: "check_output_path fs source is_dir dst = Inr ()" "check_session_output fs source is_dir dst view = Inr ()"
    and scan: "scan_manifest c u view config = Inr (m, s)" and few: "length (canonical_indexes (dm_chunks m)) + 1 \<le> 16777216"
    and ser: "serialize_dedup_manifest m = Inr payload"
    and small: "int (length payload) \<le> int MAX_MANIFEST_CIPHERTEXT - padding - int AEAD_TAG_LENGTH"
    and laws: "aead_law c" "digest_law c" "os_law fs os" and view: "portable_view u view" and cfg: "valid_chunking config"
    and ok: "\<forall>rel data. sv_read view 0 rel = Inr data \<longrightarrow> (\<forall>b\<in>set (content_defined_chunks c config data). block_ok l b)"
    and same: "\<forall>rel. sv_read view 1 rel = sv_read view 0 rel" and ver: "sv_verify view = Inr ()"
    and new: "writable_path fs dst"
  shows "\<exists>stats fs'. encode_dedup_archive c l u os fs source is_dir (Inr view) dst password config padding log_n profile
      = (Inr stats, fs') \<and> dse_original_size stats = total_size (dm_entries m)
    \<and> dse_block_count stats = length (canonical_indexes (dm_chunks m))"
proof -
  have rnd: "\<forall>k. random_law (oc_random os k)" using laws(3) by (simp add: os_law_def)
  then have rl: "length (oc_random os k q) = q" for k q by (simp add: random_law_def)
  let ?n = "length (canonical_indexes (dm_chunks m))"
  define h where "h = dedup_header os config padding log_n ?n"
  have vh: "valid_msc3_header h" unfolding h_def using opts few rnd cfg by (intro dedup_header_valid) auto
  then obtain gh where gh: "pack_msc3_header h = Inr gh" using msc3_header.pack_total by blast
  obtain key where key: "derive_key c password (oc_random os 0 SALT_LENGTH) (nat log_n) 8 1 = Inr key"
    using derive_key_ok[OF rl pw] by blast
  let ?job = "\<lparr>dj_view = view, dj_manifest = m, dj_owners = cs_owners s, dj_header = h, dj_global_header = gh,
      dj_key = key, dj_payload = payload\<rparr>"
  have prep: "prepare_dedup c u os fs source is_dir (Inr view) dst password config padding log_n profile = Inr ?job"
    using opts paths scan few gh key ser small unfolding h_def dedup_header_def by (simp add: prepare_dedup_def Let_def)
  let ?ctx = "dedup_ctx key gh h"
  have vc: "valid_ctx ?ctx" by (rule dedup_ctx_valid[OF vh])
  have hp: "m3_padding_size h = nat padding" "m3_max_chunk_size h = cc_max_size config" "m3_frame_count h = ?n + 1"
    by (simp_all add: h_def dedup_header_def)
  have "nat padding \<le> 16777216" "0 < nat padding" using opts by (simp_all add: nat_le_iff)
  moreover have "length payload \<le> MAX_MANIFEST_CIPHERTEXT" using small opts by linarith
  ultimately have "0 < nat padding" "8 + length payload + nat padding + 16 < 2 ^ 32" by simp_all
  with padded_length_lt[of "nat padding" "8 + length payload"]
  have "padded_length (8 + length payload) (nat padding) + 16 < 2 ^ 32" by simp
  with write_frame_exists[OF vc, of "oc_random os (2 + 0)" 0 payload FRAME_MANIFEST c] rnd hp obtain frame padded where
    frame: "emit_frame c (oc_random os) ?ctx 0 FRAME_MANIFEST payload = Inr (frame, padded)"
    unfolding emit_frame_def by (auto simp: dedup_ctx_def)
  note sc = scan_manifest_Inr[OF scan laws(2) view cfg]
  have layer: "dedup_layer c (oc_random os) ?ctx (cc_max_size config)"
    using laws(1) rnd vc hp by (simp add: dedup_layer_def dedup_ctx_def struct_size_def)
  have ve: "valid_dedup_entries u {} 0 (dm_entries m) (length (dm_chunks m))"
    using sc unfolding valid_dedup_manifest_def by blast
  then have kinds: "\<forall>e\<in>set (dm_entries m). is_directory_entry e = (\<not> is_file_entry e)"
    using valid_dedup_entries_kinds by blast
  have blocks: "\<forall>e\<in>set (dm_entries m). \<forall>b\<in>set (entry_chunks c config view 0 e). block_ok l b"
    using ok by (auto simp: entry_chunks_def entry_data_def chunks_Nil_iff[THEN iffD2] dest: session_open_read split: sum.splits)
  have placed: "placed_from c config view (length ([] :: bytes list)) (dm_entries m) (length (dm_chunks m))"
    unfolding list.size(3) using sc by blast
  have "scan_inv c (cc_max_size config) (all_chunks c config view 0 (dm_entries m)) s" "dm_chunks m = cs_chunks s" using sc by blast+
  then have match: "records_match c (dm_chunks m) ([] @ all_chunks c config view 0 (dm_entries m))"
    using scanned_records_match by simp
  have "44 * length (dm_chunks m) \<le> length payload" by (rule serialized_chunks[OF ser])
  then have nrec: "length (dm_chunks m) \<le> 2 ^ 63" "1 + (length (dm_chunks m) - length ([] :: bytes list)) \<le> 2 ^ 64"
    using small opts(1) by simp_all
  have mx: "cc_max_size config \<le> MAX_CHUNK_SIZE" using cfg by (simp add: valid_chunking_def)
  from dedup_entries_total[OF layer mx order_refl opts(5) cfg same placed match kinds blocks nrec]
  obtain out ms where entries: "dedup_entries c l (oc_random os) ?ctx profile config view (dm_chunks m) 0 1 (dm_entries m)
      = Inr (out, ms, length (dm_chunks m))" and len: "length ms = ?n" by (auto simp: canonical_indexes_def)
  let ?stats = "dedup_encode_stats l ?job (gh @ frame @ out) padded ms"
  have body: "dedup_body c l os config profile ?job = Inr (gh @ frame @ out, padded, ms)"
    using frame entries len hp by (simp add: dedup_body_def)
  have "fst (publish fs os dst (gh @ frame @ out, Inr ?stats) (\<lambda>_. sv_verify view)) = Inr ?stats"
    by (rule publish_run) (simp_all add: ver new)
  then obtain fs' where "publish fs os dst (gh @ frame @ out, Inr ?stats) (\<lambda>_. sv_verify view) = (Inr ?stats, fs')"
    by (metis prod.collapse)
  then have "encode_dedup_archive c l u os fs source is_dir (Inr view) dst password config padding log_n profile = (Inr ?stats, fs')"
    using prep body by (simp add: encode_dedup_archive_def)
  then show ?thesis by (auto simp: dedup_encode_stats_def Let_def)
qed

section \<open>What is counted\<close>

lemma placed_total:
  "placed_from c config view k es final \<Longrightarrow> total_size es = sum_list (map length (all_chunks c config view 0 es))"
proof (induction es arbitrary: k)
  case (Cons e es)
  have ih: "total_size es = sum_list (map length (all_chunks c config view 0 es))"
    using Cons.prems by (intro Cons.IH[of "k + length (entry_chunks c config view 0 e)"]) simp
  have "entry_size e = length (entry_data view 0 e)"
  proof (cases "is_directory_entry e")
    case True
    then have d: "e = directory_record e" and nf: "\<not> is_file_entry e" using Cons.prems entry_kind_exclusive by auto
    have "entry_size e = 0" by (subst d) (simp add: directory_record_def)
    then show ?thesis using nf by (simp add: entry_data_def)
  qed (use Cons.prems in simp)
  also have "\<dots> = sum_list (map length (entry_chunks c config view 0 e))"
    using length_concat[of "entry_chunks c config view 0 e"] by simp
  finally show ?case using ih by (simp add: total_size_def all_chunks_def)
qed (simp add: total_size_def all_chunks_def)

lemma sum_list_partition:
  "sum_list (map f (filter P xs)) + sum_list (map f (filter (\<lambda>x. \<not> P x) xs)) = sum_list (map f xs)" for f :: "'a \<Rightarrow> nat"
  by (induction xs) auto

lemma indexed_bytes_split:
  "indexed_bytes chunks (duplicate_indexes chunks) + indexed_bytes chunks (canonical_indexes chunks)
    = sum_list (map cr_size chunks)"
proof -
  have "sum_list (map (\<lambda>i. cr_size (chunks ! i)) [0..<length chunks]) = sum_list (map cr_size chunks)"
    by (metis map_nth map_map comp_apply map_cong)
  then show ?thesis
    using sum_list_partition[of "\<lambda>i. cr_size (chunks ! i)" "\<lambda>i. cr_source (chunks ! i) = i" "[0..<length chunks]"]
    by (simp add: indexed_bytes_def duplicate_indexes_def canonical_indexes_def)
qed

lemma encode_dedup_counts:
  assumes enc: "encode_dedup_archive c l u os fs source is_dir (Inr view) dst password config padding log_n profile = (Inr stats, fs')"
    and laws: "digest_law c" "os_law fs os" and dst: "dst \<noteq> oc_temporary os"
    and cfg: "valid_chunking config" and view: "portable_view u view"
  shows "\<exists>m s. scan_manifest c u view config = Inr (m, s)
    \<and> dse_logical_chunk_count stats = length (all_chunks c config view 0 (dm_entries m))
    \<and> dse_unique_chunk_count stats
        = card (set (map (\<lambda>x. (sha256 c x, length x)) (all_chunks c config view 0 (dm_entries m))))
    \<and> dse_original_size stats = sum_list (map length (all_chunks c config view 0 (dm_entries m)))
    \<and> dse_dedup_saved_bytes stats + sum_list (map length (cs_unique s)) = dse_original_size stats"
proof -
  from encode_dedup_Inr[OF enc laws(2) dst cfg] obtain job bytes padded ms where
    job: "dedup_job_ok c u password view config job" and stats: "stats = dedup_encode_stats l job bytes padded ms" by metis
  from job obtain s where scan: "scan_manifest c u view config = Inr (dj_manifest job, s)"
    by (auto simp: dedup_job_ok_def)
  let ?m = "dj_manifest job"
  let ?all = "all_chunks c config view 0 (dm_entries ?m)"
  note sc = scan_manifest_Inr[OF scan laws(1) view cfg]
  have inv: "scan_inv c (cc_max_size config) ?all s" and ch: "dm_chunks ?m = cs_chunks s"
    and placed: "placed_from c config view 0 (dm_entries ?m) (length (dm_chunks ?m))" using sc by blast+
  have match: "list_all2 (\<lambda>r x. cr_size r = length x \<and> cr_digest r = sha256 c x) (cs_chunks s) ?all"
    using scanned_records_match[OF inv] by (simp add: records_match_def)
  have sizes: "map cr_size (cs_chunks s) = map length ?all"
    using match by (induction rule: list_all2_induct) auto
  have uniq: "cs_unique s = map (\<lambda>i. ?all ! i) (canonical_indexes (cs_chunks s))" using inv by (simp add: scan_inv_def)
  have nth: "length (?all ! i) = cr_size (cs_chunks s ! i)" if "i \<in> set (canonical_indexes (cs_chunks s))" for i
    using match canonical_indexes_less[OF that] by (auto simp: list_all2_conv_all_nth)
  have "sum_list (map length (cs_unique s)) = indexed_bytes (cs_chunks s) (canonical_indexes (cs_chunks s))"
    unfolding indexed_bytes_def uniq map_map by (rule arg_cong[where f = sum_list]) (simp add: nth)
  with indexed_bytes_split[of "cs_chunks s"] sizes
  have "indexed_bytes (cs_chunks s) (duplicate_indexes (cs_chunks s)) + sum_list (map length (cs_unique s))
      = sum_list (map length ?all)" by simp
  with scan placed_total[OF placed] canonical_count[OF inv] scan_inv_length[OF inv] ch show ?thesis
    by (auto simp: stats dedup_encode_stats_def Let_def)
qed

section \<open>What is written\<close>

text \<open>
  The data frames of an archive, each with the place of its chunk in the table and the chunk: the
  \<open>i\<close>-th frame is sealed under its index and holds the chunk in the mode that the profile chooses.
\<close>

definition data_frame_of ::
  "crypto \<Rightarrow> clib \<Rightarrow> (nat \<Rightarrow> nat \<Rightarrow> bytes) \<Rightarrow> frame_ctx \<Rightarrow> string \<Rightarrow> nat \<Rightarrow> bytes \<Rightarrow> nat \<Rightarrow> bytes \<Rightarrow> bool" where
  "data_frame_of c l rnd ctx profile i frame k chunk \<longleftrightarrow>
     (\<exists>selected prefix padded. choose_routed_mode l chunk profile = Inr selected
       \<and> struct_pack DEDUP_DATA_PREFIX [VU k, VU (length chunk), VU (mode_code (eb_mode selected))] = Inr prefix
       \<and> emit_frame c rnd ctx i FRAME_DATA (prefix @ eb_payload selected) = Inr (frame, padded))"

fun data_frames ::
  "crypto \<Rightarrow> clib \<Rightarrow> (nat \<Rightarrow> nat \<Rightarrow> bytes) \<Rightarrow> frame_ctx \<Rightarrow> string \<Rightarrow> nat \<Rightarrow> (bytes \<times> nat \<times> bytes) list \<Rightarrow> bool" where
  "data_frames c l rnd ctx profile i [] \<longleftrightarrow> True"
| "data_frames c l rnd ctx profile i ((frame, k, chunk) # rows) \<longleftrightarrow>
     data_frame_of c l rnd ctx profile i frame k chunk \<and> data_frames c l rnd ctx profile (Suc i) rows"

abbreviation chunk_key where "chunk_key c x \<equiv> (sha256 c x, length x)"

lemma data_frames_append:
  "data_frames c l rnd ctx profile i (xs @ ys) \<longleftrightarrow>
   data_frames c l rnd ctx profile i xs \<and> data_frames c l rnd ctx profile (i + length xs) ys"
  by (induction xs arbitrary: i) auto

definition own_indexes :: "ChunkRecord list \<Rightarrow> nat \<Rightarrow> nat \<Rightarrow> nat list" where
  "own_indexes records k n = filter (\<lambda>j. cr_source (records ! j) = j) [k..<n]"

lemma own_indexes_split: "k \<le> m \<Longrightarrow> m \<le> n \<Longrightarrow> own_indexes records k n = own_indexes records k m @ own_indexes records m n"
  using upt_add_eq_append[of k m "n - m"] by (simp add: own_indexes_def)

text \<open>The rows written for the records from \<open>k\<close> up to \<open>n\<close>.\<close>

definition rows_of :: "crypto \<Rightarrow> ChunkRecord list \<Rightarrow> nat \<Rightarrow> nat \<Rightarrow> (bytes \<times> nat \<times> bytes) list \<Rightarrow> bool" where
  "rows_of c records k n rows \<longleftrightarrow> map (\<lambda>(_, j, _). j) rows = own_indexes records k n
     \<and> (\<forall>(_, j, x)\<in>set rows. (cr_digest (records ! j), cr_size (records ! j)) = chunk_key c x)"

lemma rows_of_append:
  "rows_of c records k m xs \<Longrightarrow> rows_of c records m n ys \<Longrightarrow> k \<le> m \<Longrightarrow> m \<le> n \<Longrightarrow> rows_of c records k n (xs @ ys)"
  unfolding rows_of_def by (auto simp: own_indexes_split[of k m n])

lemma dedup_blocks_rows:
  "dedup_blocks c l rnd ctx profile records k i bs = Inr (out, ms) \<Longrightarrow>
   \<exists>rows. data_frames c l rnd ctx profile i rows \<and> rows_of c records k (k + length bs) rows
     \<and> out = concat (map fst rows) \<and> length ms = length rows"
proof (induction bs arbitrary: k i out ms)
  case (Cons b bs)
  from Cons.prems show ?case
  proof (cases rule: dedup_blocks_ConsE)
    case duplicate
    from Cons.IH[OF duplicate(5)] obtain rows where "data_frames c l rnd ctx profile i rows"
      "rows_of c records (Suc k) (Suc k + length bs) rows" "out = concat (map fst rows)" "length ms = length rows" by blast
    moreover have "rows_of c records k (Suc k) []" using duplicate(4) by (simp add: rows_of_def own_indexes_def)
    ultimately show ?thesis using rows_of_append[of c records k "Suc k" "[]" "Suc k + length bs" rows] by auto
  next
    case (unique sel p frame padded out' ms')
    from Cons.IH[OF unique(8)] obtain rows where rows: "data_frames c l rnd ctx profile (Suc i) rows"
      "rows_of c records (Suc k) (Suc k + length bs) rows" "out' = concat (map fst rows)" "length ms' = length rows" by blast
    have "rows_of c records k (Suc k) [(frame, k, b)]" using unique(2-4) by (simp add: rows_of_def own_indexes_def)
    from rows_of_append[OF this rows(2)] have "rows_of c records k (k + length (b # bs)) ((frame, k, b) # rows)" by simp
    moreover have "data_frame_of c l rnd ctx profile i frame k b" using unique(5-7) unfolding data_frame_of_def by blast
    ultimately show ?thesis using rows unique(9,10) by (intro exI[of _ "(frame, k, b) # rows"]) simp
  qed
qed (auto simp: rows_of_def own_indexes_def intro!: exI[of _ "[]"])

lemma dedup_entries_rows:
  assumes cfg: "valid_chunking config"
  shows "dedup_entries c l rnd ctx profile config view records k i es = Inr (out, ms, final) \<Longrightarrow>
   k \<le> final \<and> (\<exists>rows. data_frames c l rnd ctx profile i rows \<and> rows_of c records k final rows
     \<and> out = concat (map fst rows) \<and> length ms = length rows)"
proof (induction es arbitrary: k i out ms)
  case Nil
  then show ?case by (auto simp: rows_of_def own_indexes_def intro!: exI[of _ "[]"])
next
  case (Cons e es)
  show ?case
  proof (cases "is_file_entry e")
    case False
    with Cons show ?thesis by simp
  next
    case True
    from dedup_entries_FileE[OF Cons.prems True cfg] obtain data out1 ms1 out2 ms2 where
      blocks: "dedup_blocks c l rnd ctx profile records k i (content_defined_chunks c config data) = Inr (out1, ms1)"
      and out: "out = out1 @ out2" "ms = ms1 @ ms2"
      and rest: "dedup_entries c l rnd ctx profile config view records (k + length (content_defined_chunks c config data))
        (i + length ms1) es = Inr (out2, ms2, final)" by metis
    let ?m = "k + length (content_defined_chunks c config data)"
    from dedup_blocks_rows[OF blocks] obtain rows1 where r1: "data_frames c l rnd ctx profile i rows1"
      "rows_of c records k ?m rows1" "out1 = concat (map fst rows1)" "length ms1 = length rows1" by blast
    from Cons.IH[OF rest] obtain rows2 where r2: "?m \<le> final" "data_frames c l rnd ctx profile (i + length ms1) rows2"
      "rows_of c records ?m final rows2" "out2 = concat (map fst rows2)" "length ms2 = length rows2" by blast
    have "rows_of c records k final (rows1 @ rows2)" by (rule rows_of_append[OF r1(2) r2(3) _ r2(1)]) simp
    moreover have "data_frames c l rnd ctx profile i (rows1 @ rows2)" using r1(1,4) r2(2) by (simp add: data_frames_append)
    ultimately show ?thesis using r1(3,4) r2(1,4,5) out by (intro conjI exI[of _ "rows1 @ rows2"]) simp_all
  qed
qed

lemma row_keys:
  assumes inv: "scan_inv c m all s" and rows: "rows_of c (cs_chunks s) 0 (length (cs_chunks s)) rows"
  shows "map (\<lambda>(_, _, x). chunk_key c x) rows = map (chunk_key c) (cs_unique s)"
proof -
  let ?r = "cs_chunks s"
  have own: "map (\<lambda>(_, j, _). j) rows = canonical_indexes ?r"
    using rows by (simp add: rows_of_def own_indexes_def canonical_indexes_def)
  have "map (\<lambda>(_, _, x). chunk_key c x) rows = map (\<lambda>(_, j, _). (cr_digest (?r ! j), cr_size (?r ! j))) rows"
    using rows by (auto simp: rows_of_def)
  also have "\<dots> = map (\<lambda>j. (cr_digest (?r ! j), cr_size (?r ! j))) (map (\<lambda>(_, j, _). j) rows)" by (simp add: case_prod_beta)
  also have "\<dots> = map (\<lambda>j. chunk_key c (all ! j)) (canonical_indexes ?r)"
    unfolding own
  proof (rule map_cong[OF refl])
    fix j assume "j \<in> set (canonical_indexes ?r)"
    then have j: "j < length ?r" by (simp add: canonical_indexes_less)
    have eq: "map (\<lambda>r. (cr_digest r, cr_size r)) ?r = map (chunk_key c) all" using inv by (simp add: scan_inv_def)
    from arg_cong[OF this, of length] j have "j < length all" by simp
    with arg_cong[OF eq, of "\<lambda>xs. xs ! j"] j show "(cr_digest (?r ! j), cr_size (?r ! j)) = chunk_key c (all ! j)" by simp
  qed
  also have "\<dots> = map (chunk_key c) (cs_unique s)" using inv by (simp add: scan_inv_def comp_def)
  finally show ?thesis .
qed

lemma encode_dedup_writes:
  assumes enc: "encode_dedup_archive c l u os fs source is_dir (Inr view) dst password config padding log_n profile = (Inr stats, fs')"
    and laws: "digest_law c" "os_law fs os" and dst: "dst \<noteq> oc_temporary os"
    and cfg: "valid_chunking config" and view: "portable_view u view"
  shows "\<exists>m s header gh key payload mframe padded rows. scan_manifest c u view config = Inr (m, s)
    \<and> pack_msc3_header header = Inr gh \<and> m3_frame_count header = 1 + length rows
    \<and> derive_key c password (m3_salt header) (m3_kdf_log_n header) 8 1 = Inr key
    \<and> serialize_dedup_manifest m = Inr payload
    \<and> emit_frame c (oc_random os) (dedup_ctx key gh header) 0 FRAME_MANIFEST payload = Inr (mframe, padded)
    \<and> data_frames c l (oc_random os) (dedup_ctx key gh header) profile 1 rows
    \<and> fs_read fs' dst = Inr (gh @ mframe @ concat (map fst rows))
    \<and> distinct (map (\<lambda>(_, _, x). chunk_key c x) rows)
    \<and> set (map (\<lambda>(_, _, x). chunk_key c x) rows) = set (map (chunk_key c) (all_chunks c config view 0 (dm_entries m)))
    \<and> dse_logical_chunk_count stats = length (all_chunks c config view 0 (dm_entries m))
    \<and> dse_unique_chunk_count stats = length rows
    \<and> dse_original_size stats = sum_list (map length (all_chunks c config view 0 (dm_entries m)))
    \<and> dse_dedup_saved_bytes stats + sum_list (map (\<lambda>(_, _, x). length x) rows) = dse_original_size stats"
proof -
  from encode_dedup_Inr[OF enc laws(2) dst cfg] obtain job bytes padded ms where
    job: "dedup_job_ok c u password view config job" and body: "dedup_body c l os config profile job = Inr (bytes, padded, ms)"
    and stats: "stats = dedup_encode_stats l job bytes padded ms"
    and fs': "fs' = published fs dst \<lparr>fl_id = oc_identity os, fl_bytes = bytes, fl_meta = None\<rparr>" by metis
  let ?m = "dj_manifest job" and ?ctx = "dedup_ctx (dj_key job) (dj_global_header job) (dj_header job)"
  from job obtain s where scan: "scan_manifest c u view config = Inr (?m, s)" and dv: "dj_view job = view"
    and gh: "pack_msc3_header (dj_header job) = Inr (dj_global_header job)"
    and count: "m3_frame_count (dj_header job) = 1 + length (canonical_indexes (dm_chunks ?m))"
    and key: "derive_key c password (m3_salt (dj_header job)) (m3_kdf_log_n (dj_header job)) 8 1 = Inr (dj_key job)"
    and payload: "serialize_dedup_manifest ?m = Inr (dj_payload job)" by (auto simp: dedup_job_ok_def)
  note sc = scan_manifest_Inr[OF scan laws(1) view cfg]
  have inv: "scan_inv c (cc_max_size config) (all_chunks c config view 0 (dm_entries ?m)) s" and ch: "dm_chunks ?m = cs_chunks s"
    using sc by blast+
  from body obtain frame out where frame: "emit_frame c (oc_random os) ?ctx 0 FRAME_MANIFEST (dj_payload job) = Inr (frame, padded)"
    and entries: "dedup_entries c l (oc_random os) ?ctx profile config view (cs_chunks s) 0 1 (dm_entries ?m)
      = Inr (out, ms, length (cs_chunks s))"
    and bytes: "bytes = dj_global_header job @ frame @ out" and len: "1 + length ms = m3_frame_count (dj_header job)"
    by (auto simp: dedup_body_def Let_def bindR_eq_Inr dv ch split: if_split_asm)
  from dedup_entries_rows[OF cfg entries] obtain rows where rows: "data_frames c l (oc_random os) ?ctx profile 1 rows"
    "rows_of c (cs_chunks s) 0 (length (cs_chunks s)) rows" "out = concat (map fst rows)" "length ms = length rows" by blast
  note keys = row_keys[OF inv rows(2)]
  have "map (\<lambda>(_, _, x). length x) rows = map snd (map (\<lambda>(_, _, x). chunk_key c x) rows)" by (simp add: case_prod_beta comp_def)
  also have "\<dots> = map length (cs_unique s)" unfolding keys by simp
  finally have lengths: "map (\<lambda>(_, _, x). length x) rows = map length (cs_unique s)" .
  from encode_dedup_counts[OF assms] scan have counts:
    "dse_logical_chunk_count stats = length (all_chunks c config view 0 (dm_entries ?m))"
    "dse_original_size stats = sum_list (map length (all_chunks c config view 0 (dm_entries ?m)))"
    "dse_dedup_saved_bytes stats + sum_list (map length (cs_unique s)) = dse_original_size stats" by auto
  have iv: "distinct (map (chunk_key c) (cs_unique s))"
    "set (map (chunk_key c) (cs_unique s)) = set (map (chunk_key c) (all_chunks c config view 0 (dm_entries ?m)))"
    using inv unfolding scan_inv_def by blast+
  have once: "distinct (map (\<lambda>(_, _, x). chunk_key c x) rows)"
    "set (map (\<lambda>(_, _, x). chunk_key c x) rows) = set (map (chunk_key c) (all_chunks c config view 0 (dm_entries ?m)))"
    unfolding keys by (rule iv)+
  have stored: "fs_read fs' dst = Inr (dj_global_header job @ frame @ concat (map fst rows))"
    by (simp add: fs' fs_read_def bytes rows(3))
  have unique: "dse_unique_chunk_count stats = length rows"
    using len count rows(4) by (simp add: stats dedup_encode_stats_def Let_def)
  have number: "m3_frame_count (dj_header job) = 1 + length rows" using len rows(4) by simp
  show ?thesis
    by (rule exI[of _ ?m], rule exI[of _ s], rule exI[of _ "dj_header job"], rule exI[of _ "dj_global_header job"],
        rule exI[of _ "dj_key job"], rule exI[of _ "dj_payload job"], rule exI[of _ frame], rule exI[of _ padded],
        rule exI[of _ rows], intro conjI)
      (use scan gh key payload frame rows(1) counts[folded lengths] once stored unique number in \<open>simp_all only:\<close>)
qed

section \<open>Errors and inspection\<close>

lemma decode_dedup_atomic:
  assumes "os_law fs os" and "decode_dedup_archive c l u os fs archive dst password mo mf = (Inl e, fs')"
  shows "parents_at_most fs dst fs'"
proof (cases "open_dedup c u fs archive password (Some dst) mo mf")
  case (Inl e')
  with assms(2) show ?thesis by (simp add: decode_dedup_archive_def decode_dedup_def)
next
  case (Inr a)
  define body where "body = (\<lambda>t. bindR (restore_dedup c l a (Some t)) (\<lambda>(out, stats).
    Inr (case out of None \<Rightarrow> t | Some t \<Rightarrow> t, stats)))"
  define check where "check = (\<lambda>fs. if path_matches_file_identity (fs_stat fs dst) (da_identity a)
    then Inl (ValueError ''archive and output paths must be different'') else Inr ())"
  obtain outcome where p: "publish_output fs os dst (dm_kind (da_manifest a)) body check = (outcome, fs')"
    and o: "bindR outcome (\<lambda>(stats, _). Inr stats) = Inl e"
    using assms(2) Inr
    by (auto simp: decode_dedup_archive_def decode_dedup_def body_def check_def split: prod.splits)
  from o obtain e' where "outcome = Inl e'" by (cases outcome) auto
  with p publish_output_error[OF assms(1)] show ?thesis by blast
qed

lemma restore_dedup_inspect:
  assumes "restore_dedup_entries c l ctx kind records i cache es (Some t) s = Inr (out, ms, rest)"
  shows "restore_dedup_entries c l ctx kind records i cache es None s = Inr (None, ms, rest)"
  using assms
proof (induction es arbitrary: i cache t s ms)
  case (Cons e es)
  show ?case
  proof (cases "is_directory_entry e")
    case True
    with Cons show ?thesis by (auto simp: start_directory_def bindR_eq_Inr)
  next
    case False
    with Cons.prems obtain t1 where t1: "start_file kind e (Some t) = Inr (Some t1)"
      by (auto simp: start_file_def bindR_eq_Inr Let_def)
    obtain content ms1 cache1 s1 where
      rd: "read_file_chunks c l ctx records (first_index e) (index_count e) i cache s = Inr (content, ms1, cache1, s1)"
      using Cons.prems False t1 by (auto simp: bindR_eq_Inr)
    have ok: "sha256 c content = digest e" using Cons.prems False t1 rd by (auto split: if_splits)
    obtain t2 where t2: "finish_file kind e content (Some t1) = Inr (Some t2)"
      using Cons.prems False t1 rd ok by (auto simp: finish_file_def bindR_eq_Inr Let_def)
    obtain ms2 where "restore_dedup_entries c l ctx kind records (i + length ms1) cache1 es (Some t2) s1 = Inr (out, ms2, rest)"
      "ms = ms1 @ ms2"
      using Cons.prems False t1 rd ok t2 by (auto simp: bindR_eq_Inr)
    with Cons.IH rd ok False show ?thesis by (simp add: start_file_def finish_file_def)
  qed
qed simp

lemma open_dedup_inspect:
  "open_dedup c u fs archive password (Some d) mo mf = Inr a \<Longrightarrow> open_dedup c u fs archive password None mo mf = Inr a"
  by (auto simp: open_dedup_def bindR_eq_Inr split: option.splits if_splits)

lemma inspect_after_dedup:
  assumes "decode_dedup_archive c l u os fs archive dst password mo mf = (Inr stats, fs')"
  shows "\<exists>info. inspect_dedup_archive c l u os' fs archive password mo mf = Inr info
    \<and> dsi_original_size info = dsd_original_size stats \<and> dsi_block_count info = dsd_block_count stats
    \<and> dsi_file_count info = dsd_file_count stats \<and> dsi_directory_count info = dsd_directory_count stats
    \<and> dsi_mode_distribution info = dsd_mode_distribution stats
    \<and> dsi_dedup_saved_bytes info = dsd_dedup_saved_bytes stats
    \<and> dsi_cross_file_duplicate_chunks info = dsd_cross_file_duplicate_chunks stats"
proof -
  obtain a where a: "open_dedup c u fs archive password (Some dst) mo mf = Inr a"
    using assms by (cases "open_dedup c u fs archive password (Some dst) mo mf")
      (auto simp: decode_dedup_archive_def decode_dedup_def)
  define body where "body = (\<lambda>t. bindR (restore_dedup c l a (Some t)) (\<lambda>(out, stats).
    Inr (case out of None \<Rightarrow> t | Some t \<Rightarrow> t, stats)))"
  define check where "check = (\<lambda>fs. if path_matches_file_identity (fs_stat fs dst) (da_identity a)
    then Inl (ValueError ''archive and output paths must be different'') else Inr ())"
  obtain outcome where p: "publish_output fs os dst (dm_kind (da_manifest a)) body check = (outcome, fs')"
    and o: "bindR outcome (\<lambda>(stats, _). Inr stats) = Inr stats"
    using assms a
    by (auto simp: decode_dedup_archive_def decode_dedup_def body_def check_def split: prod.splits)
  from o obtain info where oc: "outcome = Inr (stats, info)" by (auto simp: bindR_eq_Inr)
  define t0 where "t0 = empty_output (dm_kind (da_manifest a))"
  from publish_output_success[OF p[unfolded oc]] obtain t where
    b: "body t0 = Inr (t, stats, info)" unfolding t0_def by blast
  then obtain out where r: "restore_dedup c l a (Some t0) = Inr (out, stats, info)"
    unfolding body_def by (auto simp: bindR_eq_Inr)
  then obtain out' ms where e: "restore_dedup_entries c l (da_ctx a) (dm_kind (da_manifest a)) (dm_chunks (da_manifest a))
      1 (\<lambda>_. None) (dm_entries (da_manifest a)) (Some t0) (da_stream a) = Inr (out', ms, [])"
    and n: "1 + length ms = m3_frame_count (da_header a)"
    and st: "stats = dedup_decode_stats a ms" "info = dedup_archive_info a ms"
    by (auto simp: restore_dedup_def Let_def bindR_eq_Inr split: if_splits)
  from restore_dedup_inspect[OF e] n have "restore_dedup c l a None = Inr (None, stats, info)"
    by (simp add: restore_dedup_def finish_output_def st)
  with open_dedup_inspect[OF a] have "inspect_dedup_archive c l u os' fs archive password mo mf = Inr info"
    by (simp add: inspect_dedup_archive_def decode_dedup_def)
  then show ?thesis by (simp add: st dedup_decode_stats_def dedup_archive_info_def Let_def)
qed

section \<open>An example: two files with the same contents\<close>

definition example_pair :: source_view where
  "example_pair =
     \<lparr>sv_name = lit ''src'', sv_root_is_file = False,
      sv_entries =
        [\<lparr>se_relative_path = lit ''a'', se_is_directory = False, se_st_mode = 33188, se_size = 3, se_mtime_ns = 5\<rparr>,
         \<lparr>se_relative_path = lit ''b'', se_is_directory = False, se_st_mode = 33152, se_size = 3, se_mtime_ns = 7\<rparr>],
      sv_read = (\<lambda>_ _. Inr [1, 2, 3]), sv_verify = Inr ()\<rparr>"

abbreviation example_digest where "example_digest \<equiv> sha256 example_crypto [1, 2, 3]"

definition example_pair_manifest :: DedupManifest where
  "example_pair_manifest =
     \<lparr>dm_kind = KIND_FOLDER, dm_root_name = lit ''src'',
      dm_entries =
        [\<lparr>entry_type = ENTRY_FILE, relative_path = lit ''a'', entry_mode = 420, mtime_ns = 5,
          entry_size = 3, first_index = 0, index_count = 1, digest = example_digest\<rparr>,
         \<lparr>entry_type = ENTRY_FILE, relative_path = lit ''b'', entry_mode = 384, mtime_ns = 7,
          entry_size = 3, first_index = 1, index_count = 1, digest = example_digest\<rparr>],
      dm_chunks = [\<lparr>cr_digest = example_digest, cr_size = 3, cr_source = 0\<rparr>,
                   \<lparr>cr_digest = example_digest, cr_size = 3, cr_source = 0\<rparr>]\<rparr>"

lemma example_pair_paths:
  "validate_relative_path ascii_tables (lit ''a'') = Inr (lit ''a'')"
  "validate_relative_path ascii_tables (lit ''b'') = Inr (lit ''b'')"
  "posix_components (lit ''a'') = [lit ''a'']" "posix_components (lit ''b'') = [lit ''b'']"
  by (auto simp: validate_relative_path_def ascii_tables_def lit_def Let_def utf8_char_def
      posix_is_absolute_def posix_components_def validate_part_def INVALID_WINDOWS_CHARS_def
      part_stem_def ascii_upper_def RESERVED_WINDOWS_NAMES_def)

lemma example_pair_portable: "portable_view ascii_tables example_pair"
  by (simp add: portable_view_def example_pair_def example_pair_paths example_parts Let_def)

lemma example_config:
  "valid_chunking DEFAULT_CHUNKING" "cc_max_size DEFAULT_CHUNKING = 262144"
  "content_defined_chunks example_crypto DEFAULT_CHUNKING [1, 2, 3] = [[1, 2, 3]]"
  by (simp_all add: valid_chunking_def content_defined_chunks_def) (simp_all add: DEFAULT_CHUNKING_def)

lemma example_pair_fields:
  "sv_read example_pair i rel = Inr [1, 2, 3]" "sv_verify example_pair = Inr ()" "sv_name example_pair = lit ''src''"
  "\<not> sv_root_is_file example_pair" "lit ''a'' \<in> session_paths example_pair" "lit ''b'' \<in> session_paths example_pair"
  by (simp_all add: example_pair_def session_paths_def)

text \<open>Every view that shows the pair, whatever it answers for other paths.\<close>

definition pair_view :: "source_view \<Rightarrow> bool" where
  "pair_view v \<longleftrightarrow> sv_name v = lit ''src'' \<and> \<not> sv_root_is_file v \<and> sv_entries v = sv_entries example_pair
     \<and> sv_verify v = Inr () \<and> portable_view ascii_tables v
     \<and> (\<forall>i. sv_read v i (lit ''a'') = Inr [1, 2, 3] \<and> sv_read v i (lit ''b'') = Inr [1, 2, 3])
     \<and> (\<forall>i rel. sv_read v i rel = sv_read v 0 rel) \<and> (\<forall>i rel data. sv_read v i rel = Inr data \<longrightarrow> data = [1, 2, 3])"

lemma example_pair_view: "pair_view example_pair"
  by (simp add: pair_view_def example_pair_fields example_pair_portable)

lemma pair_view_scan:
  assumes v: "pair_view v"
  shows "\<exists>s. scan_manifest example_crypto ascii_tables v DEFAULT_CHUNKING = Inr (example_pair_manifest, s)
    \<and> cs_unique s = [[1, 2, 3]]"
proof -
  have keys: "casefold ascii_tables (lit ''b'') \<noteq> casefold ascii_tables (lit ''a'')"
    by (simp add: ascii_tables_def lit_def ascii_lower_def)
  have entries: "sv_entries v =
      [\<lparr>se_relative_path = lit ''a'', se_is_directory = False, se_st_mode = 33188, se_size = 3, se_mtime_ns = 5\<rparr>,
       \<lparr>se_relative_path = lit ''b'', se_is_directory = False, se_st_mode = 33152, se_size = 3, se_mtime_ns = 7\<rparr>]"
    and fields: "sv_name v = lit ''src''" "\<not> sv_root_is_file v"
    using v by (simp_all add: pair_view_def example_pair_def)
  have paths: "lit ''a'' \<in> session_paths v" "lit ''b'' \<in> session_paths v" by (simp_all add: session_paths_def entries)
  let ?e = "\<lambda>p m t k. \<lparr>entry_type = ENTRY_FILE, relative_path = lit p, entry_mode = m, mtime_ns = t,
      entry_size = 3, first_index = k, index_count = 1, digest = ZERO_HASH\<rparr>"
  have base: "scan_session example_crypto ascii_tables v 262144 False
      = Inr \<lparr>mf_kind = KIND_FOLDER, mf_root_name = lit ''src'', mf_entries = [?e ''a'' 420 5 1, ?e ''b'' 384 7 2]\<rparr>"
    using keys paths by (simp add: scan_session_def fields entries example_paths example_pair_paths Let_def
        entry_metadata_of_def session_path_def S_ISREG_def S_IFMT_def S_IMODE_def is_file_entry_def)
  have it: "iter_content_defined_chunks example_crypto DEFAULT_CHUNKING [1, 2, 3] = Inr [[1, 2, 3]]"
    unfolding iter_cdc_ref[OF example_config(1)] example_config(3) ..
  have opened: "session_open v 0 (lit ''a'') = Inr [1, 2, 3]" "session_open v 0 (lit ''b'') = Inr [1, 2, 3]"
    using v paths by (simp_all add: session_open_def pair_view_def)
  show ?thesis
    by (simp add: scan_manifest_def example_config base is_directory_entry_def fields session_path_def opened it
        scan_chunk_def empty_scan_def Let_def example_pair_manifest_def paths)
qed

lemmas example_pair_scan = pair_view_scan[OF example_pair_view]

lemma example_pair_serialize:
  "\<exists>payload. serialize_dedup_manifest example_pair_manifest = Inr payload \<and> length payload < 1000"
proof -
  have utf8: "utf8_encode (lit ''src'') = Inr [115, 114, 99]" "utf8_encode (lit ''a'') = Inr [97]"
    "utf8_encode (lit ''b'') = Inr [98]"
    by (simp_all add: lit_def utf8_char_def)
  obtain a where a: "struct_pack DEDUP_MANIFEST_PREFIX [VB DEDUP_MANIFEST_MAGIC, VU 2, VU (Suc (Suc (Suc 0))),
      VU (Suc (Suc 0)), VU (Suc (Suc 0))] = Inr a"
    by (simp add: struct_pack_def)
  let ?es = "dm_entries example_pair_manifest"
  obtain b where b: "struct_pack ENTRY_FIXED (entry_values (?es ! 0) [97]) = Inr b"
    by (simp add: struct_pack_def entry_values_def example_pair_manifest_def)
  obtain d where d: "struct_pack ENTRY_FIXED (entry_values (?es ! 1) [98]) = Inr d"
    by (simp add: struct_pack_def entry_values_def example_pair_manifest_def)
  obtain r where r: "struct_pack CHUNK_RECORD [VB example_digest, VU 3, VU 0] = Inr r"
    by (simp add: struct_pack_def)
  have "length a = 19" "length b = 67" "length d = 67" "length r = 44"
    using struct_pack_length[OF a] struct_pack_length[OF b] struct_pack_length[OF d] struct_pack_length[OF r]
    by (simp_all add: struct_size_def)
  then show ?thesis using a b d r by (simp add: serialize_dedup_manifest_def example_pair_manifest_def utf8)
qed

lemma example_pair_setup:
  "normalize_password (PBytes [112]) = Inr [112]"
  "check_output_path example_fs (lit ''src'') True (lit ''arc'') = Inr ()"
  "check_session_output example_fs (lit ''src'') True (lit ''arc'') example_pair = Inr ()"
  "writable_path example_fs (lit ''arc'')"
  "canonical_indexes (dm_chunks example_pair_manifest) = [0]"
  "total_size (dm_entries example_pair_manifest) = 6"
  using example_encode_setup
  by (simp_all add: check_session_output_def canonical_indexes_def total_size_def example_pair_manifest_def)

lemma example_pair_blocks:
  "\<forall>rel data. sv_read example_pair i rel = Inr data \<longrightarrow>
     (\<forall>b\<in>set (content_defined_chunks example_crypto DEFAULT_CHUNKING data). block_ok example_clib b)"
  by (simp add: example_pair_fields example_config)

lemma example_pair_chunks:
  "all_chunks example_crypto DEFAULT_CHUNKING example_pair k (dm_entries example_pair_manifest) = [[1, 2, 3], [1, 2, 3]]"
  by (simp add: all_chunks_def entry_chunks_def example_pair_manifest_def is_file_entry_def entry_data_def
      session_key_def session_open_def session_path_def example_pair_fields example_config)

lemma single_row:
  assumes "distinct (map f rows)" and "set (map f rows) = {key}"
  obtains row where "rows = [row]" and "f row = key"
proof -
  have "length rows = 1" using distinct_card[OF assms(1)] unfolding assms(2) by simp
  then obtain row where "rows = [row]" by (auto simp: length_Suc_conv)
  with assms that show thesis by simp
qed

lemma pair_view_dedup:
  assumes v: "pair_view v"
  shows "\<exists>stats fs1. encode_dedup_archive example_crypto example_clib ascii_tables example_os example_fs (lit ''src'') True
      (Inr v) (lit ''arc'') (PBytes [112]) DEFAULT_CHUNKING 256 14 ''balanced'' = (Inr stats, fs1)
    \<and> dse_original_size stats = 6 \<and> dse_block_count stats = 1"
proof -
  obtain payload where payload: "serialize_dedup_manifest example_pair_manifest = Inr payload" "length payload < 1000"
    using example_pair_serialize by blast
  obtain s where scan: "scan_manifest example_crypto ascii_tables v DEFAULT_CHUNKING = Inr (example_pair_manifest, s)"
    using pair_view_scan[OF v] by blast
  have "\<forall>b\<in>set (content_defined_chunks example_crypto DEFAULT_CHUNKING [1, 2, 3]). block_ok example_clib b"
    using example_pair_blocks[of 0] by (simp add: example_pair_fields)
  then have pair: "portable_view ascii_tables v" "sv_verify v = Inr ()" "\<forall>rel. sv_read v 1 rel = sv_read v 0 rel"
    "\<forall>rel data. sv_read v 0 rel = Inr data \<longrightarrow> (\<forall>b\<in>set (content_defined_chunks example_crypto DEFAULT_CHUNKING data). block_ok example_clib b)"
    using v unfolding pair_view_def by blast+
  have "check_session_output example_fs (lit ''src'') True (lit ''arc'') v = Inr ()" by (simp add: check_session_output_def)
  from encode_dedup_total[OF example_pair_setup(1) _ _ _ _ _ example_pair_setup(2) this scan _ payload(1) _ example_crypto_laws example_os_law
      pair(1) example_config(1) pair(4,3,2) example_pair_setup(4), of 256 14 "''balanced''"] payload(2)
  show ?thesis by (simp add: example_pair_setup)
qed

lemmas example_dedup_encodes = pair_view_dedup[OF example_pair_view]

lemma example_dedup_files:
  assumes "encode_dedup_archive example_crypto example_clib ascii_tables example_os example_fs (lit ''src'') True
      (Inr view) (lit ''arc'') (PBytes [112]) DEFAULT_CHUNKING 256 14 ''balanced'' = (Inr stats, fs1)"
  shows "os_law fs1 example_os'" and "fresh_path fs1 (lit ''out'')" and "fs_resolve fs1 = fs_resolve example_fs"
proof -
  obtain bytes where "fs1 = published example_fs (lit ''arc'')
      \<lparr>fl_id = oc_identity example_os, fl_bytes = bytes, fl_meta = None\<rparr>"
    by (rule encode_dedup_Inr[OF assms example_os_law example_msc1_names(2) example_config(1)])
  then show "os_law fs1 example_os'" and "fresh_path fs1 (lit ''out'')" and "fs_resolve fs1 = fs_resolve example_fs"
    by (simp_all add: published_example)
qed

lemma example_pair_strings: "inj_on (sha256 example_crypto) (source_strings example_crypto DEFAULT_CHUNKING example_pair)"
proof -
  have "source_strings example_crypto DEFAULT_CHUNKING example_pair \<subseteq> {[1, 2, 3]}"
    by (auto simp: source_strings_def example_pair_fields example_config)
  then show ?thesis by (auto intro: inj_onI)
qed

lemma example_dedup_decodes:
  "\<exists>fs1 ds fs2. decode_dedup_archive example_crypto example_clib ascii_tables example_os' fs1 (lit ''arc'') (lit ''out'')
      (PBytes [112]) 1000 1000 = (Inr ds, fs2) \<and> dsd_original_size ds = 6"
proof -
  obtain stats fs1 where enc: "encode_dedup_archive example_crypto example_clib ascii_tables example_os example_fs (lit ''src'')
      True (Inr example_pair) (lit ''arc'') (PBytes [112]) DEFAULT_CHUNKING 256 14 ''balanced'' = (Inr stats, fs1)"
    and sizes: "dse_original_size stats = 6" "dse_block_count stats = 1" using example_dedup_encodes by blast
  have "\<exists>ds fs2. decode_dedup_archive example_crypto example_clib ascii_tables example_os' fs1 (lit ''arc'') (lit ''out'')
      (PBytes [112]) 1000 1000 = (Inr ds, fs2)
    \<and> dedup_stats_agree stats ds \<and> source_restored example_pair example_os' (lit ''out'') fs1 fs2"
    by (rule dedup_restores[OF enc])
      (use example_pair_blocks example_pair_strings in \<open>simp_all add: example_crypto_laws example_os_law
        example_dedup_files[OF enc] sizes example_pair_portable example_config example_msc1_names\<close>)
  then show ?thesis using sizes by (auto simp: dedup_stats_agree_def)
qed

section \<open>Properties\<close>

text \<open>C2: MSC6 restores what it stored: for every source (a file or a whole folder tree) that is seen as a session shows a quiet tree and whose names are in Unicode normal form C (\<open>portable_view\<close>), whose contents and chunks the digest tells apart and whose chunks zlib restores, the archive that an encode published decodes, under the same password and sufficient limits, at a free destination, to exactly the source, although every repeated chunk was stored only where it first occurred, and the decoder reports the counts, sizes, modes and savings (also those across files) that the encoder reported. The encoder forgets the length field when it checks the manifest, so the padding size must be a multiple of 16 or the archive at most 256 MiB long.\<close>

lemma msc6_roundtrip:
  assumes "encode_dedup_archive c l u os fs source is_dir (Inr view) archive password config padding log_n profile = (Inr stats, fs1)"
    and "aead_law c" "digest_law c" "os_law fs os" "os_law fs1 os'" and "portable_view u view"
    and "valid_chunking config" and "padding_fits (nat padding) (dse_archive_size stats)"
    and "\<forall>rel data. sv_read view 1 rel = Inr data \<longrightarrow> (\<forall>b\<in>set (content_defined_chunks c config data). block_ok l b)"
    and "inj_on (sha256 c) (source_strings c config view)"
    and "archive \<noteq> oc_temporary os" "restored \<noteq> oc_temporary os'" and "fresh_path fs1 restored"
    and "int (dse_original_size stats) \<le> mo" "0 < mo" "int (dse_block_count stats) \<le> mf" "0 < mf"
  shows "\<exists>ds fs2. decode_dedup_archive c l u os' fs1 archive restored password mo mf = (Inr ds, fs2)
    \<and> dedup_stats_agree stats ds
    \<and> (if sv_root_is_file view
       then \<exists>se data. sv_entries view = [se] \<and> sv_read view 1 [] = Inr data
         \<and> fs2 = published fs1 restored \<lparr>fl_id = oc_identity os', fl_bytes = data,
             fl_meta = Some (S_IMODE (se_st_mode se) mod 512, se_mtime_ns se)\<rparr>
       else fs2 = folder_published fs1 restored (source_tree view))"
  using dedup_restores[OF assms] unfolding source_restored_def .

lemma msc6_roundtrip_witness:
  "\<exists>stats fs1 ds fs2 t.
     encode_dedup_archive example_crypto example_clib ascii_tables example_os example_fs (lit ''src'') True
       (Inr example_pair) (lit ''arc'') (PBytes [112]) DEFAULT_CHUNKING 256 14 ''balanced'' = (Inr stats, fs1)
     \<and> decode_dedup_archive example_crypto example_clib ascii_tables example_os' fs1 (lit ''arc'') (lit ''out'')
         (PBytes [112]) 1000 1000 = (Inr ds, fs2)
     \<and> dsd_block_count ds = 1
     \<and> fs_trees fs2 (lit ''out'') = Some t
     \<and> t [lit ''b''] = Some (TFile [1, 2, 3] (Some (384, 7)))"
proof -
  obtain stats fs1 where enc: "encode_dedup_archive example_crypto example_clib ascii_tables example_os example_fs (lit ''src'')
      True (Inr example_pair) (lit ''arc'') (PBytes [112]) DEFAULT_CHUNKING 256 14 ''balanced'' = (Inr stats, fs1)"
    and sizes: "dse_original_size stats = 6" "dse_block_count stats = 1" using example_dedup_encodes by blast
  have "\<exists>ds fs2. decode_dedup_archive example_crypto example_clib ascii_tables example_os' fs1 (lit ''arc'') (lit ''out'')
      (PBytes [112]) 1000 1000 = (Inr ds, fs2)
    \<and> dedup_stats_agree stats ds
    \<and> (if sv_root_is_file example_pair
       then \<exists>se data. sv_entries example_pair = [se] \<and> sv_read example_pair 1 [] = Inr data
         \<and> fs2 = published fs1 (lit ''out'') \<lparr>fl_id = oc_identity example_os', fl_bytes = data,
             fl_meta = Some (S_IMODE (se_st_mode se) mod 512, se_mtime_ns se)\<rparr>
       else fs2 = folder_published fs1 (lit ''out'') (source_tree example_pair))"
    by (rule msc6_roundtrip[OF enc])
      (use example_pair_blocks example_pair_strings in \<open>simp_all add: example_crypto_laws example_os_law
        example_dedup_files[OF enc] sizes example_pair_portable example_config example_msc1_names\<close>)
  then obtain ds fs2 where dec: "decode_dedup_archive example_crypto example_clib ascii_tables example_os' fs1 (lit ''arc'')
      (lit ''out'') (PBytes [112]) 1000 1000 = (Inr ds, fs2)" and agree: "dedup_stats_agree stats ds"
    and fs2: "fs2 = folder_published fs1 (lit ''out'') (source_tree example_pair)"
    by (auto simp: example_pair_fields)
  have "source_tree example_pair [lit ''b''] = Some (TFile [1, 2, 3] (Some (384, 7)))"
    by (simp add: source_tree_def example_pair_def example_pair_paths source_node_def Let_def S_IMODE_def) (simp add: lit_def)
  with agree sizes show ?thesis
    by (intro exI[of _ stats] exI[of _ fs1] exI[of _ ds] exI[of _ fs2] exI[of _ "source_tree example_pair"])
      (simp add: enc dec fs2 dedup_stats_agree_def)
qed

text \<open>C14: Deduplication stores each distinct chunk once: the archive that a successful MSC6 encode of a portable source publishes consists of the global header, the manifest frame and one data frame per distinct pair of digest and size among the content-defined chunks of all files, no pair twice and none left out; the \<open>i\<close>-th frame is sealed with the key of the password under its own index and holds such a chunk in the mode that the profile chooses, below the number under which the manifest refers to it. The original size is the sum of all chunks, and the bytes reported as saved are exactly those of the chunks that were not written.\<close>

lemma msc6_stores_chunks_once:
  assumes "encode_dedup_archive c l u os fs source is_dir (Inr view) dst password config padding log_n profile = (Inr stats, fs')"
    and "digest_law c" "os_law fs os" and "dst \<noteq> oc_temporary os"
    and "valid_chunking config" and "portable_view u view"
  shows "\<exists>m s header gh key payload mframe padded rows. scan_manifest c u view config = Inr (m, s)
    \<and> pack_msc3_header header = Inr gh \<and> m3_frame_count header = 1 + length rows
    \<and> derive_key c password (m3_salt header) (m3_kdf_log_n header) 8 1 = Inr key
    \<and> serialize_dedup_manifest m = Inr payload
    \<and> emit_frame c (oc_random os) (dedup_ctx key gh header) 0 FRAME_MANIFEST payload = Inr (mframe, padded)
    \<and> data_frames c l (oc_random os) (dedup_ctx key gh header) profile 1 rows
    \<and> fs_read fs' dst = Inr (gh @ mframe @ concat (map fst rows))
    \<and> distinct (map (\<lambda>(_, _, x). (sha256 c x, length x)) rows)
    \<and> set (map (\<lambda>(_, _, x). (sha256 c x, length x)) rows)
        = set (map (\<lambda>x. (sha256 c x, length x)) (all_chunks c config view 0 (dm_entries m)))
    \<and> dse_logical_chunk_count stats = length (all_chunks c config view 0 (dm_entries m))
    \<and> dse_unique_chunk_count stats = length rows
    \<and> dse_original_size stats = sum_list (map length (all_chunks c config view 0 (dm_entries m)))
    \<and> dse_dedup_saved_bytes stats + sum_list (map (\<lambda>(_, _, x). length x) rows) = dse_original_size stats"
  by (rule encode_dedup_writes[OF assms])

lemma msc6_stores_chunks_once_witness:
  "\<exists>stats fs1 frame k chunk ctx header.
     encode_dedup_archive example_crypto example_clib ascii_tables example_os example_fs (lit ''src'') True
       (Inr example_pair) (lit ''arc'') (PBytes [112]) DEFAULT_CHUNKING 256 14 ''balanced'' = (Inr stats, fs1)
    \<and> dse_logical_chunk_count stats = 2 \<and> dse_unique_chunk_count stats = 1 \<and> dse_dedup_saved_bytes stats = 3
    \<and> data_frame_of example_crypto example_clib (oc_random example_os) ctx ''balanced'' 1 frame k chunk
    \<and> fs_read fs1 (lit ''arc'') = Inr (header @ frame)
    \<and> (sha256 example_crypto chunk, length chunk) = (sha256 example_crypto [1, 2, 3], 3)"
proof -
  let ?c = example_crypto
  obtain stats fs1 where enc: "encode_dedup_archive ?c example_clib ascii_tables example_os example_fs (lit ''src'')
      True (Inr example_pair) (lit ''arc'') (PBytes [112]) DEFAULT_CHUNKING 256 14 ''balanced'' = (Inr stats, fs1)"
    and sizes: "dse_original_size stats = 6" using example_dedup_encodes by blast
  from msc6_stores_chunks_once[OF enc example_crypto_laws(2) example_os_law example_msc1_names(2) example_config(1)
      example_pair_portable]
  obtain m s gh mframe rows ctx where scan: "scan_manifest ?c ascii_tables example_pair DEFAULT_CHUNKING = Inr (m, s)"
    and frames: "data_frames ?c example_clib (oc_random example_os) ctx ''balanced'' 1 rows"
    and arc: "fs_read fs1 (lit ''arc'') = Inr (gh @ mframe @ concat (map fst rows))"
    and once: "distinct (map (\<lambda>(_, _, x). (sha256 ?c x, length x)) rows)"
    and keys: "set (map (\<lambda>(_, _, x). (sha256 ?c x, length x)) rows)
      = set (map (\<lambda>x. (sha256 ?c x, length x)) (all_chunks ?c DEFAULT_CHUNKING example_pair 0 (dm_entries m)))"
    and counts: "dse_logical_chunk_count stats = length (all_chunks ?c DEFAULT_CHUNKING example_pair 0 (dm_entries m))"
      "dse_unique_chunk_count stats = length rows"
      "dse_dedup_saved_bytes stats + sum_list (map (\<lambda>(_, _, x). length x) rows) = dse_original_size stats"
    by (elim exE conjE) (rule that)
  have m: "m = example_pair_manifest" using scan example_pair_scan by auto
  have chunks: "all_chunks ?c DEFAULT_CHUNKING example_pair 0 (dm_entries m) = [[1, 2, 3], [1, 2, 3]]"
    by (simp add: m example_pair_chunks)
  from keys chunks have "set (map (\<lambda>(_, _, x). (sha256 ?c x, length x)) rows) = {(sha256 ?c [1, 2, 3], 3)}" by simp
  with once obtain row where "rows = [row]" and "(\<lambda>(_, _, x). (sha256 ?c x, length x)) row = (sha256 ?c [1, 2, 3], 3)"
    by (rule single_row)
  then obtain frame k chunk where rows: "rows = [(frame, k, chunk)]"
    and key: "(sha256 ?c chunk, length chunk) = (sha256 ?c [1, 2, 3], 3)" by (cases row) auto
  show ?thesis
    by (rule exI[of _ stats], rule exI[of _ fs1], rule exI[of _ frame], rule exI[of _ k], rule exI[of _ chunk],
        rule exI[of _ ctx], rule exI[of _ "gh @ mframe"])
      (use enc sizes frames arc counts key chunks in \<open>simp add: rows\<close>)
qed

end
