(* ===== verification/SolidLanes.thy ===== *)
theory SolidLanes
  imports Features Padding
begin

text \<open>
  The solid lanes of the MSR1 container (\<^verbatim>\<open>solid_research.py\<close>): every chunk is routed to one of
  three lanes by its byte statistics, and each lane is compressed as one stream. LZMA is a
  parameter with the round trip that the code relies on. Entropies are exact rationals over a
  parameter \<open>log2\<close>, where the code rounds: at a threshold the model may route a chunk to another
  lane than the code, which none of the theorems depends on.
\<close>

section \<open>The compression library\<close>

text \<open>
  \<^verbatim>\<open>lzma.compress\<close> with the default preset, the raw compressor behind the delta filter of distance
  four, and what a fresh decompressor (the flag says whether it is the raw one) makes of a payload
  when at most so many bytes are wanted: the output, whether it saw the end of the stream, and the
  unused data, or an error.
\<close>

record lzma =
  lzma_xz :: "bytes \<Rightarrow> bytes"
  lzma_delta4 :: "bytes \<Rightarrow> bytes"
  lzma_open :: "bool \<Rightarrow> bytes \<Rightarrow> nat \<Rightarrow> (bytes \<times> bool \<times> bytes) option"

definition lzma_law :: "lzma \<Rightarrow> bool" where
  "lzma_law z \<longleftrightarrow> (\<forall>data. data \<noteq> [] \<longrightarrow>
     lzma_open z False (lzma_xz z data) (length data + 1) = Some (data, True, [])
     \<and> lzma_open z True (lzma_delta4 z data) (length data + 1) = Some (data, True, []))"

section \<open>Routing\<close>

abbreviation STANDARD where "STANDARD \<equiv> (0 :: nat)"
abbreviation DELTA4 where "DELTA4 \<equiv> (1 :: nat)"
abbreviation HIGH_ENTROPY where "HIGH_ENTROPY \<equiv> (2 :: nat)"
abbreviation LANE_COUNT where "LANE_COUNT \<equiv> (3 :: nat)"
abbreviation DELTA_EXACT_OBSERVATION_LIMIT where "DELTA_EXACT_OBSERVATION_LIMIT \<equiv> (8192 :: nat)"
abbreviation DELTA_SAMPLE_WINDOW_COUNT where "DELTA_SAMPLE_WINDOW_COUNT \<equiv> (15 :: nat)"
abbreviation DELTA_SAMPLE_OBSERVATIONS_PER_WINDOW where
  "DELTA_SAMPLE_OBSERVATIONS_PER_WINDOW \<equiv> (273 :: nat)"
abbreviation DELTA_SAMPLE_WINDOW_BYTES where "DELTA_SAMPLE_WINDOW_BYTES \<equiv> (277 :: nat)"
abbreviation DELTA_SAMPLE_GOLDEN_STEP where "DELTA_SAMPLE_GOLDEN_STEP \<equiv> (11400714819323198485 :: nat)"

text \<open>The entropy of symbols with a given number of observations.\<close>

definition entropy_over :: "(rat \<Rightarrow> rat) \<Rightarrow> nat \<Rightarrow> bytes \<Rightarrow> rat" where
  "entropy_over log2 n xs =
     - sum_list (map (\<lambda>s. let q = of_nat (count_list xs s) / of_nat n in q * log2 q) (counter_keys xs))"

definition byte_entropy :: "(rat \<Rightarrow> rat) \<Rightarrow> bytes \<Rightarrow> rat" where
  "byte_entropy log2 chunk = entropy_over log2 (length chunk) chunk"

text \<open>\<^verbatim>\<open>(chunk[index] - chunk[index - 4]) & 0xFF\<close> from the fifth byte on.\<close>

definition delta4_values :: "bytes \<Rightarrow> bytes" where
  "delta4_values chunk = map2 (\<lambda>previous current. current - previous) chunk (drop 4 chunk)"

definition delta4_entropy :: "(rat \<Rightarrow> rat) \<Rightarrow> bytes \<Rightarrow> rat" where
  "delta4_entropy log2 chunk =
     (if length chunk \<le> 4 then 0 else entropy_over log2 (length chunk - 4) (delta4_values chunk))"

fun sample_starts :: "nat \<Rightarrow> nat \<Rightarrow> nat list \<Rightarrow> nat list" where
  "sample_starts n seed [] = []"
| "sample_starts n seed (index # indexes) =
     (let region_start = index * n div DELTA_SAMPLE_WINDOW_COUNT;
          region_end = (index + 1) * n div DELTA_SAMPLE_WINDOW_COUNT;
          available_starts = region_end - region_start - DELTA_SAMPLE_WINDOW_BYTES + 1;
          seed = (seed + DELTA_SAMPLE_GOLDEN_STEP) mod 2 ^ 64
      in (region_start + seed mod available_starts) # sample_starts n seed indexes)"

definition delta_sample_window_starts :: "crypto \<Rightarrow> bytes \<Rightarrow> nat list" where
  "delta_sample_window_starts c chunk =
     sample_starts (length chunk) (be_decode (take 8 (sha256 c chunk))) [0..<DELTA_SAMPLE_WINDOW_COUNT]"

text \<open>
  The loop over the windows: the deltas and bytes sampled so far and the range of the advantages
  (\<open>None\<close> before the first window, where the code has infinities).
\<close>

fun sampled_entropies ::
  "(rat \<Rightarrow> rat) \<Rightarrow> bytes \<Rightarrow> nat list \<Rightarrow> bytes \<Rightarrow> bytes \<Rightarrow> (rat \<times> rat) option \<Rightarrow> (rat \<times> rat) option" where
  "sampled_entropies log2 chunk [] deltas sampled extremes =
     Some (entropy_over log2 (length deltas) deltas, byte_entropy log2 sampled)"
| "sampled_entropies log2 chunk (start # starts) deltas sampled extremes =
     (let window = take DELTA_SAMPLE_WINDOW_BYTES (drop start chunk);
          window_deltas = delta4_values window;
          window_delta_entropy = entropy_over log2 DELTA_SAMPLE_OBSERVATIONS_PER_WINDOW window_deltas;
          advantage = byte_entropy log2 window - window_delta_entropy;
          least = (case extremes of None \<Rightarrow> advantage | Some (lo, hi) \<Rightarrow> min lo advantage);
          most = (case extremes of None \<Rightarrow> advantage | Some (lo, hi) \<Rightarrow> max hi advantage)
      in if most - least > 1 then None
         else sampled_entropies log2 chunk starts (deltas @ window_deltas) (sampled @ window) (Some (least, most)))"

definition exact_lane :: "(rat \<Rightarrow> rat) \<Rightarrow> bytes \<Rightarrow> rat \<Rightarrow> nat" where
  "exact_lane log2 chunk entropy = (if entropy - delta4_entropy log2 chunk \<ge> 2 then DELTA4 else STANDARD)"

definition choose_solid_lane :: "crypto \<Rightarrow> (rat \<Rightarrow> rat) \<Rightarrow> bytes \<Rightarrow> nat" where
  "choose_solid_lane c log2 chunk =
     (if chunk = [] then STANDARD
      else let entropy = byte_entropy log2 chunk
      in if entropy \<ge> 775 / 100 then HIGH_ENTROPY
         else if entropy < 3 then STANDARD
         else if int (length chunk) - 4 \<le> int DELTA_EXACT_OBSERVATION_LIMIT then exact_lane log2 chunk entropy
         else case sampled_entropies log2 chunk (delta_sample_window_starts c chunk) [] [] None of
                None \<Rightarrow> exact_lane log2 chunk entropy
              | Some (sampled_delta_entropy, sampled_byte_entropy) \<Rightarrow>
                  let advantage = entropy - sampled_delta_entropy;
                      lane = (if advantage \<ge> 2 + 1 / 4 then Some DELTA4
                              else if advantage \<le> 2 - 1 / 4 then Some STANDARD else None)
                  in case lane of
                       None \<Rightarrow> exact_lane log2 chunk entropy
                     | Some lane \<Rightarrow>
                         if \<bar>entropy - sampled_byte_entropy\<bar> \<le> 1 then lane
                         else exact_lane log2 chunk entropy)"

section \<open>Encoding\<close>

abbreviation SLZ_MAGIC where "SLZ_MAGIC \<equiv> ([83, 76, 90, 49] :: bytes)"
abbreviation SLZ_HEADER where "SLZ_HEADER \<equiv> [FBytes 4, FUInt 4]"
abbreviation SLZ_DESCRIPTOR where "SLZ_DESCRIPTOR \<equiv> [FUInt 1, FUInt 4]"
abbreviation SLZ_LANE_HEADER where "SLZ_LANE_HEADER \<equiv> [FUInt 8, FUInt 8]"
abbreviation SLZ_MAX_CHUNKS where "SLZ_MAX_CHUNKS \<equiv> (1000000 :: nat)"
abbreviation SLZ_MAX_CHUNK_SIZE where "SLZ_MAX_CHUNK_SIZE \<equiv> (16777216 :: nat)"

record SolidLaneEncoding =
  sl_payload :: bytes
  sl_lane_distribution :: "(string \<times> nat) list"
  sl_raw_size :: nat

definition compress_standard :: "lzma \<Rightarrow> bytes \<Rightarrow> bytes" where
  "compress_standard z data = (if data \<noteq> [] then lzma_xz z data else [])"

definition compress_delta4 :: "lzma \<Rightarrow> bytes \<Rightarrow> bytes" where
  "compress_delta4 z data = (if data \<noteq> [] then lzma_delta4 z data else [])"

text \<open>A lane is the concatenation of the chunks routed to it.\<close>

definition lane_bytes :: "nat \<Rightarrow> (nat \<times> bytes) list \<Rightarrow> bytes" where
  "lane_bytes lane routed = concat (map snd (filter (\<lambda>(l, chunk). l = lane) routed))"

definition lane_count :: "nat \<Rightarrow> (nat \<times> bytes) list \<Rightarrow> nat" where
  "lane_count lane routed = length (filter (\<lambda>(l, chunk). l = lane) routed)"

definition encode_solid_chunks ::
  "lzma \<Rightarrow> crypto \<Rightarrow> (rat \<Rightarrow> rat) \<Rightarrow> bytes list \<Rightarrow> SolidLaneEncoding result" where
  "encode_solid_chunks z c log2 chunks =
     (if length chunks > SLZ_MAX_CHUNKS
      then Inl (ValueError ''solid research chunk count exceeds the safety limit'')
      else if list_ex (\<lambda>chunk. length chunk > SLZ_MAX_CHUNK_SIZE) chunks
      then Inl (ValueError ''solid research chunk exceeds the 16 MiB safety limit'')
      else let routed = map (\<lambda>chunk. (choose_solid_lane c log2 chunk, chunk)) chunks;
               lanes = map (\<lambda>lane. lane_bytes lane routed) [STANDARD, DELTA4, HIGH_ENTROPY];
               compressed = [compress_standard z (lanes ! STANDARD), compress_delta4 z (lanes ! DELTA4),
                             compress_standard z (lanes ! HIGH_ENTROPY)]
      in bindR (struct_pack SLZ_HEADER [VB SLZ_MAGIC, VU (length chunks)]) (\<lambda>header.
         bindR (mapR (\<lambda>(lane, chunk). struct_pack SLZ_DESCRIPTOR [VU lane, VU (length chunk)]) routed) (\<lambda>descriptors.
         bindR (mapR (\<lambda>(raw, data). struct_pack SLZ_LANE_HEADER [VU (length raw), VU (length data)])
                  (zip lanes compressed)) (\<lambda>headers.
           Inr \<lparr>sl_payload = header @ concat descriptors @ concat headers @ concat compressed,
                sl_lane_distribution = [(''standard'', lane_count STANDARD routed), (''delta4'', lane_count DELTA4 routed),
                  (''high_entropy'', lane_count HIGH_ENTROPY routed)],
                sl_raw_size = sum_list (map length chunks)\<rparr>))))"

section \<open>Decoding\<close>

definition decompress_lane :: "lzma \<Rightarrow> bytes \<Rightarrow> nat \<Rightarrow> nat \<Rightarrow> bytes result" where
  "decompress_lane z payload expected_size lane =
     (if expected_size = 0
      then if payload \<noteq> [] then Inl (ArchiveFormatError ''empty solid lane has a payload'') else Inr []
      else case lzma_open z (lane = DELTA4) payload (expected_size + 1) of
             None \<Rightarrow> Inl (ArchiveFormatError ''solid lane payload is malformed'')
           | Some (out, eof, unused_data) \<Rightarrow>
               if length out \<noteq> expected_size \<or> \<not> eof \<or> unused_data \<noteq> []
               then Inl (ArchiveFormatError ''solid lane decoded size is inconsistent'') else Inr out)"

text \<open>The loops of the decoder, each with the unread rest of the payload.\<close>

fun read_descriptors :: "nat list \<Rightarrow> bytes \<Rightarrow> ((nat \<times> nat) list \<times> bytes) result" where
  "read_descriptors [] stream = Inr ([], stream)"
| "read_descriptors (expected_size # sizes) stream =
     bindR (struct_unpack_from SLZ_DESCRIPTOR stream 0) (\<lambda>vs.
       let lane = uval (vs ! 0); n = uval (vs ! 1)
       in if lane \<ge> LANE_COUNT \<or> n \<noteq> expected_size \<or> n > SLZ_MAX_CHUNK_SIZE
          then Inl (ArchiveFormatError ''solid lane chunk descriptor is invalid'')
          else bindR (read_descriptors sizes (drop (struct_size SLZ_DESCRIPTOR) stream)) (\<lambda>(ds, stream).
            Inr ((lane, n) # ds, stream)))"

definition calculated_raw_size :: "(nat \<times> nat) list \<Rightarrow> nat \<Rightarrow> nat" where
  "calculated_raw_size descriptors lane = sum_list (map snd (filter (\<lambda>(l, n). l = lane) descriptors))"

fun read_lane_headers :: "(nat \<times> nat) list \<Rightarrow> nat list \<Rightarrow> bytes \<Rightarrow> ((nat \<times> nat) list \<times> bytes) result" where
  "read_lane_headers descriptors [] stream = Inr ([], stream)"
| "read_lane_headers descriptors (lane # lanes) stream =
     bindR (struct_unpack_from SLZ_LANE_HEADER stream 0) (\<lambda>vs.
       let raw_size = uval (vs ! 0); compressed_size = uval (vs ! 1)
       in if raw_size \<noteq> calculated_raw_size descriptors lane
          then Inl (ArchiveFormatError ''solid lane raw size is inconsistent'')
          else bindR (read_lane_headers descriptors lanes (drop (struct_size SLZ_LANE_HEADER) stream)) (\<lambda>(hs, stream).
            Inr ((raw_size, compressed_size) # hs, stream)))"

fun decode_lanes :: "lzma \<Rightarrow> nat \<Rightarrow> (nat \<times> nat) list \<Rightarrow> bytes \<Rightarrow> bytes list result" where
  "decode_lanes z lane [] stream = Inr []"
| "decode_lanes z lane ((raw_size, compressed_size) # lane_sizes) stream =
     bindR (decompress_lane z (take compressed_size stream) raw_size lane) (\<lambda>decoded.
     bindR (decode_lanes z (Suc lane) lane_sizes (drop compressed_size stream)) (\<lambda>rest. Inr (decoded # rest)))"

text \<open>The chunks are cut from the lanes in order; the second component are the final positions.\<close>

fun slice_lanes :: "bytes list \<Rightarrow> nat list \<Rightarrow> (nat \<times> nat) list \<Rightarrow> bytes list \<times> nat list" where
  "slice_lanes decoded positions [] = ([], positions)"
| "slice_lanes decoded positions ((lane, n) # descriptors) =
     (let start = positions ! lane;
          chunk = take n (drop start (decoded ! lane));
          (chunks, final) = slice_lanes decoded (positions[lane := start + n]) descriptors
      in (chunk # chunks, final))"

definition decode_solid_chunks :: "lzma \<Rightarrow> bytes \<Rightarrow> nat list \<Rightarrow> bytes list result" where
  "decode_solid_chunks z payload expected_sizes =
     (if length payload < struct_size SLZ_HEADER then Inl (ArchiveFormatError ''solid lane header is truncated'')
      else bindR (struct_unpack_from SLZ_HEADER payload 0) (\<lambda>vs.
        let chunk_count = uval (vs ! 1); stream = drop (struct_size SLZ_HEADER) payload
        in if bval (vs ! 0) \<noteq> SLZ_MAGIC then Inl (ArchiveFormatError ''solid lane magic is invalid'')
           else if chunk_count \<noteq> length expected_sizes \<or> chunk_count > SLZ_MAX_CHUNKS
           then Inl (ArchiveFormatError ''solid lane chunk count is inconsistent'')
           else if chunk_count * struct_size SLZ_DESCRIPTOR + LANE_COUNT * struct_size SLZ_LANE_HEADER > length stream
           then Inl (ArchiveFormatError ''solid lane descriptor table is truncated'')
           else bindR (read_descriptors expected_sizes stream) (\<lambda>(descriptors, stream).
             bindR (read_lane_headers descriptors [0..<LANE_COUNT] stream) (\<lambda>(lane_sizes, stream).
               if sum_list (map snd lane_sizes) \<noteq> length stream
               then Inl (ArchiveFormatError ''solid lane payload sizes are inconsistent'')
               else bindR (decode_lanes z 0 lane_sizes stream) (\<lambda>decoded.
                 let (chunks, final) = slice_lanes decoded (replicate LANE_COUNT 0) descriptors
                 in if list_ex (\<lambda>(position, lane). position \<noteq> length lane) (zip final decoded)
                    then Inl (ArchiveFormatError ''solid lane contains unreferenced bytes'')
                    else Inr chunks)))))"

section \<open>Lossless\<close>

lemma choose_lane_less: "choose_solid_lane c log2 chunk < LANE_COUNT"
  by (auto simp: choose_solid_lane_def exact_lane_def Let_def split: option.split)

lemma lane_bytes_simps [simp]:
  "lane_bytes l [] = []"
  "lane_bytes l ((k, chunk) # routed) = (if k = l then chunk @ lane_bytes l routed else lane_bytes l routed)"
  by (simp_all add: lane_bytes_def)

abbreviation routed_sizes where "routed_sizes routed \<equiv> map (\<lambda>(l, chunk). (l, length chunk)) routed"

lemma calculated_raw_size_simps [simp]:
  "calculated_raw_size [] l = 0"
  "calculated_raw_size ((k, n) # ds) l = (if k = l then n + calculated_raw_size ds l else calculated_raw_size ds l)"
  by (simp_all add: calculated_raw_size_def)

lemma calculated_lane: "calculated_raw_size (routed_sizes routed) l = length (lane_bytes l routed)"
  by (induction routed) auto

lemma mapR_concat_length:
  "mapR f xs = Inr ys \<Longrightarrow> (\<And>x y. x \<in> set xs \<Longrightarrow> f x = Inr y \<Longrightarrow> length y = n) \<Longrightarrow> length (concat ys) = length xs * n"
proof (induction xs arbitrary: ys)
  case (Cons x xs)
  from Cons.prems(1) obtain y zs where y: "f x = Inr y" "mapR f xs = Inr zs" "ys = y # zs" by (auto simp: bindR_eq_Inr)
  have "length y = n" using Cons.prems(2)[of x y] y(1) by simp
  moreover have "length (concat zs) = length xs * n" by (rule Cons.IH[OF y(2)]) (rule Cons.prems(2), simp_all)
  ultimately show ?case by (simp add: y(3))
qed simp

lemma read_descriptors_packed:
  "mapR (\<lambda>(lane, chunk). struct_pack SLZ_DESCRIPTOR [VU lane, VU (length chunk)]) routed = Inr ds \<Longrightarrow>
   \<forall>(l, chunk)\<in>set routed. l < LANE_COUNT \<and> length chunk \<le> SLZ_MAX_CHUNK_SIZE \<Longrightarrow>
   read_descriptors (map (\<lambda>x. length (snd x)) routed) (concat ds @ rest) = Inr (routed_sizes routed, rest)"
proof (induction routed arbitrary: ds)
  case (Cons x routed)
  obtain l chunk where x: "x = (l, chunk)" by (cases x)
  from Cons.prems(1) obtain d ds' where d: "struct_pack SLZ_DESCRIPTOR [VU l, VU (length chunk)] = Inr d"
    and r: "mapR (\<lambda>(lane, chunk). struct_pack SLZ_DESCRIPTOR [VU lane, VU (length chunk)]) routed = Inr ds'"
    and ds: "ds = d # ds'" by (auto simp: x bindR_eq_Inr)
  have b: "l < LANE_COUNT" "length chunk \<le> SLZ_MAX_CHUNK_SIZE" using Cons.prems(2) by (simp_all add: x)
  have u: "struct_unpack_from SLZ_DESCRIPTOR (d @ concat ds' @ rest) 0 = Inr [VU l, VU (length chunk)]"
    using struct_unpack_from_pack[OF _ d, of "[]" 0] b by simp
  have "length d = struct_size SLZ_DESCRIPTOR" using d by (rule struct_pack_length)
  with u Cons.IH[OF r] Cons.prems(2) b show ?case by (simp add: x ds)
qed simp

lemma read_lane_headers_packed:
  "mapR (\<lambda>(raw, data). struct_pack SLZ_LANE_HEADER [VU (length raw), VU (length data)]) (zip raws datas) = Inr hs \<Longrightarrow>
   list_all2 (\<lambda>l raw. length raw = calculated_raw_size ds l) lanes raws \<Longrightarrow> length datas = length raws \<Longrightarrow>
   read_lane_headers ds lanes (concat hs @ rest)
     = Inr (map (\<lambda>(raw, data). (length raw, length data)) (zip raws datas), rest)"
proof (induction lanes arbitrary: raws datas hs)
  case (Cons l lanes)
  from Cons.prems obtain raw raws' data datas' where r: "raws = raw # raws'" "datas = data # datas'"
    "length raw = calculated_raw_size ds l" "list_all2 (\<lambda>l raw. length raw = calculated_raw_size ds l) lanes raws'"
    "length datas' = length raws'" by (auto simp: list_all2_Cons1 length_Suc_conv)
  from Cons.prems(1) obtain h hs' where h: "struct_pack SLZ_LANE_HEADER [VU (length raw), VU (length data)] = Inr h"
    and t: "mapR (\<lambda>(raw, data). struct_pack SLZ_LANE_HEADER [VU (length raw), VU (length data)]) (zip raws' datas') = Inr hs'"
    and hs: "hs = h # hs'" by (auto simp: r bindR_eq_Inr)
  have fits: "length raw < 256 ^ 8 \<and> length data < 256 ^ 8" using h by (auto simp: struct_pack_def split: if_split_asm)
  have u: "struct_unpack_from SLZ_LANE_HEADER (h @ concat hs' @ rest) 0 = Inr [VU (length raw), VU (length data)]"
    using struct_unpack_from_pack[OF _ h, of "[]" 0] fits by simp
  have "length h = struct_size SLZ_LANE_HEADER" using h by (rule struct_pack_length)
  with u Cons.IH[OF t r(4,5)] r(3) show ?case by (simp add: r(1,2) hs)
qed auto

lemma slice_lanes_routed:
  assumes "length positions = length decoded" and "\<forall>(l, chunk)\<in>set routed. l < length decoded"
    and "\<forall>l<length decoded. drop (positions ! l) (decoded ! l) = lane_bytes l routed"
  shows "slice_lanes decoded positions (routed_sizes routed)
    = (map snd routed, map (\<lambda>l. positions ! l + length (lane_bytes l routed)) [0..<length decoded])"
  using assms
proof (induction routed arbitrary: positions)
  case Nil
  have "map (\<lambda>l. positions ! l) [0..<length positions] = positions" by (rule map_nth)
  then show ?case using Nil.prems(1) by simp
next
  case (Cons x routed)
  obtain k chunk where x: "x = (k, chunk)" by (cases x)
  have k: "k < length decoded" "k < length positions" using Cons.prems(1,2) by (simp_all add: x)
  let ?positions = "positions[k := positions ! k + length chunk]"
  have cut: "drop (positions ! k) (decoded ! k) = chunk @ lane_bytes k routed" using Cons.prems(3) k by (simp add: x)
  have chunk: "take (length chunk) (drop (positions ! k) (decoded ! k)) = chunk" unfolding cut by simp
  have "drop (?positions ! l) (decoded ! l) = lane_bytes l routed" if l: "l < length decoded" for l
  proof (cases "l = k")
    case True
    have "drop (positions ! k + length chunk) (decoded ! k) = drop (length chunk) (drop (positions ! k) (decoded ! k))"
      by (simp add: add.commute)
    then show ?thesis using True k unfolding cut by simp
  qed (use Cons.prems(3) l in \<open>simp add: x\<close>)
  with Cons.IH[of ?positions] Cons.prems(1,2) have "slice_lanes decoded ?positions (routed_sizes routed)
    = (map snd routed, map (\<lambda>l. ?positions ! l + length (lane_bytes l routed)) [0..<length decoded])" by (simp add: x)
  then show ?case using k chunk by (auto simp: x Let_def nth_list_update)
qed

lemma slice_lanes_sizes:
  assumes "slice_lanes decoded positions ds = (chunks, final)" and "length positions = length decoded"
    and "\<forall>(l, n)\<in>set ds. l < length decoded"
    and "\<forall>l<length decoded. positions ! l + calculated_raw_size ds l \<le> length (decoded ! l)"
  shows "map length chunks = map snd ds"
  using assms
proof (induction ds arbitrary: positions chunks)
  case (Cons d ds)
  obtain k n where d: "d = (k, n)" by (cases d)
  have k: "k < length decoded" "k < length positions" using Cons.prems(2,3) by (simp_all add: d)
  let ?positions = "positions[k := positions ! k + n]"
  from Cons.prems(1) obtain chunks' where r: "slice_lanes decoded ?positions ds = (chunks', final)"
    and chunks: "chunks = take n (drop (positions ! k) (decoded ! k)) # chunks'"
    by (auto simp: d Let_def split: prod.splits)
  have bound: "positions ! k + (n + calculated_raw_size ds k) \<le> length (decoded ! k)"
    using Cons.prems(4)[rule_format, OF k(1)] by (simp add: d)
  have "?positions ! l + calculated_raw_size ds l \<le> length (decoded ! l)" if "l < length decoded" for l
    using Cons.prems(4) that k bound by (cases "l = k") (auto simp: d)
  with Cons.IH[OF r] Cons.prems(2,3) have "map length chunks' = map snd ds" by (simp add: d)
  then show ?case using bound by (simp add: chunks d)
qed simp

lemma decompress_compressed:
  assumes "lzma_law z"
  shows "decompress_lane z (compress_standard z data) (length data) STANDARD = Inr data"
    and "decompress_lane z (compress_delta4 z data) (length data) DELTA4 = Inr data"
    and "decompress_lane z (compress_standard z data) (length data) HIGH_ENTROPY = Inr data"
  using assms by (auto simp: lzma_law_def decompress_lane_def compress_standard_def compress_delta4_def)

lemma solid_lanes_restore:
  assumes z: "lzma_law z" and enc: "encode_solid_chunks z c log2 chunks = Inr e"
  shows "decode_solid_chunks z (sl_payload e) (map length chunks) = Inr chunks \<and> sl_raw_size e = sum_list (map length chunks)"
proof -
  let ?routed = "map (\<lambda>chunk. (choose_solid_lane c log2 chunk, chunk)) chunks"
  let ?raws = "map (\<lambda>lane. lane_bytes lane ?routed) [STANDARD, DELTA4, HIGH_ENTROPY]"
  let ?datas = "[compress_standard z (?raws ! STANDARD), compress_delta4 z (?raws ! DELTA4),
    compress_standard z (?raws ! HIGH_ENTROPY)]"
  from enc obtain header ds hs where few: "length chunks \<le> SLZ_MAX_CHUNKS"
    and small: "\<not> list_ex (\<lambda>chunk. length chunk > SLZ_MAX_CHUNK_SIZE) chunks"
    and header: "struct_pack SLZ_HEADER [VB SLZ_MAGIC, VU (length chunks)] = Inr header"
    and ds: "mapR (\<lambda>(lane, chunk). struct_pack SLZ_DESCRIPTOR [VU lane, VU (length chunk)]) ?routed = Inr ds"
    and hs: "mapR (\<lambda>(raw, data). struct_pack SLZ_LANE_HEADER [VU (length raw), VU (length data)]) (zip ?raws ?datas) = Inr hs"
    and e: "sl_payload e = header @ concat ds @ concat hs @ concat ?datas" "sl_raw_size e = sum_list (map length chunks)"
    unfolding encode_solid_chunks_def Let_def by (auto simp: bindR_eq_Inr split: if_split_asm)
  have hl: "length header = struct_size SLZ_HEADER" using header by (rule struct_pack_length)
  have uh: "struct_unpack_from SLZ_HEADER (header @ concat ds @ concat hs @ concat ?datas) 0 = Inr [VB SLZ_MAGIC, VU (length chunks)]"
    using struct_unpack_from_pack[OF _ header, of "[]" 0] few by simp
  have routed: "\<forall>(l, chunk)\<in>set ?routed. l < LANE_COUNT \<and> length chunk \<le> SLZ_MAX_CHUNK_SIZE"
    using small choose_lane_less by (auto simp: list_ex_iff not_less)
  have snds: "map (\<lambda>x. length (snd x)) ?routed = map length chunks" "map snd ?routed = chunks" by (simp_all add: o_def)
  have rd: "read_descriptors (map length chunks) (concat ds @ concat hs @ concat ?datas)
      = Inr (routed_sizes ?routed, concat hs @ concat ?datas)"
    using read_descriptors_packed[OF ds routed] unfolding snds(1) .
  have up: "[0..<LANE_COUNT] = [STANDARD, DELTA4, HIGH_ENTROPY]" by (simp add: upt_conv_Cons)
  have own: "list_all2 (\<lambda>l raw. length raw = calculated_raw_size (routed_sizes ?routed) l) [STANDARD, DELTA4, HIGH_ENTROPY] ?raws"
    unfolding calculated_lane by simp
  have rl: "read_lane_headers (routed_sizes ?routed) [0..<LANE_COUNT] (concat hs @ concat ?datas)
      = Inr (map (\<lambda>(raw, data). (length raw, length data)) (zip ?raws ?datas), concat ?datas)"
    unfolding up by (rule read_lane_headers_packed[OF hs own]) simp
  have dl: "decode_lanes z 0 (map (\<lambda>(raw, data). (length raw, length data)) (zip ?raws ?datas)) (concat ?datas) = Inr ?raws"
    using decompress_compressed[OF z] by (simp add: numeral_2_eq_2)
  have "slice_lanes ?raws (replicate LANE_COUNT 0) (routed_sizes ?routed)
      = (map snd ?routed, map (\<lambda>l. replicate LANE_COUNT 0 ! l + length (lane_bytes l ?routed)) [0..<length ?raws])"
    by (rule slice_lanes_routed) (use routed up in \<open>auto simp: nth_Cons less_Suc_eq numeral_3_eq_3 numeral_2_eq_2 split: nat.split\<close>)
  then have sl: "slice_lanes ?raws (replicate LANE_COUNT 0) (routed_sizes ?routed) = (chunks, map length ?raws)"
    unfolding snds(2) by (simp add: upt_conv_Cons numeral_3_eq_3 numeral_2_eq_2)
  have "length (concat ds) = length ?routed * struct_size SLZ_DESCRIPTOR"
    by (rule mapR_concat_length[OF ds]) (auto dest: struct_pack_length)
  then have t1: "length (concat ds) = length chunks * struct_size SLZ_DESCRIPTOR" by simp
  have "length (concat hs) = length (zip ?raws ?datas) * struct_size SLZ_LANE_HEADER"
    by (rule mapR_concat_length[OF hs]) (auto dest: struct_pack_length)
  then have t2: "length (concat hs) = LANE_COUNT * struct_size SLZ_LANE_HEADER" by simp
  show ?thesis using hl uh few rd rl dl sl t1 t2 e
    by (simp add: decode_solid_chunks_def Let_def)
qed

section \<open>Encoding succeeds\<close>

lemma lane_bytes_length: "length (lane_bytes l routed) \<le> sum_list (map (\<lambda>x. length (snd x)) routed)"
  by (induction routed) auto

lemma encode_solid_chunks_total:
  assumes few: "length chunks \<le> SLZ_MAX_CHUNKS" and small: "\<forall>chunk\<in>set chunks. length chunk \<le> SLZ_MAX_CHUNK_SIZE"
    and lzma: "\<forall>data. length data \<le> sum_list (map length chunks) \<longrightarrow>
      length (lzma_xz z data) \<le> B \<and> length (lzma_delta4 z data) \<le> B" and B: "B < 2 ^ 62"
  shows "\<exists>e. encode_solid_chunks z c log2 chunks = Inr e \<and> length (sl_payload e) \<le> 56 + 5 * length chunks + 3 * B"
proof -
  let ?routed = "map (\<lambda>chunk. (choose_solid_lane c log2 chunk, chunk)) chunks"
  let ?raws = "map (\<lambda>lane. lane_bytes lane ?routed) [STANDARD, DELTA4, HIGH_ENTROPY]"
  let ?datas = "[compress_standard z (?raws ! STANDARD), compress_delta4 z (?raws ! DELTA4),
    compress_standard z (?raws ! HIGH_ENTROPY)]"
  have "sum_list (map length chunks) \<le> length chunks * SLZ_MAX_CHUNK_SIZE"
    using small by (induction chunks) auto
  also have "\<dots> \<le> 1000000 * 16777216" using few by simp
  finally have total: "sum_list (map length chunks) < 2 ^ 62" by simp
  have raw: "length (lane_bytes l ?routed) \<le> sum_list (map length chunks)" for l
    using lane_bytes_length[of l ?routed] by (simp add: o_def)
  have data: "length (compress_standard z (lane_bytes l ?routed)) \<le> B" "length (compress_delta4 z (lane_bytes l ?routed)) \<le> B" for l
    using lzma raw[of l] by (simp_all add: compress_standard_def compress_delta4_def)
  have big: "(2 :: nat) ^ 62 < 256 ^ 8" by simp
  obtain header where h: "struct_pack SLZ_HEADER [VB SLZ_MAGIC, VU (length chunks)] = Inr header"
    using few by (simp add: struct_pack_def)
  have lanes: "choose_solid_lane c log2 chunk < 256" for chunk using choose_lane_less[of c log2 chunk] by simp
  have "\<exists>ds. mapR (\<lambda>(lane, chunk). struct_pack SLZ_DESCRIPTOR [VU lane, VU (length chunk)]) ?routed = Inr ds"
    by (rule mapR_exists) (use small lanes in \<open>force simp: struct_pack_def\<close>)
  then obtain ds where ds: "mapR (\<lambda>(lane, chunk). struct_pack SLZ_DESCRIPTOR [VU lane, VU (length chunk)]) ?routed = Inr ds" ..
  have fits: "length (lane_bytes l ?routed) < 256 ^ 8" "length (compress_standard z (lane_bytes l ?routed)) < 256 ^ 8"
    "length (compress_delta4 z (lane_bytes l ?routed)) < 256 ^ 8" for l
    using raw[of l] total data[of l] B big by simp_all
  have "\<exists>hs. mapR (\<lambda>(raw, data). struct_pack SLZ_LANE_HEADER [VU (length raw), VU (length data)]) (zip ?raws ?datas) = Inr hs"
    by (rule mapR_exists) (use fits in \<open>auto simp: struct_pack_def\<close>)
  then obtain hs where hs: "mapR (\<lambda>(raw, data). struct_pack SLZ_LANE_HEADER [VU (length raw), VU (length data)]) (zip ?raws ?datas) = Inr hs" ..
  have "length header = 8" using struct_pack_length[OF h] by (simp add: struct_size_def)
  moreover have "length (concat ds) = length ?routed * struct_size SLZ_DESCRIPTOR"
    by (rule mapR_concat_length[OF ds]) (auto dest: struct_pack_length)
  moreover have "length (concat hs) = length (zip ?raws ?datas) * struct_size SLZ_LANE_HEADER"
    by (rule mapR_concat_length[OF hs]) (auto dest: struct_pack_length)
  moreover have "length (concat ?datas) \<le> 3 * B" using data[of STANDARD] data[of DELTA4] data[of HIGH_ENTROPY] by simp
  moreover have "\<not> list_ex (\<lambda>chunk. length chunk > SLZ_MAX_CHUNK_SIZE) chunks" using small by (auto simp: list_ex_iff not_less)
  ultimately show ?thesis using few h ds hs
    unfolding encode_solid_chunks_def Let_def by (auto simp: struct_size_def)
qed

section \<open>Whatever the payload\<close>

lemma read_descriptors_Inr:
  "read_descriptors sizes s = Inr (ds, r) \<Longrightarrow> map snd ds = sizes \<and> (\<forall>(l, n)\<in>set ds. l < LANE_COUNT)"
  by (induction sizes arbitrary: s ds) (fastforce simp: bindR_eq_Inr Let_def split: if_split_asm)+

lemma read_lane_headers_Inr:
  "read_lane_headers ds lanes s = Inr (hs, r) \<Longrightarrow> map fst hs = map (calculated_raw_size ds) lanes"
  by (induction lanes arbitrary: s hs) (auto simp: bindR_eq_Inr Let_def split: if_split_asm)

lemma decompress_lane_length: "decompress_lane z p n l = Inr out \<Longrightarrow> length out = n"
  by (auto simp: decompress_lane_def split: if_split_asm option.splits prod.splits)

lemma decode_lanes_lengths: "decode_lanes z l hs s = Inr decoded \<Longrightarrow> map length decoded = map fst hs"
  by (induction z l hs s arbitrary: decoded rule: decode_lanes.induct) (auto simp: bindR_eq_Inr decompress_lane_length)

lemma solid_decode_sizes:
  assumes "decode_solid_chunks z payload sizes = Inr chunks"
  shows "map length chunks = sizes \<and> length chunks \<le> SLZ_MAX_CHUNKS"
proof -
  from assms obtain ds s1 hs s2 decoded where few: "length sizes \<le> SLZ_MAX_CHUNKS"
    and rd: "read_descriptors sizes (drop (struct_size SLZ_HEADER) payload) = Inr (ds, s1)"
    and rl: "read_lane_headers ds [0..<LANE_COUNT] s1 = Inr (hs, s2)"
    and dl: "decode_lanes z 0 hs s2 = Inr decoded"
    and out: "(let (chunks, final) = slice_lanes decoded (replicate LANE_COUNT 0) ds
      in if list_ex (\<lambda>(position, lane). position \<noteq> length lane) (zip final decoded)
         then Inl (ArchiveFormatError ''solid lane contains unreferenced bytes'') else Inr chunks) = Inr chunks"
    unfolding decode_solid_chunks_def Let_def bindR_eq_Inr by (force simp: Let_def bindR_eq_Inr split: if_split_asm)
  obtain chunks' final where sl: "slice_lanes decoded (replicate LANE_COUNT 0) ds = (chunks', final)"
    by (cases "slice_lanes decoded (replicate LANE_COUNT 0) ds")
  with out have "chunks' = chunks" by (simp split: if_split_asm)
  note sl = sl[unfolded this]
  note d = read_descriptors_Inr[OF rd]
  have "map length decoded = map (calculated_raw_size ds) [0..<LANE_COUNT]"
    using decode_lanes_lengths[OF dl] read_lane_headers_Inr[OF rl] by simp
  from this[unfolded list_eq_iff_nth_eq] have len: "length decoded = LANE_COUNT"
    and each: "\<And>l. l < LANE_COUNT \<Longrightarrow> length (decoded ! l) = calculated_raw_size ds l" by auto
  have "map length chunks = map snd ds"
    by (rule slice_lanes_sizes[OF sl]) (use len each d in auto)
  then have sizes: "map length chunks = sizes" using d by simp
  have "length chunks = length sizes" using arg_cong[OF sizes, where f = length] by simp
  with few sizes show ?thesis by simp
qed

section \<open>An instance for witnesses\<close>

text \<open>A compressor that puts a byte in front; its decompressor stops at what is wanted.\<close>

definition example_lzma :: lzma where
  "example_lzma = \<lparr>lzma_xz = (\<lambda>data. 0 # data), lzma_delta4 = (\<lambda>data. 1 # data),
     lzma_open = (\<lambda>delta payload n. case payload of [] \<Rightarrow> None
       | b # data \<Rightarrow> if b = (if delta then 1 else 0) then Some (take n data, length data < n, []) else None)\<rparr>"

lemma example_lzma_law: "lzma_law example_lzma"
  by (simp add: lzma_law_def example_lzma_def)

section \<open>Properties\<close>

text \<open>C31: The solid lanes lose nothing, whichever lane each chunk is routed to: what the encoder makes of a list of chunks the decoder turns back into exactly that list, and from any payload at all the decoder either fails or yields chunks of exactly the expected sizes.\<close>

lemma solid_lanes_lossless:
  "lzma_law z \<Longrightarrow> encode_solid_chunks z c log2 chunks = Inr e \<Longrightarrow>
   decode_solid_chunks z (sl_payload e) (map length chunks) = Inr chunks
   \<and> (\<forall>payload sizes. case decode_solid_chunks z payload sizes of Inl _ \<Rightarrow> True | Inr out \<Rightarrow> map length out = sizes)"
  using solid_lanes_restore solid_decode_sizes by (auto split: sum.split)

lemma solid_lanes_lossless_witness:
  "\<exists>e. encode_solid_chunks example_lzma example_crypto (\<lambda>x. x) [[1, 2, 3], [4], []] = Inr e
    \<and> decode_solid_chunks example_lzma (sl_payload e) [3, 1, 0] = Inr [[1, 2, 3], [4], []]"
proof -
  have "\<exists>e. encode_solid_chunks example_lzma example_crypto (\<lambda>x. x) [[1, 2, 3], [4], []] = Inr e
      \<and> length (sl_payload e) \<le> 56 + 5 * length [[1, 2, 3], [4], [] :: bytes] + 3 * 5"
    by (rule encode_solid_chunks_total) (simp_all add: example_lzma_def)
  then obtain e where e: "encode_solid_chunks example_lzma example_crypto (\<lambda>x. x) [[1, 2, 3], [4], []] = Inr e" by blast
  from solid_lanes_lossless[OF example_lzma_law e] e show ?thesis by (simp add: numeral_3_eq_3)
qed

end
