(* ===== verification/SolidArchive.thy ===== *)
theory SolidArchive
  imports ArchiveDedup SolidLanes
begin

text \<open>
  MSR1, the experimental solid container (\<^verbatim>\<open>solid_archive.py\<close>): one sealed payload holds the MSC6
  manifest and all unique chunks in solid lanes. The source is read once, while the manifest is
  scanned. Elapsed times are left out; the standalone \<^verbatim>\<open>struct\<close> header is packed and parsed here.
\<close>

section \<open>Data\<close>

abbreviation MSR1_MAGIC where "MSR1_MAGIC \<equiv> ([77, 83, 82, 49] :: bytes)"
abbreviation MSR1_HEADER where "MSR1_HEADER \<equiv>
  [FBytes 4, FUInt 1, FUInt 4, FUInt 4, FUInt 4, FUInt 4, FUInt 8, FBytes 16, FBytes 12, FUInt 8]"
abbreviation PLAIN_PREFIX where "PLAIN_PREFIX \<equiv> [FUInt 8, FUInt 8]"
abbreviation MSR1_MAX_CIPHERTEXT where "MSR1_MAX_CIPHERTEXT \<equiv> (1073741824 :: nat)"

record SolidArchiveEncodeStats =
  sae_format_name :: string
  sae_original_size :: nat
  sae_archive_size :: nat
  sae_solid_payload_size :: nat
  sae_manifest_size :: nat
  sae_unique_chunk_count :: nat
  sae_lane_distribution :: "(string \<times> nat) list"

record SolidArchiveDecodeStats =
  sad_format_name :: string
  sad_original_size :: nat
  sad_archive_size :: nat
  sad_unique_chunk_count :: nat
  sad_hash_verified :: bool

section \<open>Encoding\<close>

text \<open>The sealed payload behind its header; the random bytes are drawn in the order of the code.\<close>

definition seal_solid ::
  "crypto \<Rightarrow> (nat \<Rightarrow> nat \<Rightarrow> bytes) \<Rightarrow> password \<Rightarrow> ChunkingConfig \<Rightarrow> nat \<Rightarrow> nat \<Rightarrow> nat \<Rightarrow> bytes \<Rightarrow> bytes \<Rightarrow> bytes result" where
  "seal_solid c rnd password config padding_size kdf_log_n unique manifest_payload solid_payload =
     bindR (struct_pack PLAIN_PREFIX [VU (length manifest_payload), VU (length solid_payload)]) (\<lambda>prefix.
     bindR (pad_payload (rnd 0) (prefix @ manifest_payload @ solid_payload) padding_size) (\<lambda>padded.
       let salt = rnd 1 SALT_LENGTH;
           nonce = rnd 2 NONCE_LENGTH
       in bindR (struct_pack MSR1_HEADER
                   [VB MSR1_MAGIC, VU kdf_log_n, VU (cc_min_size config), VU (cc_avg_size config),
                    VU (cc_max_size config), VU padding_size, VU unique, VB salt, VB nonce,
                    VU (length padded + AEAD_TAG_LENGTH)]) (\<lambda>header.
          bindR (derive_key c password salt kdf_log_n 8 1) (\<lambda>key.
            Inr (header @ encrypt c key nonce padded header)))))"

text \<open>Everything before the temporary file is created.\<close>

definition prepare_solid ::
  "crypto \<Rightarrow> clib \<Rightarrow> lzma \<Rightarrow> unicode \<Rightarrow> os_choice \<Rightarrow> filesystem \<Rightarrow> pystr \<Rightarrow> bool \<Rightarrow> source_view result \<Rightarrow> pystr
     \<Rightarrow> password \<Rightarrow> ChunkingConfig \<Rightarrow> int \<Rightarrow> int \<Rightarrow> (source_view \<times> bytes \<times> SolidArchiveEncodeStats) result" where
  "prepare_solid c l z u os fs source is_dir session destination password config padding_size kdf_log_n =
     bindR (check_output_path fs source is_dir destination) (\<lambda>_.
       if \<not> (256 \<le> padding_size \<and> padding_size \<le> 16 * 1024 * 1024) \<or> \<not> (14 \<le> kdf_log_n \<and> kdf_log_n \<le> 18)
       then Inl (ValueError ''padding or scrypt cost is outside supported limits'')
       else bindR session (\<lambda>view.
         bindR (check_session_output fs source is_dir destination view) (\<lambda>_.
         bindR (scan_manifest c u view config) (\<lambda>(manifest, scan).
         bindR (encode_solid_chunks z c (cl_log2 l) (cs_unique scan)) (\<lambda>solid.
         bindR (serialize_dedup_manifest manifest) (\<lambda>manifest_payload.
           if length manifest_payload > MAX_MANIFEST_CIPHERTEXT
           then Inl (ValueError ''solid archive manifest exceeds its resource limit'')
           else bindR (seal_solid c (oc_random os) password config (nat padding_size) (nat kdf_log_n)
                         (length (cs_unique scan)) manifest_payload (sl_payload solid)) (\<lambda>archive.
             Inr (view, archive,
               \<lparr>sae_format_name = ''MSR1'', sae_original_size = total_size (dm_entries manifest),
                sae_archive_size = length archive, sae_solid_payload_size = length (sl_payload solid),
                sae_manifest_size = length manifest_payload,
                sae_unique_chunk_count = length (cs_unique scan),
                sae_lane_distribution = sl_lane_distribution solid\<rparr>))))))))"

definition encode_solid_archive ::
  "crypto \<Rightarrow> clib \<Rightarrow> lzma \<Rightarrow> unicode \<Rightarrow> os_choice \<Rightarrow> filesystem \<Rightarrow> pystr \<Rightarrow> bool \<Rightarrow> source_view result \<Rightarrow> pystr
     \<Rightarrow> password \<Rightarrow> ChunkingConfig \<Rightarrow> int \<Rightarrow> int \<Rightarrow> SolidArchiveEncodeStats result \<times> filesystem" where
  "encode_solid_archive c l z u os fs source is_dir session destination password config padding_size kdf_log_n =
     (case prepare_solid c l z u os fs source is_dir session destination password config padding_size kdf_log_n of
        Inl e \<Rightarrow> (Inl e, fs)
      | Inr (view, archive, stats) \<Rightarrow> publish fs os destination (archive, Inr stats) (\<lambda>_. sv_verify view))"

section \<open>Reading\<close>

record solid_archive =
  so_manifest :: DedupManifest
  so_chunks :: "bytes list"
  so_size :: nat
  so_identity :: stat_result

text \<open>The public header: the fields, the chunking configuration and the stream behind.\<close>

definition check_solid_header :: "sval list \<Rightarrow> unit result" where
  "check_solid_header vs =
     (if bval (vs ! 0) \<noteq> MSR1_MAGIC
         \<or> \<not> (14 \<le> uval (vs ! 1) \<and> uval (vs ! 1) \<le> 18)
         \<or> length (bval (vs ! 7)) \<noteq> SALT_LENGTH
         \<or> length (bval (vs ! 8)) \<noteq> NONCE_LENGTH
         \<or> \<not> (256 \<le> uval (vs ! 5) \<and> uval (vs ! 5) \<le> 16 * 1024 * 1024)
         \<or> uval (vs ! 9) > MSR1_MAX_CIPHERTEXT
         \<or> uval (vs ! 9) < AEAD_TAG_LENGTH
         \<or> (uval (vs ! 9) - AEAD_TAG_LENGTH) mod uval (vs ! 5) \<noteq> 0
      then Inl (ArchiveFormatError ''solid archive public header is invalid'') else Inr ())"

definition compatibility_header :: "sval list \<Rightarrow> ChunkingConfig \<Rightarrow> Msc3Header" where
  "compatibility_header vs config =
     \<lparr>m3_version = MSC6_VERSION, m3_flags = MSC3_FLAGS, m3_kdf_id = KDF_SCRYPT,
      m3_aead_id = AEAD_CHACHA20_POLY1305, m3_min_chunk_size = cc_min_size config,
      m3_avg_chunk_size = cc_avg_size config, m3_max_chunk_size = cc_max_size config,
      m3_padding_size = uval (vs ! 5), m3_salt = bval (vs ! 7), m3_nonce_prefix = take 4 (bval (vs ! 8)),
      m3_kdf_log_n = uval (vs ! 1), m3_kdf_r = 8, m3_kdf_p = 1, m3_frame_count = uval (vs ! 6) + 1\<rparr>"

definition check_digests :: "crypto \<Rightarrow> ChunkRecord list \<Rightarrow> bytes list \<Rightarrow> unit result" where
  "check_digests c records chunks =
     (if length records \<noteq> length chunks then Inl (ValueError ''zip() arguments have different lengths'')
      else if list_ex (\<lambda>(record, chunk). sha256 c chunk \<noteq> cr_digest record) (zip records chunks)
      then Inl (IntegrityError ''solid archive unique chunk digest failed'') else Inr ())"

definition read_plaintext ::
  "crypto \<Rightarrow> lzma \<Rightarrow> unicode \<Rightarrow> sval list \<Rightarrow> ChunkingConfig \<Rightarrow> bytes \<Rightarrow> (DedupManifest \<times> bytes list) result" where
  "read_plaintext c z u vs config plaintext =
     (if length plaintext < struct_size PLAIN_PREFIX
      then Inl (ArchiveFormatError ''solid archive plaintext prefix is truncated'')
      else bindR (struct_unpack_from PLAIN_PREFIX plaintext 0) (\<lambda>ps.
        let manifest_size = uval (ps ! 0); solid_size = uval (ps ! 1);
            rest = drop (struct_size PLAIN_PREFIX) plaintext
        in if manifest_size > MAX_MANIFEST_CIPHERTEXT
           then Inl (ArchiveFormatError ''solid archive manifest exceeds its resource limit'')
           else if manifest_size + solid_size \<noteq> length plaintext - struct_size PLAIN_PREFIX
           then Inl (ArchiveFormatError ''solid archive plaintext sizes are inconsistent'')
           else bindR (parse_dedup_manifest u (take manifest_size rest) (compatibility_header vs config)) (\<lambda>manifest.
             let unique_records = map (\<lambda>i. dm_chunks manifest ! i) (canonical_indexes (dm_chunks manifest))
             in if length unique_records \<noteq> uval (vs ! 6)
                then Inl (ArchiveFormatError ''solid archive unique chunk count is inconsistent'')
                else bindR (decode_solid_chunks z (drop manifest_size rest) (map cr_size unique_records)) (\<lambda>chunks.
                  bindR (check_digests c unique_records chunks) (\<lambda>_. Inr (manifest, chunks))))))"

definition read_solid_bytes ::
  "crypto \<Rightarrow> lzma \<Rightarrow> unicode \<Rightarrow> regular_file \<Rightarrow> password \<Rightarrow> solid_archive result" where
  "read_solid_bytes c z u archive password =
     (let (header, stream) = stream_read (struct_size MSR1_HEADER) (fl_bytes archive)
      in if length header \<noteq> struct_size MSR1_HEADER
         then Inl (ArchiveFormatError ''solid archive header is truncated'')
         else bindR (struct_unpack MSR1_HEADER header) (\<lambda>vs.
           bindR (check_solid_header vs) (\<lambda>_.
           bindR (reraise (ArchiveFormatError ''solid archive chunking limits are invalid'')
                    (chunking_config (int (uval (vs ! 2))) (int (uval (vs ! 3))) (int (uval (vs ! 4))))) (\<lambda>config.
             let (ciphertext, stream) = stream_read (uval (vs ! 9)) stream
             in if length ciphertext \<noteq> uval (vs ! 9) \<or> stream \<noteq> []
                then Inl (ArchiveFormatError ''solid archive length is inconsistent'')
                else bindR (derive_key c password (bval (vs ! 7)) (uval (vs ! 1)) 8 1) (\<lambda>key.
                  bindR (decrypt c key (bval (vs ! 8)) ciphertext header) (\<lambda>padded.
                  bindR (unpad_payload padded) (\<lambda>plaintext.
                  bindR (read_plaintext c z u vs config plaintext) (\<lambda>(manifest, chunks).
                    Inr \<lparr>so_manifest = manifest, so_chunks = chunks, so_size = length (fl_bytes archive),
                         so_identity = fl_id archive\<rparr>))))))))"

definition read_solid ::
  "crypto \<Rightarrow> lzma \<Rightarrow> unicode \<Rightarrow> filesystem \<Rightarrow> pystr \<Rightarrow> password \<Rightarrow> pystr option \<Rightarrow> solid_archive result" where
  "read_solid c z u fs archive_path password destination =
     (case fs_files fs archive_path of
        None \<Rightarrow> Inl (FileNotFoundError ''No such file or directory'')
      | Some archive \<Rightarrow>
          if (case destination of None \<Rightarrow> False
              | Some d \<Rightarrow> path_matches_file_identity (fs_stat fs d) (fl_id archive))
          then Inl (ValueError ''archive and output paths must be different'')
          else read_solid_bytes c z u archive password)"

section \<open>Restoring\<close>

text \<open>
  The canonical records take the unique chunks in order. The loop over the entries takes its way
  to fetch a chunk and its digest error as parameters, since both solid formats have it.
\<close>

fun assign_canonical ::
  "nat \<Rightarrow> ChunkRecord list \<Rightarrow> bytes list \<Rightarrow> (nat \<rightharpoonup> bytes) \<Rightarrow> (nat \<rightharpoonup> bytes) result" where
  "assign_canonical index [] chunks canonical = Inr canonical"
| "assign_canonical index (r # records) chunks canonical =
     (if cr_source r = index
      then case chunks of
             [] \<Rightarrow> Inl StopIteration
           | chunk # chunks \<Rightarrow> assign_canonical (Suc index) records chunks (canonical(index \<mapsto> chunk))
      else assign_canonical (Suc index) records chunks canonical)"

definition canonical_chunk :: "(nat \<rightharpoonup> bytes) \<Rightarrow> ChunkRecord \<Rightarrow> bytes result" where
  "canonical_chunk canonical r =
     (case canonical (cr_source r) of None \<Rightarrow> Inl (KeyError ''chunk'') | Some chunk \<Rightarrow> Inr chunk)"

fun restore_chunk_entries ::
  "crypto \<Rightarrow> (ChunkRecord \<Rightarrow> bytes result) \<Rightarrow> exn \<Rightarrow> nat \<Rightarrow> ChunkRecord list \<Rightarrow> ManifestEntry list \<Rightarrow> tree option \<Rightarrow> tree option result" where
  "restore_chunk_entries c fetch failed kind records [] out = Inr out"
| "restore_chunk_entries c fetch failed kind records (e # es) out =
     (if is_directory_entry e
      then bindR (start_directory kind e out) (restore_chunk_entries c fetch failed kind records es)
      else bindR (start_file kind e out) (\<lambda>out.
        bindR (mapR fetch (chunk_slice e records)) (\<lambda>chunks.
          let content = concat chunks
          in if sha256 c content \<noteq> digest e then Inl failed
             else bindR (finish_file kind e content out) (restore_chunk_entries c fetch failed kind records es))))"

definition restore_solid_entries ::
  "crypto \<Rightarrow> nat \<Rightarrow> ChunkRecord list \<Rightarrow> (nat \<rightharpoonup> bytes) \<Rightarrow> ManifestEntry list \<Rightarrow> tree option \<Rightarrow> tree option result" where
  "restore_solid_entries c kind records canonical =
     restore_chunk_entries c (canonical_chunk canonical) (IntegrityError ''solid archive file digest failed'') kind records"

definition solid_decode_stats :: "solid_archive \<Rightarrow> SolidArchiveDecodeStats" where
  "solid_decode_stats a =
     \<lparr>sad_format_name = ''MSR1'', sad_original_size = total_size (dm_entries (so_manifest a)),
      sad_archive_size = so_size a, sad_unique_chunk_count = length (so_chunks a), sad_hash_verified = True\<rparr>"

definition decode_solid_archive ::
  "crypto \<Rightarrow> lzma \<Rightarrow> unicode \<Rightarrow> os_choice \<Rightarrow> filesystem \<Rightarrow> pystr \<Rightarrow> pystr \<Rightarrow> password
     \<Rightarrow> SolidArchiveDecodeStats result \<times> filesystem" where
  "decode_solid_archive c z u os fs archive_path destination password =
     (case bindR (read_solid c z u fs archive_path password (Some destination)) (\<lambda>a.
           bindR (assign_canonical 0 (dm_chunks (so_manifest a)) (so_chunks a) (\<lambda>_. None)) (\<lambda>canonical.
             Inr (a, canonical))) of
        Inl e \<Rightarrow> (Inl e, fs)
      | Inr (a, canonical) \<Rightarrow>
          let manifest = so_manifest a; kind = dm_kind manifest
          in publish_output fs os destination kind
               (\<lambda>t. bindR (restore_solid_entries c kind (dm_chunks manifest) canonical (dm_entries manifest) (Some t))
                 (\<lambda>out. bindR (finish_output kind (dm_entries manifest) out) (\<lambda>out.
                   Inr (case out of None \<Rightarrow> t | Some t \<Rightarrow> t, solid_decode_stats a))))
               (\<lambda>fs. if path_matches_file_identity (fs_stat fs destination) (so_identity a)
                 then Inl (ValueError ''archive and output paths must be different'') else Inr ()))"

section \<open>The canonical chunks\<close>

lemma canonical_indexes_split:
  "canonical_indexes (xs @ ys) = canonical_indexes xs
     @ filter (\<lambda>i. cr_source ((xs @ ys) ! i) = i) [length xs..<length (xs @ ys)]"
proof -
  have "[0..<length (xs @ ys)] = [0..<length xs] @ [length xs..<length (xs @ ys)]"
    using upt_add_eq_append[of 0 "length xs" "length ys"] by simp
  moreover have "filter (\<lambda>i. cr_source ((xs @ ys) ! i) = i) [0..<length xs] = canonical_indexes xs"
    unfolding canonical_indexes_def by (rule filter_cong) (simp_all add: nth_append)
  ultimately show ?thesis by (simp add: canonical_indexes_def)
qed

lemma assign_canonical_run:
  "assign_canonical (length before) rs
     (map f (filter (\<lambda>i. cr_source ((before @ rs) ! i) = i) [length before..<length (before @ rs)])) canonical
   = Inr (\<lambda>i. if length before \<le> i \<and> i < length (before @ rs) \<and> cr_source ((before @ rs) ! i) = i
        then Some (f i) else canonical i)"
proof (induction rs arbitrary: before canonical)
  case (Cons r rs)
  define all where "all = before @ r # rs"
  let ?k = "length before"
  have at: "(before @ [r]) @ rs = all" "length (before @ [r]) = Suc ?k" by (simp_all add: all_def)
  note ih = Cons.IH[of "before @ [r]", unfolded at]
  have range: "[?k..<length all] = ?k # [Suc ?k..<length all]" by (simp add: all_def upt_conv_Cons del: upt_Suc)
  have r: "all ! ?k = r" "?k < length all" by (simp_all add: all_def nth_append)
  have split: "(?k \<le> i) = (i = ?k \<or> Suc ?k \<le> i)" for i by auto
  show ?case
  proof (cases "cr_source r = ?k")
    case True
    have "(\<lambda>i. if Suc ?k \<le> i \<and> i < length all \<and> cr_source (all ! i) = i then Some (f i) else (canonical(?k \<mapsto> f ?k)) i)
        = (\<lambda>i. if ?k \<le> i \<and> i < length all \<and> cr_source (all ! i) = i then Some (f i) else canonical i)"
      using True r unfolding split by (intro ext) simp
    with ih[of "canonical(?k \<mapsto> f ?k)"] True r(1) show ?thesis unfolding all_def[symmetric] range
      by (simp add: fun_upd_def)
  next
    case False
    have "(\<lambda>i. if Suc ?k \<le> i \<and> i < length all \<and> cr_source (all ! i) = i then Some (f i) else canonical i)
        = (\<lambda>i. if ?k \<le> i \<and> i < length all \<and> cr_source (all ! i) = i then Some (f i) else canonical i)"
      using False r unfolding split by (intro ext) auto
    with ih[of canonical] False r(1) show ?thesis unfolding all_def[symmetric] range by simp
  qed
qed (auto simp: fun_eq_iff)

text \<open>With the unique chunks assigned every record finds the chunk it stands for.\<close>

lemma canonical_chunks_found:
  assumes inv: "scan_inv c m xs s" and inj: "inj_on (sha256 c) (set xs)"
  obtains canonical where "assign_canonical 0 (cs_chunks s) (cs_unique s) (\<lambda>_. None) = Inr canonical"
    and "list_all2 (\<lambda>r x. canonical_chunk canonical r = Inr x) (cs_chunks s) xs"
proof -
  let ?rs = "cs_chunks s"
  have u: "cs_unique s = map (\<lambda>i. xs ! i) (canonical_indexes ?rs)" and valid: "valid_chunks m ?rs"
    using inv unfolding scan_inv_def by blast+
  have match: "records_match c ?rs xs" by (rule scanned_records_match[OF inv])
  then have len: "length xs = length ?rs" by (simp add: records_match_def list_all2_lengthD)
  have at: "cr_digest (?rs ! j) = sha256 c (xs ! j)" if "j < length ?rs" for j
    using match that by (simp add: records_match_def list_all2_conv_all_nth)
  let ?final = "\<lambda>i. if i < length ?rs \<and> cr_source (?rs ! i) = i then Some (xs ! i) else None"
  have run: "assign_canonical 0 ?rs (cs_unique s) (\<lambda>_. None) = Inr ?final"
    using assign_canonical_run[of "[]" ?rs "\<lambda>i. xs ! i" "\<lambda>_. None"] by (simp add: u canonical_indexes_def)
  have "canonical_chunk ?final (?rs ! j) = Inr (xs ! j)" if j: "j < length ?rs" for j
  proof -
    let ?s = "cr_source (?rs ! j)"
    have "valid_chunk m ?rs j" using valid j by (simp add: valid_chunks_def)
    then have s: "?s < length ?rs" "cr_source (?rs ! ?s) = ?s" "cr_digest (?rs ! ?s) = cr_digest (?rs ! j)"
      using j by (auto simp: valid_chunk_def Let_def)
    have "sha256 c (xs ! ?s) = sha256 c (xs ! j)" using at[OF s(1)] at[OF j] s(3) by simp
    then have "xs ! ?s = xs ! j" using inj s(1) j len by (auto dest: inj_onD)
    with s show ?thesis by (simp add: canonical_chunk_def)
  qed
  with that[OF run] len show thesis by (simp add: list_all2_conv_all_nth)
qed

lemma restore_chunks_run:
  assumes "\<forall>e\<in>set es. is_directory_entry e = (\<not> is_file_entry e)"
    and "\<forall>e\<in>set es. is_file_entry e \<longrightarrow> (\<exists>chunks. mapR fetch (chunk_slice e records) = Inr chunks
      \<and> concat chunks = data e \<and> digest e = sha256 c (data e))"
  shows "restore_items kind (map (\<lambda>e. (e, data e)) es) t = Inr t' \<Longrightarrow>
    restore_chunk_entries c fetch failed kind records es t = Inr t'"
  using assms
proof (induction es arbitrary: t)
  case (Cons e es)
  show ?case
  proof (cases "is_directory_entry e")
    case True
    with Cons.prems(1) obtain t1 where "start_directory kind e t = Inr t1"
      "restore_items kind (map (\<lambda>e. (e, data e)) es) t1 = Inr t'" by (auto simp: bindR_eq_Inr)
    with Cons.IH[of t1] Cons.prems(2,3) True show ?thesis by simp
  next
    case False
    with Cons.prems(2,3) obtain chunks where ch: "mapR fetch (chunk_slice e records) = Inr chunks"
      "concat chunks = data e" "digest e = sha256 c (data e)" by auto
    from Cons.prems(1) False obtain t1 t2 where "start_file kind e t = Inr t1" "finish_file kind e (data e) t1 = Inr t2"
      "restore_items kind (map (\<lambda>e. (e, data e)) es) t2 = Inr t'" by (auto simp: bindR_eq_Inr)
    with Cons.IH[of t2] Cons.prems(2,3) False ch show ?thesis by simp
  qed
qed simp

section \<open>Opening what was sealed\<close>

definition solid_header :: "nat \<Rightarrow> ChunkingConfig \<Rightarrow> nat \<Rightarrow> nat \<Rightarrow> bytes \<Rightarrow> bytes \<Rightarrow> nat \<Rightarrow> sval list" where
  "solid_header log_n config padding unique salt nonce n =
     [VB MSR1_MAGIC, VU log_n, VU (cc_min_size config), VU (cc_avg_size config), VU (cc_max_size config),
      VU padding, VU unique, VB salt, VB nonce, VU n]"

lemma chunking_config_of_valid:
  "valid_chunking config \<Longrightarrow>
   chunking_config (int (cc_min_size config)) (int (cc_avg_size config)) (int (cc_max_size config)) = Inr config"
proof -
  assume v: "valid_chunking config"
  let ?a = "cc_avg_size config"
  have a: "1 \<le> ?a" "?a AND (?a - 1) = 0" using v by (simp_all add: valid_chunking_def)
  have "int ?a AND int (?a - 1) = int (?a AND (?a - 1))" by (rule of_nat_and_eq[symmetric])
  then have "int ?a AND (int ?a - 1) = 0" unfolding a(2) using a(1) by (simp add: of_nat_diff)
  with v show ?thesis by (simp add: chunking_config_def valid_chunking_def)
qed

lemma open_solid_sealed:
  assumes seal: "seal_solid c rnd password config padding log_n unique mp sp = Inr archive"
    and rnd: "\<forall>k. random_law (rnd k)" and aead: "aead_law c" and cfg: "valid_chunking config"
    and log: "14 \<le> log_n" "log_n \<le> 18" and small: "length archive \<le> struct_size MSR1_HEADER + MSR1_MAX_CIPHERTEXT"
    and f: "fl_bytes f = archive"
  shows "\<exists>vs plaintext. vs ! 6 = VU unique \<and> compatibility_header vs config =
      \<lparr>m3_version = MSC6_VERSION, m3_flags = MSC3_FLAGS, m3_kdf_id = KDF_SCRYPT, m3_aead_id = AEAD_CHACHA20_POLY1305,
       m3_min_chunk_size = cc_min_size config, m3_avg_chunk_size = cc_avg_size config,
       m3_max_chunk_size = cc_max_size config, m3_padding_size = padding, m3_salt = rnd 1 SALT_LENGTH,
       m3_nonce_prefix = take 4 (rnd 2 NONCE_LENGTH), m3_kdf_log_n = log_n, m3_kdf_r = 8, m3_kdf_p = 1,
       m3_frame_count = unique + 1\<rparr>
    \<and> (\<exists>prefix. struct_pack PLAIN_PREFIX [VU (length mp), VU (length sp)] = Inr prefix \<and> plaintext = prefix @ mp @ sp)
    \<and> read_solid_bytes c z u f password = bindR (read_plaintext c z u vs config plaintext) (\<lambda>(manifest, chunks).
        Inr \<lparr>so_manifest = manifest, so_chunks = chunks, so_size = length archive, so_identity = fl_id f\<rparr>)"
proof -
  let ?vs = "\<lambda>padded. solid_header log_n config padding unique (rnd 1 SALT_LENGTH) (rnd 2 NONCE_LENGTH) (length padded + AEAD_TAG_LENGTH)"
  from seal obtain prefix padded header key where
    prefix: "struct_pack PLAIN_PREFIX [VU (length mp), VU (length sp)] = Inr prefix"
    and padded: "pad_payload (rnd 0) (prefix @ mp @ sp) padding = Inr padded"
    and header: "struct_pack MSR1_HEADER (?vs padded) = Inr header"
    and key: "derive_key c password (rnd 1 SALT_LENGTH) log_n 8 1 = Inr key"
    and archive: "archive = header @ encrypt c key (rnd 2 NONCE_LENGTH) padded header"
    by (auto simp: seal_solid_def Let_def bindR_eq_Inr solid_header_def)
  note pd = pad_payload_InrD[OF padded]
  have rl: "length (rnd k m) = m" for k m using rnd by (simp add: random_law_def)
  have hl: "length header = struct_size MSR1_HEADER" using header by (rule struct_pack_length)
  have fits: "list_all2 field_exact MSR1_HEADER (?vs padded)"
    using header rl by (auto simp: struct_pack_def solid_header_def split: if_split_asm)
  have unpacked: "struct_unpack MSR1_HEADER header = Inr (?vs padded)" by (rule struct_unpack_pack[OF fits header])
  let ?ct = "encrypt c key (rnd 2 NONCE_LENGTH) padded header"
  have ct: "length ?ct = length padded + AEAD_TAG_LENGTH" using aead by simp
  have "padding dvd length padded" using length_pad_payload[OF padded] rnd padded_length_dvd by simp
  then have checked: "check_solid_header (?vs padded) = Inr ()"
    using pd log rl small hl ct unfolding archive check_solid_header_def
    by (simp add: solid_header_def dvd_eq_mod_eq_0)
  have "read_solid_bytes c z u f password = bindR (read_plaintext c z u (?vs padded) config (prefix @ mp @ sp))
      (\<lambda>(manifest, chunks). Inr \<lparr>so_manifest = manifest, so_chunks = chunks, so_size = length archive, so_identity = fl_id f\<rparr>)"
    using unpacked checked ct hl aead key unpad_pad[OF padded] chunking_config_of_valid[OF cfg]
    unfolding read_solid_bytes_def f archive Let_def
    by (simp add: stream_read_def solid_header_def)
  moreover have "?vs padded ! 6 = VU unique" by (simp add: solid_header_def)
  ultimately show ?thesis using prefix
    by (intro exI[of _ "?vs padded"] exI[of _ "prefix @ mp @ sp"]) (simp add: compatibility_header_def solid_header_def)
qed

section \<open>Round trip\<close>

text \<open>The chunks of every file that the scan could have read, and the view of a client that reads once.\<close>

definition scanned_chunks :: "crypto \<Rightarrow> ChunkingConfig \<Rightarrow> source_view \<Rightarrow> bytes set" where
  "scanned_chunks c config view =
     {chunk. \<exists>rel data. sv_read view 0 rel = Inr data \<and> chunk \<in> set (content_defined_chunks c config data)}"

definition first_pass :: "source_view \<Rightarrow> source_view" where
  "first_pass view = view\<lparr>sv_read := \<lambda>_. sv_read view 0\<rparr>"

lemma first_pass_simps [simp]:
  "sv_root_is_file (first_pass view) = sv_root_is_file view" "sv_entries (first_pass view) = sv_entries view"
  "sv_read (first_pass view) k = sv_read view 0" "session_open (first_pass view) k rel = session_open view 0 rel"
  "session_key (first_pass view) e = session_key view e"
  by (simp_all add: first_pass_def session_open_def session_paths_def session_key_def)

lemma first_pass_data [simp]: "entry_data (first_pass view) k e = entry_data view 0 e"
  by (simp add: entry_data_def)

lemma all_chunks_scanned: "set (all_chunks c config view 0 es) \<subseteq> scanned_chunks c config view"
proof
  fix x assume "x \<in> set (all_chunks c config view 0 es)"
  then obtain e where x: "x \<in> set (content_defined_chunks c config (entry_data view 0 e))"
    by (auto simp: all_chunks_def entry_chunks_def)
  then have "content_defined_chunks c config (entry_data view 0 e) \<noteq> []" by auto
  then have "entry_data view 0 e \<noteq> []" unfolding chunks_Nil_iff .
  then have "session_open view 0 (session_key view e) = Inr (entry_data view 0 e)"
    by (auto simp: entry_data_def split: sum.splits if_split_asm)
  from session_open_read[OF this] x show "x \<in> scanned_chunks c config view" by (auto simp: scanned_chunks_def)
qed

lemma encode_solid_Inr:
  assumes "encode_solid_archive c l z u os fs source is_dir (Inr view) dst password config padding log_n = (Inr stats, fs')"
    and "os_law fs os" and "dst \<noteq> oc_temporary os"
  obtains m s solid mp archive where "scan_manifest c u view config = Inr (m, s)"
    and "encode_solid_chunks z c (cl_log2 l) (cs_unique s) = Inr solid" and "serialize_dedup_manifest m = Inr mp"
    and "length mp \<le> MAX_MANIFEST_CIPHERTEXT" and "14 \<le> nat log_n" and "nat log_n \<le> 18"
    and "seal_solid c (oc_random os) password config (nat padding) (nat log_n) (length (cs_unique s)) mp (sl_payload solid) = Inr archive"
    and "sae_original_size stats = total_size (dm_entries m)" and "sae_archive_size stats = length archive"
    and "sae_unique_chunk_count stats = length (cs_unique s)" and "sae_format_name stats = ''MSR1''"
    and "sae_solid_payload_size stats = length (sl_payload solid)" and "sv_verify view = Inr ()"
    and "fs' = published fs dst \<lparr>fl_id = oc_identity os, fl_bytes = archive, fl_meta = None\<rparr>"
proof -
  obtain v archive st where prep: "prepare_solid c l z u os fs source is_dir (Inr view) dst password config padding log_n = Inr (v, archive, st)"
    using assms(1) by (cases "prepare_solid c l z u os fs source is_dir (Inr view) dst password config padding log_n")
      (auto simp: encode_solid_archive_def)
  from prep obtain m s solid mp where p: "v = view" "scan_manifest c u view config = Inr (m, s)"
    "encode_solid_chunks z c (cl_log2 l) (cs_unique s) = Inr solid" "serialize_dedup_manifest m = Inr mp"
    "length mp \<le> MAX_MANIFEST_CIPHERTEXT" "14 \<le> log_n" "log_n \<le> 18"
    "seal_solid c (oc_random os) password config (nat padding) (nat log_n) (length (cs_unique s)) mp (sl_payload solid) = Inr archive"
    and st: "st = \<lparr>sae_format_name = ''MSR1'', sae_original_size = total_size (dm_entries m),
                sae_archive_size = length archive, sae_solid_payload_size = length (sl_payload solid),
                sae_manifest_size = length mp, sae_unique_chunk_count = length (cs_unique s),
                sae_lane_distribution = sl_lane_distribution solid\<rparr>"
    by (auto simp: prepare_solid_def bindR_eq_Inr not_less split: if_split_asm)
  have pub: "publish fs os dst (archive, Inr st) (\<lambda>_. sv_verify view) = (Inr stats, fs')"
    using assms(1) prep p(1) by (simp add: encode_solid_archive_def)
  from publish_value[OF pub] have stats: "stats = st" by simp
  note ps = publish_success[OF pub assms(3)] and pf = publish_published[OF pub assms(3,2)]
  have fs': "fs' = published fs dst \<lparr>fl_id = oc_identity os, fl_bytes = archive, fl_meta = None\<rparr>"
    using pf by simp
  show thesis by (rule that[OF p(2-5) _ _ p(8)]) (use p(6,7) st stats ps fs' in simp_all)
qed

lemma read_solid_plaintext:
  assumes scan: "scan_manifest c u view config = Inr (m, s)" and view: "portable_view u view" and d: "digest_law c"
    and cfg: "valid_chunking config" and z: "lzma_law z"
    and solid: "encode_solid_chunks z c (cl_log2 l) (cs_unique s) = Inr solid" and mp: "serialize_dedup_manifest m = Inr mp"
    and small: "length mp \<le> MAX_MANIFEST_CIPHERTEXT"
    and prefix: "struct_pack PLAIN_PREFIX [VU (length mp), VU (length (sl_payload solid))] = Inr prefix"
    and vs: "vs ! 6 = VU (length (cs_unique s))" "m3_max_chunk_size (compatibility_header vs config) = cc_max_size config"
      "m3_frame_count (compatibility_header vs config) = length (cs_unique s) + 1"
  shows "read_plaintext c z u vs config (prefix @ mp @ sl_payload solid) = Inr (m, cs_unique s)"
proof -
  note sc = scan_manifest_Inr[OF scan d view cfg]
  have inv: "scan_inv c (cc_max_size config) (all_chunks c config view 0 (dm_entries m)) s" and chunks: "dm_chunks m = cs_chunks s"
    using sc by blast+
  let ?xs = "all_chunks c config view 0 (dm_entries m)"
  have u: "cs_unique s = map (\<lambda>i. ?xs ! i) (canonical_indexes (cs_chunks s))" using inv unfolding scan_inv_def by blast
  have uc: "length (canonical_indexes (cs_chunks s)) = length (cs_unique s)" using arg_cong[OF u, where f = length] by simp
  have match: "records_match c (cs_chunks s) ?xs" by (rule scanned_records_match[OF inv])
  have at: "cr_size (cs_chunks s ! i) = length (?xs ! i)" "cr_digest (cs_chunks s ! i) = sha256 c (?xs ! i)"
    if "i \<in> set (canonical_indexes (cs_chunks s))" for i
    using that match by (auto simp: canonical_indexes_def records_match_def list_all2_conv_all_nth)
  let ?records = "map (\<lambda>i. cs_chunks s ! i) (canonical_indexes (cs_chunks s))"
  have sizes: "map cr_size ?records = map length (cs_unique s)" unfolding u using at(1) by simp
  have digests: "check_digests c ?records (cs_unique s) = Inr ()"
    unfolding u using at(2) by (auto simp: check_digests_def list_ex_iff zip_map_map zip_same_conv_map in_set_conv_nth)
  have pl: "length prefix = struct_size PLAIN_PREFIX" using prefix by (rule struct_pack_length)
  have exact: "list_all2 field_exact PLAIN_PREFIX [VU (length mp), VU (length (sl_payload solid))]"
    using prefix by (auto simp: struct_pack_def split: if_split_asm)
  have up: "struct_unpack_from PLAIN_PREFIX (prefix @ mp @ sl_payload solid) 0 = Inr [VU (length mp), VU (length (sl_payload solid))]"
    using struct_unpack_from_pack[OF exact prefix, of "[]" 0] by simp
  have valid: "valid_dedup_manifest u (cc_max_size config) (1 + length (canonical_indexes (dm_chunks m))) m" using sc by blast
  have "44 * length (dm_chunks m) \<le> length mp" by (rule serialized_chunks[OF mp])
  then have few: "length (dm_chunks m) \<le> MAX_CHUNK_RECORDS" using small by simp
  have parsed: "parse_dedup_manifest u mp (compatibility_header vs config) = Inr m"
    by (rule dedup_manifest_roundtrip[OF mp _ few]) (use valid vs chunks uc in simp)
  have lanes: "decode_solid_chunks z (sl_payload solid) (map length (cs_unique s)) = Inr (cs_unique s)"
    using solid_lanes_restore[OF z solid] by blast
  show ?thesis using pl up small parsed vs(1) uc lanes digests sizes
    unfolding read_plaintext_def Let_def by (simp add: chunks)
qed

text \<open>Whatever fetches each record's chunk restores the source.\<close>

lemma fetched_chunks_restored:
  assumes scan: "scan_manifest c u view config = Inr (m, s)" and d: "digest_law c" and view: "portable_view u view"
    and cfg: "valid_chunking config" and os: "os_law fs1 os'" and name: "restored \<noteq> oc_temporary os'" and new: "fresh_path fs1 restored"
    and found: "list_all2 (\<lambda>r x. fetch r = Inr x) (cs_chunks s) (all_chunks c config view 0 (dm_entries m))"
    and check: "check (create_output (with_parents fs1 restored) os' (dm_kind m)) = Inr ()"
  shows "\<exists>fs2. publish_output fs1 os' restored (dm_kind m)
      (\<lambda>t. bindR (restore_chunk_entries c fetch failed (dm_kind m) (cs_chunks s) (dm_entries m) (Some t))
        (\<lambda>out. bindR (finish_output (dm_kind m) (dm_entries m) out) (\<lambda>out.
          Inr (case out of None \<Rightarrow> t | Some t \<Rightarrow> t, ds)))) check = (Inr ds, fs2)
    \<and> source_restored (first_pass view) os' restored fs1 fs2"
proof -
  note sc = scan_manifest_Inr[OF scan d view cfg]
  let ?es = "dm_entries m" and ?kind = "dm_kind m"
  let ?xs = "all_chunks c config view 0 ?es"
  have placed: "placed_from c config view 0 ?es (length (dm_chunks m))" using sc by blast
  have ve: "valid_dedup_entries u {} 0 ?es (length (dm_chunks m))" using sc unfolding valid_dedup_manifest_def by blast
  have kinds: "\<forall>e\<in>set ?es. is_directory_entry e = (\<not> is_file_entry e)"
    using valid_dedup_entries_kinds[OF ve] by blast
  have files: "\<forall>e\<in>set ?es. is_file_entry e \<longrightarrow> (\<exists>chs. mapR fetch (chunk_slice e (cs_chunks s)) = Inr chs
      \<and> concat chs = entry_data view 0 e \<and> digest e = sha256 c (entry_data view 0 e))"
  proof (intro ballI impI)
    fix e assume e: "e \<in> set ?es" "is_file_entry e"
    have slice: "chunk_slice e ?xs = entry_chunks c config view 0 e"
      using placed_slice[OF placed e, of "[]"] by (simp add: all_chunks_def)
    have "list_all2 (\<lambda>r x. fetch r = Inr x) (chunk_slice e (cs_chunks s)) (chunk_slice e ?xs)"
      unfolding chunk_slice_def by (intro list_all2_takeI list_all2_dropI found)
    then have "mapR fetch (chunk_slice e (cs_chunks s)) = Inr (entry_chunks c config view 0 e)"
      unfolding slice mapR_Inr_iff .
    moreover have "digest e = sha256 c (entry_data view 0 e)" using placed_file[OF placed e] by blast
    ultimately show "\<exists>chs. mapR fetch (chunk_slice e (cs_chunks s)) = Inr chs
      \<and> concat chs = entry_data view 0 e \<and> digest e = sha256 c (entry_data view 0 e)"
      by (auto simp: entry_chunks_def chunks_concat)
  qed
  have items: "map (source_item (first_pass view) ?kind) ?es = map (\<lambda>e. (e, entry_data view 0 e)) ?es"
    using sc by (auto simp: source_item_def entry_data_def source_key_def session_key_def)
  have run: "restore_chunk_entries c fetch failed ?kind (cs_chunks s) ?es t = Inr t'"
    if "restore_items ?kind (map (source_item (first_pass view) ?kind) ?es) t = Inr t'" for t t'
    by (rule restore_chunks_run[OF kinds files that[unfolded items]])
  let ?body = "\<lambda>t. bindR (restore_chunk_entries c fetch failed ?kind (cs_chunks s) ?es (Some t))
    (\<lambda>out. bindR (finish_output ?kind ?es out) (\<lambda>out. Inr (case out of None \<Rightarrow> t | Some t \<Rightarrow> t, ds)))"
  show ?thesis
  proof (rule publish_restored[OF _ os name new])
    have "scanned_entries view ?kind ?es" using sc unfolding scanned_entries_def by blast
    then show "scanned_entries (first_pass view) ?kind ?es" unfolding scanned_entries_def first_pass_simps .
    show "\<exists>data. sv_read (first_pass view) 1 [] = Inr data" if "sv_root_is_file (first_pass view)"
    proof -
      from that sc obtain e where e: "e \<in> set ?es" "is_file_entry e" by auto
      with placed_file[OF placed e] that show ?thesis by (auto simp: session_key_def)
    qed
    show "?body t = Inr (t', ds)"
      if "bindR (restore_items ?kind (map (source_item (first_pass view) ?kind) ?es) (Some t)) (finish_output ?kind ?es) = Inr (Some t')"
      for t t' using that run by (auto simp: bindR_eq_Inr)
    show "check (create_output (with_parents fs1 restored) os' ?kind) = Inr ()" by (rule check)
  qed
qed

lemma solid_restores:
  assumes enc: "encode_solid_archive c l z u os fs source is_dir (Inr view) archive password config padding log_n = (Inr stats, fs1)"
    and laws: "aead_law c" "digest_law c" "lzma_law z" "os_law fs os" "os_law fs1 os'" and view: "portable_view u view"
    and cfg: "valid_chunking config" and inj: "inj_on (sha256 c) (scanned_chunks c config view)"
    and names: "archive \<noteq> oc_temporary os" "restored \<noteq> oc_temporary os'" and new: "fresh_path fs1 restored"
    and small: "sae_archive_size stats \<le> struct_size MSR1_HEADER + MSR1_MAX_CIPHERTEXT"
  shows "\<exists>ds fs2. decode_solid_archive c z u os' fs1 archive restored password = (Inr ds, fs2)
    \<and> sad_original_size ds = sae_original_size stats \<and> sad_archive_size ds = sae_archive_size stats
    \<and> sad_unique_chunk_count ds = sae_unique_chunk_count stats
    \<and> source_restored (first_pass view) os' restored fs1 fs2"
proof -
  from encode_solid_Inr[OF enc laws(4) names(1)] obtain m s solid mp bytes where scan: "scan_manifest c u view config = Inr (m, s)"
    and solid: "encode_solid_chunks z c (cl_log2 l) (cs_unique s) = Inr solid" and mp: "serialize_dedup_manifest m = Inr mp"
    and ms: "length mp \<le> MAX_MANIFEST_CIPHERTEXT" and log: "14 \<le> nat log_n" "nat log_n \<le> 18"
    and seal: "seal_solid c (oc_random os) password config (nat padding) (nat log_n) (length (cs_unique s)) mp (sl_payload solid) = Inr bytes"
    and stats: "sae_original_size stats = total_size (dm_entries m)" "sae_archive_size stats = length bytes"
      "sae_unique_chunk_count stats = length (cs_unique s)"
    and fs1: "fs1 = published fs archive \<lparr>fl_id = oc_identity os, fl_bytes = bytes, fl_meta = None\<rparr>"
    by metis
  let ?f = "\<lparr>fl_id = oc_identity os, fl_bytes = bytes, fl_meta = None\<rparr>"
  let ?a = "\<lparr>so_manifest = m, so_chunks = cs_unique s, so_size = length bytes, so_identity = oc_identity os\<rparr>"
  have rnd: "\<forall>k. random_law (oc_random os k)" using laws(4) by (simp add: os_law_def)
  have sm: "length bytes \<le> struct_size MSR1_HEADER + MSR1_MAX_CIPHERTEXT" using small stats(2) by simp
  from open_solid_sealed[OF seal rnd laws(1) cfg log sm, of ?f z u] obtain vs prefix where
    vs: "vs ! 6 = VU (length (cs_unique s))" "m3_max_chunk_size (compatibility_header vs config) = cc_max_size config"
      "m3_frame_count (compatibility_header vs config) = length (cs_unique s) + 1"
    and prefix: "struct_pack PLAIN_PREFIX [VU (length mp), VU (length (sl_payload solid))] = Inr prefix"
    and opened: "read_solid_bytes c z u ?f password = bindR (read_plaintext c z u vs config (prefix @ mp @ sl_payload solid))
      (\<lambda>(manifest, chunks). Inr \<lparr>so_manifest = manifest, so_chunks = chunks, so_size = length bytes, so_identity = fl_id ?f\<rparr>)"
    by auto
  note plain = read_solid_plaintext[OF scan view laws(2) cfg laws(3) solid mp ms prefix vs]
  note fresh = new_destination_differs[OF new names(2)]
  have rs: "read_solid c z u fs1 archive password (Some restored) = Inr ?a"
    using opened plain fresh by (simp add: read_solid_def fs1)
  have inv: "scan_inv c (cc_max_size config) (all_chunks c config view 0 (dm_entries m)) s" and chunks: "dm_chunks m = cs_chunks s"
    using scan_manifest_Inr[OF scan laws(2) view cfg] by blast+
  have "inj_on (sha256 c) (set (all_chunks c config view 0 (dm_entries m)))" by (rule inj_on_subset[OF inj all_chunks_scanned])
  from canonical_chunks_found[OF inv this] obtain canonical where
    ca: "assign_canonical 0 (cs_chunks s) (cs_unique s) (\<lambda>_. None) = Inr canonical"
    and found: "list_all2 (\<lambda>r x. canonical_chunk canonical r = Inr x) (cs_chunks s) (all_chunks c config view 0 (dm_entries m))" .
  let ?ds = "solid_decode_stats ?a"
  let ?check = "\<lambda>fs. if path_matches_file_identity (fs_stat fs restored) (oc_identity os)
      then Inl (ValueError ''archive and output paths must be different'') else Inr ()"
  from fetched_chunks_restored[OF scan laws(2) view cfg laws(5) names(2) new found, of ?check
      "IntegrityError ''solid archive file digest failed''" ?ds] fresh obtain fs2 where
    pub: "publish_output fs1 os' restored (dm_kind m) (\<lambda>t. bindR (restore_solid_entries c (dm_kind m) (cs_chunks s) canonical (dm_entries m) (Some t))
        (\<lambda>out. bindR (finish_output (dm_kind m) (dm_entries m) out) (\<lambda>out.
          Inr (case out of None \<Rightarrow> t | Some t \<Rightarrow> t, ?ds)))) ?check = (Inr ?ds, fs2)"
    and res: "source_restored (first_pass view) os' restored fs1 fs2" by (auto simp: restore_solid_entries_def)
  have "decode_solid_archive c z u os' fs1 archive restored password = (Inr ?ds, fs2)"
    using rs ca pub by (simp add: decode_solid_archive_def chunks Let_def)
  with res stats show ?thesis by (simp add: solid_decode_stats_def)
qed

section \<open>Failures\<close>

lemma decode_solid_atomic:
  assumes "os_law fs os" and "decode_solid_archive c z u os fs archive dst password = (Inl e, fs')"
  shows "parents_at_most fs dst fs'"
proof (cases "bindR (read_solid c z u fs archive password (Some dst)) (\<lambda>a.
           bindR (assign_canonical 0 (dm_chunks (so_manifest a)) (so_chunks a) (\<lambda>_. None)) (\<lambda>canonical. Inr (a, canonical)))")
  case (Inl e')
  with assms(2) show ?thesis by (simp add: decode_solid_archive_def)
next
  case (Inr p)
  obtain a canonical where p: "p = (a, canonical)" by (cases p)
  from assms(2) Inr show ?thesis
    unfolding decode_solid_archive_def p Let_def by (auto intro: publish_output_error[OF assms(1)])
qed

lemma encode_solid_atomic:
  assumes "os_law fs os"
    and "encode_solid_archive c l z u os fs source is_dir session dst password config padding log_n = (Inl e, fs')"
  shows "parents_at_most fs dst fs'"
  using assms(2) by (auto simp: encode_solid_archive_def intro: publish_error[OF assms(1)] split: sum.splits)

text \<open>The reader refuses what the encoder may write: the encoder does not look at the reader's limit.\<close>

lemma oversized_solid_unreadable:
  assumes enc: "encode_solid_archive c l z u os fs source is_dir (Inr view) archive password config padding log_n = (Inr stats, fs1)"
    and laws: "aead_law c" "os_law fs os" and cfg: "valid_chunking config" and name: "archive \<noteq> oc_temporary os"
    and large: "sae_archive_size stats > struct_size MSR1_HEADER + MSR1_MAX_CIPHERTEXT"
  shows "\<exists>e. fst (decode_solid_archive c z u os' fs1 archive dst password) = Inl e"
proof (rule encode_solid_Inr[OF enc laws(2) name])
  fix m s solid mp bytes
  assume seal: "seal_solid c (oc_random os) password config (nat padding) (nat log_n) (length (cs_unique s)) mp (sl_payload solid) = Inr bytes"
    and n: "sae_archive_size stats = length bytes"
    and fs1: "fs1 = published fs archive \<lparr>fl_id = oc_identity os, fl_bytes = bytes, fl_meta = None\<rparr>"
  let ?vs = "\<lambda>padded. solid_header (nat log_n) config (nat padding) (length (cs_unique s)) (oc_random os 1 SALT_LENGTH)
    (oc_random os 2 NONCE_LENGTH) (length padded + AEAD_TAG_LENGTH)"
  from seal obtain padded header key where header: "struct_pack MSR1_HEADER (?vs padded) = Inr header"
    and archive: "bytes = header @ encrypt c key (oc_random os 2 NONCE_LENGTH) padded header"
    by (auto simp: seal_solid_def Let_def bindR_eq_Inr solid_header_def)
  have rl: "length (oc_random os k m) = m" for k m using laws(2) by (simp add: os_law_def random_law_def)
  have hl: "length header = struct_size MSR1_HEADER" using header by (rule struct_pack_length)
  have "list_all2 field_exact MSR1_HEADER (?vs padded)"
    using header rl by (auto simp: struct_pack_def solid_header_def split: if_split_asm)
  from struct_unpack_pack[OF this header] have up: "struct_unpack MSR1_HEADER header = Inr (?vs padded)" .
  have "length padded + AEAD_TAG_LENGTH > MSR1_MAX_CIPHERTEXT" using large n hl laws(1) by (simp add: archive)
  then have "\<exists>e. check_solid_header (?vs padded) = Inl e" by (simp add: check_solid_header_def solid_header_def)
  then have "\<exists>e. read_solid_bytes c z u \<lparr>fl_id = oc_identity os, fl_bytes = bytes, fl_meta = None\<rparr> password = Inl e"
    using up hl unfolding read_solid_bytes_def archive Let_def by (force simp: stream_read_def)
  then have "\<exists>e. read_solid c z u fs1 archive password (Some dst) = Inl e" by (auto simp: read_solid_def fs1)
  then show "\<exists>e. fst (decode_solid_archive c z u os' fs1 archive dst password) = Inl e"
    by (auto simp: decode_solid_archive_def)
qed

section \<open>Encoding succeeds\<close>

lemma seal_solid_total:
  assumes "valid_chunking config" and "256 \<le> padding" "padding \<le> 16 * 1024 * 1024" and "14 \<le> log_n" "log_n \<le> 18"
    and rnd: "\<forall>k. random_law (rnd k)" and aead: "aead_law c" and pw: "normalize_password password = Inr pw"
    and sizes: "length mp < 2 ^ 60" "length sp < 2 ^ 62" "unique < 2 ^ 64"
  shows "\<exists>archive. seal_solid c rnd password config padding log_n unique mp sp = Inr archive
    \<and> length archive < 81 + length mp + length sp + 24 + padding"
proof -
  have big: "(2 :: nat) ^ 62 < 256 ^ 8" "(2 :: nat) ^ 60 < 256 ^ 8" "(2 :: nat) ^ 64 = 256 ^ 8" by simp_all
  obtain prefix where prefix: "struct_pack PLAIN_PREFIX [VU (length mp), VU (length sp)] = Inr prefix"
    using sizes big by (simp add: struct_pack_def)
  then have pl: "length prefix = 16" by (auto dest: struct_pack_length simp: struct_size_def)
  have plain: "length (prefix @ mp @ sp) < 2 ^ 63" using pl sizes by simp
  then have "length (prefix @ mp @ sp) < 256 ^ 8" by simp
  with pad_payload_Inr[of padding "prefix @ mp @ sp" "rnd 0"] assms(2,3) obtain padded where
    padded: "pad_payload (rnd 0) (prefix @ mp @ sp) padding = Inr padded" by blast
  have rl: "random_law (rnd 0)" "length (rnd k n) = n" for k n using rnd by (simp_all add: random_law_def)
  have "length padded < 8 + length (prefix @ mp @ sp) + padding"
    using length_pad_payload[OF padded rl(1)] padded_length_lt[of padding "8 + length (prefix @ mp @ sp)"] assms(2) by simp
  then have pd: "length padded < 24 + length mp + length sp + padding" using pl by simp
  then have ct: "length padded + AEAD_TAG_LENGTH < 256 ^ 8" using sizes assms(3) by simp
  obtain header where header: "struct_pack MSR1_HEADER
      [VB MSR1_MAGIC, VU log_n, VU (cc_min_size config), VU (cc_avg_size config), VU (cc_max_size config), VU padding,
       VU unique, VB (rnd 1 SALT_LENGTH), VB (rnd 2 NONCE_LENGTH), VU (length padded + AEAD_TAG_LENGTH)] = Inr header"
    using assms(1-5) sizes(3) big(3) ct by (simp add: struct_pack_def valid_chunking_def)
  then have hl: "length header = 65" by (auto dest: struct_pack_length simp: struct_size_def)
  have key: "derive_key c password (rnd 1 SALT_LENGTH) log_n 8 1 = Inr (scrypt c pw (rnd 1 SALT_LENGTH) (2 ^ log_n) 8 1)"
    using rl(2) pw by (simp add: derive_key_def)
  show ?thesis using prefix padded header key hl pd aead by (simp add: seal_solid_def Let_def)
qed

lemma encode_solid_total:
  assumes pw: "normalize_password password = Inr pw" and pad: "256 \<le> padding" "padding \<le> 16 * 1024 * 1024"
    and log: "14 \<le> log_n" "log_n \<le> 18" and out: "check_output_path fs source is_dir dst = Inr ()"
    and ses: "check_session_output fs source is_dir dst view = Inr ()"
    and scan: "scan_manifest c u view config = Inr (m, s)" and ser: "serialize_dedup_manifest m = Inr mp"
    and small: "length mp \<le> MAX_MANIFEST_CIPHERTEXT" and few: "length (cs_unique s) \<le> SLZ_MAX_CHUNKS"
    and lzma: "\<forall>data. length data \<le> sum_list (map length (cs_unique s)) \<longrightarrow>
      length (lzma_xz z data) \<le> B \<and> length (lzma_delta4 z data) \<le> B" "B < 2 ^ 59"
    and laws: "aead_law c" "digest_law c" "os_law fs os" and view: "portable_view u view" and cfg: "valid_chunking config"
    and ver: "sv_verify view = Inr ()" and new: "writable_path fs dst"
  shows "\<exists>stats fs'. encode_solid_archive c l z u os fs source is_dir (Inr view) dst password config padding log_n = (Inr stats, fs')
    \<and> sae_original_size stats = total_size (dm_entries m) \<and> sae_unique_chunk_count stats = length (cs_unique s)
    \<and> sae_archive_size stats < 161 + length mp + 5 * length (cs_unique s) + 3 * B + nat padding"
proof -
  note sc = scan_manifest_Inr[OF scan laws(2) view cfg]
  have inv: "scan_inv c (cc_max_size config) (all_chunks c config view 0 (dm_entries m)) s" and chunks: "dm_chunks m = cs_chunks s"
    using sc by blast+
  let ?xs = "all_chunks c config view 0 (dm_entries m)"
  have u: "cs_unique s = map (\<lambda>i. ?xs ! i) (canonical_indexes (cs_chunks s))" using inv unfolding scan_inv_def by blast
  have match: "records_match c (cs_chunks s) ?xs" by (rule scanned_records_match[OF inv])
  have valid: "valid_chunks (cc_max_size config) (cs_chunks s)" using inv by (simp add: scan_inv_def)
  have chunk: "\<forall>x\<in>set (cs_unique s). length x \<le> SLZ_MAX_CHUNK_SIZE"
  proof
    fix x assume "x \<in> set (cs_unique s)"
    then obtain i where i: "i < length (cs_chunks s)" "x = ?xs ! i" unfolding u by (auto simp: canonical_indexes_def)
    then have "cr_size (cs_chunks s ! i) = length x" using match by (simp add: records_match_def list_all2_conv_all_nth)
    moreover have "cr_size (cs_chunks s ! i) \<le> cc_max_size config"
      using valid i(1) by (auto simp: valid_chunks_def valid_chunk_def Let_def)
    ultimately show "length x \<le> SLZ_MAX_CHUNK_SIZE" using cfg by (simp add: valid_chunking_def)
  qed
  have "B < 2 ^ 62" using lzma(2) by simp
  from encode_solid_chunks_total[OF few chunk lzma(1) this] obtain solid where
    solid: "encode_solid_chunks z c (cl_log2 l) (cs_unique s) = Inr solid"
    and sl: "length (sl_payload solid) \<le> 56 + 5 * length (cs_unique s) + 3 * B" by blast
  have lens: "length mp < 2 ^ 60" "length (sl_payload solid) < 2 ^ 62" "length (cs_unique s) < 2 ^ 64"
    using small sl few lzma(2) by simp_all
  have nats: "256 \<le> nat padding" "nat padding \<le> 16 * 1024 * 1024" "14 \<le> nat log_n" "nat log_n \<le> 18"
    using pad log by simp_all
  have rnd: "\<forall>k. random_law (oc_random os k)" using laws(3) by (simp add: os_law_def)
  from seal_solid_total[OF cfg nats rnd laws(1) pw lens] obtain archive where
    seal: "seal_solid c (oc_random os) password config (nat padding) (nat log_n) (length (cs_unique s)) mp (sl_payload solid) = Inr archive"
    and al: "length archive < 81 + length mp + length (sl_payload solid) + 24 + nat padding" by blast
  let ?st = "\<lparr>sae_format_name = ''MSR1'', sae_original_size = total_size (dm_entries m),
      sae_archive_size = length archive, sae_solid_payload_size = length (sl_payload solid),
      sae_manifest_size = length mp, sae_unique_chunk_count = length (cs_unique s),
      sae_lane_distribution = sl_lane_distribution solid\<rparr>"
  have prep: "prepare_solid c l z u os fs source is_dir (Inr view) dst password config padding log_n = Inr (view, archive, ?st)"
    using out ses scan solid ser small seal pad log by (simp add: prepare_solid_def)
  have "fst (publish fs os dst (archive, Inr ?st) (\<lambda>_. sv_verify view)) = Inr ?st"
    by (rule publish_run) (use ver new in simp_all)
  then obtain fs' where "publish fs os dst (archive, Inr ?st) (\<lambda>_. sv_verify view) = (Inr ?st, fs')"
    by (metis prod.collapse)
  with prep have "encode_solid_archive c l z u os fs source is_dir (Inr view) dst password config padding log_n = (Inr ?st, fs')"
    by (simp add: encode_solid_archive_def)
  with al sl show ?thesis by (intro exI[of _ ?st] exI[of _ fs']) simp
qed

section \<open>An example\<close>

lemma example_solid_encodes:
  obtains stats fs1 where "encode_solid_archive example_crypto example_clib example_lzma ascii_tables example_os example_fs
      (lit ''src'') True (Inr example_pair) (lit ''arc'') (PBytes [112]) DEFAULT_CHUNKING 256 14 = (Inr stats, fs1)"
    and "sae_original_size stats = 6" and "sae_unique_chunk_count stats = 1" and "sae_archive_size stats < 2000"
proof -
  obtain payload where payload: "serialize_dedup_manifest example_pair_manifest = Inr payload" "length payload < 1000"
    using example_pair_serialize by blast
  obtain s where scan: "scan_manifest example_crypto ascii_tables example_pair DEFAULT_CHUNKING = Inr (example_pair_manifest, s)"
    and u: "cs_unique s = [[1, 2, 3]]" using example_pair_scan by blast
  have "\<exists>stats fs'. encode_solid_archive example_crypto example_clib example_lzma ascii_tables example_os example_fs
      (lit ''src'') True (Inr example_pair) (lit ''arc'') (PBytes [112]) DEFAULT_CHUNKING 256 14 = (Inr stats, fs')
    \<and> sae_original_size stats = total_size (dm_entries example_pair_manifest)
    \<and> sae_unique_chunk_count stats = length (cs_unique s)
    \<and> sae_archive_size stats < 161 + length payload + 5 * length (cs_unique s) + 3 * 10 + nat 256"
    by (rule encode_solid_total[OF example_pair_setup(1) _ _ _ _ example_pair_setup(2,3) scan payload(1)])
      (use payload(2) in \<open>simp_all add: u example_pair_setup example_crypto_laws example_os_law example_pair_portable
        example_config example_pair_fields example_lzma_def\<close>)
  then show thesis using that payload(2) by (auto simp: example_pair_setup u)
qed

lemma example_solid_files:
  assumes "encode_solid_archive example_crypto example_clib example_lzma ascii_tables example_os example_fs
      (lit ''src'') True (Inr example_pair) (lit ''arc'') (PBytes [112]) DEFAULT_CHUNKING 256 14 = (Inr stats, fs1)"
  shows "os_law fs1 example_os'" and "fresh_path fs1 (lit ''out'')"
proof -
  obtain bytes where "fs1 = published example_fs (lit ''arc'')
      \<lparr>fl_id = oc_identity example_os, fl_bytes = bytes, fl_meta = None\<rparr>"
    by (rule encode_solid_Inr[OF assms example_os_law example_msc1_names(2)])
  then show "os_law fs1 example_os'" and "fresh_path fs1 (lit ''out'')"
    by (simp_all add: published_example)
qed

lemma example_solid_strings: "inj_on (sha256 example_crypto) (scanned_chunks example_crypto DEFAULT_CHUNKING example_pair)"
proof -
  have "scanned_chunks example_crypto DEFAULT_CHUNKING example_pair \<subseteq> {[1, 2, 3]}"
    by (auto simp: scanned_chunks_def example_pair_fields example_config)
  then show ?thesis by (auto intro: inj_onI)
qed

section \<open>Properties\<close>

text \<open>C4: MSR1 restores what it stored: for every portable source whose chunks the digest tells apart, the archive that an encode published (not larger than the reader's limit) decodes under the same password, at a free destination with no file on the way, to exactly the source as the encoder's only pass read it: bytes, permission bits, times, every entry; nothing else changes, but that the missing directories on the way are made, and both sides report the same sizes and counts.\<close>

lemma msr1_roundtrip:
  assumes "encode_solid_archive c l z u os fs source is_dir (Inr view) archive password config padding log_n = (Inr stats, fs1)"
    and "aead_law c" "digest_law c" "lzma_law z" "os_law fs os" "os_law fs1 os'" and "portable_view u view"
    and "valid_chunking config" and "inj_on (sha256 c) (scanned_chunks c config view)"
    and "archive \<noteq> oc_temporary os" "restored \<noteq> oc_temporary os'" and "fresh_path fs1 restored"
    and "sae_archive_size stats \<le> struct_size MSR1_HEADER + MSR1_MAX_CIPHERTEXT"
  shows "\<exists>ds fs2. decode_solid_archive c z u os' fs1 archive restored password = (Inr ds, fs2)
    \<and> sad_original_size ds = sae_original_size stats \<and> sad_archive_size ds = sae_archive_size stats
    \<and> sad_unique_chunk_count ds = sae_unique_chunk_count stats
    \<and> (if sv_root_is_file view
       then \<exists>se data. sv_entries view = [se] \<and> sv_read view 0 [] = Inr data
         \<and> fs2 = published fs1 restored \<lparr>fl_id = oc_identity os', fl_bytes = data,
             fl_meta = Some (S_IMODE (se_st_mode se) mod 512, se_mtime_ns se)\<rparr>
       else fs2 = folder_published fs1 restored (source_tree (first_pass view)))"
  using solid_restores[OF assms] unfolding source_restored_def first_pass_simps .

lemma msr1_roundtrip_witness:
  "\<exists>stats fs1 ds fs2.
     encode_solid_archive example_crypto example_clib example_lzma ascii_tables example_os example_fs (lit ''src'') True
       (Inr example_pair) (lit ''arc'') (PBytes [112]) DEFAULT_CHUNKING 256 14 = (Inr stats, fs1)
     \<and> decode_solid_archive example_crypto example_lzma ascii_tables example_os' fs1 (lit ''arc'') (lit ''out'')
         (PBytes [112]) = (Inr ds, fs2)
     \<and> sad_original_size ds = 6 \<and> sad_unique_chunk_count ds = 1"
proof -
  obtain stats fs1 where enc: "encode_solid_archive example_crypto example_clib example_lzma ascii_tables example_os example_fs
      (lit ''src'') True (Inr example_pair) (lit ''arc'') (PBytes [112]) DEFAULT_CHUNKING 256 14 = (Inr stats, fs1)"
    and sizes: "sae_original_size stats = 6" "sae_unique_chunk_count stats = 1" "sae_archive_size stats < 2000"
    by (rule example_solid_encodes)
  from sizes(3) have small: "sae_archive_size stats \<le> struct_size MSR1_HEADER + MSR1_MAX_CIPHERTEXT" by simp
  from msr1_roundtrip[OF enc example_crypto_laws example_lzma_law example_os_law example_solid_files(1)[OF enc]
    example_pair_portable example_config(1) example_solid_strings example_msc1_names(2,3) example_solid_files(2)[OF enc] small]
  obtain ds fs2 where "decode_solid_archive example_crypto example_lzma ascii_tables example_os' fs1 (lit ''arc'') (lit ''out'')
      (PBytes [112]) = (Inr ds, fs2)" "sad_original_size ds = sae_original_size stats"
    "sad_unique_chunk_count ds = sae_unique_chunk_count stats" by blast
  with enc sizes show ?thesis by auto
qed

end
