(* ===== verification/SolidFrames.thy ===== *)
theory SolidFrames
  imports SolidLanes Frames
begin

text \<open>
  The frames of a solid lane (\<^verbatim>\<open>solid_frames.py\<close>): one continuous compressed stream is cut into
  payloads of a fixed size, each padded, sealed and numbered, the last one marked final. The
  writer exists twice, over a compressed spool and in one pass; the reader authenticates frame by
  frame and decompresses incrementally within the declared size. Streams are the bytes not yet
  read, what is written to a destination is the result. The incremental compressors and
  decompressors of \<^verbatim>\<open>lzma\<close> and \<^verbatim>\<open>zstd\<close> are parameters.
\<close>

section \<open>The compression libraries\<close>

text \<open>
  The objects the code creates: Zstandard, raw LZMA2 with or without the delta filter, and xz. A
  compressor turns blocks into output and ends with a flush. A decompressor takes more input
  and at most so many bytes of output (\<open>None\<close> where the library raises), and has the attributes
  \<^verbatim>\<open>eof\<close>, \<^verbatim>\<open>needs_input\<close> and \<^verbatim>\<open>unused_data\<close>.
\<close>

datatype stream_filter = ZstdStream | Delta4Lzma2 | RawLzma2 | XzStream

record ('c, 'd) stream_lib =
  sc_new :: "stream_filter \<Rightarrow> 'c"
  sc_compress :: "'c \<Rightarrow> bytes \<Rightarrow> bytes \<times> 'c"
  sc_flush :: "'c \<Rightarrow> bytes"
  sd_new :: "stream_filter \<Rightarrow> 'd"
  sd_decompress :: "'d \<Rightarrow> bytes \<Rightarrow> nat \<Rightarrow> (bytes \<times> 'd) option"
  sd_eof :: "'d \<Rightarrow> bool"
  sd_needs_input :: "'d \<Rightarrow> bool"
  sd_unused :: "'d \<Rightarrow> bytes"

fun compress_blocks :: "('c, 'd) stream_lib \<Rightarrow> 'c \<Rightarrow> bytes list \<Rightarrow> bytes" where
  "compress_blocks lib compressor [] = sc_flush lib compressor"
| "compress_blocks lib compressor (block # blocks) =
     (let (out, compressor) = sc_compress lib compressor block
      in out @ compress_blocks lib compressor blocks)"

text \<open>
  What the documentation of the libraries says. A decompressor that neither ended nor needs input
  has filled the output limit. On the output of a compressor, \<open>reads d rest out\<close> relates a
  decompressor to the part of the stream it has not been given and the data it has not returned:
  it takes the input piece by piece, returns the data in order within each limit, ends exactly
  with the stream and asks for input only while some is left.
\<close>

definition progress_law :: "('c, 'd) stream_lib \<Rightarrow> bool" where
  "progress_law lib \<longleftrightarrow> (\<forall>d input m out d'. sd_decompress lib d input m = Some (out, d') \<longrightarrow>
     \<not> sd_eof lib d' \<longrightarrow> \<not> sd_needs_input lib d' \<longrightarrow> m \<le> length out)"

definition reads_law :: "('c, 'd) stream_lib \<Rightarrow> ('d \<Rightarrow> bytes \<Rightarrow> bytes \<Rightarrow> bool) \<Rightarrow> bool" where
  "reads_law lib reads \<longleftrightarrow>
     (\<forall>d rest out. reads d rest out \<longrightarrow>
        sd_unused lib d = [] \<and> (sd_eof lib d \<longrightarrow> rest = [] \<and> out = [])
        \<and> (sd_needs_input lib d \<and> \<not> sd_eof lib d \<longrightarrow> rest \<noteq> []))
     \<and> (\<forall>d input rest out m. reads d (input @ rest) out \<longrightarrow> \<not> sd_eof lib d \<longrightarrow>
          (input = [] \<or> sd_needs_input lib d) \<longrightarrow> 0 < m \<longrightarrow>
          (\<exists>now later d'. sd_decompress lib d input m = Some (now, d') \<and> out = now @ later
             \<and> length now \<le> m \<and> reads d' rest later))"

definition stream_law :: "('c, 'd) stream_lib \<Rightarrow> bool" where
  "stream_law lib \<longleftrightarrow> progress_law lib \<and> (\<exists>reads. reads_law lib reads
     \<and> (\<forall>filter. sd_needs_input lib (sd_new lib filter) \<and> \<not> sd_eof lib (sd_new lib filter))
     \<and> (\<forall>filter blocks. reads (sd_new lib filter) (compress_blocks lib (sc_new lib filter) blocks) (concat blocks)))"

section \<open>Constants, contexts, statistics\<close>

abbreviation SOLID_CODEC_LZMA2 where "SOLID_CODEC_LZMA2 \<equiv> (0 :: nat)"
abbreviation SOLID_CODEC_RAW where "SOLID_CODEC_RAW \<equiv> (1 :: nat)"
abbreviation SOLID_CODEC_ZSTD where "SOLID_CODEC_ZSTD \<equiv> (2 :: nat)"
abbreviation SOLID_FRAME_HEADER where "SOLID_FRAME_HEADER \<equiv> [FUInt 4, FUInt 1, FUInt 1, FUInt 4]"
abbreviation FLAG_FINAL where "FLAG_FINAL \<equiv> (1 :: nat)"
abbreviation IO_BLOCK_SIZE where "IO_BLOCK_SIZE \<equiv> (65536 :: nat)"
abbreviation OUTPUT_BLOCK_SIZE where "OUTPUT_BLOCK_SIZE \<equiv> (65536 :: nat)"
abbreviation MAX_UINT32 where "MAX_UINT32 \<equiv> (4294967295 :: nat)"

text \<open>The keyword arguments that the writers and the reader share.\<close>

record solid_ctx =
  lx_key :: bytes
  lx_nonce_prefix :: bytes
  lx_associated_data :: bytes
  lx_lane :: nat
  lx_frame_payload_size :: nat
  lx_padding_size :: nat

record SolidFrameWriteStats =
  fw_frame_count :: nat
  fw_next_index :: nat
  fw_compressed_size :: nat
  fw_padded_size :: nat
  fw_max_frame_payload :: nat

record SolidFrameReadStats =
  fr_frame_count :: nat
  fr_next_index :: nat
  fr_decoded_size :: nat

definition validate_solid_options :: "solid_ctx \<Rightarrow> unit result" where
  "validate_solid_options ctx =
     (if lx_lane ctx \<notin> {STANDARD, DELTA4, HIGH_ENTROPY} then Inl (ValueError ''unknown solid lane'')
      else if length (lx_nonce_prefix ctx) \<noteq> 4
      then Inl (ValueError ''solid frame nonce prefix must be four bytes'')
      else if \<not> (1024 \<le> lx_frame_payload_size ctx \<and> lx_frame_payload_size ctx \<le> 16 * 1024 * 1024)
      then Inl (ValueError ''solid frame payload size must be between 1 KiB and 16 MiB'')
      else if \<not> (256 \<le> lx_padding_size ctx \<and> lx_padding_size ctx \<le> lx_frame_payload_size ctx)
      then Inl (ValueError ''solid frame padding size is invalid'') else Inr ())"

text \<open>The filter of a lane; \<open>codec_id\<close> is \<open>None\<close> where the argument is.\<close>

definition lane_filter :: "nat \<Rightarrow> bool \<Rightarrow> stream_filter" where
  "lane_filter lane raw_lzma2 = (if lane = DELTA4 then Delta4Lzma2 else if raw_lzma2 then RawLzma2 else XzStream)"

definition solid_compressor :: "('c, 'd) stream_lib \<Rightarrow> nat \<Rightarrow> bool \<Rightarrow> nat option \<Rightarrow> 'c result" where
  "solid_compressor lib lane raw_lzma2 codec_id =
     (if codec_id = Some SOLID_CODEC_ZSTD then Inr (sc_new lib ZstdStream)
      else if codec_id \<notin> {None, Some SOLID_CODEC_LZMA2}
      then Inl (ValueError ''unknown or non-compressing solid codec'')
      else Inr (sc_new lib (lane_filter lane raw_lzma2)))"

definition solid_decompressor :: "('c, 'd) stream_lib \<Rightarrow> nat \<Rightarrow> bool \<Rightarrow> nat option \<Rightarrow> 'd result" where
  "solid_decompressor lib lane raw_lzma2 codec_id =
     (if codec_id = Some SOLID_CODEC_ZSTD then Inr (sd_new lib ZstdStream)
      else if codec_id \<notin> {None, Some SOLID_CODEC_LZMA2}
      then Inl (ValueError ''unknown or non-decompressing solid codec'')
      else Inr (sd_new lib (lane_filter lane raw_lzma2)))"

text \<open>The exact number of bytes a nonempty payload takes on disk.\<close>

definition solid_frame_size :: "nat \<Rightarrow> nat \<Rightarrow> nat" where
  "solid_frame_size padding_size n =
     struct_size SOLID_FRAME_HEADER + padded_length (8 + n) padding_size + AEAD_TAG_LENGTH"

definition solid_lane_framed_size :: "int \<Rightarrow> nat \<Rightarrow> nat \<Rightarrow> nat result" where
  "solid_lane_framed_size payload_size frame_payload_size padding_size =
     (if payload_size < 0 then Inl (ValueError ''solid lane payload size cannot be negative'')
      else if payload_size = 0 then Inr 0
      else if \<not> (1024 \<le> frame_payload_size \<and> frame_payload_size \<le> 16 * 1024 * 1024)
      then Inl (ValueError ''solid frame payload size must be between 1 KiB and 16 MiB'')
      else if \<not> (256 \<le> padding_size \<and> padding_size \<le> frame_payload_size)
      then Inl (ValueError ''solid frame padding size is invalid'')
      else let full_frames = nat payload_size div frame_payload_size;
               remainder = nat payload_size mod frame_payload_size;
               base = full_frames * solid_frame_size padding_size frame_payload_size
           in Inr (if remainder \<noteq> 0 then base + solid_frame_size padding_size remainder else base))"

section \<open>Writing\<close>

definition compress_solid_lane ::
  "('c, 'd) stream_lib \<Rightarrow> bytes \<Rightarrow> nat \<Rightarrow> bool \<Rightarrow> nat option \<Rightarrow> bytes result" where
  "compress_solid_lane lib source lane raw_lzma2 codec_id =
     (if lane \<notin> {STANDARD, DELTA4, HIGH_ENTROPY} then Inl (ValueError ''unknown solid lane'')
      else bindR (solid_compressor lib lane raw_lzma2 codec_id) (\<lambda>compressor.
        Inr (compress_blocks lib compressor (read_blocks IO_BLOCK_SIZE source))))"

text \<open>A frame with the sizes that the statistics add up; \<open>rnd\<close> are the draws of \<^verbatim>\<open>os.urandom\<close>, by frame.\<close>

record emitted =
  em_bytes :: bytes
  em_padded :: nat
  em_payload :: nat

definition emit_solid_frame ::
  "crypto \<Rightarrow> (nat \<Rightarrow> nat \<Rightarrow> bytes) \<Rightarrow> solid_ctx \<Rightarrow> nat \<Rightarrow> bytes \<Rightarrow> bool \<Rightarrow> emitted result" where
  "emit_solid_frame c rnd ctx index payload final =
     (if index > MAX_UINT32 then Inl (ValueError ''solid frame index exceeds the uint32 range'')
      else bindR (pad_payload (rnd index) payload (lx_padding_size ctx)) (\<lambda>padded.
        bindR (struct_pack SOLID_FRAME_HEADER
                 [VU index, VU (lx_lane ctx), VU (if final then FLAG_FINAL else 0),
                  VU (length padded + AEAD_TAG_LENGTH)]) (\<lambda>header.
        bindR (frame_nonce (lx_nonce_prefix ctx) index) (\<lambda>nonce.
          Inr \<lparr>em_bytes = header @ encrypt c (lx_key ctx) nonce padded (lx_associated_data ctx @ header),
               em_padded = length padded, em_payload = length payload\<rparr>))))"

definition frame_write_stats :: "nat \<Rightarrow> nat \<Rightarrow> emitted list \<Rightarrow> SolidFrameWriteStats" where
  "frame_write_stats start_index compressed_size es =
     \<lparr>fw_frame_count = length es, fw_next_index = start_index + length es,
      fw_compressed_size = compressed_size, fw_padded_size = sum_list (map em_padded es),
      fw_max_frame_payload = foldr max (map em_payload es) 0\<rparr>"

text \<open>The loop over the spool, with fuel for the bytes that remain.\<close>

fun frame_spool ::
  "crypto \<Rightarrow> (nat \<Rightarrow> nat \<Rightarrow> bytes) \<Rightarrow> solid_ctx \<Rightarrow> nat \<Rightarrow> nat \<Rightarrow> bytes \<Rightarrow> nat \<Rightarrow> (emitted list \<times> bytes) result" where
  "frame_spool c rnd ctx 0 remaining source index =
     (if remaining = 0 then Inr ([], source) else Inl OutOfFuel)"
| "frame_spool c rnd ctx (Suc fuel) remaining source index =
     (if remaining = 0 then Inr ([], source)
      else let n = min (lx_frame_payload_size ctx) remaining;
               (payload, source) = stream_read n source
           in if length payload \<noteq> n then Inl (ValueError ''precompressed solid lane is truncated'')
              else bindR (emit_solid_frame c rnd ctx index payload (remaining - n = 0)) (\<lambda>e.
                bindR (frame_spool c rnd ctx fuel (remaining - n) source (Suc index)) (\<lambda>(es, source).
                  Inr (e # es, source))))"

definition write_precompressed_solid_lane_frames ::
  "crypto \<Rightarrow> (nat \<Rightarrow> nat \<Rightarrow> bytes) \<Rightarrow> solid_ctx \<Rightarrow> bytes \<Rightarrow> int \<Rightarrow> int \<Rightarrow> (bytes \<times> SolidFrameWriteStats) result" where
  "write_precompressed_solid_lane_frames c rnd ctx source compressed_size start_index =
     bindR (validate_solid_options ctx) (\<lambda>_.
       if compressed_size < 0 \<or> \<not> (0 \<le> start_index \<and> start_index \<le> int MAX_UINT32)
       then Inl (ValueError ''solid frame size or start index is invalid'')
       else bindR (if compressed_size = 0
                   then bindR (emit_solid_frame c rnd ctx (nat start_index) [] True) (\<lambda>e. Inr ([e], source))
                   else frame_spool c rnd ctx (nat compressed_size) (nat compressed_size) source (nat start_index))
              (\<lambda>(es, source).
                if fst (stream_read 1 source) \<noteq> []
                then Inl (ValueError ''precompressed solid lane exceeds its declared size'')
                else Inr (concat (map em_bytes es),
                          frame_write_stats (nat start_index) (nat compressed_size) es)))"

text \<open>The writer in one pass: full payloads leave the pending bytes while more than one payload is pending.\<close>

fun emit_pending ::
  "crypto \<Rightarrow> (nat \<Rightarrow> nat \<Rightarrow> bytes) \<Rightarrow> solid_ctx \<Rightarrow> nat \<Rightarrow> bytes \<Rightarrow> nat \<Rightarrow> (emitted list \<times> bytes \<times> nat) result" where
  "emit_pending c rnd ctx 0 pending index =
     (if length pending > lx_frame_payload_size ctx then Inl OutOfFuel else Inr ([], pending, index))"
| "emit_pending c rnd ctx (Suc fuel) pending index =
     (if length pending > lx_frame_payload_size ctx
      then bindR (emit_solid_frame c rnd ctx index (take (lx_frame_payload_size ctx) pending) False) (\<lambda>e.
        bindR (emit_pending c rnd ctx fuel (drop (lx_frame_payload_size ctx) pending) (Suc index))
          (\<lambda>(es, pending, index). Inr (e # es, pending, index)))
      else Inr ([], pending, index))"

fun frame_blocks ::
  "crypto \<Rightarrow> ('c, 'd) stream_lib \<Rightarrow> (nat \<Rightarrow> nat \<Rightarrow> bytes) \<Rightarrow> solid_ctx \<Rightarrow> 'c \<Rightarrow> bytes list \<Rightarrow> bytes \<Rightarrow> nat
     \<Rightarrow> emitted list result" where
  "frame_blocks c lib rnd ctx compressor [] pending index =
     (let pending = pending @ sc_flush lib compressor
      in bindR (emit_pending c rnd ctx (length pending) pending index) (\<lambda>(es, pending, index).
         bindR (emit_solid_frame c rnd ctx index pending True) (\<lambda>e. Inr (es @ [e]))))"
| "frame_blocks c lib rnd ctx compressor (block # blocks) pending index =
     (let (out, compressor) = sc_compress lib compressor block; pending = pending @ out
      in bindR (emit_pending c rnd ctx (length pending) pending index) (\<lambda>(es, pending, index).
         bindR (frame_blocks c lib rnd ctx compressor blocks pending index) (\<lambda>es'. Inr (es @ es'))))"

definition write_solid_lane_frames ::
  "crypto \<Rightarrow> ('c, 'd) stream_lib \<Rightarrow> (nat \<Rightarrow> nat \<Rightarrow> bytes) \<Rightarrow> solid_ctx \<Rightarrow> bytes \<Rightarrow> int \<Rightarrow> bool \<Rightarrow> nat option
     \<Rightarrow> (bytes \<times> SolidFrameWriteStats) result" where
  "write_solid_lane_frames c lib rnd ctx source start_index raw_lzma2 codec_id =
     bindR (validate_solid_options ctx) (\<lambda>_.
       if \<not> (0 \<le> start_index \<and> start_index \<le> int MAX_UINT32)
       then Inl (ValueError ''solid frame start index is outside the uint32 range'')
       else bindR (solid_compressor lib (lx_lane ctx) raw_lzma2 codec_id) (\<lambda>compressor.
         bindR (frame_blocks c lib rnd ctx compressor (read_blocks IO_BLOCK_SIZE source) [] (nat start_index)) (\<lambda>es.
           Inr (concat (map em_bytes es),
                frame_write_stats (nat start_index) (sum_list (map em_payload es)) es))))"

section \<open>Reading\<close>

definition solid_read :: "bytes \<Rightarrow> nat \<Rightarrow> (bytes \<times> bytes) result" where
  "solid_read = read_exact ''solid frame stream is truncated''"

text \<open>One frame: the header at its place, the authenticated payload and its bounds.\<close>

definition read_solid_frame :: "crypto \<Rightarrow> solid_ctx \<Rightarrow> bytes \<Rightarrow> nat \<Rightarrow> bool \<Rightarrow> (bytes \<times> bytes) result" where
  "read_solid_frame c ctx stream index final =
     bindR (solid_read stream (struct_size SOLID_FRAME_HEADER)) (\<lambda>(header, stream).
     bindR (struct_unpack SOLID_FRAME_HEADER header) (\<lambda>vs.
       let ciphertext_length = uval (vs ! 3);
           maximum_padded = padded_length (8 + lx_frame_payload_size ctx) (lx_padding_size ctx)
       in if uval (vs ! 0) \<noteq> index \<or> uval (vs ! 1) \<noteq> lx_lane ctx
             \<or> uval (vs ! 2) \<noteq> (if final then FLAG_FINAL else 0)
             \<or> ciphertext_length < AEAD_TAG_LENGTH
             \<or> ciphertext_length > maximum_padded + AEAD_TAG_LENGTH
             \<or> (ciphertext_length - AEAD_TAG_LENGTH) mod lx_padding_size ctx \<noteq> 0
          then Inl (ArchiveFormatError ''solid frame header is inconsistent'')
          else bindR (solid_read stream ciphertext_length) (\<lambda>(ciphertext, stream).
            bindR (frame_nonce (lx_nonce_prefix ctx) index) (\<lambda>nonce.
            bindR (decrypt c (lx_key ctx) nonce ciphertext (lx_associated_data ctx @ header)) (\<lambda>padded.
            bindR (unpad_payload padded) (\<lambda>compressed.
              if length compressed > lx_frame_payload_size ctx
                 \<or> \<not> final \<and> length compressed \<noteq> lx_frame_payload_size ctx
              then Inl (ArchiveFormatError ''solid frame payload exceeds its bound'')
              else Inr (compressed, stream)))))))"

text \<open>
  The inner loop: the decompressor is called until it has ended or needs the next frame. Beside the
  outcome stands what has been written to the destination, by a failing run as well. The fuel
  exceeds the output that is left, so a library that obeys \<open>progress_law\<close> never uses it up.
\<close>

fun decompress_frame ::
  "('c, 'd) stream_lib \<Rightarrow> nat \<Rightarrow> 'd \<Rightarrow> bytes \<Rightarrow> nat \<Rightarrow> bytes \<times> 'd result" where
  "decompress_frame lib 0 decoder input_data remaining = ([], Inl OutOfFuel)"
| "decompress_frame lib (Suc fuel) decoder input_data remaining =
     (case sd_decompress lib decoder input_data (min OUTPUT_BLOCK_SIZE (remaining + 1)) of
        None \<Rightarrow> ([], Inl (ArchiveFormatError ''solid frame compressed payload is malformed''))
      | Some (out, decoder) \<Rightarrow>
          if length out > remaining then ([], Inl (ArchiveFormatError ''solid frame stream exceeds its declared size''))
          else if sd_eof lib decoder \<or> sd_needs_input lib decoder then (out, Inr decoder)
          else let (rest, outcome) = decompress_frame lib fuel decoder [] (remaining - length out)
               in (out @ rest, outcome))"

text \<open>
  The frames of a lane, with the decompressor (none for a raw lane) and what the destination holds:
  \<open>decoded\<close> before, the first component after the run, whether it fails or not.
\<close>

fun read_lane ::
  "crypto \<Rightarrow> ('c, 'd) stream_lib \<Rightarrow> solid_ctx \<Rightarrow> nat \<Rightarrow> nat \<Rightarrow> nat \<Rightarrow> 'd option \<Rightarrow> bytes \<Rightarrow> bytes
     \<Rightarrow> bytes \<times> ('d option \<times> bytes) result" where
  "read_lane c lib ctx expected_size 0 index decoder decoded stream = (decoded, Inr (decoder, stream))"
| "read_lane c lib ctx expected_size (Suc frames) index decoder decoded stream =
     (case read_solid_frame c ctx stream index (frames = 0) of
        Inl e \<Rightarrow> (decoded, Inl e)
      | Inr (compressed, stream) \<Rightarrow>
       let remaining = expected_size - length decoded
       in case decoder of
            None \<Rightarrow>
              if length compressed > remaining
              then (decoded, Inl (ArchiveFormatError ''solid frame stream exceeds its declared size''))
              else read_lane c lib ctx expected_size frames (Suc index) None (decoded @ compressed) stream
          | Some d \<Rightarrow>
              (case decompress_frame lib (remaining + 2) d compressed remaining of
                 (out, Inl e) \<Rightarrow> (decoded @ out, Inl e)
               | (out, Inr d) \<Rightarrow>
                   if sd_eof lib d \<noteq> (frames = 0) \<or> sd_unused lib d \<noteq> []
                   then (decoded @ out, Inl (ArchiveFormatError ''solid frame stream terminates inconsistently''))
                   else read_lane c lib ctx expected_size frames (Suc index) (Some d) (decoded @ out) stream))"

definition lane_decoder ::
  "('c, 'd) stream_lib \<Rightarrow> nat \<Rightarrow> bool \<Rightarrow> bool \<Rightarrow> nat option \<Rightarrow> 'd option result" where
  "lane_decoder lib lane raw_lzma2 passthrough codec_id =
     (if passthrough
      then if codec_id \<notin> {None, Some SOLID_CODEC_RAW}
           then Inl (ValueError ''solid passthrough requires the raw codec'') else Inr None
      else if codec_id = Some SOLID_CODEC_RAW then Inl (ValueError ''the raw solid codec requires passthrough'')
      else bindR (solid_decompressor lib lane raw_lzma2 codec_id) (\<lambda>d. Inr (Some d)))"

text \<open>What the reader has written to its destination, and its statistics with the rest of the source.\<close>

definition read_solid_lane_frames ::
  "crypto \<Rightarrow> ('c, 'd) stream_lib \<Rightarrow> solid_ctx \<Rightarrow> bytes \<Rightarrow> nat \<Rightarrow> nat \<Rightarrow> nat \<Rightarrow> bool \<Rightarrow> bool \<Rightarrow> nat option
     \<Rightarrow> bytes \<times> (SolidFrameReadStats \<times> bytes) result" where
  "read_solid_lane_frames c lib ctx source start_index frame_count expected_size raw_lzma2 passthrough codec_id =
     (case bindR (validate_solid_options ctx) (\<lambda>_.
             if frame_count = 0 then Inl (ArchiveFormatError ''solid frame count or decoded size is invalid'')
             else lane_decoder lib (lx_lane ctx) raw_lzma2 passthrough codec_id) of
        Inl e \<Rightarrow> ([], Inl e)
      | Inr decoder \<Rightarrow>
          let (decoded, outcome) = read_lane c lib ctx expected_size frame_count start_index decoder [] source
          in (decoded, bindR outcome (\<lambda>(decoder, source).
               if length decoded \<noteq> expected_size \<or> (case decoder of None \<Rightarrow> False | Some d \<Rightarrow> \<not> sd_eof lib d)
               then Inl (ArchiveFormatError ''solid frame decoded size is inconsistent'')
               else Inr (\<lparr>fr_frame_count = frame_count, fr_next_index = start_index + frame_count,
                          fr_decoded_size = length decoded\<rparr>, source))))"

section \<open>Frames as pieces of a stream\<close>

text \<open>What both writers emit: the pieces of the compressed stream, the last one marked final.\<close>

definition lane_pieces :: "nat \<Rightarrow> bytes \<Rightarrow> bytes list" where
  "lane_pieces n stream = (if stream = [] then [[]] else read_blocks n stream)"

fun emit_pieces ::
  "crypto \<Rightarrow> (nat \<Rightarrow> nat \<Rightarrow> bytes) \<Rightarrow> solid_ctx \<Rightarrow> nat \<Rightarrow> bytes list \<Rightarrow> emitted list result" where
  "emit_pieces c rnd ctx index [] = Inr []"
| "emit_pieces c rnd ctx index (piece # pieces) =
     bindR (emit_solid_frame c rnd ctx index piece (pieces = [])) (\<lambda>e.
     bindR (emit_pieces c rnd ctx (Suc index) pieces) (\<lambda>es. Inr (e # es)))"

lemma lane_pieces_small: "length s \<le> n \<Longrightarrow> lane_pieces n s = [s]"
  by (cases "s = []"; cases "n = 0") (simp_all add: lane_pieces_def read_blocks.simps)

lemma lane_pieces_split: "0 < n \<Longrightarrow> n < length s \<Longrightarrow> lane_pieces n s = take n s # lane_pieces n (drop n s)"
  by (subst lane_pieces_def, subst read_blocks.simps) (auto simp: lane_pieces_def)

lemma lane_pieces_ne [simp]: "0 < n \<Longrightarrow> lane_pieces n s \<noteq> []"
  by (auto simp: lane_pieces_def read_blocks.simps)

lemma concat_lane_pieces: "0 < n \<Longrightarrow> concat (lane_pieces n s) = s"
  by (simp add: lane_pieces_def concat_read_blocks)

lemma frame_spool_pieces:
  assumes "0 < lx_frame_payload_size ctx"
  shows "remaining \<le> length source \<Longrightarrow> remaining \<le> fuel \<Longrightarrow> 0 < remaining \<Longrightarrow>
    frame_spool c rnd ctx fuel remaining source index =
      bindR (emit_pieces c rnd ctx index (lane_pieces (lx_frame_payload_size ctx) (take remaining source)))
        (\<lambda>es. Inr (es, drop remaining source))"
proof (induction fuel arbitrary: remaining source index)
  case (Suc fuel)
  let ?n = "lx_frame_payload_size ctx"
  show ?case
  proof (cases "remaining \<le> ?n")
    case True
    then have pieces: "lane_pieces ?n (take remaining source) = [take remaining source]"
      using Suc.prems(1) by (simp add: lane_pieces_small)
    have "frame_spool c rnd ctx fuel 0 s i = Inr ([], s)" for s i by (cases fuel) simp_all
    with True Suc.prems show ?thesis by (simp add: stream_read_def pieces bindR_assoc)
  next
    case False
    then have pieces: "lane_pieces ?n (take remaining source)
        = take ?n source # lane_pieces ?n (take (remaining - ?n) (drop ?n source))"
      using lane_pieces_split[OF assms, of "take remaining source"] Suc.prems(1) by (simp add: drop_take min_def)
    have "frame_spool c rnd ctx fuel (remaining - ?n) (drop ?n source) (Suc index)
        = bindR (emit_pieces c rnd ctx (Suc index) (lane_pieces ?n (take (remaining - ?n) (drop ?n source))))
            (\<lambda>es. Inr (es, drop (remaining - ?n) (drop ?n source)))"
      by (rule Suc.IH) (use Suc.prems False assms in simp_all)
    with False Suc.prems assms show ?thesis
      by (simp add: stream_read_def pieces bindR_assoc min_def Let_def)
  qed
qed simp

text \<open>What the spool writer does with exactly its declared bytes.\<close>

lemma write_precompressed_pieces:
  assumes "validate_solid_options ctx = Inr ()" and "0 \<le> start" and "start \<le> int MAX_UINT32"
  shows "write_precompressed_solid_lane_frames c rnd ctx payload (int (length payload)) start =
    bindR (emit_pieces c rnd ctx (nat start) (lane_pieces (lx_frame_payload_size ctx) payload)) (\<lambda>es.
      Inr (concat (map em_bytes es), frame_write_stats (nat start) (length payload) es))"
proof -
  have n: "0 < lx_frame_payload_size ctx" using assms(1) by (auto simp: validate_solid_options_def split: if_split_asm)
  show ?thesis
  proof (cases "payload = []")
    case True
    with assms n show ?thesis
      by (simp add: write_precompressed_solid_lane_frames_def lane_pieces_small bindR_assoc stream_read_def)
  next
    case False
    then have "frame_spool c rnd ctx (length payload) (length payload) payload (nat start)
      = bindR (emit_pieces c rnd ctx (nat start) (lane_pieces (lx_frame_payload_size ctx) payload)) (\<lambda>es. Inr (es, []))"
      using frame_spool_pieces[OF n, of "length payload" payload "length payload"] by simp
    with assms False show ?thesis
      by (simp add: write_precompressed_solid_lane_frames_def bindR_assoc stream_read_def)
  qed
qed

text \<open>Emptying the pending bytes commutes with what is still to come.\<close>

lemma emit_pending_pieces:
  assumes "0 < lx_frame_payload_size ctx"
  shows "length pending \<le> fuel \<Longrightarrow>
    emit_pieces c rnd ctx index (lane_pieces (lx_frame_payload_size ctx) (pending @ later)) =
      bindR (emit_pending c rnd ctx fuel pending index) (\<lambda>(es, pending, index).
      bindR (emit_pieces c rnd ctx index (lane_pieces (lx_frame_payload_size ctx) (pending @ later))) (\<lambda>es'.
        Inr (es @ es')))"
proof (induction fuel arbitrary: pending index)
  case (Suc fuel)
  let ?n = "lx_frame_payload_size ctx"
  show ?case
  proof (cases "length pending > ?n")
    case True
    then have pieces: "lane_pieces ?n (pending @ later) = take ?n pending # lane_pieces ?n (drop ?n pending @ later)"
      using lane_pieces_split[OF assms, of "pending @ later"] by simp
    have "length (drop ?n pending) \<le> fuel" using True Suc.prems assms by simp
    note ih = Suc.IH[OF this, of "Suc index"]
    show ?thesis using True assms unfolding pieces by (simp add: ih bindR_assoc split_beta)
  qed (simp add: bindR_def split: sum.split)
qed (simp add: bindR_def split: sum.split)

lemma emit_pending_small:
  "0 < lx_frame_payload_size ctx \<Longrightarrow> length pending \<le> fuel \<Longrightarrow>
   emit_pending c rnd ctx fuel pending index = Inr (es, pending', index') \<Longrightarrow> length pending' \<le> lx_frame_payload_size ctx"
proof (induction fuel arbitrary: pending index es)
  case (Suc fuel)
  let ?n = "lx_frame_payload_size ctx"
  show ?case
  proof (cases "length pending > ?n")
    case True
    with Suc.prems(3) obtain es' where "emit_pending c rnd ctx fuel (drop ?n pending) (Suc index) = Inr (es', pending', index')"
      by (auto simp: bindR_eq_Inr)
    moreover have "length (drop ?n pending) \<le> fuel" using Suc.prems(1,2) True by simp
    ultimately show ?thesis using Suc.IH Suc.prems(1) by blast
  qed (use Suc.prems(3) in auto)
qed simp

text \<open>The writer in one pass emits the pieces of the whole compressed stream.\<close>

lemma frame_blocks_pieces:
  assumes n: "0 < lx_frame_payload_size ctx"
  shows "frame_blocks c lib rnd ctx compressor blocks pending index =
    emit_pieces c rnd ctx index (lane_pieces (lx_frame_payload_size ctx) (pending @ compress_blocks lib compressor blocks))"
proof (induction blocks arbitrary: compressor pending index)
  case Nil
  let ?p = "pending @ sc_flush lib compressor"
  have last: "emit_pieces c rnd ctx i (lane_pieces (lx_frame_payload_size ctx) p) = bindR (emit_solid_frame c rnd ctx i p True) (\<lambda>e. Inr [e])"
    if "length p \<le> lx_frame_payload_size ctx" for i p
    using that by (simp add: lane_pieces_small)
  show ?case
  proof (cases "emit_pending c rnd ctx (length ?p) ?p index")
    case (Inl e)
    then show ?thesis using emit_pending_pieces[OF n, of ?p "length ?p" c rnd index "[]"] by (simp add: Let_def)
  next
    case (Inr t)
    obtain es p i where t: "t = (es, p, i)" by (cases t)
    from emit_pending_small[OF n _ Inr[unfolded t]] have "length p \<le> lx_frame_payload_size ctx" by simp
    with last[of p i] show ?thesis using Inr emit_pending_pieces[OF n, of ?p "length ?p" c rnd index "[]"]
      by (simp add: Let_def t bindR_assoc)
  qed
next
  case (Cons block blocks)
  obtain out compressor' where s: "sc_compress lib compressor block = (out, compressor')"
    by (cases "sc_compress lib compressor block")
  show ?case using emit_pending_pieces[OF n, of "pending @ out" "length (pending @ out)" c rnd index "compress_blocks lib compressor' blocks"]
    by (simp add: s Let_def Cons.IH)
qed

text \<open>Sizes of the emitted frames.\<close>

lemma emit_solid_frame_Inr:
  assumes "emit_solid_frame c rnd ctx index payload final = Inr e" and "\<forall>k. random_law (rnd k)"
  obtains padded header nonce where "index \<le> MAX_UINT32" and "pad_payload (rnd index) payload (lx_padding_size ctx) = Inr padded"
    and "struct_pack SOLID_FRAME_HEADER [VU index, VU (lx_lane ctx), VU (if final then FLAG_FINAL else 0),
           VU (length padded + AEAD_TAG_LENGTH)] = Inr header"
    and "frame_nonce (lx_nonce_prefix ctx) index = Inr nonce"
    and "em_bytes e = header @ encrypt c (lx_key ctx) nonce padded (lx_associated_data ctx @ header)"
    and "em_padded e = length padded" and "em_payload e = length payload"
    and "length padded = padded_length (8 + length payload) (lx_padding_size ctx)"
    and "length header = struct_size SOLID_FRAME_HEADER"
proof -
  from assms(1) obtain padded header nonce where p: "index \<le> MAX_UINT32"
    "pad_payload (rnd index) payload (lx_padding_size ctx) = Inr padded"
    "struct_pack SOLID_FRAME_HEADER [VU index, VU (lx_lane ctx), VU (if final then FLAG_FINAL else 0),
           VU (length padded + AEAD_TAG_LENGTH)] = Inr header"
    "frame_nonce (lx_nonce_prefix ctx) index = Inr nonce"
    "e = \<lparr>em_bytes = header @ encrypt c (lx_key ctx) nonce padded (lx_associated_data ctx @ header),
          em_padded = length padded, em_payload = length payload\<rparr>"
    by (auto simp: emit_solid_frame_def bindR_eq_Inr not_less split: if_split_asm)
  show thesis
    by (rule that[OF p(1-4)]) (use p(5) length_pad_payload[OF p(2)] assms(2) struct_pack_length[OF p(3)] in simp_all)
qed

lemma emit_pieces_payloads:
  "emit_pieces c rnd ctx index pieces = Inr es \<Longrightarrow> map em_payload es = map length pieces"
proof (induction pieces arbitrary: index es)
  case (Cons piece pieces)
  then obtain e es' where e: "emit_solid_frame c rnd ctx index piece (pieces = []) = Inr e"
    "emit_pieces c rnd ctx (Suc index) pieces = Inr es'" "es = e # es'" by (auto simp: bindR_eq_Inr)
  then have "em_payload e = length piece" by (auto simp: emit_solid_frame_def bindR_eq_Inr split: if_split_asm)
  with Cons.IH[OF e(2)] e(3) show ?case by simp
qed simp

lemma valid_solid_options:
  assumes "validate_solid_options ctx = Inr ()"
  shows "lx_lane ctx < LANE_COUNT" and "length (lx_nonce_prefix ctx) = 4"
    and "1024 \<le> lx_frame_payload_size ctx" and "lx_frame_payload_size ctx \<le> 16 * 1024 * 1024"
    and "256 \<le> lx_padding_size ctx" and "lx_padding_size ctx \<le> lx_frame_payload_size ctx"
  using assms by (auto simp: validate_solid_options_def split: if_split_asm)

text \<open>The writer in one pass is the spool writer behind the compressor, statistics and errors included.\<close>

lemma one_pass_writer:
  assumes valid: "validate_solid_options ctx = Inr ()" and start: "0 \<le> start" "start \<le> int MAX_UINT32"
  shows "write_solid_lane_frames c lib rnd ctx source start raw_lzma2 codec_id =
    bindR (compress_solid_lane lib source (lx_lane ctx) raw_lzma2 codec_id) (\<lambda>payload.
      write_precompressed_solid_lane_frames c rnd ctx payload (int (length payload)) start)"
proof -
  note v = valid_solid_options[OF valid]
  let ?n = "lx_frame_payload_size ctx"
  have n: "0 < ?n" using v(3) by simp
  have lane: "lx_lane ctx \<in> {STANDARD, DELTA4, HIGH_ENTROPY}" using v(1) by auto
  show ?thesis
  proof (cases "solid_compressor lib (lx_lane ctx) raw_lzma2 codec_id")
    case (Inr compressor)
    let ?payload = "compress_blocks lib compressor (read_blocks IO_BLOCK_SIZE source)"
    have frames: "frame_blocks c lib rnd ctx compressor (read_blocks IO_BLOCK_SIZE source) [] (nat start)
        = emit_pieces c rnd ctx (nat start) (lane_pieces ?n ?payload)"
      by (simp add: frame_blocks_pieces[OF n])
    have "sum_list (map em_payload es) = length ?payload"
      if "emit_pieces c rnd ctx (nat start) (lane_pieces ?n ?payload) = Inr es" for es
      using emit_pieces_payloads[OF that] concat_lane_pieces[OF n, of ?payload] by (metis length_concat)
    then have stats: "bindR (emit_pieces c rnd ctx (nat start) (lane_pieces ?n ?payload)) (\<lambda>es.
        Inr (concat (map em_bytes es), frame_write_stats (nat start) (sum_list (map em_payload es)) es))
      = bindR (emit_pieces c rnd ctx (nat start) (lane_pieces ?n ?payload)) (\<lambda>es.
        Inr (concat (map em_bytes es), frame_write_stats (nat start) (length ?payload) es))"
      by (intro bindR_cong) simp_all
    show ?thesis using Inr valid start lane stats
      by (simp add: write_solid_lane_frames_def compress_solid_lane_def write_precompressed_pieces frames)
  qed (use valid start lane in \<open>simp add: write_solid_lane_frames_def compress_solid_lane_def\<close>)
qed

lemma read_blocks_sum:
  "0 < n \<Longrightarrow> sum_list (map (\<lambda>b. f (length b)) (read_blocks n s))
     = length s div n * f n + (if length s mod n \<noteq> 0 then f (length s mod n) else (0 :: nat))"
proof (induction n s rule: read_blocks.induct)
  case (1 n s)
  show ?case
  proof (cases "s = []")
    case False
    then have rb: "read_blocks n s = take n s # read_blocks n (drop n s)" using 1(2) by (subst read_blocks.simps) simp
    have ih: "sum_list (map (\<lambda>b. f (length b)) (read_blocks n (drop n s)))
      = (length s - n) div n * f n + (if (length s - n) mod n \<noteq> 0 then f ((length s - n) mod n) else 0)"
      using 1(1) 1(2) False by simp
    show ?thesis
    proof (cases "length s < n")
      case True
      then show ?thesis using ih False by (simp add: rb)
    next
      case False
      then have "length s div n = Suc ((length s - n) div n)" "length s mod n = (length s - n) mod n"
        using 1(2) by (simp_all add: le_div_geq le_mod_geq)
      with ih False show ?thesis by (simp add: rb min_def)
    qed
  qed simp
qed

lemma emit_pieces_length:
  assumes "aead_law c" and "\<forall>k. random_law (rnd k)"
  shows "emit_pieces c rnd ctx index pieces = Inr es \<Longrightarrow>
    length (concat (map em_bytes es)) = sum_list (map (\<lambda>p. solid_frame_size (lx_padding_size ctx) (length p)) pieces)"
proof (induction pieces arbitrary: index es)
  case (Cons piece pieces)
  then obtain e es' where e: "emit_solid_frame c rnd ctx index piece (pieces = []) = Inr e"
    "emit_pieces c rnd ctx (Suc index) pieces = Inr es'" "es = e # es'" by (auto simp: bindR_eq_Inr)
  have "length (em_bytes e) = solid_frame_size (lx_padding_size ctx) (length piece)"
    by (rule emit_solid_frame_Inr[OF e(1) assms(2)]) (use assms(1) in \<open>simp add: solid_frame_size_def\<close>)
  with Cons.IH[OF e(2)] e(3) show ?case by simp
qed simp

text \<open>\<^verbatim>\<open>solid_lane_framed_size\<close> predicts the bytes that the writer emits for a nonempty payload.\<close>

lemma framed_size_exact:
  assumes w: "write_precompressed_solid_lane_frames c rnd ctx payload (int (length payload)) start = Inr (out, stats)"
    and laws: "aead_law c" "\<forall>k. random_law (rnd k)" and ne: "payload \<noteq> []"
  shows "solid_lane_framed_size (int (length payload)) (lx_frame_payload_size ctx) (lx_padding_size ctx) = Inr (length out)
    \<and> fw_frame_count stats = (length payload + lx_frame_payload_size ctx - 1) div lx_frame_payload_size ctx"
proof -
  let ?n = "lx_frame_payload_size ctx" and ?f = "solid_frame_size (lx_padding_size ctx)"
  have valid: "validate_solid_options ctx = Inr ()" and start: "0 \<le> start" "start \<le> int MAX_UINT32"
    using w by (auto simp: write_precompressed_solid_lane_frames_def bindR_eq_Inr split: if_split_asm)
  note v = valid_solid_options[OF valid]
  from w[unfolded write_precompressed_pieces[OF valid start]] obtain es where
    es: "emit_pieces c rnd ctx (nat start) (lane_pieces ?n payload) = Inr es" and out: "out = concat (map em_bytes es)"
    and stats: "stats = frame_write_stats (nat start) (length payload) es" by (auto simp: bindR_eq_Inr)
  have n: "0 < ?n" using v(3) by simp
  have pieces: "lane_pieces ?n payload = read_blocks ?n payload" using ne by (simp add: lane_pieces_def)
  have "length out = length payload div ?n * ?f ?n + (if length payload mod ?n \<noteq> 0 then ?f (length payload mod ?n) else 0)"
    using emit_pieces_length[OF laws es] read_blocks_sum[OF n, of ?f payload] by (simp add: out pieces)
  moreover have "length es = (length payload + ?n - 1) div ?n"
  proof -
    have "length es = length (read_blocks ?n payload)"
      using arg_cong[OF emit_pieces_payloads[OF es], of length] by (simp add: pieces)
    then show ?thesis using read_blocks_count[OF n] by simp
  qed
  ultimately show ?thesis using v ne by (simp add: solid_lane_framed_size_def Let_def stats frame_write_stats_def)
qed

section \<open>Reading back\<close>

lemma read_emitted_frame:
  assumes e: "emit_solid_frame c rnd ctx index payload final = Inr e" and laws: "aead_law c" "\<forall>k. random_law (rnd k)"
    and valid: "validate_solid_options ctx = Inr ()"
    and len: "length payload \<le> lx_frame_payload_size ctx" "\<not> final \<longrightarrow> length payload = lx_frame_payload_size ctx"
  shows "read_solid_frame c ctx (em_bytes e @ rest) index final = Inr (payload, rest)"
proof (rule emit_solid_frame_Inr[OF e laws(2)])
  note v = valid_solid_options[OF valid]
  fix padded header nonce
  assume i: "index \<le> MAX_UINT32" and padded: "pad_payload (rnd index) payload (lx_padding_size ctx) = Inr padded"
    and header: "struct_pack SOLID_FRAME_HEADER [VU index, VU (lx_lane ctx), VU (if final then FLAG_FINAL else 0),
           VU (length padded + AEAD_TAG_LENGTH)] = Inr header"
    and nonce: "frame_nonce (lx_nonce_prefix ctx) index = Inr nonce"
    and b: "em_bytes e = header @ encrypt c (lx_key ctx) nonce padded (lx_associated_data ctx @ header)"
    and pl: "length padded = padded_length (8 + length payload) (lx_padding_size ctx)"
    and hl: "length header = struct_size SOLID_FRAME_HEADER"
  let ?vs = "[VU index, VU (lx_lane ctx), VU (if final then FLAG_FINAL else 0), VU (length padded + AEAD_TAG_LENGTH)]"
  have fits: "list_all2 field_exact SOLID_FRAME_HEADER ?vs"
    using header by (auto simp: struct_pack_def split: if_split_asm)
  have up: "struct_unpack SOLID_FRAME_HEADER header = Inr ?vs" by (rule struct_unpack_pack[OF fits header])
  have "(8 + length payload + lx_padding_size ctx - 1) div lx_padding_size ctx
      \<le> (8 + lx_frame_payload_size ctx + lx_padding_size ctx - 1) div lx_padding_size ctx"
    by (rule div_le_mono) (use len(1) in simp)
  then have small: "length padded \<le> padded_length (8 + lx_frame_payload_size ctx) (lx_padding_size ctx)"
    unfolding pl padded_length_def by (rule mult_le_mono1)
  have "length padded mod lx_padding_size ctx = 0" by (simp add: pl)
  with up hl small nonce laws(1) unpad_pad[OF padded] len show ?thesis
    by (auto simp: read_solid_frame_def solid_read_def b)
qed

text \<open>The inner loop on a valid stream: it takes one payload and ends at the boundary of the next.\<close>

lemma decompress_frame_run:
  assumes law: "progress_law lib" "reads_law lib reads"
  shows "reads d (input @ rest) out \<Longrightarrow> \<not> sd_eof lib d \<Longrightarrow> input = [] \<or> sd_needs_input lib d \<Longrightarrow>
    length out \<le> remaining \<Longrightarrow> length out + 1 < fuel \<Longrightarrow>
    \<exists>now later d'. decompress_frame lib fuel d input remaining = (now, Inr d') \<and> out = now @ later
      \<and> reads d' rest later \<and> (sd_eof lib d' \<or> sd_needs_input lib d')"
proof (induction fuel arbitrary: d input out remaining)
  case (Suc fuel)
  let ?m = "min OUTPUT_BLOCK_SIZE (remaining + 1)"
  have "0 < ?m" by simp
  with law(2) Suc.prems(1-3) obtain now later d' where
    step: "sd_decompress lib d input ?m = Some (now, d')" "out = now @ later" "length now \<le> ?m" "reads d' rest later"
    unfolding reads_law_def by metis
  have small: "length now \<le> remaining" using step(2) Suc.prems(4) by simp
  show ?case
  proof (cases "sd_eof lib d' \<or> sd_needs_input lib d'")
    case True
    with step small show ?thesis by (intro exI[of _ now] exI[of _ later] exI[of _ d']) simp
  next
    case False
    have "?m \<le> length now" using law(1) step(1) False unfolding progress_law_def by blast
    then have now: "0 < length now" by (cases now) simp_all
    have fit: "length later \<le> remaining - length now" "length later + 1 < fuel"
      using arg_cong[OF step(2), of length] Suc.prems(4,5) now unfolding length_append by linarith+
    have "reads d' ([] @ rest) later" "\<not> sd_eof lib d'" using step(4) False by simp_all
    from Suc.IH[OF this disjI1[OF refl] fit] obtain now' later' d'' where
      "decompress_frame lib fuel d' [] (remaining - length now) = (now', Inr d'')" "later = now' @ later'"
      "reads d'' rest later'" "sd_eof lib d'' \<or> sd_needs_input lib d''" by blast
    with step False small show ?thesis by (intro exI[of _ "now @ now'"] exI[of _ later'] exI[of _ d'']) simp
  qed
qed simp

text \<open>The pieces of a lane: all but the last have the full payload size.\<close>

fun piece_sizes :: "nat \<Rightarrow> bytes list \<Rightarrow> bool" where
  "piece_sizes n [] \<longleftrightarrow> True"
| "piece_sizes n (piece # pieces) \<longleftrightarrow>
     length piece \<le> n \<and> (pieces \<noteq> [] \<longrightarrow> length piece = n) \<and> piece_sizes n pieces"

lemma piece_sizes_blocks: "0 < n \<Longrightarrow> piece_sizes n (read_blocks n s)"
proof (induction n s rule: read_blocks.induct)
  case (1 n s)
  show ?case
  proof (cases "s = []")
    case False
    then have rb: "read_blocks n s = take n s # read_blocks n (drop n s)" using 1(2) by (subst read_blocks.simps) simp
    have "piece_sizes n (read_blocks n (drop n s))" using 1(1) 1(2) False by simp
    moreover have "length (take n s) = n" if "read_blocks n (drop n s) \<noteq> []"
    proof -
      have "drop n s \<noteq> []" using that by auto
      then show ?thesis by simp
    qed
    ultimately show ?thesis by (simp add: rb)
  qed simp
qed

lemma piece_sizes_lane: "0 < n \<Longrightarrow> piece_sizes n (lane_pieces n s)"
  by (simp add: lane_pieces_def piece_sizes_blocks)

lemma read_lane_stream:
  assumes laws: "aead_law c" "\<forall>k. random_law (rnd k)" and valid: "validate_solid_options ctx = Inr ()"
    and lib: "progress_law lib" "reads_law lib reads"
  shows "emit_pieces c rnd ctx index pieces = Inr es \<Longrightarrow> pieces \<noteq> [] \<Longrightarrow> piece_sizes (lx_frame_payload_size ctx) pieces \<Longrightarrow>
    reads d (concat pieces) out \<Longrightarrow> \<not> sd_eof lib d \<Longrightarrow> sd_needs_input lib d \<Longrightarrow>
    [] \<notin> set pieces \<Longrightarrow> \<exists>d'. read_lane c lib ctx (length decoded + length out) (length pieces) index (Some d) decoded (concat (map em_bytes es) @ rest)
        = (decoded @ out, Inr (Some d', rest)) \<and> sd_eof lib d'"
proof (induction pieces arbitrary: index es d decoded out)
  case (Cons piece pieces)
  let ?n = "lx_frame_payload_size ctx"
  from Cons.prems(1) obtain e es' where e: "emit_solid_frame c rnd ctx index piece (pieces = []) = Inr e"
    "emit_pieces c rnd ctx (Suc index) pieces = Inr es'" "es = e # es'" by (auto simp: bindR_eq_Inr)
  have frame: "read_solid_frame c ctx (em_bytes e @ concat (map em_bytes es') @ rest) index (length pieces = 0)
      = Inr (piece, concat (map em_bytes es') @ rest)"
    using read_emitted_frame[OF e(1) laws valid, of "concat (map em_bytes es') @ rest"] Cons.prems(3) by auto
  have reads: "reads d (piece @ concat pieces) out" using Cons.prems(4) by simp
  have fuel: "length out + 1 < length out + 2" by simp
  from decompress_frame_run[OF lib reads Cons.prems(5) disjI2[OF Cons.prems(6)] le_refl fuel] obtain now later d1 where
    run: "decompress_frame lib (length out + 2) d piece (length out) = (now, Inr d1)" "out = now @ later"
      "reads d1 (concat pieces) later" "sd_eof lib d1 \<or> sd_needs_input lib d1" by blast
  have state: "sd_unused lib d1 = []" "sd_eof lib d1 \<longrightarrow> concat pieces = [] \<and> later = []"
    "sd_needs_input lib d1 \<and> \<not> sd_eof lib d1 \<longrightarrow> concat pieces \<noteq> []"
    using lib(2) run(3) unfolding reads_law_def by blast+
  show ?case
  proof (cases "pieces = []")
    case True
    then have "sd_eof lib d1" using state(3) run(4) by auto
    moreover have "es' = []" using e(2) True by simp
    ultimately have "read_lane c lib ctx (length decoded + length out) (Suc (length pieces)) index (Some d) decoded
        (em_bytes e @ concat (map em_bytes es') @ rest) = (decoded @ out, Inr (Some d1, rest))"
      using True state(1,2) frame run(1,2) by simp
    with \<open>sd_eof lib d1\<close> show ?thesis by (auto simp: e(3))
  next
    case False
    then have "concat pieces \<noteq> []" using Cons.prems(7) by (cases pieces) auto
    then have d1: "\<not> sd_eof lib d1" "sd_needs_input lib d1" using state(2) run(4) by auto
    have "piece_sizes ?n pieces" "[] \<notin> set pieces" using Cons.prems(3,7) by simp_all
    from Cons.IH[OF e(2) False this(1) run(3) d1 this(2), of "decoded @ now"] obtain d' where
      d': "read_lane c lib ctx (length decoded + length out) (length pieces) (Suc index) (Some d1) (decoded @ now)
         (concat (map em_bytes es') @ rest) = (decoded @ out, Inr (Some d', rest))" "sd_eof lib d'"
      by (auto simp: run(2) add.assoc)
    have "read_lane c lib ctx (length decoded + length out) (Suc (length pieces)) index (Some d) decoded
        (em_bytes e @ concat (map em_bytes es') @ rest) = (decoded @ out, Inr (Some d', rest))"
      using False state(1) d1 frame run(1) d'(1) by simp
    with d'(2) show ?thesis by (auto simp: e(3))
  qed
qed simp

lemma read_lane_raw:
  assumes laws: "aead_law c" "\<forall>k. random_law (rnd k)" and valid: "validate_solid_options ctx = Inr ()"
  shows "emit_pieces c rnd ctx index pieces = Inr es \<Longrightarrow> piece_sizes (lx_frame_payload_size ctx) pieces \<Longrightarrow>
    read_lane c lib ctx (length decoded + length (concat pieces)) (length pieces) index None decoded (concat (map em_bytes es) @ rest)
      = (decoded @ concat pieces, Inr (None, rest))"
proof (induction pieces arbitrary: index es decoded)
  case (Cons piece pieces)
  from Cons.prems(1) obtain e es' where e: "emit_solid_frame c rnd ctx index piece (pieces = []) = Inr e"
    "emit_pieces c rnd ctx (Suc index) pieces = Inr es'" "es = e # es'" by (auto simp: bindR_eq_Inr)
  have frame: "read_solid_frame c ctx (em_bytes e @ concat (map em_bytes es') @ rest) index (length pieces = 0)
      = Inr (piece, concat (map em_bytes es') @ rest)"
    using read_emitted_frame[OF e(1) laws valid, of "concat (map em_bytes es') @ rest"] Cons.prems(2) by auto
  have "piece_sizes (lx_frame_payload_size ctx) pieces" using Cons.prems(2) by simp
  from Cons.IH[OF e(2) this, of "decoded @ piece"]
  have "read_lane c lib ctx (length decoded + (length piece + length (concat pieces))) (length pieces) (Suc index) None
      (decoded @ piece) (concat (map em_bytes es') @ rest) = (decoded @ piece @ concat pieces, Inr (None, rest))"
    by (simp only: length_append append_assoc add.assoc)
  with frame show ?case by (simp add: e(3))
qed simp

text \<open>What \<^verbatim>\<open>read_solid_lane_frames\<close> makes of the frames of a stream.\<close>

lemma read_stream_frames:
  assumes laws: "aead_law c" "\<forall>k. random_law (rnd k)" "stream_law lib" and valid: "validate_solid_options ctx = Inr ()"
    and comp: "compress_solid_lane lib data (lx_lane ctx) raw_lzma2 codec_id = Inr payload"
    and es: "emit_pieces c rnd ctx start (lane_pieces (lx_frame_payload_size ctx) payload) = Inr es"
  shows "payload \<noteq> [] \<and> read_solid_lane_frames c lib ctx (concat (map em_bytes es) @ rest) start (length es) (length data)
      raw_lzma2 False codec_id
    = (data, Inr (\<lparr>fr_frame_count = length es, fr_next_index = start + length es, fr_decoded_size = length data\<rparr>, rest))"
proof -
  let ?n = "lx_frame_payload_size ctx"
  from laws(3) obtain reads where lib: "progress_law lib" "reads_law lib reads"
    and new: "\<And>f. sd_needs_input lib (sd_new lib f)" "\<And>f. \<not> sd_eof lib (sd_new lib f)"
    and stream: "\<And>f blocks. reads (sd_new lib f) (compress_blocks lib (sc_new lib f) blocks) (concat blocks)"
    unfolding stream_law_def by blast
  from comp obtain f where f: "codec_id \<noteq> Some SOLID_CODEC_RAW" "solid_decompressor lib (lx_lane ctx) raw_lzma2 codec_id = Inr (sd_new lib f)"
    and payload: "payload = compress_blocks lib (sc_new lib f) (read_blocks IO_BLOCK_SIZE data)"
    by (auto simp: compress_solid_lane_def solid_compressor_def solid_decompressor_def bindR_eq_Inr split: if_split_asm)
  have n: "0 < ?n" using valid_solid_options(3)[OF valid] by simp
  have r: "reads (sd_new lib f) payload data" unfolding payload using stream[of f "read_blocks IO_BLOCK_SIZE data"] concat_read_blocks[of IO_BLOCK_SIZE data] by simp
  then have ne: "payload \<noteq> []" using lib(2) new unfolding reads_law_def by blast
  then have "[] \<notin> set (lane_pieces ?n payload)" using read_blocks_size by (auto simp: lane_pieces_def)
  moreover have "reads (sd_new lib f) (concat (lane_pieces ?n payload)) data" using r concat_lane_pieces[OF n] by simp
  ultimately obtain d' where "read_lane c lib ctx (length ([] :: bytes) + length data) (length (lane_pieces ?n payload)) start
      (Some (sd_new lib f)) [] (concat (map em_bytes es) @ rest) = ([] @ data, Inr (Some d', rest))" "sd_eof lib d'"
    using read_lane_stream[OF laws(1,2) valid lib es lane_pieces_ne[OF n] piece_sizes_lane[OF n] _ new(2,1)] by blast
  moreover have "length es = length (lane_pieces ?n payload)"
    using arg_cong[OF emit_pieces_payloads[OF es], of length] by simp
  moreover from this lane_pieces_ne[OF n] have "length es \<noteq> 0" by simp
  ultimately show ?thesis using valid f ne by (simp add: read_solid_lane_frames_def lane_decoder_def)
qed

lemma read_raw_frames:
  assumes laws: "aead_law c" "\<forall>k. random_law (rnd k)" and valid: "validate_solid_options ctx = Inr ()"
    and raw: "codec_id = None \<or> codec_id = Some SOLID_CODEC_RAW"
    and es: "emit_pieces c rnd ctx start (lane_pieces (lx_frame_payload_size ctx) data) = Inr es"
  shows "read_solid_lane_frames c lib ctx (concat (map em_bytes es) @ rest) start (length es) (length data)
      raw_lzma2 True codec_id
    = (data, Inr (\<lparr>fr_frame_count = length es, fr_next_index = start + length es, fr_decoded_size = length data\<rparr>, rest))"
proof -
  let ?n = "lx_frame_payload_size ctx"
  have n: "0 < ?n" using valid_solid_options(3)[OF valid] by simp
  have len: "length es = length (lane_pieces ?n data)"
    using arg_cong[OF emit_pieces_payloads[OF es], of length] by simp
  then have "length es \<noteq> 0" using lane_pieces_ne[OF n] by simp
  moreover have "read_lane c lib ctx (length data) (length es) start None [] (concat (map em_bytes es) @ rest)
      = (data, Inr (None, rest))"
    using read_lane_raw[OF laws valid es piece_sizes_lane[OF n], of lib "[]" rest] concat_lane_pieces[OF n, of data] len by simp
  ultimately show ?thesis using valid raw by (auto simp: read_solid_lane_frames_def lane_decoder_def)
qed

section \<open>Any input\<close>

text \<open>A library that obeys \<open>progress_law\<close> never exhausts the fuel, and no input is decoded beyond the declared size.\<close>

lemma decompress_frame_ends:
  assumes "progress_law lib"
  shows "remaining + 1 < fuel \<Longrightarrow> snd (decompress_frame lib fuel d input remaining) \<noteq> Inl OutOfFuel"
proof (induction fuel arbitrary: d input remaining)
  case (Suc fuel)
  show ?case
  proof (cases "sd_decompress lib d input (min OUTPUT_BLOCK_SIZE (remaining + 1))")
    case (Some p)
    obtain out d' where p: "p = (out, d')" by (cases p)
    show ?thesis
    proof (cases "length out > remaining \<or> sd_eof lib d' \<or> sd_needs_input lib d'")
      case False
      then have "min OUTPUT_BLOCK_SIZE (remaining + 1) \<le> length out"
        using assms Some unfolding progress_law_def p by blast
      then have "1 \<le> length out" by linarith
      then have "remaining - length out + 1 < fuel" using False Suc.prems by linarith
      from Suc.IH[OF this] show ?thesis using Some False by (auto simp: p Let_def case_prod_beta)
    qed (use Some in \<open>auto simp: p\<close>)
  qed simp
qed simp

lemma decompress_frame_length: "length (fst (decompress_frame lib fuel d input remaining)) \<le> remaining"
proof (induction fuel arbitrary: d input remaining)
  case (Suc fuel)
  show ?case
  proof (cases "sd_decompress lib d input (min OUTPUT_BLOCK_SIZE (remaining + 1))")
    case (Some p)
    obtain out d' where p: "p = (out, d')" by (cases p)
    have "length out + length (fst (decompress_frame lib fuel d' [] (remaining - length out))) \<le> remaining"
      if "length out \<le> remaining" using Suc.IH[of d' "[]" "remaining - length out"] that by linarith
    then show ?thesis using Some by (simp add: p Let_def case_prod_beta)
  qed simp
qed simp

lemma read_exact_no_fuel [simp]: "read_exact m s n \<noteq> Inl OutOfFuel"
  by (simp add: read_exact_def stream_read_def)

lemma struct_unpack_no_fuel [simp]: "struct_unpack fs b \<noteq> Inl OutOfFuel" "struct_unpack_from fs b p \<noteq> Inl OutOfFuel"
  by (simp_all add: struct_unpack_def struct_unpack_from_def)

lemma read_solid_frame_no_fuel: "read_solid_frame c ctx stream index final \<noteq> Inl OutOfFuel"
  by (auto simp: read_solid_frame_def solid_read_def bindR_eq_Inl Let_def frame_nonce_def decrypt_def unpad_payload_def
      split: if_split_asm option.splits)

lemma read_lane_ends:
  assumes "progress_law lib"
  shows "snd (read_lane c lib ctx expected frames index decoder decoded stream) \<noteq> Inl OutOfFuel"
proof (induction frames arbitrary: index decoder decoded stream)
  case (Suc frames)
  have "expected - length decoded + 1 < Suc (Suc (expected - length decoded))" by simp
  note ends = decompress_frame_ends[OF assms this]
  have no_fuel: "out \<noteq> OutOfFuel"
    if "decompress_frame lib (Suc (Suc (expected - length decoded))) d compressed (expected - length decoded) = (b, Inl out)" for d compressed b out
    using ends[of d compressed] that by auto
  show ?case using read_solid_frame_no_fuel Suc.IH
    by (auto simp: Let_def dest: no_fuel split: option.splits if_split_asm sum.splits prod.splits simp del: decompress_frame.simps)
qed simp

lemma read_lane_bounded:
  "length decoded \<le> expected \<Longrightarrow>
   length (fst (read_lane c lib ctx expected frames index decoder decoded stream)) \<le> expected"
proof (induction frames arbitrary: index decoder decoded stream)
  case (Suc frames)
  have fit: "length decoded + length b \<le> expected"
    if "decompress_frame lib (Suc (Suc (expected - length decoded))) d compressed (expected - length decoded) = (b, outcome)" for d compressed b outcome
    using decompress_frame_length[of lib "Suc (Suc (expected - length decoded))" d compressed "expected - length decoded"] that Suc.prems by simp
  show ?case using Suc.prems Suc.IH
    by (auto simp: Let_def dest: fit split: option.splits if_split_asm sum.splits prod.splits simp del: decompress_frame.simps)
qed simp

section \<open>An example library\<close>

text \<open>
  Every byte is written behind a one and the stream ends with a zero, so a reader needs two bytes
  for one. The decompressor keeps the bytes it cannot use yet.
\<close>

record example_reader =
  xr_buffer :: bytes
  xr_eof :: bool
  xr_needs_input :: bool
  xr_unused :: bytes

fun example_marks :: "bytes \<Rightarrow> bytes" where
  "example_marks [] = []"
| "example_marks (b # bs) = 1 # b # example_marks bs"

fun example_parse :: "bytes \<Rightarrow> nat \<Rightarrow> (bytes \<times> example_reader) option" where
  "example_parse buffer 0 = Some ([], \<lparr>xr_buffer = buffer, xr_eof = False, xr_needs_input = False, xr_unused = []\<rparr>)"
| "example_parse [] (Suc m) = Some ([], \<lparr>xr_buffer = [], xr_eof = False, xr_needs_input = True, xr_unused = []\<rparr>)"
| "example_parse (tag # buffer) (Suc m) =
     (if tag = 0 then Some ([], \<lparr>xr_buffer = [], xr_eof = True, xr_needs_input = False, xr_unused = buffer\<rparr>)
      else case buffer of
             [] \<Rightarrow> Some ([], \<lparr>xr_buffer = [tag], xr_eof = False, xr_needs_input = True, xr_unused = []\<rparr>)
           | b # buffer \<Rightarrow> map_option (\<lambda>(out, d). (b # out, d)) (example_parse buffer m))"

definition example_stream_lib :: "(unit, example_reader) stream_lib" where
  "example_stream_lib =
     \<lparr>sc_new = \<lambda>_. (), sc_compress = \<lambda>_ block. (example_marks block, ()), sc_flush = \<lambda>_. [0],
      sd_new = \<lambda>_. \<lparr>xr_buffer = [], xr_eof = False, xr_needs_input = True, xr_unused = []\<rparr>,
      sd_decompress = \<lambda>d input m. example_parse (xr_buffer d @ input) m,
      sd_eof = xr_eof, sd_needs_input = xr_needs_input, sd_unused = xr_unused\<rparr>"

definition example_reads :: "example_reader \<Rightarrow> bytes \<Rightarrow> bytes \<Rightarrow> bool" where
  "example_reads d rest out \<longleftrightarrow> xr_unused d = []
     \<and> (if xr_eof d then rest = [] \<and> out = [] else xr_buffer d @ rest = example_marks out @ [0])
     \<and> (xr_needs_input d \<and> \<not> xr_eof d \<longrightarrow> xr_buffer d = [] \<or> xr_buffer d = [1])"

lemma example_marks_append: "example_marks (xs @ ys) = example_marks xs @ example_marks ys"
  by (induction xs rule: example_marks.induct) auto

lemma example_parse_progress:
  "example_parse buffer m = Some (out, d) \<Longrightarrow> \<not> xr_eof d \<Longrightarrow> \<not> xr_needs_input d \<Longrightarrow> m \<le> length out"
  by (induction buffer m arbitrary: out d rule: example_parse.induct) (auto split: if_split_asm list.splits)

lemma example_parse_reads:
  "buffer @ rest = example_marks out @ [0] \<Longrightarrow>
   \<exists>now later d. example_parse buffer m = Some (now, d) \<and> out = now @ later \<and> length now \<le> m \<and> example_reads d rest later"
proof (induction buffer m arbitrary: out rule: example_parse.induct)
  case (3 tag buffer m)
  show ?case
  proof (cases out)
    case Nil
    with 3(2) show ?thesis by (auto simp: example_reads_def)
  next
    case (Cons x out')
    with 3(2) have tag: "tag = 1" and b: "buffer @ rest = x # example_marks out' @ [0]" by auto
    show ?thesis
    proof (cases buffer)
      case Nil
      with b Cons tag show ?thesis by (auto simp: example_reads_def)
    next
      case (Cons y buffer')
      with b have y: "y = x" "buffer' @ rest = example_marks out' @ [0]" by auto
      from 3(1)[of y buffer' out'] tag Cons y(2) obtain now later d where
        "example_parse buffer' m = Some (now, d)" "out' = now @ later" "length now \<le> m" "example_reads d rest later" by auto
      with \<open>out = x # out'\<close> Cons tag y(1) show ?thesis
        by (intro exI[of _ "x # now"] exI[of _ later] exI[of _ d]) simp
    qed
  qed
qed (auto simp: example_reads_def)

lemma example_stream_law: "stream_law example_stream_lib"
proof -
  have "progress_law example_stream_lib"
    by (auto simp: progress_law_def example_stream_lib_def intro: example_parse_progress)
  moreover have "reads_law example_stream_lib example_reads"
    using example_parse_reads by (auto simp: reads_law_def example_stream_lib_def example_reads_def)
  moreover have "compress_blocks example_stream_lib u blocks = example_marks (concat blocks) @ [0]" for u blocks
    by (induction blocks) (simp_all add: example_stream_lib_def example_marks_append)
  then have "example_reads (sd_new example_stream_lib f) (compress_blocks example_stream_lib u blocks) (concat blocks)" for f u blocks
    by (simp add: example_reads_def) (simp add: example_stream_lib_def)
  ultimately show ?thesis unfolding stream_law_def by (auto simp: example_stream_lib_def)
qed

definition example_solid_ctx :: solid_ctx where
  "example_solid_ctx = \<lparr>lx_key = replicate 32 0, lx_nonce_prefix = [0, 0, 0, 0], lx_associated_data = [], lx_lane = STANDARD,
     lx_frame_payload_size = 1024, lx_padding_size = 256\<rparr>"

lemma write_precompressed_Inr:
  assumes "write_precompressed_solid_lane_frames c rnd ctx payload (int (length payload)) start = Inr (out, stats)"
  obtains es where "validate_solid_options ctx = Inr ()" and "0 \<le> start" and "start \<le> int MAX_UINT32"
    and "emit_pieces c rnd ctx (nat start) (lane_pieces (lx_frame_payload_size ctx) payload) = Inr es"
    and "out = concat (map em_bytes es)" and "stats = frame_write_stats (nat start) (length payload) es"
proof -
  have valid: "validate_solid_options ctx = Inr ()" and start: "0 \<le> start" "start \<le> int MAX_UINT32"
    using assms by (auto simp: write_precompressed_solid_lane_frames_def bindR_eq_Inr split: if_split_asm)
  from assms[unfolded write_precompressed_pieces[OF valid start]] that[OF valid start] show thesis
    by (auto simp: bindR_eq_Inr)
qed

lemma write_precompressed_read:
  assumes "compress_solid_lane lib data (lx_lane ctx) raw_lzma2 codec_id = Inr payload"
    and "write_precompressed_solid_lane_frames c rnd ctx payload (int (length payload)) (int start) = Inr (out, stats)"
    and "aead_law c" and "\<forall>k. random_law (rnd k)" and "stream_law lib"
  shows "payload \<noteq> [] \<and> read_solid_lane_frames c lib ctx (out @ rest) start (fw_frame_count stats) (length data) raw_lzma2 False codec_id
    = (data, Inr (\<lparr>fr_frame_count = fw_frame_count stats, fr_next_index = fw_next_index stats,
                     fr_decoded_size = length data\<rparr>, rest))"
proof (rule write_precompressed_Inr[OF assms(2)])
  fix es assume es: "validate_solid_options ctx = Inr ()"
    "emit_pieces c rnd ctx (nat (int start)) (lane_pieces (lx_frame_payload_size ctx) payload) = Inr es"
    "out = concat (map em_bytes es)" "stats = frame_write_stats (nat (int start)) (length payload) es"
  have "emit_pieces c rnd ctx start (lane_pieces (lx_frame_payload_size ctx) payload) = Inr es" using es(2) by simp
  from read_stream_frames[OF assms(3-5) es(1) assms(1) this, of rest] es(3,4) show ?thesis
    by (simp add: frame_write_stats_def)
qed

lemma write_raw_read:
  assumes "write_precompressed_solid_lane_frames c rnd ctx data (int (length data)) (int start) = Inr (out, stats)"
    and "aead_law c" and "\<forall>k. random_law (rnd k)" and "codec_id = None \<or> codec_id = Some SOLID_CODEC_RAW"
  shows "read_solid_lane_frames c lib ctx (out @ rest) start (fw_frame_count stats) (length data) raw_lzma2 True codec_id
    = (data, Inr (\<lparr>fr_frame_count = fw_frame_count stats, fr_next_index = fw_next_index stats,
                     fr_decoded_size = length data\<rparr>, rest))"
proof (rule write_precompressed_Inr[OF assms(1)])
  fix es assume es: "validate_solid_options ctx = Inr ()"
    "emit_pieces c rnd ctx (nat (int start)) (lane_pieces (lx_frame_payload_size ctx) data) = Inr es"
    "out = concat (map em_bytes es)" "stats = frame_write_stats (nat (int start)) (length data) es"
  have "emit_pieces c rnd ctx start (lane_pieces (lx_frame_payload_size ctx) data) = Inr es" using es(2) by simp
  from read_raw_frames[OF assms(2,3) es(1) assms(4) this, of lib rest] es(3,4) show ?thesis
    by (simp add: frame_write_stats_def)
qed

lemma lane_decoder_no_fuel: "lane_decoder lib lane raw_lzma2 passthrough codec_id \<noteq> Inl OutOfFuel"
  by (auto simp: lane_decoder_def solid_decompressor_def bindR_eq_Inl split: if_split_asm)

lemma read_frames_any:
  "length (fst (read_solid_lane_frames c lib ctx source start count expected raw_lzma2 passthrough codec_id)) \<le> expected"
  "snd (read_solid_lane_frames c lib ctx source start count expected raw_lzma2 passthrough codec_id) = Inr (stats, rest) \<Longrightarrow>
     length (fst (read_solid_lane_frames c lib ctx source start count expected raw_lzma2 passthrough codec_id)) = expected
     \<and> fr_decoded_size stats = expected"
  "progress_law lib \<Longrightarrow>
     snd (read_solid_lane_frames c lib ctx source start count expected raw_lzma2 passthrough codec_id) \<noteq> Inl OutOfFuel"
proof -
  let ?opened = "bindR (validate_solid_options ctx) (\<lambda>_.
    if count = 0 then Inl (ArchiveFormatError ''solid frame count or decoded size is invalid'')
    else lane_decoder lib (lx_lane ctx) raw_lzma2 passthrough codec_id)"
  have opened: "?opened \<noteq> Inl OutOfFuel"
    by (auto simp: validate_solid_options_def bindR_eq_Inl lane_decoder_no_fuel split: if_split_asm)
  have bound: "length out \<le> expected" if "read_lane c lib ctx expected count start d [] source = (out, outcome)" for d out outcome
    using read_lane_bounded[of "[]" expected c lib ctx count start d source] that by simp
  show "length (fst (read_solid_lane_frames c lib ctx source start count expected raw_lzma2 passthrough codec_id)) \<le> expected"
    by (auto simp: read_solid_lane_frames_def Let_def dest: bound split: sum.splits prod.splits)
  show "length (fst (read_solid_lane_frames c lib ctx source start count expected raw_lzma2 passthrough codec_id)) = expected
     \<and> fr_decoded_size stats = expected"
    if "snd (read_solid_lane_frames c lib ctx source start count expected raw_lzma2 passthrough codec_id) = Inr (stats, rest)"
    using that by (auto simp: read_solid_lane_frames_def Let_def bindR_eq_Inr split: sum.splits prod.splits if_split_asm)
  show "snd (read_solid_lane_frames c lib ctx source start count expected raw_lzma2 passthrough codec_id) \<noteq> Inl OutOfFuel"
    if "progress_law lib"
  proof (cases ?opened)
    case (Inl e)
    with opened show ?thesis by (simp add: read_solid_lane_frames_def)
  next
    case (Inr d)
    with read_lane_ends[OF that, of c ctx expected count start d "[]" source] show ?thesis
      by (auto simp: read_solid_lane_frames_def Let_def case_prod_beta bindR_eq_Inl split: if_split_asm)
  qed
qed

section \<open>Writing succeeds\<close>

lemma emit_solid_frame_total:
  assumes valid: "validate_solid_options ctx = Inr ()" and rnd: "\<forall>k. random_law (rnd k)"
    and i: "index \<le> MAX_UINT32" and len: "length payload \<le> lx_frame_payload_size ctx"
  shows "\<exists>e. emit_solid_frame c rnd ctx index payload final = Inr e"
proof -
  note v = valid_solid_options[OF valid]
  have "length payload < 256 ^ 8" using len v(4) by simp
  with pad_payload_Inr[of "lx_padding_size ctx" payload "rnd index"] v(4-6) obtain padded where
    padded: "pad_payload (rnd index) payload (lx_padding_size ctx) = Inr padded" by force
  have "length padded < 8 + length payload + lx_padding_size ctx"
    using length_pad_payload[OF padded] padded_length_lt[of "lx_padding_size ctx" "8 + length payload"] rnd v(5) by simp
  then have "length padded + AEAD_TAG_LENGTH < 256 ^ 4" using len v(4,6) by simp
  then obtain header where "struct_pack SOLID_FRAME_HEADER [VU index, VU (lx_lane ctx), VU (if final then FLAG_FINAL else 0),
      VU (length padded + AEAD_TAG_LENGTH)] = Inr header" using i v(1) by (cases final) (auto simp: struct_pack_def)
  moreover have "frame_nonce (lx_nonce_prefix ctx) index = Inr (lx_nonce_prefix ctx @ be_encode 8 index)"
    using v(2) i by (simp add: frame_nonce_def)
  ultimately show ?thesis using padded i by (simp add: emit_solid_frame_def)
qed

lemma emit_pieces_total:
  assumes "validate_solid_options ctx = Inr ()" and "\<forall>k. random_law (rnd k)"
  shows "\<forall>p\<in>set pieces. length p \<le> lx_frame_payload_size ctx \<Longrightarrow> index + length pieces \<le> MAX_UINT32 + 1 \<Longrightarrow>
    \<exists>es. emit_pieces c rnd ctx index pieces = Inr es"
proof (induction pieces arbitrary: index)
  case (Cons piece pieces)
  obtain e where "emit_solid_frame c rnd ctx index piece (pieces = []) = Inr e"
    using emit_solid_frame_total[OF assms, of index piece c "pieces = []"] Cons.prems by auto
  moreover obtain es where "emit_pieces c rnd ctx (Suc index) pieces = Inr es"
    using Cons.IH[of "Suc index"] Cons.prems by auto
  ultimately show ?case by simp
qed simp

lemma lane_pieces_bounds:
  assumes "0 < n"
  shows "\<forall>p\<in>set (lane_pieces n s). length p \<le> n" and "length (lane_pieces n s) \<le> length s + 1"
proof -
  show "\<forall>p\<in>set (lane_pieces n s). length p \<le> n" using read_blocks_size by (auto simp: lane_pieces_def)
  have "(length s + n - 1) div n \<le> length s"
  proof (cases "length s")
    case (Suc k)
    have "length s + n - 1 \<le> length s * n" using assms Suc by (cases n) (simp_all add: algebra_simps)
    then have "(length s + n - 1) div n \<le> length s * n div n" by (rule div_le_mono)
    with assms show ?thesis by simp
  qed (use assms in simp)
  then show "length (lane_pieces n s) \<le> length s + 1" using read_blocks_count[OF assms, of s] by (simp add: lane_pieces_def)
qed

lemma write_precompressed_total:
  assumes valid: "validate_solid_options ctx = Inr ()" and rnd: "\<forall>k. random_law (rnd k)"
    and "start + length payload \<le> MAX_UINT32"
  shows "\<exists>out stats. write_precompressed_solid_lane_frames c rnd ctx payload (int (length payload)) (int start) = Inr (out, stats)"
proof -
  let ?n = "lx_frame_payload_size ctx"
  have n: "0 < ?n" using valid_solid_options(3)[OF valid] by simp
  have "start + length (lane_pieces ?n payload) \<le> MAX_UINT32 + 1" using lane_pieces_bounds(2)[OF n, of payload] assms(3) by linarith
  with emit_pieces_total[OF valid rnd lane_pieces_bounds(1)[OF n]] obtain es where
    es: "emit_pieces c rnd ctx start (lane_pieces ?n payload) = Inr es" by blast
  show ?thesis using write_precompressed_pieces[OF valid, of "int start"] es assms(3) by auto
qed

lemma example_solid_ctx_valid: "validate_solid_options example_solid_ctx = Inr ()"
  by (simp add: validate_solid_options_def example_solid_ctx_def)

lemma example_solid_ctx_lane: "lx_lane example_solid_ctx = STANDARD"
  by (simp add: example_solid_ctx_def)

lemma example_lane_written:
  "\<exists>payload out stats. compress_solid_lane example_stream_lib [1, 2, 3] STANDARD True None = Inr payload
     \<and> write_precompressed_solid_lane_frames example_crypto (\<lambda>_. example_random) example_solid_ctx payload (int (length payload)) (int 1)
       = Inr (out, stats)"
proof -
  obtain payload where p: "compress_solid_lane example_stream_lib [1, 2, 3] STANDARD True None = Inr payload" "length payload = 7"
    by (simp add: compress_solid_lane_def solid_compressor_def example_stream_lib_def read_blocks.simps)
  have "1 + length payload \<le> MAX_UINT32" using p(2) by simp
  from write_precompressed_total[OF example_solid_ctx_valid _ this] p(1) show ?thesis by (meson example_random_law)
qed

section \<open>Properties\<close>

text \<open>C8: A lane survives its frames: whatever the codec of the lane, raw storage included, the frame reader makes of the frames that the spool writer wrote exactly the data and the writer's statistics, and stops behind the last frame. This holds for every payload and padding size that the writer accepts and for every compressor that obeys the documented law of the streaming interface; a raw lane is read in passthrough mode, and needs no law. The frames of a payload that is not empty, as every compressed one is, take exactly the bytes that \<^verbatim>\<open>solid_lane_framed_size\<close> predicts for the choice between compressed and raw storage.\<close>

lemma solid_frames_lossless:
  assumes "(if passthrough then Inr data else compress_solid_lane lib data (lx_lane ctx) raw_lzma2 codec_id) = Inr payload"
    and "passthrough \<longrightarrow> codec_id = None \<or> codec_id = Some SOLID_CODEC_RAW"
    and "write_precompressed_solid_lane_frames c rnd ctx payload (int (length payload)) (int start) = Inr (out, stats)"
    and "aead_law c" and "\<forall>k. random_law (rnd k)" and "passthrough = False \<longrightarrow> stream_law lib"
  shows "read_solid_lane_frames c lib ctx (out @ rest) start (fw_frame_count stats) (length data) raw_lzma2 passthrough codec_id
    = (data, Inr (\<lparr>fr_frame_count = fw_frame_count stats, fr_next_index = fw_next_index stats,
                   fr_decoded_size = length data\<rparr>, rest))
    \<and> (passthrough = False \<longrightarrow> payload \<noteq> [])
    \<and> (payload \<noteq> [] \<longrightarrow>
          solid_lane_framed_size (int (length payload)) (lx_frame_payload_size ctx) (lx_padding_size ctx) = Inr (length out))"
proof (intro conjI impI)
  show "read_solid_lane_frames c lib ctx (out @ rest) start (fw_frame_count stats) (length data) raw_lzma2 passthrough codec_id
    = (data, Inr (\<lparr>fr_frame_count = fw_frame_count stats, fr_next_index = fw_next_index stats,
                   fr_decoded_size = length data\<rparr>, rest))"
  proof (cases passthrough)
    case True
    with assms(1-5) show ?thesis using write_raw_read[OF _ assms(4,5), of ctx data start out stats codec_id lib rest raw_lzma2] by simp
  next
    case False
    with assms(1,6) have "compress_solid_lane lib data (lx_lane ctx) raw_lzma2 codec_id = Inr payload" "stream_law lib" by simp_all
    from write_precompressed_read[OF this(1) assms(3-5) this(2), of rest] False show ?thesis by simp
  qed
  show "payload \<noteq> []" if "passthrough = False"
  proof -
    from that assms(1,6) have "compress_solid_lane lib data (lx_lane ctx) raw_lzma2 codec_id = Inr payload" "stream_law lib" by simp_all
    from write_precompressed_read[OF this(1) assms(3-5) this(2)] show ?thesis by blast
  qed
  show "solid_lane_framed_size (int (length payload)) (lx_frame_payload_size ctx) (lx_padding_size ctx) = Inr (length out)"
    if "payload \<noteq> []" using framed_size_exact[OF assms(3-5) that] by simp
qed

lemma solid_frames_lossless_witness:
  "(\<exists>payload out stats. compress_solid_lane example_stream_lib [1, 2, 3] STANDARD True None = Inr payload
     \<and> write_precompressed_solid_lane_frames example_crypto (\<lambda>_. example_random) example_solid_ctx payload (int (length payload)) 1
         = Inr (out, stats)
     \<and> read_solid_lane_frames example_crypto example_stream_lib example_solid_ctx out 1 (fw_frame_count stats) 3 True False None
         = ([1, 2, 3], Inr (\<lparr>fr_frame_count = fw_frame_count stats, fr_next_index = fw_next_index stats, fr_decoded_size = 3\<rparr>, [])))
   \<and> (\<exists>out stats. write_precompressed_solid_lane_frames example_crypto (\<lambda>_. example_random) example_solid_ctx [1, 2, 3] 3 1 = Inr (out, stats)
     \<and> read_solid_lane_frames example_crypto example_stream_lib example_solid_ctx out 1 (fw_frame_count stats) 3 True True (Some SOLID_CODEC_RAW)
         = ([1, 2, 3], Inr (\<lparr>fr_frame_count = fw_frame_count stats, fr_next_index = fw_next_index stats, fr_decoded_size = 3\<rparr>, [])))"
  (is "?compressed \<and> ?raw")
proof
  obtain payload out stats where w: "compress_solid_lane example_stream_lib [1, 2, 3] STANDARD True None = Inr payload"
    "write_precompressed_solid_lane_frames example_crypto (\<lambda>_. example_random) example_solid_ctx payload (int (length payload)) (int 1)
       = Inr (out, stats)"
    using example_lane_written by blast
  from solid_frames_lossless[of False "[1, 2, 3]" example_stream_lib example_solid_ctx True None, where rest = "[]",
      OF _ _ w(2) example_crypto_laws(1)] w example_stream_law
  show ?compressed by (auto simp: example_random_law example_solid_ctx_lane numeral_3_eq_3)
next
  have "1 + length [1 :: byte, 2, 3] \<le> MAX_UINT32" by simp
  from write_precompressed_total[OF example_solid_ctx_valid _ this, of "\<lambda>_. example_random" example_crypto] obtain out stats where
    w: "write_precompressed_solid_lane_frames example_crypto (\<lambda>_. example_random) example_solid_ctx [1, 2, 3] (int (length [1 :: byte, 2, 3])) (int 1)
      = Inr (out, stats)" by (auto simp: example_random_law)
  from solid_frames_lossless[of True "[1, 2, 3]" example_stream_lib example_solid_ctx True "Some SOLID_CODEC_RAW", where rest = "[]",
      OF _ _ w example_crypto_laws(1)] w
  show ?raw by (auto simp: example_random_law numeral_3_eq_3)
qed

text \<open>C9: The writer that compresses and frames in one pass emits the same bytes, errors and statistics as compressing the lane into a spool and framing the spool, for every split of the compressor's output.\<close>

lemma one_pass_equals_spool:
  assumes "validate_solid_options ctx = Inr ()" and "0 \<le> start" and "start \<le> int MAX_UINT32"
  shows "write_solid_lane_frames c lib rnd ctx source start raw_lzma2 codec_id =
    bindR (compress_solid_lane lib source (lx_lane ctx) raw_lzma2 codec_id) (\<lambda>payload.
      write_precompressed_solid_lane_frames c rnd ctx payload (int (length payload)) start)"
  by (rule one_pass_writer[OF assms])

lemma one_pass_equals_spool_witness:
  "\<exists>payload. compress_solid_lane example_stream_lib [1, 2, 3] STANDARD True None = Inr payload
     \<and> write_solid_lane_frames example_crypto example_stream_lib (\<lambda>_. example_random) example_solid_ctx [1, 2, 3] 1 True None
       = write_precompressed_solid_lane_frames example_crypto (\<lambda>_. example_random) example_solid_ctx payload (int (length payload)) 1"
  using one_pass_equals_spool[OF example_solid_ctx_valid, of 1 example_crypto example_stream_lib "\<lambda>_. example_random" "[1, 2, 3]" True None]
    example_lane_written by (auto simp: example_solid_ctx_lane)

text \<open>C10: The frame reader is safe on hostile input: whatever bytes, frame counts, codec and declared size it is given, and whatever the decompressor does, what it has written to its destination never exceeds the declared size, in a run that fails as well as in one that succeeds; a run that succeeds has written exactly that size and says so. With a decompressor that obeys the documented law of the streaming interface (a call that neither ends nor asks for input fills its output) every run ends.\<close>

lemma hostile_frames_bounded:
  "length (fst (read_solid_lane_frames c lib ctx source start count expected raw_lzma2 passthrough codec_id)) \<le> expected
   \<and> (snd (read_solid_lane_frames c lib ctx source start count expected raw_lzma2 passthrough codec_id) = Inr (stats, rest) \<longrightarrow>
        length (fst (read_solid_lane_frames c lib ctx source start count expected raw_lzma2 passthrough codec_id)) = expected
        \<and> fr_decoded_size stats = expected)
   \<and> (progress_law lib \<longrightarrow>
        snd (read_solid_lane_frames c lib ctx source start count expected raw_lzma2 passthrough codec_id) \<noteq> Inl OutOfFuel)"
  using read_frames_any(2)[of c lib ctx source start count expected raw_lzma2 passthrough codec_id stats rest]
  by (simp add: read_frames_any(1,3))

lemma hostile_frames_bounded_witness:
  "\<exists>payload out stats. compress_solid_lane example_stream_lib [1, 2, 3] STANDARD True None = Inr payload
     \<and> write_precompressed_solid_lane_frames example_crypto (\<lambda>_. example_random) example_solid_ctx payload (int (length payload)) (int 1)
         = Inr (out, stats)
     \<and> length (fst (read_solid_lane_frames example_crypto example_stream_lib example_solid_ctx out 1 5 2 True False None)) \<le> 2
     \<and> snd (read_solid_lane_frames example_crypto example_stream_lib example_solid_ctx out 1 5 2 True False None) \<noteq> Inl OutOfFuel"
  using hostile_frames_bounded[of example_crypto example_stream_lib example_solid_ctx _ 1 5 2 True False None] example_lane_written
    example_stream_law unfolding stream_law_def by blast

end
