(* ===== verification/CompactMetadata.thy ===== *)
theory CompactMetadata
  imports SolidArchive SolidFrames
begin

text \<open>
  The public header and the metadata of MSR2 (\<^verbatim>\<open>solid_archive_v2.py\<close>, first half): variable-length
  integers, the compact form of a chunk manifest with the lane assignments (\<^verbatim>\<open>MC21\<close>, \<^verbatim>\<open>MC22\<close>), the
  older explicit form, and the compressed envelope. A parser gets the bytes not yet read where the
  code passes a payload and a position. \<^verbatim>\<open>zlib\<close> is a parameter, its \<^verbatim>\<open>compress\<close> at level nine.
\<close>

section \<open>The public header\<close>

abbreviation MSR2_MAGIC where "MSR2_MAGIC \<equiv> ([77, 83, 82, 50] :: bytes)"
abbreviation MSR2_HEADER where "MSR2_HEADER \<equiv>
  [FBytes 4, FUInt 1, FUInt 4, FUInt 4, FUInt 4, FUInt 4, FUInt 4, FUInt 4, FBytes 16, FBytes 4, FUInt 4]"
abbreviation MAX_METADATA_CIPHERTEXT where "MAX_METADATA_CIPHERTEXT \<equiv> (67108864 :: nat)"

record Msr2Header =
  r2_kdf_log_n :: nat
  r2_min_chunk_size :: nat
  r2_avg_chunk_size :: nat
  r2_max_chunk_size :: nat
  r2_padding_size :: nat
  r2_frame_payload_size :: nat
  r2_unique_chunk_count :: nat
  r2_salt :: bytes
  r2_nonce_prefix :: bytes
  r2_metadata_ciphertext_length :: nat

definition msr2_values :: "Msr2Header \<Rightarrow> sval list" where
  "msr2_values h =
     [VB MSR2_MAGIC, VU (r2_kdf_log_n h), VU (r2_min_chunk_size h), VU (r2_avg_chunk_size h),
      VU (r2_max_chunk_size h), VU (r2_padding_size h), VU (r2_frame_payload_size h),
      VU (r2_unique_chunk_count h), VB (r2_salt h), VB (r2_nonce_prefix h), VU (r2_metadata_ciphertext_length h)]"

definition pack_msr2_header :: "Msr2Header \<Rightarrow> bytes result" where
  "pack_msr2_header h = struct_pack MSR2_HEADER (msr2_values h)"

definition msr2_header_of :: "sval list \<Rightarrow> Msr2Header result" where
  "msr2_header_of vs =
     (let log_n = uval (vs ! 1); padding = uval (vs ! 5); frame_size = uval (vs ! 6); metadata_length = uval (vs ! 10)
      in if bval (vs ! 0) \<noteq> MSR2_MAGIC
            \<or> \<not> (14 \<le> log_n \<and> log_n \<le> 18)
            \<or> \<not> (256 \<le> padding \<and> padding \<le> frame_size)
            \<or> \<not> (1024 \<le> frame_size \<and> frame_size \<le> 16 * 1024 * 1024)
            \<or> metadata_length < AEAD_TAG_LENGTH
            \<or> metadata_length > MAX_METADATA_CIPHERTEXT
            \<or> (metadata_length - AEAD_TAG_LENGTH) mod padding \<noteq> 0
         then Inl (ArchiveFormatError ''MSR2 public header is invalid'')
         else bindR (reraise (ArchiveFormatError ''MSR2 chunking limits are invalid'')
                      (chunking_config (int (uval (vs ! 2))) (int (uval (vs ! 3))) (int (uval (vs ! 4))))) (\<lambda>_.
           Inr \<lparr>r2_kdf_log_n = log_n, r2_min_chunk_size = uval (vs ! 2), r2_avg_chunk_size = uval (vs ! 3),
                r2_max_chunk_size = uval (vs ! 4), r2_padding_size = padding, r2_frame_payload_size = frame_size,
                r2_unique_chunk_count = uval (vs ! 7), r2_salt = bval (vs ! 8), r2_nonce_prefix = bval (vs ! 9),
                r2_metadata_ciphertext_length = metadata_length\<rparr>))"

definition parse_msr2_header :: "bytes \<Rightarrow> Msr2Header result" where
  "parse_msr2_header data =
     (if length data \<noteq> struct_size MSR2_HEADER
      then Inl (ArchiveFormatError ''MSR2 public header length is invalid'')
      else bindR (struct_unpack MSR2_HEADER data) msr2_header_of)"

text \<open>The headers that parse; the contract of a header holds of the pair.\<close>

definition msr2_config :: "Msr2Header \<Rightarrow> ChunkingConfig" where
  "msr2_config h = \<lparr>cc_min_size = r2_min_chunk_size h, cc_avg_size = r2_avg_chunk_size h, cc_max_size = r2_max_chunk_size h\<rparr>"

definition valid_msr2_header :: "Msr2Header \<Rightarrow> bool" where
  "valid_msr2_header h \<longleftrightarrow>
     14 \<le> r2_kdf_log_n h \<and> r2_kdf_log_n h \<le> 18 \<and> 256 \<le> r2_padding_size h
     \<and> r2_padding_size h \<le> r2_frame_payload_size h \<and> 1024 \<le> r2_frame_payload_size h
     \<and> r2_frame_payload_size h \<le> 16777216 \<and> AEAD_TAG_LENGTH \<le> r2_metadata_ciphertext_length h
     \<and> r2_metadata_ciphertext_length h \<le> MAX_METADATA_CIPHERTEXT
     \<and> (r2_metadata_ciphertext_length h - AEAD_TAG_LENGTH) mod r2_padding_size h = 0
     \<and> valid_chunking (msr2_config h) \<and> r2_unique_chunk_count h < 256 ^ 4
     \<and> length (r2_salt h) = 16 \<and> length (r2_nonce_prefix h) = 4"

lemma chunking_config_Inr:
  "chunking_config (int a) (int b) (int n) = Inr cfg \<longleftrightarrow>
     cfg = \<lparr>cc_min_size = a, cc_avg_size = b, cc_max_size = n\<rparr> \<and> valid_chunking \<lparr>cc_min_size = a, cc_avg_size = b, cc_max_size = n\<rparr>"
proof
  assume l: "chunking_config (int a) (int b) (int n) = Inr cfg"
  then have "cfg = \<lparr>cc_min_size = a, cc_avg_size = b, cc_max_size = n\<rparr>"
    by (auto simp: chunking_config_def split: if_split_asm)
  with chunking_config_valid[OF l]
  show "cfg = \<lparr>cc_min_size = a, cc_avg_size = b, cc_max_size = n\<rparr> \<and> valid_chunking \<lparr>cc_min_size = a, cc_avg_size = b, cc_max_size = n\<rparr>"
    by simp
next
  assume "cfg = \<lparr>cc_min_size = a, cc_avg_size = b, cc_max_size = n\<rparr> \<and> valid_chunking \<lparr>cc_min_size = a, cc_avg_size = b, cc_max_size = n\<rparr>"
  then show "chunking_config (int a) (int b) (int n) = Inr cfg" using chunking_config_of_valid[of cfg] by auto
qed

lemma fields_unpack_exact:
  "length b = struct_size fs \<Longrightarrow> list_all2 field_exact fs (fields_unpack fs b)"
proof (induction fs arbitrary: b)
  case (Cons f fs)
  then have l: "length (take (field_size f) b) = field_size f" by (simp add: struct_size_def)
  then have "field_exact f (field_unpack f (take (field_size f) b))"
    using field_fits_unpack[OF l] by (cases f) simp_all
  with Cons show ?case by (simp add: struct_size_def)
qed simp

interpretation msr2_header:
  wire pack_msr2_header parse_msr2_header "struct_size MSR2_HEADER" valid_msr2_header
proof (rule wireI[where fs = MSR2_HEADER and vals = msr2_values])
  show "list_all2 field_exact MSR2_HEADER (msr2_values h) \<and> msr2_header_of (msr2_values h) = Inr h"
    if v: "valid_msr2_header h" for h
  proof -
    have "chunking_config (int (r2_min_chunk_size h)) (int (r2_avg_chunk_size h)) (int (r2_max_chunk_size h)) = Inr (msr2_config h)"
      using v by (simp add: chunking_config_Inr valid_msr2_header_def msr2_config_def)
    then have "msr2_header_of (msr2_values h) = Inr h"
      using v by (auto simp: msr2_header_of_def msr2_values_def valid_msr2_header_def Let_def)
    moreover have "list_all2 field_exact MSR2_HEADER (msr2_values h)"
      using v by (auto simp: msr2_values_def valid_msr2_header_def valid_chunking_def msr2_config_def)
    ultimately show ?thesis by blast
  qed
  show "msr2_values h = fields_unpack MSR2_HEADER b \<and> valid_msr2_header h"
    if h: "msr2_header_of (fields_unpack MSR2_HEADER b) = Inr h" and len: "length b = struct_size MSR2_HEADER" for b h
  proof -
    obtain m l x1 x2 x3 x4 x5 x6 salt prefix n where
      vs: "fields_unpack MSR2_HEADER b = [VB m, VU l, VU x1, VU x2, VU x3, VU x4, VU x5, VU x6, VB salt, VB prefix, VU n]"
      by simp
    have "list_all2 field_exact MSR2_HEADER (fields_unpack MSR2_HEADER b)" by (rule fields_unpack_exact[OF len])
    then have "length salt = 16" "length prefix = 4" "x6 < 256 ^ 4" unfolding vs by simp_all
    with h show ?thesis unfolding vs
      by (auto simp: msr2_header_of_def msr2_values_def valid_msr2_header_def msr2_config_def Let_def bindR_eq_Inr reraise_eq_Inr chunking_config_Inr
          split: if_split_asm)
  qed
qed (simp_all add: pack_msr2_header_def parse_msr2_header_def)

section \<open>Compact integers\<close>

abbreviation MAX_COMPACT_UINT where "MAX_COMPACT_UINT \<equiv> (18446744073709551615 :: nat)"

text \<open>The loop body is that of \<^verbatim>\<open>_encode_varint\<close>.\<close>

definition encode_compact_uint :: "nat \<Rightarrow> bytes result" where
  "encode_compact_uint v =
     (if v > MAX_COMPACT_UINT then Inl (ValueError ''compact metadata integer is outside uint64'')
      else Inr (encode_varint v))"

text \<open>
  The loop of \<^verbatim>\<open>_decode_compact_uint\<close> with the bytes read, the shift and the value so far; the
  seven bits of a byte are added above the bits before.
\<close>

fun decode_compact_from :: "nat \<Rightarrow> nat \<Rightarrow> nat \<Rightarrow> nat \<Rightarrow> bytes \<Rightarrow> (nat \<times> bytes) result" where
  "decode_compact_from maximum read_count shift v [] = Inl (ArchiveFormatError ''MSR2 compact integer is invalid'')"
| "decode_compact_from maximum read_count shift v (b # bs) =
     (if shift > 63 then Inl (ArchiveFormatError ''MSR2 compact integer is invalid'')
      else let component = unat b mod 128
      in if shift = 63 \<and> component > 1 then Inl (ArchiveFormatError ''MSR2 compact integer is invalid'')
         else let v = v + component * 2 ^ shift
         in if unat b < 128
            then if Suc read_count > 1 \<and> component = 0 \<or> v > maximum
                 then Inl (ArchiveFormatError ''MSR2 compact integer is invalid'') else Inr (v, bs)
            else decode_compact_from maximum (Suc read_count) (shift + 7) v bs)"

definition decode_compact_uint :: "nat \<Rightarrow> bytes \<Rightarrow> (nat \<times> bytes) result" where
  "decode_compact_uint maximum stream = decode_compact_from maximum 0 0 0 stream"

text \<open>Signed integers alternate: \<^verbatim>\<open>(value << 1) ^ (value >> 63)\<close>.\<close>

definition encode_compact_sint :: "int \<Rightarrow> bytes result" where
  "encode_compact_sint v =
     (if \<not> (- (2 ^ 63) \<le> v \<and> v < 2 ^ 63) then Inl (ValueError ''compact metadata integer is outside int64'')
      else encode_compact_uint (nat (push_bit 1 v XOR drop_bit 63 v)))"

definition decode_compact_sint :: "bytes \<Rightarrow> (int \<times> bytes) result" where
  "decode_compact_sint stream =
     bindR (decode_compact_uint MAX_COMPACT_UINT stream) (\<lambda>(encoded, stream).
       Inr (drop_bit 1 (int encoded) XOR - (int encoded AND 1), stream))"

section \<open>Compact metadata\<close>

abbreviation COMPACT_METADATA_MAGIC_V1 where "COMPACT_METADATA_MAGIC_V1 \<equiv> ([77, 67, 50, 49] :: bytes)"
abbreviation COMPACT_METADATA_MAGIC where "COMPACT_METADATA_MAGIC \<equiv> ([77, 67, 50, 50] :: bytes)"

text \<open>\<^verbatim>\<open>_VALID_CODECS_BY_LANE\<close>.\<close>

definition valid_codecs :: "nat \<Rightarrow> nat set" where
  "valid_codecs lane =
     (if lane = HIGH_ENTROPY then {SOLID_CODEC_LZMA2, SOLID_CODEC_RAW, SOLID_CODEC_ZSTD}
      else {SOLID_CODEC_LZMA2, SOLID_CODEC_RAW})"

definition compact_codec :: "nat \<times> nat \<Rightarrow> bytes result" where
  "compact_codec = (\<lambda>(lane, codec_id).
     if codec_id \<notin> valid_codecs lane then Inl (RuntimeError ''internal MSR2 lane codec is invalid'')
     else encode_compact_uint codec_id)"

fun compact_entries :: "int \<Rightarrow> ManifestEntry list \<Rightarrow> bytes result" where
  "compact_entries previous_mtime_ns [] = Inr []"
| "compact_entries previous_mtime_ns (e # es) =
     bindR (utf8_encode (relative_path e)) (\<lambda>path.
       if \<not> is_file_entry e \<and> \<not> is_directory_entry e then Inl (RuntimeError ''internal MSR2 entry type is invalid'')
       else bindR (encode_compact_uint (2 * length path + (if is_directory_entry e then 1 else 0))) (\<lambda>descriptor.
         bindR (encode_compact_uint (entry_mode e)) (\<lambda>mode.
         bindR (encode_compact_sint (mtime_ns e - previous_mtime_ns)) (\<lambda>mtime.
         bindR (if is_file_entry e then bindR (encode_compact_uint (index_count e)) (\<lambda>count. Inr (count @ digest e))
                else Inr []) (\<lambda>file.
         bindR (compact_entries (mtime_ns e) es) (\<lambda>out.
           Inr (descriptor @ path @ mode @ mtime @ file @ out)))))))"

fun compact_chunks :: "nat \<Rightarrow> ChunkRecord list \<Rightarrow> bytes result" where
  "compact_chunks index [] = Inr []"
| "compact_chunks index (r # rs) =
     bindR (if cr_source r = index then bindR (encode_compact_uint (cr_size r)) (\<lambda>n. Inr (0 # n @ cr_digest r))
            else bindR (encode_compact_uint (cr_source r)) (\<lambda>source. Inr (1 # source))) (\<lambda>chunk.
     bindR (compact_chunks (Suc index) rs) (\<lambda>out. Inr (chunk @ out)))"

text \<open>Four lanes to a byte, two bits each: \<^verbatim>\<open>packed[index // 4] |= lane << ((index % 4) * 2)\<close>.\<close>

fun pack_lanes :: "nat \<Rightarrow> nat list \<Rightarrow> bytes \<Rightarrow> bytes result" where
  "pack_lanes index [] packed = Inr packed"
| "pack_lanes index (lane # lanes) packed =
     (if lane \<ge> LANE_COUNT then Inl (RuntimeError ''internal MSR2 lane assignment is invalid'')
      else pack_lanes (Suc index) lanes
             (packed[index div 4 := packed ! (index div 4) OR push_bit (index mod 4 * 2) (of_nat lane)]))"

definition compact_metadata :: "DedupManifest \<Rightarrow> nat list \<Rightarrow> nat list \<Rightarrow> nat list option \<Rightarrow> bytes result" where
  "compact_metadata manifest assignments frame_counts lane_codecs =
     bindR (utf8_encode (dm_root_name manifest)) (\<lambda>root.
       if dm_kind manifest \<notin> {KIND_FILE, KIND_FOLDER} then Inl (RuntimeError ''internal MSR2 archive kind is invalid'')
       else bindR (encode_compact_uint (2 * length root + (if dm_kind manifest = KIND_FOLDER then 1 else 0))) (\<lambda>descriptor.
         bindR (encode_compact_uint (length (dm_entries manifest))) (\<lambda>entry_count.
         bindR (encode_compact_uint (length (dm_chunks manifest))) (\<lambda>chunk_count.
         bindR (mapR encode_compact_uint frame_counts) (\<lambda>counts.
         bindR (case lane_codecs of None \<Rightarrow> Inr []
                | Some codecs \<Rightarrow> mapR compact_codec (zip [0..<length codecs] codecs)) (\<lambda>codecs.
         bindR (compact_entries 0 (dm_entries manifest)) (\<lambda>entries.
         bindR (compact_chunks 0 (dm_chunks manifest)) (\<lambda>chunks.
         bindR (pack_lanes 0 assignments (replicate ((length assignments + 3) div 4) 0)) (\<lambda>packed.
           Inr ((if lane_codecs \<noteq> None then COMPACT_METADATA_MAGIC else COMPACT_METADATA_MAGIC_V1)
                @ descriptor @ root @ entry_count @ chunk_count @ concat counts @ concat codecs
                @ entries @ chunks @ packed))))))))))"

section \<open>Parsing compact metadata\<close>

definition take_compact :: "bytes \<Rightarrow> nat \<Rightarrow> (bytes \<times> bytes) result" where
  "take_compact = read_exact ''MSR2 compact metadata is truncated''"

fun read_frame_counts :: "nat \<Rightarrow> bytes \<Rightarrow> (nat list \<times> bytes) result" where
  "read_frame_counts 0 stream = Inr ([], stream)"
| "read_frame_counts (Suc n) stream =
     bindR (decode_compact_uint (nat DEFAULT_MAX_FRAME_COUNT) stream) (\<lambda>(count, stream).
     bindR (read_frame_counts n stream) (\<lambda>(counts, stream). Inr (count # counts, stream)))"

fun read_lane_codecs :: "nat list \<Rightarrow> bytes \<Rightarrow> (nat list \<times> bytes) result" where
  "read_lane_codecs [] stream = Inr ([], stream)"
| "read_lane_codecs (lane # lanes) stream =
     bindR (decode_compact_uint SOLID_CODEC_ZSTD stream) (\<lambda>(codec_id, stream).
       if codec_id \<notin> valid_codecs lane then Inl (ArchiveFormatError ''MSR2 compact lane codec is invalid'')
       else bindR (read_lane_codecs lanes stream) (\<lambda>(codecs, stream). Inr (codec_id # codecs, stream)))"

text \<open>\<open>modern\<close> metadata stores the lane codecs; before, every lane was LZMA2.\<close>

definition read_stored_codecs :: "bool \<Rightarrow> bytes \<Rightarrow> (nat list \<times> bytes) result" where
  "read_stored_codecs modern stream =
     (if modern then read_lane_codecs [0..<LANE_COUNT] stream else Inr (replicate LANE_COUNT SOLID_CODEC_LZMA2, stream))"

text \<open>The tuples of \<^verbatim>\<open>entry_specs\<close>.\<close>

record entry_spec =
  es_type :: nat
  es_path :: pystr
  es_mode :: nat
  es_mtime_ns :: int
  es_count :: nat
  es_digest :: bytes

fun read_entry_specs :: "nat \<Rightarrow> nat \<Rightarrow> int \<Rightarrow> bytes \<Rightarrow> (entry_spec list \<times> bytes) result" where
  "read_entry_specs chunk_count 0 previous_mtime_ns stream = Inr ([], stream)"
| "read_entry_specs chunk_count (Suc n) previous_mtime_ns stream =
     bindR (decode_compact_uint (65535 * 2 + 1) stream) (\<lambda>(descriptor, stream).
       let type = (if descriptor mod 2 = 1 then ENTRY_DIRECTORY else ENTRY_FILE)
       in bindR (take_compact stream (descriptor div 2)) (\<lambda>(path_bytes, stream).
          bindR (reraise (ArchiveFormatError ''MSR2 compact entry path is invalid'') (utf8_decode path_bytes)) (\<lambda>path.
          bindR (decode_compact_uint 511 stream) (\<lambda>(mode, stream).
          bindR (decode_compact_sint stream) (\<lambda>(mtime_delta, stream).
            let mtime = previous_mtime_ns + mtime_delta
            in if \<not> (- (2 ^ 63) \<le> mtime \<and> mtime < 2 ^ 63)
               then Inl (ArchiveFormatError ''MSR2 compact entry modification time is invalid'')
               else bindR (if type = ENTRY_FILE
                           then bindR (decode_compact_uint chunk_count stream) (\<lambda>(count, stream).
                             bindR (take_compact stream 32) (\<lambda>(hash, stream). Inr (count, hash, stream)))
                           else Inr (0, ZERO_HASH, stream)) (\<lambda>(count, hash, stream).
                 bindR (read_entry_specs chunk_count n mtime stream) (\<lambda>(specs, stream).
                   Inr (\<lparr>es_type = type, es_path = path, es_mode = mode, es_mtime_ns = mtime, es_count = count,
                         es_digest = hash\<rparr> # specs, stream))))))))"

text \<open>The chunk table, with the number of unique chunks.\<close>

fun read_compact_chunks ::
  "nat \<Rightarrow> nat \<Rightarrow> ChunkRecord list \<Rightarrow> nat \<Rightarrow> bytes \<Rightarrow> (ChunkRecord list \<times> nat \<times> bytes) result" where
  "read_compact_chunks max_size 0 chunks unique stream = Inr (chunks, unique, stream)"
| "read_compact_chunks max_size (Suc n) chunks unique stream =
     (let index = length chunks
      in bindR (take_compact stream 1) (\<lambda>(tag, stream).
        if tag ! 0 = 0
        then bindR (decode_compact_uint max_size stream) (\<lambda>(k, stream).
          if k = 0 then Inl (ArchiveFormatError ''MSR2 compact chunk size is invalid'')
          else bindR (take_compact stream 32) (\<lambda>(hash, stream).
            read_compact_chunks max_size n (chunks @ [\<lparr>cr_digest = hash, cr_size = k, cr_source = index\<rparr>]) (Suc unique) stream))
        else if tag ! 0 = 1
        then if index = 0 then Inl (ArchiveFormatError ''MSR2 compact first chunk cannot be duplicate'')
             else bindR (decode_compact_uint (index - 1) stream) (\<lambda>(source, stream).
               let canonical = chunks ! source
               in if cr_source canonical \<noteq> source
                  then Inl (ArchiveFormatError ''MSR2 compact duplicate chains are forbidden'')
                  else read_compact_chunks max_size n
                         (chunks @ [\<lparr>cr_digest = cr_digest canonical, cr_size = cr_size canonical, cr_source = source\<rparr>])
                         unique stream)
        else Inl (ArchiveFormatError ''MSR2 compact chunk tag is invalid'')))"

definition unpack_lane :: "bytes \<Rightarrow> nat \<Rightarrow> nat result" where
  "unpack_lane packed index =
     (let lane = unat (drop_bit (index mod 4 * 2) (packed ! (index div 4)) AND 3)
      in if lane \<ge> LANE_COUNT then Inl (ArchiveFormatError ''MSR2 compact lane assignment is invalid'') else Inr lane)"

definition unpack_lanes :: "nat \<Rightarrow> bytes \<Rightarrow> nat list result" where
  "unpack_lanes unique packed =
     (if unique mod 4 \<noteq> 0 \<and> packed \<noteq> [] \<and> drop_bit (unique mod 4 * 2) (last packed) \<noteq> 0
      then Inl (ArchiveFormatError ''MSR2 compact lane assignment padding is nonzero'')
      else mapR (unpack_lane packed) [0..<unique])"

text \<open>The entries of the manifest: sizes and chunk ranges follow from the table.\<close>

fun place_entries :: "ChunkRecord list \<Rightarrow> nat \<Rightarrow> entry_spec list \<Rightarrow> (ManifestEntry list \<times> nat) result" where
  "place_entries chunks next_chunk [] = Inr ([], next_chunk)"
| "place_entries chunks next_chunk (s # specs) =
     (if es_type s = ENTRY_DIRECTORY
      then bindR (place_entries chunks next_chunk specs) (\<lambda>(es, next_chunk).
        Inr (\<lparr>entry_type = es_type s, relative_path = es_path s, entry_mode = es_mode s, mtime_ns = es_mtime_ns s,
              entry_size = 0, first_index = 0, index_count = 0, digest = ZERO_HASH\<rparr> # es, next_chunk))
      else let end = next_chunk + es_count s
        in if end > length chunks then Inl (ArchiveFormatError ''MSR2 compact file chunk range is invalid'')
           else bindR (place_entries chunks end specs) (\<lambda>(es, final).
             Inr (\<lparr>entry_type = es_type s, relative_path = es_path s, entry_mode = es_mode s, mtime_ns = es_mtime_ns s,
                   entry_size = sum_list (map cr_size (take (es_count s) (drop next_chunk chunks))),
                   first_index = next_chunk, index_count = es_count s, digest = es_digest s\<rparr> # es, final)))"

definition metadata_compatibility_header :: "nat \<Rightarrow> Msr2Header \<Rightarrow> Msc3Header" where
  "metadata_compatibility_header unique h =
     \<lparr>m3_version = MSC6_VERSION, m3_flags = MSC3_FLAGS, m3_kdf_id = KDF_SCRYPT, m3_aead_id = AEAD_CHACHA20_POLY1305,
      m3_min_chunk_size = r2_min_chunk_size h, m3_avg_chunk_size = r2_avg_chunk_size h,
      m3_max_chunk_size = r2_max_chunk_size h, m3_padding_size = r2_padding_size h, m3_salt = r2_salt h,
      m3_nonce_prefix = r2_nonce_prefix h, m3_kdf_log_n = 14, m3_kdf_r = 8, m3_kdf_p = 1, m3_frame_count = unique + 1\<rparr>"

record solid_metadata =
  sm_manifest :: DedupManifest
  sm_assignments :: "nat list"
  sm_raw_sizes :: "nat list"
  sm_frame_counts :: "nat list"
  sm_lane_codecs :: "nat list"

definition unique_records :: "ChunkRecord list \<Rightarrow> ChunkRecord list" where
  "unique_records chunks = map (\<lambda>i. chunks ! i) (canonical_indexes chunks)"

text \<open>The sum of the chunk sizes of each lane; \<^verbatim>\<open>zip(..., strict=True)\<close>.\<close>

definition lane_raw_sizes :: "ChunkRecord list \<Rightarrow> nat list \<Rightarrow> nat list result" where
  "lane_raw_sizes records assignments =
     (if length records \<noteq> length assignments then Inl (ValueError ''zip() arguments have different lengths'')
      else Inr (map (\<lambda>lane. calculated_raw_size (zip assignments (map cr_size records)) lane) [0..<LANE_COUNT]))"

text \<open>
  Behind the magic. The header stands for the
  keyword arguments that the callers take from it.
\<close>

definition parse_compact_metadata :: "unicode \<Rightarrow> bytes \<Rightarrow> Msr2Header \<Rightarrow> solid_metadata result" where
  "parse_compact_metadata u payload h =
     (let modern = (take 4 payload = COMPACT_METADATA_MAGIC); unique = r2_unique_chunk_count h
      in bindR (decode_compact_uint (65535 * 2 + 1) (drop 4 payload)) (\<lambda>(descriptor, stream).
         let kind = (if descriptor mod 2 = 1 then KIND_FOLDER else KIND_FILE)
         in bindR (take_compact stream (descriptor div 2)) (\<lambda>(root_bytes, stream).
            bindR (reraise (ArchiveFormatError ''MSR2 compact root name is invalid'') (utf8_decode root_bytes)) (\<lambda>root_name.
            bindR (decode_compact_uint 1000000 stream) (\<lambda>(entry_count, stream).
            bindR (decode_compact_uint MAX_CHUNK_RECORDS stream) (\<lambda>(chunk_count, stream).
            bindR (read_frame_counts LANE_COUNT stream) (\<lambda>(frame_counts, stream).
            bindR (read_stored_codecs modern stream) (\<lambda>(lane_codecs, stream).
            bindR (read_entry_specs chunk_count entry_count 0 stream) (\<lambda>(specs, stream).
            bindR (read_compact_chunks (r2_max_chunk_size h) chunk_count [] 0 stream) (\<lambda>(chunks, compact_unique, stream).
              if compact_unique \<noteq> unique
              then Inl (ArchiveFormatError ''MSR2 compact unique chunk count is inconsistent'')
              else bindR (take_compact stream ((unique + 3) div 4)) (\<lambda>(packed, stream).
                if stream \<noteq> [] then Inl (ArchiveFormatError ''MSR2 compact metadata contains trailing bytes'')
                else bindR (unpack_lanes unique packed) (\<lambda>assignments.
                  bindR (place_entries chunks 0 specs) (\<lambda>(entries, next_chunk).
                    if next_chunk \<noteq> length chunks
                    then Inl (ArchiveFormatError ''MSR2 compact file chunks are unreferenced'')
                    else bindR (serialize_dedup_manifest \<lparr>dm_kind = kind, dm_root_name = root_name,
                                  dm_entries = entries, dm_chunks = chunks\<rparr>) (\<lambda>serialized.
                      bindR (parse_dedup_manifest u serialized (metadata_compatibility_header unique h)) (\<lambda>manifest.
                      bindR (lane_raw_sizes (unique_records (dm_chunks manifest)) assignments) (\<lambda>raw_sizes.
                        if list_ex (\<lambda>(raw_size, frame_count). (raw_size = 0) \<noteq> (frame_count = 0)) (zip raw_sizes frame_counts)
                        then Inl (ArchiveFormatError ''MSR2 compact lane frame count is inconsistent'')
                        else Inr \<lparr>sm_manifest = manifest, sm_assignments = assignments, sm_raw_sizes = raw_sizes,
                                  sm_frame_counts = frame_counts, sm_lane_codecs = lane_codecs\<rparr>))))))))))))))))"

section \<open>The explicit metadata and the envelope\<close>

abbreviation METADATA_PREFIX where "METADATA_PREFIX \<equiv> [FUInt 8, FUInt 4]"
abbreviation LANE_RECORD where "LANE_RECORD \<equiv> [FUInt 8, FUInt 4]"
abbreviation METADATA_MAGIC where "METADATA_MAGIC \<equiv> ([77, 68, 90, 49] :: bytes)"
abbreviation METADATA_ENVELOPE where "METADATA_ENVELOPE \<equiv> [FBytes 4, FUInt 1, FUInt 8]"
abbreviation RAW_LZMA2_CODEC where "RAW_LZMA2_CODEC \<equiv> (1 :: nat)"

definition explicit_metadata :: "DedupManifest \<Rightarrow> nat list \<Rightarrow> nat list \<Rightarrow> nat list \<Rightarrow> bytes result" where
  "explicit_metadata manifest assignments raw_sizes frame_counts =
     bindR (serialize_dedup_manifest manifest) (\<lambda>serialized.
     bindR (struct_pack METADATA_PREFIX [VU (length serialized), VU (length assignments)]) (\<lambda>prefix.
     bindR (if length raw_sizes \<noteq> length frame_counts then Inl (ValueError ''zip() arguments have different lengths'')
            else mapR (\<lambda>(raw_size, frame_count). struct_pack LANE_RECORD [VU raw_size, VU frame_count])
                   (zip raw_sizes frame_counts)) (\<lambda>lanes.
       Inr (prefix @ concat lanes @ serialized @ map of_nat assignments))))"

fun read_lane_records :: "nat \<Rightarrow> bytes \<Rightarrow> ((nat \<times> nat) list \<times> bytes) result" where
  "read_lane_records 0 stream = Inr ([], stream)"
| "read_lane_records (Suc n) stream =
     bindR (struct_unpack_from LANE_RECORD stream 0) (\<lambda>vs.
       if (uval (vs ! 0) = 0) \<noteq> (uval (vs ! 1) = 0)
       then Inl (ArchiveFormatError ''MSR2 lane frame count is inconsistent'')
       else bindR (read_lane_records n (drop (struct_size LANE_RECORD) stream)) (\<lambda>(records, stream).
         Inr ((uval (vs ! 0), uval (vs ! 1)) # records, stream)))"

definition parse_explicit_metadata :: "unicode \<Rightarrow> bytes \<Rightarrow> Msr2Header \<Rightarrow> solid_metadata result" where
  "parse_explicit_metadata u payload h =
     (let unique = r2_unique_chunk_count h
      in if length payload < struct_size METADATA_PREFIX + LANE_COUNT * struct_size LANE_RECORD
         then Inl (ArchiveFormatError ''MSR2 metadata is truncated'')
         else bindR (struct_unpack_from METADATA_PREFIX payload 0) (\<lambda>vs.
           let manifest_size = uval (vs ! 0); assignment_count = uval (vs ! 1)
           in bindR (read_lane_records LANE_COUNT (drop (struct_size METADATA_PREFIX) payload)) (\<lambda>(lanes, stream).
              if assignment_count \<noteq> unique \<or> manifest_size > MAX_MANIFEST_CIPHERTEXT
              then Inl (ArchiveFormatError ''MSR2 metadata counts are inconsistent'')
              else if manifest_size + assignment_count \<noteq> length stream
              then Inl (ArchiveFormatError ''MSR2 metadata length is inconsistent'')
              else let assignments = map unat (drop manifest_size stream)
              in if list_ex (\<lambda>lane. lane \<ge> LANE_COUNT) assignments
                 then Inl (ArchiveFormatError ''MSR2 lane assignment is invalid'')
                 else bindR (parse_dedup_manifest u (take manifest_size stream) (metadata_compatibility_header unique h)) (\<lambda>manifest.
                   if length (unique_records (dm_chunks manifest)) \<noteq> unique
                   then Inl (ArchiveFormatError ''MSR2 unique chunk count is inconsistent'')
                   else bindR (lane_raw_sizes (unique_records (dm_chunks manifest)) assignments) (\<lambda>calculated.
                     if calculated \<noteq> map fst lanes then Inl (ArchiveFormatError ''MSR2 lane sizes are inconsistent'')
                     else Inr \<lparr>sm_manifest = manifest, sm_assignments = assignments, sm_raw_sizes = map fst lanes,
                               sm_frame_counts = map snd lanes,
                               sm_lane_codecs = replicate LANE_COUNT SOLID_CODEC_LZMA2\<rparr>)))))"

definition parse_metadata :: "unicode \<Rightarrow> bytes \<Rightarrow> Msr2Header \<Rightarrow> solid_metadata result" where
  "parse_metadata u payload h =
     (if take 4 payload = COMPACT_METADATA_MAGIC_V1 \<or> take 4 payload = COMPACT_METADATA_MAGIC
      then parse_compact_metadata u payload h else parse_explicit_metadata u payload h)"

text \<open>
  \<^verbatim>\<open>zlib\<close> at level nine, without a flush: given room for one byte more than the data, one call of
  the decompressor returns the data and has seen the end of the stream.
\<close>

definition zlib_ends :: "zlib \<Rightarrow> bytes \<Rightarrow> bool" where
  "zlib_ends y b \<longleftrightarrow> zlib_decompress y (zlib_compress y b) (length b + 1)
     = Some \<lparr>z_output = b, z_eof = True, z_unused_data = [], z_unconsumed_tail = []\<rparr>"

definition encode_metadata_envelope :: "zlib \<Rightarrow> bytes \<Rightarrow> bytes result" where
  "encode_metadata_envelope y payload =
     bindR (struct_pack METADATA_ENVELOPE [VB METADATA_MAGIC, VU RAW_LZMA2_CODEC, VU (length payload)]) (\<lambda>envelope.
       Inr (envelope @ zlib_compress y payload))"

definition decode_metadata_envelope :: "zlib \<Rightarrow> bytes \<Rightarrow> (bytes \<times> bool) result" where
  "decode_metadata_envelope y payload =
     (if take 4 payload \<noteq> METADATA_MAGIC then Inr (payload, False)
      else if length payload < struct_size METADATA_ENVELOPE
      then Inl (ArchiveFormatError ''MSR2 metadata envelope is truncated'')
      else bindR (struct_unpack_from METADATA_ENVELOPE payload 0) (\<lambda>vs.
        let expected_size = uval (vs ! 2)
        in if bval (vs ! 0) \<noteq> METADATA_MAGIC \<or> uval (vs ! 1) \<noteq> RAW_LZMA2_CODEC \<or> expected_size > MAX_MANIFEST_CIPHERTEXT
           then Inl (ArchiveFormatError ''MSR2 metadata envelope is invalid'')
           else case zlib_decompress y (drop (struct_size METADATA_ENVELOPE) payload) (expected_size + 1) of
             None \<Rightarrow> Inl (ArchiveFormatError ''MSR2 compressed metadata is malformed'')
           | Some d \<Rightarrow>
               if length (z_output d) > expected_size \<or> z_unconsumed_tail d \<noteq> []
               then Inl (ArchiveFormatError ''MSR2 compressed metadata exceeds its size bound'')
               else if length (z_output d) \<noteq> expected_size \<or> \<not> z_eof d \<or> z_unused_data d \<noteq> [] \<or> z_unconsumed_tail d \<noteq> []
               then Inl (ArchiveFormatError ''MSR2 compressed metadata size is inconsistent'')
               else Inr (z_output d, True)))"

section \<open>Compact integers are canonical\<close>

text \<open>
  The contract of a prefix code: an encoding is read back in front of anything, and only the
  encoding of a value is read as it. No two values share a beginning, so fields can follow one
  another without separators.
\<close>

locale prefix_code =
  fixes enc :: "'a \<Rightarrow> bytes result"
    and dec :: "bytes \<Rightarrow> ('a \<times> bytes) result"
    and ok :: "'a \<Rightarrow> bool"
  assumes enc_total: "ok x \<Longrightarrow> \<exists>b. enc x = Inr b"
    and dec_enc: "ok x \<Longrightarrow> enc x = Inr b \<Longrightarrow> dec (b @ rest) = Inr (x, rest)"
    and dec_sound: "dec s = Inr (x, rest) \<Longrightarrow> ok x \<and> (\<exists>b. enc x = Inr b \<and> s = b @ rest)"
begin

lemma dec_iff: "dec s = Inr (x, rest) \<longleftrightarrow> ok x \<and> (\<exists>b. enc x = Inr b \<and> s = b @ rest)"
  using dec_enc[of x] dec_sound[of s x rest] by blast

lemma prefix_free:
  assumes "ok x" and "ok y" and "enc x = Inr a" and "enc y = Inr b" and "a @ r = b @ s"
  shows "x = y \<and> r = s"
  using dec_enc[OF assms(1,3), of r] dec_enc[OF assms(2,4), of s] assms(5) by simp

lemma enc_nonempty: "ok x \<Longrightarrow> ok y \<Longrightarrow> x \<noteq> y \<Longrightarrow> enc x \<noteq> Inr []"
proof
  assume a: "ok x" "ok y" "x \<noteq> y" "enc x = Inr []"
  obtain b where "enc y = Inr b" using enc_total[OF a(2)] by blast
  with prefix_free[OF a(1,2,4), of b b "[]"] a(3) show False by simp
qed

end

lemma decode_compact_from_encode:
  assumes "k \<le> 9" and "v * 2 ^ (7 * k) < 2 ^ 64" and "k = 0 \<or> 0 < v" and "a + v * 2 ^ (7 * k) \<le> maximum"
  shows "decode_compact_from maximum k (7 * k) a (encode_varint v @ rest) = Inr (a + v * 2 ^ (7 * k), rest)"
  using assms
proof (induction v arbitrary: k a rule: encode_varint.induct)
  case (1 v)
  have top: "7 * k = 63 \<Longrightarrow> v < 2"
  proof -
    assume "7 * k = 63"
    then have "v * 2 ^ 63 < 2 * 2 ^ 63" using "1.prems"(2) by (simp only: power_Suc[symmetric]) simp
    then show "v < 2" by simp
  qed
  show ?case
  proof (cases "v \<ge> 128")
    case True
    then have k9: "k \<noteq> 9" using top by auto
    let ?b = "of_nat (v mod 128 + 128) :: byte"
    have b: "unat ?b = v mod 128 + 128"
    proof (rule unat_of_nat_byte)
      have "v mod 128 < 128" by simp
      then show "v mod 128 + 128 < 256" by linarith
    qed
    have split: "v mod 128 * 2 ^ (7 * k) + v div 128 * 2 ^ (7 * (k + 1)) = v * 2 ^ (7 * k)"
    proof -
      have "r * 2 ^ (7 * k) + q * 2 ^ (7 * (k + 1)) = (r + q * 128) * 2 ^ (7 * k)" for q r :: nat
        by (simp add: power_add algebra_simps)
      from this[of "v mod 128" "v div 128"] show ?thesis by (simp only: mod_div_mult_eq)
    qed
    have "decode_compact_from maximum (k + 1) (7 * (k + 1)) (a + v mod 128 * 2 ^ (7 * k)) (encode_varint (v div 128) @ rest)
        = Inr (a + v mod 128 * 2 ^ (7 * k) + v div 128 * 2 ^ (7 * (k + 1)), rest)"
    proof (rule "1.IH"[OF True])
      show "v div 128 * 2 ^ (7 * (k + 1)) < 2 ^ 64" using split "1.prems"(2) by linarith
      show "a + v mod 128 * 2 ^ (7 * k) + v div 128 * 2 ^ (7 * (k + 1)) \<le> maximum" using split "1.prems"(4) by linarith
    qed (use k9 "1.prems"(1) True in \<open>auto simp: div_greater_zero_iff\<close>)
    then have "decode_compact_from maximum (Suc k) (7 * k + 7) (a + v mod 128 * 2 ^ (7 * k)) (encode_varint (v div 128) @ rest)
        = Inr (a + v * 2 ^ (7 * k), rest)" using split by (simp add: add.assoc add.commute[of 7 "7 * k"])
    moreover have "7 * k \<le> 63" "7 * k \<noteq> 63" using "1.prems"(1) k9 by auto
    moreover have "unat ?b mod 128 = v mod 128" "\<not> unat ?b < 128" using b by simp_all
    ultimately show ?thesis using True by (subst encode_varint.simps) (simp add: Let_def del: of_nat_add)
  next
    case False
    then have "unat (of_nat v :: byte) = v" by simp
    moreover have "7 * k \<le> 63" using "1.prems"(1) by simp
    ultimately show ?thesis using False top "1.prems"(3,4) by (subst encode_varint.simps) (auto simp: Let_def)
  qed
qed

lemma decode_compact_from_sound:
  "decode_compact_from maximum k (7 * k) a s = Inr (v, rest) \<Longrightarrow> k \<le> 10 \<Longrightarrow>
   \<exists>w. v = a + w * 2 ^ (7 * k) \<and> s = encode_varint w @ rest \<and> (k = 0 \<or> 0 < w) \<and> w * 2 ^ (7 * k) < 2 ^ 64 \<and> v \<le> maximum"
proof (induction s arbitrary: k a)
  case (Cons b s)
  let ?c = "unat b mod 128"
  have shift: "7 * k \<le> 63" and top: "7 * k = 63 \<longrightarrow> ?c \<le> 1" using Cons.prems(1) by (auto simp: Let_def split: if_split_asm)
  then have k: "k \<le> 9" by simp
  have b256: "unat b < 256" using unat_byte_lt .
  show ?case
  proof (cases "unat b < 128")
    case True
    then have c: "?c = unat b" by simp
    from Cons.prems(1) shift top True have v: "v = a + unat b * 2 ^ (7 * k)" "s = rest" "v \<le> maximum"
      "\<not> (Suc k > 1 \<and> unat b = 0)" by (simp_all add: Let_def not_less split: if_split_asm)
    have "unat b * 2 ^ (7 * k) < 2 ^ 64"
    proof (cases "k = 9")
      case True
      then have "unat b \<le> 1" using top c by simp
      then have "unat b * 2 ^ 63 \<le> 1 * 2 ^ 63" by (rule mult_le_mono1)
      then show ?thesis using True by simp
    next
      case False
      then have "(2 :: nat) ^ (7 * k) \<le> 2 ^ 56" using k by (intro power_increasing) auto
      then have "unat b * 2 ^ (7 * k) \<le> 127 * 2 ^ 56" using True by (intro mult_le_mono) auto
      then show ?thesis by simp
    qed
    moreover have "encode_varint (unat b) = [b]" using True by (subst encode_varint.simps) simp
    ultimately show ?thesis using v by (intro exI[of _ "unat b"]) auto
  next
    case False
    have "unat b - 128 < 128" using b256 by linarith
    with False have ub: "unat b = ?c + 128" by (simp add: le_mod_geq not_less)
    from Cons.prems(1) shift top False
    have rec: "decode_compact_from maximum (Suc k) (7 * k + 7) (a + ?c * 2 ^ (7 * k)) s = Inr (v, rest)"
      by (auto simp: Let_def split: if_split_asm)
    have step: "7 * k + 7 = 7 * Suc k" by simp
    have "Suc k \<le> 10" using k by simp
    from Cons.IH[OF rec[unfolded step] this] obtain w where w: "v = a + ?c * 2 ^ (7 * k) + w * 2 ^ (7 * Suc k)"
      "s = encode_varint w @ rest" "0 < w" "w * 2 ^ (7 * Suc k) < 2 ^ 64" "v \<le> maximum" by auto
    have "k \<noteq> 9"
    proof
      assume "k = 9"
      then have "decode_compact_from maximum (Suc k) 70 (a + ?c * 2 ^ (7 * k)) s = Inr (v, rest)" using rec by simp
      then show False by (cases s) simp_all
    qed
    then have k8: "7 * Suc k \<le> 64" using k by simp
    let ?w = "?c + 128 * w"
    have p: "(2 :: nat) ^ (7 * Suc k) = 128 * 2 ^ (7 * k)" by (simp add: power_add)
    have val: "?w * 2 ^ (7 * k) = ?c * 2 ^ (7 * k) + w * 2 ^ (7 * Suc k)" unfolding p by (simp add: algebra_simps)
    have "?w * 2 ^ (7 * k) < 2 ^ 64"
    proof -
      have split: "(2 :: nat) ^ 64 = 2 ^ (64 - 7 * Suc k) * 2 ^ (7 * Suc k)"
        using k8 by (simp only: power_add[symmetric] le_add_diff_inverse2)
      from w(4)[unfolded split] have "w < 2 ^ (64 - 7 * Suc k)" by simp
      then have "Suc w * 2 ^ (7 * Suc k) \<le> 2 ^ (64 - 7 * Suc k) * 2 ^ (7 * Suc k)" by (intro mult_le_mono1) simp
      then have "Suc w * 2 ^ (7 * Suc k) \<le> 2 ^ 64" unfolding split .
      moreover have "128 * Suc w * 2 ^ (7 * k) = Suc w * 2 ^ (7 * Suc k)"
        unfolding p by (simp only: mult.assoc mult.left_commute)
      moreover have "?w < 128 * Suc w" by (simp add: trans_less_add1)
      then have "?w * 2 ^ (7 * k) < 128 * Suc w * 2 ^ (7 * k)" by simp
      ultimately show ?thesis by linarith
    qed
    moreover have "encode_varint ?w = b # encode_varint w"
    proof -
      have "?w \<ge> 128" "?w mod 128 = ?c" "?w div 128 = w" using w(3) by simp_all
      moreover have "(of_nat (?c + 128) :: byte) = b" unfolding ub[symmetric] by simp
      ultimately show ?thesis by (subst encode_varint.simps) (simp del: of_nat_add)
    qed
    moreover have "v = a + ?w * 2 ^ (7 * k)" using w(1) val by simp
    moreover have "0 < ?w" using w(3) by simp
    ultimately show ?thesis using w(2,5) by (intro exI[of _ ?w]) simp
  qed
qed simp

interpretation compact_uint:
  prefix_code encode_compact_uint "decode_compact_uint (min maximum MAX_COMPACT_UINT)" "\<lambda>v. v \<le> maximum \<and> v \<le> MAX_COMPACT_UINT"
  for maximum
proof unfold_locales
  show "\<exists>b. encode_compact_uint v = Inr b" if "v \<le> maximum \<and> v \<le> MAX_COMPACT_UINT" for v
    using that by (simp add: encode_compact_uint_def)
  show "decode_compact_uint (min maximum MAX_COMPACT_UINT) (b @ rest) = Inr (v, rest)"
    if "v \<le> maximum \<and> v \<le> MAX_COMPACT_UINT" "encode_compact_uint v = Inr b" for v b rest
    using that decode_compact_from_encode[of 0 v 0 "min maximum MAX_COMPACT_UINT" rest]
    by (auto simp: encode_compact_uint_def decode_compact_uint_def split: if_split_asm)
  show "(v \<le> maximum \<and> v \<le> MAX_COMPACT_UINT) \<and> (\<exists>b. encode_compact_uint v = Inr b \<and> s = b @ rest)"
    if "decode_compact_uint (min maximum MAX_COMPACT_UINT) s = Inr (v, rest)" for s v rest
    using decode_compact_from_sound[of "min maximum MAX_COMPACT_UINT" 0 0 s v rest] that
    by (auto simp: encode_compact_uint_def decode_compact_uint_def)
qed

lemma compact_uint_read:
  "encode_compact_uint v = Inr b \<Longrightarrow> v \<le> maximum \<Longrightarrow> maximum \<le> MAX_COMPACT_UINT \<Longrightarrow> decode_compact_uint maximum (b @ rest) = Inr (v, rest)"
  using compact_uint.dec_enc[of v maximum b rest] by (simp add: min_def)

text \<open>The alternating code of signed integers: shifting in the sign is a bijection onto 64 bits.\<close>

lemma zigzag_nonneg: "0 \<le> v \<Longrightarrow> v < 2 ^ 63 \<Longrightarrow> push_bit 1 v XOR drop_bit 63 v = 2 * (v :: int)"
  by (simp add: drop_bit_eq_div push_bit_eq_mult)

lemma zigzag_neg: "- (2 ^ 63) \<le> v \<Longrightarrow> v < 0 \<Longrightarrow> push_bit 1 v XOR drop_bit 63 v = - 2 * v - (1 :: int)"
proof -
  assume v: "- (2 ^ 63) \<le> v" "v < 0"
  have "v div 2 ^ 63 = - 1"
  proof -
    have "v div 2 ^ 63 = (v + 2 ^ 63) div 2 ^ 63 - 1" by simp
    moreover have "(v + 2 ^ 63) div 2 ^ 63 = 0" using v by simp
    ultimately show ?thesis by simp
  qed
  then have "push_bit 1 v XOR drop_bit 63 v = NOT (2 * v)"
    by (simp add: drop_bit_eq_div push_bit_eq_mult)
  then show ?thesis by (simp add: not_int_def)
qed

lemma zigzag_decode:
  assumes "- (2 ^ 63) \<le> v" and "v < 2 ^ 63"
  shows "drop_bit 1 (int (nat (push_bit 1 v XOR drop_bit 63 v))) XOR - (int (nat (push_bit 1 v XOR drop_bit 63 v)) AND 1) = v"
proof (cases "0 \<le> v")
  case True
  then show ?thesis unfolding zigzag_nonneg[OF True assms(2)] by (simp add: drop_bit_eq_div and_one_eq)
next
  case False
  then have e: "push_bit 1 v XOR drop_bit 63 v = - 2 * v - 1" using zigzag_neg assms(1) by simp
  have "(- 2 * v - 1) mod 2 = 1" "(- 2 * v - 1) div 2 = - v - 1" by presburger+
  then have "drop_bit 1 (int (nat (- 2 * v - 1))) XOR - (int (nat (- 2 * v - 1)) AND 1) = (- v - 1) XOR (- 1)"
    using False by (simp add: drop_bit_eq_div and_one_eq)
  also have "\<dots> = v" by (simp add: not_int_def flip: xor.commute[of "- 1"])
  finally show ?thesis unfolding e .
qed

lemma zigzag_range:
  assumes "- (2 ^ 63) \<le> v" and "v < 2 ^ 63"
  shows "nat (push_bit 1 v XOR drop_bit 63 v) \<le> MAX_COMPACT_UINT"
  using assms zigzag_nonneg[of v] zigzag_neg[of v] by (cases "0 \<le> v") (simp_all add: nat_le_iff)

lemma unzigzag:
  fixes n :: nat
  assumes "n \<le> MAX_COMPACT_UINT"
  defines "v \<equiv> drop_bit 1 (int n) XOR - (int n AND 1)"
  shows "- (2 ^ 63) \<le> v \<and> v < 2 ^ 63 \<and> nat (push_bit 1 v XOR drop_bit 63 v) = n"
proof (cases "even n")
  case True
  then have "v = int n div 2" by (simp add: v_def drop_bit_eq_div and_one_eq even_iff_mod_2_eq_zero zmod_int[of n 2, simplified, symmetric])
  moreover from True have "2 * (int n div 2) = int n" by simp
  ultimately show ?thesis using assms(1) zigzag_nonneg[of v] by simp
next
  case False
  then have "int n mod 2 = 1" by presburger
  then have "v = (int n div 2) XOR (- 1)" by (simp add: v_def drop_bit_eq_div and_one_eq)
  then have "v = - (int n div 2) - 1" by (simp add: not_int_def flip: xor.commute[of "- 1"])
  moreover from False have "2 * (int n div 2) + 1 = int n" by simp
  ultimately show ?thesis using assms(1) zigzag_neg[of v] by simp
qed

interpretation compact_sint:
  prefix_code encode_compact_sint decode_compact_sint "\<lambda>v. - (2 ^ 63) \<le> v \<and> v < 2 ^ 63"
proof unfold_locales
  show "\<exists>b. encode_compact_sint v = Inr b" if "- (2 ^ 63) \<le> v \<and> v < 2 ^ 63" for v
    using that zigzag_range[of v] by (simp add: encode_compact_sint_def encode_compact_uint_def not_less)
  show "decode_compact_sint (b @ rest) = Inr (v, rest)"
    if "- (2 ^ 63) \<le> v \<and> v < 2 ^ 63" "encode_compact_sint v = Inr b" for v b rest
    using that zigzag_range[of v] zigzag_decode[of v] compact_uint_read[of "nat (push_bit 1 v XOR drop_bit 63 v)" b MAX_COMPACT_UINT rest]
    by (simp add: encode_compact_sint_def decode_compact_sint_def split: if_split_asm)
  show "(- (2 ^ 63) \<le> v \<and> v < 2 ^ 63) \<and> (\<exists>b. encode_compact_sint v = Inr b \<and> s = b @ rest)"
    if dec: "decode_compact_sint s = Inr (v, rest)" for s v rest
  proof -
    from dec obtain n where n: "decode_compact_uint MAX_COMPACT_UINT s = Inr (n, rest)"
      and v: "v = drop_bit 1 (int n) XOR - (int n AND 1)" by (auto simp: decode_compact_sint_def bindR_eq_Inr)
    from compact_uint.dec_sound[of MAX_COMPACT_UINT s n rest] n obtain b where
      b: "n \<le> MAX_COMPACT_UINT" "encode_compact_uint n = Inr b" "s = b @ rest" by auto
    with unzigzag[OF b(1)] v show ?thesis by (auto simp: encode_compact_sint_def)
  qed
qed

lemma compact_sint_read:
  "encode_compact_sint v = Inr b \<Longrightarrow> decode_compact_sint (b @ rest) = Inr (v, rest)"
  using compact_sint.dec_enc[of v b rest] by (auto simp: encode_compact_sint_def split: if_split_asm)

section \<open>Lanes in bytes\<close>

text \<open>The bits of the table behind the first \<open>index\<close> lanes.\<close>

definition lanes_packed :: "nat list \<Rightarrow> nat \<Rightarrow> bytes \<Rightarrow> bool" where
  "lanes_packed lanes index packed \<longleftrightarrow>
     (\<forall>q<length packed. \<forall>b<8. bit (packed ! q) b \<longleftrightarrow> 4 * q + b div 2 < index \<and> bit (lanes ! (4 * q + b div 2)) (b mod 2))"

lemma small_bit: "l < (4 :: nat) \<Longrightarrow> bit l j \<Longrightarrow> j < 2"
proof (rule ccontr)
  assume l: "l < 4" "bit l j" "\<not> j < 2"
  then have "(2 :: nat) ^ 2 \<le> 2 ^ j" by (intro power_increasing) auto
  then have "l div 2 ^ j = 0" using l(1) by simp
  with l(2) show False by (simp add: bit_iff_odd)
qed

lemma pack_lane_step:
  assumes "lanes_packed lanes index packed" and "lanes ! index < 4" and "index div 4 < length packed"
  shows "lanes_packed lanes (Suc index)
    (packed[index div 4 := packed ! (index div 4) OR push_bit (index mod 4 * 2) (of_nat (lanes ! index))])"
proof -
  let ?q = "index div 4" and ?t = "index mod 4" and ?l = "lanes ! index"
  have split: "4 * ?q + ?t = index" by simp
  show ?thesis
    unfolding lanes_packed_def
  proof (intro allI impI)
    fix q b assume q: "q < length (packed[?q := packed ! ?q OR push_bit (?t * 2) (of_nat ?l)])" and b: "b < (8 :: nat)"
    have old: "bit (packed ! q) b \<longleftrightarrow> 4 * q + b div 2 < index \<and> bit (lanes ! (4 * q + b div 2)) (b mod 2)"
      using assms(1) q b by (simp add: lanes_packed_def)
    show "bit (packed[?q := packed ! ?q OR push_bit (?t * 2) (of_nat ?l)] ! q) b
      \<longleftrightarrow> 4 * q + b div 2 < Suc index \<and> bit (lanes ! (4 * q + b div 2)) (b mod 2)"
    proof (cases "q = ?q")
      case False
      then have "4 * q + b div 2 \<noteq> index" using b by auto
      then show ?thesis using old False by (auto simp: less_Suc_eq)
    next
      case True
      have new: "bit (push_bit (?t * 2) (of_nat ?l) :: byte) b \<longleftrightarrow> b div 2 = ?t \<and> bit ?l (b mod 2)"
      proof
        assume "bit (push_bit (?t * 2) (of_nat ?l) :: byte) b"
        then have h: "?t * 2 \<le> b" "bit ?l (b - ?t * 2)" by (auto simp: bit_simps)
        from h(1) obtain k where k: "b = ?t * 2 + k" using le_Suc_ex by blast
        have "k < 2" using small_bit[OF assms(2) h(2)] k by simp
        with k have "b div 2 = ?t \<and> b mod 2 = b - ?t * 2" by simp
        with h(2) show "b div 2 = ?t \<and> bit ?l (b mod 2)" by simp
      next
        assume h: "b div 2 = ?t \<and> bit ?l (b mod 2)"
        then have "b = ?t * 2 + b mod 2" by (metis div_mult_mod_eq)
        then have "?t * 2 \<le> b" "b - ?t * 2 = b mod 2" by linarith+
        with h b show "bit (push_bit (?t * 2) (of_nat ?l) :: byte) b" by (auto simp: bit_simps)
      qed
      have at: "4 * q + b div 2 = index \<longleftrightarrow> b div 2 = ?t" using True split by (metis add_left_cancel)
      show ?thesis
      proof (cases "b div 2 = ?t")
        case True
        then have "4 * q + b div 2 = index" using at by blast
        with True new old \<open>q = ?q\<close> assms(3) show ?thesis by (simp add: bit_or_iff)
      next
        case False
        with at new old \<open>q = ?q\<close> assms(3) show ?thesis by (auto simp: bit_or_iff less_Suc_eq)
      qed
    qed
  qed
qed

lemma pack_lanes_bits:
  "pack_lanes index lanes packed = Inr out \<Longrightarrow> lanes_packed (before @ lanes) index packed \<Longrightarrow> length before = index \<Longrightarrow>
   index + length lanes \<le> 4 * length packed \<Longrightarrow>
   lanes_packed (before @ lanes) (index + length lanes) out \<and> length out = length packed \<and> (\<forall>l\<in>set lanes. l < LANE_COUNT)"
proof (induction lanes arbitrary: index packed before)
  case (Cons l lanes)
  let ?packed = "packed[index div 4 := packed ! (index div 4) OR push_bit (index mod 4 * 2) (of_nat l)]"
  from Cons.prems(1) have l: "l < LANE_COUNT" and rest: "pack_lanes (Suc index) lanes ?packed = Inr out"
    by (auto simp: not_le split: if_split_asm)
  have at: "(before @ l # lanes) ! index = l" using Cons.prems(3) by auto
  have "index div 4 < length packed" using Cons.prems(4) by auto
  with pack_lane_step[OF Cons.prems(2)] l at have "lanes_packed (before @ l # lanes) (Suc index) ?packed" by simp
  then have "lanes_packed ((before @ [l]) @ lanes) (Suc index) ?packed" by simp
  from Cons.IH[OF rest this] Cons.prems(3,4) l show ?case by simp
qed simp

lemma unpack_packed_lanes:
  assumes "pack_lanes 0 lanes (replicate ((length lanes + 3) div 4) 0) = Inr packed"
  shows "length packed = (length lanes + 3) div 4 \<and> (\<forall>l\<in>set lanes. l < LANE_COUNT) \<and> unpack_lanes (length lanes) packed = Inr lanes"
proof -
  let ?n = "length lanes"
  have "lanes_packed ([] @ lanes) 0 (replicate ((?n + 3) div 4) 0)" by (simp add: lanes_packed_def)
  from pack_lanes_bits[OF assms this] have bits: "lanes_packed lanes ?n packed" and len: "length packed = (?n + 3) div 4"
    and small: "\<forall>l\<in>set lanes. l < LANE_COUNT" by auto
  have lane: "unpack_lane packed i = Inr (lanes ! i)" if i: "i < ?n" for i
  proof -
    let ?q = "i div 4" and ?t = "i mod 4"
    have q: "?q < length packed" using i len by auto
    have l: "lanes ! i < LANE_COUNT" using small i by simp
    have at: "4 * ?q + (?t * 2 + j) div 2 = i" "(?t * 2 + j) mod 2 = j" if "j < 2" for j using that by auto
    have "drop_bit (?t * 2) (packed ! ?q) AND 3 = (of_nat (lanes ! i) :: byte)"
    proof (rule bit_eqI)
      fix j assume "possible_bit TYPE(byte) j"
      then have j: "j < 8" by simp
      have three: "bit (3 :: byte) j \<longleftrightarrow> j < 2"
      proof -
        have "(3 :: byte) = mask 2" by (simp add: mask_eq_exp_minus_1)
        moreover have "bit (mask 2 :: byte) j \<longleftrightarrow> j < 2" using j by (simp only: bit_mask_iff) simp
        ultimately show ?thesis by metis
      qed
      show "bit (drop_bit (?t * 2) (packed ! ?q) AND 3) j = bit (of_nat (lanes ! i) :: byte) j"
      proof (cases "j < 2")
        case True
        then have "?t * 2 + j < 8" by auto
        with bits q have "bit (packed ! ?q) (?t * 2 + j) \<longleftrightarrow> i < ?n \<and> bit (lanes ! i) j"
          unfolding lanes_packed_def using at[OF True] by metis
        with i j True three show ?thesis by (simp add: bit_and_iff bit_drop_bit_eq bit_of_nat_iff)
      next
        case False
        have "\<not> bit (lanes ! i) j" using small_bit[of "lanes ! i" j] l False by auto
        with False three show ?thesis by (simp add: bit_and_iff bit_of_nat_iff)
      qed
    qed
    with l show ?thesis by (simp add: unpack_lane_def)
  qed
  have pad: "drop_bit (?n mod 4 * 2) (last packed) = 0" if r: "?n mod 4 \<noteq> 0" "packed \<noteq> []"
  proof (rule bit_eqI)
    fix j assume "possible_bit TYPE(byte) j"
    let ?q = "length packed - 1"
    have q: "?q < length packed" using r(2) by simp
    have "(?n + 3) div 4 = Suc (?n div 4)"
    proof -
      have "?n + 3 = (?n mod 4 + 3) + 4 * (?n div 4)" by simp
      then have "(?n + 3) div 4 = (?n mod 4 + 3) div 4 + ?n div 4" by (metis div_mult_self2 numeral_eq_iff zero_neq_numeral add.commute)
      moreover have "(?n mod 4 + 3) div 4 = 1" using r(1) by (simp add: div_nat_eqI)
      ultimately show ?thesis by simp
    qed
    then have qn: "4 * ?q + (?n mod 4 * 2 + j) div 2 \<ge> ?n" using len by simp
    show "bit (drop_bit (?n mod 4 * 2) (last packed)) j = bit (0 :: byte) j"
    proof (cases "?n mod 4 * 2 + j < 8")
      case True
      with bits q qn have "\<not> bit (packed ! ?q) (?n mod 4 * 2 + j)" unfolding lanes_packed_def by (meson not_less)
      then show ?thesis using r(2) by (simp add: bit_drop_bit_eq last_conv_nth)
    next
      case False
      then have "\<not> bit (last packed) (?n mod 4 * 2 + j)" using bit_imp_le_length[of "last packed" "?n mod 4 * 2 + j"] by auto
      then show ?thesis by (simp add: bit_drop_bit_eq)
    qed
  qed
  have "mapR (unpack_lane packed) [0..<?n] = Inr (map (\<lambda>i. lanes ! i) [0..<?n])"
    by (rule mapR_total) (simp add: lane)
  moreover have "map (\<lambda>i. lanes ! i) [0..<?n] = lanes" by (rule map_nth)
  moreover have "\<not> (?n mod 4 \<noteq> 0 \<and> packed \<noteq> [] \<and> drop_bit (?n mod 4 * 2) (last packed) \<noteq> 0)" using pad by blast
  ultimately show ?thesis using len small unfolding unpack_lanes_def by simp
qed

section \<open>Compact metadata is read back\<close>

lemma read_frame_counts_encode:
  "mapR encode_compact_uint counts = Inr bs \<Longrightarrow> \<forall>n\<in>set counts. n \<le> 1000000 \<Longrightarrow>
   read_frame_counts (length counts) (concat bs @ rest) = Inr (counts, rest)"
proof (induction counts arbitrary: bs)
  case (Cons n counts)
  then obtain b cs where "encode_compact_uint n = Inr b" and "mapR encode_compact_uint counts = Inr cs" and bs: "bs = b # cs"
    by (auto simp: bindR_eq_Inr)
  with Cons compact_uint_read[of n b 1000000 "concat cs @ rest"] show ?case
    by (simp add: DEFAULT_MAX_FRAME_COUNT_def)
qed simp

lemma read_lane_codecs_encode:
  "mapR compact_codec lcs = Inr bs \<Longrightarrow> read_lane_codecs (map fst lcs) (concat bs @ rest) = Inr (map snd lcs, rest)"
proof (induction lcs arbitrary: bs)
  case (Cons lc lcs)
  obtain lane codec_id where lc: "lc = (lane, codec_id)" by (cases lc)
  from Cons.prems obtain b cs where ok: "codec_id \<in> valid_codecs lane" and b: "encode_compact_uint codec_id = Inr b"
    and cs: "mapR compact_codec lcs = Inr cs" and bs: "bs = b # cs"
    by (auto simp: bindR_eq_Inr lc compact_codec_def split: if_split_asm)
  have "codec_id \<le> SOLID_CODEC_ZSTD" using ok by (auto simp: valid_codecs_def split: if_split_asm)
  from compact_uint_read[OF b this] Cons.IH[OF cs] ok show ?case by (simp add: lc bs)
qed simp

text \<open>The entries that the compact form can hold, and what is stored of them.\<close>

definition compact_entry_fits :: "nat \<Rightarrow> ManifestEntry \<Rightarrow> bool" where
  "compact_entry_fits chunk_count e \<longleftrightarrow>
     (is_file_entry e \<or> is_directory_entry e) \<and> entry_mode e \<le> 511 \<and> index_count e \<le> chunk_count
     \<and> length (digest e) = 32 \<and> - (2 ^ 63) \<le> mtime_ns e \<and> mtime_ns e < 2 ^ 63
     \<and> (\<forall>b. utf8_encode (relative_path e) = Inr b \<longrightarrow> length b \<le> 65535)
     \<and> (is_directory_entry e \<longrightarrow> index_count e = 0 \<and> digest e = ZERO_HASH)"

definition spec_of :: "ManifestEntry \<Rightarrow> entry_spec" where
  "spec_of e = \<lparr>es_type = entry_type e, es_path = relative_path e, es_mode = entry_mode e, es_mtime_ns = mtime_ns e,
     es_count = index_count e, es_digest = digest e\<rparr>"

lemma compact_entries_read:
  assumes "compact_entries previous es = Inr b" and "\<forall>e\<in>set es. compact_entry_fits chunk_count e"
    and small: "chunk_count \<le> MAX_COMPACT_UINT"
  shows "read_entry_specs chunk_count (length es) previous (b @ rest) = Inr (map spec_of es, rest)"
  using assms(1,2)
proof (induction es arbitrary: previous b)
  case (Cons e es)
  from Cons.prems(1) obtain path descriptor mode mtime entry out where path: "utf8_encode (relative_path e) = Inr path"
    and descriptor: "encode_compact_uint (2 * length path + (if is_directory_entry e then 1 else 0)) = Inr descriptor"
    and mode: "encode_compact_uint (entry_mode e) = Inr mode"
    and mtime: "encode_compact_sint (mtime_ns e - previous) = Inr mtime"
    and entry: "(if is_file_entry e then bindR (encode_compact_uint (index_count e)) (\<lambda>count. Inr (count @ digest e)) else Inr []) = Inr entry"
    and out: "compact_entries (mtime_ns e) es = Inr out"
    and b: "b = descriptor @ path @ mode @ mtime @ entry @ out"
    by (auto simp: bindR_eq_Inr split: if_split_asm)
  have fits: "compact_entry_fits chunk_count e" using Cons.prems(2) by simp
  note f = fits[unfolded compact_entry_fits_def]
  have len: "length path \<le> 65535" using f path by blast
  have d: "decode_compact_uint (65535 * 2 + 1) (descriptor @ s) = Inr (2 * length path + (if is_directory_entry e then 1 else 0), s)" for s
    by (rule compact_uint_read[OF descriptor]) (use len in auto)
  have m: "decode_compact_uint 511 (mode @ s) = Inr (entry_mode e, s)" for s
    by (rule compact_uint_read[OF mode]) (use f in auto)
  have t: "decode_compact_sint (mtime @ s) = Inr (mtime_ns e - previous, s)" for s by (rule compact_sint_read[OF mtime])
  have ih: "read_entry_specs chunk_count (length es) (mtime_ns e) (out @ rest) = Inr (map spec_of es, rest)"
    by (rule Cons.IH[OF out]) (use Cons.prems(2) in simp)
  have times: "- (2 ^ 63) \<le> previous + (mtime_ns e - previous)" "previous + (mtime_ns e - previous) < 2 ^ 63"
    "previous + (mtime_ns e - previous) = mtime_ns e" using f by simp_all
  show ?case
  proof (cases "is_directory_entry e")
    case True
    then have nf: "\<not> is_file_entry e" using entry_kind_exclusive by blast
    with entry have "entry = []" by simp
    moreover have "entry_type e = ENTRY_DIRECTORY" "ENTRY_DIRECTORY \<noteq> ENTRY_FILE" using True by (simp_all add: is_directory_entry_def)
    ultimately show ?thesis using True f d[unfolded if_P[OF True]] m t ih times utf8_decode_encode[OF path]
      by (simp add: b take_compact_def spec_of_def Let_def)
  next
    case False
    then have ff: "is_file_entry e" using f by blast
    from entry ff obtain count where count: "encode_compact_uint (index_count e) = Inr count" and en: "entry = count @ digest e"
      by (auto simp: bindR_eq_Inr)
    have n: "decode_compact_uint chunk_count (count @ s) = Inr (index_count e, s)" for s
      by (rule compact_uint_read[OF count _ small]) (use f in auto)
    moreover have "entry_type e = ENTRY_FILE" using ff by (simp add: is_file_entry_def)
    ultimately show ?thesis using False f d[unfolded if_not_P[OF False]] m t ih times utf8_decode_encode[OF path]
      by (simp add: b en take_compact_def spec_of_def Let_def)
  qed
qed simp

lemma valid_dedup_entries_bound:
  "valid_dedup_entries u keys k es final \<Longrightarrow> k \<le> final \<and> (\<forall>e\<in>set es. index_count e \<le> final)"
proof (induction es arbitrary: keys k)
  case (Cons e es)
  then obtain k' where r: "check_chunk_range k e = Inr k'"
    and v: "valid_dedup_entries u (insert (casefold u (relative_path e)) keys) k' es final" by auto
  have "k \<le> k' \<and> index_count e \<le> k'" using r by (auto simp: check_chunk_range_def split: if_split_asm)
  with Cons.IH[OF v] show ?case by auto
qed simp

lemma compact_entries_fit:
  "valid_dedup_entries u keys k es final \<Longrightarrow> pack_entries es = Inr body \<Longrightarrow> e \<in> set es \<Longrightarrow> compact_entry_fits final e"
proof (induction es arbitrary: keys k body)
  case (Cons d es)
  note bound = valid_dedup_entries_bound[OF Cons.prems(1)]
  from Cons.prems(1) obtain k' where r: "check_chunk_range k d = Inr k'"
    and v: "valid_dedup_entries u (insert (casefold u (relative_path d)) keys) k' es final"
    and d: "is_file_entry d \<or> is_directory_entry d" "entry_mode d \<le> 511" "length (digest d) = 32" by auto
  from Cons.prems(2) obtain pb fixed out where p: "utf8_encode (relative_path d) = Inr pb"
    "struct_pack ENTRY_FIXED (entry_values d pb) = Inr fixed" and out: "pack_entries es = Inr out"
    by (auto simp: bindR_eq_Inr)
  have "length pb \<le> 65535" "- (2 ^ 63) \<le> mtime_ns d" "mtime_ns d < 2 ^ 63"
    using p(2) by (auto simp: struct_pack_def entry_values_def split: if_split_asm)
  moreover have "is_directory_entry d \<longrightarrow> index_count d = 0 \<and> digest d = ZERO_HASH"
    using r by (auto simp: check_chunk_range_def split: if_split_asm)
  ultimately have "compact_entry_fits final d" using bound d p(1) by (auto simp: compact_entry_fits_def)
  with Cons.IH[OF v out] Cons.prems(3) show ?case by auto
qed simp

lemma compact_chunks_read:
  assumes "compact_chunks (length before) rs = Inr b" and "valid_chunks m (before @ rs)"
    and "\<forall>r\<in>set (before @ rs). length (cr_digest r) = 32" and "m \<le> MAX_COMPACT_UINT" and "length (before @ rs) \<le> MAX_CHUNK_RECORDS"
  shows "read_compact_chunks m (length rs) before (length (canonical_indexes before)) (b @ rest)
    = Inr (before @ rs, length (canonical_indexes (before @ rs)), rest)"
  using assms(1-3,5)
proof (induction rs arbitrary: before b)
  case (Cons r rs)
  let ?i = "length before"
  from Cons.prems(1) obtain chunk out where
    chunk: "(if cr_source r = ?i then bindR (encode_compact_uint (cr_size r)) (\<lambda>n. Inr (0 # n @ cr_digest r))
            else bindR (encode_compact_uint (cr_source r)) (\<lambda>source. Inr (1 # source))) = Inr chunk"
    and out: "compact_chunks (length (before @ [r])) rs = Inr out" and b: "b = chunk @ out" by (auto simp: bindR_eq_Inr)
  have "valid_chunk m (before @ r # rs) ?i" using Cons.prems(2) by (simp add: valid_chunks_def)
  then have r: "1 \<le> cr_size r" "cr_size r \<le> m" "cr_source r \<le> ?i"
    and canon: "cr_source r < ?i \<Longrightarrow> cr_source (before ! cr_source r) = cr_source r
      \<and> cr_digest (before ! cr_source r) = cr_digest r \<and> cr_size (before ! cr_source r) = cr_size r"
    by (auto simp: valid_chunk_def Let_def nth_append)
  have ih: "read_compact_chunks m (length rs) (before @ [r]) (length (canonical_indexes (before @ [r]))) (out @ rest)
    = Inr (before @ r # rs, length (canonical_indexes (before @ r # rs)), rest)"
    using Cons.IH[OF out] Cons.prems(2-4) by simp
  show ?case
  proof (cases "cr_source r = ?i")
    case True
    with chunk obtain n where n: "encode_compact_uint (cr_size r) = Inr n" and c: "chunk = 0 # n @ cr_digest r"
      by (auto simp: bindR_eq_Inr)
    have "length (cr_digest r) = 32" using Cons.prems(3) by simp
    moreover have "decode_compact_uint m (n @ s) = Inr (cr_size r, s)" for s
      by (rule compact_uint_read[OF n r(2) assms(4)])
    moreover note True[symmetric]
    ultimately show ?thesis using r(1) ih
      by (simp add: b c take_compact_def read_exact_def stream_read_def Let_def canonical_indexes_snoc)
  next
    case False
    then have less: "cr_source r < ?i" using r(3) by simp
    from False chunk obtain source where s: "encode_compact_uint (cr_source r) = Inr source" and c: "chunk = 1 # source"
      by (auto simp: bindR_eq_Inr)
    have "?i - 1 \<le> MAX_COMPACT_UINT" using Cons.prems(4) by simp
    then have "decode_compact_uint (?i - 1) (source @ t) = Inr (cr_source r, t)" for t
      by (intro compact_uint_read[OF s]) (use less in auto)
    moreover have "\<lparr>cr_digest = cr_digest (before ! cr_source r), cr_size = cr_size (before ! cr_source r), cr_source = cr_source r\<rparr> = r"
      using canon[OF less] by (cases r) simp
    moreover have "before \<noteq> []" using less by auto
    ultimately show ?thesis using canon[OF less] ih False
      by (simp add: b c take_compact_def read_exact_def stream_read_def Let_def canonical_indexes_snoc)
  qed
qed simp

lemma spec_of_sel [simp]:
  "es_type (spec_of e) = entry_type e" "es_path (spec_of e) = relative_path e" "es_mode (spec_of e) = entry_mode e"
  "es_mtime_ns (spec_of e) = mtime_ns e" "es_count (spec_of e) = index_count e" "es_digest (spec_of e) = digest e"
  by (simp_all add: spec_of_def)

lemma place_entries_spec:
  "valid_dedup_entries u keys k es final \<Longrightarrow> file_sizes_match es chunks \<Longrightarrow> final \<le> length chunks \<Longrightarrow>
   place_entries chunks k (map spec_of es) = Inr (es, final)"
proof (induction es arbitrary: keys k)
  case (Cons e es)
  from Cons.prems(1) obtain k' where r: "check_chunk_range k e = Inr k'" and kind: "is_file_entry e \<or> is_directory_entry e"
    and v: "valid_dedup_entries u (insert (casefold u (relative_path e)) keys) k' es final" by auto
  have ih: "place_entries chunks k' (map spec_of es) = Inr (es, final)"
    by (rule Cons.IH[OF v]) (use Cons.prems(2,3) in \<open>simp_all add: file_sizes_match_def\<close>)
  show ?case
  proof (cases "is_directory_entry e")
    case True
    with r ih show ?thesis
      by (cases e) (auto simp: check_chunk_range_def is_directory_entry_def split: if_split_asm)
  next
    case False
    with kind have f: "is_file_entry e" by blast
    from False r have e: "first_index e = k" "k' = k + index_count e" by (auto simp: check_chunk_range_def split: if_split_asm)
    have "k' \<le> length chunks" using valid_dedup_entries_bound[OF v] Cons.prems(3) by simp
    moreover have "sum_list (map cr_size (take (index_count e) (drop k chunks))) = entry_size e"
      using Cons.prems(2) f e(1) by (simp add: file_sizes_match_def chunk_slice_def)
    ultimately show ?thesis using ih False f e
      by (cases e) (simp add: is_directory_entry_def is_file_entry_def Let_def)
  qed
qed simp

definition codecs_or_default :: "nat list option \<Rightarrow> nat list" where
  "codecs_or_default lane_codecs = (case lane_codecs of None \<Rightarrow> replicate LANE_COUNT SOLID_CODEC_LZMA2 | Some codecs \<Rightarrow> codecs)"

lemma unique_records_length: "length (unique_records chunks) = length (canonical_indexes chunks)"
  by (simp add: unique_records_def)

lemma read_codecs:
  assumes "(case lane_codecs of None \<Rightarrow> Inr [] | Some codecs \<Rightarrow> mapR compact_codec (zip [0..<length codecs] codecs)) = Inr bs"
    and "length (codecs_or_default lane_codecs) = LANE_COUNT"
  shows "read_stored_codecs (lane_codecs \<noteq> None) (concat bs @ rest) = Inr (codecs_or_default lane_codecs, rest)"
proof (cases lane_codecs)
  case (Some codecs)
  then have l: "length codecs = LANE_COUNT" using assms(2) by (simp add: codecs_or_default_def)
  have "mapR compact_codec (zip [0..<length codecs] codecs) = Inr bs" using assms(1) Some by simp
  from read_lane_codecs_encode[OF this] l Some show ?thesis by (simp add: read_stored_codecs_def codecs_or_default_def del: upt_Suc)
qed (use assms in \<open>simp add: read_stored_codecs_def codecs_or_default_def\<close>)

text \<open>
  What the writer has to bring with a manifest: a lane for each unique chunk, and per lane a number
  of frames that is zero exactly when the lane is empty.
\<close>

definition lanes_consistent :: "DedupManifest \<Rightarrow> nat list \<Rightarrow> nat list \<Rightarrow> nat list \<Rightarrow> bool" where
  "lanes_consistent m assignments raw_sizes frame_counts \<longleftrightarrow>
     lane_raw_sizes (unique_records (dm_chunks m)) assignments = Inr raw_sizes
     \<and> length frame_counts = LANE_COUNT \<and> list_all2 (\<lambda>raw_size n. (raw_size = 0) = (n = 0)) raw_sizes frame_counts"

lemma list_all2_not_ex: "list_all2 P xs ys \<Longrightarrow> \<not> list_ex (\<lambda>(x, y). \<not> P x y) (zip xs ys)"
  by (induction rule: list_all2_induct) auto

lemma lanes_consistent_ok:
  "lanes_consistent m assignments raw_sizes frame_counts \<Longrightarrow>
   \<not> list_ex (\<lambda>(raw_size, frame_count). (raw_size = 0) \<noteq> (frame_count = 0)) (zip raw_sizes frame_counts)"
  using list_all2_not_ex[of "\<lambda>raw_size n. (raw_size = 0) = (n = 0)" raw_sizes frame_counts]
  by (simp add: lanes_consistent_def)

lemma compatibility_header_simps [simp]:
  "m3_max_chunk_size (metadata_compatibility_header n h) = r2_max_chunk_size h"
  "m3_frame_count (metadata_compatibility_header n h) = n + 1"
  by (simp_all add: metadata_compatibility_header_def)

lemma compact_metadata_parse:
  assumes meta: "compact_metadata m assignments frame_counts lane_codecs = Inr payload"
    and ser: "serialize_dedup_manifest m = Inr data"
    and valid: "valid_dedup_manifest u (r2_max_chunk_size h) (r2_unique_chunk_count h + 1) m"
    and few: "length (dm_chunks m) \<le> MAX_CHUNK_RECORDS" and sizes: "r2_max_chunk_size h \<le> MAX_COMPACT_UINT"
    and lanes: "lanes_consistent m assignments raw_sizes frame_counts"
    and counts: "\<forall>n\<in>set frame_counts. n \<le> 1000000" and codecs: "length (codecs_or_default lane_codecs) = LANE_COUNT"
  shows "parse_metadata u payload h = Inr \<lparr>sm_manifest = m, sm_assignments = assignments, sm_raw_sizes = raw_sizes,
    sm_frame_counts = frame_counts, sm_lane_codecs = codecs_or_default lane_codecs\<rparr>"
proof -
  let ?n = "r2_unique_chunk_count h"
  define kind where "kind = (if dm_kind m = KIND_FOLDER then 1 else 0 :: nat)"
  define modern where "modern \<longleftrightarrow> lane_codecs \<noteq> None"
  define magic where "magic = (if modern then COMPACT_METADATA_MAGIC else COMPACT_METADATA_MAGIC_V1)"
  from meta obtain root d ec cc counts_b codecs_b es cs packed where root: "utf8_encode (dm_root_name m) = Inr root"
    and kinds: "dm_kind m \<in> {KIND_FILE, KIND_FOLDER}"
    and d: "encode_compact_uint (2 * length root + kind) = Inr d"
    and ec: "encode_compact_uint (length (dm_entries m)) = Inr ec" and cc: "encode_compact_uint (length (dm_chunks m)) = Inr cc"
    and fc: "mapR encode_compact_uint frame_counts = Inr counts_b"
    and lc: "(case lane_codecs of None \<Rightarrow> Inr [] | Some codecs \<Rightarrow> mapR compact_codec (zip [0..<length codecs] codecs)) = Inr codecs_b"
    and es: "compact_entries 0 (dm_entries m) = Inr es" and cs: "compact_chunks 0 (dm_chunks m) = Inr cs"
    and packed: "pack_lanes 0 assignments (replicate ((length assignments + 3) div 4) 0) = Inr packed"
    and payload: "payload = magic @ d @ root @ ec @ cc @ concat counts_b @ concat codecs_b @ es @ cs @ packed"
    unfolding compact_metadata_def by (auto simp: kind_def magic_def modern_def bindR_eq_Inr split: if_split_asm)
  from ser obtain body where pe: "pack_entries (dm_entries m) = Inr body" and rl: "length root < 256 ^ 2"
    by (auto simp: serialize_dedup_manifest_def bindR_eq_Inr root struct_pack_def split: if_split_asm)
  note v = valid[unfolded valid_dedup_manifest_def]
  have nums: "length (dm_entries m) \<le> 1000000" "length (dm_chunks m) \<le> MAX_COMPACT_UINT" using v few by auto
  have un: "length (canonical_indexes (dm_chunks m)) = ?n" "length assignments = ?n"
    using v lanes unique_records_length[of "dm_chunks m"] by (auto simp: lanes_consistent_def lane_raw_sizes_def split: if_split_asm)
  note ps = unpack_packed_lanes[OF packed, unfolded un]
  define desc where "desc = 2 * length root + kind"
  have h1: "decode_compact_uint 131071 (d @ s) = Inr (desc, s)" for s
    unfolding desc_def by (rule compact_uint_read[OF d]) (use rl in \<open>auto simp: kind_def\<close>)
  have h2: "desc div 2 = length root"
    "(if desc mod 2 = Suc 0 then KIND_FOLDER else KIND_FILE) = dm_kind m" using kinds by (auto simp: kind_def desc_def)
  have h3: "decode_compact_uint 1000000 (ec @ s) = Inr (length (dm_entries m), s)" for s
    by (rule compact_uint_read[OF ec]) (use nums in auto)
  have h4: "decode_compact_uint MAX_CHUNK_RECORDS (cc @ s) = Inr (length (dm_chunks m), s)" for s
    by (rule compact_uint_read[OF cc few]) simp
  have h5: "read_frame_counts LANE_COUNT (concat counts_b @ s) = Inr (frame_counts, s)" for s
    using read_frame_counts_encode[OF fc counts] lanes by (simp add: lanes_consistent_def)
  have h6: "read_entry_specs (length (dm_chunks m)) (length (dm_entries m)) 0 (es @ s) = Inr (map spec_of (dm_entries m), s)" for s
    by (rule compact_entries_read[OF es _ nums(2)]) (use compact_entries_fit[OF _ pe] v in blast)
  have h7: "read_compact_chunks (r2_max_chunk_size h) (length (dm_chunks m)) [] 0 (cs @ s) = Inr (dm_chunks m, ?n, s)" for s
    using compact_chunks_read[of "[]" "dm_chunks m" cs "r2_max_chunk_size h" s] cs v sizes few un(1)
    by (simp add: canonical_indexes_def[of "[]"])
  have h8: "place_entries (dm_chunks m) 0 (map spec_of (dm_entries m)) = Inr (dm_entries m, length (dm_chunks m))"
    using place_entries_spec v by blast
  have h9: "parse_dedup_manifest u data (metadata_compatibility_header ?n h) = Inr m"
    by (rule dedup_manifest_roundtrip[OF ser]) (use valid few in simp_all)
  have magic: "take 4 payload = magic" "(magic = COMPACT_METADATA_MAGIC) = modern"
    "drop 4 payload = d @ root @ ec @ cc @ concat counts_b @ concat codecs_b @ es @ cs @ packed"
    by (simp_all add: payload magic_def)
  have h10: "read_stored_codecs modern (concat codecs_b @ s) = Inr (codecs_or_default lane_codecs, s)" for s
    unfolding modern_def by (rule read_codecs[OF lc codecs])
  have h11: "take_compact packed ((?n + 3) div 4) = Inr (packed, [])"
    using ps by (simp add: take_compact_def read_exact_def stream_read_def)
  have h12: "take_compact (root @ s) (length root) = Inr (root, s)" for s by (simp add: take_compact_def)
  have h13: "\<lparr>dm_kind = dm_kind m, dm_root_name = dm_root_name m, dm_entries = dm_entries m, dm_chunks = dm_chunks m\<rparr> = m"
    by (cases m) simp
  have "parse_compact_metadata u payload h = Inr \<lparr>sm_manifest = m, sm_assignments = assignments, sm_raw_sizes = raw_sizes,
    sm_frame_counts = frame_counts, sm_lane_codecs = codecs_or_default lane_codecs\<rparr>"
    using lanes lanes_consistent_ok[OF lanes] ps
    unfolding parse_compact_metadata_def magic Let_def
    by (simp add: h1 h2 h3 h4 h5 h6 h7 h8 h9 h11 h12 h13 utf8_decode_encode[OF root] h10 ser
        lanes_consistent_def del: split_paired_All)
  moreover have "take 4 payload = COMPACT_METADATA_MAGIC_V1 \<or> take 4 payload = COMPACT_METADATA_MAGIC" by (simp add: magic(1) magic_def)
  ultimately show ?thesis by (simp add: parse_metadata_def)
qed

section \<open>The explicit form and the envelope are read back\<close>

lemma be_encode_take: "take k (be_encode (k + n) v) = be_encode k (v div 256 ^ n)"
proof (induction n arbitrary: v)
  case (Suc n)
  have "take k (be_encode (k + Suc n) v) = take k (be_encode (k + n) (v div 256))" by simp
  also have "\<dots> = be_encode k (v div 256 ^ Suc n)" unfolding Suc.IH by (simp add: div_mult2_eq)
  finally show ?case .
qed simp

lemma be_encode_high:
  assumes "v < 256 ^ 4"
  shows "take 4 (be_encode 8 v) = [0, 0, 0, 0]"
proof -
  have "take 4 (be_encode (4 + 4) v) = be_encode 4 0" unfolding be_encode_take using assms by simp
  moreover have "be_encode n 0 = replicate n 0" for n by (induction n) (simp_all add: replicate_append_same)
  moreover have "replicate 4 (0 :: byte) = [0, 0, 0, 0]" by (simp add: numeral_eq_Suc)
  ultimately show ?thesis by simp
qed

lemma read_lane_records_pack:
  assumes "mapR (\<lambda>(raw_size, frame_count). struct_pack LANE_RECORD [VU raw_size, VU frame_count]) lanes = Inr bs"
    and "\<forall>(r, n)\<in>set lanes. (r = 0) = (n = 0)"
  shows "read_lane_records (length lanes) (concat bs @ rest) = Inr (lanes, rest) \<and> length (concat bs) = length lanes * struct_size LANE_RECORD"
  using assms
proof (induction lanes arbitrary: bs)
  case (Cons lane lanes)
  obtain r n where lane: "lane = (r, n)" by (cases lane)
  from Cons.prems(1) obtain b cs where b: "struct_pack LANE_RECORD [VU r, VU n] = Inr b"
    and cs: "mapR (\<lambda>(raw_size, frame_count). struct_pack LANE_RECORD [VU raw_size, VU frame_count]) lanes = Inr cs"
    and bs: "bs = b # cs" by (auto simp: bindR_eq_Inr lane)
  have "list_all2 field_exact LANE_RECORD [VU r, VU n]" using b by (auto simp: struct_pack_def split: if_split_asm)
  from struct_unpack_from_pack[OF this b, of "[]" 0 "concat cs @ rest"] struct_pack_length[OF b]
    Cons.IH[OF cs] Cons.prems(2)
  show ?case by (simp add: bs lane del: One_nat_def)
qed simp

lemma explicit_metadata_parse:
  assumes meta: "explicit_metadata m assignments raw_sizes frame_counts = Inr payload"
    and ser: "serialize_dedup_manifest m = Inr data" and small: "length data \<le> MAX_MANIFEST_CIPHERTEXT"
    and valid: "valid_dedup_manifest u (r2_max_chunk_size h) (r2_unique_chunk_count h + 1) m"
    and few: "length (dm_chunks m) \<le> MAX_CHUNK_RECORDS" and lanes: "lanes_consistent m assignments raw_sizes frame_counts"
    and assigned: "\<forall>l\<in>set assignments. l < LANE_COUNT"
  shows "parse_metadata u payload h = Inr \<lparr>sm_manifest = m, sm_assignments = assignments, sm_raw_sizes = raw_sizes,
    sm_frame_counts = frame_counts, sm_lane_codecs = replicate LANE_COUNT SOLID_CODEC_LZMA2\<rparr>"
proof -
  let ?n = "r2_unique_chunk_count h" and ?lanes = "zip raw_sizes frame_counts"
  from meta ser obtain prefix bs where len: "length raw_sizes = length frame_counts"
    and prefix: "struct_pack METADATA_PREFIX [VU (length data), VU (length assignments)] = Inr prefix"
    and bs: "mapR (\<lambda>(raw_size, frame_count). struct_pack LANE_RECORD [VU raw_size, VU frame_count]) ?lanes = Inr bs"
    and payload: "payload = prefix @ concat bs @ data @ map of_nat assignments"
    by (auto simp: explicit_metadata_def bindR_eq_Inr split: if_split_asm)
  have n3: "length ?lanes = LANE_COUNT" "map fst ?lanes = raw_sizes" "map snd ?lanes = frame_counts"
    using lanes len by (simp_all add: lanes_consistent_def)
  have "\<forall>(r, n)\<in>set ?lanes. (r = 0) = (n = 0)" using lanes by (auto simp: lanes_consistent_def list_all2_iff)
  from read_lane_records_pack[OF bs this] n3(1)
  have rd: "read_lane_records LANE_COUNT (concat bs @ s) = Inr (?lanes, s)" "length (concat bs) = LANE_COUNT * struct_size LANE_RECORD"
    for s using read_lane_records_pack[OF bs, of s] \<open>\<forall>(r, n)\<in>set ?lanes. (r = 0) = (n = 0)\<close> by metis+
  have exact: "list_all2 field_exact METADATA_PREFIX [VU (length data), VU (length assignments)]"
    using prefix by (auto simp: struct_pack_def split: if_split_asm)
  have pl: "length prefix = struct_size METADATA_PREFIX" by (rule struct_pack_length[OF prefix])
  have pu: "struct_unpack_from METADATA_PREFIX (prefix @ s) 0 = Inr [VU (length data), VU (length assignments)]" for s
    using struct_unpack_from_pack[OF exact prefix, of "[]" 0 s] by simp
  have "take 4 prefix = [0, 0, 0, 0]" using prefix be_encode_high[of "length data"] small
    by (auto simp: struct_pack_def split: if_split_asm)
  then have magic: "take 4 payload \<noteq> COMPACT_METADATA_MAGIC_V1" "take 4 payload \<noteq> COMPACT_METADATA_MAGIC"
    using pl by (simp_all add: payload struct_size_def)
  have un: "length (canonical_indexes (dm_chunks m)) = ?n" "length assignments = ?n"
    using valid lanes unique_records_length[of "dm_chunks m"]
    by (auto simp: valid_dedup_manifest_def lanes_consistent_def lane_raw_sizes_def split: if_split_asm)
  have "map unat (map of_nat assignments :: bytes) = assignments"
    unfolding map_map by (rule map_idI) (use assigned in \<open>fastforce intro: unat_of_nat_byte\<close>)
  moreover have "\<not> list_ex (\<lambda>lane. lane \<ge> LANE_COUNT) assignments" using assigned by (auto simp: list_ex_iff)
  moreover have "parse_dedup_manifest u data (metadata_compatibility_header ?n h) = Inr m"
    by (rule dedup_manifest_roundtrip[OF ser]) (use valid few in simp_all)
  moreover have "lane_raw_sizes (unique_records (dm_chunks m)) assignments = Inr raw_sizes" using lanes by (simp add: lanes_consistent_def)
  ultimately have "parse_explicit_metadata u payload h = Inr \<lparr>sm_manifest = m, sm_assignments = assignments, sm_raw_sizes = raw_sizes,
      sm_frame_counts = frame_counts, sm_lane_codecs = replicate LANE_COUNT SOLID_CODEC_LZMA2\<rparr>"
    using pl rd pu un n3 small unique_records_length[of "dm_chunks m"]
    unfolding parse_explicit_metadata_def payload Let_def by simp
  with magic show ?thesis by (simp add: parse_metadata_def)
qed

lemma metadata_envelope_decode:
  assumes env: "encode_metadata_envelope y payload = Inr envelope" and ends: "zlib_ends y payload"
    and small: "length payload \<le> MAX_MANIFEST_CIPHERTEXT"
  shows "decode_metadata_envelope y envelope = Inr (payload, True)"
proof -
  let ?vs = "[VB METADATA_MAGIC, VU RAW_LZMA2_CODEC, VU (length payload)]"
  from env obtain pre where pre: "struct_pack METADATA_ENVELOPE ?vs = Inr pre" and e: "envelope = pre @ zlib_compress y payload"
    by (auto simp: encode_metadata_envelope_def bindR_eq_Inr)
  have exact: "list_all2 field_exact METADATA_ENVELOPE ?vs" using pre by (auto simp: struct_pack_def split: if_split_asm)
  have pl: "length pre = struct_size METADATA_ENVELOPE" by (rule struct_pack_length[OF pre])
  have "take 4 pre = METADATA_MAGIC" using pre by (auto simp: struct_pack_def split: if_split_asm)
  then have magic: "take 4 envelope = METADATA_MAGIC" using pl by (simp add: e struct_size_def)
  have "struct_unpack_from METADATA_ENVELOPE envelope 0 = Inr ?vs"
    using struct_unpack_from_pack[OF exact pre, of "[]" 0] by (simp add: e)
  then show ?thesis using magic pl ends small by (simp add: decode_metadata_envelope_def zlib_ends_def e)
qed

lemma metadata_envelope_total:
  assumes "length payload \<le> MAX_MANIFEST_CIPHERTEXT"
  shows "\<exists>envelope. encode_metadata_envelope y payload = Inr envelope"
  using assms by (simp add: encode_metadata_envelope_def struct_pack_def)

section \<open>What a reader accepts\<close>

lemma parse_dedup_manifest_Inr:
  assumes "parse_dedup_manifest u data h = Inr m"
  shows "valid_chunks (m3_max_chunk_size h) (dm_chunks m) \<and> file_sizes_match (dm_entries m) (dm_chunks m)
    \<and> length (canonical_indexes (dm_chunks m)) + 1 = m3_frame_count h"
proof -
  from assms obtain n stream chunks rest where c: "parse_chunks (m3_max_chunk_size h) [] n stream = Inr (chunks, rest)"
    and m: "dm_chunks m = chunks" "file_sizes_match (dm_entries m) chunks" "length (canonical_indexes chunks) + 1 = m3_frame_count h"
    by (auto simp: parse_dedup_manifest_def Let_def bindR_eq_Inr split: if_split_asm)
  have "valid_chunks (m3_max_chunk_size h) []" by (simp add: valid_chunks_def)
  from parse_chunks_Inr[OF c this] m show ?thesis by simp
qed

lemma read_frame_counts_length: "read_frame_counts n stream = Inr (counts, rest) \<Longrightarrow> length counts = n"
  by (induction n arbitrary: stream counts) (auto simp: bindR_eq_Inr)

lemma read_lane_records_Inr:
  "read_lane_records n stream = Inr (lanes, rest) \<Longrightarrow> length lanes = n \<and> list_all2 (\<lambda>r k. (r = 0) = (k = 0)) (map fst lanes) (map snd lanes)"
  by (induction n arbitrary: stream lanes) (auto simp: bindR_eq_Inr split: if_split_asm)

lemma read_lane_codecs_valid:
  "read_lane_codecs lanes stream = Inr (codecs, rest) \<Longrightarrow> list_all2 (\<lambda>lane codec_id. codec_id \<in> valid_codecs lane) lanes codecs"
  by (induction lanes arbitrary: stream codecs) (auto simp: bindR_eq_Inr split: if_split_asm)

lemma default_codecs_valid: "list_all2 (\<lambda>lane codec_id. codec_id \<in> valid_codecs lane) [0..<LANE_COUNT] (replicate LANE_COUNT SOLID_CODEC_LZMA2)"
  by (simp add: list_all2_conv_all_nth valid_codecs_def)

lemma read_stored_codecs_valid:
  "read_stored_codecs modern stream = Inr (codecs, rest) \<Longrightarrow>
   list_all2 (\<lambda>lane codec_id. codec_id \<in> valid_codecs lane) [0..<LANE_COUNT] codecs"
  using read_lane_codecs_valid[of "[0..<LANE_COUNT]" stream codecs rest] default_codecs_valid
  by (auto simp: read_stored_codecs_def split: if_split_asm)

lemma unpack_lanes_Inr: "unpack_lanes n packed = Inr assignments \<Longrightarrow> length assignments = n \<and> (\<forall>l\<in>set assignments. l < LANE_COUNT)"
proof -
  assume "unpack_lanes n packed = Inr assignments"
  then have r: "mapR (unpack_lane packed) [0..<n] = Inr assignments" by (simp add: unpack_lanes_def split: if_split_asm)
  have "l < LANE_COUNT" if l: "l \<in> set assignments" for l
    using mapR_image[OF r l] by (auto simp: unpack_lane_def Let_def split: if_split_asm)
  with mapR_length[OF r] show ?thesis by simp
qed

lemma not_ex_list_all2: "length xs = length ys \<Longrightarrow> \<not> list_ex (\<lambda>(x, y). \<not> P x y) (zip xs ys) \<Longrightarrow> list_all2 P xs ys"
  by (induction xs ys rule: list_induct2) auto

lemma lane_raw_sizes_length: "lane_raw_sizes records assignments = Inr raw \<Longrightarrow> length raw = LANE_COUNT \<and> length assignments = length records"
  by (auto simp: lane_raw_sizes_def split: if_split_asm)

text \<open>
  The contract of parsed metadata: a lane below three for every unique chunk, lane sizes that are
  the sums of their chunks, frames exactly where there are bytes, codecs allowed in their lane, and
  a chunk table with backward references to canonical records.
\<close>

definition metadata_wf :: "Msr2Header \<Rightarrow> solid_metadata \<Rightarrow> bool" where
  "metadata_wf h s \<longleftrightarrow>
     length (sm_assignments s) = r2_unique_chunk_count h \<and> (\<forall>l\<in>set (sm_assignments s). l < LANE_COUNT)
     \<and> length (unique_records (dm_chunks (sm_manifest s))) = r2_unique_chunk_count h
     \<and> lanes_consistent (sm_manifest s) (sm_assignments s) (sm_raw_sizes s) (sm_frame_counts s)
     \<and> list_all2 (\<lambda>lane codec_id. codec_id \<in> valid_codecs lane) [0..<LANE_COUNT] (sm_lane_codecs s)
     \<and> valid_chunks (r2_max_chunk_size h) (dm_chunks (sm_manifest s))
     \<and> file_sizes_match (dm_entries (sm_manifest s)) (dm_chunks (sm_manifest s))"

lemma parse_explicit_metadata_wf:
  assumes "parse_explicit_metadata u payload h = Inr s"
  shows "metadata_wf h s"
proof -
  from assms obtain lanes stream m data where lanes: "read_lane_records LANE_COUNT (drop (struct_size METADATA_PREFIX) payload) = Inr (lanes, stream)"
    and m: "parse_dedup_manifest u data (metadata_compatibility_header (r2_unique_chunk_count h) h) = Inr m"
    and s: "sm_manifest s = m" "\<forall>l\<in>set (sm_assignments s). l < LANE_COUNT" "length (unique_records (dm_chunks m)) = r2_unique_chunk_count h"
      "lane_raw_sizes (unique_records (dm_chunks m)) (sm_assignments s) = Inr (map fst lanes)" "sm_raw_sizes s = map fst lanes"
      "sm_frame_counts s = map snd lanes" "sm_lane_codecs s = replicate LANE_COUNT SOLID_CODEC_LZMA2"
    by (auto simp: parse_explicit_metadata_def Let_def bindR_eq_Inr list_ex_iff not_le split: if_split_asm)
  with read_lane_records_Inr[OF lanes] lane_raw_sizes_length[OF s(4)] parse_dedup_manifest_Inr[OF m] default_codecs_valid
  show ?thesis by (simp add: metadata_wf_def lanes_consistent_def)
qed

lemma parse_compact_metadata_wf:
  assumes "parse_compact_metadata u payload h = Inr s"
  shows "metadata_wf h s"
proof -
  from assms obtain counts x y codecs z w m data packed where counts: "read_frame_counts LANE_COUNT x = Inr (counts, y)"
    and codecs: "read_stored_codecs (take 4 payload = COMPACT_METADATA_MAGIC) z = Inr (codecs, w)"
    and packed: "unpack_lanes (r2_unique_chunk_count h) packed = Inr (sm_assignments s)"
    and m: "parse_dedup_manifest u data (metadata_compatibility_header (r2_unique_chunk_count h) h) = Inr m"
    and s: "sm_manifest s = m" "lane_raw_sizes (unique_records (dm_chunks m)) (sm_assignments s) = Inr (sm_raw_sizes s)"
      "\<not> list_ex (\<lambda>(raw_size, frame_count). (raw_size = 0) \<noteq> (frame_count = 0)) (zip (sm_raw_sizes s) counts)"
      "sm_frame_counts s = counts" "sm_lane_codecs s = codecs"
    unfolding parse_compact_metadata_def Let_def bindR_eq_Inr
    by (auto simp: bindR_eq_Inr split: if_split_asm)
  have "list_all2 (\<lambda>r n. (r = 0) = (n = 0)) (sm_raw_sizes s) counts"
    by (rule not_ex_list_all2) (use lane_raw_sizes_length[OF s(2)] read_frame_counts_length[OF counts] s(3) in simp_all)
  then show ?thesis
    using read_stored_codecs_valid[OF codecs] unpack_lanes_Inr[OF packed] read_frame_counts_length[OF counts] lane_raw_sizes_length[OF s(2)] parse_dedup_manifest_Inr[OF m] s
    by (simp add: metadata_wf_def lanes_consistent_def)
qed

lemma parse_metadata_wf: "parse_metadata u payload h = Inr s \<Longrightarrow> metadata_wf h s"
  unfolding parse_metadata_def using parse_compact_metadata_wf parse_explicit_metadata_wf by (auto split: if_split_asm)

section \<open>An example\<close>

lemma example_zlib_ends [simp]: "zlib_ends example_zlib b"
  by (simp add: zlib_ends_def example_zlib_def)

lemma example_digest_length [simp]: "length (sha256 example_crypto data) = 32"
  using example_crypto_laws(2) by (simp add: digest_law_def)

lemma example_compact_metadata:
  "\<exists>payload. compact_metadata example_pair_manifest [0] [1, 0, 0] (Some [SOLID_CODEC_RAW, 0, 0]) = Inr payload \<and> length payload < 200"
  by (simp add: compact_metadata_def example_pair_manifest_def lit_def utf8_char_def encode_compact_uint_def encode_compact_sint_def
      encode_varint.simps compact_codec_def valid_codecs_def is_file_entry_def is_directory_entry_def)

definition example_msr2_header :: "nat \<Rightarrow> Msr2Header" where
  "example_msr2_header n =
     \<lparr>r2_kdf_log_n = 14, r2_min_chunk_size = 16384, r2_avg_chunk_size = 65536, r2_max_chunk_size = 262144, r2_padding_size = 256,
      r2_frame_payload_size = 1024, r2_unique_chunk_count = 1, r2_salt = replicate 16 0, r2_nonce_prefix = [0, 0, 0, 0],
      r2_metadata_ciphertext_length = n\<rparr>"

lemma example_pair_valid:
  "valid_dedup_manifest ascii_tables 262144 2 example_pair_manifest"
proof -
  obtain s where scan: "scan_manifest example_crypto ascii_tables example_pair DEFAULT_CHUNKING = Inr (example_pair_manifest, s)"
    using example_pair_scan by blast
  from scan_manifest_Inr[OF scan example_crypto_laws(2) example_pair_portable example_config(1)]
  show ?thesis by (simp add: example_config(2) example_pair_setup(5) numeral_2_eq_2)
qed

lemma example_pair_lanes: "lanes_consistent example_pair_manifest [0] [3, 0, 0] [1, 0, 0]"
  by (simp add: lanes_consistent_def lane_raw_sizes_def unique_records_def example_pair_setup upt_rec)
    (simp add: example_pair_manifest_def numeral_3_eq_3)

lemma example_metadata_parsed:
  "\<exists>payload. parse_metadata ascii_tables payload (example_msr2_header 272)
     = Inr \<lparr>sm_manifest = example_pair_manifest, sm_assignments = [0], sm_raw_sizes = [3, 0, 0], sm_frame_counts = [1, 0, 0],
            sm_lane_codecs = [SOLID_CODEC_RAW, 0, 0]\<rparr>"
proof -
  obtain payload where p: "compact_metadata example_pair_manifest [0] [1, 0, 0] (Some [SOLID_CODEC_RAW, 0, 0]) = Inr payload"
    using example_compact_metadata by blast
  obtain data where ser: "serialize_dedup_manifest example_pair_manifest = Inr data" using example_pair_serialize by blast
  have few: "length (dm_chunks example_pair_manifest) \<le> MAX_CHUNK_RECORDS" by (simp add: example_pair_manifest_def)
  from compact_metadata_parse[OF p ser, of ascii_tables "example_msr2_header 272" "[3, 0, 0]"] few example_pair_valid example_pair_lanes
  show ?thesis by (auto simp: example_msr2_header_def codecs_or_default_def numeral_2_eq_2)
qed

section \<open>Properties\<close>

text \<open>C6: The metadata of MSR2 survives its compact form: a valid manifest with lane assignment, frame counts and lane codecs that the writer packs into variable-length integers, deltas, back references and two-bit lanes and then compresses, the reader takes out of the envelope and parses to exactly the same values. The manifest must serialise and have at most the chunk records of MSC6, the lanes must be consistent with it, and the reader's limits, which the writer does not check, must hold: at most 1000000 frames in each lane and at most 256 MiB of uncompressed metadata.\<close>

lemma compact_metadata_roundtrip:
  assumes "compact_metadata m assignments frame_counts lane_codecs = Inr payload" and "serialize_dedup_manifest m = Inr data"
    and "valid_dedup_manifest u (r2_max_chunk_size h) (r2_unique_chunk_count h + 1) m"
    and "length (dm_chunks m) \<le> MAX_CHUNK_RECORDS" and "r2_max_chunk_size h \<le> MAX_COMPACT_UINT"
    and "lanes_consistent m assignments raw_sizes frame_counts" and "\<forall>n\<in>set frame_counts. n \<le> 1000000"
    and "length (codecs_or_default lane_codecs) = LANE_COUNT"
    and "length payload \<le> MAX_MANIFEST_CIPHERTEXT" and "zlib_ends y payload"
  shows "\<exists>envelope. encode_metadata_envelope y payload = Inr envelope
    \<and> bindR (decode_metadata_envelope y envelope) (\<lambda>(raw, raw_lzma2). parse_metadata u raw h)
      = Inr \<lparr>sm_manifest = m, sm_assignments = assignments, sm_raw_sizes = raw_sizes, sm_frame_counts = frame_counts,
             sm_lane_codecs = codecs_or_default lane_codecs\<rparr>"
proof -
  obtain envelope where env: "encode_metadata_envelope y payload = Inr envelope" using metadata_envelope_total[OF assms(9)] by blast
  with metadata_envelope_decode[OF env assms(10,9)] compact_metadata_parse[OF assms(1-8)] show ?thesis by simp
qed

lemma compact_metadata_roundtrip_witness:
  "\<exists>payload envelope. compact_metadata example_pair_manifest [0] [1, 0, 0] (Some [SOLID_CODEC_RAW, 0, 0]) = Inr payload
    \<and> encode_metadata_envelope example_zlib payload = Inr envelope
    \<and> bindR (decode_metadata_envelope example_zlib envelope) (\<lambda>(raw, raw_lzma2). parse_metadata ascii_tables raw (example_msr2_header 272))
      = Inr \<lparr>sm_manifest = example_pair_manifest, sm_assignments = [0], sm_raw_sizes = [3, 0, 0], sm_frame_counts = [1, 0, 0],
             sm_lane_codecs = [SOLID_CODEC_RAW, 0, 0]\<rparr>"
proof -
  obtain payload where p: "compact_metadata example_pair_manifest [0] [1, 0, 0] (Some [SOLID_CODEC_RAW, 0, 0]) = Inr payload"
    "length payload < 200" using example_compact_metadata by blast
  obtain data where ser: "serialize_dedup_manifest example_pair_manifest = Inr data" using example_pair_serialize by blast
  have few: "length (dm_chunks example_pair_manifest) \<le> MAX_CHUNK_RECORDS" by (simp add: example_pair_manifest_def)
  from compact_metadata_roundtrip[OF p(1) ser, of ascii_tables "example_msr2_header 272" "[3, 0, 0]" example_zlib] p few
    example_pair_valid example_pair_lanes show ?thesis by (simp add: example_msr2_header_def codecs_or_default_def numeral_2_eq_2)
qed

text \<open>C7: Metadata that the reader accepts is well-formed, whatever bytes it came from, in all three formats: one lane below three for each unique chunk, lane sizes that are the sums of their chunks, frames exactly in the lanes that hold bytes, codecs allowed in their lane, a chunk table whose references point backward to canonical records, and files as long as their chunks.\<close>

lemma accepted_metadata_wf: "parse_metadata u payload h = Inr s \<Longrightarrow> metadata_wf h s"
  by (rule parse_metadata_wf)

lemma accepted_metadata_wf_witness:
  "metadata_wf (example_msr2_header 272) \<lparr>sm_manifest = example_pair_manifest, sm_assignments = [0], sm_raw_sizes = [3, 0, 0],
     sm_frame_counts = [1, 0, 0], sm_lane_codecs = [SOLID_CODEC_RAW, 0, 0]\<rparr>"
proof -
  obtain payload where "parse_metadata ascii_tables payload (example_msr2_header 272)
    = Inr \<lparr>sm_manifest = example_pair_manifest, sm_assignments = [0], sm_raw_sizes = [3, 0, 0], sm_frame_counts = [1, 0, 0],
             sm_lane_codecs = [SOLID_CODEC_RAW, 0, 0]\<rparr>"
    using example_metadata_parsed by blast
  then show ?thesis by (rule accepted_metadata_wf)
qed

end
