(* ===== verification/SolidArchive2.thy ===== *)
theory SolidArchive2
  imports CompactMetadata
begin

text \<open>
  MSR2 (\<^verbatim>\<open>solid_archive_v2.py\<close>, encoder, decoder and inspection). The encoder scans the source once,
  spools every unique chunk into its lane, stores each lane compressed or raw, whichever takes
  fewer bytes in frames, seals the metadata under the header and then the frames under both. The
  decoder undoes it lane by lane into a spool of canonical chunks and restores from there. Spool
  files are the byte strings they hold; their directories, elapsed times and thread pools are left
  out. The draws of \<^verbatim>\<open>os.urandom\<close> are numbered: the salt, the nonce prefix, the padding of the
  metadata, then one for each frame.
\<close>

section \<open>Data\<close>

record SolidArchiveV2EncodeStats =
  v2e_format_name :: string
  v2e_original_size :: nat
  v2e_archive_size :: nat
  v2e_unique_chunk_count :: nat
  v2e_frame_count :: nat
  v2e_maximum_frame_payload :: nat
  v2e_chunking_passes :: nat
  v2e_compression_passes :: nat
  v2e_routing_trial_compressions :: nat
  v2e_routing_reuse_probes :: nat

record SolidArchiveV2DecodeStats =
  v2d_format_name :: string
  v2d_original_size :: nat
  v2d_archive_size :: nat
  v2d_unique_chunk_count :: nat
  v2d_hash_verified :: bool

section \<open>Encoding\<close>

text \<open>The lanes on disk, the running sizes and the assignments that the scan leaves behind.\<close>

record lane_spool =
  sp_lanes :: "bytes list"
  sp_raw_sizes :: "nat list"
  sp_assignments :: "nat list"

definition empty_spool :: lane_spool where
  "empty_spool = \<lparr>sp_lanes = replicate LANE_COUNT [], sp_raw_sizes = replicate LANE_COUNT 0, sp_assignments = []\<rparr>"

definition spool_unique_chunk :: "crypto \<Rightarrow> (rat \<Rightarrow> rat) \<Rightarrow> bytes \<Rightarrow> lane_spool \<Rightarrow> lane_spool" where
  "spool_unique_chunk c log2 chunk s =
     (let lane = choose_solid_lane c log2 chunk
      in \<lparr>sp_lanes = (sp_lanes s)[lane := sp_lanes s ! lane @ chunk],
          sp_raw_sizes = (sp_raw_sizes s)[lane := sp_raw_sizes s ! lane + length chunk],
          sp_assignments = sp_assignments s @ [lane]\<rparr>)"

text \<open>\<^verbatim>\<open>preferred_codecs\<close>, and the result of \<^verbatim>\<open>compress_candidate\<close>.\<close>

definition preferred_codec :: "nat \<Rightarrow> nat" where
  "preferred_codec lane = (if lane = HIGH_ENTROPY then SOLID_CODEC_ZSTD else SOLID_CODEC_LZMA2)"

record lane_candidate =
  lc_codec :: nat
  lc_compressed_size :: nat
  lc_payload :: bytes
  lc_frame_count :: nat

definition frames_needed :: "nat \<Rightarrow> nat \<Rightarrow> nat" where
  "frames_needed frame_payload_size n = (n + frame_payload_size - 1) div frame_payload_size"

definition compress_candidate ::
  "('c, 'd) stream_lib \<Rightarrow> nat \<Rightarrow> nat \<Rightarrow> nat \<Rightarrow> bytes \<Rightarrow> nat \<Rightarrow> lane_candidate result" where
  "compress_candidate lib frame_payload_size padding_size lane raw raw_size =
     (if raw_size = 0
      then Inr \<lparr>lc_codec = SOLID_CODEC_LZMA2, lc_compressed_size = 0, lc_payload = [], lc_frame_count = 0\<rparr>
      else bindR (compress_solid_lane lib raw lane True (Some (preferred_codec lane))) (\<lambda>compressed.
        bindR (solid_lane_framed_size (int (length compressed)) frame_payload_size padding_size) (\<lambda>candidate_storage.
        bindR (solid_lane_framed_size (int raw_size) frame_payload_size padding_size) (\<lambda>raw_storage.
          Inr (if candidate_storage \<ge> raw_storage
               then \<lparr>lc_codec = SOLID_CODEC_RAW, lc_compressed_size = raw_size, lc_payload = raw,
                     lc_frame_count = frames_needed frame_payload_size raw_size\<rparr>
               else \<lparr>lc_codec = preferred_codec lane, lc_compressed_size = length compressed, lc_payload = compressed,
                     lc_frame_count = frames_needed frame_payload_size (length compressed)\<rparr>)))))"

text \<open>The frames of the nonempty lanes: the bytes, their number and the largest payload.\<close>

record lanes_written =
  lw_bytes :: bytes
  lw_frame_count :: nat
  lw_maximum_payload :: nat

fun write_lanes ::
  "crypto \<Rightarrow> (nat \<Rightarrow> nat \<Rightarrow> bytes) \<Rightarrow> solid_ctx \<Rightarrow> nat \<Rightarrow> (nat \<times> nat \<times> lane_candidate) list \<Rightarrow> lanes_written result" where
  "write_lanes c rnd ctx index [] = Inr \<lparr>lw_bytes = [], lw_frame_count = 0, lw_maximum_payload = 0\<rparr>"
| "write_lanes c rnd ctx index ((lane, raw_size, candidate) # lanes) =
     (if raw_size = 0 then write_lanes c rnd ctx index lanes
      else bindR (write_precompressed_solid_lane_frames c rnd (ctx\<lparr>lx_lane := lane\<rparr>) (lc_payload candidate)
                    (int (lc_compressed_size candidate)) (int index)) (\<lambda>(out, stats).
        if fw_frame_count stats \<noteq> lc_frame_count candidate
        then Inl (RuntimeError ''MSR2 frame probe was not deterministic'')
        else bindR (write_lanes c rnd ctx (fw_next_index stats) lanes) (\<lambda>w.
          Inr \<lparr>lw_bytes = out @ lw_bytes w, lw_frame_count = fw_frame_count stats + lw_frame_count w,
               lw_maximum_payload = max (fw_max_frame_payload stats) (lw_maximum_payload w)\<rparr>)))"

text \<open>The sealed metadata behind the header, with the context of the frames.\<close>

definition seal_metadata ::
  "crypto \<Rightarrow> zlib \<Rightarrow> (nat \<Rightarrow> nat \<Rightarrow> bytes) \<Rightarrow> bytes \<Rightarrow> Msr2Header \<Rightarrow> bytes \<Rightarrow> (bytes \<times> bytes) result" where
  "seal_metadata c y rnd key h compacted =
     bindR (encode_metadata_envelope y compacted) (\<lambda>metadata.
       if length metadata > MAX_MANIFEST_CIPHERTEXT
       then Inl (ValueError ''MSR2 encrypted metadata exceeds its resource limit'')
       else bindR (pad_payload (rnd 2) metadata (r2_padding_size h)) (\<lambda>padded.
         bindR (pack_msr2_header (h\<lparr>r2_metadata_ciphertext_length := length padded + AEAD_TAG_LENGTH\<rparr>)) (\<lambda>header.
         bindR (frame_nonce (r2_nonce_prefix h) 0) (\<lambda>nonce.
           Inr (header, encrypt c key nonce padded header)))))"

definition lane_ctx :: "crypto \<Rightarrow> bytes \<Rightarrow> Msr2Header \<Rightarrow> bytes \<Rightarrow> bytes \<Rightarrow> solid_ctx" where
  "lane_ctx c key h header metadata_ciphertext =
     \<lparr>lx_key = key, lx_nonce_prefix = r2_nonce_prefix h, lx_associated_data = header @ sha256 c metadata_ciphertext,
      lx_lane = STANDARD, lx_frame_payload_size = r2_frame_payload_size h, lx_padding_size = r2_padding_size h\<rparr>"

text \<open>Everything before the temporary file is created.\<close>

record msr2_job =
  mj_manifest :: DedupManifest
  mj_unique_count :: nat
  mj_head :: bytes
  mj_ctx :: solid_ctx
  mj_lanes :: "(nat \<times> nat \<times> lane_candidate) list"

definition check_msr2_options :: "int \<Rightarrow> int \<Rightarrow> int \<Rightarrow> unit result" where
  "check_msr2_options frame_payload_size padding_size kdf_log_n =
     (if \<not> (1024 \<le> frame_payload_size \<and> frame_payload_size \<le> 16 * 1024 * 1024)
      then Inl (ValueError ''solid frame payload size must be between 1 KiB and 16 MiB'')
      else if \<not> (256 \<le> padding_size \<and> padding_size \<le> frame_payload_size)
      then Inl (ValueError ''solid frame padding size is invalid'')
      else if \<not> (14 \<le> kdf_log_n \<and> kdf_log_n \<le> 18)
      then Inl (ValueError ''scrypt cost is outside supported limits'') else Inr ())"

text \<open>From the scanned manifest and the spooled lanes to what is written in front of the frames.\<close>

definition plan_msr2 ::
  "crypto \<Rightarrow> zlib \<Rightarrow> ('c, 'd) stream_lib \<Rightarrow> (nat \<Rightarrow> nat \<Rightarrow> bytes) \<Rightarrow> password \<Rightarrow> ChunkingConfig \<Rightarrow> nat \<Rightarrow> nat \<Rightarrow> nat
     \<Rightarrow> DedupManifest \<Rightarrow> lane_spool \<Rightarrow> msr2_job result" where
  "plan_msr2 c y lib rnd password config frame_payload_size padding_size kdf_log_n manifest spool =
     (let unique_count = length (canonical_indexes (dm_chunks manifest));
          salt = rnd 0 SALT_LENGTH; nonce_prefix = rnd 1 4
      in if length (sp_assignments spool) \<noteq> unique_count
         then Inl (RuntimeError ''internal MSR2 unique-chunk mismatch'')
         else bindR (derive_key c password salt kdf_log_n 8 1) (\<lambda>key.
           bindR (mapR (\<lambda>lane. compress_candidate lib frame_payload_size padding_size lane
                    (sp_lanes spool ! lane) (sp_raw_sizes spool ! lane)) [0..<LANE_COUNT]) (\<lambda>candidates.
           bindR (compact_metadata manifest (sp_assignments spool) (map lc_frame_count candidates)
                    (Some (map lc_codec candidates))) (\<lambda>compacted.
             let h = \<lparr>r2_kdf_log_n = kdf_log_n, r2_min_chunk_size = cc_min_size config,
                      r2_avg_chunk_size = cc_avg_size config, r2_max_chunk_size = cc_max_size config,
                      r2_padding_size = padding_size, r2_frame_payload_size = frame_payload_size,
                      r2_unique_chunk_count = unique_count, r2_salt = salt, r2_nonce_prefix = nonce_prefix,
                      r2_metadata_ciphertext_length = 0\<rparr>
             in bindR (seal_metadata c y rnd key h compacted) (\<lambda>(header, metadata_ciphertext).
                  Inr \<lparr>mj_manifest = manifest, mj_unique_count = unique_count, mj_head = header @ metadata_ciphertext,
                       mj_ctx = lane_ctx c key h header metadata_ciphertext,
                       mj_lanes = zip [0..<LANE_COUNT] (zip (sp_raw_sizes spool) candidates)\<rparr>)))))"

text \<open>The checks of the request, and what is done once the directory of the destination exists.\<close>

definition check_msr2_request ::
  "filesystem \<Rightarrow> pystr \<Rightarrow> bool \<Rightarrow> source_view result \<Rightarrow> pystr \<Rightarrow> int \<Rightarrow> int \<Rightarrow> int \<Rightarrow> source_view result" where
  "check_msr2_request fs source is_dir session destination frame_payload_size padding_size kdf_log_n =
     bindR (check_output_path fs source is_dir destination) (\<lambda>_.
     bindR (check_msr2_options frame_payload_size padding_size kdf_log_n) (\<lambda>_.
     bindR session (\<lambda>view.
     bindR (check_session_output fs source is_dir destination view) (\<lambda>_. Inr view))))"

definition prepare_msr2 ::
  "crypto \<Rightarrow> clib \<Rightarrow> ('c, 'd) stream_lib \<Rightarrow> unicode \<Rightarrow> os_choice \<Rightarrow> password \<Rightarrow> ChunkingConfig \<Rightarrow> int \<Rightarrow> int \<Rightarrow> int
     \<Rightarrow> source_view \<Rightarrow> msr2_job result" where
  "prepare_msr2 c l lib u os password config frame_payload_size padding_size kdf_log_n view =
     bindR (scan_manifest c u view config) (\<lambda>(manifest, scan).
       plan_msr2 c (cl_zlib l) lib (oc_random os) password config (nat frame_payload_size) (nat padding_size)
         (nat kdf_log_n) manifest (fold (spool_unique_chunk c (cl_log2 l)) (cs_unique scan) empty_spool))"

definition msr2_stats :: "msr2_job \<Rightarrow> lanes_written \<Rightarrow> SolidArchiveV2EncodeStats" where
  "msr2_stats job w =
     \<lparr>v2e_format_name = ''MSR2'', v2e_original_size = total_size (dm_entries (mj_manifest job)),
      v2e_archive_size = length (mj_head job @ lw_bytes w), v2e_unique_chunk_count = mj_unique_count job,
      v2e_frame_count = lw_frame_count w, v2e_maximum_frame_payload = lw_maximum_payload w,
      v2e_chunking_passes = 1, v2e_compression_passes = 1, v2e_routing_trial_compressions = 0,
      v2e_routing_reuse_probes = 0\<rparr>"

text \<open>
  The frame with index \<open>i\<close> takes the draw \<open>i + 2\<close>. The directories that lead to the destination are
  made before the scan, whose lanes are spooled to a temporary folder in them that is removed
  whatever happens; a failure later on removes the temporary file as well.
\<close>

definition encode_solid_archive_v2 ::
  "crypto \<Rightarrow> clib \<Rightarrow> ('c, 'd) stream_lib \<Rightarrow> unicode \<Rightarrow> os_choice \<Rightarrow> filesystem \<Rightarrow> pystr \<Rightarrow> bool \<Rightarrow> source_view result
     \<Rightarrow> pystr \<Rightarrow> password \<Rightarrow> ChunkingConfig \<Rightarrow> int \<Rightarrow> int \<Rightarrow> int \<Rightarrow> SolidArchiveV2EncodeStats result \<times> filesystem" where
  "encode_solid_archive_v2 c l lib u os fs source is_dir session destination password config frame_payload_size
     padding_size kdf_log_n =
     (case check_msr2_request fs source is_dir session destination frame_payload_size padding_size kdf_log_n of
        Inl e \<Rightarrow> (Inl e, fs)
      | Inr view \<Rightarrow>
     (case make_parents fs destination of
        Inl e \<Rightarrow> (Inl e, fs)
      | Inr fs0 \<Rightarrow>
     (case prepare_msr2 c l lib u os password config frame_payload_size padding_size kdf_log_n view of
        Inl e \<Rightarrow> (Inl e, fs0)
      | Inr job \<Rightarrow>
     (case write_lanes c (\<lambda>i. oc_random os (i + 2)) (mj_ctx job) 1 (mj_lanes job) of
        Inl e \<Rightarrow> publish_file fs0 os destination (mj_head job, Inl e) (\<lambda>_. Inr ())
      | Inr w \<Rightarrow> publish_file fs0 os destination (mj_head job @ lw_bytes w, Inr (msr2_stats job w)) (\<lambda>_. sv_verify view)))))"

section \<open>Decoding\<close>

text \<open>The lanes that have frames, one after the other; the result are the decoded lanes and what is left.\<close>

fun read_lanes ::
  "crypto \<Rightarrow> ('c, 'd) stream_lib \<Rightarrow> solid_ctx \<Rightarrow> bool \<Rightarrow> nat \<Rightarrow> (nat \<times> nat \<times> nat \<times> nat) list \<Rightarrow> bytes \<Rightarrow> (bytes list \<times> bytes) result" where
  "read_lanes c lib ctx raw_lzma2 index [] stream = Inr ([], stream)"
| "read_lanes c lib ctx raw_lzma2 index ((lane, frame_count, raw_size, codec_id) # lanes) stream =
     (if frame_count = 0
      then bindR (read_lanes c lib ctx raw_lzma2 index lanes stream) (\<lambda>(decoded, stream). Inr ([] # decoded, stream))
      else let (data, outcome) = read_solid_lane_frames c lib (ctx\<lparr>lx_lane := lane\<rparr>) stream index frame_count raw_size raw_lzma2
                                   (codec_id = SOLID_CODEC_RAW) (Some codec_id)
           in bindR outcome (\<lambda>(stats, stream).
              bindR (read_lanes c lib ctx raw_lzma2 (fr_next_index stats) lanes stream) (\<lambda>(decoded, stream).
                Inr (data # decoded, stream))))"

text \<open>\<^verbatim>\<open>canonical\<close> is the spool of chunks, \<^verbatim>\<open>locations\<close> where each of them starts and how long it is.\<close>

record chunk_spool =
  ck_canonical :: bytes
  ck_locations :: "nat \<rightharpoonup> nat \<times> nat"

text \<open>One chunk for each canonical record from its lane; \<^verbatim>\<open>zip(..., strict=True)\<close>.\<close>

fun spool_chunks ::
  "crypto \<Rightarrow> (nat \<times> ChunkRecord) list \<Rightarrow> nat list \<Rightarrow> bytes list \<Rightarrow> chunk_spool \<Rightarrow> (chunk_spool \<times> bytes list) result" where
  "spool_chunks c [] [] lanes s = Inr (s, lanes)"
| "spool_chunks c ((source_index, record) # records) (lane # assignments) lanes s =
     bindR (read_exact ''MSR2 is truncated at decoded solid lane'' (lanes ! lane) (cr_size record)) (\<lambda>(chunk, stream).
       if sha256 c chunk \<noteq> cr_digest record then Inl (IntegrityError ''MSR2 unique chunk digest failed'')
       else spool_chunks c records assignments (lanes[lane := stream])
              \<lparr>ck_canonical = ck_canonical s @ chunk,
               ck_locations = (ck_locations s)(source_index \<mapsto> (length (ck_canonical s), length chunk))\<rparr>)"
| "spool_chunks c _ _ lanes s = Inl (ValueError ''zip() arguments have different lengths'')"

text \<open>\<^verbatim>\<open>canonical.seek(offset)\<close> and a read of exactly the chunk.\<close>

definition located_chunk :: "chunk_spool \<Rightarrow> ChunkRecord \<Rightarrow> bytes result" where
  "located_chunk s r =
     (case ck_locations s (cr_source r) of
        None \<Rightarrow> Inl (KeyError ''chunk'')
      | Some (offset, n) \<Rightarrow>
          bindR (read_exact ''MSR2 is truncated at canonical chunk'' (drop offset (ck_canonical s)) n) (\<lambda>(chunk, _). Inr chunk))"

text \<open>What the decoder has read when it starts to restore.\<close>

record msr2_archive =
  ma_manifest :: DedupManifest
  ma_spool :: chunk_spool
  ma_header :: Msr2Header

definition open_metadata ::
  "crypto \<Rightarrow> zlib \<Rightarrow> unicode \<Rightarrow> Msr2Header \<Rightarrow> bytes \<Rightarrow> bytes \<Rightarrow> bytes \<Rightarrow> (solid_metadata \<times> bool) result" where
  "open_metadata c y u h header key metadata_ciphertext =
     bindR (frame_nonce (r2_nonce_prefix h) 0) (\<lambda>nonce.
     bindR (decrypt c key nonce metadata_ciphertext header) (\<lambda>padded.
     bindR (unpad_payload padded) (\<lambda>metadata.
     bindR (decode_metadata_envelope y metadata) (\<lambda>(raw_metadata, raw_lzma2).
     bindR (parse_metadata u raw_metadata h) (\<lambda>meta. Inr (meta, raw_lzma2))))))"

definition read_msr2_chunks ::
  "crypto \<Rightarrow> ('c, 'd) stream_lib \<Rightarrow> solid_ctx \<Rightarrow> solid_metadata \<Rightarrow> bool \<Rightarrow> bytes \<Rightarrow> chunk_spool result" where
  "read_msr2_chunks c lib ctx meta raw_lzma2 stream =
     bindR (read_lanes c lib ctx raw_lzma2 1
              (zip [0..<LANE_COUNT] (zip (sm_frame_counts meta) (zip (sm_raw_sizes meta) (sm_lane_codecs meta)))) stream)
       (\<lambda>(lanes, stream).
         if stream \<noteq> [] then Inl (ArchiveFormatError ''MSR2 archive has trailing data'')
         else let chunks = dm_chunks (sm_manifest meta)
              in bindR (spool_chunks c (map (\<lambda>i. (i, chunks ! i)) (canonical_indexes chunks)) (sm_assignments meta) lanes
                          \<lparr>ck_canonical = [], ck_locations = (\<lambda>_. None)\<rparr>) (\<lambda>(spool, lanes).
                   if list_ex (\<lambda>lane. lane \<noteq> []) lanes
                   then Inl (ArchiveFormatError ''MSR2 lane contains unreferenced bytes'') else Inr spool))"

definition read_msr2 ::
  "crypto \<Rightarrow> zlib \<Rightarrow> ('c, 'd) stream_lib \<Rightarrow> unicode \<Rightarrow> bytes \<Rightarrow> password \<Rightarrow> int \<Rightarrow> int \<Rightarrow> msr2_archive result" where
  "read_msr2 c y lib u stream password max_output_size max_frame_count =
     bindR (read_exact ''MSR2 is truncated at header'' stream (struct_size MSR2_HEADER)) (\<lambda>(header, stream).
     bindR (parse_msr2_header header) (\<lambda>h.
     bindR (derive_key c password (r2_salt h) (r2_kdf_log_n h) 8 1) (\<lambda>key.
     bindR (read_exact ''MSR2 is truncated at metadata ciphertext'' stream (r2_metadata_ciphertext_length h)) (\<lambda>(metadata_ciphertext, stream).
     bindR (open_metadata c y u h header key metadata_ciphertext) (\<lambda>(meta, raw_lzma2).
       if int (total_size (dm_entries (sm_manifest meta))) > max_output_size
       then Inl (ArchiveFormatError ''MSR2 restored size exceeds the decode limit'')
       else if int (sum_list (sm_frame_counts meta)) > max_frame_count
       then Inl (ArchiveFormatError ''MSR2 frame count exceeds the decode limit'')
       else bindR (read_msr2_chunks c lib (lane_ctx c key h header metadata_ciphertext) meta raw_lzma2 stream) (\<lambda>spool.
         Inr \<lparr>ma_manifest = sm_manifest meta, ma_spool = spool, ma_header = h\<rparr>))))))"

definition msr2_decode_stats :: "msr2_archive \<Rightarrow> nat \<Rightarrow> SolidArchiveV2DecodeStats" where
  "msr2_decode_stats a n =
     \<lparr>v2d_format_name = ''MSR2'', v2d_original_size = total_size (dm_entries (ma_manifest a)), v2d_archive_size = n,
      v2d_unique_chunk_count = r2_unique_chunk_count (ma_header a), v2d_hash_verified = True\<rparr>"

text \<open>\<^verbatim>\<open>_restore\<close>.\<close>

definition restore_msr2 ::
  "crypto \<Rightarrow> os_choice \<Rightarrow> filesystem \<Rightarrow> msr2_archive \<Rightarrow> pystr \<Rightarrow> regular_file \<Rightarrow> SolidArchiveV2DecodeStats result \<times> filesystem" where
  "restore_msr2 c os fs a destination archive =
     (let manifest = ma_manifest a; kind = dm_kind manifest
      in publish_output fs os destination kind
           (\<lambda>t. bindR (restore_chunk_entries c (located_chunk (ma_spool a)) (IntegrityError ''MSR2 file digest failed'') kind
                         (dm_chunks manifest) (dm_entries manifest) (Some t))
             (\<lambda>out. bindR (finish_output kind (dm_entries manifest) out) (\<lambda>out.
               Inr (case out of None \<Rightarrow> t | Some t \<Rightarrow> t, msr2_decode_stats a (length (fl_bytes archive))))))
           (\<lambda>fs. if path_matches_file_identity (fs_stat fs destination) (fl_id archive)
             then Inl (ValueError ''archive and output paths must be different'') else Inr ()))"

definition decode_solid_archive_v2 ::
  "crypto \<Rightarrow> zlib \<Rightarrow> ('c, 'd) stream_lib \<Rightarrow> unicode \<Rightarrow> os_choice \<Rightarrow> filesystem \<Rightarrow> pystr \<Rightarrow> pystr \<Rightarrow> password \<Rightarrow> int \<Rightarrow> int
     \<Rightarrow> SolidArchiveV2DecodeStats result \<times> filesystem" where
  "decode_solid_archive_v2 c y lib u os fs archive_path destination password max_output_size max_frame_count =
     (if max_output_size < 0 \<or> max_frame_count \<le> 0 then (Inl (ValueError ''MSR2 decode limits must be positive''), fs)
      else if fs_resolve fs archive_path = fs_resolve fs destination
      then (Inl (ValueError ''archive and output paths must be different''), fs)
      else case fs_files fs archive_path of
        None \<Rightarrow> (Inl (FileNotFoundError ''No such file or directory''), fs)
      | Some archive \<Rightarrow>
          if path_matches_file_identity (fs_stat fs destination) (fl_id archive)
          then (Inl (ValueError ''archive and output paths must be different''), fs)
          else case read_msr2 c y lib u (fl_bytes archive) password max_output_size max_frame_count of
            Inl e \<Rightarrow> (Inl e, fs)
          | Inr a \<Rightarrow> restore_msr2 c os fs a destination archive)"

text \<open>
  Inspection restores into a temporary directory and removes it again; \<open>scratch\<close> is the path in it,
  and the directory is among those that lead to \<open>scratch\<close>.
\<close>

definition inspect_solid_archive_v2 ::
  "crypto \<Rightarrow> zlib \<Rightarrow> ('c, 'd) stream_lib \<Rightarrow> unicode \<Rightarrow> os_choice \<Rightarrow> pystr \<Rightarrow> filesystem \<Rightarrow> pystr \<Rightarrow> password \<Rightarrow> int \<Rightarrow> int
     \<Rightarrow> SolidArchiveV2DecodeStats result \<times> filesystem" where
  "inspect_solid_archive_v2 c y lib u os scratch fs archive_path password max_output_size max_frame_count =
     (let (outcome, fs') = decode_solid_archive_v2 c y lib u os fs archive_path scratch password max_output_size max_frame_count
      in (outcome, fs'\<lparr>fs_files := (fs_files fs')(scratch := None), fs_trees := (fs_trees fs')(scratch := None),
                       fs_directories := fs_directories fs\<rparr>))"

section \<open>The lanes of a spool\<close>

text \<open>The bytes of a lane: its chunks in the order of the assignments.\<close>

abbreviation assigned_bytes where "assigned_bytes assignments xs lane \<equiv> lane_bytes lane (zip assignments xs)"

lemma assigned_bytes_snoc:
  "length as = length xs \<Longrightarrow> assigned_bytes (as @ [a]) (xs @ [x]) lane = assigned_bytes as xs lane @ (if a = lane then x else [])"
  by (induction as xs rule: list_induct2) auto

lemma assigned_bytes_length:
  "length as = length xs \<Longrightarrow> length (assigned_bytes as xs lane) = calculated_raw_size (zip as (map length xs)) lane"
  by (induction as xs rule: list_induct2) auto

definition spool_holds :: "bytes list \<Rightarrow> lane_spool \<Rightarrow> bool" where
  "spool_holds xs s \<longleftrightarrow> length (sp_assignments s) = length xs \<and> (\<forall>a\<in>set (sp_assignments s). a < LANE_COUNT)
     \<and> sp_lanes s = map (assigned_bytes (sp_assignments s) xs) [0..<LANE_COUNT]
     \<and> sp_raw_sizes s = map length (sp_lanes s)"

lemma spool_unique_chunk_holds:
  assumes "spool_holds xs s"
  shows "spool_holds (xs @ [x]) (spool_unique_chunk c log2 x s)"
proof -
  let ?l = "choose_solid_lane c log2 x" and ?as = "sp_assignments s"
  have l: "?l < LANE_COUNT" by (rule choose_lane_less)
  have s: "length ?as = length xs" "sp_lanes s = map (assigned_bytes ?as xs) [0..<LANE_COUNT]" "sp_raw_sizes s = map length (sp_lanes s)"
    "\<forall>a\<in>set ?as. a < LANE_COUNT"
    using assms by (simp_all add: spool_holds_def)
  have lanes: "(sp_lanes s)[?l := sp_lanes s ! ?l @ x] = map (assigned_bytes (?as @ [?l]) (xs @ [x])) [0..<LANE_COUNT]"
    using l by (intro nth_equalityI) (auto simp: s(2) nth_list_update assigned_bytes_snoc[OF s(1)] simp del: upt_Suc)
  moreover have "(sp_raw_sizes s)[?l := sp_raw_sizes s ! ?l + length x] = map length ((sp_lanes s)[?l := sp_lanes s ! ?l @ x])"
    using l s(2) by (simp add: s(3) map_update)
  ultimately show ?thesis using s(1,4) l by (simp add: spool_holds_def spool_unique_chunk_def Let_def)
qed

lemma spool_chunks_hold: "spool_holds before s \<Longrightarrow> spool_holds (before @ xs) (fold (spool_unique_chunk c log2) xs s)"
proof (induction xs arbitrary: before s)
  case (Cons x xs)
  from Cons.IH[OF spool_unique_chunk_holds[OF Cons.prems, of x c log2]] show ?case by simp
qed simp

lemma empty_spool_holds: "spool_holds [] empty_spool"
  by (simp add: spool_holds_def empty_spool_def list_eq_iff_nth_eq)

text \<open>The scan's lanes, their sizes and the lane of every chunk.\<close>

lemma scan_spool:
  "spool_holds xs (fold (spool_unique_chunk c log2) xs empty_spool)"
  using spool_chunks_hold[OF empty_spool_holds, of xs c log2] by simp

section \<open>Chunks come back from their lanes\<close>

text \<open>The chunks that a spool of canonical chunks holds, by index.\<close>

definition spooled :: "chunk_spool \<Rightarrow> (nat \<times> bytes) list \<Rightarrow> bool" where
  "spooled s ixs \<longleftrightarrow> (\<forall>(i, x)\<in>set ixs. \<exists>offset. ck_locations s i = Some (offset, length x)
     \<and> offset + length x \<le> length (ck_canonical s) \<and> take (length x) (drop offset (ck_canonical s)) = x)"

lemma spooled_snoc:
  assumes "spooled s ixs" and "i \<notin> fst ` set ixs"
  shows "spooled \<lparr>ck_canonical = ck_canonical s @ x, ck_locations = (ck_locations s)(i \<mapsto> (length (ck_canonical s), length x))\<rparr>
    (ixs @ [(i, x)])"
  unfolding spooled_def
proof (rule ballI, clarify)
  fix j y assume j: "(j, y) \<in> set (ixs @ [(i, x)])"
  show "\<exists>offset. ck_locations \<lparr>ck_canonical = ck_canonical s @ x, ck_locations = (ck_locations s)(i \<mapsto> (length (ck_canonical s), length x))\<rparr> j
      = Some (offset, length y) \<and> offset + length y \<le> length (ck_canonical \<lparr>ck_canonical = ck_canonical s @ x,
        ck_locations = (ck_locations s)(i \<mapsto> (length (ck_canonical s), length x))\<rparr>)
      \<and> take (length y) (drop offset (ck_canonical \<lparr>ck_canonical = ck_canonical s @ x,
        ck_locations = (ck_locations s)(i \<mapsto> (length (ck_canonical s), length x))\<rparr>)) = y"
  proof (cases "(j, y) \<in> set ixs")
    case True
    then have "j \<noteq> i" using assms(2) by force
    moreover obtain offset where "ck_locations s j = Some (offset, length y)" "offset + length y \<le> length (ck_canonical s)"
      "take (length y) (drop offset (ck_canonical s)) = y" using assms(1) True by (auto simp: spooled_def)
    ultimately show ?thesis by (intro exI[of _ offset]) simp
  next
    case False
    with j have "j = i" "y = x" by auto
    then show ?thesis by simp
  qed
qed

lemma spool_chunks_run:
  assumes "length as = length xs" and "length irs = length xs" and "\<forall>a\<in>set as. a < LANE_COUNT" and "length lanes = LANE_COUNT"
    and "\<forall>l<LANE_COUNT. lanes ! l = assigned_bytes as xs l" and "list_all2 (\<lambda>(i, r) x. cr_size r = length x \<and> cr_digest r = sha256 c x) irs xs"
    and "spooled s ixs" and "distinct (map fst irs)" and "fst ` set ixs \<inter> fst ` set irs = {}"
  shows "\<exists>s'. spool_chunks c irs as lanes s = Inr (s', replicate LANE_COUNT []) \<and> spooled s' (ixs @ zip (map fst irs) xs)"
  using assms
proof (induction as xs arbitrary: irs lanes s ixs rule: list_induct2)
  case Nil
  then have "lanes = replicate LANE_COUNT []" by (intro nth_equalityI) auto
  with Nil show ?case by auto
next
  case (Cons a as x xs)
  from Cons.prems(1,5) obtain i r irs' where irs: "irs = (i, r) # irs'" "cr_size r = length x" "cr_digest r = sha256 c x"
    by (cases irs) auto
  let ?s = "\<lparr>ck_canonical = ck_canonical s @ x, ck_locations = (ck_locations s)(i \<mapsto> (length (ck_canonical s), length x))\<rparr>"
  let ?lanes = "lanes[a := assigned_bytes as xs a]"
  have a: "a < LANE_COUNT" using Cons.prems(2) by simp
  have at: "lanes ! a = x @ assigned_bytes as xs a" using Cons.prems(4) a by simp
  have others: "\<forall>l<LANE_COUNT. ?lanes ! l = assigned_bytes as xs l"
  proof (intro allI impI)
    fix l :: nat assume l: "l < LANE_COUNT"
    show "?lanes ! l = assigned_bytes as xs l"
    proof (cases "a = l")
      case True
      with l Cons.prems(3) show ?thesis by simp
    next
      case False
      with l Cons.prems(3,4) show ?thesis by simp
    qed
  qed
  have "i \<notin> fst ` set ixs" using Cons.prems(8) irs by auto
  from spooled_snoc[OF Cons.prems(6) this] have sp: "spooled ?s (ixs @ [(i, x)])" .
  have "\<exists>s'. spool_chunks c irs' as ?lanes ?s = Inr (s', replicate LANE_COUNT []) \<and> spooled s' ((ixs @ [(i, x)]) @ zip (map fst irs') xs)"
    by (rule Cons.IH[OF _ _ _ others _ sp]) (use Cons.prems irs in auto)
  then show ?case using at irs by simp
qed

lemma spooled_located:
  "spooled s ixs \<Longrightarrow> (cr_source r, x) \<in> set ixs \<Longrightarrow> located_chunk s r = Inr x"
  by (force simp: spooled_def located_chunk_def read_exact_def stream_read_def)

section \<open>Lanes come back from their frames\<close>

lemma candidate_read:
  assumes cand: "compress_candidate lib fps ps (lx_lane ctx) raw (length raw) = Inr k" and ne: "raw \<noteq> []"
    and w: "write_precompressed_solid_lane_frames c rnd ctx (lc_payload k) (int (lc_compressed_size k)) (int index) = Inr (out, stats)"
    and laws: "aead_law c" "\<forall>k. random_law (rnd k)" "stream_law lib"
  shows "\<exists>rs. read_solid_lane_frames c lib ctx (out @ rest) index (fw_frame_count stats) (length raw) True
      (lc_codec k = SOLID_CODEC_RAW) (Some (lc_codec k)) = (raw, Inr (rs, rest)) \<and> fr_next_index rs = fw_next_index stats"
proof -
  from cand ne obtain compressed where comp: "compress_solid_lane lib raw (lx_lane ctx) True (Some (preferred_codec (lx_lane ctx))) = Inr compressed"
    and k: "k = \<lparr>lc_codec = SOLID_CODEC_RAW, lc_compressed_size = length raw, lc_payload = raw, lc_frame_count = frames_needed fps (length raw)\<rparr>
      | k = \<lparr>lc_codec = preferred_codec (lx_lane ctx), lc_compressed_size = length compressed, lc_payload = compressed,
             lc_frame_count = frames_needed fps (length compressed)\<rparr>"
    by (auto simp: compress_candidate_def bindR_eq_Inr split: if_split_asm)
  from k show ?thesis
  proof
    assume k: "k = \<lparr>lc_codec = SOLID_CODEC_RAW, lc_compressed_size = length raw, lc_payload = raw,
      lc_frame_count = frames_needed fps (length raw)\<rparr>"
    with w write_raw_read[OF _ laws(1,2), of ctx raw index out stats "Some SOLID_CODEC_RAW" lib rest True] show ?thesis by auto
  next
    assume k: "k = \<lparr>lc_codec = preferred_codec (lx_lane ctx), lc_compressed_size = length compressed, lc_payload = compressed,
      lc_frame_count = frames_needed fps (length compressed)\<rparr>"
    have "preferred_codec (lx_lane ctx) \<noteq> SOLID_CODEC_RAW" by (simp add: preferred_codec_def)
    with w k write_precompressed_read[OF comp _ laws, of index out stats rest] show ?thesis by auto
  qed
qed

text \<open>What the plan of a lane becomes in the metadata.\<close>

abbreviation lane_row where "lane_row \<equiv> (\<lambda>(lane, n, k). (lane, lc_frame_count k, n, lc_codec k))"

lemma write_lanes_read:
  assumes "list_all2 (\<lambda>(lane, n, k) d. n = length d \<and> compress_candidate lib fps ps lane d n = Inr k) L ds"
    and "write_lanes c rnd ctx index L = Inr w" and laws: "aead_law c" "\<forall>k. random_law (rnd k)" "stream_law lib"
  shows "read_lanes c lib ctx True index (map lane_row L) (lw_bytes w @ rest) = Inr (ds, rest)
    \<and> sum_list (map (\<lambda>(lane, n, k). lc_frame_count k) L) = lw_frame_count w
    \<and> (\<forall>(lane, n, k)\<in>set L. (n = 0) = (lc_frame_count k = 0))"
  using assms(1,2)
proof (induction arbitrary: index w rule: list_all2_induct)
  case (Cons row L d ds)
  obtain lane n k where row: "row = (lane, n, k)" by (cases row)
  have n: "n = length d" and cand: "compress_candidate lib fps ps lane d n = Inr k" using Cons.hyps(1) unfolding row by auto
  show ?case
  proof (cases "n = 0")
    case True
    then have "lc_frame_count k = 0" using cand by (auto simp: compress_candidate_def)
    moreover have "write_lanes c rnd ctx index L = Inr w" using Cons.prems True by (simp add: row)
    ultimately show ?thesis using Cons.IH[of index w] True n by (simp add: row)
  next
    case False
    let ?ctx = "ctx\<lparr>lx_lane := lane\<rparr>"
    from Cons.prems False obtain out stats w' where
      out: "write_precompressed_solid_lane_frames c rnd ?ctx (lc_payload k) (int (lc_compressed_size k)) (int index) = Inr (out, stats)"
      and count: "fw_frame_count stats = lc_frame_count k" and w': "write_lanes c rnd ctx (fw_next_index stats) L = Inr w'"
      and w: "lw_bytes w = out @ lw_bytes w'" "lw_frame_count w = fw_frame_count stats + lw_frame_count w'"
      by (auto simp: row bindR_eq_Inr split: if_split_asm)
    have "compress_candidate lib fps ps (lx_lane ?ctx) d (length d) = Inr k" "d \<noteq> []" using cand n False by auto
    from candidate_read[OF this out laws, of "lw_bytes w' @ rest"] obtain rs where
      rd: "read_solid_lane_frames c lib ?ctx (out @ lw_bytes w' @ rest) index (fw_frame_count stats) (length d) True
        (lc_codec k = SOLID_CODEC_RAW) (Some (lc_codec k)) = (d, Inr (rs, lw_bytes w' @ rest))"
      and next': "fr_next_index rs = fw_next_index stats" by blast
    have "lc_frame_count k \<noteq> 0"
    proof
      assume "lc_frame_count k = 0"
      then have "fw_frame_count stats = 0" using count by simp
      with rd show False by (auto simp: read_solid_lane_frames_def bindR_eq_Inr split: sum.splits)
    qed
    with Cons.IH[OF w'] rd next' count w n False show ?thesis by (simp add: row)
  qed
qed simp

lemma candidates_length: "mapR f xs = Inr ks \<Longrightarrow> length ks = length xs"
  by (rule mapR_length)

lemma candidate_codec:
  "lane < LANE_COUNT \<Longrightarrow> compress_candidate lib fps ps lane raw n = Inr k \<Longrightarrow> lc_codec k \<in> valid_codecs lane"
  by (auto simp: compress_candidate_def bindR_eq_Inr valid_codecs_def preferred_codec_def split: if_split_asm)

section \<open>The compact form is not longer than the manifest\<close>

lemma encode_varint_length: "v < 128 ^ n \<Longrightarrow> 0 < n \<Longrightarrow> length (encode_varint v) \<le> n"
proof (induction v arbitrary: n rule: encode_varint.induct)
  case (1 v)
  show ?case
  proof (cases "v \<ge> 128")
    case True
    then obtain m where n: "n = Suc m" "0 < m" using "1.prems" by (cases n; cases "n - 1") auto
    have "v div 128 < 128 ^ m" using "1.prems"(1) n by (simp add: less_mult_imp_div_less mult.commute)
    from "1.IH"[OF True this n(2)] True n show ?thesis by (subst encode_varint.simps) simp
  next
    case False
    with "1.prems"(2) show ?thesis by (subst encode_varint.simps) simp
  qed
qed

lemma compact_uint_length: "encode_compact_uint v = Inr b \<Longrightarrow> v < 128 ^ n \<Longrightarrow> 0 < n \<Longrightarrow> length b \<le> n"
  using encode_varint_length by (auto simp: encode_compact_uint_def split: if_split_asm)

lemma compact_uint_length_any: "encode_compact_uint v = Inr b \<Longrightarrow> length b \<le> 10"
proof -
  assume b: "encode_compact_uint v = Inr b"
  then have "v \<le> MAX_COMPACT_UINT" by (simp add: encode_compact_uint_def split: if_split_asm)
  then have "v < 128 ^ 10" by simp
  with compact_uint_length[OF b, of 10] show ?thesis by simp
qed

lemma compact_sint_length: "encode_compact_sint v = Inr b \<Longrightarrow> length b \<le> 10"
  by (auto simp: encode_compact_sint_def dest: compact_uint_length_any split: if_split_asm)

lemma compact_entries_length:
  "compact_entries previous es = Inr b \<Longrightarrow> pack_entries es = Inr body \<Longrightarrow> \<forall>e\<in>set es. length (digest e) = 32 \<Longrightarrow> length b \<le> length body"
proof (induction es arbitrary: previous b body)
  case (Cons e es)
  from Cons.prems(1) obtain path descriptor mode mtime entry out where path: "utf8_encode (relative_path e) = Inr path"
    and descriptor: "encode_compact_uint (2 * length path + (if is_directory_entry e then 1 else 0)) = Inr descriptor"
    and mode: "encode_compact_uint (entry_mode e) = Inr mode" and mtime: "encode_compact_sint (mtime_ns e - previous) = Inr mtime"
    and entry: "(if is_file_entry e then bindR (encode_compact_uint (index_count e)) (\<lambda>count. Inr (count @ digest e)) else Inr []) = Inr entry"
    and out: "compact_entries (mtime_ns e) es = Inr out" and b: "b = descriptor @ path @ mode @ mtime @ entry @ out"
    by (auto simp: bindR_eq_Inr split: if_split_asm)
  from Cons.prems(2) path obtain fixed rest where fixed: "struct_pack ENTRY_FIXED (entry_values e path) = Inr fixed"
    and rest: "pack_entries es = Inr rest" and body: "body = fixed @ path @ rest" by (auto simp: bindR_eq_Inr)
  have "length path \<le> 65535" using fixed by (auto simp: struct_pack_def entry_values_def split: if_split_asm)
  then have "length descriptor \<le> 3" by (intro compact_uint_length[OF descriptor]) auto
  moreover have "length entry \<le> 42" using entry Cons.prems(3)
    by (auto simp: bindR_eq_Inr dest: compact_uint_length_any split: if_split_asm)
  moreover have "length fixed = 67" using struct_pack_length[OF fixed] by (simp add: struct_size_def)
  moreover have "length out \<le> length rest" by (rule Cons.IH[OF out rest]) (use Cons.prems(3) in simp)
  ultimately show ?case using compact_uint_length_any[OF mode] compact_sint_length[OF mtime] by (simp add: b body)
qed simp

lemma compact_chunks_length:
  "compact_chunks i rs = Inr b \<Longrightarrow> \<forall>r\<in>set rs. length (cr_digest r) = 32 \<Longrightarrow> length b \<le> 43 * length rs"
proof (induction rs arbitrary: i b)
  case (Cons r rs)
  from Cons.prems(1) obtain chunk out where
    chunk: "(if cr_source r = i then bindR (encode_compact_uint (cr_size r)) (\<lambda>n. Inr (0 # n @ cr_digest r))
            else bindR (encode_compact_uint (cr_source r)) (\<lambda>source. Inr (1 # source))) = Inr chunk"
    and out: "compact_chunks (Suc i) rs = Inr out" and b: "b = chunk @ out" by (auto simp: bindR_eq_Inr)
  have "length chunk \<le> 43" using chunk Cons.prems(2)
    by (auto simp: bindR_eq_Inr dest: compact_uint_length_any split: if_split_asm)
  moreover have "length out \<le> 43 * length rs" by (rule Cons.IH[OF out]) (use Cons.prems(2) in simp)
  ultimately show ?case by (simp add: b)
qed simp

lemma concat_length_le: "mapR f xs = Inr bs \<Longrightarrow> (\<And>x b. f x = Inr b \<Longrightarrow> length b \<le> n) \<Longrightarrow> length (concat bs) \<le> n * length xs"
proof (induction xs arbitrary: bs)
  case (Cons x xs)
  from Cons.prems(1) obtain b cs where b: "f x = Inr b" and cs: "mapR f xs = Inr cs" and bs: "bs = b # cs"
    by (auto simp: bindR_eq_Inr)
  have "length b \<le> n" by (rule Cons.prems(2)[OF b])
  moreover have "length (concat cs) \<le> n * length xs" by (rule Cons.IH[OF cs Cons.prems(2)])
  ultimately show ?case by (simp add: bs)
qed simp

lemma compact_metadata_length:
  assumes meta: "compact_metadata m assignments counts (Some codecs) = Inr payload" and ser: "serialize_dedup_manifest m = Inr mp"
    and digests: "\<forall>e\<in>set (dm_entries m). length (digest e) = 32" "\<forall>r\<in>set (dm_chunks m). length (cr_digest r) = 32"
    and lens: "length assignments \<le> length (dm_chunks m)" "length counts = LANE_COUNT" "length codecs = LANE_COUNT"
  shows "length payload \<le> length mp + 100"
proof -
  from meta obtain root d ec cc counts_b codecs_b es cs packed where root: "utf8_encode (dm_root_name m) = Inr root"
    and d: "encode_compact_uint (2 * length root + (if dm_kind m = KIND_FOLDER then 1 else 0)) = Inr d"
    and ec: "encode_compact_uint (length (dm_entries m)) = Inr ec" and cc: "encode_compact_uint (length (dm_chunks m)) = Inr cc"
    and fc: "mapR encode_compact_uint counts = Inr counts_b"
    and lc: "mapR compact_codec (zip [0..<length codecs] codecs) = Inr codecs_b"
    and es: "compact_entries 0 (dm_entries m) = Inr es" and cs: "compact_chunks 0 (dm_chunks m) = Inr cs"
    and packed: "pack_lanes 0 assignments (replicate ((length assignments + 3) div 4) 0) = Inr packed"
    and payload: "payload = COMPACT_METADATA_MAGIC @ d @ root @ ec @ cc @ concat counts_b @ concat codecs_b @ es @ cs @ packed"
    unfolding compact_metadata_def by (auto simp: bindR_eq_Inr split: if_split_asm)
  from ser root obtain prefix body chunks where body: "pack_entries (dm_entries m) = Inr body"
    and chunks: "pack_chunks (dm_chunks m) = Inr chunks" and mp: "mp = prefix @ root @ body @ chunks"
    by (auto simp: serialize_dedup_manifest_def bindR_eq_Inr)
  have "length (concat counts_b) \<le> 10 * length counts" by (rule concat_length_le[OF fc]) (rule compact_uint_length_any)
  moreover have "length (concat codecs_b) \<le> 10 * length (zip [0..<length codecs] codecs)"
    by (rule concat_length_le[OF lc]) (auto simp: compact_codec_def dest: compact_uint_length_any split: if_split_asm prod.splits)
  moreover have "length packed \<le> length (dm_chunks m)"
    using unpack_packed_lanes[OF packed] lens(1) by (cases "assignments = []") auto
  ultimately show ?thesis
    using compact_uint_length_any[OF d] compact_uint_length_any[OF ec] compact_uint_length_any[OF cc]
      compact_entries_length[OF es body digests(1)] compact_chunks_length[OF cs digests(2)] pack_chunks_length[OF chunks] lens(2,3)
    by (simp add: payload mp)
qed

section \<open>Opening what was sealed\<close>

text \<open>The last field of a header in front of an archive.\<close>

definition msr2_metadata_length :: "bytes \<Rightarrow> nat" where
  "msr2_metadata_length archive = uval (fields_unpack MSR2_HEADER archive ! 10)"

lemma msr2_metadata_length_pack:
  assumes "pack_msr2_header h = Inr header" and "length (r2_salt h) = 16" and "length (r2_nonce_prefix h) = 4"
  shows "msr2_metadata_length (header @ rest) = r2_metadata_ciphertext_length h"
proof -
  have exact: "list_all2 field_exact MSR2_HEADER (msr2_values h)"
    using assms by (auto simp: pack_msr2_header_def struct_pack_def msr2_values_def split: if_split_asm)
  from assms(1) struct_pack_exact[OF exact] have "header = concat (map2 field_pack MSR2_HEADER (msr2_values h))"
    by (simp add: pack_msr2_header_def)
  with fields_unpack_pack[OF exact, of rest] have "fields_unpack MSR2_HEADER (header @ rest) = msr2_values h" by simp
  then show ?thesis unfolding msr2_metadata_length_def by (simp add: msr2_values_def)
qed

lemma seal_metadata_open:
  assumes seal: "seal_metadata c y rnd key h payload = Inr (header, ct)" and rnd: "random_law (rnd 2)" and aead: "aead_law c"
    and ends: "zlib_ends y payload" and small: "length payload \<le> MAX_MANIFEST_CIPHERTEXT"
  shows "pack_msr2_header (h\<lparr>r2_metadata_ciphertext_length := length ct\<rparr>) = Inr header
    \<and> AEAD_TAG_LENGTH \<le> length ct \<and> (length ct - AEAD_TAG_LENGTH) mod r2_padding_size h = 0
    \<and> (\<forall>h'. r2_nonce_prefix h' = r2_nonce_prefix h \<longrightarrow>
        open_metadata c y u h' header key ct = bindR (parse_metadata u payload h') (\<lambda>meta. Inr (meta, True)))"
proof -
  from seal obtain metadata padded nonce where md: "encode_metadata_envelope y payload = Inr metadata"
    and pd: "pad_payload (rnd 2) metadata (r2_padding_size h) = Inr padded"
    and header: "pack_msr2_header (h\<lparr>r2_metadata_ciphertext_length := length padded + AEAD_TAG_LENGTH\<rparr>) = Inr header"
    and nonce: "frame_nonce (r2_nonce_prefix h) 0 = Inr nonce" and ct: "ct = encrypt c key nonce padded header"
    by (auto simp: seal_metadata_def bindR_eq_Inr split: if_split_asm)
  have len: "length ct = length padded + AEAD_TAG_LENGTH" using aead by (simp add: ct)
  have "r2_padding_size h dvd length padded" using length_pad_payload[OF pd rnd] padded_length_dvd by simp
  moreover have "open_metadata c y u h' header key ct = bindR (parse_metadata u payload h') (\<lambda>meta. Inr (meta, True))"
    if "r2_nonce_prefix h' = r2_nonce_prefix h" for h'
    using nonce that aead unpad_pad[OF pd] metadata_envelope_decode[OF md ends small]
    by (simp add: open_metadata_def ct)
  ultimately show ?thesis using header by (simp add: len dvd_eq_mod_eq_0)
qed

lemma plan_msr2_Inr:
  assumes "plan_msr2 c y lib rnd password config fps padding log_n m spool = Inr job"
  obtains key candidates compacted header ct h where
    "derive_key c password (rnd 0 SALT_LENGTH) log_n 8 1 = Inr key"
    and "mapR (\<lambda>lane. compress_candidate lib fps padding lane (sp_lanes spool ! lane) (sp_raw_sizes spool ! lane)) [0..<LANE_COUNT] = Inr candidates"
    and "compact_metadata m (sp_assignments spool) (map lc_frame_count candidates) (Some (map lc_codec candidates)) = Inr compacted"
    and "h = \<lparr>r2_kdf_log_n = log_n, r2_min_chunk_size = cc_min_size config, r2_avg_chunk_size = cc_avg_size config,
         r2_max_chunk_size = cc_max_size config, r2_padding_size = padding, r2_frame_payload_size = fps,
         r2_unique_chunk_count = length (canonical_indexes (dm_chunks m)), r2_salt = rnd 0 SALT_LENGTH, r2_nonce_prefix = rnd 1 4,
         r2_metadata_ciphertext_length = 0\<rparr>"
    and "seal_metadata c y rnd key h compacted = Inr (header, ct)"
    and "length (sp_assignments spool) = length (canonical_indexes (dm_chunks m))"
    and "job = \<lparr>mj_manifest = m, mj_unique_count = length (canonical_indexes (dm_chunks m)), mj_head = header @ ct,
          mj_ctx = lane_ctx c key h header ct, mj_lanes = zip [0..<LANE_COUNT] (zip (sp_raw_sizes spool) candidates)\<rparr>"
  using assms by (auto simp: plan_msr2_def Let_def bindR_eq_Inr split: if_split_asm)

text \<open>The lanes of the job are read back to the lanes of the spool, and the metadata describes them.\<close>

lemma msr2_lanes_read:
  assumes spool: "spool_holds xs spool" and ks: "mapR (\<lambda>lane. compress_candidate lib fps padding lane (sp_lanes spool ! lane)
      (sp_raw_sizes spool ! lane)) [0..<LANE_COUNT] = Inr candidates"
    and w: "write_lanes c rnd ctx 1 (zip [0..<LANE_COUNT] (zip (sp_raw_sizes spool) candidates)) = Inr w"
    and laws: "aead_law c" "\<forall>k. random_law (rnd k)" "stream_law lib"
  shows "read_lanes c lib ctx True 1 (zip [0..<LANE_COUNT] (zip (map lc_frame_count candidates)
      (zip (sp_raw_sizes spool) (map lc_codec candidates)))) (lw_bytes w) = Inr (sp_lanes spool, [])
    \<and> sum_list (map lc_frame_count candidates) = lw_frame_count w \<and> length candidates = LANE_COUNT
    \<and> list_all2 (\<lambda>n k. (n = 0) = (k = 0)) (sp_raw_sizes spool) (map lc_frame_count candidates)"
proof -
  let ?L = "zip [0..<LANE_COUNT] (zip (sp_raw_sizes spool) candidates)"
  have len: "length candidates = LANE_COUNT" using mapR_length[OF ks] by simp
  have sl: "length (sp_lanes spool) = LANE_COUNT" "sp_raw_sizes spool = map length (sp_lanes spool)"
    using spool by (simp_all add: spool_holds_def)
  have at: "compress_candidate lib fps padding i (sp_lanes spool ! i) (length (sp_lanes spool ! i)) = Inr (candidates ! i)"
    if i: "i < LANE_COUNT" for i
  proof -
    have "list_all2 (\<lambda>lane k. compress_candidate lib fps padding lane (sp_lanes spool ! lane) (sp_raw_sizes spool ! lane) = Inr k)
      [0..<LANE_COUNT] candidates" using ks unfolding mapR_Inr_iff .
    from list_all2_nthD[OF this, of i] i sl show ?thesis by simp
  qed
  have all: "list_all2 (\<lambda>(lane, n, k) d. n = length d \<and> compress_candidate lib fps padding lane d n = Inr k) ?L (sp_lanes spool)"
    using at len sl by (simp add: list_all2_conv_all_nth)
  note rd = write_lanes_read[OF all w laws, of "[]"]
  have rows: "map lane_row ?L = zip [0..<LANE_COUNT] (zip (map lc_frame_count candidates) (zip (sp_raw_sizes spool) (map lc_codec candidates)))"
    using len sl by (intro nth_equalityI) simp_all
  have counts: "map (\<lambda>(lane, n, k). lc_frame_count k) ?L = map lc_frame_count candidates"
    using len sl by (intro nth_equalityI) simp_all
  have "(length (sp_lanes spool ! i) = 0) = (lc_frame_count (candidates ! i) = 0)" if i: "i < LANE_COUNT" for i
  proof -
    have "?L ! i \<in> set ?L" by (rule nth_mem) (use i len sl in simp)
    moreover have "?L ! i = (i, length (sp_lanes spool ! i), candidates ! i)" using i len sl by simp
    ultimately show ?thesis using rd by fastforce
  qed
  then have "list_all2 (\<lambda>n k. (n = 0) = (k = 0)) (sp_raw_sizes spool) (map lc_frame_count candidates)"
    using len sl by (simp add: list_all2_conv_all_nth)
  with rd show ?thesis unfolding rows counts using len by simp
qed

section \<open>Round trip\<close>

lemma canonical_source:
  assumes inv: "scan_inv c m xs s" and inj: "inj_on (sha256 c) (set xs)" and j: "j < length (cs_chunks s)"
  shows "cr_source (cs_chunks s ! j) \<in> set (canonical_indexes (cs_chunks s)) \<and> xs ! cr_source (cs_chunks s ! j) = xs ! j"
proof -
  let ?rs = "cs_chunks s" and ?s = "cr_source (cs_chunks s ! j)"
  have match: "records_match c ?rs xs" by (rule scanned_records_match[OF inv])
  then have len: "length xs = length ?rs" by (simp add: records_match_def list_all2_lengthD)
  have at: "cr_digest (?rs ! j) = sha256 c (xs ! j)" if "j < length ?rs" for j
    using match that by (simp add: records_match_def list_all2_conv_all_nth)
  have "valid_chunk m ?rs j" using inv j by (simp add: scan_inv_def valid_chunks_def)
  then have s: "?s < length ?rs" "cr_source (?rs ! ?s) = ?s" "cr_digest (?rs ! ?s) = cr_digest (?rs ! j)"
    using j by (auto simp: valid_chunk_def Let_def)
  have "sha256 c (xs ! ?s) = sha256 c (xs ! j)" using at[OF s(1)] at[OF j] s(3) by simp
  then have "xs ! ?s = xs ! j" using inj s(1) j len by (auto dest: inj_onD)
  with s show ?thesis by (simp add: canonical_indexes_def)
qed

lemma valid_dedup_entries_digests: "valid_dedup_entries u keys k es final \<Longrightarrow> \<forall>e\<in>set es. length (digest e) = 32"
  by (induction es arbitrary: keys k) auto

text \<open>Every record of a scan finds its chunk among the unique chunks that the lanes gave back.\<close>

lemma scanned_chunks_located:
  assumes inv: "scan_inv c m xs s" and inj: "inj_on (sha256 c) (set xs)" and spool: "spool_holds (cs_unique s) spool"
  shows "\<exists>s'. spool_chunks c (map (\<lambda>i. (i, cs_chunks s ! i)) (canonical_indexes (cs_chunks s))) (sp_assignments spool) (sp_lanes spool)
      \<lparr>ck_canonical = [], ck_locations = (\<lambda>_. None)\<rparr> = Inr (s', replicate LANE_COUNT [])
    \<and> list_all2 (\<lambda>r x. located_chunk s' r = Inr x) (cs_chunks s) xs"
proof -
  let ?rs = "cs_chunks s" and ?canon = "canonical_indexes (cs_chunks s)"
  have u: "cs_unique s = map (\<lambda>i. xs ! i) ?canon" using inv unfolding scan_inv_def by blast
  have match: "records_match c ?rs xs" by (rule scanned_records_match[OF inv])
  then have len: "length xs = length ?rs" by (simp add: records_match_def list_all2_lengthD)
  have pairs: "list_all2 (\<lambda>(i, r) x. cr_size r = length x \<and> cr_digest r = sha256 c x) (map (\<lambda>i. (i, ?rs ! i)) ?canon) (cs_unique s)"
  proof -
    have "cr_size (?rs ! i) = length (xs ! i) \<and> cr_digest (?rs ! i) = sha256 c (xs ! i)" if i: "i \<in> set ?canon" for i
      using match canonical_indexes_less[OF i] by (simp add: list_all2_conv_all_nth records_match_def)
    then show ?thesis by (simp add: u list_all2_map1 list_all2_map2 list_all2_same)
  qed
  have sp: "length (sp_assignments spool) = length (cs_unique s)" "\<forall>a\<in>set (sp_assignments spool). a < LANE_COUNT"
    "length (sp_lanes spool) = LANE_COUNT" "\<forall>l<LANE_COUNT. sp_lanes spool ! l = assigned_bytes (sp_assignments spool) (cs_unique s) l"
    using spool by (simp_all add: spool_holds_def)
  have start: "spooled \<lparr>ck_canonical = [], ck_locations = (\<lambda>_. None)\<rparr> []" by (simp add: spooled_def)
  have fsts: "map fst (map (\<lambda>i. (i, ?rs ! i)) ?canon) = ?canon" by (simp add: o_def)
  have dist: "distinct (map fst (map (\<lambda>i. (i, ?rs ! i)) ?canon))" unfolding fsts by (simp add: canonical_indexes_def)
  have ul: "length (map (\<lambda>i. (i, ?rs ! i)) ?canon) = length (cs_unique s)" by (simp add: u)
  from spool_chunks_run[OF sp(1) ul sp(2,3,4) pairs start dist] obtain s' where
    run: "spool_chunks c (map (\<lambda>i. (i, ?rs ! i)) ?canon) (sp_assignments spool) (sp_lanes spool)
      \<lparr>ck_canonical = [], ck_locations = (\<lambda>_. None)\<rparr> = Inr (s', replicate LANE_COUNT [])"
    and held: "spooled s' (zip ?canon (cs_unique s))" unfolding fsts by auto
  have "located_chunk s' (?rs ! j) = Inr (xs ! j)" if j: "j < length ?rs" for j
  proof -
    note src = canonical_source[OF inv inj j]
    have "(cr_source (?rs ! j), xs ! cr_source (?rs ! j)) \<in> set (zip ?canon (cs_unique s))"
      using src by (auto simp: u zip_map2 zip_same_conv_map)
    from spooled_located[OF held this] src show ?thesis by simp
  qed
  with run len show ?thesis by (auto simp: list_all2_conv_all_nth)
qed

lemma prepare_msr2_Inr:
  assumes "prepare_msr2 c l lib u os password config fps padding log_n view = Inr job"
  obtains m s where "scan_manifest c u view config = Inr (m, s)"
    and "plan_msr2 c (cl_zlib l) lib (oc_random os) password config (nat fps) (nat padding) (nat log_n) m
      (fold (spool_unique_chunk c (cl_log2 l)) (cs_unique s) empty_spool) = Inr job"
  using assms by (auto simp: prepare_msr2_def bindR_eq_Inr)

lemma check_msr2_request_Inr:
  assumes "check_msr2_request fs source is_dir (Inr view) dst fps padding log_n = Inr v"
  shows "v = view" "1024 \<le> fps" "fps \<le> 16 * 1024 * 1024" "256 \<le> padding" "padding \<le> fps" "14 \<le> log_n" "log_n \<le> 18"
  using assms by (auto simp: check_msr2_request_def check_msr2_options_def bindR_eq_Inr not_less not_le split: if_split_asm)

lemma encode_msr2_Inr:
  assumes "encode_solid_archive_v2 c l lib u os fs source is_dir (Inr view) dst password config fps padding log_n = (Inr stats, fs')"
    and "os_law fs os" and "dst \<noteq> oc_temporary os"
  obtains job w where "prepare_msr2 c l lib u os password config fps padding log_n view = Inr job"
    and "1024 \<le> fps" "fps \<le> 16 * 1024 * 1024" "256 \<le> padding" "padding \<le> fps" "14 \<le> log_n" "log_n \<le> 18"
    and "write_lanes c (\<lambda>i. oc_random os (i + 2)) (mj_ctx job) 1 (mj_lanes job) = Inr w"
    and "stats = msr2_stats job w" and "sv_verify view = Inr ()"
    and "fs' = published fs dst \<lparr>fl_id = oc_identity os, fl_bytes = mj_head job @ lw_bytes w, fl_meta = None\<rparr>"
proof -
  obtain v where chk: "check_msr2_request fs source is_dir (Inr view) dst fps padding log_n = Inr v"
    using assms(1) by (cases "check_msr2_request fs source is_dir (Inr view) dst fps padding log_n")
      (auto simp: encode_solid_archive_v2_def)
  note opts = check_msr2_request_Inr[OF chk]
  obtain fs0 where mk: "make_parents fs dst = Inr fs0"
    using assms(1) chk by (cases "make_parents fs dst") (auto simp: encode_solid_archive_v2_def)
  then have fs0: "fs0 = with_parents fs dst" by (simp add: make_parents_Inr)
  obtain job where prep: "prepare_msr2 c l lib u os password config fps padding log_n view = Inr job"
    using assms(1) chk mk opts(1) by (cases "prepare_msr2 c l lib u os password config fps padding log_n view")
      (auto simp: encode_solid_archive_v2_def)
  show thesis
  proof (cases "write_lanes c (\<lambda>i. oc_random os (i + 2)) (mj_ctx job) 1 (mj_lanes job)")
    case (Inl e)
    with assms(1) chk mk prep opts(1) show ?thesis by (simp add: encode_solid_archive_v2_def publish_file_def Let_def)
  next
    case (Inr w)
    have pub: "publish_file fs0 os dst (mj_head job @ lw_bytes w, Inr (msr2_stats job w)) (\<lambda>_. sv_verify view) = (Inr stats, fs')"
      using assms(1) chk mk prep Inr opts(1) by (simp add: encode_solid_archive_v2_def)
    note ps = publish_file_success[OF pub assms(3)]
    show ?thesis by (rule that[OF prep opts(2-7) Inr]) (use ps assms(2) in \<open>simp_all add: fs0\<close>)
  qed
qed

text \<open>
  What the reader needs beyond a successful encode: the manifest in the limits of MSC6, at most
  64 MiB of sealed metadata, and at most a million frames in a lane. The encoder checks none of them.
\<close>

definition msr2_readable :: "crypto \<Rightarrow> unicode \<Rightarrow> source_view \<Rightarrow> ChunkingConfig \<Rightarrow> bytes \<Rightarrow> bool" where
  "msr2_readable c u view config archive \<longleftrightarrow>
     (\<forall>m s. scan_manifest c u view config = Inr (m, s) \<longrightarrow>
        (\<exists>mp. serialize_dedup_manifest m = Inr mp \<and> length mp + 100 \<le> MAX_MANIFEST_CIPHERTEXT))
     \<and> msr2_metadata_length archive \<le> MAX_METADATA_CIPHERTEXT"

text \<open>The plan of an archive that is readable in this sense, as the reader opens it.\<close>

lemma read_msr2_opened:
  assumes plan: "plan_msr2 c y lib rnd password config fps padding log_n m spool = Inr job"
    and scan: "scan_manifest c u view config = Inr (m, s)" and spool: "spool_holds (cs_unique s) spool"
    and laws: "aead_law c" "digest_law c" "\<forall>k. random_law (rnd k)" "\<forall>b. zlib_ends y b"
    and view: "portable_view u view" and cfg: "valid_chunking config"
    and opts: "1024 \<le> fps" "fps \<le> 16 * 1024 * 1024" "256 \<le> padding" "padding \<le> fps" "14 \<le> log_n" "log_n \<le> 18"
    and readable: "msr2_readable c u view config (mj_head job @ stream)"
  obtains candidates compacted hh where
    "mapR (\<lambda>lane. compress_candidate lib fps padding lane (sp_lanes spool ! lane) (sp_raw_sizes spool ! lane)) [0..<LANE_COUNT] = Inr candidates"
    and "compact_metadata m (sp_assignments spool) (map lc_frame_count candidates) (Some (map lc_codec candidates)) = Inr compacted"
    and "r2_max_chunk_size hh = cc_max_size config" and "r2_unique_chunk_count hh = length (canonical_indexes (dm_chunks m))"
    and "mj_lanes job = zip [0..<LANE_COUNT] (zip (sp_raw_sizes spool) candidates)"
    and "read_msr2 c y lib u (mj_head job @ stream) password mo mf = bindR (parse_metadata u compacted hh) (\<lambda>meta.
       if int (total_size (dm_entries (sm_manifest meta))) > mo
       then Inl (ArchiveFormatError ''MSR2 restored size exceeds the decode limit'')
       else if int (sum_list (sm_frame_counts meta)) > mf
       then Inl (ArchiveFormatError ''MSR2 frame count exceeds the decode limit'')
       else bindR (read_msr2_chunks c lib (mj_ctx job) meta True stream) (\<lambda>spool.
         Inr \<lparr>ma_manifest = sm_manifest meta, ma_spool = spool, ma_header = hh\<rparr>))"
proof -
  note sc = scan_manifest_Inr[OF scan laws(2) view cfg]
  have chunks: "dm_chunks m = cs_chunks s" using sc by blast
  have valid: "valid_dedup_manifest u (cc_max_size config) (1 + length (canonical_indexes (dm_chunks m))) m" using sc by blast
  obtain key candidates compacted header ct h where
    key: "derive_key c password (rnd 0 SALT_LENGTH) log_n 8 1 = Inr key"
    and ks: "mapR (\<lambda>lane. compress_candidate lib fps padding lane (sp_lanes spool ! lane) (sp_raw_sizes spool ! lane)) [0..<LANE_COUNT] = Inr candidates"
    and meta: "compact_metadata m (sp_assignments spool) (map lc_frame_count candidates) (Some (map lc_codec candidates)) = Inr compacted"
    and h: "h = \<lparr>r2_kdf_log_n = log_n, r2_min_chunk_size = cc_min_size config, r2_avg_chunk_size = cc_avg_size config,
         r2_max_chunk_size = cc_max_size config, r2_padding_size = padding, r2_frame_payload_size = fps,
         r2_unique_chunk_count = length (canonical_indexes (dm_chunks m)), r2_salt = rnd 0 SALT_LENGTH, r2_nonce_prefix = rnd 1 4,
         r2_metadata_ciphertext_length = 0\<rparr>"
    and seal: "seal_metadata c y rnd key h compacted = Inr (header, ct)"
    and asl: "length (sp_assignments spool) = length (canonical_indexes (dm_chunks m))"
    and job: "job = \<lparr>mj_manifest = m, mj_unique_count = length (canonical_indexes (dm_chunks m)), mj_head = header @ ct,
          mj_ctx = lane_ctx c key h header ct, mj_lanes = zip [0..<LANE_COUNT] (zip (sp_raw_sizes spool) candidates)\<rparr>"
    by (rule plan_msr2_Inr[OF plan])
  let ?h = "h\<lparr>r2_metadata_ciphertext_length := length ct\<rparr>"
  obtain mp where mp: "serialize_dedup_manifest m = Inr mp" "length mp + 100 \<le> MAX_MANIFEST_CIPHERTEXT"
    using readable scan by (auto simp: msr2_readable_def)
  have digests: "\<forall>e\<in>set (dm_entries m). length (digest e) = 32" "\<forall>r\<in>set (dm_chunks m). length (cr_digest r) = 32"
    using valid valid_dedup_entries_digests by (auto simp: valid_dedup_manifest_def)
  have "length (canonical_indexes (dm_chunks m)) \<le> length (dm_chunks m)"
    unfolding canonical_indexes_def by (metis length_filter_le length_upt diff_zero)
  then have small: "length compacted \<le> MAX_MANIFEST_CIPHERTEXT"
    using compact_metadata_length[OF meta mp(1) digests] mapR_length[OF ks] mp(2) asl by simp
  have rl: "random_law (rnd k)" "length (rnd k n) = n" for k n using laws(3) by (simp_all add: random_law_def)
  have ends: "zlib_ends y compacted" using laws(4) by blast
  note sealed = seal_metadata_open[OF seal rl(1) laws(1) ends small]
  have head: "pack_msr2_header ?h = Inr header" using sealed by blast
  have limit: "length ct \<le> MAX_METADATA_CIPHERTEXT"
    using readable msr2_metadata_length_pack[OF head, of "ct @ stream"] rl(2) by (simp add: msr2_readable_def job h)
  have "valid_msr2_header ?h"
  proof -
    have "length (canonical_indexes (dm_chunks m)) < 256 ^ 4"
      using head by (auto simp: pack_msr2_header_def struct_pack_def msr2_values_def h split: if_split_asm)
    then show ?thesis using sealed limit rl(2) opts cfg by (simp add: valid_msr2_header_def msr2_config_def valid_chunking_def h)
  qed
  from msr2_header.parse_pack[OF this head] have parsed: "parse_msr2_header header = Inr ?h" .
  have hl: "length header = struct_size MSR2_HEADER"
    using head by (auto simp: pack_msr2_header_def dest: struct_pack_length)
  have ctx: "lane_ctx c key ?h header ct = lane_ctx c key h header ct" by (simp add: lane_ctx_def)
  have opened: "open_metadata c y u ?h header key ct = bindR (parse_metadata u compacted ?h) (\<lambda>meta. Inr (meta, True))"
    using sealed by simp
  obtain hh where hh: "hh = ?h" by simp
  have hf: "r2_salt hh = rnd 0 SALT_LENGTH" "r2_kdf_log_n hh = log_n" "r2_metadata_ciphertext_length hh = length ct"
    "r2_unique_chunk_count hh = length (canonical_indexes (dm_chunks m))" "r2_max_chunk_size hh = cc_max_size config"
    by (simp_all add: hh h)
  have "read_msr2 c y lib u ((header @ ct) @ stream) password mo mf = bindR (parse_metadata u compacted hh) (\<lambda>meta.
       if int (total_size (dm_entries (sm_manifest meta))) > mo
       then Inl (ArchiveFormatError ''MSR2 restored size exceeds the decode limit'')
       else if int (sum_list (sm_frame_counts meta)) > mf
       then Inl (ArchiveFormatError ''MSR2 frame count exceeds the decode limit'')
       else bindR (read_msr2_chunks c lib (lane_ctx c key h header ct) meta True stream) (\<lambda>spool.
         Inr \<lparr>ma_manifest = sm_manifest meta, ma_spool = spool, ma_header = hh\<rparr>))"
    using hl parsed[folded hh] key opened[folded hh] ctx[folded hh]
    by (cases "parse_metadata u compacted hh") (simp_all add: read_msr2_def hf)
  moreover have mj: "mj_head job = header @ ct" "mj_ctx job = lane_ctx c key h header ct"
    "mj_lanes job = zip [0..<LANE_COUNT] (zip (sp_raw_sizes spool) candidates)" by (simp_all add: job)
  ultimately show thesis by (intro that[OF ks meta hf(5,4) mj(3)]) (simp only: mj)
qed

lemma read_msr2_sealed:
  assumes plan: "plan_msr2 c y lib rnd password config fps padding log_n m spool = Inr job"
    and w: "write_lanes c (\<lambda>i. rnd (i + 2)) (mj_ctx job) 1 (mj_lanes job) = Inr w"
    and scan: "scan_manifest c u view config = Inr (m, s)" and spool: "spool_holds (cs_unique s) spool"
    and laws: "aead_law c" "digest_law c" "stream_law lib" "\<forall>k. random_law (rnd k)" "\<forall>b. zlib_ends y b"
    and view: "portable_view u view" and cfg: "valid_chunking config"
    and inj: "inj_on (sha256 c) (scanned_chunks c config view)"
    and opts: "1024 \<le> fps" "fps \<le> 16 * 1024 * 1024" "256 \<le> padding" "padding \<le> fps" "14 \<le> log_n" "log_n \<le> 18"
    and readable: "msr2_readable c u view config (mj_head job @ lw_bytes w)"
    and limits: "int (total_size (dm_entries m)) \<le> mo" "int (lw_frame_count w) \<le> mf" "lw_frame_count w \<le> 1000000"
  shows "\<exists>a. read_msr2 c y lib u (mj_head job @ lw_bytes w) password mo mf = Inr a \<and> ma_manifest a = m
    \<and> r2_unique_chunk_count (ma_header a) = length (cs_unique s)
    \<and> list_all2 (\<lambda>r x. located_chunk (ma_spool a) r = Inr x) (cs_chunks s) (all_chunks c config view 0 (dm_entries m))"
proof -
  note sc = scan_manifest_Inr[OF scan laws(2) view cfg]
  let ?xs = "all_chunks c config view 0 (dm_entries m)"
  have inv: "scan_inv c (cc_max_size config) ?xs s" and chunks: "dm_chunks m = cs_chunks s"
    and valid: "valid_dedup_manifest u (cc_max_size config) (1 + length (canonical_indexes (dm_chunks m))) m"
    using sc by blast+
  have u: "cs_unique s = map (\<lambda>i. ?xs ! i) (canonical_indexes (cs_chunks s))" using inv unfolding scan_inv_def by blast
  obtain candidates compacted hh where
    ks: "mapR (\<lambda>lane. compress_candidate lib fps padding lane (sp_lanes spool ! lane) (sp_raw_sizes spool ! lane)) [0..<LANE_COUNT] = Inr candidates"
    and meta: "compact_metadata m (sp_assignments spool) (map lc_frame_count candidates) (Some (map lc_codec candidates)) = Inr compacted"
    and hf: "r2_max_chunk_size hh = cc_max_size config" "r2_unique_chunk_count hh = length (canonical_indexes (dm_chunks m))"
    and rows: "mj_lanes job = zip [0..<LANE_COUNT] (zip (sp_raw_sizes spool) candidates)"
    and opened: "read_msr2 c y lib u (mj_head job @ lw_bytes w) password mo mf = bindR (parse_metadata u compacted hh) (\<lambda>meta.
       if int (total_size (dm_entries (sm_manifest meta))) > mo
       then Inl (ArchiveFormatError ''MSR2 restored size exceeds the decode limit'')
       else if int (sum_list (sm_frame_counts meta)) > mf
       then Inl (ArchiveFormatError ''MSR2 frame count exceeds the decode limit'')
       else bindR (read_msr2_chunks c lib (mj_ctx job) meta True (lw_bytes w)) (\<lambda>spool.
         Inr \<lparr>ma_manifest = sm_manifest meta, ma_spool = spool, ma_header = hh\<rparr>))"
    by (rule read_msr2_opened[OF plan scan spool laws(1,2,4,5) view cfg opts readable])
  have rnd': "\<forall>k. random_law (rnd (k + 2))" using laws(4) by simp
  note lanes = msr2_lanes_read[OF spool ks w[unfolded rows] laws(1) rnd' laws(3)]
  obtain mp where mp: "serialize_dedup_manifest m = Inr mp" "length mp + 100 \<le> MAX_MANIFEST_CIPHERTEXT"
    using readable scan by (auto simp: msr2_readable_def)
  have few: "length (dm_chunks m) \<le> MAX_CHUNK_RECORDS" using serialized_chunks[OF mp(1)] mp(2) by simp
  have raw: "lane_raw_sizes (unique_records (dm_chunks m)) (sp_assignments spool) = Inr (sp_raw_sizes spool)"
  proof -
    have match: "records_match c (cs_chunks s) ?xs" by (rule scanned_records_match[OF inv])
    have "map cr_size (unique_records (cs_chunks s)) = map length (cs_unique s)"
      unfolding u unique_records_def map_map
      by (rule map_cong[OF refl]) (use match canonical_indexes_less in \<open>auto simp: records_match_def list_all2_conv_all_nth\<close>)
    moreover have "length (sp_assignments spool) = length (cs_unique s)" using spool by (simp add: spool_holds_def)
    ultimately show ?thesis
      using spool unique_records_length[of "cs_chunks s"] u
      by (simp add: lane_raw_sizes_def chunks spool_holds_def assigned_bytes_length comp_def)
  qed
  have cons: "lanes_consistent m (sp_assignments spool) (sp_raw_sizes spool) (map lc_frame_count candidates)"
    using raw lanes by (simp add: lanes_consistent_def)
  have counts: "\<forall>n\<in>set (map lc_frame_count candidates). n \<le> 1000000"
    using lanes limits(3) member_le_sum_list[of _ "map lc_frame_count candidates"] by fastforce
  have meta': "parse_metadata u compacted hh = Inr \<lparr>sm_manifest = m, sm_assignments = sp_assignments spool,
      sm_raw_sizes = sp_raw_sizes spool, sm_frame_counts = map lc_frame_count candidates, sm_lane_codecs = map lc_codec candidates\<rparr>"
    using compact_metadata_parse[OF meta mp(1), of u hh "sp_raw_sizes spool"] valid few cons counts lanes cfg
    by (simp add: hf codecs_or_default_def valid_chunking_def)
  have "inj_on (sha256 c) (set ?xs)" by (rule inj_on_subset[OF inj all_chunks_scanned])
  from scanned_chunks_located[OF inv this spool] obtain s' where
    run: "spool_chunks c (map (\<lambda>i. (i, cs_chunks s ! i)) (canonical_indexes (cs_chunks s))) (sp_assignments spool) (sp_lanes spool)
      \<lparr>ck_canonical = [], ck_locations = (\<lambda>_. None)\<rparr> = Inr (s', replicate LANE_COUNT [])"
    and located: "list_all2 (\<lambda>r x. located_chunk s' r = Inr x) (cs_chunks s) ?xs" by blast
  have "read_msr2_chunks c lib (mj_ctx job) \<lparr>sm_manifest = m, sm_assignments = sp_assignments spool,
      sm_raw_sizes = sp_raw_sizes spool, sm_frame_counts = map lc_frame_count candidates, sm_lane_codecs = map lc_codec candidates\<rparr>
      True (lw_bytes w) = Inr s'"
    using lanes run by (simp add: read_msr2_chunks_def chunks list_ex_iff del: upt_Suc)
  with opened meta' lanes limits have "read_msr2 c y lib u (mj_head job @ lw_bytes w) password mo mf
      = Inr \<lparr>ma_manifest = m, ma_spool = s', ma_header = hh\<rparr>" by simp
  with located show ?thesis by (simp add: hf chunks u)
qed

text \<open>A frame count above a million is refused wherever the metadata came from.\<close>

lemma compact_uint_exact:
  assumes "encode_compact_uint v = Inr b" and "maximum \<le> MAX_COMPACT_UINT" and "decode_compact_uint maximum (b @ rest) = Inr (x, r)"
  shows "x = v \<and> r = rest \<and> v \<le> maximum"
proof -
  have v: "v \<le> MAX_COMPACT_UINT" using assms(1) by (simp add: encode_compact_uint_def split: if_split_asm)
  have "x \<le> maximum \<and> (\<exists>a. encode_compact_uint x = Inr a \<and> b @ rest = a @ r)"
    using compact_uint.dec_sound[of maximum "b @ rest" x r] assms(2,3) by (auto simp: min_def)
  then obtain a where x: "x \<le> maximum" "encode_compact_uint x = Inr a" "b @ rest = a @ r" by blast
  have "v = x \<and> rest = r"
    using compact_uint.prefix_free[of v MAX_COMPACT_UINT x b a rest r] v x assms(1,2) by simp
  with x(1) show ?thesis by simp
qed

lemma read_frame_counts_exact:
  "mapR encode_compact_uint counts = Inr bs \<Longrightarrow> read_frame_counts (length counts) (concat bs @ rest) = Inr (ns, r) \<Longrightarrow>
   \<forall>n\<in>set counts. n \<le> 1000000"
proof (induction counts arbitrary: bs ns)
  case (Cons n counts)
  then obtain b cs where b: "encode_compact_uint n = Inr b" and cs: "mapR encode_compact_uint counts = Inr cs" and bs: "bs = b # cs"
    by (auto simp: bindR_eq_Inr)
  from Cons.prems(2) obtain x s ms where x: "decode_compact_uint 1000000 (b @ concat cs @ rest) = Inr (x, s)"
    and ms: "read_frame_counts (length counts) s = Inr (ms, r)" by (auto simp: bs bindR_eq_Inr DEFAULT_MAX_FRAME_COUNT_def)
  from compact_uint_exact[OF b _ x] have "s = concat cs @ rest" "n \<le> 1000000" by simp_all
  with Cons.IH[OF cs] ms show ?case by simp
qed simp

lemma compact_counts_refused:
  assumes meta: "compact_metadata m assignments counts (Some codecs) = Inr payload" and len: "length counts = LANE_COUNT"
    and big: "\<exists>n\<in>set counts. 1000000 < n"
  shows "\<exists>e. parse_metadata u payload h = Inl e"
proof (rule ccontr)
  assume "\<nexists>e. parse_metadata u payload h = Inl e"
  then obtain meta where ok: "parse_metadata u payload h = Inr meta" by (cases "parse_metadata u payload h") auto
  from meta obtain root d ec cc counts_b tail where root: "utf8_encode (dm_root_name m) = Inr root"
    and d: "encode_compact_uint (2 * length root + (if dm_kind m = KIND_FOLDER then 1 else 0)) = Inr d"
    and ec: "encode_compact_uint (length (dm_entries m)) = Inr ec" and cc: "encode_compact_uint (length (dm_chunks m)) = Inr cc"
    and fc: "mapR encode_compact_uint counts = Inr counts_b"
    and payload: "payload = COMPACT_METADATA_MAGIC @ d @ root @ ec @ cc @ concat counts_b @ tail"
    unfolding compact_metadata_def by (auto simp: bindR_eq_Inr split: if_split_asm)
  have "parse_compact_metadata u payload h = Inr meta" using ok by (simp add: parse_metadata_def payload)
  then obtain desc s1 raw s2 n1 s3 n2 s4 ns s5 where
    1: "decode_compact_uint 131071 (d @ root @ ec @ cc @ concat counts_b @ tail) = Inr (desc, s1)"
    and 2: "take_compact s1 (desc div 2) = Inr (raw, s2)" and 3: "decode_compact_uint 1000000 s2 = Inr (n1, s3)"
    and 4: "decode_compact_uint MAX_CHUNK_RECORDS s3 = Inr (n2, s4)" and 5: "read_frame_counts LANE_COUNT s4 = Inr (ns, s5)"
    unfolding parse_compact_metadata_def Let_def bindR_eq_Inr by (auto simp: payload bindR_eq_Inr)
  from compact_uint_exact[OF d _ 1] have s1: "s1 = root @ ec @ cc @ concat counts_b @ tail" and "desc div 2 = length root" by auto
  with 2 have s2: "s2 = ec @ cc @ concat counts_b @ tail" by (simp add: take_compact_def)
  from compact_uint_exact[OF ec _ 3[unfolded s2]] have s3: "s3 = cc @ concat counts_b @ tail" by simp
  from compact_uint_exact[OF cc _ 4[unfolded s3]] have "s4 = concat counts_b @ tail" by simp
  with read_frame_counts_exact[OF fc, of tail ns s5] 5 len big show False by auto
qed

lemma msr2_restores:
  assumes enc: "encode_solid_archive_v2 c l lib u os fs source is_dir (Inr view) archive password config fps padding log_n = (Inr stats, fs1)"
    and laws: "aead_law c" "digest_law c" "stream_law lib" "\<forall>b. zlib_ends (cl_zlib l) b" "os_law fs os" "os_law fs1 os'"
    and view: "portable_view u view" and cfg: "valid_chunking config" and inj: "inj_on (sha256 c) (scanned_chunks c config view)"
    and names: "archive \<noteq> oc_temporary os" "restored \<noteq> oc_temporary os'" and new: "fresh_path fs1 restored"
    and apart: "fs_resolve fs1 archive \<noteq> fs_resolve fs1 restored"
    and readable: "\<forall>f. fs_files fs1 archive = Some f \<longrightarrow> msr2_readable c u view config (fl_bytes f)"
    and limits: "int (v2e_original_size stats) \<le> mo" "int (v2e_frame_count stats) \<le> mf" "0 < mf" "v2e_frame_count stats \<le> 1000000"
  shows "\<exists>ds fs2. decode_solid_archive_v2 c (cl_zlib l) lib u os' fs1 archive restored password mo mf = (Inr ds, fs2)
    \<and> v2d_original_size ds = v2e_original_size stats \<and> v2d_archive_size ds = v2e_archive_size stats
    \<and> v2d_unique_chunk_count ds = v2e_unique_chunk_count stats
    \<and> source_restored (first_pass view) os' restored fs1 fs2"
proof -
  obtain job w where prep: "prepare_msr2 c l lib u os password config fps padding log_n view = Inr job"
    and opts: "1024 \<le> fps" "fps \<le> 16 * 1024 * 1024" "256 \<le> padding" "padding \<le> fps" "14 \<le> log_n" "log_n \<le> 18"
    and w: "write_lanes c (\<lambda>i. oc_random os (i + 2)) (mj_ctx job) 1 (mj_lanes job) = Inr w"
    and stats: "stats = msr2_stats job w" and ver: "sv_verify view = Inr ()"
    and fs1: "fs1 = published fs archive \<lparr>fl_id = oc_identity os, fl_bytes = mj_head job @ lw_bytes w, fl_meta = None\<rparr>"
    by (rule encode_msr2_Inr[OF enc laws(5) names(1)])
  obtain m s where scan: "scan_manifest c u view config = Inr (m, s)"
    and plan: "plan_msr2 c (cl_zlib l) lib (oc_random os) password config (nat fps) (nat padding) (nat log_n) m
      (fold (spool_unique_chunk c (cl_log2 l)) (cs_unique s) empty_spool) = Inr job"
    by (rule prepare_msr2_Inr[OF prep])
  let ?f = "\<lparr>fl_id = oc_identity os, fl_bytes = mj_head job @ lw_bytes w, fl_meta = None\<rparr>"
  have mj: "mj_manifest job = m" "mj_unique_count job = length (canonical_indexes (dm_chunks m))"
    by (rule plan_msr2_Inr[OF plan], simp)+
  note sc = scan_manifest_Inr[OF scan laws(2) view cfg]
  have chunks: "dm_chunks m = cs_chunks s" and inv: "scan_inv c (cc_max_size config) (all_chunks c config view 0 (dm_entries m)) s"
    using sc by blast+
  have uc: "length (canonical_indexes (cs_chunks s)) = length (cs_unique s)" using inv by (simp add: scan_inv_def)
  have rnd: "\<forall>k. random_law (oc_random os k)" using laws(5) by (simp add: os_law_def)
  have nats: "1024 \<le> nat fps" "nat fps \<le> 16 * 1024 * 1024" "256 \<le> nat padding" "nat padding \<le> nat fps" "14 \<le> nat log_n" "nat log_n \<le> 18"
    using opts by simp_all
  have rb: "msr2_readable c u view config (mj_head job @ lw_bytes w)" using readable by (simp add: fs1)
  have lim: "int (total_size (dm_entries m)) \<le> mo" "int (lw_frame_count w) \<le> mf" "lw_frame_count w \<le> 1000000"
    using limits by (simp_all add: stats msr2_stats_def mj)
  from read_msr2_sealed[OF plan w scan scan_spool laws(1-3) rnd laws(4) view cfg inj nats rb lim] obtain a where
    a: "read_msr2 c (cl_zlib l) lib u (mj_head job @ lw_bytes w) password mo mf = Inr a" "ma_manifest a = m"
      "r2_unique_chunk_count (ma_header a) = length (cs_unique s)"
    and located: "list_all2 (\<lambda>r x. located_chunk (ma_spool a) r = Inr x) (cs_chunks s) (all_chunks c config view 0 (dm_entries m))"
    by blast
  note fresh = new_destination_differs[OF new names(2)]
  let ?ds = "msr2_decode_stats a (length (fl_bytes ?f))"
  let ?check = "\<lambda>fs. if path_matches_file_identity (fs_stat fs restored) (fl_id ?f)
      then Inl (ValueError ''archive and output paths must be different'') else Inr ()"
  have check: "?check (create_output (with_parents fs1 restored) os' (dm_kind m)) = Inr ()" using fresh by simp
  from fetched_chunks_restored[OF scan laws(2) view cfg laws(6) names(2) new located, of ?check "IntegrityError ''MSR2 file digest failed''" ?ds,
      OF check]
  obtain fs2 where pub: "restore_msr2 c os' fs1 a restored ?f = (Inr ?ds, fs2)"
    and res: "source_restored (first_pass view) os' restored fs1 fs2" by (auto simp: restore_msr2_def a(2) chunks Let_def)
  have "fs_files fs1 archive = Some ?f" by (simp add: fs1)
  moreover have "\<not> path_matches_file_identity (fs_stat fs1 restored) (fl_id ?f)" using fresh by simp
  ultimately have "decode_solid_archive_v2 c (cl_zlib l) lib u os' fs1 archive restored password mo mf = (Inr ?ds, fs2)"
    using a(1) pub apart limits by (simp add: decode_solid_archive_v2_def)
  with res show ?thesis by (simp add: msr2_decode_stats_def a stats msr2_stats_def mj chunks uc)
qed

section \<open>Failures\<close>

lemma encode_msr2_atomic:
  assumes "os_law fs os"
    and "encode_solid_archive_v2 c l lib u os fs source is_dir session dst password config fps padding log_n = (Inl e, fs')"
  shows "parents_at_most fs dst fs'"
proof -
  have law: "os_law (with_parents fs dst) os" using assms(1) by simp
  show ?thesis
    using assms(2) unfolding encode_solid_archive_v2_def
    by (auto simp: make_parents_Inr split: sum.splits dest!: publish_file_error[OF law])
qed

lemma decode_msr2_atomic:
  assumes "os_law fs os" and "decode_solid_archive_v2 c y lib u os fs archive dst password mo mf = (Inl e, fs')"
  shows "parents_at_most fs dst fs'"
  using assms(2) by (auto simp: decode_solid_archive_v2_def restore_msr2_def Let_def intro: publish_output_error[OF assms(1)]
    split: if_split_asm option.splits sum.splits)

section \<open>An archive that no reader accepts\<close>

text \<open>
  The parser bounds the frames of a lane by the default decode limit, whatever limit the caller
  passes, and the encoder does not: with small frames a lane of a gigabyte is enough.
\<close>

lemma encode_msr2_unreadable:
  assumes enc: "encode_solid_archive_v2 c l lib u os fs source is_dir (Inr view) archive password config fps padding log_n = (Inr stats, fs1)"
    and laws: "aead_law c" "digest_law c" "stream_law lib" "\<forall>b. zlib_ends (cl_zlib l) b" "os_law fs os"
    and view: "portable_view u view" and cfg: "valid_chunking config" and name: "archive \<noteq> oc_temporary os"
    and readable: "\<forall>f. fs_files fs1 archive = Some f \<longrightarrow> msr2_readable c u view config (fl_bytes f)"
    and big: "3000000 < v2e_frame_count stats"
  shows "\<exists>e. fst (decode_solid_archive_v2 c (cl_zlib l) lib u os' fs1 archive dst password mo mf) = Inl e"
proof -
  obtain job w where prep: "prepare_msr2 c l lib u os password config fps padding log_n view = Inr job"
    and opts: "1024 \<le> fps" "fps \<le> 16 * 1024 * 1024" "256 \<le> padding" "padding \<le> fps" "14 \<le> log_n" "log_n \<le> 18"
    and w: "write_lanes c (\<lambda>i. oc_random os (i + 2)) (mj_ctx job) 1 (mj_lanes job) = Inr w" and stats: "stats = msr2_stats job w"
    and fs1: "fs1 = published fs archive \<lparr>fl_id = oc_identity os, fl_bytes = mj_head job @ lw_bytes w, fl_meta = None\<rparr>"
    by (rule encode_msr2_Inr[OF enc laws(5) name])
  obtain m s where scan: "scan_manifest c u view config = Inr (m, s)"
    and plan: "plan_msr2 c (cl_zlib l) lib (oc_random os) password config (nat fps) (nat padding) (nat log_n) m
      (fold (spool_unique_chunk c (cl_log2 l)) (cs_unique s) empty_spool) = Inr job"
    by (rule prepare_msr2_Inr[OF prep])
  let ?spool = "fold (spool_unique_chunk c (cl_log2 l)) (cs_unique s) empty_spool"
  have rnd: "\<forall>k. random_law (oc_random os k)" "\<forall>k. random_law (oc_random os (k + 2))" using laws(5) by (simp_all add: os_law_def)
  have nats: "1024 \<le> nat fps" "nat fps \<le> 16 * 1024 * 1024" "256 \<le> nat padding" "nat padding \<le> nat fps" "14 \<le> nat log_n" "nat log_n \<le> 18"
    using opts by simp_all
  have rb: "msr2_readable c u view config (mj_head job @ lw_bytes w)" using readable by (simp add: fs1)
  obtain candidates compacted hh where
    ks: "mapR (\<lambda>lane. compress_candidate lib (nat fps) (nat padding) lane (sp_lanes ?spool ! lane) (sp_raw_sizes ?spool ! lane)) [0..<LANE_COUNT] = Inr candidates"
    and meta: "compact_metadata m (sp_assignments ?spool) (map lc_frame_count candidates) (Some (map lc_codec candidates)) = Inr compacted"
    and rows: "mj_lanes job = zip [0..<LANE_COUNT] (zip (sp_raw_sizes ?spool) candidates)"
    and opened: "read_msr2 c (cl_zlib l) lib u (mj_head job @ lw_bytes w) password mo mf = bindR (parse_metadata u compacted hh) (\<lambda>meta.
       if int (total_size (dm_entries (sm_manifest meta))) > mo
       then Inl (ArchiveFormatError ''MSR2 restored size exceeds the decode limit'')
       else if int (sum_list (sm_frame_counts meta)) > mf
       then Inl (ArchiveFormatError ''MSR2 frame count exceeds the decode limit'')
       else bindR (read_msr2_chunks c lib (mj_ctx job) meta True (lw_bytes w)) (\<lambda>spool.
         Inr \<lparr>ma_manifest = sm_manifest meta, ma_spool = spool, ma_header = hh\<rparr>))"
    by (rule read_msr2_opened[OF plan scan scan_spool laws(1,2) rnd(1) laws(4) view cfg nats rb])
  note lanes = msr2_lanes_read[OF scan_spool ks w[unfolded rows] laws(1) rnd(2) laws(3)]
  have "\<exists>n\<in>set (map lc_frame_count candidates). 1000000 < n"
  proof (rule ccontr)
    assume "\<not> (\<exists>n\<in>set (map lc_frame_count candidates). 1000000 < n)"
    then have "sum_list (map lc_frame_count candidates) \<le> sum_list (map (\<lambda>_. 1000000) candidates)"
      by (intro sum_list_mono) (auto simp: not_less)
    then show False using lanes big by (simp add: stats msr2_stats_def sum_list_triv)
  qed
  with compact_counts_refused[OF meta] lanes obtain e where "parse_metadata u compacted hh = Inl e" by auto
  with opened have "read_msr2 c (cl_zlib l) lib u (mj_head job @ lw_bytes w) password mo mf = Inl e" by simp
  then show ?thesis by (auto simp: decode_solid_archive_v2_def fs1)
qed

section \<open>Lanes are stored in the smaller form\<close>

text \<open>The bytes of a stored lane: those of the compressed or the raw form, whichever are fewer.\<close>

lemma candidate_minimal:
  assumes cand: "compress_candidate lib fps ps lane raw (length raw) = Inr k" and ne: "raw \<noteq> []"
    and w: "write_precompressed_solid_lane_frames c rnd ctx (lc_payload k) (int (lc_compressed_size k)) start = Inr (out, stats)"
    and ctx: "lx_frame_payload_size ctx = fps" "lx_padding_size ctx = ps" "lx_lane ctx = lane"
    and laws: "aead_law c" "\<forall>k. random_law (rnd k)" "stream_law lib" and start: "0 \<le> start"
  shows "\<exists>compressed n r. compress_solid_lane lib raw lane True (Some (preferred_codec lane)) = Inr compressed
    \<and> solid_lane_framed_size (int (length compressed)) fps ps = Inr n \<and> solid_lane_framed_size (int (length raw)) fps ps = Inr r
    \<and> length out = min n r \<and> fw_frame_count stats = lc_frame_count k"
proof -
  from cand ne obtain compressed n r where comp: "compress_solid_lane lib raw lane True (Some (preferred_codec lane)) = Inr compressed"
    and n: "solid_lane_framed_size (int (length compressed)) fps ps = Inr n" and r: "solid_lane_framed_size (int (length raw)) fps ps = Inr r"
    and k: "k = (if n \<ge> r then \<lparr>lc_codec = SOLID_CODEC_RAW, lc_compressed_size = length raw, lc_payload = raw,
                     lc_frame_count = frames_needed fps (length raw)\<rparr>
               else \<lparr>lc_codec = preferred_codec lane, lc_compressed_size = length compressed, lc_payload = compressed,
                     lc_frame_count = frames_needed fps (length compressed)\<rparr>)"
    by (auto simp: compress_candidate_def bindR_eq_Inr)
  show ?thesis
  proof (cases "n \<ge> r")
    case True
    with w k have "write_precompressed_solid_lane_frames c rnd ctx raw (int (length raw)) start = Inr (out, stats)" by simp
    from framed_size_exact[OF this laws(1,2) ne] r ctx True k comp n show ?thesis by (simp add: frames_needed_def min_def)
  next
    case False
    with w k have w': "write_precompressed_solid_lane_frames c rnd ctx compressed (int (length compressed)) start = Inr (out, stats)" by simp
    obtain i where i: "start = int i" using start nonneg_int_cases by blast
    from write_precompressed_read[OF comp[folded ctx(3)] w'[unfolded i] laws] have "compressed \<noteq> []" by blast
    from framed_size_exact[OF w' laws(1,2) this] n ctx False k comp r show ?thesis by (simp add: frames_needed_def min_def)
  qed
qed

text \<open>
  The encoder bounds the compressed metadata by \<^verbatim>\<open>MAX_MANIFEST_CIPHERTEXT\<close> (256 MiB), the parser of
  the header by \<^verbatim>\<open>_MAX_METADATA_CIPHERTEXT\<close> (64 MiB): what lies between is written and never read.
\<close>

lemma fields_unpack_take: "struct_size fs \<le> k \<Longrightarrow> fields_unpack fs (take k b) = fields_unpack fs b"
proof (induction fs arbitrary: k b)
  case (Cons f fs)
  have "struct_size fs \<le> k - field_size f" "field_size f \<le> k" using Cons.prems by (simp_all add: struct_size_def)
  then have "fields_unpack fs (take (k - field_size f) (drop (field_size f) b)) = fields_unpack fs (drop (field_size f) b)"
    by (intro Cons.IH)
  with \<open>field_size f \<le> k\<close> show ?case by (simp add: drop_take min_def)
qed simp

lemma long_metadata_refused:
  assumes f: "fs_files fs archive = Some f" and long: "MAX_METADATA_CIPHERTEXT < msr2_metadata_length (fl_bytes f)"
  shows "\<exists>e. fst (decode_solid_archive_v2 c y lib u os fs archive dst password mo mf) = Inl e"
proof -
  let ?header = "take (struct_size MSR2_HEADER) (fl_bytes f)"
  have "\<exists>e. msr2_header_of (fields_unpack MSR2_HEADER ?header) = Inl e"
    using long unfolding msr2_metadata_length_def fields_unpack_take[OF order_refl] msr2_header_of_def Let_def by simp
  then have "\<exists>e. parse_msr2_header ?header = Inl e" by (auto simp: parse_msr2_header_def struct_unpack_def)
  then have "\<exists>e. read_msr2 c y lib u (fl_bytes f) password mo mf = Inl e"
    by (auto simp: read_msr2_def read_exact_def stream_read_def Let_def)
  then show ?thesis by (auto simp: decode_solid_archive_v2_def f)
qed

section \<open>Inspection\<close>

text \<open>Taking a fresh destination away again restores the file system.\<close>

lemma remove_fresh:
  assumes "fresh_path fs p"
  shows "(fs_files fs)(p := None) = fs_files fs" "(fs_trees fs)(p := None) = fs_trees fs"
    "fs\<lparr>fs_files := fs_files fs, fs_trees := fs_trees fs, fs_directories := fs_directories fs\<rparr> = fs"
    "(with_parents fs q)\<lparr>fs_files := fs_files fs, fs_trees := fs_trees fs, fs_directories := fs_directories fs\<rparr> = fs"
  using fresh_pathD[OF assms] by (auto simp: with_parents_def)

lemma source_restored_removed:
  assumes "source_restored fp os' restored fs1 fs2" and "fresh_path fs1 restored"
  shows "fs2\<lparr>fs_files := (fs_files fs2)(restored := None), fs_trees := (fs_trees fs2)(restored := None),
    fs_directories := fs_directories fs1\<rparr> = fs1"
  using assms(1) remove_fresh[OF assms(2)] by (auto simp: source_restored_def with_parents_def split: if_split_asm)

lemma inspect_msr2_Inr:
  assumes "decode_solid_archive_v2 c y lib u os fs archive scratch password mo mf = (Inr ds, fs2)"
    and "source_restored fp os' scratch fs fs2" and "fresh_path fs scratch"
  shows "inspect_solid_archive_v2 c y lib u os scratch fs archive password mo mf = (Inr ds, fs)"
  using source_restored_removed[OF assms(2,3)] assms(1) by (simp add: inspect_solid_archive_v2_def)

lemma inspect_msr2_Inl:
  assumes "decode_solid_archive_v2 c y lib u os fs archive scratch password mo mf = (Inl e, fs2)"
    and "os_law fs os" and "fresh_path fs scratch"
  shows "inspect_solid_archive_v2 c y lib u os scratch fs archive password mo mf = (Inl e, fs)"
  using decode_msr2_atomic[OF assms(2,1)] remove_fresh[OF assms(3)] assms(1)
  by (auto simp: inspect_solid_archive_v2_def parents_at_most_def)

lemma inspect_msr2_also:
  assumes "\<exists>ds fs2. decode_solid_archive_v2 c y lib u os fs archive scratch password mo mf = (Inr ds, fs2)
      \<and> P ds \<and> Q ds \<and> R ds \<and> source_restored fp os' scratch fs fs2" and "fresh_path fs scratch"
  shows "\<exists>ds fs2. decode_solid_archive_v2 c y lib u os fs archive scratch password mo mf = (Inr ds, fs2)
      \<and> inspect_solid_archive_v2 c y lib u os scratch fs archive password mo mf = (Inr ds, fs)
      \<and> P ds \<and> Q ds \<and> R ds \<and> source_restored fp os' scratch fs fs2"
  using assms(1) inspect_msr2_Inr[OF _ _ assms(2)] by blast

section \<open>Encoding succeeds\<close>

lemma seal_metadata_total:
  assumes pad: "256 \<le> r2_padding_size h" "r2_padding_size h \<le> 16 * 1024 * 1024" and rnd: "random_law (rnd 2)" and aead: "aead_law c"
    and prefix: "length (r2_nonce_prefix h) = 4" and payload: "length payload \<le> MAX_MANIFEST_CIPHERTEXT" "length (zlib_compress y payload) \<le> 200000000"
    and pack: "\<And>n. n < 256 ^ 4 \<Longrightarrow> \<exists>b. pack_msr2_header (h\<lparr>r2_metadata_ciphertext_length := n\<rparr>) = Inr b"
  shows "\<exists>header ct. seal_metadata c y rnd key h payload = Inr (header, ct)
    \<and> length ct < length (zlib_compress y payload) + 37 + r2_padding_size h"
proof -
  from payload(1) obtain pre where pre: "struct_pack METADATA_ENVELOPE [VB METADATA_MAGIC, VU RAW_LZMA2_CODEC, VU (length payload)] = Inr pre"
    by (simp add: struct_pack_def)
  then have pl: "length pre = 13" by (auto dest: struct_pack_length simp: struct_size_def)
  let ?metadata = "pre @ zlib_compress y payload"
  have small: "length ?metadata \<le> MAX_MANIFEST_CIPHERTEXT" "length ?metadata < 256 ^ 8" using pl payload(2) by simp_all
  from pad_payload_Inr[of "r2_padding_size h" ?metadata "rnd 2"] pad small(2) obtain padded where
    padded: "pad_payload (rnd 2) ?metadata (r2_padding_size h) = Inr padded" by auto
  have "length padded < 8 + length ?metadata + r2_padding_size h"
    using length_pad_payload[OF padded rnd] padded_length_lt[of "r2_padding_size h" "8 + length ?metadata"] pad(1) by simp
  then have len: "length padded + AEAD_TAG_LENGTH < length (zlib_compress y payload) + 37 + r2_padding_size h" using pl by simp
  then have "length padded + AEAD_TAG_LENGTH < 256 ^ 4" using payload(2) pad(2) by simp
  from pack[OF this] obtain header where header: "pack_msr2_header (h\<lparr>r2_metadata_ciphertext_length := length padded + AEAD_TAG_LENGTH\<rparr>) = Inr header"
    by blast
  show ?thesis using pre small(1) padded header prefix len aead
    by (simp add: seal_metadata_def encode_metadata_envelope_def frame_nonce_def)
qed

section \<open>An example\<close>

lemma example_lane: "choose_solid_lane example_crypto (cl_log2 example_clib) [1, 2, 3] = STANDARD"
proof -
  have "byte_entropy (cl_log2 example_clib) [1, 2, 3] = 1"
    by (simp add: byte_entropy_def entropy_over_def counter_keys_def example_clib_def Let_def)
  then show ?thesis by (simp add: choose_solid_lane_def)
qed

lemma example_candidate:
  "compress_candidate example_stream_lib 1048576 256 STANDARD [1, 2, 3] 3
    = Inr \<lparr>lc_codec = SOLID_CODEC_RAW, lc_compressed_size = 3, lc_payload = [1, 2, 3], lc_frame_count = 1\<rparr>"
proof -
  obtain payload where p: "compress_solid_lane example_stream_lib [1, 2, 3] STANDARD True (Some SOLID_CODEC_LZMA2) = Inr payload" "length payload = 7"
    by (simp add: compress_solid_lane_def solid_compressor_def example_stream_lib_def read_blocks.simps)
  then have "payload \<noteq> []" by auto
  with p show ?thesis
    by (simp add: compress_candidate_def preferred_codec_def solid_lane_framed_size_def solid_frame_size_def padded_length_def Let_def
        frames_needed_def)
qed

lemma example_spool:
  "spool_unique_chunk example_crypto (cl_log2 example_clib) [1, 2, 3] empty_spool
    = \<lparr>sp_lanes = [[1, 2, 3], [], []], sp_raw_sizes = [3, 0, 0], sp_assignments = [0]\<rparr>"
  by (simp add: spool_unique_chunk_def example_lane empty_spool_def numeral_3_eq_3)

lemma empty_candidate:
  "compress_candidate lib fps ps lane raw 0
    = Inr \<lparr>lc_codec = SOLID_CODEC_LZMA2, lc_compressed_size = 0, lc_payload = [], lc_frame_count = 0\<rparr>"
  by (simp add: compress_candidate_def)

lemma example_plan:
  assumes u: "cs_unique s = [[1, 2, 3]]"
  shows "\<exists>job w. plan_msr2 example_crypto example_zlib example_stream_lib (oc_random example_os) (PBytes [112]) DEFAULT_CHUNKING 1048576 256 14
      example_pair_manifest (fold (spool_unique_chunk example_crypto (cl_log2 example_clib)) (cs_unique s) empty_spool) = Inr job
    \<and> mj_manifest job = example_pair_manifest \<and> mj_unique_count job = 1 \<and> msr2_metadata_length (mj_head job @ lw_bytes w) \<le> MAX_METADATA_CIPHERTEXT
    \<and> write_lanes example_crypto (\<lambda>i. oc_random example_os (i + 2)) (mj_ctx job) 1 (mj_lanes job) = Inr w
    \<and> lw_frame_count w = 1"
proof -
  let ?c = example_crypto and ?rnd = "oc_random example_os"
  have rl: "random_law (?rnd k)" "length (?rnd k n) = n" for k n using example_os_law by (simp_all add: os_law_def random_law_def)
  obtain key where key: "derive_key ?c (PBytes [112]) (?rnd 0 SALT_LENGTH) 14 8 1 = Inr key"
    using example_pair_setup(1) rl(2) by (simp add: derive_key_def)
  obtain payload where payload: "compact_metadata example_pair_manifest [0] [1, 0, 0] (Some [SOLID_CODEC_RAW, 0, 0]) = Inr payload"
    "length payload < 200" using example_compact_metadata by blast
  define h where "h = \<lparr>r2_kdf_log_n = 14, r2_min_chunk_size = cc_min_size DEFAULT_CHUNKING, r2_avg_chunk_size = cc_avg_size DEFAULT_CHUNKING,
      r2_max_chunk_size = cc_max_size DEFAULT_CHUNKING, r2_padding_size = 256, r2_frame_payload_size = 1048576,
      r2_unique_chunk_count = 1, r2_salt = ?rnd 0 SALT_LENGTH, r2_nonce_prefix = ?rnd 1 4, r2_metadata_ciphertext_length = 0\<rparr>"
  have hf: "r2_padding_size h = 256" "r2_frame_payload_size h = 1048576" "length (r2_nonce_prefix h) = 4" "length (r2_salt h) = 16"
    by (simp_all add: h_def rl)
  have z: "zlib_compress example_zlib payload = payload" by (simp add: example_zlib_def)
  have pack: "\<exists>b. pack_msr2_header (h\<lparr>r2_metadata_ciphertext_length := n\<rparr>) = Inr b" if "n < 256 ^ 4" for n
    using that by (simp add: pack_msr2_header_def struct_pack_def msr2_values_def h_def DEFAULT_CHUNKING_def)
  have "\<exists>header ct. seal_metadata ?c example_zlib ?rnd key h payload = Inr (header, ct)
      \<and> length ct < length (zlib_compress example_zlib payload) + 37 + r2_padding_size h"
    by (rule seal_metadata_total) (use payload(2) pack hf rl example_crypto_laws z in simp_all)
  then obtain header ct where seal: "seal_metadata ?c example_zlib ?rnd key h payload = Inr (header, ct)" and ct: "length ct < 1000"
    using payload(2) by (auto simp: z hf)
  let ?cand = "\<lparr>lc_codec = SOLID_CODEC_RAW, lc_compressed_size = 3, lc_payload = [1, 2, 3], lc_frame_count = 1\<rparr>"
    and ?none = "\<lparr>lc_codec = SOLID_CODEC_LZMA2, lc_compressed_size = 0, lc_payload = [], lc_frame_count = 0\<rparr>"
  let ?ctx = "lane_ctx ?c key h header ct"
  let ?job = "\<lparr>mj_manifest = example_pair_manifest, mj_unique_count = 1, mj_head = header @ ct, mj_ctx = ?ctx,
      mj_lanes = [(0, 3, ?cand), (1, 0, ?none), (2, 0, ?none)]\<rparr>"
  have sp: "fold (spool_unique_chunk ?c (cl_log2 example_clib)) (cs_unique s) empty_spool
      = \<lparr>sp_lanes = [[1, 2, 3], [], []], sp_raw_sizes = [3, 0, 0], sp_assignments = [0]\<rparr>" by (simp add: u example_spool)
  have lanes: "[0..<LANE_COUNT] = [0, 1, 2]" by (simp add: upt_rec)
  have plan: "plan_msr2 ?c example_zlib example_stream_lib ?rnd (PBytes [112]) DEFAULT_CHUNKING 1048576 256 14
      example_pair_manifest (fold (spool_unique_chunk ?c (cl_log2 example_clib)) (cs_unique s) empty_spool) = Inr ?job"
    unfolding sp plan_msr2_def lanes example_pair_setup
    using key example_candidate payload(1) seal[unfolded h_def] by (simp add: empty_candidate h_def Let_def)
  have valid: "validate_solid_options (?ctx\<lparr>lx_lane := 0\<rparr>) = Inr ()"
    by (simp add: validate_solid_options_def lane_ctx_def hf)
  have "\<exists>out stats. write_precompressed_solid_lane_frames ?c (\<lambda>i. ?rnd (i + 2)) (?ctx\<lparr>lx_lane := 0\<rparr>) [1, 2, 3] (int (length [1 :: byte, 2, 3])) (int 1)
      = Inr (out, stats)"
    by (rule write_precompressed_total[OF valid]) (use rl in simp_all)
  then obtain out stats where w: "write_precompressed_solid_lane_frames ?c (\<lambda>i. ?rnd (i + 2)) (?ctx\<lparr>lx_lane := 0\<rparr>) [1, 2, 3]
      (int (length [1 :: byte, 2, 3])) (int 1) = Inr (out, stats)" by blast
  have "fw_frame_count stats = 1"
    using framed_size_exact[OF w example_crypto_laws(1)] rl by (simp add: lane_ctx_def hf)
  with w have "\<exists>w. write_lanes ?c (\<lambda>i. ?rnd (i + 2)) ?ctx 1 [(0, 3, ?cand), (1, 0, ?none), (2, 0, ?none)] = Inr w \<and> lw_frame_count w = 1"
    by simp
  moreover have "msr2_metadata_length ((header @ ct) @ lw_bytes w) \<le> MAX_METADATA_CIPHERTEXT" for w
  proof -
    have head: "pack_msr2_header (h\<lparr>r2_metadata_ciphertext_length := length ct\<rparr>) = Inr header"
      using seal_metadata_open[OF seal rl(1) example_crypto_laws(1)] payload(2) by simp
    from msr2_metadata_length_pack[OF head, of "ct @ lw_bytes w"] ct hf show ?thesis by simp
  qed
  ultimately show ?thesis using plan by auto
qed

lemma pair_view_msr2:
  assumes v: "pair_view v"
  obtains stats fs1 where "encode_solid_archive_v2 example_crypto example_clib example_stream_lib ascii_tables example_os example_fs
      (lit ''src'') True (Inr v) (lit ''arc'') (PBytes [112]) DEFAULT_CHUNKING 1048576 256 14 = (Inr stats, fs1)"
    and "v2e_original_size stats = 6" and "v2e_unique_chunk_count stats = 1" and "v2e_frame_count stats = 1"
    and "\<forall>f. fs_files fs1 (lit ''arc'') = Some f \<longrightarrow> msr2_readable example_crypto ascii_tables v DEFAULT_CHUNKING (fl_bytes f)"
    and "os_law fs1 example_os'" and "fresh_path fs1 (lit ''out'')" and "fs_resolve fs1 = fs_resolve example_fs"
proof -
  obtain s where scan: "scan_manifest example_crypto ascii_tables v DEFAULT_CHUNKING = Inr (example_pair_manifest, s)"
    and u: "cs_unique s = [[1, 2, 3]]" using pair_view_scan[OF v] by blast
  from example_plan[OF u] obtain job w where
    plan: "plan_msr2 example_crypto example_zlib example_stream_lib (oc_random example_os) (PBytes [112]) DEFAULT_CHUNKING 1048576 256 14
      example_pair_manifest (fold (spool_unique_chunk example_crypto (cl_log2 example_clib)) (cs_unique s) empty_spool) = Inr job"
    and mj: "mj_manifest job = example_pair_manifest" "mj_unique_count job = 1"
    and ct: "msr2_metadata_length (mj_head job @ lw_bytes w) \<le> MAX_METADATA_CIPHERTEXT"
    and w: "write_lanes example_crypto (\<lambda>i. oc_random example_os (i + 2)) (mj_ctx job) 1 (mj_lanes job) = Inr w" "lw_frame_count w = 1"
    by blast
  have chk: "check_msr2_request example_fs (lit ''src'') True (Inr v) (lit ''arc'') 1048576 256 14 = Inr v"
    by (simp add: check_msr2_request_def check_msr2_options_def check_session_output_def example_pair_setup)
  have prep: "prepare_msr2 example_crypto example_clib example_stream_lib ascii_tables example_os (PBytes [112]) DEFAULT_CHUNKING 1048576 256 14 v
      = Inr job"
    using plan scan by (simp add: prepare_msr2_def example_clib_def)
  let ?stats = "msr2_stats job w"
  let ?fs = "with_parents example_fs (lit ''arc'')"
  let ?pub = "publish_file ?fs example_os (lit ''arc'') (mj_head job @ lw_bytes w, Inr ?stats) (\<lambda>_. sv_verify v)"
  have free: "parents_free example_fs (lit ''arc'')" "\<not> is_folder example_fs (lit ''arc'')"
    using example_pair_setup(4) by (simp_all add: writable_path_def)
  then have "fst ?pub = Inr ?stats" using v by (simp add: publish_file_def pair_view_def Let_def)
  then obtain fs1 where pub: "?pub = (Inr ?stats, fs1)" by (metis prod.collapse)
  have enc: "encode_solid_archive_v2 example_crypto example_clib example_stream_lib ascii_tables example_os example_fs
      (lit ''src'') True (Inr v) (lit ''arc'') (PBytes [112]) DEFAULT_CHUNKING 1048576 256 14 = (Inr ?stats, fs1)"
    using chk prep w pub free by (simp add: encode_solid_archive_v2_def make_parents_free)
  obtain mp where mp: "serialize_dedup_manifest example_pair_manifest = Inr mp" "length mp < 1000" using example_pair_serialize by blast
  have fs1: "fs1 = published example_fs (lit ''arc'')
      \<lparr>fl_id = oc_identity example_os, fl_bytes = mj_head job @ lw_bytes w, fl_meta = None\<rparr>"
    using publish_file_success[OF pub example_msc1_names(2)] example_os_law by simp
  show thesis
    by (rule that[OF enc])
      (use mp ct scan w mj in \<open>simp_all add: msr2_stats_def example_pair_setup fs1 msr2_readable_def published_example\<close>)
qed

lemmas example_msr2_encodes = pair_view_msr2[OF example_pair_view]

definition example_lane_ctx :: solid_ctx where
  "example_lane_ctx = \<lparr>lx_key = replicate 32 0, lx_nonce_prefix = [1, 2, 3, 4], lx_associated_data = [],
     lx_lane = STANDARD, lx_frame_payload_size = 1048576, lx_padding_size = 256\<rparr>"

section \<open>Properties\<close>

text \<open>C5: MSR2 restores what it stored: for every source that is seen as a session shows a quiet tree and whose names are in Unicode normal form C (\<open>portable_view\<close>) and whose chunks the digest tells apart, the archive that an encode published decodes, under the same password and sufficient limits, at a free destination, to exactly the source as the encoder's only pass read it, with every lane compressed or raw as the encoder chose; inspecting it reports the same and leaves the file system as it was. The archive must lie within limits that the reader has and the encoder does not check: at most 1000000 frames, a manifest in the limits of MSC6 and at most 64 MiB of sealed metadata (\<^verbatim>\<open>msr2_readable\<close>).\<close>

lemma msr2_roundtrip:
  assumes "encode_solid_archive_v2 c l lib u os fs source is_dir (Inr view) archive password config fps padding log_n = (Inr stats, fs1)"
    and "aead_law c" "digest_law c" "stream_law lib" "\<forall>b. zlib_ends (cl_zlib l) b" "os_law fs os" "os_law fs1 os'"
    and "portable_view u view" and "valid_chunking config" and "inj_on (sha256 c) (scanned_chunks c config view)"
    and "archive \<noteq> oc_temporary os" "restored \<noteq> oc_temporary os'" and "fresh_path fs1 restored"
    and "fs_resolve fs1 archive \<noteq> fs_resolve fs1 restored"
    and "\<forall>f. fs_files fs1 archive = Some f \<longrightarrow> msr2_readable c u view config (fl_bytes f)"
    and "int (v2e_original_size stats) \<le> mo" "int (v2e_frame_count stats) \<le> mf" "0 < mf" "v2e_frame_count stats \<le> 1000000"
  shows "\<exists>ds fs2. decode_solid_archive_v2 c (cl_zlib l) lib u os' fs1 archive restored password mo mf = (Inr ds, fs2)
    \<and> inspect_solid_archive_v2 c (cl_zlib l) lib u os' restored fs1 archive password mo mf = (Inr ds, fs1)
    \<and> v2d_original_size ds = v2e_original_size stats \<and> v2d_archive_size ds = v2e_archive_size stats
    \<and> v2d_unique_chunk_count ds = v2e_unique_chunk_count stats
    \<and> (if sv_root_is_file view
       then \<exists>se data. sv_entries view = [se] \<and> sv_read view 0 [] = Inr data
         \<and> fs2 = published fs1 restored \<lparr>fl_id = oc_identity os', fl_bytes = data,
             fl_meta = Some (S_IMODE (se_st_mode se) mod 512, se_mtime_ns se)\<rparr>
       else fs2 = folder_published fs1 restored (source_tree (first_pass view)))"
  using inspect_msr2_also[OF msr2_restores[OF assms] assms(13)] unfolding source_restored_def first_pass_simps .

lemma msr2_roundtrip_witness:
  "\<exists>stats fs1 ds fs2.
     encode_solid_archive_v2 example_crypto example_clib example_stream_lib ascii_tables example_os example_fs (lit ''src'') True
       (Inr example_pair) (lit ''arc'') (PBytes [112]) DEFAULT_CHUNKING 1048576 256 14 = (Inr stats, fs1)
     \<and> decode_solid_archive_v2 example_crypto example_zlib example_stream_lib ascii_tables example_os' fs1 (lit ''arc'') (lit ''out'')
         (PBytes [112]) 1000 1000 = (Inr ds, fs2)
     \<and> v2d_original_size ds = 6 \<and> v2d_unique_chunk_count ds = 1"
proof -
  obtain stats fs1 where enc: "encode_solid_archive_v2 example_crypto example_clib example_stream_lib ascii_tables example_os example_fs
      (lit ''src'') True (Inr example_pair) (lit ''arc'') (PBytes [112]) DEFAULT_CHUNKING 1048576 256 14 = (Inr stats, fs1)"
    and sizes: "v2e_original_size stats = 6" "v2e_unique_chunk_count stats = 1" "v2e_frame_count stats = 1"
    and rd: "\<forall>f. fs_files fs1 (lit ''arc'') = Some f \<longrightarrow> msr2_readable example_crypto ascii_tables example_pair DEFAULT_CHUNKING (fl_bytes f)"
    and os1: "os_law fs1 example_os'" and new: "fresh_path fs1 (lit ''out'')" and res: "fs_resolve fs1 = fs_resolve example_fs"
    by (rule example_msr2_encodes)
  have zl: "cl_zlib example_clib = example_zlib" "\<forall>b. zlib_ends (cl_zlib example_clib) b" by (simp_all add: example_clib_def)
  have apart: "fs_resolve fs1 (lit ''arc'') \<noteq> fs_resolve fs1 (lit ''out'')" by (simp add: res example_fs_def lit_def)
  have limits: "int (v2e_original_size stats) \<le> 1000" "int (v2e_frame_count stats) \<le> 1000" "(0 :: int) < 1000" "v2e_frame_count stats \<le> 1000000"
    by (simp_all add: sizes)
  from msr2_roundtrip[OF enc example_crypto_laws example_stream_law zl(2) example_os_law os1 example_pair_portable example_config(1)
    example_solid_strings example_msc1_names(2,3) new apart rd limits]
  obtain ds fs2 where "decode_solid_archive_v2 example_crypto (cl_zlib example_clib) example_stream_lib ascii_tables example_os' fs1
      (lit ''arc'') (lit ''out'') (PBytes [112]) 1000 1000 = (Inr ds, fs2)" "v2d_original_size ds = v2e_original_size stats"
    "v2d_unique_chunk_count ds = v2e_unique_chunk_count stats" by blast
  with enc sizes zl(1) show ?thesis by auto
qed

text \<open>C40: MSR2 stores each lane in the form that takes fewer bytes in the archive: the frames that are written are exactly as long as the smaller of the framed compressed and the framed raw lane, padding, nonce counters and tags included, and as many as the metadata declares.\<close>

lemma lanes_stored_minimal:
  assumes "compress_candidate lib fps ps lane raw (length raw) = Inr k" and "raw \<noteq> []"
    and "write_precompressed_solid_lane_frames c rnd ctx (lc_payload k) (int (lc_compressed_size k)) start = Inr (out, stats)"
    and "lx_frame_payload_size ctx = fps" "lx_padding_size ctx = ps" "lx_lane ctx = lane"
    and "aead_law c" "\<forall>k. random_law (rnd k)" "stream_law lib" "0 \<le> start"
  shows "\<exists>compressed n r. compress_solid_lane lib raw lane True (Some (preferred_codec lane)) = Inr compressed
    \<and> solid_lane_framed_size (int (length compressed)) fps ps = Inr n \<and> solid_lane_framed_size (int (length raw)) fps ps = Inr r
    \<and> length out = min n r \<and> fw_frame_count stats = lc_frame_count k"
  by (rule candidate_minimal[OF assms])

lemma lanes_stored_minimal_witness:
  "\<exists>out stats n. write_precompressed_solid_lane_frames example_crypto (\<lambda>i. oc_random example_os (i + 2)) example_lane_ctx [1, 2, 3] 3 1
      = Inr (out, stats) \<and> solid_lane_framed_size 3 1048576 256 = Inr n \<and> length out \<le> n \<and> fw_frame_count stats = 1"
proof -
  let ?rnd = "\<lambda>i. oc_random example_os (i + 2)"
    and ?k = "\<lparr>lc_codec = SOLID_CODEC_RAW, lc_compressed_size = 3, lc_payload = [1, 2, 3], lc_frame_count = 1\<rparr>"
  have rl: "\<forall>k. random_law (?rnd k)" using example_os_law by (simp add: os_law_def)
  have "validate_solid_options example_lane_ctx = Inr ()" by (simp add: validate_solid_options_def example_lane_ctx_def)
  from write_precompressed_total[OF this rl, of 1 "[1, 2, 3]" example_crypto] obtain out stats where
    w: "write_precompressed_solid_lane_frames example_crypto ?rnd example_lane_ctx [1, 2, 3] 3 1 = Inr (out, stats)" by auto
  have "length [1 :: byte, 2, 3] = 3" by simp
  then have "compress_candidate example_stream_lib 1048576 256 STANDARD [1, 2, 3] (length [1 :: byte, 2, 3]) = Inr ?k"
    by (simp only: example_candidate)
  from lanes_stored_minimal[OF this _ _ _ _ _ example_crypto_laws(1) rl example_stream_law, of example_lane_ctx 1 out stats] w
  show ?thesis by (auto simp: example_lane_ctx_def)
qed

end
