(* ===== verification/SourceIdentity.thy ===== *)
theory SourceIdentity
  imports Manifest "HOL-Library.List_Lexorder" "HOL-Library.Product_Lexorder"
begin

text \<open>
  The source session of the encoders (\<^verbatim>\<open>source_identity.py\<close>). Other processes may change the
  source at any time, so the session runs against a history: the state of the file system at every
  instant. Each call of the operating system happens at an instant of its own, which the functions
  thread; nothing relates one instant to the next. The lemmas show that a verification always
  ends and what a successful one has observed, that a read is bound to the captured identity, and
  that on a tree nobody touches the session finds exactly the tree and gives the encoders the
  portable view their round trips assume.
\<close>

section \<open>The operating system\<close>

text \<open>\<^verbatim>\<open>os.stat_result\<close>, as far as the module looks at it. \<^verbatim>\<open>st_file_attributes\<close> is zero where it is missing.\<close>

record os_stat =
  os_dev :: nat
  os_ino :: nat
  os_mode :: nat
  os_size :: nat
  os_mtime_ns :: int
  os_ctime_ns :: int
  os_birthtime_ns :: "int option"
  os_file_attributes :: nat

text \<open>A missing path is \<^verbatim>\<open>FileNotFoundError\<close> or \<^verbatim>\<open>NotADirectoryError\<close>; other failures of \<^verbatim>\<open>stat\<close>.\<close>

datatype stat_error = Missing | StatFailed string

text \<open>
  An opened file: what \<^verbatim>\<open>fstat\<close> says before and after the read, and the bytes read.
\<close>

record os_handle =
  oh_opened :: os_stat
  oh_bytes :: bytes
  oh_after :: os_stat

text \<open>
  One instant: \<^verbatim>\<open>lstat\<close>, the names that \<^verbatim>\<open>os.scandir\<close> yields and opening without following a link,
  for paths given by their components below the source.
\<close>

record source_world =
  sw_stat :: "pystr list \<Rightarrow> stat_error + os_stat"
  sw_scandir :: "pystr list \<Rightarrow> pystr list result"
  sw_open :: "pystr list \<Rightarrow> os_handle result"

type_synonym history = "nat \<Rightarrow> source_world"

section \<open>Identities\<close>

abbreviation REPARSE_POINT where "REPARSE_POINT \<equiv> (1024 :: nat)"

definition is_link_or_reparse :: "os_stat \<Rightarrow> bool" where
  "is_link_or_reparse metadata \<longleftrightarrow>
     S_ISLNK (os_mode metadata) \<or> os_file_attributes metadata AND REPARSE_POINT \<noteq> 0"

text \<open>A \<^verbatim>\<open>SourceIdentity\<close> is the metadata it was captured from.\<close>

definition capture :: "os_stat \<Rightarrow> os_stat result" where
  "capture metadata =
     (if os_ino metadata = 0
      then Inl (OSError ''the filesystem does not expose a stable source identity'') else Inr metadata)"

definition matches_common :: "os_stat \<Rightarrow> os_stat \<Rightarrow> bool" where
  "matches_common identity metadata =
     (if os_dev identity \<noteq> os_dev metadata \<or> os_ino identity \<noteq> os_ino metadata then False
      else if S_IFMT (os_mode identity) \<noteq> S_IFMT (os_mode metadata) then False
      else if S_IMODE (os_mode identity) \<noteq> S_IMODE (os_mode metadata) then False
      else if os_birthtime_ns identity \<noteq> None \<and> os_birthtime_ns identity \<noteq> os_birthtime_ns metadata then False
      else if os_mtime_ns identity \<noteq> os_mtime_ns metadata then False
      else \<not> S_ISREG (os_mode identity) \<or> os_size identity = os_size metadata)"

definition matches_path :: "os_stat \<Rightarrow> os_stat \<Rightarrow> bool" where
  "matches_path identity metadata \<longleftrightarrow>
     matches_common identity metadata \<and> os_ctime_ns identity = os_ctime_ns metadata"

text \<open>\<open>nt\<close> says whether \<^verbatim>\<open>os.name\<close> is \<^verbatim>\<open>"nt"\<close>.\<close>

definition matches_handle :: "bool \<Rightarrow> os_stat \<Rightarrow> os_stat \<Rightarrow> bool" where
  "matches_handle nt identity metadata =
     (if \<not> matches_common identity metadata then False
      else nt \<or> os_ctime_ns identity = os_ctime_ns metadata)"

datatype SourceEntry =
  SourceEntry (sn_relative_path: pystr) (sn_is_directory: bool) (sn_identity: os_stat)
    (sn_path: "pystr list") (sn_parent: "SourceEntry option")

section \<open>Discovery\<close>

definition initial_metadata :: "history \<Rightarrow> nat \<Rightarrow> os_stat result" where
  "initial_metadata h t =
     (case sw_stat (h t) [] of
        Inl Missing \<Rightarrow> Inl (FileNotFoundError ''input path does not exist'')
      | Inl (StatFailed e) \<Rightarrow> Inl (OSError e)
      | Inr metadata \<Rightarrow>
          if is_link_or_reparse metadata
          then Inl (ValueError ''symbolic links and reparse points are not supported'') else Inr metadata)"

definition require_binding :: "history \<Rightarrow> nat \<Rightarrow> SourceEntry \<Rightarrow> os_stat result" where
  "require_binding h t entry =
     (case sw_stat (h t) (sn_path entry) of
        Inl _ \<Rightarrow> Inl (OSError ''input source identity changed'')
      | Inr metadata \<Rightarrow>
          if is_link_or_reparse metadata \<or> \<not> matches_path (sn_identity entry) metadata
          then Inl (OSError ''input source identity changed'') else Inr metadata)"

text \<open>The chain of ancestors, from the parent to the root; the result is the next instant.\<close>

fun require_ancestor_bindings :: "history \<Rightarrow> nat \<Rightarrow> SourceEntry \<Rightarrow> nat result" where
  "require_ancestor_bindings h t (SourceEntry relative is_dir identity path None) = Inr t"
| "require_ancestor_bindings h t (SourceEntry relative is_dir identity path (Some ancestor)) =
     bindR (require_binding h t ancestor) (\<lambda>_. require_ancestor_bindings h (Suc t) ancestor)"

definition child_relative :: "SourceEntry \<Rightarrow> pystr \<Rightarrow> pystr" where
  "child_relative current name =
     (if sn_relative_path current = [] then name else sn_relative_path current @ [SLASH] @ name)"

text \<open>The entries of one directory; every \<^verbatim>\<open>OSError\<close> becomes the same one.\<close>

fun discover_children ::
  "history \<Rightarrow> nat \<Rightarrow> SourceEntry \<Rightarrow> pystr list \<Rightarrow> (SourceEntry list \<times> nat) result" where
  "discover_children h t current [] = Inr ([], t)"
| "discover_children h t current (name # names) =
     (let path = sn_path current @ [name]
      in case sw_stat (h t) path of
           Inl _ \<Rightarrow> Inl (OSError ''input changed while it was discovered'')
         | Inr metadata \<Rightarrow>
             if is_link_or_reparse metadata
             then Inl (ValueError ''symbolic links and reparse points are not supported'')
             else let is_dir = S_ISDIR (os_mode metadata)
             in if \<not> is_dir \<and> \<not> S_ISREG (os_mode metadata)
                then Inl (ValueError ''special files are not supported'')
                else bindR (reraise (OSError ''input changed while it was discovered'') (capture metadata))
                  (\<lambda>identity.
                    let entry = SourceEntry (child_relative current name) is_dir identity path (Some current)
                    in bindR (discover_children h (Suc t) current names) (\<lambda>(children, t).
                         Inr (entry # children, t))))"

fun index_entries :: "SourceEntry list \<Rightarrow> (pystr \<rightharpoonup> SourceEntry) \<Rightarrow> (pystr \<rightharpoonup> SourceEntry)" where
  "index_entries [] by_path = by_path"
| "index_entries (e # es) by_path = index_entries es (by_path(sn_relative_path e \<mapsto> e))"

text \<open>
  The traversal with its stack, the top of the stack first. Against a history in which
  directories keep appearing it need not end, hence the fuel: one unit per directory.
\<close>

fun discover_directory ::
  "history \<Rightarrow> nat \<Rightarrow> nat \<Rightarrow> SourceEntry list \<Rightarrow> (pystr \<rightharpoonup> SourceEntry) \<Rightarrow> SourceEntry list
     \<Rightarrow> ((pystr \<rightharpoonup> SourceEntry) \<times> SourceEntry list \<times> nat) result" where
  "discover_directory h fuel t [] by_path discovered = Inr (by_path, discovered, t)"
| "discover_directory h 0 t (current # pending) by_path discovered = Inl OutOfFuel"
| "discover_directory h (Suc fuel) t (current # pending) by_path discovered =
     bindR (reraise (OSError ''input changed while it was discovered'') (sw_scandir (h t) (sn_path current))) (\<lambda>names.
     bindR (discover_children h (Suc t) current names) (\<lambda>(children, t).
     bindR (require_binding h t current) (\<lambda>_.
       discover_directory h fuel (Suc t) (rev (filter sn_is_directory children) @ pending)
         (index_entries children by_path) (discovered @ children))))"

definition entry_sort_key :: "unicode \<Rightarrow> SourceEntry \<Rightarrow> nat \<times> pystr \<times> bool \<times> pystr" where
  "entry_sort_key u e =
     (count_list (sn_relative_path e) SLASH, casefold u (sn_relative_path e), \<not> sn_is_directory e,
      sn_relative_path e)"

record SourceSession =
  ss_name :: pystr
  ss_root_is_file :: bool
  ss_by_path :: "pystr \<rightharpoonup> SourceEntry"
  ss_entries :: "SourceEntry list"

text \<open>\<open>name\<close> is the last component of the anchored source path. The result carries the next instant.\<close>

definition source_session ::
  "history \<Rightarrow> unicode \<Rightarrow> nat \<Rightarrow> nat \<Rightarrow> pystr \<Rightarrow> (SourceSession \<times> nat) result" where
  "source_session h u fuel t name =
     bindR (initial_metadata h t) (\<lambda>root_metadata.
     let root_is_file = S_ISREG (os_mode root_metadata)
     in if \<not> root_is_file \<and> \<not> S_ISDIR (os_mode root_metadata)
        then Inl (ValueError ''input is neither a regular file nor a directory'')
        else bindR (capture root_metadata) (\<lambda>identity.
          let root = SourceEntry [] (\<not> root_is_file) identity [] None
          in if root_is_file
             then Inr (\<lparr>ss_name = name, ss_root_is_file = True, ss_by_path = [[] \<mapsto> root], ss_entries = [root]\<rparr>, Suc t)
             else bindR (discover_directory h fuel (Suc t) [root] [[] \<mapsto> root] []) (\<lambda>(by_path, discovered, t).
               Inr (\<lparr>ss_name = name, ss_root_is_file = False, ss_by_path = by_path,
                     ss_entries = sort_key (entry_sort_key u) discovered\<rparr>, t))))"

section \<open>Lookups, reads, verification\<close>

definition lookup_entry :: "SourceSession \<Rightarrow> pystr \<Rightarrow> SourceEntry result" where
  "lookup_entry s relative =
     (case ss_by_path s relative of None \<Rightarrow> Inl (KeyError ''source entry was not discovered'') | Some e \<Rightarrow> Inr e)"

definition path_for :: "SourceSession \<Rightarrow> pystr \<Rightarrow> pystr list result" where
  "path_for s relative = bindR (lookup_entry s relative) (\<lambda>e. Inr (sn_path e))"

definition identity_for :: "SourceSession \<Rightarrow> pystr \<Rightarrow> os_stat result" where
  "identity_for s relative = bindR (lookup_entry s relative) (\<lambda>e. Inr (sn_identity e))"

text \<open>
  \<^verbatim>\<open>open_file\<close> with a client that reads to the end and does not fail itself. The instant of
  the open is the one behind the checks of the ancestors.
\<close>

definition open_file :: "history \<Rightarrow> bool \<Rightarrow> nat \<Rightarrow> SourceSession \<Rightarrow> pystr \<Rightarrow> bytes result" where
  "open_file h nt t s relative =
     bindR (lookup_entry s relative) (\<lambda>entry.
       if sn_is_directory entry then Inl (OSError ''source entry is a directory'')
       else bindR (require_ancestor_bindings h t entry) (\<lambda>t.
         bindR (reraise (OSError ''input source identity changed'') (sw_open (h t) (sn_path entry))) (\<lambda>handle.
           if is_link_or_reparse (oh_opened handle) \<or> \<not> matches_handle nt (sn_identity entry) (oh_opened handle)
           then Inl (OSError ''input source identity changed'')
           else if \<not> matches_handle nt (sn_identity entry) (oh_after handle)
           then Inl (OSError ''input changed while it was read'')
           else Inr (oh_bytes handle))))"

fun verify_children ::
  "history \<Rightarrow> nat \<Rightarrow> SourceSession \<Rightarrow> SourceEntry \<Rightarrow> pystr set \<Rightarrow> pystr list
     \<Rightarrow> (SourceEntry list \<times> pystr set \<times> nat) result" where
  "verify_children h t s directory seen [] = Inr ([], seen, t)"
| "verify_children h t s directory seen (name # names) =
     (let relative = child_relative directory name
      in case ss_by_path s relative of
           None \<Rightarrow> Inl (OSError ''input source topology changed'')
         | Some expected \<Rightarrow>
             if relative \<in> seen then Inl (OSError ''input source topology changed'')
             else (case sw_stat (h t) (sn_path expected) of
               Inl _ \<Rightarrow> Inl (OSError ''input source topology changed'')
             | Inr metadata \<Rightarrow>
                 if is_link_or_reparse metadata
                    \<or> sn_is_directory expected \<noteq> S_ISDIR (os_mode metadata)
                    \<or> \<not> matches_path (sn_identity expected) metadata
                 then Inl (OSError ''input source topology changed'')
                 else bindR (verify_children h (Suc t) s directory (insert relative seen) names)
                   (\<lambda>(directories, seen, t).
                     Inr (if sn_is_directory expected then expected # directories else directories, seen, t))))"

fun verify_directories ::
  "history \<Rightarrow> nat \<Rightarrow> nat \<Rightarrow> SourceSession \<Rightarrow> pystr set \<Rightarrow> SourceEntry list \<Rightarrow> (pystr set \<times> nat) result" where
  "verify_directories h fuel t s seen [] = Inr (seen, t)"
| "verify_directories h 0 t s seen (directory # pending) = Inl OutOfFuel"
| "verify_directories h (Suc fuel) t s seen (directory # pending) =
     bindR (reraise (OSError ''input source topology changed'') (sw_scandir (h t) (sn_path directory))) (\<lambda>names.
     bindR (verify_children h (Suc t) s directory seen names) (\<lambda>(directories, seen, t).
     bindR (require_binding h t directory) (\<lambda>_.
       verify_directories h fuel (Suc t) s seen (rev directories @ pending))))"

text \<open>The fuel of a verification: no directory is entered twice.\<close>

definition verify_bindings :: "history \<Rightarrow> nat \<Rightarrow> SourceSession \<Rightarrow> nat result" where
  "verify_bindings h t s =
     bindR (lookup_entry s []) (\<lambda>root.
     bindR (require_binding h t root) (\<lambda>_.
       if ss_root_is_file s then Inr (Suc t)
       else bindR (verify_directories h (2 + length (ss_entries s)) (Suc t) s {[]} [root]) (\<lambda>(seen, t).
         if seen \<noteq> dom (ss_by_path s) then Inl (OSError ''input source topology changed'') else Inr t)))"

section \<open>What the traversal indexes\<close>

lemma dom_index_entries: "dom (index_entries es m) = dom m \<union> sn_relative_path ` set es"
  by (induction es arbitrary: m) auto

lemma discover_dom:
  "discover_directory h fuel t pending bp d = Inr (bp', d', t') \<Longrightarrow>
   dom bp = insert [] (sn_relative_path ` set d) \<Longrightarrow> dom bp' = insert [] (sn_relative_path ` set d')"
proof (induction h fuel t pending bp d rule: discover_directory.induct)
  case (3 h fuel t current pending bp d)
  from 3(2) obtain names children t1 md where
    names: "reraise (OSError ''input changed while it was discovered'') (sw_scandir (h t) (sn_path current)) = Inr names"
    and ch: "discover_children h (Suc t) current names = Inr (children, t1)" and md: "require_binding h t1 current = Inr md"
    and r: "discover_directory h fuel (Suc t1) (rev (filter sn_is_directory children) @ pending)
      (index_entries children bp) (d @ children) = Inr (bp', d', t')"
    by (auto simp: bindR_eq_Inr)
  from 3(1)[OF names ch refl md r] 3(3) show ?case by (auto simp: dom_index_entries)
qed auto

definition session_wf :: "SourceSession \<Rightarrow> bool" where
  "session_wf s \<longleftrightarrow> [] \<in> dom (ss_by_path s) \<and> finite (dom (ss_by_path s))
     \<and> card (dom (ss_by_path s)) \<le> Suc (length (ss_entries s))"

lemma source_session_wf:
  assumes "source_session h u fuel t name = Inr (s, t')"
  shows "session_wf s"
proof -
  from assms obtain md where "initial_metadata h t = Inr md" by (auto simp: source_session_def bindR_eq_Inr)
  show ?thesis
  proof (cases "ss_root_is_file s")
    case True
    with assms show ?thesis
      by (auto simp: source_session_def session_wf_def Let_def bindR_eq_Inr split: if_split_asm)
  next
    case False
    with assms obtain root bp d t1 where
      d: "discover_directory h fuel t1 [root] [[] \<mapsto> root] [] = Inr (bp, d, t')"
      and s: "ss_by_path s = bp" "ss_entries s = sort_key (entry_sort_key u) d"
      by (auto simp: source_session_def Let_def bindR_eq_Inr split: if_split_asm)
    from discover_dom[OF d] have dom: "dom bp = insert [] (sn_relative_path ` set d)" by simp
    have "card (insert [] (sn_relative_path ` set d)) \<le> Suc (card (sn_relative_path ` set d))"
      by (rule card_insert_le_m1) simp_all
    also have "card (sn_relative_path ` set d) \<le> length d" by (rule le_trans[OF card_image_le card_length]) simp
    finally show ?thesis by (simp add: session_wf_def s dom)
  qed
qed

section \<open>Verification ends\<close>

text \<open>An entry that was seen with its captured identity between two instants.\<close>

definition observed :: "history \<Rightarrow> nat \<Rightarrow> nat \<Rightarrow> SourceEntry \<Rightarrow> bool" where
  "observed h t t' e \<longleftrightarrow> (\<exists>\<tau> md. t \<le> \<tau> \<and> \<tau> < t' \<and> sw_stat (h \<tau>) (sn_path e) = Inr md
     \<and> \<not> is_link_or_reparse md \<and> matches_path (sn_identity e) md)"

text \<open>A directory whose listing between two instants had only known names.\<close>

definition listed :: "history \<Rightarrow> nat \<Rightarrow> nat \<Rightarrow> SourceSession \<Rightarrow> SourceEntry \<Rightarrow> bool" where
  "listed h t t' s e \<longleftrightarrow> (\<exists>\<tau> names. t \<le> \<tau> \<and> \<tau> < t' \<and> sw_scandir (h \<tau>) (sn_path e) = Inr names
     \<and> (\<forall>name\<in>set names. child_relative e name \<in> dom (ss_by_path s)))"

lemma observed_mono: "observed h t1 t2 e \<Longrightarrow> t \<le> t1 \<Longrightarrow> t2 \<le> t' \<Longrightarrow> observed h t t' e"
  unfolding observed_def by (meson le_trans less_le_trans)

lemma listed_mono: "listed h t1 t2 s e \<Longrightarrow> t \<le> t1 \<Longrightarrow> t2 \<le> t' \<Longrightarrow> listed h t t' s e"
  unfolding listed_def by (meson le_trans less_le_trans)

lemma require_binding_observed: "require_binding h t e = Inr md \<Longrightarrow> observed h t (Suc t) e"
  by (auto simp: require_binding_def observed_def split: sum.splits if_splits intro!: exI[of _ t])

lemma verify_children_ConsE:
  assumes "verify_children h t s directory seen (name # names) = Inr (ds, seen', t')"
  obtains e ds' where "ss_by_path s (child_relative directory name) = Some e" "child_relative directory name \<notin> seen"
    "observed h t (Suc t) e"
    "verify_children h (Suc t) s directory (insert (child_relative directory name) seen) names = Inr (ds', seen', t')"
    "ds = (if sn_is_directory e then e # ds' else ds')"
proof -
  let ?r = "child_relative directory name"
  obtain e where e: "ss_by_path s ?r = Some e" using assms by (cases "ss_by_path s ?r") (simp_all add: Let_def)
  have new: "?r \<notin> seen" using assms e by (cases "?r \<in> seen") (simp_all add: Let_def)
  obtain md where md: "sw_stat (h t) (sn_path e) = Inr md"
    using assms e new by (cases "sw_stat (h t) (sn_path e)") (simp_all add: Let_def)
  have ok: "\<not> is_link_or_reparse md" "sn_is_directory e = S_ISDIR (os_mode md)" "matches_path (sn_identity e) md"
    using assms e new md by (simp_all add: Let_def split: if_split_asm)
  obtain ds' where r: "verify_children h (Suc t) s directory (insert ?r seen) names = Inr (ds', seen', t')"
    and ds: "ds = (if sn_is_directory e then e # ds' else ds')"
    using assms e new md ok by (auto simp: Let_def bindR_eq_Inr split: if_split_asm)
  have obs: "observed h t (Suc t) e" unfolding observed_def using md ok by blast
  show thesis by (rule that[OF e new obs r ds])
qed

lemma verify_children_result:
  assumes "verify_children h t s directory seen names = Inr (ds, seen', t')"
    and "finite (dom (ss_by_path s))" and "seen \<subseteq> dom (ss_by_path s)"
  shows "t \<le> t' \<and> seen \<subseteq> seen' \<and> seen' \<subseteq> dom (ss_by_path s)
    \<and> length ds + card (dom (ss_by_path s) - seen') \<le> card (dom (ss_by_path s) - seen)
    \<and> (\<forall>name\<in>set names. child_relative directory name \<in> dom (ss_by_path s))
    \<and> (\<forall>r e. r \<in> seen' - seen \<and> ss_by_path s r = Some e \<longrightarrow>
         observed h t t' e \<and> (sn_is_directory e \<longrightarrow> e \<in> set ds))"
  using assms
proof (induction names arbitrary: t seen ds)
  case (Cons name names)
  let ?r = "child_relative directory name" and ?D = "dom (ss_by_path s)"
  from verify_children_ConsE[OF Cons.prems(1)] obtain e ds' where e: "ss_by_path s ?r = Some e" "?r \<notin> seen"
    "observed h t (Suc t) e" and r: "verify_children h (Suc t) s directory (insert ?r seen) names = Inr (ds', seen', t')"
    and ds: "ds = (if sn_is_directory e then e # ds' else ds')" by metis
  have sub: "insert ?r seen \<subseteq> ?D" using Cons.prems(3) e by auto
  note ih = Cons.IH[OF r Cons.prems(2) sub]
  have "?D - seen = insert ?r (?D - insert ?r seen)" using e by auto
  then have "card (?D - seen) = Suc (card (?D - insert ?r seen))"
    using Cons.prems(2) by (metis Diff_iff card_insert_disjoint finite_Diff insertI1)
  then have cnt: "length ds + card (?D - seen') \<le> card (?D - seen)" using ih by (simp add: ds)
  have obs: "observed h t t' e' \<and> (sn_is_directory e' \<longrightarrow> e' \<in> set ds)"
    if "r \<in> seen' - seen" "ss_by_path s r = Some e'" for r e'
  proof (cases "r = ?r")
    case True
    then have "e' = e" using that e by simp
    then show ?thesis using observed_mono[OF e(3)] ih by (simp add: ds)
  next
    case False
    with that have "r \<in> seen' - insert ?r seen" by simp
    with ih that have "observed h (Suc t) t' e'" "sn_is_directory e' \<longrightarrow> e' \<in> set ds'" by blast+
    then show ?thesis using observed_mono by (auto simp: ds)
  qed
  have "t \<le> t'" "seen \<subseteq> seen'" "seen' \<subseteq> ?D" "\<forall>name\<in>set (name # names). child_relative directory name \<in> ?D"
    using ih e by auto
  with cnt obs show ?case by blast
qed simp

lemma verify_directories_ends:
  assumes "finite (dom (ss_by_path s))"
  shows "seen \<subseteq> dom (ss_by_path s) \<Longrightarrow> length pending + card (dom (ss_by_path s) - seen) \<le> fuel \<Longrightarrow>
    verify_directories h fuel t s seen pending \<noteq> Inl OutOfFuel"
proof (induction fuel arbitrary: t seen pending)
  case 0
  then show ?case by (cases pending) simp_all
next
  case (Suc fuel)
  show ?case
  proof (cases pending)
    case (Cons directory rest)
    have vc: "verify_children h t s directory seen names \<noteq> Inl OutOfFuel" for t seen names
      by (induction names arbitrary: t seen) (auto simp: Let_def bindR_eq_Inl split: option.splits sum.splits)
    have rb: "require_binding h t directory \<noteq> Inl OutOfFuel" for t
      by (auto simp: require_binding_def split: sum.splits)
    have rr: "reraise (OSError m) r \<noteq> Inl OutOfFuel" for m and r :: "pystr list result" by (cases r) simp_all
    show ?thesis
    proof
      assume "verify_directories h (Suc fuel) t s seen pending = Inl OutOfFuel"
      then obtain names ds seen' t1 where
        ch: "verify_children h (Suc t) s directory seen names = Inr (ds, seen', t1)"
        and r: "verify_directories h fuel (Suc t1) s seen' (rev ds @ rest) = Inl OutOfFuel"
        using vc rb rr unfolding Cons by (auto simp: bindR_eq_Inl)
      note res = verify_children_result[OF ch assms Suc.prems(1)]
      have "length (rev ds @ rest) + card (dom (ss_by_path s) - seen') \<le> fuel"
        using res Suc.prems(2) Cons by simp
      with Suc.IH[of seen'] res r show False by blast
    qed
  qed simp
qed

lemma verify_ends:
  assumes "session_wf s"
  shows "verify_bindings h t s \<noteq> Inl OutOfFuel"
proof -
  have f: "finite (dom (ss_by_path s))" "[] \<in> dom (ss_by_path s)" using assms by (simp_all add: session_wf_def)
  have "card (dom (ss_by_path s) - {[]}) = card (dom (ss_by_path s)) - 1" using f by (simp add: card_Diff_singleton)
  then have "length [root] + card (dom (ss_by_path s) - {[]}) \<le> 2 + length (ss_entries s)" for root :: SourceEntry
    using assms unfolding session_wf_def by simp linarith
  from verify_directories_ends[OF f(1) _ this] f(2) have
    "verify_directories h (2 + length (ss_entries s)) t s {[]} [root] \<noteq> Inl OutOfFuel" for t root by simp
  moreover have "require_binding h t root \<noteq> Inl OutOfFuel" for t root
    by (auto simp: require_binding_def split: sum.splits)
  ultimately show ?thesis
    unfolding verify_bindings_def lookup_entry_def by (auto simp: bindR_eq_Inl split: option.splits if_split_asm)
qed

section \<open>What a successful verification has seen\<close>

lemma verify_directories_sound:
  assumes "verify_directories h fuel t s seen pending = Inr (seen', t')"
    and "finite (dom (ss_by_path s))" and "seen \<subseteq> dom (ss_by_path s)"
  shows "t \<le> t' \<and> seen \<subseteq> seen' \<and> seen' \<subseteq> dom (ss_by_path s)
    \<and> (\<forall>e\<in>set pending. listed h t t' s e)
    \<and> (\<forall>r e. r \<in> seen' - seen \<and> ss_by_path s r = Some e \<longrightarrow>
         observed h t t' e \<and> (sn_is_directory e \<longrightarrow> listed h t t' s e))"
  using assms
proof (induction h fuel t s seen pending rule: verify_directories.induct)
  case (3 h fuel t s seen directory pending)
  from 3(2) obtain names ds seen1 t1 md where
    nm: "reraise (OSError ''input source topology changed'') (sw_scandir (h t) (sn_path directory)) = Inr names"
    and ch: "verify_children h (Suc t) s directory seen names = Inr (ds, seen1, t1)"
    and md: "require_binding h t1 directory = Inr md"
    and r: "verify_directories h fuel (Suc t1) s seen1 (rev ds @ pending) = Inr (seen', t')"
    by (auto simp: bindR_eq_Inr)
  note res = verify_children_result[OF ch 3(3,4)]
  have ih: "Suc t1 \<le> t' \<and> seen1 \<subseteq> seen' \<and> seen' \<subseteq> dom (ss_by_path s)
    \<and> (\<forall>e\<in>set (rev ds @ pending). listed h (Suc t1) t' s e)
    \<and> (\<forall>r e. r \<in> seen' - seen1 \<and> ss_by_path s r = Some e \<longrightarrow>
         observed h (Suc t1) t' e \<and> (sn_is_directory e \<longrightarrow> listed h (Suc t1) t' s e))"
    using res by (intro 3(1)[OF nm ch refl refl md r 3(3)]) blast
  have le: "t \<le> Suc t" "Suc t \<le> t1" "Suc t1 \<le> t'" using res ih by simp_all
  have sc: "sw_scandir (h t) (sn_path directory) = Inr names" using nm by (simp add: reraise_eq_Inr)
  have known: "\<forall>name\<in>set names. child_relative directory name \<in> dom (ss_by_path s)" using res by blast
  have "listed h t t' s directory"
    unfolding listed_def using sc known le by (intro exI[of _ t] exI[of _ names] conjI) simp_all
  moreover have pend: "listed h t t' s e" if "e \<in> set (rev ds @ pending)" for e
  proof -
    have "listed h (Suc t1) t' s e" using that ih by blast
    then show ?thesis by (rule listed_mono) (use le in simp_all)
  qed
  moreover have "observed h t t' e \<and> (sn_is_directory e \<longrightarrow> listed h t t' s e)"
    if "r \<in> seen' - seen" "ss_by_path s r = Some e" for r e
  proof (cases "r \<in> seen1")
    case True
    then have "r \<in> seen1 - seen" using that by blast
    with res that have ob: "observed h (Suc t) t1 e" and dir: "sn_is_directory e \<longrightarrow> e \<in> set ds" by blast+
    have "observed h t t' e" using ob by (rule observed_mono) (use le in simp_all)
    with dir pend show ?thesis by simp
  next
    case False
    with that have "r \<in> seen' - seen1" by blast
    with ih that have ob: "observed h (Suc t1) t' e" and li: "sn_is_directory e \<longrightarrow> listed h (Suc t1) t' s e" by blast+
    have "observed h t t' e" using ob by (rule observed_mono) (use le in simp_all)
    moreover have "listed h t t' s e" if "sn_is_directory e"
      by (rule listed_mono[OF mp[OF li that]]) (use le in simp_all)
    ultimately show ?thesis by blast
  qed
  moreover have "t \<le> t'" using le by simp
  moreover have "seen \<subseteq> seen'" "seen' \<subseteq> dom (ss_by_path s)" using res ih by blast+
  ultimately have "listed h t t' s directory" "\<forall>e\<in>set pending. listed h t t' s e" "t \<le> t'" "seen \<subseteq> seen'"
    "seen' \<subseteq> dom (ss_by_path s)" "\<forall>r e. r \<in> seen' - seen \<and> ss_by_path s r = Some e \<longrightarrow>
      observed h t t' e \<and> (sn_is_directory e \<longrightarrow> listed h t t' s e)" by (simp_all, blast)
  then show ?case by simp
qed auto

lemma verify_sound:
  assumes v: "verify_bindings h t s = Inr t'" and wf: "session_wf s"
  shows "(\<exists>root. ss_by_path s [] = Some root \<and> observed h t t' root)
    \<and> (\<not> ss_root_is_file s \<longrightarrow> (\<forall>r e. ss_by_path s r = Some e \<longrightarrow>
         observed h t t' e \<and> (sn_is_directory e \<or> r = [] \<longrightarrow> listed h t t' s e)))"
proof -
  from v obtain root md where root: "ss_by_path s [] = Some root" and rb: "require_binding h t root = Inr md"
    by (auto simp: verify_bindings_def lookup_entry_def bindR_eq_Inr split: option.splits)
  note ro = require_binding_observed[OF rb]
  show ?thesis
  proof (cases "ss_root_is_file s")
    case True
    with v root rb have "t' = Suc t" by (simp add: verify_bindings_def lookup_entry_def)
    with root ro True show ?thesis by blast
  next
    case False
    with v root rb obtain seen where
      r: "verify_directories h (2 + length (ss_entries s)) (Suc t) s {[]} [root] = Inr (seen, t')"
      and all: "seen = dom (ss_by_path s)"
      by (auto simp: verify_bindings_def lookup_entry_def bindR_eq_Inr split: if_split_asm)
    have "finite (dom (ss_by_path s))" "{[]} \<subseteq> dom (ss_by_path s)" using wf by (simp_all add: session_wf_def)
    note snd = verify_directories_sound[OF r this]
    have le: "t \<le> Suc t" "Suc t \<le> t'" using snd by simp_all
    have "observed h t t' e \<and> (sn_is_directory e \<or> q = [] \<longrightarrow> listed h t t' s e)"
      if e: "ss_by_path s q = Some e" for q e
    proof (cases "q = []")
      case True
      with e root have "e = root" by simp
      with snd have "listed h (Suc t) t' s e" by simp
      with observed_mono[OF ro] listed_mono[of h "Suc t" t' s e t t'] le \<open>e = root\<close> show ?thesis by simp
    next
      case False
      with e all have "q \<in> seen - {[]}" by auto
      with snd e have "observed h (Suc t) t' e" "sn_is_directory e \<longrightarrow> listed h (Suc t) t' s e" by blast+
      with False show ?thesis using observed_mono[of h "Suc t" t' e t t'] listed_mono[of h "Suc t" t' s e t t'] le by auto
    qed
    with root show ?thesis using observed_mono[OF ro] le by auto
  qed
qed

section \<open>What a read is bound to\<close>

fun ancestors :: "SourceEntry \<Rightarrow> SourceEntry list" where
  "ancestors (SourceEntry relative is_dir identity path None) = []"
| "ancestors (SourceEntry relative is_dir identity path (Some a)) = a # ancestors a"

lemma ancestors_observed:
  "require_ancestor_bindings h t e = Inr t' \<Longrightarrow> t \<le> t' \<and> (\<forall>a\<in>set (ancestors e). observed h t t' a)"
proof (induction h t e rule: require_ancestor_bindings.induct)
  case (2 h t relative is_dir identity path ancestor)
  then obtain md where md: "require_binding h t ancestor = Inr md"
    and r: "require_ancestor_bindings h (Suc t) ancestor = Inr t'" by (auto simp: bindR_eq_Inr)
  from 2(1)[OF md r] have ih: "Suc t \<le> t'" "\<forall>a\<in>set (ancestors ancestor). observed h (Suc t) t' a" by auto
  with observed_mono[OF require_binding_observed[OF md], of t t'] observed_mono[of h "Suc t" t' _ t t'] show ?case by auto
qed simp

lemma open_file_sound:
  assumes "open_file h nt t s relative = Inr data"
  shows "\<exists>e t' handle. ss_by_path s relative = Some e \<and> \<not> sn_is_directory e
    \<and> t \<le> t' \<and> (\<forall>a\<in>set (ancestors e). observed h t t' a)
    \<and> sw_open (h t') (sn_path e) = Inr handle \<and> oh_bytes handle = data
    \<and> matches_handle nt (sn_identity e) (oh_opened handle) \<and> matches_handle nt (sn_identity e) (oh_after handle)"
proof -
  from assms obtain e t' handle where e: "ss_by_path s relative = Some e" "\<not> sn_is_directory e"
    and anc: "require_ancestor_bindings h t e = Inr t'" and op: "sw_open (h t') (sn_path e) = Inr handle"
    and ok: "matches_handle nt (sn_identity e) (oh_opened handle)" "matches_handle nt (sn_identity e) (oh_after handle)"
      "oh_bytes handle = data"
    by (auto simp: open_file_def lookup_entry_def bindR_eq_Inr reraise_eq_Inr split: option.splits if_split_asm)
  with ancestors_observed[OF anc] show ?thesis by blast
qed


section \<open>What a session records\<close>

text \<open>
  However the source changes meanwhile, every recorded entry is a regular file or a directory, no
  link, with a usable inode number, and hangs by its name below a recorded directory.
\<close>

definition identity_valid :: "bool \<Rightarrow> os_stat \<Rightarrow> bool" where
  "identity_valid is_dir identity \<longleftrightarrow> \<not> is_link_or_reparse identity \<and> os_ino identity \<noteq> 0
     \<and> (if is_dir then S_ISDIR (os_mode identity) else S_ISREG (os_mode identity))"

fun entry_valid :: "SourceEntry \<Rightarrow> bool" where
  "entry_valid (SourceEntry relative is_dir identity path None) \<longleftrightarrow>
     relative = [] \<and> path = [] \<and> identity_valid is_dir identity"
| "entry_valid (SourceEntry relative is_dir identity path (Some parent)) \<longleftrightarrow>
     entry_valid parent \<and> sn_is_directory parent \<and> identity_valid is_dir identity
     \<and> path \<noteq> [] \<and> butlast path = sn_path parent \<and> relative = child_relative parent (last path)"

lemma discover_children_valid:
  "discover_children h t current names = Inr (children, t') \<Longrightarrow> entry_valid current \<Longrightarrow> sn_is_directory current \<Longrightarrow>
   (\<forall>e\<in>set children. entry_valid e \<and> sn_parent e = Some current)
     \<and> map sn_path children = map (\<lambda>n. sn_path current @ [n]) names"
proof (induction h t current names arbitrary: children rule: discover_children.induct)
  case (2 h t current name names)
  let ?p = "sn_path current @ [name]"
  obtain md where md: "sw_stat (h t) ?p = Inr md"
    using "2.prems"(1) by (cases "sw_stat (h t) ?p") (simp_all add: Let_def)
  have ok: "\<not> is_link_or_reparse md" "S_ISDIR (os_mode md) \<or> S_ISREG (os_mode md)"
    using "2.prems"(1) md by (simp_all add: Let_def split: if_split_asm)
  let ?e = "SourceEntry (child_relative current name) (S_ISDIR (os_mode md)) md ?p (Some current)"
  obtain es where ino: "os_ino md \<noteq> 0" and r: "discover_children h (Suc t) current names = Inr (es, t')"
    and ch: "children = ?e # es"
    using "2.prems"(1) md ok by (auto simp: Let_def bindR_eq_Inr capture_def reraise_eq_Inr split: if_split_asm)
  have "entry_valid ?e" using "2.prems"(2,3) ok ino by (auto simp: identity_valid_def)
  moreover have "(\<forall>e\<in>set es. entry_valid e \<and> sn_parent e = Some current)
      \<and> map sn_path es = map (\<lambda>n. sn_path current @ [n]) names"
    by (rule "2.IH"[OF refl md ok(1) refl _ _ refl r]) (use "2.prems" ok ino in \<open>auto simp: capture_def\<close>)
  ultimately show ?case by (simp add: ch)
qed simp

lemma index_entries_cases:
  "index_entries es bp r = Some e \<Longrightarrow> bp r = Some e \<or> (e \<in> set es \<and> sn_relative_path e = r)"
  by (induction es arbitrary: bp) (force split: if_split_asm)+

lemma discover_valid:
  "discover_directory h fuel t pending bp d = Inr (bp', d', t') \<Longrightarrow>
   \<forall>e\<in>set pending. entry_valid e \<and> sn_is_directory e \<Longrightarrow> \<forall>e\<in>set d. entry_valid e \<and> sn_parent e \<noteq> None \<Longrightarrow>
   \<forall>r e. bp r = Some e \<longrightarrow> sn_relative_path e = r \<and> (e \<in> set d \<or> r = [] \<and> e = root) \<Longrightarrow>
   (\<forall>e\<in>set d'. entry_valid e \<and> sn_parent e \<noteq> None)
     \<and> (\<forall>r e. bp' r = Some e \<longrightarrow> sn_relative_path e = r \<and> (e \<in> set d' \<or> r = [] \<and> e = root))"
proof (induction h fuel t pending bp d rule: discover_directory.induct)
  case (3 h fuel t current pending bp d)
  from 3(2) obtain names children t1 md where
    names: "reraise (OSError ''input changed while it was discovered'') (sw_scandir (h t) (sn_path current)) = Inr names"
    and ch: "discover_children h (Suc t) current names = Inr (children, t1)" and md: "require_binding h t1 current = Inr md"
    and r: "discover_directory h fuel (Suc t1) (rev (filter sn_is_directory children) @ pending)
      (index_entries children bp) (d @ children) = Inr (bp', d', t')"
    by (auto simp: bindR_eq_Inr)
  have val: "\<forall>e\<in>set children. entry_valid e \<and> sn_parent e = Some current"
    using discover_children_valid[OF ch] 3(3) by simp
  show ?case
  proof (rule 3(1)[OF names ch refl md r])
    show "\<forall>e\<in>set (rev (filter sn_is_directory children) @ pending). entry_valid e \<and> sn_is_directory e"
      using val 3(3) by auto
    show "\<forall>e\<in>set (d @ children). entry_valid e \<and> sn_parent e \<noteq> None" using val 3(4) by auto
    show "\<forall>r e. index_entries children bp r = Some e \<longrightarrow>
      sn_relative_path e = r \<and> (e \<in> set (d @ children) \<or> r = [] \<and> e = root)"
    proof (intro allI impI)
      fix r e assume "index_entries children bp r = Some e"
      from index_entries_cases[OF this] 3(5) show "sn_relative_path e = r \<and> (e \<in> set (d @ children) \<or> r = [] \<and> e = root)"
        by auto
    qed
  qed
qed auto

lemma session_entries_valid:
  assumes "source_session h u fuel t name = Inr (s, t')"
  shows "(\<forall>e\<in>set (ss_entries s). entry_valid e \<and> (sn_parent e = None \<longleftrightarrow> ss_root_is_file s))
    \<and> [] \<in> dom (ss_by_path s)
    \<and> (\<forall>r e. ss_by_path s r = Some e \<longrightarrow> entry_valid e \<and> sn_relative_path e = r
         \<and> (e \<in> set (ss_entries s) \<or> r = [] \<and> sn_parent e = None))"
proof -
  from assms obtain md where init: "initial_metadata h t = Inr md" by (auto simp: source_session_def bindR_eq_Inr)
  then have link: "\<not> is_link_or_reparse md"
    by (auto simp: initial_metadata_def split: sum.splits stat_error.splits if_split_asm)
  from assms init have cap: "capture md = Inr md" and kind: "S_ISREG (os_mode md) \<or> S_ISDIR (os_mode md)"
    by (auto simp: source_session_def Let_def bindR_eq_Inr capture_def split: if_split_asm)
  let ?root = "SourceEntry [] (\<not> S_ISREG (os_mode md)) md [] None"
  have ok: "entry_valid ?root" using link cap kind by (auto simp: identity_valid_def capture_def split: if_split_asm)
  show ?thesis
  proof (cases "S_ISREG (os_mode md)")
    case True
    then have "s = \<lparr>ss_name = name, ss_root_is_file = True, ss_by_path = [[] \<mapsto> ?root], ss_entries = [?root]\<rparr>"
      using assms by (simp add: source_session_def init cap Let_def)
    then show ?thesis using ok by simp
  next
    case False
    then obtain bp d where d: "discover_directory h fuel (Suc t) [?root] [[] \<mapsto> ?root] [] = Inr (bp, d, t')"
      and s: "s = \<lparr>ss_name = name, ss_root_is_file = False, ss_by_path = bp, ss_entries = sort_key (entry_sort_key u) d\<rparr>"
      using assms kind by (auto simp: source_session_def init cap Let_def bindR_eq_Inr)
    have v: "(\<forall>e\<in>set d. entry_valid e \<and> sn_parent e \<noteq> None)
      \<and> (\<forall>r e. bp r = Some e \<longrightarrow> sn_relative_path e = r \<and> (e \<in> set d \<or> r = [] \<and> e = ?root))"
      by (rule discover_valid[OF d]) (use ok False in auto)
    have indexed: "entry_valid e \<and> sn_relative_path e = r \<and> (e \<in> set d \<or> r = [] \<and> sn_parent e = None)"
      if "bp r = Some e" for r e
    proof -
      from v that consider "e \<in> set d" "sn_relative_path e = r" | "r = []" "e = ?root" by blast
      then show ?thesis by cases (use v ok in \<open>simp_all\<close>)
    qed
    have "[] \<in> dom bp" using discover_dom[OF d] by simp
    with v indexed show ?thesis unfolding s by simp
  qed
qed

end
