(* ===== verification/SourceQuiet.thy ===== *)
theory SourceQuiet
  imports SourceIdentity
begin

text \<open>
  The source session on a tree that nobody touches: discovery finds exactly the tree, each entry
  once and with its metadata, verification succeeds, a read gives the bytes of the file, and the
  session is the portable view of the source that the encoders' round trips assume.
\<close>

section \<open>A tree nobody touches\<close>

text \<open>
  A finite tree of folders and regular files, and a world that shows it: every path has an entry
  with an inode number that is no link, listings give the names of a folder once each, and files
  open with the metadata their path has. Names are what POSIX allows.
\<close>

type_synonym frozen_tree = "pystr list \<rightharpoonup> os_stat \<times> bytes"

definition folders :: "frozen_tree \<Rightarrow> pystr list set" where
  "folders T = {p. \<exists>md b. T p = Some (md, b) \<and> S_ISDIR (os_mode md)}"

definition plain_name :: "pystr \<Rightarrow> bool" where
  "plain_name n \<longleftrightarrow> n \<noteq> [] \<and> SLASH \<notin> set n \<and> n \<noteq> [DOT]"

definition shows_node :: "source_world \<Rightarrow> frozen_tree \<Rightarrow> pystr list \<Rightarrow> os_stat \<Rightarrow> bytes \<Rightarrow> bool" where
  "shows_node w T p md b \<longleftrightarrow>
     sw_stat w p = Inr md \<and> \<not> is_link_or_reparse md \<and> os_ino md \<noteq> 0
     \<and> (S_ISDIR (os_mode md) \<or> S_ISREG (os_mode md))
     \<and> (S_ISREG (os_mode md) \<longrightarrow> sw_open w p = Inr \<lparr>oh_opened = md, oh_bytes = b, oh_after = md\<rparr>)
     \<and> (S_ISDIR (os_mode md) \<longrightarrow>
          (\<exists>names. sw_scandir w p = Inr names \<and> distinct names \<and> set names = {n. p @ [n] \<in> dom T}))"

definition frozen :: "source_world \<Rightarrow> frozen_tree \<Rightarrow> bool" where
  "frozen w T \<longleftrightarrow> finite (dom T) \<and> (\<exists>md b. T [] = Some (md, b))
     \<and> (\<forall>p md b. T p = Some (md, b) \<longrightarrow> shows_node w T p md b)
     \<and> (\<forall>p n. p @ [n] \<in> dom T \<longrightarrow> plain_name n \<and> p \<in> folders T)"

abbreviation path_string where "path_string p \<equiv> join_with SLASH p"

lemma frozen_node: "frozen w T \<Longrightarrow> T p = Some (md, b) \<Longrightarrow> shows_node w T p md b"
  unfolding frozen_def by blast

lemma frozen_parent: "frozen w T \<Longrightarrow> p @ [n] \<in> dom T \<Longrightarrow> plain_name n \<and> p \<in> folders T"
  unfolding frozen_def by blast

lemma folders_dom: "p \<in> folders T \<Longrightarrow> p \<in> dom T"
  by (auto simp: folders_def)

lemma frozen_finite: "frozen w T \<Longrightarrow> finite (dom T) \<and> finite (folders T)"
  by (meson finite_subset folders_dom frozen_def subsetI)

lemma frozen_names: "frozen w T \<Longrightarrow> p \<in> dom T \<Longrightarrow> \<forall>n\<in>set p. plain_name n"
proof (induction p rule: rev_induct)
  case (snoc n p)
  from frozen_parent[OF snoc.prems] folders_dom snoc.IH[OF snoc.prems(1)] show ?case by simp
qed simp

lemma plain_components: "\<forall>n\<in>set p. plain_name n \<Longrightarrow> posix_components (path_string p) = p"
proof (cases "p = []")
  case False
  assume names: "\<forall>n\<in>set p. plain_name n"
  then have "split_on SLASH (path_string p) = p" using False by (intro split_join) (auto simp: plain_name_def)
  with names show ?thesis by (auto simp: posix_components_def plain_name_def filter_id_conv)
qed (simp add: posix_components_def)

lemma path_string_inj: "\<forall>n\<in>set p. plain_name n \<Longrightarrow> \<forall>n\<in>set q. plain_name n \<Longrightarrow> path_string p = path_string q \<Longrightarrow> p = q"
  using plain_components by metis

lemma join_with_snoc: "p \<noteq> [] \<Longrightarrow> join_with c (p @ [n]) = join_with c p @ [c] @ n"
proof (induction c p rule: join_with.induct)
  case (3 c p q qs)
  then show ?case by (cases qs) simp_all
qed simp_all

text \<open>Entries that say what the tree has under their path, and so do their ancestors.\<close>

definition entry_good :: "frozen_tree \<Rightarrow> SourceEntry \<Rightarrow> bool" where
  "entry_good T e \<longleftrightarrow> (\<exists>b. T (sn_path e) = Some (sn_identity e, b))
     \<and> sn_is_directory e = S_ISDIR (os_mode (sn_identity e)) \<and> sn_relative_path e = path_string (sn_path e)"

definition chain_good :: "frozen_tree \<Rightarrow> SourceEntry \<Rightarrow> bool" where
  "chain_good T e \<longleftrightarrow> entry_good T e \<and> (\<forall>a\<in>set (ancestors e). entry_good T a)"

lemma good_path: "entry_good T e \<Longrightarrow> sn_path e \<in> dom T"
  by (auto simp: entry_good_def)

lemma good_folder: "entry_good T e \<Longrightarrow> sn_is_directory e \<longleftrightarrow> sn_path e \<in> folders T"
  by (auto simp: entry_good_def folders_def)

lemma matches_refl [simp]: "matches_common md md" "matches_path md md" "matches_handle nt md md"
  by (simp_all add: matches_common_def matches_path_def matches_handle_def)

lemma require_binding_good:
  assumes "frozen w T" and "entry_good T e"
  shows "require_binding (\<lambda>_. w) t e = Inr (sn_identity e)"
proof -
  from assms(2) obtain b where "T (sn_path e) = Some (sn_identity e, b)" by (auto simp: entry_good_def)
  with frozen_node[OF assms(1)] have "shows_node w T (sn_path e) (sn_identity e) b" by blast
  then show ?thesis by (simp add: require_binding_def shows_node_def)
qed

lemma child_relative_good:
  assumes "frozen w T" and "entry_good T e"
  shows "child_relative e n = path_string (sn_path e @ [n])"
proof (cases "sn_path e = []")
  case True
  then show ?thesis using assms(2) by (simp add: child_relative_def entry_good_def)
next
  case False
  have "posix_components (path_string (sn_path e)) = sn_path e"
    by (rule plain_components[OF frozen_names[OF assms(1) good_path[OF assms(2)]]])
  then have "path_string (sn_path e) \<noteq> []" using False by (auto simp: posix_components_def)
  then show ?thesis using assms(2) False by (simp add: child_relative_def entry_good_def join_with_snoc)
qed

lemma ancestors_bound:
  "frozen w T \<Longrightarrow> \<forall>a\<in>set (ancestors e). entry_good T a \<Longrightarrow> \<exists>t'. require_ancestor_bindings (\<lambda>_. w) t e = Inr t'"
  by (induction "\<lambda>_ :: nat. w" t e rule: require_ancestor_bindings.induct) (auto simp: require_binding_good)

lemma discover_children_good:
  assumes "frozen w T" and "chain_good T current" and "set names \<subseteq> {n. sn_path current @ [n] \<in> dom T}"
  shows "\<exists>children t'. discover_children (\<lambda>_. w) t current names = Inr (children, t')
    \<and> map sn_path children = map (\<lambda>n. sn_path current @ [n]) names \<and> (\<forall>e\<in>set children. chain_good T e)"
  using assms(3)
proof (induction names arbitrary: t)
  case (Cons n names)
  let ?p = "sn_path current @ [n]"
  from Cons.prems obtain md b where T: "T ?p = Some (md, b)" by auto
  note node = frozen_node[OF assms(1) T, unfolded shows_node_def]
  from Cons.IH[of "Suc t"] Cons.prems obtain children t' where
    ih: "discover_children (\<lambda>_. w) (Suc t) current names = Inr (children, t')"
    "map sn_path children = map (\<lambda>n. sn_path current @ [n]) names" "\<forall>e\<in>set children. chain_good T e" by auto
  let ?e = "SourceEntry (child_relative current n) (S_ISDIR (os_mode md)) md ?p (Some current)"
  have "chain_good T ?e"
    using assms(2) T child_relative_good[OF assms(1), of current n] by (auto simp: chain_good_def entry_good_def)
  with ih node show ?case by (auto simp: Let_def capture_def)
qed simp

text \<open>The traversal: \<open>D\<close> are the folders it has been through.\<close>

definition below :: "frozen_tree \<Rightarrow> pystr list set \<Rightarrow> pystr list set" where
  "below T D = {p @ [n] | p n. p \<in> D \<and> p @ [n] \<in> dom T}"

lemma below_insert: "below T (insert p D) = {p @ [n] | n. p @ [n] \<in> dom T} \<union> below T D"
  by (auto simp: below_def)

lemma below_all:
  assumes "frozen w T" and "D = insert [] (below T D \<inter> folders T)"
  shows "below T D = dom T - {[]} \<and> D = insert [] (folders T)"
proof -
  have in_below: "p \<in> dom T \<Longrightarrow> p \<noteq> [] \<Longrightarrow> p \<in> below T D" for p
  proof (induction p rule: rev_induct)
    case (snoc n p)
    have "p \<in> folders T" using frozen_parent[OF assms(1) snoc.prems(1)] by blast
    then have "p \<in> D" using snoc.IH folders_dom assms(2) by (cases "p = []") blast+
    with snoc.prems show ?case by (auto simp: below_def)
  qed simp
  then have "dom T - {[]} \<subseteq> below T D" by blast
  moreover have "below T D \<subseteq> dom T - {[]}" by (auto simp: below_def)
  ultimately have "below T D = dom T - {[]}" by blast
  with assms(2) folders_dom show ?thesis by auto
qed

definition index_good :: "frozen_tree \<Rightarrow> (pystr \<rightharpoonup> SourceEntry) \<Rightarrow> pystr list set \<Rightarrow> bool" where
  "index_good T bp P \<longleftrightarrow> dom bp = path_string ` P
     \<and> (\<forall>p\<in>P. \<exists>e. bp (path_string p) = Some e \<and> sn_path e = p \<and> chain_good T e)"

lemma index_good_extend:
  assumes "frozen w T" and "index_good T bp P" and "P \<subseteq> dom T" and "\<forall>e\<in>set es. chain_good T e"
  shows "index_good T (index_entries es bp) (P \<union> sn_path ` set es)"
  using assms(2-)
proof (induction es arbitrary: bp P)
  case (Cons e es)
  have e: "entry_good T e" "sn_relative_path e = path_string (sn_path e)" using Cons.prems(3) by (auto simp: chain_good_def entry_good_def)
  have same: "p = sn_path e" if "p \<in> P" "path_string p = path_string (sn_path e)" for p
    using that Cons.prems(2) good_path[OF e(1)] frozen_names[OF assms(1)] path_string_inj by blast
  have "index_good T (bp(sn_relative_path e \<mapsto> e)) (insert (sn_path e) P)"
    using Cons.prems(1,3) same unfolding index_good_def e(2) by (auto simp del: join_with.simps)
  from Cons.IH[OF this] Cons.prems(2,3) good_path[OF e(1)] show ?case
    by (simp add: Un_insert_left Un_insert_right fun_upd_def)
qed simp

definition frontier :: "frozen_tree \<Rightarrow> SourceEntry list \<Rightarrow> pystr list set \<Rightarrow> bool" where
  "frontier T pending D \<longleftrightarrow> (\<forall>e\<in>set pending. chain_good T e) \<and> distinct (map sn_path pending)
     \<and> set (map sn_path pending) \<inter> D = {} \<and> set (map sn_path pending) \<subseteq> folders T
     \<and> set (map sn_path pending) \<union> D = insert [] (below T D \<inter> folders T)"

lemma frontier_ended:
  assumes "frozen w T" and "frontier T [] D"
  shows "insert [] (below T D) = dom T"
proof -
  have "D = insert [] (below T D \<inter> folders T)" using assms(2) by (simp add: frontier_def)
  from below_all[OF assms(1) this] have "below T D = dom T - {[]}" by blast
  moreover have "[] \<in> dom T" using assms(1) by (auto simp: frozen_def)
  ultimately show ?thesis by auto
qed

lemma frontier_empty:
  assumes "frozen w T" and "frontier T pending D" and "card (folders T - D) = 0"
  shows "pending = []"
proof (rule ccontr)
  assume "pending \<noteq> []"
  then have "sn_path (hd pending) \<in> folders T - D" using assms(2) by (cases pending) (auto simp: frontier_def)
  moreover have "finite (folders T - D)" using frozen_finite[OF assms(1)] by simp
  ultimately show False using assms(3) by auto
qed

lemma frontier_current:
  assumes "frozen w T" and "frontier T (current # pending) D"
  obtains names where "chain_good T current" "sn_path current \<in> folders T" "sn_path current \<notin> D"
    "sw_scandir w (sn_path current) = Inr names" "distinct names"
    "set names = {n. sn_path current @ [n] \<in> dom T}"
proof -
  have cur: "chain_good T current" "sn_path current \<in> folders T" "sn_path current \<notin> D"
    using assms(2) by (auto simp: frontier_def)
  from cur(2) obtain md b where T: "T (sn_path current) = Some (md, b)" "S_ISDIR (os_mode md)" by (auto simp: folders_def)
  from frozen_node[OF assms(1) T(1)] T(2) show thesis using that[OF cur] by (auto simp: shows_node_def)
qed

lemma children_new:
  assumes "frontier T (current # pending) D"
  shows "{sn_path current @ [n] | n. sn_path current @ [n] \<in> dom T}
    \<inter> (insert [] (below T D) \<union> (set (map sn_path (current # pending)) \<union> D)) = {}"
proof -
  have "sn_path current \<notin> D" using assms by (auto simp: frontier_def)
  then have "{sn_path current @ [n] | n. sn_path current @ [n] \<in> dom T} \<inter> insert [] (below T D) = {}"
    by (auto simp: below_def)
  moreover have "set (map sn_path (current # pending)) \<union> D = insert [] (below T D \<inter> folders T)"
    using assms unfolding frontier_def by blast
  ultimately show ?thesis by blast
qed

lemma frontier_step:
  assumes fr: "frontier T (current # pending) D" and dirs: "\<forall>e\<in>set dirs. chain_good T e" "distinct (map sn_path dirs)"
    "set (map sn_path dirs) = {sn_path current @ [n] | n. sn_path current @ [n] \<in> dom T} \<inter> folders T"
  shows "frontier T (rev dirs @ pending) (insert (sn_path current) D)"
proof -
  let ?C = "{sn_path current @ [n] | n. sn_path current @ [n] \<in> dom T}" and ?P = "set (map sn_path pending)"
  have f: "distinct (map sn_path (current # pending))" "set (map sn_path (current # pending)) \<inter> D = {}"
    "set (map sn_path (current # pending)) \<subseteq> folders T"
    "set (map sn_path (current # pending)) \<union> D = insert [] (below T D \<inter> folders T)"
    using fr unfolding frontier_def by blast+
  note new = children_new[OF fr]
  have all: "set (map sn_path (rev dirs @ pending)) = (?C \<inter> folders T) \<union> ?P" using dirs(3) by auto
  have cur: "sn_path current \<in> set (map sn_path (current # pending))" "sn_path current \<notin> ?P"
    "?P \<subseteq> set (map sn_path (current # pending))" using f(1) by auto
  have "\<forall>e\<in>set (rev dirs @ pending). chain_good T e" using fr dirs(1) by (auto simp: frontier_def)
  moreover have "distinct (map sn_path (rev dirs @ pending))"
  proof -
    have "set (map sn_path (rev dirs)) \<inter> ?P = {}" using dirs(3) new cur(3) by auto
    moreover have "distinct (map sn_path (rev dirs))" using dirs(2) by (simp add: rev_map[symmetric])
    ultimately show ?thesis using f(1) by simp
  qed
  moreover have "set (map sn_path (rev dirs @ pending)) \<inter> insert (sn_path current) D = {}"
    unfolding all using new f(2) cur by blast
  moreover have "set (map sn_path (rev dirs @ pending)) \<subseteq> folders T" unfolding all using f(3) cur(3) by blast
  moreover have "set (map sn_path (rev dirs @ pending)) \<union> insert (sn_path current) D
      = insert [] (below T (insert (sn_path current) D) \<inter> folders T)"
  proof -
    have "(?C \<inter> folders T) \<union> ?P \<union> insert (sn_path current) D
        = (?C \<inter> folders T) \<union> (set (map sn_path (current # pending)) \<union> D)" by auto
    then show ?thesis unfolding all f(4) below_insert by blast
  qed
  ultimately show ?thesis unfolding frontier_def by blast
qed

lemma frontier_card:
  assumes "frozen w T" and "sn_path current \<in> folders T" and "sn_path current \<notin> D"
  shows "card (folders T - D) = Suc (card (folders T - insert (sn_path current) D))"
proof -
  have eq: "folders T - D = insert (sn_path current) (folders T - insert (sn_path current) D)" using assms(2,3) by blast
  have "finite (folders T - insert (sn_path current) D)" "sn_path current \<notin> folders T - insert (sn_path current) D"
    using frozen_finite[OF assms(1)] by simp_all
  then show ?thesis by (subst eq) (rule card_insert_disjoint)
qed

lemma discover_frozen:
  assumes fr: "frozen w T" and "frontier T pending D" and "\<forall>e\<in>set d. chain_good T e"
    and "distinct (map sn_path d)" and "set (map sn_path d) = below T D"
    and "index_good T bp (insert [] (below T D))" and "card (folders T - D) \<le> fuel"
  shows "\<exists>bp' d' t'. discover_directory (\<lambda>_. w) fuel t pending bp d = Inr (bp', d', t')
    \<and> (\<forall>e\<in>set d'. chain_good T e) \<and> distinct (map sn_path d') \<and> set (map sn_path d') = dom T - {[]}
    \<and> index_good T bp' (dom T)"
  using assms(2-)
proof (induction fuel arbitrary: t pending bp d D)
  case 0
  then have "pending = []" using frontier_empty[OF fr] by blast
  with 0 frontier_ended[OF fr, of D] have "insert [] (below T D) = dom T" by simp
  moreover from this have "below T D = dom T - {[]}" by (auto simp: below_def)
  ultimately show ?case using \<open>pending = []\<close> 0(2-5) by simp
next
  case (Suc fuel)
  show ?case
  proof (cases pending)
    case Nil
    with Suc.prems(1) frontier_ended[OF fr, of D] have "insert [] (below T D) = dom T" by simp
    moreover from this have "below T D = dom T - {[]}" by (auto simp: below_def)
    ultimately show ?thesis using Nil Suc.prems(2-5) by simp
  next
    case (Cons current rest)
    let ?p = "sn_path current" and ?D = "insert (sn_path current) D"
    note f = Suc.prems(1)[unfolded Cons]
    from frontier_current[OF fr f] obtain names where cur: "chain_good T current" "?p \<in> folders T" "?p \<notin> D"
      and names: "sw_scandir w ?p = Inr names" "distinct names" "set names = {n. ?p @ [n] \<in> dom T}" by blast
    from discover_children_good[OF fr cur(1), of names "Suc t"] names(3) obtain children t1 where
      ch: "discover_children (\<lambda>_. w) (Suc t) current names = Inr (children, t1)"
      and paths: "map sn_path children = map (\<lambda>n. ?p @ [n]) names" and good: "\<forall>e\<in>set children. chain_good T e" by auto
    have rb: "require_binding (\<lambda>_. w) t1 current = Inr (sn_identity current)"
      using cur(1) by (intro require_binding_good[OF fr]) (simp add: chain_good_def)
    have set_ch: "set (map sn_path children) = {?p @ [n] | n. ?p @ [n] \<in> dom T}" unfolding paths using names(3) by auto
    have dist_ch: "distinct (map sn_path children)" unfolding paths using names(2) by (simp add: distinct_map inj_on_def)
    have bel: "below T ?D = set (map sn_path children) \<union> below T D" unfolding below_insert set_ch ..
    have new: "set (map sn_path children) \<inter> below T D = {}" using children_new[OF f] unfolding set_ch by blast
    have "\<exists>bp' d' t'. discover_directory (\<lambda>_. w) fuel (Suc t1) (rev (filter sn_is_directory children) @ rest)
        (index_entries children bp) (d @ children) = Inr (bp', d', t')
      \<and> (\<forall>e\<in>set d'. chain_good T e) \<and> distinct (map sn_path d') \<and> set (map sn_path d') = dom T - {[]}
      \<and> index_good T bp' (dom T)"
    proof (rule Suc.IH[where D = ?D])
      show "frontier T (rev (filter sn_is_directory children) @ rest) ?D"
      proof (rule frontier_step[OF f])
        show "set (map sn_path (filter sn_is_directory children)) = {?p @ [n] | n. ?p @ [n] \<in> dom T} \<inter> folders T"
          unfolding set_ch[symmetric] using good good_folder by (auto simp: chain_good_def)
      qed (use good dist_ch in \<open>simp_all add: distinct_map_filter\<close>)
      show "\<forall>e\<in>set (d @ children). chain_good T e" using Suc.prems(2) good by auto
      show "distinct (map sn_path (d @ children))" using Suc.prems(3,4) dist_ch new by auto
      show "set (map sn_path (d @ children)) = below T ?D" using Suc.prems(4) bel by auto
      show "index_good T (index_entries children bp) (insert [] (below T ?D))"
      proof -
        have sub: "insert [] (below T D) \<subseteq> dom T" using fr by (auto simp: below_def frozen_def)
        have "insert [] (below T D) \<union> sn_path ` set children = insert [] (below T ?D)" unfolding bel by auto
        then show ?thesis using index_good_extend[OF fr Suc.prems(5) sub good] by (simp only:)
      qed
      show "card (folders T - ?D) \<le> fuel" using frontier_card[OF fr cur(2,3)] Suc.prems(6) by simp
    qed
    then show ?thesis using names(1) ch rb by (simp add: Cons)
  qed
qed

section \<open>The session of such a tree\<close>

text \<open>What the session of a tree has recorded.\<close>

definition session_of :: "frozen_tree \<Rightarrow> SourceSession \<Rightarrow> bool" where
  "session_of T s \<longleftrightarrow> index_good T (ss_by_path s) (dom T) \<and> (\<forall>e\<in>set (ss_entries s). chain_good T e)
     \<and> distinct (map sn_path (ss_entries s)) \<and> ss_root_is_file s = ([] \<notin> folders T)
     \<and> set (map sn_path (ss_entries s)) = (if ss_root_is_file s then {[]} else dom T - {[]})"

lemma regular_or_folder: "S_ISREG m \<Longrightarrow> \<not> S_ISDIR m"
  by (simp add: S_ISREG_def S_ISDIR_def)

lemma frozen_single:
  assumes "frozen w T" and "[] \<notin> folders T"
  shows "dom T = {[]}"
proof -
  have "p \<in> dom T \<Longrightarrow> p = []" for p
  proof (induction p rule: rev_induct)
    case (snoc n p)
    from frozen_parent[OF assms(1) snoc.prems] snoc.IH folders_dom assms(2) show ?case by blast
  qed simp
  moreover have "[] \<in> dom T" using assms(1) by (auto simp: frozen_def)
  ultimately show ?thesis by blast
qed

lemma session_frozen:
  assumes fr: "frozen w T" and fuel: "card (folders T) \<le> fuel"
  shows "\<exists>s t'. source_session (\<lambda>_. w) u fuel t name = Inr (s, t') \<and> ss_name s = name \<and> session_of T s
    \<and> (\<not> ss_root_is_file s \<longrightarrow> sorted (map (entry_sort_key u) (ss_entries s)))"
proof -
  obtain md b where T: "T [] = Some (md, b)" using fr by (auto simp: frozen_def)
  note node = frozen_node[OF fr T, unfolded shows_node_def]
  let ?root = "SourceEntry [] (\<not> S_ISREG (os_mode md)) md [] None"
  have init: "initial_metadata (\<lambda>_. w) t = Inr md" using node by (simp add: initial_metadata_def)
  have cap: "capture md = Inr md" using node by (simp add: capture_def)
  have dir: "\<not> S_ISREG (os_mode md) \<longleftrightarrow> S_ISDIR (os_mode md)" using node regular_or_folder by blast
  have root: "chain_good T ?root" using T dir by (simp add: chain_good_def entry_good_def)
  have fold: "[] \<in> folders T \<longleftrightarrow> S_ISDIR (os_mode md)" using T by (simp add: folders_def)
  show ?thesis
  proof (cases "S_ISREG (os_mode md)")
    case True
    let ?s = "\<lparr>ss_name = name, ss_root_is_file = True, ss_by_path = [[] \<mapsto> ?root], ss_entries = [?root]\<rparr>"
    have one: "dom T = {[]}" using frozen_single[OF fr] fold dir True by blast
    have "source_session (\<lambda>_. w) u fuel t name = Inr (?s, Suc t)"
      using True by (simp add: source_session_def init cap Let_def)
    moreover have "session_of T ?s" using one root fold dir True by (simp add: session_of_def index_good_def)
    ultimately show ?thesis by (intro exI[of _ ?s] exI[of _ "Suc t"]) simp
  next
    case False
    then have f: "[] \<in> folders T" using fold dir by blast
    have "\<exists>bp d t'. discover_directory (\<lambda>_. w) fuel (Suc t) [?root] [[] \<mapsto> ?root] [] = Inr (bp, d, t')
      \<and> (\<forall>e\<in>set d. chain_good T e) \<and> distinct (map sn_path d) \<and> set (map sn_path d) = dom T - {[]}
      \<and> index_good T bp (dom T)"
    proof (rule discover_frozen[OF fr, where D = "{}"])
      show "frontier T [?root] {}" using root f by (simp add: frontier_def below_def)
      show "index_good T [[] \<mapsto> ?root] (insert [] (below T {}))" using root by (simp add: index_good_def below_def)
    qed (use fuel in \<open>simp_all add: below_def\<close>)
    then obtain bp d t' where d: "discover_directory (\<lambda>_. w) fuel (Suc t) [?root] [[] \<mapsto> ?root] [] = Inr (bp, d, t')"
      and g: "\<forall>e\<in>set d. chain_good T e" "distinct (map sn_path d)" "set (map sn_path d) = dom T - {[]}" "index_good T bp (dom T)"
      by blast
    let ?s = "\<lparr>ss_name = name, ss_root_is_file = False, ss_by_path = bp, ss_entries = sort_key (entry_sort_key u) d\<rparr>"
    have "source_session (\<lambda>_. w) u fuel t name = Inr (?s, t')"
      using False dir d by (simp add: source_session_def init cap Let_def)
    moreover have "session_of T ?s" using g f by (simp add: session_of_def distinct_map)
    ultimately show ?thesis by (intro exI[of _ ?s] exI[of _ t']) simp
  qed
qed

section \<open>Verification and reads\<close>

lemma index_lookup:
  assumes "index_good T (ss_by_path s) (dom T)" and "p \<in> dom T"
  obtains e where "ss_by_path s (path_string p) = Some e" "sn_path e = p" "chain_good T e"
  using assms unfolding index_good_def by blast

lemma verify_children_good:
  assumes fr: "frozen w T" and ix: "index_good T (ss_by_path s) (dom T)" and dir: "entry_good T directory"
    and "distinct names" and "set names \<subseteq> {n. sn_path directory @ [n] \<in> dom T}"
    and "\<forall>n\<in>set names. path_string (sn_path directory @ [n]) \<notin> seen"
  shows "\<exists>ds t'. verify_children (\<lambda>_. w) t s directory seen names
      = Inr (ds, seen \<union> path_string ` (\<lambda>n. sn_path directory @ [n]) ` set names, t')
    \<and> map sn_path ds = filter (\<lambda>p. p \<in> folders T) (map (\<lambda>n. sn_path directory @ [n]) names)
    \<and> (\<forall>e\<in>set ds. chain_good T e)"
  using assms(4-)
proof (induction names arbitrary: t seen)
  case (Cons n names)
  let ?p = "sn_path directory @ [n]" and ?f = "\<lambda>n. sn_path directory @ [n]"
  have p: "?p \<in> dom T" using Cons.prems(2) by simp
  obtain e where e: "ss_by_path s (path_string ?p) = Some e" "sn_path e = ?p" "chain_good T e"
    using index_lookup[OF ix p] .
  have good: "entry_good T e" using e(3) by (simp add: chain_good_def)
  from good e(2) obtain b where T: "T ?p = Some (sn_identity e, b)" by (auto simp: entry_good_def)
  note node = frozen_node[OF fr T, unfolded shows_node_def]
  have rel: "child_relative directory n = path_string ?p" by (rule child_relative_good[OF fr dir])
  have new: "path_string ?p \<notin> seen" using Cons.prems(3) by simp
  have nodup: "path_string (?f m) \<noteq> path_string ?p" if "m \<in> set names" for m
  proof
    assume "path_string (?f m) = path_string ?p"
    moreover have "?f m \<in> dom T" using that Cons.prems(2) by auto
    ultimately have "?f m = ?p" using path_string_inj frozen_names[OF fr] p by blast
    then show False using that Cons.prems(1) by simp
  qed
  have "\<forall>m\<in>set names. path_string (?f m) \<notin> insert (path_string ?p) seen" using nodup Cons.prems(3) by simp
  with Cons.IH[of "insert (path_string ?p) seen" "Suc t"] Cons.prems(1,2) obtain ds t' where
    ih: "verify_children (\<lambda>_. w) (Suc t) s directory (insert (path_string ?p) seen) names
      = Inr (ds, insert (path_string ?p) seen \<union> path_string ` ?f ` set names, t')"
    "map sn_path ds = filter (\<lambda>p. p \<in> folders T) (map ?f names)" "\<forall>e\<in>set ds. chain_good T e" by auto
  have isd: "sn_is_directory e = S_ISDIR (os_mode (sn_identity e))" "sn_is_directory e \<longleftrightarrow> ?p \<in> folders T"
    using good good_folder[OF good] e(2) by (simp_all add: entry_good_def)
  let ?ds = "if sn_is_directory e then e # ds else ds"
  have "verify_children (\<lambda>_. w) t s directory seen (n # names)
      = Inr (?ds, insert (path_string ?p) seen \<union> path_string ` ?f ` set names, t')"
    using e(1,2) new node isd(1) ih(1) by (simp add: rel Let_def del: join_with.simps)
  moreover have "map sn_path ?ds = filter (\<lambda>p. p \<in> folders T) (map ?f (n # names))"
    using ih(2) isd(2) e(2) by simp
  moreover have "\<forall>e\<in>set ?ds. chain_good T e" using ih(3) e(3) by simp
  moreover have "insert (path_string ?p) seen \<union> path_string ` ?f ` set names = seen \<union> path_string ` ?f ` set (n # names)"
    by (simp del: join_with.simps)
  ultimately show ?case by (simp only:) blast
qed simp

lemma verify_frozen:
  assumes fr: "frozen w T" and ix: "index_good T (ss_by_path s) (dom T)"
    and "frontier T pending D" and "card (folders T - D) \<le> fuel"
    and "seen = path_string ` insert [] (below T D)"
  shows "\<exists>t'. verify_directories (\<lambda>_. w) fuel t s seen pending = Inr (path_string ` dom T, t')"
  using assms(3-)
proof (induction fuel arbitrary: t pending seen D)
  case 0
  then have "pending = []" using frontier_empty[OF fr] by blast
  with 0 frontier_ended[OF fr, of D] show ?case by simp
next
  case (Suc fuel)
  show ?case
  proof (cases pending)
    case Nil
    with Suc.prems frontier_ended[OF fr, of D] show ?thesis by simp
  next
    case (Cons current rest)
    let ?p = "sn_path current" and ?D = "insert (sn_path current) D"
    note f = Suc.prems(1)[unfolded Cons]
    from frontier_current[OF fr f] obtain names where cur: "chain_good T current" "?p \<in> folders T" "?p \<notin> D"
      and names: "sw_scandir w ?p = Inr names" "distinct names" "set names = {n. ?p @ [n] \<in> dom T}" by blast
    have good: "entry_good T current" using cur(1) by (simp add: chain_good_def)
    have "path_string (?p @ [n]) \<notin> seen" if n: "n \<in> set names" for n
    proof
      assume "path_string (?p @ [n]) \<in> seen"
      then obtain q where q: "q \<in> insert [] (below T D)" "path_string (?p @ [n]) = path_string q"
        unfolding Suc.prems(3) by blast
      have "insert [] (below T D) \<subseteq> dom T" using fr by (auto simp: below_def frozen_def)
      then have "q \<in> dom T" "?p @ [n] \<in> dom T" using q(1) n names(3) by auto
      then have "?p @ [n] = q" using q(2) path_string_inj frozen_names[OF fr] by blast
      with q(1) n names(3) children_new[OF f] show False by blast
    qed
    with verify_children_good[OF fr ix good names(2), of seen "Suc t"] names(3) obtain ds t1 where
      ch: "verify_children (\<lambda>_. w) (Suc t) s current seen names
        = Inr (ds, seen \<union> path_string ` (\<lambda>n. ?p @ [n]) ` set names, t1)"
      and ds: "map sn_path ds = filter (\<lambda>p. p \<in> folders T) (map (\<lambda>n. ?p @ [n]) names)" "\<forall>e\<in>set ds. chain_good T e"
      by auto
    have rb: "require_binding (\<lambda>_. w) t1 current = Inr (sn_identity current)" by (rule require_binding_good[OF fr good])
    have imgs: "(\<lambda>n. ?p @ [n]) ` set names = {?p @ [n] | n. ?p @ [n] \<in> dom T}" using names(3) by auto
    have "\<exists>t'. verify_directories (\<lambda>_. w) fuel (Suc t1) s (seen \<union> path_string ` (\<lambda>n. ?p @ [n]) ` set names) (rev ds @ rest)
      = Inr (path_string ` dom T, t')"
    proof (rule Suc.IH[where D = ?D])
      show "frontier T (rev ds @ rest) ?D"
      proof (rule frontier_step[OF f ds(2)])
        show "distinct (map sn_path ds)" using names(2) unfolding ds(1) by (simp add: distinct_map inj_on_def)
        show "set (map sn_path ds) = {?p @ [n] | n. ?p @ [n] \<in> dom T} \<inter> folders T"
          unfolding ds(1) imgs[symmetric] by auto
      qed
      show "card (folders T - ?D) \<le> fuel" using frontier_card[OF fr cur(2,3)] Suc.prems(2) by simp
      show "seen \<union> path_string ` (\<lambda>n. ?p @ [n]) ` set names = path_string ` insert [] (below T ?D)"
        unfolding Suc.prems(3) imgs below_insert by blast
    qed
    then show ?thesis using names(1) ch rb by (simp add: Cons)
  qed
qed

lemma verify_quiet:
  assumes fr: "frozen w T" and s: "session_of T s"
  shows "\<exists>t'. verify_bindings (\<lambda>_. w) t s = Inr t'"
proof -
  have ix: "index_good T (ss_by_path s) (dom T)" using s by (simp add: session_of_def)
  have "[] \<in> dom T" using fr by (auto simp: frozen_def)
  from index_lookup[OF ix this] obtain root where root: "ss_by_path s [] = Some root" "sn_path root = []"
    "chain_good T root" by auto
  have rb: "require_binding (\<lambda>_. w) t root = Inr (sn_identity root)"
    using root(3) by (intro require_binding_good[OF fr]) (simp add: chain_good_def)
  show ?thesis
  proof (cases "ss_root_is_file s")
    case True
    with rb root(1) show ?thesis by (simp add: verify_bindings_def lookup_entry_def)
  next
    case False
    then have f: "[] \<in> folders T" and all: "set (map sn_path (ss_entries s)) = dom T - {[]}"
      using s by (simp_all add: session_of_def)
    have "card (folders T) \<le> card (dom T)"
      using frozen_finite[OF fr] folders_dom by (intro card_mono) auto
    also have "\<dots> \<le> Suc (card (dom T - {[]}))" using frozen_finite[OF fr] by (simp add: card_Diff_singleton_if) arith
    also have "card (dom T - {[]}) \<le> length (ss_entries s)" unfolding all[symmetric] by (metis card_length length_map)
    finally have "card (folders T - {}) \<le> 2 + length (ss_entries s)" by simp
    moreover have "frontier T [root] {}" using root f by (simp add: frontier_def below_def)
    moreover have "{[]} = path_string ` insert [] (below T {})" by (simp add: below_def)
    ultimately have "\<exists>t'. verify_directories (\<lambda>_. w) (2 + length (ss_entries s)) (Suc t) s {[]} [root]
      = Inr (path_string ` dom T, t')" by (intro verify_frozen[OF fr ix, where D = "{}"])
    moreover have "dom (ss_by_path s) = path_string ` dom T" using ix by (simp add: index_good_def)
    ultimately show ?thesis using rb root(1) False by (auto simp: verify_bindings_def lookup_entry_def)
  qed
qed

lemma open_quiet:
  assumes fr: "frozen w T" and s: "session_of T s" and T: "T p = Some (md, b)" and reg: "S_ISREG (os_mode md)"
  shows "open_file (\<lambda>_. w) nt t s (path_string p) = Inr b"
proof -
  have "p \<in> dom T" "index_good T (ss_by_path s) (dom T)" using s T by (auto simp: session_of_def)
  from index_lookup[OF this(2,1)] obtain e where e: "ss_by_path s (path_string p) = Some e" "sn_path e = p" "chain_good T e" .
  have id: "sn_identity e = md" "\<not> sn_is_directory e"
    using e(2,3) T reg regular_or_folder by (auto simp: chain_good_def entry_good_def)
  obtain t' where anc: "require_ancestor_bindings (\<lambda>_. w) t e = Inr t'"
    using ancestors_bound[OF fr] e(3) unfolding chain_good_def by blast
  note node = frozen_node[OF fr T, unfolded shows_node_def]
  show ?thesis using e(1,2) id anc node reg by (simp add: open_file_def lookup_entry_def del: join_with.simps)
qed

section \<open>The view of the encoders\<close>

text \<open>
  What the encoders see of a session: \<open>clock\<close> gives the instant at which a pass over the source
  opens a file, \<open>t\<close> the instant at which the verification starts.
\<close>

definition source_entry_of :: "SourceEntry \<Rightarrow> source_entry" where
  "source_entry_of e = \<lparr>se_relative_path = sn_relative_path e, se_is_directory = sn_is_directory e,
     se_st_mode = os_mode (sn_identity e), se_size = os_size (sn_identity e), se_mtime_ns = os_mtime_ns (sn_identity e)\<rparr>"

definition session_view ::
  "history \<Rightarrow> bool \<Rightarrow> (nat \<Rightarrow> pystr \<Rightarrow> nat) \<Rightarrow> nat \<Rightarrow> SourceSession \<Rightarrow> source_view" where
  "session_view h nt clock t s =
     \<lparr>sv_name = ss_name s, sv_root_is_file = ss_root_is_file s, sv_entries = map source_entry_of (ss_entries s),
      sv_read = \<lambda>pass relative. open_file h nt (clock pass relative) s relative,
      sv_verify = bindR (verify_bindings h t s) (\<lambda>_. Inr ())\<rparr>"

lemma source_entry_of_sel [simp]:
  "se_relative_path (source_entry_of e) = sn_relative_path e" "se_is_directory (source_entry_of e) = sn_is_directory e"
  by (simp_all add: source_entry_of_def)

lemma slashes_of_path:
  "p \<noteq> [] \<Longrightarrow> \<forall>n\<in>set p. plain_name n \<Longrightarrow> Suc (count_list (path_string p) SLASH) = length p"
proof (induction "SLASH" p rule: join_with.induct)
  case (3 p q qs)
  then show ?case by (simp add: plain_name_def count_notin)
qed (simp_all add: plain_name_def count_notin)

lemma sorted_by_depth:
  assumes "frozen w T" and "\<forall>e\<in>set es. chain_good T e \<and> sn_path e \<noteq> []" and "sorted (map (entry_sort_key u) es)"
  shows "sorted (map (\<lambda>e. length (sn_path e)) es)"
proof -
  have depth: "length (sn_path e) = Suc (fst (entry_sort_key u e))" if "e \<in> set es" for e
  proof -
    have "sn_path e \<noteq> []" "\<forall>n\<in>set (sn_path e). plain_name n" "sn_relative_path e = path_string (sn_path e)"
      using that assms(2) frozen_names[OF assms(1)] good_path by (auto simp: chain_good_def entry_good_def)
    then show ?thesis using slashes_of_path[of "sn_path e"] by (simp add: entry_sort_key_def)
  qed
  have "sorted_wrt (\<lambda>x y. entry_sort_key u x \<le> entry_sort_key u y) es" using assms(3) by (simp add: sorted_map)
  then have "sorted_wrt (\<lambda>x y. length (sn_path x) \<le> length (sn_path y)) es"
    by (rule sorted_wrt_mono_rel[rotated]) (auto simp: depth less_eq_prod_def)
  then show ?thesis by (simp add: sorted_map)
qed

lemma depth_discovered:
  assumes "frozen w T" and "\<forall>e\<in>set es. chain_good T e \<and> sn_path e \<noteq> []"
    and "sorted (map (\<lambda>e. length (sn_path e)) es)"
    and "\<forall>e\<in>set es. butlast (sn_path e) \<in> ds \<union> sn_path ` {d \<in> set es. sn_is_directory d}"
  shows "discovered_from ds (map source_entry_of es)"
  using assms(2-)
proof (induction es arbitrary: ds)
  case (Cons e es)
  have e: "entry_good T e" "sn_path e \<noteq> []" using Cons.prems(1) by (auto simp: chain_good_def)
  then have rel: "sn_relative_path e = path_string (sn_path e)" by (simp add: entry_good_def)
  have parts: "posix_components (sn_relative_path e) = sn_path e"
    unfolding rel by (rule plain_components[OF frozen_names[OF assms(1) good_path[OF e(1)]]])
  have "butlast (sn_path e) \<in> ds"
  proof (rule ccontr)
    assume "butlast (sn_path e) \<notin> ds"
    then obtain d where d: "d \<in> set (e # es)" "butlast (sn_path e) = sn_path d" using Cons.prems(3) by auto
    then have "length (sn_path e) \<le> length (sn_path d)" using Cons.prems(2) by auto
    moreover have "length (sn_path d) < length (sn_path e)" using e(2) unfolding d(2)[symmetric] by simp
    ultimately show False by simp
  qed
  moreover have "discovered_from (if sn_is_directory e then insert (sn_path e) ds else ds) (map source_entry_of es)"
    by (rule Cons.IH) (use Cons.prems in auto)
  ultimately show ?case using e(2) rel by (simp add: Let_def parts[unfolded rel] del: join_with.simps)
qed simp

lemma quiet_discovered:
  assumes fr: "frozen w T" and s: "session_of T s" and sorted: "sorted (map (entry_sort_key u) (ss_entries s))"
    and root: "\<not> ss_root_is_file s"
  shows "discovered_from {[]} (sv_entries (session_view h nt clock t s))"
proof -
  from s root have all: "set (map sn_path (ss_entries s)) = dom T - {[]}" and good: "\<forall>e\<in>set (ss_entries s). chain_good T e"
    by (simp_all add: session_of_def)
  have ne: "\<forall>e\<in>set (ss_entries s). chain_good T e \<and> sn_path e \<noteq> []"
  proof
    fix e assume e: "e \<in> set (ss_entries s)"
    then have "sn_path e \<in> dom T - {[]}" unfolding all[symmetric] by simp
    with good e show "chain_good T e \<and> sn_path e \<noteq> []" by blast
  qed
  have "\<forall>e\<in>set (ss_entries s). butlast (sn_path e) \<in> {[]} \<union> sn_path ` {d \<in> set (ss_entries s). sn_is_directory d}"
  proof
    fix e assume e: "e \<in> set (ss_entries s)"
    then obtain p n where p: "sn_path e = p @ [n]" using ne by (metis append_butlast_last_id)
    have "sn_path e \<in> dom T - {[]}" using e unfolding all[symmetric] by simp
    then have "p @ [n] \<in> dom T" unfolding p by simp
    then have f: "p \<in> folders T" using frozen_parent[OF fr] by blast
    show "butlast (sn_path e) \<in> {[]} \<union> sn_path ` {d \<in> set (ss_entries s). sn_is_directory d}"
    proof (cases "p = []")
      case False
      then have "p \<in> set (map sn_path (ss_entries s))" using all f folders_dom by blast
      then obtain d where "d \<in> set (ss_entries s)" "sn_path d = p" by auto
      moreover from this have "sn_is_directory d" using good good_folder[of T d] f by (simp add: chain_good_def)
      ultimately show ?thesis using p by auto
    qed (simp add: p)
  qed
  from depth_discovered[OF fr ne sorted_by_depth[OF fr ne sorted] this] show ?thesis by (simp add: session_view_def)
qed

lemma quiet_view_portable:
  assumes fr: "frozen w T" and s: "session_of T s" and sorted: "\<not> ss_root_is_file s \<longrightarrow> sorted (map (entry_sort_key u) (ss_entries s))"
    and name: "nfc u (ss_name s) = ss_name s" "SLASH \<notin> set (ss_name s)"
    and normal: "\<forall>p\<in>dom T. nfc u (path_string p) = path_string p"
  shows "portable_view u (session_view h nt clock t s)"
proof (cases "ss_root_is_file s")
  case True
  with s have "set (map sn_path (ss_entries s)) = {[]}" "distinct (map sn_path (ss_entries s))" by (simp_all add: session_of_def)
  then have "length (map sn_path (ss_entries s)) = 1" by (metis distinct_card card_1_singleton_iff One_nat_def)
  then obtain e where e: "ss_entries s = [e]" by (cases "ss_entries s") auto
  with s True have "entry_good T e" "sn_path e = []" by (auto simp: session_of_def chain_good_def)
  then have "sn_relative_path e = []" by (simp add: entry_good_def)
  with e name True show ?thesis by (simp add: portable_view_def session_view_def)
next
  case False
  with s have good: "\<forall>e\<in>set (ss_entries s). chain_good T e" by (simp add: session_of_def)
  have "discovered_from {[]} (sv_entries (session_view h nt clock t s))"
    by (rule quiet_discovered[OF fr s _ False]) (use sorted False in blast)
  moreover have "nfc u (sn_relative_path e) = sn_relative_path e" if "e \<in> set (ss_entries s)" for e
  proof -
    have "sn_relative_path e = path_string (sn_path e)" "sn_path e \<in> dom T"
      using that good good_path by (auto simp: chain_good_def entry_good_def)
    with normal show ?thesis by simp
  qed
  ultimately show ?thesis using name False by (simp add: portable_view_def session_view_def)
qed

definition node_entry :: "pystr list \<Rightarrow> os_stat \<Rightarrow> source_entry" where
  "node_entry p md = \<lparr>se_relative_path = path_string p, se_is_directory = S_ISDIR (os_mode md),
     se_st_mode = os_mode md, se_size = os_size md, se_mtime_ns = os_mtime_ns md\<rparr>"

lemma quiet_entries:
  assumes fr: "frozen w T" and s: "session_of T s"
  shows "set (sv_entries (session_view h nt clock t s))
    = {node_entry p md | p md. (p \<noteq> [] \<or> [] \<notin> folders T) \<and> (\<exists>b. T p = Some (md, b))}"
proof -
  have good: "\<forall>e\<in>set (ss_entries s). entry_good T e" using s by (simp add: session_of_def chain_good_def)
  have sub: "source_entry_of e = node_entry (sn_path e) (sn_identity e)" if "entry_good T e" for e
    using that by (simp add: source_entry_of_def node_entry_def entry_good_def)
  have paths: "sn_path ` set (ss_entries s) = {p \<in> dom T. p \<noteq> [] \<or> [] \<notin> folders T}"
  proof (cases "[] \<in> folders T")
    case True
    with s have "sn_path ` set (ss_entries s) = dom T - {[]}" by (simp add: session_of_def)
    with True show ?thesis by blast
  next
    case False
    with s have "sn_path ` set (ss_entries s) = {[]}" by (simp add: session_of_def)
    with frozen_single[OF fr False] False show ?thesis by simp
  qed
  have "source_entry_of e \<in> {node_entry p md | p md. (p \<noteq> [] \<or> [] \<notin> folders T) \<and> (\<exists>b. T p = Some (md, b))}"
    if e: "e \<in> set (ss_entries s)" for e
  proof -
    have g: "entry_good T e" using good e by blast
    have "sn_path e \<in> {p \<in> dom T. p \<noteq> [] \<or> [] \<notin> folders T}" unfolding paths[symmetric] using e by simp
    with g sub[OF g] show ?thesis unfolding entry_good_def by blast
  qed
  moreover have "node_entry p md \<in> source_entry_of ` set (ss_entries s)"
    if "p \<noteq> [] \<or> [] \<notin> folders T" "T p = Some (md, b)" for p md b
  proof -
    have "p \<in> {p \<in> dom T. p \<noteq> [] \<or> [] \<notin> folders T}" using that by blast
    then obtain e where e: "e \<in> set (ss_entries s)" "sn_path e = p" unfolding paths[symmetric] by blast
    then have g: "entry_good T e" using good by blast
    with that(2) e(2) have "sn_identity e = md" by (auto simp: entry_good_def)
    with sub[OF g] e show ?thesis by (metis image_eqI)
  qed
  ultimately show ?thesis by (auto simp: session_view_def)
qed

lemma quiet_session:
  assumes fr: "frozen w T" and fuel: "card (folders T) \<le> fuel"
    and name: "nfc u name = name" "SLASH \<notin> set name"
    and normal: "\<forall>p\<in>dom T. nfc u (path_string p) = path_string p"
  obtains s t' where "source_session (\<lambda>_. w) u fuel t name = Inr (s, t')" "session_of T s" "ss_name s = name"
    "portable_view u (session_view (\<lambda>_. w) nt clock t' s)" "sv_verify (session_view (\<lambda>_. w) nt clock t' s) = Inr ()"
proof -
  from session_frozen[OF fr fuel] obtain s t' where s: "source_session (\<lambda>_. w) u fuel t name = Inr (s, t')"
    "ss_name s = name" "session_of T s" "\<not> ss_root_is_file s \<longrightarrow> sorted (map (entry_sort_key u) (ss_entries s))" by blast
  have "portable_view u (session_view (\<lambda>_. w) nt clock t' s)"
    using quiet_view_portable[OF fr s(3,4) _ _ normal] name s(2) by simp
  moreover have "sv_verify (session_view (\<lambda>_. w) nt clock t' s) = Inr ()"
    using verify_quiet[OF fr s(3), of t'] by (auto simp: session_view_def)
  ultimately show thesis using that s by blast
qed

section \<open>An example tree\<close>

definition example_stat :: "nat \<Rightarrow> nat \<Rightarrow> nat \<Rightarrow> os_stat" where
  "example_stat ino mode n = \<lparr>os_dev = 1, os_ino = ino, os_mode = mode, os_size = n, os_mtime_ns = 5,
     os_ctime_ns = 6, os_birthtime_ns = None, os_file_attributes = 0\<rparr>"

text \<open>A folder with the folder \<^verbatim>\<open>d\<close>, and in it the file \<^verbatim>\<open>f\<close>.\<close>

definition example_tree :: frozen_tree where
  "example_tree = [[] \<mapsto> (example_stat 1 16877 0, []), [lit ''d''] \<mapsto> (example_stat 2 16877 0, []),
     [lit ''d'', lit ''f''] \<mapsto> (example_stat 3 33188 2, [7, 8])]"

definition example_world :: source_world where
  "example_world = \<lparr>
     sw_stat = \<lambda>p. case example_tree p of None \<Rightarrow> Inl Missing | Some (md, b) \<Rightarrow> Inr md,
     sw_scandir = \<lambda>p. if p = [] then Inr [lit ''d''] else if p = [lit ''d''] then Inr [lit ''f'']
       else Inl (OSError ''not a directory''),
     sw_open = \<lambda>p. case example_tree p of
       None \<Rightarrow> Inl (FileNotFoundError ''No such file or directory'')
     | Some (md, b) \<Rightarrow> Inr \<lparr>oh_opened = md, oh_bytes = b, oh_after = md\<rparr>\<rparr>"

lemma example_names: "lit ''d'' = [100]" "lit ''f'' = [102]" "lit ''src'' = [115, 114, 99]"
  by (simp_all add: lit_def)

lemma example_modes: "S_ISDIR 16877" "\<not> S_ISREG 16877" "S_ISREG 33188" "\<not> S_ISDIR 33188" "\<not> S_ISLNK 16877" "\<not> S_ISLNK 33188"
  by (simp_all add: S_ISDIR_def S_ISREG_def S_ISLNK_def S_IFMT_def)

lemma example_tree_dom: "dom example_tree = {[], [[100]], [[100], [102]]}"
  by (auto simp: example_tree_def example_names)

lemma example_tree_node:
  assumes "example_tree p = Some (md, b)"
  shows "p = [] \<and> md = example_stat 1 16877 0 \<or> p = [[100]] \<and> md = example_stat 2 16877 0
    \<or> p = [[100], [102]] \<and> md = example_stat 3 33188 2 \<and> b = [7, 8]"
  using assms by (auto simp: example_tree_def example_names split: if_split_asm)

lemma example_shows: "example_tree p = Some (md, b) \<Longrightarrow> shows_node example_world example_tree p md b"
proof -
  assume a: "example_tree p = Some (md, b)"
  have st: "os_ino (example_stat i m n) = i" "os_mode (example_stat i m n) = m" "os_file_attributes (example_stat i m n) = 0"
    for i m n by (simp_all add: example_stat_def)
  have sub: "n = [100]" if "[n] \<in> dom example_tree" for n using that by (auto simp: example_tree_dom)
  from example_tree_node[OF a] a show ?thesis
    by (elim disjE) (auto simp: shows_node_def example_world_def st is_link_or_reparse_def example_modes example_names example_tree_dom)
qed

lemma example_folders: "folders example_tree = {[], [[100]]}"
  by (auto simp: folders_def example_tree_def example_names example_stat_def example_modes split: if_split_asm)

lemma example_frozen: "frozen example_world example_tree"
proof -
  have "\<forall>p n. p @ [n] \<in> dom example_tree \<longrightarrow> plain_name n \<and> p \<in> folders example_tree"
  proof (intro allI impI)
    fix p n assume "p @ [n] \<in> dom example_tree"
    then have "p @ [n] = [] \<or> p @ [n] = [] @ [[100]] \<or> p @ [n] = [[100]] @ [[102]]" unfolding example_tree_dom by simp
    then have "(p = [] \<and> n = [100]) \<or> (p = [[100]] \<and> n = [102])" unfolding append1_eq_conv by simp
    then show "plain_name n \<and> p \<in> folders example_tree" by (auto simp: plain_name_def example_folders)
  qed
  moreover have "\<exists>md b. example_tree [] = Some (md, b)" by (simp add: example_tree_def)
  moreover have "finite (dom example_tree)" by (simp add: example_tree_dom)
  ultimately show ?thesis unfolding frozen_def using example_shows by blast
qed

lemma example_normal: "\<forall>p\<in>dom example_tree. nfc ascii_tables (path_string p) = path_string p"
  by (auto simp: example_tree_dom ascii_tables_def)

lemma example_session:
  obtains s t' where "source_session (\<lambda>_. example_world) ascii_tables 2 0 (lit ''src'') = Inr (s, t')"
    "session_of example_tree s"
proof -
  have "card (folders example_tree) \<le> 2" by (simp add: example_folders)
  from session_frozen[OF example_frozen this, of ascii_tables 0 "lit ''src''"] that show thesis by blast
qed

lemma quiet_distinct:
  assumes fr: "frozen w T" and s: "session_of T s"
  shows "distinct (map se_relative_path (sv_entries (session_view h nt clock t s)))"
proof -
  have good: "\<forall>e\<in>set (ss_entries s). entry_good T e" using s by (simp add: session_of_def chain_good_def)
  have "inj_on path_string (sn_path ` set (ss_entries s))"
  proof (rule inj_onI)
    fix p q assume "p \<in> sn_path ` set (ss_entries s)" "q \<in> sn_path ` set (ss_entries s)" and eq: "path_string p = path_string q"
    then have "p \<in> dom T" "q \<in> dom T" using good by (auto simp: entry_good_def)
    then have "posix_components (path_string p) = p" "posix_components (path_string q) = q"
      using plain_components frozen_names[OF fr] by blast+
    then show "p = q" using eq by (metis (no_types))
  qed
  moreover have "distinct (map sn_path (ss_entries s))" using s by (simp add: session_of_def)
  ultimately have "distinct (map (\<lambda>e. path_string (sn_path e)) (ss_entries s))"
    by (simp add: distinct_map comp_inj_on[unfolded comp_def])
  moreover have "map (\<lambda>e. path_string (sn_path e)) (ss_entries s) = map sn_relative_path (ss_entries s)"
    using good by (simp add: entry_good_def)
  ultimately show ?thesis by (simp add: session_view_def comp_def)
qed

section \<open>Properties\<close>

text \<open>C15: On a tree of folders and regular files that nobody touches, whatever its names, and with fuel for its folders, the session discovers exactly the tree: every entry once, with its metadata, and every folder before what lies in it. Its verification succeeds at the end, and every file reads as its bytes at every instant. If moreover the name of the root, free of slashes as the name of a path is, and every relative path are in Unicode normal form C, what the encoders see is a portable view.\<close>

lemma quiet_session_is_the_tree:
  assumes "frozen w T" and "card (folders T) \<le> fuel"
  shows "\<exists>s t'. source_session (\<lambda>_. w) u fuel t name = Inr (s, t')
    \<and> sv_name (session_view (\<lambda>_. w) nt clock t' s) = name
    \<and> sv_root_is_file (session_view (\<lambda>_. w) nt clock t' s) = ([] \<notin> folders T)
    \<and> sv_verify (session_view (\<lambda>_. w) nt clock t' s) = Inr ()
    \<and> distinct (map se_relative_path (sv_entries (session_view (\<lambda>_. w) nt clock t' s)))
    \<and> set (sv_entries (session_view (\<lambda>_. w) nt clock t' s))
        = {node_entry p md | p md. (p \<noteq> [] \<or> [] \<notin> folders T) \<and> (\<exists>b. T p = Some (md, b))}
    \<and> ([] \<in> folders T \<longrightarrow> discovered_from {[]} (sv_entries (session_view (\<lambda>_. w) nt clock t' s)))
    \<and> (\<forall>p md b. T p = Some (md, b) \<and> S_ISREG (os_mode md) \<longrightarrow>
         (\<forall>\<tau>. open_file (\<lambda>_. w) nt \<tau> s (path_string p) = Inr b))
    \<and> (nfc u name = name \<and> SLASH \<notin> set name \<and> (\<forall>p\<in>dom T. nfc u (path_string p) = path_string p) \<longrightarrow>
         portable_view u (session_view (\<lambda>_. w) nt clock t' s))"
proof -
  from session_frozen[OF assms] obtain s t' where s: "source_session (\<lambda>_. w) u fuel t name = Inr (s, t')" "ss_name s = name"
    "session_of T s" "\<not> ss_root_is_file s \<longrightarrow> sorted (map (entry_sort_key u) (ss_entries s))" by blast
  let ?v = "session_view (\<lambda>_. w) nt clock t' s"
  have root: "ss_root_is_file s = ([] \<notin> folders T)" using s(3) by (simp add: session_of_def)
  have verified: "sv_verify ?v = Inr ()" using verify_quiet[OF assms(1) s(3), of t'] by (auto simp: session_view_def)
  have ordered: "[] \<in> folders T \<longrightarrow> discovered_from {[]} (sv_entries ?v)" using quiet_discovered[OF assms(1) s(3)] s(4) root by blast
  have portable: "nfc u name = name \<and> SLASH \<notin> set name \<and> (\<forall>p\<in>dom T. nfc u (path_string p) = path_string p) \<longrightarrow> portable_view u ?v"
    using quiet_view_portable[OF assms(1) s(3,4)] s(2) by blast
  have "sv_name ?v = name" "sv_root_is_file ?v = ([] \<notin> folders T)" using s(2) root by (simp_all add: session_view_def)
  with s(1) verified ordered portable quiet_distinct[OF assms(1) s(3)] quiet_entries[OF assms(1) s(3)] open_quiet[OF assms(1) s(3)]
  show ?thesis by blast
qed

lemma quiet_session_is_the_tree_witness:
  "\<exists>s t'. source_session (\<lambda>_. example_world) ascii_tables 2 0 (lit ''src'') = Inr (s, t')
    \<and> portable_view ascii_tables (session_view (\<lambda>_. example_world) False (\<lambda>_ _. 0) t' s)
    \<and> open_file (\<lambda>_. example_world) False 9 s (lit ''d/f'') = Inr [7, 8]"
proof -
  have f: "example_tree [[100], [102]] = Some (example_stat 3 33188 2, [7, 8])" "S_ISREG (os_mode (example_stat 3 33188 2))"
    by (simp_all add: example_tree_def example_names example_stat_def example_modes)
  have path: "path_string [[100], [102]] = lit ''d/f''" by (simp add: lit_def)
  have name: "nfc ascii_tables (lit ''src'') = lit ''src''" "SLASH \<notin> set (lit ''src'')" by (simp_all add: ascii_tables_def example_names)
  have "card (folders example_tree) \<le> 2" by (simp add: example_folders)
  from quiet_session_is_the_tree[OF example_frozen this, of ascii_tables 0 "lit ''src''" False "\<lambda>_ _. 0"]
  obtain s t' where session: "source_session (\<lambda>_. example_world) ascii_tables 2 0 (lit ''src'') = Inr (s, t')"
    and reads: "\<forall>p md b. example_tree p = Some (md, b) \<and> S_ISREG (os_mode md) \<longrightarrow>
      (\<forall>\<tau>. open_file (\<lambda>_. example_world) False \<tau> s (path_string p) = Inr b)"
    and view: "nfc ascii_tables (lit ''src'') = lit ''src'' \<and> SLASH \<notin> set (lit ''src'')
        \<and> (\<forall>p\<in>dom example_tree. nfc ascii_tables (path_string p) = path_string p) \<longrightarrow>
      portable_view ascii_tables (session_view (\<lambda>_. example_world) False (\<lambda>_ _. 0) t' s)"
    by (elim exE conjE) (rule that)
  from view name example_normal have "portable_view ascii_tables (session_view (\<lambda>_. example_world) False (\<lambda>_ _. 0) t' s)" by blast
  moreover have "open_file (\<lambda>_. example_world) False 9 s (path_string [[100], [102]]) = Inr [7, 8]"
    using reads f by blast
  ultimately show ?thesis using session unfolding path by blast
qed

text \<open>C16: Whatever other processes do to the source meanwhile, a session records only regular files and directories that are no links and have an inode number, indexes each under its own relative path, and hangs each by its name below a recorded directory up to the root.\<close>

lemma session_records_valid:
  "source_session h u fuel t name = Inr (s, t') \<Longrightarrow>
   (\<forall>e\<in>set (ss_entries s). entry_valid e \<and> (sn_parent e = None \<longleftrightarrow> ss_root_is_file s))
    \<and> [] \<in> dom (ss_by_path s)
    \<and> (\<forall>r e. ss_by_path s r = Some e \<longrightarrow> entry_valid e \<and> sn_relative_path e = r
         \<and> (e \<in> set (ss_entries s) \<or> r = [] \<and> sn_parent e = None))"
  by (rule session_entries_valid)

lemma session_records_valid_witness:
  "\<exists>s t' root. source_session (\<lambda>_. example_world) ascii_tables 2 0 (lit ''src'') = Inr (s, t')
    \<and> ss_by_path s [] = Some root \<and> entry_valid root"
proof -
  obtain s t' where "source_session (\<lambda>_. example_world) ascii_tables 2 0 (lit ''src'') = Inr (s, t')"
    using example_session .
  with session_records_valid[OF this] show ?thesis by blast
qed

text \<open>C18: A verification ends whatever other processes do to the source meanwhile: the traversal never enters a directory twice, so it needs no more steps than the session has entries.\<close>

lemma verification_ends:
  "source_session h u fuel t name = Inr (s, t') \<Longrightarrow> verify_bindings h' \<tau> s \<noteq> Inl OutOfFuel"
  using source_session_wf verify_ends by blast

lemma verification_ends_witness:
  "\<exists>s t'. source_session (\<lambda>_. example_world) ascii_tables 2 0 (lit ''src'') = Inr (s, t')
    \<and> verify_bindings (\<lambda>_. example_world) 5 s \<noteq> Inl OutOfFuel"
proof -
  obtain s t' where "source_session (\<lambda>_. example_world) ascii_tables 2 0 (lit ''src'') = Inr (s, t')"
    using example_session .
  with verification_ends[OF this] show ?thesis by blast
qed

text \<open>C17: A verification that succeeds has seen, within its own time window, every recorded object under its path, no link and with its captured identity, and a listing of every recorded directory without an unknown name: an object that was replaced before the window and stayed replaced is always detected.\<close>

lemma verification_sound:
  "source_session h u fuel t name = Inr (s, t') \<Longrightarrow> verify_bindings h \<tau> s = Inr \<tau>' \<Longrightarrow>
   (\<exists>root. ss_by_path s [] = Some root \<and> observed h \<tau> \<tau>' root)
    \<and> (\<not> ss_root_is_file s \<longrightarrow> (\<forall>r e. ss_by_path s r = Some e \<longrightarrow>
         observed h \<tau> \<tau>' e \<and> (sn_is_directory e \<or> r = [] \<longrightarrow> listed h \<tau> \<tau>' s e)))"
  using verify_sound source_session_wf by blast

lemma verification_sound_witness:
  "\<exists>s t' \<tau>' root. source_session (\<lambda>_. example_world) ascii_tables 2 0 (lit ''src'') = Inr (s, t')
    \<and> ss_by_path s [] = Some root \<and> observed (\<lambda>_. example_world) 5 \<tau>' root"
proof -
  obtain s t' where s: "source_session (\<lambda>_. example_world) ascii_tables 2 0 (lit ''src'') = Inr (s, t')" "session_of example_tree s"
    using example_session .
  from verify_quiet[OF example_frozen s(2), of 5] obtain \<tau>' where "verify_bindings (\<lambda>_. example_world) 5 s = Inr \<tau>'" by blast
  with verification_sound[OF s(1) this] s(1) show ?thesis by blast
qed

text \<open>C19: Bytes that a session hands out are those of the recorded file: its ancestors were seen with their captured identities, and the opened handle had the captured identity before and after the read.\<close>

lemma session_reads_bound:
  "open_file h nt t s relative = Inr data \<Longrightarrow>
   \<exists>e t' handle. ss_by_path s relative = Some e \<and> \<not> sn_is_directory e
    \<and> t \<le> t' \<and> (\<forall>a\<in>set (ancestors e). observed h t t' a)
    \<and> sw_open (h t') (sn_path e) = Inr handle \<and> oh_bytes handle = data
    \<and> matches_handle nt (sn_identity e) (oh_opened handle) \<and> matches_handle nt (sn_identity e) (oh_after handle)"
  by (rule open_file_sound)

lemma session_reads_bound_witness:
  "\<exists>s t' e. source_session (\<lambda>_. example_world) ascii_tables 2 0 (lit ''src'') = Inr (s, t')
    \<and> ss_by_path s (lit ''d/f'') = Some e \<and> \<not> sn_is_directory e"
proof -
  obtain s t' where s: "source_session (\<lambda>_. example_world) ascii_tables 2 0 (lit ''src'') = Inr (s, t')" "session_of example_tree s"
    using example_session .
  have f: "example_tree [[100], [102]] = Some (example_stat 3 33188 2, [7, 8])" "S_ISREG (os_mode (example_stat 3 33188 2))"
    by (simp_all add: example_tree_def example_names example_stat_def example_modes)
  have "open_file (\<lambda>_. example_world) False 9 s (lit ''d/f'') = Inr [7, 8]"
    using open_quiet[OF example_frozen s(2) f] by (simp add: lit_def)
  from session_reads_bound[OF this] s(1) show ?thesis by blast
qed

end
