(* ===== verification/ArchiveApi.thy ===== *)
theory ArchiveApi
  imports Archive1 SolidArchive2 SourceQuiet
begin

text \<open>
  The version-dispatching interface (\<^verbatim>\<open>archive_api.py\<close>) over the archive formats and the whole way of a
  folder through it: a source session over a tree that stays as it is, \<^verbatim>\<open>encode_path\<close> in the stable or
  the solid format, \<^verbatim>\<open>decode_path\<close>, which recognises the format by its magic. MSR1 is not reachable
  through this interface. Progress callbacks are left out.
\<close>

section \<open>Encoding\<close>

datatype api_encode_stats = StableStats DedupEncodeStats | SolidStats SolidArchiveV2EncodeStats

definition API_FRAME_PAYLOAD_SIZE :: int where
  "API_FRAME_PAYLOAD_SIZE = 1024 * 1024"

text \<open>The chunk sizes: the bounds that the caller does not give follow from the average.\<close>

definition api_chunking :: "int \<Rightarrow> int option \<Rightarrow> int option \<Rightarrow> ChunkingConfig result" where
  "api_chunking chunk_size cdc_min_size cdc_max_size =
     chunking_config (case cdc_min_size of Some n \<Rightarrow> n | None \<Rightarrow> max 64 (chunk_size div 4)) chunk_size
       (case cdc_max_size of Some n \<Rightarrow> n | None \<Rightarrow> min (16 * 1024 * 1024) (chunk_size * 4))"

definition encode_path ::
  "crypto \<Rightarrow> clib \<Rightarrow> ('c, 'd) stream_lib \<Rightarrow> unicode \<Rightarrow> os_choice \<Rightarrow> filesystem \<Rightarrow> pystr \<Rightarrow> bool \<Rightarrow> source_view result
     \<Rightarrow> pystr \<Rightarrow> password \<Rightarrow> int \<Rightarrow> int \<Rightarrow> int \<Rightarrow> int option \<Rightarrow> int option \<Rightarrow> string \<Rightarrow> string
     \<Rightarrow> api_encode_stats result \<times> filesystem" where
  "encode_path c l lib u os fs source is_dir session output_path password chunk_size padding_size kdf_log_n
     cdc_min_size cdc_max_size profile archive_format =
     (case api_chunking chunk_size cdc_min_size cdc_max_size of
        Inl e \<Rightarrow> (Inl e, fs)
      | Inr config \<Rightarrow>
          if archive_format = ''solid''
          then let (outcome, fs') = encode_solid_archive_v2 c l lib u os fs source is_dir session output_path password
                      config API_FRAME_PAYLOAD_SIZE padding_size kdf_log_n
               in (bindR outcome (\<lambda>stats. Inr (SolidStats stats)), fs')
          else if archive_format \<noteq> ''stable'' then (Inl (ValueError ''unknown archive format''), fs)
          else let (outcome, fs') = encode_dedup_archive c l u os fs source is_dir session output_path password config
                      padding_size kdf_log_n profile
               in (bindR outcome (\<lambda>stats. Inr (StableStats stats)), fs'))"

section \<open>Decoding\<close>

datatype api_decode_stats =
    Msc1Decoded DecodeStats | Msc2Decoded StreamDecodeStats | DedupDecoded DedupDecodeStats
  | Msr2Decoded SolidArchiveV2DecodeStats

datatype api_info =
    Msc1Info ArchiveInfo | Msc2Info StreamArchiveInfo | DedupInfo DedupArchiveInfo | Msr2Info SolidArchiveV2DecodeStats

definition read_magic :: "filesystem \<Rightarrow> pystr \<Rightarrow> bytes result" where
  "read_magic fs path = bindR (fs_read fs path) (\<lambda>stream. Inr (fst (stream_read 4 stream)))"

definition unsupported :: exn where
  "unsupported = ArchiveFormatError ''not a supported Mosaic Archive (expected MSC1 through MSC6 or MSR2)''"

definition decode_path ::
  "crypto \<Rightarrow> clib \<Rightarrow> ('c, 'd) stream_lib \<Rightarrow> unicode \<Rightarrow> os_choice \<Rightarrow> filesystem \<Rightarrow> pystr \<Rightarrow> pystr \<Rightarrow> password
     \<Rightarrow> int \<Rightarrow> int \<Rightarrow> int \<Rightarrow> api_decode_stats result \<times> filesystem" where
  "decode_path c l lib u os fs archive_path output_path password max_output_size max_frame_count max_legacy_archive_size =
     (case bindR (validate_decode_limits max_output_size max_frame_count max_legacy_archive_size)
             (\<lambda>_. read_magic fs archive_path) of
        Inl e \<Rightarrow> (Inl e, fs)
      | Inr magic \<Rightarrow>
          if magic = MSR2_MAGIC
          then let (outcome, fs') = decode_solid_archive_v2 c (cl_zlib l) lib u os fs archive_path output_path password
                      max_output_size max_frame_count
               in (bindR outcome (\<lambda>stats. Inr (Msr2Decoded stats)), fs')
          else if magic \<in> {MSC3_MAGIC, MSC4_MAGIC, MSC5_MAGIC, MSC6_MAGIC}
          then let (outcome, fs') = decode_dedup_archive c l u os fs archive_path output_path password
                      max_output_size max_frame_count
               in (bindR outcome (\<lambda>stats. Inr (DedupDecoded stats)), fs')
          else if magic = MSC2_MAGIC
          then let (outcome, fs') = decode_stream_archive c l u os fs archive_path output_path password
                      max_output_size max_frame_count
               in (bindR outcome (\<lambda>stats. Inr (Msc2Decoded stats)), fs')
          else if magic = MSC1_MAGIC
          then let (outcome, fs') = decode_file c l os fs archive_path output_path password
                      max_output_size max_frame_count max_legacy_archive_size
               in (bindR outcome (\<lambda>stats. Inr (Msc1Decoded stats)), fs')
          else (Inl unsupported, fs))"

definition inspect_path ::
  "crypto \<Rightarrow> clib \<Rightarrow> ('c, 'd) stream_lib \<Rightarrow> unicode \<Rightarrow> os_choice \<Rightarrow> pystr \<Rightarrow> filesystem \<Rightarrow> pystr \<Rightarrow> password
     \<Rightarrow> int \<Rightarrow> int \<Rightarrow> int \<Rightarrow> api_info result \<times> filesystem" where
  "inspect_path c l lib u os scratch fs archive_path password max_output_size max_frame_count max_legacy_archive_size =
     (case bindR (validate_decode_limits max_output_size max_frame_count max_legacy_archive_size)
             (\<lambda>_. read_magic fs archive_path) of
        Inl e \<Rightarrow> (Inl e, fs)
      | Inr magic \<Rightarrow>
          if magic = MSR2_MAGIC
          then let (outcome, fs') = inspect_solid_archive_v2 c (cl_zlib l) lib u os scratch fs archive_path password
                      max_output_size max_frame_count
               in (bindR outcome (\<lambda>stats. Inr (Msr2Info stats)), fs')
          else if magic \<in> {MSC3_MAGIC, MSC4_MAGIC, MSC5_MAGIC, MSC6_MAGIC}
          then (bindR (inspect_dedup_archive c l u os fs archive_path password max_output_size max_frame_count)
                  (\<lambda>info. Inr (DedupInfo info)), fs)
          else if magic = MSC2_MAGIC
          then (bindR (inspect_stream_archive c l u os fs archive_path password max_output_size max_frame_count)
                  (\<lambda>info. Inr (Msc2Info info)), fs)
          else if magic = MSC1_MAGIC
          then (bindR (inspect_archive c l fs archive_path password max_output_size max_frame_count max_legacy_archive_size)
                  (\<lambda>info. Inr (Msc1Info info)), fs)
          else (Inl unsupported, fs))"

text \<open>\<^verbatim>\<open>SourceSession(source)\<close> as the encoders open it, on a source with a history.\<close>

definition open_session ::
  "history \<Rightarrow> unicode \<Rightarrow> nat \<Rightarrow> bool \<Rightarrow> (nat \<Rightarrow> pystr \<Rightarrow> nat) \<Rightarrow> nat \<Rightarrow> pystr \<Rightarrow> source_view result" where
  "open_session h u fuel nt clock t name =
     bindR (source_session h u fuel t name) (\<lambda>(s, t'). Inr (session_view h nt clock t' s))"

section \<open>Dispatching\<close>

text \<open>Every header starts with its magic, so whatever a format's own reader accepts is sent to it.\<close>

lemma magic_of_header:
  "4 \<le> struct_size (FBytes 4 # fs) \<Longrightarrow>
   bval (fields_unpack (FBytes 4 # fs) (take (struct_size (FBytes 4 # fs)) b) ! 0) = take 4 b"
  by (simp add: min_def)

lemma public_header_magic:
  "parse_public_header (take (struct_size PUBLIC_HEADER) b) = Inr h \<Longrightarrow> take 4 b = MSC1_MAGIC"
  using magic_of_header[of "tl PUBLIC_HEADER" b]
  by (auto simp: parse_public_header_def struct_unpack_def public_header_of_def struct_size_def min_def split: if_split_asm)

lemma msc2_header_magic:
  "parse_msc2_header (take (struct_size MSC2_HEADER) b) = Inr h \<Longrightarrow> take 4 b = MSC2_MAGIC"
  using magic_of_header[of "tl MSC2_HEADER" b]
  by (auto simp: parse_msc2_header_def struct_unpack_def msc2_header_of_def struct_size_def min_def split: if_split_asm)

lemma msc3_header_magic:
  "parse_msc3_header (take (struct_size MSC3_HEADER) b) = Inr h \<Longrightarrow> take 4 b \<in> {MSC3_MAGIC, MSC4_MAGIC, MSC5_MAGIC, MSC6_MAGIC}"
  using magic_of_header[of "tl MSC3_HEADER" b]
  by (auto simp: parse_msc3_header_def struct_unpack_def msc3_header_of_def struct_size_def min_def Let_def split: if_split_asm)

lemma msr2_header_magic:
  "parse_msr2_header (take (struct_size MSR2_HEADER) b) = Inr h \<Longrightarrow> take 4 b = MSR2_MAGIC"
  using magic_of_header[of "tl MSR2_HEADER" b]
  by (auto simp: parse_msr2_header_def struct_unpack_def msr2_header_of_def struct_size_def min_def Let_def split: if_split_asm)

text \<open>The first four bytes of an archive that its format's decoder or inspection restores.\<close>

lemma decode_msr2_magic:
  assumes "decode_solid_archive_v2 c y lib u os fs archive dst password mo mf = (Inr ds, fs')"
  shows "read_magic fs archive = Inr MSR2_MAGIC"
proof -
  obtain f a where f: "fs_files fs archive = Some f" and a: "read_msr2 c y lib u (fl_bytes f) password mo mf = Inr a"
    using assms by (auto simp: decode_solid_archive_v2_def split: if_split_asm option.splits sum.splits)
  from a obtain h where "parse_msr2_header (take (struct_size MSR2_HEADER) (fl_bytes f)) = Inr h"
    by (auto simp: read_msr2_def bindR_eq_Inr read_exact_def stream_read_def Let_def split: if_split_asm)
  from msr2_header_magic[OF this] f show ?thesis by (simp add: read_magic_def fs_read_def stream_read_def)
qed

lemma open_dedup_magic:
  assumes "open_dedup c u fs archive password dst mo mf = Inr a"
  shows "\<exists>magic. read_magic fs archive = Inr magic \<and> magic \<in> {MSC3_MAGIC, MSC4_MAGIC, MSC5_MAGIC, MSC6_MAGIC}"
proof -
  obtain f where f: "fs_files fs archive = Some f" and a: "open_dedup_bytes c u f password mo mf = Inr a"
    using assms by (auto simp: open_dedup_def bindR_eq_Inr split: if_split_asm option.splits)
  from a obtain h where "parse_msc3_header (take (struct_size MSC3_HEADER) (fl_bytes f)) = Inr h"
    by (auto simp: open_dedup_bytes_def bindR_eq_Inr msc3_read_def read_exact_def stream_read_def Let_def split: if_split_asm)
  from msc3_header_magic[OF this] f show ?thesis by (simp add: read_magic_def fs_read_def stream_read_def)
qed

lemma decode_dedup_magic:
  assumes "decode_dedup_archive c l u os fs archive dst password mo mf = (Inr ds, fs')"
  shows "\<exists>magic. read_magic fs archive = Inr magic \<and> magic \<in> {MSC3_MAGIC, MSC4_MAGIC, MSC5_MAGIC, MSC6_MAGIC}"
proof -
  obtain a where "open_dedup c u fs archive password (Some dst) mo mf = Inr a"
    using assms by (auto simp: decode_dedup_archive_def decode_dedup_def split: sum.splits prod.splits)
  then show ?thesis by (rule open_dedup_magic)
qed

lemma decode_stream_magic:
  assumes "decode_stream_archive c l u os fs archive dst password mo mf = (Inr ds, fs')"
  shows "read_magic fs archive = Inr MSC2_MAGIC"
proof -
  obtain a where "open_stream c u fs archive password (Some dst) mo mf = Inr a"
    using assms by (auto simp: decode_stream_archive_def decode_or_inspect_def split: sum.splits prod.splits)
  then obtain f where f: "fs_files fs archive = Some f" and a: "open_stream_bytes c u f password mo mf = Inr a"
    by (auto simp: open_stream_def bindR_eq_Inr split: if_split_asm option.splits)
  from a obtain h where "parse_msc2_header (take (struct_size MSC2_HEADER) (fl_bytes f)) = Inr h"
    by (auto simp: open_stream_bytes_def bindR_eq_Inr msc2_read_def read_exact_def stream_read_def Let_def split: if_split_asm)
  from msc2_header_magic[OF this] f show ?thesis by (simp add: read_magic_def fs_read_def stream_read_def)
qed

lemma decode_file_magic:
  assumes "decode_file c l os fs archive dst password mo mf ma = (Inr ds, fs')"
  shows "read_magic fs archive = Inr MSC1_MAGIC"
proof -
  obtain a where "open_archive c fs archive password mo mf ma (Some dst) = Inr a"
    using assms by (auto simp: decode_file_def split: if_split_asm sum.splits)
  then obtain f where f: "fs_files fs archive = Some f" and a: "open_bytes c (fl_bytes f) (fl_id f) password mo mf ma = Inr a"
    by (auto simp: open_archive_def bindR_eq_Inr split: if_split_asm option.splits)
  from a obtain h where "parse_public_header (take (struct_size PUBLIC_HEADER) (fl_bytes f)) = Inr h"
    by (auto simp: open_bytes_def bindR_eq_Inr stream_read_def Let_def split: if_split_asm)
  from public_header_magic[OF this] f show ?thesis by (simp add: read_magic_def fs_read_def stream_read_def)
qed

text \<open>With valid limits, the interface does what the format's decoder does.\<close>

lemma decode_path_msr2:
  assumes "decode_solid_archive_v2 c (cl_zlib l) lib u os fs archive dst password mo mf = (Inr ds, fs')"
    and "validate_decode_limits mo mf ma = Inr ()"
  shows "decode_path c l lib u os fs archive dst password mo mf ma = (Inr (Msr2Decoded ds), fs')"
  using assms decode_msr2_magic[OF assms(1)] by (simp add: decode_path_def)

lemma decode_path_dedup:
  assumes "decode_dedup_archive c l u os fs archive dst password mo mf = (Inr ds, fs')"
    and "validate_decode_limits mo mf ma = Inr ()"
  shows "decode_path c l lib u os fs archive dst password mo mf ma = (Inr (DedupDecoded ds), fs')"
  using assms decode_dedup_magic[OF assms(1)] by (auto simp: decode_path_def)

lemma decode_path_stream:
  assumes "decode_stream_archive c l u os fs archive dst password mo mf = (Inr ds, fs')"
    and "validate_decode_limits mo mf ma = Inr ()"
  shows "decode_path c l lib u os fs archive dst password mo mf ma = (Inr (Msc2Decoded ds), fs')"
  using assms decode_stream_magic[OF assms(1)] by (simp add: decode_path_def)

lemma decode_path_file:
  assumes "decode_file c l os fs archive dst password mo mf ma = (Inr ds, fs')"
    and "validate_decode_limits mo mf ma = Inr ()"
  shows "decode_path c l lib u os fs archive dst password mo mf ma = (Inr (Msc1Decoded ds), fs')"
  using assms decode_file_magic[OF assms(1)] by (simp add: decode_path_def)

text \<open>Conversely a success of the interface is the success of one decoder.\<close>

lemma decode_path_cases:
  assumes "decode_path c l lib u os fs archive dst password mo mf ma = (Inr s, fs')"
  obtains (msr2) ds where "s = Msr2Decoded ds" "read_magic fs archive = Inr MSR2_MAGIC"
      "decode_solid_archive_v2 c (cl_zlib l) lib u os fs archive dst password mo mf = (Inr ds, fs')"
    | (dedup) ds magic where "s = DedupDecoded ds" "read_magic fs archive = Inr magic" "magic \<in> {MSC3_MAGIC, MSC4_MAGIC, MSC5_MAGIC, MSC6_MAGIC}"
      "decode_dedup_archive c l u os fs archive dst password mo mf = (Inr ds, fs')"
    | (msc2) ds where "s = Msc2Decoded ds" "read_magic fs archive = Inr MSC2_MAGIC"
      "decode_stream_archive c l u os fs archive dst password mo mf = (Inr ds, fs')"
    | (msc1) ds where "s = Msc1Decoded ds" "read_magic fs archive = Inr MSC1_MAGIC"
      "decode_file c l os fs archive dst password mo mf ma = (Inr ds, fs')"
proof -
  obtain magic where magic: "read_magic fs archive = Inr magic" and limits: "validate_decode_limits mo mf ma = Inr ()"
    using assms by (auto simp: decode_path_def bindR_eq_Inr split: sum.splits)
  have m: "bindR (validate_decode_limits mo mf ma) (\<lambda>_. read_magic fs archive) = Inr magic" using magic limits by simp
  note d = assms[unfolded decode_path_def m sum.case]
  consider "magic = MSR2_MAGIC" | "magic \<noteq> MSR2_MAGIC" "magic \<in> {MSC3_MAGIC, MSC4_MAGIC, MSC5_MAGIC, MSC6_MAGIC}"
    | "magic = MSC2_MAGIC" | "magic = MSC1_MAGIC"
    using d by (auto split: if_split_asm)
  then show thesis
  proof cases
    case 1
    with d magic show ?thesis by (auto simp: bindR_eq_Inr split: prod.splits intro: msr2)
  next
    case 2
    with d obtain ds where "s = DedupDecoded ds" "decode_dedup_archive c l u os fs archive dst password mo mf = (Inr ds, fs')"
      by (auto simp: bindR_eq_Inr split: prod.splits)
    from dedup[OF this(1) magic 2(2) this(2)] show ?thesis .
  next
    case 3
    with d magic show ?thesis by (auto simp: bindR_eq_Inr split: prod.splits intro: msc2)
  next
    case 4
    with d magic show ?thesis by (auto simp: bindR_eq_Inr split: prod.splits intro: msc1)
  qed
qed

text \<open>Failures.\<close>

lemma decode_path_atomic:
  assumes "os_law fs os" and "decode_path c l lib u os fs archive dst password mo mf ma = (Inl e, fs')"
  shows "parents_at_most fs dst fs'"
  using assms(2) decode_msr2_atomic[OF assms(1)] decode_dedup_atomic[OF assms(1)] decode_stream_atomic[OF assms(1)]
    decode_file_atomic[OF assms(1)]
  by (auto simp: decode_path_def bindR_eq_Inl split: sum.splits if_split_asm prod.splits)

lemma encode_dedup_atomic:
  assumes "os_law fs os"
    and "encode_dedup_archive c l u os fs source is_dir session dst password config padding log_n profile = (Inl e, fs')"
  shows "parents_at_most fs dst fs'"
  using assms(2) by (auto simp: encode_dedup_archive_def intro: publish_error[OF assms(1)] split: sum.splits)

lemma encode_path_atomic:
  assumes "os_law fs os"
    and "encode_path c l lib u os fs source is_dir session dst password chunk padding log_n cmin cmax profile fmt = (Inl e, fs')"
  shows "parents_at_most fs dst fs'"
  using assms(2) encode_msr2_atomic[OF assms(1)] encode_dedup_atomic[OF assms(1)]
  by (auto simp: encode_path_def bindR_eq_Inl split: sum.splits if_split_asm prod.splits)

section \<open>Inspection agrees with decoding\<close>

lemma inspect_after_file:
  assumes "decode_file c l os fs archive dst password mo mf ma = (Inr ds, fs')"
  shows "\<exists>info. inspect_archive c l fs archive password mo mf ma = Inr info
    \<and> ai_original_size info = ds_original_size ds \<and> ai_block_count info = ds_block_count ds
    \<and> ai_mode_distribution info = ds_mode_distribution ds"
proof -
  obtain a where a: "open_archive c fs archive password mo mf ma (Some dst) = Inr a"
    using assms by (auto simp: decode_file_def split: if_split_asm sum.splits)
  then have open_none: "open_archive c fs archive password mo mf ma None = Inr a"
    by (auto simp: open_archive_def bindR_eq_Inr split: option.splits if_split_asm)
  obtain written outcome where rec: "decode_records l (da_records a) [] [] = (written, outcome)" by fastforce
  have "\<exists>used. outcome = Inr used \<and> sha256 c written = da_expected_hash a
    \<and> ds = \<lparr>ds_original_size = da_original_size a, ds_block_count = length (da_records a),
             ds_mode_distribution = mode_distribution used, ds_hash_verified = True\<rparr>"
    using assms a rec by (auto simp: decode_file_def publish_def publish_file_def Let_def bindR_eq_Inr split: if_split_asm sum.splits)
  with open_none rec show ?thesis by (auto simp: inspect_archive_def)
qed

lemma inspect_after_msr2:
  assumes dec: "decode_solid_archive_v2 c y lib u os fs archive dst password mo mf = (Inr ds, fs')"
    and os: "os_law fs os'" and scratch: "fresh_path fs scratch" "scratch \<noteq> oc_temporary os'"
      "fs_resolve fs archive \<noteq> fs_resolve fs scratch"
  shows "inspect_solid_archive_v2 c y lib u os' scratch fs archive password mo mf = (Inr ds, fs)"
proof -
  obtain f a where f: "fs_files fs archive = Some f" and a: "read_msr2 c y lib u (fl_bytes f) password mo mf = Inr a"
    and r: "restore_msr2 c os fs a dst f = (Inr ds, fs')" and limits: "\<not> (mo < 0 \<or> mf \<le> 0)"
    using dec by (auto simp: decode_solid_archive_v2_def split: if_split_asm option.splits sum.splits)
  let ?kind = "dm_kind (ma_manifest a)"
  obtain t where body: "bindR (restore_chunk_entries c (located_chunk (ma_spool a)) (IntegrityError ''MSR2 file digest failed'') ?kind
        (dm_chunks (ma_manifest a)) (dm_entries (ma_manifest a)) (Some (empty_output ?kind)))
      (\<lambda>out. bindR (finish_output ?kind (dm_entries (ma_manifest a)) out) (\<lambda>out.
        Inr (case out of None \<Rightarrow> empty_output ?kind | Some t \<Rightarrow> t, msr2_decode_stats a (length (fl_bytes f))))) = Inr (t, ds)"
    using publish_output_success[OF r[unfolded restore_msr2_def Let_def]] by blast
  note fresh = new_destination_differs[OF scratch(1,2)]
  note gone = remove_fresh[OF scratch(1)]
  have "\<exists>fs2. restore_msr2 c os' fs a scratch f = (Inr ds, fs2)
      \<and> fs2\<lparr>fs_files := (fs_files fs2)(scratch := None), fs_trees := (fs_trees fs2)(scratch := None),
          fs_directories := fs_directories fs\<rparr> = fs"
  proof (cases "?kind = KIND_FOLDER")
    case True
    have rep: "replace_output (create_output (with_parents fs scratch) os' ?kind) os' scratch ?kind t = Inr (folder_published fs scratch t)"
      using replace_folder[OF os scratch(2)] by (simp add: True)
    have "restore_msr2 c os' fs a scratch f = (Inr ds, folder_published fs scratch t)"
      unfolding restore_msr2_def Let_def by (rule publish_output_run[OF scratch(1) _ _ rep]) (use body fresh in auto)
    with gone show ?thesis by (simp add: with_parents_def)
  next
    case False
    note rep = replace_file[OF os scratch(2) False fresh_pathD(3)[OF scratch(1)], of t]
    have "restore_msr2 c os' fs a scratch f = (Inr ds, published fs scratch
        \<lparr>fl_id = oc_identity os', fl_bytes = node_bytes (t []), fl_meta = node_metadata (t [])\<rparr>)"
      unfolding restore_msr2_def Let_def by (rule publish_output_run[OF scratch(1) _ _ rep]) (use body fresh in auto)
    with gone show ?thesis by (simp add: with_parents_def)
  qed
  then obtain fs2 where "restore_msr2 c os' fs a scratch f = (Inr ds, fs2)"
    and gone: "fs2\<lparr>fs_files := (fs_files fs2)(scratch := None), fs_trees := (fs_trees fs2)(scratch := None),
        fs_directories := fs_directories fs\<rparr> = fs" by blast
  then have "decode_solid_archive_v2 c y lib u os' fs archive scratch password mo mf = (Inr ds, fs2)"
    using f a limits scratch(3) fresh by (simp add: decode_solid_archive_v2_def)
  with gone show ?thesis by (simp add: inspect_solid_archive_v2_def)
qed

fun restored_size :: "api_decode_stats \<Rightarrow> nat" where
  "restored_size (Msc1Decoded ds) = ds_original_size ds"
| "restored_size (Msc2Decoded ds) = ssd_original_size ds"
| "restored_size (DedupDecoded ds) = dsd_original_size ds"
| "restored_size (Msr2Decoded ds) = v2d_original_size ds"

fun inspected_size :: "api_info \<Rightarrow> nat" where
  "inspected_size (Msc1Info info) = ai_original_size info"
| "inspected_size (Msc2Info info) = ssi_original_size info"
| "inspected_size (DedupInfo info) = dsi_original_size info"
| "inspected_size (Msr2Info info) = v2d_original_size info"

lemma inspect_after_decode_path:
  assumes dec: "decode_path c l lib u os fs archive dst password mo mf ma = (Inr s, fs')"
    and os: "os_law fs os'" and scratch: "fresh_path fs scratch" "scratch \<noteq> oc_temporary os'"
      "fs_resolve fs archive \<noteq> fs_resolve fs scratch"
  shows "\<exists>info. inspect_path c l lib u os' scratch fs archive password mo mf ma = (Inr info, fs)
    \<and> inspected_size info = restored_size s"
proof -
  have limits: "validate_decode_limits mo mf ma = Inr ()"
    using dec by (auto simp: decode_path_def bindR_eq_Inr split: sum.splits)
  show ?thesis
    using dec
  proof (cases rule: decode_path_cases)
    case (msr2 ds)
    from inspect_after_msr2[OF msr2(3) os scratch] msr2(1,2) limits show ?thesis by (simp add: inspect_path_def)
  next
    case (dedup ds magic)
    from inspect_after_dedup[OF dedup(4), of os'] dedup(1-3) limits show ?thesis by (auto simp: inspect_path_def)
  next
    case (msc2 ds)
    from inspect_after_decode[OF msc2(3), of os'] msc2(1,2) limits show ?thesis by (auto simp: inspect_path_def)
  next
    case (msc1 ds)
    from inspect_after_file[OF msc1(3)] msc1(1,2) limits show ?thesis by (auto simp: inspect_path_def)
  qed
qed

section \<open>A tree that nobody touches\<close>

text \<open>What a restore has to leave behind for a tree of folders and files.\<close>

definition restored_node :: "os_stat \<Rightarrow> bytes \<Rightarrow> node" where
  "restored_node md b =
     (let meta = Some (S_IMODE (os_mode md) mod 512, os_mtime_ns md) in if S_ISDIR (os_mode md) then TDir meta else TFile b meta)"

definition restored_tree :: "frozen_tree \<Rightarrow> tree" where
  "restored_tree T = (\<lambda>p. map_option (\<lambda>(md, b). restored_node md b) (T p))([] \<mapsto> TDir None)"

definition tree_restored :: "frozen_tree \<Rightarrow> os_choice \<Rightarrow> pystr \<Rightarrow> filesystem \<Rightarrow> filesystem \<Rightarrow> bool" where
  "tree_restored T os dst fs fs' \<longleftrightarrow>
     (if [] \<in> folders T then fs' = folder_published fs dst (restored_tree T)
      else \<exists>md b. T [] = Some (md, b)
        \<and> fs' = published fs dst \<lparr>fl_id = oc_identity os, fl_bytes = b,
            fl_meta = Some (S_IMODE (os_mode md) mod 512, os_mtime_ns md)\<rparr>)"

lemma tree_names:
  assumes fr: "frozen w T"
  shows "p \<in> dom T \<Longrightarrow> \<forall>n\<in>set p. plain_name n"
proof (induction p rule: rev_induct)
  case (snoc n p)
  have "plain_name n" "p \<in> dom T" using frozen_parent[OF fr snoc.prems] folders_dom by blast+
  with snoc.IH show ?case by simp
qed simp

lemma tree_file_or_folder:
  assumes "frozen w T" and "T p = Some (md, b)"
  shows "S_ISDIR (os_mode md) \<or> S_ISREG (os_mode md)"
  using frozen_node[OF assms] by (simp add: shows_node_def)

text \<open>A view with the entries of a quiet session, and what it reads, is the tree.\<close>

definition shows_tree :: "frozen_tree \<Rightarrow> source_view \<Rightarrow> bool" where
  "shows_tree T v \<longleftrightarrow>
     sv_root_is_file v = ([] \<notin> folders T)
     \<and> distinct (map (\<lambda>se. posix_components (se_relative_path se)) (sv_entries v))
     \<and> set (sv_entries v) = {node_entry p md | p md. (p \<noteq> [] \<or> [] \<notin> folders T) \<and> (\<exists>b. T p = Some (md, b))}
     \<and> (\<forall>i p md b. T p = Some (md, b) \<and> S_ISREG (os_mode md) \<longrightarrow> sv_read v i (path_string p) = Inr b)
     \<and> (\<forall>i rel b. sv_read v i rel = Inr b \<longrightarrow> (\<exists>p md. T p = Some (md, b) \<and> S_ISREG (os_mode md)))"

lemma quiet_view_shows:
  assumes fr: "frozen w T" and s: "session_of T s"
  shows "shows_tree T (session_view (\<lambda>_. w) nt clock t s)"
proof -
  let ?v = "session_view (\<lambda>_. w) nt clock t s"
  have good: "\<forall>e\<in>set (ss_entries s). entry_good T e" using s by (simp add: session_of_def chain_good_def)
  then have "map (\<lambda>se. posix_components (se_relative_path se)) (sv_entries ?v) = map sn_path (ss_entries s)"
    using plain_components tree_names[OF fr] by (auto simp: session_view_def entry_good_def domI)
  then have "distinct (map (\<lambda>se. posix_components (se_relative_path se)) (sv_entries ?v))"
    using s by (simp add: session_of_def)
  moreover have "\<exists>p md. T p = Some (md, b) \<and> S_ISREG (os_mode md)" if read: "sv_read ?v i rel = Inr b" for i rel b
  proof -
    from read have "open_file (\<lambda>_. w) nt (clock i rel) s rel = Inr b" by (simp add: session_view_def)
    from open_file_sound[OF this] obtain e handle where e: "ss_by_path s rel = Some e" "\<not> sn_is_directory e"
      "sw_open w (sn_path e) = Inr handle" "oh_bytes handle = b" by blast
    from s have idx: "index_good T (ss_by_path s) (dom T)" by (simp add: session_of_def)
    have "rel \<in> path_string ` dom T" using idx e(1) unfolding index_good_def by blast
    then obtain p where "p \<in> dom T" "rel = path_string p" by blast
    from index_lookup[OF idx this(1)] obtain e' where "ss_by_path s (path_string p) = Some e'" "chain_good T e'" .
    with e(1) \<open>rel = path_string p\<close> have eg: "entry_good T e" by (simp add: chain_good_def)
    then obtain b' where T: "T (sn_path e) = Some (sn_identity e, b')" by (auto simp: entry_good_def)
    have "S_ISREG (os_mode (sn_identity e))" using tree_file_or_folder[OF fr T] eg e(2) by (simp add: entry_good_def)
    with frozen_node[OF fr T] e(3,4) T show ?thesis by (auto simp: shows_node_def)
  qed
  moreover have "sv_root_is_file ?v = ([] \<notin> folders T)" using s by (simp add: session_view_def session_of_def)
  moreover have "sv_read ?v i (path_string p) = Inr b" if "T p = Some (md, b)" "S_ISREG (os_mode md)" for i p md b
    using open_quiet[OF fr s that] by (simp add: session_view_def)
  ultimately show ?thesis using quiet_entries[OF fr s, of "\<lambda>_. w" nt clock t] unfolding shows_tree_def by blast
qed

lemma shows_tree_first_pass: "shows_tree T v \<Longrightarrow> shows_tree T (first_pass v)"
  unfolding shows_tree_def first_pass_simps by blast

lemma node_entry_sel [simp]:
  "se_relative_path (node_entry p md) = path_string p" "se_is_directory (node_entry p md) = S_ISDIR (os_mode md)"
  "se_st_mode (node_entry p md) = os_mode md" "se_mtime_ns (node_entry p md) = os_mtime_ns md"
  by (simp_all add: node_entry_def)

lemma shown_tree:
  assumes fr: "frozen w T" and v: "shows_tree T v" and root: "[] \<in> folders T"
  shows "source_tree v = restored_tree T"
proof
  fix p
  let ?row = "\<lambda>se. (posix_components (se_relative_path se), source_node v se)"
  have entries: "set (sv_entries v) = {node_entry p md | p md. p \<noteq> [] \<and> (\<exists>b. T p = Some (md, b))}"
    and keys: "distinct (map (\<lambda>se. posix_components (se_relative_path se)) (sv_entries v))"
    using v root by (auto simp: shows_tree_def)
  have node: "?row (node_entry q md) = (q, restored_node md b)" if "T q = Some (md, b)" for q md b
  proof -
    have "posix_components (path_string q) = q" using plain_components tree_names[OF fr] that by blast
    moreover have "S_ISREG (os_mode md) \<Longrightarrow> sv_read v 1 (path_string q) = Inr b" using v that by (simp add: shows_tree_def)
    ultimately show ?thesis
      using tree_file_or_folder[OF fr that] by (auto simp: source_node_def restored_node_def Let_def)
  qed
  have dk: "distinct (map fst (map ?row (sv_entries v)))" using keys by (simp add: comp_def)
  show "source_tree v p = restored_tree T p"
  proof (cases "p = []")
    case False
    have "map_of (map ?row (sv_entries v)) p = map_option (\<lambda>(md, b). restored_node md b) (T p)"
    proof (cases "T p")
      case None
      have "p \<notin> fst ` set (map ?row (sv_entries v))" using None node by (auto simp: entries)
      then show ?thesis using None by (simp add: map_of_eq_None_iff)
    next
      case (Some x)
      then obtain md b where T: "T p = Some (md, b)" by (cases x) simp
      have "node_entry p md \<in> set (sv_entries v)" using T False by (auto simp: entries)
      from imageI[OF this, of ?row] have "(p, restored_node md b) \<in> set (map ?row (sv_entries v))"
        unfolding node[OF T] set_map .
      then show ?thesis using T dk by simp
    qed
    with False show ?thesis by (simp add: source_tree_def restored_tree_def)
  qed (simp add: source_tree_def restored_tree_def)
qed

lemma shown_tree_restored:
  assumes fr: "frozen w T" and v: "shows_tree T v" and r: "source_restored v os dst fs fs'"
  shows "tree_restored T os dst fs fs'"
proof (cases "[] \<in> folders T")
  case True
  with v have "\<not> sv_root_is_file v" by (simp add: shows_tree_def)
  with r shown_tree[OF fr v True] True show ?thesis by (simp add: source_restored_def tree_restored_def)
next
  case False
  with v have "sv_root_is_file v" by (simp add: shows_tree_def)
  with r obtain se data where se: "sv_entries v = [se]" and data: "sv_read v 1 [] = Inr data"
    and fs': "fs' = published fs dst \<lparr>fl_id = oc_identity os, fl_bytes = data,
            fl_meta = Some (S_IMODE (se_st_mode se) mod 512, se_mtime_ns se)\<rparr>"
    by (auto simp: source_restored_def)
  obtain md b where T: "T [] = Some (md, b)" using fr by (auto simp: frozen_def)
  have dom: "dom T = {[]}" by (rule frozen_single[OF fr False])
  have "S_ISREG (os_mode md)" using tree_file_or_folder[OF fr T] False T by (auto simp: folders_def)
  with v T have read: "sv_read v 1 (path_string []) = Inr b" unfolding shows_tree_def by blast
  have "node_entry [] md \<in> set (sv_entries v)" using v T False unfolding shows_tree_def by blast
  then have "se = node_entry [] md" by (simp add: se)
  with read data fs' T False show ?thesis by (auto simp: tree_restored_def)
qed

section \<open>There and back\<close>

text \<open>The strings that deduplication compares: the contents of the files and the chunks cut from them.\<close>

definition pieces :: "frozen_tree \<Rightarrow> bytes set" where
  "pieces T = {s. \<exists>p md before behind. T p = Some (md, before @ s @ behind)}"

lemma piece_whole: "T p = Some (md, b) \<Longrightarrow> b \<in> pieces T"
  unfolding pieces_def by (rule CollectI, rule exI[of _ p], rule exI[of _ md], rule exI[of _ "[]"], rule exI[of _ "[]"]) simp

lemma piece_chunk: "T p = Some (md, data) \<Longrightarrow> chunk \<in> set (content_defined_chunks c config data) \<Longrightarrow> chunk \<in> pieces T"
proof -
  assume T: "T p = Some (md, data)" and "chunk \<in> set (content_defined_chunks c config data)"
  then obtain xs ys where "content_defined_chunks c config data = xs @ chunk # ys" using split_list by fast
  then have "data = concat xs @ chunk @ concat ys" using chunks_concat[of c config data] by simp
  with T show ?thesis unfolding pieces_def by blast
qed

lemma shown_strings:
  assumes v: "shows_tree T v"
  shows "source_strings c config v \<subseteq> pieces T" and "scanned_chunks c config v \<subseteq> pieces T"
proof -
  have read: "\<exists>p md. T p = Some (md, b)" if "sv_read v i rel = Inr b" for i rel b
    using v that unfolding shows_tree_def by blast
  show "source_strings c config v \<subseteq> pieces T"
  proof
    fix s assume "s \<in> source_strings c config v"
    then consider i rel where "sv_read v i rel = Inr s"
      | rel data where "sv_read v 1 rel = Inr data" "s \<in> set (content_defined_chunks c config data)"
      unfolding source_strings_def by blast
    then show "s \<in> pieces T"
    proof cases
      case 1
      from read[OF 1] obtain p md where "T p = Some (md, s)" by blast
      then show ?thesis by (rule piece_whole)
    next
      case 2
      from read[OF 2(1)] obtain p md where "T p = Some (md, data)" by blast
      then show ?thesis by (rule piece_chunk[OF _ 2(2)])
    qed
  qed
  show "scanned_chunks c config v \<subseteq> pieces T"
  proof
    fix s assume "s \<in> scanned_chunks c config v"
    then obtain rel data where s: "sv_read v 0 rel = Inr data" "s \<in> set (content_defined_chunks c config data)"
      unfolding scanned_chunks_def by blast
    from read[OF s(1)] obtain p md where "T p = Some (md, data)" by blast
    then show "s \<in> pieces T" by (rule piece_chunk[OF _ s(2)])
  qed
qed

fun stored_size :: "api_encode_stats \<Rightarrow> nat" where
  "stored_size (StableStats s) = dse_original_size s"
| "stored_size (SolidStats s) = v2e_original_size s"

fun stored_frames :: "api_encode_stats \<Rightarrow> nat" where
  "stored_frames (StableStats s) = dse_block_count s"
| "stored_frames (SolidStats s) = v2e_frame_count s"

fun stored_bytes :: "api_encode_stats \<Rightarrow> nat" where
  "stored_bytes (StableStats s) = dse_archive_size s"
| "stored_bytes (SolidStats s) = v2e_archive_size s"

lemma api_chunking_valid: "api_chunking n lo hi = Inr config \<Longrightarrow> valid_chunking config"
  unfolding api_chunking_def by (rule chunking_config_valid)

lemma encode_path_cases:
  assumes "encode_path c l lib u os fs source is_dir session dst password chunk padding log_n lo hi profile fmt = (Inr stats, fs1)"
  obtains config where "api_chunking chunk lo hi = Inr config"
    and "(\<exists>s. fmt = ''solid'' \<and> stats = SolidStats s
        \<and> encode_solid_archive_v2 c l lib u os fs source is_dir session dst password config API_FRAME_PAYLOAD_SIZE padding log_n = (Inr s, fs1))
      \<or> (\<exists>s. fmt = ''stable'' \<and> stats = StableStats s
        \<and> encode_dedup_archive c l u os fs source is_dir session dst password config padding log_n profile = (Inr s, fs1))"
proof -
  obtain config where config: "api_chunking chunk lo hi = Inr config" using assms by (auto simp: encode_path_def split: sum.splits)
  with that show thesis using assms
    by (auto simp: encode_path_def bindR_eq_Inr split: if_split_asm prod.splits)
qed

lemma path_restores:
  assumes fr: "frozen w T" and v: "shows_tree T view" and portable: "portable_view u view"
    and enc: "encode_path c l lib u os fs source is_dir (Inr view) archive password chunk padding log_n lo hi profile fmt = (Inr stats, fs1)"
    and laws: "aead_law c" "digest_law c" "stream_law lib" "\<forall>b. zlib_ends (cl_zlib l) b" "\<forall>b. zlib_restores (cl_zlib l) b"
      "os_law fs os" "os_law fs1 os'"
    and inj: "inj_on (sha256 c) (pieces T)" and padding: "fmt = ''stable'' \<longrightarrow> padding_fits (nat padding) (stored_bytes stats)"
    and names: "archive \<noteq> oc_temporary os" "restored \<noteq> oc_temporary os'" and new: "fresh_path fs1 restored"
    and apart: "fs_resolve fs1 archive \<noteq> fs_resolve fs1 restored"
    and limits: "int (stored_size stats) \<le> mo" "int (stored_frames stats) \<le> mf" "0 < mo" "0 < mf" "0 < ma"
    and readable: "fmt = ''solid'' \<longrightarrow> stored_frames stats \<le> 1000000 \<and> (\<forall>config f. api_chunking chunk lo hi = Inr config
      \<and> fs_files fs1 archive = Some f \<longrightarrow> msr2_readable c u view config (fl_bytes f))"
  shows "\<exists>ds fs2. decode_path c l lib u os' fs1 archive restored password mo mf ma = (Inr ds, fs2)
    \<and> restored_size ds = stored_size stats \<and> tree_restored T os' restored fs1 fs2"
proof -
  obtain config where config: "api_chunking chunk lo hi = Inr config"
    and cases: "(\<exists>s. fmt = ''solid'' \<and> stats = SolidStats s
        \<and> encode_solid_archive_v2 c l lib u os fs source is_dir (Inr view) archive password config API_FRAME_PAYLOAD_SIZE padding log_n = (Inr s, fs1))
      \<or> (\<exists>s. fmt = ''stable'' \<and> stats = StableStats s
        \<and> encode_dedup_archive c l u os fs source is_dir (Inr view) archive password config padding log_n profile = (Inr s, fs1))"
    by (rule encode_path_cases[OF enc])
  note cfg = api_chunking_valid[OF config]
  have lim: "validate_decode_limits mo mf ma = Inr ()" using limits by (simp add: validate_decode_limits_def)
  from cases show ?thesis
  proof (elim disjE exE conjE)
    fix s assume fmt: "fmt = ''solid''" "stats = SolidStats s"
      and e: "encode_solid_archive_v2 c l lib u os fs source is_dir (Inr view) archive password config API_FRAME_PAYLOAD_SIZE padding log_n = (Inr s, fs1)"
    have rd: "\<forall>f. fs_files fs1 archive = Some f \<longrightarrow> msr2_readable c u view config (fl_bytes f)" and few: "v2e_frame_count s \<le> 1000000"
      and ls: "int (v2e_original_size s) \<le> mo" "int (v2e_frame_count s) \<le> mf"
      using readable limits(1,2) config by (simp_all add: fmt)
    have "inj_on (sha256 c) (scanned_chunks c config view)" by (rule inj_on_subset[OF inj shown_strings(2)[OF v]])
    from msr2_restores[OF e laws(1-4,6,7) portable cfg this names new apart rd ls limits(4) few] obtain ds fs2 where
      d: "decode_solid_archive_v2 c (cl_zlib l) lib u os' fs1 archive restored password mo mf = (Inr ds, fs2)"
      "v2d_original_size ds = v2e_original_size s" "source_restored (first_pass view) os' restored fs1 fs2" by blast
    show ?thesis using decode_path_msr2[OF d(1) lim] d(2) shown_tree_restored[OF fr shows_tree_first_pass[OF v] d(3)]
      by (intro exI[of _ "Msr2Decoded ds"] exI[of _ fs2]) (simp add: fmt)
  next
    fix s assume fmt: "fmt = ''stable''" "stats = StableStats s"
      and e: "encode_dedup_archive c l u os fs source is_dir (Inr view) archive password config padding log_n profile = (Inr s, fs1)"
    have ls: "int (dse_original_size s) \<le> mo" "int (dse_block_count s) \<le> mf"
      and pf: "padding_fits (nat padding) (dse_archive_size s)" using limits(1,2) padding by (simp_all add: fmt)
    have "length b \<le> 2 ^ 24" if "b \<in> set (content_defined_chunks c config data)" for b data
      using chunks_max[OF cfg that] cfg by (simp add: valid_chunking_def)
    then have ok: "\<forall>rel data. sv_read view 1 rel = Inr data \<longrightarrow> (\<forall>b\<in>set (content_defined_chunks c config data). block_ok l b)"
      using laws(5) by (simp add: block_ok_def)
    have "inj_on (sha256 c) (source_strings c config view)" by (rule inj_on_subset[OF inj shown_strings(1)[OF v]])
    from dedup_restores[OF e laws(1,2,6,7) portable cfg pf ok this names new ls(1) limits(3) ls(2) limits(4)] obtain ds fs2 where
      d: "decode_dedup_archive c l u os' fs1 archive restored password mo mf = (Inr ds, fs2)"
      "dedup_stats_agree s ds" "source_restored view os' restored fs1 fs2" by blast
    have "dsd_original_size ds = dse_original_size s" using d(2) by (simp add: dedup_stats_agree_def)
    then show ?thesis using decode_path_dedup[OF d(1) lim] shown_tree_restored[OF fr v d(3)]
      by (intro exI[of _ "DedupDecoded ds"] exI[of _ fs2]) (simp add: fmt)
  qed
qed

section \<open>An example: a quiet folder with two equal files\<close>

definition pair_stat :: "nat \<Rightarrow> nat \<Rightarrow> int \<Rightarrow> os_stat" where
  "pair_stat ino mode t = (example_stat ino mode 3)\<lparr>os_mtime_ns := t\<rparr>"

definition pair_tree :: frozen_tree where
  "pair_tree = [[] \<mapsto> (example_stat 1 16877 0, []), [lit ''a''] \<mapsto> (pair_stat 2 33188 5, [1, 2, 3]),
     [lit ''b''] \<mapsto> (pair_stat 3 33152 7, [1, 2, 3])]"

definition pair_world :: source_world where
  "pair_world = \<lparr>
     sw_stat = \<lambda>p. case pair_tree p of None \<Rightarrow> Inl Missing | Some (md, b) \<Rightarrow> Inr md,
     sw_scandir = \<lambda>p. if p = [] then Inr [lit ''a'', lit ''b''] else Inl (OSError ''not a directory''),
     sw_open = \<lambda>p. case pair_tree p of
       None \<Rightarrow> Inl (FileNotFoundError ''No such file or directory'')
     | Some (md, b) \<Rightarrow> Inr \<lparr>oh_opened = md, oh_bytes = b, oh_after = md\<rparr>\<rparr>"

lemma pair_names: "lit ''a'' = [97]" "lit ''b'' = [98]" "lit ''src'' = [115, 114, 99]"
  by (simp_all add: lit_def)

lemma pair_modes: "S_ISREG 33152" "\<not> S_ISDIR 33152" "\<not> S_ISLNK 33152"
  by (simp_all add: S_ISDIR_def S_ISREG_def S_ISLNK_def S_IFMT_def)

lemma pair_stat_sel [simp]:
  "os_ino (pair_stat i m t) = i" "os_mode (pair_stat i m t) = m" "os_file_attributes (pair_stat i m t) = 0"
  "os_mtime_ns (pair_stat i m t) = t" "os_size (pair_stat i m t) = 3"
  "os_ino (example_stat i m n) = i" "os_mode (example_stat i m n) = m" "os_file_attributes (example_stat i m n) = 0"
  by (simp_all add: pair_stat_def example_stat_def)

lemma pair_tree_dom: "dom pair_tree = {[], [[97]], [[98]]}"
  by (auto simp: pair_tree_def pair_names)

lemma pair_tree_node:
  assumes "pair_tree p = Some (md, b)"
  shows "p = [] \<and> md = example_stat 1 16877 0 \<or> p = [[97]] \<and> md = pair_stat 2 33188 5 \<and> b = [1, 2, 3]
    \<or> p = [[98]] \<and> md = pair_stat 3 33152 7 \<and> b = [1, 2, 3]"
  using assms by (auto simp: pair_tree_def pair_names split: if_split_asm)

lemma pair_folders: "folders pair_tree = {[]}"
  by (auto simp: folders_def pair_tree_def pair_names example_modes pair_modes split: if_split_asm)

lemma pair_shows: "pair_tree p = Some (md, b) \<Longrightarrow> shows_node pair_world pair_tree p md b"
proof -
  assume a: "pair_tree p = Some (md, b)"
  from pair_tree_node[OF a] a show ?thesis
    by (elim disjE) (auto simp: shows_node_def pair_world_def is_link_or_reparse_def example_modes pair_modes pair_names pair_tree_dom)
qed

lemma pair_frozen: "frozen pair_world pair_tree"
proof -
  have "\<forall>p n. p @ [n] \<in> dom pair_tree \<longrightarrow> plain_name n \<and> p \<in> folders pair_tree"
  proof (intro allI impI)
    fix p n assume "p @ [n] \<in> dom pair_tree"
    then have "p @ [n] = [] \<or> p @ [n] = [] @ [[97]] \<or> p @ [n] = [] @ [[98]]" unfolding pair_tree_dom by simp
    then have "p = [] \<and> (n = [97] \<or> n = [98])" unfolding append1_eq_conv by auto
    then show "plain_name n \<and> p \<in> folders pair_tree" by (auto simp: plain_name_def pair_folders)
  qed
  moreover have "\<exists>md b. pair_tree [] = Some (md, b)" by (simp add: pair_tree_def)
  moreover have "finite (dom pair_tree)" by (simp add: pair_tree_dom)
  ultimately show ?thesis unfolding frozen_def using pair_shows by blast
qed

lemma pair_normal: "\<forall>p\<in>dom pair_tree. nfc ascii_tables (path_string p) = path_string p"
  by (auto simp: pair_tree_dom ascii_tables_def)

lemma two_elements: "distinct xs \<Longrightarrow> set xs = {x, y} \<Longrightarrow> x \<noteq> y \<Longrightarrow> xs = [x, y] \<or> xs = [y, x]"
proof -
  assume d: "distinct xs" and s: "set xs = {x, y}" and "x \<noteq> y"
  then have "length xs = 2" using distinct_card[OF d] by simp
  then obtain a b where "xs = [a, b]" by (auto simp: length_Suc_conv numeral_2_eq_2)
  with d s show ?thesis by auto
qed

lemma pair_entries:
  assumes s: "session_of pair_tree s" and sorted: "sorted (map (entry_sort_key ascii_tables) (ss_entries s))"
  shows "map source_entry_of (ss_entries s) = sv_entries example_pair"
proof -
  have "\<not> ss_root_is_file s" "distinct (map sn_path (ss_entries s))" "set (map sn_path (ss_entries s)) = {[[97]], [[98]]}"
    using s by (auto simp: session_of_def pair_folders pair_tree_dom)
  then have "map sn_path (ss_entries s) = [[[97]], [[98]]] \<or> map sn_path (ss_entries s) = [[[98]], [[97]]]"
    by (intro two_elements) simp_all
  then obtain e1 e2 where es: "ss_entries s = [e1, e2]"
    and p: "sn_path e1 = [[97]] \<and> sn_path e2 = [[98]] \<or> sn_path e1 = [[98]] \<and> sn_path e2 = [[97]]"
    by (auto simp: map_eq_Cons_conv)
  have good: "entry_good pair_tree e1" "entry_good pair_tree e2" using s es by (auto simp: session_of_def chain_good_def)
  then have rel: "sn_relative_path e1 = path_string (sn_path e1)" "sn_relative_path e2 = path_string (sn_path e2)"
    by (simp_all add: entry_good_def)
  have first: "sn_path e1 = [[97]] \<and> sn_path e2 = [[98]]"
    using p sorted rel by (auto simp: es entry_sort_key_def less_eq_prod_def ascii_tables_def ascii_lower_def)
  have "sn_identity e1 = pair_stat 2 33188 5" "sn_identity e2 = pair_stat 3 33152 7"
    using good first by (auto simp: entry_good_def pair_tree_def pair_names)
  with good first show ?thesis
    by (simp add: es source_entry_of_def example_pair_def entry_good_def example_modes pair_modes pair_names)
qed

lemma pair_session:
  obtains view where "open_session (\<lambda>_. pair_world) ascii_tables 1 False (\<lambda>_ _. 0) 0 (lit ''src'') = Inr view"
    and "pair_view view" and "shows_tree pair_tree view"
proof -
  have fuel: "card (folders pair_tree) \<le> 1" by (simp add: pair_folders)
  obtain s t' where s: "source_session (\<lambda>_. pair_world) ascii_tables 1 0 (lit ''src'') = Inr (s, t')" "ss_name s = lit ''src''"
    "session_of pair_tree s" "\<not> ss_root_is_file s \<longrightarrow> sorted (map (entry_sort_key ascii_tables) (ss_entries s))"
    using session_frozen[OF pair_frozen fuel] by blast
  let ?v = "session_view (\<lambda>_. pair_world) False (\<lambda>_ _. 0) t' s"
  have tree: "shows_tree pair_tree ?v" by (rule quiet_view_shows[OF pair_frozen s(3)])
  have nr: "\<not> ss_root_is_file s" using s(3) by (simp add: session_of_def pair_folders)
  have "nfc ascii_tables (lit ''src'') = lit ''src''" "SLASH \<notin> set (lit ''src'')" by (simp_all add: ascii_tables_def pair_names)
  from quiet_session[OF pair_frozen fuel this pair_normal, of 0 False "\<lambda>_ _. 0"] s(1)
  have pv: "portable_view ascii_tables ?v" "sv_verify ?v = Inr ()" by fastforce+
  have files: "pair_tree [[97]] = Some (pair_stat 2 33188 5, [1, 2, 3])" "S_ISREG (os_mode (pair_stat 2 33188 5))"
    "pair_tree [[98]] = Some (pair_stat 3 33152 7, [1, 2, 3])" "S_ISREG (os_mode (pair_stat 3 33152 7))"
    by (simp_all add: pair_tree_def pair_names pair_modes example_modes)
  have "\<forall>i. sv_read ?v i (path_string [[97]]) = Inr [1, 2, 3]" "\<forall>i. sv_read ?v i (path_string [[98]]) = Inr [1, 2, 3]"
    using tree files unfolding shows_tree_def by blast+
  moreover have "path_string [[97]] = lit ''a''" "path_string [[98]] = lit ''b''" by (simp_all add: pair_names)
  ultimately have "\<forall>i. sv_read ?v i (lit ''a'') = Inr [1, 2, 3] \<and> sv_read ?v i (lit ''b'') = Inr [1, 2, 3]" by simp
  moreover have "\<forall>i rel. sv_read ?v i rel = sv_read ?v 0 rel" by (simp add: session_view_def)
  moreover have "sv_name ?v = lit ''src''" "\<not> sv_root_is_file ?v" using nr s(2) by (simp_all add: session_view_def)
  moreover have "\<forall>i rel data. sv_read ?v i rel = Inr data \<longrightarrow> data = [1, 2, 3]"
  proof (intro allI impI)
    fix i rel data assume "sv_read ?v i rel = Inr data"
    with tree obtain p md where "pair_tree p = Some (md, data)" "S_ISREG (os_mode md)" unfolding shows_tree_def by blast
    with pair_tree_node[OF this(1)] show "data = [1, 2, 3]" by (auto simp: example_modes)
  qed
  moreover have "sv_entries ?v = sv_entries example_pair" using pair_entries[OF s(3)] s(4) nr by (simp add: session_view_def)
  ultimately have "pair_view ?v" using pv unfolding pair_view_def by blast
  with tree s(1) that show thesis by (simp add: open_session_def)
qed

lemma open_session_quiet:
  assumes fr: "frozen w T" and fuel: "card (folders T) \<le> fuel" and name: "nfc u name = name" "SLASH \<notin> set name"
    and normal: "\<forall>p\<in>dom T. nfc u (path_string p) = path_string p"
  obtains view where "open_session (\<lambda>_. w) u fuel nt clock t name = Inr view" and "portable_view u view" and "shows_tree T view"
proof -
  obtain s t' where s: "source_session (\<lambda>_. w) u fuel t name = Inr (s, t')" "session_of T s"
    "portable_view u (session_view (\<lambda>_. w) nt clock t' s)"
    by (rule quiet_session[OF assms, of t nt clock])
  from s(1) have "open_session (\<lambda>_. w) u fuel nt clock t name = Inr (session_view (\<lambda>_. w) nt clock t' s)"
    by (simp add: open_session_def)
  from that[OF this s(3) quiet_view_shows[OF fr s(2)]] show thesis .
qed

lemma pair_pieces: "inj_on (sha256 example_crypto) (pieces pair_tree)"
proof -
  have "pieces pair_tree \<subseteq> {[], [1], [2], [3], [1, 2], [2, 3], [1, 2, 3]}"
  proof
    fix s assume "s \<in> pieces pair_tree"
    then obtain p md before behind where "pair_tree p = Some (md, before @ s @ behind)" unfolding pieces_def by blast
    then have "before @ s @ behind = [] \<or> before @ s @ behind = [1, 2, 3]"
      by (auto simp: pair_tree_def split: if_split_asm)
    then show "s \<in> {[], [1], [2], [3], [1, 2], [2, 3], [1, 2, 3]}"
      by (auto simp: append_eq_Cons_conv Cons_eq_append_conv)
  qed
  moreover have "inj_on (sha256 example_crypto) {[], [1], [2], [3], [1, 2], [2, 3], [1, 2, 3]}"
  proof (rule inj_onI)
    have short: "take 3 (sha256 example_crypto b) = take 3 b @ replicate (3 - length b) 0" for b
      by (simp add: example_crypto_def min_def, arith)
    fix x y :: bytes
    assume xy: "x \<in> {[], [1], [2], [3], [1, 2], [2, 3], [1, 2, 3]}" "y \<in> {[], [1], [2], [3], [1, 2], [2, 3], [1, 2, 3]}"
      and "sha256 example_crypto x = sha256 example_crypto y"
    then have "take 3 x @ replicate (3 - length x) 0 = take 3 y @ replicate (3 - length y) 0" using short by metis
    with xy show "x = y" by (elim insertE emptyE) (simp_all add: numeral_3_eq_3)
  qed
  ultimately show ?thesis by (rule inj_on_subset[rotated])
qed

lemma pair_chunking: "api_chunking 65536 None None = Inr DEFAULT_CHUNKING"
  by (simp add: api_chunking_def chunking_config_def DEFAULT_CHUNKING_def)

lemma pair_stable:
  obtains stats fs1 where "encode_path example_crypto example_clib lib ascii_tables example_os example_fs (lit ''src'') True
      (open_session (\<lambda>_. pair_world) ascii_tables 1 False (\<lambda>_ _. 0) 0 (lit ''src'')) (lit ''arc'') (PBytes [112])
      65536 256 14 None None ''balanced'' ''stable'' = (Inr stats, fs1)"
    and "stored_size stats = 6" and "stored_frames stats = 1"
    and "os_law fs1 example_os'" and "fresh_path fs1 (lit ''out'')" and "fs_resolve fs1 (lit ''arc'') \<noteq> fs_resolve fs1 (lit ''out'')"
proof -
  obtain view where view: "open_session (\<lambda>_. pair_world) ascii_tables 1 False (\<lambda>_ _. 0) 0 (lit ''src'') = Inr view" "pair_view view"
    by (rule pair_session)
  from pair_view_dedup[OF view(2)] obtain s fs1 where
    e: "encode_dedup_archive example_crypto example_clib ascii_tables example_os example_fs (lit ''src'') True
      (Inr view) (lit ''arc'') (PBytes [112]) DEFAULT_CHUNKING 256 14 ''balanced'' = (Inr s, fs1)"
    and sizes: "dse_original_size s = 6" "dse_block_count s = 1" by blast
  show thesis
    by (rule that[of "StableStats s" fs1])
      (use e sizes view(1) example_dedup_files[OF e] in \<open>simp_all add: encode_path_def pair_chunking\<close>, simp add: example_fs_def lit_def)
qed

lemma pair_solid:
  obtains stats fs1 where "encode_path example_crypto example_clib example_stream_lib ascii_tables example_os example_fs (lit ''src'') True
      (open_session (\<lambda>_. pair_world) ascii_tables 1 False (\<lambda>_ _. 0) 0 (lit ''src'')) (lit ''arc'') (PBytes [112])
      65536 256 14 None None ''balanced'' ''solid'' = (Inr stats, fs1)"
    and "stored_size stats = 6" and "stored_frames stats = 1"
    and "os_law fs1 example_os'" and "fresh_path fs1 (lit ''out'')" and "fs_resolve fs1 (lit ''arc'') \<noteq> fs_resolve fs1 (lit ''out'')"
    and "\<forall>view config f. open_session (\<lambda>_. pair_world) ascii_tables 1 False (\<lambda>_ _. 0) 0 (lit ''src'') = Inr view
      \<and> api_chunking 65536 None None = Inr config \<and> fs_files fs1 (lit ''arc'') = Some f
      \<longrightarrow> msr2_readable example_crypto ascii_tables view config (fl_bytes f)"
proof -
  obtain view where view: "open_session (\<lambda>_. pair_world) ascii_tables 1 False (\<lambda>_ _. 0) 0 (lit ''src'') = Inr view" "pair_view view"
    by (rule pair_session)
  obtain s fs1 where e: "encode_solid_archive_v2 example_crypto example_clib example_stream_lib ascii_tables example_os example_fs
      (lit ''src'') True (Inr view) (lit ''arc'') (PBytes [112]) DEFAULT_CHUNKING 1048576 256 14 = (Inr s, fs1)"
    and sizes: "v2e_original_size s = 6" "v2e_frame_count s = 1"
    and rd: "\<forall>f. fs_files fs1 (lit ''arc'') = Some f \<longrightarrow> msr2_readable example_crypto ascii_tables view DEFAULT_CHUNKING (fl_bytes f)"
    and fs1: "os_law fs1 example_os'" "fresh_path fs1 (lit ''out'')" "fs_resolve fs1 = fs_resolve example_fs"
    by (rule pair_view_msr2[OF view(2)])
  show thesis
    by (rule that[of "SolidStats s" fs1])
      (use e sizes view(1) fs1 rd in \<open>simp_all add: encode_path_def pair_chunking API_FRAME_PAYLOAD_SIZE_def\<close>, simp add: example_fs_def lit_def)
qed

section \<open>Properties\<close>

text \<open>C1: There and back through the interface: a file or folder tree that nobody touches, whose root name (free of slashes, as the name of a path is) and relative paths are in Unicode normal form C, archived with \<^verbatim>\<open>encode_path\<close> in the stable (MSC6) or the solid (MSR2) format, is recognised by its magic and restored by \<^verbatim>\<open>decode_path\<close>, with the same password and sufficient limits, to exactly the tree that was on disk: every name, every byte, permission bits and times of every entry; nothing else in the file system changes, but that the missing directories on the way to the destination are made. \<^verbatim>\<open>inspect_path\<close> accepts the archive too, reports its size and leaves nothing behind. Besides the laws of the libraries, the digest must tell the pieces of the files apart, the session needs fuel for the folders, and the destination must be free, with no file on the way. Since the encoders check less than the readers, a stable archive must have a padding size that is a multiple of 16 or be at most 256 MiB long, and a solid one must hold at most 1000000 frames, a manifest in the limits of MSC6 and at most 64 MiB of sealed metadata (\<^verbatim>\<open>msr2_readable\<close>).\<close>

lemma api_roundtrip:
  assumes "frozen w T" and "card (folders T) \<le> fuel" and "nfc u name = name" "SLASH \<notin> set name"
    and "\<forall>p\<in>dom T. nfc u (path_string p) = path_string p"
    and "encode_path c l lib u os fs source is_dir (open_session (\<lambda>_. w) u fuel nt clock t name) archive password chunk padding
      log_n lo hi profile fmt = (Inr stats, fs1)"
    and "aead_law c" "digest_law c" "stream_law lib" "\<forall>b. zlib_ends (cl_zlib l) b" "\<forall>b. zlib_restores (cl_zlib l) b"
      "os_law fs os" "os_law fs1 os'"
    and "inj_on (sha256 c) (pieces T)" and "fmt = ''stable'' \<longrightarrow> padding_fits (nat padding) (stored_bytes stats)"
    and "archive \<noteq> oc_temporary os" "restored \<noteq> oc_temporary os'" and "fresh_path fs1 restored"
    and "fs_resolve fs1 archive \<noteq> fs_resolve fs1 restored"
    and "int (stored_size stats) \<le> mo" "int (stored_frames stats) \<le> mf" "0 < mo" "0 < mf" "0 < ma"
    and "fmt = ''solid'' \<longrightarrow> stored_frames stats \<le> 1000000
      \<and> (\<forall>view config f. open_session (\<lambda>_. w) u fuel nt clock t name = Inr view \<and> api_chunking chunk lo hi = Inr config
           \<and> fs_files fs1 archive = Some f \<longrightarrow> msr2_readable c u view config (fl_bytes f))"
  shows "\<exists>ds fs2 info. decode_path c l lib u os' fs1 archive restored password mo mf ma = (Inr ds, fs2)
    \<and> restored_size ds = stored_size stats \<and> tree_restored T os' restored fs1 fs2
    \<and> inspect_path c l lib u os' restored fs1 archive password mo mf ma = (Inr info, fs1)
    \<and> inspected_size info = stored_size stats"
proof -
  obtain view where view: "open_session (\<lambda>_. w) u fuel nt clock t name = Inr view" "portable_view u view" "shows_tree T view"
    by (rule open_session_quiet[OF assms(1-5), of nt clock t])
  have readable: "fmt = ''solid'' \<longrightarrow> stored_frames stats \<le> 1000000 \<and> (\<forall>config f. api_chunking chunk lo hi = Inr config
      \<and> fs_files fs1 archive = Some f \<longrightarrow> msr2_readable c u view config (fl_bytes f))"
    using assms(25) view(1) by blast
  from path_restores[OF assms(1) view(3,2) assms(6)[unfolded view(1)] assms(7-24) readable] obtain ds fs2 where
    dec: "decode_path c l lib u os' fs1 archive restored password mo mf ma = (Inr ds, fs2)"
    "restored_size ds = stored_size stats" "tree_restored T os' restored fs1 fs2" by blast
  from inspect_after_decode_path[OF dec(1) assms(13,18,17,19)] dec show ?thesis by fastforce
qed

lemma api_roundtrip_witness:
  "(\<exists>stats fs1 ds fs2.
     encode_path example_crypto example_clib example_stream_lib ascii_tables example_os example_fs (lit ''src'') True
       (open_session (\<lambda>_. pair_world) ascii_tables 1 False (\<lambda>_ _. 0) 0 (lit ''src'')) (lit ''arc'') (PBytes [112])
       65536 256 14 None None ''balanced'' ''stable'' = (Inr stats, fs1)
     \<and> decode_path example_crypto example_clib example_stream_lib ascii_tables example_os' fs1 (lit ''arc'') (lit ''out'')
         (PBytes [112]) 1000 1000 1000 = (Inr ds, fs2)
     \<and> fs_trees fs2 (lit ''out'') = Some (restored_tree pair_tree) \<and> restored_size ds = 6)
   \<and> (\<exists>stats fs1 ds fs2.
     encode_path example_crypto example_clib example_stream_lib ascii_tables example_os example_fs (lit ''src'') True
       (open_session (\<lambda>_. pair_world) ascii_tables 1 False (\<lambda>_ _. 0) 0 (lit ''src'')) (lit ''arc'') (PBytes [112])
       65536 256 14 None None ''balanced'' ''solid'' = (Inr stats, fs1)
     \<and> decode_path example_crypto example_clib example_stream_lib ascii_tables example_os' fs1 (lit ''arc'') (lit ''out'')
         (PBytes [112]) 1000 1000 1000 = (Inr ds, fs2)
     \<and> fs_trees fs2 (lit ''out'') = Some (restored_tree pair_tree) \<and> restored_size ds = 6)"
proof -
  note rt = api_roundtrip[OF pair_frozen _ _ _ pair_normal, where name = "lit ''src''" and fuel = 1]
  have names: "nfc ascii_tables (lit ''src'') = lit ''src''" "SLASH \<notin> set (lit ''src'')" "card (folders pair_tree) \<le> 1"
    by (simp_all add: ascii_tables_def pair_names pair_folders)
  have zl: "\<forall>b. zlib_ends (cl_zlib example_clib) b" "\<forall>b. zlib_restores (cl_zlib example_clib) b" by (simp_all add: example_clib_def)
  have out: "fs_trees fs2 (lit ''out'') = Some (restored_tree pair_tree)" if "tree_restored pair_tree os (lit ''out'') fs1 fs2" for os fs1 fs2
    using that by (simp add: tree_restored_def pair_folders)
  note laws = example_crypto_laws example_stream_law zl example_os_law
  show ?thesis
  proof (intro conjI)
    obtain stats fs1 where e: "encode_path example_crypto example_clib example_stream_lib ascii_tables example_os example_fs (lit ''src'') True
       (open_session (\<lambda>_. pair_world) ascii_tables 1 False (\<lambda>_ _. 0) 0 (lit ''src'')) (lit ''arc'') (PBytes [112])
       65536 256 14 None None ''balanced'' ''stable'' = (Inr stats, fs1)" and sizes: "stored_size stats = 6" "stored_frames stats = 1"
      and fs1: "os_law fs1 example_os'" "fresh_path fs1 (lit ''out'')" "fs_resolve fs1 (lit ''arc'') \<noteq> fs_resolve fs1 (lit ''out'')"
      by (rule pair_stable)
    from rt[OF names(3,1,2) e laws fs1(1) pair_pieces _ example_msc1_names(2,3) fs1(2,3), of 1000 1000 1000] sizes
    obtain ds fs2 where "decode_path example_crypto example_clib example_stream_lib ascii_tables example_os' fs1 (lit ''arc'') (lit ''out'')
         (PBytes [112]) 1000 1000 1000 = (Inr ds, fs2)" "restored_size ds = 6" "tree_restored pair_tree example_os' (lit ''out'') fs1 fs2" by auto
    with e out show "\<exists>stats fs1 ds fs2.
     encode_path example_crypto example_clib example_stream_lib ascii_tables example_os example_fs (lit ''src'') True
       (open_session (\<lambda>_. pair_world) ascii_tables 1 False (\<lambda>_ _. 0) 0 (lit ''src'')) (lit ''arc'') (PBytes [112])
       65536 256 14 None None ''balanced'' ''stable'' = (Inr stats, fs1)
     \<and> decode_path example_crypto example_clib example_stream_lib ascii_tables example_os' fs1 (lit ''arc'') (lit ''out'')
         (PBytes [112]) 1000 1000 1000 = (Inr ds, fs2)
     \<and> fs_trees fs2 (lit ''out'') = Some (restored_tree pair_tree) \<and> restored_size ds = 6" by blast
  next
    obtain stats fs1 where e: "encode_path example_crypto example_clib example_stream_lib ascii_tables example_os example_fs (lit ''src'') True
       (open_session (\<lambda>_. pair_world) ascii_tables 1 False (\<lambda>_ _. 0) 0 (lit ''src'')) (lit ''arc'') (PBytes [112])
       65536 256 14 None None ''balanced'' ''solid'' = (Inr stats, fs1)" and sizes: "stored_size stats = 6" "stored_frames stats = 1"
      and fs1: "os_law fs1 example_os'" "fresh_path fs1 (lit ''out'')" "fs_resolve fs1 (lit ''arc'') \<noteq> fs_resolve fs1 (lit ''out'')"
      and rd: "\<forall>view config f. open_session (\<lambda>_. pair_world) ascii_tables 1 False (\<lambda>_ _. 0) 0 (lit ''src'') = Inr view
        \<and> api_chunking 65536 None None = Inr config \<and> fs_files fs1 (lit ''arc'') = Some f
        \<longrightarrow> msr2_readable example_crypto ascii_tables view config (fl_bytes f)"
      by (rule pair_solid)
    from rt[OF names(3,1,2) e laws fs1(1) pair_pieces _ example_msc1_names(2,3) fs1(2,3), of 1000 1000 1000] sizes rd
    obtain ds fs2 where "decode_path example_crypto example_clib example_stream_lib ascii_tables example_os' fs1 (lit ''arc'') (lit ''out'')
         (PBytes [112]) 1000 1000 1000 = (Inr ds, fs2)" "restored_size ds = 6" "tree_restored pair_tree example_os' (lit ''out'') fs1 fs2" by auto
    with e out show "\<exists>stats fs1 ds fs2.
     encode_path example_crypto example_clib example_stream_lib ascii_tables example_os example_fs (lit ''src'') True
       (open_session (\<lambda>_. pair_world) ascii_tables 1 False (\<lambda>_ _. 0) 0 (lit ''src'')) (lit ''arc'') (PBytes [112])
       65536 256 14 None None ''balanced'' ''solid'' = (Inr stats, fs1)
     \<and> decode_path example_crypto example_clib example_stream_lib ascii_tables example_os' fs1 (lit ''arc'') (lit ''out'')
         (PBytes [112]) 1000 1000 1000 = (Inr ds, fs2)
     \<and> fs_trees fs2 (lit ''out'') = Some (restored_tree pair_tree) \<and> restored_size ds = 6" by blast
  qed
qed

end
