(* ===== verification/CompetitiveContract.thy ===== *)
theory CompetitiveContract
  imports Padding "HOL-Library.List_Lexorder" "HOL-Library.Product_Lexorder" Complex_Main
begin

text \<open>
  The rules of the competitive evaluation (\<^verbatim>\<open>competitive_contract.py\<close>), first part: the validation of the
  contract document, samples and their statistics, and the identity of a case with the identifier derived
  from it. The bootstrap and the verdicts are in \<^verbatim>\<open>CompetitiveScores\<close>.

  A decoded JSON document is a value of \<open>json\<close>; objects keep the order of their keys and have none twice
  (\<^verbatim>\<open>_reject_duplicate_keys\<close>). A finite float is the rational number it stands for. Rounding is the parameter
  \<open>fl\<close>: \<open>fl q\<close> is the float nearest to the exact result \<open>q\<close> of one operation, or \<open>None\<close> when \<open>q\<close> overflows; a
  sum or difference that overflows is the error that the statistics over it raise. Opening and parsing the
  file is left out.
\<close>

section \<open>Documents\<close>

datatype json =
    JNull | JBool bool | JInt int | JFloat rat | JNonFinite | JStr pystr | JList "json list"
  | JObj "(pystr \<times> json) list"

abbreviation js :: "string \<Rightarrow> json" where "js s \<equiv> JStr (lit s)"

text \<open>\<^verbatim>\<open>object_pairs_hook\<close> of the parser, applied to the pairs of one object.\<close>

fun reject_duplicate_keys :: "(pystr \<times> json) list \<Rightarrow> (pystr \<times> json) list \<Rightarrow> json result" where
  "reject_duplicate_keys seen [] = Inr (JObj seen)"
| "reject_duplicate_keys seen ((key, value) # pairs) =
     (if key \<in> fst ` set seen then Inl (ContractValidationError ''duplicate JSON key'')
      else reject_duplicate_keys (seen @ [(key, value)]) pairs)"

fun require_object :: "json \<Rightarrow> (pystr \<times> json) list result" where
  "require_object (JObj members) = Inr members"
| "require_object _ = Inl (ContractValidationError ''must be a JSON object'')"

definition require_keys :: "(string \<Rightarrow> exn) \<Rightarrow> (pystr \<times> json) list \<Rightarrow> pystr list \<Rightarrow> unit result" where
  "require_keys error_type members expected =
     (if fst ` set members \<noteq> set expected then Inl (error_type ''keys must be exact'') else Inr ())"

text \<open>\<^verbatim>\<open>members[key]\<close>.\<close>

definition member :: "(pystr \<times> json) list \<Rightarrow> pystr \<Rightarrow> json result" where
  "member members key = (case map_of members key of None \<Rightarrow> Inl (KeyError ''key'') | Some v \<Rightarrow> Inr v)"

definition require_literal :: "json \<Rightarrow> json \<Rightarrow> unit result" where
  "require_literal value expected =
     (if value \<noteq> expected then Inl (ContractValidationError ''must equal the contract'') else Inr ())"

text \<open>\<^verbatim>\<open>_require_literal_list\<close>: a list of the same length with the same literals.\<close>

fun require_literal_list :: "json \<Rightarrow> json list \<Rightarrow> unit result" where
  "require_literal_list (JList values) expected =
     (if length values \<noteq> length expected \<or> list_ex (\<lambda>(actual, wanted). actual \<noteq> wanted) (zip values expected)
      then Inl (ContractValidationError ''must equal the contract'') else Inr ())"
| "require_literal_list _ expected = Inl (ContractValidationError ''must equal the contract'')"

text \<open>A run of the two checks over members of one object: \<open>JList\<close> rows stand for \<^verbatim>\<open>_require_literal_list\<close>.\<close>

fun require_rows :: "(pystr \<times> json) list \<Rightarrow> (string \<times> json) list \<Rightarrow> unit result" where
  "require_rows members [] = Inr ()"
| "require_rows members ((key, expected) # rows) =
     bindR (member members (lit key)) (\<lambda>value.
     bindR (case expected of JList wanted \<Rightarrow> require_literal_list value wanted | _ \<Rightarrow> require_literal value expected) (\<lambda>_.
       require_rows members rows))"

section \<open>The contract\<close>

abbreviation BOOTSTRAP_RESAMPLES where "BOOTSTRAP_RESAMPLES \<equiv> (10000 :: nat)"
abbreviation MEASURED_RUNS where "MEASURED_RUNS \<equiv> (11 :: nat)"
abbreviation MINIMUM_INPUT_BYTES where "MINIMUM_INPUT_BYTES \<equiv> (67108864 :: int)"

text \<open>The floats \<^verbatim>\<open>0.95\<close> and \<^verbatim>\<open>0.99\<close>.\<close>

definition BOOTSTRAP_CONFIDENCE_LEVEL :: rat where
  "BOOTSTRAP_CONFIDENCE_LEVEL = 4278419646001971 / 4503599627370496"

definition INCOMPRESSIBLE_RATIO :: rat where
  "INCOMPRESSIBLE_RATIO = 4458563631096791 / 4503599627370496"

definition MAX_CGROUP_MEMORY_PEAK_BYTES :: int where
  "MAX_CGROUP_MEMORY_PEAK_BYTES = 2 ^ 63 - 1"

definition BINDING_RAW_TOOLS :: "pystr list" where
  "BINDING_RAW_TOOLS = [lit ''7zip_raw'', lit ''zstd_raw'']"

definition BINDING_ENCRYPTED_TOOLS :: "pystr list" where
  "BINDING_ENCRYPTED_TOOLS = [lit ''7zip_aes256_headers'', lit ''zstd_age_passphrase'']"

definition BINDING_TOOLS :: "pystr list" where
  "BINDING_TOOLS = [lit ''7zip_raw'', lit ''7zip_aes256_headers'', lit ''zstd_raw'', lit ''zstd_age_passphrase'']"

definition DIAGNOSTIC_TOOLS :: "pystr list" where
  "DIAGNOSTIC_TOOLS = [lit ''gzip'', lit ''zip'', lit ''xz'', lit ''brotli'', lit ''lz4'']"

definition MEMORY_METRICS :: "pystr list" where
  "MEMORY_METRICS = [lit ''encode_cgroup_v2_memory_peak_bytes'', lit ''decode_cgroup_v2_memory_peak_bytes'']"

definition METRICS :: "pystr list" where
  "METRICS = [lit ''encode_wall_seconds'', lit ''decode_wall_seconds''] @ MEMORY_METRICS"

definition METRIC_SAMPLE_DOMAINS :: "(string \<times> json) list" where
  "METRIC_SAMPLE_DOMAINS =
     [(''encode_wall_seconds'', js ''positive_finite_number''), (''decode_wall_seconds'', js ''positive_finite_number''),
      (''encode_cgroup_v2_memory_peak_bytes'', js ''positive_signed_64_bit_integer''),
      (''decode_cgroup_v2_memory_peak_bytes'', js ''positive_signed_64_bit_integer'')]"

definition RUN_ORDER :: "json list" where
  "RUN_ORDER = js ''candidate'' # map JStr BINDING_TOOLS"

text \<open>The expected members, object by object, in the order in which they are compared.\<close>

definition contract_rows :: "(string \<times> json) list" where
  "contract_rows =
     [(''schema_version'', JInt 1), (''contract_id'', js ''mosaic-competitive-contract-v1''),
      (''contract_digest_algorithm'', js ''sha256_canonical_json_v1'')]"

definition candidate_rows :: "(string \<times> json) list" where
  "candidate_rows =
     [(''archive_format'', js ''MSC7''), (''profile'', js ''adaptive-v1''), (''configuration_id'', js ''msc7-default-v1'')]"

definition corpus_rows :: "(string \<times> json) list" where
  "corpus_rows = [(''minimum_input_bytes'', JInt MINIMUM_INPUT_BYTES)]"

definition execution_rows :: "(string \<times> json) list" where
  "execution_rows =
     [(''threads'', JList [JInt 1, JInt 8]), (''warmup_runs'', JInt 1), (''measured_runs'', JInt (int MEASURED_RUNS)),
      (''fresh_process_per_run'', JBool True), (''alternating_candidate_comparator_order'', JBool True),
      (''containment'', js ''pre_exec_fresh_cgroup_v2_and_pid_namespace''),
      (''cpu_tier_enforcement'', js ''exact_cpuset_and_tool_threads''),
      (''memory_peak_source'', js ''cgroup_v2_memory_peak_after_populated_zero''),
      (''swap_peak_scope'', js ''excluded''),
      (''page_cache_policy'', js ''input_prewarmed_outside_measured_cgroup_output_cache_included_v1''),
      (''even_run_order'', JList RUN_ORDER), (''odd_run_order'', JList (rev RUN_ORDER)), (''warmup_order'', JList RUN_ORDER),
      (''run_index_origin'', js ''zero_based''),
      (''pairing_rule'', js ''shared_candidate_index_to_each_comparator_same_index'')]"

definition comparator_rows :: "(string \<times> json) list" where
  "comparator_rows =
     [(''binding_tools'', JList (map JStr BINDING_TOOLS)), (''diagnostic_tools'', JList (map JStr DIAGNOSTIC_TOOLS)),
      (''performance_pass_scope'', js ''all_binding_tools'')]"

definition bootstrap_rows :: "(string \<times> json) list" where
  "bootstrap_rows =
     [(''statistic'', js ''paired_median_ratio''), (''resamples'', JInt (int BOOTSTRAP_RESAMPLES)),
      (''identity_encoding'', js ''utf8_u32be_length_prefixed_fields_v1''),
      (''case_id_derivation'', js ''sha256_case_identity_v1''), (''stream_algorithm'', js ''sha256_counter_v1''),
      (''counter_encoding'', js ''u64be_start_zero''), (''index_sampling'', js ''u64be_rejection_modulo''),
      (''percentile_interpolation'', js ''type_7''), (''confidence_level'', JFloat BOOTSTRAP_CONFIDENCE_LEVEL),
      (''pass_rule'', js ''every_binding_comparator_upper_bound_lt_1'')]"

definition size_rows :: "(string \<times> json) list" where
  "size_rows =
     [(''compressible_pass_rule'', js ''candidate_lt_smallest_comparator''),
      (''incompressible_if_best_raw_ratio_gt'', JFloat INCOMPRESSIBLE_RATIO), (''allowance_minimum_bytes'', JInt 4096),
      (''allowance_divisor'', JInt 2000),
      (''incompressible_pass_rule'', js ''candidate_lte_input_plus_allowance_and_lte_smallest_encrypted''),
      (''deterministic_size_statistic'', js ''archive_bytes''), (''encrypted_size_statistic'', js ''median''),
      (''encrypted_distribution_samples'', JInt (int MEASURED_RUNS))]"

abbreviation row_keys :: "(string \<times> json) list \<Rightarrow> pystr list" where
  "row_keys rows \<equiv> map (\<lambda>(key, _). lit key) rows"

definition contract_object :: "(pystr \<times> json) list \<Rightarrow> string \<Rightarrow> (pystr \<times> json) list result" where
  "contract_object members key = bindR (member members (lit key)) require_object"

definition CONTRACT_KEYS :: "pystr list" where
  "CONTRACT_KEYS = row_keys contract_rows
     @ [lit ''candidate'', lit ''corpus'', lit ''execution'', lit ''comparators'', lit ''metrics'',
        lit ''metric_sample_domains'', lit ''bootstrap'', lit ''size'']"

text \<open>A validated document is the one contract, so nothing of it is returned.\<close>

definition validate_contract_payload :: "json \<Rightarrow> unit result" where
  "validate_contract_payload payload =
     bindR (require_object payload) (\<lambda>root.
     bindR (require_keys ContractValidationError root CONTRACT_KEYS) (\<lambda>_.
     bindR (contract_object root ''candidate'') (\<lambda>candidate.
     bindR (contract_object root ''corpus'') (\<lambda>corpus.
     bindR (contract_object root ''execution'') (\<lambda>execution.
     bindR (contract_object root ''comparators'') (\<lambda>comparators.
     bindR (contract_object root ''metric_sample_domains'') (\<lambda>domains.
     bindR (contract_object root ''bootstrap'') (\<lambda>bootstrap.
     bindR (contract_object root ''size'') (\<lambda>size.
     bindR (require_keys ContractValidationError candidate (row_keys candidate_rows)) (\<lambda>_.
     bindR (require_keys ContractValidationError corpus (row_keys corpus_rows)) (\<lambda>_.
     bindR (require_keys ContractValidationError execution (row_keys execution_rows)) (\<lambda>_.
     bindR (require_keys ContractValidationError comparators (row_keys comparator_rows)) (\<lambda>_.
     bindR (require_keys ContractValidationError domains METRICS) (\<lambda>_.
     bindR (require_keys ContractValidationError bootstrap (row_keys bootstrap_rows)) (\<lambda>_.
     bindR (require_keys ContractValidationError size (row_keys size_rows)) (\<lambda>_.
     bindR (require_rows root contract_rows) (\<lambda>_.
     bindR (require_rows candidate candidate_rows) (\<lambda>_.
     bindR (require_rows corpus corpus_rows) (\<lambda>_.
     bindR (require_rows execution execution_rows) (\<lambda>_.
     bindR (require_rows comparators comparator_rows) (\<lambda>_.
     bindR (require_rows root [(''metrics'', JList (map JStr METRICS))]) (\<lambda>_.
     bindR (require_rows domains METRIC_SAMPLE_DOMAINS) (\<lambda>_.
     bindR (require_rows bootstrap bootstrap_rows) (\<lambda>_.
     require_rows size size_rows))))))))))))))))))))))))"

section \<open>Samples and statistics\<close>

type_synonym rounding = "rat \<Rightarrow> rat option"

text \<open>The result of one float operation.\<close>

definition rounded :: "rounding \<Rightarrow> rat \<Rightarrow> rat result" where
  "rounded fl q = (case fl q of None \<Rightarrow> Inl (ValueError ''values must be finite'') | Some r \<Rightarrow> Inr r)"

text \<open>One value of \<^verbatim>\<open>_validated_samples\<close>: integers become floats.\<close>

fun finite_number :: "rounding \<Rightarrow> bool \<Rightarrow> json \<Rightarrow> rat result" where
  "finite_number fl positive (JInt n) =
     bindR (rounded fl (of_int n)) (\<lambda>q.
       if positive \<and> q \<le> 0 then Inl (ValueError ''values must be greater than zero'') else Inr q)"
| "finite_number fl positive (JFloat q) =
     (if positive \<and> q \<le> 0 then Inl (ValueError ''values must be greater than zero'') else Inr q)"
| "finite_number fl positive JNonFinite = Inl (ValueError ''values must be finite'')"
| "finite_number fl positive _ = Inl (ValueError ''must contain only numbers (not booleans)'')"

fun validated_samples :: "rounding \<Rightarrow> bool \<Rightarrow> json \<Rightarrow> rat list result" where
  "validated_samples fl positive (JList []) = Inl (ValueError ''must not be empty'')"
| "validated_samples fl positive (JList (v # vs)) = mapR (finite_number fl positive) (v # vs)"
| "validated_samples fl positive _ = Inl (ValueError ''must be a numeric sequence'')"

fun memory_peak :: "json \<Rightarrow> json result" where
  "memory_peak (JInt n) =
     (if 0 < n \<and> n \<le> MAX_CGROUP_MEMORY_PEAK_BYTES then Inr (JInt n)
      else Inl (ValueError ''values must be positive signed 64-bit integers''))"
| "memory_peak _ = Inl (ValueError ''values must be positive signed 64-bit integers'')"

fun memory_samples :: "json \<Rightarrow> json list result" where
  "memory_samples (JList []) = Inl (ValueError ''cgroup memory.peak values must not be empty'')"
| "memory_samples (JList (v # vs)) = mapR memory_peak (v # vs)"
| "memory_samples _ = Inl (ValueError ''cgroup memory.peak values must be a numeric sequence'')"

definition validated_metric_samples :: "rounding \<Rightarrow> pystr \<Rightarrow> json \<Rightarrow> json list result" where
  "validated_metric_samples fl metric samples =
     (if metric \<notin> set METRICS then Inl (ValueError ''unknown metric'')
      else if metric \<notin> set MEMORY_METRICS then bindR (validated_samples fl True samples) (\<lambda>qs. Inr (map JFloat qs))
      else memory_samples samples)"

text \<open>The exact value of a validated sample.\<close>

fun number :: "json \<Rightarrow> rat" where
  "number (JInt n) = of_int n"
| "number (JFloat q) = q"
| "number _ = 0"

text \<open>\<^verbatim>\<open>statistics.median\<close>: the middle one of an odd number of values, or the mean of the two in the middle.\<close>

definition statistics_median :: "rounding \<Rightarrow> rat list \<Rightarrow> rat result" where
  "statistics_median fl qs =
     (let sorted = sort qs; n = length qs
      in if n mod 2 = 1 then Inr (sorted ! (n div 2))
         else bindR (rounded fl (sorted ! (n div 2 - 1) + sorted ! (n div 2))) (\<lambda>sum. rounded fl (sum / 2)))"

definition median_absolute_deviation :: "rounding \<Rightarrow> json \<Rightarrow> rat result" where
  "median_absolute_deviation fl samples =
     bindR (validated_samples fl False samples) (\<lambda>qs.
     bindR (statistics_median fl qs) (\<lambda>middle.
     bindR (mapR (\<lambda>q. rounded fl (q - middle)) qs) (\<lambda>deviations.
       statistics_median fl (map abs deviations))))"

definition percentile_type7 :: "rounding \<Rightarrow> json \<Rightarrow> rat \<Rightarrow> rat result" where
  "percentile_type7 fl samples percentile =
     bindR (validated_samples fl False samples) (\<lambda>qs.
       if \<not> (0 \<le> percentile \<and> percentile \<le> 1)
       then Inl (ValueError ''percentile must be a finite number from zero through one'')
       else bindR (rounded fl (of_nat (length qs - 1) * percentile)) (\<lambda>position.
         let sorted = sort qs; lower_index = nat \<lfloor>position\<rfloor>; upper_index = nat \<lceil>position\<rceil>
         in if lower_index = upper_index then Inr (sorted ! lower_index)
            else bindR (rounded fl (position - of_nat lower_index)) (\<lambda>fraction.
                 bindR (rounded fl (sorted ! upper_index - sorted ! lower_index)) (\<lambda>step.
                 bindR (rounded fl (fraction * step)) (\<lambda>part.
                   rounded fl (sorted ! lower_index + part))))))"

section \<open>The identity of a case\<close>

record CaseIdentity =
  ci_contract_sha256 :: pystr
  ci_corpus_manifest_sha256 :: pystr
  ci_corpus_id :: pystr
  ci_input_sha256 :: pystr
  ci_input_bytes :: int
  ci_thread_count :: int
  ci_metric :: pystr

definition CONTRACT_SHA256 :: pystr where
  "CONTRACT_SHA256 = lit ''5f76317e4e03c2b4a5e5c9414e08edd7fd64d53e35afb3681cd6ba93e93b3d6d''"

definition hex_char :: "nat \<Rightarrow> bool" where
  "hex_char x \<longleftrightarrow> 48 \<le> x \<and> x \<le> 57 \<or> 97 \<le> x \<and> x \<le> 102"

text \<open>\<^verbatim>\<open>[0-9a-f]{64}\<close>.\<close>

definition is_sha256 :: "pystr \<Rightarrow> bool" where
  "is_sha256 s \<longleftrightarrow> length s = 64 \<and> list_all hex_char s"

definition require_sha256 :: "json \<Rightarrow> pystr result" where
  "require_sha256 v =
     (case v of
        JStr s \<Rightarrow> if is_sha256 s then Inr s else Inl (ValueError ''must be a lowercase SHA-256 digest'')
      | _ \<Rightarrow> Inl (ValueError ''must be a lowercase SHA-256 digest''))"

text \<open>\<^verbatim>\<open>[a-z0-9]+(?:[._-][a-z0-9]+)*\<close>, with whether the last character was a letter or digit.\<close>

fun corpus_id_from :: "bool \<Rightarrow> pystr \<Rightarrow> bool" where
  "corpus_id_from alnum [] = alnum"
| "corpus_id_from alnum (x # xs) =
     (if 97 \<le> x \<and> x \<le> 122 \<or> 48 \<le> x \<and> x \<le> 57 then corpus_id_from True xs
      else alnum \<and> x \<in> {46, 95, 45} \<and> corpus_id_from False xs)"

abbreviation MAX_CORPUS_ID_BYTES where "MAX_CORPUS_ID_BYTES \<equiv> (128 :: nat)"

definition validate_case_identity :: "CaseIdentity \<Rightarrow> unit result" where
  "validate_case_identity i =
     bindR (require_sha256 (JStr (ci_contract_sha256 i))) (\<lambda>contract_sha256.
       if contract_sha256 \<noteq> CONTRACT_SHA256
       then Inl (ValueError ''contract_sha256 must bind the exact Competitive Contract v1 bytes'')
       else bindR (require_sha256 (JStr (ci_corpus_manifest_sha256 i))) (\<lambda>_.
         if \<not> corpus_id_from False (ci_corpus_id i)
            \<or> (case utf8_encode (ci_corpus_id i) of Inl _ \<Rightarrow> True | Inr b \<Rightarrow> length b > MAX_CORPUS_ID_BYTES)
         then Inl (ValueError ''corpus_id must be a canonical lowercase identifier of at most 128 bytes'')
         else bindR (require_sha256 (JStr (ci_input_sha256 i))) (\<lambda>_.
           if ci_input_bytes i < MINIMUM_INPUT_BYTES then Inl (ValueError ''input_bytes must meet minimum_input_bytes'')
           else if ci_thread_count i \<notin> {1, 8} then Inl (ValueError ''thread_count must be one of (1, 8)'')
           else if ci_metric i \<notin> set METRICS then Inl (ValueError ''unknown metric'') else Inr ())))"

fun length_prefixed :: "pystr list \<Rightarrow> bytes result" where
  "length_prefixed [] = Inr []"
| "length_prefixed (v # vs) =
     bindR (utf8_encode v) (\<lambda>field.
       if length field > 2 ^ 32 - 1 then Inl (ValueError ''identity field exceeds the unsigned 32-bit length encoding'')
       else bindR (length_prefixed vs) (\<lambda>rest. Inr (be_encode 4 (length field) @ field @ rest)))"

text \<open>\<^verbatim>\<open>str(n)\<close> of a non-negative integer.\<close>

fun decimal :: "nat \<Rightarrow> pystr" where
  "decimal n = (if n < 10 then [48 + n] else decimal (n div 10) @ [48 + n mod 10])"

declare decimal.simps [simp del]

definition decimal_int :: "int \<Rightarrow> pystr" where
  "decimal_int n = (if n < 0 then 45 # decimal (nat (- n)) else decimal (nat n))"

definition case_identity_fields :: "CaseIdentity \<Rightarrow> pystr list result" where
  "case_identity_fields i =
     bindR (validate_case_identity i) (\<lambda>_.
       Inr [ci_contract_sha256 i, ci_corpus_manifest_sha256 i, ci_corpus_id i, ci_input_sha256 i,
            decimal_int (ci_input_bytes i), decimal_int (ci_thread_count i), ci_metric i])"

text \<open>\<^verbatim>\<open>hexdigest\<close>.\<close>

definition hex_digit :: "nat \<Rightarrow> nat" where
  "hex_digit n = (if n < 10 then 48 + n else 87 + n)"

definition hexdigest :: "bytes \<Rightarrow> pystr" where
  "hexdigest b = concat (map (\<lambda>x. [hex_digit (unat x div 16), hex_digit (unat x mod 16)]) b)"

definition CASE_ID_PREFIX :: pystr where
  "CASE_ID_PREFIX = lit ''msc-case-v1-''"

definition CASE_ID_DOMAIN :: pystr where
  "CASE_ID_DOMAIN = lit ''mosaic-competitive-case-id-v1''"

definition case_material :: "CaseIdentity \<Rightarrow> bytes result" where
  "case_material i = bindR (case_identity_fields i) (\<lambda>fields. length_prefixed (CASE_ID_DOMAIN # fields))"

definition derive_case_id :: "crypto \<Rightarrow> CaseIdentity \<Rightarrow> pystr result" where
  "derive_case_id c i = bindR (case_material i) (\<lambda>material. Inr (CASE_ID_PREFIX @ hexdigest (sha256 c material)))"

text \<open>\<^verbatim>\<open>msc-case-v1-[0-9a-f]{64}\<close>, which bounds the length too.\<close>

definition require_case_id :: "json \<Rightarrow> pystr \<Rightarrow> pystr result" where
  "require_case_id v expected =
     (case v of
        JStr s \<Rightarrow>
          if take (length CASE_ID_PREFIX) s \<noteq> CASE_ID_PREFIX \<or> \<not> is_sha256 (drop (length CASE_ID_PREFIX) s)
          then Inl (ValueError ''case_id must be the canonical derived identifier'')
          else if s \<noteq> expected then Inl (ValueError ''case_id does not match the bound case identity'') else Inr s
      | _ \<Rightarrow> Inl (ValueError ''case_id must be the canonical derived identifier''))"

section \<open>Identities are told apart\<close>

lemma be_encode_nonempty [simp]: "be_encode n v = [] \<longleftrightarrow> n = 0"
  by (metis length_0_conv length_be_encode)

lemma length_prefixed_inj:
  "length_prefixed vs = Inr b \<Longrightarrow> length_prefixed ws = Inr b \<Longrightarrow> vs = ws"
proof (induction vs arbitrary: ws b)
  case Nil
  then show ?case by (cases ws) (auto simp: result_simps split: if_splits)
next
  case (Cons v vs)
  obtain e r where e: "utf8_encode v = Inr e" "length e \<le> 2 ^ 32 - 1" "length_prefixed vs = Inr r"
    and b: "b = be_encode 4 (length e) @ e @ r"
    using Cons.prems(1) by (auto simp: result_simps split: if_splits)
  obtain w ws' where ws: "ws = w # ws'" using Cons.prems(2) b by (cases ws) auto
  obtain e' r' where e': "utf8_encode w = Inr e'" "length e' \<le> 2 ^ 32 - 1" "length_prefixed ws' = Inr r'"
    and b': "b = be_encode 4 (length e') @ e' @ r'"
    using Cons.prems(2) ws by (auto simp: result_simps split: if_splits)
  have heads: "be_encode 4 (length e) = be_encode 4 (length e')" and tails: "e @ r = e' @ r'"
    using b b' by (auto simp: append_eq_append_conv)
  have "length e = length e'"
    using arg_cong[OF heads, of be_decode] e(2) e'(2) by simp
  then have "e = e'" "r = r'" using tails by auto
  then show ?case using Cons.IH[OF e(3), of ws'] e(1) e'(1,3) utf8_encode_inj ws by blast
qed

lemma decimal_nonempty [simp]: "decimal n \<noteq> []"
  by (subst decimal.simps) auto

lemma decimal_snoc: "decimal n = (if n < 10 then [] else decimal (n div 10)) @ [48 + n mod 10]"
  by (subst decimal.simps) simp

lemma decimal_inj: "decimal m = decimal n \<Longrightarrow> m = n"
proof (induction m arbitrary: n rule: less_induct)
  case (less m)
  have parts: "(if m < 10 then [] else decimal (m div 10)) = (if n < 10 then [] else decimal (n div 10))"
    "m mod 10 = n mod 10"
    using less.prems unfolding decimal_snoc[of m] decimal_snoc[of n] by simp_all
  show ?case
  proof (cases "m < 10")
    case True
    then have "n < 10" using parts(1) decimal_nonempty[of "n div 10", symmetric] by (auto split: if_splits)
    then show ?thesis using parts(2) True by simp
  next
    case False
    then have "n \<ge> 10" "decimal (m div 10) = decimal (n div 10)"
      using parts(1) decimal_nonempty[of "m div 10"] by (auto split: if_splits)
    moreover have "m div 10 < m" using False by simp
    ultimately have "m div 10 = n div 10" using less.IH by blast
    then show ?thesis using parts(2) by (metis div_mult_mod_eq)
  qed
qed

lemma decimal_digits: "x \<in> set (decimal n) \<Longrightarrow> 48 \<le> x"
proof (induction n rule: decimal.induct)
  case (1 n)
  then show ?case by (subst (asm) (2) decimal.simps) (auto split: if_splits)
qed

lemma decimal_int_inj: "decimal_int m = decimal_int n \<Longrightarrow> m = n"
proof -
  assume same: "decimal_int m = decimal_int n"
  have sign: "decimal k \<noteq> 45 # xs" for k xs using decimal_digits[of 45 k] by auto
  consider "m < 0" "n < 0" | "\<not> m < 0" "\<not> n < 0" | "m < 0" "\<not> n < 0" | "\<not> m < 0" "n < 0" by blast
  then show "m = n"
  proof cases
    case 1
    then have "nat (- m) = nat (- n)" using same decimal_inj by (auto simp: decimal_int_def)
    then show ?thesis using 1 by linarith
  next
    case 2
    then have "nat m = nat n" using same decimal_inj by (auto simp: decimal_int_def)
    then show ?thesis using 2 by linarith
  next
    case 3
    then show ?thesis using same sign[of "nat n"] by (simp add: decimal_int_def) metis
  next
    case 4
    then show ?thesis using same sign[of "nat m"] by (simp add: decimal_int_def)
  qed
qed

lemma hexdigest_inj: "hexdigest a = hexdigest b \<Longrightarrow> a = b"
proof (induction a arbitrary: b)
  case Nil
  then show ?case by (cases b) (auto simp: hexdigest_def)
next
  case (Cons x a)
  have digit: "hex_digit m = hex_digit n \<Longrightarrow> m < 16 \<Longrightarrow> n < 16 \<Longrightarrow> m = n" for m n
    by (auto simp: hex_digit_def split: if_splits)
  have small: "unat z div 16 < 16" for z :: "8 word"
  proof -
    have "unat z < 2 ^ LENGTH(8)" by (rule unsigned_less)
    then have "unat z < 256" by simp
    then show ?thesis by linarith
  qed
  obtain y b' where b: "b = y # b'" using Cons.prems by (cases b) (auto simp: hexdigest_def)
  have "unat x div 16 = unat y div 16" "unat x mod 16 = unat y mod 16"
    using Cons.prems b digit[OF _ small small] digit[of "unat x mod 16" "unat y mod 16"] by (auto simp: hexdigest_def)
  then have "x = y" by (metis div_mult_mod_eq word_unat_eq_iff)
  then show ?case using Cons b by (simp add: hexdigest_def)
qed

lemma case_material_inj:
  assumes "case_material i = Inr m" and "case_material j = Inr m"
  shows "i = j"
proof -
  obtain fi fj where f: "case_identity_fields i = Inr fi" "case_identity_fields j = Inr fj"
    and "length_prefixed (CASE_ID_DOMAIN # fi) = Inr m" "length_prefixed (CASE_ID_DOMAIN # fj) = Inr m"
    using assms unfolding case_material_def bindR_eq_Inr by blast
  then have "fi = fj" using length_prefixed_inj by blast
  then show ?thesis using f
    by (cases i; cases j) (auto simp: case_identity_fields_def result_simps dest: decimal_int_inj)
qed

end
