(* ===== verification/CompetitiveScores.thy ===== *)
theory CompetitiveScores
  imports CompetitiveContract
begin

text \<open>
  The rules of the competitive evaluation (\<^verbatim>\<open>competitive_contract.py\<close>), second part: the bootstrap over a stream
  of SHA-256 blocks, the verdicts on a metric and on archive sizes, and the score of a case.
\<close>

section \<open>The bootstrap\<close>

definition BOOTSTRAP_STREAM_DOMAIN :: pystr where
  "BOOTSTRAP_STREAM_DOMAIN = lit ''mosaic-competitive-bootstrap-stream-v1''"

definition UINT64_RANGE :: nat where
  "UINT64_RANGE = 2 ^ 64"

definition require_binding_comparator_id :: "pystr \<Rightarrow> pystr result" where
  "require_binding_comparator_id comparator_id =
     (if comparator_id \<notin> set BINDING_TOOLS then Inl (ValueError ''unknown comparator_id'') else Inr comparator_id)"

text \<open>
  The \<open>k\<close>-th word of \<^verbatim>\<open>_sha256_counter_words\<close>: four big-endian words for each value of the counter, which
  the stream runs out of after \<open>2 ^ 64\<close> blocks.
\<close>

definition counter_word :: "crypto \<Rightarrow> bytes \<Rightarrow> nat \<Rightarrow> nat" where
  "counter_word c material k =
     be_decode (take 8 (drop (8 * (k mod 4)) (sha256 c (material @ be_encode 8 (k div 4)))))"

definition counter_words :: nat where
  "counter_words = 4 * UINT64_RANGE"

text \<open>The loop of \<^verbatim>\<open>_bootstrap_indices\<close>, at word \<open>k\<close> with \<open>count\<close> indices to go.\<close>

function draw_indices :: "(nat \<Rightarrow> nat) \<Rightarrow> nat \<Rightarrow> nat \<Rightarrow> nat \<Rightarrow> nat \<Rightarrow> nat list result" where
  "draw_indices word limit upper_bound count k =
     (if k \<ge> counter_words then Inl (RuntimeError ''SHA-256 counter stream exhausted'')
      else if word k < limit
      then if count \<le> 1 then Inr [word k mod upper_bound]
           else bindR (draw_indices word limit upper_bound (count - 1) (k + 1)) (\<lambda>rest. Inr (word k mod upper_bound # rest))
      else draw_indices word limit upper_bound count (k + 1))"
  by pat_completeness auto
termination by (relation "measure (\<lambda>(word, limit, upper_bound, count, k). counter_words - k)") auto

declare draw_indices.simps [simp del]

definition acceptance_limit :: "nat \<Rightarrow> nat" where
  "acceptance_limit upper_bound = UINT64_RANGE - UINT64_RANGE mod upper_bound"

definition bootstrap_indices :: "crypto \<Rightarrow> CaseIdentity \<Rightarrow> pystr \<Rightarrow> int \<Rightarrow> int \<Rightarrow> nat list result" where
  "bootstrap_indices c identity comparator_id count upper_bound =
     bindR (require_binding_comparator_id comparator_id) (\<lambda>comparator.
       if count < 0 then Inl (ValueError ''count must be a nonnegative integer'')
       else if \<not> (0 < upper_bound \<and> upper_bound \<le> int UINT64_RANGE)
       then Inl (ValueError ''upper_bound must be an integer from 1 through 2^64'')
       else bindR (case_identity_fields identity) (\<lambda>fields.
         bindR (length_prefixed (BOOTSTRAP_STREAM_DOMAIN # fields @ [comparator])) (\<lambda>material.
           if count = 0 then Inr []
           else draw_indices (counter_word c material) (acceptance_limit (nat upper_bound)) (nat upper_bound) (nat count) 0)))"

record ConfidenceInterval =
  iv_lower :: rat
  iv_upper :: rat
  iv_confidence_level :: rat

text \<open>The medians of the resamples: each takes the next indices of the stream.\<close>

definition resample_medians :: "rounding \<Rightarrow> rat list \<Rightarrow> nat list \<Rightarrow> nat \<Rightarrow> rat list result" where
  "resample_medians fl ratios indices resamples =
     mapR (\<lambda>r. statistics_median fl (map (\<lambda>i. ratios ! i) (take (length ratios) (drop (r * length ratios) indices))))
       [0..<resamples]"

definition paired_ratio :: "rounding \<Rightarrow> json \<times> json \<Rightarrow> rat result" where
  "paired_ratio fl = (\<lambda>(candidate, comparator).
     case fl (number candidate / number comparator) of
       Some q \<Rightarrow> if 0 < q then Inr q else Inl (ValueError ''paired candidate/comparator ratios must be finite and positive'')
     | None \<Rightarrow> Inl (ValueError ''paired candidate/comparator ratios must be finite and positive''))"

definition paired_bootstrap_ratio_ci ::
  "crypto \<Rightarrow> rounding \<Rightarrow> json \<Rightarrow> json \<Rightarrow> CaseIdentity \<Rightarrow> pystr \<Rightarrow> int \<Rightarrow> rat \<Rightarrow> ConfidenceInterval result" where
  "paired_bootstrap_ratio_ci c fl candidate_samples comparator_samples identity comparator_id resamples confidence_level =
     bindR (validated_metric_samples fl (ci_metric identity) candidate_samples) (\<lambda>candidate.
     bindR (validated_metric_samples fl (ci_metric identity) comparator_samples) (\<lambda>comparator.
       if length candidate \<noteq> length comparator
       then Inl (ValueError ''candidate_samples and comparator_samples must have equal lengths'')
       else if \<not> (0 < resamples \<and> resamples \<le> int BOOTSTRAP_RESAMPLES)
       then Inl (ValueError ''resamples must be an integer from 1 through the contract'')
       else if \<not> (0 < confidence_level \<and> confidence_level < 1)
       then Inl (ValueError ''confidence_level must be a finite number between zero and one'')
       else bindR (mapR (paired_ratio fl) (zip candidate comparator)) (\<lambda>ratios.
         bindR (bootstrap_indices c identity comparator_id (resamples * int (length ratios)) (int (length ratios))) (\<lambda>indices.
         bindR (resample_medians fl ratios indices (nat resamples)) (\<lambda>medians.
         bindR (rounded fl (1 - confidence_level)) (\<lambda>outside.
         bindR (rounded fl (outside / 2)) (\<lambda>tail.
         bindR (percentile_type7 fl (JList (map JFloat medians)) tail) (\<lambda>lower.
         bindR (rounded fl (1 - tail)) (\<lambda>rest.
         bindR (percentile_type7 fl (JList (map JFloat medians)) rest) (\<lambda>upper.
           Inr \<lparr>iv_lower = lower, iv_upper = upper, iv_confidence_level = confidence_level\<rparr>))))))))))"

section \<open>Verdicts\<close>

record MetricVerdict =
  mv_metric :: pystr
  mv_comparator_id :: pystr
  mv_sample_count :: nat
  mv_candidate_median :: rat
  mv_comparator_median :: rat
  mv_candidate_mad :: rat
  mv_comparator_mad :: rat
  mv_paired_median_ratio :: rat
  mv_confidence_interval :: ConfidenceInterval
  mv_passed :: bool

definition evaluate_metric_case ::
  "crypto \<Rightarrow> rounding \<Rightarrow> pystr \<Rightarrow> json \<Rightarrow> json \<Rightarrow> CaseIdentity \<Rightarrow> pystr \<Rightarrow> MetricVerdict result" where
  "evaluate_metric_case c fl metric candidate_samples comparator_samples identity comparator_id =
     (if metric \<notin> set METRICS then Inl (ValueError ''unknown metric'')
      else if ci_metric identity \<noteq> metric then Inl (ValueError ''identity.metric must match metric'')
      else bindR (require_binding_comparator_id comparator_id) (\<lambda>comparator.
        bindR (validated_metric_samples fl metric candidate_samples) (\<lambda>candidate.
        bindR (validated_metric_samples fl metric comparator_samples) (\<lambda>comparator_values.
          if length candidate \<noteq> MEASURED_RUNS \<or> length comparator_values \<noteq> MEASURED_RUNS
          then Inl (ValueError ''metric cases require exactly eleven paired samples'')
          else bindR (paired_bootstrap_ratio_ci c fl candidate_samples comparator_samples identity comparator
                        (int BOOTSTRAP_RESAMPLES) BOOTSTRAP_CONFIDENCE_LEVEL) (\<lambda>interval.
            bindR (mapR (paired_ratio fl) (zip candidate comparator_values)) (\<lambda>ratios.
            bindR (statistics_median fl ratios) (\<lambda>ratio.
            bindR (bindR (statistics_median fl (map number candidate)) (rounded fl)) (\<lambda>candidate_median.
            bindR (bindR (statistics_median fl (map number comparator_values)) (rounded fl)) (\<lambda>comparator_median.
            bindR (median_absolute_deviation fl (JList candidate)) (\<lambda>candidate_mad.
            bindR (median_absolute_deviation fl (JList comparator_values)) (\<lambda>comparator_mad.
              Inr \<lparr>mv_metric = metric, mv_comparator_id = comparator, mv_sample_count = MEASURED_RUNS,
                   mv_candidate_median = candidate_median, mv_comparator_median = comparator_median,
                   mv_candidate_mad = candidate_mad, mv_comparator_mad = comparator_mad,
                   mv_paired_median_ratio = ratio, mv_confidence_interval = interval,
                   mv_passed = (iv_upper interval < 1)\<rparr>)))))))))))"

definition positive_integer :: "json \<Rightarrow> int result" where
  "positive_integer v =
     (case v of JInt n \<Rightarrow> if n \<le> 0 then Inl (ValueError ''must be a positive integer'') else Inr n
      | _ \<Rightarrow> Inl (ValueError ''must be a positive integer''))"

definition allowed_incompressible_overhead :: "json \<Rightarrow> int result" where
  "allowed_incompressible_overhead input_bytes =
     bindR (positive_integer input_bytes) (\<lambda>n. Inr (max 4096 ((n + 1999) div 2000)))"

text \<open>\<^verbatim>\<open>not s.strip()\<close>: the characters for which \<^verbatim>\<open>str.isspace\<close> holds.\<close>

definition is_space :: "nat \<Rightarrow> bool" where
  "is_space x \<longleftrightarrow> x \<in> {9..13} \<union> {28..32} \<union> {133, 160, 5760} \<union> {8192..8202} \<union> {8232, 8233, 8239, 8287, 12288}"

definition require_identifier :: "pystr \<Rightarrow> unit result" where
  "require_identifier s = (if list_all is_space s then Inl (ValueError ''keys must be nonempty strings'') else Inr ())"

fun positive_size_mapping :: "json \<Rightarrow> (pystr \<times> int) list result" where
  "positive_size_mapping (JObj []) = Inl (ValueError ''must be a nonempty mapping'')"
| "positive_size_mapping (JObj (m # ms)) =
     mapR (\<lambda>(comparator_id, size). bindR (require_identifier comparator_id) (\<lambda>_.
       bindR (positive_integer size) (\<lambda>n. Inr (comparator_id, n)))) (m # ms)"
| "positive_size_mapping _ = Inl (ValueError ''must be a nonempty mapping'')"

fun distribution_sizes :: "json \<Rightarrow> int list result" where
  "distribution_sizes (JList vs) =
     (if length vs \<noteq> MEASURED_RUNS then Inl (ValueError ''must contain exactly eleven sizes'') else mapR positive_integer vs)"
| "distribution_sizes _ = Inl (ValueError ''must contain exactly eleven sizes'')"

fun encrypted_size_mapping :: "json \<Rightarrow> (pystr \<times> int) list result" where
  "encrypted_size_mapping (JObj []) = Inl (ValueError ''must be a nonempty mapping'')"
| "encrypted_size_mapping (JObj (m # ms)) =
     mapR (\<lambda>(comparator_id, distribution). bindR (require_identifier comparator_id) (\<lambda>_.
       bindR (distribution_sizes distribution) (\<lambda>sizes. Inr (comparator_id, sort sizes ! (MEASURED_RUNS div 2))))) (m # ms)"
| "encrypted_size_mapping _ = Inl (ValueError ''must be a nonempty mapping'')"

text \<open>\<^verbatim>\<open>min((size, comparator_id) for ...)\<close> of a nonempty mapping.\<close>

definition smallest_size :: "(pystr \<times> int) list \<Rightarrow> pystr \<times> int" where
  "smallest_size sizes = (let (size, comparator_id) = Min (set (map (\<lambda>(i, n). (n, i)) sizes)) in (comparator_id, size))"

record SizeVerdict =
  zv_input_bytes :: int
  zv_candidate_archive_bytes :: int
  zv_best_raw_comparator_id :: pystr
  zv_best_raw_archive_bytes :: int
  zv_smallest_encrypted_comparator_id :: pystr
  zv_smallest_encrypted_comparator_archive_bytes :: int
  zv_smallest_comparator_id :: pystr
  zv_smallest_comparator_archive_bytes :: int
  zv_incompressible :: bool
  zv_allowance_bytes :: int
  zv_selected_limit_bytes :: int
  zv_selected_limit_source :: pystr
  zv_selected_limit_inclusive :: bool
  zv_passed :: bool

definition evaluate_size_case :: "json \<Rightarrow> json \<Rightarrow> json \<Rightarrow> json \<Rightarrow> SizeVerdict result" where
  "evaluate_size_case input_bytes candidate_archive_bytes raw_comparators encrypted_comparators =
     bindR (positive_integer input_bytes) (\<lambda>input_size.
     bindR (positive_integer candidate_archive_bytes) (\<lambda>candidate_size.
     bindR (positive_size_mapping raw_comparators) (\<lambda>raw_sizes.
     bindR (encrypted_size_mapping encrypted_comparators) (\<lambda>encrypted_sizes.
       if fst ` set raw_sizes \<inter> fst ` set encrypted_sizes \<noteq> {}
       then Inl (ValueError ''raw and encrypted comparator IDs must be disjoint'')
       else let (best_raw_id, best_raw_size) = smallest_size raw_sizes;
                (smallest_encrypted_id, smallest_encrypted_size) = smallest_size encrypted_sizes;
                (smallest_id, smallest) = smallest_size (raw_sizes @ encrypted_sizes);
                incompressible = (best_raw_size * 100 > input_size * 99)
            in bindR (allowed_incompressible_overhead input_bytes) (\<lambda>allowance.
              let input_limit = input_size + allowance;
                  (selected_limit, selected_source, inclusive, passed) =
                    (if incompressible
                     then if smallest_encrypted_size \<le> input_limit
                       then (smallest_encrypted_size, smallest_encrypted_id, True,
                             candidate_size \<le> input_limit \<and> candidate_size \<le> smallest_encrypted_size)
                       else (input_limit, lit ''input_plus_allowance'', True,
                             candidate_size \<le> input_limit \<and> candidate_size \<le> smallest_encrypted_size)
                     else (smallest, smallest_id, False, candidate_size < smallest))
              in Inr \<lparr>zv_input_bytes = input_size, zv_candidate_archive_bytes = candidate_size,
                   zv_best_raw_comparator_id = best_raw_id, zv_best_raw_archive_bytes = best_raw_size,
                   zv_smallest_encrypted_comparator_id = smallest_encrypted_id,
                   zv_smallest_encrypted_comparator_archive_bytes = smallest_encrypted_size,
                   zv_smallest_comparator_id = smallest_id, zv_smallest_comparator_archive_bytes = smallest,
                   zv_incompressible = incompressible, zv_allowance_bytes = allowance,
                   zv_selected_limit_bytes = selected_limit, zv_selected_limit_source = selected_source,
                   zv_selected_limit_inclusive = inclusive, zv_passed = passed\<rparr>)))))"

section \<open>The score of a case\<close>

record ScorecardCase =
  sc_case_id :: pystr
  sc_identity :: CaseIdentity
  sc_thread_count :: int
  sc_fastest_comparator_id :: pystr
  sc_metric_verdicts :: "MetricVerdict list"
  sc_size_verdict :: SizeVerdict
  sc_passed :: bool

definition SCORECARD_CASE_KEYS :: "pystr list" where
  "SCORECARD_CASE_KEYS =
     [lit ''case_id'', lit ''contract_sha256'', lit ''corpus_manifest_sha256'', lit ''corpus_id'', lit ''input_sha256'',
      lit ''thread_count'', lit ''metric'', lit ''input_bytes'', lit ''candidate_archive_bytes'', lit ''candidate_samples'',
      lit ''comparator_samples'', lit ''raw_comparator_archive_bytes'', lit ''encrypted_comparator_archive_bytes'']"

text \<open>\<^verbatim>\<open>_binding_metric_samples\<close>: the samples of every binding tool, in the order of the tools.\<close>

fun binding_metric_samples :: "rounding \<Rightarrow> pystr \<Rightarrow> json \<Rightarrow> (pystr \<times> json list) list result" where
  "binding_metric_samples fl metric (JObj members) =
     (if fst ` set members \<noteq> set BINDING_TOOLS then Inl (ValueError ''metric comparator IDs must be exact'')
      else mapR (\<lambda>comparator_id.
        bindR (member members comparator_id) (\<lambda>v.
        bindR (validated_metric_samples fl metric v) (\<lambda>samples.
          if length samples \<noteq> MEASURED_RUNS then Inl (ValueError ''must contain exactly eleven samples'')
          else Inr (comparator_id, samples)))) BINDING_TOOLS)"
| "binding_metric_samples fl metric _ = Inl (ValueError ''comparator_samples must be an object'')"

definition exact_object :: "json \<Rightarrow> pystr list \<Rightarrow> unit result" where
  "exact_object v ids =
     (case v of JObj members \<Rightarrow> if fst ` set members \<noteq> set ids then Inl (ValueError ''comparator IDs must be exact'') else Inr ()
      | _ \<Rightarrow> Inl (ValueError ''comparator IDs must be exact''))"

text \<open>The identity that the members of a case give.\<close>

definition scorecard_identity :: "(pystr \<times> json) list \<Rightarrow> CaseIdentity result" where
  "scorecard_identity payload =
     bindR (bindR (member payload (lit ''contract_sha256'')) require_sha256) (\<lambda>contract_sha256.
     bindR (bindR (member payload (lit ''corpus_manifest_sha256'')) require_sha256) (\<lambda>manifest_sha256.
     bindR (member payload (lit ''corpus_id'')) (\<lambda>corpus.
     bindR (case corpus of JStr s \<Rightarrow> Inr s | _ \<Rightarrow> Inl (ValueError ''corpus_id must be a canonical lowercase identifier'')) (\<lambda>corpus_id.
     bindR (bindR (member payload (lit ''input_sha256'')) require_sha256) (\<lambda>input_sha256.
     bindR (bindR (member payload (lit ''input_bytes'')) positive_integer) (\<lambda>input_bytes.
     bindR (member payload (lit ''thread_count'')) (\<lambda>threads.
     bindR (case threads of JInt n \<Rightarrow> if n \<in> {1, 8} then Inr n else Inl (ValueError ''thread_count must be one of (1, 8)'')
            | _ \<Rightarrow> Inl (ValueError ''thread_count must be one of (1, 8)'')) (\<lambda>thread_count.
     bindR (member payload (lit ''metric'')) (\<lambda>m.
     bindR (case m of JStr s \<Rightarrow> if s \<in> set METRICS then Inr s else Inl (ValueError ''unknown metric'')
            | _ \<Rightarrow> Inl (ValueError ''unknown metric'')) (\<lambda>metric.
       let i = \<lparr>ci_contract_sha256 = contract_sha256, ci_corpus_manifest_sha256 = manifest_sha256, ci_corpus_id = corpus_id,
                ci_input_sha256 = input_sha256, ci_input_bytes = input_bytes, ci_thread_count = thread_count, ci_metric = metric\<rparr>
       in bindR (validate_case_identity i) (\<lambda>_. Inr i)))))))))))"

definition fastest_comparator :: "rounding \<Rightarrow> (pystr \<times> json list) list \<Rightarrow> pystr result" where
  "fastest_comparator fl comparators =
     bindR (mapR (\<lambda>(i, samples). bindR (statistics_median fl (map number samples)) (\<lambda>q. Inr (q, i))) comparators) (\<lambda>keys.
       Inr (snd (Min (set keys))))"

fun scorecard_object :: "json \<Rightarrow> (pystr \<times> json) list result" where
  "scorecard_object (JObj members) = Inr members"
| "scorecard_object _ = Inl (ValueError ''scorecard case must be an object'')"

definition evaluate_scorecard_case :: "crypto \<Rightarrow> rounding \<Rightarrow> json \<Rightarrow> ScorecardCase result" where
  "evaluate_scorecard_case c fl document =
     bindR (scorecard_object document) (\<lambda>payload.
     bindR (require_keys ValueError payload SCORECARD_CASE_KEYS) (\<lambda>_.
     bindR (scorecard_identity payload) (\<lambda>identity.
     bindR (derive_case_id c identity) (\<lambda>expected.
     bindR (bindR (member payload (lit ''case_id'')) (\<lambda>v. require_case_id v expected)) (\<lambda>case_id.
     bindR (bindR (member payload (lit ''comparator_samples'')) (binding_metric_samples fl (ci_metric identity))) (\<lambda>comparators.
     bindR (fastest_comparator fl comparators) (\<lambda>fastest.
     bindR (member payload (lit ''raw_comparator_archive_bytes'')) (\<lambda>raw_sizes.
     bindR (member payload (lit ''encrypted_comparator_archive_bytes'')) (\<lambda>encrypted_sizes.
     bindR (exact_object raw_sizes BINDING_RAW_TOOLS) (\<lambda>_.
     bindR (exact_object encrypted_sizes BINDING_ENCRYPTED_TOOLS) (\<lambda>_.
     bindR (member payload (lit ''candidate_samples'')) (\<lambda>candidate.
     bindR (mapR (\<lambda>(comparator_id, samples).
              evaluate_metric_case c fl (ci_metric identity) candidate (JList samples) identity comparator_id) comparators) (\<lambda>verdicts.
     bindR (member payload (lit ''candidate_archive_bytes'')) (\<lambda>candidate_size.
     bindR (evaluate_size_case (JInt (ci_input_bytes identity)) candidate_size raw_sizes encrypted_sizes) (\<lambda>size_verdict.
       Inr \<lparr>sc_case_id = case_id, sc_identity = identity, sc_thread_count = ci_thread_count identity,
            sc_fastest_comparator_id = fastest, sc_metric_verdicts = verdicts,
            sc_size_verdict = size_verdict,
            sc_passed = (list_all mv_passed verdicts \<and> zv_passed size_verdict)\<rparr>)))))))))))))))"

section \<open>Sampling the indices\<close>

lemma acceptance_limit_multiple:
  assumes "0 < upper_bound"
  shows "acceptance_limit upper_bound = UINT64_RANGE div upper_bound * upper_bound"
  using div_mult_mod_eq[of UINT64_RANGE upper_bound] unfolding acceptance_limit_def by linarith

lemma acceptance_limit_pos: "0 < u \<Longrightarrow> u \<le> UINT64_RANGE \<Longrightarrow> 0 < acceptance_limit u"
  by (simp add: acceptance_limit_multiple div_greater_zero_iff)

text \<open>Each index is the residue of equally many accepted words.\<close>

lemma residues_equal:
  assumes "r < (u :: nat)"
  shows "card {w. w < q * u \<and> w mod u = r} = q"
proof -
  have "{w. w < q * u \<and> w mod u = r} = (\<lambda>k. k * u + r) ` {..<q}"
  proof (intro set_eqI iffI)
    fix w assume w: "w \<in> {w. w < q * u \<and> w mod u = r}"
    then have "w div u < q" using assms by (simp add: less_mult_imp_div_less)
    moreover have "w = w div u * u + r" using w div_mult_mod_eq[of w u] by simp
    ultimately show "w \<in> (\<lambda>k. k * u + r) ` {..<q}" by blast
  next
    fix w assume "w \<in> (\<lambda>k. k * u + r) ` {..<q}"
    then obtain k where k: "k < q" "w = k * u + r" by blast
    then have "(k + 1) * u \<le> q * u" by (intro mult_right_mono) auto
    then show "w \<in> {w. w < q * u \<and> w mod u = r}" using k assms by simp
  qed
  moreover have "inj_on (\<lambda>k. k * u + r) {..<q}" using assms by (auto intro!: inj_onI)
  ultimately show ?thesis by (simp add: card_image)
qed

text \<open>The accepted words among the first \<open>n\<close> of the stream.\<close>

definition accepted_words :: "(nat \<Rightarrow> nat) \<Rightarrow> nat \<Rightarrow> nat \<Rightarrow> nat \<Rightarrow> nat list" where
  "accepted_words word limit k n = filter (\<lambda>w. w < limit) (map word [k..<n])"

lemma accepted_words_step:
  "k < n \<Longrightarrow> accepted_words word limit k n =
     (if word k < limit then [word k] else []) @ accepted_words word limit (Suc k) n"
  by (simp add: accepted_words_def upt_conv_Cons)

text \<open>The loop returns the residues of the first \<open>count\<close> accepted words, or finds too few.\<close>

lemma draw_indices_eq:
  assumes "0 < count"
  shows "draw_indices word limit u count k =
     (let accepted = accepted_words word limit k counter_words
      in if length accepted < count then Inl (RuntimeError ''SHA-256 counter stream exhausted'')
         else Inr (map (\<lambda>w. w mod u) (take count accepted)))"
  using assms
proof (induction word limit u count k rule: draw_indices.induct)
  case (1 word limit u count k)
  show ?case
  proof (cases "k \<ge> counter_words")
    case True
    then show ?thesis using 1(3) by (subst draw_indices.simps) (simp add: accepted_words_def)
  next
    case inside: False
    then have step: "accepted_words word limit k counter_words =
        (if word k < limit then [word k] else []) @ accepted_words word limit (Suc k) counter_words"
      by (intro accepted_words_step) simp
    show ?thesis
    proof (cases "word k < limit")
      case False
      then show ?thesis using inside 1(2)[OF inside False 1(3)] step by (subst draw_indices.simps) simp
    next
      case accepted: True
      show ?thesis
      proof (cases "count \<le> 1")
        case True
        then have "count = 1" using 1(3) by simp
        then show ?thesis using inside accepted step by (subst draw_indices.simps) simp
      next
        case False
        then obtain m where m: "count = Suc m" "0 < m" using 1(3) by (cases count) auto
        have "draw_indices word limit u m (k + 1) =
            (let accepted = accepted_words word limit (k + 1) counter_words
             in if length accepted < m then Inl (RuntimeError ''SHA-256 counter stream exhausted'')
                else Inr (map (\<lambda>w. w mod u) (take m accepted)))"
          using 1(1)[OF inside accepted False, unfolded m(1)] m(2) by (simp add: Let_def)
        then show ?thesis using inside accepted False step m by (subst draw_indices.simps) (simp add: Let_def)
      qed
    qed
  qed
qed

text \<open>The bytes that seed the stream of an identity and a comparator.\<close>

definition stream_material :: "CaseIdentity \<Rightarrow> pystr \<Rightarrow> bytes result" where
  "stream_material identity comparator =
     bindR (case_identity_fields identity) (\<lambda>fields. length_prefixed (BOOTSTRAP_STREAM_DOMAIN # fields @ [comparator]))"

lemma bootstrap_indices_draw:
  assumes "comparator \<in> set BINDING_TOOLS" and "stream_material identity comparator = Inr material"
    and "0 < count" and "0 < u" and "u \<le> UINT64_RANGE"
  shows "bootstrap_indices c identity comparator (int count) (int u) =
     draw_indices (counter_word c material) (acceptance_limit u) u count 0"
proof -
  obtain fields where "case_identity_fields identity = Inr fields"
    "length_prefixed (BOOTSTRAP_STREAM_DOMAIN # fields @ [comparator]) = Inr material"
    using assms(2) unfolding stream_material_def bindR_eq_Inr by blast
  then show ?thesis using assms(1,3-5) by (simp add: bootstrap_indices_def require_binding_comparator_id_def)
qed

text \<open>When every word is accepted, the stream lasts.\<close>

lemma draw_indices_all_accepted:
  assumes "\<And>k. word k < limit" and "0 < count" and "count \<le> counter_words"
  shows "draw_indices word limit u count 0 = Inr (map (\<lambda>k. word k mod u) [0..<count])"
proof -
  have "accepted_words word limit 0 counter_words = map word [0..<counter_words]"
    using assms(1) by (simp add: accepted_words_def filter_id_conv)
  then show ?thesis using assms(2,3) by (simp add: draw_indices_eq Let_def take_map take_upt o_def del: upt_Suc)
qed

section \<open>Sizes\<close>

lemma smallest_size:
  assumes "ms \<noteq> []" and "smallest_size ms = (i, n)"
  shows "(i, n) \<in> set ms" and "\<forall>(j, m) \<in> set ms. n \<le> m"
proof -
  let ?keys = "set (map (\<lambda>(i, n). (n, i)) ms)"
  have least: "Min ?keys = (n, i)" using assms(2) by (auto simp: smallest_size_def Let_def split: prod.splits)
  have "Min ?keys \<in> ?keys" using assms(1) by (intro Min_in) auto
  then show "(i, n) \<in> set ms" using least by auto
  have "(n, i) \<le> (m, j)" if "(j, m) \<in> set ms" for j m
  proof -
    have "(m, j) \<in> ?keys" using that by force
    then have "Min ?keys \<le> (m, j)" by (intro Min_le) auto
    then show ?thesis unfolding least .
  qed
  then show "\<forall>(j, m) \<in> set ms. n \<le> m" by fastforce
qed

lemma size_mappings_nonempty:
  "positive_size_mapping v = Inr ms \<Longrightarrow> ms \<noteq> []"
  "encrypted_size_mapping v = Inr ms \<Longrightarrow> ms \<noteq> []"
  by (cases v rule: positive_size_mapping.cases; auto simp: result_simps)
    (cases v rule: encrypted_size_mapping.cases; auto simp: result_simps)

text \<open>How a size verdict is reached.\<close>

lemma evaluate_size_case_cases:
  assumes "evaluate_size_case (JInt input) (JInt archive) raw encrypted = Inr v"
  obtains rs es where "positive_size_mapping raw = Inr rs" and "encrypted_size_mapping encrypted = Inr es"
    and "0 < input" and "0 < archive"
    and "zv_incompressible v \<longleftrightarrow> snd (smallest_size rs) * 100 > input * 99"
    and "zv_allowance_bytes v = max 4096 ((input + 1999) div 2000)"
    and "zv_selected_limit_bytes v =
       (if zv_incompressible v then min (snd (smallest_size es)) (input + zv_allowance_bytes v)
        else snd (smallest_size (rs @ es)))"
    and "zv_selected_limit_inclusive v = zv_incompressible v"
    and "zv_passed v \<longleftrightarrow>
       (if zv_incompressible v then archive \<le> zv_selected_limit_bytes v else archive < zv_selected_limit_bytes v)"
proof -
  obtain rs es where maps: "positive_size_mapping raw = Inr rs" "encrypted_size_mapping encrypted = Inr es"
    and disjoint: "fst ` set rs \<inter> fst ` set es = {}" and pos: "0 < input" "0 < archive"
    using assms by (auto simp: evaluate_size_case_def positive_integer_def result_simps split: if_splits)
  obtain ri rn where r: "smallest_size rs = (ri, rn)" by fastforce
  obtain ei en where e: "smallest_size es = (ei, en)" by fastforce
  obtain ai an where a: "smallest_size (rs @ es) = (ai, an)" by fastforce
  have allowance: "allowed_incompressible_overhead (JInt input) = Inr (max 4096 ((input + 1999) div 2000))"
    using pos by (simp add: allowed_incompressible_overhead_def positive_integer_def)
  let ?limit = "input + max 4096 ((input + 1999) div 2000)"
  have "zv_incompressible v = (rn * 100 > input * 99) \<and> zv_allowance_bytes v = max 4096 ((input + 1999) div 2000)
    \<and> zv_selected_limit_bytes v = (if rn * 100 > input * 99 then min en ?limit else an)
    \<and> zv_selected_limit_inclusive v = (rn * 100 > input * 99)
    \<and> zv_passed v = (if rn * 100 > input * 99 then archive \<le> min en ?limit else archive < an)"
  proof (cases "rn * 100 > input * 99")
    case True
    then show ?thesis
      using assms maps disjoint pos r e a allowance
      by (cases "en \<le> ?limit") (auto simp: evaluate_size_case_def positive_integer_def Let_def)
  next
    case False
    then show ?thesis
      using assms maps disjoint pos r e a allowance by (auto simp: evaluate_size_case_def positive_integer_def Let_def)
  qed
  then show thesis using that[OF maps pos] r e a by simp
qed

lemma smallest_size_bounds:
  assumes "ms \<noteq> []"
  shows "x < snd (smallest_size ms) \<longleftrightarrow> (\<forall>(i, n) \<in> set ms. x < n)"
    and "x \<le> snd (smallest_size ms) \<longleftrightarrow> (\<forall>(i, n) \<in> set ms. x \<le> n)"
    and "x < snd (smallest_size ms) * 100 \<longleftrightarrow> (\<forall>(i, n) \<in> set ms. x < n * 100)"
proof -
  obtain i n where "smallest_size ms = (i, n)" by fastforce
  with smallest_size[OF assms this] show "x < snd (smallest_size ms) \<longleftrightarrow> (\<forall>(i, n) \<in> set ms. x < n)"
    "x \<le> snd (smallest_size ms) \<longleftrightarrow> (\<forall>(i, n) \<in> set ms. x \<le> n)"
    "x < snd (smallest_size ms) * 100 \<longleftrightarrow> (\<forall>(i, n) \<in> set ms. x < n * 100)"
    by fastforce+
qed

section \<open>The score\<close>

lemma evaluate_metric_case_fields:
  assumes "evaluate_metric_case c fl metric candidate comparator identity i = Inr v"
  shows "mv_metric v = metric" and "mv_comparator_id v = i" and "mv_sample_count v = MEASURED_RUNS"
    and "mv_passed v \<longleftrightarrow> iv_upper (mv_confidence_interval v) < 1"
  using assms
  by (auto simp: evaluate_metric_case_def require_binding_comparator_id_def result_simps split: if_splits)

lemma binding_metric_samples_tools:
  "binding_metric_samples fl metric v = Inr ms \<Longrightarrow> map fst ms = BINDING_TOOLS"
  by (cases v) (auto simp: BINDING_TOOLS_def result_simps split: if_splits)

lemma require_case_id_Inr: "require_case_id v expected = Inr s \<Longrightarrow> s = expected"
  by (auto simp: require_case_id_def split: json.splits if_splits)

lemma metric_verdicts_of:
  assumes "mapR (\<lambda>(i, samples). evaluate_metric_case c fl metric candidate (JList samples) identity i) ms = Inr vs"
  shows "map mv_comparator_id vs = map fst ms"
    and "\<forall>v \<in> set vs. mv_metric v = metric \<and> (mv_passed v \<longleftrightarrow> iv_upper (mv_confidence_interval v) < 1)"
  using assms by (induction ms arbitrary: vs) (auto simp: result_simps evaluate_metric_case_fields)

lemma evaluate_scorecard_case_facts:
  assumes "evaluate_scorecard_case c fl document = Inr s"
  shows "derive_case_id c (sc_identity s) = Inr (sc_case_id s)"
    and "map mv_comparator_id (sc_metric_verdicts s) = BINDING_TOOLS"
    and "\<forall>v \<in> set (sc_metric_verdicts s).
       mv_metric v = ci_metric (sc_identity s) \<and> (mv_passed v \<longleftrightarrow> iv_upper (mv_confidence_interval v) < 1)"
    and "zv_input_bytes (sc_size_verdict s) = ci_input_bytes (sc_identity s)"
    and "sc_passed s \<longleftrightarrow> list_all mv_passed (sc_metric_verdicts s) \<and> zv_passed (sc_size_verdict s)"
proof -
  obtain payload identity expected case_id v samples comparators fastest raw encrypted candidate verdicts archive size where
    id: "derive_case_id c identity = Inr expected" "require_case_id v expected = Inr case_id"
    and tools: "binding_metric_samples fl (ci_metric identity) samples = Inr comparators"
    and verdicts: "mapR (\<lambda>(i, samples). evaluate_metric_case c fl (ci_metric identity) candidate (JList samples) identity i)
       comparators = Inr verdicts"
    and size: "evaluate_size_case (JInt (ci_input_bytes identity)) archive raw encrypted = Inr size"
    and s: "s = \<lparr>sc_case_id = case_id, sc_identity = identity, sc_thread_count = ci_thread_count identity,
       sc_fastest_comparator_id = fastest, sc_metric_verdicts = verdicts, sc_size_verdict = size,
       sc_passed = (list_all mv_passed verdicts \<and> zv_passed size)\<rparr>"
    using assms unfolding evaluate_scorecard_case_def bindR_eq_Inr sum.inject by blast
  show "derive_case_id c (sc_identity s) = Inr (sc_case_id s)" using id require_case_id_Inr s by auto
  show "map mv_comparator_id (sc_metric_verdicts s) = BINDING_TOOLS"
    using metric_verdicts_of(1)[OF verdicts] binding_metric_samples_tools[OF tools] s by simp
  show "\<forall>v \<in> set (sc_metric_verdicts s).
       mv_metric v = ci_metric (sc_identity s) \<and> (mv_passed v \<longleftrightarrow> iv_upper (mv_confidence_interval v) < 1)"
    using metric_verdicts_of(2)[OF verdicts] s by simp
  show "zv_input_bytes (sc_size_verdict s) = ci_input_bytes (sc_identity s)"
    using size s by (auto simp: evaluate_size_case_def positive_integer_def Let_def result_simps split: prod.splits if_splits)
  show "sc_passed s \<longleftrightarrow> list_all mv_passed (sc_metric_verdicts s) \<and> zv_passed (sc_size_verdict s)" by (simp add: s)
qed

section \<open>Constant samples\<close>

text \<open>When all ratios are equal so are the resamples, and the interval is a point.\<close>

lemma statistics_median_replicate [simp]:
  "n mod 2 = 1 \<Longrightarrow> statistics_median fl (replicate n q) = Inr q"
proof -
  assume odd: "n mod 2 = 1"
  have "sort (replicate n q) = replicate n q" by (rule sorted_sort_id) simp
  moreover have "n div 2 < n" using odd by (cases n) auto
  ultimately show ?thesis using odd by (simp add: statistics_median_def)
qed

lemma validated_floats [simp]:
  "0 < n \<Longrightarrow> validated_samples fl False (JList (replicate n (JFloat q))) = Inr (replicate n q)"
proof -
  have "mapR (finite_number fl False) (replicate n (JFloat q)) = Inr (replicate n q)" by (induction n) auto
  then show "0 < n \<Longrightarrow> ?thesis" by (cases n) auto
qed

lemma percentile_constant:
  assumes "0 < n" and "0 \<le> p" and "p \<le> 1"
  shows "percentile_type7 Some (JList (replicate n (JFloat q))) p = Inr q"
proof -
  let ?position = "of_nat (n - 1) * p"
  have top: "?position \<le> of_nat (n - 1)" using assms(3) by (simp add: mult_left_le)
  have "?position \<ge> 0" using assms(2) by simp
  then have bounds: "nat \<lfloor>?position\<rfloor> < n" "nat \<lceil>?position\<rceil> < n"
    using top assms(1) by (auto simp: nat_less_iff floor_less_iff ceiling_less_iff less_ceiling_iff)
  have "sort (replicate n q) = replicate n q" by (rule sorted_sort_id) simp
  then show ?thesis
    using assms bounds by (simp add: percentile_type7_def rounded_def Let_def del: of_nat_diff)
qed

lemma resample_medians_constant:
  assumes "n mod 2 = 1"
  shows "resample_medians fl (replicate n q) (replicate (m * n) 0) m = Inr (replicate m q)"
proof -
  have inside: "r * n + n \<le> m * n" if "r < m" for r
    using mult_right_mono[of "Suc r" m n] that by simp
  have "statistics_median fl (map (\<lambda>i. replicate n q ! i) (take n (drop (r * n) (replicate (m * n) 0)))) = Inr q"
    if "r \<in> set [0..<m]" for r
  proof -
    have "min (m * n - r * n) n = n" using inside[of r] that by simp
    moreover have "0 < n" using assms by (cases n) auto
    ultimately show ?thesis using assms by (simp add: map_replicate_const)
  qed
  then have "resample_medians fl (replicate n q) (replicate (m * n) 0) m = Inr (map (\<lambda>_. q) [0..<m])"
    unfolding resample_medians_def length_replicate by (rule mapR_total)
  then show ?thesis by (simp add: map_replicate_const)
qed

definition zero_digest :: crypto where
  "zero_digest = example_crypto\<lparr>sha256 := (\<lambda>_. replicate 32 0)\<rparr>"

lemma zero_digest_word [simp]: "counter_word zero_digest material k = 0"
  proof -
  have "take 8 (drop (8 * (k mod 4)) (replicate 32 (0 :: byte))) = replicate 8 0"
  proof -
    have "k mod 4 \<le> 3" using mod_less_divisor[of 4 k] by linarith
    then show ?thesis by (simp add: min_def)
  qed
  moreover have "be_decode (replicate 8 0) = 0" by code_simp
  ultimately show ?thesis by (simp add: counter_word_def zero_digest_def)
qed

lemma zero_digest_indices:
  assumes "comparator \<in> set BINDING_TOOLS" and "stream_material identity comparator = Inr material"
    and "0 < count" and "count \<le> counter_words" and "0 < u" and "u \<le> UINT64_RANGE"
  shows "bootstrap_indices zero_digest identity comparator (int count) (int u) = Inr (replicate count 0)"
proof -
  have "draw_indices (counter_word zero_digest material) (acceptance_limit u) u count 0
      = Inr (map (\<lambda>k. counter_word zero_digest material k mod u) [0..<count])"
    using assms(3-6) by (intro draw_indices_all_accepted) (simp_all add: acceptance_limit_pos)
  then show ?thesis
    using bootstrap_indices_draw[OF assms(1,2,3,5,6), of zero_digest] by (simp add: map_replicate_const)
qed

text \<open>A case whose candidate takes one byte of memory where each comparator takes two.\<close>

definition example_identity :: CaseIdentity where
  "example_identity =
     \<lparr>ci_contract_sha256 = CONTRACT_SHA256, ci_corpus_manifest_sha256 = replicate 64 48, ci_corpus_id = lit ''text-1'',
      ci_input_sha256 = replicate 64 97, ci_input_bytes = MINIMUM_INPUT_BYTES, ci_thread_count = 8,
      ci_metric = lit ''encode_cgroup_v2_memory_peak_bytes''\<rparr>"

definition sample_list :: "int \<Rightarrow> json" where
  "sample_list n = JList (replicate MEASURED_RUNS (JInt n))"

definition example_raw_sizes :: json where
  "example_raw_sizes = JObj [(lit ''7zip_raw'', JInt 2100), (lit ''zstd_raw'', JInt 2000)]"

definition example_encrypted_sizes :: json where
  "example_encrypted_sizes =
     JObj [(lit ''7zip_aes256_headers'', sample_list 3000), (lit ''zstd_age_passphrase'', sample_list 2900)]"

definition example_case :: json where
  "example_case = JObj
     [(lit ''case_id'', JStr (CASE_ID_PREFIX @ replicate 64 48)), (lit ''contract_sha256'', JStr CONTRACT_SHA256),
      (lit ''corpus_manifest_sha256'', JStr (replicate 64 48)), (lit ''corpus_id'', js ''text-1''),
      (lit ''input_sha256'', JStr (replicate 64 97)), (lit ''thread_count'', JInt 8),
      (lit ''metric'', js ''encode_cgroup_v2_memory_peak_bytes''), (lit ''input_bytes'', JInt MINIMUM_INPUT_BYTES),
      (lit ''candidate_archive_bytes'', JInt 1000), (lit ''candidate_samples'', sample_list 1),
      (lit ''comparator_samples'', JObj (map (\<lambda>i. (i, sample_list 2)) BINDING_TOOLS)),
      (lit ''raw_comparator_archive_bytes'', example_raw_sizes),
      (lit ''encrypted_comparator_archive_bytes'', example_encrypted_sizes)]"

lemma utf8_encode_ascii: "list_all (\<lambda>x. x < 128) s \<Longrightarrow> utf8_encode s = Inr (map of_nat s)"
  by (induction s) (auto simp: utf8_char_def)

lemma length_prefixed_ascii:
  "list_all (\<lambda>v. list_all (\<lambda>x. x < 128) v \<and> length v < 2 ^ 32) vs \<Longrightarrow> \<exists>m. length_prefixed vs = Inr m"
  by (induction vs) (auto simp: utf8_encode_ascii)

lemma decimal_input: "decimal_int 67108864 = lit ''67108864''" "decimal_int 8 = lit ''8''" "decimal_int 1 = lit ''1''"
  by (simp_all add: decimal_int_def decimal.simps lit_def)

lemma example_literals:
  "is_sha256 CONTRACT_SHA256" "is_sha256 (replicate 64 48)" "is_sha256 (replicate 64 97)"
  "corpus_id_from False (lit ''text-1'')"
  by code_simp+

lemma example_metric [simp]:
  "ci_metric example_identity \<in> set METRICS" "ci_metric example_identity \<in> set MEMORY_METRICS"
  by (simp_all add: METRICS_def MEMORY_METRICS_def example_identity_def)

lemma example_valid: "validate_case_identity example_identity = Inr ()"
proof -
  have "utf8_encode (lit ''text-1'') = Inr (map of_nat (lit ''text-1''))" by (rule utf8_encode_ascii) code_simp
  then show ?thesis
    using example_metric(1) example_literals
    by (simp add: validate_case_identity_def require_sha256_def example_identity_def lit_def)
qed

lemma example_fields:
  "case_identity_fields example_identity = Inr
     [CONTRACT_SHA256, replicate 64 48, lit ''text-1'', replicate 64 97, lit ''67108864'', lit ''8'',
      lit ''encode_cgroup_v2_memory_peak_bytes'']"
  using example_valid by (simp add: case_identity_fields_def example_identity_def decimal_input)

lemma example_materials:
  "\<exists>m. case_material example_identity = Inr m"
  "i \<in> set BINDING_TOOLS \<Longrightarrow> \<exists>m. stream_material example_identity i = Inr m"
proof -
  let ?small = "\<lambda>v. list_all (\<lambda>x. x < 128) v \<and> length v < 2 ^ 32"
  have fields: "list_all ?small [CONTRACT_SHA256, replicate 64 48, lit ''text-1'', replicate 64 97, lit ''67108864'',
      lit ''8'', lit ''encode_cgroup_v2_memory_peak_bytes'']" "?small CASE_ID_DOMAIN" "?small BOOTSTRAP_STREAM_DOMAIN"
    by (simp_all add: CONTRACT_SHA256_def CASE_ID_DOMAIN_def BOOTSTRAP_STREAM_DOMAIN_def lit_def list_all_iff)
  show "\<exists>m. case_material example_identity = Inr m"
    using length_prefixed_ascii[of "CASE_ID_DOMAIN # _"] fields by (simp add: case_material_def example_fields)
  show "\<exists>m. stream_material example_identity i = Inr m" if "i \<in> set BINDING_TOOLS"
  proof -
    have "list_all ?small BINDING_TOOLS" by (simp add: BINDING_TOOLS_def lit_def)
    then have "?small i" using that by (simp add: list_all_iff)
    then show ?thesis
      using length_prefixed_ascii[of "BOOTSTRAP_STREAM_DOMAIN # _ @ [i]"] fields
      by (simp add: stream_material_def example_fields)
  qed
qed

lemma memory_sample_list:
  "0 < n \<Longrightarrow> n \<le> 10000 \<Longrightarrow>
     validated_metric_samples fl (ci_metric example_identity) (sample_list n) = Inr (replicate 11 (JInt n))"
  by (simp add: validated_metric_samples_def sample_list_def numeral_eq_Suc MAX_CGROUP_MEMORY_PEAK_BYTES_def)

lemma example_interval:
  assumes "i \<in> set BINDING_TOOLS"
  shows "paired_bootstrap_ratio_ci zero_digest Some (sample_list 1) (sample_list 2) example_identity i
      10000 BOOTSTRAP_CONFIDENCE_LEVEL
    = Inr \<lparr>iv_lower = 1 / 2, iv_upper = 1 / 2, iv_confidence_level = BOOTSTRAP_CONFIDENCE_LEVEL\<rparr>"
proof -
  obtain m where m: "stream_material example_identity i = Inr m" using example_materials(2)[OF assms] by blast
  have indices: "bootstrap_indices zero_digest example_identity i 110000 11 = Inr (replicate 110000 0)"
    using zero_digest_indices[OF assms m, of 110000 11] by (simp add: counter_words_def UINT64_RANGE_def)
  have ratios: "mapR (paired_ratio Some) (replicate 11 (JInt 1, JInt 2)) = Inr (replicate 11 (1 / 2))"
    by (simp add: numeral_eq_Suc paired_ratio_def)
  have medians: "resample_medians Some (replicate 11 (1 / 2)) (replicate 110000 0) 10000 = Inr (replicate 10000 (1 / 2))"
    using resample_medians_constant[of 11 Some "1 / 2" 10000] by simp
  show ?thesis
    by (simp add: paired_bootstrap_ratio_ci_def memory_sample_list ratios indices medians rounded_def
        BOOTSTRAP_CONFIDENCE_LEVEL_def percentile_constant map_replicate_const)
qed

definition example_verdict :: "pystr \<Rightarrow> MetricVerdict" where
  "example_verdict i =
     \<lparr>mv_metric = ci_metric example_identity, mv_comparator_id = i, mv_sample_count = MEASURED_RUNS,
      mv_candidate_median = 1, mv_comparator_median = 2, mv_candidate_mad = 0, mv_comparator_mad = 0,
      mv_paired_median_ratio = 1 / 2,
      mv_confidence_interval = \<lparr>iv_lower = 1 / 2, iv_upper = 1 / 2, iv_confidence_level = BOOTSTRAP_CONFIDENCE_LEVEL\<rparr>,
      mv_passed = True\<rparr>"

lemma constant_mad: "median_absolute_deviation Some (JList (replicate 11 (JInt n))) = Inr 0"
proof -
  have "validated_samples Some False (JList (replicate 11 (JInt n))) = Inr (replicate 11 (of_int n))"
    by (simp add: numeral_eq_Suc rounded_def)
  moreover have "mapR (\<lambda>q. rounded Some (q - of_int n)) (replicate 11 (of_int n)) = Inr (replicate 11 0)"
    by (simp add: numeral_eq_Suc rounded_def)
  ultimately show ?thesis by (simp add: median_absolute_deviation_def)
qed

lemma example_metric_case:
  assumes "i \<in> set BINDING_TOOLS"
  shows "evaluate_metric_case zero_digest Some (ci_metric example_identity) (sample_list 1) (sample_list 2) example_identity i
    = Inr (example_verdict i)"
proof -
  have "mapR (paired_ratio Some) (replicate 11 (JInt 1, JInt 2)) = Inr (replicate 11 (1 / 2))"
    by (simp add: numeral_eq_Suc paired_ratio_def)
  then show ?thesis
    using assms
    by (simp add: evaluate_metric_case_def require_binding_comparator_id_def memory_sample_list example_interval
        constant_mad rounded_def example_verdict_def)
qed

definition example_size_verdict :: SizeVerdict where
  "example_size_verdict =
     \<lparr>zv_input_bytes = MINIMUM_INPUT_BYTES, zv_candidate_archive_bytes = 1000,
      zv_best_raw_comparator_id = lit ''zstd_raw'', zv_best_raw_archive_bytes = 2000,
      zv_smallest_encrypted_comparator_id = lit ''zstd_age_passphrase'', zv_smallest_encrypted_comparator_archive_bytes = 2900,
      zv_smallest_comparator_id = lit ''zstd_raw'', zv_smallest_comparator_archive_bytes = 2000,
      zv_incompressible = False, zv_allowance_bytes = 33555, zv_selected_limit_bytes = 2000,
      zv_selected_limit_source = lit ''zstd_raw'', zv_selected_limit_inclusive = False, zv_passed = True\<rparr>"

lemma binding_tools_distinct: "distinct BINDING_TOOLS"
  by (simp add: BINDING_TOOLS_def lit_def)

lemma example_sizes:
  "positive_size_mapping example_raw_sizes = Inr [(lit ''7zip_raw'', 2100), (lit ''zstd_raw'', 2000)]"
  "encrypted_size_mapping example_encrypted_sizes
     = Inr [(lit ''7zip_aes256_headers'', 3000), (lit ''zstd_age_passphrase'', 2900)]"
proof -
  have visible: "require_identifier (lit ''7zip_raw'') = Inr ()" "require_identifier (lit ''zstd_raw'') = Inr ()"
    "require_identifier (lit ''7zip_aes256_headers'') = Inr ()" "require_identifier (lit ''zstd_age_passphrase'') = Inr ()"
    by (simp_all add: require_identifier_def lit_def is_space_def)
  have sizes: "distribution_sizes (sample_list n) = Inr (replicate 11 n)" if "0 < n" for n
    using that by (simp add: sample_list_def numeral_eq_Suc positive_integer_def)
  have middle: "sort (replicate 11 n) ! 5 = n" for n :: int
    by (subst sorted_sort_id) simp_all
  show "positive_size_mapping example_raw_sizes = Inr [(lit ''7zip_raw'', 2100), (lit ''zstd_raw'', 2000)]"
    by (simp add: example_raw_sizes_def visible positive_integer_def)
  show "encrypted_size_mapping example_encrypted_sizes
     = Inr [(lit ''7zip_aes256_headers'', 3000), (lit ''zstd_age_passphrase'', 2900)]"
    by (simp add: example_encrypted_sizes_def visible sizes middle)
qed

lemma smallest_size_eqI:
  assumes "(i, n) \<in> set ms" and "\<forall>(j, m) \<in> set ms. (j, m) \<noteq> (i, n) \<longrightarrow> n < m"
  shows "smallest_size ms = (i, n)"
proof -
  have "Min (set (map (\<lambda>(i, n). (n, i)) ms)) = (n, i)"
    using assms by (intro Min_eqI) (force simp: less_eq_prod_def)+
  then show ?thesis by (simp add: smallest_size_def)
qed

lemma example_size_case:
  "evaluate_size_case (JInt MINIMUM_INPUT_BYTES) (JInt 1000) example_raw_sizes example_encrypted_sizes
     = Inr example_size_verdict"
proof -
  let ?rs = "[(lit ''7zip_raw'', 2100), (lit ''zstd_raw'', 2000)]"
  let ?es = "[(lit ''7zip_aes256_headers'', 3000), (lit ''zstd_age_passphrase'', 2900)]"
  have least: "smallest_size ?rs = (lit ''zstd_raw'', 2000)" "smallest_size ?es = (lit ''zstd_age_passphrase'', 2900)"
    "smallest_size (?rs @ ?es) = (lit ''zstd_raw'', 2000)"
    by (rule smallest_size_eqI; simp)+
  have "fst ` set ?rs \<inter> fst ` set ?es = {}" by (simp add: lit_def)
  moreover have "allowed_incompressible_overhead (JInt MINIMUM_INPUT_BYTES) = Inr 33555"
    by (simp add: allowed_incompressible_overhead_def positive_integer_def)
  ultimately show ?thesis
    unfolding evaluate_size_case_def positive_integer_def json.case if_False
    by (simp add: example_sizes least[simplified] Let_def example_size_verdict_def)
qed

lemma example_case_id: "derive_case_id zero_digest example_identity = Inr (CASE_ID_PREFIX @ replicate 64 48)"
proof -
  obtain m where "case_material example_identity = Inr m" using example_materials(1) by blast
  moreover have "hexdigest (replicate 32 0) = replicate 64 48"
    by code_simp
  ultimately show ?thesis by (simp add: derive_case_id_def zero_digest_def)
qed

lemma example_case_members:
  "\<exists>payload. example_case = JObj payload \<and> fst ` set payload = set SCORECARD_CASE_KEYS
     \<and> scorecard_identity payload = Inr example_identity
     \<and> member payload (lit ''case_id'') = Inr (JStr (CASE_ID_PREFIX @ replicate 64 48))
     \<and> member payload (lit ''comparator_samples'') = Inr (JObj (map (\<lambda>i. (i, sample_list 2)) BINDING_TOOLS))
     \<and> member payload (lit ''raw_comparator_archive_bytes'') = Inr example_raw_sizes
     \<and> member payload (lit ''encrypted_comparator_archive_bytes'') = Inr example_encrypted_sizes
     \<and> member payload (lit ''candidate_samples'') = Inr (sample_list 1)
     \<and> member payload (lit ''candidate_archive_bytes'') = Inr (JInt 1000)"
proof -
  obtain payload where p: "example_case = JObj payload" by (simp add: example_case_def)
  note p' = p[unfolded example_case_def json.inject, symmetric]
  have keys: "fst ` set payload = set SCORECARD_CASE_KEYS" by (simp add: p' SCORECARD_CASE_KEYS_def)
  note get = member_def p' lit_def
  have parts: "member payload (lit ''case_id'') = Inr (JStr (CASE_ID_PREFIX @ replicate 64 48))"
    "member payload (lit ''comparator_samples'') = Inr (JObj (map (\<lambda>i. (i, sample_list 2)) BINDING_TOOLS))"
    "member payload (lit ''raw_comparator_archive_bytes'') = Inr example_raw_sizes"
    "member payload (lit ''encrypted_comparator_archive_bytes'') = Inr example_encrypted_sizes"
    "member payload (lit ''candidate_samples'') = Inr (sample_list 1)"
    "member payload (lit ''candidate_archive_bytes'') = Inr (JInt 1000)"
    by (simp_all add: get)
  have own: "member payload (lit ''contract_sha256'') = Inr (JStr CONTRACT_SHA256)"
    "member payload (lit ''corpus_manifest_sha256'') = Inr (JStr (replicate 64 48))"
    "member payload (lit ''corpus_id'') = Inr (js ''text-1'')"
    "member payload (lit ''input_sha256'') = Inr (JStr (replicate 64 97))"
    "member payload (lit ''input_bytes'') = Inr (JInt MINIMUM_INPUT_BYTES)"
    "member payload (lit ''thread_count'') = Inr (JInt 8)"
    "member payload (lit ''metric'') = Inr (js ''encode_cgroup_v2_memory_peak_bytes'')"
    by (simp_all add: get)
  have "lit ''encode_cgroup_v2_memory_peak_bytes'' \<in> set METRICS"
    using example_metric(1) by (simp add: example_identity_def)
  then have "scorecard_identity payload = Inr example_identity"
    using example_valid example_literals
    by (simp add: scorecard_identity_def own require_sha256_def positive_integer_def Let_def example_identity_def)
  then show ?thesis using p keys parts by blast
qed

lemma example_comparators:
  "binding_metric_samples Some (ci_metric example_identity) (JObj (map (\<lambda>i. (i, sample_list 2)) BINDING_TOOLS))
     = Inr (map (\<lambda>i. (i, replicate 11 (JInt 2))) BINDING_TOOLS)"
proof -
  let ?members = "map (\<lambda>i. (i, sample_list 2)) BINDING_TOOLS"
  have "member ?members i = Inr (sample_list 2)" if "i \<in> set BINDING_TOOLS" for i
    using that by (simp add: member_def map_of_map_restrict)
  then have "mapR (\<lambda>i. bindR (member ?members i) (\<lambda>v.
      bindR (validated_metric_samples Some (ci_metric example_identity) v) (\<lambda>samples.
        if length samples \<noteq> MEASURED_RUNS then Inl (ValueError ''must contain exactly eleven samples'')
        else Inr (i, samples)))) BINDING_TOOLS = Inr (map (\<lambda>i. (i, replicate 11 (JInt 2))) BINDING_TOOLS)"
    by (intro mapR_total) (simp add: memory_sample_list)
  then show ?thesis by (simp add: image_image)
qed

lemma mapR_map_total:
  "(\<And>x. x \<in> set xs \<Longrightarrow> f (g x) = Inr (h x)) \<Longrightarrow> mapR f (map g xs) = Inr (map h xs)"
  by (induction xs) auto

lemma example_fastest:
  "fastest_comparator Some (map (\<lambda>i. (i, replicate 11 (JInt 2))) BINDING_TOOLS) = Inr (lit ''7zip_aes256_headers'')"
proof -
  have "list_all (\<lambda>i. lit ''7zip_aes256_headers'' \<le> i) BINDING_TOOLS" by code_simp
  then have first: "lit ''7zip_aes256_headers'' \<le> i" if "i \<in> set BINDING_TOOLS" for i
    using that by (simp add: list_all_iff)
  have member: "lit ''7zip_aes256_headers'' \<in> set BINDING_TOOLS" by (simp add: BINDING_TOOLS_def)
  have "Min (set (map (\<lambda>i. (2 :: rat, i)) BINDING_TOOLS)) = (2, lit ''7zip_aes256_headers'')"
  proof (rule Min_eqI)
    show "(2, lit ''7zip_aes256_headers'') \<in> set (map (\<lambda>i. (2 :: rat, i)) BINDING_TOOLS)" using member by simp
    show "(2, lit ''7zip_aes256_headers'') \<le> y" if "y \<in> set (map (\<lambda>i. (2 :: rat, i)) BINDING_TOOLS)" for y
      using that first by (auto simp: less_eq_prod_def)
  qed simp
  moreover have "mapR (\<lambda>(i, samples). bindR (statistics_median Some (map number samples)) (\<lambda>q. Inr (q, i)))
      (map (\<lambda>i. (i, replicate 11 (JInt 2))) BINDING_TOOLS) = Inr (map (\<lambda>i. (2, i)) BINDING_TOOLS)"
    by (simp add: BINDING_TOOLS_def)
  ultimately show ?thesis unfolding fastest_comparator_def by simp
qed

definition example_score :: ScorecardCase where
  "example_score =
     \<lparr>sc_case_id = CASE_ID_PREFIX @ replicate 64 48, sc_identity = example_identity, sc_thread_count = 8,
      sc_fastest_comparator_id = lit ''7zip_aes256_headers'', sc_metric_verdicts = map example_verdict BINDING_TOOLS,
      sc_size_verdict = example_size_verdict, sc_passed = True\<rparr>"

lemma example_scorecard: "evaluate_scorecard_case zero_digest Some example_case = Inr example_score"
proof -
  obtain payload where p: "example_case = JObj payload" "fst ` set payload = set SCORECARD_CASE_KEYS"
      "scorecard_identity payload = Inr example_identity"
      "member payload (lit ''case_id'') = Inr (JStr (CASE_ID_PREFIX @ replicate 64 48))"
      "member payload (lit ''comparator_samples'') = Inr (JObj (map (\<lambda>i. (i, sample_list 2)) BINDING_TOOLS))"
      "member payload (lit ''raw_comparator_archive_bytes'') = Inr example_raw_sizes"
      "member payload (lit ''encrypted_comparator_archive_bytes'') = Inr example_encrypted_sizes"
      "member payload (lit ''candidate_samples'') = Inr (sample_list 1)"
      "member payload (lit ''candidate_archive_bytes'') = Inr (JInt 1000)"
    using example_case_members by blast
  have verdicts: "mapR (\<lambda>(i, samples). evaluate_metric_case zero_digest Some (ci_metric example_identity) (sample_list 1)
        (JList samples) example_identity i) (map (\<lambda>i. (i, replicate 11 (JInt 2))) BINDING_TOOLS)
      = Inr (map example_verdict BINDING_TOOLS)"
    using example_metric_case by (intro mapR_map_total) (simp add: sample_list_def)
  have id: "require_case_id (JStr (CASE_ID_PREFIX @ replicate 64 48)) (CASE_ID_PREFIX @ replicate 64 48)
      = Inr (CASE_ID_PREFIX @ replicate 64 48)"
    using example_literals(2) by (simp add: require_case_id_def)
  have objects: "exact_object example_raw_sizes BINDING_RAW_TOOLS = Inr ()"
    "exact_object example_encrypted_sizes BINDING_ENCRYPTED_TOOLS = Inr ()"
    by (simp_all add: exact_object_def example_raw_sizes_def example_encrypted_sizes_def BINDING_RAW_TOOLS_def
        BINDING_ENCRYPTED_TOOLS_def)
  have identity: "ci_input_bytes example_identity = MINIMUM_INPUT_BYTES" "ci_thread_count example_identity = 8"
    by (simp_all add: example_identity_def)
  show ?thesis
    unfolding evaluate_scorecard_case_def p(1) scorecard_object.simps bindR_simps require_keys_def
    using p(2-) example_case_id id example_comparators example_fastest verdicts objects identity example_size_case
    by (simp add: example_score_def example_size_verdict_def example_verdict_def list_all_iff)
qed

lemma other_material: "\<exists>m. case_material (example_identity\<lparr>ci_thread_count := 1\<rparr>) = Inr m"
proof -
  let ?small = "\<lambda>v. list_all (\<lambda>x. x < 128) v \<and> length v < 2 ^ 32"
  have "validate_case_identity (example_identity\<lparr>ci_thread_count := 1\<rparr>) = Inr ()"
    using example_valid by (auto simp: validate_case_identity_def example_identity_def result_simps split: if_splits)
  then have "case_identity_fields (example_identity\<lparr>ci_thread_count := 1\<rparr>) = Inr
     [CONTRACT_SHA256, replicate 64 48, lit ''text-1'', replicate 64 97, lit ''67108864'', lit ''1'',
      lit ''encode_cgroup_v2_memory_peak_bytes'']"
    using decimal_input by (simp add: case_identity_fields_def example_identity_def)
  moreover have small: "list_all ?small (CASE_ID_DOMAIN # [CONTRACT_SHA256, replicate 64 48, lit ''text-1'', replicate 64 97,
      lit ''67108864'', lit ''1'', lit ''encode_cgroup_v2_memory_peak_bytes''])"
    by (simp add: CONTRACT_SHA256_def CASE_ID_DOMAIN_def lit_def list_all_iff)
  moreover have "\<exists>m. length_prefixed (CASE_ID_DOMAIN # [CONTRACT_SHA256, replicate 64 48, lit ''text-1'', replicate 64 97,
      lit ''67108864'', lit ''1'', lit ''encode_cgroup_v2_memory_peak_bytes'']) = Inr m"
    by (rule length_prefixed_ascii[OF small])
  ultimately show ?thesis by (simp add: case_material_def del: length_prefixed.simps)
qed

section \<open>Properties\<close>

text \<open>C35: A case identifier is as good as the identity it stands for: as long as the digest tells the seeds of two identities apart, the identities have one identifier exactly when they agree in every field, the input size and the thread count included.\<close>

theorem case_ids_distinct:
  assumes "derive_case_id c i = Inr a" and "derive_case_id c j = Inr b"
    and "inj_on (sha256 c) {m. Inr m \<in> {case_material i, case_material j}}"
  shows "a = b \<longleftrightarrow> i = j"
proof -
  obtain mi mj where m: "case_material i = Inr mi" "case_material j = Inr mj"
    and ids: "a = CASE_ID_PREFIX @ hexdigest (sha256 c mi)" "b = CASE_ID_PREFIX @ hexdigest (sha256 c mj)"
    using assms(1,2) by (auto simp: derive_case_id_def result_simps)
  have "mi = mj" if "a = b"
    using assms(3) that ids hexdigest_inj[of "sha256 c mi" "sha256 c mj"] m by (auto dest: inj_onD)
  then show ?thesis using case_material_inj m ids by auto
qed

lemma case_ids_distinct_witness:
  "\<exists>c a b. derive_case_id c example_identity = Inr a
     \<and> derive_case_id c (example_identity\<lparr>ci_thread_count := 1\<rparr>) = Inr b \<and> a \<noteq> b"
proof -
  let ?other = "example_identity\<lparr>ci_thread_count := 1\<rparr>"
  obtain m where m: "case_material example_identity = Inr m" using example_materials(1) by blast
  obtain m' where m': "case_material ?other = Inr m'" using other_material by blast
  let ?c = "example_crypto\<lparr>sha256 := (\<lambda>b. replicate 32 (if b = m then 0 else 1))\<rparr>"
  have different: "example_identity \<noteq> ?other" by (simp add: example_identity_def)
  then have "m \<noteq> m'" using case_material_inj m m' by blast
  then have inj: "inj_on (sha256 ?c) {k. Inr k \<in> {case_material example_identity, case_material ?other}}"
    using m m' by (auto simp: inj_on_def replicate_eq_replicate)
  have ids: "derive_case_id ?c example_identity = Inr (CASE_ID_PREFIX @ hexdigest (sha256 ?c m))"
    "derive_case_id ?c ?other = Inr (CASE_ID_PREFIX @ hexdigest (sha256 ?c m'))"
    using m m' by (simp_all add: derive_case_id_def)
  have "CASE_ID_PREFIX @ hexdigest (sha256 ?c m) \<noteq> CASE_ID_PREFIX @ hexdigest (sha256 ?c m')"
    using case_ids_distinct[OF ids inj] different by blast
  then show ?thesis using ids by blast
qed

text \<open>C36: The bootstrap samples its indices by rejection: they are the residues of the first accepted words of the SHA-256 counter stream of the case and comparator, in order, or an error when the stream holds too few; and every index is the residue of equally many of the 64-bit words that can be accepted.\<close>

theorem bootstrap_indices_sampled:
  assumes "comparator \<in> set BINDING_TOOLS" and "stream_material identity comparator = Inr material"
    and "0 < count" and "0 < u" and "u \<le> UINT64_RANGE"
  shows "bootstrap_indices c identity comparator (int count) (int u) =
      (let accepted = filter (\<lambda>w. w < UINT64_RANGE div u * u) (map (counter_word c material) [0..<counter_words])
       in if length accepted < count then Inl (RuntimeError ''SHA-256 counter stream exhausted'')
          else Inr (map (\<lambda>w. w mod u) (take count accepted)))
    \<and> (\<forall>r < u. card {w. w < UINT64_RANGE div u * u \<and> w mod u = r} = UINT64_RANGE div u)"
  using bootstrap_indices_draw[OF assms] draw_indices_eq[OF assms(3)] residues_equal
  by (simp add: accepted_words_def acceptance_limit_multiple[OF assms(4)])

lemma bootstrap_indices_sampled_witness:
  "\<exists>material. stream_material example_identity (lit ''zstd_raw'') = Inr material
     \<and> bootstrap_indices zero_digest example_identity (lit ''zstd_raw'') (int 3) (int 11) =
       (let accepted = filter (\<lambda>w. w < UINT64_RANGE div 11 * 11) (map (counter_word zero_digest material) [0..<counter_words])
        in if length accepted < 3 then Inl (RuntimeError ''SHA-256 counter stream exhausted'')
           else Inr (map (\<lambda>w. w mod 11) (take 3 accepted)))
     \<and> bootstrap_indices zero_digest example_identity (lit ''zstd_raw'') (int 3) (int 11) = Inr [0, 0, 0]"
proof -
  have tool: "lit ''zstd_raw'' \<in> set BINDING_TOOLS" by (simp add: BINDING_TOOLS_def)
  obtain m where m: "stream_material example_identity (lit ''zstd_raw'') = Inr m" using example_materials(2)[OF tool] by blast
  have "(11 :: nat) \<le> UINT64_RANGE" by (simp add: UINT64_RANGE_def)
  note sampled = bootstrap_indices_sampled[OF tool m _ _ this, of 3 zero_digest]
  have "bootstrap_indices zero_digest example_identity (lit ''zstd_raw'') (int 3) (int 11) = Inr (replicate 3 0)"
    by (rule zero_digest_indices[OF tool m]) (simp_all add: counter_words_def UINT64_RANGE_def)
  moreover have "replicate 3 0 = [0, 0, 0 :: nat]" by (simp add: numeral_3_eq_3)
  ultimately show ?thesis using m conjunct1[OF sampled] by (metis zero_less_numeral)
qed

text \<open>C37: A size verdict means what the contract says: a compressible case passes exactly when the archive is smaller than every comparator's; a case whose best raw comparator saves less than one percent of the input passes exactly when the archive is no larger than the input with the allowance and than every encrypted comparator; and the reported limit is the one it was measured against.\<close>

theorem size_verdict_rule:
  assumes "evaluate_size_case (JInt input) (JInt archive) raw encrypted = Inr v"
  shows "\<exists>rs es. positive_size_mapping raw = Inr rs \<and> encrypted_size_mapping encrypted = Inr es
     \<and> zv_incompressible v = (\<forall>(i, n) \<in> set rs. input * 99 < n * 100)
     \<and> zv_passed v =
        (if zv_incompressible v
         then archive \<le> input + max 4096 ((input + 1999) div 2000) \<and> (\<forall>(i, n) \<in> set es. archive \<le> n)
         else \<forall>(i, n) \<in> set (rs @ es). archive < n)
     \<and> zv_passed v =
        (if zv_selected_limit_inclusive v then archive \<le> zv_selected_limit_bytes v else archive < zv_selected_limit_bytes v)"
  by (rule evaluate_size_case_cases[OF assms]) (auto simp: smallest_size_bounds size_mappings_nonempty)

lemma size_verdict_rule_witness:
  "zv_passed example_size_verdict \<and> zv_incompressible example_size_verdict =
     (\<forall>(i, n) \<in> set [(lit ''7zip_raw'', 2100), (lit ''zstd_raw'', 2000)]. MINIMUM_INPUT_BYTES * 99 < n * 100)"
  using size_verdict_rule[OF example_size_case] by (auto simp: example_sizes example_size_verdict_def)

text \<open>C38: A case passes exactly when the upper end of the interval of its ratio lies below one for every one of the binding tools, taken in their order, and its archive passes the size rule; and its identifier is the one its own identity derives.\<close>

theorem case_passes:
  assumes "evaluate_scorecard_case c fl document = Inr s"
  shows "derive_case_id c (sc_identity s) = Inr (sc_case_id s)
     \<and> map mv_comparator_id (sc_metric_verdicts s) = BINDING_TOOLS
     \<and> zv_input_bytes (sc_size_verdict s) = ci_input_bytes (sc_identity s)
     \<and> sc_passed s =
        (list_all (\<lambda>v. mv_metric v = ci_metric (sc_identity s) \<and> iv_upper (mv_confidence_interval v) < 1) (sc_metric_verdicts s)
         \<and> zv_passed (sc_size_verdict s))"
  using evaluate_scorecard_case_facts[OF assms] by (auto simp: list_all_iff)

lemma case_passes_witness:
  "sc_passed example_score =
     (list_all (\<lambda>v. mv_metric v = ci_metric (sc_identity example_score) \<and> iv_upper (mv_confidence_interval v) < 1)
        (sc_metric_verdicts example_score) \<and> zv_passed (sc_size_verdict example_score))
   \<and> sc_passed example_score \<and> length (sc_metric_verdicts example_score) = 4"
  using case_passes[OF example_scorecard] by (simp add: example_score_def BINDING_TOOLS_def)

end
