(* ===== verification/CompetitiveReport.thy ===== *)
theory CompetitiveReport
  imports CompetitiveScores Paths "HOL-Library.Multiset"
begin

text \<open>
  Reports of the competitive evaluation (\<^verbatim>\<open>competitive_report.py\<close>): the checks of a decoded report, the matrix
  of its cases, the index of raw evidence and the recomputation of every case. Reading the file
  (\<^verbatim>\<open>competitive_report_io.py\<close>) is left out.

  The refusals of an evidence URL have one message here. \<open>ip\<close> stands for \<^verbatim>\<open>ipaddress.ip_address\<close>: the
  canonical authority of the text of an address (in brackets for version 6), or \<open>None\<close> for other text.
\<close>

section \<open>Checks\<close>

abbreviation invalid :: "string \<Rightarrow> 'a result" where
  "invalid message \<equiv> Inl (ReportValidationError message)"

fun report_object :: "json \<Rightarrow> (pystr \<times> json) list result" where
  "report_object (JObj members) = Inr members"
| "report_object _ = invalid ''must be an object''"

definition report_keys :: "(pystr \<times> json) list \<Rightarrow> pystr list \<Rightarrow> unit result" where
  "report_keys members expected =
     (if fst ` set members \<noteq> set expected then invalid ''keys must be exact'' else Inr ())"

definition report_literal :: "json \<Rightarrow> pystr \<Rightarrow> pystr result" where
  "report_literal v expected = (if v \<noteq> JStr expected then invalid ''must equal the literal'' else Inr expected)"

definition report_sha256 :: "json \<Rightarrow> pystr result" where
  "report_sha256 v =
     (case v of
        JStr s \<Rightarrow> if is_sha256 s then Inr s else invalid ''must be a lowercase SHA-256 digest''
      | _ \<Rightarrow> invalid ''must be a lowercase SHA-256 digest'')"

definition report_positive_integer :: "json \<Rightarrow> int result" where
  "report_positive_integer v =
     (case v of
        JInt n \<Rightarrow> if n \<le> 0 then invalid ''must be a positive integer'' else Inr n
      | _ \<Rightarrow> invalid ''must be a positive integer'')"

definition report_sequence :: "json \<Rightarrow> nat \<Rightarrow> json list result" where
  "report_sequence v n =
     (case v of
        JList vs \<Rightarrow> if length vs \<noteq> n then invalid ''must contain exactly n items'' else Inr vs
      | _ \<Rightarrow> invalid ''must contain exactly n items'')"

text \<open>\<^verbatim>\<open>_utf8_length\<close>.\<close>

definition utf8_length :: "pystr \<Rightarrow> nat result" where
  "utf8_length s =
     (case utf8_encode s of
        Inl _ \<Rightarrow> invalid ''must contain valid Unicode scalar values''
      | Inr b \<Rightarrow> Inr (length b))"

section \<open>Declared identities\<close>

definition is_digit :: "nat \<Rightarrow> bool" where
  "is_digit x \<longleftrightarrow> 48 \<le> x \<and> x \<le> 57"

definition is_alnum :: "nat \<Rightarrow> bool" where
  "is_alnum x \<longleftrightarrow> is_digit x \<or> 65 \<le> x \<and> x \<le> 90 \<or> 97 \<le> x \<and> x \<le> 122"

definition is_commit :: "pystr \<Rightarrow> bool" where
  "is_commit s \<longleftrightarrow> length s = 40 \<and> list_all hex_char s"

text \<open>\<^verbatim>\<open>0|[1-9][0-9]*\<close>.\<close>

definition is_version_number :: "pystr \<Rightarrow> bool" where
  "is_version_number s \<longleftrightarrow> s = [48] \<or> s \<noteq> [] \<and> list_all is_digit s \<and> hd s \<noteq> 48"

text \<open>\<^verbatim>\<open>[0-9A-Za-z]+(?:[.-][0-9A-Za-z]+)*\<close>, with whether the last character was a letter or digit.\<close>

fun tag_suffix_from :: "bool \<Rightarrow> pystr \<Rightarrow> bool" where
  "tag_suffix_from alnum [] = alnum"
| "tag_suffix_from alnum (x # xs) =
     (if is_alnum x then tag_suffix_from True xs else alnum \<and> x \<in> {46, 45} \<and> tag_suffix_from False xs)"

text \<open>\<^verbatim>\<open>_CANDIDATE_TAG_RE\<close>: three numbers, and a suffix behind the first hyphen.\<close>

definition is_candidate_tag :: "pystr \<Rightarrow> bool" where
  "is_candidate_tag s \<longleftrightarrow>
     (case s of
        [] \<Rightarrow> False
      | x # r \<Rightarrow>
          x = 118 \<and> length (split_on 46 (takeWhile (\<lambda>y. y \<noteq> 45) r)) = 3
          \<and> list_all is_version_number (split_on 46 (takeWhile (\<lambda>y. y \<noteq> 45) r))
          \<and> (case dropWhile (\<lambda>y. y \<noteq> 45) r of [] \<Rightarrow> True | _ # suffix \<Rightarrow> tag_suffix_from False suffix))"

text \<open>\<^verbatim>\<open>[A-Za-z0-9][A-Za-z0-9._:/@+-]{0,511}\<close>.\<close>

definition is_workflow_identity :: "pystr \<Rightarrow> bool" where
  "is_workflow_identity s \<longleftrightarrow>
     s \<noteq> [] \<and> is_alnum (hd s) \<and> length s \<le> 512
     \<and> list_all (\<lambda>x. is_alnum x \<or> x \<in> {46, 95, 58, 47, 64, 43, 45}) (tl s)"

abbreviation MAX_WORKFLOW_IDENTITY_BYTES where "MAX_WORKFLOW_IDENTITY_BYTES \<equiv> (512 :: nat)"
abbreviation MAX_CANDIDATE_TAG_BYTES where "MAX_CANDIDATE_TAG_BYTES \<equiv> (128 :: nat)"

definition CANDIDATE_KEYS :: "pystr list" where
  "CANDIDATE_KEYS =
     [lit ''archive_format'', lit ''profile'', lit ''configuration_id'', lit ''native_binary_sha256'', lit ''commit_sha'',
      lit ''candidate_tag'']"

record CandidateIdentity =
  cd_archive_format :: pystr
  cd_profile :: pystr
  cd_configuration_id :: pystr
  cd_native_binary_sha256 :: pystr
  cd_commit_sha :: pystr
  cd_candidate_tag :: pystr

definition parse_candidate :: "json \<Rightarrow> CandidateIdentity result" where
  "parse_candidate v =
     bindR (report_object v) (\<lambda>candidate.
     bindR (report_keys candidate CANDIDATE_KEYS) (\<lambda>_.
     bindR (bindR (member candidate (lit ''archive_format'')) (\<lambda>x. report_literal x (lit ''MSC7''))) (\<lambda>archive_format.
     bindR (bindR (member candidate (lit ''profile'')) (\<lambda>x. report_literal x (lit ''adaptive-v1''))) (\<lambda>profile.
     bindR (bindR (member candidate (lit ''configuration_id'')) (\<lambda>x. report_literal x (lit ''msc7-default-v1''))) (\<lambda>configuration_id.
     bindR (bindR (member candidate (lit ''native_binary_sha256'')) report_sha256) (\<lambda>native_binary_sha256.
     bindR (member candidate (lit ''commit_sha'')) (\<lambda>x.
     bindR (case x of JStr s \<Rightarrow> if is_commit s then Inr s else invalid ''commit_sha must be a lowercase 40-character SHA''
            | _ \<Rightarrow> invalid ''commit_sha must be a lowercase 40-character SHA'') (\<lambda>commit_sha.
     bindR (member candidate (lit ''candidate_tag'')) (\<lambda>x.
     bindR (case x of
              JStr s \<Rightarrow> bindR (utf8_length s) (\<lambda>n.
                if n > MAX_CANDIDATE_TAG_BYTES \<or> \<not> is_candidate_tag s then invalid ''candidate_tag must be a canonical version tag''
                else Inr s)
            | _ \<Rightarrow> invalid ''candidate_tag must be a canonical version tag'') (\<lambda>candidate_tag.
       Inr \<lparr>cd_archive_format = archive_format, cd_profile = profile, cd_configuration_id = configuration_id,
            cd_native_binary_sha256 = native_binary_sha256, cd_commit_sha = commit_sha, cd_candidate_tag = candidate_tag\<rparr>))))))))))"

definition RUNNER_KEYS :: "pystr list" where
  "RUNNER_KEYS =
     [lit ''evidence_class'', lit ''runner_policy_sha256'', lit ''hardware_fingerprint_sha256'', lit ''workflow_identity'']"

definition DEVELOPMENT_EVIDENCE_CLASS :: pystr where
  "DEVELOPMENT_EVIDENCE_CLASS = lit ''development-unverified''"

record RunnerIdentity =
  rn_evidence_class :: pystr
  rn_runner_policy_sha256 :: pystr
  rn_hardware_fingerprint_sha256 :: pystr
  rn_workflow_identity :: pystr

definition parse_runner :: "json \<Rightarrow> RunnerIdentity result" where
  "parse_runner v =
     bindR (report_object v) (\<lambda>runner.
     bindR (report_keys runner RUNNER_KEYS) (\<lambda>_.
     bindR (bindR (member runner (lit ''evidence_class'')) (\<lambda>x. report_literal x DEVELOPMENT_EVIDENCE_CLASS)) (\<lambda>_.
     bindR (bindR (member runner (lit ''runner_policy_sha256'')) report_sha256) (\<lambda>policy.
     bindR (bindR (member runner (lit ''hardware_fingerprint_sha256'')) report_sha256) (\<lambda>hardware.
     bindR (member runner (lit ''workflow_identity'')) (\<lambda>x.
     bindR (case x of
              JStr s \<Rightarrow> bindR (utf8_length s) (\<lambda>n.
                if n > MAX_WORKFLOW_IDENTITY_BYTES \<or> \<not> is_workflow_identity s
                then invalid ''workflow_identity must be a canonical bounded workflow identity'' else Inr s)
            | _ \<Rightarrow> invalid ''workflow_identity must be a canonical bounded workflow identity'') (\<lambda>workflow.
       Inr \<lparr>rn_evidence_class = DEVELOPMENT_EVIDENCE_CLASS, rn_runner_policy_sha256 = policy,
            rn_hardware_fingerprint_sha256 = hardware, rn_workflow_identity = workflow\<rparr>)))))))"

section \<open>The matrix of cases\<close>

definition REQUIRED_CORPUS_IDS :: "pystr list" where
  "REQUIRED_CORPUS_IDS =
     [lit ''silesia-mixed'', lit ''enwik8-text'', lit ''linux-v6.12-v6.13-source-tree'', lit ''gharchive-utc-hour-json'',
      lit ''geonames-allcountries'', lit ''wikimedia-precompressed-media'']"

definition THREAD_TIERS :: "int list" where
  "THREAD_TIERS = [1, 8]"

type_synonym coordinate = "pystr \<times> int \<times> pystr"

text \<open>The coordinates of a report, in the order of its cases.\<close>

definition report_matrix :: "coordinate list" where
  "report_matrix =
     concat (map (\<lambda>corpus. concat (map (\<lambda>threads. map (\<lambda>metric. (corpus, threads, metric)) METRICS) THREAD_TIERS))
       REQUIRED_CORPUS_IDS)"

definition EXPECTED_CASE_COUNT :: nat where
  "EXPECTED_CASE_COUNT = length REQUIRED_CORPUS_IDS * 2 * length METRICS"

definition require_exact_size_mapping :: "json \<Rightarrow> pystr list \<Rightarrow> (pystr \<times> int) list result" where
  "require_exact_size_mapping v expected_ids =
     bindR (report_object v) (\<lambda>sizes.
     bindR (report_keys sizes expected_ids) (\<lambda>_.
       mapR (\<lambda>i. bindR (bindR (member sizes i) report_positive_integer) (\<lambda>n. Inr (i, n))) expected_ids))"

definition require_encrypted_sizes :: "json \<Rightarrow> (pystr \<times> int list) list result" where
  "require_encrypted_sizes v =
     bindR (report_object v) (\<lambda>sizes.
     bindR (report_keys sizes BINDING_ENCRYPTED_TOOLS) (\<lambda>_.
       mapR (\<lambda>i.
         bindR (bindR (member sizes i) (\<lambda>x. report_sequence x MEASURED_RUNS)) (\<lambda>samples.
         bindR (mapR report_positive_integer samples) (\<lambda>ns. Inr (i, ns)))) BINDING_ENCRYPTED_TOOLS))"

text \<open>The input digest and size, the size of the archive, and the sizes of the comparators' archives.\<close>

record SizeFingerprint =
  sf_input_sha256 :: pystr
  sf_input_bytes :: int
  sf_candidate_archive_bytes :: int
  sf_raw_sizes :: "(pystr \<times> int) list"
  sf_encrypted_sizes :: "(pystr \<times> int list) list"

record PreflightCase =
  pc_payload :: json
  pc_identity :: CaseIdentity
  pc_size_fingerprint :: SizeFingerprint

text \<open>\<^verbatim>\<open>except (TypeError, ValueError)\<close> around a block; \<^verbatim>\<open>ContractValidationError\<close> is a \<^verbatim>\<open>ValueError\<close>.\<close>

definition report_guard :: "'a result \<Rightarrow> 'a result" where
  "report_guard r =
     (case r of
        Inl e \<Rightarrow> (case e of
            ValueError _ \<Rightarrow> invalid ''case failed''
          | ContractValidationError _ \<Rightarrow> invalid ''case failed''
          | UnicodeError _ \<Rightarrow> invalid ''case failed''
          | _ \<Rightarrow> Inl e)
      | Inr x \<Rightarrow> Inr x)"

text \<open>The identity built from members whose types are not known yet.\<close>

definition preflight_identity :: "pystr \<Rightarrow> pystr \<Rightarrow> pystr \<Rightarrow> json \<Rightarrow> json \<Rightarrow> int \<Rightarrow> pystr \<Rightarrow> CaseIdentity result" where
  "preflight_identity contract manifest corpus_id input_sha256 input_bytes threads metric =
     bindR (require_sha256 input_sha256) (\<lambda>digest.
     bindR (case input_bytes of JInt n \<Rightarrow> Inr n | _ \<Rightarrow> Inl (ValueError ''input_bytes must meet minimum_input_bytes'')) (\<lambda>n.
       let i = \<lparr>ci_contract_sha256 = contract, ci_corpus_manifest_sha256 = manifest, ci_corpus_id = corpus_id,
                ci_input_sha256 = digest, ci_input_bytes = n, ci_thread_count = threads, ci_metric = metric\<rparr>
       in bindR (validate_case_identity i) (\<lambda>_. Inr i)))"

definition preflight_case :: "crypto \<Rightarrow> pystr \<Rightarrow> pystr \<Rightarrow> json \<Rightarrow> PreflightCase result" where
  "preflight_case c contract manifest v =
     bindR (report_object v) (\<lambda>case_members.
     bindR (report_keys case_members SCORECARD_CASE_KEYS) (\<lambda>_.
     bindR (member case_members (lit ''contract_sha256'')) (\<lambda>x.
       if x \<noteq> JStr contract then invalid ''contract_sha256 is inconsistent with report'' else
     bindR (member case_members (lit ''corpus_manifest_sha256'')) (\<lambda>x.
       if x \<noteq> JStr manifest then invalid ''corpus_manifest_sha256 is inconsistent with report'' else
     bindR (member case_members (lit ''corpus_id'')) (\<lambda>x.
     bindR (case x of JStr s \<Rightarrow> if s \<in> set REQUIRED_CORPUS_IDS then Inr s else invalid ''corpus_id is not in the exact corpus matrix''
            | _ \<Rightarrow> invalid ''corpus_id is not in the exact corpus matrix'') (\<lambda>corpus_id.
     bindR (member case_members (lit ''metric'')) (\<lambda>x.
     bindR (case x of JStr s \<Rightarrow> if s \<in> set METRICS then Inr s else invalid ''metric is not in the exact metric matrix''
            | _ \<Rightarrow> invalid ''metric is not in the exact metric matrix'') (\<lambda>metric.
     bindR (member case_members (lit ''thread_count'')) (\<lambda>x.
     bindR (case x of JInt n \<Rightarrow> if n \<in> set THREAD_TIERS then Inr n else invalid ''thread_count is not in the exact thread matrix''
            | _ \<Rightarrow> invalid ''thread_count is not in the exact thread matrix'') (\<lambda>threads.
     bindR (member case_members (lit ''input_sha256'')) (\<lambda>digest.
     bindR (member case_members (lit ''input_bytes'')) (\<lambda>input.
     bindR (report_guard (preflight_identity contract manifest corpus_id digest input threads metric)) (\<lambda>identity.
     bindR (member case_members (lit ''case_id'')) (\<lambda>x.
     bindR (derive_case_id c identity) (\<lambda>derived.
       if x \<noteq> JStr derived then invalid ''case_id does not match its bound identity'' else
     bindR (report_positive_integer input) (\<lambda>input_bytes.
     bindR (bindR (member case_members (lit ''candidate_archive_bytes'')) report_positive_integer) (\<lambda>archive_bytes.
     bindR (bindR (member case_members (lit ''raw_comparator_archive_bytes'')) (\<lambda>x. require_exact_size_mapping x BINDING_RAW_TOOLS)) (\<lambda>raw_sizes.
     bindR (bindR (member case_members (lit ''encrypted_comparator_archive_bytes'')) require_encrypted_sizes) (\<lambda>encrypted_sizes.
       Inr \<lparr>pc_payload = v, pc_identity = identity,
            pc_size_fingerprint = \<lparr>sf_input_sha256 = ci_input_sha256 identity, sf_input_bytes = input_bytes,
              sf_candidate_archive_bytes = archive_bytes, sf_raw_sizes = raw_sizes, sf_encrypted_sizes = encrypted_sizes\<rparr>\<rparr>)))))))))))))))))))"

definition case_coordinate :: "PreflightCase \<Rightarrow> coordinate" where
  "case_coordinate p = (ci_corpus_id (pc_identity p), ci_thread_count (pc_identity p), ci_metric (pc_identity p))"

definition case_tier :: "PreflightCase \<Rightarrow> pystr \<times> int" where
  "case_tier p = (ci_corpus_id (pc_identity p), ci_thread_count (pc_identity p))"

definition case_input :: "PreflightCase \<Rightarrow> pystr \<times> int" where
  "case_input p = (sf_input_sha256 (pc_size_fingerprint p), sf_input_bytes (pc_size_fingerprint p))"

text \<open>\<^verbatim>\<open>setdefault\<close>: the value that is there, or the one put there.\<close>

definition setdefault :: "('k \<times> 'v) list \<Rightarrow> 'k \<Rightarrow> 'v \<Rightarrow> ('k \<times> 'v) list \<times> 'v" where
  "setdefault m k v = (case map_of m k of None \<Rightarrow> (m @ [(k, v)], v) | Some w \<Rightarrow> (m, w))"

text \<open>The loop of \<^verbatim>\<open>_preflight_cases\<close> over its three dictionaries; it yields the first.\<close>

fun index_cases ::
  "(coordinate \<times> PreflightCase) list \<Rightarrow> ((pystr \<times> int) \<times> SizeFingerprint) list \<Rightarrow> (pystr \<times> pystr \<times> int) list \<Rightarrow>
   PreflightCase list \<Rightarrow> (coordinate \<times> PreflightCase) list result" where
  "index_cases by_coordinate size_by_tier input_by_corpus [] = Inr by_coordinate"
| "index_cases by_coordinate size_by_tier input_by_corpus (p # ps) =
     (if case_coordinate p \<in> fst ` set by_coordinate then invalid ''duplicate report case coordinate''
      else let (size_by_tier', previous) = setdefault size_by_tier (case_tier p) (pc_size_fingerprint p)
        in if previous \<noteq> pc_size_fingerprint p then invalid ''inconsistent input identity or size records for corpus/thread''
        else let (input_by_corpus', previous_input) = setdefault input_by_corpus (ci_corpus_id (pc_identity p)) (case_input p)
          in if previous_input \<noteq> case_input p then invalid ''inconsistent prepared input identity across corpus thread tiers''
          else index_cases (by_coordinate @ [(case_coordinate p, p)]) size_by_tier' input_by_corpus' ps)"

definition indexed_case :: "(coordinate \<times> PreflightCase) list \<Rightarrow> coordinate \<Rightarrow> PreflightCase result" where
  "indexed_case m k = (case map_of m k of None \<Rightarrow> Inl (KeyError ''coordinate'') | Some p \<Rightarrow> Inr p)"

definition preflight_cases :: "crypto \<Rightarrow> pystr \<Rightarrow> pystr \<Rightarrow> json \<Rightarrow> PreflightCase list result" where
  "preflight_cases c contract manifest v =
     bindR (report_sequence v EXPECTED_CASE_COUNT) (\<lambda>cases.
     bindR (mapR (preflight_case c contract manifest) cases) (\<lambda>preflight.
     bindR (index_cases [] [] [] preflight) (\<lambda>by_coordinate.
       if fst ` set by_coordinate \<noteq> set report_matrix then invalid ''cases do not form the exact required report matrix''
       else mapR (indexed_case by_coordinate) report_matrix)))"

section \<open>Raw evidence\<close>

abbreviation EXPECTED_EVIDENCE_COUNT :: nat where
  "EXPECTED_EVIDENCE_COUNT \<equiv> EXPECTED_CASE_COUNT * (1 + length BINDING_TOOLS) * MEASURED_RUNS"

abbreviation MAX_URL_BYTES where "MAX_URL_BYTES \<equiv> (2048 :: nat)"

definition sample_id :: "pystr \<Rightarrow> pystr \<Rightarrow> nat \<Rightarrow> pystr" where
  "sample_id case_id tool_id run_index =
     case_id @ [47] @ tool_id @ [47] @ (if run_index < 10 then [48] else []) @ decimal run_index"

definition TOOLS_WITH_CANDIDATE :: "pystr list" where
  "TOOLS_WITH_CANDIDATE = lit ''candidate'' # BINDING_TOOLS"

text \<open>\<^verbatim>\<open>[a-z0-9](?:[a-z0-9-]{0,61}[a-z0-9])?\<close>.\<close>

definition is_dns_label :: "pystr \<Rightarrow> bool" where
  "is_dns_label s \<longleftrightarrow>
     s \<noteq> [] \<and> length s \<le> 63 \<and> hd s \<noteq> 45 \<and> List.last s \<noteq> 45
     \<and> list_all (\<lambda>x. is_digit x \<or> 97 \<le> x \<and> x \<le> 122 \<or> x = 45) s"

definition canonical_url_authority :: "(pystr \<Rightarrow> pystr option) \<Rightarrow> pystr \<Rightarrow> pystr result" where
  "canonical_url_authority ip hostname =
     (if \<not> list_all (\<lambda>x. x < 128) hostname then invalid ''must be a canonical content-addressed HTTPS URL''
      else case ip hostname of
        Some authority \<Rightarrow> Inr authority
      | None \<Rightarrow>
          if hostname = [] \<or> length hostname > 253 \<or> List.last hostname = 46
             \<or> list_all (\<lambda>x. is_digit x \<or> x = 46) hostname
             \<or> \<not> list_all is_dns_label (split_on 46 hostname)
          then invalid ''must be a canonical content-addressed HTTPS URL''
          else Inr hostname)"

text \<open>\<^verbatim>\<open>.lower()\<close> of ASCII text.\<close>

definition lower_ascii :: "pystr \<Rightarrow> pystr" where
  "lower_ascii = map (\<lambda>x. if 65 \<le> x \<and> x \<le> 90 then x + 32 else x)"

text \<open>
  \<^verbatim>\<open>urlsplit(...).hostname\<close>: what stands behind the last \<^verbatim>\<open>@\<close> up to a colon, or inside brackets. Credentials, a
  port or a bracket out of place make a network location other than the authority of its host.
\<close>

definition url_hostname :: "pystr \<Rightarrow> pystr" where
  "url_hostname netloc =
     (let hostinfo = List.last (split_on 64 netloc)
      in lower_ascii
           (if 91 \<in> set hostinfo then takeWhile (\<lambda>x. x \<noteq> 93) (tl (dropWhile (\<lambda>x. x \<noteq> 91) hostinfo))
            else takeWhile (\<lambda>x. x \<noteq> 58) hostinfo))"

text \<open>\<^verbatim>\<open>urlsplit\<close> behind \<^verbatim>\<open>https://\<close>: network location, path, query and fragment.\<close>

definition split_url :: "pystr \<Rightarrow> pystr \<times> pystr \<times> pystr \<times> pystr" where
  "split_url url =
     (let netloc = takeWhile (\<lambda>x. x \<notin> {47, 63, 35}) url;
          after = dropWhile (\<lambda>x. x \<notin> {47, 63, 35}) url;
          before = takeWhile (\<lambda>x. x \<noteq> 35) after; fragment = tl (dropWhile (\<lambda>x. x \<noteq> 35) after);
          path = takeWhile (\<lambda>x. x \<noteq> 63) before; query = tl (dropWhile (\<lambda>x. x \<noteq> 63) before)
      in (netloc, path, query, fragment))"

text \<open>\<^verbatim>\<open>_URL_PATH_SEGMENT_RE\<close>, and neither \<^verbatim>\<open>.\<close> nor \<^verbatim>\<open>..\<close>.\<close>

definition is_url_segment :: "pystr \<Rightarrow> bool" where
  "is_url_segment s \<longleftrightarrow>
     s \<noteq> [] \<and> s \<notin> {[46], [46, 46]} \<and> list_all (\<lambda>x. is_alnum x \<or> x \<in> {46, 95, 126, 45}) s"

definition HTTPS :: pystr where
  "HTTPS = lit ''https://''"

definition validate_evidence_url :: "(pystr \<Rightarrow> pystr option) \<Rightarrow> json \<Rightarrow> pystr \<Rightarrow> pystr result" where
  "validate_evidence_url ip v digest =
     (case v of
        JStr s \<Rightarrow>
          if s = [] then invalid ''must be a canonical content-addressed HTTPS URL''
          else bindR (utf8_length s) (\<lambda>n.
            if n > MAX_URL_BYTES \<or> 37 \<in> set s \<or> 92 \<in> set s \<or> list_ex (\<lambda>x. is_space x \<or> x < 32 \<or> x = 127) s
               \<or> take (length HTTPS) s \<noteq> HTTPS
            then invalid ''must be a canonical content-addressed HTTPS URL''
            else let (netloc, path, query, fragment) = split_url (drop (length HTTPS) s);
                     segments = tl (split_on 47 path)
              in if query \<noteq> [] \<or> fragment \<noteq> [] then invalid ''must be a canonical content-addressed HTTPS URL''
                 else bindR (canonical_url_authority ip (url_hostname netloc)) (\<lambda>authority.
                   if netloc \<noteq> authority \<or> take 1 path \<noteq> [47] \<or> \<not> list_all is_url_segment segments
                      \<or> List.last segments \<notin> {digest, digest @ lit ''.json''}
                   then invalid ''must be a canonical content-addressed HTTPS URL'' else Inr s))
      | _ \<Rightarrow> invalid ''must be a canonical content-addressed HTTPS URL'')"

record RawEvidenceReference =
  re_sample_id :: pystr
  re_sha256 :: pystr
  re_url :: pystr

definition expected_samples :: "pystr list \<Rightarrow> pystr list" where
  "expected_samples case_ids =
     concat (map (\<lambda>case_id. concat (map (\<lambda>tool. map (sample_id case_id tool) [0..<MEASURED_RUNS]) TOOLS_WITH_CANDIDATE)) case_ids)"

definition parse_reference :: "(pystr \<Rightarrow> pystr option) \<Rightarrow> (pystr \<times> json) list \<Rightarrow> pystr \<Rightarrow> RawEvidenceReference result" where
  "parse_reference ip evidence sample =
     bindR (bindR (member evidence sample) report_object) (\<lambda>entry.
     bindR (report_keys entry [lit ''sha256'', lit ''url'']) (\<lambda>_.
     bindR (bindR (member entry (lit ''sha256'')) report_sha256) (\<lambda>digest.
     bindR (bindR (member entry (lit ''url'')) (\<lambda>x. validate_evidence_url ip x digest)) (\<lambda>url.
       Inr \<lparr>re_sample_id = sample, re_sha256 = digest, re_url = url\<rparr>))))"

definition parse_raw_evidence_index ::
  "crypto \<Rightarrow> (pystr \<Rightarrow> pystr option) \<Rightarrow> json \<Rightarrow> PreflightCase list \<Rightarrow> RawEvidenceReference list result" where
  "parse_raw_evidence_index c ip v cases =
     bindR (report_object v) (\<lambda>evidence.
     bindR (mapR (\<lambda>p. derive_case_id c (pc_identity p)) cases) (\<lambda>ids.
       let expected = expected_samples ids
       in if length evidence \<noteq> EXPECTED_EVIDENCE_COUNT \<or> fst ` set evidence \<noteq> set expected
          then invalid ''raw_evidence_index must map every and only expected run/sample''
          else mapR (parse_reference ip evidence) (sorted_list_of_set (set expected))))"

section \<open>The report\<close>

record CompetitiveReport =
  cr_contract_sha256 :: pystr
  cr_corpus_manifest_sha256 :: pystr
  cr_candidate :: CandidateIdentity
  cr_runner :: RunnerIdentity
  cr_cases :: "ScorecardCase list"
  cr_raw_evidence_index :: "RawEvidenceReference list"
  cr_scorecard_passed :: bool

definition REPORT_KEYS :: "pystr list" where
  "REPORT_KEYS =
     [lit ''schema_name'', lit ''contract_sha256'', lit ''corpus_manifest_sha256'', lit ''candidate'', lit ''runner'', lit ''cases'',
      lit ''raw_evidence_index'']"

definition evaluate_competitive_report ::
  "crypto \<Rightarrow> rounding \<Rightarrow> (pystr \<Rightarrow> pystr option) \<Rightarrow> json \<Rightarrow> CompetitiveReport result" where
  "evaluate_competitive_report c fl ip report =
     bindR (report_object report) (\<lambda>root.
     bindR (report_keys root REPORT_KEYS) (\<lambda>_.
     bindR (bindR (member root (lit ''schema_name'')) (\<lambda>x. report_literal x (lit ''report-v1''))) (\<lambda>_.
     bindR (bindR (member root (lit ''contract_sha256'')) report_sha256) (\<lambda>contract.
       if contract \<noteq> CONTRACT_SHA256 then invalid ''contract_sha256 must bind the exact Competitive Contract v1 bytes'' else
     bindR (bindR (member root (lit ''corpus_manifest_sha256'')) report_sha256) (\<lambda>manifest.
     bindR (bindR (member root (lit ''candidate'')) parse_candidate) (\<lambda>candidate.
     bindR (bindR (member root (lit ''runner'')) parse_runner) (\<lambda>runner.
     bindR (bindR (member root (lit ''cases'')) (preflight_cases c contract manifest)) (\<lambda>preflight.
     bindR (bindR (member root (lit ''raw_evidence_index'')) (\<lambda>x. parse_raw_evidence_index c ip x preflight)) (\<lambda>evidence.
     bindR (mapR (\<lambda>p. report_guard (evaluate_scorecard_case c fl (pc_payload p))) preflight) (\<lambda>cases.
       Inr \<lparr>cr_contract_sha256 = contract, cr_corpus_manifest_sha256 = manifest, cr_candidate = candidate, cr_runner = runner,
            cr_cases = cases, cr_raw_evidence_index = evidence,
            cr_scorecard_passed = (length cases = EXPECTED_CASE_COUNT \<and> list_all sc_passed cases)\<rparr>))))))))))"

section \<open>What an accepted matrix is\<close>

lemma mapR_projr: "mapR f xs = Inr ys \<longleftrightarrow> (\<forall>x \<in> set xs. isl (f x) = False) \<and> ys = map (\<lambda>x. projr (f x)) xs"
proof (induction xs arbitrary: ys)
  case (Cons x xs)
  then show ?case by (cases "f x") (auto simp: result_simps)
qed auto

text \<open>A dictionary that maps the keys of the cases seen to their values.\<close>

definition collects :: "('p \<Rightarrow> 'k) \<Rightarrow> ('p \<Rightarrow> 'v) \<Rightarrow> ('k \<times> 'v) list \<Rightarrow> 'p list \<Rightarrow> bool" where
  "collects key val m seen \<longleftrightarrow> (\<forall>k v. map_of m k = Some v \<longleftrightarrow> (\<exists>p \<in> set seen. key p = k \<and> val p = v))"

definition agree :: "('p \<Rightarrow> 'k) \<Rightarrow> ('p \<Rightarrow> 'v) \<Rightarrow> 'p list \<Rightarrow> bool" where
  "agree key val ps \<longleftrightarrow> (\<forall>p \<in> set ps. \<forall>q \<in> set ps. key p = key q \<longrightarrow> val p = val q)"

lemma agreeD: "agree key val ps \<Longrightarrow> p \<in> set ps \<Longrightarrow> q \<in> set ps \<Longrightarrow> key p = key q \<Longrightarrow> val p = val q"
  unfolding agree_def by blast

lemma agree_snoc:
  assumes "agree key val seen"
  shows "agree key val (seen @ [p]) \<longleftrightarrow> (\<forall>q \<in> set seen. key q = key p \<longrightarrow> val q = val p)"
proof
  assume all: "agree key val (seen @ [p])"
  show "\<forall>q \<in> set seen. key q = key p \<longrightarrow> val q = val p"
    by (intro ballI impI) (rule agreeD[OF all], simp_all)
next
  assume new: "\<forall>q \<in> set seen. key q = key p \<longrightarrow> val q = val p"
  have pair: "val a = val b" if "a = p \<or> a \<in> set seen" "b = p \<or> b \<in> set seen" "key a = key b" for a b
    using that(1)
  proof
    assume "a = p"
    from that(2) show ?thesis
    proof
      assume "b = p"
      then show ?thesis using \<open>a = p\<close> by blast
    next
      assume "b \<in> set seen"
      then have "val b = val p" using new that(3) unfolding \<open>a = p\<close> by (blast intro: sym)
      then show ?thesis unfolding \<open>a = p\<close> by (rule sym)
    qed
  next
    assume a: "a \<in> set seen"
    from that(2) show ?thesis
    proof
      assume "b = p"
      then show ?thesis using new a that(3) by blast
    next
      assume "b \<in> set seen"
      then show ?thesis by (rule agreeD[OF assms a _ that(3)])
    qed
  qed
  show "agree key val (seen @ [p])"
    unfolding agree_def
  proof (intro ballI impI)
    fix a b assume "a \<in> set (seen @ [p])" "b \<in> set (seen @ [p])" and key: "key a = key b"
    then have "a = p \<or> a \<in> set seen" "b = p \<or> b \<in> set seen" by auto
    then show "val a = val b" using key by (rule pair)
  qed
qed

lemma collects_agree: "collects key val m seen \<Longrightarrow> agree key val seen"
proof -
  assume c: "collects key val m seen"
  have "map_of m (key p) = Some (val p)" if "p \<in> set seen" for p using c that by (auto simp: collects_def)
  then show ?thesis unfolding agree_def by (metis option.inject)
qed

lemma setdefault_collects:
  assumes "collects key val m seen" and "setdefault m (key p) (val p) = (m', v)"
  shows "v = val p \<longleftrightarrow> agree key val (seen @ [p])"
    and "v = val p \<Longrightarrow> collects key val m' (seen @ [p])"
proof -
  have all: "map_of m k = Some w \<longleftrightarrow> (\<exists>q \<in> set seen. key q = k \<and> val q = w)" for k w
    using assms(1) by (simp add: collects_def)
  have none: "map_of m k = None \<longleftrightarrow> (\<forall>q \<in> set seen. key q \<noteq> k)" for k
  proof (cases "map_of m k")
    case None
    have "key q \<noteq> k" if "q \<in> set seen" for q using all[of "key q" "val q"] None that by fastforce
    then show ?thesis using None by blast
  next
    case (Some w)
    then have "\<exists>q \<in> set seen. key q = k" using all[of k w] by blast
    then show ?thesis using Some by simp
  qed
  have parts: "agree key val (seen @ [p]) \<longleftrightarrow> (\<forall>q \<in> set seen. key q = key p \<longrightarrow> val q = val p)"
    by (rule agree_snoc[OF collects_agree[OF assms(1)]])
  show "v = val p \<longleftrightarrow> agree key val (seen @ [p])"
  proof (cases "map_of m (key p)")
    case None
    then have "v = val p" using assms(2) by (simp add: setdefault_def)
    moreover have "\<forall>q \<in> set seen. key q \<noteq> key p" using None none by blast
    ultimately show ?thesis using parts by blast
  next
    case (Some w)
    then have "v = w" using assms(2) by (simp add: setdefault_def)
    then show ?thesis using Some all[of "key p"] parts by (metis option.inject)
  qed
  show "collects key val m' (seen @ [p])" if "v = val p"
  proof (cases "map_of m (key p)")
    case None
    then have "m' = m @ [(key p, val p)]" using assms(2) by (auto simp: setdefault_def)
    then have lookup: "map_of m' k = (if k = key p then Some (val p) else map_of m k)" for k
      using None by (auto simp: map_add_def split: option.splits)
    have fresh: "\<forall>q \<in> set seen. key q \<noteq> key p" using None none by blast
    show ?thesis
      unfolding collects_def lookup
    proof (intro allI)
      fix k w
      show "(if k = key p then Some (val p) else map_of m k) = Some w \<longleftrightarrow> (\<exists>q \<in> set (seen @ [p]). key q = k \<and> val q = w)"
        by (cases "k = key p") (use fresh all[of k w] in auto)
    qed
  next
    case (Some w)
    then have "m' = m" "w = val p" using assms(2) that by (simp_all add: setdefault_def)
    then show ?thesis using Some all by (auto simp: collects_def)
  qed
qed

lemma agree_prefix: "agree key val (xs @ ys) \<Longrightarrow> agree key val xs"
  by (auto simp: agree_def)

definition indexed :: "PreflightCase list \<Rightarrow> (coordinate \<times> PreflightCase) list" where
  "indexed ps = map (\<lambda>p. (case_coordinate p, p)) ps"

definition consistent :: "PreflightCase list \<Rightarrow> bool" where
  "consistent ps \<longleftrightarrow>
     distinct (map case_coordinate ps) \<and> agree case_tier pc_size_fingerprint ps
     \<and> agree (\<lambda>p. ci_corpus_id (pc_identity p)) case_input ps"

text \<open>The loop accepts exactly the consistent lists of cases.\<close>

lemma index_cases_from:
  assumes "collects case_tier pc_size_fingerprint tiers seen"
    and "collects (\<lambda>p. ci_corpus_id (pc_identity p)) case_input inputs seen"
    and "distinct (map case_coordinate seen)"
  shows "index_cases (indexed seen) tiers inputs ps = Inr m \<longleftrightarrow> m = indexed (seen @ ps) \<and> consistent (seen @ ps)"
  using assms
proof (induction ps arbitrary: seen tiers inputs)
  case Nil
  then show ?case by (auto simp: consistent_def collects_agree)
next
  case (Cons p ps)
  obtain tiers' v where t: "setdefault tiers (case_tier p) (pc_size_fingerprint p) = (tiers', v)" using prod.exhaust by blast
  obtain inputs' w where i: "setdefault inputs (ci_corpus_id (pc_identity p)) (case_input p) = (inputs', w)" using prod.exhaust by blast
  note tier = setdefault_collects[OF Cons.prems(1) t]
  note input = setdefault_collects[where key = "\<lambda>p. ci_corpus_id (pc_identity p)", OF Cons.prems(2) i]
  have keys: "fst ` set (indexed seen) = set (map case_coordinate seen)" by (force simp: indexed_def)
  have more: "indexed seen @ [(case_coordinate p, p)] = indexed (seen @ [p])" by (simp add: indexed_def)
  have prefix: "consistent (seen @ p # ps) \<Longrightarrow> consistent (seen @ [p])"
    using agree_prefix[of case_tier pc_size_fingerprint "seen @ [p]" ps]
      agree_prefix[of "\<lambda>p. ci_corpus_id (pc_identity p)" case_input "seen @ [p]" ps] by (auto simp: consistent_def)
  show ?case
  proof (cases "consistent (seen @ [p])")
    case True
    then have ok: "v = pc_size_fingerprint p" "w = case_input p" "case_coordinate p \<notin> set (map case_coordinate seen)"
      using tier(1) input(1) by (auto simp: consistent_def)
    have "index_cases (indexed (seen @ [p])) tiers' inputs' ps = Inr m
      \<longleftrightarrow> m = indexed ((seen @ [p]) @ ps) \<and> consistent ((seen @ [p]) @ ps)"
      using Cons.IH[OF tier(2)[OF ok(1)] input(2)[OF ok(2)]] True by (simp add: consistent_def)
    then show ?thesis using ok t i keys more by simp
  next
    case False
    then have "case_coordinate p \<in> set (map case_coordinate seen) \<or> v \<noteq> pc_size_fingerprint p \<or> w \<noteq> case_input p"
      using tier(1) input(1) Cons.prems(3) by (auto simp: consistent_def)
    then have "index_cases (indexed seen) tiers inputs (p # ps) \<noteq> Inr m"
      using t i keys by (auto simp: Let_def)
    then show ?thesis using False prefix by blast
  qed
qed

lemma index_cases_eq: "index_cases [] [] [] ps = Inr m \<longleftrightarrow> m = indexed ps \<and> consistent ps"
  using index_cases_from[of "[]" "[]" "[]" ps m] by (simp add: collects_def indexed_def)

lemma map_of_indexed:
  assumes "distinct (map case_coordinate ps)"
  shows "map_of (indexed ps) k = Some p \<longleftrightarrow> p \<in> set ps \<and> case_coordinate p = k"
proof -
  have "distinct (map fst (indexed ps))" using assms by (simp add: indexed_def o_def)
  then show ?thesis by (simp add: map_of_eq_Some_iff) (auto simp: indexed_def)
qed

text \<open>A consistent list over the matrix, in the order of the matrix.\<close>

lemma matrix_order:
  assumes "consistent ps" and "case_coordinate ` set ps = set report_matrix" and "distinct report_matrix"
    and "mapR (indexed_case (indexed ps)) report_matrix = Inr rs"
  shows "map case_coordinate rs = report_matrix" and "mset rs = mset ps"
proof -
  have keys: "distinct (map case_coordinate ps)" using assms(1) by (simp add: consistent_def)
  have pairs: "list_all2 (\<lambda>k r. r \<in> set ps \<and> case_coordinate r = k) report_matrix rs"
    using assms(4) unfolding mapR_Inr_iff
    by (rule list_all2_mono) (auto simp: indexed_case_def map_of_indexed[OF keys] split: option.splits)
  then show order: "map case_coordinate rs = report_matrix"
    by (auto simp: list_all2_conv_all_nth intro!: nth_equalityI)
  have "set rs \<subseteq> set ps" using pairs by (auto simp: list_all2_conv_all_nth in_set_conv_nth)
  moreover have "set ps \<subseteq> set rs"
  proof
    fix p assume p: "p \<in> set ps"
    then have "case_coordinate p \<in> set report_matrix" using assms(2) by blast
    then obtain r where r: "r \<in> set rs" "case_coordinate r = case_coordinate p"
      unfolding order[symmetric] by auto
    then show "p \<in> set rs" using p keys \<open>set rs \<subseteq> set ps\<close> by (auto simp: distinct_map inj_on_def)
  qed
  moreover have "distinct rs" using assms(3) order by (metis distinct_map)
  moreover have "distinct ps" using keys by (simp add: distinct_map)
  ultimately show "mset rs = mset ps" by (metis set_eq_iff_mset_eq_distinct subset_antisym)
qed

lemma preflight_case_payload: "preflight_case c contract manifest v = Inr p \<Longrightarrow> pc_payload p = v"
  by (auto simp: preflight_case_def result_simps split: if_splits)

lemma matrix_distinct: "distinct report_matrix"
proof -
  have corpora: "distinct REQUIRED_CORPUS_IDS" and metrics: "distinct METRICS"
    by (simp_all add: REQUIRED_CORPUS_IDS_def METRICS_def MEMORY_METRICS_def lit_def)
  have row: "distinct (concat (map (\<lambda>threads. map (\<lambda>metric. (corpus, threads, metric)) METRICS) THREAD_TIERS))" for corpus :: pystr
    using metrics by (auto simp: THREAD_TIERS_def distinct_map inj_on_def)
  have "distinct (concat (map (\<lambda>corpus. concat (map (\<lambda>threads. map (\<lambda>metric. (corpus, threads, metric)) METRICS) THREAD_TIERS)) xs))"
    if "distinct xs" for xs :: "pystr list"
    using that row by (induction xs) auto
  then show ?thesis using corpora by (simp add: report_matrix_def)
qed

lemma consistent_permuted:
  assumes "mset qs = mset ps"
  shows "consistent qs \<longleftrightarrow> consistent ps"
proof -
  have same: "set qs = set ps" using assms by (rule mset_eq_setD)
  have "distinct (map case_coordinate qs) \<longleftrightarrow> distinct (map case_coordinate ps)"
    by (rule mset_eq_imp_distinct_iff) (simp add: assms)
  then show ?thesis unfolding consistent_def agree_def same by simp
qed

lemma indexed_case_permuted:
  assumes "mset qs = mset ps" and "consistent ps"
  shows "indexed_case (indexed qs) = indexed_case (indexed ps)"
proof
  fix k
  have "set qs = set ps" using assms(1) by (rule mset_eq_setD)
  moreover have "consistent qs" using consistent_permuted[OF assms(1)] assms(2) by blast
  then have "distinct (map case_coordinate qs)" unfolding consistent_def by blast
  moreover have "distinct (map case_coordinate ps)" using assms(2) unfolding consistent_def by blast
  ultimately have eq: "map_of (indexed qs) k = Some p \<longleftrightarrow> map_of (indexed ps) k = Some p" for p
    by (simp add: map_of_indexed)
  have "map_of (indexed qs) k = map_of (indexed ps) k"
  proof (cases "map_of (indexed ps) k")
    case None
    then have "map_of (indexed qs) k \<noteq> Some p" for p using eq by simp
    then show ?thesis using None by (cases "map_of (indexed qs) k") auto
  next
    case (Some p)
    then show ?thesis using eq by simp
  qed
  then show "indexed_case (indexed qs) k = indexed_case (indexed ps) k" by (simp add: indexed_case_def)
qed

lemma preflight_cases_eq:
  "preflight_cases c contract manifest (JList vs) = Inr ps \<longleftrightarrow>
     length vs = EXPECTED_CASE_COUNT
     \<and> (\<exists>pre. mapR (preflight_case c contract manifest) vs = Inr pre \<and> consistent pre
          \<and> case_coordinate ` set pre = set report_matrix \<and> mapR (indexed_case (indexed pre)) report_matrix = Inr ps)"
proof -
  have keys: "fst ` set (indexed pre) = case_coordinate ` set pre" for pre by (force simp: indexed_def)
  show ?thesis
    by (auto simp: preflight_cases_def report_sequence_def result_simps index_cases_eq keys)
qed

lemma preflight_matrix:
  assumes "preflight_cases c contract manifest (JList vs) = Inr ps"
  shows "map case_coordinate ps = report_matrix" and "mset (map pc_payload ps) = mset vs"
    and "agree case_tier pc_size_fingerprint ps" and "agree (\<lambda>p. ci_corpus_id (pc_identity p)) case_input ps"
proof -
  obtain pre where pre: "mapR (preflight_case c contract manifest) vs = Inr pre" "consistent pre"
      "case_coordinate ` set pre = set report_matrix" "mapR (indexed_case (indexed pre)) report_matrix = Inr ps"
    using assms by (auto simp: preflight_cases_eq)
  note order = matrix_order[OF pre(2,3) matrix_distinct pre(4)]
  show "map case_coordinate ps = report_matrix" by (rule order(1))
  have "map pc_payload pre = vs"
    using pre(1) unfolding mapR_Inr_iff by (induction rule: list_all2_induct) (auto dest: preflight_case_payload)
  then show "mset (map pc_payload ps) = mset vs" using order(2) by (metis mset_map)
  have "consistent ps" using consistent_permuted[OF order(2)] pre(2) by blast
  then show "agree case_tier pc_size_fingerprint ps" "agree (\<lambda>p. ci_corpus_id (pc_identity p)) case_input ps"
    by (simp_all add: consistent_def)
qed

lemma preflight_permuted:
  assumes "preflight_cases c contract manifest (JList vs) = Inr ps" and "mset ws = mset vs"
  shows "preflight_cases c contract manifest (JList ws) = Inr ps"
proof -
  obtain pre where pre: "mapR (preflight_case c contract manifest) vs = Inr pre" "consistent pre"
      "case_coordinate ` set pre = set report_matrix" "mapR (indexed_case (indexed pre)) report_matrix = Inr ps"
      "length vs = EXPECTED_CASE_COUNT"
    using assms(1) by (auto simp: preflight_cases_eq)
  define qs where "qs = map (\<lambda>v. projr (preflight_case c contract manifest v)) ws"
  have same: "set ws = set vs" using assms(2) by (rule mset_eq_setD)
  have qs: "mapR (preflight_case c contract manifest) ws = Inr qs"
    using pre(1) same unfolding mapR_projr qs_def by simp
  have perm: "mset qs = mset pre"
    using pre(1) assms(2) unfolding mapR_projr qs_def by (metis mset_map)
  have "mapR (indexed_case (indexed qs)) report_matrix = Inr ps"
    unfolding indexed_case_permuted[OF perm pre(2)] by (rule pre(4))
  moreover have "length ws = EXPECTED_CASE_COUNT" using mset_eq_length[OF assms(2)] pre(5) by simp
  moreover have "consistent qs" using consistent_permuted[OF perm] pre(2) by blast
  moreover have "case_coordinate ` set qs = set report_matrix" using mset_eq_setD[OF perm] pre(3) by simp
  ultimately show ?thesis unfolding preflight_cases_eq using qs by blast
qed

section \<open>An accepted matrix\<close>

text \<open>The cases of a report with equal sizes throughout, under the digest of zeros.\<close>

definition case_at :: "coordinate \<Rightarrow> CaseIdentity" where
  "case_at = (\<lambda>(corpus, threads, metric).
     example_identity\<lparr>ci_corpus_id := corpus, ci_thread_count := threads, ci_metric := metric\<rparr>)"

definition report_case :: "coordinate \<Rightarrow> json" where
  "report_case = (\<lambda>(corpus, threads, metric). JObj
     [(lit ''case_id'', JStr (CASE_ID_PREFIX @ replicate 64 48)), (lit ''contract_sha256'', JStr CONTRACT_SHA256),
      (lit ''corpus_manifest_sha256'', JStr (replicate 64 48)), (lit ''corpus_id'', JStr corpus),
      (lit ''input_sha256'', JStr (replicate 64 97)), (lit ''thread_count'', JInt threads),
      (lit ''metric'', JStr metric), (lit ''input_bytes'', JInt MINIMUM_INPUT_BYTES),
      (lit ''candidate_archive_bytes'', JInt 1000), (lit ''candidate_samples'', sample_list 1),
      (lit ''comparator_samples'', JObj (map (\<lambda>i. (i, sample_list 2)) BINDING_TOOLS)),
      (lit ''raw_comparator_archive_bytes'', example_raw_sizes),
      (lit ''encrypted_comparator_archive_bytes'', example_encrypted_sizes)])"

definition report_fingerprint :: SizeFingerprint where
  "report_fingerprint =
     \<lparr>sf_input_sha256 = replicate 64 97, sf_input_bytes = MINIMUM_INPUT_BYTES, sf_candidate_archive_bytes = 1000,
      sf_raw_sizes = [(lit ''7zip_raw'', 2100), (lit ''zstd_raw'', 2000)],
      sf_encrypted_sizes = [(lit ''7zip_aes256_headers'', replicate 11 3000), (lit ''zstd_age_passphrase'', replicate 11 2900)]\<rparr>"

lemma matrix_members:
  "(corpus, threads, metric) \<in> set report_matrix \<longleftrightarrow>
     corpus \<in> set REQUIRED_CORPUS_IDS \<and> threads \<in> set THREAD_TIERS \<and> metric \<in> set METRICS"
  by (auto simp: report_matrix_def)

lemma corpora_valid:
  assumes "corpus \<in> set REQUIRED_CORPUS_IDS"
  shows "corpus_id_from False corpus" and "list_all (\<lambda>x. x < 128) corpus" and "length corpus \<le> MAX_CORPUS_ID_BYTES"
proof -
  have "list_all (\<lambda>s. corpus_id_from False s \<and> list_all (\<lambda>x. x < 128) s \<and> length s \<le> MAX_CORPUS_ID_BYTES) REQUIRED_CORPUS_IDS"
    by (simp add: REQUIRED_CORPUS_IDS_def lit_def)
  then show "corpus_id_from False corpus" "list_all (\<lambda>x. x < 128) corpus" "length corpus \<le> MAX_CORPUS_ID_BYTES"
    using assms by (simp_all add: list_all_iff)
qed

lemma metrics_valid:
  assumes "metric \<in> set METRICS"
  shows "list_all (\<lambda>x. x < 128) metric" and "length metric < 2 ^ 32"
proof -
  have "list_all (\<lambda>s. list_all (\<lambda>x. x < 128) s \<and> length s < 2 ^ 32) METRICS"
    by (simp add: METRICS_def MEMORY_METRICS_def lit_def)
  then show "list_all (\<lambda>x. x < 128) metric" "length metric < 2 ^ 32" using assms by (simp_all add: list_all_iff)
qed

lemma case_at_valid:
  assumes "(corpus, threads, metric) \<in> set report_matrix"
  shows "validate_case_identity (case_at (corpus, threads, metric)) = Inr ()"
proof -
  have parts: "corpus \<in> set REQUIRED_CORPUS_IDS" "threads \<in> {1, 8}" "metric \<in> set METRICS"
    using assms by (auto simp: matrix_members THREAD_TIERS_def)
  have "utf8_encode corpus = Inr (map of_nat corpus)" by (rule utf8_encode_ascii[OF corpora_valid(2)[OF parts(1)]])
  then show ?thesis
    using parts corpora_valid(1,3)[OF parts(1)] example_literals
    by (simp add: validate_case_identity_def require_sha256_def case_at_def example_identity_def)
qed

lemma case_at_id:
  assumes "(corpus, threads, metric) \<in> set report_matrix"
  shows "derive_case_id zero_digest (case_at (corpus, threads, metric)) = Inr (CASE_ID_PREFIX @ replicate 64 48)"
proof -
  have parts: "corpus \<in> set REQUIRED_CORPUS_IDS" "threads \<in> {1, 8}" "metric \<in> set METRICS"
    using assms by (auto simp: matrix_members THREAD_TIERS_def)
  let ?fields = "[CONTRACT_SHA256, replicate 64 48, corpus, replicate 64 97, lit ''67108864'', decimal_int threads, metric]"
  have fields: "case_identity_fields (case_at (corpus, threads, metric)) = Inr ?fields"
    using case_at_valid[OF assms] decimal_input(1) by (simp add: case_identity_fields_def case_at_def example_identity_def)
  have "list_all (\<lambda>x. x < 128) (decimal_int threads) \<and> length (decimal_int threads) < 2 ^ 32"
    using parts(2) decimal_input by (auto simp: lit_def)
  then have "list_all (\<lambda>v. list_all (\<lambda>x. x < 128) v \<and> length v < 2 ^ 32) (CASE_ID_DOMAIN # ?fields)"
    using corpora_valid(2,3)[OF parts(1)] metrics_valid[OF parts(3)]
    by (simp add: CONTRACT_SHA256_def CASE_ID_DOMAIN_def lit_def list_all_iff)
  then obtain m where "case_material (case_at (corpus, threads, metric)) = Inr m"
    using length_prefixed_ascii unfolding case_material_def fields bindR_simps by blast
  moreover have "hexdigest (replicate 32 0) = replicate 64 48" by code_simp
  ultimately show ?thesis by (simp add: derive_case_id_def zero_digest_def)
qed

lemma report_sizes:
  "require_exact_size_mapping example_raw_sizes BINDING_RAW_TOOLS = Inr [(lit ''7zip_raw'', 2100), (lit ''zstd_raw'', 2000)]"
  "require_encrypted_sizes example_encrypted_sizes
     = Inr [(lit ''7zip_aes256_headers'', replicate 11 3000), (lit ''zstd_age_passphrase'', replicate 11 2900)]"
proof -
  have distinct: "lit ''zstd_raw'' \<noteq> lit ''7zip_raw''" "lit ''zstd_age_passphrase'' \<noteq> lit ''7zip_aes256_headers''"
    by (simp_all add: lit_def)
  have samples: "mapR report_positive_integer (replicate 11 (JInt n)) = Inr (replicate 11 n)" if "0 < n" for n
    using that by (simp add: numeral_eq_Suc report_positive_integer_def)
  show "require_exact_size_mapping example_raw_sizes BINDING_RAW_TOOLS = Inr [(lit ''7zip_raw'', 2100), (lit ''zstd_raw'', 2000)]"
    by (simp add: require_exact_size_mapping_def example_raw_sizes_def report_keys_def BINDING_RAW_TOOLS_def member_def
        report_positive_integer_def distinct)
  show "require_encrypted_sizes example_encrypted_sizes
     = Inr [(lit ''7zip_aes256_headers'', replicate 11 3000), (lit ''zstd_age_passphrase'', replicate 11 2900)]"
    by (simp add: require_encrypted_sizes_def example_encrypted_sizes_def report_keys_def BINDING_ENCRYPTED_TOOLS_def member_def
        report_sequence_def sample_list_def samples distinct)
qed

lemma report_case_members:
  "\<exists>members. report_case (corpus, threads, metric) = JObj members \<and> fst ` set members = set SCORECARD_CASE_KEYS
     \<and> member members (lit ''case_id'') = Inr (JStr (CASE_ID_PREFIX @ replicate 64 48))
     \<and> member members (lit ''contract_sha256'') = Inr (JStr CONTRACT_SHA256)
     \<and> member members (lit ''corpus_manifest_sha256'') = Inr (JStr (replicate 64 48))
     \<and> member members (lit ''corpus_id'') = Inr (JStr corpus)
     \<and> member members (lit ''input_sha256'') = Inr (JStr (replicate 64 97))
     \<and> member members (lit ''thread_count'') = Inr (JInt threads)
     \<and> member members (lit ''metric'') = Inr (JStr metric)
     \<and> member members (lit ''input_bytes'') = Inr (JInt MINIMUM_INPUT_BYTES)
     \<and> member members (lit ''candidate_archive_bytes'') = Inr (JInt 1000)
     \<and> member members (lit ''raw_comparator_archive_bytes'') = Inr example_raw_sizes
     \<and> member members (lit ''encrypted_comparator_archive_bytes'') = Inr example_encrypted_sizes"
proof -
  obtain members where p: "report_case (corpus, threads, metric) = JObj members" by (simp add: report_case_def)
  note p' = p[unfolded report_case_def prod.case json.inject, symmetric]
  have "fst ` set members = set SCORECARD_CASE_KEYS" by (simp add: p' SCORECARD_CASE_KEYS_def)
  moreover have "member members (lit ''case_id'') = Inr (JStr (CASE_ID_PREFIX @ replicate 64 48))"
    "member members (lit ''contract_sha256'') = Inr (JStr CONTRACT_SHA256)"
    "member members (lit ''corpus_manifest_sha256'') = Inr (JStr (replicate 64 48))"
    "member members (lit ''corpus_id'') = Inr (JStr corpus)"
    "member members (lit ''input_sha256'') = Inr (JStr (replicate 64 97))"
    "member members (lit ''thread_count'') = Inr (JInt threads)"
    "member members (lit ''metric'') = Inr (JStr metric)"
    "member members (lit ''input_bytes'') = Inr (JInt MINIMUM_INPUT_BYTES)"
    "member members (lit ''candidate_archive_bytes'') = Inr (JInt 1000)"
    "member members (lit ''raw_comparator_archive_bytes'') = Inr example_raw_sizes"
    "member members (lit ''encrypted_comparator_archive_bytes'') = Inr example_encrypted_sizes"
    by (simp_all add: member_def p' lit_def)
  ultimately show ?thesis using p by blast
qed

definition preflighted :: "coordinate \<Rightarrow> PreflightCase" where
  "preflighted k = \<lparr>pc_payload = report_case k, pc_identity = case_at k, pc_size_fingerprint = report_fingerprint\<rparr>"

lemma report_case_preflight:
  assumes "k \<in> set report_matrix"
  shows "preflight_case zero_digest CONTRACT_SHA256 (replicate 64 48) (report_case k) = Inr (preflighted k)"
proof -
  obtain corpus threads metric where k: "k = (corpus, threads, metric)" by (rule prod_cases3)
  have parts: "corpus \<in> set REQUIRED_CORPUS_IDS" "threads \<in> set THREAD_TIERS" "metric \<in> set METRICS"
    using assms k by (simp_all add: matrix_members)
  obtain members where p: "report_case (corpus, threads, metric) = JObj members"
      "fst ` set members = set SCORECARD_CASE_KEYS"
      "member members (lit ''case_id'') = Inr (JStr (CASE_ID_PREFIX @ replicate 64 48))"
      "member members (lit ''contract_sha256'') = Inr (JStr CONTRACT_SHA256)"
      "member members (lit ''corpus_manifest_sha256'') = Inr (JStr (replicate 64 48))"
      "member members (lit ''corpus_id'') = Inr (JStr corpus)"
      "member members (lit ''input_sha256'') = Inr (JStr (replicate 64 97))"
      "member members (lit ''thread_count'') = Inr (JInt threads)"
      "member members (lit ''metric'') = Inr (JStr metric)"
      "member members (lit ''input_bytes'') = Inr (JInt MINIMUM_INPUT_BYTES)"
      "member members (lit ''candidate_archive_bytes'') = Inr (JInt 1000)"
      "member members (lit ''raw_comparator_archive_bytes'') = Inr example_raw_sizes"
      "member members (lit ''encrypted_comparator_archive_bytes'') = Inr example_encrypted_sizes"
    using report_case_members by blast
  have identity: "preflight_identity CONTRACT_SHA256 (replicate 64 48) corpus (JStr (replicate 64 97))
      (JInt MINIMUM_INPUT_BYTES) threads metric = Inr (case_at (corpus, threads, metric))"
    using case_at_valid[of corpus threads metric] assms k example_literals(3)
    by (simp add: preflight_identity_def require_sha256_def case_at_def example_identity_def)
  have digest: "ci_input_sha256 (case_at (corpus, threads, metric)) = replicate 64 97"
    by (simp add: case_at_def example_identity_def)
  have id: "derive_case_id zero_digest (case_at (corpus, threads, metric)) = Inr (CASE_ID_PREFIX @ replicate 64 48)"
    by (rule case_at_id) (use assms k in simp)
  show ?thesis
    unfolding preflight_case_def k p(1) report_object.simps bindR_simps report_keys_def preflighted_def
    using p(2-) parts identity digest id report_sizes
    by (simp add: report_guard_def report_positive_integer_def report_fingerprint_def)
qed

lemma preflighted_matrix:
  "mapR (preflight_case zero_digest CONTRACT_SHA256 (replicate 64 48)) (map report_case report_matrix)
     = Inr (map preflighted report_matrix)"
  by (rule mapR_map_total) (rule report_case_preflight)

lemma preflighted_coordinate: "case_coordinate (preflighted k) = k"
  by (cases k) (simp add: case_coordinate_def preflighted_def case_at_def)

lemma preflighted_consistent: "consistent (map preflighted report_matrix)"
proof -
  have input: "case_input (preflighted k) = (replicate 64 97, MINIMUM_INPUT_BYTES)" for k
    by (simp add: case_input_def preflighted_def report_fingerprint_def)
  have "pc_size_fingerprint (preflighted k) = report_fingerprint" for k by (simp add: preflighted_def)
  then show ?thesis using matrix_distinct by (auto simp: consistent_def agree_def o_def preflighted_coordinate input)
qed

lemma matrix_preflight:
  "preflight_cases zero_digest CONTRACT_SHA256 (replicate 64 48) (JList (map report_case report_matrix))
     = Inr (map preflighted report_matrix)"
proof -
  let ?ps = "map preflighted report_matrix"
  have keys: "distinct (map case_coordinate ?ps)" using preflighted_consistent by (simp add: consistent_def)
  have "indexed_case (indexed ?ps) k = Inr (preflighted k)" if "k \<in> set report_matrix" for k
    using that map_of_indexed[OF keys, of k "preflighted k"] by (simp add: indexed_case_def preflighted_coordinate)
  then have "mapR (indexed_case (indexed ?ps)) report_matrix = Inr ?ps" by (rule mapR_total)
  moreover have "case_coordinate ` set ?ps = set report_matrix" by (simp add: image_image preflighted_coordinate)
  moreover have "length (map report_case report_matrix) = EXPECTED_CASE_COUNT"
    by (simp add: report_matrix_def EXPECTED_CASE_COUNT_def REQUIRED_CORPUS_IDS_def THREAD_TIERS_def)
  ultimately show ?thesis unfolding preflight_cases_eq using preflighted_matrix preflighted_consistent by blast
qed

section \<open>Evidence URLs\<close>

lemma split_url_parts:
  assumes "split_url url = (netloc, path, [], [])"
  shows "url \<in> {netloc @ path, netloc @ path @ [63], netloc @ path @ [35], netloc @ path @ [63, 35]}"
proof -
  let ?after = "dropWhile (\<lambda>x. x \<notin> {47, 63, 35}) url"
  let ?before = "takeWhile (\<lambda>x. x \<noteq> 35) ?after"
  have parts: "netloc = takeWhile (\<lambda>x. x \<notin> {47, 63, 35}) url" "path = takeWhile (\<lambda>x. x \<noteq> 63) ?before"
    "tl (dropWhile (\<lambda>x. x \<noteq> 35) ?after) = []" "tl (dropWhile (\<lambda>x. x \<noteq> 63) ?before) = []"
    using assms by (simp_all add: split_url_def Let_def)
  have url: "url = netloc @ ?before @ dropWhile (\<lambda>x. x \<noteq> 35) ?after" and before: "?before = path @ dropWhile (\<lambda>x. x \<noteq> 63) ?before"
    unfolding parts(1,2) takeWhile_dropWhile_id by simp_all
  have last_mark: "dropWhile (\<lambda>x. x \<noteq> c) r \<in> {[], [c]}" if "tl (dropWhile (\<lambda>x. x \<noteq> c) r) = []" for c :: nat and r
  proof (cases "dropWhile (\<lambda>x. x \<noteq> c) r")
    case (Cons x xs)
    then have "x = c" using hd_dropWhile[of "\<lambda>x. x \<noteq> c" r] by simp
    then show ?thesis using Cons that by simp
  qed simp
  obtain f where f: "dropWhile (\<lambda>x. x \<noteq> 35) ?after = f" "f \<in> {[], [35]}" using last_mark[OF parts(3)] by blast
  obtain q where q: "dropWhile (\<lambda>x. x \<noteq> 63) ?before = q" "q \<in> {[], [63]}" using last_mark[OF parts(4)] by blast
  have "url = netloc @ (path @ q) @ f" using url before unfolding f(1) q(1) by argo
  then show ?thesis using f(2) q(2) by auto
qed

text \<open>An accepted URL is the digest below a host of its own, up to an empty query and fragment.\<close>

lemma accepted_url:
  assumes "validate_evidence_url ip v digest = Inr url"
  obtains netloc path segments extra where "v = JStr url" and "url = HTTPS @ netloc @ path @ extra"
    and "extra \<in> {[], [63], [35], [63, 35]}" and "canonical_url_authority ip (url_hostname netloc) = Inr netloc"
    and "segments = tl (split_on 47 path)" and "take 1 path = [47]" and "list_all is_url_segment segments"
    and "List.last segments \<in> {digest, digest @ lit ''.json''}"
proof -
  obtain s where v: "v = JStr s" using assms by (cases v) (auto simp: validate_evidence_url_def)
  obtain netloc path query fragment where split: "split_url (drop (length HTTPS) s) = (netloc, path, query, fragment)"
    by (rule prod_cases4)
  have facts: "url = s" "take (length HTTPS) s = HTTPS" "query = []" "fragment = []"
    "canonical_url_authority ip (url_hostname netloc) = Inr netloc" "take 1 path = [47]"
    "list_all is_url_segment (tl (split_on 47 path))" "List.last (tl (split_on 47 path)) \<in> {digest, digest @ lit ''.json''}"
    using assms unfolding v validate_evidence_url_def json.case bindR_eq_Inr
    by (auto simp: split Let_def bindR_eq_Inr split: if_split_asm)
  have "drop (length HTTPS) s \<in> {netloc @ path, netloc @ path @ [63], netloc @ path @ [35], netloc @ path @ [63, 35]}"
    using split_url_parts split facts(3,4) by simp
  then obtain extra where extra: "drop (length HTTPS) s = netloc @ path @ extra" "extra \<in> {[], [63], [35], [63, 35]}"
    by auto
  have "url = HTTPS @ netloc @ path @ extra" using facts(1,2) extra(1) append_take_drop_id[of "length HTTPS" s] by simp
  then show thesis using that[OF _ _ extra(2) facts(5) refl facts(6-8)] v facts(1) by simp
qed

text \<open>A URL with an empty query is accepted although it is another spelling of the same address.\<close>

definition example_digest :: pystr where
  "example_digest = replicate 64 97"

lemma empty_query_accepted:
  assumes "extra \<in> {[], lit ''?''}"
  shows "validate_evidence_url (\<lambda>_. None) (JStr (lit ''https://a.b/'' @ example_digest @ extra)) example_digest
     = Inr (lit ''https://a.b/'' @ example_digest @ extra)"
proof -
  let ?s = "lit ''https://a.b/'' @ example_digest @ extra"
  have "list_all (\<lambda>x. x < 128) ?s" using assms by (auto simp: lit_def example_digest_def list_all_iff)
  then have encoded: "utf8_length ?s = Inr (length ?s)" unfolding utf8_length_def by (simp add: utf8_encode_ascii)
  have small: "length ?s \<le> MAX_URL_BYTES" using assms by (auto simp: lit_def example_digest_def)
  have marks: "37 \<notin> set ?s" "92 \<notin> set ?s" "\<not> list_ex (\<lambda>x. is_space x \<or> x < 32 \<or> x = 127) ?s"
    using assms by (auto simp: lit_def example_digest_def is_space_def list_ex_iff)
  have "take (length HTTPS) (lit ''https://a.b/'') = HTTPS" and https: "drop (length HTTPS) (lit ''https://a.b/'') = lit ''a.b/''"
    by code_simp+
  then have scheme: "take (length HTTPS) ?s = HTTPS" by (metis append_take_drop_id append_eq_conv_conj append_assoc)
  have "length HTTPS \<le> length (lit ''https://a.b/'')" by code_simp
  then have rest: "drop (length HTTPS) ?s = lit ''a.b/'' @ example_digest @ extra" using https by simp
  have "split_url (lit ''a.b/'' @ example_digest @ []) = (lit ''a.b'', lit ''/'' @ example_digest, [], [])"
    "split_url (lit ''a.b/'' @ example_digest @ lit ''?'') = (lit ''a.b'', lit ''/'' @ example_digest, [], [])"
    by code_simp+
  then have parts: "split_url (lit ''a.b/'' @ example_digest @ extra) = (lit ''a.b'', lit ''/'' @ example_digest, [], [])"
    using assms by auto
  have authority: "canonical_url_authority (\<lambda>_. None) (url_hostname (lit ''a.b'')) = Inr (lit ''a.b'')"
    and segments: "take 1 (lit ''/'' @ example_digest) = [47]" "list_all is_url_segment (tl (split_on 47 (lit ''/'' @ example_digest)))"
      "List.last (tl (split_on 47 (lit ''/'' @ example_digest))) = example_digest"
    by code_simp+
  have nonempty: "lit ''https://a.b/'' \<noteq> []" by (simp add: lit_def)
  show ?thesis
    unfolding validate_evidence_url_def json.case
    using encoded small marks scheme rest parts authority segments nonempty by (simp add: Let_def)
qed

section \<open>Accepted reports\<close>

lemma matrix_length: "length report_matrix = EXPECTED_CASE_COUNT"
  by (simp add: report_matrix_def EXPECTED_CASE_COUNT_def REQUIRED_CORPUS_IDS_def THREAD_TIERS_def)

lemma preflight_length:
  assumes "preflight_cases c contract manifest v = Inr ps"
  shows "length ps = EXPECTED_CASE_COUNT"
proof -
  obtain vs where "v = JList vs" using assms by (cases v) (auto simp: preflight_cases_def report_sequence_def)
  then have "map case_coordinate ps = report_matrix" using preflight_matrix(1) assms by blast
  then have "length (map case_coordinate ps) = EXPECTED_CASE_COUNT" using matrix_length by simp
  then show ?thesis by simp
qed

lemma parse_reference_id: "parse_reference ip evidence sample = Inr r \<Longrightarrow> re_sample_id r = sample"
  by (auto simp: parse_reference_def result_simps)

text \<open>
  An accepted report has a score for every case of the matrix, passes when all of them pass, and names the
  evidence of every run of every tool once, in the order of the identifiers.
\<close>

lemma accepted_report:
  assumes "evaluate_competitive_report c fl ip report = Inr r"
  shows "length (cr_cases r) = EXPECTED_CASE_COUNT"
    and "cr_scorecard_passed r \<longleftrightarrow> list_all sc_passed (cr_cases r)"
    and "sorted (map re_sample_id (cr_raw_evidence_index r))" and "distinct (map re_sample_id (cr_raw_evidence_index r))"
proof -
  obtain contract manifest candidate runner v preflight w evidence cases where
    pre: "preflight_cases c contract manifest v = Inr preflight"
    and index: "parse_raw_evidence_index c ip w preflight = Inr evidence"
    and cases: "mapR (\<lambda>p. report_guard (evaluate_scorecard_case c fl (pc_payload p))) preflight = Inr cases"
    and r: "r = \<lparr>cr_contract_sha256 = contract, cr_corpus_manifest_sha256 = manifest, cr_candidate = candidate,
       cr_runner = runner, cr_cases = cases, cr_raw_evidence_index = evidence,
       cr_scorecard_passed = (length cases = EXPECTED_CASE_COUNT \<and> list_all sc_passed cases)\<rparr>"
    using assms unfolding evaluate_competitive_report_def
    by (auto simp: bindR_eq_Inr split: if_split_asm)
  have size: "length cases = EXPECTED_CASE_COUNT" using mapR_length[OF cases] preflight_length[OF pre] by simp
  then show "length (cr_cases r) = EXPECTED_CASE_COUNT" "cr_scorecard_passed r \<longleftrightarrow> list_all sc_passed (cr_cases r)"
    by (simp_all add: r)
  obtain samples members where "mapR (parse_reference ip members) (sorted_list_of_set samples) = Inr evidence" "finite samples"
    using index unfolding parse_raw_evidence_index_def by (auto simp: bindR_eq_Inr Let_def split: if_split_asm)
  then have "map re_sample_id evidence = sorted_list_of_set samples"
    unfolding mapR_Inr_iff by (auto simp: list_all2_conv_all_nth parse_reference_id intro!: nth_equalityI)
  then show "sorted (map re_sample_id (cr_raw_evidence_index r))" "distinct (map re_sample_id (cr_raw_evidence_index r))"
    by (simp_all add: r)
qed

section \<open>Properties\<close>

text \<open>C39: The cases of an accepted report are exactly the matrix of corpora, thread tiers and metrics, in that order, with none lost or added; cases of one corpus and tier carry the same sizes and cases of one corpus the same input; and the order in which the report lists its cases does not matter.\<close>

theorem report_cases_exact:
  assumes "preflight_cases c contract manifest (JList vs) = Inr ps" and "mset ws = mset vs"
  shows "preflight_cases c contract manifest (JList ws) = Inr ps
     \<and> map case_coordinate ps = report_matrix \<and> mset (map pc_payload ps) = mset vs
     \<and> agree case_tier pc_size_fingerprint ps
     \<and> agree (\<lambda>p. ci_corpus_id (pc_identity p)) case_input ps"
  using preflight_permuted[OF assms] preflight_matrix[OF assms(1)] by blast

lemma report_cases_exact_witness:
  "preflight_cases zero_digest CONTRACT_SHA256 (replicate 64 48) (JList (rev (map report_case report_matrix)))
     = Inr (map preflighted report_matrix)
   \<and> map case_coordinate (map preflighted report_matrix) = report_matrix"
  using report_cases_exact[OF matrix_preflight, of "rev (map report_case report_matrix)"] by simp

end
