(* ===== verification/Spec2Isabelle.thy ===== *)
theory Spec2Isabelle
  imports ArchiveApi CompetitiveReport
begin

text \<open>
  A verification development of Mosaic Archive, the Python package under \<^verbatim>\<open>src/mosaic_archive\<close>.

  The program. Mosaic Archive packs a file or a folder into one encrypted archive. A source session
  (\<^verbatim>\<open>source_identity.py\<close>) discovers the source and holds it to its captured identities. The stable
  format MSC6 (\<^verbatim>\<open>dedup_archive.py\<close>, \<^verbatim>\<open>dedup_format.py\<close>) cuts every file into content-defined chunks
  (\<^verbatim>\<open>cdc.py\<close>), stores each distinct chunk once, compressed by the best of seven modes (\<^verbatim>\<open>modes/\<close>,
  \<^verbatim>\<open>features.py\<close>), in padded (\<^verbatim>\<open>padding.py\<close>), sealed frames (\<^verbatim>\<open>crypto.py\<close>, \<^verbatim>\<open>stream_format.py\<close>), behind a
  sealed manifest. MSC1 (\<^verbatim>\<open>archive.py\<close>, \<^verbatim>\<open>container_format.py\<close>) and MSC2 (\<^verbatim>\<open>stream_archive.py\<close>) are its
  predecessors. The solid formats MSR1 (\<^verbatim>\<open>solid_archive.py\<close>, \<^verbatim>\<open>solid_research.py\<close>) and MSR2
  (\<^verbatim>\<open>solid_archive_v2.py\<close>, \<^verbatim>\<open>solid_frames.py\<close>) route the distinct chunks into three lanes and compress
  each lane as one stream. \<^verbatim>\<open>archive_api.py\<close> chooses the encoder by name and the decoder by magic.
  Every encoder writes a temporary file beside its destination, verifies the source and renames; every
  decoder restores into a temporary file or folder, checks every digest and renames.

  The theories, from the bottom.
  \<^item> \<^verbatim>\<open>Prelude\<close>: bytes, exceptions as values of \<open>exn + 'a\<close> (the class of an exception with the constant
    part of its message), \<open>bindR\<close> for sequencing, the fields of \<^verbatim>\<open>struct\<close>, streams as their unread rest.
  \<^item> \<^verbatim>\<open>Codec\<close> (the interface of a mode as a locale), \<^verbatim>\<open>SimpleModes\<close> (\<^verbatim>\<open>raw.py\<close>, \<^verbatim>\<open>rle.py\<close>, \<^verbatim>\<open>delta.py\<close>),
    \<^verbatim>\<open>LzCommon\<close>, \<^verbatim>\<open>LzSimple\<close>, \<^verbatim>\<open>Rans\<close>, \<^verbatim>\<open>LzRans\<close>, \<^verbatim>\<open>Deflate\<close>: each mode's encoder and decoder; that they are
    lossless, keep the declared size, terminate. \<^verbatim>\<open>Features\<close> and \<^verbatim>\<open>Modes\<close>: block statistics, the mode
    table, both selectors; the chosen payload decodes and is minimal.
  \<^item> \<^verbatim>\<open>Cdc\<close>: gear table, configuration, the block-wise scanner; it refines a byte-at-a-time
    specification, however the stream is cut into blocks.
  \<^item> \<^verbatim>\<open>Text\<close>, \<^verbatim>\<open>Paths\<close>: code points, UTF-8, the portable path check. \<^verbatim>\<open>Padding\<close>: padding, decode limits,
    the layer over the cryptographic library. \<^verbatim>\<open>Formats\<close>: the public headers and the frame header, all
    interpretations of one locale \<open>wire\<close>, whose parsers accept exactly the packings.
  \<^item> \<^verbatim>\<open>Files\<close>: the file system, publication of a file. \<^verbatim>\<open>Restore\<close>: manifest entries, the restored tree,
    publication of a file or folder. \<^verbatim>\<open>Frames\<close>: sealed frames, which cannot be reordered.
  \<^item> \<^verbatim>\<open>Archive1\<close> (MSC1), \<^verbatim>\<open>Manifest\<close> and \<^verbatim>\<open>Archive2\<close> (MSC2), \<^verbatim>\<open>DedupManifest\<close> and \<^verbatim>\<open>ArchiveDedup\<close> (MSC3 to
    MSC6), \<^verbatim>\<open>SolidLanes\<close> and \<^verbatim>\<open>SolidArchive\<close> (MSR1), \<^verbatim>\<open>SolidFrames\<close>, \<^verbatim>\<open>CompactMetadata\<close> and \<^verbatim>\<open>SolidArchive2\<close>
    (MSR2): for each format its metadata, \<open>encode_\<close>, \<open>decode_\<close> and \<open>inspect_\<close> functions under the names of
    the code; round trips of the parts and of the whole, what a failure leaves behind, agreement of
    inspection and decoding, statistics, and archives that are written and can never be read.
  \<^item> \<^verbatim>\<open>SourceIdentity\<close>: the session against a history, a function from time to the state of the source,
    since other processes may change it between any two calls; what verification and reads observe.
    \<^verbatim>\<open>SourceQuiet\<close>: on a tree that nobody touches the session is that tree.
  \<^item> \<^verbatim>\<open>ArchiveApi\<close>: \<^verbatim>\<open>archive_api.py\<close>, and the composition of session, encoder, dispatch and decoder.
  \<^item> \<^verbatim>\<open>CompetitiveContract\<close>, \<^verbatim>\<open>CompetitiveScores\<close>: the rules of the competitive evaluation
    (\<^verbatim>\<open>competitive_contract.py\<close>): the contract document, case identities, the sampling of the bootstrap, the
    verdicts and the score. Identities are told apart, sampling is uniform, verdicts mean what they say.
  \<^item> \<^verbatim>\<open>CompetitiveReport\<close>: \<^verbatim>\<open>competitive_report.py\<close>: the declared identities, the matrix of cases, the index
    of evidence. An accepted report has exactly the required cases, consistent with each other; the loop
    over three dictionaries accepts exactly the consistent lists.
  \<^item> This theory: properties that hold across the formats.

  How state and operations correspond. A file system is a record of regular files, restored folder trees
  and other directories under path names. Encoders and decoders first make the missing directories that
  lead to their destination (\<open>make_parents\<close>), which fails when a file is on the way and which no failure
  undoes: \<open>writable_path\<close> says that no file is on the way, \<open>fresh_path\<close> that moreover nothing is at the
  path, and \<open>parents_at_most\<close> is what a failing run may leave. What the operating system chooses (the temporary name, the identity of a new file, the
  bytes of \<^verbatim>\<open>os.urandom\<close>, numbered by draw) is an \<open>os_choice\<close>, of which \<open>os_law\<close> says that names are fresh
  and draws as long as requested. An encoder takes a file system and yields a result and a file system.
  A source is a \<open>source_view\<close>: the session's entries, what a read of a path gives in each pass over the
  source, and the outcome of the final verification; \<open>open_session\<close> gives the view of a real session.

  Parameters. Code outside the repository is a parameter with named laws that state its documented
  behaviour: the cryptographic library (\<open>aead_law\<close>, \<open>digest_law\<close>), zlib (\<open>zlib_restores\<close>, \<open>zlib_ends\<close>), lzma
  (\<open>lzma_law\<close>), the incremental lzma and zstd objects (\<open>stream_law\<close>), \<^verbatim>\<open>math.log2\<close>, the rounding of
  floats, \<^verbatim>\<open>ipaddress\<close>, Unicode tables. Digests
  are assumed to tell apart the strings that are compared, where a theorem needs it, and only there.
  Each law has an instance (\<open>example_crypto\<close>, \<open>example_zlib\<close>, \<open>example_stream_lib\<close>) for the witnesses.

  Fuel. Loops without a structural measure take fuel and yield \<open>OutOfFuel\<close> when it ends; it is proved
  that the fuel given is enough: the folders of the tree for discovery, two more than the entries for
  verification, two more than the bytes that remain for a decompressor, the length of the spool for
  the frame loops, the length of the block for the chunk scanner.

  What the round trips assume. Names in Unicode normal form C (others cannot be archived,
  \<open>encode_unnormalised\<close>), and limits that the readers have and the encoders do not check: manifests
  fit their frame if the padding size is a multiple of 16 or the archive is at most 256 MiB long
  (\<open>padding_fits\<close>; see \<open>oversized_manifest_unreadable\<close>), and MSR2 archives must have at most 1000000
  frames and metadata within \<open>msr2_readable\<close> (see \<open>encode_msr2_unreadable\<close>, \<open>long_metadata_refused\<close>).

  Not modelled. Elapsed times, progress callbacks and temporary spool directories of the modelled files;
  enforcement of permissions; rounding of the
  floating-point entropies that choose a lane, which are exact rationals here (no theorem depends on
  which lane or mode was chosen; rounding in the contract is a parameter). A read whose client fails half
  way. Left out altogether: the command line (\<^verbatim>\<open>cli.py\<close>, printing and prompts), benchmarks and their
  publication (\<^verbatim>\<open>benchmark.py\<close>, \<^verbatim>\<open>benchmark_publication.py\<close>, \<^verbatim>\<open>comparisons.py\<close>, \<^verbatim>\<open>corpus.py\<close>), which run and
  time other programs, the machinery of the competitive evaluation around the contract (runners, cgroup
  supervision, corpus download, opening and parsing of files: processes, sockets, the kernel's file interfaces), release
  checks, fuzzing drivers, and the preview of a native core, which is Rust.
\<close>

section \<open>Properties across the formats\<close>

lemma encode_failures_atomic:
  assumes law: "os_law fs os"
  shows "encode_file c l os fs source is_file session dst password chunk padding log_n r p = (Inl e, fs') \<Longrightarrow> parents_at_most fs dst fs'"
    and "encode_stream_archive c l u os fs source is_dir session dst password chunk padding log_n r p = (Inl e, fs') \<Longrightarrow> parents_at_most fs dst fs'"
  by (auto simp: encode_file_def encode_stream_archive_def intro: publish_error[OF law] split: sum.splits)

text \<open>C11: A failing encode or restore, through the interface or of any single format, leaves every regular file (its bytes, metadata and identity) and every restored folder as it was, and no temporary output, wherever it fails: before anything is created, in the middle of a file, of the metadata pass, of the final checks or of the verification of the source. What can remain are directories on the way to the destination that did not exist before: the program makes them first and does not remove them; it makes no other.\<close>

lemma failures_keep_the_files:
  assumes "os_law fs os"
  shows "(\<forall>e fs'. encode_path c l lib u os fs source is_file session dst password chunk padding log_n lo hi profile fmt = (Inl e, fs') \<longrightarrow> parents_at_most fs dst fs')
    \<and> (\<forall>e fs'. decode_path c l lib u os fs archive dst password mo mf ma = (Inl e, fs') \<longrightarrow> parents_at_most fs dst fs')
    \<and> (\<forall>e fs'. decode_solid_archive_v2 c y lib u os fs archive dst password mo mf = (Inl e, fs') \<longrightarrow> parents_at_most fs dst fs')
    \<and> (\<forall>e fs'. encode_solid_archive_v2 c l lib u os fs source is_file session dst password config fps padding log_n = (Inl e, fs') \<longrightarrow> parents_at_most fs dst fs')
    \<and> (\<forall>e fs'. decode_file c l os fs archive dst password mo mf ma = (Inl e, fs') \<longrightarrow> parents_at_most fs dst fs')
    \<and> (\<forall>e fs'. decode_stream_archive c l u os fs archive dst password mo mf = (Inl e, fs') \<longrightarrow> parents_at_most fs dst fs')
    \<and> (\<forall>e fs'. decode_dedup_archive c l u os fs archive dst password mo mf = (Inl e, fs') \<longrightarrow> parents_at_most fs dst fs')
    \<and> (\<forall>e fs'. decode_solid_archive c z u os fs archive dst password = (Inl e, fs') \<longrightarrow> parents_at_most fs dst fs')
    \<and> (\<forall>e fs'. encode_file c l os fs source is_file session dst password chunk padding log_n r p = (Inl e, fs') \<longrightarrow> parents_at_most fs dst fs')
    \<and> (\<forall>e fs'. encode_stream_archive c l u os fs source is_file session dst password chunk padding log_n r p = (Inl e, fs') \<longrightarrow> parents_at_most fs dst fs')
    \<and> (\<forall>e fs'. encode_dedup_archive c l u os fs source is_file session dst password config padding log_n profile = (Inl e, fs') \<longrightarrow> parents_at_most fs dst fs')
    \<and> (\<forall>e fs'. encode_solid_archive c l z u os fs source is_file session dst password config padding log_n = (Inl e, fs') \<longrightarrow> parents_at_most fs dst fs')
    \<and> (\<forall>fs'. parents_at_most fs dst fs' \<longrightarrow>
          fs_files fs' = fs_files fs \<and> fs_trees fs' = fs_trees fs \<and> fs_resolve fs' = fs_resolve fs
          \<and> fs_directories fs \<subseteq> fs_directories fs'
          \<and> fs_directories fs' \<subseteq> fs_directories fs \<union> set (leading_directories dst))"
  by (intro conjI allI impI; erule decode_file_atomic[OF assms] decode_stream_atomic[OF assms] decode_dedup_atomic[OF assms]
    decode_solid_atomic[OF assms] decode_msr2_atomic[OF assms] encode_failures_atomic[OF assms] encode_solid_atomic[OF assms]
    encode_msr2_atomic[OF assms] encode_dedup_atomic[OF assms] encode_path_atomic[OF assms] decode_path_atomic[OF assms]
    parents_at_mostD)

lemma failures_keep_the_files_witness:
  "fst (encode_file example_crypto example_clib example_os example_fs (lit ''in'') True (Inr changed_view) (lit ''new/arc'')
      (PBytes [112]) 2 256 14 8 1) = Inl (RuntimeError ''source changed'')
   \<and> fs_files (snd (encode_file example_crypto example_clib example_os example_fs (lit ''in'') True (Inr changed_view) (lit ''new/arc'')
      (PBytes [112]) 2 256 14 8 1)) = fs_files example_fs
   \<and> fs_directories (snd (encode_file example_crypto example_clib example_os example_fs (lit ''in'') True (Inr changed_view) (lit ''new/arc'')
      (PBytes [112]) 2 256 14 8 1)) = {lit ''new''}
   \<and> snd (decode_solid_archive example_crypto example_lzma ascii_tables example_os example_fs (lit ''arc'') (lit ''out'')
       (PBytes [112])) = example_fs"
proof -
  note keep = failures_keep_the_files[OF example_os_law, where c = example_crypto and l = example_clib and lib = example_stream_lib
    and u = ascii_tables and y = example_zlib and z = example_lzma and source = "lit ''in''" and is_file = True
    and session = "Inr changed_view" and archive = "lit ''arc''" and password = "PBytes [112]" and chunk = 2 and padding = 256
    and log_n = 14 and r = 8 and p = 1 and mo = 10 and mf = 10 and ma = 10]
  have "fs_files fs' = fs_files example_fs"
    if "encode_file example_crypto example_clib example_os example_fs (lit ''in'') True (Inr changed_view) (lit ''new/arc'')
      (PBytes [112]) 2 256 14 8 1 = (Inl e, fs')" for e fs'
    using keep[where dst = "lit ''new/arc''"] that by blast
  note files = this[OF example_msc1_fails]
  obtain e fs' where fail: "decode_solid_archive example_crypto example_lzma ascii_tables example_os example_fs (lit ''arc'') (lit ''out'')
      (PBytes [112]) = (Inl e, fs')"
    by (simp add: decode_solid_archive_def read_solid_def example_fs_def lit_def)
  then have "parents_at_most example_fs (lit ''out'') fs'" using keep[where dst = "lit ''out''"] by blast
  then have "fs' = example_fs" by (auto simp: parents_at_most_def with_parents_def)
  with fail files example_msc1_fails example_new_directory show ?thesis by simp
qed

text \<open>C13: Whatever archive MSC1, MSC2, MSC6 or MSR2 can restore it can also inspect, under the same limits, and the inspection reports the restore's sizes, counts, modes and savings; that of MSR2, which restores into a temporary folder, leaves the file system as it was.\<close>

lemma inspections_agree:
  "(\<forall>stats fs'. decode_stream_archive c l u os fs archive dst password mo mf = (Inr stats, fs') \<longrightarrow>
     (\<exists>info. inspect_stream_archive c l u os' fs archive password mo mf = Inr info
       \<and> ssi_original_size info = ssd_original_size stats \<and> ssi_block_count info = ssd_block_count stats
       \<and> ssi_file_count info = ssd_file_count stats \<and> ssi_directory_count info = ssd_directory_count stats
       \<and> ssi_mode_distribution info = ssd_mode_distribution stats))
   \<and> (\<forall>stats fs'. decode_dedup_archive c l u os fs archive dst password mo mf = (Inr stats, fs') \<longrightarrow>
     (\<exists>info. inspect_dedup_archive c l u os' fs archive password mo mf = Inr info
       \<and> dsi_original_size info = dsd_original_size stats \<and> dsi_block_count info = dsd_block_count stats
       \<and> dsi_file_count info = dsd_file_count stats \<and> dsi_directory_count info = dsd_directory_count stats
       \<and> dsi_mode_distribution info = dsd_mode_distribution stats
       \<and> dsi_dedup_saved_bytes info = dsd_dedup_saved_bytes stats
       \<and> dsi_cross_file_duplicate_chunks info = dsd_cross_file_duplicate_chunks stats))
   \<and> (\<forall>stats fs'. decode_file c l os fs archive dst password mo mf ma = (Inr stats, fs') \<longrightarrow>
     (\<exists>info. inspect_archive c l fs archive password mo mf ma = Inr info
       \<and> ai_original_size info = ds_original_size stats \<and> ai_block_count info = ds_block_count stats
       \<and> ai_mode_distribution info = ds_mode_distribution stats))
   \<and> (\<forall>stats fs' scratch. decode_solid_archive_v2 c y lib u os fs archive dst password mo mf = (Inr stats, fs')
       \<and> os_law fs os' \<and> fresh_path fs scratch \<and> scratch \<noteq> oc_temporary os' \<and> fs_resolve fs archive \<noteq> fs_resolve fs scratch \<longrightarrow>
     inspect_solid_archive_v2 c y lib u os' scratch fs archive password mo mf = (Inr stats, fs))"
  by (intro conjI allI impI)
    (erule inspect_after_decode, erule inspect_after_dedup, erule inspect_after_file, elim conjE, erule (4) inspect_after_msr2)

lemma inspections_agree_witness:
  "(\<exists>fs1 info. inspect_stream_archive example_crypto example_clib ascii_tables example_os fs1 (lit ''arc'')
     (PBytes [112]) 1000 1000 = Inr info \<and> ssi_original_size info = 3)
   \<and> (\<exists>fs1 info. inspect_dedup_archive example_crypto example_clib ascii_tables example_os fs1 (lit ''arc'')
     (PBytes [112]) 1000 1000 = Inr info \<and> dsi_original_size info = 6)"
proof -
  obtain fs1 ds fs2 where dec: "decode_stream_archive example_crypto example_clib ascii_tables example_os' fs1
      (lit ''arc'') (lit ''out'') (PBytes [112]) 1000 1000 = (Inr ds, fs2)" and n: "ssd_original_size ds = 3"
    using example_msc2_decodes by blast
  obtain fs3 ds' fs4 where dec': "decode_dedup_archive example_crypto example_clib ascii_tables example_os' fs3
      (lit ''arc'') (lit ''out'') (PBytes [112]) 1000 1000 = (Inr ds', fs4)" and n': "dsd_original_size ds' = 6"
    using example_dedup_decodes by blast
  from inspections_agree[THEN conjunct1, rule_format, OF dec, of example_os] n
    inspections_agree[THEN conjunct2, THEN conjunct1, rule_format, OF dec', of example_os] n'
  show ?thesis by metis
qed

end
